(* ===== verification/Prelude.thy ===== *)
theory Prelude
  imports Main "HOL-Library.Char_ord" "HOL-Library.List_Lexorder"
begin

text \<open>
  Shared vocabulary of the development: the result type used wherever the Python
  raises, the calendar and clock values of the \<^verbatim>\<open>datetime\<close> module, and the generic
  lemmas on lists and association lists that the component theories use.

  \<^item> A \<^verbatim>\<open>datetime.date\<close> is its proleptic Gregorian ordinal
    (\<^verbatim>\<open>date.toordinal()\<close>), an integer between 1 and 3652059. Every date
    arithmetic operation that leaves that range raises \<^verbatim>\<open>OverflowError\<close>, as in
    CPython.
  \<^item> A \<^verbatim>\<open>datetime.time\<close> is a datatype with the four components of the Python class and
    the lexicographic order of its comparison methods.
  \<^item> A naive \<^verbatim>\<open>datetime.datetime\<close> is a date and a time; a \<^verbatim>\<open>timedelta\<close> is a number of
    microseconds, its exact internal resolution.
  \<^item> Instants that the program only ever compares or offsets in UTC
    (\<^verbatim>\<open>datetime.now(timezone.utc)\<close>) are integers counting microseconds.
\<close>

named_theorems calendar_simps \<open>arithmetic of dates, times and datetimes\<close>
named_theorems row_simps \<open>lookups and updates in tables held as lists of rows\<close>

section \<open>Errors as values\<close>

datatype py_error = OverflowError | KeyError string | ValueError string | TypeError string

type_synonym 'a result = "py_error + 'a"

definition result_bind :: "'e + 'a \<Rightarrow> ('a \<Rightarrow> 'e + 'b) \<Rightarrow> 'e + 'b" where
  "result_bind r f = (case r of Inl e \<Rightarrow> Inl e | Inr x \<Rightarrow> f x)"

lemma result_bind_simps [simp]:
  "result_bind (Inl e) f = Inl e"
  "result_bind (Inr x) f = f x"
  by (simp_all add: result_bind_def)

lemma result_bind_eq_Inr:
  "result_bind r f = Inr y \<longleftrightarrow> (\<exists>x. r = Inr x \<and> f x = Inr y)"
  by (cases r) simp_all

section \<open>Dates\<close>

type_synonym date = int

definition date_min :: date where "date_min = 1"

definition date_max :: date where "date_max = 3652059"

definition valid_date :: "date \<Rightarrow> bool" where
  "valid_date d \<longleftrightarrow> date_min \<le> d \<and> d \<le> date_max"

text \<open>\<^verbatim>\<open>d + timedelta(days=n)\<close>.\<close>

definition add_days :: "date \<Rightarrow> int \<Rightarrow> date result" where
  "add_days d n = (if valid_date (d + n) then Inr (d + n) else Inl OverflowError)"

text \<open>\<^verbatim>\<open>date.isoweekday()\<close>: CPython computes \<^verbatim>\<open>self.toordinal() % 7 or 7\<close>.\<close>

definition isoweekday :: "date \<Rightarrow> int" where
  "isoweekday d = (if d mod 7 = 0 then 7 else d mod 7)"

lemma isoweekday_alt: "isoweekday d = (d - 1) mod 7 + 1"
  unfolding isoweekday_def by presburger

lemma isoweekday_range: "isoweekday d \<in> {1..7}"
  unfolding isoweekday_alt by simp

lemma isoweekday_week_covers:
  assumes "w \<in> {1..7}" and "lo + 6 \<le> hi"
  shows "\<exists>d. lo \<le> d \<and> d \<le> hi \<and> isoweekday d = w"
proof (intro exI conjI)
  let ?d = "lo + (w - isoweekday lo) mod 7"
  have "0 \<le> (w - isoweekday lo) mod 7" "(w - isoweekday lo) mod 7 \<le> 6"
    using pos_mod_bound [of 7 "w - isoweekday lo"] by auto
  then show "lo \<le> ?d" "?d \<le> hi" using assms(2) by auto
  have "(?d - 1) mod 7 = (lo - 1 + (w - isoweekday lo)) mod 7"
    using mod_add_right_eq [of "lo - 1" "w - isoweekday lo" 7] by (simp add: algebra_simps)
  also have "lo - 1 + (w - isoweekday lo) = w - 1 + 7 * ((lo - 1) div 7)"
    using div_mult_mod_eq [of "lo - 1" 7] unfolding isoweekday_alt by linarith
  also have "(w - 1 + 7 * ((lo - 1) div 7)) mod 7 = (w - 1) mod 7"
    by simp
  also have "\<dots> = w - 1" using assms(1) by simp
  finally show "isoweekday ?d = w" by (simp add: isoweekday_alt)
qed

section \<open>Times of day\<close>

datatype py_time = Time (hour: int) (minute: int) (second: int) (microsecond: int)

text \<open>The ranges the \<^verbatim>\<open>datetime.time\<close> constructor enforces.\<close>

definition valid_time :: "py_time \<Rightarrow> bool" where
  "valid_time t \<longleftrightarrow> 0 \<le> hour t \<and> hour t < 24 \<and> 0 \<le> minute t \<and> minute t < 60
     \<and> 0 \<le> second t \<and> second t < 60 \<and> 0 \<le> microsecond t \<and> microsecond t < 1000000"

instantiation py_time :: linorder
begin

definition less_eq_py_time :: "py_time \<Rightarrow> py_time \<Rightarrow> bool" where
  "less_eq_py_time s t \<longleftrightarrow>
     [hour s, minute s, second s, microsecond s] \<le> [hour t, minute t, second t, microsecond t]"

definition less_py_time :: "py_time \<Rightarrow> py_time \<Rightarrow> bool" where
  "less_py_time s t \<longleftrightarrow>
     [hour s, minute s, second s, microsecond s] < [hour t, minute t, second t, microsecond t]"

instance
proof
  fix x y z :: py_time
  show "x < y \<longleftrightarrow> x \<le> y \<and> \<not> y \<le> x"
    unfolding less_eq_py_time_def less_py_time_def by auto
  show "x \<le> x" unfolding less_eq_py_time_def by simp
  show "x \<le> y \<Longrightarrow> y \<le> z \<Longrightarrow> x \<le> z" unfolding less_eq_py_time_def by (rule order_trans)
  show "x \<le> y \<Longrightarrow> y \<le> x \<Longrightarrow> x = y"
    unfolding less_eq_py_time_def by (cases x; cases y) auto
  show "x \<le> y \<or> y \<le> x" unfolding less_eq_py_time_def by (rule linear)
qed

end

definition DAY_US :: int where "DAY_US = 86400000000"

section \<open>Naive datetimes\<close>

datatype datetime = Datetime (dt_date: date) (dt_time: py_time)

text \<open>Microseconds of a time since midnight, and of a datetime since ordinal day 0.\<close>

definition time_us :: "py_time \<Rightarrow> int" where
  "time_us t = ((hour t * 3600 + minute t * 60 + second t) * 1000000) + microsecond t"

definition dt_us :: "datetime \<Rightarrow> int" where
  "dt_us dt = dt_date dt * DAY_US + time_us (dt_time dt)"

definition valid_datetime :: "datetime \<Rightarrow> bool" where
  "valid_datetime dt \<longleftrightarrow> valid_date (dt_date dt) \<and> valid_time (dt_time dt)"

lemma time_us_range: "valid_time t \<Longrightarrow> 0 \<le> time_us t \<and> time_us t < DAY_US"
  unfolding valid_time_def time_us_def DAY_US_def by auto

lemma time_less_iff [calendar_simps]:
  assumes "valid_time s" "valid_time t"
  shows "s < t \<longleftrightarrow> time_us s < time_us t"
  using assms unfolding less_py_time_def time_us_def valid_time_def
  by (cases s; cases t) (auto simp: Cons_less_Cons; linarith)

lemma time_us_inj:
  assumes "valid_time s" "valid_time t" "time_us s = time_us t"
  shows "s = t"
  using time_less_iff [OF assms(1,2)] time_less_iff [OF assms(2,1)] assms(3) by auto

lemma time_le_iff [calendar_simps]:
  assumes "valid_time s" "valid_time t"
  shows "s \<le> t \<longleftrightarrow> time_us s \<le> time_us t"
  using time_less_iff [OF assms(2,1)] by auto

instantiation datetime :: linorder
begin

definition less_eq_datetime :: "datetime \<Rightarrow> datetime \<Rightarrow> bool" where
  "less_eq_datetime a b \<longleftrightarrow> dt_date a < dt_date b \<or> dt_date a = dt_date b \<and> dt_time a \<le> dt_time b"

definition less_datetime :: "datetime \<Rightarrow> datetime \<Rightarrow> bool" where
  "less_datetime a b \<longleftrightarrow> dt_date a < dt_date b \<or> dt_date a = dt_date b \<and> dt_time a < dt_time b"

instance
proof
  fix x y z :: datetime
  show "x < y \<longleftrightarrow> x \<le> y \<and> \<not> y \<le> x"
    unfolding less_eq_datetime_def less_datetime_def by auto
  show "x \<le> x" unfolding less_eq_datetime_def by simp
  show "x \<le> y \<Longrightarrow> y \<le> z \<Longrightarrow> x \<le> z" unfolding less_eq_datetime_def by auto
  show "x \<le> y \<Longrightarrow> y \<le> x \<Longrightarrow> x = y"
    unfolding less_eq_datetime_def by (cases x; cases y) auto
  show "x \<le> y \<or> y \<le> x" unfolding less_eq_datetime_def by auto
qed

end

lemma day_digit_less:
  fixes d d' u u' :: int
  assumes "0 \<le> u" "u < DAY_US" "0 \<le> u'" "u' < DAY_US"
  shows "d * DAY_US + u < d' * DAY_US + u' \<longleftrightarrow> d < d' \<or> d = d' \<and> u < u'"
proof -
  have "d * DAY_US + u < d' * DAY_US + u'" if "d < d'"
  proof -
    have "(d + 1) * DAY_US \<le> d' * DAY_US" using that by (simp add: DAY_US_def)
    then show ?thesis using assms by (simp add: algebra_simps)
  qed
  moreover have "\<not> d * DAY_US + u < d' * DAY_US + u'" if "d' < d"
  proof -
    have "(d' + 1) * DAY_US \<le> d * DAY_US" using that by (simp add: DAY_US_def)
    then show ?thesis using assms by (simp add: algebra_simps)
  qed
  ultimately show ?thesis by (cases d d' rule: linorder_cases) auto
qed

lemma datetime_less_iff [calendar_simps]:
  assumes "valid_time (dt_time a)" "valid_time (dt_time b)"
  shows "a < b \<longleftrightarrow> dt_us a < dt_us b"
  using time_us_range [OF assms(1)] time_us_range [OF assms(2)]
  by (simp add: less_datetime_def dt_us_def day_digit_less time_less_iff [OF assms])

section \<open>Python dictionaries\<close>

text \<open>
  A \<^verbatim>\<open>dict\<close> is an association list in insertion order. Storing at a present key keeps its
  position, storing at a new key appends, and \<^verbatim>\<open>pop\<close> removes the key.
\<close>

type_synonym ('k, 'v) dict = "('k \<times> 'v) list"

fun dict_set :: "'k \<Rightarrow> 'v \<Rightarrow> ('k, 'v) dict \<Rightarrow> ('k, 'v) dict" where
  "dict_set k v [] = [(k, v)]"
| "dict_set k v ((k', v') # m) = (if k = k' then (k, v) # m else (k', v') # dict_set k v m)"

definition dict_pop :: "'k \<Rightarrow> ('k, 'v) dict \<Rightarrow> ('k, 'v) dict" where
  "dict_pop k m = filter (\<lambda>(k', v). k' \<noteq> k) m"

definition dict_ok :: "('k, 'v) dict \<Rightarrow> bool" where
  "dict_ok m \<longleftrightarrow> distinct (map fst m)"

lemma map_of_dict_set [simp]: "map_of (dict_set k v m) = (map_of m)(k \<mapsto> v)"
  by (induction k v m rule: dict_set.induct) auto

lemma keys_dict_set [simp]: "fst ` set (dict_set k v m) = insert k (fst ` set m)"
  by (induction k v m rule: dict_set.induct) auto

lemma dict_ok_set [intro, simp]: "dict_ok m \<Longrightarrow> dict_ok (dict_set k v m)"
  unfolding dict_ok_def
proof (induction k v m rule: dict_set.induct)
  case (2 k v k' v' m)
  then show ?case using keys_dict_set [of k v m] by (auto simp: image_iff)
qed simp

lemma map_of_filter_key: "map_of (filter (\<lambda>(k', v). P k') m) k = (if P k then map_of m k else None)"
  by (induction m) auto

lemma map_of_dict_pop [simp]: "map_of (dict_pop k m) = (map_of m)(k := None)"
  unfolding dict_pop_def by (rule ext) (simp add: map_of_filter_key)

lemma dict_ok_filter [intro, simp]: "dict_ok m \<Longrightarrow> dict_ok (filter P m)"
  by (simp add: dict_ok_def distinct_map_filter)

lemma dict_ok_pop [intro, simp]: "dict_ok m \<Longrightarrow> dict_ok (dict_pop k m)"
  by (simp add: dict_pop_def)

lemma map_of_filter_dict:
  "dict_ok m \<Longrightarrow> map_of (filter P m) k
     = (case map_of m k of Some v \<Rightarrow> if P (k, v) then Some v else None | None \<Rightarrow> None)"
  unfolding dict_ok_def
proof (induction m)
  case (Cons kv m)
  then show ?case
    by (cases kv) (auto split: option.splits dest: map_of_SomeD simp: image_iff)
qed simp

lemma dict_ok_mem_iff: "dict_ok m \<Longrightarrow> (k, v) \<in> set m \<longleftrightarrow> map_of m k = Some v"
  by (simp add: dict_ok_def)

section \<open>Text\<close>

definition digit_char :: "int \<Rightarrow> char" where
  "digit_char n = ''0123456789'' ! nat n"

text \<open>\<^verbatim>\<open>str(n)\<close> of an integer.\<close>

function nat_text :: "int \<Rightarrow> string" where
  "nat_text n = (if n < 10 then [digit_char n] else nat_text (n div 10) @ [digit_char (n mod 10)])"
  by pat_completeness auto
termination by (relation "measure nat") auto

declare nat_text.simps [simp del]

definition int_text :: "int \<Rightarrow> string" where
  "int_text n = (if n < 0 then ''-'' @ nat_text (- n) else nat_text n)"

definition pad2 :: "int \<Rightarrow> string" where
  "pad2 n = [digit_char (n div 10), digit_char (n mod 10)]"

text \<open>\<^verbatim>\<open>t.strftime("%H:%M:%S")\<close> and \<^verbatim>\<open>t.strftime("%I:%M %p").lstrip("0")\<close>.\<close>

definition strftime_hms :: "py_time \<Rightarrow> string" where
  "strftime_hms t = pad2 (hour t) @ '':'' @ pad2 (minute t) @ '':'' @ pad2 (second t)"

definition strftime_ampm :: "py_time \<Rightarrow> string" where
  "strftime_ampm t =
     dropWhile (\<lambda>c. c = CHR ''0'')
       (pad2 (if hour t mod 12 = 0 then 12 else hour t mod 12) @ '':'' @ pad2 (minute t)
        @ (if hour t < 12 then '' AM'' else '' PM''))"

text \<open>\<^verbatim>\<open>f"{n} unit{'s' if n != 1 else ''}"\<close>\<close>

definition plural :: "int \<Rightarrow> string \<Rightarrow> string" where
  "plural n unit = int_text n @ '' '' @ unit @ (if n \<noteq> 1 then ''s'' else '''')"

text \<open>The em dash the program shows for a missing name, in UTF-8.\<close>

definition em_dash :: string where
  "em_dash = [CHR 0xE2, CHR 0x80, CHR 0x94]"

text \<open>\<^verbatim>\<open>d.setdefault(k, []).append(v)\<close> and the grouping loop built from it.\<close>

definition dict_append :: "'k \<Rightarrow> 'v \<Rightarrow> ('k, 'v list) dict \<Rightarrow> ('k, 'v list) dict" where
  "dict_append k v m = dict_set k ((case map_of m k of None \<Rightarrow> [] | Some vs \<Rightarrow> vs) @ [v]) m"

definition group_by :: "('v \<Rightarrow> 'k) \<Rightarrow> 'v list \<Rightarrow> ('k, 'v list) dict" where
  "group_by f vs = fold (\<lambda>v m. dict_append (f v) v m) vs []"

lemma map_of_group_fold:
  "map_of (fold (\<lambda>v m. dict_append (f v) v m) vs m) k =
     (if filter (\<lambda>v. f v = k) vs = [] then map_of m k
      else Some ((case map_of m k of None \<Rightarrow> [] | Some us \<Rightarrow> us) @ filter (\<lambda>v. f v = k) vs))"
  by (induction vs arbitrary: m) (auto simp: dict_append_def split: option.splits)

lemma map_of_group_by:
  "map_of (group_by f vs) k =
     (if filter (\<lambda>v. f v = k) vs = [] then None else Some (filter (\<lambda>v. f v = k) vs))"
  by (simp add: group_by_def map_of_group_fold)

lemma dict_ok_group_by [simp]: "dict_ok (group_by f vs)"
proof -
  have "dict_ok m \<Longrightarrow> dict_ok (fold (\<lambda>v m. dict_append (f v) v m) vs m)" for m
    by (induction vs arbitrary: m) (auto simp: dict_append_def)
  then show ?thesis by (simp add: group_by_def dict_ok_def)
qed

lemma mem_group_by:
  "(k, us) \<in> set (group_by f vs) \<longleftrightarrow> us = filter (\<lambda>v. f v = k) vs \<and> us \<noteq> []"
  by (auto simp: dict_ok_mem_iff map_of_group_by)

text \<open>\<^verbatim>\<open>itertools.combinations(xs, 2)\<close>.\<close>

fun combinations2 :: "'a list \<Rightarrow> ('a \<times> 'a) list" where
  "combinations2 [] = []"
| "combinations2 (x # xs) = map (Pair x) xs @ combinations2 xs"

lemma mem_combinations2: "(a, b) \<in> set (combinations2 xs) \<Longrightarrow> a \<in> set xs \<and> b \<in> set xs"
  by (induction xs) auto

lemma combinations2_neq: "distinct xs \<Longrightarrow> (a, b) \<in> set (combinations2 xs) \<Longrightarrow> a \<noteq> b"
  by (induction xs) (auto dest: mem_combinations2)

lemma combinations2_covers:
  "a \<in> set xs \<Longrightarrow> b \<in> set xs \<Longrightarrow> a \<noteq> b \<Longrightarrow>
     (a, b) \<in> set (combinations2 xs) \<or> (b, a) \<in> set (combinations2 xs)"
  by (induction xs) auto

text \<open>\<^verbatim>\<open>pat in s\<close> and \<^verbatim>\<open>s.lower()\<close> on ASCII text.\<close>

fun contains_text :: "string \<Rightarrow> string \<Rightarrow> bool" where
  "contains_text pat [] \<longleftrightarrow> pat = []"
| "contains_text pat (c # s) \<longleftrightarrow> take (length pat) (c # s) = pat \<or> contains_text pat s"

definition lower_char :: "char \<Rightarrow> char" where
  "lower_char c = (if of_char c \<ge> (65 :: int) \<and> of_char c \<le> (90 :: int)
     then char_of (of_char c + 32 :: int) else c)"

definition lower_text :: "string \<Rightarrow> string" where
  "lower_text s = map lower_char s"

text \<open>A string between single quotes, and \<^verbatim>\<open>sep.join(parts)\<close>.\<close>

definition quoted :: "string \<Rightarrow> string" where
  "quoted s = [CHR 0x27] @ s @ [CHR 0x27]"

fun join_text :: "string \<Rightarrow> string list \<Rightarrow> string" where
  "join_text sep [] = []"
| "join_text sep [x] = x"
| "join_text sep (x # y # xs) = x @ sep @ join_text sep (y # xs)"

text \<open>The decimal text of a number determines it.\<close>

definition text_value :: "string \<Rightarrow> int" where
  "text_value s = fold (\<lambda>c n. n * 10 + (of_char c - 48)) s 0"

lemma digit_char_value: "0 \<le> n \<Longrightarrow> n < 10 \<Longrightarrow> of_char (digit_char n) - 48 = n"
proof -
  assume "0 \<le> n" "n < 10"
  then have "n = 0 \<or> n = 1 \<or> n = 2 \<or> n = 3 \<or> n = 4 \<or> n = 5 \<or> n = 6 \<or> n = 7 \<or> n = 8 \<or> n = 9"
    by presburger
  then show ?thesis by (auto simp: digit_char_def numeral_eq_Suc)
qed

lemma text_value_nat_text: "0 \<le> n \<Longrightarrow> text_value (nat_text n) = n"
proof (induction n rule: nat_text.induct)
  case (1 n)
  show ?case
  proof (cases "n < 10")
    case True
    then show ?thesis using 1 by (simp add: nat_text.simps [of n] text_value_def digit_char_value)
  next
    case False
    have "nat_text n = nat_text (n div 10) @ [digit_char (n mod 10)]"
      using False by (simp add: nat_text.simps [of n])
    then have "text_value (nat_text n) = text_value (nat_text (n div 10)) * 10 + (of_char (digit_char (n mod 10)) - 48)"
      by (simp add: text_value_def)
    also have "\<dots> = n div 10 * 10 + n mod 10"
    proof -
      have "of_char (digit_char (n mod 10)) - 48 = n mod 10" by (rule digit_char_value) simp_all
      moreover have "text_value (nat_text (n div 10)) = n div 10"
        using "1.IH" [OF False] "1.prems" by (simp add: pos_imp_zdiv_nonneg_iff)
      ultimately show ?thesis by simp
    qed
    also have "\<dots> = n" by (rule div_mult_mod_eq)
    finally show ?thesis .
  qed
qed

lemma int_text_inject:
  assumes "0 \<le> m" "0 \<le> n" "int_text m = int_text n"
  shows "m = n"
proof -
  have "nat_text m = nat_text n" using assms by (simp add: int_text_def)
  then have "text_value (nat_text m) = text_value (nat_text n)" by (rule arg_cong)
  then show ?thesis unfolding text_value_nat_text [OF assms(1)] text_value_nat_text [OF assms(2)] .
qed

text \<open>A search through numbered candidates: with one more attempt than there are names in use it finds
  a free one.\<close>

fun first_free :: "nat \<Rightarrow> (int \<Rightarrow> 'a) \<Rightarrow> 'a list \<Rightarrow> int \<Rightarrow> 'a option" where
  "first_free 0 candidate used n = None"
| "first_free (Suc fuel) candidate used n =
     (if candidate n \<notin> set used then Some (candidate n) else first_free fuel candidate used (n + 1))"

lemma first_free_finds:
  "k < fuel \<Longrightarrow> candidate (n + int k) \<notin> set used \<Longrightarrow> \<exists>x. first_free fuel candidate used n = Some x \<and> x \<notin> set used"
proof (induction fuel candidate used n arbitrary: k rule: first_free.induct)
  case (2 fuel candidate used n)
  show ?case
  proof (cases "candidate n \<in> set used")
    case True
    then obtain k' where k': "k = Suc k'" using "2.prems"(2) by (cases k) auto
    have "\<exists>x. first_free fuel candidate used (n + 1) = Some x \<and> x \<notin> set used"
      by (rule "2.IH" [of k']) (use True "2.prems" k' in \<open>auto simp: algebra_simps\<close>)
    then show ?thesis using True by simp
  qed simp
qed simp

lemma first_free_total:
  assumes "\<And>i j. n \<le> i \<Longrightarrow> n \<le> j \<Longrightarrow> candidate i = candidate j \<Longrightarrow> i = j"
  shows "\<exists>x. first_free (Suc (length used)) candidate used n = Some x \<and> x \<notin> set used"
proof -
  have "\<exists>k < Suc (length used). candidate (n + int k) \<notin> set used"
  proof (rule ccontr)
    assume "\<not> ?thesis"
    then have "(\<lambda>k. candidate (n + int k)) ` {..<Suc (length used)} \<subseteq> set used" by auto
    moreover have "inj_on (\<lambda>k. candidate (n + int k)) {..<Suc (length used)}"
      by (rule inj_onI) (use assms [of "n + int _" "n + int _"] in fastforce)
    ultimately have "card {..<Suc (length used)} \<le> card (set used)"
      using card_inj_on_le [of _ "{..<Suc (length used)}" "set used"] by blast
    then show False using card_length [of used] by simp
  qed
  then show ?thesis using first_free_finds by blast
qed

lemma set_nat_text: "0 \<le> n \<Longrightarrow> set (nat_text n) \<subseteq> set ''0123456789''"
proof (induction n rule: nat_text.induct)
  case (1 n)
  have digit: "digit_char d \<in> set ''0123456789''" if "0 \<le> d" "d < 10" for d
    unfolding digit_char_def using that by (intro nth_mem) (simp add: nat_less_iff)
  show ?case
  proof (cases "n < 10")
    case True
    then show ?thesis using digit [of n] "1.prems" by (subst nat_text.simps) simp
  next
    case False
    then have "set (nat_text (n div 10)) \<subseteq> set ''0123456789''" using "1.IH" "1.prems" by simp
    moreover have "digit_char (n mod 10) \<in> set ''0123456789''" by (rule digit) simp_all
    ultimately show ?thesis using False by (subst nat_text.simps) simp
  qed
qed

lemma lower_char_idem [simp]: "lower_char (lower_char c) = lower_char c"
  by (auto simp: lower_char_def of_char_of)

lemma lower_text_idem [simp]: "lower_text (lower_text s) = lower_text s"
  by (simp add: lower_text_def)

lemma lower_text_append [simp]: "lower_text (s @ t) = lower_text s @ lower_text t"
  by (simp add: lower_text_def)

lemma lower_text_takeWhile: "lower_text s = s \<Longrightarrow> lower_text (takeWhile P s) = takeWhile P s"
  by (induction s) (auto simp: lower_text_def)

lemma lower_int_text: "0 \<le> n \<Longrightarrow> lower_text (int_text n) = int_text n"
proof -
  assume n: "0 \<le> n"
  have "lower_text s = s" if "set s \<subseteq> set ''0123456789''" for s
    using that by (induction s) (auto simp: lower_text_def lower_char_def)
  then show ?thesis using set_nat_text [OF n] n by (simp add: int_text_def)
qed

section \<open>Transition systems\<close>

text \<open>The interface every component with a step relation provides: a property of its states that each step keeps. Its lemmas
  carry the property along runs, and to the states reachable from given ones.\<close>

locale step_invariant =
  fixes step :: "'s \<Rightarrow> 's \<Rightarrow> bool"
    and inv :: "'s \<Rightarrow> bool"
  assumes step_keeps: "step s t \<Longrightarrow> inv s \<Longrightarrow> inv t"
begin

lemma run_keeps: "step\<^sup>*\<^sup>* s t \<Longrightarrow> inv s \<Longrightarrow> inv t"
  by (induction rule: rtranclp_induct) (auto intro: step_keeps)

lemma reachable_inv: "(\<And>s. initial s \<Longrightarrow> inv s) \<Longrightarrow> \<exists>s. initial s \<and> step\<^sup>*\<^sup>* s t \<Longrightarrow> inv t"
  using run_keeps by blast

end

end
