(* ===== verification/Schedule_Model.thy ===== *)
theory Schedule_Model
  imports Prelude
begin

text \<open>
  The rows the scheduler reads: assets (\<^verbatim>\<open>shared/models/asset.py\<close>), device groups and
  devices (\<^verbatim>\<open>cms/models/device.py\<close>) and schedules (\<^verbatim>\<open>cms/models/schedule.py\<close>), restricted
  to the columns its code uses. Primary keys that are UUIDs are held as their canonical
  text \<^verbatim>\<open>str(id)\<close>, which is injective on UUIDs and is what the program compares and keys
  its dictionaries with. A relationship (\<^verbatim>\<open>schedule.asset\<close>, \<^verbatim>\<open>schedule.group\<close>) is the
  referenced row or \<^verbatim>\<open>None\<close>.
\<close>

datatype asset_type =
    VIDEO | IMAGE | WEBPAGE | STREAM | SAVED_STREAM | SLIDESHOW | COMPOSED | VOICE_ANNOUNCEMENT

fun asset_type_value :: "asset_type \<Rightarrow> string" where
  "asset_type_value VIDEO = ''video''"
| "asset_type_value IMAGE = ''image''"
| "asset_type_value WEBPAGE = ''webpage''"
| "asset_type_value STREAM = ''stream''"
| "asset_type_value SAVED_STREAM = ''saved_stream''"
| "asset_type_value SLIDESHOW = ''slideshow''"
| "asset_type_value COMPOSED = ''composed''"
| "asset_type_value VOICE_ANNOUNCEMENT = ''voice_announcement''"

record asset =
  asset_id :: string
  filename :: string
  original_filename :: "string option"
  display_name :: "string option"
  asset_type_of :: asset_type
  asset_checksum :: string
  asset_url :: "string option"
  asset_deleted_at :: "int option"
  duration_us :: "int option"

record device_group =
  dg_id :: string
  dg_name :: string
  dg_default_asset :: "asset option"

datatype device_status = PENDING | ADOPTED | ORPHANED

fun device_status_value :: "device_status \<Rightarrow> string" where
  "device_status_value PENDING = ''pending''"
| "device_status_value ADOPTED = ''adopted''"
| "device_status_value ORPHANED = ''orphaned''"

record schedule =
  sched_id :: string
  sched_name :: string
  group_id :: "string option"
  sched_group :: "device_group option"
  tag_id :: "string option"
  sched_asset :: "asset option"
  start_date :: "datetime option"
  end_date :: "datetime option"
  start_time :: py_time
  end_time :: py_time
  days_of_week :: "int list option"
  priority :: int
  enabled :: bool
  loop_count :: "int option"
  skipped_until :: "datetime option"

text \<open>What the column types guarantee of a loaded row: its times are times of day.\<close>

definition valid_schedule :: "schedule \<Rightarrow> bool" where
  "valid_schedule s \<longleftrightarrow> valid_time (start_time s) \<and> valid_time (end_time s)"

text \<open>A text column is falsy in Python when it is NULL or the empty string.\<close>

definition truthy :: "string option \<Rightarrow> bool" where
  "truthy v \<longleftrightarrow> v \<noteq> None \<and> v \<noteq> Some ''''"

text \<open>The chain \<^verbatim>\<open>a or b\<close> on optional strings.\<close>

definition or_str :: "string option \<Rightarrow> string option \<Rightarrow> string option" where
  "or_str a b = (if truthy a then a else b)"

lemma truthy_simps [simp]:
  "\<not> truthy None"
  "truthy (Some x) \<longleftrightarrow> x \<noteq> ''''"
  by (simp_all add: truthy_def)

end
