(* ===== verification/Occurrence.thy ===== *)
theory Occurrence
  imports Schedule_Model
begin

text \<open>
  The occurrence model of schedules, \<^verbatim>\<open>cms/services/occurrence.py\<close>: one definition per
  function, in the order of the file. The abstract meaning of a schedule is the set of
  instants covered by one of its occurrences (\<open>covers\<close>); the two public predicates of the
  module, \<open>matches_at\<close> and \<open>schedules_overlap\<close>, are proved to decide membership in that
  set and intersection of two such sets.
\<close>

section \<open>Definitions\<close>

definition ALL_WEEKDAYS :: "int set" where "ALL_WEEKDAYS = {1..7}"

definition time_to_us :: "py_time \<Rightarrow> int" where
  "time_to_us t = ((hour t * 3600 + minute t * 60 + second t) * 1000000) + microsecond t"

definition occurrence_bounds :: "py_time \<Rightarrow> py_time \<Rightarrow> (int \<times> int) option" where
  "occurrence_bounds st en =
     (let start_us = time_to_us st; end_us = time_to_us en
      in if end_us = start_us then None
         else if end_us < start_us then Some (start_us, end_us + DAY_US)
         else Some (start_us, end_us))"

definition allowed_weekdays :: "int list option \<Rightarrow> int set" where
  "allowed_weekdays days =
     (case days of None \<Rightarrow> ALL_WEEKDAYS
      | Some ds \<Rightarrow> if ds = [] then ALL_WEEKDAYS else set ds \<inter> ALL_WEEKDAYS)"

text \<open>The argument of \<^verbatim>\<open>_date_of\<close> is a \<^verbatim>\<open>datetime\<close>, a \<^verbatim>\<open>date\<close> or \<^verbatim>\<open>None\<close>.\<close>

datatype day_value = DateValue date | DatetimeValue datetime

definition date_of :: "day_value option \<Rightarrow> date option" where
  "date_of v = (case v of None \<Rightarrow> None
     | Some (DatetimeValue dt) \<Rightarrow> Some (dt_date dt)
     | Some (DateValue d) \<Rightarrow> Some d)"

definition shift_weekday :: "int \<Rightarrow> int \<Rightarrow> int" where
  "shift_weekday weekday delta = ((weekday - 1 + delta) mod 7) + 1"

text \<open>The \<^verbatim>\<open>while d <= hi\<close> loop of \<^verbatim>\<open>_range_contains_weekday\<close>.\<close>

function weekday_loop :: "date \<Rightarrow> date \<Rightarrow> int set \<Rightarrow> bool result" where
  "weekday_loop d hi weekdays =
     (if d \<le> hi
      then if isoweekday d \<in> weekdays then Inr True
           else case add_days d 1 of
                  Inl e \<Rightarrow> Inl e
                | Inr d' \<Rightarrow> weekday_loop d' hi weekdays
      else Inr False)"
  by pat_completeness auto
termination
  by (relation "measure (\<lambda>(d, hi, w). nat (hi + 1 - d))")
     (auto simp: add_days_def split: if_splits)

definition range_contains_weekday :: "date option \<Rightarrow> date option \<Rightarrow> int set \<Rightarrow> bool result" where
  "range_contains_weekday lo hi weekdays =
     (if weekdays = {} then Inr False
      else case (lo, hi) of
        (Some l, Some h) \<Rightarrow>
          (if l > h then Inr False
           else if h - l \<ge> 6 then Inr True
           else weekday_loop l h weekdays)
      | _ \<Rightarrow> Inr True)"

text \<open>The body of the \<^verbatim>\<open>for anchor in ...\<close> loop of \<^verbatim>\<open>matches_at\<close> for one anchor.\<close>

definition anchor_matches ::
  "int set \<Rightarrow> date option \<Rightarrow> date option \<Rightarrow> int \<Rightarrow> int \<Rightarrow> date \<Rightarrow> int \<Rightarrow> date \<Rightarrow> bool" where
  "anchor_matches days lo hi start_us end_us now_date now_us anchor =
     (if isoweekday anchor \<notin> days then False
      else if (case lo of None \<Rightarrow> False | Some l \<Rightarrow> anchor < l) then False
      else if (case hi of None \<Rightarrow> False | Some h \<Rightarrow> anchor > h) then False
      else let offset_us = now_us + (if anchor = now_date then 0 else DAY_US)
           in start_us \<le> offset_us \<and> offset_us < end_us)"

definition matches_at :: "schedule \<Rightarrow> datetime \<Rightarrow> bool result" where
  "matches_at s now =
     (if \<not> enabled s then Inr False
      else case occurrence_bounds (start_time s) (end_time s) of
        None \<Rightarrow> Inr False
      | Some (start_us, end_us) \<Rightarrow>
          (let days = allowed_weekdays (days_of_week s);
               lo = date_of (map_option DatetimeValue (start_date s));
               hi = date_of (map_option DatetimeValue (end_date s));
               now_date = dt_date now;
               now_us = (hour (dt_time now) * 3600 + minute (dt_time now) * 60
                          + second (dt_time now)) * 1000000 + microsecond (dt_time now)
           in case add_days now_date (- 1) of
                Inl e \<Rightarrow> Inl e
              | Inr yesterday \<Rightarrow>
                  Inr (list_ex (anchor_matches days lo hi start_us end_us now_date now_us)
                         [now_date, yesterday])))"

definition shift_date :: "date option \<Rightarrow> int \<Rightarrow> date option result" where
  "shift_date v n =
     (case v of None \<Rightarrow> Inr None | Some d \<Rightarrow> result_bind (add_days d n) (\<lambda>d'. Inr (Some d')))"

definition max_date :: "date option \<Rightarrow> date option \<Rightarrow> date option" where
  "max_date x y = (case x of None \<Rightarrow> y
     | Some a \<Rightarrow> (case y of None \<Rightarrow> x | Some b \<Rightarrow> Some (max a b)))"

definition min_date :: "date option \<Rightarrow> date option \<Rightarrow> date option" where
  "min_date x y = (case x of None \<Rightarrow> y
     | Some a \<Rightarrow> (case y of None \<Rightarrow> x | Some b \<Rightarrow> Some (min a b)))"

text \<open>One iteration of the \<^verbatim>\<open>for delta in (-1, 0, 1)\<close> loop of \<^verbatim>\<open>schedules_overlap\<close>:
  \<open>Inr True\<close> is its \<^verbatim>\<open>return True\<close>, \<open>Inr False\<close> goes on with the next offset.\<close>

definition overlap_at_delta ::
  "int \<times> int \<Rightarrow> int \<times> int \<Rightarrow> int set \<Rightarrow> int set \<Rightarrow> date option \<Rightarrow> date option
   \<Rightarrow> date option \<Rightarrow> date option \<Rightarrow> int \<Rightarrow> bool result" where
  "overlap_at_delta a_bounds b_bounds a_days b_days a_lo a_hi b_lo b_hi delta =
     (let a_start = fst a_bounds; a_end = snd a_bounds;
          b_start = fst b_bounds + delta * DAY_US;
          b_end = snd b_bounds + delta * DAY_US
      in if \<not> (a_start < b_end \<and> b_start < a_end) then Inr False
         else let common = Set.filter (\<lambda>w. shift_weekday w delta \<in> b_days) a_days
              in if common = {} then Inr False
                 else result_bind (shift_date b_lo (- delta)) (\<lambda>blo.
                      result_bind (shift_date b_hi (- delta)) (\<lambda>bhi.
                        range_contains_weekday (max_date a_lo blo) (min_date a_hi bhi) common)))"

fun first_true :: "(int \<Rightarrow> bool result) \<Rightarrow> int list \<Rightarrow> bool result" where
  "first_true f [] = Inr False"
| "first_true f (x # xs) =
     (case f x of Inl e \<Rightarrow> Inl e | Inr True \<Rightarrow> Inr True | Inr False \<Rightarrow> first_true f xs)"

definition schedules_overlap :: "schedule \<Rightarrow> schedule \<Rightarrow> bool result" where
  "schedules_overlap a b =
     (case (occurrence_bounds (start_time a) (end_time a),
            occurrence_bounds (start_time b) (end_time b)) of
        (Some ab, Some bb) \<Rightarrow>
          first_true
            (overlap_at_delta ab bb
               (allowed_weekdays (days_of_week a)) (allowed_weekdays (days_of_week b))
               (date_of (map_option DatetimeValue (start_date a)))
               (date_of (map_option DatetimeValue (end_date a)))
               (date_of (map_option DatetimeValue (start_date b)))
               (date_of (map_option DatetimeValue (end_date b))))
            [- 1, 0, 1]
      | _ \<Rightarrow> Inr False)"

section \<open>The abstract meaning of a schedule\<close>

text \<open>A day \<open>d\<close> anchors an occurrence when its weekday and its date are allowed.\<close>

definition in_range :: "date option \<Rightarrow> date option \<Rightarrow> date \<Rightarrow> bool" where
  "in_range lo hi d \<longleftrightarrow>
     (case lo of None \<Rightarrow> True | Some l \<Rightarrow> l \<le> d) \<and> (case hi of None \<Rightarrow> True | Some h \<Rightarrow> d \<le> h)"

definition anchors :: "schedule \<Rightarrow> date set" where
  "anchors s = {d. isoweekday d \<in> allowed_weekdays (days_of_week s)
     \<and> in_range (map_option dt_date (start_date s)) (map_option dt_date (end_date s)) d}"

text \<open>The half-open interval of microseconds of the occurrence anchored on day \<open>d\<close>.\<close>

definition occurrence :: "schedule \<Rightarrow> date \<Rightarrow> int set" where
  "occurrence s d =
     (let st = time_us (start_time s); en = time_us (end_time s)
      in if st = en then {}
         else {d * DAY_US + st ..< d * DAY_US + en + (if en < st then DAY_US else 0)})"

definition covers :: "schedule \<Rightarrow> int set" where
  "covers s = (\<Union>d \<in> anchors s. occurrence s d)"

section \<open>Lemmas\<close>

lemma time_to_us_eq [simp]: "time_to_us t = time_us t"
  by (simp add: time_to_us_def time_us_def)

lemma date_of_datetime [simp]: "date_of (map_option DatetimeValue v) = map_option dt_date v"
  by (cases v) (simp_all add: date_of_def)

lemma allowed_weekdays_subset: "allowed_weekdays ds \<subseteq> {1..7}"
  by (auto simp: allowed_weekdays_def ALL_WEEKDAYS_def split: option.splits if_splits)

lemma occurrence_bounds_None: "occurrence_bounds st en = None \<longleftrightarrow> time_us st = time_us en"
  by (auto simp: occurrence_bounds_def Let_def)

lemma occurrence_bounds_Some:
  assumes "occurrence_bounds st en = Some (b, e)" "valid_time st" "valid_time en"
  shows "b = time_us st" "b < e" "0 \<le> b" "b < DAY_US" "e < 2 * DAY_US"
    "e = time_us en + (if time_us en < time_us st then DAY_US else 0)"
    "time_us st \<noteq> time_us en" "0 < e"
  using assms(1) time_us_range [OF assms(2)] time_us_range [OF assms(3)]
  by (auto simp: occurrence_bounds_def Let_def DAY_US_def split: if_splits)

lemma occurrence_via_bounds:
  assumes "valid_schedule s"
    and "occurrence_bounds (start_time s) (end_time s) = Some (b, e)"
  shows "occurrence s d = {d * DAY_US + b ..< d * DAY_US + e}"
  using occurrence_bounds_Some [OF assms(2)] assms(1)
  by (auto simp: occurrence_def valid_schedule_def Let_def)

declare weekday_loop.simps [simp del]

lemma weekday_loop_result:
  assumes "valid_date d"
  shows "weekday_loop d hi W = Inr (\<exists>x. d \<le> x \<and> x \<le> hi \<and> isoweekday x \<in> W)
    \<or> weekday_loop d hi W = Inl OverflowError \<and> date_max \<le> hi"
  using assms
proof (induction d hi W rule: weekday_loop.induct)
  case (1 d hi W)
  show ?case
  proof (cases "d \<le> hi \<and> isoweekday d \<notin> W")
    case False
    then show ?thesis by (subst (1 2) weekday_loop.simps) auto
  next
    case True
    have step: "(\<exists>x. d \<le> x \<and> x \<le> hi \<and> isoweekday x \<in> W)
        \<longleftrightarrow> (\<exists>x. d + 1 \<le> x \<and> x \<le> hi \<and> isoweekday x \<in> W)"
    proof
      assume "\<exists>x. d \<le> x \<and> x \<le> hi \<and> isoweekday x \<in> W"
      then obtain x where "d \<le> x" "x \<le> hi" "isoweekday x \<in> W" by blast
      moreover from this have "x \<noteq> d" using True by auto
      ultimately show "\<exists>x. d + 1 \<le> x \<and> x \<le> hi \<and> isoweekday x \<in> W"
        by (intro exI [of _ x]) auto
    next
      assume "\<exists>x. d + 1 \<le> x \<and> x \<le> hi \<and> isoweekday x \<in> W"
      then obtain x where "d + 1 \<le> x" "x \<le> hi" "isoweekday x \<in> W" by blast
      then show "\<exists>x. d \<le> x \<and> x \<le> hi \<and> isoweekday x \<in> W" by (intro exI [of _ x]) auto
    qed
    show ?thesis
    proof (cases "valid_date (d + 1)")
      case v: True
      then have s: "add_days d 1 = Inr (d + 1)" by (simp add: add_days_def)
      have "weekday_loop d hi W = weekday_loop (d + 1) hi W"
        using True s by (subst weekday_loop.simps) simp
      then show ?thesis using "1.IH" [OF conjunct1 [OF True] conjunct2 [OF True] s v] step by simp
    next
      case False
      then have "add_days d 1 = Inl OverflowError" "date_max \<le> hi"
        using True "1.prems" by (auto simp: add_days_def valid_date_def)
      then show ?thesis using True by (subst (2) weekday_loop.simps) simp
    qed
  qed
qed

lemma in_range_simps [simp]:
  "in_range None None d"
  "in_range (Some l) None d \<longleftrightarrow> l \<le> d"
  "in_range None (Some h) d \<longleftrightarrow> d \<le> h"
  "in_range (Some l) (Some h) d \<longleftrightarrow> l \<le> d \<and> d \<le> h"
  by (simp_all add: in_range_def)

lemma in_range_meet:
  "in_range (max_date lo lo') (min_date hi hi') d \<longleftrightarrow> in_range lo hi d \<and> in_range lo' hi' d"
  by (auto simp: in_range_def max_date_def min_date_def split: option.splits)

lemma in_range_shift:
  "in_range (map_option (\<lambda>x. x - n) lo) (map_option (\<lambda>x. x - n) hi) d \<longleftrightarrow> in_range lo hi (d + n)"
  by (auto simp: in_range_def split: option.splits)

lemma unbounded_range_meets:
  assumes "W \<subseteq> {1..7}" "W \<noteq> {}" "lo = None \<or> hi = None"
  shows "\<exists>d. in_range lo hi d \<and> isoweekday d \<in> W"
proof -
  obtain w where w: "w \<in> W" "w \<in> {1..7}" using assms by blast
  define l where "l = (case lo of Some x \<Rightarrow> x | None \<Rightarrow> (case hi of Some y \<Rightarrow> y - 6 | None \<Rightarrow> 0))"
  obtain d where "l \<le> d" "d \<le> l + 6" "isoweekday d = w"
    using isoweekday_week_covers [OF w(2), of l "l + 6"] by auto
  then have "in_range lo hi d"
    using assms(3) by (auto simp: l_def in_range_def split: option.splits)
  then show ?thesis using w \<open>isoweekday d = w\<close> by blast
qed

lemma range_contains_weekday_result:
  assumes "W \<subseteq> {1..7}" and "\<And>l. lo = Some l \<Longrightarrow> valid_date l"
  shows "range_contains_weekday lo hi W = Inr (\<exists>d. in_range lo hi d \<and> isoweekday d \<in> W)
    \<or> range_contains_weekday lo hi W = Inl OverflowError \<and> (\<exists>h. hi = Some h \<and> date_max \<le> h)"
proof (cases "W = {} \<or> lo = None \<or> hi = None")
  case True
  then show ?thesis
    using unbounded_range_meets [OF assms(1), of lo hi]
    by (cases "W = {}") (auto simp: range_contains_weekday_def split: option.splits)
next
  case False
  then obtain l h where lh: "lo = Some l" "hi = Some h" and ne: "W \<noteq> {}" by auto
  consider "l > h" | "l \<le> h" "h - l \<ge> 6" | "l \<le> h" "h - l < 6" by linarith
  then show ?thesis
  proof cases
    case 1
    then show ?thesis using lh ne by (auto simp: range_contains_weekday_def)
  next
    case 2
    obtain w where "w \<in> W" "w \<in> {1..7}" using assms(1) ne by blast
    moreover obtain d where "l \<le> d" "d \<le> h" "isoweekday d = w"
      using isoweekday_week_covers [OF \<open>w \<in> {1..7}\<close>, of l h] 2 by auto
    ultimately show ?thesis using lh ne 2 by (auto simp: range_contains_weekday_def)
  next
    case 3
    then show ?thesis
      using weekday_loop_result [OF assms(2) [OF lh(1)], of h W] lh ne
      by (auto simp: range_contains_weekday_def)
  qed
qed

lemma range_contains_weekday_total:
  assumes "W \<subseteq> {1..7}" and "\<And>l. lo = Some l \<Longrightarrow> valid_date l"
    and "\<And>h. hi = Some h \<Longrightarrow> h < date_max"
  shows "range_contains_weekday lo hi W \<noteq> Inl e"
  using range_contains_weekday_result [OF assms(1,2), of lo hi] assms(3) by force

lemma isoweekday_shift: "shift_weekday (isoweekday d) n = isoweekday (d + n)"
  unfolding shift_weekday_def isoweekday_alt
  using mod_add_right_eq [of n "d - 1" 7] by (simp add: algebra_simps)

subsection \<open>One instant\<close>

lemma occurrence_anchor_day:
  assumes "valid_schedule s" "D * DAY_US + u \<in> occurrence s d" "0 \<le> u" "u < DAY_US"
  shows "d = D \<or> d = D - 1"
proof -
  have r: "0 \<le> time_us (start_time s)" "time_us (end_time s) < DAY_US"
      "time_us (start_time s) < DAY_US"
    using assms(1) time_us_range by (auto simp: valid_schedule_def)
  have "d * DAY_US \<le> D * DAY_US + u" "D * DAY_US + u < (d + 2) * DAY_US"
    using assms(2) r by (auto simp: occurrence_def Let_def algebra_simps split: if_splits)
  then have "d * DAY_US < (D + 1) * DAY_US" "D * DAY_US < (d + 2) * DAY_US"
    using assms(3,4) by (auto simp: algebra_simps)
  then have "d < D + 1" "D < d + 2"
    by (auto simp: DAY_US_def)
  then show ?thesis by linarith
qed

lemma anchor_matches_iff:
  assumes "valid_schedule s"
    and b: "occurrence_bounds (start_time s) (end_time s) = Some (b, e)"
    and "a = D \<or> a = D - 1"
  shows "anchor_matches (allowed_weekdays (days_of_week s))
      (map_option dt_date (start_date s)) (map_option dt_date (end_date s)) b e D u a
    \<longleftrightarrow> a \<in> anchors s \<and> D * DAY_US + u \<in> occurrence s a"
proof -
  have "u + (if a = D then 0 else DAY_US) = D * DAY_US + u - a * DAY_US"
    using assms(3) by (auto simp: algebra_simps)
  then show ?thesis
    unfolding anchor_matches_def anchors_def in_range_def occurrence_via_bounds [OF assms(1) b]
    by (auto simp: Let_def split: option.splits)
qed

lemma covers_instant_iff:
  assumes "valid_schedule s" "0 \<le> u" "u < DAY_US"
  shows "D * DAY_US + u \<in> covers s \<longleftrightarrow>
    (\<exists>a \<in> {D, D - 1}. a \<in> anchors s \<and> D * DAY_US + u \<in> occurrence s a)"
  using occurrence_anchor_day [OF assms(1) _ assms(2,3), of D] by (auto simp: covers_def)

lemma covers_empty: "time_us (start_time s) = time_us (end_time s) \<Longrightarrow> covers s = {}"
  by (simp add: covers_def occurrence_def)

lemma matches_at_iff:
  assumes "valid_schedule s" "valid_datetime now" "date_min < dt_date now"
  shows "matches_at s now = Inr (enabled s \<and> dt_us now \<in> covers s)"
proof (cases "occurrence_bounds (start_time s) (end_time s)")
  case None
  then have "covers s = {}" by (simp add: occurrence_bounds_None covers_empty)
  then show ?thesis using None by (simp add: matches_at_def)
next
  case (Some be)
  obtain b e where be: "be = (b, e)" by (cases be)
  let ?D = "dt_date now" and ?u = "time_us (dt_time now)"
  have u: "0 \<le> ?u" "?u < DAY_US"
    using assms(2) time_us_range by (auto simp: valid_datetime_def)
  have y: "add_days ?D (- 1) = Inr (?D - 1)"
    using assms(2,3) by (auto simp: add_days_def valid_datetime_def valid_date_def)
  have "matches_at s now = Inr (enabled s \<and> (\<exists>a \<in> {?D, ?D - 1}.
      anchor_matches (allowed_weekdays (days_of_week s)) (map_option dt_date (start_date s))
        (map_option dt_date (end_date s)) b e ?D ?u a))"
    using Some be y by (simp add: matches_at_def time_us_def Let_def)
  also have "\<dots> = Inr (enabled s \<and> dt_us now \<in> covers s)"
    using anchor_matches_iff [OF assms(1) Some [unfolded be], of _ ?D ?u]
      covers_instant_iff [OF assms(1) u, of ?D]
    by (simp add: dt_us_def)
  finally show ?thesis .
qed

subsection \<open>Two schedules\<close>

text \<open>Anchor days \<open>d\<close> of \<open>a\<close> such that \<open>d + n\<close> anchors an occurrence of \<open>b\<close>.\<close>

definition joint_anchor :: "schedule \<Rightarrow> schedule \<Rightarrow> int \<Rightarrow> date \<Rightarrow> bool" where
  "joint_anchor a b n d \<longleftrightarrow> d \<in> anchors a \<and> d + n \<in> anchors b"

lemma interval_meet:
  "{x ..< x'} \<inter> {y ..< y'} \<noteq> {} \<longleftrightarrow> x < x' \<and> y < y' \<and> x < y' \<and> y < (x' :: int)"
proof
  assume "x < x' \<and> y < y' \<and> x < y' \<and> y < x'"
  then have "max x y \<in> {x ..< x'} \<inter> {y ..< y'}" by auto
  then show "{x ..< x'} \<inter> {y ..< y'} \<noteq> {}" by blast
qed auto

lemma covers_meet_iff:
  assumes va: "valid_schedule a" and vb: "valid_schedule b"
    and ba: "occurrence_bounds (start_time a) (end_time a) = Some (as, ae)"
    and bb: "occurrence_bounds (start_time b) (end_time b) = Some (bs, be)"
  shows "covers a \<inter> covers b \<noteq> {} \<longleftrightarrow>
    (\<exists>n \<in> {- 1, 0, 1}. as < be + n * DAY_US \<and> bs + n * DAY_US < ae \<and> (\<exists>d. joint_anchor a b n d))"
proof -
  have ab: "as < ae" "0 \<le> as" "ae < 2 * DAY_US" and bb': "bs < be" "0 \<le> bs" "be < 2 * DAY_US"
    using occurrence_bounds_Some [OF ba] occurrence_bounds_Some [OF bb] va vb
    by (auto simp: valid_schedule_def)
  have meet: "occurrence a d \<inter> occurrence b (d + n) \<noteq> {} \<longleftrightarrow>
      as < be + n * DAY_US \<and> bs + n * DAY_US < ae" for d n
    unfolding occurrence_via_bounds [OF va ba] occurrence_via_bounds [OF vb bb] interval_meet
    using ab(1) bb'(1) by (auto simp: algebra_simps)
  have near: "n \<in> {- 1, 0, 1}" if "as < be + n * DAY_US" "bs + n * DAY_US < ae" for n
  proof -
    have "n * DAY_US < 2 * DAY_US" "- 2 * DAY_US < n * DAY_US"
      using that ab bb' by linarith+
    then have "n < 2" "- 2 < n" by (auto simp: DAY_US_def)
    then show ?thesis by auto
  qed
  have "covers a \<inter> covers b \<noteq> {} \<longleftrightarrow>
      (\<exists>d d'. d \<in> anchors a \<and> d' \<in> anchors b \<and> occurrence a d \<inter> occurrence b d' \<noteq> {})"
    unfolding covers_def by blast
  also have "\<dots> \<longleftrightarrow> (\<exists>d n. joint_anchor a b n d \<and> occurrence a d \<inter> occurrence b (d + n) \<noteq> {})"
    unfolding joint_anchor_def by (metis add.commute diff_add_cancel)
  also have "\<dots> \<longleftrightarrow> (\<exists>n \<in> {- 1, 0, 1}. as < be + n * DAY_US \<and> bs + n * DAY_US < ae
      \<and> (\<exists>d. joint_anchor a b n d))"
    unfolding meet using near by blast
  finally show ?thesis .
qed

lemma shift_date_result:
  "shift_date v n = Inr (map_option (\<lambda>d. d + n) v) \<or> shift_date v n = Inl OverflowError"
  by (cases v) (auto simp: shift_date_def add_days_def)

lemma shift_date_Inr:
  "shift_date v n = Inr w \<Longrightarrow> w = map_option (\<lambda>d. d + n) v \<and> (\<forall>d. w = Some d \<longrightarrow> valid_date d)"
  by (cases v) (auto simp: shift_date_def add_days_def split: if_splits)

lemma overlap_at_delta_result:
  assumes "\<And>dt. start_date a = Some dt \<Longrightarrow> valid_date (dt_date dt)"
  shows "overlap_at_delta (as, ae) (bs, be)
      (allowed_weekdays (days_of_week a)) (allowed_weekdays (days_of_week b))
      (map_option dt_date (start_date a)) (map_option dt_date (end_date a))
      (map_option dt_date (start_date b)) (map_option dt_date (end_date b)) n
    \<in> {Inl OverflowError,
       Inr (as < be + n * DAY_US \<and> bs + n * DAY_US < ae \<and> (\<exists>d. joint_anchor a b n d))}"
    (is "?o \<in> {_, Inr (?w1 \<and> ?w2 \<and> ?j)}")
proof -
  let ?common = "Set.filter (\<lambda>w. shift_weekday w n \<in> allowed_weekdays (days_of_week b))
      (allowed_weekdays (days_of_week a))"
  have c: "isoweekday d \<in> ?common \<longleftrightarrow> isoweekday d \<in> allowed_weekdays (days_of_week a)
      \<and> isoweekday (d + n) \<in> allowed_weekdays (days_of_week b)" for d
    by (simp add: isoweekday_shift)
  consider "\<not> (?w1 \<and> ?w2)" | "?w1 \<and> ?w2" "?common = {}"
    | "?w1 \<and> ?w2" "?common \<noteq> {}" "?o = Inl OverflowError"
    | "?w1 \<and> ?w2" "?common \<noteq> {}" "?o \<noteq> Inl OverflowError" by blast
  then show ?thesis
  proof cases
    case 1
    then show ?thesis by (auto simp: overlap_at_delta_def)
  next
    case 2
    then have "\<not> ?j" using c unfolding joint_anchor_def anchors_def by blast
    then show ?thesis using 2(2) by (auto simp: overlap_at_delta_def)
  next
    case 3
    then show ?thesis by simp
  next
    case 4
    let ?blo = "map_option (\<lambda>d. d + - n) (map_option dt_date (start_date b))"
    let ?bhi = "map_option (\<lambda>d. d + - n) (map_option dt_date (end_date b))"
    have eq: "?o = result_bind (shift_date (map_option dt_date (start_date b)) (- n)) (\<lambda>blo.
        result_bind (shift_date (map_option dt_date (end_date b)) (- n)) (\<lambda>bhi.
          range_contains_weekday (max_date (map_option dt_date (start_date a)) blo)
            (min_date (map_option dt_date (end_date a)) bhi) ?common))"
      using 4(1,2) by (auto simp: overlap_at_delta_def Let_def)
    then have lo: "shift_date (map_option dt_date (start_date b)) (- n) = Inr ?blo"
      and hi: "shift_date (map_option dt_date (end_date b)) (- n) = Inr ?bhi"
      using 4(3) shift_date_result [of "map_option dt_date (start_date b)" "- n"]
        shift_date_result [of "map_option dt_date (end_date b)" "- n"] by fastforce+
    then have eq': "?o = range_contains_weekday (max_date (map_option dt_date (start_date a)) ?blo)
        (min_date (map_option dt_date (end_date a)) ?bhi) ?common"
      using eq by simp
    have val: "valid_date l" if "max_date (map_option dt_date (start_date a)) ?blo = Some l" for l
      using that assms shift_date_Inr [OF lo]
      by (auto simp: max_date_def max_def split: option.splits if_splits)
    have sub: "?common \<subseteq> {1..7}" using allowed_weekdays_subset by auto
    have "?o = Inr (\<exists>d. in_range (max_date (map_option dt_date (start_date a)) ?blo)
        (min_date (map_option dt_date (end_date a)) ?bhi) d \<and> isoweekday d \<in> ?common)"
      using range_contains_weekday_result [OF sub val] 4(3) unfolding eq' by blast
    also have "\<dots> = Inr ?j"
      unfolding in_range_meet c joint_anchor_def anchors_def
      using in_range_shift [of n] by (auto simp: conj_ac)
    finally show ?thesis using 4 by simp
  qed
qed

lemma first_true_result:
  assumes "\<And>x. x \<in> set xs \<Longrightarrow> f x \<in> {Inl OverflowError, Inr (P x)}"
  shows "first_true f xs \<in> {Inl OverflowError, Inr (\<exists>x \<in> set xs. P x)}"
  using assms
proof (induction xs)
  case (Cons x xs)
  then have "first_true f xs \<in> {Inl OverflowError, Inr (\<exists>x \<in> set xs. P x)}"
    and "f x \<in> {Inl OverflowError, Inr (P x)}" by auto
  then show ?case by (auto split: bool.splits)
qed simp

lemma schedules_overlap_result:
  assumes va: "valid_schedule a" and vb: "valid_schedule b"
    and da: "\<And>dt. start_date a = Some dt \<Longrightarrow> valid_date (dt_date dt)"
  shows "schedules_overlap a b \<in> {Inl OverflowError, Inr (covers a \<inter> covers b \<noteq> {})}"
proof (cases "occurrence_bounds (start_time a) (end_time a) = None
    \<or> occurrence_bounds (start_time b) (end_time b) = None")
  case True
  then have "covers a \<inter> covers b = {}"
    using covers_empty [of a] covers_empty [of b] by (auto simp: occurrence_bounds_None)
  moreover have "schedules_overlap a b = Inr False"
    using True by (auto simp: schedules_overlap_def split: option.splits)
  ultimately show ?thesis by simp
next
  case False
  then obtain as ae bs be where
    ba: "occurrence_bounds (start_time a) (end_time a) = Some (as, ae)" and
    bb: "occurrence_bounds (start_time b) (end_time b) = Some (bs, be)" by (auto simp: split_paired_all)
  let ?f = "overlap_at_delta (as, ae) (bs, be)
      (allowed_weekdays (days_of_week a)) (allowed_weekdays (days_of_week b))
      (map_option dt_date (start_date a)) (map_option dt_date (end_date a))
      (map_option dt_date (start_date b)) (map_option dt_date (end_date b))"
  have "first_true ?f [- 1, 0, 1] \<in> {Inl OverflowError, Inr (\<exists>n \<in> set [- 1, 0, 1].
      as < be + n * DAY_US \<and> bs + n * DAY_US < ae \<and> (\<exists>d. joint_anchor a b n d))}"
    by (rule first_true_result, rule overlap_at_delta_result, rule da)
  moreover have "schedules_overlap a b = first_true ?f [- 1, 0, 1]"
    by (simp add: schedules_overlap_def ba bb del: first_true.simps)
  ultimately show ?thesis using covers_meet_iff [OF va vb ba bb] by simp
qed

subsection \<open>When the overlap test cannot overflow\<close>

text \<open>Dates at least two days inside the calendar of \<^verbatim>\<open>datetime.date\<close>.\<close>

definition inner_dates :: "schedule \<Rightarrow> bool" where
  "inner_dates s \<longleftrightarrow>
     (\<forall>dt \<in> set_option (start_date s) \<union> set_option (end_date s).
        date_min < dt_date dt \<and> dt_date dt < date_max - 1)"

lemma inner_dates_Some:
  assumes "inner_dates s"
  shows "start_date s = Some dt \<Longrightarrow> date_min < dt_date dt \<and> dt_date dt < date_max - 1"
    and "end_date s = Some dt \<Longrightarrow> date_min < dt_date dt \<and> dt_date dt < date_max - 1"
  using assms by (auto simp: inner_dates_def)

lemma overlap_at_delta_total:
  assumes "inner_dates a" "inner_dates b" "n \<in> {- 1, 0, 1}"
  shows "overlap_at_delta ab bb
      (allowed_weekdays (days_of_week a)) (allowed_weekdays (days_of_week b))
      (map_option dt_date (start_date a)) (map_option dt_date (end_date a))
      (map_option dt_date (start_date b)) (map_option dt_date (end_date b)) n \<noteq> Inl e"
proof -
  have s: "shift_date (map_option dt_date v) (- n) = Inr (map_option (\<lambda>dt. dt_date dt + - n) v)"
    if "\<And>dt. v = Some dt \<Longrightarrow> date_min < dt_date dt \<and> dt_date dt < date_max - 1" for v
    using that assms(3) by (cases v) (auto simp: shift_date_def add_days_def valid_date_def)
  have "range_contains_weekday (max_date (map_option dt_date (start_date a))
        (map_option (\<lambda>dt. dt_date dt + - n) (start_date b)))
      (min_date (map_option dt_date (end_date a))
        (map_option (\<lambda>dt. dt_date dt + - n) (end_date b))) W \<noteq> Inl e" if sub: "W \<subseteq> {1..7}" for W
  proof -
    have val: "valid_date l" if "max_date (map_option dt_date (start_date a))
        (map_option (\<lambda>dt. dt_date dt + - n) (start_date b)) = Some l" for l
      using that assms(3) inner_dates_Some(1) [OF assms(1)] inner_dates_Some(1) [OF assms(2)]
      by (cases "start_date a"; cases "start_date b")
         (auto simp: max_date_def max_def valid_date_def split: if_splits)
    have hi: "h < date_max" if "min_date (map_option dt_date (end_date a))
        (map_option (\<lambda>dt. dt_date dt + - n) (end_date b)) = Some h" for h
      using that assms(3) inner_dates_Some(2) [OF assms(1)] inner_dates_Some(2) [OF assms(2)]
      by (cases "end_date a"; cases "end_date b")
         (auto simp: min_date_def min_def split: if_splits)
    show ?thesis by (rule range_contains_weekday_total [OF sub val hi])
  qed
  moreover have "Set.filter P (allowed_weekdays (days_of_week a)) \<subseteq> {1..7}" for P
    using allowed_weekdays_subset by auto
  ultimately show ?thesis
    using s [OF inner_dates_Some(1) [OF assms(2)]] s [OF inner_dates_Some(2) [OF assms(2)]]
    by (simp add: overlap_at_delta_def Let_def)
qed

lemma first_true_total: "(\<And>x. x \<in> set xs \<Longrightarrow> f x \<noteq> Inl e) \<Longrightarrow> first_true f xs \<noteq> Inl e"
  by (induction xs) (auto split: sum.splits bool.splits)

lemma schedules_overlap_total:
  assumes "inner_dates a" "inner_dates b"
  shows "schedules_overlap a b \<noteq> Inl e"
proof (cases "occurrence_bounds (start_time a) (end_time a) = None
    \<or> occurrence_bounds (start_time b) (end_time b) = None")
  case True
  then show ?thesis by (auto simp: schedules_overlap_def split: option.splits)
next
  case False
  then obtain ab bb where
    "occurrence_bounds (start_time a) (end_time a) = Some ab"
    "occurrence_bounds (start_time b) (end_time b) = Some bb" by auto
  moreover have "first_true (overlap_at_delta ab bb
      (allowed_weekdays (days_of_week a)) (allowed_weekdays (days_of_week b))
      (map_option dt_date (start_date a)) (map_option dt_date (end_date a))
      (map_option dt_date (start_date b)) (map_option dt_date (end_date b))) [- 1, 0, 1] \<noteq> Inl e"
    by (rule first_true_total, rule overlap_at_delta_total [OF assms]) simp
  ultimately show ?thesis by (simp add: schedules_overlap_def del: first_true.simps)
qed

section \<open>Properties\<close>

text \<open>
  C5. \<^verbatim>\<open>matches_at\<close> decides whether the instant \<^verbatim>\<open>now\<close> lies in one of the schedule's
  occurrences: for every row with times of day in range and every naive datetime after the
  first day of the calendar it returns without error, and returns \<^verbatim>\<open>True\<close> exactly when the
  schedule is enabled and some day allowed by its weekdays and its date range anchors an
  interval, possibly one that wrapped past midnight, containing \<^verbatim>\<open>now\<close>.
\<close>

theorem matches_at_correct:
  assumes "valid_schedule s" and "valid_datetime now" and "date_min < dt_date now"
  shows "matches_at s now = Inr (enabled s \<and> dt_us now \<in> covers s)"
  using assms by (rule matches_at_iff)

definition sample_schedule :: schedule where
  "sample_schedule = \<lparr>sched_id = ''s1'', sched_name = ''Late'', group_id = Some ''g'',
     sched_group = None, tag_id = None, sched_asset = None, start_date = None, end_date = None,
     start_time = Time 22 0 0 0, end_time = Time 2 0 0 0, days_of_week = Some [1],
     priority = 0, enabled = True, loop_count = None, skipped_until = None\<rparr>"

theorem matches_at_correct_witness:
  "matches_at sample_schedule (Datetime 737998 (Time 1 30 0 0))
     = Inr (enabled sample_schedule
            \<and> dt_us (Datetime 737998 (Time 1 30 0 0)) \<in> covers sample_schedule)
   \<and> matches_at sample_schedule (Datetime 737998 (Time 1 30 0 0)) = Inr True"
proof
  show "matches_at sample_schedule (Datetime 737998 (Time 1 30 0 0))
     = Inr (enabled sample_schedule
            \<and> dt_us (Datetime 737998 (Time 1 30 0 0)) \<in> covers sample_schedule)"
    by (rule matches_at_correct)
       (simp_all add: sample_schedule_def valid_schedule_def valid_datetime_def valid_time_def
          valid_date_def date_min_def date_max_def)
  show "matches_at sample_schedule (Datetime 737998 (Time 1 30 0 0)) = Inr True"
    by code_simp
qed

text \<open>
  C4. \<^verbatim>\<open>schedules_overlap\<close> is sound and complete: for two schedules whose dates lie strictly
  inside the calendar it always returns, and returns \<^verbatim>\<open>True\<close> exactly when some instant is
  covered by an occurrence of both. Looking only at anchor-day offsets of -1, 0 and 1 loses
  nothing, also for windows that wrap past midnight and for bounded date ranges.
\<close>

theorem schedules_overlap_correct:
  assumes "valid_schedule a" and "valid_schedule b" and "inner_dates a" and "inner_dates b"
  shows "schedules_overlap a b = Inr (\<exists>t. t \<in> covers a \<and> t \<in> covers b)"
proof -
  have "valid_date (dt_date dt)" if "start_date a = Some dt" for dt
    using inner_dates_Some(1) [OF assms(3) that] by (simp add: valid_date_def)
  from schedules_overlap_result [OF assms(1,2) this]
  have "schedules_overlap a b = Inr (covers a \<inter> covers b \<noteq> {})"
    using schedules_overlap_total [OF assms(3,4)] by fastforce
  also have "(covers a \<inter> covers b \<noteq> {}) = (\<exists>t. t \<in> covers a \<and> t \<in> covers b)" by blast
  finally show ?thesis .
qed

text \<open>Monday 22:00 to 02:00 against Tuesday 01:00 to 03:00, the example of the module's
  header: the weekday sets are disjoint and the schedules overlap.\<close>

definition sample_tuesday :: schedule where
  "sample_tuesday = sample_schedule\<lparr>sched_id := ''s2'', start_time := Time 1 0 0 0,
     end_time := Time 3 0 0 0, days_of_week := Some [2]\<rparr>"

theorem schedules_overlap_correct_witness:
  "schedules_overlap sample_schedule sample_tuesday
     = Inr (\<exists>t. t \<in> covers sample_schedule \<and> t \<in> covers sample_tuesday)
   \<and> schedules_overlap sample_schedule sample_tuesday = Inr True"
proof
  show "schedules_overlap sample_schedule sample_tuesday
     = Inr (\<exists>t. t \<in> covers sample_schedule \<and> t \<in> covers sample_tuesday)"
    by (rule schedules_overlap_correct)
       (simp_all add: sample_schedule_def sample_tuesday_def valid_schedule_def valid_time_def
          inner_dates_def)
  show "schedules_overlap sample_schedule sample_tuesday = Inr True" by code_simp
qed

text \<open>
  A schedule whose end date is the last day of the calendar, 9999-12-31, makes the overlap
  test raise instead of answering: a window that wraps past midnight is compared with the day
  after its end date, and \<^verbatim>\<open>_shift_date\<close> adds a day with no guard.
\<close>

theorem schedules_overlap_overflows:
  "schedules_overlap sample_tuesday
     (sample_schedule\<lparr>end_date := Some (Datetime date_max (Time 0 0 0 0))\<rparr>) = Inl OverflowError"
  by code_simp

end
