(* ===== verification/Table.thy ===== *)
theory Table
  imports Prelude
begin

text \<open>
  Database tables as lists of rows in insertion order, with the statements the services
  issue through SQLAlchemy: \<^verbatim>\<open>UPDATE ... WHERE\<close> with its row count and its
  \<^verbatim>\<open>RETURNING\<close> rows, \<^verbatim>\<open>DELETE ... WHERE\<close>, \<^verbatim>\<open>INSERT\<close> and
  \<^verbatim>\<open>INSERT ... ON CONFLICT DO NOTHING\<close>. The locale \<open>keyed_table\<close> states what a primary key
  gives; every table of the development interprets it with its own key column.
\<close>

definition update_where :: "('r \<Rightarrow> bool) \<Rightarrow> ('r \<Rightarrow> 'r) \<Rightarrow> 'r list \<Rightarrow> 'r list" where
  "update_where P f rows = map (\<lambda>r. if P r then f r else r) rows"

definition rowcount :: "('r \<Rightarrow> bool) \<Rightarrow> 'r list \<Rightarrow> nat" where
  "rowcount P rows = length (filter P rows)"

definition delete_where :: "('r \<Rightarrow> bool) \<Rightarrow> 'r list \<Rightarrow> 'r list" where
  "delete_where P rows = filter (\<lambda>r. \<not> P r) rows"

definition insert_row :: "'r \<Rightarrow> 'r list \<Rightarrow> 'r list" where
  "insert_row r rows = rows @ [r]"

definition insert_ignore :: "('r \<Rightarrow> 'k) \<Rightarrow> 'r \<Rightarrow> 'r list \<Rightarrow> 'r list" where
  "insert_ignore key r rows = (if key r \<in> key ` set rows then rows else rows @ [r])"

definition find_by :: "('r \<Rightarrow> 'k) \<Rightarrow> 'k \<Rightarrow> 'r list \<Rightarrow> 'r option" where
  "find_by key k rows = List.find (\<lambda>r. key r = k) rows"

lemma rowcount_pos [row_simps]: "0 < rowcount P rows \<longleftrightarrow> (\<exists>r \<in> set rows. P r)"
  by (auto simp: rowcount_def filter_empty_conv)

lemma set_update_where [row_simps]:
  "set (update_where P f rows) = f ` {r \<in> set rows. P r} \<union> {r \<in> set rows. \<not> P r}"
  by (auto simp: update_where_def image_iff)

lemma set_delete_where [row_simps]: "set (delete_where P rows) = {r \<in> set rows. \<not> P r}"
  by (auto simp: delete_where_def)

lemma set_insert_row [row_simps]: "set (insert_row r rows) = insert r (set rows)"
  by (simp add: insert_row_def)

lemma length_update_where [simp]: "length (update_where P f rows) = length rows"
  by (simp add: update_where_def)

lemma update_where_idle: "(\<And>r. r \<in> set rows \<Longrightarrow> \<not> P r) \<Longrightarrow> update_where P f rows = rows"
  by (auto simp: update_where_def map_idI)

lemma find_by_None: "find_by key k rows = None \<longleftrightarrow> k \<notin> key ` set rows"
  by (auto simp: find_by_def find_None_iff)

lemma find_by_Some: "find_by key k rows = Some r \<Longrightarrow> r \<in> set rows \<and> key r = k"
  by (auto simp: find_by_def find_Some_iff in_set_conv_nth)

lemma find_SomeD: "List.find P rows = Some r \<Longrightarrow> r \<in> set rows \<and> P r"
  by (auto simp: find_Some_iff in_set_conv_nth)

lemma find_by_simps [simp]:
  "find_by key k [] = None"
  "find_by key k (r # rows) = (if key r = k then Some r else find_by key k rows)"
  by (simp_all add: find_by_def)

lemma find_by_append [simp]:
  "find_by key k (rows @ rows') =
     (case find_by key k rows of None \<Rightarrow> find_by key k rows' | Some r \<Rightarrow> Some r)"
  by (induction rows) auto

section \<open>Tables with a primary key\<close>

definition keys_ok :: "('r \<Rightarrow> 'k) \<Rightarrow> 'r list \<Rightarrow> bool" where
  "keys_ok key rows \<longleftrightarrow> distinct (map key rows)"

lemma find_by_mem: "keys_ok key rows \<Longrightarrow> r \<in> set rows \<Longrightarrow> find_by key (key r) rows = Some r"
  by (induction rows) (auto simp: keys_ok_def image_iff)

text \<open>A second unique column stays unique when one row changes its value to a free one.\<close>

lemma distinct_update_column:
  assumes "distinct (map key rows)" "distinct (map col rows)" "\<And>r. key (f r) = key r"
    and "\<And>r s. r \<in> set rows \<Longrightarrow> key r = k \<Longrightarrow> s \<in> set rows \<Longrightarrow> key s \<noteq> k \<Longrightarrow> col (f r) \<noteq> col s"
  shows "distinct (map col (update_where (\<lambda>r. key r = k) f rows))"
proof -
  let ?u = "\<lambda>r. if key r = k then f r else r"
  have "inj_on (col \<circ> ?u) (set rows)"
  proof (rule inj_onI)
    fix r s assume rs: "r \<in> set rows" "s \<in> set rows" "(col \<circ> ?u) r = (col \<circ> ?u) s"
    have same: "key r = key s \<Longrightarrow> r = s" using assms(1) rs by (auto simp: distinct_map dest: inj_onD)
    show "r = s"
    proof (cases "key r = k \<longleftrightarrow> key s = k")
      case True
      then show ?thesis using rs same assms(2) by (cases "key r = k") (auto simp: distinct_map dest: inj_onD)
    next
      case False
      then show ?thesis using rs assms(4) [of r s] assms(4) [of s r] by (cases "key r = k") auto
    qed
  qed
  then show ?thesis using assms(2) by (simp add: update_where_def distinct_map)
qed

text \<open>
  The interface: a primary key column and the row updates the component performs, which all
  leave the key alone. Its lemmas are the lookup laws after each statement and the
  preservation of key uniqueness.
\<close>

locale keyed_table =
  fixes key :: "'r \<Rightarrow> 'k"
    and writes :: "('r \<Rightarrow> 'r) set"
  assumes key_write: "f \<in> writes \<Longrightarrow> key (f r) = key r"
begin

lemma keys_update: "f \<in> writes \<Longrightarrow> map key (update_where P f rows) = map key rows"
  by (auto simp: update_where_def key_write)

lemma keys_ok_update: "f \<in> writes \<Longrightarrow> keys_ok key rows \<Longrightarrow> keys_ok key (update_where P f rows)"
  by (simp add: keys_ok_def keys_update)

lemma keys_ok_delete: "keys_ok key rows \<Longrightarrow> keys_ok key (delete_where P rows)"
  by (simp add: keys_ok_def delete_where_def distinct_map_filter)

lemma keys_ok_insert:
  "keys_ok key rows \<Longrightarrow> key r \<notin> key ` set rows \<Longrightarrow> keys_ok key (insert_row r rows)"
  by (simp add: keys_ok_def insert_row_def)

lemma keys_ok_insert_ignore: "keys_ok key rows \<Longrightarrow> keys_ok key (insert_ignore key r rows)"
  by (simp add: keys_ok_def insert_ignore_def)

lemma find_update:
  assumes "f \<in> writes"
  shows "find_by key k (update_where P f rows) =
    (case find_by key k rows of None \<Rightarrow> None | Some r \<Rightarrow> Some (if P r then f r else r))"
  using assms by (induction rows) (auto simp: update_where_def key_write)

lemma find_update_other:
  assumes "f \<in> writes" and "\<And>r. P r \<Longrightarrow> key r \<noteq> k"
  shows "find_by key k (update_where P f rows) = find_by key k rows"
  using find_by_Some [of key k rows] assms(2)
  by (auto simp: find_update [OF assms(1)] split: option.splits)

lemma find_delete:
  "keys_ok key rows \<Longrightarrow> find_by key k (delete_where P rows) =
    (case find_by key k rows of None \<Rightarrow> None | Some r \<Rightarrow> if P r then None else Some r)"
proof (induction rows)
  case (Cons r rows)
  then show ?case
    by (auto simp: delete_where_def keys_ok_def find_by_None image_iff
        split: option.splits dest!: find_by_Some)
qed (simp add: delete_where_def)

text \<open>A loop of point updates over rows read beforehand is one pass over the table.\<close>

lemma fold_point_updates:
  assumes "keys_ok key rows" "distinct (map key rs)" "set rs \<subseteq> set rows" "\<forall>r. f r \<in> writes"
  shows "fold (\<lambda>r. update_where (\<lambda>x. key x = key r \<and> P r x) (f r)) rs rows
    = map (\<lambda>x. if x \<in> set rs \<and> P x x then f x x else x) rows"
  using assms(1-3)
proof (induction rs arbitrary: rows)
  case (Cons r rs)
  let ?u = "\<lambda>x. if key x = key r \<and> P r x then f r x else x"
  let ?rows = "map ?u rows"
  have one: "update_where (\<lambda>x. key x = key r \<and> P r x) (f r) rows = ?rows" by (simp add: update_where_def)
  have key: "key (?u x) = key x" for x using assms(4) key_write by auto
  have "keys_ok key ?rows" using Cons.prems(1) by (simp add: keys_ok_def comp_def key)
  moreover have "set rs \<subseteq> set ?rows"
    using Cons.prems(2,3) by (force simp: image_iff)
  ultimately have "fold (\<lambda>r. update_where (\<lambda>x. key x = key r \<and> P r x) (f r)) rs ?rows
      = map (\<lambda>x. if x \<in> set rs \<and> P x x then f x x else x) ?rows"
    using Cons.IH Cons.prems(2) by simp
  also have "\<dots> = map (\<lambda>x. if x \<in> set (r # rs) \<and> P x x then f x x else x) rows"
    unfolding map_map comp_def
  proof (rule map_cong [OF refl])
    fix x assume x: "x \<in> set rows"
    show "(if ?u x \<in> set rs \<and> P (?u x) (?u x) then f (?u x) (?u x) else ?u x)
      = (if x \<in> set (r # rs) \<and> P x x then f x x else x)"
    proof (cases "key x = key r")
      case True
      then have "x = r" using x Cons.prems(1,3) by (auto simp: keys_ok_def distinct_map dest: inj_onD)
      moreover have "y \<notin> set rs" if "key y = key r" for y using Cons.prems(2) that by (auto simp: image_iff)
      then have "?u r \<notin> set rs" using key [of r] by blast
      ultimately show ?thesis by (auto split: if_splits)
    qed auto
  qed
  finally show ?case by (simp only: fold_simps one)
qed simp

lemma find_insert_ignore:
  "find_by key k (insert_ignore key r rows) =
    (case find_by key k rows of
       Some r' \<Rightarrow> Some r' | None \<Rightarrow> if key r = k then Some r else None)"
  using find_by_None [of key "key r" rows]
  by (auto simp: insert_ignore_def split: option.splits)

end

end
