(* ===== verification/Targeting.thy ===== *)
theory Targeting
  imports Schedule_Model Table
begin

text \<open>
  Which devices a schedule targets, and which schedules an operator has ended early:
  the device and tag tables, \<^verbatim>\<open>cms/services/device_membership.py\<close>, the target resolution of
  \<^verbatim>\<open>cms/services/scheduler.py\<close> and its \<^verbatim>\<open>SkipSnapshot\<close>.

  A Python set of device ids is a duplicate-free list; the order in which Python iterates it
  is not specified, and no theorem of the development depends on it.
\<close>

section \<open>Tables\<close>

record device =
  dev_id :: string
  dev_name :: string
  dev_status :: device_status
  dev_group_id :: "string option"
  dev_group :: "device_group option"
  dev_profile_id :: "string option"
  dev_default_asset :: "asset option"
  dev_timezone :: "string option"
  capabilities :: "string list"
  device_type :: string

text \<open>Rows of \<^verbatim>\<open>device_tag_assignments\<close> are (tag, device); rows of
  \<^verbatim>\<open>schedule_device_skips\<close> are (schedule, device, \<^verbatim>\<open>skip_until\<close>).\<close>

type_synonym tag_assignment = "string \<times> string"
type_synonym device_skip = "string \<times> string \<times> datetime"

section \<open>Target resolution\<close>

definition in_opt :: "'a option \<Rightarrow> ('a \<Rightarrow> bool) \<Rightarrow> bool" where
  "in_opt filt P = (case filt of None \<Rightarrow> True | Some x \<Rightarrow> P x)"

text \<open>\<^verbatim>\<open>effective_device_group_rows_subquery\<close>: each filter is optional, an empty list selects
  nothing.\<close>

definition effective_device_group_rows ::
  "device list \<Rightarrow> string list option \<Rightarrow> string list option \<Rightarrow> device_status list option
   \<Rightarrow> (string \<times> string) list" where
  "effective_device_group_rows devs device_ids group_ids statuses =
     [(dev_id d, the (dev_group_id d)). d \<leftarrow> devs,
        dev_group_id d \<noteq> None,
        in_opt device_ids (\<lambda>ids. dev_id d \<in> set ids),
        in_opt group_ids (\<lambda>gs. the (dev_group_id d) \<in> set gs),
        in_opt statuses (\<lambda>ss. dev_status d \<in> set ss)]"

text \<open>The loops \<^verbatim>\<open>out.setdefault(k, set()).add(v)\<close> over a query result.\<close>

definition set_add :: "'a \<Rightarrow> 'a list \<Rightarrow> 'a list" where
  "set_add x xs = (if x \<in> set xs then xs else xs @ [x])"

definition dict_get_set :: "'k \<Rightarrow> ('k, 'v list) dict \<Rightarrow> 'v list" where
  "dict_get_set k m = (case map_of m k of None \<Rightarrow> [] | Some vs \<Rightarrow> vs)"

fun group_pairs :: "('k \<times> 'v) list \<Rightarrow> ('k, 'v list) dict \<Rightarrow> ('k, 'v list) dict" where
  "group_pairs [] m = m"
| "group_pairs ((k, v) # ps) m = group_pairs ps (dict_set k (set_add v (dict_get_set k m)) m)"

definition load_tagged_device_ids ::
  "string list \<Rightarrow> tag_assignment list \<Rightarrow> (string, string list) dict" where
  "load_tagged_device_ids tag_ids assigns =
     (if tag_ids = [] then []
      else group_pairs (filter (\<lambda>(t, d). t \<in> set tag_ids) assigns) [])"

definition load_adopted_devices_by_group_ids ::
  "string list \<Rightarrow> device list \<Rightarrow> (string, string list) dict" where
  "load_adopted_devices_by_group_ids group_ids devs =
     (if group_ids = [] then []
      else group_pairs (map (\<lambda>(did, gid). (gid, did))
             (effective_device_group_rows devs None (Some group_ids) (Some [ADOPTED]))) [])"

definition intersect_list :: "'a list \<Rightarrow> 'a list \<Rightarrow> 'a list" where
  "intersect_list xs ys = filter (\<lambda>x. x \<in> set ys) xs"

text \<open>The targets of one schedule, given the two bulk lookups.\<close>

definition narrow_targets ::
  "schedule \<Rightarrow> string \<Rightarrow> (string, string list) dict \<Rightarrow> (string, string list) dict \<Rightarrow> string list" where
  "narrow_targets s gid devices_by_group tagged =
     (let targets = dict_get_set gid devices_by_group
      in case tag_id s of None \<Rightarrow> targets
         | Some t \<Rightarrow> intersect_list targets (dict_get_set t tagged))"

definition load_target_devices_by_schedule ::
  "schedule list \<Rightarrow> device list \<Rightarrow> tag_assignment list \<Rightarrow> (string, string list) dict" where
  "load_target_devices_by_schedule scheds devs assigns =
     (let group_ids = remdups (List.map_filter group_id scheds)
      in if group_ids = [] then []
         else let devices_by_group = load_adopted_devices_by_group_ids group_ids devs;
                  tagged = load_tagged_device_ids
                    (remdups (List.map_filter tag_id (filter (\<lambda>s. group_id s \<noteq> None) scheds))) assigns
              in fold (\<lambda>s out. case group_id s of None \<Rightarrow> out
                       | Some gid \<Rightarrow> dict_set (sched_id s)
                           (narrow_targets s gid devices_by_group tagged) out) scheds [])"

definition get_target_device_ids ::
  "schedule \<Rightarrow> device list \<Rightarrow> tag_assignment list \<Rightarrow> string list" where
  "get_target_device_ids s devs assigns =
     (case group_id s of None \<Rightarrow> []
      | Some gid \<Rightarrow>
          (let devices_by_group = load_adopted_devices_by_group_ids [gid] devs;
               targets = dict_get_set gid devices_by_group
           in sort (case tag_id s of None \<Rightarrow> targets
                    | Some t \<Rightarrow> intersect_list targets
                        (dict_get_set t (load_tagged_device_ids [t] assigns)))))"

section \<open>Skips\<close>

record skip_snapshot =
  schedule_wide :: "(string, datetime) dict"
  per_device :: "(string \<times> string, datetime) dict"

definition active_as_of :: "skip_snapshot \<Rightarrow> datetime \<Rightarrow> skip_snapshot" where
  "active_as_of sk local_now =
     \<lparr>schedule_wide = filter (\<lambda>(sid, until). local_now < until) (schedule_wide sk),
      per_device = filter (\<lambda>(key, until). local_now < until) (per_device sk)\<rparr>"

definition expired_schedule_ids :: "skip_snapshot \<Rightarrow> datetime \<Rightarrow> string list" where
  "expired_schedule_ids sk local_now =
     map fst (filter (\<lambda>(sid, until). local_now \<ge> until) (schedule_wide sk))"

definition expired_device_pairs :: "skip_snapshot \<Rightarrow> datetime \<Rightarrow> (string \<times> string) list" where
  "expired_device_pairs sk local_now =
     map fst (filter (\<lambda>(key, until). local_now \<ge> until) (per_device sk))"

definition is_schedule_skipped :: "skip_snapshot \<Rightarrow> string \<Rightarrow> bool" where
  "is_schedule_skipped sk sid \<longleftrightarrow> map_of (schedule_wide sk) sid \<noteq> None"

definition is_skipped_for_device :: "skip_snapshot \<Rightarrow> string \<Rightarrow> string \<Rightarrow> bool" where
  "is_skipped_for_device sk sid did =
     (if map_of (schedule_wide sk) sid \<noteq> None then True
      else map_of (per_device sk) (sid, did) \<noteq> None)"

definition load_skip_snapshot :: "schedule list \<Rightarrow> device_skip list \<Rightarrow> skip_snapshot" where
  "load_skip_snapshot scheds dskips =
     \<lparr>schedule_wide = fold (\<lambda>s sw. case skipped_until s of None \<Rightarrow> sw
          | Some until \<Rightarrow> dict_set (sched_id s) until sw) scheds [],
      per_device = fold (\<lambda>(sid, did, until) pd. dict_set (sid, did) until pd) dskips []\<rparr>"

section \<open>Lemmas\<close>

lemma set_set_add [simp]: "set (set_add x xs) = insert x (set xs)"
  by (auto simp: set_add_def)

lemma distinct_set_add [simp]: "distinct xs \<Longrightarrow> distinct (set_add x xs)"
  by (auto simp: set_add_def)

lemma set_intersect_list [simp]: "set (intersect_list xs ys) = set xs \<inter> set ys"
  by (auto simp: intersect_list_def)

lemma dict_get_set_Nil [simp]: "dict_get_set k [] = []"
  by (simp add: dict_get_set_def)

lemma dict_get_set_set [simp]:
  "dict_get_set k (dict_set k' vs m) = (if k = k' then vs else dict_get_set k m)"
  by (simp add: dict_get_set_def)

lemma set_group_pairs:
  "set (dict_get_set k (group_pairs ps m)) = {v. (k, v) \<in> set ps} \<union> set (dict_get_set k m)"
  by (induction ps m rule: group_pairs.induct) auto

lemma set_group_pairs_Nil [simp]: "set (dict_get_set k (group_pairs ps [])) = {v. (k, v) \<in> set ps}"
  by (simp add: set_group_pairs)

lemma set_effective_rows [simp]:
  "set (effective_device_group_rows devs None (Some gs) (Some ss)) =
     {(dev_id d, g) |d g. d \<in> set devs \<and> dev_group_id d = Some g \<and> g \<in> set gs \<and> dev_status d \<in> set ss}"
  by (force simp: effective_device_group_rows_def in_opt_def)

lemma set_adopted_by_group:
  "g \<in> set gs \<Longrightarrow> set (dict_get_set g (load_adopted_devices_by_group_ids gs devs)) =
     {dev_id d |d. d \<in> set devs \<and> dev_group_id d = Some g \<and> dev_status d = ADOPTED}"
  by (cases "gs = []") (force simp: load_adopted_devices_by_group_ids_def)+

lemma set_tagged:
  "t \<in> set ts \<Longrightarrow> set (dict_get_set t (load_tagged_device_ids ts assigns)) = {d. (t, d) \<in> set assigns}"
  by (cases "ts = []") (auto simp: load_tagged_device_ids_def)

text \<open>The specification of targeting: adopted devices of the schedule's own group, narrowed
  by its tag.\<close>

definition targets :: "schedule \<Rightarrow> device list \<Rightarrow> tag_assignment list \<Rightarrow> string set" where
  "targets s devs assigns = {dev_id d |d. d \<in> set devs \<and> dev_group_id d \<noteq> None
      \<and> dev_group_id d = group_id s \<and> dev_status d = ADOPTED
      \<and> (case tag_id s of None \<Rightarrow> True | Some t \<Rightarrow> (t, dev_id d) \<in> set assigns)}"

lemma set_narrow_targets:
  assumes "group_id s = Some gid" "gid \<in> set gs" "\<And>t. tag_id s = Some t \<Longrightarrow> t \<in> set ts"
  shows "set (narrow_targets s gid (load_adopted_devices_by_group_ids gs devs)
      (load_tagged_device_ids ts assigns)) = targets s devs assigns"
  using assms
  by (cases "tag_id s")
     (auto simp: narrow_targets_def targets_def Let_def set_adopted_by_group set_tagged)

lemma fold_dict_get:
  fixes scheds :: "schedule list"
  assumes "distinct (map sched_id scheds)" "s \<in> set scheds" "group_id s = Some gid"
  shows "dict_get_set (sched_id s) (fold (\<lambda>s out. case group_id s of None \<Rightarrow> out
      | Some gid \<Rightarrow> dict_set (sched_id s) (f s gid) out) scheds m) = f s gid"
proof -
  have other: "dict_get_set k (fold (\<lambda>s out. case group_id s of None \<Rightarrow> out
      | Some gid \<Rightarrow> dict_set (sched_id s) (f s gid) out) xs m) = dict_get_set k m"
    if "k \<notin> sched_id ` set xs" for k m and xs :: "schedule list"
    using that by (induction xs arbitrary: m) (auto split: option.splits)
  show ?thesis
    using assms
  proof (induction scheds arbitrary: m)
    case (Cons x xs)
    show ?case
    proof (cases "x = s")
      case True
      then show ?thesis using Cons.prems other [of "sched_id s" xs] by simp
    next
      case False
      then show ?thesis using Cons by (auto split: option.splits)
    qed
  qed simp
qed

lemma set_load_targets:
  assumes "distinct (map sched_id scheds)" "s \<in> set scheds" "group_id s \<noteq> None"
  shows "set (dict_get_set (sched_id s) (load_target_devices_by_schedule scheds devs assigns))
    = targets s devs assigns"
proof -
  obtain gid where g: "group_id s = Some gid" using assms(3) by blast
  let ?gs = "remdups (List.map_filter group_id scheds)"
  have gin: "gid \<in> set ?gs" using assms(2) g by (force simp: List.map_filter_def)
  then have ne: "?gs \<noteq> []" by force
  have tin: "t \<in> set (remdups (List.map_filter tag_id (filter (\<lambda>s. group_id s \<noteq> None) scheds)))"
    if "tag_id s = Some t" for t
    using assms(2,3) that by (force simp: List.map_filter_def)
  show ?thesis
    unfolding load_target_devices_by_schedule_def Let_def if_not_P [OF ne]
      fold_dict_get [OF assms(1,2) g]
    by (rule set_narrow_targets [OF g gin tin])
qed

lemma load_targets_ungrouped:
  assumes "\<And>s'. s' \<in> set scheds \<Longrightarrow> sched_id s' = k \<Longrightarrow> group_id s' = None"
  shows "dict_get_set k (load_target_devices_by_schedule scheds devs assigns) = []"
proof -
  have "dict_get_set k (fold (\<lambda>s out. case group_id s of None \<Rightarrow> out
      | Some gid \<Rightarrow> dict_set (sched_id s) (f s gid) out) scheds m) = dict_get_set k m"
    for f :: "schedule \<Rightarrow> string \<Rightarrow> string list" and m
    using assms by (induction scheds arbitrary: m) (auto split: option.splits)
  then show ?thesis by (simp add: load_target_devices_by_schedule_def Let_def)
qed

lemma targets_ungrouped: "group_id s = None \<Longrightarrow> targets s devs assigns = {}"
  by (auto simp: targets_def)

lemma load_targets_eq:
  assumes "distinct (map sched_id scheds)" "s \<in> set scheds"
  shows "set (dict_get_set (sched_id s) (load_target_devices_by_schedule scheds devs assigns))
    = targets s devs assigns"
proof (cases "group_id s")
  case None
  have "s' = s" if "s' \<in> set scheds" "sched_id s' = sched_id s" for s'
    using assms that by (auto simp: distinct_map inj_on_def)
  then show ?thesis
    using None load_targets_ungrouped [of scheds "sched_id s"] by (auto simp: targets_ungrouped)
qed (use set_load_targets [OF assms] in simp)

lemma set_get_target_device_ids: "set (get_target_device_ids s devs assigns) = targets s devs assigns"
proof (cases "group_id s")
  case (Some gid)
  then show ?thesis
    using set_narrow_targets [OF Some, of "[gid]" "case tag_id s of None \<Rightarrow> [] | Some t \<Rightarrow> [t]"]
    by (cases "tag_id s")
       (auto simp: get_target_device_ids_def narrow_targets_def Let_def targets_ungrouped)
qed (simp add: get_target_device_ids_def targets_ungrouped)

lemma skip_snapshot_dicts_ok:
  "dict_ok (schedule_wide (load_skip_snapshot scheds dskips))"
  "dict_ok (per_device (load_skip_snapshot scheds dskips))"
proof -
  have "dict_ok (fold (\<lambda>s sw. case skipped_until s of None \<Rightarrow> sw
      | Some until \<Rightarrow> dict_set (sched_id s) until sw) scheds m)" if "dict_ok m" for m
    using that by (induction scheds arbitrary: m) (auto split: option.splits)
  moreover have "dict_ok (fold (\<lambda>(sid, did, until) pd. dict_set (sid, did) until pd) dskips m)"
    if "dict_ok m" for m
    using that by (induction dskips arbitrary: m) auto
  ultimately show "dict_ok (schedule_wide (load_skip_snapshot scheds dskips))"
    "dict_ok (per_device (load_skip_snapshot scheds dskips))"
    by (auto simp: load_skip_snapshot_def dict_ok_def)
qed

lemma map_of_load_wide:
  assumes "distinct (map sched_id scheds)" "s \<in> set scheds"
  shows "map_of (schedule_wide (load_skip_snapshot scheds dskips)) (sched_id s) = skipped_until s"
proof -
  have other: "map_of (fold (\<lambda>s sw. case skipped_until s of None \<Rightarrow> sw
      | Some until \<Rightarrow> dict_set (sched_id s) until sw) xs m) k = map_of m k"
    if "k \<notin> sched_id ` set xs" for k m and xs :: "schedule list"
    using that by (induction xs arbitrary: m) (auto split: option.splits)
  have "map_of (fold (\<lambda>s sw. case skipped_until s of None \<Rightarrow> sw
      | Some until \<Rightarrow> dict_set (sched_id s) until sw) scheds m) (sched_id s) = skipped_until s"
    if "map_of m (sched_id s) = None" for m
    using assms that
  proof (induction scheds arbitrary: m)
    case (Cons x xs)
    then show ?case
    proof (cases "x = s")
      case True
      then show ?thesis
        using Cons.prems other [of "sched_id s" xs] by (auto split: option.splits)
    next
      case False
      then have "s \<in> set xs" using Cons.prems by auto
      moreover from this have "sched_id s \<noteq> sched_id x"
        using Cons.prems(1) by (metis distinct.simps(2) image_eqI list.map(2) list.set_map)
      ultimately show ?thesis using Cons by (auto split: option.splits)
    qed
  qed simp
  then show ?thesis by (simp add: load_skip_snapshot_def)
qed

end
