(* ===== verification/Now_Playing.thy ===== *)
theory Now_Playing
  imports Occurrence Targeting
begin

text \<open>
  What is playing: the tie-break between schedules, the replica-local cache of confirmed
  playback and \<^verbatim>\<open>compute_now_playing\<close> of \<^verbatim>\<open>cms/services/scheduler.py\<close>. The choice of one
  schedule per device is an instance of the locale \<open>tournament\<close>: the running comparison of
  the code computes the unique schedule that no other candidate beats, whatever the order in
  which rows and devices are visited.
\<close>

section \<open>Choosing one candidate by running comparison\<close>

fun champion :: "('a \<Rightarrow> 'a option \<Rightarrow> bool) \<Rightarrow> 'a list \<Rightarrow> 'a option \<Rightarrow> 'a option" where
  "champion wins [] best = best"
| "champion wins (x # xs) best = champion wins xs (if wins x best then Some x else best)"

locale tournament =
  fixes key :: "'a \<Rightarrow> 'k"
    and wins :: "'a \<Rightarrow> 'a option \<Rightarrow> bool"
  assumes first_wins: "wins x None"
    and irrefl: "\<not> wins x (Some x)"
    and wins_trans: "wins x (Some y) \<Longrightarrow> wins y (Some z) \<Longrightarrow> wins x (Some z)"
    and total: "key x \<noteq> key y \<Longrightarrow> wins x (Some y) \<or> wins y (Some x)"
    and same_key: "key x = key y \<Longrightarrow> \<not> wins x (Some y)"
begin

lemma asym: "wins x (Some y) \<Longrightarrow> \<not> wins y (Some x)"
  using irrefl wins_trans by blast

lemma champion_incumbent:
  "champion wins xs (Some b) = Some c \<Longrightarrow>
     c \<in> insert b (set xs) \<and> \<not> wins b (Some c) \<and> (\<forall>x \<in> set xs. \<not> wins x (Some c))"
proof (induction xs arbitrary: b)
  case Nil
  then show ?case using irrefl by simp
next
  case (Cons x xs)
  show ?case
  proof (cases "wins x (Some b)")
    case True
    then have c: "c \<in> insert x (set xs)" "\<not> wins x (Some c)" "\<forall>y \<in> set xs. \<not> wins y (Some c)"
      using Cons by auto
    moreover have "\<not> wins b (Some c)" using c(2) True wins_trans by blast
    ultimately show ?thesis by auto
  next
    case False
    then have c: "c \<in> insert b (set xs)" "\<not> wins b (Some c)" "\<forall>y \<in> set xs. \<not> wins y (Some c)"
      using Cons by auto
    moreover have "\<not> wins x (Some c)"
    proof
      assume x: "wins x (Some c)"
      have "key x = key b \<or> wins b (Some x)" using False total by blast
      then show False
      proof
        assume "wins b (Some x)"
        then show False using c(2) x wins_trans by blast
      next
        assume eq: "key x = key b"
        show False
          using x c(2) total [of b c] same_key [of x c] eq wins_trans irrefl asym
          by (metis False)
      qed
    qed
    ultimately show ?thesis by auto
  qed
qed

lemma champion_Some_incumbent: "\<exists>c. champion wins xs (Some b) = Some c"
  by (induction xs arbitrary: b) auto

lemma champion_None: "champion wins xs None = None \<longleftrightarrow> xs = []"
  using champion_Some_incumbent by (cases xs) (auto simp: first_wins)

lemma champion_best:
  "champion wins xs None = Some c \<Longrightarrow> c \<in> set xs \<and> (\<forall>x \<in> set xs. \<not> wins x (Some c))"
  using champion_incumbent by (cases xs) (auto simp: first_wins)

lemma undominated_unique:
  assumes "inj_on key A" "c \<in> A" "d \<in> A" "\<forall>x \<in> A. \<not> wins x (Some c)" "\<forall>x \<in> A. \<not> wins x (Some d)"
  shows "c = d"
  using assms total by (metis inj_on_def)

text \<open>The winner depends on the set of candidates only, not on the order of the loop.\<close>

lemma champion_order_independent:
  assumes "inj_on key (set xs)" "set xs = set ys"
  shows "champion wins xs None = champion wins ys None"
proof (cases "champion wins xs None")
  case None
  then show ?thesis using assms(2) champion_None by (metis set_empty)
next
  case (Some c)
  then obtain d where d: "champion wins ys None = Some d"
    using assms(2) champion_None by (metis not_Some_eq set_empty)
  then show ?thesis
    using Some champion_best [OF Some] champion_best [OF d] undominated_unique [OF assms(1)] assms(2)
    by metis
qed

end

section \<open>The scheduler's tie-break\<close>

definition schedule_wins :: "schedule \<Rightarrow> schedule option \<Rightarrow> bool" where
  "schedule_wins candidate incumbent =
     (case incumbent of None \<Rightarrow> True
      | Some inc \<Rightarrow>
          if priority candidate \<noteq> priority inc then priority candidate > priority inc
          else sched_id candidate < sched_id inc)"

interpretation wins: tournament "\<lambda>s. (priority s, sched_id s)" schedule_wins
  by unfold_locales (auto simp: schedule_wins_def split: if_splits)

section \<open>Definitions\<close>

definition matches_now :: "schedule \<Rightarrow> datetime \<Rightarrow> bool" where
  "matches_now s now \<longleftrightarrow> matches_at s now = Inr True"

definition asset_display_name :: "asset option \<Rightarrow> string" where
  "asset_display_name a =
     (case a of None \<Rightarrow> em_dash
      | Some x \<Rightarrow> the (or_str (or_str (display_name x) (original_filename x)) (Some (filename x))))"

subsection \<open>The cache of confirmed playback\<close>

record confirmed =
  cp_schedule_id :: string
  cp_since :: string

type_synonym confirmed_playing = "(string, confirmed) dict"

definition get_now_playing :: "confirmed_playing \<Rightarrow> confirmed list" where
  "get_now_playing cp = map snd cp"

definition set_now_playing :: "string \<Rightarrow> confirmed \<Rightarrow> confirmed_playing \<Rightarrow> confirmed_playing" where
  "set_now_playing did entry cp = dict_set did entry cp"

definition clear_now_playing :: "string \<Rightarrow> confirmed_playing \<Rightarrow> confirmed option \<times> confirmed_playing" where
  "clear_now_playing did cp = (map_of cp did, dict_pop did cp)"

definition skip_schedule_until :: "string \<Rightarrow> string option \<Rightarrow> confirmed_playing \<Rightarrow> confirmed_playing" where
  "skip_schedule_until sid did cp =
     (case did of
        None \<Rightarrow> (let to_remove = map fst (filter (\<lambda>(d, info). cp_schedule_id info = sid) cp)
                 in fold dict_pop to_remove cp)
      | Some d \<Rightarrow> (case map_of cp d of
            None \<Rightarrow> cp
          | Some info \<Rightarrow> if cp_schedule_id info = sid then dict_pop d cp else cp))"

subsection \<open>The currently-playing list\<close>

text \<open>The entries of \<^verbatim>\<open>get_transport().get_all_states()\<close> the scheduler reads.\<close>

record live_state =
  ls_device_id :: string
  ls_mode :: string
  ls_asset :: "string option"
  ls_started_at :: "string option"

record np_entry =
  np_device_id :: string
  np_device_name :: string
  np_schedule_id :: string
  np_schedule_name :: string
  np_group_id :: "string option"
  np_group_name :: "string option"
  np_asset_filename :: string
  np_asset_raw :: "string option"
  np_priority :: int
  np_since :: string
  np_source :: string
  np_end_time :: string
  np_start_time_raw :: string
  np_end_time_raw :: string

definition is_url_asset :: "asset \<Rightarrow> bool" where
  "is_url_asset a \<longleftrightarrow> asset_type_of a = WEBPAGE \<or> asset_type_of a = STREAM"

definition asset_raw :: "asset \<Rightarrow> string option" where
  "asset_raw a = (if is_url_asset a then asset_url a else Some (filename a))"

text \<open>The loop that fills \<^verbatim>\<open>schedule_targets\<close>: active schedules with an asset and their
  targets, less the devices skipped for them.\<close>

definition schedule_targets ::
  "schedule list \<Rightarrow> (string, string list) dict \<Rightarrow> skip_snapshot \<Rightarrow> (schedule \<times> string list) list" where
  "schedule_targets active targets_by_schedule skips =
     [(s, ids). s \<leftarrow> active, sched_asset s \<noteq> None,
        ids \<leftarrow> [filter (\<lambda>did. \<not> is_skipped_for_device skips (sched_id s) did)
                  (dict_get_set (sched_id s) targets_by_schedule)],
        ids \<noteq> []]"

text \<open>The nested loop that picks the highest-priority schedule per device.\<close>

definition pick_device :: "schedule \<Rightarrow> string \<Rightarrow> (string, schedule) dict \<Rightarrow> (string, schedule) dict" where
  "pick_device s did m = (if schedule_wins s (map_of m did) then dict_set did s m else m)"

definition device_schedule :: "(schedule \<times> string list) list \<Rightarrow> (string, schedule) dict" where
  "device_schedule sts = fold (\<lambda>(s, ids) m. fold (pick_device s) ids m) sts []"

definition live_matches :: "live_state option \<Rightarrow> string option \<Rightarrow> bool" where
  "live_matches live expected =
     (case live of None \<Rightarrow> False | Some l \<Rightarrow> ls_mode l = ''play'' \<and> ls_asset l = expected)"

text \<open>\<^verbatim>\<open>since\<close> and \<^verbatim>\<open>is_confirmed\<close> for one device and its winning schedule.\<close>

definition confirmation ::
  "confirmed option \<Rightarrow> live_state option \<Rightarrow> bool \<Rightarrow> string \<Rightarrow> string \<Rightarrow> string \<times> bool" where
  "confirmation conf live matches sid now_iso =
     (if (case conf of Some c \<Rightarrow> cp_schedule_id c = sid | None \<Rightarrow> False)
      then (cp_since (the conf), matches)
      else if matches
      then ((case live of Some l \<Rightarrow> (case ls_started_at l of Some t \<Rightarrow> t | None \<Rightarrow> now_iso)
             | None \<Rightarrow> now_iso), True)
      else (now_iso, False))"

definition np_entry_for ::
  "string \<Rightarrow> schedule \<Rightarrow> asset \<Rightarrow> (string, string) dict \<Rightarrow> (string, live_state) dict
   \<Rightarrow> confirmed_playing \<Rightarrow> string \<Rightarrow> np_entry" where
  "np_entry_for did s a device_names live_states cp now_iso =
     (let raw = asset_raw a;
          live = map_of live_states did;
          (since, is_confirmed) =
            confirmation (map_of cp did) live (live_matches live raw) (sched_id s) now_iso
      in \<lparr>np_device_id = did,
          np_device_name = (case map_of device_names did of Some n \<Rightarrow> n | None \<Rightarrow> did),
          np_schedule_id = sched_id s,
          np_schedule_name = sched_name s,
          np_group_id = group_id s,
          np_group_name = map_option dg_name (sched_group s),
          np_asset_filename = asset_display_name (Some a),
          np_asset_raw = raw,
          np_priority = priority s,
          np_since = since,
          np_source = (if is_confirmed then ''confirmed'' else ''scheduled''),
          np_end_time = strftime_ampm (end_time s),
          np_start_time_raw = strftime_hms (start_time s),
          np_end_time_raw = strftime_hms (end_time s)\<rparr>)"

text \<open>The database state the function reads and the parameters it gets from the clock and
  the transport: \<open>local_now\<close> is \<^verbatim>\<open>now.astimezone(tz).replace(tzinfo=None)\<close>, \<open>now_iso\<close>
  is \<^verbatim>\<open>now.isoformat()\<close>.\<close>

record cms_db =
  schedules :: "schedule list"
  devices :: "device list"
  tag_assignments :: "tag_assignment list"
  device_skips :: "device_skip list"

definition active_schedules :: "cms_db \<Rightarrow> datetime \<Rightarrow> schedule list" where
  "active_schedules db local_now =
     (let skips = active_as_of (load_skip_snapshot (schedules db) (device_skips db)) local_now
      in filter (\<lambda>s. matches_now s local_now \<and> \<not> is_schedule_skipped skips (sched_id s))
           (filter enabled (schedules db)))"

definition compute_now_playing ::
  "cms_db \<Rightarrow> live_state list \<Rightarrow> confirmed_playing \<Rightarrow> datetime \<Rightarrow> string \<Rightarrow> np_entry list" where
  "compute_now_playing db states cp local_now now_iso =
     (let skips = active_as_of (load_skip_snapshot (schedules db) (device_skips db)) local_now;
          active = active_schedules db local_now
      in if active = [] then []
         else
           let live_states = fold (\<lambda>l m. dict_set (ls_device_id l) l m) states [];
               tbs = load_target_devices_by_schedule active (devices db) (tag_assignments db);
               sts = schedule_targets active tbs skips;
               all_device_ids = concat (map snd sts);
               device_names = [(dev_id d, if dev_name d = '''' then dev_id d else dev_name d).
                  d \<leftarrow> devices db, dev_id d \<in> set all_device_ids]
           in [np_entry_for did s a device_names live_states cp now_iso.
                 (did, s) \<leftarrow> device_schedule sts,
                 a \<leftarrow> (case sched_asset s of Some a \<Rightarrow> [a] | None \<Rightarrow> [])])"

section \<open>Lemmas\<close>

lemma map_of_fold_pick:
  "map_of (fold (pick_device s) ids m) did =
     (if did \<in> set ids \<and> schedule_wins s (map_of m did) then Some s else map_of m did)"
proof (induction ids arbitrary: m)
  case (Cons i ids)
  then show ?case using wins.irrefl [of s] by (auto simp: pick_device_def)
qed simp

text \<open>Per device, the nested loop is the running comparison over the schedules that reach it.\<close>

definition candidates :: "string \<Rightarrow> (schedule \<times> string list) list \<Rightarrow> schedule list" where
  "candidates did sts = map fst (filter (\<lambda>(s, ids). did \<in> set ids) sts)"

lemma map_of_device_schedule_gen:
  "map_of (fold (\<lambda>(s, ids) m. fold (pick_device s) ids m) sts m) did =
     champion schedule_wins (candidates did sts) (map_of m did)"
proof (induction sts arbitrary: m)
  case (Cons st sts)
  obtain s ids where "st = (s, ids)" by (cases st)
  then show ?case
    using Cons by (auto simp: map_of_fold_pick candidates_def)
qed (simp add: candidates_def)

lemma map_of_device_schedule:
  "map_of (device_schedule sts) did = champion schedule_wins (candidates did sts) None"
  by (simp add: device_schedule_def map_of_device_schedule_gen)

lemma dict_ok_device_schedule: "dict_ok (device_schedule sts)"
proof -
  have "dict_ok (fold (pick_device s) ids m)" if "dict_ok m" for s ids m
    using that by (induction ids arbitrary: m) (auto simp: pick_device_def)
  then have "dict_ok (fold (\<lambda>(s, ids) m. fold (pick_device s) ids m) sts m)" if "dict_ok m" for m
    using that by (induction sts arbitrary: m) auto
  then show ?thesis by (simp add: device_schedule_def dict_ok_def)
qed

lemma mem_schedule_targets:
  "(s, ids) \<in> set (schedule_targets active tbs skips) \<longleftrightarrow>
     s \<in> set active \<and> sched_asset s \<noteq> None \<and> ids \<noteq> []
     \<and> ids = filter (\<lambda>did. \<not> is_skipped_for_device skips (sched_id s) did)
                (dict_get_set (sched_id s) tbs)"
  by (auto simp: schedule_targets_def)

lemma mem_candidates:
  "s \<in> set (candidates did (schedule_targets active tbs skips)) \<longleftrightarrow>
     s \<in> set active \<and> sched_asset s \<noteq> None \<and> did \<in> set (dict_get_set (sched_id s) tbs)
     \<and> \<not> is_skipped_for_device skips (sched_id s) did"
proof -
  have "s \<in> set (candidates did (schedule_targets active tbs skips)) \<longleftrightarrow>
      (\<exists>ids. (s, ids) \<in> set (schedule_targets active tbs skips) \<and> did \<in> set ids)"
    by (force simp: candidates_def)
  then show ?thesis by (auto simp: mem_schedule_targets filter_empty_conv)
qed

subsection \<open>Skips as the operator set them\<close>

text \<open>A schedule is ended early for a device while its schedule-wide or its per-device
  \<^verbatim>\<open>skip_until\<close> lies in the future.\<close>

definition skipped_at :: "cms_db \<Rightarrow> datetime \<Rightarrow> schedule \<Rightarrow> string \<Rightarrow> bool" where
  "skipped_at db t s did \<longleftrightarrow>
     (\<exists>u. skipped_until s = Some u \<and> t < u)
     \<or> (\<exists>u. (sched_id s, did, u) \<in> set (device_skips db) \<and> t < u)"

definition db_ok :: "cms_db \<Rightarrow> bool" where
  "db_ok db \<longleftrightarrow> distinct (map sched_id (schedules db))
     \<and> distinct (map (\<lambda>(sid, did, u). (sid, did)) (device_skips db))
     \<and> distinct (map dev_id (devices db))"

lemma map_of_load_device:
  assumes "distinct (map (\<lambda>(sid, did, u). (sid, did)) dskips)"
  shows "map_of (per_device (load_skip_snapshot scheds dskips)) (sid, did) = Some u
    \<longleftrightarrow> (sid, did, u) \<in> set dskips"
proof -
  have "map_of (fold (\<lambda>(sid, did, until) pd. dict_set (sid, did) until pd) ds m) (sid, did) = Some u
      \<longleftrightarrow> (sid, did, u) \<in> set ds
        \<or> map_of m (sid, did) = Some u \<and> (sid, did) \<notin> (\<lambda>(sid, did, u). (sid, did)) ` set ds"
    if "distinct (map (\<lambda>(sid, did, u). (sid, did)) ds)" for ds m
    using that
  proof (induction ds arbitrary: m)
    case (Cons d ds)
    obtain a b c where "d = (a, b, c)" by (cases d)
    then show ?case using Cons by (auto simp: image_iff)
  qed simp
  from this [OF assms] show ?thesis by (simp add: load_skip_snapshot_def)
qed

lemma skipped_wide_iff:
  assumes "db_ok db" "s \<in> set (schedules db)"
  shows "is_schedule_skipped (active_as_of (load_skip_snapshot (schedules db) (device_skips db)) t)
      (sched_id s) \<longleftrightarrow> (\<exists>u. skipped_until s = Some u \<and> t < u)"
  using assms map_of_load_wide [of "schedules db" s] skip_snapshot_dicts_ok(1)
  by (auto simp: is_schedule_skipped_def active_as_of_def map_of_filter_dict db_ok_def
      split: option.splits)

lemma skipped_device_iff:
  assumes "db_ok db" "s \<in> set (schedules db)"
  shows "is_skipped_for_device (active_as_of (load_skip_snapshot (schedules db) (device_skips db)) t)
      (sched_id s) did \<longleftrightarrow> skipped_at db t s did"
proof -
  let ?sk = "load_skip_snapshot (schedules db) (device_skips db)"
  have "map_of (per_device (active_as_of ?sk t)) (sched_id s, did) \<noteq> None
      \<longleftrightarrow> (\<exists>u. (sched_id s, did, u) \<in> set (device_skips db) \<and> t < u)"
    using assms(1) skip_snapshot_dicts_ok(2) [of "schedules db" "device_skips db"]
    by (cases "map_of (per_device ?sk) (sched_id s, did)")
       (auto simp: active_as_of_def map_of_filter_dict db_ok_def
          simp flip: map_of_load_device [of "device_skips db" "schedules db"])
  then show ?thesis
    using skipped_wide_iff [OF assms, of t]
    by (auto simp: is_skipped_for_device_def skipped_at_def is_schedule_skipped_def)
qed

subsection \<open>The specification of what plays\<close>

text \<open>A schedule is eligible for a device when it is enabled, in one of its occurrences, has
  an asset, targets the device and is not ended early for it. The one that plays is the
  eligible schedule that beats every other.\<close>

definition eligible :: "cms_db \<Rightarrow> datetime \<Rightarrow> string \<Rightarrow> schedule \<Rightarrow> bool" where
  "eligible db t did s \<longleftrightarrow> s \<in> set (schedules db) \<and> enabled s \<and> dt_us t \<in> covers s
     \<and> sched_asset s \<noteq> None \<and> did \<in> targets s (devices db) (tag_assignments db)
     \<and> \<not> skipped_at db t s did"

definition plays :: "cms_db \<Rightarrow> datetime \<Rightarrow> string \<Rightarrow> schedule \<Rightarrow> bool" where
  "plays db t did s \<longleftrightarrow> eligible db t did s
     \<and> (\<forall>s'. eligible db t did s' \<and> s' \<noteq> s \<longrightarrow> schedule_wins s (Some s'))"

definition clock_ok :: "cms_db \<Rightarrow> datetime \<Rightarrow> bool" where
  "clock_ok db t \<longleftrightarrow> valid_datetime t \<and> date_min < dt_date t
     \<and> (\<forall>s \<in> set (schedules db). valid_schedule s)"

lemma matches_now_iff:
  "clock_ok db t \<Longrightarrow> s \<in> set (schedules db) \<Longrightarrow> matches_now s t \<longleftrightarrow> enabled s \<and> dt_us t \<in> covers s"
  by (simp add: matches_now_def matches_at_iff clock_ok_def)

lemma mem_active:
  assumes "db_ok db" "clock_ok db t"
  shows "s \<in> set (active_schedules db t) \<longleftrightarrow> s \<in> set (schedules db) \<and> enabled s
      \<and> dt_us t \<in> covers s \<and> \<not> (\<exists>u. skipped_until s = Some u \<and> t < u)"
  using matches_now_iff [OF assms(2), of s] skipped_wide_iff [OF assms(1), of s t]
  by (auto simp: active_schedules_def Let_def)

lemma distinct_active: "db_ok db \<Longrightarrow> distinct (map sched_id (active_schedules db t))"
  by (auto simp: active_schedules_def db_ok_def Let_def distinct_map_filter)

lemma candidates_eligible:
  assumes "db_ok db" "clock_ok db t"
  shows "s \<in> set (candidates did (schedule_targets (active_schedules db t)
      (load_target_devices_by_schedule (active_schedules db t) (devices db) (tag_assignments db))
      (active_as_of (load_skip_snapshot (schedules db) (device_skips db)) t)))
    \<longleftrightarrow> eligible db t did s"
proof -
  have "s \<in> set (active_schedules db t) \<Longrightarrow> set (dict_get_set (sched_id s)
      (load_target_devices_by_schedule (active_schedules db t) (devices db) (tag_assignments db)))
      = targets s (devices db) (tag_assignments db)"
    by (rule load_targets_eq [OF distinct_active [OF assms(1)]])
  then show ?thesis
    using skipped_device_iff [OF assms(1), of s t did] mem_active [OF assms, of s]
    by (auto simp: mem_candidates eligible_def skipped_at_def)
qed

lemma champion_plays:
  assumes "db_ok db" "\<And>s. s \<in> set xs \<longleftrightarrow> eligible db t did s"
  shows "champion schedule_wins xs None = Some s \<longleftrightarrow> plays db t did s"
proof
  have key: "schedule_wins s (Some s') \<or> schedule_wins s' (Some s)"
    if "eligible db t did s" "eligible db t did s'" "s \<noteq> s'" for s s'
    using that assms(1) wins.total [of s s']
    by (auto simp: eligible_def db_ok_def distinct_map inj_on_def)
  show "plays db t did s" if "champion schedule_wins xs None = Some s"
    using wins.champion_best [OF that] key assms(2) by (auto simp: plays_def)
  show "champion schedule_wins xs None = Some s" if "plays db t did s"
  proof -
    have "s \<in> set xs" using that assms(2) by (simp add: plays_def)
    then obtain c where c: "champion schedule_wins xs None = Some c"
      using wins.champion_None [of xs] by fastforce
    have "c = s"
      using wins.champion_best [OF c] \<open>s \<in> set xs\<close> that assms(2) by (auto simp: plays_def)
    then show ?thesis using c by simp
  qed
qed

lemma np_entry_for_ids [simp]:
  "np_device_id (np_entry_for did s a dn ls cp now_iso) = did"
  "np_schedule_id (np_entry_for did s a dn ls cp now_iso) = sched_id s"
  by (simp_all add: np_entry_for_def Let_def split: prod.splits)

lemma np_entry_for_confirmed:
  "np_source (np_entry_for did s a dn ls cp now_iso) = ''confirmed'' \<Longrightarrow>
     live_matches (map_of ls did) (np_asset_raw (np_entry_for did s a dn ls cp now_iso))"
  by (auto simp: np_entry_for_def confirmation_def Let_def split: prod.splits if_splits)

lemma compute_now_playing_image:
  fixes db :: cms_db
  assumes "e \<in> set (compute_now_playing db states cp t now_iso)"
  obtains dn did s a where
    "e = np_entry_for did s a dn (fold (\<lambda>l m. dict_set (ls_device_id l) l m) states []) cp now_iso"
  using assms that by (auto simp: compute_now_playing_def Let_def split: if_splits option.splits)

lemma map_of_live_states:
  "map_of (fold (\<lambda>l m. dict_set (ls_device_id l) l m) states m) did = Some l \<Longrightarrow>
     (l \<in> set states \<and> ls_device_id l = did) \<or> map_of m did = Some l"
proof (induction states arbitrary: m)
  case (Cons a states)
  then show ?case using Cons.IH [of "dict_set (ls_device_id a) a m"] by (auto split: if_splits)
qed simp

lemma compute_now_playing_ids:
  assumes "db_ok db" "clock_ok db t"
    and L_def: "L = compute_now_playing db states cp t now_iso"
  shows "distinct (map np_device_id L)"
    and "(\<exists>e \<in> set L. np_device_id e = did \<and> np_schedule_id e = sid)
      \<longleftrightarrow> (\<exists>s. plays db t did s \<and> sched_id s = sid)"
proof -
  let ?sts = "schedule_targets (active_schedules db t)
      (load_target_devices_by_schedule (active_schedules db t) (devices db) (tag_assignments db))
      (active_as_of (load_skip_snapshot (schedules db) (device_skips db)) t)"
  have ds: "(d, s) \<in> set (device_schedule ?sts) \<longleftrightarrow> plays db t d s" for d s
    using champion_plays [OF assms(1) candidates_eligible [OF assms(1,2)]]
    by (simp add: dict_ok_mem_iff [OF dict_ok_device_schedule] map_of_device_schedule)
  have has_asset: "sched_asset s \<noteq> None" if "(d, s) \<in> set (device_schedule ?sts)" for d s
    using that by (auto simp: ds plays_def eligible_def)
  have pairs: "map (\<lambda>e. (np_device_id e, np_schedule_id e)) L =
      map (\<lambda>(d, s). (d, sched_id s)) (device_schedule ?sts)"
  proof (cases "active_schedules db t = []")
    case True
    then have "?sts = []" by (simp add: schedule_targets_def)
    then show ?thesis using True by (simp add: L_def compute_now_playing_def device_schedule_def)
  next
    case False
    have "map (\<lambda>e. (np_device_id e, np_schedule_id e))
        (concat (map (\<lambda>(d, s). concat (map (\<lambda>a. [f d s a])
          (case sched_asset s of None \<Rightarrow> [] | Some a \<Rightarrow> [a]))) xs))
      = map (\<lambda>(d, s). (d, sched_id s)) xs"
      if "\<And>d s. (d, s) \<in> set xs \<Longrightarrow> sched_asset s \<noteq> None"
        and "\<And>d s a. np_device_id (f d s a) = d \<and> np_schedule_id (f d s a) = sched_id s"
      for xs and f :: "string \<Rightarrow> schedule \<Rightarrow> asset \<Rightarrow> np_entry"
      using that by (induction xs) fastforce+
    then show ?thesis
      using False has_asset by (simp add: L_def compute_now_playing_def Let_def)
  qed
  then have "map np_device_id L = map fst (device_schedule ?sts)"
    by (metis (no_types, lifting) map_map comp_def fst_conv case_prod_beta' map_eq_conv)
  then show "distinct (map np_device_id L)"
    using dict_ok_device_schedule [of ?sts] by (simp add: dict_ok_def)
  have "(\<exists>e \<in> set L. np_device_id e = did \<and> np_schedule_id e = sid)
      \<longleftrightarrow> (did, sid) \<in> set (map (\<lambda>e. (np_device_id e, np_schedule_id e)) L)"
    by auto
  also have "\<dots> \<longleftrightarrow> (\<exists>s. plays db t did s \<and> sched_id s = sid)"
    unfolding pairs by (auto simp flip: ds)
  finally show "(\<exists>e \<in> set L. np_device_id e = did \<and> np_schedule_id e = sid)
      \<longleftrightarrow> (\<exists>s. plays db t did s \<and> sched_id s = sid)" .
qed

section \<open>Properties\<close>

definition sample_asset :: asset where
  "sample_asset = \<lparr>asset_id = ''a1'', filename = ''v.mp4'', original_filename = None,
     display_name = Some '''', asset_type_of = VIDEO, asset_checksum = ''c0'', asset_url = None,
     asset_deleted_at = None, duration_us = None\<rparr>"

definition sample_device :: device where
  "sample_device = \<lparr>dev_id = ''d1'', dev_name = '''', dev_status = ADOPTED,
     dev_group_id = Some ''g'', dev_group = None, dev_profile_id = None, dev_default_asset = None,
     dev_timezone = None, capabilities = [], device_type = ''''\<rparr>"

definition sample_db :: cms_db where
  "sample_db = \<lparr>schedules = [sample_schedule\<lparr>sched_asset := Some sample_asset\<rparr>,
       sample_tuesday\<lparr>sched_asset := Some sample_asset, priority := 5\<rparr>],
     devices = [sample_device], tag_assignments = [], device_skips = []\<rparr>"

definition sample_now :: datetime where
  "sample_now = Datetime 737998 (Time 1 30 0 0)"

lemma sample_db_ok: "db_ok sample_db" "clock_ok sample_db sample_now"
  by (simp_all add: sample_db_def db_ok_def clock_ok_def sample_schedule_def sample_tuesday_def
      sample_now_def valid_datetime_def valid_schedule_def valid_time_def valid_date_def
      date_min_def date_max_def)

text \<open>
  C1. The currently-playing list has at most one entry per device, and its entry for a device
  is exactly the schedule that should play there: enabled, covering the instant, with an
  asset, targeting the device through its group and tag, not ended early for it, and beating
  every other such schedule by priority and then by id. A device has an entry whenever some
  schedule is eligible for it. The result does not depend on the order in which rows and
  target sets are visited.
\<close>

theorem now_playing_winner:
  assumes "db_ok db" and "clock_ok db t"
  shows "distinct (map np_device_id (compute_now_playing db states cp t now_iso))
    \<and> (\<forall>did sid. (\<exists>e \<in> set (compute_now_playing db states cp t now_iso).
          np_device_id e = did \<and> np_schedule_id e = sid)
        \<longleftrightarrow> (\<exists>s. plays db t did s \<and> sched_id s = sid))"
  using compute_now_playing_ids [OF assms refl] by blast

theorem now_playing_winner_witness:
  "(\<forall>did sid. (\<exists>e \<in> set (compute_now_playing sample_db [] [] sample_now ''now'').
        np_device_id e = did \<and> np_schedule_id e = sid)
      \<longleftrightarrow> (\<exists>s. plays sample_db sample_now did s \<and> sched_id s = sid))
   \<and> map np_schedule_id (compute_now_playing sample_db [] [] sample_now ''now'') = [''s2'']"
proof
  show "\<forall>did sid. (\<exists>e \<in> set (compute_now_playing sample_db [] [] sample_now ''now'').
        np_device_id e = did \<and> np_schedule_id e = sid)
      \<longleftrightarrow> (\<exists>s. plays sample_db sample_now did s \<and> sched_id s = sid)"
    using now_playing_winner [OF sample_db_ok] by blast
  show "map np_schedule_id (compute_now_playing sample_db [] [] sample_now ''now'') = [''s2'']"
    by code_simp
qed

text \<open>
  An entry is reported as confirmed only when the database-backed device state agrees: the
  device reports play mode and the very file or URL of the winning schedule. A stale entry of
  the replica-local cache alone never yields a confirmation.
\<close>

theorem confirmed_needs_live_state:
  assumes "e \<in> set (compute_now_playing db states cp t now_iso)" and "np_source e = ''confirmed''"
  shows "\<exists>l \<in> set states. ls_device_id l = np_device_id e \<and> ls_mode l = ''play''
    \<and> ls_asset l = np_asset_raw e"
proof -
  obtain dn did s a where e: "e = np_entry_for did s a dn
      (fold (\<lambda>l m. dict_set (ls_device_id l) l m) states []) cp now_iso"
    using compute_now_playing_image [OF assms(1)] .
  have "live_matches (map_of (fold (\<lambda>l m. dict_set (ls_device_id l) l m) states []) did) (np_asset_raw e)"
    using assms(2) unfolding e by (rule np_entry_for_confirmed)
  then obtain l where l: "map_of (fold (\<lambda>l m. dict_set (ls_device_id l) l m) states []) did = Some l"
      "ls_mode l = ''play''" "ls_asset l = np_asset_raw e"
    unfolding live_matches_def by (auto split: option.splits)
  moreover have "np_device_id e = did" unfolding e by simp
  ultimately show ?thesis using map_of_live_states [OF l(1)] by auto
qed

definition sample_live :: live_state where
  "sample_live = \<lparr>ls_device_id = ''d1'', ls_mode = ''play'', ls_asset = Some ''v.mp4'',
     ls_started_at = None\<rparr>"

theorem confirmed_needs_live_state_witness:
  "\<exists>e. e \<in> set (compute_now_playing sample_db [sample_live] [] sample_now ''now'')
     \<and> np_source e = ''confirmed''
     \<and> (\<exists>l \<in> set [sample_live]. ls_device_id l = np_device_id e \<and> ls_mode l = ''play''
          \<and> ls_asset l = np_asset_raw e)"
proof -
  let ?L = "compute_now_playing sample_db [sample_live] [] sample_now ''now''"
  have "map np_source ?L = [''confirmed'']" by code_simp
  then obtain e where e: "e \<in> set ?L" "np_source e = ''confirmed''"
    by (auto simp: map_eq_Cons_conv)
  then show ?thesis using confirmed_needs_live_state [OF e] by blast
qed

end
