(* ===== verification/Readiness.thy ===== *)
theory Readiness
  imports Now_Playing
begin

text \<open>
  When an asset may be scheduled: \<^verbatim>\<open>cms/services/variant_view.py\<close> (the newest variant per
  profile and the readiness rule) and \<^verbatim>\<open>cms/services/asset_readiness.py\<close> (the gate the
  routers call). The choice of the newest row per profile is a second instance of the locale
  \<open>tournament\<close>.
\<close>

section \<open>Definitions\<close>

datatype variant_status = VPENDING | VPROCESSING | VREADY | VFAILED | VCANCELLED

record asset_variant =
  av_id :: string
  source_asset :: asset
  profile_id :: "string option"
  av_status :: variant_status
  av_checksum :: string
  av_created_at :: int
  av_deleted_at :: "int option"

definition source_asset_id :: "asset_variant \<Rightarrow> string" where
  "source_asset_id v = asset_id (source_asset v)"

text \<open>The body of the loop of both collapse functions after the filters: keep the newer row,
  ties going to the greater identifier.\<close>

definition newer :: "asset_variant \<Rightarrow> asset_variant option \<Rightarrow> bool" where
  "newer v cur = (case cur of None \<Rightarrow> True
     | Some c \<Rightarrow> if av_created_at v > av_created_at c then True
                else av_created_at v = av_created_at c \<and> av_id v > av_id c)"

definition keep_newer ::
  "asset_variant \<Rightarrow> (string, asset_variant) dict \<Rightarrow> (string, asset_variant) dict" where
  "keep_newer v latest = (case profile_id v of None \<Rightarrow> latest
     | Some pid \<Rightarrow> if newer v (map_of latest pid) then dict_set pid v latest else latest)"

definition collapse_to_latest :: "asset_variant list \<Rightarrow> asset_variant list" where
  "collapse_to_latest vs =
     map snd (fold keep_newer (filter (\<lambda>v. av_deleted_at v = None) vs) [])"

definition collapse_to_ready :: "asset_variant list \<Rightarrow> asset_variant list" where
  "collapse_to_ready vs =
     map snd (fold keep_newer
       (filter (\<lambda>v. av_status v = VREADY) (filter (\<lambda>v. av_deleted_at v = None) vs)) [])"

text \<open>The loop over profiles of \<^verbatim>\<open>is_asset_ready\<close>: the flags \<^verbatim>\<open>any_unready_profile\<close> and
  \<^verbatim>\<open>any_in_flight\<close>, with the early exit.\<close>

fun ready_scan :: "(string \<times> asset_variant list) list \<Rightarrow> bool \<Rightarrow> bool \<times> bool" where
  "ready_scan [] unready = (unready, False)"
| "ready_scan ((pid, vs) # rest) unready =
     (if list_ex (\<lambda>v. av_status v = VREADY) vs then ready_scan rest unready
      else if list_ex (\<lambda>v. av_status v \<in> {VPENDING, VPROCESSING}) vs then (True, True)
      else ready_scan rest True)"

text \<open>The reason ends in a horizontal ellipsis (UTF-8) while work is in flight.\<close>

definition transcoding_reason :: string where
  "transcoding_reason = ''transcoding'' @ [CHR 0xE2, CHR 0x80, CHR 0xA6]"

definition is_asset_ready :: "asset_variant list \<Rightarrow> bool \<times> string option" where
  "is_asset_ready variants =
     (let live = filter (\<lambda>v. av_deleted_at v = None) variants;
          by_profile = group_by (\<lambda>v. the (profile_id v)) (filter (\<lambda>v. profile_id v \<noteq> None) live);
          (any_unready, any_in_flight) = ready_scan by_profile False
      in if live = [] then (True, None)
         else if by_profile = [] then (True, None)
         else if \<not> any_unready then (True, None)
         else (False, Some (if any_in_flight then transcoding_reason else ''transcode failed'')))"

definition COMPOSED_UNPUBLISHED_REASON :: string where
  "COMPOSED_UNPUBLISHED_REASON = ''not published yet''"

definition composed_unpublished_reason :: "asset option \<Rightarrow> string option" where
  "composed_unpublished_reason a =
     (case a of None \<Rightarrow> None
      | Some x \<Rightarrow> if asset_type_of x \<noteq> COMPOSED then None
                 else if asset_checksum x = '''' then Some COMPOSED_UNPUBLISHED_REASON else None)"

text \<open>Errors of the HTTP handlers: an \<^verbatim>\<open>HTTPException\<close> with its status and detail, or an
  uncaught exception.\<close>

datatype api_error = HTTPException int string | Uncaught py_error

definition NOT_PUBLISHED :: string where
  "NOT_PUBLISHED = ''This composed slide hasn'' @ [CHR 0x27]
     @ ''t been published yet. Open it in the editor and click Publish before scheduling it.''"

definition require_asset_ready :: "asset list \<Rightarrow> asset_variant list \<Rightarrow> string \<Rightarrow> api_error + asset" where
  "require_asset_ready assets variants aid =
     (case List.find (\<lambda>a. asset_id a = aid) assets of
        None \<Rightarrow> Inl (HTTPException 404 ''Asset not found'')
      | Some a \<Rightarrow>
          (case is_asset_ready (filter (\<lambda>v. source_asset_id v = aid) variants) of
             (False, reason) \<Rightarrow> Inl (HTTPException 422
               (''Asset is not ready for assignment ('' @ the reason @ '').''))
           | (True, reason) \<Rightarrow>
               if composed_unpublished_reason (Some a) \<noteq> None then Inl (HTTPException 422 NOT_PUBLISHED)
               else Inr a))"

section \<open>Lemmas\<close>

interpretation newest: tournament "\<lambda>v. (av_created_at v, av_id v)" newer
  by unfold_locales (auto simp: newer_def split: if_splits)

lemma keep_newer_lookup:
  "map_of (fold keep_newer vs m) pid
     = champion newer (filter (\<lambda>v. profile_id v = Some pid) vs) (map_of m pid)"
  by (induction vs arbitrary: m) (auto simp: keep_newer_def split: option.splits)

lemma dict_ok_keep_newer: "dict_ok m \<Longrightarrow> dict_ok (fold keep_newer vs m)"
  by (induction vs arbitrary: m) (auto simp: keep_newer_def split: option.splits)

lemma mem_collapse:
  "v \<in> snd ` set (fold keep_newer vs [])
     \<longleftrightarrow> (\<exists>pid. champion newer (filter (\<lambda>v. profile_id v = Some pid) vs) None = Some v)"
proof -
  have ok: "dict_ok (fold keep_newer vs [])" by (rule dict_ok_keep_newer) (simp add: dict_ok_def)
  have "v \<in> snd ` set (fold keep_newer vs []) \<longleftrightarrow> (\<exists>pid. (pid, v) \<in> set (fold keep_newer vs []))"
    by force
  also have "\<dots> \<longleftrightarrow> (\<exists>pid. map_of (fold keep_newer vs []) pid = Some v)"
    unfolding dict_ok_mem_iff [OF ok] ..
  finally show ?thesis by (simp add: keep_newer_lookup)
qed

lemma ready_scan_flags:
  "fst (ready_scan bp u) \<longleftrightarrow> u \<or> (\<exists>(pid, vs) \<in> set bp. \<not> (\<exists>v \<in> set vs. av_status v = VREADY))"
  "snd (ready_scan bp u) \<longleftrightarrow> (\<exists>(pid, vs) \<in> set bp. \<not> (\<exists>v \<in> set vs. av_status v = VREADY)
      \<and> (\<exists>v \<in> set vs. av_status v \<in> {VPENDING, VPROCESSING}))"
  by (induction bp u rule: ready_scan.induct) (auto simp: list_ex_iff)

text \<open>The rule of the docstring.\<close>

definition ready :: "asset_variant list \<Rightarrow> bool" where
  "ready vs \<longleftrightarrow> (\<forall>v \<in> set vs. av_deleted_at v = None \<and> profile_id v \<noteq> None \<longrightarrow>
     (\<exists>w \<in> set vs. av_deleted_at w = None \<and> profile_id w = profile_id v \<and> av_status w = VREADY))"

lemma is_asset_ready_fst: "fst (is_asset_ready vs) \<longleftrightarrow> ready vs"
proof -
  let ?live = "filter (\<lambda>v. av_deleted_at v = None) vs"
  let ?lp = "filter (\<lambda>v. profile_id v \<noteq> None) ?live"
  let ?bp = "group_by (\<lambda>v. the (profile_id v)) ?lp"
  have scan: "fst (ready_scan ?bp False) \<longleftrightarrow> \<not> ready vs"
  proof
    assume "fst (ready_scan ?bp False)"
    then obtain pid us where us: "us = filter (\<lambda>v. the (profile_id v) = pid) ?lp" "us \<noteq> []"
      and none: "\<And>v. v \<in> set us \<Longrightarrow> av_status v \<noteq> VREADY"
      by (auto simp: ready_scan_flags(1) mem_group_by)
    obtain v where v: "v \<in> set us" using us(2) by (cases us) auto
    have "av_status w \<noteq> VREADY"
      if "w \<in> set vs" "av_deleted_at w = None" "profile_id w = profile_id v" for w
      by (rule none) (use that v us(1) in auto)
    moreover have "v \<in> set vs" "av_deleted_at v = None" "profile_id v \<noteq> None" using v us(1) by auto
    ultimately show "\<not> ready vs" unfolding ready_def by blast
  next
    assume "\<not> ready vs"
    then obtain v where v: "v \<in> set vs" "av_deleted_at v = None" "profile_id v \<noteq> None"
      and none: "\<And>w. w \<in> set vs \<Longrightarrow> av_deleted_at w = None \<Longrightarrow> profile_id w = profile_id v
        \<Longrightarrow> av_status w \<noteq> VREADY" unfolding ready_def by blast
    let ?us = "filter (\<lambda>w. the (profile_id w) = the (profile_id v)) ?lp"
    have "(the (profile_id v), ?us) \<in> set ?bp"
      unfolding mem_group_by using v by (auto simp: filter_empty_conv)
    moreover have "av_status w \<noteq> VREADY" if "w \<in> set ?us" for w
      by (rule none) (use that v(3) in auto)
    ultimately show "fst (ready_scan ?bp False)" unfolding ready_scan_flags(1) by blast
  qed
  have "?bp = [] \<Longrightarrow> ready vs" using scan by simp
  moreover have "?live = [] \<Longrightarrow> ready vs" by (auto simp: ready_def filter_empty_conv)
  ultimately show ?thesis
    using scan by (simp add: is_asset_ready_def Let_def case_prod_beta)
qed

text \<open>The newest row of its profile among the rows that pass a filter.\<close>

definition newest_of :: "asset_variant list \<Rightarrow> asset_variant \<Rightarrow> bool" where
  "newest_of vs v \<longleftrightarrow> v \<in> set vs \<and> profile_id v \<noteq> None
     \<and> (\<forall>w \<in> set vs. profile_id w = profile_id v \<longrightarrow>
          av_created_at w < av_created_at v \<or> av_created_at w = av_created_at v \<and> av_id w \<le> av_id v)"

lemma not_newer_iff: "\<not> newer w (Some v)
    \<longleftrightarrow> av_created_at w < av_created_at v \<or> av_created_at w = av_created_at v \<and> av_id w \<le> av_id v"
  by (auto simp: newer_def not_less)

lemma collapse_newest:
  assumes "distinct (map av_id vs)"
  shows "set (map snd (fold keep_newer vs [])) = {v. newest_of vs v}"
proof (intro set_eqI iffI)
  fix v
  assume "v \<in> set (map snd (fold keep_newer vs []))"
  then obtain pid where "champion newer (filter (\<lambda>v. profile_id v = Some pid) vs) None = Some v"
    using mem_collapse by auto
  from newest.champion_best [OF this] show "v \<in> {v. newest_of vs v}"
    by (auto simp: newest_of_def not_newer_iff)
next
  fix v
  assume "v \<in> {v. newest_of vs v}"
  then obtain pid where v: "v \<in> set (filter (\<lambda>v. profile_id v = Some pid) vs)"
    and best: "\<forall>w \<in> set (filter (\<lambda>v. profile_id v = Some pid) vs). \<not> newer w (Some v)"
    by (auto simp: newest_of_def not_newer_iff)
  let ?L = "filter (\<lambda>v. profile_id v = Some pid) vs"
  have "?L \<noteq> []" using v by (cases ?L) auto
  then obtain c where c: "champion newer ?L None = Some c"
    using newest.champion_None [of ?L] by (cases "champion newer ?L None") auto
  have "inj_on (\<lambda>v. (av_created_at v, av_id v)) (set ?L)"
    using assms by (auto simp: distinct_map inj_on_def)
  then have "c = v"
    using newest.undominated_unique newest.champion_best [OF c] v best by blast
  then show "v \<in> set (map snd (fold keep_newer vs []))" using c mem_collapse by auto
qed

section \<open>Properties\<close>

text \<open>
  The readiness gate is exact: an asset passes precisely when it exists, every profile
  with a live variant has a live READY variant, and it is not a composed slide without a
  published bundle. In particular a fresh re-transcode beside an older READY variant does not
  block, and an asset without variants is ready.
\<close>

theorem readiness_gate_exact:
  "require_asset_ready assets variants aid = Inr a \<longleftrightarrow>
     List.find (\<lambda>x. asset_id x = aid) assets = Some a
     \<and> ready (filter (\<lambda>v. source_asset_id v = aid) variants)
     \<and> \<not> (asset_type_of a = COMPOSED \<and> asset_checksum a = '''')"
  using is_asset_ready_fst [of "filter (\<lambda>v. source_asset_id v = aid) variants"]
  by (cases "is_asset_ready (filter (\<lambda>v. source_asset_id v = aid) variants)")
     (auto simp: require_asset_ready_def composed_unpublished_reason_def
        split: option.splits bool.splits if_splits)

text \<open>
  The Library view shows, per profile, exactly the newest live variant, ties going to the
  greater identifier, and the readiness view exactly the newest live READY variant.
\<close>

theorem collapse_exact:
  assumes "distinct (map av_id vs)"
  shows "set (collapse_to_latest vs) = {v. newest_of (filter (\<lambda>v. av_deleted_at v = None) vs) v}
    \<and> set (collapse_to_ready vs)
      = {v. newest_of (filter (\<lambda>v. av_deleted_at v = None \<and> av_status v = VREADY) vs) v}"
proof -
  have "distinct (map av_id (filter P vs))" for P using assms by (simp add: distinct_map_filter)
  then show ?thesis
    using collapse_newest [of "filter (\<lambda>v. av_deleted_at v = None) vs"]
      collapse_newest [of "filter (\<lambda>v. av_status v = VREADY) (filter (\<lambda>v. av_deleted_at v = None) vs)"]
    by (simp add: collapse_to_latest_def collapse_to_ready_def)
qed

definition sample_variants :: "asset_variant list" where
  "sample_variants =
     [\<lparr>av_id = ''v1'', source_asset = sample_asset, profile_id = Some ''p'', av_status = VREADY, av_checksum = ''c1'',
       av_created_at = 1, av_deleted_at = None\<rparr>,
      \<lparr>av_id = ''v2'', source_asset = sample_asset, profile_id = Some ''p'', av_status = VPROCESSING, av_checksum = '''',
       av_created_at = 2, av_deleted_at = None\<rparr>]"

theorem collapse_exact_witness:
  "set (collapse_to_latest sample_variants)
     = {v. newest_of (filter (\<lambda>v. av_deleted_at v = None) sample_variants) v}
   \<and> map av_id (collapse_to_latest sample_variants) = [''v2'']
   \<and> map av_id (collapse_to_ready sample_variants) = [''v1'']"
proof -
  have "distinct (map av_id sample_variants)" by code_simp
  moreover have "map av_id (collapse_to_latest sample_variants) = [''v2'']"
    "map av_id (collapse_to_ready sample_variants) = [''v1'']" by code_simp+
  ultimately show ?thesis using collapse_exact [of sample_variants] by blast
qed

end
