(* ===== verification/Device_Sync.thy ===== *)
theory Device_Sync
  imports Readiness
begin

text \<open>
  The sync message a device receives: \<^verbatim>\<open>_schedule_to_entry\<close>, \<^verbatim>\<open>_build_device_sync_impl\<close> and
  \<^verbatim>\<open>push_sync_to_device\<close> of \<^verbatim>\<open>cms/services/scheduler.py\<close>. Arguments stand for what the
  function obtains from the clock and the time-zone database (the local time and the last
  local day of the 30-day window) and for \<^verbatim>\<open>resolved_slideshow_checksum\<close>, a function of the
  device and the slideshow asset. Dates are sent as ISO text; the model keeps the day itself.
\<close>

section \<open>Definitions\<close>

record schedule_entry =
  se_id :: string
  se_name :: string
  se_asset :: string
  se_asset_checksum :: "string option"
  se_asset_type :: string
  se_url :: "string option"
  se_start_time :: string
  se_end_time :: string
  se_start_date :: "date option"
  se_end_date :: "date option"
  se_days_of_week :: "int list option"
  se_priority :: int
  se_loop_count :: "int option"

record sync_message =
  sm_device_status :: string
  sm_timezone :: string
  sm_schedules :: "schedule_entry list"
  sm_default_asset :: "string option"
  sm_default_asset_checksum :: "string option"
  sm_splash :: "string option"

definition nonempty :: "string \<Rightarrow> string option" where
  "nonempty x = (if x = '''' then None else Some x)"

text \<open>The function reads \<^verbatim>\<open>s.asset.filename\<close> unconditionally, so it is only called with an
  asset; the builder skips schedules without one.\<close>

definition schedule_to_entry ::
  "schedule \<Rightarrow> asset \<Rightarrow> (string, string) dict \<Rightarrow> (string, string) dict \<Rightarrow> schedule_entry" where
  "schedule_to_entry s a variant_checksums slideshow_checksums =
     (let checksum =
        (if asset_type_of a = SLIDESHOW \<and> asset_id a \<in> fst ` set slideshow_checksums
         then map_of slideshow_checksums (asset_id a)
         else if filename a \<in> fst ` set variant_checksums
         then map_of variant_checksums (filename a)
         else nonempty (asset_checksum a))
      in \<lparr>se_id = sched_id s, se_name = sched_name s, se_asset = filename a,
          se_asset_checksum = (if is_url_asset a then None else checksum),
          se_asset_type = (if asset_type_of a = SAVED_STREAM then ''video''
                           else asset_type_value (asset_type_of a)),
          se_url = (if is_url_asset a then asset_url a else None),
          se_start_time = strftime_hms (start_time s), se_end_time = strftime_hms (end_time s),
          se_start_date = map_option dt_date (start_date s),
          se_end_date = map_option dt_date (end_date s),
          se_days_of_week = days_of_week s, se_priority = priority s,
          se_loop_count = loop_count s\<rparr>)"

definition resolve_group_default_asset :: "device \<Rightarrow> asset option" where
  "resolve_group_default_asset d =
     (case dev_group d of None \<Rightarrow> None | Some g \<Rightarrow> dg_default_asset g)"

text \<open>The newest READY variant's checksum per source file name: rows in descending order of
  creation, the first write per file name stays.\<close>

definition variant_checksums_for :: "asset_variant list \<Rightarrow> string option \<Rightarrow> (string, string) dict" where
  "variant_checksums_for variants prof =
     (case prof of None \<Rightarrow> []
      | Some p \<Rightarrow>
          fold (\<lambda>v m. if filename (source_asset v) \<in> fst ` set m then m
                       else dict_set (filename (source_asset v)) (av_checksum v) m)
            (sort_key (\<lambda>v. - av_created_at v)
              (filter (\<lambda>v. profile_id v = Some p \<and> av_status v = VREADY \<and> av_deleted_at v = None) variants))
            [])"

definition get_slideshow_checksum ::
  "(asset \<Rightarrow> string option) \<Rightarrow> asset \<Rightarrow> (string, string) dict \<Rightarrow> string option \<times> (string, string) dict" where
  "get_slideshow_checksum resolve a sc =
     (case map_of sc (asset_id a) of
        Some r \<Rightarrow> (Some r, sc)
      | None \<Rightarrow> (case resolve a of
            None \<Rightarrow> (None, sc)
          | Some r \<Rightarrow> (Some r, dict_set (asset_id a) r sc)))"

definition SCHEDULE_WINDOW_DAYS :: int where "SCHEDULE_WINDOW_DAYS = 30"

text \<open>The date filter: not over before today, not starting after the window.\<close>

definition outside_window :: "schedule \<Rightarrow> date \<Rightarrow> date \<Rightarrow> bool" where
  "outside_window s today cutoff_date \<longleftrightarrow>
     (case end_date s of Some e \<Rightarrow> dt_date e < today | None \<Rightarrow> False)
     \<or> (case start_date s of Some b \<Rightarrow> dt_date b > cutoff_date | None \<Rightarrow> False)"

definition sync_step ::
  "string \<Rightarrow> skip_snapshot \<Rightarrow> (string, string list) dict \<Rightarrow> date \<Rightarrow> date \<Rightarrow> (string, string) dict
   \<Rightarrow> (asset \<Rightarrow> string option) \<Rightarrow> schedule
   \<Rightarrow> schedule_entry list \<times> (string, string) dict \<Rightarrow> schedule_entry list \<times> (string, string) dict" where
  "sync_step did skips tbs today cutoff_date vc resolve s st =
     (case sched_asset s of None \<Rightarrow> st
      | Some a \<Rightarrow>
          if outside_window s today cutoff_date then st
          else if did \<notin> set (dict_get_set (sched_id s) tbs) then st
          else if is_skipped_for_device skips (sched_id s) did then st
          else
            let (entries, sc) = st;
                sc' = (if asset_type_of a = SLIDESHOW then snd (get_slideshow_checksum resolve a sc) else sc)
            in if composed_unpublished_reason (Some a) \<noteq> None then (entries, sc')
               else (entries @ [schedule_to_entry s a vc sc'], sc'))"

definition or_default :: "string option \<Rightarrow> string \<Rightarrow> string" where
  "or_default v d = (case v of None \<Rightarrow> d | Some x \<Rightarrow> if x = '''' then d else x)"

definition build_device_sync_impl ::
  "cms_db \<Rightarrow> asset_variant list \<Rightarrow> string option \<Rightarrow> datetime \<Rightarrow> date
   \<Rightarrow> (device \<Rightarrow> asset \<Rightarrow> string option) \<Rightarrow> skip_snapshot option \<Rightarrow> string \<Rightarrow> sync_message option" where
  "build_device_sync_impl db variants tz_setting local_now cutoff_date resolve skips_arg did =
     (let cms_tz = or_default tz_setting ''UTC'';
          skips = (case skips_arg of Some sk \<Rightarrow> sk
                   | None \<Rightarrow> active_as_of (load_skip_snapshot (schedules db) (device_skips db)) local_now)
      in case List.find (\<lambda>d. dev_id d = did) (devices db) of
           None \<Rightarrow> None
         | Some dev \<Rightarrow>
             (let eff = (case dev_default_asset dev of Some a \<Rightarrow> Some a | None \<Rightarrow> resolve_group_default_asset dev);
                  default_asset_name = map_option filename eff;
                  vc = variant_checksums_for variants (dev_profile_id dev);
                  cks0 = (case eff of None \<Rightarrow> None
                     | Some a \<Rightarrow> (case map_of vc (filename a) of
                          Some c \<Rightarrow> if filename a \<noteq> '''' then Some c else Some (asset_checksum a)
                        | None \<Rightarrow> Some (asset_checksum a)));
                  (cks, sc0) = (case eff of
                     Some a \<Rightarrow>
                       if asset_type_of a = SLIDESHOW then
                         (case get_slideshow_checksum (resolve dev) a [] of
                            (Some r, sc) \<Rightarrow> (Some r, sc) | (None, sc) \<Rightarrow> (cks0, sc))
                       else (cks0, [])
                   | None \<Rightarrow> (cks0, []));
                  all_schedules = filter enabled (schedules db);
                  tbs = load_target_devices_by_schedule all_schedules (devices db) (tag_assignments db);
                  (entries, sc) = fold (sync_step did skips tbs (dt_date local_now) cutoff_date vc (resolve dev))
                     all_schedules ([], sc0)
              in Some \<lparr>sm_device_status = device_status_value (dev_status dev),
                   sm_timezone = or_default (dev_timezone dev) cms_tz,
                   sm_schedules = entries, sm_default_asset = default_asset_name,
                   sm_default_asset_checksum = (case cks of None \<Rightarrow> None | Some c \<Rightarrow> nonempty c),
                   sm_splash = default_asset_name\<rparr>))"

text \<open>The beginning of \<^verbatim>\<open>_build_device_sync_impl\<close>: the local time and the local end of the window
  are those of the UTC clock and of the same clock 30 days later, in the zone of the CMS setting. \<open>zone\<close> is the
  time-zone database.\<close>

definition build_device_sync_at ::
  "cms_db \<Rightarrow> asset_variant list \<Rightarrow> string option \<Rightarrow> (string \<Rightarrow> datetime \<Rightarrow> datetime) \<Rightarrow> datetime
   \<Rightarrow> (device \<Rightarrow> asset \<Rightarrow> string option) \<Rightarrow> skip_snapshot option \<Rightarrow> string \<Rightarrow> sync_message option result" where
  "build_device_sync_at db variants tz_setting zone utc resolve skips did =
     result_bind (add_days (dt_date utc) SCHEDULE_WINDOW_DAYS) (\<lambda>d.
       let cutoff = Datetime d (dt_time utc);
           local = zone (or_default tz_setting ''UTC'');
           local_now = local utc; local_cutoff = local cutoff
       in Inr (build_device_sync_impl db variants tz_setting local_now (dt_date local_cutoff) resolve skips did))"

text \<open>The transport is a message log: \<^verbatim>\<open>send_to_device\<close> appends what the device receives.\<close>

definition push_sync_to_device ::
  "(string \<Rightarrow> sync_message option) \<Rightarrow> string list \<Rightarrow> device list \<Rightarrow> string
   \<Rightarrow> (string \<times> sync_message) list \<Rightarrow> (string \<times> sync_message) list" where
  "push_sync_to_device build connected devs did sent =
     (if did \<notin> set connected then sent
      else case List.find (\<lambda>d. dev_id d = did) devs of
          None \<Rightarrow> sent
        | Some d \<Rightarrow> if dev_status d \<noteq> ADOPTED then sent
                   else case build did of None \<Rightarrow> sent | Some m \<Rightarrow> sent @ [(did, m)])"

definition push_sync_to_affected_devices ::
  "(string \<Rightarrow> sync_message option) \<Rightarrow> string list \<Rightarrow> device list \<Rightarrow> tag_assignment list \<Rightarrow> schedule
   \<Rightarrow> (string \<times> sync_message) list \<Rightarrow> (string \<times> sync_message) list" where
  "push_sync_to_affected_devices build connected devs assigns s sent =
     fold (push_sync_to_device build connected devs) (get_target_device_ids s devs assigns) sent"

section \<open>Lemmas\<close>

definition deliverable :: "asset option \<Rightarrow> bool" where
  "deliverable a \<longleftrightarrow> (\<exists>x. a = Some x \<and> (asset_type_of x = COMPOSED \<longrightarrow> asset_checksum x \<noteq> ''''))"

lemma deliverable_iff: "deliverable a \<longleftrightarrow> a \<noteq> None \<and> composed_unpublished_reason a = None"
  by (auto simp: deliverable_def composed_unpublished_reason_def split: option.splits)

lemma se_id_entry [simp]: "se_id (schedule_to_entry s a vc sc) = sched_id s"
  by (simp add: schedule_to_entry_def Let_def)

lemma sync_step_ids:
  "map se_id (fst (sync_step did skips tbs today cutoff vc resolve s st)) = map se_id (fst st)
     @ (if deliverable (sched_asset s) \<and> \<not> outside_window s today cutoff
          \<and> did \<in> set (dict_get_set (sched_id s) tbs) \<and> \<not> is_skipped_for_device skips (sched_id s) did
        then [sched_id s] else [])"
  by (cases st) (auto simp: sync_step_def deliverable_iff Let_def split: option.splits)

lemma sync_fold_ids:
  "map se_id (fst (fold (sync_step did skips tbs today cutoff vc resolve) ss st)) = map se_id (fst st)
     @ map sched_id (filter (\<lambda>s. deliverable (sched_asset s) \<and> \<not> outside_window s today cutoff
          \<and> did \<in> set (dict_get_set (sched_id s) tbs) \<and> \<not> is_skipped_for_device skips (sched_id s) did) ss)"
  by (induction ss arbitrary: st) (simp_all add: sync_step_ids)

text \<open>The schedules a device's sync must list.\<close>

definition in_sync :: "cms_db \<Rightarrow> datetime \<Rightarrow> date \<Rightarrow> string \<Rightarrow> schedule \<Rightarrow> bool" where
  "in_sync db t until did s \<longleftrightarrow> enabled s \<and> deliverable (sched_asset s)
     \<and> (\<forall>e. end_date s = Some e \<longrightarrow> dt_date t \<le> dt_date e)
     \<and> (\<forall>b. start_date s = Some b \<longrightarrow> dt_date b \<le> until)
     \<and> did \<in> targets s (devices db) (tag_assignments db) \<and> \<not> skipped_at db t s did"

lemma in_sync_iff: "in_sync db t cutoff did s \<longleftrightarrow> enabled s \<and> deliverable (sched_asset s)
     \<and> \<not> outside_window s (dt_date t) cutoff
     \<and> did \<in> targets s (devices db) (tag_assignments db) \<and> \<not> skipped_at db t s did"
  by (auto simp: in_sync_def outside_window_def split: option.splits)

lemma sync_ids:
  assumes "db_ok db" "build_device_sync_impl db variants tz t cutoff resolve None did = Some m"
  shows "map se_id (sm_schedules m) = map sched_id (filter (in_sync db t cutoff did) (schedules db))"
proof -
  let ?ss = "filter enabled (schedules db)"
  let ?skips = "active_as_of (load_skip_snapshot (schedules db) (device_skips db)) t"
  let ?tbs = "load_target_devices_by_schedule ?ss (devices db) (tag_assignments db)"
  obtain vc r st where m: "sm_schedules m
      = fst (fold (sync_step did ?skips ?tbs (dt_date t) cutoff vc r) ?ss ([], st))"
    using assms(2)
    by (auto simp: build_device_sync_impl_def Let_def case_prod_beta split: option.splits)
  have d: "distinct (map sched_id ?ss)" using assms(1) by (simp add: db_ok_def distinct_map_filter)
  have "map se_id (sm_schedules m) = map sched_id (filter (\<lambda>s. deliverable (sched_asset s)
      \<and> \<not> outside_window s (dt_date t) cutoff \<and> did \<in> set (dict_get_set (sched_id s) ?tbs)
      \<and> \<not> is_skipped_for_device ?skips (sched_id s) did) ?ss)"
    unfolding m sync_fold_ids by simp
  also have "\<dots> = map sched_id (filter (in_sync db t cutoff did) (schedules db))"
    unfolding filter_filter
    by (intro arg_cong [where f = "map sched_id"] filter_cong refl)
       (auto simp: in_sync_iff load_targets_eq [OF d] skipped_device_iff [OF assms(1)])
  finally show ?thesis .
qed

lemma build_sync_some:
  "build_device_sync_impl db variants tz t cutoff resolve sk did = None
     \<longleftrightarrow> did \<notin> dev_id ` set (devices db)"
  by (auto simp: build_device_sync_impl_def Let_def case_prod_beta find_None_iff find_Some_iff
      split: option.splits)

text \<open>A running occurrence is inside the date filter, unless it wrapped past the end date.\<close>

lemma running_inside_window:
  assumes "valid_schedule s" "valid_datetime t" "dt_us t \<in> covers s" "dt_date t \<le> cutoff"
    and "\<And>e. end_date s = Some e \<Longrightarrow> dt_date t \<le> dt_date e"
  shows "\<not> outside_window s (dt_date t) cutoff"
proof -
  obtain d where d: "d \<in> anchors s" "dt_us t \<in> occurrence s d" using assms(3) by (auto simp: covers_def)
  have "d * DAY_US \<le> dt_us t"
    using d(2) assms(1) time_us_range [of "start_time s"]
    by (auto simp: occurrence_def valid_schedule_def Let_def split: if_splits)
  then have "d \<le> dt_date t"
    using assms(2) time_us_range [of "dt_time t"]
    unfolding dt_us_def valid_datetime_def DAY_US_def by linarith
  then have "dt_date b \<le> cutoff" if "start_date s = Some b" for b
    using d(1) that assms(4) by (auto simp: anchors_def in_range_def)
  then show ?thesis using assms(5) by (fastforce simp: outside_window_def split: option.splits)
qed

section \<open>Properties\<close>

text \<open>
  C16. The sync message is exact. Let the clock, in UTC, be at least 30 days before the end of the calendar (otherwise
  the call raises). For an unknown device no message is built. For a known one a message is built, and
  its entries are, in the order of the rows and without repetition, precisely the enabled schedules that target the device,
  have an asset with something to deliver, are not ended early for it, do not have an end date before today,
  and do not have a start date after the day the clock will show 30 days from now; both days are those of the
  zone of the CMS setting. A schedule whose end date has passed is left out even while its last occurrence is
  still running past midnight, as the last theorem of this theory shows.
\<close>

theorem sync_message_exact:
  assumes "db_ok db"
  shows "case build_device_sync_at db variants tz zone utc resolve None did of
      Inl e \<Rightarrow> e = OverflowError \<and> \<not> valid_date (dt_date utc + 30)
    | Inr None \<Rightarrow> valid_date (dt_date utc + 30) \<and> did \<notin> dev_id ` set (devices db)
    | Inr (Some m) \<Rightarrow> valid_date (dt_date utc + 30) \<and> did \<in> dev_id ` set (devices db)
        \<and> (let local = zone (if tz = None \<or> tz = Some '''' then ''UTC'' else the tz) in
            map se_id (sm_schedules m) = map sched_id (filter
              (in_sync db (local utc) (dt_date (local (Datetime (dt_date utc + 30) (dt_time utc)))) did) (schedules db)))"
proof (cases "valid_date (dt_date utc + 30)")
  case True
  let ?local = "zone (or_default tz ''UTC'')"
  let ?m = "build_device_sync_impl db variants tz (?local utc) (dt_date (?local (Datetime (dt_date utc + 30) (dt_time utc)))) resolve None did"
  have at: "build_device_sync_at db variants tz zone utc resolve None did = Inr ?m"
    using True by (simp add: build_device_sync_at_def add_days_def SCHEDULE_WINDOW_DAYS_def Let_def)
  have tz: "(if tz = None \<or> tz = Some '''' then ''UTC'' else the tz) = or_default tz ''UTC''"
    by (auto simp: or_default_def split: option.splits)
  show ?thesis
  proof (cases ?m)
    case None
    then have "did \<notin> dev_id ` set (devices db)" using build_sync_some [THEN iffD1] by blast
    then show ?thesis using True None unfolding at by simp
  next
    case (Some m)
    then have "?m \<noteq> None" by simp
    then have "did \<in> dev_id ` set (devices db)" unfolding build_sync_some by blast
    then show ?thesis using True sync_ids [OF assms Some] Some unfolding at tz by (simp add: Let_def)
  qed
qed (simp add: build_device_sync_at_def add_days_def SCHEDULE_WINDOW_DAYS_def)

theorem sync_message_exact_witness:
  "case build_device_sync_at sample_db [] None (\<lambda>z t. t) sample_now (\<lambda>d a. None) None ''d1'' of
     Inr (Some m) \<Rightarrow> map se_id (sm_schedules m)
       = map sched_id (filter (in_sync sample_db sample_now 738028 ''d1'') (schedules sample_db))
     \<and> map se_id (sm_schedules m) = [''s1'', ''s2'']
   | _ \<Rightarrow> False"
proof -
  have "case build_device_sync_at sample_db [] None (\<lambda>z t. t) sample_now (\<lambda>d a. None) None ''d1'' of
     Inr (Some m) \<Rightarrow> map se_id (sm_schedules m) = [''s1'', ''s2''] | _ \<Rightarrow> False" by code_simp
  moreover have "dt_date sample_now + 30 = 738028" by code_simp
  ultimately show ?thesis
    using sync_message_exact [OF sample_db_ok(1), where variants = "[]" and tz = None and utc = sample_now
        and zone = "\<lambda>z t. t" and resolve = "\<lambda>d a. None" and did = "''d1''"]
    by (simp add: Let_def split: option.splits sum.splits)
qed

text \<open>
  What the dashboard shows as playing is what the device was told to play: whenever a
  schedule is the one that plays on a device, its asset has something to deliver, and today is
  not past its end date, the device's sync message has an entry for it.
\<close>

theorem playing_schedule_is_synced:
  assumes "db_ok db" and "clock_ok db t" and "plays db t did s" and "dt_date t \<le> cutoff"
    and "\<forall>e. end_date s = Some e \<longrightarrow> dt_date t \<le> dt_date e"
    and "composed_unpublished_reason (sched_asset s) = None"
  shows "\<exists>m. build_device_sync_impl db variants tz t cutoff resolve None did = Some m
    \<and> sched_id s \<in> se_id ` set (sm_schedules m)"
proof -
  have el: "eligible db t did s" using assms(3) by (simp add: plays_def)
  then have "did \<in> dev_id ` set (devices db)" by (auto simp: eligible_def targets_def)
  then obtain m where m: "build_device_sync_impl db variants tz t cutoff resolve None did = Some m"
    using build_sync_some [of db variants tz t cutoff resolve None did] by auto
  have "\<not> outside_window s (dt_date t) cutoff"
    using running_inside_window [of s t cutoff] assms(2,4,5) el
    by (auto simp: clock_ok_def eligible_def)
  then have "s \<in> set (filter (in_sync db t cutoff did) (schedules db))"
    using el assms(6) by (auto simp: in_sync_iff eligible_def deliverable_iff)
  then have "sched_id s \<in> set (map se_id (sm_schedules m))"
    unfolding sync_ids [OF assms(1) m] by auto
  then show ?thesis using m by auto
qed

text \<open>The sample database with the late show only, ending on day \<open>d\<close>: it plays on the
  sample device until 02:00 on Tuesday.\<close>

definition late_end :: "date \<Rightarrow> cms_db" where
  "late_end d = \<lparr>schedules = [sample_schedule\<lparr>sched_asset := Some sample_asset,
       end_date := Some (Datetime d (Time 0 0 0 0))\<rparr>],
     devices = [sample_device], tag_assignments = [], device_skips = []\<rparr>"

lemma late_end_ok: "db_ok (late_end d)" "clock_ok (late_end d) sample_now"
  by (simp_all add: late_end_def db_ok_def clock_ok_def sample_schedule_def
      sample_now_def valid_datetime_def valid_schedule_def valid_time_def valid_date_def
      date_min_def date_max_def)

lemma late_end_plays:
  assumes "matches_now (hd (schedules (late_end d))) sample_now"
  shows "plays (late_end d) sample_now ''d1'' (hd (schedules (late_end d)))"
proof -
  have "dt_us sample_now \<in> covers (hd (schedules (late_end d)))"
    using assms matches_now_iff [OF late_end_ok(2)] by (simp add: late_end_def)
  then have "eligible (late_end d) sample_now ''d1'' (hd (schedules (late_end d)))"
    by (simp add: eligible_def late_end_def sample_schedule_def targets_def skipped_at_def sample_device_def)
  then show ?thesis by (auto simp: plays_def eligible_def late_end_def)
qed

theorem playing_schedule_is_synced_witness:
  "\<exists>m. build_device_sync_impl (late_end 738000) [] None sample_now 738028 (\<lambda>d a. None) None ''d1'' = Some m
     \<and> ''s1'' \<in> se_id ` set (sm_schedules m)"
proof -
  have "matches_now (hd (schedules (late_end 738000))) sample_now" by code_simp
  note p = late_end_plays [OF this]
  have id: "sched_id (hd (schedules (late_end 738000))) = ''s1''" by code_simp
  have h: "dt_date sample_now \<le> 738028"
    "\<forall>e. end_date (hd (schedules (late_end 738000))) = Some e \<longrightarrow> dt_date sample_now \<le> dt_date e"
    "composed_unpublished_reason (sched_asset (hd (schedules (late_end 738000)))) = None"
    by (simp_all add: sample_now_def late_end_def composed_unpublished_reason_def sample_asset_def)
  show ?thesis using playing_schedule_is_synced [OF late_end_ok p h] unfolding id .
qed

text \<open>
  The sync builder stops one occurrence too early: an occurrence that starts on the schedule's end
  date and wraps past midnight is still running after midnight, is what the dashboard shows as
  playing, and is absent from the device's sync, because the builder compares the end date with
  today instead of with the day the occurrence started.
\<close>

theorem sync_drops_running_occurrence:
  "map np_schedule_id (compute_now_playing (late_end 737997) [] [] sample_now '''')
     = [''s1'']
   \<and> map_option sm_schedules
       (build_device_sync_impl (late_end 737997) [] None sample_now 738028 (\<lambda>d a. None) None ''d1'') = Some []"
  by code_simp

end
