(* ===== verification/Evaluate.thy ===== *)
theory Evaluate
  imports Device_Sync Table
begin

text \<open>
  One evaluation pass of the scheduler, \<^verbatim>\<open>evaluate_schedules\<close> of
  \<^verbatim>\<open>cms/services/scheduler.py\<close>: push a sync to every connected device, purge expired skips,
  detect MISSED playback through the table \<^verbatim>\<open>schedule_missed_events\<close>, clean that table up, and
  refresh the replica-local cache of confirmed playback. A pass reads its surroundings (clock,
  transport, slideshow resolver, outcome of each log insert) from a record; the database and
  the cache are the state it returns updated.
\<close>

section \<open>State\<close>

datatype schedule_log_event = STARTED | ENDED | SKIPPED | MISSED

record schedule_log =
  log_schedule_id :: "string option"
  log_schedule_name :: string
  log_device_id :: "string option"
  log_device_name :: string
  log_asset_filename :: string
  log_event :: schedule_log_event
  log_details :: "string option"

text \<open>A row of \<^verbatim>\<open>schedule_missed_events\<close>; its primary key is schedule, device and date.\<close>

record missed_event =
  me_schedule_id :: string
  me_device_id :: string
  me_date :: date
  first_seen_offline_at :: int
  emitted_at :: "int option"

definition me_key :: "missed_event \<Rightarrow> string \<times> string \<times> date" where
  "me_key r = (me_schedule_id r, me_device_id r, me_date r)"

record eval_state =
  es_db :: cms_db
  es_variants :: "asset_variant list"
  es_missed :: "missed_event list"
  es_logs :: "schedule_log list"
  es_confirmed :: confirmed_playing
  es_sent :: "(string \<times> sync_message) list"

text \<open>What a pass obtains from outside the database. \<open>te_log_insert\<close> is the outcome of the
  savepoint around a log insert, given the foreign keys it carries.\<close>

datatype insert_outcome = Inserted | IntegrityError | OtherError

record tick_env =
  te_local_now :: datetime
  te_utc_now :: int
  te_now_iso :: string
  te_cutoff_date :: date
  te_tz_setting :: "string option"
  te_connected :: "string list"
  te_states :: "live_state list"
  te_resolve :: "device \<Rightarrow> asset \<Rightarrow> string option"
  te_log_insert :: "string option \<Rightarrow> string option \<Rightarrow> insert_outcome"

definition MISSED_GRACE_SECONDS :: int where "MISSED_GRACE_SECONDS = 60"

definition MISSED_RETENTION_DAYS :: int where "MISSED_RETENTION_DAYS = 7"

section \<open>Operations\<close>

text \<open>\<^verbatim>\<open>_log_event\<close>: on a foreign-key violation the entry is written without its keys.\<close>

definition log_event_stmt ::
  "(string option \<Rightarrow> string option \<Rightarrow> bool) \<Rightarrow> schedule_log \<Rightarrow> schedule_log list \<Rightarrow> schedule_log list" where
  "log_event_stmt fk_ok entry logs =
     (if fk_ok (log_schedule_id entry) (log_device_id entry) then logs @ [entry]
      else logs @ [entry\<lparr>log_schedule_id := None, log_device_id := None\<rparr>])"

definition insert_missed_event ::
  "string \<Rightarrow> string \<Rightarrow> date \<Rightarrow> int \<Rightarrow> missed_event list \<Rightarrow> missed_event list" where
  "insert_missed_event sid did occ now rows =
     insert_ignore me_key \<lparr>me_schedule_id = sid, me_device_id = did, me_date = occ,
       first_seen_offline_at = now, emitted_at = None\<rparr> rows"

text \<open>The purge of expired skips.\<close>

definition purge_skips :: "skip_snapshot \<Rightarrow> datetime \<Rightarrow> cms_db \<Rightarrow> cms_db" where
  "purge_skips raw local_now d =
     d\<lparr>schedules := update_where (\<lambda>s. sched_id s \<in> set (expired_schedule_ids raw local_now))
          (\<lambda>s. s\<lparr>skipped_until := None\<rparr>) (schedules d),
       device_skips := delete_where (\<lambda>(sid, did, u). (sid, did) \<in> set (expired_device_pairs raw local_now))
          (device_skips d)\<rparr>"

record offline_context =
  oc_schedule_id :: string
  oc_schedule_name :: string
  oc_device_name :: string
  oc_asset_filename :: string

definition all_adopted :: "device list \<Rightarrow> (string, string) dict" where
  "all_adopted devs = fold (\<lambda>d m. dict_set (dev_id d) (if dev_name d = '''' then dev_id d else dev_name d) m)
     (filter (\<lambda>d. dev_status d = ADOPTED) devs) []"

definition offline_step ::
  "tick_env \<Rightarrow> skip_snapshot \<Rightarrow> (string, string) dict \<Rightarrow> schedule \<Rightarrow> asset \<Rightarrow> string
   \<Rightarrow> (string \<times> string, offline_context) dict \<Rightarrow> (string \<times> string, offline_context) dict" where
  "offline_step env skips adopted s a did ctx =
     (if is_skipped_for_device skips (sched_id s) did then ctx
      else if did \<in> set (te_connected env) \<or> map_of adopted did = None then ctx
      else dict_set (sched_id s, did)
        \<lparr>oc_schedule_id = sched_id s, oc_schedule_name = sched_name s,
         oc_device_name = the (map_of adopted did), oc_asset_filename = asset_display_name (Some a)\<rparr> ctx)"

definition active_offline_context ::
  "tick_env \<Rightarrow> skip_snapshot \<Rightarrow> (string, string) dict \<Rightarrow> (string, string list) dict \<Rightarrow> schedule list
   \<Rightarrow> (string \<times> string, offline_context) dict" where
  "active_offline_context env skips adopted tbs active =
     fold (\<lambda>s ctx. case sched_asset s of None \<Rightarrow> ctx
        | Some a \<Rightarrow> fold (offline_step env skips adopted s a) (dict_get_set (sched_id s) tbs) ctx) active []"

definition seed_missed ::
  "tick_env \<Rightarrow> (string \<times> string, offline_context) dict \<Rightarrow> missed_event list \<Rightarrow> missed_event list" where
  "seed_missed env ctx rows =
     fold (\<lambda>((sid, did), c) rs. insert_missed_event (oc_schedule_id c) did
        (dt_date (te_local_now env)) (te_utc_now env) rs) ctx rows"

text \<open>The compare-and-set that claims an emission, and the two attempts to write the log.\<close>

definition claimable :: "tick_env \<Rightarrow> string \<Rightarrow> string \<Rightarrow> missed_event \<Rightarrow> bool" where
  "claimable env sid did r \<longleftrightarrow> me_key r = (sid, did, dt_date (te_local_now env)) \<and> emitted_at r = None
     \<and> first_seen_offline_at r \<le> te_utc_now env - MISSED_GRACE_SECONDS * 1000000"

definition missed_log :: "string option \<Rightarrow> string option \<Rightarrow> offline_context \<Rightarrow> int \<Rightarrow> schedule_log" where
  "missed_log sid did c elapsed = \<lparr>log_schedule_id = sid, log_schedule_name = oc_schedule_name c,
     log_device_id = did, log_device_name = oc_device_name c, log_asset_filename = oc_asset_filename c,
     log_event = MISSED, log_details = Some (''Device offline for '' @ int_text elapsed @ ''s'')\<rparr>"

definition write_missed_log ::
  "tick_env \<Rightarrow> string \<Rightarrow> string \<Rightarrow> offline_context \<Rightarrow> int \<Rightarrow> schedule_log list
   \<Rightarrow> bool \<times> schedule_log list" where
  "write_missed_log env sid did c elapsed logs =
     (case te_log_insert env (Some sid) (Some did) of
        Inserted \<Rightarrow> (True, logs @ [missed_log (Some sid) (Some did) c elapsed])
      | IntegrityError \<Rightarrow>
          (case te_log_insert env None None of
             Inserted \<Rightarrow> (True, logs @ [missed_log None None c elapsed])
           | IntegrityError \<Rightarrow> (False, logs)
           | OtherError \<Rightarrow> (False, logs))
      | OtherError \<Rightarrow> (False, logs))"

text \<open>The loop state: the dedup rows, the logs, and the keys counted by
  \<^verbatim>\<open>missed_emitted_count\<close>.\<close>

type_synonym claim_state = "missed_event list \<times> schedule_log list \<times> (string \<times> string) list"

definition claim_step ::
  "tick_env \<Rightarrow> (string \<times> string) \<times> offline_context \<Rightarrow> claim_state \<Rightarrow> claim_state" where
  "claim_step env = (\<lambda>((sid0, did), c) (rows, logs, emitted).
     (let sid = oc_schedule_id c
      in case List.find (claimable env sid did) rows of
           None \<Rightarrow> (rows, logs, emitted)
         | Some row \<Rightarrow>
             let elapsed = (te_utc_now env - first_seen_offline_at row) div 1000000;
                 rows' = update_where (claimable env sid did)
                   (\<lambda>r. r\<lparr>emitted_at := Some (te_utc_now env)\<rparr>) rows;
                 (ok, logs') = write_missed_log env sid did c elapsed logs
             in if ok then (rows', logs', emitted @ [(sid, did)])
                else (update_where (\<lambda>r. me_key r = (sid, did, dt_date (te_local_now env))
                          \<and> emitted_at r = Some (te_utc_now env))
                        (\<lambda>r. r\<lparr>emitted_at := None\<rparr>) rows', logs', emitted)))"

definition claim_missed ::
  "tick_env \<Rightarrow> (string \<times> string, offline_context) dict \<Rightarrow> missed_event list \<Rightarrow> schedule_log list \<Rightarrow> claim_state" where
  "claim_missed env ctx rows logs = fold (claim_step env) ctx (rows, logs, [])"

definition cleanup_missed ::
  "date \<Rightarrow> (string \<times> string, offline_context) dict \<Rightarrow> missed_event list \<Rightarrow> missed_event list" where
  "cleanup_missed occ ctx rows =
     delete_where (\<lambda>r. me_date r < occ - MISSED_RETENTION_DAYS)
       (delete_where (\<lambda>r. me_date r = occ \<and> (me_schedule_id r, me_device_id r) \<notin> fst ` set ctx) rows)"

subsection \<open>The cache of confirmed playback\<close>

definition drop_stale_confirmed :: "string list \<Rightarrow> schedule list \<Rightarrow> confirmed_playing \<Rightarrow> confirmed_playing" where
  "drop_stale_confirmed connected active cp =
     (let cp1 = filter (\<lambda>(did, info). did \<in> set connected) cp
      in filter (\<lambda>(did, info). cp_schedule_id info = '''' \<or> cp_schedule_id info \<in> sched_id ` set active) cp1)"

definition seed_confirmed_step ::
  "tick_env \<Rightarrow> schedule \<Rightarrow> asset \<Rightarrow> string \<Rightarrow> confirmed_playing \<Rightarrow> confirmed_playing" where
  "seed_confirmed_step env s a did cp =
     (if map_of cp did \<noteq> None then cp
      else if \<not> live_matches (map_of (map (\<lambda>l. (ls_device_id l, l)) (rev (te_states env))) did) (asset_raw a) then cp
      else dict_set did \<lparr>cp_schedule_id = sched_id s, cp_since = te_now_iso env\<rparr> cp)"

definition seed_confirmed ::
  "tick_env \<Rightarrow> (string, string list) dict \<Rightarrow> schedule list \<Rightarrow> confirmed_playing \<Rightarrow> confirmed_playing" where
  "seed_confirmed env tbs active cp =
     fold (\<lambda>s cp. case sched_asset s of None \<Rightarrow> cp
        | Some a \<Rightarrow> fold (seed_confirmed_step env s a) (dict_get_set (sched_id s) tbs) cp) active cp"

subsection \<open>The pass\<close>

text \<open>The active schedules of the pass with their targets, and the active and offline pairs.\<close>

definition tick_skips :: "cms_db \<Rightarrow> tick_env \<Rightarrow> skip_snapshot" where
  "tick_skips d env = active_as_of (load_skip_snapshot (schedules d) (device_skips d)) (te_local_now env)"

definition tick_targets :: "cms_db \<Rightarrow> tick_env \<Rightarrow> (string, string list) dict" where
  "tick_targets d env = load_target_devices_by_schedule (active_schedules d (te_local_now env))
     (devices d) (tag_assignments d)"

definition tick_context :: "cms_db \<Rightarrow> tick_env \<Rightarrow> (string \<times> string, offline_context) dict" where
  "tick_context d env = active_offline_context env (tick_skips d env) (all_adopted (devices d))
     (tick_targets d env) (active_schedules d (te_local_now env))"

definition evaluate_schedules :: "tick_env \<Rightarrow> eval_state \<Rightarrow> eval_state \<times> (string \<times> string) list" where
  "evaluate_schedules env st =
     (let d = es_db st;
          local_now = te_local_now env;
          raw_skips = load_skip_snapshot (schedules d) (device_skips d);
          build = build_device_sync_impl d (es_variants st) (te_tz_setting env) local_now
            (te_cutoff_date env) (te_resolve env) (Some (tick_skips d env));
          sent = fold (push_sync_to_device build (te_connected env) (devices d)) (te_connected env) (es_sent st);
          d' = purge_skips raw_skips local_now d;
          active = active_schedules d local_now;
          ctx = tick_context d env;
          rows = seed_missed env ctx (es_missed st);
          (rows', logs', emitted) = claim_missed env ctx rows (es_logs st);
          cp = seed_confirmed env (tick_targets d env) active
            (drop_stale_confirmed (te_connected env) active (es_confirmed st))
      in (st\<lparr>es_db := d', es_missed := cleanup_missed (dt_date local_now) ctx rows',
            es_logs := logs', es_confirmed := cp, es_sent := sent\<rparr>, emitted))"

text \<open>The loop body: only the lease holder evaluates.\<close>

definition scheduler_tick :: "bool \<Rightarrow> tick_env \<Rightarrow> eval_state \<Rightarrow> eval_state \<times> (string \<times> string) list" where
  "scheduler_tick is_leader env st = (if is_leader then evaluate_schedules env st else (st, []))"

section \<open>Specification\<close>

text \<open>The pairs that are missing playback: the schedule could play on the device now, and the
  device is not connected.\<close>

definition missing :: "cms_db \<Rightarrow> tick_env \<Rightarrow> (string \<times> string) set" where
  "missing d env = {(sched_id s, did) |s did. eligible d (te_local_now env) did s \<and> did \<notin> set (te_connected env)}"

definition due :: "tick_env \<Rightarrow> missed_event \<Rightarrow> bool" where
  "due env r \<longleftrightarrow> emitted_at r = None
     \<and> first_seen_offline_at r \<le> te_utc_now env - MISSED_GRACE_SECONDS * 1000000"

text \<open>Whether one of the two attempts to write the log entry succeeds.\<close>

definition log_ok :: "tick_env \<Rightarrow> string \<Rightarrow> string \<Rightarrow> bool" where
  "log_ok env sid did = (case te_log_insert env (Some sid) (Some did) of
     Inserted \<Rightarrow> True | IntegrityError \<Rightarrow> te_log_insert env None None = Inserted | OtherError \<Rightarrow> False)"

section \<open>Lemmas\<close>

interpretation missed: keyed_table me_key "range (\<lambda>v r. r\<lparr>emitted_at := v\<rparr>)"
  by unfold_locales (auto simp: me_key_def)

lemma me_key_emitted [simp]: "me_key (r\<lparr>emitted_at := v\<rparr>) = me_key r"
  by (simp add: me_key_def)

abbreviation row_of :: "string \<times> string \<Rightarrow> date \<Rightarrow> missed_event list \<Rightarrow> missed_event option" where
  "row_of k occ rows \<equiv> find_by me_key (fst k, snd k, occ) rows"

subsection \<open>The active and offline pairs\<close>

lemma map_of_all_adopted:
  "map_of (all_adopted devs) did \<noteq> None \<longleftrightarrow> (\<exists>d \<in> set devs. dev_id d = did \<and> dev_status d = ADOPTED)"
proof -
  have "map_of (fold (\<lambda>d m. dict_set (dev_id d) (f d) m) ds m0) did \<noteq> None
      \<longleftrightarrow> did \<in> dev_id ` set ds \<or> map_of m0 did \<noteq> None" for ds f m0
    by (induction ds arbitrary: m0) auto
  from this [of "\<lambda>d. if dev_name d = '''' then dev_id d else dev_name d" "filter (\<lambda>d. dev_status d = ADOPTED) devs" "[]"]
  show ?thesis by (auto simp: all_adopted_def)
qed

text \<open>The nested loops only ever store a context under its own key.\<close>

definition ctx_ok :: "(string \<times> string, offline_context) dict \<Rightarrow> bool" where
  "ctx_ok ctx \<longleftrightarrow> dict_ok ctx \<and> (\<forall>(k, c) \<in> set ctx. oc_schedule_id c = fst k)"

lemma ctx_ok_set: "ctx_ok ctx \<Longrightarrow> oc_schedule_id c = fst k \<Longrightarrow> ctx_ok (dict_set k c ctx)"
proof -
  assume ok: "ctx_ok ctx" and c: "oc_schedule_id c = fst k"
  have "set (dict_set k c m) \<subseteq> insert (k, c) (set m)" for m :: "(string \<times> string, offline_context) dict"
    by (induction k c m rule: dict_set.induct) auto
  then show ?thesis using ok c unfolding ctx_ok_def by fastforce
qed

definition offline_pairs ::
  "tick_env \<Rightarrow> skip_snapshot \<Rightarrow> (string, string) dict \<Rightarrow> (string, string list) dict \<Rightarrow> schedule
   \<Rightarrow> (string \<times> string) set" where
  "offline_pairs env skips adopted tbs s = (if sched_asset s = None then {} else
     Pair (sched_id s) ` {did \<in> set (dict_get_set (sched_id s) tbs).
       \<not> is_skipped_for_device skips (sched_id s) did \<and> did \<notin> set (te_connected env) \<and> map_of adopted did \<noteq> None})"

lemma offline_step_keys:
  "fst ` set (offline_step env skips adopted s a did ctx) = fst ` set ctx \<union>
     (if is_skipped_for_device skips (sched_id s) did \<or> did \<in> set (te_connected env) \<or> map_of adopted did = None
      then {} else {(sched_id s, did)})"
  by (simp add: offline_step_def)

lemma offline_fold:
  assumes "ctx_ok ctx"
  shows "ctx_ok (fold (offline_step env skips adopted s a) dids ctx)
    \<and> fst ` set (fold (offline_step env skips adopted s a) dids ctx) = fst ` set ctx
      \<union> Pair (sched_id s) ` {did \<in> set dids. \<not> is_skipped_for_device skips (sched_id s) did
          \<and> did \<notin> set (te_connected env) \<and> map_of adopted did \<noteq> None}"
  using assms
proof (induction dids arbitrary: ctx)
  case (Cons did dids)
  have "ctx_ok (offline_step env skips adopted s a did ctx)"
    using Cons.prems by (auto simp: offline_step_def intro: ctx_ok_set)
  from Cons.IH [OF this] show ?case by (auto simp: offline_step_keys)
qed simp

lemma context_fold:
  assumes "ctx_ok ctx"
    and "f = (\<lambda>s ctx. case sched_asset s of None \<Rightarrow> ctx
        | Some a \<Rightarrow> fold (offline_step env skips adopted s a) (dict_get_set (sched_id s) tbs) ctx)"
  shows "ctx_ok (fold f ss ctx) \<and> fst ` set (fold f ss ctx)
    = fst ` set ctx \<union> (\<Union>s \<in> set ss. offline_pairs env skips adopted tbs s)"
  using assms(1)
proof (induction ss arbitrary: ctx)
  case (Cons s ss)
  have "ctx_ok (f s ctx) \<and> fst ` set (f s ctx) = fst ` set ctx \<union> offline_pairs env skips adopted tbs s"
    using offline_fold [OF Cons.prems] Cons.prems
    by (cases "sched_asset s") (simp_all add: assms(2) offline_pairs_def)
  then have s: "ctx_ok (f s ctx)" "fst ` set (f s ctx) = fst ` set ctx \<union> offline_pairs env skips adopted tbs s"
    by blast+
  from Cons.IH [OF s(1)] show ?case unfolding fold_simps s(2) by (simp add: Un_assoc)
qed simp

lemma tick_context_keys:
  assumes "db_ok d" "clock_ok d (te_local_now env)"
  shows "ctx_ok (tick_context d env)" "fst ` set (tick_context d env) = missing d env"
proof -
  let ?act = "active_schedules d (te_local_now env)"
  have "ctx_ok []" by (simp add: ctx_ok_def dict_ok_def)
  note f = context_fold [OF this refl, of env "tick_skips d env" "all_adopted (devices d)" "tick_targets d env" ?act]
  show "ctx_ok (tick_context d env)" using f by (simp add: tick_context_def active_offline_context_def)
  have t: "set (dict_get_set (sched_id s) (tick_targets d env)) = targets s (devices d) (tag_assignments d)"
    if "s \<in> set ?act" for s
    unfolding tick_targets_def by (rule load_targets_eq [OF distinct_active [OF assms(1)] that])
  have sk: "is_skipped_for_device (tick_skips d env) (sched_id s) did \<longleftrightarrow> skipped_at d (te_local_now env) s did"
    if "s \<in> set (schedules d)" for s did
    unfolding tick_skips_def by (rule skipped_device_iff [OF assms(1) that])
  have ad: "map_of (all_adopted (devices d)) did \<noteq> None"
    if "did \<in> targets s (devices d) (tag_assignments d)" for s did
    using that unfolding map_of_all_adopted targets_def by auto
  have "fst ` set (tick_context d env)
      = (\<Union>s \<in> set ?act. offline_pairs env (tick_skips d env) (all_adopted (devices d)) (tick_targets d env) s)"
    using f by (simp add: tick_context_def active_offline_context_def)
  also have "\<dots> = (\<Union>s \<in> set ?act. if sched_asset s = None then {} else
      Pair (sched_id s) ` {did \<in> targets s (devices d) (tag_assignments d).
        \<not> skipped_at d (te_local_now env) s did \<and> did \<notin> set (te_connected env)})"
    by (rule SUP_cong [OF refl])
       (use t sk ad mem_active [OF assms] in \<open>auto simp: offline_pairs_def\<close>)
  also have "\<dots> = missing d env"
    unfolding missing_def eligible_def
    by (auto simp: mem_active [OF assms] skipped_at_def split: if_splits) blast
  finally show "fst ` set (tick_context d env) = missing d env" .
qed

subsection \<open>Claims\<close>

lemma write_missed_log_ok: "fst (write_missed_log env sid did c n logs) \<longleftrightarrow> log_ok env sid did"
  by (auto simp: write_missed_log_def log_ok_def split: insert_outcome.splits)

lemma write_missed_log_length:
  "length (snd (write_missed_log env sid did c n logs)) = length logs + (if log_ok env sid did then 1 else 0)"
  by (auto simp: write_missed_log_def log_ok_def split: insert_outcome.splits)

lemma claimable_iff: "claimable env sid did r \<longleftrightarrow> me_key r = (sid, did, dt_date (te_local_now env)) \<and> due env r"
  by (auto simp: claimable_def due_def)

lemma row_unique:
  assumes "keys_ok me_key rows" "r \<in> set rows" "me_key r = q"
  shows "find_by me_key q rows = Some r"
  using find_by_mem [OF assms(1,2)] assms(3) by simp

lemma find_claimable:
  assumes "keys_ok me_key rows"
  shows "List.find (claimable env sid did) rows =
    (case row_of (sid, did) (dt_date (te_local_now env)) rows of
       Some r \<Rightarrow> if due env r then Some r else None | None \<Rightarrow> None)"
proof (cases "List.find (claimable env sid did) rows")
  case None
  then show ?thesis
    using find_by_Some [of me_key "(sid, did, dt_date (te_local_now env))" rows]
    by (auto simp: find_None_iff claimable_iff split: option.splits)
next
  case (Some r)
  then have "r \<in> set rows" "claimable env sid did r" by (auto simp: find_Some_iff in_set_conv_nth)
  then show ?thesis using Some row_unique [OF assms] by (simp add: claimable_iff)
qed

text \<open>Whether an iteration of the claim loop emits, given the dedup row it finds.\<close>

definition claimed :: "tick_env \<Rightarrow> string \<times> string \<Rightarrow> missed_event option \<Rightarrow> bool" where
  "claimed env k r = (case r of None \<Rightarrow> False | Some x \<Rightarrow> due env x \<and> log_ok env (fst k) (snd k))"

abbreviation mark_emitted :: "tick_env \<Rightarrow> missed_event \<Rightarrow> missed_event" where
  "mark_emitted env r \<equiv> r\<lparr>emitted_at := Some (te_utc_now env)\<rparr>"

text \<open>A failed log write leaves the dedup rows as they were: the revert undoes the claim.\<close>

lemma revert_undoes_claim:
  assumes "keys_ok me_key rows" "row_of (sid, did) (dt_date (te_local_now env)) rows = Some r" "due env r"
  shows "update_where (\<lambda>r. me_key r = (sid, did, dt_date (te_local_now env)) \<and> emitted_at r = Some (te_utc_now env))
      (\<lambda>r. r\<lparr>emitted_at := None\<rparr>) (update_where (claimable env sid did) (mark_emitted env) rows) = rows"
  unfolding update_where_def map_map
proof (rule map_idI)
  fix x assume x: "x \<in> set rows"
  have "x = r" if "me_key x = (sid, did, dt_date (te_local_now env))"
    using row_unique [OF assms(1) x] that assms(2) by simp
  then show "((\<lambda>r. if me_key r = (sid, did, dt_date (te_local_now env)) \<and> emitted_at r = Some (te_utc_now env)
      then r\<lparr>emitted_at := None\<rparr> else r) \<circ> (\<lambda>r. if claimable env sid did r then mark_emitted env r else r)) x = x"
    using assms(3) by (auto simp: claimable_iff due_def)
qed

lemma claim_step_eq:
  assumes "keys_ok me_key rows" "oc_schedule_id c = fst k"
  shows "\<exists>entry. claim_step env (k, c) (rows, logs, em) =
    (if claimed env k (row_of k (dt_date (te_local_now env)) rows)
     then (update_where (claimable env (fst k) (snd k)) (mark_emitted env) rows, logs @ [entry], em @ [k])
     else (rows, logs, em))"
proof -
  obtain sid did where k: "k = (sid, did)" by (cases k)
  show ?thesis
  proof (cases "\<exists>r. row_of (sid, did) (dt_date (te_local_now env)) rows = Some r \<and> due env r")
    case False
    then show ?thesis using assms(2)
      by (auto simp: k claim_step_def find_claimable [OF assms(1)] claimed_def split: option.splits)
  next
    case True
    then obtain r where r: "row_of (sid, did) (dt_date (te_local_now env)) rows = Some r" "due env r" by blast
    then show ?thesis using assms(2) revert_undoes_claim [OF assms(1) r]
      by (auto simp: k claim_step_def find_claimable [OF assms(1)] claimed_def log_ok_def write_missed_log_def
          split: insert_outcome.splits)
  qed
qed

lemma claim_keys_ok:
  "keys_ok me_key rows \<Longrightarrow> keys_ok me_key (update_where P (mark_emitted env) rows)"
  by (rule missed.keys_ok_update) auto

lemma claim_lookup:
  "find_by me_key q (update_where (claimable env sid did) (mark_emitted env) rows)
     = map_option (\<lambda>r. if q = (sid, did, dt_date (te_local_now env)) \<and> due env r then mark_emitted env r else r)
         (find_by me_key q rows)"
  using find_by_Some [of me_key q rows]
  by (subst missed.find_update) (auto simp: claimable_iff split: option.splits)

text \<open>The whole loop, for a dictionary of contexts with distinct keys.\<close>

lemma claim_fold:
  assumes "keys_ok me_key rows" "dict_ok ctx" "\<forall>(k, c) \<in> set ctx. oc_schedule_id c = fst k"
    and "fold (claim_step env) ctx (rows, logs, em) = (rows', logs', em')"
    and "occ = dt_date (te_local_now env)"
  shows "keys_ok me_key rows'"
    and "em' = em @ filter (\<lambda>k. claimed env k (row_of k occ rows)) (map fst ctx)"
    and "row_of k d rows' = (if d = occ \<and> k \<in> fst ` set ctx \<and> claimed env k (row_of k occ rows)
          then map_option (mark_emitted env) (row_of k occ rows) else row_of k d rows)"
    and "length logs' + length em = length logs + length em'"
proof -
  have "keys_ok me_key rows' \<and> em' = em @ filter (\<lambda>k. claimed env k (row_of k occ rows)) (map fst ctx)
    \<and> (\<forall>k d. row_of k d rows' = (if d = occ \<and> k \<in> fst ` set ctx \<and> claimed env k (row_of k occ rows)
          then map_option (mark_emitted env) (row_of k occ rows) else row_of k d rows))
    \<and> length logs' + length em = length logs + length em'"
    using assms(1-4)
  proof (induction ctx arbitrary: rows logs em)
    case (Cons kc ctx)
    obtain k0 c where kc: "kc = (k0, c)" by (cases kc)
    have oc: "oc_schedule_id c = fst k0" using Cons.prems(3) kc by simp
    have ctx: "dict_ok ctx" "k0 \<notin> fst ` set ctx" using Cons.prems(2) by (auto simp: kc dict_ok_def)
    obtain entry where step: "claim_step env kc (rows, logs, em) =
        (if claimed env k0 (row_of k0 occ rows)
         then (update_where (claimable env (fst k0) (snd k0)) (mark_emitted env) rows, logs @ [entry], em @ [k0])
         else (rows, logs, em))"
      using claim_step_eq [OF Cons.prems(1) oc] unfolding kc assms(5) by blast
    show ?case
    proof (cases "claimed env k0 (row_of k0 occ rows)")
      case False
      then have "fold (claim_step env) ctx (rows, logs, em) = (rows', logs', em')"
        using Cons.prems(4) step by simp
      from Cons.IH [OF Cons.prems(1) ctx(1) _ this] Cons.prems(3) False show ?thesis by (auto simp: kc)
    next
      case True
      let ?rows = "update_where (claimable env (fst k0) (snd k0)) (mark_emitted env) rows"
      have f: "fold (claim_step env) ctx (?rows, logs @ [entry], em @ [k0]) = (rows', logs', em')"
        using Cons.prems(4) step True by simp
      have look: "row_of k d ?rows = (if d = occ \<and> k = k0 then map_option (mark_emitted env) (row_of k occ rows)
          else row_of k d rows)" for k d
        using True by (cases k; cases k0)
          (auto simp: claim_lookup assms(5) claimed_def option.map_ident split: option.splits)
      then have same: "claimed env k (row_of k occ ?rows) \<longleftrightarrow> claimed env k (row_of k occ rows)"
        if "k \<in> fst ` set ctx" for k using that ctx(2) by auto
      have filt: "filter (\<lambda>k. claimed env k (row_of k occ ?rows)) (map fst ctx)
          = filter (\<lambda>k. claimed env k (row_of k occ rows)) (map fst ctx)"
        by (rule filter_cong [OF refl]) (use same in auto)
      from Cons.IH [OF claim_keys_ok [OF Cons.prems(1)] ctx(1) _ f] Cons.prems(3) True
      show ?thesis unfolding filt using same look ctx(2) by (auto simp: kc)
    qed
  qed simp
  then show "keys_ok me_key rows'"
    and "em' = em @ filter (\<lambda>k. claimed env k (row_of k occ rows)) (map fst ctx)"
    and "row_of k d rows' = (if d = occ \<and> k \<in> fst ` set ctx \<and> claimed env k (row_of k occ rows)
          then map_option (mark_emitted env) (row_of k occ rows) else row_of k d rows)"
    and "length logs' + length em = length logs + length em'" by blast+
qed

subsection \<open>One pass\<close>

lemma insert_missed_lookup:
  "row_of k d (insert_missed_event sid did occ now rows) = (case row_of k d rows of Some r \<Rightarrow> Some r
     | None \<Rightarrow> if d = occ \<and> k = (sid, did)
         then Some \<lparr>me_schedule_id = fst k, me_device_id = snd k, me_date = occ,
           first_seen_offline_at = now, emitted_at = None\<rparr> else None)"
  unfolding insert_missed_event_def missed.find_insert_ignore
  by (cases k) (auto simp: me_key_def split: option.split)

lemma seed_lookup:
  assumes "\<forall>(k, c) \<in> set ctx. oc_schedule_id c = fst k" "occ = dt_date (te_local_now env)"
  shows "row_of k d (seed_missed env ctx rows) = (case row_of k d rows of Some r \<Rightarrow> Some r
     | None \<Rightarrow> if d = occ \<and> k \<in> fst ` set ctx
         then Some \<lparr>me_schedule_id = fst k, me_device_id = snd k, me_date = occ,
           first_seen_offline_at = te_utc_now env, emitted_at = None\<rparr> else None)"
  using assms(1) unfolding seed_missed_def
proof (induction ctx arbitrary: rows)
  case (Cons kc ctx)
  obtain sid did c where kc: "kc = ((sid, did), c)" by (cases kc) auto
  have oc: "oc_schedule_id c = sid" using Cons.prems by (simp add: kc)
  have tl: "\<forall>(k, c) \<in> set ctx. oc_schedule_id c = fst k" using Cons.prems by simp
  show ?case
    using Cons.IH [OF tl, of "insert_missed_event sid did occ (te_utc_now env) rows"]
    unfolding insert_missed_lookup
    by (cases "row_of k d rows") (simp_all add: kc oc assms(2) insert_missed_lookup)
qed (simp split: option.split)

lemma seed_keys_ok: "keys_ok me_key rows \<Longrightarrow> keys_ok me_key (seed_missed env ctx rows)"
  unfolding seed_missed_def
  by (induction ctx arbitrary: rows) (auto simp: insert_missed_event_def missed.keys_ok_insert_ignore)

lemma cleanup_lookup:
  assumes "keys_ok me_key rows"
  shows "row_of k d (cleanup_missed occ ctx rows) =
    (if d < occ - MISSED_RETENTION_DAYS \<or> d = occ \<and> k \<notin> fst ` set ctx then None else row_of k d rows)"
proof -
  have ok: "keys_ok me_key (delete_where P rows)" for P by (rule missed.keys_ok_delete [OF assms])
  show ?thesis
    unfolding cleanup_missed_def missed.find_delete [OF ok] missed.find_delete [OF assms]
    using find_by_Some [of me_key "(fst k, snd k, d)" rows]
    by (cases k) (auto simp: me_key_def split: option.splits)
qed

lemma cleanup_keys_ok: "keys_ok me_key rows \<Longrightarrow> keys_ok me_key (cleanup_missed occ ctx rows)"
  by (simp add: cleanup_missed_def missed.keys_ok_delete)

definition eval_ok :: "tick_env \<Rightarrow> eval_state \<Rightarrow> bool" where
  "eval_ok env st \<longleftrightarrow> db_ok (es_db st) \<and> clock_ok (es_db st) (te_local_now env) \<and> keys_ok me_key (es_missed st)"

lemma fresh_row_not_due: "first_seen_offline_at r = te_utc_now env \<Longrightarrow> \<not> due env r"
  by (simp add: due_def MISSED_GRACE_SECONDS_def)

text \<open>What a pass emits and what it leaves in the dedup table, in terms of the state before.\<close>

lemma evaluate_effect:
  assumes "eval_ok env st" "evaluate_schedules env st = (st', em)" "occ = dt_date (te_local_now env)"
  shows "distinct em"
    and "set em = {k \<in> missing (es_db st) env. claimed env k (row_of k occ (es_missed st))}"
    and "length (es_logs st') = length (es_logs st) + length em"
    and "keys_ok me_key (es_missed st')"
    and "row_of k occ (es_missed st') =
      (if k \<notin> missing (es_db st) env then None
       else case row_of k occ (es_missed st) of
           None \<Rightarrow> Some \<lparr>me_schedule_id = fst k, me_device_id = snd k, me_date = occ,
             first_seen_offline_at = te_utc_now env, emitted_at = None\<rparr>
         | Some r \<Rightarrow> Some (if claimed env k (Some r) then mark_emitted env r else r))"
proof -
  let ?ctx = "tick_context (es_db st) env"
  let ?rows = "seed_missed env ?ctx (es_missed st)"
  have ok: "ctx_ok ?ctx" "fst ` set ?ctx = missing (es_db st) env"
    using tick_context_keys assms(1) by (auto simp: eval_ok_def)
  have ctx: "dict_ok ?ctx" "\<forall>(k, c) \<in> set ?ctx. oc_schedule_id c = fst k"
    using ok(1) by (auto simp: ctx_ok_def)
  have keys: "keys_ok me_key ?rows" using assms(1) seed_keys_ok by (simp add: eval_ok_def)
  obtain rows' logs' where c: "fold (claim_step env) ?ctx (?rows, es_logs st, []) = (rows', logs', em)"
    and st': "es_missed st' = cleanup_missed occ ?ctx rows'" "es_logs st' = logs'"
    using assms(2,3) by (auto simp: evaluate_schedules_def claim_missed_def Let_def split: prod.splits)
  note f = claim_fold [OF keys ctx c assms(3)]
  note seed = seed_lookup [OF ctx(2) assms(3), where rows = "es_missed st"]
  have cl: "claimed env k (row_of k occ ?rows) \<longleftrightarrow> claimed env k (row_of k occ (es_missed st))" for k
    unfolding seed by (auto simp: claimed_def fresh_row_not_due split: option.splits)
  show "distinct em" using f(2) ctx(1) by (simp add: dict_ok_def)
  show "set em = {k \<in> missing (es_db st) env. claimed env k (row_of k occ (es_missed st))}"
    unfolding f(2) cl ok(2) [symmetric] by auto
  show "length (es_logs st') = length (es_logs st) + length em" using f(4) st'(2) by simp
  show "keys_ok me_key (es_missed st')" unfolding st'(1) by (rule cleanup_keys_ok [OF f(1)])
  have nr: "\<not> occ < occ - MISSED_RETENTION_DAYS" by (simp add: MISSED_RETENTION_DAYS_def)
  show "row_of k occ (es_missed st') =
      (if k \<notin> missing (es_db st) env then None
       else case row_of k occ (es_missed st) of
           None \<Rightarrow> Some \<lparr>me_schedule_id = fst k, me_device_id = snd k, me_date = occ,
             first_seen_offline_at = te_utc_now env, emitted_at = None\<rparr>
         | Some r \<Rightarrow> Some (if claimed env k (Some r) then mark_emitted env r else r))"
    unfolding st'(1) cleanup_lookup [OF f(1)] f(3) cl seed ok(2)
    using nr by (auto simp: claimed_def fresh_row_not_due split: option.splits)
qed

subsection \<open>Sequences of passes\<close>

text \<open>Between passes the other tables may change in any way, so each pass comes with the
  database it finds; the dedup table, the logs and the cache are carried along.\<close>

fun run_ticks :: "(tick_env \<times> cms_db) list \<Rightarrow> eval_state \<Rightarrow> eval_state \<times> (string \<times> string) list" where
  "run_ticks [] st = (st, [])"
| "run_ticks ((env, d) # ts) st =
     (let (st', em) = evaluate_schedules env (st\<lparr>es_db := d\<rparr>); (st'', em') = run_ticks ts st'
      in (st'', em @ em'))"

text \<open>The pair \<open>k\<close> is missing playback on day \<open>occ\<close> at every one of the passes.\<close>

fun stays_missing :: "string \<times> string \<Rightarrow> date \<Rightarrow> (tick_env \<times> cms_db) list \<Rightarrow> eval_state \<Rightarrow> bool" where
  "stays_missing k occ [] st \<longleftrightarrow> True"
| "stays_missing k occ ((env, d) # ts) st \<longleftrightarrow>
     eval_ok env (st\<lparr>es_db := d\<rparr>) \<and> dt_date (te_local_now env) = occ \<and> k \<in> missing d env
     \<and> stays_missing k occ ts (fst (evaluate_schedules env (st\<lparr>es_db := d\<rparr>)))"

lemma count_distinct_list: "distinct xs \<Longrightarrow> count_list xs x = (if x \<in> set xs then 1 else 0)"
  by (induction xs) auto

lemma pass_on_key:
  assumes "stays_missing k occ ((env, d) # ts) st"
    and "evaluate_schedules env (st\<lparr>es_db := d\<rparr>) = (st', em)"
  shows "stays_missing k occ ts st'"
    and "count_list em k = (if claimed env k (row_of k occ (es_missed st)) then 1 else 0)"
    and "row_of k occ (es_missed st') = (case row_of k occ (es_missed st) of
        None \<Rightarrow> Some \<lparr>me_schedule_id = fst k, me_device_id = snd k, me_date = occ,
          first_seen_offline_at = te_utc_now env, emitted_at = None\<rparr>
      | Some r \<Rightarrow> Some (if claimed env k (Some r) then mark_emitted env r else r))"
proof -
  have ok: "eval_ok env (st\<lparr>es_db := d\<rparr>)" and occ: "occ = dt_date (te_local_now env)"
    and k: "k \<in> missing d env"
    using assms(1) by auto
  note e = evaluate_effect [OF ok assms(2) occ]
  show "stays_missing k occ ts st'" using assms by simp
  show "count_list em k = (if claimed env k (row_of k occ (es_missed st)) then 1 else 0)"
    using count_distinct_list [OF e(1), of k] e(2) k by simp
  show "row_of k occ (es_missed st') = (case row_of k occ (es_missed st) of
        None \<Rightarrow> Some \<lparr>me_schedule_id = fst k, me_device_id = snd k, me_date = occ,
          first_seen_offline_at = te_utc_now env, emitted_at = None\<rparr>
      | Some r \<Rightarrow> Some (if claimed env k (Some r) then mark_emitted env r else r))"
    using e(5) [of k] k by (simp split: option.splits)
qed

text \<open>Once emitted, the row stays emitted and nothing more is emitted for it.\<close>

lemma emitted_is_final:
  assumes "stays_missing k occ ts st" "row_of k occ (es_missed st) = Some r" "emitted_at r \<noteq> None"
  shows "count_list (snd (run_ticks ts st)) k = 0"
  using assms
proof (induction k occ ts st arbitrary: r rule: stays_missing.induct)
  case (2 k occ env d ts st)
  obtain st' em where ev: "evaluate_schedules env (st\<lparr>es_db := d\<rparr>) = (st', em)" by (cases "evaluate_schedules env (st\<lparr>es_db := d\<rparr>)")
  note p = pass_on_key [OF "2.prems"(1) ev]
  have nc: "\<not> claimed env k (Some r)" using "2.prems"(3) by (simp add: claimed_def due_def)
  then have "row_of k occ (es_missed st') = Some r" using p(3) "2.prems"(2) by simp
  then have "count_list (snd (run_ticks ts st')) k = 0"
    using "2.IH" [of r] p(1) ev "2.prems"(3) by simp
  moreover have "count_list em k = 0" using p(2) nc "2.prems"(2) by simp
  ultimately show ?case by (simp add: ev case_prod_beta)
qed simp

lemma at_most_once:
  assumes "stays_missing k occ ts st"
  shows "count_list (snd (run_ticks ts st)) k \<le> 1"
  using assms
proof (induction k occ ts st rule: stays_missing.induct)
  case (2 k occ env d ts st)
  obtain st' em where ev: "evaluate_schedules env (st\<lparr>es_db := d\<rparr>) = (st', em)" by (cases "evaluate_schedules env (st\<lparr>es_db := d\<rparr>)")
  note p = pass_on_key [OF "2.prems" ev]
  have split: "snd (run_ticks ((env, d) # ts) st) = em @ snd (run_ticks ts st')"
    by (simp add: ev case_prod_beta)
  show ?case
  proof (cases "claimed env k (row_of k occ (es_missed st))")
    case True
    then obtain r where "row_of k occ (es_missed st) = Some r" by (auto simp: claimed_def split: option.splits)
    then have "row_of k occ (es_missed st') = Some (mark_emitted env r)" using p(3) True by simp
    then have "count_list (snd (run_ticks ts st')) k = 0" using emitted_is_final [OF p(1)] by simp
    then show ?thesis using p(2) True split by simp
  next
    case False
    then show ?thesis using p(2) split "2.IH" p(1) ev by simp
  qed
qed simp

text \<open>Any passes of one local day, and the outages of a pair among them: the passes that find it missing playback when the
  pass before did not.\<close>

fun day_run :: "date \<Rightarrow> (tick_env \<times> cms_db) list \<Rightarrow> eval_state \<Rightarrow> bool" where
  "day_run occ [] st \<longleftrightarrow> True"
| "day_run occ ((env, d) # ts) st \<longleftrightarrow> eval_ok env (st\<lparr>es_db := d\<rparr>) \<and> dt_date (te_local_now env) = occ
     \<and> day_run occ ts (fst (evaluate_schedules env (st\<lparr>es_db := d\<rparr>)))"

fun outages :: "string \<times> string \<Rightarrow> bool \<Rightarrow> (tick_env \<times> cms_db) list \<Rightarrow> nat" where
  "outages k out [] = 0"
| "outages k out ((env, d) # ts) = (if k \<in> missing d env \<and> \<not> out then 1 else 0) + outages k (k \<in> missing d env) ts"

lemma outages_False: "outages k False ts \<le> Suc (outages k True ts)"
  by (cases ts) auto

lemma once_per_outage:
  assumes "day_run occ ts st"
  shows "count_list (snd (run_ticks ts st)) k
    \<le> outages k (\<exists>r. row_of k occ (es_missed st) = Some r \<and> emitted_at r \<noteq> None) ts"
  using assms
proof (induction occ ts st rule: day_run.induct)
  case (2 occ env d ts st)
  obtain st' em where ev: "evaluate_schedules env (st\<lparr>es_db := d\<rparr>) = (st', em)" by (cases "evaluate_schedules env (st\<lparr>es_db := d\<rparr>)")
  have ok: "eval_ok env (st\<lparr>es_db := d\<rparr>)" and occ: "occ = dt_date (te_local_now env)" and run: "day_run occ ts st'"
    using "2.prems" ev by auto
  note e = evaluate_effect [OF ok ev occ]
  let ?row = "row_of k occ (es_missed st)" and ?row' = "row_of k occ (es_missed st')"
  let ?sent = "\<exists>r. ?row = Some r \<and> emitted_at r \<noteq> None" and ?sent' = "\<exists>r. ?row' = Some r \<and> emitted_at r \<noteq> None"
  have parts: "count_list (snd (run_ticks ((env, d) # ts) st)) k = count_list em k + count_list (snd (run_ticks ts st')) k"
    by (simp add: ev case_prod_beta)
  have now: "count_list em k = (if k \<in> missing d env \<and> claimed env k ?row then 1 else 0)"
    using count_distinct_list [OF e(1), of k] e(2) by simp
  have IH: "count_list (snd (run_ticks ts st')) k \<le> outages k ?sent' ts" using "2.IH" run ev by simp
  have row': "?row' = (if k \<notin> missing d env then None
       else case ?row of None \<Rightarrow> Some \<lparr>me_schedule_id = fst k, me_device_id = snd k, me_date = occ,
             first_seen_offline_at = te_utc_now env, emitted_at = None\<rparr>
         | Some r \<Rightarrow> Some (if claimed env k (Some r) then mark_emitted env r else r))" using e(5) [of k] by simp
  show ?case
  proof (cases "k \<in> missing d env")
    case False
    then show ?thesis using IH now row' by (simp add: parts del: run_ticks.simps)
  next
    case True
    consider "?sent" | "\<not> ?sent" "claimed env k ?row" | "\<not> ?sent" "\<not> claimed env k ?row" by blast
    then show ?thesis
    proof cases
      case 1
      then obtain r where r: "?row = Some r" "emitted_at r \<noteq> None" by blast
      then have "\<not> claimed env k ?row" by (simp add: claimed_def due_def)
      then show ?thesis using IH now row' True r by (simp add: parts del: run_ticks.simps)
    next
      case 2
      then obtain r where r: "?row = Some r" by (auto simp: claimed_def split: option.splits)
      then have "?sent'" using row' True 2(2) by simp
      then show ?thesis using IH now True 2(1) by (simp add: parts del: run_ticks.simps)
    next
      case 3
      then have "\<not> ?sent'" using row' True by (auto split: option.splits)
      then have "?sent' = False" by blast
      then have "count_list (snd (run_ticks ts st')) k \<le> outages k False ts" using IH by (simp only:)
      then show ?thesis using now True 3 outages_False [of k ts] by (simp add: parts del: run_ticks.simps)
    qed
  qed
qed simp

text \<open>A row old enough at the last pass is emitted by some pass.\<close>

lemma eventually_emitted:
  assumes "stays_missing k occ ts st" "row_of k occ (es_missed st) = Some r" "emitted_at r = None"
    and "ts \<noteq> []" "first_seen_offline_at r \<le> te_utc_now (fst (last ts)) - MISSED_GRACE_SECONDS * 1000000"
    and "log_ok (fst (last ts)) (fst k) (snd k)"
  shows "0 < count_list (snd (run_ticks ts st)) k"
  using assms
proof (induction k occ ts st rule: stays_missing.induct)
  case (2 k occ env d ts st)
  obtain st' em where ev: "evaluate_schedules env (st\<lparr>es_db := d\<rparr>) = (st', em)" by (cases "evaluate_schedules env (st\<lparr>es_db := d\<rparr>)")
  note p = pass_on_key [OF "2.prems"(1) ev]
  have split: "snd (run_ticks ((env, d) # ts) st) = em @ snd (run_ticks ts st')"
    by (simp add: ev case_prod_beta)
  show ?case
  proof (cases "claimed env k (Some r)")
    case True
    then show ?thesis using p(2) "2.prems"(2) split by simp
  next
    case False
    then have "ts \<noteq> []" using "2.prems"(3,5,6) by (auto simp: claimed_def due_def)
    moreover have "row_of k occ (es_missed st') = Some r" using p(3) "2.prems"(2) False by simp
    ultimately have "0 < count_list (snd (run_ticks ts st')) k"
      using "2.IH" p(1) ev "2.prems"(3,5,6) by simp
    then show ?thesis using split by simp
  qed
qed simp

section \<open>Properties\<close>

text \<open>
  C7. What one pass reports as MISSED, and what it remembers. The pairs emitted are, each
  once, the pairs of a schedule that could play now and a device that is not connected, whose
  dedup row for today was first seen at least 60 seconds ago, has not been emitted, and whose
  log entry can be written, with or without its foreign keys; as many log entries are added.
  Afterwards today's dedup rows are exactly those of the pairs missing playback now, a new row
  starting its grace period now and an old one keeping its first observation, so that a device
  that reconnects starts afresh and a failed log write is retried.
\<close>

theorem missed_pass_exact:
  assumes "eval_ok env st" and "evaluate_schedules env st = (st', em)"
    and "occ = dt_date (te_local_now env)"
  shows "distinct em
    \<and> set em = {k \<in> missing (es_db st) env. claimed env k (row_of k occ (es_missed st))}
    \<and> length (es_logs st') = length (es_logs st) + length em
    \<and> (\<forall>k. row_of k occ (es_missed st') =
        (if k \<notin> missing (es_db st) env then None
         else case row_of k occ (es_missed st) of
             None \<Rightarrow> Some \<lparr>me_schedule_id = fst k, me_device_id = snd k, me_date = occ,
               first_seen_offline_at = te_utc_now env, emitted_at = None\<rparr>
           | Some r \<Rightarrow> Some (if claimed env k (Some r) then mark_emitted env r else r)))"
  using evaluate_effect [OF assms] by blast

definition offline_env :: "datetime \<Rightarrow> int \<Rightarrow> tick_env" where
  "offline_env local utc = \<lparr>te_local_now = local, te_utc_now = utc, te_now_iso = '''', te_cutoff_date = 738028,
     te_tz_setting = None, te_connected = [], te_states = [], te_resolve = (\<lambda>d a. None),
     te_log_insert = (\<lambda>s d. Inserted)\<rparr>"

definition empty_state :: "cms_db \<Rightarrow> eval_state" where
  "empty_state d = \<lparr>es_db = d, es_variants = [], es_missed = [], es_logs = [], es_confirmed = [], es_sent = []\<rparr>"

lemma empty_eval_ok:
  "eval_ok (offline_env sample_now u) (empty_state (late_end d))"
  "eval_ok (offline_env sample_now u) ((empty_state d')\<lparr>es_db := late_end d\<rparr>)"
  using late_end_ok by (simp_all add: eval_ok_def empty_state_def offline_env_def keys_ok_def)

theorem missed_pass_exact_witness:
  "\<exists>st' em. evaluate_schedules (offline_env sample_now 0) (empty_state (late_end 738000)) = (st', em)
     \<and> distinct em \<and> em = [] \<and> row_of (''s1'', ''d1'') 737998 (es_missed st') \<noteq> None
     \<and> (row_of (''s1'', ''d1'') 737998 (es_missed st') =
        (if (''s1'', ''d1'') \<notin> missing (late_end 738000) (offline_env sample_now 0) then None
         else Some \<lparr>me_schedule_id = ''s1'', me_device_id = ''d1'', me_date = 737998,
               first_seen_offline_at = 0, emitted_at = None\<rparr>))"
proof -
  let ?env = "offline_env sample_now 0" and ?st = "empty_state (late_end 738000)"
  obtain st' em where ev: "evaluate_schedules ?env ?st = (st', em)" by (cases "evaluate_schedules ?env ?st")
  have occ: "737998 = dt_date (te_local_now ?env)" by (simp add: offline_env_def sample_now_def)
  have "row_of (''s1'', ''d1'') 737998 (es_missed (fst (evaluate_schedules ?env ?st))) \<noteq> None"
    "snd (evaluate_schedules ?env ?st) = []" by code_simp+
  then have r: "row_of (''s1'', ''d1'') 737998 (es_missed st') \<noteq> None" "em = []" by (simp_all add: ev)
  show ?thesis
    using missed_pass_exact [OF empty_eval_ok(1) ev occ] ev r
    by (intro exI [of _ st'] exI [of _ em]) (simp add: empty_state_def offline_env_def)
qed

text \<open>
  C8. No duplicate alarms. Over any sequence of passes on the same local day, by whichever
  replica and whatever else changes in between, a pair of a schedule and a device has at most as many MISSED entries as it has
  outages: passes that find the schedule due on the device and the device offline after one that did not (or as the
  first). So an outage is reported at most once however many passes see it; after a reconnection the same schedule may be reported
  missed again, which is what the program means to do.
\<close>

theorem missed_at_most_once:
  assumes "day_run occ ts st"
  shows "count_list (snd (run_ticks ts st)) k \<le> outages k False ts"
proof -
  have "outages k b ts \<le> outages k False ts" for b by (cases ts) auto
  then show ?thesis using once_per_outage [OF assms] le_trans by blast
qed

text \<open>
  No lost alarms: if the pair is missing playback from one pass to a pass at least 60
  seconds later, at every pass in between, and the log can be written at the last one, exactly
  one MISSED entry has been emitted for it.
\<close>

theorem missed_is_raised:
  assumes "stays_missing k occ ((env, d) # ts) st" and "row_of k occ (es_missed st) = None"
    and "ts \<noteq> []" and "te_utc_now env + MISSED_GRACE_SECONDS * 1000000 \<le> te_utc_now (fst (last ts))"
    and "log_ok (fst (last ts)) (fst k) (snd k)"
  shows "count_list (snd (run_ticks ((env, d) # ts) st)) k = 1"
proof -
  obtain st' em where ev: "evaluate_schedules env (st\<lparr>es_db := d\<rparr>) = (st', em)"
    by (cases "evaluate_schedules env (st\<lparr>es_db := d\<rparr>)")
  note p = pass_on_key [OF assms(1) ev]
  have "0 < count_list (snd (run_ticks ts st')) k"
    using eventually_emitted [OF p(1)] p(3) assms(2-5) by simp
  moreover have "snd (run_ticks ((env, d) # ts) st) = em @ snd (run_ticks ts st')"
    by (simp add: ev case_prod_beta)
  ultimately have "0 < count_list (snd (run_ticks ((env, d) # ts) st)) k" by simp
  then show ?thesis using at_most_once [OF assms(1)] by simp
qed

definition two_passes :: "(tick_env \<times> cms_db) list" where
  "two_passes = [(offline_env sample_now 0, late_end 738000), (offline_env sample_now 120000000, late_end 738000)]"

lemma late_end_missing: "(''s1'', ''d1'') \<in> missing (late_end 738000) (offline_env sample_now u)"
proof -
  have "matches_now (hd (schedules (late_end 738000))) sample_now" by code_simp
  from late_end_plays [OF this] have "eligible (late_end 738000) sample_now ''d1'' (hd (schedules (late_end 738000)))"
    by (simp add: plays_def)
  moreover have "sched_id (hd (schedules (late_end 738000))) = ''s1''" by code_simp
  ultimately show ?thesis
    unfolding missing_def by (simp add: offline_env_def) metis
qed

lemma two_passes_missing: "stays_missing (''s1'', ''d1'') 737998 two_passes (empty_state (late_end 738000))"
proof -
  let ?st1 = "fst (evaluate_schedules (offline_env sample_now 0) ((empty_state (late_end 738000))\<lparr>es_db := late_end 738000\<rparr>))"
  have "map me_key (es_missed ?st1) = [(''s1'', ''d1'', 737998)]" by code_simp
  then have "keys_ok me_key (es_missed ?st1)" by (simp add: keys_ok_def)
  then have "eval_ok (offline_env sample_now 120000000) (?st1\<lparr>es_db := late_end 738000\<rparr>)"
    using late_end_ok by (simp add: eval_ok_def offline_env_def)
  then show ?thesis
    using late_end_missing empty_eval_ok(2)
    by (simp add: two_passes_def) (simp add: offline_env_def sample_now_def)
qed

lemma stays_missing_day: "stays_missing k occ ts st \<Longrightarrow> day_run occ ts st"
  by (induction k occ ts st rule: stays_missing.induct) auto

theorem missed_at_most_once_witness:
  "count_list (snd (run_ticks two_passes (empty_state (late_end 738000)))) (''s1'', ''d1'') \<le> 1
   \<and> snd (run_ticks two_passes (empty_state (late_end 738000))) = [(''s1'', ''d1'')]"
proof
  show "count_list (snd (run_ticks two_passes (empty_state (late_end 738000)))) (''s1'', ''d1'') \<le> 1"
    using missed_at_most_once [OF stays_missing_day [OF two_passes_missing], of "(''s1'', ''d1'')"] late_end_missing
    by (simp add: two_passes_def)
  show "snd (run_ticks two_passes (empty_state (late_end 738000))) = [(''s1'', ''d1'')]" by code_simp
qed

theorem missed_is_raised_witness:
  "count_list (snd (run_ticks two_passes (empty_state (late_end 738000)))) (''s1'', ''d1'') = 1"
  unfolding two_passes_def
  by (rule missed_is_raised [OF two_passes_missing [unfolded two_passes_def]])
     (simp_all add: empty_state_def offline_env_def MISSED_GRACE_SECONDS_def log_ok_def)

text \<open>
  Deduplication is by calendar day, not by occurrence: the single occurrence from Monday
  22:00 to Tuesday 02:00 of the late show, missed throughout by an offline device, is reported
  twice, once before and once after midnight.
\<close>

theorem overnight_missed_twice:
  "snd (run_ticks
      [(offline_env (Datetime 737997 (Time 23 0 0 0)) 0, late_end 738000),
       (offline_env (Datetime 737997 (Time 23 2 0 0)) 120000000, late_end 738000),
       (offline_env (Datetime 737998 (Time 0 30 0 0)) 5400000000, late_end 738000),
       (offline_env (Datetime 737998 (Time 0 32 0 0)) 5520000000, late_end 738000)]
      (empty_state (late_end 738000)))
   = [(''s1'', ''d1''), (''s1'', ''d1'')]"
  by code_simp

end
