(* ===== verification/Upcoming.thy ===== *)
theory Upcoming
  imports Now_Playing "HOL-Library.Multiset"
begin

text \<open>
  The dashboard's "Coming Up" list: \<^verbatim>\<open>get_upcoming_schedules\<close> of
  \<^verbatim>\<open>cms/services/scheduler.py\<close> with the functions that build its entries and
  \<^verbatim>\<open>_find_resume_time\<close>. Times are naive local datetimes; a \<^verbatim>\<open>timedelta\<close> is its number of
  microseconds, so \<^verbatim>\<open>int(delta.total_seconds())\<close> is a division (the float the program goes
  through is exact enough for spans below two days). Date arithmetic past the end of the calendar raises, so the list is
  a result. In \<^verbatim>\<open>_find_resume_time\<close> the clock is assumed not to be on the first day of the calendar.
\<close>

section \<open>Definitions\<close>

text \<open>\<^verbatim>\<open>int(td.total_seconds())\<close> truncates towards zero.\<close>

definition whole_seconds :: "int \<Rightarrow> int" where
  "whole_seconds us = (if 0 \<le> us then us div 1000000 else - ((- us) div 1000000))"

record upcoming_entry =
  up_schedule_id :: string
  up_schedule_name :: string
  up_group_id :: "string option"
  up_group_name :: string
  up_asset_filename :: string
  up_target_name :: string
  up_target_type :: string
  up_priority :: int
  up_start_time :: string
  up_end_time :: string
  up_duration_mins :: int
  up_duration_secs :: int
  up_countdown :: string
  up_starts_in_seconds :: int
  up_day_label :: string
  up_preempted :: bool
  up_starting :: bool
  up_no_targets :: bool
  up_resumes_at :: "string option"

text \<open>\<^verbatim>\<open>end_dt - start_dt\<close> where the end moves to the next day if \<^verbatim>\<open>end_time <= start_time\<close>.\<close>

definition window_us :: "schedule \<Rightarrow> int" where
  "window_us s = time_us (end_time s) - time_us (start_time s)
     + (if end_time s \<le> start_time s then DAY_US else 0)"

text \<open>The part of the entry dictionary the four builders share. A flag the builder does not
  put in the dictionary is read with \<^verbatim>\<open>entry.get(...)\<close> and is false.\<close>

definition base_entry :: "schedule \<Rightarrow> string \<Rightarrow> int \<Rightarrow> string \<Rightarrow> upcoming_entry" where
  "base_entry s countdown secs day_label =
     (let target_name = (case sched_group s of None \<Rightarrow> '''' | Some g \<Rightarrow> dg_name g);
          shown = (if target_name = '''' then em_dash else target_name)
      in \<lparr>up_schedule_id = sched_id s, up_schedule_name = sched_name s,
          up_group_id = group_id s, up_group_name = shown,
          up_asset_filename = asset_display_name (sched_asset s),
          up_target_name = shown, up_target_type = ''group'', up_priority = priority s,
          up_start_time = strftime_ampm (start_time s), up_end_time = strftime_ampm (end_time s),
          up_duration_mins = window_us s div 60000000,
          up_duration_secs = whole_seconds (window_us s),
          up_countdown = countdown, up_starts_in_seconds = secs, up_day_label = day_label,
          up_preempted = False, up_starting = False, up_no_targets = False,
          up_resumes_at = None\<rparr>)"

definition countdown_text :: "string \<Rightarrow> int \<Rightarrow> string" where
  "countdown_text prefix secs =
     (if secs < 60 then prefix @ ''less than a minute''
      else if secs < 3600 then prefix @ plural (secs div 60) ''minute''
      else let hours = secs div 3600; mins = (secs mod 3600) div 60
           in prefix @ plural hours ''hour''
              @ (if mins > 0 then '', '' @ plural mins ''minute'' else ''''))"

definition upcoming_entry_for :: "schedule \<Rightarrow> string \<Rightarrow> int \<Rightarrow> upcoming_entry" where
  "upcoming_entry_for s day_label delta =
     base_entry s (countdown_text '''' (whole_seconds delta)) (whole_seconds delta) day_label"

text \<open>\<^verbatim>\<open>_upcoming_entry\<close>: the end of a window that does not end later the same day is on the next day.\<close>

definition upcoming_entry_on :: "schedule \<Rightarrow> date \<Rightarrow> string \<Rightarrow> int \<Rightarrow> upcoming_entry result" where
  "upcoming_entry_on s run_date day_label delta =
     result_bind (if end_time s \<le> start_time s then add_days run_date 1 else Inr run_date)
       (\<lambda>end_date. Inr (upcoming_entry_for s day_label delta))"

definition preempted_entry :: "schedule \<Rightarrow> datetime \<Rightarrow> py_time \<Rightarrow> upcoming_entry" where
  "preempted_entry s local_now resume_at =
     (let resume_us = dt_us (Datetime (dt_date local_now) resume_at)
            + (if resume_at \<le> dt_time local_now then DAY_US else 0);
          resume_secs = max 0 (whole_seconds (resume_us - dt_us local_now))
      in (base_entry s (countdown_text ''resumes in '' resume_secs) resume_secs ''today'')
           \<lparr>up_preempted := True, up_resumes_at := Some (strftime_ampm resume_at)\<rparr>)"

definition starting_entry :: "schedule \<Rightarrow> upcoming_entry" where
  "starting_entry s = (base_entry s ''starting'' 0 ''today'')\<lparr>up_starting := True\<rparr>"

definition no_targets_entry :: "schedule \<Rightarrow> upcoming_entry" where
  "no_targets_entry s = (base_entry s ''no_targets'' 0 ''today'')\<lparr>up_no_targets := True\<rparr>"

subsection \<open>When a preempted schedule resumes\<close>

text \<open>\<^verbatim>\<open>end_dt\<close> of a preempting schedule as the function computes it, and the running
  maximum \<^verbatim>\<open>latest_end_dt is None or end_dt > latest_end_dt\<close>.\<close>

definition resume_end :: "schedule \<Rightarrow> datetime \<Rightarrow> datetime" where
  "resume_end other local_now =
     Datetime (dt_date local_now + (if end_time other \<le> start_time other then 1 else 0))
       (end_time other)"

definition later :: "datetime \<Rightarrow> datetime option \<Rightarrow> bool" where
  "later d best = (case best of None \<Rightarrow> True | Some b \<Rightarrow> d > b)"

interpretation latest: tournament "\<lambda>d. d" later
  by unfold_locales (auto simp: later_def)

definition preempts :: "schedule \<Rightarrow> schedule \<Rightarrow> datetime \<Rightarrow> bool" where
  "preempts other s local_now \<longleftrightarrow>
     enabled other \<and> priority other > priority s \<and> matches_now other local_now"

definition find_resume_time ::
  "schedule \<Rightarrow> schedule list \<Rightarrow> datetime
   \<Rightarrow> (string list \<times> (string, np_entry) dict \<times> (string, schedule) dict) option
   \<Rightarrow> py_time option" where
  "find_resume_time preempted all_schedules local_now mode =
     (case mode of
        Some (target_devices, winning_by_device, schedules_by_id) \<Rightarrow>
          map_option dt_time
            (champion later
              [resume_end other local_now.
                 did \<leftarrow> target_devices,
                 winner \<leftarrow> (case map_of winning_by_device did of None \<Rightarrow> [] | Some w \<Rightarrow> [w]),
                 np_schedule_id winner \<noteq> sched_id preempted,
                 other \<leftarrow> (case map_of schedules_by_id (np_schedule_id winner) of
                            None \<Rightarrow> [] | Some x \<Rightarrow> [x]),
                 preempts other preempted local_now] None)
      | None \<Rightarrow>
          map_option dt_time
            (champion later
              [resume_end other local_now.
                 other \<leftarrow> all_schedules,
                 sched_id other \<noteq> sched_id preempted,
                 preempts other preempted local_now,
                 group_id preempted \<noteq> None \<and> group_id other = group_id preempted] None))"

subsection \<open>The list\<close>

text \<open>The optional arguments of \<^verbatim>\<open>get_upcoming_schedules\<close> that the loop reads.\<close>

record upcoming_args =
  ua_now_playing :: "np_entry list option"
  ua_skipped_ids :: "string list"
  ua_per_device_skipped :: "(string \<times> string) list"
  ua_targets :: "(string, string list) dict option"

definition winning_by_did :: "np_entry list option \<Rightarrow> (string, np_entry) dict" where
  "winning_by_did np = (case np of None \<Rightarrow> []
     | Some es \<Rightarrow> fold (\<lambda>e m. dict_set (np_device_id e) e m) es [])"

definition schedules_by_id :: "schedule list \<Rightarrow> (string, schedule) dict" where
  "schedules_by_id ss = fold (\<lambda>s m. dict_set (sched_id s) s m) ss []"

text \<open>The branch for a schedule inside its window: nothing, or one entry.\<close>

definition in_window_entries ::
  "schedule list \<Rightarrow> datetime \<Rightarrow> upcoming_args \<Rightarrow> schedule \<Rightarrow> upcoming_entry list" where
  "in_window_entries ss local_now args s =
     (case ua_now_playing args of
        None \<Rightarrow> []
      | Some np \<Rightarrow>
          if sched_id s \<in> np_schedule_id ` set np then []
          else if sched_id s \<in> set (ua_skipped_ids args) then []
          else
            (case ua_targets args of
               Some tbs \<Rightarrow>
                 (let tgts = dict_get_set (sched_id s) tbs
                  in if tgts = [] then [no_targets_entry s]
                     else if list_all (\<lambda>did. (sched_id s, did) \<in> set (ua_per_device_skipped args)) tgts
                     then []
                     else case find_resume_time s ss local_now
                            (Some (tgts, winning_by_did (Some np), schedules_by_id ss)) of
                         Some r \<Rightarrow> [preempted_entry s local_now r]
                       | None \<Rightarrow> [starting_entry s])
             | None \<Rightarrow>
                 (case find_resume_time s ss local_now None of
                    Some r \<Rightarrow> [preempted_entry s local_now r]
                  | None \<Rightarrow> [starting_entry s])))"

text \<open>The date and weekday conditions for an occurrence starting on day \<open>d\<close>.\<close>

definition day_excluded :: "schedule \<Rightarrow> date \<Rightarrow> bool" where
  "day_excluded s d \<longleftrightarrow>
     (case start_date s of Some x \<Rightarrow> d < dt_date x | None \<Rightarrow> False)
     \<or> (case end_date s of Some x \<Rightarrow> d > dt_date x | None \<Rightarrow> False)
     \<or> (case days_of_week s of Some ds \<Rightarrow> ds \<noteq> [] \<and> isoweekday d \<notin> set ds | None \<Rightarrow> False)"

definition out_of_window_entries :: "datetime \<Rightarrow> date \<Rightarrow> schedule \<Rightarrow> upcoming_entry list result" where
  "out_of_window_entries local_now tomorrow s =
     (let today = dt_date local_now;
          today_start = Datetime today (start_time s)
      in if today_start > local_now \<and> \<not> day_excluded s today
         then result_bind (upcoming_entry_on s today ''today'' (dt_us today_start - dt_us local_now)) (\<lambda>e. Inr [e])
         else
           let delta = dt_us (Datetime tomorrow (start_time s)) - dt_us local_now
           in if delta > 86400 * 1000000 then Inr []
              else if day_excluded s tomorrow then Inr []
              else result_bind (upcoming_entry_on s tomorrow ''tomorrow'' delta) (\<lambda>e. Inr [e]))"

definition upcoming_for ::
  "schedule list \<Rightarrow> datetime \<Rightarrow> date \<Rightarrow> upcoming_args \<Rightarrow> schedule \<Rightarrow> upcoming_entry list result" where
  "upcoming_for ss local_now tomorrow args s =
     (if \<not> enabled s then Inr []
      else result_bind (matches_at s local_now) (\<lambda>running.
        if running then Inr (in_window_entries ss local_now args s)
        else out_of_window_entries local_now tomorrow s))"

fun upcoming_loop ::
  "schedule list \<Rightarrow> datetime \<Rightarrow> date \<Rightarrow> upcoming_args \<Rightarrow> schedule list \<Rightarrow> upcoming_entry list result" where
  "upcoming_loop ss local_now tomorrow args [] = Inr []"
| "upcoming_loop ss local_now tomorrow args (s # rest) =
     result_bind (upcoming_for ss local_now tomorrow args s) (\<lambda>es.
       result_bind (upcoming_loop ss local_now tomorrow args rest) (\<lambda>results. Inr (es @ results)))"

definition get_upcoming_schedules ::
  "schedule list \<Rightarrow> datetime \<Rightarrow> upcoming_args \<Rightarrow> upcoming_entry list result" where
  "get_upcoming_schedules ss local_now args =
     result_bind (add_days (dt_date local_now) 1) (\<lambda>tomorrow.
       result_bind (upcoming_loop ss local_now tomorrow args ss) (\<lambda>results.
         Inr (sort_key up_starts_in_seconds results)))"

section \<open>Lemmas\<close>

subsection \<open>The next start of a schedule\<close>

text \<open>The instant at which the window of day \<open>d\<close> starts, and the starts of all occurrences: a window of no length
  has none.\<close>

definition start_at :: "schedule \<Rightarrow> date \<Rightarrow> int" where
  "start_at s d = d * DAY_US + time_us (start_time s)"

definition starts :: "schedule \<Rightarrow> int set" where
  "starts s = {t. \<exists>d \<in> anchors s. t \<in> occurrence s d \<and> (\<forall>u \<in> occurrence s d. t \<le> u)}"

lemma starts_eq:
  assumes "valid_schedule s" "start_time s \<noteq> end_time s"
  shows "starts s = start_at s ` anchors s"
proof -
  let ?a = "time_us (start_time s)" and ?b = "time_us (end_time s)"
  have "?a \<noteq> ?b" using assms time_us_inj by (auto simp: valid_schedule_def)
  moreover have "0 \<le> ?a" "?a < DAY_US" "0 \<le> ?b" "?b < DAY_US"
    using assms(1) time_us_range by (auto simp: valid_schedule_def)
  ultimately have "t \<in> occurrence s d \<and> (\<forall>u \<in> occurrence s d. t \<le> u) \<longleftrightarrow> t = start_at s d" for t d
    by (auto simp: occurrence_def start_at_def Let_def intro!: order_antisym)
  then show ?thesis by (auto simp: starts_def)
qed

lemma starts_zero_length: "start_time s = end_time s \<Longrightarrow> starts s = {}"
  by (auto simp: starts_def occurrence_def)

lemma dt_us_start [simp]: "dt_us (Datetime d (start_time s)) = start_at s d"
  by (simp add: dt_us_def start_at_def)

lemma start_at_mono [simp]: "start_at s d \<le> start_at s d' \<longleftrightarrow> d \<le> d'"
  by (simp add: start_at_def DAY_US_def)

lemma day_excluded_iff: "day_excluded s d \<longleftrightarrow> d \<notin> anchors s"
  using isoweekday_range [of d]
  by (cases "start_date s"; cases "end_date s"; cases "days_of_week s")
     (auto simp: day_excluded_def anchors_def allowed_weekdays_def ALL_WEEKDAYS_def in_range_def)

lemma whole_seconds_nonneg: "0 \<le> us \<Longrightarrow> whole_seconds us = us div 1000000"
  by (simp add: whole_seconds_def)

lemma upcoming_entry_for_fields [simp]:
  "up_schedule_id (upcoming_entry_for s l delta) = sched_id s"
  "up_starts_in_seconds (upcoming_entry_for s l delta) = whole_seconds delta"
  by (simp_all add: upcoming_entry_for_def base_entry_def Let_def)

text \<open>A start after the clock is today's or later, and one within a day of the clock is
  today's, or tomorrow's when today's is past.\<close>

lemma start_day_bounds:
  assumes "valid_time (start_time s)" "valid_time (dt_time now)" "dt_us now < start_at s d"
  shows "dt_date now \<le> d"
    and "\<not> dt_us now < start_at s (dt_date now) \<Longrightarrow> dt_date now + 1 \<le> d"
    and "start_at s d \<le> dt_us now + DAY_US \<Longrightarrow>
      d = dt_date now \<or> d = dt_date now + 1 \<and> \<not> dt_us now < start_at s (dt_date now)"
proof -
  have "0 \<le> time_us (start_time s)" "time_us (start_time s) < DAY_US"
    "0 \<le> time_us (dt_time now)" "time_us (dt_time now) < DAY_US"
    using assms(1,2) time_us_range by auto
  note b = this [unfolded DAY_US_def] and lt = assms(3) [unfolded dt_us_def start_at_def DAY_US_def]
  show le: "dt_date now \<le> d" using b lt by linarith
  show "\<not> dt_us now < start_at s (dt_date now) \<Longrightarrow> dt_date now + 1 \<le> d"
    using le assms(3) by (cases "d = dt_date now") auto
  show "d = dt_date now \<or> d = dt_date now + 1 \<and> \<not> dt_us now < start_at s (dt_date now)"
    if "start_at s d \<le> dt_us now + DAY_US"
  proof -
    have "d \<le> dt_date now + 1"
      using that b unfolding dt_us_def start_at_def DAY_US_def by linarith
    moreover have "\<not> dt_us now < start_at s (dt_date now)" if "d = dt_date now + 1"
      using that \<open>start_at s d \<le> dt_us now + DAY_US\<close>
      unfolding dt_us_def start_at_def DAY_US_def by linarith
    ultimately show ?thesis using le by linarith
  qed
qed

lemma start_today_tomorrow:
  assumes "valid_time (start_time s)" "valid_time (dt_time now)"
  shows "start_at s (dt_date now) \<le> dt_us now + DAY_US"
    and "dt_us now < start_at s (dt_date now + 1)"
    and "start_at s (dt_date now + 1) - dt_us now > 86400 * 1000000
      \<longleftrightarrow> dt_us now < start_at s (dt_date now)"
  using time_us_range [OF assms(1)] time_us_range [OF assms(2)]
  unfolding dt_us_def start_at_def DAY_US_def by auto

lemma out_of_window_eq:
  assumes "valid_time (start_time s)" "valid_time (dt_time now)"
    and "out_of_window_entries now (dt_date now + 1) s = Inr es"
  shows "es =
    (if dt_us now < start_at s (dt_date now) \<and> dt_date now \<in> anchors s
     then [upcoming_entry_for s ''today'' (start_at s (dt_date now) - dt_us now)]
     else if dt_us now < start_at s (dt_date now) \<or> dt_date now + 1 \<notin> anchors s then []
     else [upcoming_entry_for s ''tomorrow'' (start_at s (dt_date now + 1) - dt_us now)])"
  using start_today_tomorrow(3) [OF assms(1,2)] datetime_less_iff [of now "Datetime (dt_date now) (start_time s)"]
    assms
  by (auto simp: out_of_window_entries_def upcoming_entry_on_def day_excluded_iff result_bind_eq_Inr Let_def split: if_splits)

lemma out_of_window_error:
  "out_of_window_entries now (dt_date now + 1) s = Inl x \<Longrightarrow> date_min < dt_date now
     \<Longrightarrow> x = OverflowError \<and> date_max \<le> dt_date now + 1"
  by (auto simp: out_of_window_entries_def upcoming_entry_on_def result_bind_def add_days_def valid_date_def Let_def
      split: if_splits sum.splits)

text \<open>The first start after the clock.\<close>

definition next_start :: "schedule \<Rightarrow> datetime \<Rightarrow> int \<Rightarrow> bool" where
  "next_start s now t \<longleftrightarrow> t \<in> starts s \<and> dt_us now < t \<and> (\<forall>t' \<in> starts s. dt_us now < t' \<longrightarrow> t \<le> t')"

lemma out_of_window_next:
  assumes "valid_schedule s" "start_time s \<noteq> end_time s" "valid_time (dt_time now)"
    and es: "out_of_window_entries now (dt_date now + 1) s = Inr es"
  shows "if \<exists>t \<in> starts s. dt_us now < t \<and> t \<le> dt_us now + DAY_US
    then \<exists>l t. next_start s now t \<and> t \<le> dt_us now + DAY_US
      \<and> es = [upcoming_entry_for s l (t - dt_us now)]
    else es = []"
proof -
  let ?d = "dt_date now"
  have vt: "valid_time (start_time s)" using assms(1) by (simp add: valid_schedule_def)
  note d = start_day_bounds [OF vt assms(3)] and b = start_today_tomorrow [OF vt assms(3)]
    and starts_def = starts_eq [OF assms(1,2)] and es = out_of_window_eq [OF vt assms(3) es]
  consider "dt_us now < start_at s ?d" "?d \<in> anchors s"
    | "\<not> (dt_us now < start_at s ?d \<and> ?d \<in> anchors s)"
      "dt_us now < start_at s ?d \<or> ?d + 1 \<notin> anchors s"
    | "\<not> dt_us now < start_at s ?d" "?d + 1 \<in> anchors s" by blast
  then show ?thesis
  proof cases
    case 1
    then have "next_start s now (start_at s ?d)" using d(1) by (auto simp: next_start_def starts_def)
    moreover have "\<exists>t \<in> starts s. dt_us now < t \<and> t \<le> dt_us now + DAY_US"
      using 1 b(1) by (auto simp: starts_def)
    moreover have "es
        = [upcoming_entry_for s ''today'' (start_at s ?d - dt_us now)]"
      using 1 by (simp add: es)
    ultimately show ?thesis using b(1) by auto
  next
    case 2
    then have "\<not> (\<exists>t \<in> starts s. dt_us now < t \<and> t \<le> dt_us now + DAY_US)"
      using d(3) by (auto simp: starts_def)
    moreover have "es = []" using 2 by (simp add: es)
    ultimately show ?thesis by simp
  next
    case 3
    then have "next_start s now (start_at s (?d + 1))"
      using d(2) b(2) by (auto simp: next_start_def starts_def)
    moreover have le: "start_at s (?d + 1) \<le> dt_us now + DAY_US"
      using 3(1) b(3) by (simp add: DAY_US_def)
    moreover have "\<exists>t \<in> starts s. dt_us now < t \<and> t \<le> dt_us now + DAY_US"
      using 3 b(2) le by (auto simp: starts_def)
    moreover have "es
        = [upcoming_entry_for s ''tomorrow'' (start_at s (?d + 1) - dt_us now)]"
      using 3 by (simp add: es)
    ultimately show ?thesis by auto
  qed
qed

subsection \<open>The list as a whole\<close>

definition entries_for :: "schedule list \<Rightarrow> datetime \<Rightarrow> date \<Rightarrow> upcoming_args \<Rightarrow> schedule \<Rightarrow> upcoming_entry list" where
  "entries_for ss now tomorrow args s = (case upcoming_for ss now tomorrow args s of Inl _ \<Rightarrow> [] | Inr es \<Rightarrow> es)"

lemma loop_Inr: "upcoming_loop ss now tomorrow args xs = Inr L \<Longrightarrow>
    L = concat (map (entries_for ss now tomorrow args) xs)
      \<and> (\<forall>s \<in> set xs. upcoming_for ss now tomorrow args s = Inr (entries_for ss now tomorrow args s))"
  by (induction xs arbitrary: L) (auto simp: entries_for_def result_bind_eq_Inr)

lemma loop_Inl: "upcoming_loop ss now tomorrow args xs = Inl x \<Longrightarrow> \<exists>s \<in> set xs. upcoming_for ss now tomorrow args s = Inl x"
  by (induction xs) (auto simp: result_bind_def split: sum.splits)

lemma get_upcoming_Inr:
  assumes "get_upcoming_schedules ss now args = Inr L"
  shows "L = sort_key up_starts_in_seconds (concat (map (entries_for ss now (dt_date now + 1) args) ss))"
    and "s \<in> set ss \<Longrightarrow> upcoming_for ss now (dt_date now + 1) args s = Inr (entries_for ss now (dt_date now + 1) args s)"
  using assms loop_Inr [of ss now "dt_date now + 1" args ss]
  by (auto simp: get_upcoming_schedules_def add_days_def result_bind_eq_Inr split: if_splits)

lemma get_upcoming_Inl:
  assumes "get_upcoming_schedules ss now args = Inl x" "\<forall>s \<in> set ss. valid_schedule s" "valid_datetime now" "date_min < dt_date now"
  shows "x = OverflowError \<and> date_max \<le> dt_date now + 1"
proof (cases "valid_date (dt_date now + 1)")
  case True
  then have "upcoming_loop ss now (dt_date now + 1) args ss = Inl x"
    using assms(1) by (auto simp: get_upcoming_schedules_def add_days_def result_bind_def split: sum.splits)
  then obtain s where s: "s \<in> set ss" "upcoming_for ss now (dt_date now + 1) args s = Inl x" using loop_Inl by blast
  then have "matches_at s now = Inr (enabled s \<and> dt_us now \<in> covers s)" using assms matches_at_iff by blast
  then have "out_of_window_entries now (dt_date now + 1) s = Inl x" using s(2) by (simp add: upcoming_for_def split: if_splits)
  then show ?thesis using out_of_window_error assms(4) by blast
next
  case False
  then show ?thesis using assms(1,4) by (auto simp: get_upcoming_schedules_def add_days_def valid_date_def)
qed


lemma set_get_upcoming:
  "get_upcoming_schedules ss now args = Inr L \<Longrightarrow> set L = (\<Union>s \<in> set ss. set (entries_for ss now (dt_date now + 1) args s))"
  by (drule get_upcoming_Inr(1)) simp

lemma entry_ids [simp]:
  "up_schedule_id (base_entry s c n l) = sched_id s"
  "up_schedule_id (preempted_entry s now r) = sched_id s"
  "up_schedule_id (starting_entry s) = sched_id s"
  "up_schedule_id (no_targets_entry s) = sched_id s"
  by (simp_all add: base_entry_def preempted_entry_def starting_entry_def no_targets_entry_def Let_def)

text \<open>The loop body appends at most one entry, which carries the schedule's own id.\<close>

lemma upcoming_for_single: "map up_schedule_id (entries_for ss now tomorrow args s) \<in> {[], [sched_id s]}"
  by (auto simp: entries_for_def upcoming_for_def in_window_entries_def out_of_window_entries_def upcoming_entry_on_def
      result_bind_def Let_def split: option.splits sum.splits if_splits)

lemma upcoming_for_id: "e \<in> set (entries_for ss now tomorrow args s) \<Longrightarrow> up_schedule_id e = sched_id s"
  using upcoming_for_single [of ss now tomorrow args s] by (auto simp: map_eq_Cons_conv)

lemma disjoint_insert_sub:
  "A \<subseteq> {k} \<Longrightarrow> B \<subseteq> K \<Longrightarrow> k \<notin> K \<Longrightarrow> A \<inter> B = {} \<and> A \<union> B \<subseteq> insert k K"
  by blast

lemma distinct_concat_single:
  assumes "distinct (map key xs)" and "\<And>x. x \<in> set xs \<Longrightarrow> map idf (f x) \<in> {[], [key x]}"
  shows "distinct (map idf (concat (map f xs))) \<and> idf ` set (concat (map f xs)) \<subseteq> key ` set xs"
  using assms
proof (induction xs)
  case (Cons x xs)
  have "map idf (f x) \<in> {[], [key x]}" using Cons.prems(2) by simp
  moreover have "idf ` set (f x) = set (map idf (f x))" by simp
  ultimately have x: "distinct (map idf (f x))" "idf ` set (f x) \<subseteq> {key x}" by auto
  have xs: "distinct (map idf (concat (map f xs)))" "idf ` set (concat (map f xs)) \<subseteq> key ` set xs"
    using Cons by auto
  have k: "key x \<notin> key ` set xs" using Cons.prems(1) by auto
  from disjoint_insert_sub [OF x(2) xs(2) k] x(1) xs(1) show ?case
    by (simp add: image_Un del: set_concat)
qed simp

lemma distinct_get_upcoming:
  assumes "distinct (map sched_id ss)" "get_upcoming_schedules ss now args = Inr L"
  shows "distinct (map up_schedule_id L)"
proof -
  let ?L = "concat (map (entries_for ss now (dt_date now + 1) args) ss)"
  have "distinct (map up_schedule_id ?L)"
    using distinct_concat_single [OF assms(1), of up_schedule_id "entries_for ss now (dt_date now + 1) args"]
      upcoming_for_single by blast
  moreover have "mset (map up_schedule_id (sort_key up_starts_in_seconds ?L))
      = mset (map up_schedule_id ?L)" by simp
  ultimately show ?thesis
    unfolding get_upcoming_Inr(1) [OF assms(2)] using mset_eq_imp_distinct_iff by blast
qed

lemma upcoming_for_outside:
  assumes "valid_schedule s" "valid_datetime now" "date_min < dt_date now"
    and "enabled s" "dt_us now \<notin> covers s"
  shows "upcoming_for ss now tomorrow args s = out_of_window_entries now tomorrow s"
  using assms by (simp add: upcoming_for_def matches_at_iff)

lemma next_start_bounded_iff:
  "(\<exists>t. next_start s now t \<and> t \<le> dt_us now + DAY_US) \<Longrightarrow>
     \<exists>t \<in> starts s. dt_us now < t \<and> t \<le> dt_us now + DAY_US"
  by (auto simp: next_start_def)

lemma listed_outside:
  assumes "distinct (map sched_id ss)" "s \<in> set ss"
    and "valid_schedule s" "valid_datetime now" "date_min < dt_date now"
    and "enabled s" "dt_us now \<notin> covers s" and L: "get_upcoming_schedules ss now args = Inr L"
  shows "\<exists>es. out_of_window_entries now (dt_date now + 1) s = Inr es
    \<and> (\<forall>e. e \<in> set L \<and> up_schedule_id e = sched_id s \<longleftrightarrow> e \<in> set es)"
proof -
  have same: "s' = s" if "s' \<in> set ss" "sched_id s' = sched_id s" for s'
    using assms(1,2) that by (auto simp: distinct_map inj_on_def)
  let ?es = "entries_for ss now (dt_date now + 1) args"
  have "out_of_window_entries now (dt_date now + 1) s = Inr (?es s)"
    using get_upcoming_Inr(2) [OF L assms(2)] upcoming_for_outside [OF assms(3-7)] by simp
  moreover have "e \<in> set L \<and> up_schedule_id e = sched_id s \<longleftrightarrow> e \<in> set (?es s)" for e
    unfolding set_get_upcoming [OF L] using upcoming_for_id same assms(2) by fastforce
  ultimately show ?thesis by blast
qed

lemma listed_exactly:
  assumes "distinct (map sched_id ss)" "s \<in> set ss"
    and "valid_schedule s" "valid_datetime now" "date_min < dt_date now"
    and "enabled s" "dt_us now \<notin> covers s" "get_upcoming_schedules ss now args = Inr L" and len: "start_time s \<noteq> end_time s"
  shows "(sched_id s \<in> up_schedule_id ` set L \<longleftrightarrow> (\<exists>t. next_start s now t \<and> t \<le> dt_us now + DAY_US))
    \<and> (\<forall>e \<in> set L. up_schedule_id e = sched_id s \<longrightarrow>
        (\<exists>t. next_start s now t \<and> up_starts_in_seconds e = (t - dt_us now) div 1000000))"
proof -
  obtain es where es: "out_of_window_entries now (dt_date now + 1) s = Inr es"
    and L: "\<And>e. e \<in> set L \<and> up_schedule_id e = sched_id s \<longleftrightarrow> e \<in> set es"
    using listed_outside [OF assms(1-8)] by blast
  have "valid_time (dt_time now)" using assms(4) by (simp add: valid_datetime_def)
  note nx = out_of_window_next [OF assms(3) len this es]
  show ?thesis
  proof (cases "\<exists>t \<in> starts s. dt_us now < t \<and> t \<le> dt_us now + DAY_US")
    case True
    then obtain l t where t: "next_start s now t" "t \<le> dt_us now + DAY_US"
      and e: "es = [upcoming_entry_for s l (t - dt_us now)]"
      using nx by auto
    moreover have "0 \<le> t - dt_us now" using t(1) by (simp add: next_start_def)
    ultimately have "up_starts_in_seconds e = (t - dt_us now) div 1000000" if "e \<in> set L" "up_schedule_id e = sched_id s" for e
      using L [of e] that by (simp add: whole_seconds_nonneg)
    moreover have "sched_id s \<in> up_schedule_id ` set L" using L [of "upcoming_entry_for s l (t - dt_us now)"] e by force
    ultimately show ?thesis using t by blast
  next
    case False
    then have "es = []" using nx by argo
    then have "sched_id s \<notin> up_schedule_id ` set L" using L by fastforce
    moreover have "\<not> (\<exists>t. next_start s now t \<and> t \<le> dt_us now + DAY_US)" using False next_start_bounded_iff by blast
    ultimately show ?thesis by (auto simp: image_iff)
  qed
qed

subsection \<open>The resume time\<close>

text \<open>The schedules that hold back \<open>s\<close> when the device of each entry is not known: enabled,
  of higher priority, inside their window and on the same group.\<close>

definition blockers :: "schedule \<Rightarrow> schedule list \<Rightarrow> datetime \<Rightarrow> schedule list" where
  "blockers s ss now = filter (\<lambda>other. sched_id other \<noteq> sched_id s \<and> preempts other s now
     \<and> group_id s \<noteq> None \<and> group_id other = group_id s) ss"

lemma find_resume_blockers:
  "find_resume_time s ss now None
     = map_option dt_time (champion later (map (\<lambda>other. resume_end other now) (blockers s ss now)) None)"
proof -
  have "[resume_end other now. other \<leftarrow> ss, sched_id other \<noteq> sched_id s,
      preempts other s now, group_id s \<noteq> None \<and> group_id other = group_id s]
    = map (\<lambda>other. resume_end other now) (blockers s ss now)" for ss
    by (induction ss) (auto simp: blockers_def)
  then show ?thesis by (simp add: find_resume_time_def)
qed

lemma find_resume_None: "find_resume_time s ss now None = None \<longleftrightarrow> blockers s ss now = []"
  by (simp add: find_resume_blockers latest.champion_None)

lemma find_resume_Some:
  assumes "find_resume_time s ss now None = Some r"
  shows "\<exists>other \<in> set (blockers s ss now). end_time other = r
    \<and> (\<forall>x \<in> set (blockers s ss now). resume_end x now \<le> resume_end other now)"
proof -
  obtain e where "champion later (map (\<lambda>other. resume_end other now) (blockers s ss now)) None = Some e"
    and r: "dt_time e = r"
    using assms by (auto simp: find_resume_blockers)
  then have e: "e \<in> set (map (\<lambda>other. resume_end other now) (blockers s ss now))"
    and best: "\<forall>x \<in> set (map (\<lambda>other. resume_end other now) (blockers s ss now)). \<not> later x (Some e)"
    using latest.champion_best by blast+
  from e obtain other where "other \<in> set (blockers s ss now)" "e = resume_end other now" by auto
  moreover have "dt_time (resume_end x now) = end_time x" for x by (simp add: resume_end_def)
  ultimately show ?thesis using best r by (auto simp: later_def not_less)
qed

section \<open>Properties\<close>

text \<open>
  C17. The Coming Up list is complete, exact and sorted. For distinct, valid schedules and a
  clock after the first day of the calendar the call raises at most on its last two days, and then an overflow. Otherwise
  the list is ordered by its countdown, holds at most one entry per
  schedule, and an enabled schedule whose window has a length and that is outside all of its windows is listed exactly when
  its next occurrence starts within 24 hours, with that start as the countdown in whole
  seconds. An occurrence obeys the weekdays and the date range. A window whose end is its start has no
  occurrence; the function lists it all the same, as \<open>zero_length_is_announced\<close> shows.
\<close>

theorem upcoming_list_exact:
  assumes "distinct (map sched_id ss)" and "\<forall>s \<in> set ss. valid_schedule s"
    and "valid_datetime now" and "date_min < dt_date now"
  shows "case get_upcoming_schedules ss now args of
      Inl x \<Rightarrow> x = OverflowError \<and> date_max \<le> dt_date now + 1
    | Inr L \<Rightarrow> sorted (map up_starts_in_seconds L) \<and> distinct (map up_schedule_id L)
      \<and> (\<forall>s \<in> set ss. enabled s \<longrightarrow> start_time s \<noteq> end_time s \<longrightarrow> dt_us now \<notin> covers s \<longrightarrow>
          (sched_id s \<in> up_schedule_id ` set L
             \<longleftrightarrow> (\<exists>t. next_start s now t \<and> t \<le> dt_us now + DAY_US))
          \<and> (\<forall>e \<in> set L. up_schedule_id e = sched_id s \<longrightarrow>
                (\<exists>t. next_start s now t \<and> up_starts_in_seconds e = (t - dt_us now) div 1000000)))"
proof (cases "get_upcoming_schedules ss now args")
  case (Inl x)
  then show ?thesis using get_upcoming_Inl [OF Inl assms(2-4)] by simp
next
  case (Inr L)
  have "sched_id s \<in> up_schedule_id ` set L \<longleftrightarrow> (\<exists>t. next_start s now t \<and> t \<le> dt_us now + DAY_US)"
    "e \<in> set L \<Longrightarrow> up_schedule_id e = sched_id s \<Longrightarrow>
       \<exists>t. next_start s now t \<and> up_starts_in_seconds e = (t - dt_us now) div 1000000"
    if s: "s \<in> set ss" "enabled s" "start_time s \<noteq> end_time s" "dt_us now \<notin> covers s" for s e
    using listed_exactly [OF assms(1) s(1) _ assms(3,4) s(2,4) Inr s(3)] assms(2) s(1) by blast+
  moreover have "sorted (map up_starts_in_seconds L)" by (simp add: get_upcoming_Inr(1) [OF Inr])
  ultimately show ?thesis using distinct_get_upcoming [OF assms(1) Inr] by (simp add: Inr)
qed

text \<open>
  The resume hint is sound and complete at group granularity: no hint is given exactly when
  no enabled, active schedule of higher priority targets the same group, and a hint is the end
  time of one of those, the one whose end the function puts last.
\<close>

theorem find_resume_time_sound:
  "(find_resume_time s ss now None = None \<longleftrightarrow> blockers s ss now = [])
   \<and> (\<forall>r. find_resume_time s ss now None = Some r \<longrightarrow>
        (\<exists>other \<in> set (blockers s ss now). end_time other = r
           \<and> (\<forall>x \<in> set (blockers s ss now). resume_end x now \<le> resume_end other now)))"
  using find_resume_None find_resume_Some by blast

definition evening_show :: schedule where
  "evening_show = sample_schedule\<lparr>sched_id := ''a'', priority := 1, days_of_week := None\<rparr>"

definition night_show :: schedule where
  "night_show = evening_show\<lparr>sched_id := ''b'', priority := 2, start_time := Time 0 30 0 0,
     end_time := Time 3 0 0 0\<rparr>"

definition background_show :: schedule where
  "background_show = evening_show\<lparr>sched_id := ''p'', priority := 0, start_time := Time 0 0 0 0,
     end_time := Time 23 0 0 0\<rparr>"

theorem find_resume_time_sound_witness:
  "(find_resume_time background_show [background_show, night_show] sample_now None = None
      \<longleftrightarrow> blockers background_show [background_show, night_show] sample_now = [])
   \<and> find_resume_time background_show [background_show, night_show] sample_now None
       = Some (Time 3 0 0 0)
   \<and> (\<exists>other \<in> set (blockers background_show [background_show, night_show] sample_now).
        end_time other = Time 3 0 0 0)"
proof -
  have r: "find_resume_time background_show [background_show, night_show] sample_now None
       = Some (Time 3 0 0 0)" by code_simp
  show ?thesis
    using find_resume_time_sound [of background_show "[background_show, night_show]" sample_now] r
    by blast
qed

text \<open>
  The hint can be too early after midnight. A schedule from 22:00 to 02:00 that began
  yesterday is treated at 01:00 as ending tomorrow, so it outranks one that ends at 03:00
  today; the hint says 02:00, and at 02:00 the second schedule still preempts.
\<close>

theorem find_resume_time_early:
  "find_resume_time background_show [background_show, evening_show, night_show]
     (Datetime 737998 (Time 1 0 0 0)) None = Some (Time 2 0 0 0)
   \<and> night_show \<in> set (blockers background_show [background_show, evening_show, night_show]
        (Datetime 737998 (Time 2 0 0 0)))"
  by code_simp

text \<open>A schedule that ends when it starts never plays, and is announced.\<close>

theorem zero_length_is_announced:
  "covers (evening_show\<lparr>end_time := Time 22 0 0 0\<rparr>) = {}
   \<and> map_option (map up_starts_in_seconds)
       (case get_upcoming_schedules [evening_show\<lparr>end_time := Time 22 0 0 0\<rparr>] (Datetime 737997 (Time 8 0 0 0))
          \<lparr>ua_now_playing = None, ua_skipped_ids = [], ua_per_device_skipped = [], ua_targets = None\<rparr> of
          Inl _ \<Rightarrow> None | Inr L \<Rightarrow> Some L) = Some [50400]"
proof (rule conjI)
  show "covers (evening_show\<lparr>end_time := Time 22 0 0 0\<rparr>) = {}"
    by (auto simp: covers_def occurrence_def evening_show_def sample_schedule_def)
qed code_simp

theorem upcoming_list_exact_witness:
  "\<exists>L. get_upcoming_schedules [sample_schedule, sample_tuesday] (Datetime 737997 (Time 8 0 0 0))
       \<lparr>ua_now_playing = None, ua_skipped_ids = [], ua_per_device_skipped = [], ua_targets = None\<rparr> = Inr L
     \<and> map up_starts_in_seconds L = [50400, 61200]
     \<and> sorted (map up_starts_in_seconds L) \<and> distinct (map up_schedule_id L)
     \<and> (\<exists>t. next_start sample_schedule (Datetime 737997 (Time 8 0 0 0)) t
           \<and> t \<le> dt_us (Datetime 737997 (Time 8 0 0 0)) + DAY_US)"
proof -
  let ?now = "Datetime 737997 (Time 8 0 0 0)"
  let ?args = "\<lparr>ua_now_playing = None, ua_skipped_ids = [], ua_per_device_skipped = [], ua_targets = None\<rparr>"
  let ?ss = "[sample_schedule, sample_tuesday]"
  define R where "R = get_upcoming_schedules ?ss ?now ?args"
  have ev: "map_option (\<lambda>L. (map up_starts_in_seconds L, map up_schedule_id L)) (case R of Inl _ \<Rightarrow> None | Inr L \<Rightarrow> Some L)
      = Some ([50400, 61200], [''s1'', ''s2''])"
    "matches_at sample_schedule ?now = Inr False"
    unfolding R_def by code_simp+
  then obtain L where L: "R = Inr L" "map up_starts_in_seconds L = [50400, 61200]" "map up_schedule_id L = [''s1'', ''s2'']"
    by (auto split: sum.splits)
  have valid: "valid_schedule sample_schedule" "valid_schedule sample_tuesday" "valid_datetime ?now"
    "date_min < dt_date ?now" "enabled sample_schedule" "sched_id sample_schedule = ''s1''"
    "start_time sample_schedule \<noteq> end_time sample_schedule"
    by code_simp+
  then have out: "dt_us ?now \<notin> covers sample_schedule"
    using ev(2) matches_at_iff [OF valid(1,3,4)] by simp
  have "distinct (map sched_id ?ss)" by code_simp
  from upcoming_list_exact [OF this _ valid(3,4), of ?args] valid out
  have "sorted (map up_starts_in_seconds L)" "distinct (map up_schedule_id L)"
    "''s1'' \<in> up_schedule_id ` set L \<longleftrightarrow> (\<exists>t. next_start sample_schedule ?now t \<and> t \<le> dt_us ?now + DAY_US)"
    by (simp_all add: R_def [symmetric] L(1))
  moreover have "''s1'' \<in> set (map up_schedule_id L)" by (simp add: L)
  ultimately have "\<exists>t. next_start sample_schedule ?now t \<and> t \<le> dt_us ?now + DAY_US" by simp
  then show ?thesis using L R_def by (intro exI [of _ L]) simp
qed

end
