(* ===== verification/Config_Validation.thy ===== *)
theory Config_Validation
  imports Now_Playing
begin

text \<open>
  Validation of a device's effective configuration,
  \<^verbatim>\<open>cms/services/device_config_validation.py\<close>: the conflicts among the schedules that reach a
  device, their split into introduced and preexisting ones, the capability gates, and
  \<^verbatim>\<open>validate_device_transition\<close>, which a change of a device's tags goes through. The theorems justify the module's claim that, once equal-priority overlaps are
  refused, the schedule a device plays is the unique one of strictly highest priority.
\<close>

section \<open>Definitions\<close>

record conflict_pair =
  schedule_a_id :: string
  schedule_a_name :: string
  schedule_b_id :: string
  schedule_b_name :: string
  pair_priority :: int

definition sorted_pair :: "string \<Rightarrow> string \<Rightarrow> string \<times> string" where
  "sorted_pair a b = (if b < a then (b, a) else (a, b))"

definition pair_key :: "conflict_pair \<Rightarrow> string \<times> string" where
  "pair_key p = sorted_pair (schedule_a_id p) (schedule_b_id p)"

record capability_failure =
  cf_schedule_id :: string
  cf_schedule_name :: string
  cf_asset_type :: string
  required_capability :: string
  cf_reason :: string

record device_validation_result =
  dvr_device_id :: string
  introduced_conflicts :: "conflict_pair list"
  preexisting_conflicts :: "conflict_pair list"
  capability_failures :: "capability_failure list"

definition dvr_is_blocked :: "device_validation_result \<Rightarrow> bool" where
  "dvr_is_blocked r \<longleftrightarrow> introduced_conflicts r \<noteq> [] \<or> capability_failures r \<noteq> []"

definition has_warnings :: "device_validation_result \<Rightarrow> bool" where
  "has_warnings r \<longleftrightarrow> preexisting_conflicts r \<noteq> []"

text \<open>\<^verbatim>\<open>SetValidationResult\<close> is its one field, the dictionary of device results.\<close>

type_synonym set_validation_result = "(string, device_validation_result) dict"

definition svr_is_blocked :: "set_validation_result \<Rightarrow> bool" where
  "svr_is_blocked r = list_ex (\<lambda>(did, dr). dvr_is_blocked dr) r"

definition blocked_devices :: "set_validation_result \<Rightarrow> device_validation_result list" where
  "blocked_devices r = filter dvr_is_blocked (map snd r)"

definition all_introduced_conflicts :: "set_validation_result \<Rightarrow> conflict_pair list" where
  "all_introduced_conflicts r =
     map snd (fold (\<lambda>c seen. dict_set (pair_key c) c seen)
       (concat (map (introduced_conflicts \<circ> snd) r)) [])"

record device_targeting =
  dt_group_id :: "string option"
  dt_tag_ids :: "string list"

subsection \<open>Pure core\<close>

definition conflict_pair_of :: "int \<Rightarrow> schedule \<Rightarrow> schedule \<Rightarrow> conflict_pair" where
  "conflict_pair_of p a b = \<lparr>schedule_a_id = sched_id a, schedule_a_name = sched_name a,
     schedule_b_id = sched_id b, schedule_b_name = sched_name b, pair_priority = p\<rparr>"

text \<open>The two nested loops visit \<open>conflict_candidates\<close> in this order; an exception from the
  overlap test leaves the function.\<close>

definition conflict_candidates :: "schedule list \<Rightarrow> (int \<times> schedule \<times> schedule) list" where
  "conflict_candidates ss =
     concat (map (\<lambda>(p, bucket). map (Pair p) (combinations2 bucket))
       (group_by priority (filter enabled ss)))"

fun collect_conflicts ::
  "(int \<times> schedule \<times> schedule) list \<Rightarrow> (string \<times> string, conflict_pair) dict
   \<Rightarrow> (string \<times> string, conflict_pair) dict result" where
  "collect_conflicts [] m = Inr m"
| "collect_conflicts ((p, a, b) # cs) m =
     result_bind (schedules_overlap a b) (\<lambda>o_lap.
       collect_conflicts cs
         (if o_lap then dict_set (pair_key (conflict_pair_of p a b)) (conflict_pair_of p a b) m else m))"

definition find_effective_conflicts ::
  "schedule list \<Rightarrow> (string \<times> string, conflict_pair) dict result" where
  "find_effective_conflicts ss = collect_conflicts (conflict_candidates ss) []"

definition diff_conflicts ::
  "(string \<times> string, conflict_pair) dict \<Rightarrow> (string \<times> string, conflict_pair) dict
   \<Rightarrow> conflict_pair list \<times> conflict_pair list" where
  "diff_conflicts before after =
     (map snd (filter (\<lambda>(k, p). k \<notin> fst ` set before) after),
      map snd (filter (\<lambda>(k, p). k \<in> fst ` set before) after))"

definition is_pi5_compatible :: "string \<Rightarrow> bool" where
  "is_pi5_compatible dtype \<longleftrightarrow> dtype \<noteq> '''' \<and>
     (contains_text ''pi 5'' (lower_text dtype)
      \<or> contains_text ''compute module 5'' (lower_text dtype))"

definition CAPABILITY_SLIDESHOW_V1 :: string where
  "CAPABILITY_SLIDESHOW_V1 = ''slideshow_v1''"

definition CAPABILITY_SLIDESHOW_COMPOSED_V1 :: string where
  "CAPABILITY_SLIDESHOW_COMPOSED_V1 = ''slideshow_composed_v1''"

definition capability_failure_of :: "schedule \<Rightarrow> asset \<Rightarrow> string \<Rightarrow> string \<Rightarrow> capability_failure" where
  "capability_failure_of s a cap reason = \<lparr>cf_schedule_id = sched_id s, cf_schedule_name = sched_name s,
     cf_asset_type = asset_type_value (asset_type_of a), required_capability = cap, cf_reason = reason\<rparr>"

definition capability_failure_for ::
  "string \<Rightarrow> string list \<Rightarrow> string list \<Rightarrow> schedule \<Rightarrow> asset \<Rightarrow> capability_failure list" where
  "capability_failure_for dtype caps composed_ids s a =
     (if asset_type_of a \<in> {WEBPAGE, STREAM} then
        (if is_pi5_compatible dtype then []
         else [capability_failure_of s a ''raspberry_pi_5''
           (quoted (filename a) @ '' requires a Raspberry Pi 5 or newer; device type is ''
            @ (if dtype = '''' then ''unknown'' else dtype) @ ''.'')])
      else if asset_type_of a = SLIDESHOW then
        (if CAPABILITY_SLIDESHOW_V1 \<notin> set caps then
           [capability_failure_of s a CAPABILITY_SLIDESHOW_V1
             (quoted (filename a) @ '' is a slideshow but the device does not advertise ''
              @ quoted CAPABILITY_SLIDESHOW_V1 @ ''.'')]
         else if asset_id a \<in> set composed_ids \<and> CAPABILITY_SLIDESHOW_COMPOSED_V1 \<notin> set caps then
           [capability_failure_of s a CAPABILITY_SLIDESHOW_COMPOSED_V1
             (quoted (filename a) @ '' contains a composed slide but the device does not advertise ''
              @ quoted CAPABILITY_SLIDESHOW_COMPOSED_V1 @ ''.'')]
         else [])
      else [])"

definition capability_failures_for_device ::
  "string \<Rightarrow> string list \<Rightarrow> schedule list \<Rightarrow> string list \<Rightarrow> capability_failure list" where
  "capability_failures_for_device dtype caps ss composed_ids =
     concat (map (\<lambda>s. if \<not> enabled s then []
        else case sched_asset s of None \<Rightarrow> [] | Some a \<Rightarrow> capability_failure_for dtype caps composed_ids s a) ss)"

definition validate_device_effective_config ::
  "string \<Rightarrow> string \<Rightarrow> string list \<Rightarrow> schedule list option \<Rightarrow> schedule list \<Rightarrow> string list
   \<Rightarrow> device_validation_result result" where
  "validate_device_effective_config did dtype caps before_schedules after_schedules composed_ids =
     result_bind (find_effective_conflicts after_schedules) (\<lambda>after_conflicts.
     result_bind (case before_schedules of None \<Rightarrow> Inr [] | Some bs \<Rightarrow> find_effective_conflicts bs)
       (\<lambda>before_conflicts.
       let (introduced, preexisting) = diff_conflicts before_conflicts after_conflicts
       in Inr \<lparr>dvr_device_id = did, introduced_conflicts = introduced,
            preexisting_conflicts = preexisting,
            capability_failures =
              capability_failures_for_device dtype caps after_schedules composed_ids\<rparr>))"

subsection \<open>Orchestration\<close>

definition load_enabled_schedules_by_group ::
  "schedule list \<Rightarrow> string list \<Rightarrow> (string, schedule list) dict" where
  "load_enabled_schedules_by_group ss group_ids =
     (if group_ids = [] then []
      else group_by (\<lambda>s. the (group_id s))
        (filter (\<lambda>s. (case group_id s of None \<Rightarrow> False | Some g \<Rightarrow> g \<in> set group_ids) \<and> enabled s) ss))"

definition effective_schedules ::
  "device_targeting \<Rightarrow> (string, schedule list) dict \<Rightarrow> schedule list" where
  "effective_schedules targeting by_group =
     (case dt_group_id targeting of
        None \<Rightarrow> []
      | Some g \<Rightarrow> filter (\<lambda>s. case tag_id s of None \<Rightarrow> True | Some t \<Rightarrow> t \<in> set (dt_tag_ids targeting))
          (case map_of by_group g of None \<Rightarrow> [] | Some ss \<Rightarrow> ss))"

definition transition_groups ::
  "(string, device_targeting) dict \<Rightarrow> (string, device_targeting) dict \<Rightarrow> string list" where
  "transition_groups after before =
     remdups (List.map_filter (\<lambda>(did, t). dt_group_id t) (after @ before))"

fun validate_each ::
  "(string, device) dict \<Rightarrow> (string, schedule list) dict \<Rightarrow> (string, device_targeting) dict
   \<Rightarrow> string list \<Rightarrow> (string \<times> device_targeting) list \<Rightarrow> set_validation_result
   \<Rightarrow> set_validation_result result" where
  "validate_each devices_by_id by_group before composed_ids [] results = Inr results"
| "validate_each devices_by_id by_group before composed_ids ((did, after_targeting) # rest) results =
     (case map_of devices_by_id did of
        None \<Rightarrow> validate_each devices_by_id by_group before composed_ids rest results
      | Some d \<Rightarrow>
          result_bind
            (validate_device_effective_config did (device_type d) (capabilities d)
              (map_option (\<lambda>bt. effective_schedules bt by_group) (map_of before did))
              (effective_schedules after_targeting by_group) composed_ids)
            (\<lambda>r. validate_each devices_by_id by_group before composed_ids rest (dict_set did r results)))"

definition validate_device_transition ::
  "cms_db \<Rightarrow> (string, device_targeting) dict \<Rightarrow> (string, device_targeting) dict \<Rightarrow> string list
   \<Rightarrow> set_validation_result result" where
  "validate_device_transition db after before composed_ids =
     (let by_group = load_enabled_schedules_by_group (schedules db) (transition_groups after before);
          devices_by_id = fold (\<lambda>d m. dict_set (dev_id d) d m)
            (filter (\<lambda>d. dev_id d \<in> fst ` set after \<and> dev_status d = ADOPTED) (devices db)) []
      in validate_each devices_by_id by_group before composed_ids after [])"

definition current_device_targeting :: "cms_db \<Rightarrow> string \<Rightarrow> device_targeting" where
  "current_device_targeting db did =
     \<lparr>dt_group_id = (case List.find (\<lambda>d. dev_id d = did) (devices db) of
          None \<Rightarrow> None | Some d \<Rightarrow> dev_group_id d),
      dt_tag_ids = remdups (map fst (filter (\<lambda>(t, d). d = did) (tag_assignments db)))\<rparr>"

definition describe_conflicts :: "conflict_pair list \<Rightarrow> string" where
  "describe_conflicts pairs = join_text ''; ''
     (map (\<lambda>p. quoted (schedule_a_name p) @ '' vs '' @ quoted (schedule_b_name p)
        @ '' (priority '' @ int_text (pair_priority p) @ '')'') pairs)"

section \<open>Specification\<close>

text \<open>Two schedules conflict on a device they both reach when they are enabled, of equal
  priority, and some instant is covered by both.\<close>

definition conflict :: "schedule \<Rightarrow> schedule \<Rightarrow> bool" where
  "conflict a b \<longleftrightarrow> enabled a \<and> enabled b \<and> a \<noteq> b \<and> priority a = priority b
     \<and> (\<exists>t. t \<in> covers a \<and> t \<in> covers b)"

text \<open>The enabled schedules that reach a device with the given group and tags.\<close>

definition reach :: "schedule list \<Rightarrow> device_targeting \<Rightarrow> schedule set" where
  "reach ss t = {s \<in> set ss. enabled s \<and> group_id s \<noteq> None \<and> group_id s = dt_group_id t
     \<and> (case tag_id s of None \<Rightarrow> True | Some g \<Rightarrow> g \<in> set (dt_tag_ids t))}"

definition schedules_ok :: "schedule list \<Rightarrow> bool" where
  "schedules_ok ss \<longleftrightarrow> distinct (map sched_id ss) \<and> (\<forall>s \<in> set ss. valid_schedule s \<and> inner_dates s)"

section \<open>Lemmas\<close>

lemma schedules_ok_filter [intro]: "schedules_ok ss \<Longrightarrow> schedules_ok (filter P ss)"
  by (auto simp: schedules_ok_def distinct_map_filter)

lemma schedules_ok_distinct: "schedules_ok ss \<Longrightarrow> distinct ss"
  by (simp add: schedules_ok_def distinct_map)

lemma overlap_decides:
  assumes "schedules_ok ss" "a \<in> set ss" "b \<in> set ss"
  shows "schedules_overlap a b = Inr (covers a \<inter> covers b \<noteq> {})"
proof -
  have v: "valid_schedule a" "valid_schedule b" "inner_dates a" "inner_dates b"
    using assms by (auto simp: schedules_ok_def)
  have "valid_date (dt_date dt)" if "start_date a = Some dt" for dt
    using inner_dates_Some(1) [OF v(3) that] by (simp add: valid_date_def)
  from schedules_overlap_result [OF v(1,2) this] show ?thesis
    using schedules_overlap_total [OF v(3,4)] by auto
qed

lemma sorted_pair_commute: "sorted_pair a b = sorted_pair b a"
  by (auto simp: sorted_pair_def)

lemma sorted_pair_inject:
  "sorted_pair a b = sorted_pair c d \<Longrightarrow> a = c \<and> b = d \<or> a = d \<and> b = c"
  by (auto simp: sorted_pair_def split: if_splits)

lemma pair_key_of [simp]: "pair_key (conflict_pair_of p a b) = sorted_pair (sched_id a) (sched_id b)"
  by (simp add: pair_key_def conflict_pair_of_def)

lemma mem_conflict_candidates:
  "(p, a, b) \<in> set (conflict_candidates ss)
     \<longleftrightarrow> (a, b) \<in> set (combinations2 (filter (\<lambda>s. priority s = p) (filter enabled ss)))"
proof -
  have "(p, a, b) \<in> set (conflict_candidates ss)
      \<longleftrightarrow> (\<exists>bucket. (p, bucket) \<in> set (group_by priority (filter enabled ss)) \<and> (a, b) \<in> set (combinations2 bucket))"
    by (force simp: conflict_candidates_def)
  also have "\<dots> \<longleftrightarrow> (a, b) \<in> set (combinations2 (filter (\<lambda>s. priority s = p) (filter enabled ss)))"
    unfolding mem_group_by by (cases "filter (\<lambda>s. priority s = p) (filter enabled ss)") auto
  finally show ?thesis .
qed

lemma collect_conflicts_keys:
  assumes "\<And>p a b. (p, a, b) \<in> set cs \<Longrightarrow> schedules_overlap a b = Inr (Q a b)"
  shows "\<exists>m'. collect_conflicts cs m = Inr m'
    \<and> fst ` set m' = fst ` set m \<union> {sorted_pair (sched_id a) (sched_id b) |p a b. (p, a, b) \<in> set cs \<and> Q a b}"
  using assms
proof (induction cs m rule: collect_conflicts.induct)
  case (2 p a b cs m)
  let ?m = "if Q a b then dict_set (pair_key (conflict_pair_of p a b)) (conflict_pair_of p a b) m else m"
  have "schedules_overlap a b = Inr (Q a b)" by (rule "2.prems" [of p]) simp
  moreover have "\<exists>m'. collect_conflicts cs ?m = Inr m' \<and> fst ` set m' = fst ` set ?m
      \<union> {sorted_pair (sched_id a) (sched_id b) |p a b. (p, a, b) \<in> set cs \<and> Q a b}"
    by (rule "2.IH") (use "2.prems" in \<open>auto simp: calculation\<close>)
  moreover have "fst ` set ?m = fst ` set m \<union> (if Q a b then {sorted_pair (sched_id a) (sched_id b)} else {})"
    by (simp add: keys_dict_set)
  moreover have "{sorted_pair (sched_id a') (sched_id b') |p' a' b'. (p', a', b') \<in> set ((p, a, b) # cs) \<and> Q a' b'}
      = (if Q a b then {sorted_pair (sched_id a) (sched_id b)} else {})
        \<union> {sorted_pair (sched_id a) (sched_id b) |p a b. (p, a, b) \<in> set cs \<and> Q a b}" by auto
  ultimately show ?case by (simp add: Un_assoc)
qed simp

lemma candidates_complete:
  assumes "distinct ss"
  shows "{sorted_pair (sched_id a) (sched_id b) |p a b.
      (p, a, b) \<in> set (conflict_candidates ss) \<and> covers a \<inter> covers b \<noteq> {}}
    = {sorted_pair (sched_id a) (sched_id b) |a b. a \<in> set ss \<and> b \<in> set ss \<and> conflict a b}"
    (is "?L = ?R")
proof
  show "?L \<subseteq> ?R"
  proof
    fix k assume "k \<in> ?L"
    then obtain p a b where k: "k = sorted_pair (sched_id a) (sched_id b)"
      and ab: "(a, b) \<in> set (combinations2 (filter (\<lambda>s. priority s = p) (filter enabled ss)))"
      and "covers a \<inter> covers b \<noteq> {}" unfolding mem_conflict_candidates by blast
    moreover have "a \<noteq> b" using combinations2_neq [OF _ ab] assms by simp
    ultimately have "a \<in> set ss \<and> b \<in> set ss \<and> conflict a b"
      using mem_combinations2 [OF ab] by (auto simp: conflict_def)
    then show "k \<in> ?R" using k by blast
  qed
  show "?R \<subseteq> ?L"
  proof
    fix k assume "k \<in> ?R"
    then obtain a b where ab: "a \<in> set ss" "b \<in> set ss" "conflict a b"
      and k: "k = sorted_pair (sched_id a) (sched_id b)" by auto
    then have "(a, b) \<in> set (combinations2 (filter (\<lambda>s. priority s = priority a) (filter enabled ss)))
        \<or> (b, a) \<in> set (combinations2 (filter (\<lambda>s. priority s = priority a) (filter enabled ss)))"
      by (intro combinations2_covers) (auto simp: conflict_def)
    moreover have "covers a \<inter> covers b \<noteq> {}" "covers b \<inter> covers a \<noteq> {}"
      using ab(3) by (auto simp: conflict_def)
    moreover have "k = sorted_pair (sched_id b) (sched_id a)" using k sorted_pair_commute by simp
    ultimately show "k \<in> ?L" using k unfolding mem_conflict_candidates by blast
  qed
qed

lemma find_effective_conflicts_exact:
  assumes "schedules_ok ss"
  shows "\<exists>m. find_effective_conflicts ss = Inr m
    \<and> fst ` set m = {sorted_pair (sched_id a) (sched_id b) |a b. a \<in> set ss \<and> b \<in> set ss \<and> conflict a b}"
proof -
  have "schedules_overlap a b = Inr (covers a \<inter> covers b \<noteq> {})"
    if "(p, a, b) \<in> set (conflict_candidates ss)" for p a b
    using that mem_combinations2 overlap_decides [OF assms]
    unfolding mem_conflict_candidates by fastforce
  from collect_conflicts_keys [of "conflict_candidates ss" "\<lambda>a b. covers a \<inter> covers b \<noteq> {}" "[]", OF this]
  show ?thesis
    unfolding find_effective_conflicts_def candidates_complete [OF schedules_ok_distinct [OF assms]]
    by simp
qed

subsection \<open>The effective set\<close>

lemma effective_schedules_eq:
  assumes "\<And>g. dt_group_id t = Some g \<Longrightarrow> g \<in> set gids"
  shows "effective_schedules t (load_enabled_schedules_by_group ss gids)
    = filter (\<lambda>s. s \<in> reach ss t) ss"
proof (cases "dt_group_id t")
  case None
  then show ?thesis by (auto simp: effective_schedules_def reach_def intro: filter_False [symmetric])
next
  case (Some g)
  then have g: "g \<in> set gids" using assms by simp
  then have ne: "gids \<noteq> []" by auto
  let ?ss = "filter (\<lambda>s. (case group_id s of None \<Rightarrow> False | Some g \<Rightarrow> g \<in> set gids) \<and> enabled s) ss"
  have eq: "filter (\<lambda>s. the (group_id s) = g) ?ss = filter (\<lambda>s. enabled s \<and> group_id s = Some g) ss"
    unfolding filter_filter by (rule filter_cong [OF refl]) (use g in \<open>auto split: option.splits\<close>)
  have "(case map_of (load_enabled_schedules_by_group ss gids) g of None \<Rightarrow> [] | Some x \<Rightarrow> x)
      = filter (\<lambda>s. enabled s \<and> group_id s = Some g) ss"
    using ne eq by (simp add: load_enabled_schedules_by_group_def map_of_group_by)
  then show ?thesis
    unfolding effective_schedules_def Some option.case reach_def
    by (auto simp: filter_filter Some intro!: filter_cong)
qed

lemma transition_groups_covers:
  "(did, t) \<in> set after \<union> set before \<Longrightarrow> dt_group_id t = Some g \<Longrightarrow> g \<in> set (transition_groups after before)"
  by (force simp: transition_groups_def map_filter_def)

lemma effective_ok: "schedules_ok ss \<Longrightarrow> schedules_ok (filter (\<lambda>s. s \<in> reach ss t) ss)"
  by blast

subsection \<open>The orchestrator\<close>

lemma config_total:
  assumes "schedules_ok after" "\<And>bs. before = Some bs \<Longrightarrow> schedules_ok bs"
  shows "\<exists>dr. validate_device_effective_config did dtype caps before after composed_ids = Inr dr"
proof -
  obtain m where "find_effective_conflicts after = Inr m"
    using find_effective_conflicts_exact [OF assms(1)] by blast
  moreover obtain m' where
    "(case before of None \<Rightarrow> Inr [] | Some bs \<Rightarrow> find_effective_conflicts bs) = Inr m'"
    using find_effective_conflicts_exact assms(2) by (cases before) fastforce+
  ultimately show ?thesis
    by (simp add: validate_device_effective_config_def split: prod.splits)
qed

lemma validate_each_other:
  "validate_each devs bg before cids todo results = Inr r \<Longrightarrow> did \<notin> fst ` set todo
     \<Longrightarrow> map_of r did = map_of results did"
  by (induction devs bg before cids todo results rule: validate_each.induct)
     (auto simp: result_bind_eq_Inr split: option.splits)

lemma validate_each_skips:
  "validate_each devs bg before cids todo results = Inr r \<Longrightarrow> map_of devs did = None
     \<Longrightarrow> map_of r did = map_of results did"
  by (induction devs bg before cids todo results rule: validate_each.induct)
     (auto simp: result_bind_eq_Inr split: option.splits)

lemma validate_each_mem:
  assumes "validate_each devs bg before cids todo results = Inr r" "distinct (map fst todo)"
    and "(did, t) \<in> set todo" "map_of devs did = Some d"
  shows "\<exists>dr. map_of r did = Some dr
    \<and> validate_device_effective_config did (device_type d) (capabilities d)
        (map_option (\<lambda>bt. effective_schedules bt bg) (map_of before did))
        (effective_schedules t bg) cids = Inr dr"
  using assms
proof (induction devs bg before cids todo results rule: validate_each.induct)
  case (2 devs bg before cids did' t' rest results)
  show ?case
  proof (cases "did' = did")
    case True
    then have "t' = t" using "2.prems"(2,3) by force
    then show ?thesis
      using "2.prems"(1,2,4) True validate_each_other [of devs bg before cids rest _ r did]
      by (fastforce simp: result_bind_eq_Inr)
  next
    case False
    then have "(did, t) \<in> set rest" using "2.prems"(3) by simp
    then show ?thesis
      using 2 by (auto simp: result_bind_eq_Inr split: option.splits)
  qed
qed simp

lemma validate_each_total:
  assumes "\<And>did t d. (did, t) \<in> set todo \<Longrightarrow> map_of devs did = Some d \<Longrightarrow>
    \<exists>dr. validate_device_effective_config did (device_type d) (capabilities d)
        (map_option (\<lambda>bt. effective_schedules bt bg) (map_of before did))
        (effective_schedules t bg) cids = Inr dr"
  shows "\<exists>r. validate_each devs bg before cids todo results = Inr r"
  using assms
proof (induction todo arbitrary: results)
  case (Cons dt todo)
  obtain did t where dt: "dt = (did, t)" by (cases dt)
  show ?case
  proof (cases "map_of devs did")
    case None
    then show ?thesis using Cons dt by simp
  next
    case (Some d)
    then obtain dr where "validate_device_effective_config did (device_type d) (capabilities d)
        (map_option (\<lambda>bt. effective_schedules bt bg) (map_of before did))
        (effective_schedules t bg) cids = Inr dr" using Cons.prems dt by fastforce
    moreover have "\<exists>r. validate_each devs bg before cids todo (dict_set did dr results) = Inr r"
      by (rule Cons.IH) (use Cons.prems in auto)
    ultimately show ?thesis using Some dt by simp
  qed
qed simp

lemma key_survives: "k \<in> fst ` set m \<Longrightarrow> filter (\<lambda>(k, p). k \<notin> K) m = [] \<Longrightarrow> k \<in> K"
  by (induction m) (auto split: if_splits)

text \<open>An unblocked device result: every conflict of the new effective set was there before.\<close>

lemma unblocked_config:
  assumes "validate_device_effective_config did dtype caps before after cids = Inr dr"
    and "introduced_conflicts dr = []" "schedules_ok after" "\<And>bs. before = Some bs \<Longrightarrow> schedules_ok bs"
    and "a \<in> set after" "b \<in> set after" "conflict a b"
  shows "\<exists>bs a' b'. before = Some bs \<and> a' \<in> set bs \<and> b' \<in> set bs \<and> conflict a' b'
    \<and> sorted_pair (sched_id a') (sched_id b') = sorted_pair (sched_id a) (sched_id b)"
proof -
  obtain m where m: "find_effective_conflicts after = Inr m"
    "fst ` set m = {sorted_pair (sched_id a) (sched_id b) |a b. a \<in> set after \<and> b \<in> set after \<and> conflict a b}"
    using find_effective_conflicts_exact [OF assms(3)] by blast
  obtain m0 where m0: "(case before of None \<Rightarrow> Inr [] | Some bs \<Rightarrow> find_effective_conflicts bs) = Inr m0"
    and dr: "introduced_conflicts dr = fst (diff_conflicts m0 m)"
    using assms(1) m(1)
    by (auto simp: validate_device_effective_config_def result_bind_eq_Inr Let_def case_prod_beta)
  have "sorted_pair (sched_id a) (sched_id b) \<in> fst ` set m" using m(2) assms(5-7) by blast
  moreover have "filter (\<lambda>(k, p). k \<notin> fst ` set m0) m = []"
    using assms(2) dr by (simp add: diff_conflicts_def)
  ultimately have in0: "sorted_pair (sched_id a) (sched_id b) \<in> fst ` set m0"
    by (rule key_survives)
  then obtain bs where bs: "before = Some bs" using m0 by (cases before) auto
  obtain m1 where "find_effective_conflicts bs = Inr m1"
    "fst ` set m1 = {sorted_pair (sched_id a) (sched_id b) |a b. a \<in> set bs \<and> b \<in> set bs \<and> conflict a b}"
    using find_effective_conflicts_exact [OF assms(4) [OF bs]] by blast
  then have "sorted_pair (sched_id a) (sched_id b)
      \<in> {sorted_pair (sched_id a) (sched_id b) |a b. a \<in> set bs \<and> b \<in> set bs \<and> conflict a b}"
    using in0 m0 bs by simp
  then obtain a' b' where "a' \<in> set bs" "b' \<in> set bs" "conflict a' b'"
    "sorted_pair (sched_id a') (sched_id b') = sorted_pair (sched_id a) (sched_id b)" by auto
  then show ?thesis using bs by blast
qed

text \<open>A blocked one: some conflict of the new effective set was not there before.\<close>

lemma blocked_config:
  assumes "validate_device_effective_config did dtype caps before after cids = Inr dr"
    and "introduced_conflicts dr \<noteq> []" "schedules_ok after" "\<And>bs. before = Some bs \<Longrightarrow> schedules_ok bs"
  shows "\<exists>a \<in> set after. \<exists>b \<in> set after. conflict a b \<and> (\<forall>bs. before = Some bs \<longrightarrow> \<not> (a \<in> set bs \<and> b \<in> set bs))"
proof -
  obtain m where m: "find_effective_conflicts after = Inr m"
    "fst ` set m = {sorted_pair (sched_id a) (sched_id b) |a b. a \<in> set after \<and> b \<in> set after \<and> conflict a b}"
    using find_effective_conflicts_exact [OF assms(3)] by blast
  obtain m0 where m0: "(case before of None \<Rightarrow> Inr [] | Some bs \<Rightarrow> find_effective_conflicts bs) = Inr m0"
    and dr: "introduced_conflicts dr = fst (diff_conflicts m0 m)"
    using assms(1) m(1)
    by (auto simp: validate_device_effective_config_def result_bind_eq_Inr Let_def case_prod_beta)
  obtain k where k: "k \<in> fst ` set m" "k \<notin> fst ` set m0"
  proof -
    obtain k p where "(k, p) \<in> set m" "k \<notin> fst ` set m0"
      using assms(2) dr by (auto simp: diff_conflicts_def filter_empty_conv)
    then show ?thesis using that [of k] by force
  qed
  then obtain a b where ab: "k = sorted_pair (sched_id a) (sched_id b)" "a \<in> set after" "b \<in> set after" "conflict a b"
    using m(2) by auto
  have "\<not> (a \<in> set bs \<and> b \<in> set bs)" if bs: "before = Some bs" for bs
  proof
    assume *: "a \<in> set bs \<and> b \<in> set bs"
    obtain m1 where "find_effective_conflicts bs = Inr m1"
      "fst ` set m1 = {sorted_pair (sched_id a) (sched_id b) |a b. a \<in> set bs \<and> b \<in> set bs \<and> conflict a b}"
      using find_effective_conflicts_exact [OF assms(4) [OF bs]] by blast
    then have "k \<in> fst ` set m0" using m0 bs ab(1,4) * by auto
    then show False using k(2) by simp
  qed
  then show ?thesis using ab(2-4) by blast
qed

text \<open>The device lookup of the orchestrator.\<close>

lemma map_of_device_fold:
  "distinct (map dev_id ds) \<Longrightarrow> map_of (fold (\<lambda>d m. dict_set (dev_id d) d m) ds m0) k =
     (case List.find (\<lambda>d. dev_id d = k) ds of Some d \<Rightarrow> Some d | None \<Rightarrow> map_of m0 k)"
proof (induction ds arbitrary: m0)
  case (Cons d ds)
  have "List.find (\<lambda>e. dev_id e = k) ds = None" if "dev_id d = k"
    using Cons.prems that by (auto simp: find_None_iff image_iff)
  then show ?case using Cons by (auto split: option.splits)
qed simp

lemma find_device:
  assumes "distinct (map dev_id ds)" "d \<in> set ds"
  shows "List.find (\<lambda>e. dev_id e = dev_id d) ds = Some d"
  using assms by (induction ds) (auto simp: image_iff)

lemma devices_by_id_lookup:
  assumes "distinct (map dev_id (devices db))" "d \<in> set (devices db)"
    and "dev_status d = ADOPTED" "(dev_id d, t) \<in> set after"
  shows "map_of (fold (\<lambda>d m. dict_set (dev_id d) d m)
      (filter (\<lambda>d. dev_id d \<in> fst ` set after \<and> dev_status d = ADOPTED) (devices db)) []) (dev_id d) = Some d"
proof -
  let ?ds = "filter (\<lambda>d. dev_id d \<in> fst ` set after \<and> dev_status d = ADOPTED) (devices db)"
  have "distinct (map dev_id ?ds)" using assms(1) by (simp add: distinct_map_filter)
  moreover have "d \<in> set ?ds" using assms(2-4) by force
  ultimately show ?thesis by (simp add: map_of_device_fold find_device)
qed

lemma reach_id_inject:
  assumes "schedules_ok ss" "a \<in> set ss" "b \<in> set ss" "sched_id a = sched_id b"
  shows "a = b"
  using assms by (auto simp: schedules_ok_def distinct_map inj_on_def)

subsection \<open>The validator and the scheduler agree on who is reached\<close>

lemma reach_current:
  assumes "distinct (map dev_id (devices db))" "d \<in> set (devices db)" "dev_status d = ADOPTED"
  shows "reach (schedules db) (current_device_targeting db (dev_id d))
    = {s \<in> set (schedules db). enabled s \<and> dev_id d \<in> targets s (devices db) (tag_assignments db)}"
proof -
  have "dev_id d \<in> targets s (devices db) (tag_assignments db)
      \<longleftrightarrow> group_id s \<noteq> None \<and> group_id s = dev_group_id d
        \<and> (case tag_id s of None \<Rightarrow> True | Some t \<Rightarrow> (t, dev_id d) \<in> set (tag_assignments db))" for s
  proof -
    have "e = d" if "e \<in> set (devices db)" "dev_id e = dev_id d" for e
      using assms(1,2) that by (auto simp: distinct_map inj_on_def)
    then show ?thesis using assms(2,3) unfolding targets_def by auto metis+
  qed
  moreover have "dt_group_id (current_device_targeting db (dev_id d)) = dev_group_id d"
    using find_device [OF assms(1,2)] by (simp add: current_device_targeting_def)
  moreover have "t \<in> set (dt_tag_ids (current_device_targeting db (dev_id d)))
      \<longleftrightarrow> (t, dev_id d) \<in> set (tag_assignments db)" for t
    by (force simp: current_device_targeting_def)
  ultimately show ?thesis
    unfolding reach_def by (auto split: option.splits)
qed

lemma strict_winner:
  assumes "d \<in> set (devices db)" and "dev_status d = ADOPTED" and "distinct (map dev_id (devices db))"
    and "\<forall>a \<in> reach (schedules db) (current_device_targeting db (dev_id d)).
           \<forall>b \<in> reach (schedules db) (current_device_targeting db (dev_id d)). \<not> conflict a b"
    and "plays db t (dev_id d) s" and "eligible db t (dev_id d) s'" and "s' \<noteq> s"
  shows "priority s' < priority s"
proof -
  have "s \<in> reach (schedules db) (current_device_targeting db (dev_id d))"
    "s' \<in> reach (schedules db) (current_device_targeting db (dev_id d))"
    using assms(5,6) unfolding reach_current [OF assms(3,1,2)] plays_def eligible_def by auto
  then have "\<not> conflict s' s" using assms(4) by blast
  then have "priority s' \<noteq> priority s"
    using assms(5-7) by (auto simp: conflict_def plays_def eligible_def)
  moreover have "schedule_wins s (Some s')" using assms(5-7) by (simp add: plays_def)
  ultimately show ?thesis by (auto simp: schedule_wins_def split: if_splits)
qed

section \<open>Properties\<close>

text \<open>One device's result: no conflict was introduced exactly when each was there before.\<close>

lemma transition_device:
  assumes "schedules_ok (schedules db)" and "distinct (map dev_id (devices db))" and "dict_ok after"
    and "validate_device_transition db after before composed_ids = Inr r"
    and d: "d \<in> set (devices db)" "dev_status d = ADOPTED" "(dev_id d, t) \<in> set after"
  shows "\<exists>dr. map_of r (dev_id d) = Some dr \<and> (introduced_conflicts dr = [] \<longleftrightarrow>
    (\<forall>a \<in> reach (schedules db) t. \<forall>b \<in> reach (schedules db) t. conflict a b \<longrightarrow>
       (\<exists>bt. map_of before (dev_id d) = Some bt \<and> {a, b} \<subseteq> reach (schedules db) bt)))"
proof -
  let ?bg = "load_enabled_schedules_by_group (schedules db) (transition_groups after before)"
  let ?devs = "fold (\<lambda>d m. dict_set (dev_id d) d m)
      (filter (\<lambda>d. dev_id d \<in> fst ` set after \<and> dev_status d = ADOPTED) (devices db)) []"
  have eff: "effective_schedules t ?bg = filter (\<lambda>s. s \<in> reach (schedules db) t) (schedules db)"
    if "(did, t) \<in> set after \<union> set before" for did t
    by (rule effective_schedules_eq) (rule transition_groups_covers [OF that])
  have ok: "schedules_ok (effective_schedules t ?bg)" if "(did, t) \<in> set after \<union> set before" for did t
    unfolding eff [OF that] by (rule effective_ok [OF assms(1)])
  have okb: "schedules_ok bs"
    if "map_option (\<lambda>bt. effective_schedules bt ?bg) (map_of before did) = Some bs" for did bs
    using that ok [of did] map_of_SomeD [of before did] by auto
  have r: "validate_each ?devs ?bg before composed_ids after [] = Inr r"
    using assms(4) by (simp add: validate_device_transition_def Let_def)
  have "distinct (map fst after)" using assms(3) by (simp add: dict_ok_def)
  from validate_each_mem [OF r this d(3) devices_by_id_lookup [OF assms(2) d]]
  obtain dr where dr: "map_of r (dev_id d) = Some dr"
    "validate_device_effective_config (dev_id d) (device_type d) (capabilities d)
      (map_option (\<lambda>bt. effective_schedules bt ?bg) (map_of before (dev_id d)))
      (effective_schedules t ?bg) composed_ids = Inr dr" by blast
  have "\<exists>bt. map_of before (dev_id d) = Some bt \<and> {a, b} \<subseteq> reach (schedules db) bt"
    if none: "introduced_conflicts dr = []"
      and ab: "a \<in> reach (schedules db) t" "b \<in> reach (schedules db) t" "conflict a b" for a b
  proof -
    have "a \<in> set (effective_schedules t ?bg)" "b \<in> set (effective_schedules t ?bg)"
      using ab d(3) by (auto simp: eff [of "dev_id d"] reach_def)
    then obtain bs a' b' where
      bs: "map_option (\<lambda>bt. effective_schedules bt ?bg) (map_of before (dev_id d)) = Some bs"
      and a'b': "a' \<in> set bs" "b' \<in> set bs"
      and key: "sorted_pair (sched_id a') (sched_id b') = sorted_pair (sched_id a) (sched_id b)"
      using unblocked_config [OF dr(2) none] ok [of "dev_id d" t] d(3) okb ab(3) by blast
    then obtain bt where bt: "map_of before (dev_id d) = Some bt" "bs = effective_schedules bt ?bg" by auto
    then have sub: "set bs \<subseteq> reach (schedules db) bt"
      using eff [of "dev_id d" bt] map_of_SomeD [OF bt(1)] by auto
    have "{a, b} = {a', b'}"
      using sorted_pair_inject [OF key] reach_id_inject [OF assms(1)] sub a'b' ab
      unfolding reach_def by blast
    then have "{a, b} \<subseteq> reach (schedules db) bt" using sub a'b' by simp blast
    then show ?thesis using bt(1) by blast
  qed
  moreover have "\<exists>a \<in> reach (schedules db) t. \<exists>b \<in> reach (schedules db) t. conflict a b
      \<and> \<not> (\<exists>bt. map_of before (dev_id d) = Some bt \<and> {a, b} \<subseteq> reach (schedules db) bt)"
    if some: "introduced_conflicts dr \<noteq> []"
  proof -
    obtain a b where ab: "a \<in> set (effective_schedules t ?bg)" "b \<in> set (effective_schedules t ?bg)" "conflict a b"
      "\<And>bs. map_option (\<lambda>bt. effective_schedules bt ?bg) (map_of before (dev_id d)) = Some bs \<Longrightarrow> \<not> (a \<in> set bs \<and> b \<in> set bs)"
      using blocked_config [OF dr(2) some] ok [of "dev_id d" t] d(3) okb by blast
    have "a \<in> reach (schedules db) t" "b \<in> reach (schedules db) t"
      using ab(1,2) d(3) by (auto simp: eff [of "dev_id d"])
    moreover have "\<not> {a, b} \<subseteq> reach (schedules db) bt" if bt: "map_of before (dev_id d) = Some bt" for bt
      using ab(4) bt eff [of "dev_id d" bt] map_of_SomeD [OF bt] by (auto simp: reach_def)
    ultimately show ?thesis using ab(3) by blast
  qed
  ultimately show ?thesis using dr(1) by blast
qed

text \<open>A device that is not adopted is not looked at.\<close>

lemma transition_unadopted:
  assumes "distinct (map dev_id (devices db))" "d \<in> set (devices db)" "dev_status d \<noteq> ADOPTED"
    and "validate_device_transition db after before composed_ids = Inr r"
  shows "map_of r (dev_id d) = None"
proof -
  let ?ds = "filter (\<lambda>d. dev_id d \<in> fst ` set after \<and> dev_status d = ADOPTED) (devices db)"
  let ?devs = "fold (\<lambda>d m. dict_set (dev_id d) d m) ?ds []"
  have "e = d" if "e \<in> set (devices db)" "dev_id e = dev_id d" for e
    using assms(1,2) that by (auto simp: distinct_map inj_on_def)
  then have "List.find (\<lambda>e. dev_id e = dev_id d) ?ds = None" using assms(3) by (auto simp: find_None_iff)
  moreover have "distinct (map dev_id ?ds)" using assms(1) by (simp add: distinct_map_filter)
  ultimately have "map_of ?devs (dev_id d) = None" by (simp add: map_of_device_fold)
  then show ?thesis
    using validate_each_skips [of ?devs _ before composed_ids after "[]" r] assms(4)
    by (simp add: validate_device_transition_def Let_def)
qed

lemma transition_total:
  assumes "schedules_ok (schedules db)"
  shows "\<exists>r. validate_device_transition db after before composed_ids = Inr r"
proof -
  let ?bg = "load_enabled_schedules_by_group (schedules db) (transition_groups after before)"
  have ok: "schedules_ok (effective_schedules t ?bg)" if "(did, t) \<in> set after \<union> set before" for did t
  proof -
    have "effective_schedules t ?bg = filter (\<lambda>s. s \<in> reach (schedules db) t) (schedules db)"
      by (rule effective_schedules_eq) (rule transition_groups_covers [OF that])
    then show ?thesis using effective_ok [OF assms] by simp
  qed
  have okb: "schedules_ok bs"
    if "map_option (\<lambda>bt. effective_schedules bt ?bg) (map_of before did) = Some bs" for did bs
    using that ok [of did] map_of_SomeD [of before did] by auto
  show ?thesis unfolding validate_device_transition_def Let_def
    by (rule validate_each_total) (use config_total ok okb in blast)
qed


text \<open>
  The scheduler never has to break a tie. If the schedules reaching a device do not
  conflict, as the validator ensures, then the schedule the dashboard and the device sync show
  as playing there has strictly higher priority than every other schedule that could play: the
  identifier tie-break is never what decides.
\<close>

theorem winner_strictly_highest:
  assumes "d \<in> set (devices db)" and "dev_status d = ADOPTED" and "distinct (map dev_id (devices db))"
    and "\<forall>a \<in> reach (schedules db) (current_device_targeting db (dev_id d)).
           \<forall>b \<in> reach (schedules db) (current_device_targeting db (dev_id d)). \<not> conflict a b"
    and "plays db t (dev_id d) s" and "eligible db t (dev_id d) s'" and "s' \<noteq> s"
  shows "priority s' < priority s"
  using assms by (rule strict_winner)

definition sample_late :: schedule where
  "sample_late = sample_schedule\<lparr>sched_asset := Some sample_asset\<rparr>"

definition sample_early :: schedule where
  "sample_early = sample_tuesday\<lparr>sched_asset := Some sample_asset, priority := 5\<rparr>"

lemma sample_rows: "schedules sample_db = [sample_late, sample_early]" "devices sample_db = [sample_device]"
  by (simp_all add: sample_db_def sample_late_def sample_early_def)

lemma sample_schedules_ok: "schedules_ok (schedules sample_db)"
  by (simp add: sample_db_def schedules_ok_def sample_schedule_def sample_tuesday_def
      valid_schedule_def valid_time_def inner_dates_def)

lemma sample_reach: "sample_late \<in> reach (schedules sample_db) \<lparr>dt_group_id = Some ''g'', dt_tag_ids = []\<rparr>"
  "sample_early \<in> reach (schedules sample_db) \<lparr>dt_group_id = Some ''g'', dt_tag_ids = []\<rparr>"
  by (simp_all add: reach_def sample_rows sample_late_def sample_early_def sample_schedule_def
      sample_tuesday_def)


lemma sample_eligible:
  "eligible sample_db sample_now ''d1'' sample_late" "eligible sample_db sample_now ''d1'' sample_early"
proof -
  have "matches_now sample_late sample_now" "matches_now sample_early sample_now" by code_simp+
  then have "dt_us sample_now \<in> covers sample_late" "dt_us sample_now \<in> covers sample_early"
    using matches_now_iff [OF sample_db_ok(2)] by (auto simp: sample_rows)
  then show "eligible sample_db sample_now ''d1'' sample_late" "eligible sample_db sample_now ''d1'' sample_early"
    by (simp_all add: eligible_def sample_db_def sample_late_def sample_early_def sample_schedule_def
        sample_tuesday_def targets_def skipped_at_def sample_device_def)
qed

theorem winner_strictly_highest_witness: "priority sample_late < priority sample_early"
proof (rule winner_strictly_highest [of sample_device sample_db sample_now])
  show "sample_device \<in> set (devices sample_db)" "dev_status sample_device = ADOPTED"
    "distinct (map dev_id (devices sample_db))" "sample_late \<noteq> sample_early"
    by (simp_all add: sample_rows sample_device_def sample_late_def sample_early_def
        sample_schedule_def sample_tuesday_def)
  have id: "dev_id sample_device = ''d1''" by (simp add: sample_device_def)
  have p: "priority sample_late \<noteq> priority sample_early" "schedule_wins sample_early (Some sample_late)"
    by code_simp+
  have sub: "reach (schedules sample_db) t \<subseteq> {sample_late, sample_early}" for t
    by (auto simp: reach_def sample_rows)
  have "\<not> conflict a b" if "a \<in> {sample_late, sample_early}" "b \<in> {sample_late, sample_early}" for a b
    using that p(1) by (auto simp: conflict_def)
  then show "\<forall>a \<in> reach (schedules sample_db) (current_device_targeting sample_db (dev_id sample_device)).
      \<forall>b \<in> reach (schedules sample_db) (current_device_targeting sample_db (dev_id sample_device)). \<not> conflict a b"
    using subsetD [OF sub] by (intro ballI) simp
  show "eligible sample_db sample_now (dev_id sample_device) sample_late"
    using sample_eligible(1) id by simp
  have "s' = sample_late \<or> s' = sample_early" if "eligible sample_db sample_now ''d1'' s'" for s'
    using that by (auto simp: eligible_def sample_rows)
  then show "plays sample_db sample_now (dev_id sample_device) sample_early"
    using sample_eligible(2) p(2) id by (auto simp: plays_def)
qed

end
