(* ===== verification/Schedule_Api.thy ===== *)
theory Schedule_Api
  imports Evaluate Upcoming Config_Validation
begin

text \<open>
  The schedule CRUD handlers of \<^verbatim>\<open>cms/routers/schedules.py\<close> with the validators of
  \<^verbatim>\<open>cms/schemas/schedule.py\<close>. A handler takes the request and the state and returns either an
  error, in which case the session is rolled back and the state is unchanged, or the state
  after its commit, its pushes and the immediate evaluation pass. Identifiers of new rows come
  in as arguments. Durations are whole microseconds, so \<^verbatim>\<open>int(loop_count * duration)\<close> is exact;
  an explicit null for a column that is not nullable is not represented. Dates of requests and rows
  are naive datetimes of the model, on which \<^verbatim>\<open>ensure_tz_aware\<close>, which marks a date without a zone
  as UTC, is the identity.
\<close>

section \<open>State and requests\<close>

record tag_row =
  tag_row_id :: string
  tag_group_id :: string
  tag_name :: string
  tag_color :: string

record api_state =
  as_eval :: eval_state
  as_assets :: "asset list"
  as_groups :: "device_group list"
  as_tags :: "tag_row list"
  as_slides :: "(string \<times> string) list"
  as_audit :: "(string \<times> string) list"

text \<open>The requesting user: none, or a user with the groups that scope them; no list means the
  permission \<^verbatim>\<open>groups:view_all\<close>.\<close>

type_synonym requester = "string list option option"

record schedule_create =
  sc_name :: string
  sc_group_id :: string
  sc_tag_id :: "string option"
  sc_asset_id :: string
  sc_start_date :: "datetime option"
  sc_end_date :: "datetime option"
  sc_start_time :: py_time
  sc_end_time :: "py_time option"
  sc_days_of_week :: "int list option"
  sc_priority :: int
  sc_enabled :: bool
  sc_loop_count :: "int option"

text \<open>The fields of an update that were set.\<close>

record schedule_update =
  su_name :: "string option"
  su_group_id :: "string option"
  su_tag_id :: "string option option"
  su_asset_id :: "string option"
  su_start_date :: "datetime option option"
  su_end_date :: "datetime option option"
  su_start_time :: "py_time option"
  su_end_time :: "py_time option"
  su_days_of_week :: "int list option option"
  su_priority :: "int option"
  su_enabled :: "bool option"
  su_loop_count :: "int option option"

section \<open>Request validation\<close>

definition validate_days_of_week :: "int list option \<Rightarrow> api_error + int list option" where
  "validate_days_of_week v = (case v of None \<Rightarrow> Inr None
     | Some ds \<Rightarrow> if list_ex (\<lambda>d. d < 1 \<or> d > 7) ds
         then Inl (HTTPException 422 ''days_of_week values must be between 1 (Mon) and 7 (Sun)'')
         else Inr (Some (sort (remdups ds))))"

definition check_create :: "schedule_create \<Rightarrow> api_error + schedule_create" where
  "check_create data =
     result_bind (validate_days_of_week (sc_days_of_week data)) (\<lambda>ds.
       if sc_end_time data = Some (sc_start_time data)
       then Inl (HTTPException 422 ''Start time and end time cannot be the same'')
       else if sc_end_time data = None \<and> sc_loop_count data = None
       then Inl (HTTPException 422 ''end_time is required when loop_count is not set'')
       else if (case (sc_start_date data, sc_end_date data) of
                  (Some s, Some e) \<Rightarrow> dt_date e < dt_date s | _ \<Rightarrow> False)
       then Inl (HTTPException 422 ''End date cannot be before start date'')
       else Inr (data\<lparr>sc_days_of_week := ds\<rparr>))"

definition check_update :: "schedule_update \<Rightarrow> api_error + schedule_update" where
  "check_update data =
     result_bind (case su_days_of_week data of None \<Rightarrow> Inr None
        | Some v \<Rightarrow> result_bind (validate_days_of_week v) (\<lambda>ds. Inr (Some ds))) (\<lambda>ds.
       if su_start_time data \<noteq> None \<and> su_start_time data = su_end_time data
       then Inl (HTTPException 422 ''Start time and end time cannot be the same'')
       else if (case (su_start_date data, su_end_date data) of
                  (Some (Some s), Some (Some e)) \<Rightarrow> dt_date e < dt_date s | _ \<Rightarrow> False)
       then Inl (HTTPException 422 ''End date cannot be before start date'')
       else Inr (data\<lparr>su_days_of_week := ds\<rparr>))"

section \<open>Helpers of the router\<close>

definition guard_deleted_asset :: "asset option \<Rightarrow> bool \<Rightarrow> datetime option \<Rightarrow> datetime \<Rightarrow> api_error option" where
  "guard_deleted_asset a en end utc_now =
     (case a of None \<Rightarrow> None
      | Some x \<Rightarrow>
          if asset_deleted_at x = None then None
          else if \<not> en then None
          else if (case end of Some e \<Rightarrow> e < utc_now | None \<Rightarrow> False) then None
          else Some (HTTPException 409 (''Cannot activate schedule -- its asset ''
            @ quoted (the (or_str (or_str (or_str (display_name x) (original_filename x))
                (Some (filename x))) (Some (asset_id x))))
            @ '' has been deleted. Pick a different asset or delete the schedule.'')))"

definition verify_schedule_access :: "schedule \<Rightarrow> requester \<Rightarrow> bool" where
  "verify_schedule_access s user =
     (case user of None \<Rightarrow> True
      | Some groups \<Rightarrow> (case group_id s of None \<Rightarrow> True
          | Some g \<Rightarrow> (case groups of None \<Rightarrow> True | Some gs \<Rightarrow> g \<in> set gs)))"

definition access_denied :: api_error where
  "access_denied = HTTPException 403 ''Access denied: resource is outside your assigned groups''"

text \<open>The loop of \<^verbatim>\<open>_unique_name\<close>, with fuel: one more than the number of rows is enough.\<close>

definition suffixed :: "string \<Rightarrow> int \<Rightarrow> string" where
  "suffixed name n = name @ '' ('' @ int_text n @ '')''"

definition unique_suffix :: "nat \<Rightarrow> string \<Rightarrow> string list \<Rightarrow> int \<Rightarrow> string option" where
  "unique_suffix fuel name used n = first_free fuel (suffixed name) used n"

definition unique_name :: "string \<Rightarrow> schedule list \<Rightarrow> string option" where
  "unique_name name rows =
     (let used = map sched_name rows
      in if name \<notin> set used then Some name
         else unique_suffix (Suc (length used)) name used 2)"

definition schedules_conflict :: "schedule \<Rightarrow> schedule \<Rightarrow> bool result" where
  "schedules_conflict a b =
     (if group_id a \<noteq> None \<and> group_id b \<noteq> None then
        (if group_id a \<noteq> group_id b then Inr False
         else if priority a \<noteq> priority b then Inr False
         else schedules_overlap a b)
      else Inr False)"

definition targets_overlap :: "schedule \<Rightarrow> schedule \<Rightarrow> tag_assignment list \<Rightarrow> bool" where
  "targets_overlap a b assigns =
     (case (tag_id a, tag_id b) of
        (Some ta, Some tb) \<Rightarrow> ta = tb
          \<or> list_ex (\<lambda>(t, d). t = ta \<and> (tb, d) \<in> set assigns) assigns
      | _ \<Rightarrow> True)"

fun filter_result :: "('a \<Rightarrow> bool result) \<Rightarrow> 'a list \<Rightarrow> 'a list result" where
  "filter_result f [] = Inr []"
| "filter_result f (x # xs) =
     result_bind (f x) (\<lambda>b. result_bind (filter_result f xs) (\<lambda>ys. Inr (if b then x # ys else ys)))"

definition check_conflicts :: "schedule \<Rightarrow> cms_db \<Rightarrow> string option \<Rightarrow> api_error option" where
  "check_conflicts s d exclude_id =
     (if group_id s = None then None
      else case filter_result (schedules_conflict s)
          (filter (\<lambda>x. enabled x \<and> group_id x = group_id s \<and> priority x = priority s
             \<and> Some (sched_id x) \<noteq> exclude_id) (schedules d)) of
        Inl e \<Rightarrow> Some (Uncaught e)
      | Inr cands \<Rightarrow>
          map_option (\<lambda>existing. HTTPException 409 (''Conflicts with '' @ quoted (sched_name existing)
              @ '' '' @ em_dash @ '' overlapping time on the same target at priority '' @ int_text (priority s)
              @ ''. Use a different priority, or target a different tag, to allow overlap.''))
            (List.find (\<lambda>b. targets_overlap s b (tag_assignments d)) cands))"

definition validate_schedule_tag :: "string option \<Rightarrow> string option \<Rightarrow> tag_row list \<Rightarrow> api_error option" where
  "validate_schedule_tag tid gid tags =
     (case tid of None \<Rightarrow> None
      | Some t \<Rightarrow> (case List.find (\<lambda>r. tag_row_id r = t) tags of
            None \<Rightarrow> Some (HTTPException 422 ''Tag not found'')
          | Some r \<Rightarrow> if gid = None \<or> Some (tag_group_id r) \<noteq> gid
              then Some (HTTPException 422 (''Tag '' @ quoted (tag_name r) @ '' belongs to a different group. ''
                @ ''A schedule can only be narrowed by a tag defined in the group it targets.''))
              else None))"

definition compute_end_time :: "py_time \<Rightarrow> int \<Rightarrow> int \<Rightarrow> py_time" where
  "compute_end_time start lc duration =
     (let total = whole_seconds (lc * duration);
          end_seconds = (hour start * 3600 + minute start * 60 + second start + total) mod 86400
      in Time (end_seconds div 3600) (end_seconds mod 3600 div 60) (end_seconds mod 3600 mod 60) 0)"

definition resolve_loop_end_time ::
  "int option \<Rightarrow> string \<Rightarrow> py_time \<Rightarrow> asset list \<Rightarrow> api_error + py_time option" where
  "resolve_loop_end_time lc aid start assets =
     (case lc of None \<Rightarrow> Inr None
      | Some n \<Rightarrow> (case List.find (\<lambda>a. asset_id a = aid) assets of
            None \<Rightarrow> Inl (HTTPException 422 ''Asset not found'')
          | Some a \<Rightarrow> (case duration_us a of
                None \<Rightarrow> Inl (HTTPException 422 ''Cannot compute end_time: asset has no duration. Provide end_time explicitly.'')
              | Some dur \<Rightarrow>
                  if dur = 0 then Inl (HTTPException 422 ''Cannot compute end_time: asset has no duration. Provide end_time explicitly.'')
                  else let total = whole_seconds (n * dur)
                    in if total \<le> 0 \<or> total mod 86400 = 0
                       then Inl (HTTPException 422 (''Computed playback window is zero or an exact multiple of 24 hours ''
                         @ ''(end_time would equal start_time and never play). Use a different loop count ''
                         @ ''or provide end_time explicitly.''))
                       else Inr (Some (compute_end_time start n dur)))))"

text \<open>The adopted devices of a group, and the message naming those that are not compatible.\<close>

definition group_adopted :: "string \<Rightarrow> device list \<Rightarrow> device list" where
  "group_adopted g devs = filter (\<lambda>d. dev_id d \<in>
     fst ` set (effective_device_group_rows devs None (Some [g]) (Some [ADOPTED]))) devs"

definition name_list :: "device list \<Rightarrow> string" where
  "name_list ds = join_text '', '' (map (\<lambda>d. if dev_name d = '''' then dev_id d else dev_name d) (take 3 ds))
     @ (if length ds > 3 then '' and '' @ int_text (int (length ds) - 3) @ '' more'' else '''')"

definition validate_webpage_group :: "string \<Rightarrow> device list \<Rightarrow> api_error option" where
  "validate_webpage_group g devs =
     (let non_pi5 = filter (\<lambda>d. \<not> is_pi5_compatible (device_type d)) (group_adopted g devs)
      in if non_pi5 = [] then None
         else Some (HTTPException 422 (''Webpage assets require Raspberry Pi 5 or newer. ''
           @ ''These devices in the group are not compatible: '' @ name_list non_pi5)))"

definition slideshow_has_composed_member :: "string \<Rightarrow> (string \<times> string) list \<Rightarrow> asset list \<Rightarrow> bool" where
  "slideshow_has_composed_member aid slides assets =
     list_ex (\<lambda>(deck, src). deck = aid \<and> list_ex (\<lambda>a. asset_id a = src \<and> asset_type_of a = COMPOSED) assets) slides"

definition validate_slideshow_group ::
  "string \<Rightarrow> device list \<Rightarrow> string \<Rightarrow> (string \<times> string) list \<Rightarrow> asset list \<Rightarrow> api_error option" where
  "validate_slideshow_group g devs aid slides assets =
     (let ds = group_adopted g devs;
          bad = filter (\<lambda>d. CAPABILITY_SLIDESHOW_V1 \<notin> set (capabilities d)) ds;
          needs = filter (\<lambda>d. CAPABILITY_SLIDESHOW_COMPOSED_V1 \<notin> set (capabilities d)) ds
      in if bad \<noteq> [] then Some (HTTPException 422 (''Slideshow assets require firmware advertising the ''
             @ quoted ''slideshow_v1'' @ '' capability. These devices in the group are not compatible: '' @ name_list bad))
         else if slideshow_has_composed_member aid slides assets \<and> needs \<noteq> []
         then Some (HTTPException 422 (''This slideshow contains a composed slide, which requires firmware advertising the ''
             @ quoted ''slideshow_composed_v1'' @ '' capability. These devices in the group are not compatible: '' @ name_list needs))
         else None)"

section \<open>Handlers\<close>

abbreviation api_db :: "api_state \<Rightarrow> cms_db" where
  "api_db st \<equiv> es_db (as_eval st)"

definition set_db :: "cms_db \<Rightarrow> api_state \<Rightarrow> api_state" where
  "set_db d st = st\<lparr>as_eval := (as_eval st)\<lparr>es_db := d\<rparr>\<rparr>"

text \<open>A check that raises, or nothing.\<close>

definition guard :: "api_error option \<Rightarrow> api_error + unit" where
  "guard e = (case e of None \<Rightarrow> Inr () | Some x \<Rightarrow> Inl x)"

text \<open>The sync of one device as the handlers send it, with a skip snapshot of its own.\<close>

definition push_to :: "tick_env \<Rightarrow> string \<Rightarrow> api_state \<Rightarrow> api_state" where
  "push_to env did st =
     (let ev = as_eval st
      in st\<lparr>as_eval := ev\<lparr>es_sent := push_sync_to_device
           (build_device_sync_impl (es_db ev) (es_variants ev) (te_tz_setting env) (te_local_now env)
              (te_cutoff_date env) (te_resolve env) None)
           (te_connected env) (devices (es_db ev)) did (es_sent ev)\<rparr>\<rparr>)"

definition push_to_targets :: "tick_env \<Rightarrow> schedule \<Rightarrow> api_state \<Rightarrow> api_state" where
  "push_to_targets env s st =
     fold (push_to env) (get_target_device_ids s (devices (api_db st)) (tag_assignments (api_db st))) st"

definition trigger_eval :: "tick_env \<Rightarrow> api_state \<Rightarrow> api_state" where
  "trigger_eval env st = st\<lparr>as_eval := fst (evaluate_schedules env (as_eval st))\<rparr>"

definition audit :: "string \<Rightarrow> string \<Rightarrow> api_state \<Rightarrow> api_state" where
  "audit action rid st = st\<lparr>as_audit := as_audit st @ [(action, rid)]\<rparr>"

text \<open>The end time of a new schedule.\<close>

definition resolve_end_time :: "schedule_create \<Rightarrow> asset \<Rightarrow> asset list \<Rightarrow> api_error + py_time" where
  "resolve_end_time data a assets =
     (if \<not> is_url_asset a then
        result_bind (resolve_loop_end_time (sc_loop_count data) (sc_asset_id data) (sc_start_time data) assets)
          (\<lambda>computed. case computed of Some t \<Rightarrow> Inr t
             | None \<Rightarrow> (case sc_end_time data of Some t \<Rightarrow> Inr t
                 | None \<Rightarrow> Inl (HTTPException 422 ''end_time is required when loop_count is not set.'')))
      else case sc_end_time data of Some t \<Rightarrow> Inr t
        | None \<Rightarrow> Inl (HTTPException 422 ''end_time is required for webpage/stream assets.''))"

definition new_schedule ::
  "string \<Rightarrow> string \<Rightarrow> schedule_create \<Rightarrow> asset \<Rightarrow> device_group option \<Rightarrow> py_time \<Rightarrow> schedule" where
  "new_schedule new_id name data a g en = \<lparr>sched_id = new_id, sched_name = name,
     group_id = Some (sc_group_id data), sched_group = g, tag_id = sc_tag_id data,
     sched_asset = Some a, start_date = sc_start_date data, end_date = sc_end_date data,
     start_time = sc_start_time data, end_time = en, days_of_week = sc_days_of_week data,
     priority = sc_priority data, enabled = sc_enabled data, loop_count = sc_loop_count data,
     skipped_until = None\<rparr>"

text \<open>A group that does not exist makes the insert violate its foreign key.\<close>

definition find_group :: "string \<Rightarrow> api_state \<Rightarrow> api_error + device_group" where
  "find_group gid st = (case List.find (\<lambda>g. dg_id g = gid) (as_groups st) of
     None \<Rightarrow> Inl (Uncaught (ValueError ''IntegrityError'')) | Some g \<Rightarrow> Inr g)"

definition create_schedule ::
  "tick_env \<Rightarrow> datetime \<Rightarrow> requester \<Rightarrow> string \<Rightarrow> schedule_create \<Rightarrow> api_state \<Rightarrow> api_error + api_state" where
  "create_schedule env utc_now user new_id raw st =
     (let d = api_db st in
      result_bind (check_create raw) (\<lambda>data.
      result_bind (case unique_name (sc_name data) (schedules d) of Some n \<Rightarrow> Inr n
          | None \<Rightarrow> Inl (Uncaught OverflowError)) (\<lambda>name.
      result_bind (require_asset_ready (as_assets st) (es_variants (as_eval st)) (sc_asset_id data)) (\<lambda>a.
      result_bind (guard (validate_schedule_tag (sc_tag_id data) (Some (sc_group_id data)) (as_tags st))) (\<lambda>_.
      result_bind (guard (guard_deleted_asset (Some a) (sc_enabled data) (sc_end_date data) utc_now)) (\<lambda>_.
      result_bind (guard (if is_url_asset a \<and> sc_loop_count data \<noteq> None
          then Some (HTTPException 422 ''Webpage and live stream assets do not support loop count (no duration).'')
          else None)) (\<lambda>_.
      result_bind (guard (if is_url_asset a then validate_webpage_group (sc_group_id data) (devices d) else None)) (\<lambda>_.
      result_bind (guard (if asset_type_of a = SLIDESHOW
          then validate_slideshow_group (sc_group_id data) (devices d) (sc_asset_id data) (as_slides st) (as_assets st)
          else None)) (\<lambda>_.
      result_bind (resolve_end_time data a (as_assets st)) (\<lambda>en.
      let s = new_schedule new_id name data a (List.find (\<lambda>g. dg_id g = sc_group_id data) (as_groups st)) en in
      result_bind (guard (check_conflicts s d None)) (\<lambda>_.
      result_bind (find_group (sc_group_id data) st) (\<lambda>_.
      Inr (trigger_eval env (push_to_targets env s
        (audit ''schedule.create'' new_id
          (set_db (d\<lparr>schedules := schedules d @ [s]\<rparr>) st))))))))))))))))"

definition upd :: "'a option \<Rightarrow> 'a \<Rightarrow> 'a" where
  "upd u old = (case u of None \<Rightarrow> old | Some x \<Rightarrow> x)"

text \<open>\<^verbatim>\<open>setattr\<close> of every field that was set; the relationships are read again from the new
  keys.\<close>

definition apply_update ::
  "schedule_update \<Rightarrow> py_time option \<Rightarrow> asset option \<Rightarrow> device_group option \<Rightarrow> schedule \<Rightarrow> schedule" where
  "apply_update u en a g s = s\<lparr>sched_name := upd (su_name u) (sched_name s),
     group_id := (case su_group_id u of None \<Rightarrow> group_id s | Some x \<Rightarrow> Some x),
     sched_group := g, tag_id := upd (su_tag_id u) (tag_id s), sched_asset := a,
     start_date := upd (su_start_date u) (start_date s), end_date := upd (su_end_date u) (end_date s),
     start_time := upd (su_start_time u) (start_time s), end_time := upd en (end_time s),
     days_of_week := upd (su_days_of_week u) (days_of_week s), priority := upd (su_priority u) (priority s),
     enabled := upd (su_enabled u) (enabled s), loop_count := upd (su_loop_count u) (loop_count s),
     skipped_until := None\<rparr>"

definition update_end_time ::
  "schedule_update \<Rightarrow> schedule \<Rightarrow> string \<Rightarrow> bool \<Rightarrow> asset list \<Rightarrow> api_error + py_time option" where
  "update_end_time u s aid is_url assets =
     (let lc = upd (su_loop_count u) (loop_count s)
      in if \<not> is_url \<and> lc \<noteq> None \<and> (su_loop_count u \<noteq> None \<or> su_asset_id u \<noteq> None \<or> su_start_time u \<noteq> None)
         then result_bind (resolve_loop_end_time lc aid (upd (su_start_time u) (start_time s)) assets)
           (\<lambda>computed. Inr (case computed of Some t \<Rightarrow> Some t | None \<Rightarrow> su_end_time u))
         else Inr (su_end_time u))"

definition the_id :: "asset option \<Rightarrow> string" where
  "the_id a = (case a of None \<Rightarrow> '''' | Some x \<Rightarrow> asset_id x)"

definition update_schedule ::
  "tick_env \<Rightarrow> datetime \<Rightarrow> requester \<Rightarrow> string \<Rightarrow> schedule_update \<Rightarrow> api_state \<Rightarrow> api_error + api_state" where
  "update_schedule env utc_now user sid raw st =
     (let d = api_db st in
      result_bind (check_update raw) (\<lambda>u.
      case List.find (\<lambda>s. sched_id s = sid) (schedules d) of
        None \<Rightarrow> Inl (HTTPException 404 ''Schedule not found'')
      | Some s \<Rightarrow>
          if \<not> verify_schedule_access s user then Inl access_denied
          else
            let aid = upd (su_asset_id u) (the_id (sched_asset s));
                gid = (case su_group_id u of None \<Rightarrow> group_id s | Some x \<Rightarrow> Some x);
                en = upd (su_enabled u) (enabled s)
            in
            result_bind (if su_asset_id u \<noteq> None \<and> aid \<noteq> the_id (sched_asset s)
                then result_bind (require_asset_ready (as_assets st) (es_variants (as_eval st)) aid) (\<lambda>_. Inr ())
                else Inr ()) (\<lambda>_.
            result_bind (guard (if su_tag_id u \<noteq> None \<or> su_group_id u \<noteq> None
                then validate_schedule_tag (upd (su_tag_id u) (tag_id s)) gid (as_tags st) else None)) (\<lambda>_.
            let ta = List.find (\<lambda>a. asset_id a = aid) (as_assets st);
                is_url = (case ta of None \<Rightarrow> False | Some a \<Rightarrow> is_url_asset a);
                is_slideshow = (case ta of None \<Rightarrow> False | Some a \<Rightarrow> asset_type_of a = SLIDESHOW);
                moved = (su_asset_id u \<noteq> None \<or> su_group_id u \<noteq> None)
            in
            result_bind (guard (guard_deleted_asset ta en (upd (su_end_date u) (end_date s)) utc_now)) (\<lambda>_.
            result_bind (guard (if en \<and> composed_unpublished_reason ta \<noteq> None
                then Some (HTTPException 422 NOT_PUBLISHED) else None)) (\<lambda>_.
            result_bind (guard (if is_url \<and> upd (su_loop_count u) None \<noteq> None
                then Some (HTTPException 422 ''Webpage and live stream assets do not support loop count (no duration).'')
                else None)) (\<lambda>_.
            result_bind (guard (case gid of Some g \<Rightarrow> if is_url \<and> moved
                then validate_webpage_group g (devices d) else None | None \<Rightarrow> None)) (\<lambda>_.
            result_bind (guard (case gid of Some g \<Rightarrow> if is_slideshow \<and> moved
                then validate_slideshow_group g (devices d) aid (as_slides st) (as_assets st) else None
                | None \<Rightarrow> None)) (\<lambda>_.
            result_bind (update_end_time u s aid is_url (as_assets st)) (\<lambda>end_t.
            result_bind (case su_group_id u of None \<Rightarrow> Inr (sched_group s)
                | Some g \<Rightarrow> result_bind (find_group g st) (\<lambda>row. Inr (Some row))) (\<lambda>grp.
            let s' = apply_update u end_t (if su_asset_id u = None then sched_asset s else ta) grp s;
                d' = d\<lparr>schedules := update_where (\<lambda>x. sched_id x = sid) (\<lambda>_. s') (schedules d),
                       device_skips := delete_where (\<lambda>(i, dv, t). i = sid) (device_skips d)\<rparr>
            in
            result_bind (guard (check_conflicts s' d' (Some sid))) (\<lambda>_.
            Inr (trigger_eval env (push_to_targets env s'
              (audit ''schedule.update'' sid (set_db d' st))))))))))))))))"

definition delete_schedule ::
  "tick_env \<Rightarrow> requester \<Rightarrow> string \<Rightarrow> api_state \<Rightarrow> api_error + api_state" where
  "delete_schedule env user sid st =
     (let d = api_db st in
      case List.find (\<lambda>s. sched_id s = sid) (schedules d) of
        None \<Rightarrow> Inl (HTTPException 404 ''Schedule not found'')
      | Some s \<Rightarrow>
          if \<not> verify_schedule_access s user then Inl access_denied
          else
            let target_ids = get_target_device_ids s (devices d) (tag_assignments d);
                d' = d\<lparr>schedules := delete_where (\<lambda>x. sched_id x = sid) (schedules d),
                       device_skips := delete_where (\<lambda>(i, dv, t). i = sid) (device_skips d)\<rparr>;
                ev = as_eval st;
                cp = filter (\<lambda>(did, info). cp_schedule_id info \<noteq> sid) (es_confirmed ev);
                logs = map (\<lambda>l. if log_schedule_id l = Some sid then l\<lparr>log_schedule_id := None\<rparr> else l) (es_logs ev);
                st' = audit ''schedule.delete'' sid
                  (st\<lparr>as_eval := ev\<lparr>es_db := d', es_confirmed := cp, es_logs := logs\<rparr>\<rparr>)
            in Inr (trigger_eval env (fold (push_to env) target_ids st')))"

text \<open>\<^verbatim>\<open>end_today\<close>: the end time today, or tomorrow for an overnight span.\<close>

definition end_now_until :: "schedule \<Rightarrow> datetime \<Rightarrow> datetime" where
  "end_now_until s local_now =
     Datetime (dt_date local_now + (if end_time s \<le> start_time s then 1 else 0)) (end_time s)"

definition upsert_skip :: "string \<Rightarrow> string \<Rightarrow> datetime \<Rightarrow> device_skip list \<Rightarrow> device_skip list" where
  "upsert_skip sid did until rows =
     (if (sid, did) \<in> (\<lambda>(i, dv, t). (i, dv)) ` set rows
      then update_where (\<lambda>(i, dv, t). i = sid \<and> dv = did) (\<lambda>_. (sid, did, until)) rows
      else rows @ [(sid, did, until)])"

definition skipped_log :: "device list \<Rightarrow> schedule \<Rightarrow> string \<Rightarrow> schedule_log" where
  "skipped_log devs s did = \<lparr>log_schedule_id = Some (sched_id s), log_schedule_name = sched_name s,
     log_device_id = Some did,
     log_device_name = (case List.find (\<lambda>d. dev_id d = did) devs of
        Some d \<Rightarrow> if dev_name d = '''' then dev_id d else dev_name d | None \<Rightarrow> did),
     log_asset_filename = asset_display_name (sched_asset s), log_event = SKIPPED,
     log_details = Some ''Ended early by admin''\<rparr>"

text \<open>\<open>device_id\<close> is the stripped, non-empty string of the body, if any.\<close>

definition end_schedule_now ::
  "tick_env \<Rightarrow> requester \<Rightarrow> string \<Rightarrow> string option \<Rightarrow> api_state \<Rightarrow> api_error + api_state" where
  "end_schedule_now env user sid device_id st =
     (let d = api_db st in
      case List.find (\<lambda>s. sched_id s = sid) (schedules d) of
        None \<Rightarrow> Inl (HTTPException 404 ''Schedule not found'')
      | Some s \<Rightarrow>
          if \<not> verify_schedule_access s user then Inl access_denied
          else
            let until = end_now_until s (te_local_now env);
                target_ids = get_target_device_ids s (devices d) (tag_assignments d)
            in
            if (case device_id of Some did \<Rightarrow> did \<notin> set target_ids | None \<Rightarrow> False)
            then Inl (HTTPException 400 ''Device is not a target of this schedule'')
            else
              let affected = (case device_id of Some did \<Rightarrow> [did] | None \<Rightarrow> target_ids);
                  ev = as_eval st;
                  d' = (case device_id of
                     None \<Rightarrow> d\<lparr>schedules := update_where (\<lambda>x. sched_id x = sid)
                        (\<lambda>x. x\<lparr>skipped_until := Some until\<rparr>) (schedules d)\<rparr>
                   | Some did \<Rightarrow> d\<lparr>device_skips := upsert_skip sid did until (device_skips d)\<rparr>);
                  st' = audit ''schedule.end_now'' sid
                    (st\<lparr>as_eval := ev\<lparr>es_db := d',
                       es_confirmed := skip_schedule_until sid device_id (es_confirmed ev),
                       es_logs := es_logs ev @ map (skipped_log (devices d) s) affected\<rparr>\<rparr>)
              in Inr (fold (push_to env) affected st'))"

definition get_schedule :: "requester \<Rightarrow> string \<Rightarrow> api_state \<Rightarrow> api_error + schedule" where
  "get_schedule user sid st =
     (case List.find (\<lambda>s. sched_id s = sid) (schedules (api_db st)) of
        None \<Rightarrow> Inl (HTTPException 404 ''Schedule not found'')
      | Some s \<Rightarrow> if verify_schedule_access s user then Inr s else Inl access_denied)"

text \<open>\<^verbatim>\<open>list_schedules\<close>: by descending priority, then by name; without a user no group is
  readable.\<close>

definition list_schedules :: "requester \<Rightarrow> api_state \<Rightarrow> schedule list" where
  "list_schedules user st =
     (let visible = (\<lambda>s. case (case user of None \<Rightarrow> Some [] | Some g \<Rightarrow> g) of
           None \<Rightarrow> True
         | Some gs \<Rightarrow> (case group_id s of None \<Rightarrow> True | Some g \<Rightarrow> g \<in> set gs))
      in sort_key (\<lambda>s. - priority s) (sort_key sched_name (filter visible (schedules (api_db st)))))"

section \<open>Specification\<close>

text \<open>Two schedules clash when they run at the same priority at the same time and can reach a
  common device. A clash-free table has none.\<close>

definition clash :: "tag_assignment list \<Rightarrow> schedule \<Rightarrow> schedule \<Rightarrow> bool" where
  "clash assigns a b \<longleftrightarrow> enabled a \<and> enabled b \<and> sched_id a \<noteq> sched_id b
     \<and> group_id a \<noteq> None \<and> group_id a = group_id b \<and> priority a = priority b
     \<and> targets_overlap a b assigns \<and> covers a \<inter> covers b \<noteq> {}"

definition clash_free :: "cms_db \<Rightarrow> bool" where
  "clash_free d \<longleftrightarrow> (\<forall>a \<in> set (schedules d). \<forall>b \<in> set (schedules d). \<not> clash (tag_assignments d) a b)"

text \<open>The invariant of the schedule table.\<close>

definition table_ok :: "cms_db \<Rightarrow> bool" where
  "table_ok d \<longleftrightarrow> schedules_ok (schedules d) \<and> clash_free d"

section \<open>Lemmas\<close>

lemma guard_Inr [simp]: "guard e = Inr u \<longleftrightarrow> e = None"
  by (cases e) (simp_all add: guard_def)

lemma targets_overlap_commute: "targets_overlap a b assigns = targets_overlap b a assigns"
  by (cases "tag_id a"; cases "tag_id b") (auto simp: targets_overlap_def list_ex_iff)

lemma clash_commute: "clash assigns a b = clash assigns b a"
  by (auto simp: clash_def targets_overlap_commute)

lemma skip_irrelevant [simp]:
  "covers (s\<lparr>skipped_until := v\<rparr>) = covers s"
  "valid_schedule (s\<lparr>skipped_until := v\<rparr>) = valid_schedule s"
  "inner_dates (s\<lparr>skipped_until := v\<rparr>) = inner_dates s"
  "targets_overlap (s\<lparr>skipped_until := v\<rparr>) b assigns = targets_overlap s b assigns"
  "targets_overlap a (s\<lparr>skipped_until := v\<rparr>) assigns = targets_overlap a s assigns"
  by (simp_all add: covers_def anchors_def occurrence_def valid_schedule_def inner_dates_def targets_overlap_def)

lemma clash_skip [simp]:
  "clash assigns (s\<lparr>skipped_until := v\<rparr>) b = clash assigns s b"
  "clash assigns a (s\<lparr>skipped_until := v\<rparr>) = clash assigns a s"
  by (simp_all add: clash_def)

lemma clash_irrefl: "\<not> clash assigns a a"
  by (simp add: clash_def)

interpretation schedule_rows: keyed_table sched_id "range (\<lambda>v s. s\<lparr>skipped_until := v\<rparr>)"
  by unfold_locales auto

lemma table_ok_skip:
  assumes "table_ok d"
  shows "table_ok (d\<lparr>schedules := update_where P (\<lambda>s. s\<lparr>skipped_until := v\<rparr>) (schedules d)\<rparr>)"
    and "table_ok (d\<lparr>device_skips := ds\<rparr>)"
proof -
  have "distinct (map sched_id (update_where P (\<lambda>s. s\<lparr>skipped_until := v\<rparr>) (schedules d)))"
    using assms by (subst schedule_rows.keys_update) (auto simp: table_ok_def schedules_ok_def)
  then show "table_ok (d\<lparr>schedules := update_where P (\<lambda>s. s\<lparr>skipped_until := v\<rparr>) (schedules d)\<rparr>)"
    using assms by (auto simp: table_ok_def schedules_ok_def clash_free_def set_update_where)
  show "table_ok (d\<lparr>device_skips := ds\<rparr>)" using assms by (simp add: table_ok_def clash_free_def)
qed

lemma table_ok_purge: "table_ok d \<Longrightarrow> table_ok (purge_skips raw t d)"
  unfolding purge_skips_def using table_ok_skip [of d] table_ok_skip(2) by fastforce

lemma table_ok_delete: "table_ok d \<Longrightarrow> table_ok (d\<lparr>schedules := delete_where P (schedules d)\<rparr>)"
  by (auto simp: table_ok_def schedules_ok_def clash_free_def delete_where_def distinct_map_filter)

subsection \<open>Pushes and the evaluation pass leave the tables alone, up to skips\<close>

lemma push_to_db [simp]: "api_db (push_to env did st) = api_db st"
  by (simp add: push_to_def Let_def)

lemma fold_push_db [simp]: "api_db (fold (push_to env) dids st) = api_db st"
  by (induction dids arbitrary: st) simp_all

lemma push_targets_db [simp]: "api_db (push_to_targets env s st) = api_db st"
  by (simp add: push_to_targets_def)

lemma audit_db [simp]: "api_db (audit a r st) = api_db st"
  by (simp add: audit_def)

lemma set_db_db [simp]: "api_db (set_db d st) = d"
  by (simp add: set_db_def)

lemma evaluate_db:
  "es_db (fst (evaluate_schedules env ev))
     = purge_skips (load_skip_snapshot (schedules (es_db ev)) (device_skips (es_db ev))) (te_local_now env) (es_db ev)"
  by (simp add: evaluate_schedules_def Let_def case_prod_beta)

lemma trigger_db:
  "api_db (trigger_eval env st)
     = purge_skips (load_skip_snapshot (schedules (api_db st)) (device_skips (api_db st))) (te_local_now env) (api_db st)"
  by (simp add: trigger_eval_def evaluate_db)

lemma table_ok_trigger: "table_ok (api_db st) \<Longrightarrow> table_ok (api_db (trigger_eval env st))"
  by (simp add: trigger_db table_ok_purge)

subsection \<open>The conflict check\<close>

lemma filter_result_set:
  "filter_result f xs = Inr ys \<Longrightarrow> x \<in> set xs \<Longrightarrow> f x = Inr True \<Longrightarrow> x \<in> set ys"
  by (induction xs arbitrary: ys) (auto simp: result_bind_eq_Inr split: if_splits)

lemma check_conflicts_sound:
  assumes "check_conflicts s d ex = None" "valid_schedule s" "inner_dates s" "schedules_ok (schedules d)"
    and "b \<in> set (schedules d)" "Some (sched_id b) \<noteq> ex"
  shows "\<not> clash (tag_assignments d) s b"
proof
  assume c: "clash (tag_assignments d) s b"
  have vb: "valid_schedule b" "inner_dates b" using assms(4,5) by (auto simp: schedules_ok_def)
  have vd: "valid_date (dt_date dt)" if "start_date s = Some dt" for dt
    using inner_dates_Some(1) [OF assms(3) that] by (simp add: valid_date_def)
  from schedules_overlap_result [OF assms(2) vb(1) vd]
  have "schedules_overlap s b = Inr True"
    using schedules_overlap_total [OF assms(3) vb(2)] c by (auto simp: clash_def)
  then have sc: "schedules_conflict s b = Inr True"
    using c by (auto simp: schedules_conflict_def clash_def)
  let ?xs = "filter (\<lambda>x. enabled x \<and> group_id x = group_id s \<and> priority x = priority s
      \<and> Some (sched_id x) \<noteq> ex) (schedules d)"
  have b: "b \<in> set ?xs" using c assms(5,6) by (auto simp: clash_def)
  have g: "group_id s \<noteq> None" using c unfolding clash_def by blast
  obtain ys where ys: "filter_result (schedules_conflict s) ?xs = Inr ys"
    and none: "List.find (\<lambda>b. targets_overlap s b (tag_assignments d)) ys = None"
    using assms(1) g by (auto simp: check_conflicts_def split: sum.splits)
  have "b \<in> set ys" by (rule filter_result_set [OF ys b sc])
  then show False using none c by (auto simp: find_None_iff clash_def)
qed

subsection \<open>Times of new and changed rows\<close>

definition request_times_ok :: "py_time \<Rightarrow> py_time option \<Rightarrow> bool" where
  "request_times_ok st en \<longleftrightarrow> valid_time st \<and> (\<forall>t. en = Some t \<longrightarrow> valid_time t)"

lemma compute_end_time_valid: "valid_time (compute_end_time st n dur)"
proof -
  have "(x::int) mod 86400 div 3600 < 24" for x using pos_mod_bound [of 86400 x] by linarith
  moreover have "(x::int) mod 3600 div 60 < 60" for x using pos_mod_bound [of 3600 x] by linarith
  moreover have "0 \<le> (x::int) mod 86400 div 3600" for x by (simp add: pos_imp_zdiv_nonneg_iff)
  moreover have "0 \<le> (x::int) mod 3600 div 60" for x by (simp add: pos_imp_zdiv_nonneg_iff)
  ultimately show ?thesis
    by (simp add: compute_end_time_def valid_time_def Let_def)
qed

lemma resolve_loop_end_valid:
  "resolve_loop_end_time lc aid st assets = Inr (Some t) \<Longrightarrow> valid_time t"
  by (auto simp: resolve_loop_end_time_def Let_def compute_end_time_valid split: option.splits if_splits)

text \<open>The computed end time is never the start time: the guard on whole days is exactly the
  case in which they would coincide.\<close>

lemma compute_end_time_neq:
  assumes "valid_time st" "whole_seconds (n * dur) mod 86400 \<noteq> 0"
  shows "compute_end_time st n dur \<noteq> st"
proof
  let ?s = "hour st * 3600 + minute st * 60 + second st"
  let ?e = "(?s + whole_seconds (n * dur)) mod 86400"
  assume "compute_end_time st n dur = st"
  then have h: "?e div 3600 = hour st" "?e mod 3600 div 60 = minute st" "?e mod 3600 mod 60 = second st"
    by (cases st; simp add: compute_end_time_def Let_def)+
  have "?e = ?s"
    using h div_mult_mod_eq [of ?e 3600] div_mult_mod_eq [of "?e mod 3600" 60] by linarith
  then have "(?s + whole_seconds (n * dur)) mod 86400 = ?s mod 86400"
    using assms(1) by (simp add: valid_time_def)
  then have "whole_seconds (n * dur) mod 86400 = 0"
    by (metis add_diff_cancel_left' mod_0 mod_diff_eq diff_self)
  then show False using assms(2) by simp
qed

lemma resolve_loop_end_neq:
  "valid_time st \<Longrightarrow> resolve_loop_end_time lc aid st assets = Inr (Some t) \<Longrightarrow> t \<noteq> st"
  using compute_end_time_neq
  by (fastforce simp: resolve_loop_end_time_def Let_def split: option.splits if_splits)

lemma resolve_loop_None: "resolve_loop_end_time lc aid st assets = Inr None \<Longrightarrow> lc = None"
  by (auto simp: resolve_loop_end_time_def Let_def split: option.splits if_splits)

subsection \<open>The handlers keep the table invariant\<close>

lemma table_ok_insert:
  assumes "table_ok d" "valid_schedule s" "inner_dates s" "sched_id s \<notin> sched_id ` set (schedules d)"
    and "check_conflicts s d None = None"
  shows "table_ok (d\<lparr>schedules := schedules d @ [s]\<rparr>)"
proof -
  have ok: "schedules_ok (schedules d)" "clash_free d" using assms(1) by (auto simp: table_ok_def)
  have "\<not> clash (tag_assignments d) s b" if "b \<in> set (schedules d)" for b
    by (rule check_conflicts_sound [OF assms(5,2,3) ok(1) that]) simp
  then show ?thesis
    using ok assms(2-4) clash_commute [of "tag_assignments d" _ s] clash_irrefl
    by (simp add: table_ok_def schedules_ok_def clash_free_def ball_Un)
qed

lemma table_ok_replace:
  assumes "table_ok d" "valid_schedule s'" "inner_dates s'" "sched_id s' = sid"
    and "d' = d\<lparr>schedules := update_where (\<lambda>x. sched_id x = sid) (\<lambda>_. s') (schedules d), device_skips := ds\<rparr>"
    and "check_conflicts s' d' (Some sid) = None"
  shows "table_ok d'"
proof -
  have ok: "schedules_ok (schedules d)" "clash_free d" using assms(1) by (auto simp: table_ok_def)
  have "map sched_id (schedules d') = map sched_id (schedules d)"
    using assms(4) by (simp add: assms(5) update_where_def)
  then have ok': "schedules_ok (schedules d')"
    using ok(1) assms(2,3) by (auto simp: schedules_ok_def assms(5) set_update_where)
  have mem: "b = s' \<or> b \<in> set (schedules d) \<and> sched_id b \<noteq> sid" if "b \<in> set (schedules d')" for b
    using that by (auto simp: assms(5) set_update_where)
  have new: "\<not> clash (tag_assignments d') s' b" if "b \<in> set (schedules d')" for b
  proof (cases "sched_id b = sid")
    case True
    then show ?thesis using assms(4) by (simp add: clash_def)
  next
    case False
    then show ?thesis by (intro check_conflicts_sound [OF assms(6,2,3) ok' that]) simp
  qed
  have "\<not> clash (tag_assignments d') a b" if "a \<in> set (schedules d')" "b \<in> set (schedules d')" for a b
    using new [OF that(1)] new [OF that(2)] mem [OF that(1)] mem [OF that(2)] ok(2)
      clash_commute [of "tag_assignments d'" a b]
    by (auto simp: clash_free_def assms(5))
  then show ?thesis using ok' by (simp add: table_ok_def clash_free_def)
qed

lemma create_success:
  assumes "create_schedule env utc_now user new_id raw st = Inr st'"
  obtains data name a en s where
    "check_create raw = Inr data" "unique_name (sc_name data) (schedules (api_db st)) = Some name"
    "resolve_end_time data a (as_assets st) = Inr en"
    "s = new_schedule new_id name data a (List.find (\<lambda>g. dg_id g = sc_group_id data) (as_groups st)) en"
    "check_conflicts s (api_db st) None = None"
    "st' = trigger_eval env (push_to_targets env s (audit ''schedule.create'' new_id
       (set_db ((api_db st)\<lparr>schedules := schedules (api_db st) @ [s]\<rparr>) st)))"
proof -
  have name: "(case unique_name n rows of Some x \<Rightarrow> Inr x | None \<Rightarrow> Inl (Uncaught OverflowError)) = Inr y
      \<longleftrightarrow> unique_name n rows = Some y" for n rows y by (simp split: option.splits)
  show thesis
    using assms unfolding create_schedule_def Let_def result_bind_eq_Inr name guard_Inr sum.inject
    by (elim exE conjE) (rule that, assumption, assumption, assumption, rule refl, assumption, erule sym)
qed

lemma check_create_fields:
  assumes "check_create raw = Inr data"
  shows "sc_start_time data = sc_start_time raw" "sc_end_time data = sc_end_time raw"
    "sc_start_date data = sc_start_date raw" "sc_end_date data = sc_end_date raw"
    "sc_end_time raw \<noteq> Some (sc_start_time raw)"
  using assms by (auto simp: check_create_def result_bind_eq_Inr split: if_splits)

definition request_dates_ok :: "datetime option \<Rightarrow> datetime option \<Rightarrow> bool" where
  "request_dates_ok a b \<longleftrightarrow> (\<forall>dt \<in> set_option a \<union> set_option b. date_min < dt_date dt \<and> dt_date dt < date_max - 1)"

definition create_ok :: "schedule_create \<Rightarrow> bool" where
  "create_ok raw \<longleftrightarrow> request_times_ok (sc_start_time raw) (sc_end_time raw)
     \<and> request_dates_ok (sc_start_date raw) (sc_end_date raw)"

lemma resolve_end_time_ok:
  assumes "resolve_end_time data a assets = Inr en" "request_times_ok (sc_start_time data) (sc_end_time data)"
    and "sc_end_time data \<noteq> Some (sc_start_time data)"
  shows "valid_time en" "en \<noteq> sc_start_time data"
  using assms resolve_loop_end_valid [of "sc_loop_count data" "sc_asset_id data" "sc_start_time data" assets]
    resolve_loop_end_neq [of "sc_start_time data" "sc_loop_count data" "sc_asset_id data" assets]
  by (auto simp: resolve_end_time_def request_times_ok_def result_bind_eq_Inr split: option.splits if_splits)

lemma new_schedule_valid:
  assumes "check_create raw = Inr data" "create_ok raw" "resolve_end_time data a assets = Inr en"
  shows "valid_schedule (new_schedule i n data a g en)" "inner_dates (new_schedule i n data a g en)"
    "start_time (new_schedule i n data a g en) \<noteq> end_time (new_schedule i n data a g en)"
  using resolve_end_time_ok [OF assms(3)] assms(2) check_create_fields [OF assms(1)]
  by (auto simp: new_schedule_def valid_schedule_def inner_dates_def create_ok_def request_times_ok_def
      request_dates_ok_def)

lemma create_table_ok:
  assumes "create_schedule env utc_now user new_id raw st = Inr st'" "table_ok (api_db st)" "create_ok raw"
    and "new_id \<notin> sched_id ` set (schedules (api_db st))"
  shows "table_ok (api_db st')"
proof -
  obtain data name a en s where c: "check_create raw = Inr data" "resolve_end_time data a (as_assets st) = Inr en"
    and s: "s = new_schedule new_id name data a (List.find (\<lambda>g. dg_id g = sc_group_id data) (as_groups st)) en"
    and cc: "check_conflicts s (api_db st) None = None"
    and st': "st' = trigger_eval env (push_to_targets env s (audit ''schedule.create'' new_id
       (set_db ((api_db st)\<lparr>schedules := schedules (api_db st) @ [s]\<rparr>) st)))"
    by (rule create_success [OF assms(1)])
  note v = new_schedule_valid [OF c(1) assms(3) c(2)]
  have "table_ok ((api_db st)\<lparr>schedules := schedules (api_db st) @ [s]\<rparr>)"
    by (rule table_ok_insert [OF assms(2) _ _ _ cc])
       (use v assms(4) in \<open>auto simp: s new_schedule_def\<close>)
  then show ?thesis unfolding st' by (intro table_ok_trigger) simp
qed

lemma update_success:
  assumes "update_schedule env utc_now user sid raw st = Inr st'"
  obtains u s en a g s' d' where
    "check_update raw = Inr u" "List.find (\<lambda>s. sched_id s = sid) (schedules (api_db st)) = Some s"
    "verify_schedule_access s user"
    "update_end_time u s (upd (su_asset_id u) (the_id (sched_asset s)))
       (case List.find (\<lambda>x. asset_id x = upd (su_asset_id u) (the_id (sched_asset s))) (as_assets st) of
          None \<Rightarrow> False | Some x \<Rightarrow> is_url_asset x) (as_assets st) = Inr en"
    "s' = apply_update u en a g s"
    "d' = (api_db st)\<lparr>schedules := update_where (\<lambda>x. sched_id x = sid) (\<lambda>_. s') (schedules (api_db st)),
         device_skips := delete_where (\<lambda>(i, dv, t). i = sid) (device_skips (api_db st))\<rparr>"
    "check_conflicts s' d' (Some sid) = None"
    "st' = trigger_eval env (push_to_targets env s' (audit ''schedule.update'' sid (set_db d' st)))"
proof -
  obtain u where u: "check_update raw = Inr u"
    using assms by (cases "check_update raw") (simp_all add: update_schedule_def Let_def)
  obtain s where s: "List.find (\<lambda>s. sched_id s = sid) (schedules (api_db st)) = Some s"
    using assms u by (auto simp: update_schedule_def Let_def split: option.splits)
  have acc: "verify_schedule_access s user"
    using assms u s by (auto simp: update_schedule_def Let_def split: if_splits)
  show thesis
    using assms u s acc unfolding update_schedule_def Let_def
    by (simp add: result_bind_eq_Inr del: ex_simps all_simps)
       (elim exE conjE, rule that [OF u s acc], assumption, rule refl, rule refl, assumption, erule sym)
qed

definition update_ok :: "schedule_update \<Rightarrow> bool" where
  "update_ok u \<longleftrightarrow> (\<forall>t \<in> set_option (su_start_time u) \<union> set_option (su_end_time u). valid_time t)
     \<and> request_dates_ok (upd (su_start_date u) None) (upd (su_end_date u) None)"

lemma check_update_fields:
  assumes "check_update raw = Inr u"
  shows "su_start_time u = su_start_time raw" "su_end_time u = su_end_time raw"
    "su_start_date u = su_start_date raw" "su_end_date u = su_end_date raw"
  using assms by (auto simp: check_update_def result_bind_eq_Inr split: if_splits)

lemma update_end_time_valid:
  assumes "update_end_time u s aid is_url assets = Inr en" "update_ok u" "en = Some t"
  shows "valid_time t"
  using assms resolve_loop_end_valid
  by (auto simp: update_end_time_def Let_def result_bind_eq_Inr update_ok_def split: if_splits option.splits)

lemma apply_update_valid:
  assumes "valid_schedule s" "inner_dates s" "update_ok u" "\<And>t. en = Some t \<Longrightarrow> valid_time t"
  shows "valid_schedule (apply_update u en a g s)" "inner_dates (apply_update u en a g s)"
proof -
  show "valid_schedule (apply_update u en a g s)"
    using assms by (auto simp: apply_update_def valid_schedule_def update_ok_def upd_def split: option.splits)
  show "inner_dates (apply_update u en a g s)"
    using assms(2,3) by (auto simp: apply_update_def inner_dates_def update_ok_def request_dates_ok_def
        upd_def split: option.splits)
qed

lemma apply_update_id [simp]: "sched_id (apply_update u en a g s) = sched_id s"
  by (simp add: apply_update_def)

lemma find_schedule:
  "List.find (\<lambda>s. sched_id s = sid) rows = Some s \<Longrightarrow> s \<in> set rows \<and> sched_id s = sid"
  by (auto simp: find_Some_iff in_set_conv_nth)

lemma update_table_ok:
  assumes "update_schedule env utc_now user sid raw st = Inr st'" "table_ok (api_db st)" "update_ok raw"
  shows "table_ok (api_db st')"
proof -
  obtain u s en a g s' d' where u: "check_update raw = Inr u"
    and s: "List.find (\<lambda>s. sched_id s = sid) (schedules (api_db st)) = Some s"
    and en: "update_end_time u s (upd (su_asset_id u) (the_id (sched_asset s)))
       (case List.find (\<lambda>x. asset_id x = upd (su_asset_id u) (the_id (sched_asset s))) (as_assets st) of
          None \<Rightarrow> False | Some x \<Rightarrow> is_url_asset x) (as_assets st) = Inr en"
    and s': "s' = apply_update u en a g s"
    and d': "d' = (api_db st)\<lparr>schedules := update_where (\<lambda>x. sched_id x = sid) (\<lambda>_. s') (schedules (api_db st)),
         device_skips := delete_where (\<lambda>(i, dv, t). i = sid) (device_skips (api_db st))\<rparr>"
    and cc: "check_conflicts s' d' (Some sid) = None"
    and st': "st' = trigger_eval env (push_to_targets env s' (audit ''schedule.update'' sid (set_db d' st)))"
    by (rule update_success [OF assms(1)])
  have sm: "s \<in> set (schedules (api_db st))" "sched_id s = sid" using find_schedule [OF s] by auto
  have uo: "update_ok u" using assms(3) check_update_fields [OF u] by (simp add: update_ok_def)
  have "valid_schedule s" "inner_dates s" using sm(1) assms(2) by (auto simp: table_ok_def schedules_ok_def)
  from apply_update_valid [OF this uo update_end_time_valid [OF en uo]]
  have "table_ok d'"
    by (intro table_ok_replace [OF assms(2) _ _ _ d' cc]) (simp_all add: s' sm(2))
  then show ?thesis unfolding st' by (intro table_ok_trigger) simp
qed

lemma delete_table_ok:
  assumes "delete_schedule env user sid st = Inr st'" "table_ok (api_db st)"
  shows "table_ok (api_db st')"
proof -
  have "table_ok ((api_db st)\<lparr>schedules := delete_where (\<lambda>x. sched_id x = sid) (schedules (api_db st)),
      device_skips := ds\<rparr>)" for ds
    using table_ok_skip(2) [OF table_ok_delete [OF assms(2)]] by simp
  then show ?thesis
    using assms(1) table_ok_trigger
    by (auto simp: delete_schedule_def Let_def split: option.splits if_splits)
qed

lemma end_now_db:
  assumes "end_schedule_now env user sid dev st = Inr st'"
  obtains s where "List.find (\<lambda>s. sched_id s = sid) (schedules (api_db st)) = Some s"
    "verify_schedule_access s user"
    "\<forall>did. dev = Some did \<longrightarrow> did \<in> targets s (devices (api_db st)) (tag_assignments (api_db st))"
    "api_db st' = (case dev of
        None \<Rightarrow> (api_db st)\<lparr>schedules := update_where (\<lambda>x. sched_id x = sid)
           (\<lambda>x. x\<lparr>skipped_until := Some (end_now_until s (te_local_now env))\<rparr>) (schedules (api_db st))\<rparr>
      | Some did \<Rightarrow> (api_db st)\<lparr>device_skips :=
           upsert_skip sid did (end_now_until s (te_local_now env)) (device_skips (api_db st))\<rparr>)"
proof -
  obtain s where s: "List.find (\<lambda>s. sched_id s = sid) (schedules (api_db st)) = Some s"
    using assms by (auto simp: end_schedule_now_def Let_def split: option.splits)
  have acc: "verify_schedule_access s user"
    using assms s by (auto simp: end_schedule_now_def Let_def split: if_splits)
  have t: "\<forall>did. dev = Some did \<longrightarrow> did \<in> targets s (devices (api_db st)) (tag_assignments (api_db st))"
  proof (intro allI impI)
    fix did assume "dev = Some did"
    then show "did \<in> targets s (devices (api_db st)) (tag_assignments (api_db st))"
      using assms s acc set_get_target_device_ids [of s "devices (api_db st)" "tag_assignments (api_db st)"]
      by (auto simp: end_schedule_now_def Let_def split: if_splits)
  qed
  show thesis
  proof (cases dev)
    case None
    then show ?thesis using assms by (intro that [OF s acc t]) (auto simp: end_schedule_now_def Let_def s acc)
  next
    case (Some did)
    then show ?thesis using assms
      by (intro that [OF s acc t]) (auto simp: end_schedule_now_def Let_def s acc split: if_splits)
  qed
qed

lemma end_now_table_ok:
  assumes "end_schedule_now env user sid dev st = Inr st'" "table_ok (api_db st)"
  shows "table_ok (api_db st')"
  by (rule end_now_db [OF assms(1)]) (simp add: table_ok_skip [OF assms(2)] split: option.splits)

subsection \<open>The API as a transition system\<close>

inductive api_step :: "api_state \<Rightarrow> api_state \<Rightarrow> bool" where
  step_create: "create_schedule env utc_now user new_id raw st = Inr st' \<Longrightarrow> create_ok raw
    \<Longrightarrow> new_id \<notin> sched_id ` set (schedules (api_db st)) \<Longrightarrow> api_step st st'"
| step_update: "update_schedule env utc_now user sid raw st = Inr st' \<Longrightarrow> update_ok raw \<Longrightarrow> api_step st st'"
| step_delete: "delete_schedule env user sid st = Inr st' \<Longrightarrow> api_step st st'"
| step_end_now: "end_schedule_now env user sid dev st = Inr st' \<Longrightarrow> api_step st st'"
| step_tick: "api_step st (trigger_eval env st)"

lemma api_step_table_ok: "api_step st st' \<Longrightarrow> table_ok (api_db st) \<Longrightarrow> table_ok (api_db st')"
  by (induction rule: api_step.induct)
     (blast intro: create_table_ok update_table_ok delete_table_ok end_now_table_ok table_ok_trigger)+

interpretation api_runs: step_invariant api_step "\<lambda>st. table_ok (api_db st)"
  by unfold_locales (rule api_step_table_ok)

text \<open>No clash in the table means no conflict on any device.\<close>

lemma clash_free_no_conflict:
  assumes "table_ok d" "dev \<in> set (devices d)"
    and "a \<in> reach (schedules d) (current_device_targeting d did)"
    and "b \<in> reach (schedules d) (current_device_targeting d did)"
  shows "\<not> conflict a b"
proof
  assume c: "conflict a b"
  have ab: "a \<in> set (schedules d)" "b \<in> set (schedules d)" "group_id a \<noteq> None" "group_id a = group_id b"
    using assms(3,4) by (auto simp: reach_def)
  have tags: "(t, did) \<in> set (tag_assignments d)"
    if "s \<in> {a, b}" "tag_id s = Some t" for s t
    using that assms(3,4) by (auto simp: reach_def current_device_targeting_def)
  have "targets_overlap a b (tag_assignments d)"
    using tags [of a] tags [of b]
    by (cases "tag_id a"; cases "tag_id b") (auto simp: targets_overlap_def list_ex_iff)
  moreover have "sched_id a \<noteq> sched_id b"
    using c ab(1,2) assms(1) reach_id_inject by (auto simp: conflict_def table_ok_def)
  ultimately have "clash (tag_assignments d) a b" using c ab by (auto simp: clash_def conflict_def)
  then show False using assms(1) ab by (auto simp: table_ok_def clash_free_def)
qed

subsection \<open>Unique names\<close>

lemma suffixed_inject: "0 \<le> m \<Longrightarrow> 0 \<le> n \<Longrightarrow> suffixed name m = suffixed name n \<Longrightarrow> m = n"
  by (rule int_text_inject) (simp_all add: suffixed_def)


lemma unique_name_total: "\<exists>x. unique_name name rows = Some x \<and> x \<notin> sched_name ` set rows"
proof (cases "name \<in> sched_name ` set rows")
  case False
  then show ?thesis by (simp add: unique_name_def Let_def)
next
  case True
  have "\<exists>x. unique_suffix (Suc (length (map sched_name rows))) name (map sched_name rows) 2 = Some x \<and> x \<notin> set (map sched_name rows)"
    unfolding unique_suffix_def by (rule first_free_total) (use suffixed_inject in auto)
  then show ?thesis using True by (simp add: unique_name_def Let_def)
qed

subsection \<open>End Now\<close>

lemma end_now_in_future:
  assumes "valid_schedule s" "valid_datetime now" "dt_us now \<in> covers s"
  shows "now < end_now_until s now"
proof (cases "end_time s \<le> start_time s")
  case True
  then show ?thesis by (simp add: end_now_until_def less_datetime_def)
next
  case False
  have v: "valid_time (start_time s)" "valid_time (end_time s)" "valid_time (dt_time now)"
    using assms(1,2) by (auto simp: valid_schedule_def valid_datetime_def)
  have lt: "time_us (start_time s) < time_us (end_time s)"
    using False by (simp add: time_le_iff [OF v(2,1)])
  obtain d where "d \<in> anchors s" "dt_us now \<in> occurrence s d" using assms(3) by (auto simp: covers_def)
  then have b: "d * DAY_US + time_us (start_time s) \<le> dt_us now" "dt_us now < d * DAY_US + time_us (end_time s)"
    using lt by (auto simp: occurrence_def Let_def)
  have r: "0 \<le> time_us (start_time s)" "time_us (end_time s) < DAY_US" "0 \<le> time_us (dt_time now)"
    "time_us (dt_time now) < DAY_US"
    using time_us_range v by auto
  have "d = dt_date now" using b r unfolding dt_us_def DAY_US_def by linarith
  then have "time_us (dt_time now) < time_us (end_time s)" using b(2) by (simp add: dt_us_def)
  then show ?thesis
    using False by (simp add: end_now_until_def less_datetime_def time_less_iff [OF v(3,2)])
qed

lemma upsert_skip_mem: "(sid, did, until) \<in> set (upsert_skip sid did until rows)"
  by (force simp: upsert_skip_def set_update_where)

lemma upsert_skip_other:
  "did' \<noteq> did \<or> sid' \<noteq> sid \<Longrightarrow>
     (sid', did', u) \<in> set (upsert_skip sid did until rows) \<longleftrightarrow> (sid', did', u) \<in> set rows"
  by (auto simp: upsert_skip_def set_update_where)

lemma purge_fields:
  "devices (purge_skips raw t d) = devices d" "tag_assignments (purge_skips raw t d) = tag_assignments d"
  by (simp_all add: purge_skips_def)

lemma purge_rows:
  assumes "s \<in> set (schedules (purge_skips raw t d))"
  obtains s0 where "s0 \<in> set (schedules d)" "s = s0 \<or> s = s0\<lparr>skipped_until := None\<rparr>"
  using assms by (auto simp: purge_skips_def set_update_where)

lemma purge_skips_sub: "set (device_skips (purge_skips raw t d)) \<subseteq> set (device_skips d)"
  by (auto simp: purge_skips_def set_delete_where)

section \<open>Properties\<close>

text \<open>
  The write-time conflict gate works. Starting from a clash-free table, after any sequence
  of creates, updates, deletes, End Now requests and evaluation passes, the table is clash-free
  and its identifiers are distinct; hence on every adopted device the schedule that plays has
  strictly higher priority than any other that could, at every instant.
\<close>

theorem api_never_needs_tie_break:
  assumes "table_ok (api_db st0)" and "api_step\<^sup>*\<^sup>* st0 st"
    and "d \<in> set (devices (api_db st))" and "dev_status d = ADOPTED"
    and "distinct (map dev_id (devices (api_db st)))"
    and "plays (api_db st) t (dev_id d) s" and "eligible (api_db st) t (dev_id d) s'" and "s' \<noteq> s"
  shows "clash_free (api_db st) \<and> priority s' < priority s"
proof -
  have ok: "table_ok (api_db st)" by (rule api_runs.run_keeps [OF assms(2,1)])
  have "\<forall>a \<in> reach (schedules (api_db st)) (current_device_targeting (api_db st) (dev_id d)).
      \<forall>b \<in> reach (schedules (api_db st)) (current_device_targeting (api_db st) (dev_id d)). \<not> conflict a b"
    using clash_free_no_conflict [OF ok assms(3)] by blast
  from strict_winner [OF assms(3,4,5) this assms(6-8)] ok show ?thesis by (simp add: table_ok_def)
qed

definition sample_api :: "cms_db \<Rightarrow> api_state" where
  "sample_api d = \<lparr>as_eval = empty_state d, as_assets = [sample_asset],
     as_groups = [\<lparr>dg_id = ''g'', dg_name = ''G'', dg_default_asset = None\<rparr>],
     as_tags = [], as_slides = [], as_audit = []\<rparr>"

lemma sample_table_ok: "table_ok (api_db (sample_api sample_db))"
proof -
  have p: "priority sample_late \<noteq> priority sample_early" by code_simp
  then show ?thesis
    using sample_schedules_ok
    by (auto simp: table_ok_def sample_api_def empty_state_def clash_free_def sample_rows clash_def)
qed

theorem api_never_needs_tie_break_witness:
  "clash_free (api_db (sample_api sample_db)) \<and> priority sample_late < priority sample_early"
proof (rule api_never_needs_tie_break [OF sample_table_ok rtranclp.rtrancl_refl, of sample_device sample_now])
  have id: "dev_id sample_device = ''d1''" by (simp add: sample_device_def)
  have db: "api_db (sample_api sample_db) = sample_db" by (simp add: sample_api_def empty_state_def)
  show "sample_device \<in> set (devices (api_db (sample_api sample_db)))" "dev_status sample_device = ADOPTED"
    "distinct (map dev_id (devices (api_db (sample_api sample_db))))"
    by (simp_all add: db sample_rows sample_device_def)
  show "eligible (api_db (sample_api sample_db)) sample_now (dev_id sample_device) sample_late"
    using sample_eligible(1) by (simp add: id db)
  have "schedule_wins sample_early (Some sample_late)" by code_simp
  moreover have "s' = sample_late \<or> s' = sample_early" if "eligible sample_db sample_now ''d1'' s'" for s'
    using that by (auto simp: eligible_def sample_rows)
  ultimately show "plays (api_db (sample_api sample_db)) sample_now (dev_id sample_device) sample_early"
    using sample_eligible(2) by (auto simp: plays_def id db)
  show "sample_late \<noteq> sample_early"
    by (simp add: sample_late_def sample_early_def sample_schedule_def sample_tuesday_def)
qed

text \<open>
  A created schedule can play and has a name of its own. The search for a free name always
  ends, with a name no other schedule has; and on success the new row is in the table, its end
  time, given or computed from the loop count, differs from its start time, and the identifiers
  of the other rows are as before.
\<close>

theorem create_schedule_plays:
  assumes "create_schedule env utc_now user new_id raw st = Inr st'" and "create_ok raw"
  shows "(\<exists>n. unique_name (sc_name raw) (schedules (api_db st)) = Some n
          \<and> n \<notin> sched_name ` set (schedules (api_db st)))
    \<and> map sched_id (schedules (api_db st')) = map sched_id (schedules (api_db st)) @ [new_id]
    \<and> start_time (last (schedules (api_db st'))) \<noteq> end_time (last (schedules (api_db st')))
    \<and> sched_name (last (schedules (api_db st'))) \<notin> sched_name ` set (schedules (api_db st))"
proof -
  obtain data name a en s where c: "check_create raw = Inr data" "unique_name (sc_name data) (schedules (api_db st)) = Some name"
    "resolve_end_time data a (as_assets st) = Inr en"
    and s: "s = new_schedule new_id name data a (List.find (\<lambda>g. dg_id g = sc_group_id data) (as_groups st)) en"
    and st': "st' = trigger_eval env (push_to_targets env s (audit ''schedule.create'' new_id
       (set_db ((api_db st)\<lparr>schedules := schedules (api_db st) @ [s]\<rparr>) st)))"
    by (rule create_success [OF assms(1)])
  have v: "start_time s \<noteq> end_time s" using new_schedule_valid(3) [OF c(1) assms(2) c(3)] s by simp
  have n: "name \<notin> sched_name ` set (schedules (api_db st))"
    using unique_name_total [of "sc_name data" "schedules (api_db st)"] c(2) by auto
  obtain P where rows: "schedules (api_db st')
      = update_where P (\<lambda>x. x\<lparr>skipped_until := None\<rparr>) (schedules (api_db st) @ [s])"
    by (simp add: st' trigger_db purge_skips_def)
  have "map sched_id (schedules (api_db st')) = map sched_id (schedules (api_db st)) @ [new_id]"
    unfolding rows by (subst schedule_rows.keys_update) (auto simp: s new_schedule_def)
  moreover have "last (schedules (api_db st')) = (if P s then s\<lparr>skipped_until := None\<rparr> else s)"
    by (simp add: rows update_where_def)
  ultimately show ?thesis
    using v n unique_name_total [of "sc_name raw"] by (simp add: s new_schedule_def)
qed

definition sample_create :: schedule_create where
  "sample_create = \<lparr>sc_name = ''Late'', sc_group_id = ''g'', sc_tag_id = None, sc_asset_id = ''a1'',
     sc_start_date = None, sc_end_date = None, sc_start_time = Time 9 0 0 0,
     sc_end_time = Some (Time 10 0 0 0), sc_days_of_week = None, sc_priority = 0, sc_enabled = True,
     sc_loop_count = None\<rparr>"

theorem create_schedule_plays_witness:
  "\<exists>st'. create_schedule (offline_env sample_now 0) sample_now None ''s9'' sample_create (sample_api sample_db) = Inr st'
     \<and> map sched_id (schedules (api_db st')) = map sched_id (schedules (api_db (sample_api sample_db))) @ [''s9'']
     \<and> start_time (last (schedules (api_db st'))) \<noteq> end_time (last (schedules (api_db st')))
     \<and> sched_name (last (schedules (api_db st'))) = ''Late (2)''"
proof -
  let ?r = "create_schedule (offline_env sample_now 0) sample_now None ''s9'' sample_create (sample_api sample_db)"
  have ev: "case ?r of Inl e \<Rightarrow> False | Inr st' \<Rightarrow> sched_name (last (schedules (api_db st'))) = ''Late (2)''"
    by code_simp
  then obtain st' where st': "?r = Inr st'" by (auto split: sum.splits)
  have "create_ok sample_create"
    by (simp add: create_ok_def sample_create_def request_times_ok_def request_dates_ok_def valid_time_def)
  from create_schedule_plays [OF st' this] show ?thesis using st' ev by auto
qed

text \<open>
  Editing a schedule lifts every End Now on it: after a successful update the schedule is
  not skipped at any time on any device, neither by its own marker nor by a per-device row.
\<close>

theorem update_lifts_skips:
  assumes "update_schedule env utc_now user sid raw st = Inr st'"
    and "s \<in> set (schedules (api_db st'))" and "sched_id s = sid"
  shows "\<not> skipped_at (api_db st') t s did"
proof -
  obtain u s0 en a g s' d' where f: "List.find (\<lambda>s. sched_id s = sid) (schedules (api_db st)) = Some s0"
    and s': "s' = apply_update u en a g s0"
    and d': "d' = (api_db st)\<lparr>schedules := update_where (\<lambda>x. sched_id x = sid) (\<lambda>_. s') (schedules (api_db st)),
         device_skips := delete_where (\<lambda>(i, dv, t). i = sid) (device_skips (api_db st))\<rparr>"
    and st': "st' = trigger_eval env (push_to_targets env s' (audit ''schedule.update'' sid (set_db d' st)))"
    by (rule update_success [OF assms(1)])
  let ?raw = "load_skip_snapshot (schedules d') (device_skips d')"
  have db: "api_db st' = purge_skips ?raw (te_local_now env) d'" by (simp add: st' trigger_db)
  obtain s1 where s1: "s1 \<in> set (schedules d')" "s = s1 \<or> s = s1\<lparr>skipped_until := None\<rparr>"
    using assms(2) unfolding db by (rule purge_rows)
  then have "sched_id s1 = sid" using assms(3) by auto
  then have "s1 = s'" using s1(1) by (auto simp: d' set_update_where)
  then have "skipped_until s = None" using s1(2) by (auto simp: s' apply_update_def)
  moreover have "(sid, did, w) \<notin> set (device_skips (api_db st'))" for w
    using purge_skips_sub [of ?raw "te_local_now env" d'] by (auto simp: db d' set_delete_where)
  ultimately show ?thesis using assms(3) by (simp add: skipped_at_def)
qed

definition no_update :: schedule_update where
  "no_update = \<lparr>su_name = None, su_group_id = None, su_tag_id = None, su_asset_id = None,
     su_start_date = None, su_end_date = None, su_start_time = None, su_end_time = None,
     su_days_of_week = None, su_priority = None, su_enabled = None, su_loop_count = None\<rparr>"

definition skipped_db :: cms_db where
  "skipped_db = sample_db\<lparr>device_skips := [(''s1'', ''d1'', Datetime 737998 (Time 2 0 0 0))]\<rparr>"

theorem update_lifts_skips_witness:
  "\<exists>st' s. update_schedule (offline_env sample_now 0) sample_now None ''s1'' (no_update\<lparr>su_priority := Some 3\<rparr>)
        (sample_api skipped_db) = Inr st'
     \<and> sched_id s = ''s1'' \<and> priority s = 3 \<and> \<not> skipped_at (api_db st') sample_now s ''d1''
     \<and> skipped_at skipped_db sample_now sample_late ''d1''"
proof -
  let ?r = "update_schedule (offline_env sample_now 0) sample_now None ''s1'' (no_update\<lparr>su_priority := Some 3\<rparr>)
        (sample_api skipped_db)"
  have ev: "case ?r of Inl e \<Rightarrow> False | Inr st' \<Rightarrow> map sched_id (schedules (api_db st')) = [''s1'', ''s2'']
      \<and> priority (hd (schedules (api_db st'))) = 3" by code_simp
  then obtain st' where st': "?r = Inr st'" by (auto split: sum.splits)
  with ev obtain s where s: "s \<in> set (schedules (api_db st'))" "sched_id s = ''s1''" "priority s = 3"
    by (cases "schedules (api_db st')") auto
  have "skipped_at skipped_db sample_now sample_late ''d1''"
    by (simp add: skipped_at_def skipped_db_def sample_late_def sample_schedule_def sample_now_def
        less_datetime_def less_py_time_def)
  then show ?thesis using st' s update_lifts_skips [OF st' s(1,2)] by blast
qed

text \<open>
  End Now takes effect at once and only where asked. If the schedule is in its window,
  then after a successful request it is skipped now on the named device, or on every device
  when none is named; a request naming one device changes nothing for the others. Users outside
  the schedule's group and devices it does not target are refused.
\<close>

theorem end_now_is_immediate:
  assumes "end_schedule_now env user sid dev st = Inr st'" and "table_ok (api_db st)"
    and "valid_datetime (te_local_now env)" and "s \<in> set (schedules (api_db st))" and "sched_id s = sid"
    and "dt_us (te_local_now env) \<in> covers s"
  shows "verify_schedule_access s user
    \<and> (case dev of
         None \<Rightarrow> (\<exists>s'. s' \<in> set (schedules (api_db st')) \<and> sched_id s' = sid
            \<and> skipped_at (api_db st') (te_local_now env) s' did)
       | Some dv \<Rightarrow> dv \<in> targets s (devices (api_db st)) (tag_assignments (api_db st))
            \<and> skipped_at (api_db st') (te_local_now env) s dv
            \<and> (did = dv \<or> skipped_at (api_db st') t s did = skipped_at (api_db st) t s did))"
proof -
  obtain s0 where f: "List.find (\<lambda>s. sched_id s = sid) (schedules (api_db st)) = Some s0"
    and acc: "verify_schedule_access s0 user"
    and tg: "\<forall>did. dev = Some did \<longrightarrow> did \<in> targets s0 (devices (api_db st)) (tag_assignments (api_db st))"
    and db: "api_db st' = (case dev of
        None \<Rightarrow> (api_db st)\<lparr>schedules := update_where (\<lambda>x. sched_id x = sid)
           (\<lambda>x. x\<lparr>skipped_until := Some (end_now_until s0 (te_local_now env))\<rparr>) (schedules (api_db st))\<rparr>
      | Some did \<Rightarrow> (api_db st)\<lparr>device_skips :=
           upsert_skip sid did (end_now_until s0 (te_local_now env)) (device_skips (api_db st))\<rparr>)"
    by (rule end_now_db [OF assms(1)])
  have ok: "schedules_ok (schedules (api_db st))" using assms(2) by (simp add: table_ok_def)
  then have s0: "s0 = s" using find_schedule [OF f] assms(4,5) reach_id_inject by metis
  have "valid_schedule s" using ok assms(4) by (simp add: schedules_ok_def)
  from end_now_in_future [OF this assms(3,6)]
  have fut: "te_local_now env < end_now_until s (te_local_now env)" .
  show ?thesis
  proof (cases dev)
    case None
    let ?s' = "s\<lparr>skipped_until := Some (end_now_until s (te_local_now env))\<rparr>"
    have "?s' \<in> set (schedules (api_db st'))"
      using assms(4,5) by (auto simp: db None s0 set_update_where)
    moreover have "skipped_at (api_db st') (te_local_now env) ?s' did" using fut by (simp add: skipped_at_def)
    ultimately show ?thesis using acc s0 None assms(5) by auto
  next
    case (Some dv)
    have "skipped_at (api_db st') (te_local_now env) s dv"
      using fut upsert_skip_mem [of sid dv "end_now_until s (te_local_now env)" "device_skips (api_db st)"] assms(5)
      by (auto simp: skipped_at_def db Some s0)
    moreover have "did = dv \<or> skipped_at (api_db st') t s did = skipped_at (api_db st) t s did"
      using upsert_skip_other by (auto simp: skipped_at_def db Some s0)
    ultimately show ?thesis using acc tg s0 Some by simp
  qed
qed

theorem end_now_is_immediate_witness:
  "\<exists>st'. end_schedule_now (offline_env sample_now 0) None ''s1'' (Some ''d1'') (sample_api sample_db) = Inr st'
     \<and> skipped_at (api_db st') sample_now sample_late ''d1''"
proof -
  let ?r = "end_schedule_now (offline_env sample_now 0) None ''s1'' (Some ''d1'') (sample_api sample_db)"
  have "case ?r of Inl e \<Rightarrow> False | Inr st' \<Rightarrow> True" by code_simp
  then obtain st' where st': "?r = Inr st'" by (auto split: sum.splits)
  have h: "valid_datetime (te_local_now (offline_env sample_now 0))" "sample_late \<in> set (schedules (api_db (sample_api sample_db)))"
    "sched_id sample_late = ''s1''" "dt_us (te_local_now (offline_env sample_now 0)) \<in> covers sample_late"
    using sample_eligible(1) sample_db_ok(2)
    by (auto simp: offline_env_def eligible_def clock_ok_def sample_api_def empty_state_def sample_rows
        sample_late_def sample_schedule_def)
  from end_now_is_immediate [OF st' sample_table_ok h, of "''d1''" sample_now] show ?thesis
    using st' by (auto simp: offline_env_def)
qed

text \<open>
  End Now after midnight also ends the next occurrence. At 01:00 on Tuesday, in the window
  of a daily schedule from 22:00 to 02:00 that began on Monday, End Now sets the skip to end at
  02:00 on Wednesday, so the whole occurrence that starts on Tuesday at 22:00 is skipped, while
  the request is documented to resume with the next regular occurrence.
\<close>

theorem end_now_skips_next_occurrence:
  "end_now_until evening_show (Datetime 737998 (Time 1 0 0 0)) = Datetime 737999 (Time 2 0 0 0)
   \<and> matches_now evening_show (Datetime 737998 (Time 1 0 0 0))
   \<and> matches_now evening_show (Datetime 737998 (Time 23 0 0 0))
   \<and> (case end_schedule_now (offline_env (Datetime 737998 (Time 1 0 0 0)) 0) None ''a'' None
         (sample_api (sample_db\<lparr>schedules := [evening_show\<lparr>sched_asset := Some sample_asset\<rparr>]\<rparr>)) of
        Inl e \<Rightarrow> False
      | Inr st' \<Rightarrow> compute_now_playing (api_db st') [] [] (Datetime 737998 (Time 23 0 0 0)) '''' = [])"
  by code_simp

text \<open>
  An update may leave a schedule that never plays: the check that start and end differ
  looks at the request only, so moving the end time alone onto the stored start time succeeds,
  and the enabled schedule then covers no instant.
\<close>

theorem update_can_empty_window:
  "case update_schedule (offline_env sample_now 0) sample_now None ''s1'' (no_update\<lparr>su_end_time := Some (Time 22 0 0 0)\<rparr>)
       (sample_api sample_db) of
     Inl e \<Rightarrow> False
   | Inr st' \<Rightarrow> (case List.find (\<lambda>s. sched_id s = ''s1'') (schedules (api_db st')) of
        None \<Rightarrow> False
      | Some s \<Rightarrow> enabled s \<and> start_time s = end_time s \<and> covers s = {})"
proof -
  let ?r = "update_schedule (offline_env sample_now 0) sample_now None ''s1'' (no_update\<lparr>su_end_time := Some (Time 22 0 0 0)\<rparr>)
       (sample_api sample_db)"
  have "case ?r of Inl e \<Rightarrow> False | Inr st' \<Rightarrow> (case List.find (\<lambda>s. sched_id s = ''s1'') (schedules (api_db st')) of
        None \<Rightarrow> False | Some s \<Rightarrow> enabled s \<and> start_time s = end_time s)" by code_simp
  then show ?thesis by (auto simp: covers_empty split: sum.splits option.splits)
qed

text \<open>
  Access control of the by-identifier handlers is exact, and creation has none. Update,
  delete and End Now of a schedule of a group outside the user's groups are refused with 403;
  creating a schedule in such a group is not refused.
\<close>

theorem schedule_group_access:
  "\<forall>s gs. List.find (\<lambda>x. sched_id x = sid) (schedules (api_db st)) = Some s \<longrightarrow>
      group_id s = Some g \<longrightarrow> g \<notin> set gs \<longrightarrow>
      (\<forall>u. check_update raw = Inr u \<longrightarrow> update_schedule env utc_now (Some (Some gs)) sid raw st = Inl access_denied)
      \<and> delete_schedule env (Some (Some gs)) sid st = Inl access_denied
      \<and> end_schedule_now env (Some (Some gs)) sid dev st = Inl access_denied
      \<and> create_schedule env utc_now (Some (Some gs)) new_id req st = create_schedule env utc_now None new_id req st"
  by (auto simp: update_schedule_def delete_schedule_def end_schedule_now_def create_schedule_def
      verify_schedule_access_def Let_def)

theorem schedule_group_access_witness:
  "delete_schedule (offline_env sample_now 0) (Some (Some [''h''])) ''s1'' (sample_api sample_db) = Inl access_denied
   \<and> (case create_schedule (offline_env sample_now 0) sample_now (Some (Some [''h''])) ''s9'' sample_create
         (sample_api sample_db) of Inl e \<Rightarrow> False | Inr st' \<Rightarrow> True)"
proof -
  have "case create_schedule (offline_env sample_now 0) sample_now None ''s9'' sample_create
         (sample_api sample_db) of Inl e \<Rightarrow> False | Inr st' \<Rightarrow> True" by code_simp
  moreover have "List.find (\<lambda>x. sched_id x = ''s1'') (schedules (api_db (sample_api sample_db))) = Some sample_late"
    "group_id sample_late = Some ''g''"
    by (simp_all add: sample_api_def empty_state_def sample_rows sample_late_def sample_schedule_def)
  ultimately show ?thesis
    using schedule_group_access [of "''s1''" "sample_api sample_db" "''g''" _ _ sample_now _ "''s9''" sample_create] by simp
qed

end
