(* ===== verification/Leader.thy ===== *)
theory Leader
  imports Table
begin

text \<open>
  Leader election, \<^verbatim>\<open>cms/services/leader.py\<close>: the table-backed \<^verbatim>\<open>LeaderLease\<close> with its
  heartbeat, and the advisory lock of the housekeeping loops. Each SQL statement is atomic and
  reads the database clock once; replicas interleave between statements, and may crash or lose
  the database at any point, which the step relation \<open>lease_step\<close> makes explicit. Instants are
  microseconds.
\<close>

section \<open>Definitions\<close>

record lease_row =
  lr_loop_name :: string
  lr_holder_id :: string
  lr_expires_at :: int
  lr_renewed_at :: int

record leader_lease =
  ll_loop_name :: string
  ll_ttl_s :: int
  ll_heartbeat_s :: int
  ll_holder_id :: string
  ll_task :: bool
  ll_is_leader :: bool
  ll_enabled :: bool

definition lease_init :: "string \<Rightarrow> int \<Rightarrow> int \<Rightarrow> string \<Rightarrow> leader_lease result" where
  "lease_init loop ttl_s heartbeat_s holder =
     (if heartbeat_s \<ge> ttl_s
      then Inl (ValueError (''heartbeat_s ('' @ int_text heartbeat_s @ '') must be < ttl_s (''
        @ int_text ttl_s @ ''); rule of thumb ttl_s = 3 '' @ [CHR 0xC3, CHR 0x97] @ '' heartbeat_s''))
      else Inr \<lparr>ll_loop_name = loop, ll_ttl_s = ttl_s, ll_heartbeat_s = heartbeat_s,
        ll_holder_id = holder, ll_task = False, ll_is_leader = False, ll_enabled = True\<rparr>)"

definition is_leader :: "leader_lease \<Rightarrow> bool" where
  "is_leader l \<longleftrightarrow> (if \<not> ll_enabled l then True else ll_is_leader l)"

text \<open>The upsert: insert, or take over an expired row, or renew one's own.\<close>

definition lease_row_for :: "leader_lease \<Rightarrow> int \<Rightarrow> lease_row" where
  "lease_row_for l now = \<lparr>lr_loop_name = ll_loop_name l, lr_holder_id = ll_holder_id l,
     lr_expires_at = now + ll_ttl_s l * 1000000, lr_renewed_at = now\<rparr>"

definition try_acquire :: "leader_lease \<Rightarrow> int \<Rightarrow> lease_row list \<Rightarrow> bool \<times> lease_row list" where
  "try_acquire l now rows =
     (case find_by lr_loop_name (ll_loop_name l) rows of
        None \<Rightarrow> (True, rows @ [lease_row_for l now])
      | Some r \<Rightarrow>
          if lr_expires_at r < now \<or> lr_holder_id r = ll_holder_id l
          then (True, update_where (\<lambda>x. lr_loop_name x = ll_loop_name l) (\<lambda>_. lease_row_for l now) rows)
          else (False, rows))"

text \<open>\<^verbatim>\<open>start\<close>: \<open>pg\<close> says whether the backend is Postgres, \<open>db_ok\<close> whether the first
  acquire raised.\<close>

definition lease_start ::
  "bool \<Rightarrow> bool \<Rightarrow> int \<Rightarrow> leader_lease \<Rightarrow> lease_row list \<Rightarrow> leader_lease \<times> lease_row list" where
  "lease_start pg db_ok now l rows =
     (if ll_task l then (l, rows)
      else if \<not> pg then (l\<lparr>ll_enabled := False\<rparr>, rows)
      else if db_ok then
        (let (won, rows') = try_acquire l now rows in (l\<lparr>ll_is_leader := won, ll_task := True\<rparr>, rows'))
      else (l\<lparr>ll_is_leader := False, ll_task := True\<rparr>, rows))"

text \<open>One turn of the heartbeat loop, after its sleep.\<close>

definition heartbeat ::
  "bool \<Rightarrow> int \<Rightarrow> leader_lease \<Rightarrow> lease_row list \<Rightarrow> leader_lease \<times> lease_row list" where
  "heartbeat db_ok now l rows =
     (if db_ok then (let (won, rows') = try_acquire l now rows in (l\<lparr>ll_is_leader := won\<rparr>, rows'))
      else (l\<lparr>ll_is_leader := False\<rparr>, rows))"

definition release ::
  "bool \<Rightarrow> int \<Rightarrow> leader_lease \<Rightarrow> lease_row list \<Rightarrow> leader_lease \<times> lease_row list" where
  "release db_ok now l rows =
     (if \<not> ll_enabled l then (l\<lparr>ll_is_leader := False\<rparr>, rows)
      else (l\<lparr>ll_is_leader := False\<rparr>,
        if db_ok then update_where (\<lambda>r. lr_loop_name r = ll_loop_name l \<and> lr_holder_id r = ll_holder_id l)
          (\<lambda>r. r\<lparr>lr_expires_at := now\<rparr>) rows
        else rows))"

definition lease_stop ::
  "bool \<Rightarrow> int \<Rightarrow> leader_lease \<Rightarrow> lease_row list \<Rightarrow> leader_lease \<times> lease_row list" where
  "lease_stop db_ok now l rows = release db_ok now (l\<lparr>ll_task := False\<rparr>) rows"

text \<open>\<^verbatim>\<open>session_advisory_lock\<close>: entering the block with the locks held by other sessions, and
  leaving it.\<close>

definition advisory_enter :: "bool \<Rightarrow> int \<Rightarrow> int list \<Rightarrow> bool \<times> int list" where
  "advisory_enter pg lock_id held =
     (if \<not> pg then (True, held)
      else if lock_id \<in> set held then (False, held) else (True, lock_id # held))"

definition advisory_exit :: "bool \<Rightarrow> bool \<Rightarrow> bool \<Rightarrow> int \<Rightarrow> int list \<Rightarrow> int list" where
  "advisory_exit pg got unlock_ok lock_id held =
     (if pg \<and> got \<and> unlock_ok then remove1 lock_id held else held)"

section \<open>Replicas\<close>

text \<open>
  The replicas contending for one loop with a common time to live: the database clock, the
  table, the lease object of each live process by holder id, and, for the statements below
  only, the instant of each holder's last successful acquire.
\<close>

record lease_sys =
  sys_now :: int
  sys_rows :: "lease_row list"
  sys_replica :: "string \<Rightarrow> leader_lease option"
  sys_won :: "string \<Rightarrow> int"

definition put_replica :: "string \<Rightarrow> leader_lease \<times> lease_row list \<Rightarrow> lease_sys \<Rightarrow> lease_sys" where
  "put_replica h = (\<lambda>(l, rows) s. s\<lparr>sys_rows := rows, sys_replica := (sys_replica s)(h \<mapsto> l),
     sys_won := (if ll_is_leader l then (sys_won s)(h := sys_now s) else sys_won s)\<rparr>)"

inductive lease_step :: "string \<Rightarrow> int \<Rightarrow> lease_sys \<Rightarrow> lease_sys \<Rightarrow> bool" for loop ttl where
  tick: "sys_now s \<le> t \<Longrightarrow> lease_step loop ttl s (s\<lparr>sys_now := t\<rparr>)"
| join: "sys_replica s h = None \<Longrightarrow> lease_init loop ttl hb h = Inr l \<Longrightarrow>
    lease_step loop ttl s (s\<lparr>sys_replica := (sys_replica s)(h \<mapsto> l)\<rparr>)"
| start: "sys_replica s h = Some l \<Longrightarrow> \<not> ll_task l \<Longrightarrow>
    lease_step loop ttl s (put_replica h (lease_start True ok (sys_now s) l (sys_rows s)) s)"
| beat: "sys_replica s h = Some l \<Longrightarrow> ll_task l \<Longrightarrow>
    lease_step loop ttl s (put_replica h (heartbeat ok (sys_now s) l (sys_rows s)) s)"
| stop: "sys_replica s h = Some l \<Longrightarrow>
    lease_step loop ttl s (put_replica h (lease_stop ok (sys_now s) l (sys_rows s)) s)"
| crash: "lease_step loop ttl s (s\<lparr>sys_replica := (sys_replica s)(h := None)\<rparr>)"

inductive_cases lease_stepE: "lease_step loop ttl s s'"

text \<open>The initial system: no process has started; the table may hold rows of other loops.\<close>

definition lease_initial :: "string \<Rightarrow> lease_sys \<Rightarrow> bool" where
  "lease_initial loop s \<longleftrightarrow> sys_replica s = (\<lambda>h. None) \<and> find_by lr_loop_name loop (sys_rows s) = None"

definition lease_reachable :: "string \<Rightarrow> int \<Rightarrow> lease_sys \<Rightarrow> bool" where
  "lease_reachable loop ttl s \<longleftrightarrow> (\<exists>s0. lease_initial loop s0 \<and> (lease_step loop ttl)\<^sup>*\<^sup>* s0 s)"

text \<open>A process that believes it leads and whose lease has not run out.\<close>

definition live_leader :: "int \<Rightarrow> lease_sys \<Rightarrow> string \<Rightarrow> bool" where
  "live_leader ttl s h \<longleftrightarrow> (\<exists>l. sys_replica s h = Some l \<and> ll_is_leader l
     \<and> sys_now s \<le> sys_won s h + ttl * 1000000)"

section \<open>Lemmas\<close>

interpretation lease_rows: keyed_table lr_loop_name "range (\<lambda>t r. r\<lparr>lr_expires_at := t\<rparr>)"
  by unfold_locales auto

text \<open>The invariant: processes carry their own id and the common parameters; a live leader's
  row is in the table, and no row outlives its holder's last win by more than the lease. (A
  release may set the expiry of an already expired row to the present.)\<close>

definition lease_inv :: "string \<Rightarrow> int \<Rightarrow> lease_sys \<Rightarrow> bool" where
  "lease_inv loop ttl s \<longleftrightarrow>
     (\<forall>h l. sys_replica s h = Some l \<longrightarrow>
        ll_holder_id l = h \<and> ll_loop_name l = loop \<and> ll_ttl_s l = ttl \<and> ll_enabled l
        \<and> (ll_is_leader l \<longrightarrow> sys_won s h \<le> sys_now s))
     \<and> (\<forall>h. live_leader ttl s h \<longrightarrow>
          (\<exists>r. find_by lr_loop_name loop (sys_rows s) = Some r \<and> lr_holder_id r = h
             \<and> lr_expires_at r = sys_won s h + ttl * 1000000))
     \<and> (\<forall>r. find_by lr_loop_name loop (sys_rows s) = Some r \<longrightarrow>
          lr_expires_at r \<le> max (sys_now s) (sys_won s (lr_holder_id r) + ttl * 1000000))"

lemma find_replace:
  "find_by lr_loop_name loop rows = Some r \<Longrightarrow> lr_loop_name x = loop \<Longrightarrow>
     find_by lr_loop_name loop (update_where (\<lambda>y. lr_loop_name y = loop) (\<lambda>_. x) rows) = Some x"
  by (induction rows) (auto simp: update_where_def split: if_splits)

lemma try_acquire_cases:
  assumes "ll_loop_name l = loop"
  obtains "fst (try_acquire l now rows)"
      "find_by lr_loop_name loop (snd (try_acquire l now rows)) = Some (lease_row_for l now)"
      "\<forall>r. find_by lr_loop_name loop rows = Some r \<longrightarrow> lr_expires_at r < now \<or> lr_holder_id r = ll_holder_id l"
    | r where "\<not> fst (try_acquire l now rows)" "snd (try_acquire l now rows) = rows"
      "find_by lr_loop_name loop rows = Some r" "now \<le> lr_expires_at r" "lr_holder_id r \<noteq> ll_holder_id l"
proof (cases "find_by lr_loop_name loop rows")
  case None
  then show ?thesis
    using assms by (intro that(1)) (auto simp: try_acquire_def lease_row_for_def)
next
  case (Some r)
  show ?thesis
  proof (cases "lr_expires_at r < now \<or> lr_holder_id r = ll_holder_id l")
    case True
    then show ?thesis
      using Some assms find_replace [OF Some, of "lease_row_for l now"]
      by (intro that(1)) (auto simp: try_acquire_def lease_row_for_def)
  next
    case False
    then show ?thesis using Some assms by (intro that(2)) (auto simp: try_acquire_def)
  qed
qed

lemmas lease_inv_unfold = lease_inv_def live_leader_def put_replica_def

lemma inv_acquire:
  assumes "lease_inv loop ttl s" "sys_replica s h = Some l"
    and "l' = l\<lparr>ll_is_leader := fst (try_acquire l (sys_now s) (sys_rows s)), ll_task := b\<rparr>"
  shows "lease_inv loop ttl (put_replica h (l', snd (try_acquire l (sys_now s) (sys_rows s))) s)"
proof -
  have l: "ll_holder_id l = h" "ll_loop_name l = loop" "ll_ttl_s l = ttl" "ll_enabled l"
    using assms(1,2) by (auto simp: lease_inv_def)
  show ?thesis
  proof (cases rule: try_acquire_cases [OF l(2), of "sys_now s" "sys_rows s"])
    case 1
    have "h' = h" if "live_leader ttl s h'" for h'
    proof -
      obtain r where r: "find_by lr_loop_name loop (sys_rows s) = Some r" "lr_holder_id r = h'"
        "lr_expires_at r = sys_won s h' + ttl * 1000000"
        using assms(1) \<open>live_leader ttl s h'\<close> by (auto simp: lease_inv_def)
      moreover have "sys_now s \<le> sys_won s h' + ttl * 1000000"
        using \<open>live_leader ttl s h'\<close> by (auto simp: live_leader_def)
      ultimately show ?thesis using 1(3) l(1) by auto
    qed
    then show ?thesis
      using assms(1) 1(1,2) l unfolding assms(3)
      by (auto simp: lease_inv_unfold lease_row_for_def split: if_splits)
  next
    case (2 r)
    then show ?thesis
      using assms(1) l unfolding assms(3) by (auto simp: lease_inv_unfold split: if_splits)
  qed
qed

lemma inv_give_up:
  assumes "lease_inv loop ttl s" "sys_replica s h = Some l"
    and "l' = l\<lparr>ll_is_leader := False, ll_task := b\<rparr>"
  shows "lease_inv loop ttl (put_replica h (l', sys_rows s) s)"
  using assms by (auto simp: lease_inv_unfold split: if_splits)

lemma release_lookup:
  "find_by lr_loop_name loop (update_where (\<lambda>r. lr_loop_name r = loop \<and> lr_holder_id r = h)
       (\<lambda>r. r\<lparr>lr_expires_at := t\<rparr>) rows)
     = map_option (\<lambda>r. if lr_holder_id r = h then r\<lparr>lr_expires_at := t\<rparr> else r)
         (find_by lr_loop_name loop rows)"
  using find_by_Some [of lr_loop_name loop rows]
  by (subst lease_rows.find_update) (auto split: option.splits)

lemma inv_release:
  assumes "lease_inv loop ttl s" "sys_replica s h = Some l"
    and "l' = l\<lparr>ll_is_leader := False, ll_task := b\<rparr>"
    and "rows' = update_where (\<lambda>r. lr_loop_name r = loop \<and> lr_holder_id r = h)
          (\<lambda>r. r\<lparr>lr_expires_at := sys_now s\<rparr>) (sys_rows s)"
  shows "lease_inv loop ttl (put_replica h (l', rows') s)"
proof -
  have "\<exists>r. find_by lr_loop_name loop rows' = Some r \<and> lr_holder_id r = h'
      \<and> lr_expires_at r = sys_won s h' + ttl * 1000000" if live: "live_leader ttl s h'" and ne: "h' \<noteq> h" for h'
  proof -
    obtain r where "find_by lr_loop_name loop (sys_rows s) = Some r" "lr_holder_id r = h'"
      "lr_expires_at r = sys_won s h' + ttl * 1000000"
      using assms(1) live by (auto simp: lease_inv_def)
    then show ?thesis using ne unfolding assms(4) release_lookup by (intro exI [of _ r]) simp
  qed
  moreover have "lr_expires_at r \<le> max (sys_now s) (sys_won s (lr_holder_id r) + ttl * 1000000)"
    if "find_by lr_loop_name loop rows' = Some r" for r
    using assms(1) that unfolding assms(4) release_lookup lease_inv_def by (auto split: if_splits)
  ultimately show ?thesis
    using assms(1-3) by (auto simp: lease_inv_unfold split: if_splits)
qed

lemma inv_start:
  assumes "lease_inv loop ttl s" "sys_replica s h = Some l" "\<not> ll_task l"
  shows "lease_inv loop ttl (put_replica h (lease_start True ok (sys_now s) l (sys_rows s)) s)"
proof (cases ok)
  case True
  then show ?thesis
    using inv_acquire [OF assms(1,2) refl, of True] assms(3) by (simp add: lease_start_def case_prod_beta)
next
  case False
  then show ?thesis using inv_give_up [OF assms(1,2) refl, of True] assms(3) by (simp add: lease_start_def)
qed

lemma inv_beat:
  assumes "lease_inv loop ttl s" "sys_replica s h = Some l"
  shows "lease_inv loop ttl (put_replica h (heartbeat ok (sys_now s) l (sys_rows s)) s)"
proof (cases ok)
  case True
  have "l\<lparr>ll_is_leader := x\<rparr> = l\<lparr>ll_is_leader := x, ll_task := ll_task l\<rparr>" for x by simp
  then show ?thesis
    using inv_acquire [OF assms refl, of "ll_task l"] True by (simp add: heartbeat_def case_prod_beta)
next
  case False
  have "l\<lparr>ll_is_leader := x\<rparr> = l\<lparr>ll_is_leader := x, ll_task := ll_task l\<rparr>" for x by simp
  then show ?thesis using inv_give_up [OF assms refl, of "ll_task l"] False by (simp add: heartbeat_def)
qed

lemma inv_stop:
  assumes "lease_inv loop ttl s" "sys_replica s h = Some l"
  shows "lease_inv loop ttl (put_replica h (lease_stop ok (sys_now s) l (sys_rows s)) s)"
proof -
  have l: "ll_holder_id l = h" "ll_loop_name l = loop" "ll_enabled l"
    using assms by (auto simp: lease_inv_def)
  have e: "l\<lparr>ll_task := False, ll_is_leader := False\<rparr> = l\<lparr>ll_is_leader := False, ll_task := False\<rparr>" by simp
  show ?thesis
    using inv_release [OF assms refl refl, of False] inv_give_up [OF assms refl, of False] l
    by (cases ok) (simp_all add: lease_stop_def release_def e)
qed

lemma lease_step_inv: "lease_step loop ttl s s' \<Longrightarrow> lease_inv loop ttl s \<Longrightarrow> lease_inv loop ttl s'"
proof (induction rule: lease_step.induct)
  case (tick s t)
  then show ?case by (fastforce simp: lease_inv_unfold)
next
  case (join s h hb l)
  then show ?case by (auto simp: lease_inv_unfold lease_init_def split: if_splits)
next
  case (crash s h)
  then show ?case by (auto simp: lease_inv_unfold split: if_splits)
qed (simp_all add: inv_start inv_beat inv_stop)

interpretation lease_runs: step_invariant "lease_step loop ttl" "lease_inv loop ttl" for loop ttl
  by unfold_locales (rule lease_step_inv)

lemma lease_reachable_inv: "lease_reachable loop ttl s \<Longrightarrow> lease_inv loop ttl s"
  by (rule lease_runs.reachable_inv [of "lease_initial loop"]) (auto simp: lease_reachable_def lease_initial_def lease_inv_unfold)

section \<open>Properties\<close>

text \<open>
  C6. Mutual exclusion within the lease. Whatever the interleaving of starts, heartbeats, lost
  database connections, shutdowns and crashes, at most one replica both believes it leads and
  is within its time to live; while there is one, no other replica's acquire succeeds, and its
  own next heartbeat renews.
\<close>

theorem lease_mutual_exclusion:
  assumes "lease_reachable loop ttl s" and "live_leader ttl s a" and "sys_replica s b = Some l"
  shows "(live_leader ttl s b \<longrightarrow> a = b)
    \<and> (fst (try_acquire l (sys_now s) (sys_rows s)) \<longleftrightarrow> a = b)"
proof -
  have inv: "lease_inv loop ttl s" by (rule lease_reachable_inv [OF assms(1)])
  obtain r where r: "find_by lr_loop_name loop (sys_rows s) = Some r" "lr_holder_id r = a"
    "lr_expires_at r = sys_won s a + ttl * 1000000"
    using inv assms(2) by (auto simp: lease_inv_def)
  have "sys_now s \<le> lr_expires_at r" using assms(2) r(3) by (auto simp: live_leader_def)
  moreover have "ll_holder_id l = b" "ll_loop_name l = loop" using inv assms(3) by (auto simp: lease_inv_def)
  moreover have "live_leader ttl s b \<longrightarrow> a = b" using inv r by (auto simp: lease_inv_def)
  ultimately show ?thesis using r(1,2) by (auto simp: try_acquire_def)
qed

text \<open>
  Bounded failover. The row of a holder that has stopped renewing, for whatever reason,
  runs out one time to live after its last win: at any later instant the acquire of every
  other replica that is up succeeds and makes it the holder.
\<close>

theorem lease_failover:
  assumes "lease_reachable loop ttl s" and "find_by lr_loop_name loop (sys_rows s) = Some r"
    and "sys_won s (lr_holder_id r) + ttl * 1000000 < sys_now s" and "sys_now s < t"
    and "sys_replica s b = Some l"
  shows "fst (try_acquire l t (sys_rows s))
    \<and> (\<exists>r'. find_by lr_loop_name loop (snd (try_acquire l t (sys_rows s))) = Some r'
         \<and> lr_holder_id r' = b \<and> lr_expires_at r' = t + ttl * 1000000)"
proof -
  have inv: "lease_inv loop ttl s" by (rule lease_reachable_inv [OF assms(1)])
  have l: "ll_holder_id l = b" "ll_loop_name l = loop" "ll_ttl_s l = ttl"
    using inv assms(5) by (auto simp: lease_inv_def)
  have "lr_expires_at r < t"
    using inv assms(2-4) by (fastforce simp: lease_inv_def)
  then show ?thesis
    using assms(2) l by (cases rule: try_acquire_cases [OF l(2), of t "sys_rows s"])
      (auto simp: lease_row_for_def)
qed

subsection \<open>A run with two replicas\<close>

definition lease_of :: "string \<Rightarrow> leader_lease" where
  "lease_of h = \<lparr>ll_loop_name = ''scheduler'', ll_ttl_s = 30, ll_heartbeat_s = 10, ll_holder_id = h,
     ll_task = False, ll_is_leader = False, ll_enabled = True\<rparr>"

text \<open>Both replicas are up and the first has started at instant 0.\<close>

definition lease_run :: lease_sys where
  "lease_run = put_replica ''A'' (lease_start True True 0 (lease_of ''A'') [])
     \<lparr>sys_now = 0, sys_rows = [], sys_replica = [''A'' \<mapsto> lease_of ''A'', ''B'' \<mapsto> lease_of ''B''],
      sys_won = (\<lambda>h. 0)\<rparr>"

lemma lease_run_eq:
  "sys_now lease_run = 0" "sys_rows lease_run = [lease_row_for (lease_of ''A'') 0]"
  "sys_replica lease_run ''A'' = Some ((lease_of ''A'')\<lparr>ll_is_leader := True, ll_task := True\<rparr>)"
  "sys_replica lease_run ''B'' = Some (lease_of ''B'')" "sys_won lease_run ''A'' = 0"
  by (simp_all add: lease_run_def put_replica_def lease_start_def try_acquire_def lease_of_def)

lemma lease_run_reachable: "lease_reachable ''scheduler'' 30 lease_run"
proof -
  let ?s0 = "\<lparr>sys_now = 0, sys_rows = [], sys_replica = (\<lambda>h. None), sys_won = (\<lambda>h. 0)\<rparr>"
  let ?s1 = "?s0\<lparr>sys_replica := [''A'' \<mapsto> lease_of ''A'']\<rparr>"
  let ?s2 = "?s0\<lparr>sys_replica := [''A'' \<mapsto> lease_of ''A'', ''B'' \<mapsto> lease_of ''B'']\<rparr>"
  have init: "lease_init ''scheduler'' 30 10 h = Inr (lease_of h)" for h
    by (simp add: lease_init_def lease_of_def)
  have "lease_step ''scheduler'' 30 ?s0 ?s1"
    using lease_step.join [OF _ init, of ?s0 "''A''"] by simp
  moreover have "lease_step ''scheduler'' 30 ?s1 ?s2"
    using lease_step.join [OF _ init, of ?s1 "''B''"] by simp
  moreover have "lease_step ''scheduler'' 30 ?s2 lease_run"
    using lease_step.start [of ?s2 "''A''" "lease_of ''A''" "''scheduler''" 30 True]
    by (simp add: lease_run_def lease_of_def)
  ultimately have "(lease_step ''scheduler'' 30)\<^sup>*\<^sup>* ?s0 lease_run"
    by (meson converse_rtranclp_into_rtranclp rtranclp.rtrancl_refl)
  moreover have "lease_initial ''scheduler'' ?s0" by (simp add: lease_initial_def)
  ultimately show ?thesis unfolding lease_reachable_def by blast
qed

theorem lease_mutual_exclusion_witness:
  "\<not> fst (try_acquire (lease_of ''B'') 0 (sys_rows lease_run)) \<and> live_leader 30 lease_run ''A''"
proof -
  have live: "live_leader 30 lease_run ''A''" by (simp add: live_leader_def lease_run_eq)
  show ?thesis
    using lease_mutual_exclusion [OF lease_run_reachable live lease_run_eq(4)] live
    by (simp add: lease_run_eq)
qed

text \<open>The first replica crashes; after thirty seconds the second takes over.\<close>

theorem lease_failover_witness:
  "fst (try_acquire (lease_of ''B'') 30000002
      (sys_rows (lease_run\<lparr>sys_replica := (sys_replica lease_run)(''A'' := None), sys_now := 30000001\<rparr>)))"
proof -
  let ?s1 = "lease_run\<lparr>sys_replica := (sys_replica lease_run)(''A'' := None)\<rparr>"
  let ?s2 = "?s1\<lparr>sys_now := 30000001\<rparr>"
  have "lease_step ''scheduler'' 30 lease_run ?s1" by (rule lease_step.crash)
  moreover have "lease_step ''scheduler'' 30 ?s1 ?s2"
    by (rule lease_step.tick) (simp add: lease_run_eq)
  ultimately have r: "lease_reachable ''scheduler'' 30 ?s2"
    using lease_run_reachable unfolding lease_reachable_def by (meson rtranclp.rtrancl_into_rtrancl)
  have "find_by lr_loop_name ''scheduler'' (sys_rows ?s2) = Some (lease_row_for (lease_of ''A'') 0)"
    "sys_replica ?s2 ''B'' = Some (lease_of ''B'')"
    "sys_won ?s2 (lr_holder_id (lease_row_for (lease_of ''A'') 0)) + 30 * 1000000 < sys_now ?s2"
    "sys_now ?s2 < 30000002"
    by (simp_all add: lease_run_eq lease_row_for_def lease_of_def)
  from lease_failover [OF r this(1,3,4,2)] show ?thesis by simp
qed

end
