(* ===== verification/Jobs.thy ===== *)
theory Jobs
  imports Table
begin

text \<open>
  The job queue, \<^verbatim>\<open>shared/services/jobs.py\<close> and \<^verbatim>\<open>shared/models/job.py\<close>: jobs with their
  lifecycle, the transactional outbox and its drainer. The queue service is a list of the
  messages sent so far; sending may fail, and a process may die after a send and before its
  commit. The partial unique index on active transcode jobs is part of the model: a statement
  that would violate it raises. Instants are microseconds.
\<close>

section \<open>Tables\<close>

datatype job_type = VARIANT_TRANSCODE | STREAM_CAPTURE | VOICE_SYNTHESIS | IMAGE_IMPORT | IMAGE_PROVISION

datatype job_status = JPENDING | JPROCESSING | JDONE | JFAILED | JCANCELLED

record job =
  job_id :: string
  job_type_of :: job_type
  target_id :: string
  job_status_of :: job_status
  retry_count :: nat
  error_message :: string
  job_created_at :: int
  completed_at :: "int option"
  heartbeat_at :: "int option"
  progress_stage :: string
  progress_pct :: "int option"
  cancel_requested :: bool

record outbox_row =
  ob_id :: string
  ob_job_id :: string
  ob_created_at :: int
  attempts :: nat
  last_attempt_at :: "int option"
  last_error :: string

record job_db =
  jobs :: "job list"
  outbox :: "outbox_row list"
  queue :: "string list"

definition MAX_JOB_RETRIES :: nat where "MAX_JOB_RETRIES = 3"

definition MAX_OUTBOX_ATTEMPTS :: nat where "MAX_OUTBOX_ATTEMPTS = 20"

definition OUTBOX_BATCH_SIZE :: nat where "OUTBOX_BATCH_SIZE = 100"

definition OUTBOX_MAX_BACKOFF_SECONDS :: int where "OUTBOX_MAX_BACKOFF_SECONDS = 60"

definition TERMINAL_JOB_STATUSES :: "job_status list" where
  "TERMINAL_JOB_STATUSES = [JDONE, JFAILED, JCANCELLED]"

definition ACTIVE_JOB_STATUSES :: "job_status list" where
  "ACTIVE_JOB_STATUSES = [JPENDING, JPROCESSING]"

definition active :: "job \<Rightarrow> bool" where
  "active j \<longleftrightarrow> job_status_of j \<in> set ACTIVE_JOB_STATUSES"

text \<open>The index \<^verbatim>\<open>uq_jobs_one_active_per_variant\<close>: a row in its scope, and whether a table
  satisfies it.\<close>

definition indexed :: "job \<Rightarrow> bool" where
  "indexed j \<longleftrightarrow> job_type_of j = VARIANT_TRANSCODE \<and> active j"

definition index_ok :: "job list \<Rightarrow> bool" where
  "index_ok js \<longleftrightarrow> distinct (map target_id (filter indexed js))"

definition commit_jobs :: "job list \<Rightarrow> job_db \<Rightarrow> job_db result" where
  "commit_jobs js st = (if index_ok js then Inr (st\<lparr>jobs := js\<rparr>) else Inl (ValueError ''IntegrityError''))"

section \<open>Operations\<close>

definition new_job :: "string \<Rightarrow> job_type \<Rightarrow> string \<Rightarrow> int \<Rightarrow> job" where
  "new_job jid t tid now = \<lparr>job_id = jid, job_type_of = t, target_id = tid, job_status_of = JPENDING,
     retry_count = 0, error_message = '''', job_created_at = now, completed_at = None, heartbeat_at = None,
     progress_stage = '''', progress_pct = None, cancel_requested = False\<rparr>"

definition new_outbox :: "string \<Rightarrow> string \<Rightarrow> int \<Rightarrow> outbox_row" where
  "new_outbox oid jid now = \<lparr>ob_id = oid, ob_job_id = jid, ob_created_at = now, attempts = 0,
     last_attempt_at = None, last_error = ''''\<rparr>"

text \<open>Identifiers of new rows come in pairs, the job's and the outbox row's.\<close>

definition enqueue_job :: "string \<times> string \<Rightarrow> int \<Rightarrow> job_type \<Rightarrow> string \<Rightarrow> job_db \<Rightarrow> job_db result" where
  "enqueue_job ids now t tid st =
     result_bind (commit_jobs (jobs st @ [new_job (fst ids) t tid now]) st) (\<lambda>st'.
       Inr (st'\<lparr>outbox := outbox st' @ [new_outbox (snd ids) (fst ids) now]\<rparr>))"

text \<open>The duplicate suppression of \<^verbatim>\<open>stage_jobs\<close>.\<close>

fun fresh_specs :: "(job_type \<times> string) list \<Rightarrow> (job_type \<times> string) list \<Rightarrow> (job_type \<times> string) list" where
  "fresh_specs existing [] = []"
| "fresh_specs existing (spec # specs) =
     (if spec \<in> set existing then fresh_specs existing specs
      else spec # fresh_specs (spec # existing) specs)"

definition existing_active :: "(job_type \<times> string) list \<Rightarrow> job list \<Rightarrow> (job_type \<times> string) list" where
  "existing_active specs js = map (\<lambda>j. (job_type_of j, target_id j))
     (filter (\<lambda>j. target_id j \<in> snd ` set specs \<and> job_status_of j \<in> set ACTIVE_JOB_STATUSES) js)"

definition stage_jobs ::
  "(string \<times> string) list \<Rightarrow> int \<Rightarrow> (job_type \<times> string) list \<Rightarrow> job_db \<Rightarrow> job_db result" where
  "stage_jobs ids now specs st =
     (if specs = [] then Inr st
      else let fresh = fresh_specs (existing_active specs (jobs st)) specs;
               js = map (\<lambda>((jid, oid), (t, tid)). new_job jid t tid now) (zip ids fresh);
               obs = map (\<lambda>((jid, oid), spec). new_outbox oid jid now) (zip ids fresh)
           in if fresh = [] then Inr st
              else result_bind (commit_jobs (jobs st @ js) st) (\<lambda>st'.
                Inr (st'\<lparr>outbox := outbox st' @ obs\<rparr>)))"

definition enqueue_jobs ::
  "(string \<times> string) list \<Rightarrow> int \<Rightarrow> (job_type \<times> string) list \<Rightarrow> job_db \<Rightarrow> job_db result" where
  "enqueue_jobs ids now specs st = stage_jobs ids now specs st"

definition set_job :: "string \<Rightarrow> (job \<Rightarrow> job) \<Rightarrow> job_db \<Rightarrow> job_db result" where
  "set_job jid f st = commit_jobs (update_where (\<lambda>j. job_id j = jid) f (jobs st)) st"

text \<open>What a claim does to the row: a DONE job is left alone.\<close>

definition claim_row :: "int \<Rightarrow> job \<Rightarrow> job" where
  "claim_row now j =
     (if job_status_of j = JDONE then j
      else let n = retry_count j + 1
           in if n > MAX_JOB_RETRIES
              then j\<lparr>retry_count := n, job_status_of := JFAILED,
                error_message := ''exceeded retry limit ('' @ int_text (int MAX_JOB_RETRIES) @ '')'',
                completed_at := Some now\<rparr>
              else j\<lparr>retry_count := n, job_status_of := JPROCESSING, error_message := '''',
                heartbeat_at := Some now\<rparr>)"

definition claim_job :: "int \<Rightarrow> string \<Rightarrow> job_db \<Rightarrow> (job option \<times> job_db) result" where
  "claim_job now jid st =
     (case find_by job_id jid (jobs st) of
        None \<Rightarrow> Inr (None, st)
      | Some j \<Rightarrow> result_bind (set_job jid (claim_row now) st) (\<lambda>st'. Inr (Some (claim_row now j), st')))"

definition done_row :: "int \<Rightarrow> job \<Rightarrow> job" where
  "done_row now j = (if job_status_of j \<in> set TERMINAL_JOB_STATUSES then j
     else j\<lparr>job_status_of := JDONE, error_message := '''', completed_at := Some now\<rparr>)"

definition mark_done :: "int \<Rightarrow> string \<Rightarrow> job_db \<Rightarrow> job_db result" where
  "mark_done now jid st = set_job jid (done_row now) st"

definition failed_row :: "int \<Rightarrow> string \<Rightarrow> job \<Rightarrow> job" where
  "failed_row now err j = j\<lparr>job_status_of := JFAILED, error_message := take 2000 err, completed_at := Some now\<rparr>"

definition mark_failed :: "int \<Rightarrow> string \<Rightarrow> string \<Rightarrow> job_db \<Rightarrow> job_db result" where
  "mark_failed now jid err st = set_job jid (failed_row now err) st"

text \<open>The drainer. \<open>send\<close> is the queue client: no value for a successful send, the text of
  the exception otherwise.\<close>

definition outbox_due :: "int \<Rightarrow> outbox_row \<Rightarrow> bool" where
  "outbox_due now r \<longleftrightarrow> attempts r < MAX_OUTBOX_ATTEMPTS
     \<and> (case last_attempt_at r of None \<Rightarrow> True
        | Some t \<Rightarrow> \<not> t + min (2 ^ attempts r) OUTBOX_MAX_BACKOFF_SECONDS * 1000000 > now)"

definition drain_row ::
  "int \<Rightarrow> (string \<Rightarrow> string option) \<Rightarrow> outbox_row \<Rightarrow> nat \<times> job_db \<Rightarrow> nat \<times> job_db" where
  "drain_row now send r = (\<lambda>(sent, st).
     if \<not> outbox_due now r then (sent, st)
     else case send (ob_job_id r) of
         Some err \<Rightarrow> (sent, st\<lparr>outbox := update_where (\<lambda>x. ob_id x = ob_id r)
            (\<lambda>x. x\<lparr>attempts := attempts x + 1, last_attempt_at := Some now, last_error := take 2000 err\<rparr>) (outbox st)\<rparr>)
       | None \<Rightarrow> (sent + 1, st\<lparr>outbox := delete_where (\<lambda>x. ob_id x = ob_id r) (outbox st),
            queue := queue st @ [ob_job_id r]\<rparr>))"

definition outbox_batch :: "job_db \<Rightarrow> outbox_row list" where
  "outbox_batch st = take OUTBOX_BATCH_SIZE (sort_key ob_created_at (outbox st))"

definition drain_outbox :: "int \<Rightarrow> (string \<Rightarrow> string option) \<Rightarrow> job_db \<Rightarrow> nat \<times> job_db" where
  "drain_outbox now send st = fold (drain_row now send) (outbox_batch st) (0, st)"

definition outbox_oldest_age_us :: "int \<Rightarrow> job_db \<Rightarrow> int option" where
  "outbox_oldest_age_us now st = (case sort_key ob_created_at (outbox st) of
     [] \<Rightarrow> None | r # rs \<Rightarrow> Some (now - ob_created_at r))"

section \<open>The queue as a transition system\<close>

text \<open>Every operation, and a drainer that dies after its sends and before its commit: the
  messages are out, the outbox is as before. A step is labelled with the jobs it hands to a
  worker: a claim that answers with a row in PROCESSING. New rows get identifiers no row has.\<close>

definition handed :: "job option \<Rightarrow> string list" where
  "handed r = (case r of Some j \<Rightarrow> if job_status_of j = JPROCESSING then [job_id j] else [] | None \<Rightarrow> [])"

inductive job_step :: "job_db \<Rightarrow> string list \<Rightarrow> job_db \<Rightarrow> bool" where
  step_enqueue: "enqueue_job ids now t tid st = Inr st' \<Longrightarrow> fst ids \<notin> job_id ` set (jobs st) \<Longrightarrow>
    snd ids \<notin> ob_id ` set (outbox st) \<Longrightarrow> job_step st [] st'"
| step_enqueue_many: "enqueue_jobs ids now specs st = Inr st' \<Longrightarrow>
    distinct (map fst ids) \<Longrightarrow> distinct (map snd ids) \<Longrightarrow> length specs \<le> length ids \<Longrightarrow>
    fst ` set ids \<inter> job_id ` set (jobs st) = {} \<Longrightarrow> snd ` set ids \<inter> ob_id ` set (outbox st) = {} \<Longrightarrow>
    job_step st [] st'"
| step_claim: "claim_job now jid st = Inr (r, st') \<Longrightarrow> job_step st (handed r) st'"
| step_done: "mark_done now jid st = Inr st' \<Longrightarrow> job_step st [] st'"
| step_failed: "mark_failed now jid err st = Inr st' \<Longrightarrow> job_step st [] st'"
| step_drain: "drain_outbox now send st = (n, st') \<Longrightarrow> job_step st [] st'"
| step_drain_crash: "drain_outbox now send st = (n, st') \<Longrightarrow> job_step st [] (st\<lparr>queue := queue st'\<rparr>)"

inductive job_run :: "job_db \<Rightarrow> string list \<Rightarrow> job_db \<Rightarrow> bool" where
  run_refl: "job_run st [] st"
| run_step: "job_run st hs st' \<Longrightarrow> job_step st' ls st'' \<Longrightarrow> job_run st (hs @ ls) st''"

definition empty_jobs :: job_db where
  "empty_jobs = \<lparr>jobs = [], outbox = [], queue = []\<rparr>"

section \<open>Lemmas\<close>

definition job_writes :: "(job \<Rightarrow> job) set" where
  "job_writes = range claim_row \<union> range done_row \<union> {failed_row now err |now err. True}"

interpretation job_rows: keyed_table job_id job_writes
  by unfold_locales (auto simp: job_writes_def claim_row_def done_row_def failed_row_def Let_def)

interpretation outbox_rows: keyed_table ob_id
    "{\<lambda>x. x\<lparr>attempts := attempts x + 1, last_attempt_at := Some now, last_error := take 2000 err\<rparr> |now err. True}"
  by unfold_locales auto

text \<open>What the outbox promises, with the uniqueness it rests on.\<close>

definition covered :: "job_db \<Rightarrow> bool" where
  "covered st \<longleftrightarrow> (\<forall>j \<in> set (jobs st). job_id j \<in> set (queue st) \<or> job_id j \<in> ob_job_id ` set (outbox st))"

definition jobs_inv :: "job_db \<Rightarrow> bool" where
  "jobs_inv st \<longleftrightarrow> keys_ok job_id (jobs st) \<and> keys_ok ob_id (outbox st)
     \<and> ob_job_id ` set (outbox st) \<subseteq> job_id ` set (jobs st) \<and> index_ok (jobs st) \<and> covered st
     \<and> (\<forall>j \<in> set (jobs st). job_status_of j = JPROCESSING \<longrightarrow> retry_count j \<le> MAX_JOB_RETRIES)"

lemma commit_jobs_Inr: "commit_jobs js st = Inr st' \<longleftrightarrow> index_ok js \<and> st' = st\<lparr>jobs := js\<rparr>"
  by (auto simp: commit_jobs_def)

lemma rows_write_processing:
  assumes "f \<in> job_writes" "job_status_of j = JPROCESSING \<longrightarrow> retry_count j \<le> MAX_JOB_RETRIES"
  shows "job_status_of (f j) = JPROCESSING \<longrightarrow> retry_count (f j) \<le> MAX_JOB_RETRIES"
    and "retry_count j \<le> retry_count (f j)"
  using assms by (auto simp: job_writes_def claim_row_def done_row_def failed_row_def Let_def split: if_splits)

lemma set_job_inv:
  assumes "jobs_inv st" "f \<in> job_writes" "set_job jid f st = Inr st'"
  shows "jobs_inv st'"
proof -
  have st': "st' = st\<lparr>jobs := update_where (\<lambda>j. job_id j = jid) f (jobs st)\<rparr>"
    and ix: "index_ok (update_where (\<lambda>j. job_id j = jid) f (jobs st))"
    using assms(3) by (auto simp: set_job_def commit_jobs_Inr)
  have ids: "map job_id (jobs st') = map job_id (jobs st)"
    using job_rows.keys_update [OF assms(2)] by (simp add: st')
  then have sids: "job_id ` set (jobs st') = job_id ` set (jobs st)" by (metis set_map)
  have "covered st'"
    unfolding covered_def
  proof
    fix j assume "j \<in> set (jobs st')"
    then have "job_id j \<in> job_id ` set (jobs st)" using sids by blast
    then obtain j0 where "j0 \<in> set (jobs st)" "job_id j = job_id j0" by blast
    then have "job_id j \<in> set (queue st) \<or> job_id j \<in> ob_job_id ` set (outbox st)"
      using assms(1) by (simp add: jobs_inv_def covered_def)
    then show "job_id j \<in> set (queue st') \<or> job_id j \<in> ob_job_id ` set (outbox st')" by (simp add: st')
  qed
  moreover have "\<forall>j \<in> set (jobs st'). job_status_of j = JPROCESSING \<longrightarrow> retry_count j \<le> MAX_JOB_RETRIES"
    using assms(1) rows_write_processing(1) [OF assms(2)] by (auto simp: st' set_update_where jobs_inv_def)
  ultimately show ?thesis
    using assms(1) ids ix sids by (simp add: jobs_inv_def keys_ok_def st')
qed

lemma add_jobs_inv:
  assumes "jobs_inv st" "index_ok (jobs st @ js)"
    and "distinct (map job_id js)" "job_id ` set js \<inter> job_id ` set (jobs st) = {}"
    and "distinct (map ob_id obs)" "ob_id ` set obs \<inter> ob_id ` set (outbox st) = {}"
    and "map ob_job_id obs = map job_id js" "\<forall>j \<in> set js. job_status_of j = JPENDING"
  shows "jobs_inv (st\<lparr>jobs := jobs st @ js, outbox := outbox st @ obs\<rparr>)"
proof -
  have "ob_job_id ` set obs = job_id ` set js" using assms(7) by (metis set_map)
  then show ?thesis
    using assms by (auto simp: jobs_inv_def keys_ok_def covered_def)
qed

lemma enqueue_inv:
  assumes "jobs_inv st" "enqueue_job ids now t tid st = Inr st'"
    and "fst ids \<notin> job_id ` set (jobs st)" "snd ids \<notin> ob_id ` set (outbox st)"
  shows "jobs_inv st'"
proof -
  have "st' = st\<lparr>jobs := jobs st @ [new_job (fst ids) t tid now],
      outbox := outbox st @ [new_outbox (snd ids) (fst ids) now]\<rparr>"
    and "index_ok (jobs st @ [new_job (fst ids) t tid now])"
    using assms(2) by (auto simp: enqueue_job_def result_bind_eq_Inr commit_jobs_Inr)
  then show ?thesis
    using add_jobs_inv [OF assms(1), of "[new_job (fst ids) t tid now]" "[new_outbox (snd ids) (fst ids) now]"] assms(3,4)
    by (simp add: new_job_def new_outbox_def)
qed

lemma length_fresh: "length (fresh_specs ex specs) \<le> length specs"
  by (induction ex specs rule: fresh_specs.induct) auto

lemma map_zip_fst: "length ys \<le> length xs \<Longrightarrow> map (\<lambda>x. fst (fst x)) (zip xs ys) = map fst (take (length ys) xs)"
  by (induction xs ys rule: list_induct2') auto

lemma map_zip_snd: "length ys \<le> length xs \<Longrightarrow> map (\<lambda>x. snd (fst x)) (zip xs ys) = map snd (take (length ys) xs)"
  by (induction xs ys rule: list_induct2') auto

lemma enqueue_many_inv:
  assumes "jobs_inv st" "enqueue_jobs ids now specs st = Inr st'"
    and "distinct (map fst ids)" "distinct (map snd ids)" "length specs \<le> length ids"
    and "fst ` set ids \<inter> job_id ` set (jobs st) = {}" "snd ` set ids \<inter> ob_id ` set (outbox st) = {}"
  shows "jobs_inv st'"
proof -
  define fresh where "fresh = fresh_specs (existing_active specs (jobs st)) specs"
  define js where "js = map (\<lambda>((jid, oid), (t, tid)). new_job jid t tid now) (zip ids fresh)"
  define obs where "obs = map (\<lambda>((jid, oid), spec). new_outbox oid jid now) (zip ids fresh)"
  have len: "length fresh \<le> length ids" using length_fresh assms(5) unfolding fresh_def by (rule order_trans)
  consider "st' = st" | "st' = st\<lparr>jobs := jobs st @ js, outbox := outbox st @ obs\<rparr>" "index_ok (jobs st @ js)"
    using assms(2)
    by (auto simp: enqueue_jobs_def stage_jobs_def Let_def fresh_def [symmetric] js_def [symmetric] obs_def [symmetric]
        result_bind_eq_Inr commit_jobs_Inr split: if_splits)
  then show ?thesis
  proof cases
    case 2
    have ids: "map job_id js = map fst (take (length fresh) ids)" "map ob_job_id obs = map fst (take (length fresh) ids)"
      "map ob_id obs = map snd (take (length fresh) ids)"
      using map_zip_fst [OF len] map_zip_snd [OF len]
      by (simp_all add: js_def obs_def case_prod_beta new_job_def new_outbox_def comp_def)
    have sub: "set (take (length fresh) ids) \<subseteq> set ids" by (rule set_take_subset)
    have "job_id ` set js \<subseteq> fst ` set ids" "ob_id ` set obs \<subseteq> snd ` set ids"
      using ids sub by (metis image_mono list.set_map)+
    then have "job_id ` set js \<inter> job_id ` set (jobs st) = {}" "ob_id ` set obs \<inter> ob_id ` set (outbox st) = {}"
      using assms(6,7) by blast+
    moreover have "distinct (map job_id js)" "distinct (map ob_id obs)"
      unfolding ids take_map [symmetric] using assms(3,4) by auto
    moreover have "\<forall>j \<in> set js. job_status_of j = JPENDING" by (auto simp: js_def new_job_def)
    ultimately show ?thesis
      unfolding 2(1) using ids(1,2) by (intro add_jobs_inv [OF assms(1) 2(2)]) simp_all
  qed (use assms(1) in simp)
qed

subsection \<open>What one drain cycle does\<close>

definition drained :: "int \<Rightarrow> (string \<Rightarrow> string option) \<Rightarrow> outbox_row \<Rightarrow> bool" where
  "drained now send r \<longleftrightarrow> outbox_due now r \<and> send (ob_job_id r) = None"

definition refused :: "int \<Rightarrow> (string \<Rightarrow> string option) \<Rightarrow> outbox_row \<Rightarrow> bool" where
  "refused now send r \<longleftrightarrow> outbox_due now r \<and> send (ob_job_id r) \<noteq> None"

definition note_failure :: "int \<Rightarrow> (string \<Rightarrow> string option) \<Rightarrow> outbox_row \<Rightarrow> outbox_row" where
  "note_failure now send r = r\<lparr>attempts := attempts r + 1, last_attempt_at := Some now,
     last_error := take 2000 (the (send (ob_job_id r)))\<rparr>"

definition after_drain ::
  "int \<Rightarrow> (string \<Rightarrow> string option) \<Rightarrow> outbox_row list \<Rightarrow> outbox_row list \<Rightarrow> outbox_row list" where
  "after_drain now send batch rows =
     map (\<lambda>x. if ob_id x \<in> ob_id ` set (filter (refused now send) batch) then note_failure now send x else x)
       (filter (\<lambda>x. ob_id x \<notin> ob_id ` set (filter (drained now send) batch)) rows)"

lemma fold_drain:
  assumes "distinct (map ob_id xs)"
    and "\<forall>r \<in> set xs. \<forall>x \<in> set (outbox st). ob_id x = ob_id r \<longrightarrow> ob_job_id x = ob_job_id r"
  shows "fold (drain_row now send) xs (n, st) = (n + length (filter (drained now send) xs),
     st\<lparr>outbox := after_drain now send xs (outbox st),
        queue := queue st @ map ob_job_id (filter (drained now send) xs)\<rparr>)"
  using assms
proof (induction xs arbitrary: n st)
  case Nil
  then show ?case by (simp add: after_drain_def)
next
  case (Cons r xs)
  define st1 where "st1 = snd (drain_row now send r (n, st))"
  define n1 where "n1 = fst (drain_row now send r (n, st))"
  have agree: "\<forall>q \<in> set xs. \<forall>x \<in> set (outbox st1). ob_id x = ob_id q \<longrightarrow> ob_job_id x = ob_job_id q"
    using Cons.prems(2) by (auto simp: st1_def drain_row_def row_simps split: option.splits)
  have IH: "fold (drain_row now send) xs (n1, st1) = (n1 + length (filter (drained now send) xs),
     st1\<lparr>outbox := after_drain now send xs (outbox st1),
        queue := queue st1 @ map ob_job_id (filter (drained now send) xs)\<rparr>)"
    by (rule Cons.IH [OF _ agree]) (use Cons.prems(1) in simp)
  have fresh: "ob_id r \<notin> ob_id ` set xs" using Cons.prems(1) by simp
  have same: "ob_job_id x = ob_job_id r" if "x \<in> set (outbox st)" "ob_id x = ob_id r" for x
    using Cons.prems(2) that by simp
  have one: "after_drain now send xs (outbox st1) = after_drain now send (r # xs) (outbox st)"
  proof (cases "outbox_due now r")
    case False
    then show ?thesis by (simp add: after_drain_def st1_def drain_row_def drained_def refused_def)
  next
    case due: True
    show ?thesis
    proof (cases "send (ob_job_id r)")
      case None
      then show ?thesis
        using due by (simp add: after_drain_def st1_def drain_row_def drained_def refused_def delete_where_def conj_commute)
    next
      case (Some err)
      let ?u = "\<lambda>x. if ob_id x = ob_id r then note_failure now send x else x"
      have "outbox st1 = map ?u (outbox st)"
        using due Some same by (auto simp: st1_def drain_row_def note_failure_def update_where_def)
      moreover have "ob_id (?u x) = ob_id x" for x by (simp add: note_failure_def)
      moreover have "refused now send r" "\<not> drained now send r"
        using due Some by (simp_all add: refused_def drained_def)
      moreover have "ob_id r \<notin> ob_id ` set (filter (refused now send) xs)" using fresh by auto
      ultimately show ?thesis
        by (simp add: after_drain_def filter_map comp_def)
    qed
  qed
  have "fold (drain_row now send) (r # xs) (n, st) = fold (drain_row now send) xs (n1, st1)"
    by (simp add: n1_def st1_def)
  moreover have "n1 = n + (if drained now send r then 1 else 0)"
    "queue st1 = queue st @ (if drained now send r then [ob_job_id r] else [])"
    "st1\<lparr>outbox := a, queue := b\<rparr> = st\<lparr>outbox := a, queue := b\<rparr>" for a b
    by (auto simp: n1_def st1_def drain_row_def drained_def split: option.splits)
  ultimately show ?case using IH one by simp
qed

lemma batch_subset: "set (outbox_batch st) \<subseteq> set (outbox st)"
  unfolding outbox_batch_def using set_take_subset by fastforce

lemma distinct_batch: "keys_ok ob_id (outbox st) \<Longrightarrow> distinct (map ob_id (outbox_batch st))"
  unfolding outbox_batch_def take_map [symmetric] keys_ok_def
  by (intro distinct_take) (simp add: distinct_map)

lemma batch_member:
  assumes "keys_ok ob_id (outbox st)" "x \<in> set (outbox st)"
  shows "ob_id x \<in> ob_id ` set (filter P (outbox_batch st)) \<longleftrightarrow> x \<in> set (outbox_batch st) \<and> P x"
  using assms batch_subset [of st] by (auto simp: keys_ok_def distinct_map dest: inj_onD)

lemma drain_outbox_state:
  assumes "keys_ok ob_id (outbox st)"
  shows "drain_outbox now send st = (length (filter (drained now send) (outbox_batch st)),
     st\<lparr>outbox := after_drain now send (outbox_batch st) (outbox st),
        queue := queue st @ map ob_job_id (filter (drained now send) (outbox_batch st))\<rparr>)"
  unfolding drain_outbox_def
proof (subst fold_drain)
  show "\<forall>r\<in>set (outbox_batch st). \<forall>x\<in>set (outbox st). ob_id x = ob_id r \<longrightarrow> ob_job_id x = ob_job_id r"
    using assms batch_subset [of st] by (auto simp: keys_ok_def distinct_map dest: inj_onD)
qed (simp_all add: distinct_batch assms)

lemma after_drain_rows:
  assumes "keys_ok ob_id (outbox st)"
  shows "after_drain now send (outbox_batch st) (outbox st) =
    map (\<lambda>x. if x \<in> set (outbox_batch st) \<and> refused now send x then note_failure now send x else x)
      (filter (\<lambda>x. \<not> (x \<in> set (outbox_batch st) \<and> drained now send x)) (outbox st))"
  unfolding after_drain_def
  by (intro map_cong filter_cong refl; (drule filter_is_subset [THEN subsetD])?; simp only: batch_member [OF assms])

lemma drain_inv:
  assumes "jobs_inv st" "drain_outbox now send st = (n, st')"
  shows "jobs_inv st'" and "jobs_inv (st\<lparr>queue := queue st'\<rparr>)" and "jobs st' = jobs st"
proof -
  let ?B = "outbox_batch st"
  have keys: "keys_ok ob_id (outbox st)" using assms(1) by (simp add: jobs_inv_def)
  have st': "st' = st\<lparr>outbox := after_drain now send ?B (outbox st),
      queue := queue st @ map ob_job_id (filter (drained now send) ?B)\<rparr>"
    using assms(2) by (simp add: drain_outbox_state [OF keys])
  have cols: "map ob_id (outbox st') = map ob_id (filter (\<lambda>x. \<not> (x \<in> set ?B \<and> drained now send x)) (outbox st))"
    "map ob_job_id (outbox st') = map ob_job_id (filter (\<lambda>x. \<not> (x \<in> set ?B \<and> drained now send x)) (outbox st))"
    by (simp_all add: st' after_drain_rows [OF keys] note_failure_def)
  have sset: "ob_job_id ` set (outbox st') = ob_job_id ` {x \<in> set (outbox st). \<not> (x \<in> set ?B \<and> drained now send x)}"
    using arg_cong [OF cols(2), of set] by simp
  have "covered st'"
    unfolding covered_def
  proof
    fix j assume "j \<in> set (jobs st')"
    then have "job_id j \<in> set (queue st) \<or> job_id j \<in> ob_job_id ` set (outbox st)"
      using assms(1) by (simp add: st' jobs_inv_def covered_def)
    then show "job_id j \<in> set (queue st') \<or> job_id j \<in> ob_job_id ` set (outbox st')"
      unfolding sset by (auto simp: st')
  qed
  moreover have "keys_ok ob_id (outbox st')"
    using keys unfolding keys_ok_def cols by (rule distinct_map_filter)
  moreover have "ob_job_id ` set (outbox st') \<subseteq> ob_job_id ` set (outbox st)" unfolding sset by blast
  ultimately show "jobs_inv st'"
    using assms(1) by (auto simp: jobs_inv_def st')
  show "jobs_inv (st\<lparr>queue := queue st'\<rparr>)"
    using assms(1) by (auto simp: jobs_inv_def covered_def st')
  show "jobs st' = jobs st" by (simp add: st')
qed

lemma claim_job_cases:
  assumes "claim_job now jid st = Inr (r, st')"
  obtains (gone) "r = None" "st' = st"
  | (row) j where "find_by job_id jid (jobs st) = Some j" "r = Some (claim_row now j)"
      "set_job jid (claim_row now) st = Inr st'"
  using assms by (auto simp: claim_job_def result_bind_eq_Inr split: option.splits)

lemma job_writes_mem [simp]:
  "claim_row now \<in> job_writes" "done_row now \<in> job_writes" "failed_row now err \<in> job_writes"
  by (auto simp: job_writes_def)

lemmas row_inv = set_job_inv [OF _ job_writes_mem(1)] set_job_inv [OF _ job_writes_mem(2)]
  set_job_inv [OF _ job_writes_mem(3)]

theorem job_step_inv: "job_step st ls st' \<Longrightarrow> jobs_inv st \<Longrightarrow> jobs_inv st'"
proof (induction rule: job_step.induct)
  case (step_claim now jid st r st')
  from step_claim(1) show ?case
  proof (cases rule: claim_job_cases)
    case (row j)
    show ?thesis by (rule row_inv(1) [OF step_claim(2) row(3)])
  qed (use step_claim(2) in simp)
qed (auto simp: mark_done_def mark_failed_def intro: enqueue_inv enqueue_many_inv row_inv drain_inv)

lemma jobs_inv_empty: "jobs_inv empty_jobs"
  by (simp add: jobs_inv_def empty_jobs_def keys_ok_def index_ok_def covered_def)

lemma job_run_inv: "job_run st hs st' \<Longrightarrow> jobs_inv st \<Longrightarrow> jobs_inv st'"
  by (induction rule: job_run.induct) (auto intro: job_step_inv)

subsection \<open>Duplicate suppression\<close>

lemma set_fresh_specs: "set (fresh_specs ex specs) = set specs - set ex"
  by (induction ex specs rule: fresh_specs.induct) auto

lemma distinct_fresh_specs: "distinct (fresh_specs ex specs)"
  by (induction ex specs rule: fresh_specs.induct) (auto simp: set_fresh_specs)

lemma indexed_new_jobs:
  "length fresh \<le> length ids \<Longrightarrow>
    map target_id (filter indexed (map (\<lambda>((jid, oid), (t, tid)). new_job jid t tid now) (zip ids fresh)))
      = map snd (filter (\<lambda>s. fst s = VARIANT_TRANSCODE) fresh)"
  by (induction ids fresh rule: list_induct2')
    (auto simp: indexed_def active_def ACTIVE_JOB_STATUSES_def new_job_def)

lemma new_jobs_index_ok:
  assumes "index_ok (jobs st)" "length specs \<le> length ids"
  shows "index_ok (jobs st @ map (\<lambda>((jid, oid), (t, tid)). new_job jid t tid now)
    (zip ids (fresh_specs (existing_active specs (jobs st)) specs)))"
proof -
  let ?fresh = "fresh_specs (existing_active specs (jobs st)) specs"
  have len: "length ?fresh \<le> length ids" using length_fresh assms(2) by (rule order_trans)
  have "distinct (map snd (filter (\<lambda>s. fst s = VARIANT_TRANSCODE) ?fresh))"
    using distinct_fresh_specs by (auto simp: distinct_map inj_on_def prod_eq_iff)
  moreover have "target_id ` set (filter indexed (jobs st)) \<inter> snd ` set (filter (\<lambda>s. fst s = VARIANT_TRANSCODE) ?fresh) = {}"
    by (auto simp: set_fresh_specs existing_active_def indexed_def active_def image_iff)
  ultimately show ?thesis
    using assms(1) by (simp only: index_ok_def filter_append map_append indexed_new_jobs [OF len] distinct_append set_map)
qed

text \<open>Enqueueing a batch never fails on the index that allows one active transcode job per
  variant, and leaves an active job for every requested pair of type and target: the one that
  was there, or a new one in PENDING with its outbox row. A pair that had an active job gets no
  second one, also when it is named twice in the batch.\<close>

theorem enqueue_jobs_total:
  assumes "index_ok (jobs st)" "length specs \<le> length ids"
  shows "\<exists>js obs. enqueue_jobs ids now specs st = Inr (st\<lparr>jobs := jobs st @ js, outbox := outbox st @ obs\<rparr>)
    \<and> map ob_job_id obs = map job_id js
    \<and> distinct (map (\<lambda>j. (job_type_of j, target_id j)) js)
    \<and> (\<lambda>j. (job_type_of j, target_id j)) ` set js
        = {s \<in> set specs. \<not> (\<exists>j \<in> set (jobs st). active j \<and> (job_type_of j, target_id j) = s)}
    \<and> (\<forall>j \<in> set js. job_status_of j = JPENDING \<and> retry_count j = 0 \<and> \<not> cancel_requested j)"
proof -
  let ?fresh = "fresh_specs (existing_active specs (jobs st)) specs"
  let ?js = "map (\<lambda>((jid, oid), (t, tid)). new_job jid t tid now) (zip ids ?fresh)"
  let ?obs = "map (\<lambda>((jid, oid), spec). new_outbox oid jid now) (zip ids ?fresh)"
  have len: "length ?fresh \<le> length ids" using length_fresh assms(2) by (rule order_trans)
  have fresh: "set ?fresh = {s \<in> set specs. \<not> (\<exists>j \<in> set (jobs st). active j \<and> (job_type_of j, target_id j) = s)}"
    by (auto simp: set_fresh_specs existing_active_def active_def image_iff) (metis snd_conv)
  have pairs: "map (\<lambda>j. (job_type_of j, target_id j)) ?js = ?fresh"
    using len by (simp add: case_prod_beta new_job_def comp_def map_snd_zip_take)
  have "enqueue_jobs ids now specs st = Inr (st\<lparr>jobs := jobs st @ ?js, outbox := outbox st @ ?obs\<rparr>)"
    using new_jobs_index_ok [OF assms]
    by (auto simp: enqueue_jobs_def stage_jobs_def Let_def commit_jobs_def)
  moreover have "map ob_job_id ?obs = map job_id ?js"
    by (simp add: case_prod_beta new_job_def new_outbox_def comp_def)
  moreover have "distinct (map (\<lambda>j. (job_type_of j, target_id j)) ?js)"
    unfolding pairs by (rule distinct_fresh_specs)
  moreover have "(\<lambda>j. (job_type_of j, target_id j)) ` set ?js
        = {s \<in> set specs. \<not> (\<exists>j \<in> set (jobs st). active j \<and> (job_type_of j, target_id j) = s)}"
    using arg_cong [OF pairs, of set] fresh unfolding set_map by simp
  moreover have "\<forall>j \<in> set ?js. job_status_of j = JPENDING \<and> retry_count j = 0 \<and> \<not> cancel_requested j"
    by (auto simp: new_job_def)
  ultimately show ?thesis by blast
qed

theorem enqueue_jobs_total_witness:
  "\<exists>js obs. enqueue_jobs [(''j1'', ''o1''), (''j2'', ''o2''), (''j3'', ''o3'')] 5
      [(VARIANT_TRANSCODE, ''a''), (VARIANT_TRANSCODE, ''b''), (VARIANT_TRANSCODE, ''b'')]
      (empty_jobs\<lparr>jobs := [new_job ''j0'' VARIANT_TRANSCODE ''a'' 0]\<rparr>)
    = Inr (empty_jobs\<lparr>jobs := [new_job ''j0'' VARIANT_TRANSCODE ''a'' 0] @ js, outbox := obs\<rparr>)
    \<and> (\<lambda>j. (job_type_of j, target_id j)) ` set js = {(VARIANT_TRANSCODE, ''b'')}"
proof -
  let ?st = "empty_jobs\<lparr>jobs := [new_job ''j0'' VARIANT_TRANSCODE ''a'' 0]\<rparr>"
  let ?ids = "[(''j1'', ''o1''), (''j2'', ''o2''), (''j3'', ''o3'')]"
  let ?specs = "[(VARIANT_TRANSCODE, ''a''), (VARIANT_TRANSCODE, ''b''), (VARIANT_TRANSCODE, ''b'')]"
  have "index_ok (jobs ?st)" "length ?specs \<le> length ?ids" by code_simp+
  from enqueue_jobs_total [OF this, of 5] obtain js obs where
    st: "enqueue_jobs ?ids 5 ?specs ?st = Inr (?st\<lparr>jobs := jobs ?st @ js, outbox := outbox ?st @ obs\<rparr>)"
    and s: "(\<lambda>j. (job_type_of j, target_id j)) ` set js
        = {s \<in> set ?specs. \<not> (\<exists>j \<in> set (jobs ?st). active j \<and> (job_type_of j, target_id j) = s)}"
    by blast
  have "(\<lambda>j. (job_type_of j, target_id j)) ` set js = {(VARIANT_TRANSCODE, ''b'')}"
    unfolding s by (auto simp: active_def ACTIVE_JOB_STATUSES_def new_job_def)
  with st show ?thesis by (auto simp: empty_jobs_def)
qed

section \<open>Delivery\<close>

text \<open>One drain cycle, exactly: of the oldest batch of outbox rows, the due ones whose send
  succeeds leave the outbox and their job ids enter the queue, in order of age; the due ones whose send
  fails stay with one attempt more, the instant and the error; every other row is untouched, and
  the count returned is the number sent.\<close>

theorem drain_outbox_exact:
  assumes "keys_ok ob_id (outbox st)"
  shows "drain_outbox now send st =
    (length (filter (drained now send) (outbox_batch st)),
     st\<lparr>outbox := map (\<lambda>x. if x \<in> set (outbox_batch st) \<and> refused now send x then note_failure now send x else x)
          (filter (\<lambda>x. \<not> (x \<in> set (outbox_batch st) \<and> drained now send x)) (outbox st)),
        queue := queue st @ map ob_job_id (filter (drained now send) (outbox_batch st))\<rparr>)"
  using drain_outbox_state [OF assms] unfolding after_drain_rows [OF assms] .

theorem drain_outbox_exact_witness:
  "drain_outbox 9000000 (\<lambda>j. if j = ''j2'' then Some ''timeout'' else None)
     (empty_jobs\<lparr>outbox := [new_outbox ''o1'' ''j1'' 7, new_outbox ''o2'' ''j2'' 5, new_outbox ''o3'' ''j3'' 6]\<rparr>)
   = (2, empty_jobs\<lparr>outbox := [(new_outbox ''o2'' ''j2'' 5)\<lparr>attempts := 1, last_attempt_at := Some 9000000,
        last_error := ''timeout''\<rparr>], queue := [''j3'', ''j1'']\<rparr>)"
proof -
  let ?st = "empty_jobs\<lparr>outbox := [new_outbox ''o1'' ''j1'' 7, new_outbox ''o2'' ''j2'' 5, new_outbox ''o3'' ''j3'' 6]\<rparr>"
  have "keys_ok ob_id (outbox ?st)" by code_simp
  from drain_outbox_exact [OF this] show ?thesis by (rule trans) code_simp
qed

text \<open>C10. At-least-once delivery, as far as the outbox can give it: in every state the queue can
  reach, whichever operations ran, whichever sends failed and wherever the drainer died, every
  job has had its message sent or still has its outbox row.\<close>

theorem no_job_is_lost:
  assumes "job_run empty_jobs hs st" "j \<in> set (jobs st)"
  shows "job_id j \<in> set (queue st) \<or> (\<exists>r \<in> set (outbox st). ob_job_id r = job_id j)"
proof -
  have "jobs_inv st" using job_run_inv [OF assms(1) jobs_inv_empty] .
  then show ?thesis using assms(2) unfolding jobs_inv_def covered_def by fastforce
qed

theorem no_job_is_lost_witness:
  "''j1'' \<in> set [] \<or> (\<exists>r \<in> set [new_outbox ''o1'' ''j1'' 5]. ob_job_id r = ''j1'')"
proof -
  let ?j = "new_job ''j1'' IMAGE_IMPORT ''img'' 5"
  let ?st = "empty_jobs\<lparr>jobs := [?j], outbox := [new_outbox ''o1'' ''j1'' 5]\<rparr>"
  have "job_step empty_jobs [] ?st"
  proof (rule step_enqueue)
    show "enqueue_job (''j1'', ''o1'') 5 IMAGE_IMPORT ''img'' empty_jobs = Inr ?st" by code_simp
  qed (simp_all add: empty_jobs_def)
  then have "job_run empty_jobs ([] @ []) ?st" by (rule run_step [OF run_refl])
  from no_job_is_lost [OF this, of ?j] show ?thesis by (simp add: new_job_def empty_jobs_def)
qed

section \<open>Poison protection\<close>

definition handouts_ok :: "string list \<Rightarrow> job_db \<Rightarrow> bool" where
  "handouts_ok hs st \<longleftrightarrow> (\<forall>jid. count_list hs jid \<le> MAX_JOB_RETRIES
     \<and> (jid \<notin> job_id ` set (jobs st) \<longrightarrow> count_list hs jid = 0)
     \<and> (\<forall>j \<in> set (jobs st). job_id j = jid \<longrightarrow> count_list hs jid \<le> retry_count j))"

lemma handouts_mono:
  assumes "handouts_ok hs st" "job_id ` set (jobs st) \<subseteq> job_id ` set (jobs st')"
    and "\<forall>j' \<in> set (jobs st'). job_id j' \<in> job_id ` set (jobs st) \<longrightarrow>
      (\<exists>j \<in> set (jobs st). job_id j = job_id j' \<and> retry_count j \<le> retry_count j')"
  shows "handouts_ok hs st'"
  unfolding handouts_ok_def
proof (intro allI conjI impI ballI)
  fix jid
  show "count_list hs jid \<le> MAX_JOB_RETRIES" using assms(1) by (simp add: handouts_ok_def)
  show "count_list hs jid = 0" if "jid \<notin> job_id ` set (jobs st')"
    using assms(1,2) that by (auto simp: handouts_ok_def)
  show "count_list hs jid \<le> retry_count j'" if "j' \<in> set (jobs st')" "job_id j' = jid" for j'
  proof (cases "jid \<in> job_id ` set (jobs st)")
    case True
    then obtain j where "j \<in> set (jobs st)" "job_id j = jid" "retry_count j \<le> retry_count j'"
      using assms(3) \<open>j' \<in> set (jobs st')\<close> \<open>job_id j' = jid\<close> by auto
    then show ?thesis using assms(1) by (auto simp: handouts_ok_def intro: order_trans)
  next
    case False
    then show ?thesis using assms(1) by (auto simp: handouts_ok_def)
  qed
qed

lemma set_job_rows:
  assumes "f \<in> job_writes" "set_job jid f st = Inr st'"
  shows "job_id ` set (jobs st') = job_id ` set (jobs st)"
    and "j' \<in> set (jobs st') \<Longrightarrow> \<exists>j \<in> set (jobs st). job_id j = job_id j' \<and> j' = (if job_id j = jid then f j else j)"
proof -
  have st': "jobs st' = update_where (\<lambda>j. job_id j = jid) f (jobs st)"
    using assms(2) by (auto simp: set_job_def commit_jobs_Inr)
  show "job_id ` set (jobs st') = job_id ` set (jobs st)"
    using job_rows.keys_update [OF assms(1)] unfolding st' by (metis set_map)
  show "j' \<in> set (jobs st') \<Longrightarrow> \<exists>j \<in> set (jobs st). job_id j = job_id j' \<and> j' = (if job_id j = jid then f j else j)"
    using job_rows.key_write [OF assms(1)] by (auto simp: st' update_where_def)
qed

lemma write_retry: "f \<in> job_writes \<Longrightarrow> retry_count j \<le> retry_count (f j)"
  by (auto simp: job_writes_def claim_row_def done_row_def failed_row_def Let_def)

lemma set_job_handouts:
  assumes "f \<in> job_writes" "set_job jid f st = Inr st'" "handouts_ok hs st"
  shows "handouts_ok hs st'"
  using assms(3)
proof (rule handouts_mono)
  show "\<forall>j'\<in>set (jobs st'). job_id j' \<in> job_id ` set (jobs st) \<longrightarrow>
      (\<exists>j\<in>set (jobs st). job_id j = job_id j' \<and> retry_count j \<le> retry_count j')"
    using set_job_rows(2) [OF assms(1,2)] write_retry [OF assms(1)] by (metis order_refl)
qed (simp add: set_job_rows(1) [OF assms(1,2)])

lemma append_handouts:
  assumes "handouts_ok hs st" "jobs st' = jobs st @ js" "keys_ok job_id (jobs st')"
  shows "handouts_ok hs st'"
  using assms(1)
proof (rule handouts_mono)
  show "\<forall>j'\<in>set (jobs st'). job_id j' \<in> job_id ` set (jobs st) \<longrightarrow>
      (\<exists>j\<in>set (jobs st). job_id j = job_id j' \<and> retry_count j \<le> retry_count j')"
    using assms(2,3) by (auto simp: keys_ok_def)
qed (simp add: assms(2) image_Un)

lemma enqueue_appends:
  "enqueue_job ids now t tid st = Inr st' \<Longrightarrow> \<exists>js. jobs st' = jobs st @ js"
  "enqueue_jobs idl now specs st = Inr st' \<Longrightarrow> \<exists>js. jobs st' = jobs st @ js"
  by (auto simp: enqueue_job_def enqueue_jobs_def stage_jobs_def Let_def result_bind_eq_Inr commit_jobs_Inr split: if_splits)

lemma claim_processing:
  assumes "job_status_of (claim_row now j) = JPROCESSING"
  shows "retry_count (claim_row now j) = retry_count j + 1" "retry_count j < MAX_JOB_RETRIES"
  using assms by (auto simp: claim_row_def Let_def split: if_splits)

lemma claim_handouts:
  assumes "handouts_ok hs st" "jobs_inv st" "claim_job now jid st = Inr (r, st')"
  shows "handouts_ok (hs @ handed r) st'"
  using assms(3)
proof (cases rule: claim_job_cases)
  case gone
  then show ?thesis using assms(1) by (simp add: handed_def)
next
  case (row j)
  have j: "j \<in> set (jobs st)" "job_id j = jid" using find_by_Some [OF row(1)] by simp_all
  have kept: "handouts_ok hs st'" by (rule set_job_handouts [OF _ row(3) assms(1)]) simp
  show ?thesis
  proof (cases "job_status_of (claim_row now j) = JPROCESSING")
    case True
    have hand: "handed r = [jid]"
      using True row(2) j(2) job_rows.key_write [of "claim_row now" j] by (simp add: handed_def)
    have old: "count_list hs jid \<le> retry_count j" using assms(1) j by (simp add: handouts_ok_def)
    have new: "retry_count j' = retry_count j + 1" if "j' \<in> set (jobs st')" "job_id j' = jid" for j'
    proof -
      obtain j0 where "j0 \<in> set (jobs st)" "job_id j0 = jid" "j' = claim_row now j0"
        using set_job_rows(2) [OF _ row(3), of j'] \<open>j' \<in> set (jobs st')\<close> \<open>job_id j' = jid\<close> by auto
      moreover have "j0 = j"
        using \<open>j0 \<in> set (jobs st)\<close> \<open>job_id j0 = jid\<close> j assms(2)
        by (auto simp: jobs_inv_def keys_ok_def distinct_map dest: inj_onD)
      ultimately show ?thesis using claim_processing(1) [OF True] by simp
    qed
    have own: "count_list (hs @ handed r) jid \<le> MAX_JOB_RETRIES" "jid \<in> job_id ` set (jobs st')"
      "\<forall>j' \<in> set (jobs st'). job_id j' = jid \<longrightarrow> count_list (hs @ handed r) jid \<le> retry_count j'"
      and other: "k \<noteq> jid \<Longrightarrow> count_list (hs @ handed r) k = count_list hs k" for k
      using claim_processing(2) [OF True] hand old new set_job_rows(1) [OF _ row(3)] j by auto
    show ?thesis
      unfolding handouts_ok_def
    proof
      fix k
      show "count_list (hs @ handed r) k \<le> MAX_JOB_RETRIES
        \<and> (k \<notin> job_id ` set (jobs st') \<longrightarrow> count_list (hs @ handed r) k = 0)
        \<and> (\<forall>j \<in> set (jobs st'). job_id j = k \<longrightarrow> count_list (hs @ handed r) k \<le> retry_count j)"
      proof (cases "k = jid")
        case False
        show ?thesis using kept unfolding other [OF False] by (simp add: handouts_ok_def)
      qed (use own in simp)
    qed
  next
    case False
    then show ?thesis using kept row(2) by (simp add: handed_def)
  qed
qed

lemma step_handouts:
  assumes "job_step st ls st'" "jobs_inv st" "handouts_ok hs st"
  shows "handouts_ok (hs @ ls) st'"
proof -
  have keys: "keys_ok job_id (jobs st')" using job_step_inv [OF assms(1,2)] by (simp add: jobs_inv_def)
  show ?thesis
    using assms(1)
  proof cases
    case (step_enqueue ids now t tid)
    then obtain js where "jobs st' = jobs st @ js" using enqueue_appends(1) [OF step_enqueue(2)] by blast
    then show ?thesis using append_handouts [OF assms(3) _ keys] step_enqueue(1) by simp
  next
    case (step_enqueue_many ids now specs)
    then obtain js where "jobs st' = jobs st @ js" using enqueue_appends(2) [OF step_enqueue_many(2)] by blast
    then show ?thesis using append_handouts [OF assms(3) _ keys] step_enqueue_many(1) by simp
  next
    case (step_claim now jid r)
    then show ?thesis using claim_handouts [OF assms(3,2)] by simp
  next
    case (step_done now jid)
    then show ?thesis using set_job_handouts [OF job_writes_mem(2) _ assms(3)] by (simp add: mark_done_def)
  next
    case (step_failed now jid err)
    then show ?thesis using set_job_handouts [OF job_writes_mem(3) _ assms(3)] by (simp add: mark_failed_def)
  next
    case (step_drain now send n)
    then show ?thesis using assms(3) drain_inv(3) [OF assms(2)] by (simp add: handouts_ok_def)
  next
    case (step_drain_crash now send n st1)
    then show ?thesis using assms(3) by (simp add: handouts_ok_def)
  qed
qed

lemma run_handouts:
  "job_run st hs st' \<Longrightarrow> st = empty_jobs \<Longrightarrow> jobs_inv st' \<and> handouts_ok hs st'"
proof (induction rule: job_run.induct)
  case (run_refl st)
  then show ?case by (simp add: jobs_inv_empty handouts_ok_def)
next
  case (run_step st hs st' ls st'')
  then show ?case using job_step_inv step_handouts by blast
qed

text \<open>C11. Poison protection: over any run of the queue, however messages are duplicated,
  workers die or jobs are failed and claimed again, no job is handed to a worker more than
  \<^verbatim>\<open>MAX_JOB_RETRIES\<close> times.\<close>

theorem claims_are_bounded:
  assumes "job_run empty_jobs hs st"
  shows "count_list hs jid \<le> MAX_JOB_RETRIES"
  using run_handouts [OF assms refl] by (simp add: handouts_ok_def)

theorem claims_are_bounded_witness: "count_list [''j1''] ''j1'' \<le> MAX_JOB_RETRIES"
proof -
  let ?j = "new_job ''j1'' IMAGE_IMPORT ''img'' 5"
  let ?st = "empty_jobs\<lparr>jobs := [?j], outbox := [new_outbox ''o1'' ''j1'' 5]\<rparr>"
  let ?st' = "?st\<lparr>jobs := [claim_row 6 ?j]\<rparr>"
  have "job_step empty_jobs [] ?st"
  proof (rule step_enqueue)
    show "enqueue_job (''j1'', ''o1'') 5 IMAGE_IMPORT ''img'' empty_jobs = Inr ?st" by code_simp
  qed (simp_all add: empty_jobs_def)
  then have "job_run empty_jobs ([] @ []) ?st" by (rule run_step [OF run_refl])
  moreover have "job_step ?st (handed (Some (claim_row 6 ?j))) ?st'"
  proof (rule step_claim)
    show "claim_job 6 ''j1'' ?st = Inr (Some (claim_row 6 ?j), ?st')" by code_simp
  qed
  ultimately have "job_run empty_jobs (([] @ []) @ handed (Some (claim_row 6 ?j))) ?st'" by (rule run_step)
  moreover have "handed (Some (claim_row 6 ?j)) = [''j1'']" by code_simp
  ultimately have "job_run empty_jobs [''j1''] ?st'" by simp
  from claims_are_bounded [OF this] show ?thesis .
qed

section \<open>What the comments promise and the code does not\<close>

text \<open>DONE, FAILED and CANCELLED are documented as states no worker may leave, and
  \<^verbatim>\<open>mark_done\<close> keeps to it. The other two operations of the worker do not: \<^verbatim>\<open>mark_failed\<close> turns a
  DONE job into FAILED, and \<^verbatim>\<open>claim_job\<close> takes a job that the monitor failed or that was
  cancelled back to PROCESSING and hands it out, as long as it has retries left.\<close>

theorem terminal_jobs_are_left:
  "let j = new_job ''j'' IMAGE_IMPORT ''img'' 0;
       table = (\<lambda>s. empty_jobs\<lparr>jobs := [j\<lparr>job_status_of := s\<rparr>]\<rparr>);
       statuses = (\<lambda>r. case r of Inl e \<Rightarrow> [] | Inr st \<Rightarrow> map job_status_of (jobs st))
   in map (\<lambda>s. mark_done 9 ''j'' (table s)) TERMINAL_JOB_STATUSES = map (\<lambda>s. Inr (table s)) TERMINAL_JOB_STATUSES
    \<and> statuses (mark_failed 9 ''j'' ''late'' (table JDONE)) = [JFAILED]
    \<and> map (\<lambda>s. case claim_job 9 ''j'' (table s) of Inl e \<Rightarrow> ([], []) | Inr (r, st') \<Rightarrow> (handed r, statuses (Inr st')))
          [JFAILED, JCANCELLED] = [([''j''], [JPROCESSING]), ([''j''], [JPROCESSING])]"
  by code_simp

text \<open>A drain cycle looks at the oldest \<^verbatim>\<open>OUTBOX_BATCH_SIZE\<close> rows only, and rows that have
  used up their attempts stay among them: when every row of the batch has, the cycle does
  nothing, whatever newer rows are waiting, so no later job reaches the workers until the rows
  are removed by hand.\<close>

theorem stuck_rows_starve_the_rest:
  assumes "\<forall>r \<in> set (outbox_batch st). MAX_OUTBOX_ATTEMPTS \<le> attempts r"
  shows "drain_outbox now send st = (0, st)"
proof -
  have "fold (drain_row now send) rs (0, st) = (0, st)" if "\<forall>r \<in> set rs. MAX_OUTBOX_ATTEMPTS \<le> attempts r" for rs
    using that by (induction rs) (auto simp: drain_row_def outbox_due_def)
  then show ?thesis using assms by (simp add: drain_outbox_def)
qed

definition stuck_outbox :: job_db where
  "stuck_outbox = empty_jobs\<lparr>outbox := map (\<lambda>i. (new_outbox (replicate i CHR ''x'') ''old'' (int i))\<lparr>attempts := 20\<rparr>)
     [0..<100] @ [new_outbox ''new'' ''new-job'' 100]\<rparr>"

lemma stuck_batch: "outbox_batch stuck_outbox = take 100 (outbox stuck_outbox)"
proof -
  have "map ob_created_at (outbox stuck_outbox) = map int [0..<101]"
    using upt_Suc_append [of 0 100] by (simp add: stuck_outbox_def empty_jobs_def new_outbox_def comp_def)
  moreover have "sorted (map int [0..<101])" by (auto simp: sorted_map intro: sorted_wrt_mono_rel [of _ "(<)"])
  ultimately show ?thesis
    by (simp add: outbox_batch_def OUTBOX_BATCH_SIZE_def sort_key_id_if_sorted)
qed

theorem stuck_rows_starve_the_rest_witness:
  "new_outbox ''new'' ''new-job'' 100 \<in> set (outbox stuck_outbox)
    \<and> outbox_due 1000 (new_outbox ''new'' ''new-job'' 100)
    \<and> drain_outbox 1000 (\<lambda>j. None) stuck_outbox = (0, stuck_outbox)"
proof -
  have "\<forall>r \<in> set (outbox_batch stuck_outbox). MAX_OUTBOX_ATTEMPTS \<le> attempts r"
    unfolding stuck_batch by (auto simp: stuck_outbox_def empty_jobs_def MAX_OUTBOX_ATTEMPTS_def new_outbox_def)
  from stuck_rows_starve_the_rest [OF this] show ?thesis
    by (auto simp: stuck_outbox_def empty_jobs_def outbox_due_def new_outbox_def MAX_OUTBOX_ATTEMPTS_def)
qed

end
