(* ===== verification/Log_Outbox.thy ===== *)
theory Log_Outbox
  imports Readiness Table "HOL-Library.Word"
begin

text \<open>
  Device log collection: the \<^verbatim>\<open>log_requests\<close> outbox (\<^verbatim>\<open>cms/models/log_request.py\<close>,
  \<^verbatim>\<open>cms/services/log_outbox.py\<close>), its drainer and reaper (\<^verbatim>\<open>log_drainer.py\<close>, \<^verbatim>\<open>log_reaper.py\<close>) and
  the handlers of \<^verbatim>\<open>cms/routers/log_requests.py\<close> and of the \<^verbatim>\<open>LOGS_RESPONSE\<close> message. The state is
  the table and the blob store. Dispatching to a device and storage errors are inputs; instants
  are microseconds. A handler that waits for a device or for storage between two commits is
  split there, so that other sessions may run in between.
\<close>

section \<open>The outbox table\<close>

datatype log_status = STATUS_PENDING | STATUS_SENT | STATUS_READY | STATUS_FAILED | STATUS_EXPIRED

definition TERMINAL_STATUSES :: "log_status list" where
  "TERMINAL_STATUSES = [STATUS_READY, STATUS_FAILED, STATUS_EXPIRED]"

type_synonym bytes = "8 word list"

record log_request =
  lr_id :: string
  lr_device_id :: string
  lr_requested_by_user_id :: "string option"
  lr_services :: "string list option"
  lr_since :: string
  lr_status :: log_status
  lr_attempts :: nat
  lr_last_error :: "string option"
  lr_sent_at :: "int option"
  lr_ready_at :: "int option"
  lr_blob_path :: "string option"
  lr_size_bytes :: "nat option"
  lr_expires_at :: "int option"
  lr_created_at :: int
  lr_updated_at :: int

record log_db =
  requests :: "log_request list"
  blobs :: "(string \<times> bytes) list"

definition DEFAULT_RETENTION :: int where "DEFAULT_RETENTION = 3600 * 1000000"

text \<open>\<^verbatim>\<open>error[:2000] if error else None\<close>.\<close>

definition error_text :: "string \<Rightarrow> string option" where
  "error_text e = (if e = '''' then None else Some (take 2000 e))"

definition create_request ::
  "int \<Rightarrow> string \<Rightarrow> string \<Rightarrow> string option \<Rightarrow> string list option \<Rightarrow> string \<Rightarrow> int option \<Rightarrow> log_request list \<Rightarrow> log_request list" where
  "create_request now rid did user services since expires_in rows = insert_row
     \<lparr>lr_id = rid, lr_device_id = did, lr_requested_by_user_id = user, lr_services = services, lr_since = since,
      lr_status = STATUS_PENDING, lr_attempts = 0, lr_last_error = None, lr_sent_at = None,
      lr_ready_at = None, lr_blob_path = None, lr_size_bytes = None,
      lr_expires_at = map_option (\<lambda>d. now + d) expires_in, lr_created_at = now, lr_updated_at = now\<rparr> rows"

definition get_request :: "string \<Rightarrow> log_request list \<Rightarrow> log_request option" where
  "get_request rid rows = find_by lr_id rid rows"

text \<open>A guarded \<^verbatim>\<open>UPDATE\<close> of one row with its row count test.\<close>

definition update_request ::
  "string \<Rightarrow> (log_request \<Rightarrow> bool) \<Rightarrow> (log_request \<Rightarrow> log_request) \<Rightarrow> log_request list \<Rightarrow> bool \<times> log_request list" where
  "update_request rid guard f rows =
     (0 < rowcount (\<lambda>r. lr_id r = rid \<and> guard r) rows, update_where (\<lambda>r. lr_id r = rid \<and> guard r) f rows)"

definition pending :: "log_request \<Rightarrow> bool" where "pending r \<longleftrightarrow> lr_status r = STATUS_PENDING"

definition open_request :: "log_request \<Rightarrow> bool" where
  "open_request r \<longleftrightarrow> lr_status r \<in> set [STATUS_PENDING, STATUS_SENT]"

definition non_terminal :: "log_request \<Rightarrow> bool" where
  "non_terminal r \<longleftrightarrow> lr_status r \<notin> set TERMINAL_STATUSES"

definition sent_row :: "int \<Rightarrow> log_request \<Rightarrow> log_request" where
  "sent_row now r = r\<lparr>lr_status := STATUS_SENT, lr_sent_at := Some now, lr_updated_at := now,
     lr_attempts := lr_attempts r + 1\<rparr>"

definition mark_sent :: "int \<Rightarrow> string \<Rightarrow> log_request list \<Rightarrow> bool \<times> log_request list" where
  "mark_sent now rid = update_request rid pending (sent_row now)"

definition ready_row :: "int \<Rightarrow> string \<Rightarrow> nat \<Rightarrow> log_request \<Rightarrow> log_request" where
  "ready_row now path len r = r\<lparr>lr_status := STATUS_READY, lr_ready_at := Some now, lr_updated_at := now,
     lr_blob_path := Some path, lr_size_bytes := Some len, lr_last_error := None\<rparr>"

definition mark_ready :: "int \<Rightarrow> string \<Rightarrow> string \<Rightarrow> nat \<Rightarrow> log_request list \<Rightarrow> bool \<times> log_request list" where
  "mark_ready now rid path len = update_request rid open_request (ready_row now path len)"

definition fail_row :: "int \<Rightarrow> string \<Rightarrow> log_request \<Rightarrow> log_request" where
  "fail_row now err r = r\<lparr>lr_status := STATUS_FAILED, lr_last_error := error_text err, lr_updated_at := now\<rparr>"

definition mark_request_failed :: "int \<Rightarrow> string \<Rightarrow> string \<Rightarrow> log_request list \<Rightarrow> bool \<times> log_request list" where
  "mark_request_failed now rid err = update_request rid non_terminal (fail_row now err)"

definition error_row :: "int \<Rightarrow> string \<Rightarrow> log_request \<Rightarrow> log_request" where
  "error_row now err r = r\<lparr>lr_last_error := error_text err, lr_updated_at := now\<rparr>"

definition record_error :: "int \<Rightarrow> string \<Rightarrow> string \<Rightarrow> log_request list \<Rightarrow> bool \<times> log_request list" where
  "record_error now rid err = update_request rid non_terminal (error_row now err)"

definition expired_row :: "int \<Rightarrow> log_request \<Rightarrow> log_request" where
  "expired_row now r = r\<lparr>lr_status := STATUS_EXPIRED, lr_updated_at := now\<rparr>"

definition mark_expired :: "int \<Rightarrow> string \<Rightarrow> log_request list \<Rightarrow> bool \<times> log_request list" where
  "mark_expired now rid = update_request rid non_terminal (expired_row now)"

definition attempt_row :: "int \<Rightarrow> string \<Rightarrow> log_request \<Rightarrow> log_request" where
  "attempt_row now err r = r\<lparr>lr_attempts := lr_attempts r + 1, lr_last_error := error_text err, lr_updated_at := now\<rparr>"

definition record_attempt_error :: "int \<Rightarrow> string \<Rightarrow> string \<Rightarrow> log_request list \<Rightarrow> bool \<times> log_request list" where
  "record_attempt_error now rid err = update_request rid pending (attempt_row now err)"

definition list_pending :: "nat \<Rightarrow> nat option \<Rightarrow> log_request list \<Rightarrow> log_request list" where
  "list_pending limit max_attempts rows = take limit (sort_key lr_created_at
     (filter (\<lambda>r. pending r \<and> (case max_attempts of None \<Rightarrow> True | Some m \<Rightarrow> lr_attempts r < m)) rows))"

definition past_expiry :: "int \<Rightarrow> log_request \<Rightarrow> bool" where
  "past_expiry now r \<longleftrightarrow> (case lr_expires_at r of None \<Rightarrow> False | Some t \<Rightarrow> t \<le> now)"

definition list_expired :: "int \<Rightarrow> nat \<Rightarrow> log_request list \<Rightarrow> log_request list" where
  "list_expired now limit rows = take limit (sort_key (\<lambda>r. the (lr_expires_at r)) (filter (past_expiry now) rows))"

definition list_for_device :: "string \<Rightarrow> nat \<Rightarrow> log_request list \<Rightarrow> log_request list" where
  "list_for_device did limit rows =
     take limit (sort_key (\<lambda>r. - lr_created_at r) (filter (\<lambda>r. lr_device_id r = did) rows))"

definition count_by_status :: "log_request list \<Rightarrow> (log_status \<times> nat) list" where
  "count_by_status rows = map (\<lambda>s. (s, count_list (map lr_status rows) s)) (remdups (map lr_status rows))"

section \<open>The drainer\<close>

record drain_config =
  batch_size :: nat
  sent_timeout_sec :: int
  max_attempts :: nat

definition default_drain :: drain_config where
  "default_drain = \<lparr>batch_size = 25, sent_timeout_sec = 900, max_attempts = 10\<rparr>"

definition backoff_seconds :: "nat \<Rightarrow> int" where
  "backoff_seconds n = min (60 * 2 ^ n) 3600"

definition eligible_for_retry :: "log_request \<Rightarrow> int \<Rightarrow> bool" where
  "eligible_for_retry r now \<longleftrightarrow> lr_attempts r = 0
     \<or> lr_updated_at r + backoff_seconds (lr_attempts r) * 1000000 \<le> now"

definition claim_due_pending :: "int \<Rightarrow> nat \<Rightarrow> log_request list \<Rightarrow> log_request list" where
  "claim_due_pending now batch rows =
     filter (\<lambda>r. eligible_for_retry r now) (take batch (sort_key lr_created_at (filter pending rows)))"

definition stuck :: "int \<Rightarrow> int \<Rightarrow> log_request \<Rightarrow> bool" where
  "stuck now timeout r \<longleftrightarrow> lr_status r = STATUS_SENT
     \<and> (case lr_sent_at r of None \<Rightarrow> False | Some t \<Rightarrow> t \<le> now - timeout * 1000000)"

definition claim_stuck_sent :: "int \<Rightarrow> int \<Rightarrow> nat \<Rightarrow> log_request list \<Rightarrow> log_request list" where
  "claim_stuck_sent now timeout batch rows =
     take batch (sort_key (\<lambda>r. the (lr_sent_at r)) (filter (stuck now timeout) rows))"

definition timeout_detail :: "log_request \<Rightarrow> string" where
  "timeout_detail r = (let detail = ''sent timeout after '' @ int_text (int (lr_attempts r)) @ '' attempts''
     in if truthy (lr_last_error r) then detail @ '' (last error: '' @ the (lr_last_error r) @ '')'' else detail)"

definition pending_again :: "int \<Rightarrow> log_request \<Rightarrow> log_request" where
  "pending_again now r = r\<lparr>lr_status := STATUS_PENDING, lr_updated_at := now\<rparr>"

definition rescue_step :: "int \<Rightarrow> nat \<Rightarrow> log_request \<Rightarrow> log_request list \<Rightarrow> log_request list" where
  "rescue_step clock limit r rows =
     (if lr_attempts r \<ge> limit then snd (mark_request_failed clock (lr_id r) (timeout_detail r) rows)
      else update_where (\<lambda>x. lr_id x = lr_id r \<and> lr_status x = STATUS_SENT) (pending_again clock) rows)"

text \<open>The outcome of one dispatch: nothing, or the text of the exception or timeout.\<close>

definition dispatch_step ::
  "int \<Rightarrow> nat \<Rightarrow> (log_request \<Rightarrow> string option) \<Rightarrow> log_request \<Rightarrow> log_request list \<Rightarrow> log_request list" where
  "dispatch_step clock limit dispatch r rows =
     (case dispatch r of
        Some err \<Rightarrow>
          if lr_attempts r + 1 \<ge> limit then snd (mark_request_failed clock (lr_id r) err rows)
          else snd (record_attempt_error clock (lr_id r) err rows)
      | None \<Rightarrow> snd (mark_sent clock (lr_id r) rows))"

record drain_stats =
  claimed_pending :: nat
  dispatched :: nat
  failed :: nat
  rescued_sent :: nat

definition drain_once ::
  "drain_config \<Rightarrow> int \<Rightarrow> int \<Rightarrow> (log_request \<Rightarrow> string option) \<Rightarrow> log_request list \<Rightarrow> drain_stats \<times> log_request list" where
  "drain_once cfg now clock dispatch rows =
     (let pending_rows = claim_due_pending now (batch_size cfg) rows;
          stuck_rows = claim_stuck_sent now (sent_timeout_sec cfg) (batch_size cfg) rows;
          rows1 = fold (rescue_step clock (max_attempts cfg)) stuck_rows rows;
          rows2 = fold (dispatch_step clock (max_attempts cfg) dispatch) pending_rows rows1;
          over = filter (\<lambda>r. lr_attempts r \<ge> max_attempts cfg) stuck_rows;
          gave_up = filter (\<lambda>r. dispatch r \<noteq> None \<and> lr_attempts r + 1 \<ge> max_attempts cfg) pending_rows
      in (\<lparr>claimed_pending = length pending_rows,
           dispatched = length (filter (\<lambda>r. dispatch r = None) pending_rows),
           failed = length over + length gave_up,
           rescued_sent = length stuck_rows - length over\<rparr>, rows2))"

section \<open>The reaper\<close>

definition reapable :: "int \<Rightarrow> log_request \<Rightarrow> bool" where
  "reapable now r \<longleftrightarrow> past_expiry now r \<and> lr_status r \<noteq> STATUS_EXPIRED"

definition claim_expired_rows :: "int \<Rightarrow> nat \<Rightarrow> log_request list \<Rightarrow> log_request list" where
  "claim_expired_rows now batch rows =
     take batch (sort_key (\<lambda>r. the (lr_expires_at r)) (filter (reapable now) rows))"

definition delete_log_blob :: "string \<Rightarrow> (string \<times> bytes) list \<Rightarrow> bool \<times> (string \<times> bytes) list" where
  "delete_log_blob path bs = (path \<in> fst ` set bs, filter (\<lambda>b. fst b \<noteq> path) bs)"

definition reaped_row :: "int \<Rightarrow> log_request \<Rightarrow> log_request" where
  "reaped_row now r = r\<lparr>lr_status := STATUS_EXPIRED, lr_blob_path := None, lr_updated_at := now\<rparr>"

record reap_stats =
  claimed :: nat
  blobs_deleted :: nat
  blobs_missing :: nat
  rows_expired :: nat
  errors :: nat

text \<open>One row of a reaper tick; \<open>broken\<close> says for which paths the storage call raises.\<close>

definition reap_step :: "int \<Rightarrow> (string \<Rightarrow> bool) \<Rightarrow> log_request \<Rightarrow> reap_stats \<times> log_db \<Rightarrow> reap_stats \<times> log_db" where
  "reap_step clock broken r = (\<lambda>(stats, st).
     let flip = (\<lambda>(n, s). (n\<lparr>rows_expired := rows_expired n + 1\<rparr>,
           s\<lparr>requests := update_where (\<lambda>x. lr_id x = lr_id r) (reaped_row clock) (requests s)\<rparr>))
     in if truthy (lr_blob_path r)
        then let path = the (lr_blob_path r)
             in if broken path then (stats\<lparr>errors := errors stats + 1\<rparr>, st)
                else let (existed, bs) = delete_log_blob path (blobs st)
                     in flip (if existed then stats\<lparr>blobs_deleted := blobs_deleted stats + 1\<rparr>
                              else stats\<lparr>blobs_missing := blobs_missing stats + 1\<rparr>, st\<lparr>blobs := bs\<rparr>)
        else flip (stats, st))"

definition reap_once :: "nat \<Rightarrow> int \<Rightarrow> int \<Rightarrow> (string \<Rightarrow> bool) \<Rightarrow> log_db \<Rightarrow> reap_stats \<times> log_db" where
  "reap_once batch now clock broken st =
     (let rows = claim_expired_rows now batch (requests st)
      in fold (reap_step clock broken) rows
           (\<lparr>claimed = length rows, blobs_deleted = 0, blobs_missing = 0, rows_expired = 0, errors = 0\<rparr>, st))"

section \<open>Handlers\<close>

definition verify_device_access :: "string list option \<Rightarrow> string \<Rightarrow> device list \<Rightarrow> api_error option" where
  "verify_device_access groups did devs =
     (case find_by dev_id did devs of
        None \<Rightarrow> Some (HTTPException 404 ''Device not found'')
      | Some d \<Rightarrow> (case dev_group_id d of None \<Rightarrow> None
          | Some g \<Rightarrow> (case groups of None \<Rightarrow> None
              | Some gs \<Rightarrow> if g \<in> set gs then None
                  else Some (HTTPException 403 ''Access denied: resource is outside your assigned groups''))))"

definition load_outbox_row_with_access ::
  "string list option option \<Rightarrow> string \<Rightarrow> device list \<Rightarrow> log_db \<Rightarrow> api_error + log_request" where
  "load_outbox_row_with_access user rid devs st =
     (case get_request rid (requests st) of
        None \<Rightarrow> Inl (HTTPException 404 ''Log request not found'')
      | Some r \<Rightarrow> (case user of None \<Rightarrow> Inr r
          | Some groups \<Rightarrow> (case verify_device_access groups (lr_device_id r) devs of
              Some e \<Rightarrow> Inl e | None \<Rightarrow> Inr r)))"

text \<open>\<^verbatim>\<open>create_log_request\<close>: the first commit, and what follows the immediate dispatch, whose
  outcome is nothing or the text of the exception.\<close>

definition create_log_request ::
  "int \<Rightarrow> string \<Rightarrow> string option \<Rightarrow> string list option \<Rightarrow> string \<Rightarrow> string list option \<Rightarrow> string \<Rightarrow> device list \<Rightarrow> log_db
     \<Rightarrow> api_error + log_db" where
  "create_log_request now rid user groups did services since devs st =
     (case verify_device_access groups did devs of
        Some e \<Rightarrow> Inl e
      | None \<Rightarrow> Inr (st\<lparr>requests := create_request now rid did user services since (Some DEFAULT_RETENTION) (requests st)\<rparr>))"

definition create_log_request_outcome :: "int \<Rightarrow> string \<Rightarrow> string option \<Rightarrow> log_db \<Rightarrow> log_db" where
  "create_log_request_outcome now rid outcome st =
     (case outcome of
        None \<Rightarrow> st\<lparr>requests := snd (mark_sent now rid (requests st))\<rparr>
      | Some err \<Rightarrow> st\<lparr>requests := snd (record_attempt_error now rid
            (if err = '''' then ''dispatch failed'' else err) (requests st))\<rparr>)"

definition download_log_request ::
  "int \<Rightarrow> string list option option \<Rightarrow> string \<Rightarrow> device list \<Rightarrow> log_db \<Rightarrow> api_error + (string \<times> log_db)" where
  "download_log_request now user rid devs st =
     result_bind (load_outbox_row_with_access user rid devs st) (\<lambda>r.
       if lr_status r \<noteq> STATUS_READY \<or> \<not> truthy (lr_blob_path r)
       then Inl (HTTPException 409 ''Logs not ready yet'')
       else Inr (the (lr_blob_path r), st\<lparr>requests :=
              update_where (\<lambda>x. lr_id x = rid) (\<lambda>x. x\<lparr>lr_expires_at := Some now\<rparr>) (requests st)\<rparr>))"

definition write_log_blob :: "string \<Rightarrow> bytes \<Rightarrow> (string \<times> bytes) list \<Rightarrow> (string \<times> bytes) list" where
  "write_log_blob path data bs = (path, data) # filter (\<lambda>b. fst b \<noteq> path) bs"

definition log_blob_path :: "string \<Rightarrow> string \<Rightarrow> string" where
  "log_blob_path did rid = did @ ''/'' @ rid @ ''.tar.gz''"

definition MAX_UPLOAD_BYTES :: nat where "MAX_UPLOAD_BYTES = 100 * 1024 * 1024"

text \<open>\<^verbatim>\<open>_bounded_body_stream\<close>, with the bytes read so far.\<close>

fun bounded_body_stream :: "nat \<Rightarrow> bytes list \<Rightarrow> api_error + bytes" where
  "bounded_body_stream seen [] = Inr []"
| "bounded_body_stream seen (chunk # rest) =
     (if chunk = [] then bounded_body_stream seen rest
      else if seen + length chunk > MAX_UPLOAD_BYTES
      then Inl (HTTPException 413 (''Upload exceeds '' @ int_text (int MAX_UPLOAD_BYTES) @ '' bytes''))
      else result_bind (bounded_body_stream (seen + length chunk) rest) (\<lambda>tl. Inr (chunk @ tl)))"

text \<open>\<^verbatim>\<open>upload_log_bundle\<close>: the checks with the streamed write, and the flip to ready.\<close>

definition upload_log_bundle :: "string \<Rightarrow> string \<Rightarrow> bytes list \<Rightarrow> log_db \<Rightarrow> api_error + (nat \<times> log_db)" where
  "upload_log_bundle device_id rid body st =
     (case get_request rid (requests st) of
        None \<Rightarrow> Inl (HTTPException 404 ''Log request not found'')
      | Some r \<Rightarrow>
          if lr_device_id r \<noteq> device_id then Inl (HTTPException 404 ''Log request not found for this device'')
          else if lr_status r \<in> set TERMINAL_STATUSES then Inl (HTTPException 409 ''cannot accept upload'')
          else result_bind (bounded_body_stream 0 body) (\<lambda>data.
            Inr (length data, st\<lparr>blobs := write_log_blob (log_blob_path device_id rid) data (blobs st)\<rparr>)))"

definition upload_log_bundle_done :: "int \<Rightarrow> string \<Rightarrow> string \<Rightarrow> nat \<Rightarrow> log_db \<Rightarrow> log_db" where
  "upload_log_bundle_done now device_id rid len st =
     st\<lparr>requests := snd (mark_ready now rid (log_blob_path device_id rid) len (requests st))\<rparr>"

text \<open>The \<^verbatim>\<open>LOGS_RESPONSE\<close> branch of the inbound handler: the device's error, or the archive made of
  its logs, and whether processing it raises.\<close>

definition logs_response ::
  "int \<Rightarrow> string \<Rightarrow> string \<Rightarrow> string option \<Rightarrow> bytes \<Rightarrow> string option \<Rightarrow> log_db \<Rightarrow> log_db" where
  "logs_response now device_id rid err payload raises st =
     (if rid = '''' then st
      else case get_request rid (requests st) of
        None \<Rightarrow> st
      | Some r \<Rightarrow>
          if \<not> open_request r then st
          else if truthy err then st\<lparr>requests := snd (mark_request_failed now rid (the err) (requests st))\<rparr>
          else case raises of
              Some msg \<Rightarrow> st\<lparr>requests := snd (record_error now rid msg (requests st))\<rparr>
            | None \<Rightarrow> let path = log_blob_path device_id rid
                in st\<lparr>blobs := write_log_blob path payload (blobs st),
                      requests := snd (mark_ready now rid path (length payload) (requests st))\<rparr>)"

section \<open>The flow as a transition system\<close>

text \<open>The table, the blobs, and the requests whose immediate dispatch from the router is under
  way. Every operation may happen at any time, whichever checks its handler made earlier. The
  chunk assembler stores the bundle of a device for a request under their own path and makes that request ready with
  its size, or fails a request.\<close>

record log_sys =
  ls_db :: log_db
  ls_inflight :: "string list"

definition set_rows :: "log_request list \<Rightarrow> log_sys \<Rightarrow> log_sys" where
  "set_rows rows s = s\<lparr>ls_db := (ls_db s)\<lparr>requests := rows\<rparr>\<rparr>"

inductive log_step :: "drain_config \<Rightarrow> log_sys \<Rightarrow> log_sys \<Rightarrow> bool" for cfg where
  lstep_create: "create_log_request now rid user groups did services since devs (ls_db s) = Inr db \<Longrightarrow>
    rid \<notin> lr_id ` set (requests (ls_db s)) \<Longrightarrow>
    log_step cfg s \<lparr>ls_db = db, ls_inflight = rid # ls_inflight s\<rparr>"
| lstep_outcome: "rid \<in> set (ls_inflight s) \<Longrightarrow>
    log_step cfg s \<lparr>ls_db = create_log_request_outcome now rid outcome (ls_db s), ls_inflight = removeAll rid (ls_inflight s)\<rparr>"
| lstep_drain: "drain_once cfg now clock dispatch (requests (ls_db s)) = (stats, rows) \<Longrightarrow> log_step cfg s (set_rows rows s)"
| lstep_reap: "reap_once batch now clock broken (ls_db s) = (rstats, db) \<Longrightarrow> log_step cfg s (s\<lparr>ls_db := db\<rparr>)"
| lstep_download: "download_log_request now user rid devs (ls_db s) = Inr (path, db) \<Longrightarrow> log_step cfg s (s\<lparr>ls_db := db\<rparr>)"
| lstep_upload: "upload_log_bundle did rid body (ls_db s) = Inr (len, db) \<Longrightarrow> log_step cfg s (s\<lparr>ls_db := db\<rparr>)"
| lstep_upload_done: "log_step cfg s (s\<lparr>ls_db := upload_log_bundle_done now did rid len (ls_db s)\<rparr>)"
| lstep_response: "log_step cfg s (s\<lparr>ls_db := logs_response now did rid err payload raises (ls_db s)\<rparr>)"
| lstep_bundle: "path = log_blob_path did rid \<Longrightarrow> log_step cfg s (s\<lparr>ls_db := (ls_db s)\<lparr>blobs := write_log_blob path content (blobs (ls_db s)),
      requests := snd (mark_ready now rid path (length content) (requests (ls_db s)))\<rparr>\<rparr>)"
| lstep_failed: "log_step cfg s (set_rows (snd (mark_request_failed now rid err (requests (ls_db s)))) s)"

section \<open>Lemmas\<close>

definition request_writes :: "(log_request \<Rightarrow> log_request) set" where
  "request_writes = range sent_row \<union> {ready_row now path len |now path len. True} \<union> {fail_row now err |now err. True}
     \<union> {error_row now err |now err. True} \<union> range expired_row \<union> {attempt_row now err |now err. True}
     \<union> range pending_again \<union> range reaped_row \<union> {\<lambda>x. x\<lparr>lr_expires_at := Some now\<rparr> |now. True}"

lemmas request_row_defs = sent_row_def ready_row_def fail_row_def error_row_def expired_row_def attempt_row_def
  pending_again_def reaped_row_def

interpretation request_rows: keyed_table lr_id request_writes
  by unfold_locales (auto simp: request_writes_def request_row_defs)

lemma request_writes_mem [simp]:
  "sent_row now \<in> request_writes" "ready_row now path len \<in> request_writes" "fail_row now err \<in> request_writes"
  "error_row now err \<in> request_writes" "attempt_row now err \<in> request_writes" "pending_again now \<in> request_writes"
  "reaped_row now \<in> request_writes" "(\<lambda>x. x\<lparr>lr_expires_at := Some now\<rparr>) \<in> request_writes"
  unfolding request_writes_def by blast+

subsection \<open>A drainer tick row by row\<close>

definition rescue_effect :: "int \<Rightarrow> nat \<Rightarrow> log_request \<Rightarrow> log_request" where
  "rescue_effect clock limit r =
     (if lr_attempts r \<ge> limit then fail_row clock (timeout_detail r) r else pending_again clock r)"

definition dispatch_effect :: "int \<Rightarrow> nat \<Rightarrow> (log_request \<Rightarrow> string option) \<Rightarrow> log_request \<Rightarrow> log_request" where
  "dispatch_effect clock limit dispatch r =
     (case dispatch r of
        Some err \<Rightarrow> if lr_attempts r + 1 \<ge> limit then fail_row clock err r else attempt_row clock err r
      | None \<Rightarrow> sent_row clock r)"

lemma rescue_point:
  "rescue_step clock limit r = update_where
     (\<lambda>x. lr_id x = lr_id r \<and> (if lr_attempts r \<ge> limit then non_terminal x else lr_status x = STATUS_SENT))
     (if lr_attempts r \<ge> limit then fail_row clock (timeout_detail r) else pending_again clock)"
  by (auto simp: rescue_step_def mark_request_failed_def update_request_def fun_eq_iff)

lemma dispatch_point:
  "dispatch_step clock limit dispatch r = update_where
     (\<lambda>x. lr_id x = lr_id r \<and> (if dispatch r \<noteq> None \<and> lr_attempts r + 1 \<ge> limit then non_terminal x else pending x))
     (case dispatch r of
        Some err \<Rightarrow> if lr_attempts r + 1 \<ge> limit then fail_row clock err else attempt_row clock err
      | None \<Rightarrow> sent_row clock)"
  by (cases "dispatch r") (auto simp: dispatch_step_def mark_request_failed_def record_attempt_error_def mark_sent_def
      update_request_def fun_eq_iff)

lemma claims:
  "set (claim_due_pending now batch rows) \<subseteq> {r \<in> set rows. pending r}"
  "set (claim_stuck_sent now timeout batch rows) \<subseteq> {r \<in> set rows. stuck now timeout r}"
  "set (claim_expired_rows now batch rows) \<subseteq> {r \<in> set rows. reapable now r}"
  by (auto simp: claim_due_pending_def claim_stuck_sent_def claim_expired_rows_def dest!: in_set_takeD)

lemma claimD:
  "r \<in> set (claim_due_pending now batch rows) \<Longrightarrow> r \<in> set rows \<and> lr_status r = STATUS_PENDING"
  "r \<in> set (claim_stuck_sent now timeout batch rows) \<Longrightarrow> r \<in> set rows \<and> lr_status r = STATUS_SENT"
  using claims(1) [of now batch rows] claims(2) [of now timeout batch rows] by (auto simp: pending_def stuck_def)

lemma distinct_claims:
  assumes "keys_ok lr_id rows"
  shows "distinct (map lr_id (claim_due_pending now batch rows))"
    and "distinct (map lr_id (claim_stuck_sent now timeout batch rows))"
    and "distinct (map lr_id (claim_expired_rows now batch rows))"
  using assms
  by (auto simp: keys_ok_def claim_due_pending_def claim_stuck_sent_def claim_expired_rows_def distinct_map
      intro!: distinct_filter distinct_take inj_on_subset [of lr_id "set rows"] dest!: in_set_takeD)

lemma drain_rows:
  assumes "keys_ok lr_id rows"
  shows "snd (drain_once cfg now clock dispatch rows) =
    map (\<lambda>r. if r \<in> set (claim_stuck_sent now (sent_timeout_sec cfg) (batch_size cfg) rows)
             then rescue_effect clock (max_attempts cfg) r
             else if r \<in> set (claim_due_pending now (batch_size cfg) rows)
             then dispatch_effect clock (max_attempts cfg) dispatch r else r) rows"
proof -
  let ?S = "claim_stuck_sent now (sent_timeout_sec cfg) (batch_size cfg) rows"
  let ?P = "claim_due_pending now (batch_size cfg) rows"
  let ?m = "max_attempts cfg"
  let ?g = "\<lambda>r. if r \<in> set ?S then rescue_effect clock ?m r else r"
  have "fold (rescue_step clock ?m) ?S rows = map (\<lambda>x. if x \<in> set ?S
      \<and> (if lr_attempts x \<ge> ?m then non_terminal x else lr_status x = STATUS_SENT)
      then (if lr_attempts x \<ge> ?m then fail_row clock (timeout_detail x) else pending_again clock) x else x) rows"
    unfolding rescue_point
    by (rule request_rows.fold_point_updates [OF assms distinct_claims(2) [OF assms]])
      (use claims(2) [of now "sent_timeout_sec cfg" "batch_size cfg" rows] in auto)
  also have "\<dots> = map ?g rows"
    using claims(2) [of now "sent_timeout_sec cfg" "batch_size cfg" rows]
    by (intro map_cong) (auto simp: rescue_effect_def stuck_def non_terminal_def TERMINAL_STATUSES_def)
  finally have one: "fold (rescue_step clock ?m) ?S rows = map ?g rows" .
  have gid: "lr_id (?g r) = lr_id r" for r by (simp add: rescue_effect_def request_row_defs)
  then have keys: "keys_ok lr_id (map ?g rows)" using assms by (simp add: keys_ok_def comp_def)
  have same: "?g r = r" if "r \<in> set ?P" for r
    using that by (auto dest!: claimD)
  have sub: "set ?P \<subseteq> set (map ?g rows)"
  proof
    fix r assume r: "r \<in> set ?P"
    have "?g r \<in> ?g ` set rows" using claimD(1) [OF r] by (intro imageI) simp
    then show "r \<in> set (map ?g rows)" unfolding set_map same [OF r] .
  qed
  have "fold (dispatch_step clock ?m dispatch) ?P (map ?g rows) = map (\<lambda>x. if x \<in> set ?P
      \<and> (if dispatch x \<noteq> None \<and> lr_attempts x + 1 \<ge> ?m then non_terminal x else pending x)
      then (case dispatch x of Some err \<Rightarrow> if lr_attempts x + 1 \<ge> ?m then fail_row clock err else attempt_row clock err
         | None \<Rightarrow> sent_row clock) x else x) (map ?g rows)"
    unfolding dispatch_point
    by (rule request_rows.fold_point_updates [OF keys distinct_claims(1) [OF assms] sub]) (auto split: option.splits)
  also have "\<dots> = map (\<lambda>x. if x \<in> set ?P then dispatch_effect clock ?m dispatch x else x) (map ?g rows)"
    using claims(1) [of now "batch_size cfg" rows]
    by (intro map_cong) (auto simp: dispatch_effect_def pending_def non_terminal_def TERMINAL_STATUSES_def split: option.splits)
  also have "\<dots> = map (\<lambda>r. if r \<in> set ?S then rescue_effect clock ?m r
      else if r \<in> set ?P then dispatch_effect clock ?m dispatch r else r) rows"
    unfolding map_map comp_def
  proof (rule map_cong [OF refl])
    fix r assume r: "r \<in> set rows"
    have "?g r \<notin> set ?P" if "r \<in> set ?S"
    proof
      assume "?g r \<in> set ?P"
      then have g: "?g r \<in> set rows" "pending (?g r)" using claims(1) [of now "batch_size cfg" rows] by auto
      with r gid [of r] assms have "?g r = r" by (auto simp only: keys_ok_def distinct_map dest: inj_onD)
      with g(2) have "pending r" by simp
      then show False using claimD(2) [OF that] by (simp add: pending_def)
    qed
    then show "(if ?g r \<in> set ?P then dispatch_effect clock ?m dispatch (?g r) else ?g r)
      = (if r \<in> set ?S then rescue_effect clock ?m r else if r \<in> set ?P then dispatch_effect clock ?m dispatch r else r)"
      by simp
  qed
  finally show ?thesis by (simp add: drain_once_def Let_def one)
qed

subsection \<open>A reaper tick row by row\<close>

definition delete_fails :: "(string \<Rightarrow> bool) \<Rightarrow> log_request \<Rightarrow> bool" where
  "delete_fails broken r \<longleftrightarrow> truthy (lr_blob_path r) \<and> broken (the (lr_blob_path r))"

definition deleted_path :: "(string \<Rightarrow> bool) \<Rightarrow> log_request \<Rightarrow> string \<Rightarrow> bool" where
  "deleted_path broken r path \<longleftrightarrow> truthy (lr_blob_path r) \<and> \<not> broken (the (lr_blob_path r)) \<and> path = the (lr_blob_path r)"

lemma reap_step_state:
  "snd (reap_step clock broken r (n, st)) =
    st\<lparr>requests := update_where (\<lambda>x. lr_id x = lr_id r \<and> \<not> delete_fails broken r) (reaped_row clock) (requests st),
       blobs := filter (\<lambda>b. \<not> deleted_path broken r (fst b)) (blobs st)\<rparr>"
  by (cases st) (auto simp: reap_step_def delete_fails_def deleted_path_def delete_log_blob_def Let_def update_where_def
      case_prod_beta)

lemma reap_fold:
  "snd (fold (reap_step clock broken) rs (n, st)) =
    st\<lparr>requests := fold (\<lambda>r. update_where (\<lambda>x. lr_id x = lr_id r \<and> \<not> delete_fails broken r) (reaped_row clock)) rs (requests st),
       blobs := filter (\<lambda>b. \<not> (\<exists>r \<in> set rs. deleted_path broken r (fst b))) (blobs st)\<rparr>"
proof (induction rs arbitrary: n st)
  case (Cons r rs)
  obtain n' st' where one: "reap_step clock broken r (n, st) = (n', st')" by (cases "reap_step clock broken r (n, st)")
  then have "st' = st\<lparr>requests := update_where (\<lambda>x. lr_id x = lr_id r \<and> \<not> delete_fails broken r) (reaped_row clock) (requests st),
       blobs := filter (\<lambda>b. \<not> deleted_path broken r (fst b)) (blobs st)\<rparr>"
    using reap_step_state [of clock broken r n st] by simp
  then show ?case using Cons.IH [of n' st'] by (simp add: one conj_commute)
qed simp

lemma reap_rows:
  assumes "keys_ok lr_id (requests st)"
  shows "snd (reap_once batch now clock broken st) =
    st\<lparr>requests := map (\<lambda>r. if r \<in> set (claim_expired_rows now batch (requests st)) \<and> \<not> delete_fails broken r
          then reaped_row clock r else r) (requests st),
       blobs := filter (\<lambda>b. \<not> (\<exists>r \<in> set (claim_expired_rows now batch (requests st)). deleted_path broken r (fst b))) (blobs st)\<rparr>"
proof -
  let ?C = "claim_expired_rows now batch (requests st)"
  have "fold (\<lambda>r. update_where (\<lambda>x. lr_id x = lr_id r \<and> \<not> delete_fails broken r) (reaped_row clock)) ?C (requests st)
    = map (\<lambda>x. if x \<in> set ?C \<and> \<not> delete_fails broken x then reaped_row clock x else x) (requests st)"
    by (rule request_rows.fold_point_updates [OF assms distinct_claims(3) [OF assms]])
      (use claims(3) [of now batch "requests st"] in auto)
  then show ?thesis by (simp add: reap_once_def Let_def reap_fold)
qed

subsection \<open>What may happen to a row\<close>

definition evolves :: "log_request \<Rightarrow> log_request \<Rightarrow> bool" where
  "evolves r r' \<longleftrightarrow> lr_id r' = lr_id r \<and> lr_device_id r' = lr_device_id r
     \<and> (lr_status r \<in> set TERMINAL_STATUSES \<longrightarrow>
          lr_status r' = lr_status r \<and> lr_blob_path r' = lr_blob_path r
          \<or> lr_status r' = STATUS_EXPIRED \<and> lr_blob_path r' = None)"

lemma evolves_refl [simp]: "evolves r r"
  by (simp add: evolves_def)

lemma evolves_trans: "evolves r s \<Longrightarrow> evolves s t \<Longrightarrow> evolves r t"
  by (auto simp: evolves_def TERMINAL_STATUSES_def)

lemmas status_defs = pending_def open_request_def non_terminal_def stuck_def TERMINAL_STATUSES_def

lemma evolves_rows [simp]:
  "pending r \<Longrightarrow> evolves r (sent_row now r)"
  "open_request r \<Longrightarrow> evolves r (ready_row now path len r)"
  "non_terminal r \<Longrightarrow> evolves r (fail_row now err r)"
  "non_terminal r \<Longrightarrow> evolves r (error_row now err r)"
  "pending r \<Longrightarrow> evolves r (attempt_row now err r)"
  "lr_status r = STATUS_SENT \<Longrightarrow> evolves r (pending_again now r)"
  "evolves r (reaped_row now r)"
  "evolves r (r\<lparr>lr_expires_at := t\<rparr>)"
  by (auto simp: evolves_def request_row_defs status_defs)

text \<open>The rows within a retry budget; only the router's own outcome may use one more attempt.\<close>

definition within :: "nat \<Rightarrow> log_request \<Rightarrow> bool" where
  "within b r \<longleftrightarrow> lr_attempts r \<le> b \<and> (lr_status r = STATUS_PENDING \<longrightarrow> lr_attempts r < b)"

lemma within_mono: "within b r \<Longrightarrow> b \<le> c \<Longrightarrow> within c r"
  by (auto simp: within_def)

lemma within_rows [simp]:
  "within b r \<Longrightarrow> pending r \<Longrightarrow> within b (sent_row now r)"
  "within b r \<Longrightarrow> open_request r \<Longrightarrow> within b (ready_row now path len r)"
  "within b r \<Longrightarrow> within b (fail_row now err r)"
  "within b r \<Longrightarrow> within b (error_row now err r)"
  "within b r \<Longrightarrow> within b (reaped_row now r)"
  "within b r \<Longrightarrow> within b (r\<lparr>lr_expires_at := t\<rparr>)"
  "within b r \<Longrightarrow> within (Suc b) (attempt_row now err r)"
  by (auto simp: within_def request_row_defs status_defs)

text \<open>A step on the rows: every row evolves in place and keeps within its budget.\<close>

definition rows_step :: "nat \<Rightarrow> log_request list \<Rightarrow> log_request list \<Rightarrow> bool" where
  "rows_step m rows rows' \<longleftrightarrow> list_all2 evolves rows rows'
     \<and> list_all2 (\<lambda>r r'. \<forall>b \<ge> m. within b r \<longrightarrow> within b r') rows rows'"

lemma rows_step_map:
  assumes "\<forall>r \<in> set rows. evolves r (g r) \<and> (\<forall>b \<ge> m. within b r \<longrightarrow> within b (g r))"
  shows "rows_step m rows (map g rows)"
  using assms by (simp add: rows_step_def list_all2_map2 list_all2_same)

lemma rows_step_refl: "rows_step m rows rows"
  using rows_step_map [of rows "\<lambda>r. r" m] by simp

lemma rows_step_update:
  assumes "\<forall>r. guard r \<longrightarrow> evolves r (f r) \<and> (\<forall>b \<ge> m. within b r \<longrightarrow> within b (f r))"
  shows "rows_step m rows (snd (update_request rid guard f rows))"
  unfolding update_request_def snd_conv update_where_def by (rule rows_step_map) (use assms in simp)

lemma rows_step_helpers:
  "rows_step m rows (snd (mark_sent now rid rows))"
  "rows_step m rows (snd (mark_ready now rid path len rows))"
  "rows_step m rows (snd (mark_request_failed now rid err rows))"
  "rows_step m rows (snd (record_error now rid err rows))"
  by (simp_all add: mark_sent_def mark_ready_def mark_request_failed_def record_error_def rows_step_update)

lemma rescue_ok:
  assumes "lr_status r = STATUS_SENT"
  shows "evolves r (rescue_effect clock m r)" "b \<ge> m \<Longrightarrow> within b r \<Longrightarrow> within b (rescue_effect clock m r)"
  using assms by (auto simp: rescue_effect_def status_defs within_def request_row_defs evolves_def)

lemma dispatch_ok:
  assumes "lr_status r = STATUS_PENDING"
  shows "evolves r (dispatch_effect clock m dispatch r)"
    "b \<ge> m \<Longrightarrow> within b r \<Longrightarrow> within b (dispatch_effect clock m dispatch r)"
  using assms by (auto simp: dispatch_effect_def status_defs within_def request_row_defs evolves_def split: option.splits)

lemma drain_step:
  assumes "keys_ok lr_id rows"
  shows "rows_step (max_attempts cfg) rows (snd (drain_once cfg now clock dispatch rows))"
  unfolding drain_rows [OF assms]
  by (rule rows_step_map) (auto simp: rescue_ok dispatch_ok dest!: claimD)

lemma reap_rows_step:
  assumes "keys_ok lr_id (requests st)"
  shows "rows_step m (requests st) (requests (snd (reap_once batch now clock broken st)))"
  unfolding reap_rows [OF assms] by (simp add: rows_step_map)

lemma rows_step_keys: "rows_step m rows rows' \<Longrightarrow> map lr_id rows' = map lr_id rows"
  by (auto simp: rows_step_def list_all2_conv_all_nth evolves_def intro!: nth_equalityI)

lemma rows_step_mem: "rows_step m rows rows' \<Longrightarrow> r \<in> set rows \<Longrightarrow> \<exists>r' \<in> set rows'. evolves r r'"
  unfolding rows_step_def by (metis list_all2_conv_all_nth in_set_conv_nth)

definition log_inv :: "drain_config \<Rightarrow> log_sys \<Rightarrow> bool" where
  "log_inv cfg s \<longleftrightarrow> keys_ok lr_id (requests (ls_db s))
     \<and> (\<forall>r \<in> set (requests (ls_db s)).
          within (if lr_id r \<in> set (ls_inflight s) then max_attempts cfg else Suc (max_attempts cfg)) r)"

lemma rows_step_inv:
  assumes "log_inv cfg s" "rows_step (max_attempts cfg) (requests (ls_db s)) (requests (ls_db s'))"
    and "ls_inflight s' = ls_inflight s"
  shows "log_inv cfg s'"
proof -
  let ?b = "\<lambda>r. if lr_id r \<in> set (ls_inflight s) then max_attempts cfg else Suc (max_attempts cfg)"
  have "keys_ok lr_id (requests (ls_db s'))"
    using assms(1) rows_step_keys [OF assms(2)] by (simp add: log_inv_def keys_ok_def)
  moreover have "within (?b r') r'" if r': "r' \<in> set (requests (ls_db s'))" for r'
  proof -
    obtain i where i: "i < length (requests (ls_db s'))" "requests (ls_db s') ! i = r'"
      using r' by (auto simp: in_set_conv_nth)
    define r where "r = requests (ls_db s) ! i"
    have "evolves r r'" "\<forall>b \<ge> max_attempts cfg. within b r \<longrightarrow> within b r'" "r \<in> set (requests (ls_db s))"
      using assms(2) i by (auto simp: rows_step_def list_all2_conv_all_nth r_def)
    moreover from this have "within (?b r) r" "?b r' = ?b r"
      using assms(1) by (auto simp: log_inv_def evolves_def)
    ultimately show ?thesis by simp
  qed
  ultimately show ?thesis by (simp add: log_inv_def assms(3))
qed

lemma logs_response_step: "rows_step m (requests st) (requests (logs_response now did rid err payload raises st))"
  by (auto simp: logs_response_def Let_def rows_step_refl rows_step_helpers split: option.splits)

lemma download_step:
  assumes "download_log_request now user rid devs st = Inr (path, db)"
  shows "rows_step m (requests st) (requests db)"
proof -
  have "requests db = map (\<lambda>x. if lr_id x = rid then x\<lparr>lr_expires_at := Some now\<rparr> else x) (requests st)"
    using assms by (auto simp: download_log_request_def result_bind_eq_Inr update_where_def split: if_splits)
  then show ?thesis by (simp add: rows_step_map)
qed

lemma create_inv:
  assumes "log_inv cfg s" "create_log_request now rid user groups did services since devs (ls_db s) = Inr db"
    and "rid \<notin> lr_id ` set (requests (ls_db s))" "0 < max_attempts cfg"
  shows "log_inv cfg \<lparr>ls_db = db, ls_inflight = rid # ls_inflight s\<rparr>"
proof -
  obtain r where r: "requests db = requests (ls_db s) @ [r]" "lr_id r = rid" "lr_attempts r = 0"
    using assms(2) by (auto simp: create_log_request_def create_request_def insert_row_def split: option.splits)
  then show ?thesis
    using assms(1,3,4) by (auto simp: log_inv_def keys_ok_def within_def image_iff)
qed

definition outcome_row :: "int \<Rightarrow> string option \<Rightarrow> log_request \<Rightarrow> log_request" where
  "outcome_row now outcome = (case outcome of None \<Rightarrow> sent_row now
     | Some err \<Rightarrow> attempt_row now (if err = '''' then ''dispatch failed'' else err))"

lemma outcome_rows:
  "requests (create_log_request_outcome now rid outcome st)
      = update_where (\<lambda>r. lr_id r = rid \<and> pending r) (outcome_row now outcome) (requests st)"
  "outcome_row now outcome \<in> request_writes"
  "pending r \<Longrightarrow> evolves r (outcome_row now outcome r)"
  "within b r \<Longrightarrow> pending r \<Longrightarrow> within (Suc b) (outcome_row now outcome r)"
  by (auto simp: create_log_request_outcome_def outcome_row_def mark_sent_def record_attempt_error_def update_request_def
      intro: within_mono [of b] split: option.splits)

lemma outcome_inv:
  assumes "log_inv cfg s" "rid \<in> set (ls_inflight s)"
  shows "log_inv cfg \<lparr>ls_db = create_log_request_outcome now rid outcome (ls_db s), ls_inflight = removeAll rid (ls_inflight s)\<rparr>"
proof -
  have "keys_ok lr_id (requests (create_log_request_outcome now rid outcome (ls_db s)))"
    unfolding outcome_rows(1)
    using assms(1) by (intro request_rows.keys_ok_update [OF outcome_rows(2)]) (simp add: log_inv_def)
  moreover have "lr_id (outcome_row now outcome r) = lr_id r" for r using request_rows.key_write [OF outcome_rows(2)] .
  ultimately show ?thesis
    using assms outcome_rows(4)
    by (auto simp: log_inv_def outcome_rows(1) set_update_where intro: within_mono split: if_splits)
qed

theorem log_step_inv:
  assumes "log_step cfg s s'" "log_inv cfg s" "0 < max_attempts cfg"
  shows "log_inv cfg s'"
  using assms(1)
proof cases
  case (lstep_create now rid user groups did services since devs db)
  then show ?thesis using create_inv [OF assms(2)] assms(3) by simp
next
  case (lstep_outcome rid now outcome)
  then show ?thesis using outcome_inv [OF assms(2)] by simp
next
  case (lstep_drain now clock dispatch stats rows)
  then have "rows = snd (drain_once cfg now clock dispatch (requests (ls_db s)))" by simp
  then show ?thesis
    unfolding lstep_drain(1) using assms(2) drain_step
    by (intro rows_step_inv [OF assms(2)]) (auto simp: set_rows_def log_inv_def)
next
  case (lstep_reap batch now clock broken rstats db)
  then have "db = snd (reap_once batch now clock broken (ls_db s))" by simp
  then show ?thesis
    unfolding lstep_reap(1) using assms(2) reap_rows_step
    by (intro rows_step_inv [OF assms(2)]) (auto simp: log_inv_def)
next
  case (lstep_download now user rid devs path db)
  then show ?thesis using download_step by (intro rows_step_inv [OF assms(2)]) simp_all
next
  case (lstep_upload did rid body len db)
  then have "requests db = requests (ls_db s)"
    by (auto simp: upload_log_bundle_def result_bind_eq_Inr split: option.splits if_splits)
  then show ?thesis unfolding lstep_upload(1) by (intro rows_step_inv [OF assms(2)]) (simp_all add: rows_step_refl)
qed (use assms(2) in \<open>auto intro!: rows_step_inv [OF assms(2)]
    simp: set_rows_def upload_log_bundle_done_def rows_step_refl rows_step_helpers logs_response_step\<close>)

lemma log_step_evolves:
  assumes "log_step cfg s s'" "log_inv cfg s" "r \<in> set (requests (ls_db s))"
  shows "\<exists>r' \<in> set (requests (ls_db s')). evolves r r'"
  using assms(1)
proof cases
  case (lstep_create now rid user groups did services since devs db)
  then have "set (requests (ls_db s)) \<subseteq> set (requests db)"
    by (auto simp: create_log_request_def create_request_def insert_row_def split: option.splits)
  then show ?thesis using assms(3) lstep_create(1) by (auto intro: bexI [of _ r])
next
  case (lstep_outcome rid now outcome)
  let ?r = "if lr_id r = rid \<and> pending r then outcome_row now outcome r else r"
  have "?r \<in> set (requests (create_log_request_outcome now rid outcome (ls_db s)))"
    using assms(3) by (auto simp: outcome_rows(1) update_where_def)
  moreover have "evolves r ?r" by (simp add: outcome_rows(3))
  ultimately have "\<exists>r' \<in> set (requests (create_log_request_outcome now rid outcome (ls_db s))). evolves r r'" by blast
  then show ?thesis using lstep_outcome(1) by simp
next
  case (lstep_drain now clock dispatch stats rows)
  then have "rows = snd (drain_once cfg now clock dispatch (requests (ls_db s)))" by simp
  then show ?thesis
    using assms(2) lstep_drain(1) rows_step_mem [OF drain_step assms(3)] by (simp add: set_rows_def log_inv_def)
next
  case (lstep_reap batch now clock broken rstats db)
  then have "db = snd (reap_once batch now clock broken (ls_db s))" by simp
  then show ?thesis
    using assms(2) lstep_reap(1) rows_step_mem [OF reap_rows_step assms(3)] by (simp add: log_inv_def)
next
  case (lstep_download now user rid devs path db)
  then show ?thesis using rows_step_mem [OF download_step assms(3)] by simp
next
  case (lstep_upload did rid body len db)
  then have "requests db = requests (ls_db s)"
    by (auto simp: upload_log_bundle_def result_bind_eq_Inr split: option.splits if_splits)
  then show ?thesis using assms(3) lstep_upload(1) by (auto intro: bexI [of _ r])
qed (use rows_step_mem [OF rows_step_helpers(2) assms(3)] rows_step_mem [OF rows_step_helpers(3) assms(3)]
    rows_step_mem [OF logs_response_step assms(3)] rows_step_mem [OF rows_step_refl assms(3)] in \<open>simp_all add: set_rows_def upload_log_bundle_done_def\<close>)

definition empty_logs :: log_sys where
  "empty_logs = \<lparr>ls_db = \<lparr>requests = [], blobs = []\<rparr>, ls_inflight = []\<rparr>"

lemma log_inv_empty: "log_inv cfg empty_logs"
  by (simp add: log_inv_def empty_logs_def keys_ok_def)

lemma log_run_inv:
  assumes "(log_step cfg)\<^sup>*\<^sup>* s s'" "log_inv cfg s" "0 < max_attempts cfg"
  shows "log_inv cfg s'"
  using assms(1) by (induction rule: rtranclp_induct) (auto intro: assms(2,3) log_step_inv)

lemma log_run_evolves:
  assumes "(log_step cfg)\<^sup>*\<^sup>* s s'" "log_inv cfg s" "0 < max_attempts cfg" "r \<in> set (requests (ls_db s))"
  shows "\<exists>r' \<in> set (requests (ls_db s')). evolves r r'"
  using assms(1)
proof (induction rule: rtranclp_induct)
  case base
  then show ?case using assms(4) by (auto intro: bexI [of _ r])
next
  case (step t t')
  then show ?case
    using log_step_evolves [OF step(2) log_run_inv [OF step(1) assms(2,3)]] evolves_trans by blast
qed

section \<open>Properties\<close>

text \<open>Terminal statuses are final. Once a log request is ready, failed or expired, no
  interleaving of router, drainer, reaper, uploads, device replies and downloads ever changes its
  status or its bundle again, except that the reaper may turn it into expired and drop the bundle.\<close>

theorem log_terminal_is_final:
  assumes "(log_step cfg)\<^sup>*\<^sup>* empty_logs s" "(log_step cfg)\<^sup>*\<^sup>* s s'" "0 < max_attempts cfg"
    and "r \<in> set (requests (ls_db s))" "lr_status r \<in> set TERMINAL_STATUSES"
  shows "\<exists>r' \<in> set (requests (ls_db s')). lr_id r' = lr_id r \<and> lr_device_id r' = lr_device_id r
    \<and> (lr_status r' = lr_status r \<and> lr_blob_path r' = lr_blob_path r
       \<or> lr_status r' = STATUS_EXPIRED \<and> lr_blob_path r' = None)"
proof -
  have "log_inv cfg s" using log_run_inv [OF assms(1) log_inv_empty assms(3)] .
  from log_run_evolves [OF assms(2) this assms(3,4)] show ?thesis
    using assms(5) unfolding evolves_def by blast
qed

text \<open>The retry budget holds. Whatever fails and however the router's own dispatch overlaps
  with the drainer, no device is asked more than one time above \<^verbatim>\<open>max_attempts\<close> for the same request,
  and a request waiting for its next attempt has used fewer.\<close>

theorem log_attempts_bounded:
  assumes "(log_step cfg)\<^sup>*\<^sup>* empty_logs s" "0 < max_attempts cfg" "r \<in> set (requests (ls_db s))"
  shows "lr_attempts r \<le> max_attempts cfg + 1
    \<and> (lr_status r = STATUS_PENDING \<longrightarrow> lr_attempts r \<le> max_attempts cfg)"
proof -
  have "log_inv cfg s" using log_run_inv [OF assms(1) log_inv_empty assms(2)] .
  then have "within (if lr_id r \<in> set (ls_inflight s) then max_attempts cfg else Suc (max_attempts cfg)) r"
    using assms(3) by (simp add: log_inv_def)
  then have "within (Suc (max_attempts cfg)) r" by (rule within_mono) simp
  then show ?thesis by (auto simp: within_def)
qed

text \<open>One drainer tick, exactly. Stuck sent rows go back to pending, or to failed when their
  attempts are used up; due pending rows become sent, or failed on their last attempt, or stay
  pending with one more attempt and the error; every other row is untouched.\<close>

theorem drain_once_exact:
  assumes "keys_ok lr_id rows"
  shows "snd (drain_once cfg now clock dispatch rows) =
    map (\<lambda>r. if r \<in> set (claim_stuck_sent now (sent_timeout_sec cfg) (batch_size cfg) rows)
             then if lr_attempts r \<ge> max_attempts cfg then fail_row clock (timeout_detail r) r else pending_again clock r
             else if r \<in> set (claim_due_pending now (batch_size cfg) rows)
             then case dispatch r of
                 None \<Rightarrow> sent_row clock r
               | Some err \<Rightarrow> if lr_attempts r + 1 \<ge> max_attempts cfg then fail_row clock err r else attempt_row clock err r
             else r) rows"
  unfolding drain_rows [OF assms] rescue_effect_def dispatch_effect_def
  by (intro map_cong refl)

text \<open>One reaper tick, exactly. Of the rows past their expiry and not yet expired, the oldest
  batch becomes expired and loses its bundle, from the row and from the store, except rows whose
  deletion raised, which are left for the next tick; no other row and no other blob is touched.\<close>

theorem reap_once_exact:
  assumes "keys_ok lr_id (requests st)"
  shows "snd (reap_once batch now clock broken st) =
    st\<lparr>requests := map (\<lambda>r. if r \<in> set (claim_expired_rows now batch (requests st)) \<and> \<not> delete_fails broken r
          then reaped_row clock r else r) (requests st),
       blobs := filter (\<lambda>b. \<not> (\<exists>r \<in> set (claim_expired_rows now batch (requests st)). deleted_path broken r (fst b))) (blobs st)\<rparr>"
  using assms by (rule reap_rows)

text \<open>A rescued row is not retried on the next tick, as the drainer documents, but only after the
  backoff of its attempts: for every row that was sent at least once, the rescue at \<open>t\<close> makes it
  eligible at \<open>t + min (60 * 2^attempts) 3600\<close> seconds and not before.\<close>

theorem rescued_row_waits:
  assumes "stuck now timeout r" "0 < lr_attempts r"
  shows "(eligible_for_retry (pending_again t r) t' \<longleftrightarrow> t + min (60 * 2 ^ lr_attempts r) 3600 * 1000000 \<le> t')
    \<and> \<not> eligible_for_retry (pending_again t r) (t + 119 * 1000000)"
proof -
  have e: "eligible_for_retry (pending_again t r) t' \<longleftrightarrow> t + min (60 * 2 ^ lr_attempts r) 3600 * 1000000 \<le> t'" for t'
    using assms(2) by (simp add: eligible_for_retry_def pending_again_def backoff_seconds_def)
  have "(2::int) ^ 1 \<le> 2 ^ lr_attempts r" using assms(2) by (intro power_increasing) simp_all
  then have "(120::int) \<le> min (60 * 2 ^ lr_attempts r) 3600" by simp
  then show ?thesis unfolding e by auto
qed

section \<open>Witnesses\<close>

definition sample_request :: log_request where
  "sample_request = hd (create_request 0 ''r1'' ''d1'' None None ''24h'' (Some DEFAULT_RETENTION) [])"

definition sample_request_db :: log_db where
  "sample_request_db = \<lparr>requests = [sample_request], blobs = []\<rparr>"

definition log_device :: "device list" where
  "log_device = map (\<lambda>d. d\<lparr>dev_id := ''d1'', dev_group_id := None\<rparr>) (take 1 (devices sample_db))"

lemma sample_created:
  "log_step default_drain empty_logs \<lparr>ls_db = sample_request_db, ls_inflight = [''r1'']\<rparr>"
proof -
  have "create_log_request 0 ''r1'' None None ''d1'' None ''24h'' log_device (ls_db empty_logs) = Inr sample_request_db"
    by code_simp
  from lstep_create [OF this] show ?thesis by (simp add: empty_logs_def)
qed

theorem log_attempts_bounded_witness: "lr_attempts sample_request \<le> max_attempts default_drain + 1"
proof -
  have "(log_step default_drain)\<^sup>*\<^sup>* empty_logs \<lparr>ls_db = sample_request_db, ls_inflight = [''r1'']\<rparr>"
    using sample_created by (rule r_into_rtranclp)
  from log_attempts_bounded [OF this, of sample_request] show ?thesis
    by (simp add: default_drain_def sample_request_db_def)
qed

definition ready_sys :: log_sys where
  "ready_sys = \<lparr>ls_db = upload_log_bundle_done 5 ''d1'' ''r1'' 3 sample_request_db, ls_inflight = [''r1'']\<rparr>"

theorem log_terminal_is_final_witness:
  "\<exists>r' \<in> set (requests (snd (reap_once 10 9000000000 9000000000 (\<lambda>p. False) (ls_db ready_sys)))). lr_id r' = ''r1''
    \<and> (lr_status r' = STATUS_READY \<or> lr_status r' = STATUS_EXPIRED)"
proof -
  let ?r = "hd (requests (ls_db ready_sys))"
  let ?s' = "ready_sys\<lparr>ls_db := snd (reap_once 10 9000000000 9000000000 (\<lambda>p. False) (ls_db ready_sys))\<rparr>"
  have "log_step default_drain \<lparr>ls_db = sample_request_db, ls_inflight = [''r1'']\<rparr> ready_sys"
    using lstep_upload_done [of default_drain "\<lparr>ls_db = sample_request_db, ls_inflight = [''r1'']\<rparr>" 5 "''d1''" "''r1''" 3]
    by (simp add: ready_sys_def)
  then have run: "(log_step default_drain)\<^sup>*\<^sup>* empty_logs ready_sys" using sample_created by simp
  have "log_step default_drain ready_sys ?s'" by (rule lstep_reap [OF surjective_pairing])
  then have run': "(log_step default_drain)\<^sup>*\<^sup>* ready_sys ?s'" by (rule r_into_rtranclp)
  have "0 < max_attempts default_drain" by code_simp
  moreover have "?r \<in> set (requests (ls_db ready_sys))" "lr_status ?r \<in> set TERMINAL_STATUSES" by code_simp+
  ultimately obtain r' where "r' \<in> set (requests (ls_db ?s'))" "lr_id r' = lr_id ?r"
      "lr_status r' = lr_status ?r \<or> lr_status r' = STATUS_EXPIRED"
    using log_terminal_is_final [OF run run'] by blast
  moreover have "lr_id ?r = ''r1''" "lr_status ?r = STATUS_READY" by code_simp+
  ultimately show ?thesis by auto
qed

theorem drain_once_exact_witness:
  "snd (drain_once default_drain 5 5 (\<lambda>r. Some ''offline'') [sample_request]) = [attempt_row 5 ''offline'' sample_request]"
proof -
  have "keys_ok lr_id [sample_request]" by code_simp
  from drain_once_exact [OF this] show ?thesis by (rule trans) code_simp
qed

theorem reap_once_exact_witness:
  "snd (reap_once 10 3600000000 3600000000 (\<lambda>p. False) (upload_log_bundle_done 5 ''d1'' ''r1'' 3
      (sample_request_db\<lparr>blobs := [(log_blob_path ''d1'' ''r1'', [1, 2, 3]), (''other'', [])]\<rparr>)))
   = \<lparr>requests = [reaped_row 3600000000 (ready_row 5 (log_blob_path ''d1'' ''r1'') 3 sample_request)], blobs = [(''other'', [])]\<rparr>"
proof -
  let ?st = "upload_log_bundle_done 5 ''d1'' ''r1'' 3
      (sample_request_db\<lparr>blobs := [(log_blob_path ''d1'' ''r1'', [1, 2, 3]), (''other'', [])]\<rparr>)"
  have "keys_ok lr_id (requests ?st)" by code_simp
  from reap_once_exact [OF this] show ?thesis by (rule trans) code_simp
qed

theorem rescued_row_waits_witness:
  "eligible_for_retry (pending_again 1000000000 (sent_row 5 sample_request)) 1120000000
   \<and> \<not> eligible_for_retry (pending_again 1000000000 (sent_row 5 sample_request)) 1005000000"
proof -
  have "stuck 1000000000 900 (sent_row 5 sample_request)" "0 < lr_attempts (sent_row 5 sample_request)"
    "lr_attempts (sent_row 5 sample_request) = 1" by code_simp+
  from rescued_row_waits [OF this(1,2), of 1000000000] this(3) show ?thesis by simp
qed

end
