(* ===== verification/Log_Chunks.thy ===== *)
theory Log_Chunks
  imports Log_Outbox
begin

text \<open>
  Chunked log uploads, \<^verbatim>\<open>cms/services/log_chunk_assembler.py\<close>: the LGCK wire format, the reassembly
  buffers with their caps, the reaper of stalled transfers, and the glue that stores a complete
  bundle and flips its outbox row. Bytes are 8-bit words; a Python string is represented by the
  bytes of its UTF-8 encoding, so decoding is the check of well-formedness that the strict codec
  makes.
\<close>

section \<open>Wire format\<close>

text \<open>Well-formed UTF-8: no overlong forms, no surrogates, nothing above U+10FFFF.\<close>

definition between :: "nat \<Rightarrow> nat \<Rightarrow> nat \<Rightarrow> bool" where
  "between lo hi b \<longleftrightarrow> lo \<le> b \<and> b \<le> hi"

abbreviation cont :: "nat \<Rightarrow> bool" where "cont \<equiv> between 128 191"

text \<open>The length of the sequence that a lead byte opens, with the range of its second byte.\<close>

definition utf8_lead :: "nat \<Rightarrow> (nat \<times> nat \<times> nat) option" where
  "utf8_lead b =
     (if b < 128 then Some (0, 0, 0)
      else if between 194 223 b then Some (1, 128, 191)
      else if b = 224 then Some (2, 160, 191)
      else if b = 237 then Some (2, 128, 159)
      else if between 225 239 b then Some (2, 128, 191)
      else if b = 240 then Some (3, 144, 191)
      else if between 241 243 b then Some (3, 128, 191)
      else if b = 244 then Some (3, 128, 143)
      else None)"

function utf8_ok :: "nat list \<Rightarrow> bool" where
  "utf8_ok [] = True"
| "utf8_ok (b # bs) =
     (case utf8_lead b of
        None \<Rightarrow> False
      | Some (n, lo, hi) \<Rightarrow> n \<le> length bs
          \<and> (n = 0 \<or> between lo hi (hd bs) \<and> list_all cont (tl (take n bs)))
          \<and> utf8_ok (drop n bs))"
  by pat_completeness auto

termination utf8_ok
  by (relation "measure length") auto

definition byte_nats :: "bytes \<Rightarrow> nat list" where
  "byte_nats bs = map unat bs"

definition text_bytes :: "string \<Rightarrow> bytes" where
  "text_bytes s = map (\<lambda>c. word_of_nat (of_char c)) s"

definition bytes_text :: "bytes \<Rightarrow> string" where
  "bytes_text bs = map (\<lambda>b. char_of (unat b)) bs"

definition decode_utf8 :: "bytes \<Rightarrow> string option" where
  "decode_utf8 bs = (if utf8_ok (byte_nats bs) then Some (bytes_text bs) else None)"

definition MAGIC :: bytes where "MAGIC = text_bytes ''LGCK''"

definition VERSION :: nat where "VERSION = 1"

definition FLAG_FINAL :: nat where "FLAG_FINAL = 1"

definition HEADER_PREFIX_SIZE :: nat where "HEADER_PREFIX_SIZE = 7"

definition TRAILER_SIZE :: nat where "TRAILER_SIZE = 5"

definition FIXED_HEADER_BYTES :: nat where "FIXED_HEADER_BYTES = 4 + 1 + 2 + 2 + 2 + 1"

text \<open>The \<^verbatim>\<open>H\<close> and \<^verbatim>\<open>B\<close> fields of the little-endian structs.\<close>

definition pack_u16 :: "nat \<Rightarrow> bytes" where
  "pack_u16 n = [word_of_nat (n mod 256), word_of_nat (n div 256)]"

definition unpack_u16 :: "bytes \<Rightarrow> nat \<Rightarrow> nat" where
  "unpack_u16 bs i = unat (bs ! i) + 256 * unat (bs ! (i + 1))"

record chunk_frame =
  cf_request_id :: string
  cf_seq :: nat
  cf_total :: nat
  cf_is_final :: bool
  cf_payload :: bytes

datatype chunk_error = ChunkProtocolError string | ChunkStateError string | ChunkKeyError

definition is_chunk_frame :: "bytes \<Rightarrow> bool" where
  "is_chunk_frame bs \<longleftrightarrow> length bs \<ge> 4 \<and> take 4 bs = MAGIC"

definition nat_text :: "nat \<Rightarrow> string" where "nat_text n = int_text (int n)"

definition parse_frame :: "bytes \<Rightarrow> chunk_error + chunk_frame" where
  "parse_frame bs =
     (if length bs < FIXED_HEADER_BYTES
      then Inl (ChunkProtocolError (''frame too short ('' @ nat_text (length bs) @ '' < '' @ nat_text FIXED_HEADER_BYTES @ '')''))
      else if take 4 bs \<noteq> MAGIC then Inl (ChunkProtocolError ''bad magic'')
      else if unat (bs ! 4) \<noteq> VERSION then Inl (ChunkProtocolError (''unsupported version '' @ nat_text (unat (bs ! 4))))
      else let rid_start = HEADER_PREFIX_SIZE;
               rid_end = rid_start + unpack_u16 bs 5
           in if rid_end + TRAILER_SIZE > length bs then Inl (ChunkProtocolError ''truncated request_id or trailer'')
              else case decode_utf8 (take (rid_end - rid_start) (drop rid_start bs)) of
                  None \<Rightarrow> Inl (ChunkProtocolError ''non-utf8 request_id'')
                | Some rid \<Rightarrow>
                    let sq = unpack_u16 bs rid_end; tot = unpack_u16 bs (rid_end + 2); flags = bs ! (rid_end + 4)
                    in if tot = 0 then Inl (ChunkProtocolError ''total must be >= 1'')
                       else if sq \<ge> tot then Inl (ChunkProtocolError (''seq '' @ nat_text sq @ '' out of range for total '' @ nat_text tot))
                       else Inr \<lparr>cf_request_id = rid, cf_seq = sq, cf_total = tot,
                              cf_is_final = odd (unat flags), cf_payload = drop (rid_end + TRAILER_SIZE) bs\<rparr>)"

definition encode_frame :: "string \<Rightarrow> int \<Rightarrow> int \<Rightarrow> bytes \<Rightarrow> bool \<Rightarrow> bytes result" where
  "encode_frame rid sq tot payload is_final =
     (let rid_bytes = text_bytes rid
      in if length rid_bytes > 65535 then Inl (ValueError ''request_id too long'')
         else if tot < 1 \<or> tot > 65535 then Inl (ValueError ''total out of range'')
         else if sq < 0 \<or> sq \<ge> tot then Inl (ValueError ''seq out of range'')
         else Inr (MAGIC @ [word_of_nat VERSION] @ pack_u16 (length rid_bytes) @ rid_bytes
                   @ pack_u16 (nat sq) @ pack_u16 (nat tot)
                   @ [word_of_nat (if is_final then FLAG_FINAL else 0)] @ payload))"

section \<open>Reassembly\<close>

record chunk_buffer =
  cb_total :: nat
  cb_created_at :: int
  cb_last_updated_at :: int
  cb_chunks :: "(nat, bytes) dict"
  cb_total_bytes :: nat
  cb_saw_final :: bool

definition has_all :: "chunk_buffer \<Rightarrow> bool" where
  "has_all b \<longleftrightarrow> length (cb_chunks b) = cb_total b"

text \<open>\<^verbatim>\<open>self.chunks[i]\<close> raises for a missing index.\<close>

definition assemble :: "chunk_buffer \<Rightarrow> bytes option" where
  "assemble b = map_option concat (those (map (map_of (cb_chunks b)) [0..<cb_total b]))"

record assembled_bundle =
  ab_device_id :: string
  ab_request_id :: string
  ab_data :: bytes

record assembler =
  as_max_count :: nat
  as_max_bytes :: nat
  as_ttl :: int
  as_buffers :: "(string \<times> string, chunk_buffer) dict"

definition assembler_init :: "int \<Rightarrow> int \<Rightarrow> int \<Rightarrow> assembler result" where
  "assembler_init max_count max_bytes ttl_us =
     (if max_count < 1 then Inl (ValueError ''max_count must be >= 1'')
      else if max_bytes < 1 then Inl (ValueError ''max_bytes must be >= 1'')
      else if ttl_us \<le> 0 then Inl (ValueError ''buffer_ttl_sec must be > 0'')
      else Inr \<lparr>as_max_count = nat max_count, as_max_bytes = nat max_bytes, as_ttl = ttl_us, as_buffers = []\<rparr>)"

definition pending_count :: "assembler \<Rightarrow> nat" where "pending_count a = length (as_buffers a)"

definition has_buffer :: "string \<Rightarrow> string \<Rightarrow> assembler \<Rightarrow> bool" where
  "has_buffer did rid a \<longleftrightarrow> (did, rid) \<in> fst ` set (as_buffers a)"

definition pop_buffer :: "string \<times> string \<Rightarrow> assembler \<Rightarrow> assembler" where
  "pop_buffer k a = a\<lparr>as_buffers := dict_pop k (as_buffers a)\<rparr>"

definition put_buffer :: "string \<times> string \<Rightarrow> chunk_buffer \<Rightarrow> assembler \<Rightarrow> assembler" where
  "put_buffer k b a = a\<lparr>as_buffers := dict_set k b (as_buffers a)\<rparr>"

type_synonym ingest_result = "(chunk_error + assembled_bundle option) \<times> assembler"

text \<open>\<^verbatim>\<open>_finalise\<close>; the lookup error would leave the buffer in place.\<close>

definition finalise :: "string \<times> string \<Rightarrow> chunk_buffer \<Rightarrow> assembler \<Rightarrow> ingest_result" where
  "finalise k b a =
     (case assemble b of
        None \<Rightarrow> (Inl ChunkKeyError, put_buffer k b a)
      | Some data \<Rightarrow> (Inr (Some \<lparr>ab_device_id = fst k, ab_request_id = snd k, ab_data = data\<rparr>), pop_buffer k a))"

definition new_buffer :: "int \<Rightarrow> chunk_frame \<Rightarrow> chunk_buffer" where
  "new_buffer now f = \<lparr>cb_total = cf_total f, cb_created_at = now, cb_last_updated_at = now,
     cb_chunks = [], cb_total_bytes = 0, cb_saw_final = False\<rparr>"

definition add_chunk :: "chunk_frame \<Rightarrow> chunk_buffer \<Rightarrow> chunk_buffer" where
  "add_chunk f b = b\<lparr>cb_chunks := dict_set (cf_seq f) (cf_payload f) (cb_chunks b),
     cb_total_bytes := cb_total_bytes b + length (cf_payload f), cb_saw_final := cb_saw_final b \<or> cf_is_final f\<rparr>"

text \<open>The part of \<^verbatim>\<open>ingest\<close> after the buffer has been found or made.\<close>

definition ingest_into :: "string \<times> string \<Rightarrow> chunk_frame \<Rightarrow> chunk_buffer \<Rightarrow> assembler \<Rightarrow> ingest_result" where
  "ingest_into k f b a =
     (if cf_seq f \<in> fst ` set (cb_chunks b)
      then let b1 = (if cf_is_final f then b\<lparr>cb_saw_final := True\<rparr> else b)
           in if cb_saw_final b1 \<and> has_all b1 then finalise k b1 a else (Inr None, put_buffer k b1 a)
      else let projected = cb_total_bytes b + length (cf_payload f)
           in if projected > as_max_bytes a
              then (Inl (ChunkStateError ''bytes_exceeded''), pop_buffer k a)
              else let b1 = add_chunk f b
                   in if cb_saw_final b1 \<and> has_all b1 then finalise k b1 a
                      else if cb_saw_final b1 \<and> cf_is_final f
                      then (Inl (ChunkStateError ''chunks_missing''), pop_buffer k a)
                      else (Inr None, put_buffer k b1 a))"

definition ingest :: "int \<Rightarrow> string \<Rightarrow> chunk_frame \<Rightarrow> assembler \<Rightarrow> ingest_result" where
  "ingest now did f a =
     (let k = (did, cf_request_id f)
      in case map_of (as_buffers a) k of
          None \<Rightarrow>
            if cf_total f > as_max_count a then (Inl (ChunkStateError ''chunks_exceeded''), a)
            else ingest_into k f (new_buffer now f) a
        | Some b \<Rightarrow>
            if cb_total b \<noteq> cf_total f then (Inl (ChunkStateError ''total_changed''), pop_buffer k a)
            else ingest_into k f (b\<lparr>cb_last_updated_at := now\<rparr>) a)"

definition drop_transfer :: "string \<Rightarrow> string \<Rightarrow> assembler \<Rightarrow> bool \<times> assembler" where
  "drop_transfer did rid a = (has_buffer did rid a, pop_buffer (did, rid) a)"

definition reap_expired :: "int \<Rightarrow> assembler \<Rightarrow> (string \<times> string) list \<times> assembler" where
  "reap_expired now a =
     (let dead = filter (\<lambda>(k, b). cb_last_updated_at b \<le> now - as_ttl a) (as_buffers a)
      in (map fst dead, a\<lparr>as_buffers := filter (\<lambda>e. fst e \<notin> fst ` set dead) (as_buffers a)\<rparr>))"

section \<open>Storing a bundle\<close>

text \<open>Only a \<^verbatim>\<open>ChunkStateError\<close> fails the outbox row; a lookup error would propagate, without a
  write.\<close>

definition fail_transfer :: "int \<Rightarrow> string \<Rightarrow> chunk_error \<Rightarrow> log_db \<Rightarrow> log_db" where
  "fail_transfer now rid e st =
     (case e of
        ChunkStateError m \<Rightarrow> st\<lparr>requests := snd (mark_request_failed now rid m (requests st))\<rparr>
      | _ \<Rightarrow> st)"

definition handle_frame ::
  "int \<Rightarrow> string \<Rightarrow> bytes \<Rightarrow> bool \<Rightarrow> assembler \<Rightarrow> log_db \<Rightarrow> assembled_bundle option \<times> assembler \<times> log_db" where
  "handle_frame now did frame_bytes persist_fails a st =
     (case parse_frame frame_bytes of
        Inl e \<Rightarrow> (None, a, st)
      | Inr f \<Rightarrow>
          (case ingest now did f a of
             (Inl e, a') \<Rightarrow> (None, a', fail_transfer now (cf_request_id f) e st)
           | (Inr None, a') \<Rightarrow> (None, a', st)
           | (Inr (Some bundle), a') \<Rightarrow>
               let path = log_blob_path (ab_device_id bundle) (ab_request_id bundle)
               in if persist_fails
                  then (None, a', st\<lparr>requests :=
                     snd (mark_request_failed now (ab_request_id bundle) ''chunk_persist_failed'' (requests st))\<rparr>)
                  else (Some bundle, a', st\<lparr>blobs := write_log_blob path (ab_data bundle) (blobs st),
                     requests := snd (mark_ready now (ab_request_id bundle) path (length (ab_data bundle)) (requests st))\<rparr>)))"

text \<open>One tick of \<^verbatim>\<open>run_reaper_loop\<close>; the reason carries the instant of the last frame in words.\<close>

definition reaper_tick :: "int \<Rightarrow> (string \<times> string \<Rightarrow> string) \<Rightarrow> assembler \<Rightarrow> log_db \<Rightarrow> assembler \<times> log_db" where
  "reaper_tick now reason a st =
     (let (dead, a') = reap_expired now a
      in (a', fold (\<lambda>k s. s\<lparr>requests := snd (mark_request_failed now (snd k) (reason k) (requests s))\<rparr>) dead st))"

section \<open>The wire format round trip\<close>

lemma length_pack_u16 [simp]: "length (pack_u16 n) = 2"
  by (simp add: pack_u16_def)

lemma unpack_pack_u16:
  assumes "n < 65536"
  shows "unpack_u16 (xs @ pack_u16 n @ ys) (length xs) = n"
  using assms by (simp add: unpack_u16_def pack_u16_def nth_append unat_of_nat)

lemma byte_less: "unat (b :: 8 word) < 256"
proof -
  have "unat b < 2 ^ LENGTH(8)" by (rule unsigned_less)
  then show ?thesis by simp
qed

lemma byte_of_unat: "word_of_nat (unat b) = (b :: 8 word)"
  by simp

lemma bytes_text_text_bytes [simp]: "bytes_text (text_bytes s) = s"
  by (simp add: bytes_text_def text_bytes_def comp_def unat_of_nat map_idI)

lemma text_bytes_bytes_text [simp]: "text_bytes (bytes_text bs) = bs"
proof -
  have "word_of_nat (of_char (char_of (unat b) :: char)) = b" for b :: "8 word"
    using byte_less [of b] by simp
  then show ?thesis by (simp add: text_bytes_def bytes_text_def comp_def map_idI)
qed

lemma length_text_bytes [simp]: "length (text_bytes s) = length s" "length (bytes_text bs) = length bs"
  by (simp_all add: text_bytes_def bytes_text_def)

lemma length_MAGIC [simp]: "length MAGIC = 4"
  by (simp add: MAGIC_def)

text \<open>The layout that both directions share.\<close>

definition frame_bytes :: "bytes \<Rightarrow> nat \<Rightarrow> nat \<Rightarrow> 8 word \<Rightarrow> bytes \<Rightarrow> bytes" where
  "frame_bytes rid sq tot flags payload = MAGIC @ [word_of_nat VERSION] @ pack_u16 (length rid) @ rid
     @ pack_u16 sq @ pack_u16 tot @ [flags] @ payload"

lemma frame_fields:
  fixes flags :: "8 word" and payload :: bytes
  assumes "length rid < 65536" "sq < 65536" "tot < 65536"
  defines "bs \<equiv> frame_bytes rid sq tot flags payload"
  shows "length bs = 12 + length rid + length payload" "take 4 bs = MAGIC" "bs ! 4 = word_of_nat VERSION"
    "unpack_u16 bs 5 = length rid" "take (length rid) (drop 7 bs) = rid"
    "unpack_u16 bs (7 + length rid) = sq" "unpack_u16 bs (7 + length rid + 2) = tot"
    "bs ! (7 + length rid + 4) = flags" "drop (7 + length rid + 5) bs = payload"
proof -
  let ?h = "MAGIC @ [word_of_nat VERSION]"
  show "length bs = 12 + length rid + length payload" "take 4 bs = MAGIC" "bs ! 4 = word_of_nat VERSION"
    "take (length rid) (drop 7 bs) = rid"
    by (simp_all add: bs_def frame_bytes_def nth_append)
  have "drop (length xs) (xs @ payload) = payload" for xs :: bytes by simp
  from this [of "?h @ pack_u16 (length rid) @ rid @ pack_u16 sq @ pack_u16 tot @ [flags]"]
  show "drop (7 + length rid + 5) bs = payload" by (simp add: bs_def frame_bytes_def add_ac)
  show "unpack_u16 bs 5 = length rid"
    using unpack_pack_u16 [OF assms(1), of ?h "rid @ pack_u16 sq @ pack_u16 tot @ [flags] @ payload"]
    by (simp add: bs_def frame_bytes_def)
  show "unpack_u16 bs (7 + length rid) = sq"
    using unpack_pack_u16 [OF assms(2), of "?h @ pack_u16 (length rid) @ rid" "pack_u16 tot @ [flags] @ payload"]
    by (simp add: bs_def frame_bytes_def)
  show "unpack_u16 bs (7 + length rid + 2) = tot"
    using unpack_pack_u16 [OF assms(3), of "?h @ pack_u16 (length rid) @ rid @ pack_u16 sq" "[flags] @ payload"]
    by (simp add: bs_def frame_bytes_def)
  show "bs ! (7 + length rid + 4) = flags"
    using nth_append_length [of "?h @ pack_u16 (length rid) @ rid @ pack_u16 sq @ pack_u16 tot" flags payload]
    by (simp add: bs_def frame_bytes_def)
qed

lemma parse_frame_bytes:
  assumes "length rid < 65536" "sq < tot" "tot < 65536" "utf8_ok (byte_nats rid)"
  shows "parse_frame (frame_bytes rid sq tot flags payload) = Inr \<lparr>cf_request_id = bytes_text rid, cf_seq = sq,
    cf_total = tot, cf_is_final = odd (unat flags), cf_payload = payload\<rparr>"
proof -
  have "sq < 65536" using assms(2,3) by simp
  note f = frame_fields [OF assms(1) this assms(3), of flags payload]
  have "unat (word_of_nat VERSION :: 8 word) = VERSION" by (simp add: VERSION_def)
  then show ?thesis
    using assms f unfolding parse_frame_def Let_def HEADER_PREFIX_SIZE_def TRAILER_SIZE_def FIXED_HEADER_BYTES_def
    by (simp add: decode_utf8_def)
qed

lemma encode_frame_bytes:
  "encode_frame rid sq tot payload is_final = Inr bs \<longleftrightarrow>
    length rid < 65536 \<and> 1 \<le> tot \<and> tot < 65536 \<and> 0 \<le> sq \<and> sq < tot
    \<and> bs = frame_bytes (text_bytes rid) (nat sq) (nat tot) (word_of_nat (if is_final then FLAG_FINAL else 0)) payload"
  by (auto simp: encode_frame_def frame_bytes_def Let_def)

text \<open>A frame that is accepted is laid out as the encoder lays it out.\<close>

lemma pack_unpack_u16: "length bs \<ge> i + 2 \<Longrightarrow> pack_u16 (unpack_u16 bs i) = take 2 (drop i bs)"
proof -
  assume l: "length bs \<ge> i + 2"
  then have "take 2 (drop i bs) = [bs ! i, bs ! (i + 1)]"
    by (simp add: take_Suc_conv_app_nth numeral_2_eq_2 hd_drop_conv_nth nth_append)
  moreover have "unat (bs ! i) < 256" by (rule byte_less)
  ultimately show ?thesis by (simp add: pack_u16_def unpack_u16_def)
qed

lemma split_at: "drop i bs = take n (drop i bs) @ drop (i + n) bs"
  by (metis append_take_drop_id drop_drop add.commute)

lemma unpack_u16_less: "unpack_u16 bs i < 65536"
  using byte_less [of "bs ! i"] byte_less [of "bs ! (i + 1)"] by (simp add: unpack_u16_def)

lemma parse_frame_layout:
  assumes "parse_frame bs = Inr f"
  defines "n \<equiv> length (cf_request_id f)"
  shows "bs = frame_bytes (text_bytes (cf_request_id f)) (cf_seq f) (cf_total f) (bs ! (11 + n)) (cf_payload f)"
    and "n < 65536" "cf_seq f < cf_total f" "cf_total f < 65536"
    and "cf_is_final f = odd (unat (bs ! (11 + n)))" "utf8_ok (byte_nats (text_bytes (cf_request_id f)))"
proof -
  let ?n = "unpack_u16 bs 5"
  from assms(1) have ok: "length bs \<ge> 12" "take 4 bs = MAGIC" "unat (bs ! 4) = VERSION" "12 + ?n \<le> length bs"
    "utf8_ok (byte_nats (take ?n (drop 7 bs)))"
    and f: "f = \<lparr>cf_request_id = bytes_text (take ?n (drop 7 bs)), cf_seq = unpack_u16 bs (7 + ?n),
      cf_total = unpack_u16 bs (7 + ?n + 2), cf_is_final = odd (unat (bs ! (7 + ?n + 4))), cf_payload = drop (7 + ?n + 5) bs\<rparr>"
    and sq: "cf_seq f < cf_total f"
    by (auto simp: parse_frame_def Let_def decode_utf8_def HEADER_PREFIX_SIZE_def TRAILER_SIZE_def FIXED_HEADER_BYTES_def
        split: if_splits)
  have n: "n = ?n" using ok(4) by (simp add: n_def f)
  show "n < 65536" "cf_seq f < cf_total f" "cf_total f < 65536" using sq unpack_u16_less by (simp_all add: n f)
  show "cf_is_final f = odd (unat (bs ! (11 + n)))" "utf8_ok (byte_nats (text_bytes (cf_request_id f)))"
    using ok(5) by (simp_all add: f n add_ac)
  have one: "take 1 (drop i bs) = [bs ! i]" if "i < length bs" for i
    using that by (simp add: take_Suc_conv_app_nth hd_drop_conv_nth take_Suc)
  have v: "bs ! 4 = word_of_nat VERSION" unfolding ok(3) [symmetric] by simp
  have "bs = take 4 bs @ drop 4 bs" by simp
  also have "drop 4 bs = [bs ! 4] @ drop 5 bs" using split_at [of 4 bs 1] one [of 4] ok(1) by simp
  also have "drop 5 bs = pack_u16 ?n @ drop 7 bs" using split_at [of 5 bs 2] pack_unpack_u16 [of 5 bs] ok(1) by simp
  also have "drop 7 bs = take ?n (drop 7 bs) @ drop (7 + ?n) bs" by (rule split_at)
  also have "drop (7 + ?n) bs = pack_u16 (unpack_u16 bs (7 + ?n)) @ drop (9 + ?n) bs"
    using split_at [of "7 + ?n" bs 2] pack_unpack_u16 [of "7 + ?n" bs] ok(4) by simp
  also have "drop (9 + ?n) bs = pack_u16 (unpack_u16 bs (9 + ?n)) @ drop (11 + ?n) bs"
    using split_at [of "9 + ?n" bs 2] pack_unpack_u16 [of "9 + ?n" bs] ok(4) by simp
  also have "drop (11 + ?n) bs = [bs ! (11 + ?n)] @ drop (12 + ?n) bs"
    using split_at [of "11 + ?n" bs 1] one [of "11 + ?n"] ok(4) by simp
  finally have "bs = frame_bytes (take ?n (drop 7 bs)) (unpack_u16 bs (7 + ?n)) (unpack_u16 bs (9 + ?n)) (bs ! (11 + ?n)) (drop (12 + ?n) bs)"
    unfolding frame_bytes_def using ok(2,4) v by simp
  then show "bs = frame_bytes (text_bytes (cf_request_id f)) (cf_seq f) (cf_total f) (bs ! (11 + n)) (cf_payload f)"
    unfolding f n by (simp add: add_ac)
qed

text \<open>C18. The frame format round-trips. A frame the encoder produces for a request id that is
  well-formed text carries the magic and parses back to exactly what was encoded; and a frame the parser
  accepts, with no flag bit set but the final one, is what the encoder produces for the parsed
  fields, so that nothing in it is ambiguous.\<close>

theorem frame_roundtrip:
  "(encode_frame rid sq tot payload is_final = Inr bs \<longrightarrow> utf8_ok (byte_nats (text_bytes rid)) \<longrightarrow>
      is_chunk_frame bs \<and> parse_frame bs = Inr \<lparr>cf_request_id = rid, cf_seq = nat sq, cf_total = nat tot,
        cf_is_final = is_final, cf_payload = payload\<rparr>)
   \<and> (parse_frame bs = Inr f \<longrightarrow> unat (bs ! (11 + length (cf_request_id f))) < 2 \<longrightarrow>
      encode_frame (cf_request_id f) (int (cf_seq f)) (int (cf_total f)) (cf_payload f) (cf_is_final f) = Inr bs)"
proof (intro conjI impI)
  assume e: "encode_frame rid sq tot payload is_final = Inr bs" and u: "utf8_ok (byte_nats (text_bytes rid))"
  then have bs: "bs = frame_bytes (text_bytes rid) (nat sq) (nat tot) (word_of_nat (if is_final then FLAG_FINAL else 0)) payload"
    and b: "length (text_bytes rid) < 65536" "nat sq < nat tot" "nat tot < 65536"
    by (auto simp: encode_frame_bytes)
  have "odd (unat (word_of_nat (if is_final then FLAG_FINAL else 0) :: 8 word)) = is_final" by (simp add: FLAG_FINAL_def)
  then show "is_chunk_frame bs" "parse_frame bs = Inr \<lparr>cf_request_id = rid, cf_seq = nat sq, cf_total = nat tot,
        cf_is_final = is_final, cf_payload = payload\<rparr>"
    using parse_frame_bytes [OF b u] by (simp_all add: bs is_chunk_frame_def frame_bytes_def)
next
  assume p: "parse_frame bs = Inr f" and fl: "unat (bs ! (11 + length (cf_request_id f))) < 2"
  note l = parse_frame_layout [OF p]
  let ?fl = "bs ! (11 + length (cf_request_id f))"
  have "unat ?fl = (if cf_is_final f then 1 else 0)" using fl l(5) by (cases "unat ?fl") auto
  then have "?fl = word_of_nat (if cf_is_final f then FLAG_FINAL else 0)"
    unfolding FLAG_FINAL_def using arg_cong [of _ _ word_of_nat] by (metis byte_of_unat)
  then show "encode_frame (cf_request_id f) (int (cf_seq f)) (int (cf_total f)) (cf_payload f) (cf_is_final f) = Inr bs"
    using l(1-4) by (auto simp: encode_frame_bytes)
qed

theorem frame_roundtrip_witness:
  "parse_frame (frame_bytes (text_bytes ''req-1'') 0 2 0 [1, 2, 3]) = Inr \<lparr>cf_request_id = ''req-1'', cf_seq = 0, cf_total = 2,
     cf_is_final = False, cf_payload = [1, 2, 3]\<rparr>
   \<and> encode_frame ''req-1'' 0 2 [1, 2, 3] False = Inr (frame_bytes (text_bytes ''req-1'') 0 2 0 [1, 2, 3])"
proof -
  have "encode_frame ''req-1'' 0 2 [1, 2, 3] False = Inr (frame_bytes (text_bytes ''req-1'') 0 2 0 [1, 2, 3])"
    by (simp add: encode_frame_bytes)
  moreover have "utf8_ok (byte_nats (text_bytes ''req-1''))" by code_simp
  ultimately show ?thesis
    using frame_roundtrip [of "''req-1''" 0 2 "[1, 2, 3]" False "frame_bytes (text_bytes ''req-1'') 0 2 0 [1, 2, 3]"] by simp
qed

section \<open>The buffers\<close>

definition buf_ok :: "assembler \<Rightarrow> chunk_buffer \<Rightarrow> bool" where
  "buf_ok a b \<longleftrightarrow> dict_ok (cb_chunks b) \<and> (\<forall>i \<in> fst ` set (cb_chunks b). i < cb_total b)
     \<and> cb_total_bytes b = sum_list (map (length \<circ> snd) (cb_chunks b)) \<and> cb_total_bytes b \<le> as_max_bytes a
     \<and> 0 < cb_total b \<and> cb_total b \<le> as_max_count a"

definition asm_ok :: "assembler \<Rightarrow> bool" where
  "asm_ok a \<longleftrightarrow> dict_ok (as_buffers a) \<and> (\<forall>b \<in> snd ` set (as_buffers a). buf_ok a b)"

lemma those_map_Some: "(\<forall>x \<in> set xs. f x = Some (g x)) \<Longrightarrow> those (map f xs) = Some (map g xs)"
  by (induction xs) auto

lemma keys_full:
  assumes "dict_ok m" "\<forall>i \<in> fst ` set m. i < n" "length m = n"
  shows "fst ` set m = {0..<n}"
proof (rule card_subset_eq)
  show "card (fst ` set m) = card {0..<n}"
    using assms(1,3) by (simp add: dict_ok_def flip: set_map) (metis distinct_card length_map)
qed (use assms(2) in auto)

lemma assemble_full:
  assumes "dict_ok (cb_chunks b)" "fst ` set (cb_chunks b) = {0..<cb_total b}"
  shows "assemble b = Some (concat (map (\<lambda>i. the (map_of (cb_chunks b) i)) [0..<cb_total b]))"
proof -
  have "map_of (cb_chunks b) i = Some (the (map_of (cb_chunks b) i))" if "i \<in> set [0..<cb_total b]" for i
  proof -
    have "i \<in> fst ` set (cb_chunks b)" using that assms(2) by auto
    then show ?thesis by (metis map_of_eq_None_iff option.exhaust_sel)
  qed
  then show ?thesis by (simp add: assemble_def those_map_Some [of "[0..<cb_total b]" _ "\<lambda>i. the (map_of (cb_chunks b) i)"])
qed

lemma buf_ok_cong [simp]:
  "buf_ok (a\<lparr>as_buffers := x\<rparr>) b = buf_ok a b" "buf_ok a (b\<lparr>cb_saw_final := f\<rparr>) = buf_ok a b"
  "buf_ok a (b\<lparr>cb_last_updated_at := t\<rparr>) = buf_ok a b"
  by (simp_all add: buf_ok_def)

lemma vals_dict_set: "snd ` set (dict_set k v m) \<subseteq> insert v (snd ` set m)"
  by (induction k v m rule: dict_set.induct) auto

lemma asm_ok_put:
  assumes "asm_ok a" "buf_ok a b"
  shows "asm_ok (put_buffer k b a)"
proof -
  have "buf_ok a x" if "x \<in> snd ` set (dict_set k b (as_buffers a))" for x
    using subsetD [OF vals_dict_set that] assms by (auto simp: asm_ok_def)
  then show ?thesis using assms(1) by (simp add: asm_ok_def put_buffer_def)
qed

lemma asm_ok_pop: "asm_ok a \<Longrightarrow> asm_ok (pop_buffer k a)"
  by (auto simp: asm_ok_def pop_buffer_def dict_pop_def)

lemma finalise_ok:
  assumes "asm_ok a" "buf_ok a b" "has_all b"
  shows "asm_ok (snd (finalise k b a))" "fst (finalise k b a) \<noteq> Inl ChunkKeyError"
proof -
  have "fst ` set (cb_chunks b) = {0..<cb_total b}"
    using assms(2,3) by (intro keys_full) (auto simp: buf_ok_def has_all_def)
  then have "assemble b \<noteq> None" using assms(2) assemble_full [of b] by (simp add: buf_ok_def)
  then show "asm_ok (snd (finalise k b a))" "fst (finalise k b a) \<noteq> Inl ChunkKeyError"
    using assms(1) by (auto simp: finalise_def asm_ok_pop)
qed

lemma buf_ok_add:
  assumes "buf_ok a b" "cf_seq f \<notin> fst ` set (cb_chunks b)" "cf_seq f < cb_total b"
    and "cb_total_bytes b + length (cf_payload f) \<le> as_max_bytes a"
  shows "buf_ok a (add_chunk f b)"
proof -
  have "sum_list (map (length \<circ> snd) (dict_set i p m)) = sum_list (map (length \<circ> snd) m) + length p"
    if "i \<notin> fst ` set m" for i p and m :: "(nat, bytes) dict"
    using that by (induction i p m rule: dict_set.induct) auto
  then show ?thesis using assms by (simp add: buf_ok_def add_chunk_def)
qed

lemma ingest_into_ok:
  assumes "asm_ok a" "buf_ok a b" "cf_seq f < cb_total b"
  shows "asm_ok (snd (ingest_into k f b a)) \<and> fst (ingest_into k f b a) \<noteq> Inl ChunkKeyError"
proof (cases "cf_seq f \<in> fst ` set (cb_chunks b)")
  case True
  then show ?thesis
    using assms by (auto simp: ingest_into_def Let_def asm_ok_put finalise_ok split: if_splits)
next
  case False
  show ?thesis
  proof (cases "cb_total_bytes b + length (cf_payload f) > as_max_bytes a")
    case True
    with False show ?thesis using assms(1) by (simp add: ingest_into_def Let_def asm_ok_pop)
  next
    case fits: False
    then have ok: "buf_ok a (add_chunk f b)" using buf_ok_add [OF assms(2) False assms(3)] by simp
    have "ingest_into k f b a = (if cb_saw_final (add_chunk f b) \<and> has_all (add_chunk f b) then finalise k (add_chunk f b) a
       else if cb_saw_final (add_chunk f b) \<and> cf_is_final f then (Inl (ChunkStateError ''chunks_missing''), pop_buffer k a)
       else (Inr None, put_buffer k (add_chunk f b) a))"
      using False fits by (simp add: ingest_into_def Let_def)
    then show ?thesis
      using asm_ok_pop [OF assms(1)] asm_ok_put [OF assms(1) ok] finalise_ok [OF assms(1) ok] by simp
  qed
qed

lemma map_of_buf_ok: "asm_ok a \<Longrightarrow> map_of (as_buffers a) k = Some b \<Longrightarrow> buf_ok a b"
  unfolding asm_ok_def by (metis image_eqI map_of_SomeD snd_conv)

lemma ingest_ok:
  assumes "asm_ok a" "cf_seq f < cf_total f"
  shows "asm_ok (snd (ingest now did f a)) \<and> fst (ingest now did f a) \<noteq> Inl ChunkKeyError"
proof (cases "map_of (as_buffers a) (did, cf_request_id f)")
  case None
  have "buf_ok a (new_buffer now f)" if "cf_total f \<le> as_max_count a"
    using that assms(2) by (simp add: buf_ok_def dict_ok_def new_buffer_def)
  with None assms show ?thesis
    using ingest_into_ok [OF assms(1), of "new_buffer now f"] by (simp add: ingest_def Let_def new_buffer_def)
next
  case (Some b)
  then have "buf_ok a (b\<lparr>cb_last_updated_at := now\<rparr>)" using map_of_buf_ok [OF assms(1) Some] by simp
  from ingest_into_ok [OF assms(1) this] Some assms show ?thesis
    by (simp add: ingest_def Let_def asm_ok_pop)
qed

section \<open>A complete transfer\<close>

text \<open>The frame that carries part \<open>i\<close> of the parts \<open>ps\<close>; the last one is marked final.\<close>

definition part_frame :: "string \<Rightarrow> bytes list \<Rightarrow> nat \<Rightarrow> chunk_frame" where
  "part_frame rid ps i = \<lparr>cf_request_id = rid, cf_seq = i, cf_total = length ps,
     cf_is_final = (i + 1 = length ps), cf_payload = ps ! i\<rparr>"

fun ingest_all :: "string \<Rightarrow> (int \<times> chunk_frame) list \<Rightarrow> assembler \<Rightarrow> (chunk_error + assembled_bundle option) list \<times> assembler" where
  "ingest_all did [] a = ([], a)"
| "ingest_all did ((now, f) # fs) a =
     (let (r, a') = ingest now did f a; (rs, a'') = ingest_all did fs a' in (r # rs, a''))"

definition progress :: "bytes list \<Rightarrow> nat set \<Rightarrow> chunk_buffer \<Rightarrow> bool" where
  "progress ps seen b \<longleftrightarrow> cb_total b = length ps \<and> dict_ok (cb_chunks b) \<and> fst ` set (cb_chunks b) = seen
     \<and> (\<forall>i \<in> seen. map_of (cb_chunks b) i = Some (ps ! i))
     \<and> cb_total_bytes b = (\<Sum>i\<in>seen. length (ps ! i)) \<and> \<not> cb_saw_final b"

definition transfer_state :: "assembler \<Rightarrow> string \<times> string \<Rightarrow> bytes list \<Rightarrow> nat set \<Rightarrow> assembler \<Rightarrow> bool" where
  "transfer_state a0 k ps seen a \<longleftrightarrow> as_max_count a = as_max_count a0 \<and> as_max_bytes a = as_max_bytes a0
     \<and> (\<forall>k'. k' \<noteq> k \<longrightarrow> map_of (as_buffers a) k' = map_of (as_buffers a0) k')
     \<and> (case map_of (as_buffers a) k of None \<Rightarrow> seen = {} | Some b \<Rightarrow> progress ps seen b)"

lemma parts_total:
  assumes "seen \<subseteq> {0..<length ps}"
  shows "(\<Sum>i\<in>seen. length (ps ! i)) \<le> length (concat ps)"
proof -
  have "(\<Sum>i\<in>seen. length (ps ! i)) \<le> (\<Sum>i\<in>{0..<length ps}. length (ps ! i))"
    using assms by (intro sum_mono2) auto
  also have "\<dots> = length (concat ps)"
    by (simp add: length_concat sum_list_sum_nth)
  finally show ?thesis .
qed

lemma progress_add:
  assumes "progress ps seen b" "i \<notin> seen" "finite seen"
  shows "cb_chunks (add_chunk (part_frame rid ps i) b) = dict_set i (ps ! i) (cb_chunks b)"
    "fst ` set (cb_chunks (add_chunk (part_frame rid ps i) b)) = insert i seen"
    "\<forall>j \<in> insert i seen. map_of (cb_chunks (add_chunk (part_frame rid ps i) b)) j = Some (ps ! j)"
    "cb_total_bytes (add_chunk (part_frame rid ps i) b) = (\<Sum>j\<in>insert i seen. length (ps ! j))"
    "cb_total (add_chunk (part_frame rid ps i) b) = length ps" "dict_ok (cb_chunks (add_chunk (part_frame rid ps i) b))"
    "cb_saw_final (add_chunk (part_frame rid ps i) b) \<longleftrightarrow> i + 1 = length ps"
  using assms by (auto simp: progress_def add_chunk_def part_frame_def)

text \<open>What a frame finds: the buffer of the transfer, or a fresh one.\<close>

lemma ingest_transfer:
  assumes "transfer_state a0 k ps seen a" "k = (did, rid)" "length ps \<le> as_max_count a0"
  obtains b where "progress ps seen b" "ingest now did (part_frame rid ps i) a = ingest_into k (part_frame rid ps i) b a"
proof (cases "map_of (as_buffers a) k")
  case None
  have "progress ps seen (new_buffer now (part_frame rid ps i))"
    using assms(1) None by (simp add: transfer_state_def progress_def new_buffer_def part_frame_def dict_ok_def)
  moreover have "ingest now did (part_frame rid ps i) a
      = ingest_into k (part_frame rid ps i) (new_buffer now (part_frame rid ps i)) a"
    using assms None by (simp add: ingest_def part_frame_def transfer_state_def)
  ultimately show ?thesis by (rule that)
next
  case (Some b)
  then have p: "progress ps seen b" using assms(1) by (simp add: transfer_state_def)
  then have "progress ps seen (b\<lparr>cb_last_updated_at := now\<rparr>)" by (simp add: progress_def)
  moreover have "ingest now did (part_frame rid ps i) a
      = ingest_into k (part_frame rid ps i) (b\<lparr>cb_last_updated_at := now\<rparr>) a"
    using assms Some p by (simp add: ingest_def part_frame_def progress_def)
  ultimately show ?thesis by (rule that)
qed

lemma part_step:
  assumes "transfer_state a0 k ps seen a" "k = (did, rid)" "length ps \<le> as_max_count a0"
    and "length (concat ps) \<le> as_max_bytes a0" "seen \<subseteq> {0..<length ps}" "i + 1 < length ps"
  shows "fst (ingest now did (part_frame rid ps i) a) = Inr None
    \<and> transfer_state a0 k ps (insert i seen) (snd (ingest now did (part_frame rid ps i) a))"
proof -
  obtain b where b: "progress ps seen b" "ingest now did (part_frame rid ps i) a = ingest_into k (part_frame rid ps i) b a"
    using ingest_transfer [OF assms(1-3)] by blast
  have fin: "finite seen" using assms(5) finite_subset by blast
  have put: "transfer_state a0 k ps s (put_buffer k x a)" if "progress ps s x" for s x
    using assms(1) that by (auto simp: transfer_state_def put_buffer_def)
  show ?thesis
  proof (cases "i \<in> seen")
    case True
    then have "ingest_into k (part_frame rid ps i) b a = (Inr None, put_buffer k b a)"
      using b(1) assms(6) by (simp add: ingest_into_def progress_def part_frame_def Let_def)
    then show ?thesis using b put [OF b(1)] True by (simp add: insert_absorb)
  next
    case False
    note add = progress_add [OF b(1) False fin, of rid]
    have "cb_total_bytes b + length (ps ! i) = (\<Sum>j\<in>insert i seen. length (ps ! j))"
      using add(4) by (simp add: add_chunk_def part_frame_def)
    also have "\<dots> \<le> as_max_bytes a"
      using parts_total [of "insert i seen" ps] assms(1,4,5,6) by (simp add: transfer_state_def)
    finally have "ingest_into k (part_frame rid ps i) b a = (Inr None, put_buffer k (add_chunk (part_frame rid ps i) b) a)"
      using b(1) False add(7) assms(6) by (simp add: ingest_into_def Let_def progress_def part_frame_def)
    moreover have "progress ps (insert i seen) (add_chunk (part_frame rid ps i) b)"
      unfolding progress_def using add assms(6) by simp
    ultimately show ?thesis using b(2) put by simp
  qed
qed

lemma final_step:
  assumes "transfer_state a0 (did, rid) ps {0..<n} a" "length ps = Suc n" "length ps \<le> as_max_count a0"
    and "length (concat ps) \<le> as_max_bytes a0"
  shows "ingest now did (part_frame rid ps n) a
    = (Inr (Some \<lparr>ab_device_id = did, ab_request_id = rid, ab_data = concat ps\<rparr>), pop_buffer (did, rid) a)"
proof -
  let ?b = "\<lambda>b. add_chunk (part_frame rid ps n) b"
  obtain b where b: "progress ps {0..<n} b"
      "ingest now did (part_frame rid ps n) a = ingest_into (did, rid) (part_frame rid ps n) b a"
    using ingest_transfer [OF assms(1) refl assms(3)] by blast
  have "n \<notin> {0..<n}" "finite {0..<n}" by auto
  note add = progress_add [OF b(1) this, of rid]
  have all: "insert n {0..<n} = {0..<length ps}" using assms(2) by auto
  have has: "has_all (?b b)"
    using add(2,5,6) unfolding has_all_def dict_ok_def all
    by (metis card_atLeastLessThan diff_zero distinct_card length_map set_map)
  have "assemble (?b b) = Some (concat (map (\<lambda>i. the (map_of (cb_chunks (?b b)) i)) [0..<length ps]))"
    using assemble_full [of "?b b"] add(2,5,6) all by simp
  also have "map (\<lambda>i. the (map_of (cb_chunks (?b b)) i)) [0..<length ps] = map (\<lambda>i. ps ! i) [0..<length ps]"
    using add(3) all by (intro map_cong) auto
  finally have asm: "assemble (?b b) = Some (concat ps)" by (simp add: map_nth)
  have "cb_total_bytes b + length (ps ! n) = cb_total_bytes (?b b)" by (simp add: add_chunk_def part_frame_def)
  also have "\<dots> \<le> as_max_bytes a"
    using add(4) parts_total [of "insert n {0..<n}" ps] assms(1,4) all by (simp add: transfer_state_def)
  finally have "ingest_into (did, rid) (part_frame rid ps n) b a = finalise (did, rid) (?b b) a"
    using b(1) has add(7) assms(2) by (simp add: ingest_into_def Let_def progress_def part_frame_def)
  then show ?thesis using asm b(2) by (simp add: finalise_def)
qed

lemma parts_run:
  assumes "transfer_state a0 (did, rid) ps seen a" "length ps \<le> as_max_count a0" "length (concat ps) \<le> as_max_bytes a0"
    and "seen \<subseteq> {0..<length ps}" "\<forall>i \<in> set is. i + 1 < length ps" "length ts = length is"
  shows "\<exists>a'. ingest_all did (zip ts (map (part_frame rid ps) is) @ rest) a
      = (replicate (length is) (Inr None) @ fst (ingest_all did rest a'), snd (ingest_all did rest a'))
    \<and> transfer_state a0 (did, rid) ps (seen \<union> set is) a'"
  using assms
proof (induction "is" arbitrary: ts seen a)
  case Nil
  then show ?case by auto
next
  case (Cons i "is")
  then obtain t ts' where ts: "ts = t # ts'" by (cases ts) auto
  define a1 where "a1 = snd (ingest t did (part_frame rid ps i) a)"
  have step: "ingest t did (part_frame rid ps i) a = (Inr None, a1)" "transfer_state a0 (did, rid) ps (insert i seen) a1"
    using part_step [OF Cons.prems(1) refl Cons.prems(2-4), of i t] Cons.prems(5) by (auto simp: a1_def prod_eq_iff)
  have "insert i seen \<subseteq> {0..<length ps}" using Cons.prems(4,5) by auto
  from Cons.IH [OF step(2) Cons.prems(2,3) this, of ts'] Cons.prems(5,6) ts
  show ?case by (auto simp: step(1) case_prod_beta)
qed

text \<open>C19. Reassembly is correct and tolerant. Whatever the order in which the non-final chunks of a
  transfer arrive and however often each is redelivered, every one is accepted silently; the
  final chunk then yields the bundle with exactly the concatenation of the parts in sequence
  order, and leaves every buffer of the process as it was before the transfer.\<close>

theorem chunks_reassembled:
  assumes "map_of (as_buffers a) (did, rid) = None" "length ps = Suc n" "length ps \<le> as_max_count a"
    and "length (concat ps) \<le> as_max_bytes a" "set is = {0..<n}" "length ts = length is"
  shows "\<exists>a'. ingest_all did (zip ts (map (part_frame rid ps) is) @ [(t, part_frame rid ps n)]) a
      = (replicate (length is) (Inr None) @ [Inr (Some \<lparr>ab_device_id = did, ab_request_id = rid, ab_data = concat ps\<rparr>)], a')
    \<and> map_of (as_buffers a') = map_of (as_buffers a)"
proof -
  have start: "transfer_state a (did, rid) ps {} a" using assms(1) by (simp add: transfer_state_def)
  obtain a1 where run: "ingest_all did (zip ts (map (part_frame rid ps) is) @ [(t, part_frame rid ps n)]) a
      = (replicate (length is) (Inr None) @ fst (ingest_all did [(t, part_frame rid ps n)] a1),
         snd (ingest_all did [(t, part_frame rid ps n)] a1))"
    and st: "transfer_state a (did, rid) ps ({} \<union> set is) a1"
    using parts_run [OF start assms(3,4) _ _ assms(6), of "[(t, part_frame rid ps n)]"] assms(2,5) by auto
  have "ingest t did (part_frame rid ps n) a1
      = (Inr (Some \<lparr>ab_device_id = did, ab_request_id = rid, ab_data = concat ps\<rparr>), pop_buffer (did, rid) a1)"
    using final_step [OF _ assms(2,3,4)] st assms(5) by simp
  moreover have "map_of (as_buffers (pop_buffer (did, rid) a1)) = map_of (as_buffers a)"
    using st assms(1) by (auto simp: pop_buffer_def transfer_state_def fun_eq_iff)
  ultimately show ?thesis using run by simp
qed

definition sample_assembler :: assembler where
  "sample_assembler = \<lparr>as_max_count = 30, as_max_bytes = 22020096, as_ttl = 300000000, as_buffers = []\<rparr>"

theorem chunks_reassembled_witness:
  "\<exists>a'. ingest_all ''d1'' (zip [1, 2, 3] (map (part_frame ''r1'' [[7], [8], [9]]) [1, 0, 1])
        @ [(4, part_frame ''r1'' [[7], [8], [9]] 2)]) sample_assembler
      = (replicate (length [1, 0, 1 :: nat]) (Inr None)
          @ [Inr (Some \<lparr>ab_device_id = ''d1'', ab_request_id = ''r1'', ab_data = concat [[7], [8], [9]]\<rparr>)], a')
      \<and> map_of (as_buffers a') = map_of (as_buffers sample_assembler)"
proof (rule chunks_reassembled)
  show "set [1, 0, 1] = {0..<2 :: nat}" by auto
qed (simp_all add: sample_assembler_def)

section \<open>The assembler beside the outbox\<close>

inductive chunk_step :: "assembler \<times> log_db \<Rightarrow> assembler \<times> log_db \<Rightarrow> bool" where
  cstep_frame: "handle_frame now did data persist_fails a st = (r, a', st') \<Longrightarrow> chunk_step (a, st) (a', st')"
| cstep_reap: "reaper_tick now reason a st = (a', st') \<Longrightarrow> chunk_step (a, st) (a', st')"
| cstep_drop: "drop_transfer did rid a = (r, a') \<Longrightarrow> chunk_step (a, st) (a', st)"

lemma asm_ok_reap: "asm_ok a \<Longrightarrow> asm_ok (snd (reap_expired now a))"
  by (auto simp: asm_ok_def reap_expired_def Let_def)

lemma buffer_caps [simp]:
  "as_max_count (put_buffer k b a) = as_max_count a" "as_max_bytes (put_buffer k b a) = as_max_bytes a"
  "as_max_count (pop_buffer k a) = as_max_count a" "as_max_bytes (pop_buffer k a) = as_max_bytes a"
  by (simp_all add: put_buffer_def pop_buffer_def)

lemma finalise_caps [simp]:
  "as_max_count (snd (finalise k b a)) = as_max_count a" "as_max_bytes (snd (finalise k b a)) = as_max_bytes a"
  by (simp_all add: finalise_def split: option.splits)

lemma ingest_into_caps [simp]:
  "as_max_count (snd (ingest_into k f b a)) = as_max_count a" "as_max_bytes (snd (ingest_into k f b a)) = as_max_bytes a"
  by (simp_all add: ingest_into_def Let_def del: not_less)

lemma ingest_caps:
  "as_max_count (snd (ingest now did f a)) = as_max_count a"
  "as_max_bytes (snd (ingest now did f a)) = as_max_bytes a"
  by (simp_all add: ingest_def Let_def split: option.splits)

lemma handle_frame_asm:
  assumes "handle_frame now did data pf a st = (r, a', st')"
  shows "a' = a \<or> (\<exists>f. parse_frame data = Inr f \<and> a' = snd (ingest now did f a))"
proof (cases "parse_frame data")
  case (Inl e)
  then show ?thesis using assms by (simp add: handle_frame_def)
next
  case (Inr f)
  obtain res a1 where "ingest now did f a = (res, a1)" by (cases "ingest now did f a")
  then have "a' = snd (ingest now did f a)"
    using assms Inr by (auto simp: handle_frame_def Let_def split: sum.splits option.splits if_splits)
  then show ?thesis using Inr by blast
qed

lemma chunk_step_ok:
  assumes "chunk_step s s'" "asm_ok (fst s)"
  shows "asm_ok (fst s') \<and> as_max_count (fst s') = as_max_count (fst s) \<and> as_max_bytes (fst s') = as_max_bytes (fst s)"
  using assms(1)
proof cases
  case (cstep_frame now did data pf a st r a' st')
  from handle_frame_asm [OF cstep_frame(3)] show ?thesis
    using assms(2) cstep_frame(1,2) ingest_ok [of a] ingest_caps parse_frame_layout(3) by auto
next
  case (cstep_reap now reason a st a' st')
  then have "a' = snd (reap_expired now a)" by (auto simp: reaper_tick_def case_prod_beta)
  moreover have "as_max_count a' = as_max_count a" "as_max_bytes a' = as_max_bytes a"
    unfolding calculation by (simp_all add: reap_expired_def Let_def)
  ultimately show ?thesis using assms(2) cstep_reap(1,2) asm_ok_reap [of a now] by simp
next
  case (cstep_drop did rid a r a' st)
  then have "a' = pop_buffer (did, rid) a" by (simp add: drop_transfer_def)
  then show ?thesis using assms(2) cstep_drop(1,2) asm_ok_pop by (simp add: pop_buffer_def)
qed

text \<open>Memory is bounded per transfer. From a fresh assembler, whatever bytes the devices send and
  whenever transfers are dropped or reaped, every buffer holds at most \<^verbatim>\<open>max_count\<close> chunks with valid
  sequence numbers and at most \<^verbatim>\<open>max_bytes\<close> payload bytes, and its byte counter is exact.\<close>

theorem chunk_buffers_bounded:
  assumes "assembler_init mc mb ttl = Inr a0" "chunk_step\<^sup>*\<^sup>* (a0, st0) (a, st)" "(k, b) \<in> set (as_buffers a)"
  shows "length (cb_chunks b) \<le> nat mc \<and> (\<forall>i \<in> fst ` set (cb_chunks b). i < cb_total b)
    \<and> sum_list (map (length \<circ> snd) (cb_chunks b)) \<le> nat mb \<and> cb_total_bytes b = sum_list (map (length \<circ> snd) (cb_chunks b))"
proof -
  have a0: "asm_ok a0" "as_max_count a0 = nat mc" "as_max_bytes a0 = nat mb"
    using assms(1) by (auto simp: assembler_init_def asm_ok_def dict_ok_def split: if_splits)
  have "asm_ok (fst s) \<and> as_max_count (fst s) = nat mc \<and> as_max_bytes (fst s) = nat mb" if "chunk_step\<^sup>*\<^sup>* (a0, st0) s" for s
    using that
  proof (induction rule: rtranclp_induct)
    case (step s t)
    then show ?case using chunk_step_ok [of s t] by simp
  qed (use a0 in simp)
  from this [OF assms(2)] have ok: "asm_ok a" "as_max_count a = nat mc" "as_max_bytes a = nat mb" by simp_all
  have b: "buf_ok a b" using ok(1) assms(3) by (force simp: asm_ok_def)
  have "length (cb_chunks b) = card (fst ` set (cb_chunks b))"
    using b by (metis buf_ok_def dict_ok_def distinct_card length_map set_map)
  also have "\<dots> \<le> card {0..<cb_total b}"
    using b by (intro card_mono) (auto simp: buf_ok_def)
  finally show ?thesis using b ok by (simp add: buf_ok_def)
qed

lemma parse_r1:
  "sq < tot \<Longrightarrow> tot < 65536 \<Longrightarrow> parse_frame (frame_bytes (text_bytes ''r1'') sq tot flags payload)
     = Inr \<lparr>cf_request_id = ''r1'', cf_seq = sq, cf_total = tot, cf_is_final = odd (unat flags), cf_payload = payload\<rparr>"
proof -
  have "utf8_ok (byte_nats (text_bytes ''r1''))" by code_simp
  then show "sq < tot \<Longrightarrow> tot < 65536 \<Longrightarrow> ?thesis" using parse_frame_bytes [of "text_bytes ''r1''"] by simp
qed

lemmas ingest_defs = ingest_def ingest_into_def Let_def new_buffer_def add_chunk_def has_all_def finalise_def
  assemble_def put_buffer_def pop_buffer_def dict_pop_def

theorem chunk_buffers_bounded_witness:
  "\<exists>b. as_buffers (snd (ingest 5 ''d1'' (part_frame ''r1'' [[7], [8]] 0) sample_assembler)) = [((''d1'', ''r1''), b)]
    \<and> cb_total_bytes b \<le> 22020096 \<and> length (cb_chunks b) \<le> 30"
proof -
  let ?db = "\<lparr>requests = [], blobs = []\<rparr>"
  define b where "b = add_chunk (part_frame ''r1'' [[7], [8]] 0) (new_buffer 5 (part_frame ''r1'' [[7], [8]] 0))"
  define a where "a = snd (ingest 5 ''d1'' (part_frame ''r1'' [[7], [8]] 0) sample_assembler)"
  have a: "a = sample_assembler\<lparr>as_buffers := [((''d1'', ''r1''), b)]\<rparr>"
    by (simp add: a_def b_def part_frame_def sample_assembler_def ingest_defs)
  have "handle_frame 5 ''d1'' (frame_bytes (text_bytes ''r1'') 0 2 0 [7]) False sample_assembler ?db = (None, a, ?db)"
    by (simp add: handle_frame_def parse_r1 a b_def part_frame_def sample_assembler_def ingest_defs)
  then have run: "chunk_step\<^sup>*\<^sup>* (sample_assembler, ?db) (a, ?db)" by (intro r_into_rtranclp cstep_frame)
  have init: "assembler_init 30 22020096 300000000 = Inr sample_assembler"
    by (simp add: assembler_init_def sample_assembler_def)
  have "((''d1'', ''r1''), b) \<in> set (as_buffers a)" by (simp add: a)
  from chunk_buffers_bounded [OF init run this] have "cb_total_bytes b \<le> 22020096" "length (cb_chunks b) \<le> 30" by simp_all
  then show ?thesis unfolding a_def [symmetric] by (simp add: a)
qed

lemma log_run_failed:
  "(log_step cfg)\<^sup>*\<^sup>* \<lparr>ls_db = st, ls_inflight = xs\<rparr>
     \<lparr>ls_db = st\<lparr>requests := snd (mark_request_failed now rid err (requests st))\<rparr>, ls_inflight = xs\<rparr>"
  using lstep_failed [of cfg "\<lparr>ls_db = st, ls_inflight = xs\<rparr>" now rid err] by (simp add: set_rows_def r_into_rtranclp)

lemma log_run_ready:
  "(log_step cfg)\<^sup>*\<^sup>* \<lparr>ls_db = st, ls_inflight = xs\<rparr>
     \<lparr>ls_db = st\<lparr>blobs := write_log_blob (log_blob_path did rid) content (blobs st),
        requests := snd (mark_ready now rid (log_blob_path did rid) (length content) (requests st))\<rparr>, ls_inflight = xs\<rparr>"
  using lstep_bundle [OF refl, of cfg "\<lparr>ls_db = st, ls_inflight = xs\<rparr>"] by (simp add: r_into_rtranclp)

lemma log_run_fold_failed:
  "(log_step cfg)\<^sup>*\<^sup>* \<lparr>ls_db = st, ls_inflight = xs\<rparr>
     \<lparr>ls_db = fold (\<lambda>k s. s\<lparr>requests := snd (mark_request_failed now (snd k) (reason k) (requests s))\<rparr>) ks st, ls_inflight = xs\<rparr>"
proof (induction ks arbitrary: st)
  case (Cons k ks)
  show ?case using rtranclp_trans [OF log_run_failed Cons.IH] by simp
qed simp

lemma log_run_fail_transfer:
  "(log_step cfg)\<^sup>*\<^sup>* \<lparr>ls_db = st, ls_inflight = xs\<rparr> \<lparr>ls_db = fail_transfer now rid e st, ls_inflight = xs\<rparr>"
  by (cases e) (simp_all add: fail_transfer_def log_run_failed)

lemma handle_frame_run:
  assumes "handle_frame now did data pf a st = (r, a', st')"
  shows "(log_step cfg)\<^sup>*\<^sup>* \<lparr>ls_db = st, ls_inflight = xs\<rparr> \<lparr>ls_db = st', ls_inflight = xs\<rparr>"
proof (cases "parse_frame data")
  case (Inl e)
  then show ?thesis using assms by (simp add: handle_frame_def)
next
  case (Inr f)
  obtain res a1 where "ingest now did f a = (res, a1)" by (cases "ingest now did f a")
  note hf = assms [unfolded handle_frame_def Inr sum.case this prod.case Let_def]
  show ?thesis
  proof (cases res)
    case (Inl e)
    then show ?thesis using hf log_run_fail_transfer by auto
  next
    case ok: (Inr o1)
    show ?thesis
    proof (cases o1)
      case None
      then show ?thesis using hf ok by simp
    next
      case (Some ab)
      then show ?thesis
        using hf ok by (cases pf) (auto simp: log_run_failed log_run_ready)
    qed
  qed
qed

text \<open>The chunk assembler refines the outbox lifecycle: each of its steps, a frame, a dropped transfer or
  a reaper tick, is a sequence of steps of the outbox on the same table and blob store, so that
  the lifecycle theorems hold for chunked uploads too.\<close>

theorem chunk_step_refines_outbox:
  assumes "chunk_step (a, st) (a', st')"
  shows "(log_step cfg)\<^sup>*\<^sup>* \<lparr>ls_db = st, ls_inflight = xs\<rparr> \<lparr>ls_db = st', ls_inflight = xs\<rparr>"
  using assms
proof cases
  case (cstep_frame now did data pf r)
  then show ?thesis by (intro handle_frame_run)
next
  case (cstep_reap now reason)
  then show ?thesis by (auto simp: reaper_tick_def case_prod_beta log_run_fold_failed)
qed simp

lemma sample_ready: "snd (mark_ready now ''r1'' path len [sample_request]) = [ready_row now path len sample_request]"
  by (simp add: mark_ready_def update_request_def update_where_def open_request_def sample_request_def create_request_def
      insert_row_def)

theorem chunk_step_refines_outbox_witness:
  "(log_step default_drain)\<^sup>*\<^sup>* \<lparr>ls_db = sample_request_db, ls_inflight = []\<rparr>
     \<lparr>ls_db = \<lparr>requests = [ready_row 5 (log_blob_path ''d1'' ''r1'') 1 sample_request],
        blobs = [(log_blob_path ''d1'' ''r1'', [7])]\<rparr>, ls_inflight = []\<rparr>"
proof -
  have "handle_frame 5 ''d1'' (frame_bytes (text_bytes ''r1'') 0 1 1 [7]) False sample_assembler sample_request_db
    = (Some \<lparr>ab_device_id = ''d1'', ab_request_id = ''r1'', ab_data = [7]\<rparr>, sample_assembler,
       \<lparr>requests = [ready_row 5 (log_blob_path ''d1'' ''r1'') 1 sample_request], blobs = [(log_blob_path ''d1'' ''r1'', [7])]\<rparr>)"
    by (simp add: handle_frame_def parse_r1 sample_assembler_def ingest_defs sample_ready write_log_blob_def sample_request_db_def)
  from chunk_step_refines_outbox [OF cstep_frame [OF this]] show ?thesis .
qed

text \<open>The chunk path does not check who owns the request. The upload endpoint answers 404 when the
  authenticated device is not the one the request was made for; a final frame from that same device,
  naming the request, makes the row ready with the foreign device's bundle.\<close>

theorem chunk_upload_ignores_owner:
  "upload_log_bundle ''d2'' ''r1'' [[7]] sample_request_db = Inl (HTTPException 404 ''Log request not found for this device'')
   \<and> requests (snd (snd (handle_frame 5 ''d2'' (frame_bytes (text_bytes ''r1'') 0 1 1 [7]) False sample_assembler sample_request_db)))
     = [ready_row 5 (log_blob_path ''d2'' ''r1'') 1 sample_request]"
proof
  show "upload_log_bundle ''d2'' ''r1'' [[7]] sample_request_db = Inl (HTTPException 404 ''Log request not found for this device'')"
    by code_simp
qed (simp add: handle_frame_def parse_r1 sample_assembler_def ingest_defs sample_ready sample_request_db_def)

section \<open>From the wire to the outbox\<close>

text \<open>The frames of one device one after the other, each with the instant it is handled and whether storing a bundle would fail then.\<close>

fun handle_all :: "string \<Rightarrow> (int \<times> bytes \<times> bool) list \<Rightarrow> assembler \<Rightarrow> log_db \<Rightarrow> assembler \<times> log_db" where
  "handle_all did [] a st = (a, st)"
| "handle_all did ((now, bs, fails) # fs) a st =
     (case handle_frame now did bs fails a st of (r, a', st') \<Rightarrow> handle_all did fs a' st')"

lemma wire_parses:
  assumes "encode_frame rid (int i) (int (length ps)) (ps ! i) (i + 1 = length ps) = Inr bs" "utf8_ok (byte_nats (text_bytes rid))"
  shows "parse_frame bs = Inr (part_frame rid ps i)"
proof -
  have bs: "bs = frame_bytes (text_bytes rid) i (length ps) (word_of_nat (if i + 1 = length ps then FLAG_FINAL else 0)) (ps ! i)"
    and b: "length (text_bytes rid) < 65536" "i < length ps" "length ps < 65536"
    using assms(1) by (auto simp: encode_frame_bytes)
  have "odd (unat (word_of_nat (if i + 1 = length ps then FLAG_FINAL else 0) :: 8 word)) = (i + 1 = length ps)"
    by (simp add: FLAG_FINAL_def)
  then show ?thesis using parse_frame_bytes [OF b assms(2)] by (simp add: bs part_frame_def)
qed

lemma map_of_without: "k \<noteq> p \<Longrightarrow> map_of (filter (\<lambda>b. fst b \<noteq> p) bs) k = map_of bs k"
  by (induction bs) auto

lemma parts_handled:
  assumes "transfer_state a0 (did, rid) ps seen a" "length ps \<le> as_max_count a0" "length (concat ps) \<le> as_max_bytes a0"
    and "seen \<subseteq> {0..<length ps}" "\<forall>(t, i) \<in> set tis. i + 1 < length ps"
    and wire: "\<forall>i < length ps. parse_frame (wire i) = Inr (part_frame rid ps i)"
  shows "\<exists>a'. handle_all did (map (\<lambda>(t, i). (t, wire i, fails)) tis @ rest) a st = handle_all did rest a' st
    \<and> transfer_state a0 (did, rid) ps (seen \<union> snd ` set tis) a'"
  using assms(1,4,5)
proof (induction tis arbitrary: seen a)
  case (Cons ti tis)
  obtain t i where ti: "ti = (t, i)" by (cases ti)
  define a1 where "a1 = snd (ingest t did (part_frame rid ps i) a)"
  have step: "ingest t did (part_frame rid ps i) a = (Inr None, a1)" "transfer_state a0 (did, rid) ps (insert i seen) a1"
    using part_step [OF Cons.prems(1) refl assms(2,3) Cons.prems(2), of i t] Cons.prems(3) ti by (auto simp: a1_def prod_eq_iff)
  have "parse_frame (wire i) = Inr (part_frame rid ps i)" using wire Cons.prems(3) ti by simp
  then have "handle_frame t did (wire i) fails a st = (None, a1, st)" by (simp add: handle_frame_def step(1))
  moreover have "insert i seen \<subseteq> {0..<length ps}" using Cons.prems(2,3) ti by auto
  ultimately show ?case using Cons.IH [OF step(2)] Cons.prems(3) by (simp add: ti)
qed auto

text \<open>C20. A bundle sent in chunks arrives. Let a device with no transfer of the request under way send the frames the encoder makes of the parts
  of a bundle within the caps, the non-final ones in any order and as often as it likes, and the final one last. Then the buffers of the process
  are as before, and the row of that request, if it is pending or sent, is READY with the bundle's size and the path made of the device and the
  request, where the store now holds exactly the parts in order; or it is FAILED, and the store untouched, if the bundle could not be
  stored. No other row and no other path changes. The row is found by the request's identifier alone: whether it is a request to this device is not checked, as
  \<open>chunk_upload_ignores_owner\<close> shows.\<close>

theorem chunked_upload_delivers:
  assumes "map_of (as_buffers a) (did, rid) = None" "length ps = Suc n" "length ps \<le> as_max_count a"
    and "length (concat ps) \<le> as_max_bytes a" "snd ` set tis = {0..<n}" "utf8_ok (byte_nats (text_bytes rid))"
    and "\<forall>i < length ps. encode_frame rid (int i) (int (length ps)) (ps ! i) (i + 1 = length ps) = Inr (wire i)"
    and "handle_all did (map (\<lambda>(t, i). (t, wire i, False)) tis @ [(now, wire n, fails)]) a st = (a', st')"
  shows "map_of (as_buffers a') = map_of (as_buffers a)
    \<and> requests st' = map (\<lambda>r. if lr_id r = rid \<and> lr_status r \<in> {STATUS_PENDING, STATUS_SENT}
        then if fails then r\<lparr>lr_status := STATUS_FAILED, lr_last_error := Some ''chunk_persist_failed'', lr_updated_at := now\<rparr>
             else r\<lparr>lr_status := STATUS_READY, lr_ready_at := Some now, lr_updated_at := now,
               lr_blob_path := Some (did @ ''/'' @ rid @ ''.tar.gz''), lr_size_bytes := Some (length (concat ps)), lr_last_error := None\<rparr>
        else r) (requests st)
    \<and> map_of (blobs st') = (if fails then map_of (blobs st) else (map_of (blobs st))(did @ ''/'' @ rid @ ''.tar.gz'' \<mapsto> concat ps))"
proof -
  have start: "transfer_state a (did, rid) ps {} a" using assms(1) by (simp add: transfer_state_def)
  have wire: "\<forall>i < length ps. parse_frame (wire i) = Inr (part_frame rid ps i)" using wire_parses assms(6,7) by blast
  have "\<forall>(t, i) \<in> set tis. i + 1 < length ps" using assms(2,5) by force
  then obtain a1 where run: "handle_all did [(now, wire n, fails)] a1 st = (a', st')" and a1: "transfer_state a (did, rid) ps {0..<n} a1"
    using parts_handled [OF start assms(3,4) _ _ wire, of tis False "[(now, wire n, fails)]" st] assms(5,8) by auto
  have "ingest now did (part_frame rid ps n) a1
      = (Inr (Some \<lparr>ab_device_id = did, ab_request_id = rid, ab_data = concat ps\<rparr>), pop_buffer (did, rid) a1)"
    by (rule final_step [OF a1 assms(2-4)])
  moreover have "parse_frame (wire n) = Inr (part_frame rid ps n)" using wire assms(2) by simp
  ultimately have a': "a' = pop_buffer (did, rid) a1"
    and st': "st' = (if fails then st\<lparr>requests := snd (mark_request_failed now rid ''chunk_persist_failed'' (requests st))\<rparr>
       else st\<lparr>blobs := write_log_blob (log_blob_path did rid) (concat ps) (blobs st),
          requests := snd (mark_ready now rid (log_blob_path did rid) (length (concat ps)) (requests st))\<rparr>)"
    using run by (auto simp: handle_frame_def Let_def split: if_splits)
  have "map_of (as_buffers a') = map_of (as_buffers a)"
    using a1 assms(1) by (auto simp: a' pop_buffer_def transfer_state_def fun_eq_iff)
  moreover have "map_of (write_log_blob p c bs) = (map_of bs)(p \<mapsto> c)" for p c bs
    by (auto simp: write_log_blob_def fun_eq_iff map_of_without)
  moreover have "non_terminal r \<longleftrightarrow> open_request r" for r
    by (cases "lr_status r") (simp_all add: non_terminal_def open_request_def TERMINAL_STATUSES_def)
  ultimately show ?thesis
    by (auto simp: st' mark_ready_def mark_request_failed_def update_request_def update_where_def ready_row_def fail_row_def error_text_def
        log_blob_path_def open_request_def)
qed

theorem chunked_upload_delivers_witness:
  "map_of (blobs (snd (handle_all ''d1'' [(1, frame_bytes (text_bytes ''r1'') 0 2 0 [7], False), (2, frame_bytes (text_bytes ''r1'') 1 2 1 [8], False)]
     sample_assembler sample_request_db))) ''d1/r1.tar.gz'' = Some [7, 8]"
proof -
  let ?wire = "\<lambda>i. frame_bytes (text_bytes ''r1'') i 2 (if i = 1 then 1 else 0) ([[7], [8]] ! i)"
  let ?fs = "map (\<lambda>(t, i). (t, ?wire i, False)) [(1, 0)] @ [(2, ?wire 1, False)]"
  obtain a' st' where run: "handle_all ''d1'' ?fs sample_assembler sample_request_db = (a', st')"
    by (cases "handle_all ''d1'' ?fs sample_assembler sample_request_db")
  have u: "utf8_ok (byte_nats (text_bytes ''r1''))" by code_simp
  have enc: "\<forall>i < length [[7], [8]]. encode_frame ''r1'' (int i) (int (length [[7], [8]])) ([[7], [8]] ! i) (i + 1 = length [[7], [8]]) = Inr (?wire i)"
    by (auto simp: encode_frame_bytes FLAG_FINAL_def less_Suc_eq)
  have "map_of (blobs st') ''d1/r1.tar.gz'' = Some [7, 8]"
    using chunked_upload_delivers [where n = 1 and wire = ?wire, OF _ _ _ _ _ u enc run] by (simp add: sample_assembler_def)
  then show ?thesis using run by simp
qed

end
