(* ===== verification/Ota_Progress.thy ===== *)
theory Ota_Progress
  imports Json
begin

text \<open>
  The OTA progress projection, \<^verbatim>\<open>cms/services/ota_progress.py\<close>: lifecycle events of a device's
  upgrade applied to the \<^verbatim>\<open>ota_*\<close> columns of its row, with the two regression guards and the
  clearing on terminal events. A percentage is the exact quotient; the code's float is its rounding.
\<close>

section \<open>Phases\<close>

definition PHASE_ORDER :: "(string \<times> int) list" where
  "PHASE_ORDER = [(''ota_download_started'', 10), (''ota_download_progress'', 20), (''ota_signature_verified'', 30),
     (''ota_staged'', 40), (''ota_stage_progress'', 50), (''ota_extract_progress'', 50), (''ota_tryboot_initiated'', 70),
     (''ota_slot_confirmed'', 80), (''ota_promoted'', 90), (''ota_migration_complete'', 100), (''ota_failed'', 999),
     (''ota_declined'', 999)]"

definition TERMINAL :: "string list" where
  "TERMINAL = [''ota_promoted'', ''ota_migration_complete'', ''ota_failed'', ''ota_declined'']"

definition OTA_STUCK_PHASE :: string where "OTA_STUCK_PHASE = ''ota_tryboot_initiated''"

definition PHASE_LABELS :: "(string \<times> string) list" where
  "PHASE_LABELS = [(''ota_download_started'', ''Starting download''), (''ota_download_progress'', ''Downloading bundle''),
     (''ota_signature_verified'', ''Verifying signature''), (''ota_staged'', ''Staging bundle''),
     (''ota_stage_progress'', ''Staging''), (''ota_extract_progress'', ''Extracting bundle''),
     (''ota_tryboot_initiated'', ''Rebooting into new slot''), (''ota_slot_confirmed'', ''Confirming new slot''),
     (''ota_promoted'', ''Promoted''), (''ota_migration_complete'', ''Promoted''), (''ota_failed'', ''Failed''),
     (''ota_declined'', ''Declined'')]"

definition STAGE_SUBPHASE_LABELS :: "(string \<times> string) list" where
  "STAGE_SUBPHASE_LABELS = [(''extracting_meta'', ''Extracting metadata''), (''mounting_inactive'', ''Mounting inactive slot''),
     (''wiping_inactive'', ''Wiping inactive slot''), (''extracting_boot'', ''Extracting boot''),
     (''extracting_rootfs'', ''Extracting rootfs''), (''verifying_manifest'', ''Verifying manifest''),
     (''copying_fleet_state'', ''Copying fleet state''), (''finalizing'', ''Finalizing'')]"

definition EXTRACT_SUBPHASE_LABELS :: "(string \<times> string) list" where
  "EXTRACT_SUBPHASE_LABELS = [(''extracting_boot'', ''Extracting boot''), (''extracting_rootfs'', ''Extracting rootfs'')]"

definition version_bumped :: "string option \<Rightarrow> string option \<Rightarrow> string option \<Rightarrow> string option \<Rightarrow> bool" where
  "version_bumped prior_os prior_fw incoming_os incoming_fw =
     (let norm = (\<lambda>v. strip (case v of None \<Rightarrow> '''' | Some s \<Rightarrow> s));
          or_prior = (\<lambda>i p. if i \<noteq> '''' then i else p);
          prior_os_s = norm prior_os; prior_fw_s = norm prior_fw;
          incoming_os_s = norm incoming_os; incoming_fw_s = norm incoming_fw
      in if incoming_os_s = '''' \<and> incoming_fw_s = '''' then False
         else (or_prior incoming_os_s prior_os_s, or_prior incoming_fw_s prior_fw_s) \<noteq> (prior_os_s, prior_fw_s))"

section \<open>Events\<close>

definition safe_int :: "json \<Rightarrow> int option" where
  "safe_int v = (case py_int v of None \<Rightarrow> None | Some i \<Rightarrow> if i \<ge> 0 then Some i else None)"

definition safe_pct :: "int option \<Rightarrow> int option \<Rightarrow> rat option" where
  "safe_pct dn tot =
     (case (dn, tot) of
        (Some d, Some t) \<Rightarrow>
          if t \<le> 0 then None
          else let pct = of_int d / of_int t * 100
               in Some (if pct < 0 then 0 else if pct > 100 then 100 else pct)
      | _ \<Rightarrow> None)"

record ota_row =
  ota_phase :: "string option"
  ota_label :: "string option"
  ota_pct :: "rat option"
  ota_bytes_done :: "int option"
  ota_bytes_total :: "int option"
  ota_updated_at :: "int option"
  upgrade_started_at :: "int option"

definition sub_label :: "(string \<times> string) list \<Rightarrow> json \<Rightarrow> string \<Rightarrow> string" where
  "sub_label labels v dflt =
     (case v of JStr s \<Rightarrow> (case map_of labels s of Some l \<Rightarrow> l | None \<Rightarrow> dflt) | _ \<Rightarrow> dflt)"

definition derive ::
  "string \<Rightarrow> (string \<times> json) list \<Rightarrow> string \<times> string \<times> rat option \<times> int option \<times> int option" where
  "derive event_type payload =
     (let label = (case map_of PHASE_LABELS event_type of None \<Rightarrow> event_type | Some l \<Rightarrow> l);
          bd = safe_int (json_get ''bytes_done'' payload);
          bt = safe_int (json_get ''bytes_total'' payload)
      in if event_type = ''ota_download_progress'' then (event_type, label, safe_pct bd bt, bd, bt)
         else if event_type = ''ota_stage_progress''
         then (event_type, sub_label STAGE_SUBPHASE_LABELS (json_get ''phase'' payload) label, None, None, None)
         else if event_type = ''ota_extract_progress''
         then (event_type, sub_label EXTRACT_SUBPHASE_LABELS (json_get ''phase'' payload) label, safe_pct bd bt, bd, bt)
         else (event_type, label, None, None, None))"

definition current_order :: "ota_row \<Rightarrow> int" where
  "current_order d = (case ota_phase d of
     None \<Rightarrow> - 1 | Some p \<Rightarrow> if p = '''' then - 1 else (case map_of PHASE_ORDER p of None \<Rightarrow> - 1 | Some n \<Rightarrow> n))"

definition clear_projection :: "ota_row \<Rightarrow> ota_row" where
  "clear_projection d = d\<lparr>ota_phase := None, ota_label := None, ota_pct := None, ota_bytes_done := None,
     ota_bytes_total := None, ota_updated_at := None\<rparr>"

definition handle_event :: "int \<Rightarrow> string \<Rightarrow> (string \<times> json) list \<Rightarrow> ota_row \<Rightarrow> bool \<times> ota_row" where
  "handle_event now event_type payload d =
     (case map_of PHASE_ORDER event_type of
        None \<Rightarrow> (False, d)
      | Some new_order \<Rightarrow>
          if new_order < current_order d \<and> event_type \<notin> set TERMINAL then (False, d)
          else if event_type \<in> set TERMINAL then (True, (clear_projection d)\<lparr>upgrade_started_at := None\<rparr>)
          else let (phase, label, pct, bd, bt) = derive event_type payload
               in if new_order = current_order d
                     \<and> (case (bd, ota_bytes_done d) of (Some b, Some p) \<Rightarrow> b < p | _ \<Rightarrow> False)
                  then (False, d)
                  else (True, d\<lparr>ota_phase := Some phase, ota_label := Some label, ota_pct := pct, ota_bytes_done := bd,
                          ota_bytes_total := bt, ota_updated_at := Some now\<rparr>))"

text \<open>A sequence of deliveries.\<close>

fun apply_events :: "(int \<times> string \<times> (string \<times> json) list) list \<Rightarrow> ota_row \<Rightarrow> ota_row" where
  "apply_events [] d = d"
| "apply_events ((now, t, p) # es) d = apply_events es (snd (handle_event now t p d))"

section \<open>Lemmas\<close>

text \<open>The abstract specification: the furthest phase announced since the last terminal event.\<close>

definition event_order :: "string \<Rightarrow> int" where
  "event_order t = (case map_of PHASE_ORDER t of None \<Rightarrow> - 1 | Some n \<Rightarrow> n)"

fun furthest :: "int \<Rightarrow> string list \<Rightarrow> int" where
  "furthest n [] = n"
| "furthest n (t # ts) = furthest (if t \<in> set TERMINAL then - 1 else max n (event_order t)) ts"

lemma order_pos: "map_of PHASE_ORDER t = Some n \<Longrightarrow> 0 < n \<and> t \<noteq> ''''"
  by (auto simp: PHASE_ORDER_def split: if_splits)

lemma current_order_ge: "- 1 \<le> current_order d"
  using order_pos by (auto simp: current_order_def split: option.splits) (metis order_less_imp_le order_trans neg_0_le_iff_le zero_le_one neg_le_0_iff_le)

lemma derive_phase: "fst (derive t p) = t"
  by (simp add: derive_def Let_def)

lemma handle_event_order:
  "current_order (snd (handle_event now t p d))
     = (if t \<in> set TERMINAL then - 1 else max (current_order d) (event_order t))"
proof (cases "map_of PHASE_ORDER t")
  case None
  then have "t \<notin> set TERMINAL" by (auto simp: TERMINAL_def PHASE_ORDER_def)
  then show ?thesis using None current_order_ge [of d] by (simp add: handle_event_def event_order_def)
next
  case (Some n)
  obtain lab pct bd bt where dv: "derive t p = (t, lab, pct, bd, bt)"
    using derive_phase [of t p] by (cases "derive t p") auto
  have "current_order (d\<lparr>ota_phase := Some t, ota_label := a, ota_pct := b, ota_bytes_done := c,
      ota_bytes_total := e, ota_updated_at := f\<rparr>) = n" for a b c e f
    using Some order_pos [OF Some] by (simp add: current_order_def)
  moreover have "current_order ((clear_projection d)\<lparr>upgrade_started_at := None\<rparr>) = - 1"
    by (simp add: current_order_def clear_projection_def)
  ultimately show ?thesis using Some by (auto simp: handle_event_def event_order_def dv Let_def)
qed

lemma apply_events_order:
  "current_order (apply_events es d) = furthest (current_order d) (map (fst \<circ> snd) es)"
  by (induction es d rule: apply_events.induct) (simp_all add: handle_event_order)

text \<open>What a row may hold: nothing at all, or a known phase that is not terminal, its label, and
  counters in range.\<close>

definition ota_ok :: "ota_row \<Rightarrow> bool" where
  "ota_ok d \<longleftrightarrow>
     (case ota_phase d of
        None \<Rightarrow> ota_label d = None \<and> ota_pct d = None \<and> ota_bytes_done d = None \<and> ota_bytes_total d = None
          \<and> ota_updated_at d = None
      | Some p \<Rightarrow> p \<in> fst ` set PHASE_ORDER - set TERMINAL \<and> ota_label d \<noteq> None \<and> ota_updated_at d \<noteq> None)
     \<and> (case ota_pct d of None \<Rightarrow> True | Some q \<Rightarrow> 0 \<le> q \<and> q \<le> 100)
     \<and> (case ota_bytes_done d of None \<Rightarrow> True | Some n \<Rightarrow> 0 \<le> n)
     \<and> (case ota_bytes_total d of None \<Rightarrow> True | Some n \<Rightarrow> 0 \<le> n)"

lemma safe_int_range: "safe_int v = Some n \<Longrightarrow> 0 \<le> n"
  by (auto simp: safe_int_def split: option.splits if_splits)

lemma safe_pct_range: "safe_pct x y = Some q \<Longrightarrow> 0 \<le> q \<and> q \<le> 100"
  by (auto simp: safe_pct_def Let_def split: option.splits if_splits)

lemma derive_ranges:
  assumes "derive t p = (ph, lab, pct, bd, bt)"
  shows "pct = Some q \<Longrightarrow> 0 \<le> q \<and> q \<le> 100" "bd = Some m \<Longrightarrow> 0 \<le> m" "bt = Some m \<Longrightarrow> 0 \<le> m"
  using assms safe_pct_range safe_int_range by (auto simp: derive_def Let_def split: if_splits)

lemma handle_event_ok:
  assumes "ota_ok d"
  shows "ota_ok (snd (handle_event now t p d))"
proof (cases "map_of PHASE_ORDER t")
  case None
  then show ?thesis using assms by (simp add: handle_event_def)
next
  case (Some n)
  obtain lab pct bd bt where dv: "derive t p = (t, lab, pct, bd, bt)"
    using derive_phase [of t p] by (cases "derive t p") auto
  have "ota_ok ((clear_projection d)\<lparr>upgrade_started_at := None\<rparr>)" by (simp add: ota_ok_def clear_projection_def)
  moreover have "ota_ok (d\<lparr>ota_phase := Some t, ota_label := Some lab, ota_pct := pct, ota_bytes_done := bd,
      ota_bytes_total := bt, ota_updated_at := Some now\<rparr>)" if "t \<notin> set TERMINAL"
    using that derive_ranges [OF dv] map_of_SomeD [OF Some] by (force simp: ota_ok_def split: option.splits)
  ultimately show ?thesis using assms Some by (simp add: handle_event_def dv)
qed

section \<open>Properties\<close>

text \<open>C22. The projection implements its specification. From a well-formed row and over any sequence
  of deliveries, reordered, repeated or unknown to this version, the row stays well-formed (no
  leftovers without a phase, percentages within 0 and 100, counters not negative, never a terminal
  phase) and its phase is the furthest one announced since the last terminal event.\<close>

theorem ota_projection_refines:
  assumes "ota_ok d"
  shows "ota_ok (apply_events es d)
    \<and> current_order (apply_events es d) = furthest (current_order d) (map (fst \<circ> snd) es)"
proof
  show "ota_ok (apply_events es d)"
    using assms by (induction es d rule: apply_events.induct) (simp_all add: handle_event_ok)
qed (rule apply_events_order)

definition no_ota :: ota_row where
  "no_ota = \<lparr>ota_phase = None, ota_label = None, ota_pct = None, ota_bytes_done = None, ota_bytes_total = None,
     ota_updated_at = None, upgrade_started_at = Some 0\<rparr>"

theorem ota_projection_refines_witness:
  "current_order (apply_events [(1, ''ota_staged'', []), (2, ''ota_download_progress'', []), (3, ''ota_new_kind'', [])] no_ota) = 40"
proof -
  have "ota_ok no_ota" by code_simp
  from ota_projection_refines [OF this, of "[(1, ''ota_staged'', []), (2, ''ota_download_progress'', []), (3, ''ota_new_kind'', [])]"]
  have "current_order (apply_events [(1, ''ota_staged'', []), (2, ''ota_download_progress'', []), (3, ''ota_new_kind'', [])] no_ota)
    = furthest (current_order no_ota) (map (fst \<circ> snd) [(1 :: int, ''ota_staged'', []), (2, ''ota_download_progress'', []), (3, ''ota_new_kind'', [] :: (string \<times> json) list)])"
    by blast
  also have "\<dots> = 40" by code_simp
  finally show ?thesis .
qed

text \<open>The byte counter can still run backwards while extracting. A \<^verbatim>\<open>ota_stage_progress\<close> event has the
  same order and no bytes, and wipes the counter that the second guard compares with, so that an older
  \<^verbatim>\<open>ota_extract_progress\<close> delivered after it is accepted; without the event in between it is dropped.\<close>

theorem ota_bytes_can_rewind:
  "let ex = (\<lambda>n. [(''bytes_done'', JInt n), (''bytes_total'', JInt 100)])
   in ota_bytes_done (apply_events [(1, ''ota_extract_progress'', ex 80), (2, ''ota_extract_progress'', ex 40)] no_ota) = Some 80
    \<and> ota_bytes_done (apply_events [(1, ''ota_extract_progress'', ex 80),
        (2, ''ota_stage_progress'', [(''phase'', JStr ''extracting_rootfs'')]), (3, ''ota_extract_progress'', ex 40)] no_ota) = Some 40"
  by code_simp

end
