(* ===== verification/Presence.thy ===== *)
theory Presence
  imports Json Table
begin

text \<open>
  Database-backed device presence, \<^verbatim>\<open>cms/services/device_presence.py\<close>: the online flag with its
  connection token, the telemetry columns written by STATUS messages, and the alerts dispatched on
  transitions. A STATUS message is the JSON object as received. The parser of ISO timestamps and the
  group shown in an alert are inputs; instants are microseconds.
\<close>

section \<open>State\<close>

record presence_row =
  pr_id :: string
  pr_name :: string
  pr_status :: string
  online :: bool
  connection_id :: "string option"
  last_seen :: "int option"
  ip_address :: "string option"
  last_status_ts :: "int option"
  mode :: json
  playing_asset :: json
  pipeline_state :: json
  playback_started_at :: "int option"
  playback_position_ms :: json
  uptime_seconds :: json
  cpu_temp_c :: json
  load_avg :: json
  device_error :: json
  error_since :: "int option"
  ssh_enabled :: json
  local_api_enabled :: json
  display_connected :: json
  display_ports :: json

datatype presence_alert =
    device_disconnected (alert_device: string) (alert_name: string) (alert_group: "string option \<times> string") (alert_status: string)
  | device_reconnected (alert_device: string) (alert_name: string) (alert_group: "string option \<times> string") (alert_status: string)

record presence_db =
  prs :: "presence_row list"
  alerts :: "presence_alert list"

section \<open>Operations\<close>

text \<open>\<^verbatim>\<open>_normalize_display_ports\<close>: JSON null for anything but a list of objects with a name.\<close>

definition port_ok :: "json \<Rightarrow> bool" where
  "port_ok v = (case v of JObj m \<Rightarrow> ''name'' \<in> fst ` set m | _ \<Rightarrow> False)"

definition normalize_display_ports :: "json \<Rightarrow> json" where
  "normalize_display_ports v =
     (case v of JList xs \<Rightarrow> if list_all port_ok xs then JList xs else JNull | _ \<Rightarrow> JNull)"

definition or_id :: "string \<Rightarrow> string \<Rightarrow> string" where
  "or_id name did = (if name = '''' then did else name)"

definition online_row :: "int \<Rightarrow> string option \<Rightarrow> string option \<Rightarrow> presence_row \<Rightarrow> presence_row" where
  "online_row now conn ip r = r\<lparr>online := True, connection_id := conn, last_seen := Some now,
     ip_address := (case ip of None \<Rightarrow> ip_address r | Some x \<Rightarrow> Some x)\<rparr>"

definition mark_online :: "int \<Rightarrow> string \<Rightarrow> string option \<Rightarrow> string option \<Rightarrow> presence_db \<Rightarrow> presence_db" where
  "mark_online now did conn ip st = st\<lparr>prs := update_where (\<lambda>r. pr_id r = did)
     (online_row now conn ip) (prs st)\<rparr>"

definition offline_row :: "presence_row \<Rightarrow> presence_row" where
  "offline_row r = r\<lparr>online := False, connection_id := None\<rparr>"

definition token_guard :: "string \<Rightarrow> string option \<Rightarrow> presence_row \<Rightarrow> bool" where
  "token_guard did expected r \<longleftrightarrow> pr_id r = did \<and> (case expected of None \<Rightarrow> True | Some c \<Rightarrow> connection_id r = Some c)"

definition mark_offline :: "string \<Rightarrow> string option \<Rightarrow> presence_db \<Rightarrow> bool \<times> presence_db" where
  "mark_offline did expected st =
     (0 < rowcount (token_guard did expected) (prs st),
      st\<lparr>prs := update_where (token_guard did expected) offline_row (prs st)\<rparr>)"

definition mark_offline_and_alert ::
  "(string \<Rightarrow> string option \<times> string) \<Rightarrow> string \<Rightarrow> string option \<Rightarrow> presence_db \<Rightarrow> bool \<times> presence_db" where
  "mark_offline_and_alert group_of did expected st =
     (case expected of
        None \<Rightarrow> (False, snd (mark_offline did None st))
      | Some c \<Rightarrow>
          (case filter (token_guard did (Some c)) (prs st) of
             [] \<Rightarrow> (False, st)
           | r # rs \<Rightarrow> (True, st\<lparr>prs := update_where (token_guard did (Some c)) offline_row (prs st),
               alerts := alerts st @ [device_disconnected did (or_id (pr_name r) did) (group_of did) (pr_status r)]\<rparr>)))"

definition parse_timestamp :: "(string \<Rightarrow> int option) \<Rightarrow> json \<Rightarrow> int option" where
  "parse_timestamp parse_iso v = (case v of JStr s \<Rightarrow> parse_iso s | _ \<Rightarrow> None)"

definition get_default :: "string \<Rightarrow> json \<Rightarrow> (string \<times> json) list \<Rightarrow> json" where
  "get_default k d m = (case map_of m k of None \<Rightarrow> d | Some v \<Rightarrow> v)"

definition sticky :: "string \<Rightarrow> (string \<times> json) list \<Rightarrow> json \<Rightarrow> json" where
  "sticky k m old = (case map_of m k of None \<Rightarrow> old | Some v \<Rightarrow> if v = JNull then old else v)"

text \<open>The \<^verbatim>\<open>SET\<close> list of the guarded update.\<close>

definition status_row :: "(string \<Rightarrow> int option) \<Rightarrow> int \<Rightarrow> (string \<times> json) list \<Rightarrow> presence_row \<Rightarrow> presence_row" where
  "status_row parse_iso ts status r =
     (let new_error = json_get ''error'' status;
          ports = sticky ''display_ports'' status JNull
      in r\<lparr>last_status_ts := Some ts,
           mode := get_default ''mode'' (JStr ''unknown'') status,
           playing_asset := json_get ''asset'' status,
           pipeline_state := get_default ''pipeline_state'' (JStr ''NULL'') status,
           playback_started_at := parse_timestamp parse_iso (json_get ''started_at'' status),
           playback_position_ms := json_get ''playback_position_ms'' status,
           uptime_seconds := (let u = get_default ''uptime_seconds'' (JInt 0) status in if json_truthy u then u else JInt 0),
           cpu_temp_c := json_get ''cpu_temp_c'' status,
           load_avg := json_get ''load_avg'' status,
           device_error := new_error,
           error_since := (if new_error = JNull then None else if device_error r = JNull then Some ts else error_since r),
           last_seen := Some ts,
           ssh_enabled := sticky ''ssh_enabled'' status (ssh_enabled r),
           local_api_enabled := sticky ''local_api_enabled'' status (local_api_enabled r),
           display_connected := get_default ''display_connected'' (display_connected r) status,
           display_ports := (if normalize_display_ports ports = JNull then display_ports r
             else normalize_display_ports ports)\<rparr>)"

definition status_guard :: "string \<Rightarrow> int \<Rightarrow> presence_row \<Rightarrow> bool" where
  "status_guard did ts r \<longleftrightarrow> pr_id r = did \<and> (case last_status_ts r of None \<Rightarrow> True | Some t \<Rightarrow> t < ts)"

definition update_status ::
  "(string \<Rightarrow> int option) \<Rightarrow> (string \<Rightarrow> string option \<times> string) \<Rightarrow> int \<Rightarrow> string \<Rightarrow> (string \<times> json) list
     \<Rightarrow> int option \<Rightarrow> presence_db \<Rightarrow> bool \<times> presence_db" where
  "update_status parse_iso group_of now did status status_ts st =
     (let ts = (case status_ts of None \<Rightarrow> now | Some t \<Rightarrow> t);
          applied = 0 < rowcount (status_guard did ts) (prs st);
          rows1 = update_where (status_guard did ts) (status_row parse_iso ts status) (prs st);
          healed = (if applied then filter (\<lambda>r. pr_id r = did \<and> \<not> online r) rows1 else []);
          rows2 = (if applied then update_where (\<lambda>r. pr_id r = did \<and> \<not> online r) (\<lambda>r. r\<lparr>online := True\<rparr>) rows1 else rows1)
      in (applied, st\<lparr>prs := rows2,
           alerts := alerts st @ (case healed of [] \<Rightarrow> []
             | r # rs \<Rightarrow> [device_reconnected did (or_id (pr_name r) did) (group_of did) (pr_status r)])\<rparr>))"

definition set_flags :: "string \<Rightarrow> (string \<times> json) list \<Rightarrow> presence_db \<Rightarrow> presence_db" where
  "set_flags did flags st = st\<lparr>prs := update_where (\<lambda>r. pr_id r = did)
     (\<lambda>r. r\<lparr>ssh_enabled := get_default ''ssh_enabled'' (ssh_enabled r) flags,
        local_api_enabled := get_default ''local_api_enabled'' (local_api_enabled r) flags,
        display_connected := get_default ''display_connected'' (display_connected r) flags\<rparr>) (prs st)\<rparr>"

definition is_online :: "string \<Rightarrow> presence_db \<Rightarrow> bool" where
  "is_online did st = (case find_by pr_id did (prs st) of None \<Rightarrow> False | Some r \<Rightarrow> online r)"

definition count_online :: "presence_db \<Rightarrow> nat" where "count_online st = length (filter online (prs st))"

definition ids_online :: "presence_db \<Rightarrow> string list" where "ids_online st = map pr_id (filter online (prs st))"

text \<open>The dictionary of \<^verbatim>\<open>_row_to_state\<close>: the row with its ports normalised and a missing uptime as 0.\<close>

definition row_to_state :: "presence_row \<Rightarrow> presence_row" where
  "row_to_state r = r\<lparr>uptime_seconds := (if json_truthy (uptime_seconds r) then uptime_seconds r else JInt 0),
     display_ports := normalize_display_ports (display_ports r)\<rparr>"

definition list_states :: "presence_db \<Rightarrow> presence_row list" where
  "list_states st = map row_to_state (filter online (prs st))"

definition list_states_for :: "string list \<Rightarrow> presence_db \<Rightarrow> presence_row list" where
  "list_states_for ids st = map row_to_state (filter (\<lambda>r. pr_id r \<in> set ids) (prs st))"

section \<open>Lemmas\<close>

definition presence_writes :: "(presence_row \<Rightarrow> presence_row) set" where
  "presence_writes = {online_row now conn ip |now conn ip. True} \<union> {offline_row}
     \<union> {status_row parse ts s |parse ts s. True} \<union> {\<lambda>r. r\<lparr>online := True\<rparr>}"

interpretation presence_rows: keyed_table pr_id presence_writes
  by unfold_locales (auto simp: presence_writes_def online_row_def offline_row_def status_row_def Let_def)

lemma presence_writes_mem [simp]:
  "online_row now conn ip \<in> presence_writes" "offline_row \<in> presence_writes" "status_row parse ts s \<in> presence_writes"
  "(\<lambda>r. r\<lparr>online := True\<rparr>) \<in> presence_writes"
  unfolding presence_writes_def by blast+

lemma filter_by_key:
  assumes "keys_ok key rows" "find_by key k rows = Some r"
  shows "filter (\<lambda>x. key x = k \<and> P x) rows = (if P r then [r] else [])"
  using assms
proof (induction rows)
  case (Cons x rows)
  show ?case
  proof (cases "key x = k")
    case True
    then have "filter (\<lambda>x. key x = k \<and> P x) rows = []"
      using Cons.prems(1) by (auto simp: keys_ok_def filter_empty_conv image_iff)
    then show ?thesis using True Cons.prems(2) by simp
  next
    case False
    then show ?thesis using Cons by (simp add: keys_ok_def)
  qed
qed simp

lemma rowcount_by_key:
  assumes "keys_ok key rows" "find_by key k rows = Some r"
  shows "0 < rowcount (\<lambda>x. key x = k \<and> P x) rows \<longleftrightarrow> P r"
  using filter_by_key [OF assms, of P] by (simp add: rowcount_def)

subsection \<open>Connections\<close>

datatype conn_event = Connect int string "string option" | Disconnect string

fun conn_run :: "(string \<Rightarrow> string option \<times> string) \<Rightarrow> string \<Rightarrow> conn_event list \<Rightarrow> presence_db \<Rightarrow> presence_db" where
  "conn_run group_of did [] st = st"
| "conn_run group_of did (Connect now c ip # es) st = conn_run group_of did es (mark_online now did (Some c) ip st)"
| "conn_run group_of did (Disconnect c # es) st = conn_run group_of did es (snd (mark_offline_and_alert group_of did (Some c) st))"

text \<open>The specification: the newest connection, if it has not been closed, and the tokens whose
  closing was reported.\<close>

fun conn_spec :: "string option \<Rightarrow> conn_event list \<Rightarrow> string option \<times> string list" where
  "conn_spec cur [] = (cur, [])"
| "conn_spec cur (Connect now c ip # es) = conn_spec (Some c) es"
| "conn_spec cur (Disconnect c # es) =
     (if cur = Some c then (let (cur', ts) = conn_spec None es in (cur', c # ts)) else conn_spec cur es)"

definition presence_ok :: "presence_db \<Rightarrow> bool" where
  "presence_ok st \<longleftrightarrow> keys_ok pr_id (prs st)"

lemma mark_online_row:
  assumes "find_by pr_id did (prs st) = Some r"
  shows "find_by pr_id did (prs (mark_online now did conn ip st)) = Some (online_row now conn ip r)"
  using assms find_by_Some [OF assms] by (simp add: mark_online_def presence_rows.find_update)

lemma offline_alert_row:
  assumes "presence_ok st" "find_by pr_id did (prs st) = Some r"
  shows "mark_offline_and_alert group_of did (Some c) st =
    (if connection_id r = Some c
     then (True, st\<lparr>prs := update_where (token_guard did (Some c)) offline_row (prs st),
       alerts := alerts st @ [device_disconnected did (or_id (pr_name r) did) (group_of did) (pr_status r)]\<rparr>)
     else (False, st))"
  using filter_by_key [OF assms(1) [unfolded presence_ok_def] assms(2), of "\<lambda>r. connection_id r = Some c"]
  by (simp add: mark_offline_and_alert_def token_guard_def [abs_def])

lemma offline_row_find:
  assumes "find_by pr_id did (prs st) = Some r" "connection_id r = Some c"
  shows "find_by pr_id did (update_where (token_guard did (Some c)) offline_row (prs st)) = Some (offline_row r)"
  using assms find_by_Some [OF assms(1)] by (simp add: presence_rows.find_update token_guard_def)

lemma conn_refines:
  assumes "presence_ok st" "find_by pr_id did (prs st) = Some r" "online r = (connection_id r \<noteq> None)"
  shows "\<exists>r'. find_by pr_id did (prs (conn_run group_of did es st)) = Some r'
    \<and> connection_id r' = fst (conn_spec (connection_id r) es) \<and> online r' = (connection_id r' \<noteq> None)
    \<and> map alert_device (alerts (conn_run group_of did es st))
        = map alert_device (alerts st) @ map (\<lambda>_. did) (snd (conn_spec (connection_id r) es))"
  using assms
proof (induction group_of did es st arbitrary: r rule: conn_run.induct)
  case (2 group_of did now c ip es st)
  have "presence_ok (mark_online now did (Some c) ip st)"
    using "2.prems"(1) by (simp add: presence_ok_def mark_online_def presence_rows.keys_ok_update)
  from "2.IH" [OF this mark_online_row [OF "2.prems"(2)]] show ?case by (simp add: online_row_def mark_online_def)
next
  case (3 group_of did c es st)
  show ?case
  proof (cases "connection_id r = Some c")
    case False
    then show ?thesis using "3.IH" [OF _ _ "3.prems"(3)] "3.prems" by (simp add: offline_alert_row)
  next
    case True
    let ?st = "snd (mark_offline_and_alert group_of did (Some c) st)"
    have ok: "presence_ok ?st" "find_by pr_id did (prs ?st) = Some (offline_row r)"
      "map alert_device (alerts ?st) = map alert_device (alerts st) @ [did]"
      using "3.prems" True offline_row_find [OF "3.prems"(2) True]
      by (simp_all add: offline_alert_row presence_ok_def presence_rows.keys_ok_update)
    from "3.IH" [OF ok(1,2)] show ?thesis
      using True ok(3) by (simp add: offline_row_def case_prod_beta)
  qed
qed auto

text \<open>C21. Presence follows the newest connection. Whatever the order in which connects and
  disconnects of a device's successive connections are processed, by whichever replica, afterwards
  it is online exactly when its newest connection has not been closed, with that connection's
  token; a late disconnect of an older connection changes nothing and raises no alert, and every
  alert raised answers to one closing of the then current connection.\<close>

theorem presence_tracks_newest_connection:
  assumes "keys_ok pr_id (prs st)" "find_by pr_id did (prs st) = Some r" "online r = (connection_id r \<noteq> None)"
  shows "\<exists>r'. find_by pr_id did (prs (conn_run group_of did es st)) = Some r'
    \<and> connection_id r' = fst (conn_spec (connection_id r) es) \<and> online r' = (connection_id r' \<noteq> None)
    \<and> map alert_device (alerts (conn_run group_of did es st))
        = map alert_device (alerts st) @ map (\<lambda>_. did) (snd (conn_spec (connection_id r) es))"
  using conn_refines assms unfolding presence_ok_def by blast

subsection \<open>STATUS messages\<close>

text \<open>The columns that a STATUS overwrites whatever was there.\<close>

definition telemetry where
  "telemetry r = (mode r, playing_asset r, pipeline_state r, playback_started_at r, playback_position_ms r,
     uptime_seconds r, cpu_temp_c r, load_avg r, device_error r)"

definition reported :: "(string \<Rightarrow> int option) \<Rightarrow> (string \<times> json) list \<Rightarrow> json \<times> json \<times> json \<times> int option \<times> json \<times> json \<times> json \<times> json \<times> json" where
  "reported parse_iso s = (get_default ''mode'' (JStr ''unknown'') s, json_get ''asset'' s,
     get_default ''pipeline_state'' (JStr ''NULL'') s, parse_timestamp parse_iso (json_get ''started_at'' s),
     json_get ''playback_position_ms'' s,
     (let u = get_default ''uptime_seconds'' (JInt 0) s in if json_truthy u then u else JInt 0),
     json_get ''cpu_temp_c'' s, json_get ''load_avg'' s, json_get ''error'' s)"

lemma status_row_simps [simp]:
  "telemetry (status_row parse ts s r) = reported parse s" "last_status_ts (status_row parse ts s r) = Some ts"
  "telemetry (r\<lparr>online := b\<rparr>) = telemetry r"
  by (simp_all add: telemetry_def reported_def status_row_def Let_def)

lemma update_status_row:
  fixes now :: int and status_ts :: "int option" and parse group_of s
  assumes "presence_ok st" "find_by pr_id did (prs st) = Some r"
  defines "ts \<equiv> (case status_ts of None \<Rightarrow> now | Some t \<Rightarrow> t)"
  defines "res \<equiv> update_status parse group_of now did s status_ts st"
  shows "fst res = status_guard did ts r" "presence_ok (snd res)"
    "find_by pr_id did (prs (snd res)) = Some (if status_guard did ts r then (status_row parse ts s r)\<lparr>online := True\<rparr> else r)"
proof -
  have id: "pr_id r = did" using find_by_Some [OF assms(2)] by simp
  let ?f = "update_where (status_guard did ts) (status_row parse ts s) (prs st)"
  have cnt: "0 < rowcount (status_guard did ts) (prs st) \<longleftrightarrow> status_guard did ts r"
    using rowcount_by_key [OF assms(1) [unfolded presence_ok_def] assms(2),
        of "\<lambda>r. case last_status_ts r of None \<Rightarrow> True | Some t \<Rightarrow> t < ts"] id
    by (simp add: status_guard_def [abs_def])
  have one: "find_by pr_id did ?f = Some (if status_guard did ts r then status_row parse ts s r else r)"
    using assms(2) by (simp add: presence_rows.find_update)
  have keys: "keys_ok pr_id ?f" using assms(1) by (simp add: presence_ok_def presence_rows.keys_ok_update)
  have rid: "pr_id (status_row parse ts s r) = did" using id presence_rows.key_write [of "status_row parse ts s" r] by simp
  show "fst res = status_guard did ts r" by (simp add: res_def update_status_def Let_def ts_def [symmetric] cnt)
  show "presence_ok (snd res)"
    using keys by (simp add: res_def update_status_def Let_def ts_def [symmetric] presence_ok_def presence_rows.keys_ok_update)
  have on: "(if \<not> online x then x\<lparr>online := True\<rparr> else x) = x\<lparr>online := True\<rparr>" for x :: presence_row by simp
  show "find_by pr_id did (prs (snd res)) = Some (if status_guard did ts r then (status_row parse ts s r)\<lparr>online := True\<rparr> else r)"
    using one rid on [of "status_row parse ts s r"]
    by (simp add: res_def update_status_def Let_def ts_def [symmetric] cnt presence_rows.find_update)
qed

fun deliver :: "(string \<Rightarrow> int option) \<Rightarrow> (string \<Rightarrow> string option \<times> string) \<Rightarrow> string \<Rightarrow> (int \<times> (string \<times> json) list) list
    \<Rightarrow> presence_db \<Rightarrow> presence_db" where
  "deliver parse group_of did [] st = st"
| "deliver parse group_of did ((ts, s) # ds) st =
     deliver parse group_of did ds (snd (update_status parse group_of ts did s (Some ts) st))"

lemma deliver_newest:
  assumes "presence_ok st" "find_by pr_id did (prs st) = Some r"
    and "\<forall>(t', s') \<in> set ds. t' \<le> t \<and> (t' = t \<longrightarrow> reported parse s' = T)"
    and "case last_status_ts r of None \<Rightarrow> True | Some x \<Rightarrow> x < t \<or> (x = t \<and> telemetry r = T)"
    and "t \<in> fst ` set ds \<or> last_status_ts r = Some t"
  shows "\<exists>r'. find_by pr_id did (prs (deliver parse group_of did ds st)) = Some r' \<and> last_status_ts r' = Some t \<and> telemetry r' = T"
  using assms
proof (induction parse group_of did ds st arbitrary: r rule: deliver.induct)
  case (1 parse group_of did st)
  then show ?case by auto
next
  case (2 parse group_of did ts s ds st)
  let ?r = "if status_guard did ts r then (status_row parse ts s r)\<lparr>online := True\<rparr> else r"
  note u = update_status_row [OF "2.prems"(1,2), where status_ts = "Some ts" and now = ts and parse = parse
      and group_of = group_of and s = s, unfolded option.case]
  have id: "pr_id r = did" using find_by_Some [OF "2.prems"(2)] by simp
  have ts: "ts \<le> t" "ts = t \<Longrightarrow> reported parse s = T" using "2.prems"(3) by auto
  have "case last_status_ts ?r of None \<Rightarrow> True | Some x \<Rightarrow> x < t \<or> (x = t \<and> telemetry ?r = T)"
    using "2.prems"(4) ts by (cases "ts = t") auto
  moreover have "t \<in> fst ` set ds \<or> last_status_ts ?r = Some t"
    using "2.prems"(4,5) id ts by (auto simp: status_guard_def split: option.splits)
  moreover have "\<forall>(t', s') \<in> set ds. t' \<le> t \<and> (t' = t \<longrightarrow> reported parse s' = T)" using "2.prems"(3) by simp
  ultimately show ?case using "2.IH" [OF u(2,3)] by simp
qed

text \<open>Timestamped deliveries converge. However STATUS messages that carry their own timestamps are
  reordered and repeated, the row ends up with the telemetry of the newest one.\<close>

theorem status_converges:
  assumes "keys_ok pr_id (prs st)" "find_by pr_id did (prs st) = Some r" "last_status_ts r = None"
    and "(t, s) \<in> set ds" "\<forall>(t', s') \<in> set ds. t' \<le> t \<and> (t' = t \<longrightarrow> s' = s)"
  shows "\<exists>r'. find_by pr_id did (prs (deliver parse group_of did ds st)) = Some r' \<and> last_status_ts r' = Some t
    \<and> telemetry r' = reported parse s"
proof (rule deliver_newest [OF _ assms(2)])
  show "t \<in> fst ` set ds \<or> last_status_ts r = Some t" using assms(4) by force
qed (use assms(1,3,5) in \<open>auto simp: presence_ok_def\<close>)

text \<open>The guard never sees the timestamp of the message. The inbound handler passes none, so every
  delivery is stamped with its own arrival: a STATUS that arrives later is always applied, however old or often
  repeated it is, and its telemetry overwrites the newer one.\<close>

theorem stale_status_overwrites:
  assumes "keys_ok pr_id (prs st)" "find_by pr_id did (prs st) = Some r" "last_status_ts r = Some t" "t < now"
  shows "fst (update_status parse group_of now did s None st)
    \<and> (\<exists>r'. find_by pr_id did (prs (snd (update_status parse group_of now did s None st))) = Some r'
         \<and> telemetry r' = reported parse s)"
proof -
  have id: "pr_id r = did" using find_by_Some [OF assms(2)] by simp
  note u = update_status_row [OF _ assms(2), where status_ts = None and now = now and parse = parse and group_of = group_of
      and s = s, unfolded presence_ok_def, OF assms(1), unfolded option.case]
  show ?thesis using u(1,3) id assms(3,4) by (simp add: status_guard_def)
qed

definition sample_presence :: presence_db where
  "sample_presence = \<lparr>prs = [\<lparr>pr_id = ''d1'', pr_name = ''Lobby'', pr_status = ''adopted'', online = False, connection_id = None,
     last_seen = None, ip_address = None, last_status_ts = None, mode = JNull, playing_asset = JNull, pipeline_state = JNull,
     playback_started_at = None, playback_position_ms = JNull, uptime_seconds = JNull, cpu_temp_c = JNull, load_avg = JNull,
     device_error = JNull, error_since = None, ssh_enabled = JNull, local_api_enabled = JNull, display_connected = JNull,
     display_ports = JNull\<rparr>], alerts = []\<rparr>"

abbreviation lobby :: presence_row where "lobby \<equiv> hd (prs sample_presence)"

lemma lobby_found: "keys_ok pr_id (prs sample_presence)" "find_by pr_id ''d1'' (prs sample_presence) = Some lobby"
  "last_status_ts lobby = None" "online lobby = (connection_id lobby \<noteq> None)" "connection_id lobby = None"
  by (simp_all add: sample_presence_def keys_ok_def)

theorem presence_tracks_newest_connection_witness:
  "\<exists>r'. find_by pr_id ''d1'' (prs (conn_run (\<lambda>d. (None, '''')) ''d1''
        [Connect 1 ''c1'' None, Connect 2 ''c2'' None, Disconnect ''c1''] sample_presence)) = Some r'
    \<and> connection_id r' = Some ''c2'' \<and> online r'"
  using presence_tracks_newest_connection [OF lobby_found(1,2,4),
      of "\<lambda>d. (None, '''')" "[Connect 1 ''c1'' None, Connect 2 ''c2'' None, Disconnect ''c1'']"]
  by (auto simp: lobby_found(5) simp del: conn_run.simps)

theorem status_converges_witness:
  "\<exists>r'. find_by pr_id ''d1'' (prs (deliver (\<lambda>s. None) (\<lambda>d. (None, '''')) ''d1''
        [(5, [(''mode'', JStr ''play'')]), (3, [(''mode'', JStr ''splash'')])] sample_presence)) = Some r'
    \<and> last_status_ts r' = Some 5"
  using status_converges [OF lobby_found(1-3), of 5 "[(''mode'', JStr ''play'')]"
      "[(5, [(''mode'', JStr ''play'')]), (3, [(''mode'', JStr ''splash'')])]" "\<lambda>s. None" "\<lambda>d. (None, '''')"]
  by (auto simp del: deliver.simps)

theorem stale_status_overwrites_witness:
  "\<exists>r'. find_by pr_id ''d1'' (prs (snd (update_status (\<lambda>s. None) (\<lambda>d. (None, '''')) 9 ''d1'' [(''mode'', JStr ''splash'')] None
       (deliver (\<lambda>s. None) (\<lambda>d. (None, '''')) ''d1'' [(5, [(''mode'', JStr ''play'')])] sample_presence)))) = Some r'
     \<and> telemetry r' = reported (\<lambda>s. None) [(''mode'', JStr ''splash'')]"
proof -
  let ?st = "deliver (\<lambda>s. None) (\<lambda>d. (None, '''')) ''d1'' [(5, [(''mode'', JStr ''play'')])] sample_presence"
  have "keys_ok pr_id (prs ?st)" by code_simp
  moreover have "find_by pr_id ''d1'' (prs ?st) = Some (hd (prs ?st))" by code_simp
  moreover have "last_status_ts (hd (prs ?st)) = Some 5" by code_simp
  ultimately show ?thesis using stale_status_overwrites [of ?st "''d1''" "hd (prs ?st)" 5 9] by auto
qed

end
