(* ===== verification/Device_Events.thy ===== *)
theory Device_Events
  imports Presence
begin

text \<open>
  The device event log and the lifecycle rows of device incidents:
  \<^verbatim>\<open>cms/services/device_events.py\<close> and the lifecycle half of \<^verbatim>\<open>cms/services/device_alerts.py\<close>, over
  the tables of \<^verbatim>\<open>cms/models/device_event.py\<close>, \<^verbatim>\<open>device_alert.py\<close>, \<^verbatim>\<open>device_alert_state.py\<close> and
  \<^verbatim>\<open>notification.py\<close>. The database of the alert service extends the presence columns of
  \<open>Presence\<close>. Random identifiers come from a supply in the state; the column \<^verbatim>\<open>devices.group_id\<close> is
  the association list \<open>member\<close>.
\<close>

section \<open>State\<close>

datatype event_type = ONLINE | OFFLINE | TEMP_HIGH | TEMP_CLEARED | DISPLAY_CONNECTED
  | DISPLAY_DISCONNECTED | ERROR | ERROR_CLEARED | CMS_STARTED | CMS_STOPPED
  | OTA_DOWNLOAD_STARTED | OTA_DOWNLOAD_PROGRESS | OTA_SIGNATURE_VERIFIED | OTA_STAGED | OTA_STAGE_PROGRESS
  | OTA_EXTRACT_PROGRESS | OTA_TRYBOOT_INITIATED | OTA_SLOT_CONFIRMED | OTA_PROMOTED | OTA_MIGRATION_COMPLETE
  | OTA_FAILED | OTA_DECLINED | OTA_AUTO_CLEARED

record device_event =
  ev_id :: string
  ev_device :: "string option"
  ev_name :: string
  ev_group_id :: "string option"
  ev_group_name :: string
  ev_group_ids :: "string list"
  ev_snapshots :: "(string \<times> string) list"
  ev_type :: event_type
  ev_details :: json
  ev_created_at :: int

record device_alert_state =
  as_device :: string
  offline_since :: "int option"
  offline_notified :: bool
  temp_level :: string
  temp_last_alert_at :: "int option"
  temp_last_sample_ts :: "int option"

record device_alert =
  al_device :: string
  al_kind :: string
  al_state :: string
  al_incident :: "string option"
  al_opened_at :: int
  al_resolved_at :: "int option"
  al_raise_event :: "string option"
  al_resolve_event :: "string option"

record notification =
  nt_scope :: string
  nt_level :: string
  nt_title :: string
  nt_message :: string
  nt_details :: json
  nt_targets :: "string list"

record alert_db = presence_db +
  member :: "(string \<times> string) list"
  group_rows :: "(string \<times> string) list"
  alert_states :: "device_alert_state list"
  events :: "device_event list"
  lifecycle :: "device_alert list"
  notifications :: "notification list"
  uuids :: "nat \<Rightarrow> string"
  uuids_used :: nat

definition uuid4 :: "alert_db \<Rightarrow> string \<times> alert_db" where
  "uuid4 st = (uuids st (uuids_used st), st\<lparr>uuids_used := Suc (uuids_used st)\<rparr>)"

section \<open>Events\<close>

text \<open>\<^verbatim>\<open>snapshot_device_groups\<close>: the primary group first, then the owning group unless it is the same.\<close>

definition owning_groups :: "string \<Rightarrow> alert_db \<Rightarrow> (string \<times> string) list" where
  "owning_groups did st = [(g, n). (d, m) \<leftarrow> member st, d = did, (g, n) \<leftarrow> group_rows st, g = m]"

definition snapshot_device_groups ::
  "string \<Rightarrow> string option \<Rightarrow> string \<Rightarrow> alert_db \<Rightarrow> (string \<times> string) list" where
  "snapshot_device_groups did primary_id primary_name st =
     (let ordered = (case primary_id of
            None \<Rightarrow> []
          | Some p \<Rightarrow> [(p, if primary_name \<noteq> '''' then primary_name
              else case map_of (group_rows st) p of None \<Rightarrow> '''' | Some n \<Rightarrow> n)])
      in fold (\<lambda>(g, n) acc. if g \<in> fst ` set acc then acc else acc @ [(g, n)]) (owning_groups did st) ordered)"

definition get_primary_device_group_context ::
  "string \<Rightarrow> string option \<Rightarrow> string \<Rightarrow> alert_db \<Rightarrow> string option \<times> string" where
  "get_primary_device_group_context did primary_id primary_name st =
     (case snapshot_device_groups did primary_id primary_name st of
        [] \<Rightarrow> (None, '''')
      | (g, n) # rest \<Rightarrow> (Some g, n))"

definition emit_device_event ::
  "int \<Rightarrow> event_type \<Rightarrow> string option \<Rightarrow> string \<Rightarrow> json \<Rightarrow> string option \<Rightarrow> string \<Rightarrow> (string \<times> string) list
     \<Rightarrow> alert_db \<Rightarrow> device_event \<times> alert_db" where
  "emit_device_event now ty device name details primary_id primary_name group_snapshot st =
     (let snapshot = (case device of None \<Rightarrow> []
            | Some did \<Rightarrow> if group_snapshot \<noteq> [] then group_snapshot
                          else snapshot_device_groups did primary_id primary_name st);
          (i, st1) = uuid4 st;
          event = \<lparr>ev_id = i, ev_device = device, ev_name = name,
            ev_group_id = (case snapshot of [] \<Rightarrow> primary_id | s # rest \<Rightarrow> Some (fst s)),
            ev_group_name = (case snapshot of [] \<Rightarrow> primary_name | s # rest \<Rightarrow> snd s),
            ev_group_ids = map fst snapshot, ev_snapshots = snapshot, ev_type = ty, ev_details = details,
            ev_created_at = now\<rparr>
      in (event, st1\<lparr>events := events st1 @ [event]\<rparr>))"

section \<open>Alert lifecycle\<close>

definition lifecycle_key :: "device_alert \<Rightarrow> string \<times> string" where
  "lifecycle_key a = (al_device a, al_kind a)"

definition get_alert_lifecycle_row :: "string \<Rightarrow> string \<Rightarrow> alert_db \<Rightarrow> device_alert option" where
  "get_alert_lifecycle_row did kind st = find_by lifecycle_key (did, kind) (lifecycle st)"

definition reopened :: "device_event \<Rightarrow> string option \<Rightarrow> device_alert \<Rightarrow> device_alert" where
  "reopened event incident a =
     (let b = (if al_state a \<noteq> ''open'' then a\<lparr>al_opened_at := ev_created_at event, al_raise_event := Some (ev_id event)\<rparr> else a);
          c = b\<lparr>al_state := ''open'', al_resolved_at := None, al_resolve_event := None\<rparr>
      in c\<lparr>al_raise_event := (if al_raise_event c = None then Some (ev_id event) else al_raise_event c),
           al_incident := incident\<rparr>)"

text \<open>\<^verbatim>\<open>open_alert_lifecycle\<close> with a raising event, as its callers use it.\<close>

definition open_alert_lifecycle :: "string \<Rightarrow> string \<Rightarrow> device_event \<Rightarrow> string option \<Rightarrow> alert_db \<Rightarrow> alert_db" where
  "open_alert_lifecycle did kind event incident st =
     (case get_alert_lifecycle_row did kind st of
        None \<Rightarrow> st\<lparr>lifecycle := insert_row \<lparr>al_device = did, al_kind = kind, al_state = ''open'', al_incident = incident,
            al_opened_at = ev_created_at event, al_resolved_at = None, al_raise_event = Some (ev_id event),
            al_resolve_event = None\<rparr> (lifecycle st)\<rparr>
      | Some a \<Rightarrow>
          let (i, st1) = (case incident of
                Some x \<Rightarrow> (Some x, st)
              | None \<Rightarrow> (case al_incident a of Some x \<Rightarrow> (Some x, st) | None \<Rightarrow> map_prod Some id (uuid4 st)))
          in st1\<lparr>lifecycle := update_where (\<lambda>a. lifecycle_key a = (did, kind)) (reopened event i) (lifecycle st1)\<rparr>)"

definition resolved :: "device_event \<Rightarrow> device_alert \<Rightarrow> device_alert" where
  "resolved event a = a\<lparr>al_state := ''resolved'', al_resolved_at := Some (ev_created_at event),
     al_resolve_event := Some (ev_id event)\<rparr>"

definition resolve_alert_lifecycle :: "string \<Rightarrow> string \<Rightarrow> device_event \<Rightarrow> alert_db \<Rightarrow> alert_db" where
  "resolve_alert_lifecycle did kind event st =
     st\<lparr>lifecycle := update_where (\<lambda>a. lifecycle_key a = (did, kind)) (resolved event) (lifecycle st)\<rparr>"

section \<open>Lemmas\<close>

definition lifecycle_writes :: "(device_alert \<Rightarrow> device_alert) set" where
  "lifecycle_writes = {reopened e i |e i. True} \<union> {resolved e |e. True}"

interpretation lifecycle_rows: keyed_table lifecycle_key lifecycle_writes
  by unfold_locales (auto simp: lifecycle_writes_def lifecycle_key_def reopened_def resolved_def Let_def)

lemma lifecycle_writes_mem [simp]: "reopened e i \<in> lifecycle_writes" "resolved e \<in> lifecycle_writes"
  unfolding lifecycle_writes_def by blast+

lemma reopened_simps [simp]:
  "al_state (reopened e i a) = ''open''" "al_incident (reopened e i a) = i"
  by (simp_all add: reopened_def Let_def)

lemma resolved_simps [simp]:
  "al_state (resolved e a) = ''resolved''" "al_incident (resolved e a) = al_incident a"
  by (simp_all add: resolved_def)

text \<open>After opening, the row of the incident is open and carries it; other rows are untouched.\<close>

lemma open_lifecycle_other:
  "(d, k) \<noteq> (did, kind) \<Longrightarrow> get_alert_lifecycle_row d k (open_alert_lifecycle did kind event incident st)
     = get_alert_lifecycle_row d k st"
  by (auto simp: open_alert_lifecycle_def get_alert_lifecycle_row_def insert_row_def lifecycle_rows.find_update
      lifecycle_key_def uuid4_def split: option.splits dest: find_by_Some)

lemma open_lifecycle_same:
  "\<exists>a. get_alert_lifecycle_row did kind (open_alert_lifecycle did kind event (Some incident) st) = Some a
     \<and> al_state a = ''open'' \<and> al_incident a = Some incident"
  by (auto simp: open_alert_lifecycle_def get_alert_lifecycle_row_def insert_row_def lifecycle_rows.find_update
      lifecycle_key_def split: option.splits dest: find_by_Some)

lemma resolve_lifecycle_row:
  "get_alert_lifecycle_row d k (resolve_alert_lifecycle did kind event st) =
     (if (d, k) = (did, kind) then map_option (resolved event) (get_alert_lifecycle_row did kind st)
      else get_alert_lifecycle_row d k st)"
  by (auto simp: resolve_alert_lifecycle_def get_alert_lifecycle_row_def lifecycle_rows.find_update
      lifecycle_key_def split: option.splits dest: find_by_Some)

lemma lifecycle_frame [simp]:
  "prs (open_alert_lifecycle did kind e i st) = prs st" "prs (resolve_alert_lifecycle did kind e st) = prs st"
  "member (open_alert_lifecycle did kind e i st) = member st" "member (resolve_alert_lifecycle did kind e st) = member st"
  "group_rows (open_alert_lifecycle did kind e i st) = group_rows st" "group_rows (resolve_alert_lifecycle did kind e st) = group_rows st"
  "alert_states (open_alert_lifecycle did kind e i st) = alert_states st" "alert_states (resolve_alert_lifecycle did kind e st) = alert_states st"
  "events (open_alert_lifecycle did kind e i st) = events st" "events (resolve_alert_lifecycle did kind e st) = events st"
  "notifications (open_alert_lifecycle did kind e i st) = notifications st" "notifications (resolve_alert_lifecycle did kind e st) = notifications st"
  by (simp_all add: open_alert_lifecycle_def resolve_alert_lifecycle_def uuid4_def split: option.splits)

lemma emit_frame:
  assumes "emit_device_event now ty device name details p pn snap st = (e, st')"
  shows "prs st' = prs st" "member st' = member st" "group_rows st' = group_rows st" "alert_states st' = alert_states st"
    "lifecycle st' = lifecycle st" "notifications st' = notifications st" "events st' = events st @ [e]"
    "ev_type e = ty" "ev_device e = device" "ev_created_at e = now" "ev_details e = details"
  using assms by (auto simp: emit_device_event_def uuid4_def Let_def)

lemma snapshot_nonempty:
  "snapshot_device_groups did p pn st \<noteq> [] \<longleftrightarrow> p \<noteq> None \<or> owning_groups did st \<noteq> []"
proof -
  have keep: "acc \<noteq> [] \<Longrightarrow> fold (\<lambda>(g, n) acc. if g \<in> fst ` set acc then acc else acc @ [(g, n)]) rows acc \<noteq> []"
    for rows and acc :: "(string \<times> string) list"
    by (induction rows arbitrary: acc) (auto split: prod.splits)
  show ?thesis
    by (cases "owning_groups did st")
      (auto simp: snapshot_device_groups_def Let_def keep split: option.splits prod.splits)
qed

end
