(* ===== verification/Alerts.thy ===== *)
theory Alerts
  imports Device_Events
begin

text \<open>
  The alert service, \<^verbatim>\<open>cms/services/alert_service.py\<close>: offline detection with its grace window and
  the temperature alerts. A transaction reads the clock once. A call of the service runs as a
  detached task of some replica, at any later time and in any order with the others. A write that a
  foreign key refuses is caught and logged by the service and changes nothing.
\<close>

section \<open>Settings and texts\<close>

record alert_settings =
  offline_grace_seconds :: int
  temp_warning_c :: rat
  temp_critical_c :: rat
  temp_cooldown_seconds :: int
  email_enabled :: bool

definition default_alert_settings :: alert_settings where
  "default_alert_settings = \<lparr>offline_grace_seconds = 300, temp_warning_c = 70, temp_critical_c = 80,
     temp_cooldown_seconds = 300, email_enabled = False\<rparr>"

definition STALE_PRESENCE_THRESHOLD_S :: int where "STALE_PRESENCE_THRESHOLD_S = 60"

definition STALE_PRESENCE_BATCH_SIZE :: nat where "STALE_PRESENCE_BATCH_SIZE = 50"

text \<open>\<^verbatim>\<open>refresh_settings\<close> assigns one attribute after the other and stops at the first value that does
  not parse; \<open>parse_float\<close> is the constructor \<^verbatim>\<open>float\<close>.\<close>

definition refresh_one :: "('v \<Rightarrow> 'a option) \<Rightarrow> 'v option \<Rightarrow> ('a \<Rightarrow> 's \<Rightarrow> 's) \<Rightarrow> 's + 's \<Rightarrow> 's + 's" where
  "refresh_one parse v assign acc =
     (case acc of Inl s \<Rightarrow> Inl s
      | Inr s \<Rightarrow> (case v of None \<Rightarrow> Inr s | Some t \<Rightarrow> (case parse t of None \<Rightarrow> Inl s | Some x \<Rightarrow> Inr (assign x s))))"

definition refresh_settings :: "(string \<Rightarrow> rat option) \<Rightarrow> (string \<Rightarrow> string option) \<Rightarrow> alert_settings \<Rightarrow> alert_settings" where
  "refresh_settings parse_float get_setting s =
     (case refresh_one int_of_text (get_setting ''alert_temp_cooldown_seconds'') (\<lambda>x. temp_cooldown_seconds_update (\<lambda>_. x))
          (refresh_one parse_float (get_setting ''alert_temp_critical_c'') (\<lambda>x. temp_critical_c_update (\<lambda>_. x))
          (refresh_one parse_float (get_setting ''alert_temp_warning_c'') (\<lambda>x. temp_warning_c_update (\<lambda>_. x))
          (refresh_one int_of_text (get_setting ''alert_offline_grace_seconds'') (\<lambda>x. offline_grace_seconds_update (\<lambda>_. x)) (Inr s)))) of
        Inl s' \<Rightarrow> s'
      | Inr s' \<Rightarrow> s'\<lparr>email_enabled := (get_setting ''email_notifications_enabled'' = Some ''true'')\<rparr>)"

definition group_label :: "(string \<times> string) list \<Rightarrow> string" where
  "group_label snapshot =
     (case filter (\<lambda>n. n \<noteq> '''') (map snd snapshot) of
        [] \<Rightarrow> ''ungrouped devices''
      | [n] \<Rightarrow> ''group '' @ quoted n
      | ns \<Rightarrow> ''groups '' @ join_text '', '' (map quoted ns))"

definition build_group_notification ::
  "string \<Rightarrow> string \<Rightarrow> string \<Rightarrow> string \<Rightarrow> json \<Rightarrow> (string \<times> string) list \<Rightarrow> notification" where
  "build_group_notification scope level title message details snapshot =
     \<lparr>nt_scope = scope, nt_level = level, nt_title = title, nt_message = message, nt_details = details,
      nt_targets = (if scope = ''group'' then map fst snapshot else [])\<rparr>"

definition humanize_seconds :: "int \<Rightarrow> string" where
  "humanize_seconds n0 =
     (let n = (if n0 < 0 then 0 else n0);
          hours = n div 3600; minutes = n mod 3600 div 60; seconds = n mod 3600 mod 60;
          p1 = (if hours \<noteq> 0 then [plural hours ''hour''] else []);
          p2 = p1 @ (if minutes \<noteq> 0 then [plural minutes ''minute''] else []);
          p3 = p2 @ (if seconds \<noteq> 0 \<or> p2 = [] then [plural seconds ''second''] else [])
      in join_text '' '' p3)"

section \<open>Disconnect and reconnect\<close>

definition device_exists :: "string \<Rightarrow> alert_db \<Rightarrow> bool" where
  "device_exists did st \<longleftrightarrow> did \<in> pr_id ` set (prs st)"

definition new_state :: "string \<Rightarrow> int option \<Rightarrow> device_alert_state" where
  "new_state did since = \<lparr>as_device = did, offline_since = since, offline_notified = False, temp_level = ''normal'',
     temp_last_alert_at = None, temp_last_sample_ts = None\<rparr>"

definition add_state :: "device_alert_state \<Rightarrow> alert_db \<Rightarrow> alert_db" where
  "add_state s st = (if device_exists (as_device s) st
     then st\<lparr>alert_states := insert_ignore as_device s (alert_states st)\<rparr> else st)"

definition update_state :: "string \<Rightarrow> (device_alert_state \<Rightarrow> device_alert_state) \<Rightarrow> alert_db \<Rightarrow> alert_db" where
  "update_state did f st = st\<lparr>alert_states := update_where (\<lambda>s. as_device s = did) f (alert_states st)\<rparr>"

definition get_state :: "string \<Rightarrow> alert_db \<Rightarrow> device_alert_state option" where
  "get_state did st = find_by as_device did (alert_states st)"

definition since_now :: "int \<Rightarrow> device_alert_state \<Rightarrow> device_alert_state" where
  "since_now now s = s\<lparr>offline_since := Some now\<rparr>"

definition record_disconnect :: "int \<Rightarrow> string \<Rightarrow> alert_db \<Rightarrow> alert_db" where
  "record_disconnect now did st =
     (case get_state did st of
        None \<Rightarrow> add_state (new_state did (Some now)) st
      | Some s \<Rightarrow> if offline_since s = None then update_state did (since_now now) st else st)"

definition back_online :: "device_alert_state \<Rightarrow> device_alert_state" where
  "back_online s = s\<lparr>offline_since := None, offline_notified := False\<rparr>"

definition since_none :: "device_alert_state \<Rightarrow> device_alert_state" where
  "since_none s = s\<lparr>offline_since := None\<rparr>"

definition json_opt :: "string option \<Rightarrow> json" where
  "json_opt v = (case v of None \<Rightarrow> JNull | Some s \<Rightarrow> JStr s)"

definition online_notification ::
  "string \<Rightarrow> string \<Rightarrow> string option \<Rightarrow> (string \<times> string) list \<Rightarrow> notification" where
  "online_notification did name incident snapshot =
     build_group_notification ''group'' ''success'' (''Device back online: '' @ name)
       (''Device '' @ quoted name @ '' in '' @ group_label snapshot @ '' is back online.'')
       (JObj [(''device_id'', JStr did), (''event_type'', JStr ''online''), (''incident_id'', json_opt incident)]) snapshot"

text \<open>The second half of the transaction, for a reconnect that consumed the notified flag.\<close>

definition announce_online :: "int \<Rightarrow> string \<Rightarrow> string \<Rightarrow> string option \<Rightarrow> string \<Rightarrow> alert_db \<Rightarrow> alert_db" where
  "announce_online now did name gid gname st =
     (let snapshot = snapshot_device_groups did gid gname st;
          incident = (case get_alert_lifecycle_row did ''offline'' st of None \<Rightarrow> None | Some a \<Rightarrow> al_incident a);
          (event, st1) = emit_device_event now ONLINE (Some did) name (JObj [(''incident_id'', json_opt incident)]) gid gname snapshot st;
          st2 = resolve_alert_lifecycle did ''offline'' event st1
      in st2\<lparr>notifications := notifications st2 @ [online_notification did name incident snapshot]\<rparr>)"

definition record_reconnect :: "int \<Rightarrow> string \<Rightarrow> string \<Rightarrow> string option \<Rightarrow> string \<Rightarrow> alert_db \<Rightarrow> alert_db" where
  "record_reconnect now did name gid gname st =
     (if (\<exists>s \<in> set (alert_states st). as_device s = did \<and> offline_notified s)
      then announce_online now did name gid gname
        (st\<lparr>alert_states := update_where (\<lambda>s. as_device s = did \<and> offline_notified s) back_online (alert_states st)\<rparr>)
      else case get_state did st of
          None \<Rightarrow> add_state (new_state did None) st
        | Some s \<Rightarrow> if offline_since s \<noteq> None then update_state did since_none st else st)"

definition clear_alert_state :: "string \<Rightarrow> alert_db \<Rightarrow> alert_db" where
  "clear_alert_state did st = update_state did back_online st"

text \<open>\<^verbatim>\<open>device_disconnected\<close> and \<^verbatim>\<open>device_reconnected\<close>, with the task they spawn.\<close>

definition handle_call :: "int \<Rightarrow> presence_alert \<Rightarrow> alert_db \<Rightarrow> alert_db" where
  "handle_call now c st =
     (case c of
        device_disconnected did name g status \<Rightarrow>
          if status \<noteq> ''adopted'' then st else record_disconnect now did st
      | device_reconnected did name g status \<Rightarrow>
          if status \<noteq> ''adopted'' then clear_alert_state did st
          else record_reconnect now did name (fst g) (snd g) st)"

section \<open>The two sweeps\<close>

definition stale_presence :: "int \<Rightarrow> presence_row \<Rightarrow> bool" where
  "stale_presence now r \<longleftrightarrow> online r \<and>
     (case last_seen r of None \<Rightarrow> False | Some t \<Rightarrow> t < now - STALE_PRESENCE_THRESHOLD_S * 1000000)"

definition since_stale :: "int \<Rightarrow> device_alert_state \<Rightarrow> device_alert_state" where
  "since_stale now s = s\<lparr>offline_since := Some now, offline_notified := False\<rparr>"

definition stale_step :: "int \<Rightarrow> presence_row \<Rightarrow> alert_db \<Rightarrow> alert_db" where
  "stale_step now r st =
     (case snapshot_device_groups (pr_id r) None '''' st of
        [] \<Rightarrow> st
      | g # gs \<Rightarrow>
          if pr_status r \<noteq> ''adopted'' then st
          else let st1 = snd (emit_device_event now OFFLINE (Some (pr_id r)) (or_id (pr_name r) (pr_id r))
                   (JObj [(''kind'', JStr ''stale_heartbeat'')]) (Some (fst g)) (snd g) (g # gs) st)
               in case get_state (pr_id r) st1 of
                  None \<Rightarrow> add_state (new_state (pr_id r) (Some now)) st1
                | Some s \<Rightarrow> if offline_since s = None then update_state (pr_id r) (since_stale now) st1 else st1)"

definition stale_presence_sweep_once :: "int \<Rightarrow> alert_db \<Rightarrow> nat \<times> alert_db" where
  "stale_presence_sweep_once now st =
     (let claimed = take STALE_PRESENCE_BATCH_SIZE (filter (stale_presence now) (prs st))
      in (length claimed, fold (stale_step now) claimed
           (st\<lparr>prs := update_where (\<lambda>r. pr_id r \<in> pr_id ` set claimed \<and> stale_presence now r) offline_row (prs st)\<rparr>)))"

definition offline_due :: "alert_settings \<Rightarrow> int \<Rightarrow> device_alert_state \<Rightarrow> bool" where
  "offline_due cfg now s \<longleftrightarrow> \<not> offline_notified s \<and>
     (case offline_since s of None \<Rightarrow> False | Some t \<Rightarrow> t \<le> now - offline_grace_seconds cfg * 1000000)"

definition notified :: "device_alert_state \<Rightarrow> device_alert_state" where
  "notified s = s\<lparr>offline_notified := True\<rparr>"

definition offline_notification ::
  "alert_settings \<Rightarrow> string \<Rightarrow> string \<Rightarrow> string \<Rightarrow> (string \<times> string) list \<Rightarrow> notification" where
  "offline_notification cfg did name incident snapshot =
     build_group_notification ''group'' ''error'' (''Device offline: '' @ name)
       (''Device '' @ quoted name @ '' in '' @ group_label snapshot @ '' has been offline for over ''
          @ humanize_seconds (offline_grace_seconds cfg) @ ''.'')
       (JObj [(''device_id'', JStr did), (''event_type'', JStr ''offline''), (''incident_id'', JStr incident)]) snapshot"

text \<open>The body of the loop over the claimed rows, for an adopted device with a group.\<close>

definition announce_offline :: "alert_settings \<Rightarrow> int \<Rightarrow> string \<Rightarrow> string \<Rightarrow> (string \<times> string) list \<Rightarrow> alert_db \<Rightarrow> alert_db" where
  "announce_offline cfg now did name snapshot st =
     (let (incident, st1) = uuid4 st;
          (event, st2) = emit_device_event now OFFLINE (Some did) name
             (JObj [(''kind'', JStr ''grace_expired''), (''incident_id'', JStr incident)])
             (Some (fst (hd snapshot))) (snd (hd snapshot)) snapshot st1;
          st3 = open_alert_lifecycle did ''offline'' event (Some incident) st2
      in st3\<lparr>notifications := notifications st3 @ [offline_notification cfg did name incident snapshot]\<rparr>)"

definition sweep_step :: "alert_settings \<Rightarrow> int \<Rightarrow> string \<Rightarrow> nat \<times> alert_db \<Rightarrow> nat \<times> alert_db" where
  "sweep_step cfg now did = (\<lambda>(emitted, st).
     case find_by pr_id did (prs st) of
       None \<Rightarrow> (emitted, st)
     | Some r \<Rightarrow>
         if pr_status r \<noteq> ''adopted'' then (emitted, st)
         else let snapshot = snapshot_device_groups did None '''' st
              in if snapshot = [] then (emitted, st)
                 else (Suc emitted, announce_offline cfg now did (or_id (pr_name r) did) snapshot st))"

definition offline_sweep_once :: "alert_settings \<Rightarrow> int \<Rightarrow> alert_db \<Rightarrow> nat \<times> alert_db" where
  "offline_sweep_once cfg now st =
     (let claimed = map as_device (filter (offline_due cfg now) (alert_states st))
      in fold (sweep_step cfg now) claimed
           (0, st\<lparr>alert_states := update_where (offline_due cfg now) notified (alert_states st)\<rparr>))"

section \<open>Temperature\<close>

definition classify_temp :: "alert_settings \<Rightarrow> rat \<Rightarrow> string" where
  "classify_temp cfg t = (if t \<ge> temp_critical_c cfg then ''critical''
     else if t \<ge> temp_warning_c cfg then ''warning'' else ''normal'')"

definition temp_reset :: "device_alert_state \<Rightarrow> device_alert_state" where
  "temp_reset s = s\<lparr>temp_level := ''normal'', temp_last_alert_at := None, temp_last_sample_ts := None\<rparr>"

definition reset_temp_state :: "string \<Rightarrow> alert_db \<Rightarrow> alert_db" where
  "reset_temp_state did st = update_state did temp_reset st"

text \<open>Python's \<^verbatim>\<open>{:.1f}\<close>: the nearest tenth, ties to even.\<close>

definition half_even :: "rat \<Rightarrow> int" where
  "half_even r = (let f = \<lfloor>r\<rfloor>; d = r - of_int f
     in if d < 1 / 2 then f else if d > 1 / 2 then f + 1 else if even f then f else f + 1)"

definition fixed1 :: "rat \<Rightarrow> string" where
  "fixed1 r = (let n = half_even (\<bar>r\<bar> * 10)
     in (if r < 0 then ''-'' else '''') @ int_text (n div 10) @ ''.'' @ int_text (n mod 10))"

definition celsius :: string where "celsius = [char_of (194::nat), char_of (176::nat)] @ ''C''"

text \<open>Whether and how a sample fires: the event type and the level of the notification.\<close>

definition temp_decision :: "string \<Rightarrow> string \<Rightarrow> bool \<Rightarrow> (event_type \<times> string) option" where
  "temp_decision old new past_cooldown =
     (if old \<noteq> new then
        if new = ''normal'' then Some (TEMP_CLEARED, ''success'')
        else if old = ''warning'' \<and> new = ''critical'' then Some (TEMP_HIGH, ''error'')
        else if past_cooldown then Some (TEMP_HIGH, if new = ''critical'' then ''error'' else ''warning'') else None
      else if new \<noteq> ''normal'' then
        if past_cooldown then Some (TEMP_HIGH, if new = ''critical'' then ''error'' else ''warning'') else None
      else None)"

definition temp_event_value :: "event_type \<Rightarrow> string" where
  "temp_event_value ty = (if ty = TEMP_HIGH then ''temp_high'' else ''temp_cleared'')"

text \<open>\<^verbatim>\<open>str(incident_id)\<close>\<close>

definition py_str :: "string option \<Rightarrow> string" where
  "py_str v = (case v of None \<Rightarrow> ''None'' | Some s \<Rightarrow> s)"

definition emit_temp_alert ::
  "alert_settings \<Rightarrow> int \<Rightarrow> string \<Rightarrow> string \<Rightarrow> string option \<Rightarrow> string \<Rightarrow> (string \<times> string) list \<Rightarrow> event_type \<Rightarrow> string
     \<Rightarrow> rat \<Rightarrow> string \<Rightarrow> string \<Rightarrow> alert_db \<Rightarrow> alert_db" where
  "emit_temp_alert cfg now did name gid gname snapshot ty level temp new old st =
     (let (incident, st1) =
            (case get_alert_lifecycle_row did ''temperature'' st of
               None \<Rightarrow> map_prod Some id (uuid4 st)
             | Some a \<Rightarrow> if al_state a = ''open''
                 then (al_incident a, st) else map_prod Some id (uuid4 st));
          (event, st2) = emit_device_event now ty (Some did) name
             (JObj [(''cpu_temp_c'', JFloat temp), (''threshold_warning'', JFloat (temp_warning_c cfg)),
                (''threshold_critical'', JFloat (temp_critical_c cfg)), (''level'', JStr new),
                (''previous_level'', JStr old), (''incident_id'', JStr (py_str incident))]) gid gname snapshot st1;
          st3 = (if ty = TEMP_HIGH then open_alert_lifecycle did ''temperature'' event incident st2
                 else resolve_alert_lifecycle did ''temperature'' event st2);
          subject = ''Device '' @ quoted name @ '' in '' @ group_label snapshot;
          note = build_group_notification ''group'' level
             ((if ty = TEMP_HIGH then ''High temperature: '' else ''Temperature normal: '') @ name)
             (if ty = TEMP_HIGH then subject @ '' is at '' @ fixed1 temp @ celsius @ '' ('' @ new @ '').''
              else subject @ '' temperature returned to normal ('' @ fixed1 temp @ celsius @ '').'')
             (JObj [(''device_id'', JStr did), (''event_type'', JStr (temp_event_value ty)), (''cpu_temp_c'', JFloat temp),
                (''level'', JStr new), (''previous_level'', JStr old), (''incident_id'', JStr (py_str incident))]) snapshot
      in st3\<lparr>notifications := notifications st3 @ [note]\<rparr>)"

definition sampled :: "string \<Rightarrow> int \<Rightarrow> bool \<Rightarrow> device_alert_state \<Rightarrow> device_alert_state" where
  "sampled new ts fires s = s\<lparr>temp_level := new, temp_last_sample_ts := Some ts,
     temp_last_alert_at := (if fires then Some ts else temp_last_alert_at s)\<rparr>"

definition past_cooldown :: "alert_settings \<Rightarrow> int \<Rightarrow> device_alert_state \<Rightarrow> bool" where
  "past_cooldown cfg ts s = (case temp_last_alert_at s of None \<Rightarrow> True
     | Some a \<Rightarrow> a + temp_cooldown_seconds cfg * 1000000 \<le> ts)"

definition stale_sample :: "int \<Rightarrow> device_alert_state \<Rightarrow> bool" where
  "stale_sample ts s = (case temp_last_sample_ts s of None \<Rightarrow> False | Some t \<Rightarrow> ts \<le> t)"

definition check_temperature ::
  "alert_settings \<Rightarrow> int \<Rightarrow> string \<Rightarrow> rat option \<Rightarrow> string \<Rightarrow> string option \<Rightarrow> string \<Rightarrow> string \<Rightarrow> int option \<Rightarrow> alert_db \<Rightarrow> alert_db" where
  "check_temperature cfg now did temp name gid gname status sample_ts st =
     (case temp of
        None \<Rightarrow> st
      | Some t \<Rightarrow>
          if status \<noteq> ''adopted'' \<or> gid = None \<or> gid = Some '''' then reset_temp_state did st
          else let ts = (case sample_ts of None \<Rightarrow> now | Some x \<Rightarrow> x);
                   snapshot = snapshot_device_groups did gid gname st;
                   new = classify_temp cfg t;
                   st1 = add_state (new_state did None) st
               in if snapshot = [] then reset_temp_state did st
                  else case get_state did st1 of
                    None \<Rightarrow> st1
                  | Some s \<Rightarrow>
                      if stale_sample ts s then st1
                      else (case temp_decision (temp_level s) new (past_cooldown cfg ts s) of
                              None \<Rightarrow> update_state did (sampled new ts False) st1
                            | Some (ty, level) \<Rightarrow>
                                emit_temp_alert cfg now did name gid gname snapshot ty level t new (temp_level s)
                                  (update_state did (sampled new ts True) st1)))"

section \<open>The outage stream of one device\<close>

text \<open>The specification: a device is up, or down with an incident; an offline notification opens an
  incident and the online notification that follows closes the same one.\<close>

datatype outage = Up | Down json | Broken

fun outage_next :: "outage \<Rightarrow> string \<times> json \<Rightarrow> outage" where
  "outage_next Up (k, i) = (if k = ''offline'' then Down i else Broken)"
| "outage_next (Down i) (k, j) = (if k = ''online'' \<and> j = i then Up else Broken)"
| "outage_next Broken x = Broken"

definition outage_run :: "(string \<times> json) list \<Rightarrow> outage" where
  "outage_run xs = foldl outage_next Up xs"

definition detail :: "string \<Rightarrow> notification \<Rightarrow> json" where
  "detail k n = (case nt_details n of JObj m \<Rightarrow> json_get k m | _ \<Rightarrow> JNull)"

definition outage_note :: "string \<Rightarrow> notification \<Rightarrow> (string \<times> json) list" where
  "outage_note did n =
     (if detail ''device_id'' n = JStr did
      then if detail ''event_type'' n = JStr ''offline'' then [(''offline'', detail ''incident_id'' n)]
        else if detail ''event_type'' n = JStr ''online'' then [(''online'', detail ''incident_id'' n)] else []
      else [])"

definition outage_log :: "string \<Rightarrow> alert_db \<Rightarrow> (string \<times> json) list" where
  "outage_log did st = concat (map (outage_note did) (notifications st))"

text \<open>What the tables say: the notified flag and the incident of the lifecycle row.\<close>

definition outage_abs :: "string \<Rightarrow> alert_db \<Rightarrow> outage" where
  "outage_abs did st =
     (case get_state did st of
        None \<Rightarrow> Up
      | Some s \<Rightarrow> if \<not> offline_notified s then Up
          else (case get_alert_lifecycle_row did ''offline'' st of
                  None \<Rightarrow> Broken
                | Some a \<Rightarrow> (case al_incident a of None \<Rightarrow> Broken | Some i \<Rightarrow> Down (JStr i))))"

definition watched :: "string \<Rightarrow> alert_db \<Rightarrow> bool" where
  "watched did st \<longleftrightarrow> owning_groups did st \<noteq> [] \<and>
     (case find_by pr_id did (prs st) of None \<Rightarrow> False | Some r \<Rightarrow> pr_status r = ''adopted'')"

text \<open>Steps of the system, for a device that stays adopted and in a group. Calls of any replica run
  at any time and in any order; \<open>world\<close> is every change of device and group rows.\<close>

inductive alert_step :: "string \<Rightarrow> alert_db \<Rightarrow> alert_db \<Rightarrow> bool" for did where
  call: "(alert_device c = did \<longrightarrow> alert_status c = ''adopted'') \<Longrightarrow> alert_step did st (handle_call now c st)"
| stale: "alert_step did st (snd (stale_presence_sweep_once now st))"
| sweep: "watched did st \<Longrightarrow> alert_step did st (snd (offline_sweep_once cfg now st))"
| temperature: "alert_step did st (check_temperature cfg now d temp name gid gname status ts st)"
| world: "alert_step did st (st\<lparr>prs := rows, alerts := calls, member := m, group_rows := gs\<rparr>)"

definition state_writes :: "(device_alert_state \<Rightarrow> device_alert_state) set" where
  "state_writes = {f. \<forall>s. as_device (f s) = as_device s}"

interpretation state_rows: keyed_table as_device state_writes
  by unfold_locales (simp add: state_writes_def)

lemma state_writes_mem [simp]:
  "since_now now \<in> state_writes" "back_online \<in> state_writes" "since_none \<in> state_writes" "since_stale now \<in> state_writes"
  "notified \<in> state_writes" "temp_reset \<in> state_writes" "sampled new ts fires \<in> state_writes"
  by (simp_all add: state_writes_def since_now_def back_online_def since_none_def since_stale_def notified_def
      temp_reset_def sampled_def)

lemma outage_next_cases:
  "outage_run (xs @ [x]) = outage_next (outage_run xs) x"
  by (simp add: outage_run_def)

lemma outage_log_append [simp]:
  "outage_log did (st\<lparr>notifications := notifications st' @ [n]\<rparr>) = outage_log did st' @ outage_note did n"
  by (simp add: outage_log_def)

lemma outage_notes [simp]:
  "outage_note did (online_notification d name incident snapshot) = (if d = did then [(''online'', json_opt incident)] else [])"
  "outage_note did (offline_notification cfg d name i snapshot) = (if d = did then [(''offline'', JStr i)] else [])"
  by (simp_all add: outage_note_def detail_def online_notification_def offline_notification_def build_group_notification_def json_get_def)

text \<open>The part of the database that the outage stream of a device depends on.\<close>

definition outage_view :: "string \<Rightarrow> alert_db \<Rightarrow> (string \<times> json) list \<times> device_alert option \<times> device_alert_state option" where
  "outage_view did st = (outage_log did st, get_alert_lifecycle_row did ''offline'' st, get_state did st)"

definition states_ok :: "alert_db \<Rightarrow> bool" where
  "states_ok st \<longleftrightarrow> keys_ok as_device (alert_states st)"

lemma get_state_update:
  "f \<in> state_writes \<Longrightarrow> get_state d (update_state did f st) = (if d = did then map_option f (get_state d st) else get_state d st)"
  unfolding get_state_def update_state_def
  by (auto simp: state_rows.find_update split: option.splits dest: find_by_Some)

lemma get_state_add:
  "get_state d (add_state s st) = (case get_state d st of Some s' \<Rightarrow> Some s'
     | None \<Rightarrow> if as_device s = d \<and> device_exists d st then Some s else None)"
  unfolding get_state_def add_state_def by (auto simp: state_rows.find_insert_ignore split: option.splits)

lemma state_op_frame [simp]:
  "outage_log did (update_state d f st) = outage_log did st" "outage_log did (add_state s st) = outage_log did st"
  "get_alert_lifecycle_row a b (update_state d f st) = get_alert_lifecycle_row a b st"
  "get_alert_lifecycle_row a b (add_state s st) = get_alert_lifecycle_row a b st"
  "notifications (update_state d f st) = notifications st" "notifications (add_state s st) = notifications st"
  by (simp_all add: update_state_def add_state_def outage_log_def get_alert_lifecycle_row_def)

lemma states_ok_update: "f \<in> state_writes \<Longrightarrow> states_ok st \<Longrightarrow> states_ok (update_state did f st)"
  by (simp add: states_ok_def update_state_def state_rows.keys_ok_update)

lemma states_ok_add: "states_ok st \<Longrightarrow> states_ok (add_state s st)"
  by (simp add: states_ok_def add_state_def state_rows.keys_ok_insert_ignore)

lemma emit_view:
  assumes "emit_device_event now ty device name details p pn snap st = (e, st')"
  shows "outage_log did st' = outage_log did st" "get_alert_lifecycle_row a b st' = get_alert_lifecycle_row a b st"
    "get_state did st' = get_state did st"
  using emit_frame [OF assms] by (simp_all add: outage_log_def get_alert_lifecycle_row_def get_state_def)

lemma lifecycle_view [simp]:
  "outage_log d (open_alert_lifecycle did kind e i st) = outage_log d st"
  "outage_log d (resolve_alert_lifecycle did kind e st) = outage_log d st"
  "get_state d (open_alert_lifecycle did kind e i st) = get_state d st"
  "get_state d (resolve_alert_lifecycle did kind e st) = get_state d st"
  by (simp_all add: outage_log_def get_state_def)

lemma notification_view [simp]:
  "get_state d (st\<lparr>notifications := ns\<rparr>) = get_state d st"
  "get_alert_lifecycle_row a b (st\<lparr>notifications := ns\<rparr>) = get_alert_lifecycle_row a b st"
  by (simp_all add: get_state_def get_alert_lifecycle_row_def)

lemma announce_online_view:
  obtains event where "outage_view d (announce_online now did name gid gname st) =
    (if d = did then (outage_log did st @ [(''online'', json_opt (Option.bind (get_alert_lifecycle_row did ''offline'' st) al_incident))],
        map_option (resolved event) (get_alert_lifecycle_row did ''offline'' st), get_state did st)
     else outage_view d st)"
    and "alert_states (announce_online now did name gid gname st) = alert_states st"
proof -
  let ?i = "Option.bind (get_alert_lifecycle_row did ''offline'' st) al_incident"
  let ?snap = "snapshot_device_groups did gid gname st"
  obtain e st' where e: "emit_device_event now ONLINE (Some did) name (JObj [(''incident_id'', json_opt ?i)]) gid gname ?snap st = (e, st')"
    by fastforce
  have inc: "(case get_alert_lifecycle_row did ''offline'' st of None \<Rightarrow> None | Some a \<Rightarrow> al_incident a) = ?i"
    by (simp split: option.splits)
  have eq: "announce_online now did name gid gname st =
      (resolve_alert_lifecycle did ''offline'' e st')\<lparr>notifications :=
         notifications (resolve_alert_lifecycle did ''offline'' e st') @ [online_notification did name ?i ?snap]\<rparr>"
    unfolding announce_online_def Let_def inc e by simp
  show thesis
  proof (rule that [of e])
    show "alert_states (announce_online now did name gid gname st) = alert_states st"
      unfolding eq using emit_frame [OF e] by simp
    show "outage_view d (announce_online now did name gid gname st) =
      (if d = did then (outage_log did st @ [(''online'', json_opt ?i)],
          map_option (resolved e) (get_alert_lifecycle_row did ''offline'' st), get_state did st)
       else outage_view d st)"
      unfolding eq outage_view_def by (simp add: emit_view [OF e] resolve_lifecycle_row)
  qed
qed

lemma announce_offline_view:
  obtains i a where "outage_view d (announce_offline cfg now did name snapshot st) =
    (if d = did then (outage_log did st @ [(''offline'', JStr i)], Some a, get_state did st) else outage_view d st)"
    and "al_incident a = Some i" and "al_state a = ''open''"
    and "alert_states (announce_offline cfg now did name snapshot st) = alert_states st"
    and "prs (announce_offline cfg now did name snapshot st) = prs st"
    and "member (announce_offline cfg now did name snapshot st) = member st"
    and "group_rows (announce_offline cfg now did name snapshot st) = group_rows st"
proof -
  let ?i = "uuids st (uuids_used st)"
  let ?st = "st\<lparr>uuids_used := Suc (uuids_used st)\<rparr>"
  have st: "outage_log d ?st = outage_log d st" "get_alert_lifecycle_row d k ?st = get_alert_lifecycle_row d k st"
    "get_state d ?st = get_state d st" for d k
    by (simp_all add: outage_log_def get_alert_lifecycle_row_def get_state_def)
  obtain e st' where e: "emit_device_event now OFFLINE (Some did) name
      (JObj [(''kind'', JStr ''grace_expired''), (''incident_id'', JStr ?i)])
      (Some (fst (hd snapshot))) (snd (hd snapshot)) snapshot ?st = (e, st')" by fastforce
  let ?o = "open_alert_lifecycle did ''offline'' e (Some ?i) st'"
  have eq: "announce_offline cfg now did name snapshot st =
      ?o\<lparr>notifications := notifications ?o @ [offline_notification cfg did name ?i snapshot]\<rparr>"
    unfolding announce_offline_def Let_def uuid4_def by (simp add: e)
  obtain a where a: "get_alert_lifecycle_row did ''offline'' ?o = Some a" "al_state a = ''open''" "al_incident a = Some ?i"
    using open_lifecycle_same by blast
  show thesis
  proof (rule that [of ?i a])
    show "outage_view d (announce_offline cfg now did name snapshot st) =
      (if d = did then (outage_log did st @ [(''offline'', JStr ?i)], Some a, get_state did st) else outage_view d st)"
      unfolding eq outage_view_def by (simp add: emit_view [OF e] open_lifecycle_other a st)
  qed (use a emit_frame [OF e] in \<open>simp_all add: eq\<close>)
qed

subsection \<open>The invariant\<close>

definition row_fine :: "device_alert_state \<Rightarrow> bool" where
  "row_fine s \<longleftrightarrow> (offline_notified s \<longrightarrow> offline_since s \<noteq> None)"

definition view_ok :: "(string \<times> json) list \<times> device_alert option \<times> device_alert_state option \<Rightarrow> bool" where
  "view_ok = (\<lambda>(ns, alert, state).
     outage_run ns = (case state of
        None \<Rightarrow> Up
      | Some s \<Rightarrow> if \<not> offline_notified s then Up
          else (case alert of None \<Rightarrow> Broken | Some a \<Rightarrow> (case al_incident a of None \<Rightarrow> Broken | Some i \<Rightarrow> Down (JStr i))))
     \<and> outage_run ns \<noteq> Broken \<and> pred_option row_fine state)"

definition outage_inv :: "string \<Rightarrow> alert_db \<Rightarrow> bool" where
  "outage_inv did st \<longleftrightarrow> states_ok st \<and> view_ok (outage_view did st)"

lemma outage_inv_abs:
  "outage_inv did st \<Longrightarrow> outage_run (outage_log did st) = outage_abs did st \<and> outage_abs did st \<noteq> Broken"
  by (auto simp: outage_inv_def view_ok_def outage_view_def outage_abs_def)

lemmas outage_inv_view = outage_inv_def

lemma view_ok_state:
  assumes "view_ok (ns, alert, state)" "pred_option row_fine state'"
    and "map_option offline_notified state' = map_option offline_notified state
     \<or> state = None \<and> map_option offline_notified state' = Some False"
  shows "view_ok (ns, alert, state')"
  using assms by (auto simp: view_ok_def split: option.splits if_splits)

text \<open>Writes that keep the notified flag keep the invariant.\<close>

lemma inv_update_state:
  assumes inv: "outage_inv did st" and f: "f \<in> state_writes"
    and same: "\<And>s. d = did \<Longrightarrow> get_state did st = Some s \<Longrightarrow> offline_notified (f s) = offline_notified s \<and> row_fine (f s)"
  shows "outage_inv did (update_state d f st)"
proof -
  have v: "view_ok (outage_log did st, get_alert_lifecycle_row did ''offline'' st, get_state did st)"
    using inv by (simp add: outage_inv_view outage_view_def)
  have "view_ok (outage_log did st, get_alert_lifecycle_row did ''offline'' st, get_state did (update_state d f st))"
  proof (rule view_ok_state [OF v])
    show "pred_option row_fine (get_state did (update_state d f st))"
      using v same by (cases "get_state did st") (auto simp: get_state_update [OF f] view_ok_def)
    show "map_option offline_notified (get_state did (update_state d f st)) = map_option offline_notified (get_state did st)
        \<or> get_state did st = None \<and> map_option offline_notified (get_state did (update_state d f st)) = Some False"
      using same by (cases "get_state did st") (auto simp: get_state_update [OF f])
  qed
  then show ?thesis
    using inv f by (simp add: outage_inv_view outage_view_def states_ok_update)
qed

lemma inv_add_state:
  assumes inv: "outage_inv did st" and "\<not> offline_notified s"
  shows "outage_inv did (add_state s st)"
proof -
  have v: "view_ok (outage_log did st, get_alert_lifecycle_row did ''offline'' st, get_state did st)"
    using inv by (simp add: outage_inv_view outage_view_def)
  have "view_ok (outage_log did st, get_alert_lifecycle_row did ''offline'' st, get_state did (add_state s st))"
    by (rule view_ok_state [OF v]; cases "get_state did st")
      (use v assms(2) in \<open>auto simp: get_state_add view_ok_def row_fine_def\<close>)
  then show ?thesis
    using inv by (simp add: outage_inv_view outage_view_def states_ok_add)
qed

lemma inv_same_tables:
  assumes "outage_inv did st" "notifications st' = notifications st" "lifecycle st' = lifecycle st" "alert_states st' = alert_states st"
  shows "outage_inv did st'"
  using assms by (simp add: outage_inv_view outage_view_def outage_log_def get_alert_lifecycle_row_def get_state_def states_ok_def)

lemma inv_disconnect: "outage_inv did st \<Longrightarrow> outage_inv did (record_disconnect now d st)"
  unfolding record_disconnect_def
  by (auto split: option.split intro!: inv_add_state inv_update_state simp: new_state_def since_now_def row_fine_def)

lemma notified_row:
  assumes "states_ok st"
  shows "(\<exists>s \<in> set (alert_states st). as_device s = did \<and> offline_notified s) \<longleftrightarrow>
    (\<exists>s. get_state did st = Some s \<and> offline_notified s)"
  using assms find_by_mem [of as_device "alert_states st"] find_by_Some [of as_device did "alert_states st"]
  by (auto simp: states_ok_def get_state_def)

lemma get_state_claimed:
  assumes "f \<in> state_writes"
  shows "get_state d (st\<lparr>alert_states := update_where P f (alert_states st)\<rparr>)
    = map_option (\<lambda>s. if P s then f s else s) (get_state d st)"
  unfolding get_state_def by (simp add: state_rows.find_update [OF assms] split: option.splits)

lemma claim_frame [simp]:
  "outage_log d (st\<lparr>alert_states := rows\<rparr>) = outage_log d st"
  "get_alert_lifecycle_row a b (st\<lparr>alert_states := rows\<rparr>) = get_alert_lifecycle_row a b st"
  by (simp_all add: outage_log_def get_alert_lifecycle_row_def)

lemma inv_reconnect:
  assumes inv: "outage_inv did st"
  shows "outage_inv did (record_reconnect now d name gid gname st)"
proof (cases "\<exists>s \<in> set (alert_states st). as_device s = d \<and> offline_notified s")
  case False
  then have eq: "record_reconnect now d name gid gname st = (case get_state d st of
          None \<Rightarrow> add_state (new_state d None) st
        | Some s \<Rightarrow> if offline_since s \<noteq> None then update_state d since_none st else st)"
    unfolding record_reconnect_def by (rule if_not_P)
  have n: "\<not> offline_notified s" if "get_state d st = Some s" for s
    using False notified_row [of st d] inv that by (auto simp: outage_inv_view)
  show ?thesis unfolding eq using inv n
    by (auto split: option.split intro!: inv_add_state inv_update_state simp: new_state_def since_none_def row_fine_def)
next
  case True
  let ?st = "st\<lparr>alert_states := update_where (\<lambda>s. as_device s = d \<and> offline_notified s) back_online (alert_states st)\<rparr>"
  have eq: "record_reconnect now d name gid gname st = announce_online now d name gid gname ?st"
    using True by (simp add: record_reconnect_def)
  have ok: "states_ok ?st" using inv by (simp add: outage_inv_def states_ok_def state_rows.keys_ok_update)
  obtain e where v: "outage_view did (announce_online now d name gid gname ?st) =
    (if did = d then (outage_log d ?st @ [(''online'', json_opt (Option.bind (get_alert_lifecycle_row d ''offline'' ?st) al_incident))],
        map_option (resolved e) (get_alert_lifecycle_row d ''offline'' ?st), get_state d ?st)
     else outage_view did ?st)"
    and k: "alert_states (announce_online now d name gid gname ?st) = alert_states ?st"
    by (rule announce_online_view)
  have keys: "states_ok (announce_online now d name gid gname ?st)" using ok k by (simp add: states_ok_def)
  have "view_ok (outage_view did (announce_online now d name gid gname ?st))"
  proof (cases "did = d")
    case True
    obtain s where s: "get_state d st = Some s" "offline_notified s"
      using notified_row \<open>\<exists>s \<in> set (alert_states st). _\<close> inv unfolding outage_inv_def by blast
    then obtain a i where "get_alert_lifecycle_row d ''offline'' st = Some a" "al_incident a = Some i"
      and "outage_run (outage_log d st) = Down (JStr i)"
      using inv True by (auto simp: outage_inv_def view_ok_def outage_view_def split: option.splits)
    moreover have "as_device s = d" using s(1) find_by_Some by (fastforce simp: get_state_def)
    ultimately show ?thesis using s True unfolding v
      by (simp add: view_ok_def get_state_claimed outage_next_cases json_opt_def back_online_def row_fine_def)
  next
    case False
    have "get_state did ?st = get_state did st"
      using False unfolding get_state_def by (simp, intro state_rows.find_update_other) auto
    then show ?thesis using inv False unfolding v by (simp add: outage_inv_view outage_view_def)
  qed
  then show ?thesis unfolding eq outage_inv_view using keys by simp
qed

lemma inv_call:
  assumes "outage_inv did st" "alert_device c = did \<longrightarrow> alert_status c = ''adopted''"
  shows "outage_inv did (handle_call now c st)"
proof (cases c)
  case (device_disconnected d name g status)
  then show ?thesis using assms(1) by (simp add: handle_call_def inv_disconnect)
next
  case (device_reconnected d name g status)
  then show ?thesis using assms
    by (auto simp: handle_call_def clear_alert_state_def inv_reconnect intro!: inv_update_state)
qed

lemma inv_emit: "outage_inv did st \<Longrightarrow> outage_inv did (snd (emit_device_event now ty device name details p pn snap st))"
  by (rule inv_same_tables; cases "emit_device_event now ty device name details p pn snap st")
    (auto dest: emit_frame)

lemma inv_stale_step: "outage_inv did st \<Longrightarrow> outage_inv did (stale_step now r st)"
proof -
  assume inv: "outage_inv did st"
  have row: "\<not> offline_notified s" if "outage_inv did st'" "get_state did st' = Some s" "offline_since s = None" for st' s
    using that by (auto simp: outage_inv_def view_ok_def outage_view_def row_fine_def)
  show ?thesis unfolding stale_step_def Let_def
    by (auto split: list.split option.split intro!: inv inv_add_state inv_update_state inv_emit
        simp: new_state_def since_stale_def row_fine_def) (use row [OF inv_emit [OF inv]] in blast)
qed

lemma inv_stale_sweep: "outage_inv did st \<Longrightarrow> outage_inv did (snd (stale_presence_sweep_once now st))"
proof -
  assume inv: "outage_inv did st"
  have "outage_inv did st' \<Longrightarrow> outage_inv did (fold (stale_step now) rs st')" for rs st'
    by (induction rs arbitrary: st') (simp_all add: inv_stale_step)
  then show ?thesis using inv_same_tables [OF inv] by (simp add: stale_presence_sweep_once_def Let_def)
qed

subsection \<open>The offline sweep\<close>

definition same_world :: "alert_db \<Rightarrow> alert_db \<Rightarrow> bool" where
  "same_world st st' \<longleftrightarrow> alert_states st' = alert_states st \<and> prs st' = prs st \<and> member st' = member st
     \<and> group_rows st' = group_rows st"

lemma sweep_step_frame:
  "same_world st (snd (sweep_step cfg now d (n, st)))
   \<and> (d \<noteq> did \<longrightarrow> outage_view did (snd (sweep_step cfg now d (n, st))) = outage_view did st)"
proof (cases "\<exists>r. find_by pr_id d (prs st) = Some r \<and> pr_status r = ''adopted'' \<and> snapshot_device_groups d None '''' st \<noteq> []")
  case True
  then obtain r where r: "find_by pr_id d (prs st) = Some r" "pr_status r = ''adopted''" "snapshot_device_groups d None '''' st \<noteq> []"
    by blast
  show ?thesis
    by (rule announce_offline_view [of did cfg now d "or_id (pr_name r) d" "snapshot_device_groups d None '''' st" st])
      (use r in \<open>simp add: sweep_step_def same_world_def\<close>)
next
  case False
  then have "snd (sweep_step cfg now d (n, st)) = st" by (auto simp: sweep_step_def Let_def split: option.splits)
  then show ?thesis by (simp add: same_world_def)
qed

lemma sweep_fold_frame:
  "did \<notin> set ids \<Longrightarrow> same_world (snd acc) (snd (fold (sweep_step cfg now) ids acc))
   \<and> outage_view did (snd (fold (sweep_step cfg now) ids acc)) = outage_view did (snd acc)"
proof (induction ids arbitrary: acc)
  case (Cons d ids)
  have "same_world (snd acc) (snd (sweep_step cfg now d acc)) \<and> outage_view did (snd (sweep_step cfg now d acc)) = outage_view did (snd acc)"
    using sweep_step_frame [of "snd acc" cfg now d "fst acc" did] Cons.prems by auto
  then show ?case using Cons.IH [of "sweep_step cfg now d acc"] Cons.prems by (auto simp: same_world_def)
qed (simp add: same_world_def)

lemma watched_cong:
  "prs st' = prs st \<Longrightarrow> member st' = member st \<Longrightarrow> group_rows st' = group_rows st \<Longrightarrow> watched did st' = watched did st"
  unfolding watched_def owning_groups_def by presburger

lemma sweep_step_watched:
  assumes "watched did st"
  obtains i a where "outage_view did (snd (sweep_step cfg now did (n, st))) = (outage_log did st @ [(''offline'', JStr i)], Some a, get_state did st)"
    and "al_incident a = Some i" and "fst (sweep_step cfg now did (n, st)) = Suc n"
proof -
  from assms obtain r where r: "find_by pr_id did (prs st) = Some r" "pr_status r = ''adopted''"
    and g: "snapshot_device_groups did None '''' st \<noteq> []"
    by (auto simp: watched_def snapshot_nonempty split: option.splits)
  show thesis
    by (rule announce_offline_view [of did cfg now did "or_id (pr_name r) did" "snapshot_device_groups did None '''' st" st])
      (use r g in \<open>auto simp: sweep_step_def intro: that\<close>)
qed

text \<open>The sweep appends exactly one offline notification for a watched device that is due, and none
  for one that is not.\<close>

lemma sweep_view:
  fixes cfg now
  assumes ok: "states_ok st"
  defines "st' \<equiv> snd (offline_sweep_once cfg now st)"
  shows "alert_states st' = update_where (offline_due cfg now) notified (alert_states st)"
    and "\<not> pred_option (offline_due cfg now) (get_state did st) \<or> get_state did st = None \<Longrightarrow> outage_view did st' = outage_view did st"
    and "watched did st \<Longrightarrow> get_state did st = Some s \<Longrightarrow> offline_due cfg now s \<Longrightarrow>
      \<exists>i a. outage_view did st' = (outage_log did st @ [(''offline'', JStr i)], Some a, Some (notified s)) \<and> al_incident a = Some i"
proof -
  let ?ids = "map as_device (filter (offline_due cfg now) (alert_states st))"
  let ?st = "st\<lparr>alert_states := update_where (offline_due cfg now) notified (alert_states st)\<rparr>"
  have eq: "st' = snd (fold (sweep_step cfg now) ?ids (0, ?st))" by (simp add: st'_def offline_sweep_once_def Let_def)
  have world: "same_world (snd acc) (snd (fold (sweep_step cfg now) ids acc))" for ids acc
  proof (induction ids arbitrary: acc)
    case (Cons d ids)
    show ?case using Cons [of "sweep_step cfg now d acc"] sweep_step_frame [of "snd acc" cfg now d "fst acc" did]
      by (auto simp: same_world_def)
  qed (simp add: same_world_def)
  then show "alert_states st' = update_where (offline_due cfg now) notified (alert_states st)"
    unfolding eq by (simp add: same_world_def)
  have mem: "did \<in> set ?ids \<longleftrightarrow> (\<exists>s. get_state did st = Some s \<and> offline_due cfg now s)"
    using ok find_by_mem [of as_device "alert_states st"] find_by_Some [of as_device did "alert_states st"]
    by (auto simp: states_ok_def get_state_def)
  have st: "outage_view did ?st = (outage_log did st, get_alert_lifecycle_row did ''offline'' st,
      map_option (\<lambda>s. if offline_due cfg now s then notified s else s) (get_state did st))"
    by (simp add: outage_view_def get_state_claimed)
  show "outage_view did st' = outage_view did st"
    if "\<not> pred_option (offline_due cfg now) (get_state did st) \<or> get_state did st = None"
  proof -
    have "did \<notin> set ?ids" unfolding mem using that by auto
    then have "outage_view did st' = outage_view did ?st" unfolding eq using sweep_fold_frame [of did ?ids "(0, ?st)"] by simp
    also have "\<dots> = outage_view did st" using that unfolding st by (cases "get_state did st") (auto simp: outage_view_def)
    finally show ?thesis .
  qed
  assume w: "watched did st" and s: "get_state did st = Some s" "offline_due cfg now s"
  then have "did \<in> set ?ids" unfolding mem by blast
  then obtain xs ys where split: "?ids = xs @ did # ys" by (meson split_list)
  moreover have "distinct ?ids" using ok by (simp add: states_ok_def keys_ok_def distinct_map_filter)
  ultimately have nin: "did \<notin> set xs" "did \<notin> set ys" by auto
  let ?mid = "fold (sweep_step cfg now) xs (0, ?st)"
  have mid: "same_world ?st (snd ?mid)" "outage_view did (snd ?mid) = outage_view did ?st"
    using sweep_fold_frame [OF nin(1), of "(0, ?st)"] by simp_all
  have "watched did (snd ?mid)" using watched_cong [of "snd ?mid" st did] mid(1) w by (simp add: same_world_def)
  then obtain i a where ia: "outage_view did (snd (sweep_step cfg now did (fst ?mid, snd ?mid)))
      = (outage_log did (snd ?mid) @ [(''offline'', JStr i)], Some a, get_state did (snd ?mid))" "al_incident a = Some i"
    by (rule sweep_step_watched)
  have "outage_view did st' = outage_view did (snd (sweep_step cfg now did ?mid))"
    unfolding eq split using sweep_fold_frame [OF nin(2), of "sweep_step cfg now did ?mid"] by simp
  also have "\<dots> = (outage_log did st @ [(''offline'', JStr i)], Some a, Some (notified s))"
    using ia(1) mid(2) st s by (simp add: outage_view_def)
  finally show "\<exists>i a. outage_view did st' = (outage_log did st @ [(''offline'', JStr i)], Some a, Some (notified s)) \<and> al_incident a = Some i"
    using ia(2) by blast
qed

lemma inv_offline_sweep:
  assumes inv: "outage_inv did st" and w: "watched did st"
  shows "outage_inv did (snd (offline_sweep_once cfg now st))"
proof -
  have ok: "states_ok st" using inv by (simp add: outage_inv_def)
  note view = sweep_view [OF ok, where cfg = cfg and now = now]
  have keys: "states_ok (snd (offline_sweep_once cfg now st))"
    using ok by (simp add: states_ok_def view(1) state_rows.keys_ok_update)
  have v: "view_ok (outage_log did st, get_alert_lifecycle_row did ''offline'' st, get_state did st)"
    using inv by (simp add: outage_inv_def outage_view_def)
  show ?thesis
  proof (cases "\<exists>s. get_state did st = Some s \<and> offline_due cfg now s")
    case True
    then obtain s where s: "get_state did st = Some s" "offline_due cfg now s" by blast
    from view(3) [OF w s] obtain i a where
      eq: "outage_view did (snd (offline_sweep_once cfg now st)) = (outage_log did st @ [(''offline'', JStr i)], Some a, Some (notified s))"
      and a: "al_incident a = Some i" by blast
    have "outage_run (outage_log did st) = Up" "offline_since s \<noteq> None"
      using v s by (auto simp: view_ok_def offline_due_def split: option.splits)
    then have "view_ok (outage_log did st @ [(''offline'', JStr i)], Some a, Some (notified s))"
      using a by (simp add: view_ok_def outage_next_cases notified_def row_fine_def)
    then show ?thesis using keys eq by (simp add: outage_inv_def)
  next
    case False
    then have "\<not> pred_option (offline_due cfg now) (get_state did st) \<or> get_state did st = None"
      by (cases "get_state did st") auto
    then show ?thesis using view(2) keys inv by (simp add: outage_inv_def)
  qed
qed

subsection \<open>Temperature alerts leave outages alone\<close>

lemma emit_temp_view:
  "outage_view d (emit_temp_alert cfg now did name gid gname snapshot ty level temp new old st) = outage_view d st"
  "alert_states (emit_temp_alert cfg now did name gid gname snapshot ty level temp new old st) = alert_states st"
  "prs (emit_temp_alert cfg now did name gid gname snapshot ty level temp new old st) = prs st"
  "\<exists>e. events (emit_temp_alert cfg now did name gid gname snapshot ty level temp new old st) = events st @ [e]
     \<and> ev_device e = Some did \<and> ev_type e = ty \<and> ev_created_at e = now"
proof -
  obtain incident st1 where i: "(case get_alert_lifecycle_row did ''temperature'' st of
       None \<Rightarrow> map_prod Some id (uuid4 st)
     | Some a \<Rightarrow> if al_state a = ''open'' then (al_incident a, st) else map_prod Some id (uuid4 st)) = (incident, st1)"
    by fastforce
  have st1: "outage_log d st1 = outage_log d st" "get_alert_lifecycle_row d k st1 = get_alert_lifecycle_row d k st"
    "get_state d st1 = get_state d st" "alert_states st1 = alert_states st" "prs st1 = prs st" "events st1 = events st" for d k
    using i by (auto simp: uuid4_def outage_log_def get_alert_lifecycle_row_def get_state_def split: option.splits if_splits)
  let ?details = "JObj [(''cpu_temp_c'', JFloat temp), (''threshold_warning'', JFloat (temp_warning_c cfg)),
      (''threshold_critical'', JFloat (temp_critical_c cfg)), (''level'', JStr new),
      (''previous_level'', JStr old), (''incident_id'', JStr (py_str incident))]"
  obtain e st2 where e: "emit_device_event now ty (Some did) name ?details gid gname snapshot st1 = (e, st2)"
    by fastforce
  have log: "outage_note d (build_group_notification sc lv ti me
      (JObj [(''device_id'', JStr did), (''event_type'', JStr (temp_event_value ty)), (''cpu_temp_c'', JFloat temp),
         (''level'', JStr new), (''previous_level'', JStr old), (''incident_id'', JStr (py_str incident))]) snapshot) = []"
    for sc lv ti me
    by (simp add: outage_note_def detail_def build_group_notification_def json_get_def temp_event_value_def)
  note fr = emit_frame [OF e]
  show "prs (emit_temp_alert cfg now did name gid gname snapshot ty level temp new old st) = prs st"
    unfolding emit_temp_alert_def i Let_def by (simp add: e fr st1)
  show "\<exists>e. events (emit_temp_alert cfg now did name gid gname snapshot ty level temp new old st) = events st @ [e]
     \<and> ev_device e = Some did \<and> ev_type e = ty \<and> ev_created_at e = now"
    unfolding emit_temp_alert_def i Let_def by (rule exI [of _ e]) (simp add: e fr st1)
  show "alert_states (emit_temp_alert cfg now did name gid gname snapshot ty level temp new old st) = alert_states st"
    unfolding emit_temp_alert_def i Let_def by (simp add: e fr st1)
  show "outage_view d (emit_temp_alert cfg now did name gid gname snapshot ty level temp new old st) = outage_view d st"
    unfolding emit_temp_alert_def i Let_def
    by (simp add: e outage_view_def emit_view [OF e] open_lifecycle_other resolve_lifecycle_row st1 log)
qed

lemma inv_row_fine: "outage_inv did st \<Longrightarrow> get_state did st = Some s \<Longrightarrow> row_fine s"
  by (simp add: outage_inv_def view_ok_def outage_view_def)

lemma inv_temp_writes:
  assumes "outage_inv did st"
  shows "outage_inv did (update_state d temp_reset st)" "outage_inv did (update_state d (sampled new ts fires) st)"
  using assms inv_row_fine [OF assms]
  by (auto intro!: inv_update_state [OF assms] simp: temp_reset_def sampled_def row_fine_def)

lemma inv_temperature:
  assumes "outage_inv did st"
  shows "outage_inv did (check_temperature cfg now d temp name gid gname status ts st)"
proof -
  have add: "outage_inv did (add_state (new_state d None) st)"
    using assms by (intro inv_add_state) (simp_all add: new_state_def)
  have emit: "outage_inv did (emit_temp_alert cfg now d name gid gname snap ty level t new old st')" if "outage_inv did st'"
    for gid snap ty level t new old st' using that by (simp add: outage_inv_def emit_temp_view states_ok_def)
  show ?thesis unfolding check_temperature_def reset_temp_state_def Let_def
    by (auto split: option.split intro!: assms add emit inv_temp_writes)
qed

lemma alert_step_inv: "alert_step did st st' \<Longrightarrow> outage_inv did st \<Longrightarrow> outage_inv did st'"
proof (induction rule: alert_step.induct)
  case (world st rows calls m gs)
  then show ?case by (rule inv_same_tables) simp_all
qed (simp_all add: inv_call inv_stale_sweep inv_offline_sweep inv_temperature)

interpretation alert_runs: step_invariant "alert_step did" "outage_inv did" for did
  by unfold_locales (rule alert_step_inv)

section \<open>Properties\<close>

text \<open>C23. Outage notifications pair up. For a device that stays adopted and in a group, over any
  interleaving of disconnect and reconnect calls of all replicas, in any order and repeated at will,
  with both sweeps, temperature alerts and arbitrary changes of all other rows, the offline and
  online notifications strictly alternate, each online one names the incident of the offline one
  before it, and the tables always agree with the stream about whether an outage is open.\<close>

theorem outage_notifications_pair:
  assumes "(alert_step did)\<^sup>*\<^sup>* st st'" "states_ok st" "outage_log did st = []" "get_state did st = None"
  shows "outage_run (outage_log did st') = outage_abs did st' \<and> outage_abs did st' \<noteq> Broken"
proof -
  have "outage_inv did st" using assms(2-4) by (simp add: outage_inv_def outage_view_def view_ok_def outage_run_def)
  then show ?thesis using alert_runs.run_keeps [OF assms(1)] outage_inv_abs by blast
qed

section \<open>Blips inside the grace window\<close>

datatype action = Call int presence_alert | Stale int | Sweep int

fun act :: "alert_settings \<Rightarrow> action \<Rightarrow> alert_db \<Rightarrow> alert_db" where
  "act cfg (Call now c) st = handle_call now c st"
| "act cfg (Stale now) st = snd (stale_presence_sweep_once now st)"
| "act cfg (Sweep now) st = snd (offline_sweep_once cfg now st)"

fun act_time :: "action \<Rightarrow> int" where
  "act_time (Call now c) = now"
| "act_time (Stale now) = now"
| "act_time (Sweep now) = now"

definition calm :: "int \<Rightarrow> device_alert_state option \<Rightarrow> bool" where
  "calm t0 state \<longleftrightarrow> pred_option (\<lambda>s. \<not> offline_notified s \<and> pred_option ((\<le>) t0) (offline_since s)) state"

definition calm_inv :: "int \<Rightarrow> string \<Rightarrow> (string \<times> json) list \<Rightarrow> alert_db \<Rightarrow> bool" where
  "calm_inv t0 did ns st \<longleftrightarrow> states_ok st \<and> calm t0 (get_state did st) \<and> outage_log did st = ns"

lemma calm_add:
  "calm_inv t0 did ns st \<Longrightarrow> \<not> offline_notified s \<Longrightarrow> pred_option ((\<le>) t0) (offline_since s) \<Longrightarrow> calm_inv t0 did ns (add_state s st)"
  by (auto simp: calm_inv_def calm_def states_ok_add get_state_add split: option.splits)

lemma calm_update:
  assumes "calm_inv t0 did ns st" "f \<in> state_writes"
    and "\<And>s. get_state did st = Some s \<Longrightarrow> calm t0 (Some s) \<Longrightarrow> calm t0 (Some (f s))"
  shows "calm_inv t0 did ns (update_state d f st)"
  using assms by (cases "get_state did st") (auto simp: calm_inv_def states_ok_update get_state_update)

lemma calm_emit: "calm_inv t0 did ns st \<Longrightarrow> calm_inv t0 did ns (snd (emit_device_event now ty device name details p pn snap st))"
  by (cases "emit_device_event now ty device name details p pn snap st")
    (auto simp: calm_inv_def emit_view states_ok_def dest: emit_frame)

lemma calm_disconnect: "calm_inv t0 did ns st \<Longrightarrow> t0 \<le> now \<Longrightarrow> calm_inv t0 did ns (record_disconnect now d st)"
  unfolding record_disconnect_def
  by (auto split: option.split intro!: calm_add calm_update simp: new_state_def since_now_def calm_def)

lemma calm_reconnect:
  assumes c: "calm_inv t0 did ns st"
  shows "calm_inv t0 did ns (record_reconnect now d name gid gname st)"
proof (cases "\<exists>s \<in> set (alert_states st). as_device s = d \<and> offline_notified s")
  case True
  let ?st = "st\<lparr>alert_states := update_where (\<lambda>s. as_device s = d \<and> offline_notified s) back_online (alert_states st)\<rparr>"
  have eq: "record_reconnect now d name gid gname st = announce_online now d name gid gname ?st"
    unfolding record_reconnect_def by (rule if_P [OF True])
  have ok: "states_ok st" using c by (simp add: calm_inv_def)
  have ne: "d \<noteq> did" using True notified_row [OF ok, of d] c by (auto simp: calm_inv_def calm_def)
  have same: "get_state did ?st = get_state did st"
    using ne unfolding get_state_def by (simp, intro state_rows.find_update_other) auto
  obtain e where "outage_view did (announce_online now d name gid gname ?st) = outage_view did ?st"
    and k: "alert_states (announce_online now d name gid gname ?st) = alert_states ?st"
    by (rule announce_online_view [of did now d name gid gname ?st]) (use ne in auto)
  moreover have "states_ok ?st" using ok by (simp add: states_ok_def state_rows.keys_ok_update)
  ultimately show ?thesis unfolding eq using c same by (simp add: calm_inv_def outage_view_def states_ok_def)
next
  case False
  then have eq: "record_reconnect now d name gid gname st = (case get_state d st of
          None \<Rightarrow> add_state (new_state d None) st
        | Some s \<Rightarrow> if offline_since s \<noteq> None then update_state d since_none st else st)"
    unfolding record_reconnect_def by (rule if_not_P)
  show ?thesis unfolding eq using c
    by (auto split: option.split intro!: calm_add calm_update simp: new_state_def since_none_def calm_def)
qed

lemma calm_stale:
  assumes "calm_inv t0 did ns st" "t0 \<le> now"
  shows "calm_inv t0 did ns (snd (stale_presence_sweep_once now st))"
proof -
  have step: "calm_inv t0 did ns (stale_step now r st')" if "calm_inv t0 did ns st'" for r st'
    using that assms(2) unfolding stale_step_def Let_def
    by (auto split: list.split option.split intro!: calm_add calm_update calm_emit
        simp: new_state_def since_stale_def calm_def)
  have "calm_inv t0 did ns (fold (stale_step now) rs st')" if "calm_inv t0 did ns st'" for rs st'
    using that by (induction rs arbitrary: st') (simp_all add: step)
  moreover have "calm_inv t0 did ns (st\<lparr>prs := rows\<rparr>)" for rows
    using assms(1) by (simp add: calm_inv_def states_ok_def get_state_def outage_log_def)
  ultimately show ?thesis by (simp add: stale_presence_sweep_once_def Let_def)
qed

lemma calm_act:
  assumes c: "calm_inv t0 did ns st" and t: "t0 \<le> act_time a" "act_time a < t0 + offline_grace_seconds cfg * 1000000"
  shows "calm_inv t0 did ns (act cfg a st)"
proof (cases a)
  case (Call now call)
  have "calm_inv t0 did ns (clear_alert_state d st)" for d
    unfolding clear_alert_state_def using c by (rule calm_update) (simp_all add: back_online_def calm_def)
  then show ?thesis using Call t c calm_disconnect calm_reconnect by (auto simp: handle_call_def split: presence_alert.split)
next
  case (Stale now)
  then show ?thesis using c t by (simp add: calm_stale)
next
  case (Sweep now)
  have ok: "states_ok st" using c by (simp add: calm_inv_def)
  have "\<not> pred_option (offline_due cfg now) (get_state did st) \<or> get_state did st = None"
    using c t Sweep by (cases "get_state did st") (auto simp: calm_inv_def calm_def offline_due_def split: option.splits)
  then have "outage_view did (act cfg a st) = outage_view did st" "states_ok (act cfg a st)"
    using ok sweep_view(1,2) [OF ok, where cfg = cfg and now = now] Sweep
    by (auto simp: states_ok_def state_rows.keys_ok_update)
  then show ?thesis using c by (simp add: calm_inv_def outage_view_def)
qed

text \<open>Short blips are silent. While a device has been offline for less than the grace period,
  whatever the calls and sweeps of any replica within that window and however often it connects and
  disconnects in it, no offline and no online notification is created for it.\<close>

theorem blips_are_silent:
  assumes "states_ok st" "calm t0 (get_state did st)"
    and "\<forall>a \<in> set as. t0 \<le> act_time a \<and> act_time a < t0 + offline_grace_seconds cfg * 1000000"
  shows "outage_log did (fold (act cfg) as st) = outage_log did st"
proof -
  have "calm_inv t0 did (outage_log did st) (fold (act cfg) as st')" if "calm_inv t0 did (outage_log did st) st'" for st'
    using that assms(3) by (induction as arbitrary: st') (simp_all add: calm_act)
  moreover have "calm_inv t0 did (outage_log did st) st" using assms(1,2) by (simp add: calm_inv_def)
  ultimately show ?thesis by (simp add: calm_inv_def)
qed

text \<open>C24. Long outages are reported once. A sweep that runs when an adopted, grouped device has been
  offline for the grace period appends exactly one offline notification for it and sets its flag,
  and every later sweep is silent about it until it reconnects.\<close>

theorem outage_is_reported:
  assumes "states_ok st" "watched did st" "get_state did st = Some s"
    "\<not> offline_notified s" "offline_since s = Some t" "t + offline_grace_seconds cfg * 1000000 \<le> now"
  shows "\<exists>i. outage_log did (snd (offline_sweep_once cfg now st)) = outage_log did st @ [(''offline'', JStr i)]
    \<and> outage_log did (snd (offline_sweep_once cfg later (snd (offline_sweep_once cfg now st))))
        = outage_log did st @ [(''offline'', JStr i)]"
proof -
  let ?st = "snd (offline_sweep_once cfg now st)"
  note view = sweep_view [OF assms(1), where cfg = cfg and now = now]
  have "offline_due cfg now s" using assms(4-6) by (simp add: offline_due_def)
  then obtain i a where i: "outage_view did ?st = (outage_log did st @ [(''offline'', JStr i)], Some a, Some (notified s))"
    using view(3) [OF assms(2,3)] by blast
  have ok: "states_ok ?st" using assms(1) view(1) by (simp add: states_ok_def state_rows.keys_ok_update)
  have "outage_view did (snd (offline_sweep_once cfg later ?st)) = outage_view did ?st"
    using sweep_view(2) [OF ok, where cfg = cfg and now = later] i
    by (simp add: outage_view_def offline_due_def notified_def)
  then show ?thesis using i by (auto simp: outage_view_def)
qed

section \<open>Temperature streams\<close>

definition temp_row :: "string \<Rightarrow> alert_db \<Rightarrow> device_alert_state" where
  "temp_row did st = (case get_state did st of None \<Rightarrow> new_state did None | Some s \<Rightarrow> s)"

definition temp_events :: "string \<Rightarrow> event_type \<Rightarrow> alert_db \<Rightarrow> device_event list" where
  "temp_events did ty st = filter (\<lambda>e. ev_device e = Some did \<and> ev_type e = ty) (events st)"

text \<open>A stream of heartbeats of an adopted device with a group: server time, sample time, reading.\<close>

definition feed :: "alert_settings \<Rightarrow> string \<Rightarrow> string \<Rightarrow> string \<Rightarrow> string \<Rightarrow> (int \<times> int \<times> rat) list \<Rightarrow> alert_db \<Rightarrow> alert_db" where
  "feed cfg did name gid gname =
     fold (\<lambda>(now, ts, t). check_temperature cfg now did (Some t) name (Some gid) gname ''adopted'' (Some ts))"

text \<open>One heartbeat: the row follows the decision, and an event is appended exactly when it fires.\<close>

lemma check_temperature_step:
  fixes cfg now t name gname
  assumes ex: "device_exists did st" and g: "gid \<noteq> ''''" and fresh: "\<not> stale_sample ts (temp_row did st)"
  defines "st' \<equiv> check_temperature cfg now did (Some t) name (Some gid) gname ''adopted'' (Some ts) st"
    and "dec \<equiv> temp_decision (temp_level (temp_row did st)) (classify_temp cfg t) (past_cooldown cfg ts (temp_row did st))"
  shows "get_state did st' = Some (sampled (classify_temp cfg t) ts (dec \<noteq> None) (temp_row did st))"
    and "device_exists did st'"
    and "dec = None \<Longrightarrow> events st' = events st"
    and "dec = Some (ty, level) \<Longrightarrow> \<exists>e. events st' = events st @ [e] \<and> ev_device e = Some did \<and> ev_type e = ty \<and> ev_created_at e = now"
proof -
  let ?st1 = "add_state (new_state did None) st"
  let ?new = "classify_temp cfg t" and ?snap = "snapshot_device_groups did (Some gid) gname st"
  have snap: "?snap \<noteq> []" by (simp add: snapshot_nonempty)
  have row: "get_state did ?st1 = Some (temp_row did st)"
    using ex by (simp add: get_state_add temp_row_def new_state_def split: option.splits)
  have st1: "events ?st1 = events st" "prs ?st1 = prs st" by (simp_all add: add_state_def)
  have upd: "events (update_state did f st') = events st'" "prs (update_state did f st') = prs st'" for f st'
    by (simp_all add: update_state_def)
  have eq: "st' = (case dec of None \<Rightarrow> update_state did (sampled ?new ts False) ?st1
      | Some (ty, level) \<Rightarrow> emit_temp_alert cfg now did name (Some gid) gname ?snap ty level t ?new (temp_level (temp_row did st))
           (update_state did (sampled ?new ts True) ?st1))"
    unfolding st'_def check_temperature_def dec_def Let_def option.case using g snap row fresh by simp
  have view: "get_state did (emit_temp_alert cfg now did name (Some gid) gname ?snap ty level t ?new old u) = get_state did u"
    for ty level old u using emit_temp_view(2) by (simp add: get_state_def)
  show "get_state did st' = Some (sampled ?new ts (dec \<noteq> None) (temp_row did st))"
    unfolding eq by (cases dec) (auto simp: view get_state_update row)
  show "device_exists did st'"
    using ex by (simp add: eq device_exists_def emit_temp_view upd st1 split: option.split prod.split)
  show "dec = None \<Longrightarrow> events st' = events st" unfolding eq by (simp add: upd st1)
  show "\<exists>e. events st' = events st @ [e] \<and> ev_device e = Some did \<and> ev_type e = ty \<and> ev_created_at e = now"
    if "dec = Some (ty, level)"
    unfolding eq that using emit_temp_view(4) [of cfg now did name "Some gid" gname ?snap ty level t ?new _
        "update_state did (sampled ?new ts True) ?st1"]
    by (simp add: upd st1)
qed

lemma hot_decision:
  assumes "new \<noteq> ''normal''"
  shows "temp_decision old new past = None \<longrightarrow> \<not> past"
    and "temp_decision old new past = Some (ty, level) \<Longrightarrow> ty = TEMP_HIGH"
  using assms by (auto simp: temp_decision_def split: if_splits)

text \<open>What a hot stretch keeps: the row remembers an alert raised by a sample of the stretch, not
  older than the cooldown at the latest sample.\<close>

definition reminded :: "alert_settings \<Rightarrow> string \<Rightarrow> (int \<times> int \<times> rat) list \<Rightarrow> int \<Rightarrow> alert_db \<Rightarrow> bool" where
  "reminded cfg did seen ts st \<longleftrightarrow>
     device_exists did st \<and> temp_last_sample_ts (temp_row did st) = Some ts \<and>
     (\<exists>(now, a, t) \<in> set seen. temp_last_alert_at (temp_row did st) = Some a \<and> ts < a + temp_cooldown_seconds cfg * 1000000
        \<and> (\<exists>e \<in> set (events st). ev_device e = Some did \<and> ev_type e = TEMP_HIGH \<and> ev_created_at e = now))"

lemma hot_step:
  fixes now name gname
  assumes ex: "device_exists did st" and g: "gid \<noteq> ''''" and hot: "classify_temp cfg t \<noteq> ''normal''"
    and pos: "0 < temp_cooldown_seconds cfg" and fresh: "\<not> stale_sample ts (temp_row did st)"
    and before: "reminded cfg did seen ts0 st \<or> temp_last_alert_at (temp_row did st) = None"
  shows "reminded cfg did (seen @ [(now, ts, t)]) ts
    (check_temperature cfg now did (Some t) name (Some gid) gname ''adopted'' (Some ts) st)"
proof -
  let ?st' = "check_temperature cfg now did (Some t) name (Some gid) gname ''adopted'' (Some ts) st"
  let ?row = "temp_row did st"
  let ?dec = "temp_decision (temp_level ?row) (classify_temp cfg t) (past_cooldown cfg ts ?row)"
  note step = check_temperature_step [OF ex g fresh, where cfg = cfg and now = now and t = t and name = name and gname = gname]
  have row': "temp_row did ?st' = sampled (classify_temp cfg t) ts (?dec \<noteq> None) ?row" using step(1) by (simp add: temp_row_def)
  show ?thesis
  proof (cases ?dec)
    case None
    then have np: "\<not> past_cooldown cfg ts ?row" using hot_decision(1) [OF hot] by blast
    then obtain a where a: "temp_last_alert_at ?row = Some a" "ts < a + temp_cooldown_seconds cfg * 1000000"
      by (auto simp: past_cooldown_def split: option.splits)
    then have "reminded cfg did seen ts0 st" using before by simp
    then show ?thesis using a step(2,3) None row' by (fastforce simp: reminded_def sampled_def)
  next
    case (Some d)
    obtain ty level where d: "d = (ty, level)" by (cases d)
    with Some have ty: "ty = TEMP_HIGH" using hot_decision(2) [OF hot] by metis
    obtain e where "events ?st' = events st @ [e]" "ev_device e = Some did" "ev_type e = ty" "ev_created_at e = now"
      using step(4) Some d by blast
    then show ?thesis using row' step(2) Some ty pos by (auto simp: reminded_def sampled_def)
  qed
qed

lemma hot_feed:
  assumes "device_exists did st" "gid \<noteq> ''''" "0 < temp_cooldown_seconds cfg"
    and "\<forall>(now, ts, t) \<in> set samples. classify_temp cfg t \<noteq> ''normal''" "sorted_wrt (<) (map (fst \<circ> snd) samples)"
    and "reminded cfg did seen ts0 st" "\<forall>(now, ts, t) \<in> set samples. ts0 < ts"
  shows "reminded cfg did (seen @ samples) (if samples = [] then ts0 else fst (snd (last samples))) (feed cfg did name gid gname samples st)"
  using assms(1,4-7)
proof (induction samples arbitrary: st seen ts0)
  case Nil
  then show ?case by (simp add: feed_def)
next
  case (Cons x samples)
  obtain now ts t where x: "x = (now, ts, t)" by (cases x)
  let ?st' = "check_temperature cfg now did (Some t) name (Some gid) gname ''adopted'' (Some ts) st"
  have fresh: "\<not> stale_sample ts (temp_row did st)"
    using Cons.prems(4,5) x by (auto simp: reminded_def stale_sample_def)
  have r: "reminded cfg did (seen @ [(now, ts, t)]) ts ?st'"
    by (rule hot_step [OF Cons.prems(1) assms(2) _ assms(3) fresh]) (use Cons.prems(2,4) x in auto)
  have "reminded cfg did ((seen @ [x]) @ samples) (if samples = [] then ts else fst (snd (last samples))) (feed cfg did name gid gname samples ?st')"
    by (rule Cons.IH) (use Cons.prems r x in \<open>auto simp: reminded_def\<close>)
  then show ?case using x by (auto simp: feed_def)
qed

text \<open>Sustained heat is never silent. However long a device reports readings above the warning
  threshold, with increasing sample times, at every sample there is a high-temperature event raised
  by a sample of the stretch that is less than one cooldown old.\<close>

theorem hot_device_is_reminded:
  assumes "device_exists did st" "gid \<noteq> ''''" "0 < temp_cooldown_seconds cfg" "get_state did st = None" "samples \<noteq> []"
    and "\<forall>(now, ts, t) \<in> set samples. classify_temp cfg t \<noteq> ''normal''" "sorted_wrt (<) (map (fst \<circ> snd) samples)"
  shows "\<exists>(now, a, t) \<in> set samples. fst (snd (last samples)) < a + temp_cooldown_seconds cfg * 1000000
    \<and> (\<exists>e \<in> set (events (feed cfg did name gid gname samples st)).
         ev_device e = Some did \<and> ev_type e = TEMP_HIGH \<and> ev_created_at e = now)"
proof (cases samples)
  case (Cons x rest)
  obtain now ts t where x: "x = (now, ts, t)" by (cases x)
  let ?st' = "check_temperature cfg now did (Some t) name (Some gid) gname ''adopted'' (Some ts) st"
  have row: "temp_row did st = new_state did None" using assms(4) by (simp add: temp_row_def)
  have r: "reminded cfg did ([] @ [(now, ts, t)]) ts ?st'"
  proof (rule hot_step [OF assms(1,2) _ assms(3)])
    show "classify_temp cfg t \<noteq> ''normal''" using assms(6) Cons x by simp
    show "\<not> stale_sample ts (temp_row did st)" by (simp add: row stale_sample_def new_state_def)
    show "reminded cfg did [] 0 st \<or> temp_last_alert_at (temp_row did st) = None" by (simp add: row new_state_def)
  qed
  have "reminded cfg did ([x] @ rest) (if rest = [] then ts else fst (snd (last rest))) (feed cfg did name gid gname rest ?st')"
    by (rule hot_feed [OF _ assms(2,3)]) (use r assms(6,7) Cons x in \<open>auto simp: reminded_def\<close>)
  then show ?thesis using Cons x by (fastforce simp: reminded_def feed_def)
qed (use assms(5) in simp)

subsection \<open>A device that flaps around the threshold\<close>

definition flaps :: "nat \<Rightarrow> (int \<times> int \<times> rat) list" where
  "flaps n = concat (map (\<lambda>k. [(60000000 * int k, 60000000 * int k, 90), (60000000 * int k + 30000000, 60000000 * int k + 30000000, 40)]) [0..<n])"

lemma feed_append: "feed cfg did name gid gname (xs @ ys) st = feed cfg did name gid gname ys (feed cfg did name gid gname xs st)"
  by (simp add: feed_def)

text \<open>The state after a flap: level, time of the last alert and sample, and the two event counts.\<close>

definition temp_summary :: "string \<Rightarrow> alert_db \<Rightarrow> string \<times> int option \<times> int option \<times> nat \<times> nat" where
  "temp_summary did st = (temp_level (temp_row did st), temp_last_alert_at (temp_row did st), temp_last_sample_ts (temp_row did st),
     length (temp_events did TEMP_HIGH st), length (temp_events did TEMP_CLEARED st))"

lemma temp_summary_step:
  fixes now name gname
  assumes ex: "device_exists did st" and g: "gid \<noteq> ''''" and s: "temp_summary did st = (level, lastal, sample, highs, clears)"
    and fresh: "case sample of None \<Rightarrow> True | Some x \<Rightarrow> x < ts"
    and dec: "temp_decision level (classify_temp cfg t) (case lastal of None \<Rightarrow> True | Some a \<Rightarrow> a + temp_cooldown_seconds cfg * 1000000 \<le> ts)
       = map_option (\<lambda>ty. (ty, lv)) fire" "fire \<in> {None, Some TEMP_HIGH, Some TEMP_CLEARED}"
  defines "st' \<equiv> check_temperature cfg now did (Some t) name (Some gid) gname ''adopted'' (Some ts) st"
  shows "device_exists did st' \<and> temp_summary did st' = (classify_temp cfg t, (if fire = None then lastal else Some ts), Some ts,
      (if fire = Some TEMP_HIGH then Suc highs else highs), (if fire = Some TEMP_CLEARED then Suc clears else clears))"
proof -
  have fresh': "\<not> stale_sample ts (temp_row did st)"
    using s fresh by (auto simp: temp_summary_def stale_sample_def split: option.splits)
  note step = check_temperature_step [OF ex g fresh', where cfg = cfg and now = now and t = t and name = name and gname = gname,
      folded st'_def]
  have d: "temp_decision (temp_level (temp_row did st)) (classify_temp cfg t) (past_cooldown cfg ts (temp_row did st)) = map_option (\<lambda>ty. (ty, lv)) fire"
    using s dec(1) by (simp add: temp_summary_def past_cooldown_def)
  have row: "temp_row did st' = sampled (classify_temp cfg t) ts (fire \<noteq> None) (temp_row did st)"
    using step(1) d by (simp add: temp_row_def)
  show ?thesis
  proof (cases fire)
    case None
    then show ?thesis using s row step(2,3) d by (simp add: temp_summary_def sampled_def temp_events_def)
  next
    case (Some ty)
    obtain e where "events st' = events st @ [e]" "ev_device e = Some did" "ev_type e = ty"
      using step(4) d Some by auto
    then show ?thesis using s row step(2) Some dec(2) by (auto simp: temp_summary_def sampled_def temp_events_def)
  qed
qed

lemma default_levels [simp]:
  "classify_temp default_alert_settings 90 = ''critical''" "classify_temp default_alert_settings 40 = ''normal''"
  "temp_cooldown_seconds default_alert_settings = 300"
  by (simp_all add: classify_temp_def default_alert_settings_def)

lemma flaps_state:
  assumes "device_exists did st" "gid \<noteq> ''''" "get_state did st = None"
    "temp_events did TEMP_HIGH st = []" "temp_events did TEMP_CLEARED st = []"
  shows "let st' = feed default_alert_settings did name gid gname (flaps (Suc n)) st in
    device_exists did st' \<and> temp_summary did st' = (''normal'', Some (60000000 * int n + 30000000), Some (60000000 * int n + 30000000), 1, Suc n)"
proof (induction n)
  case 0
  have s0: "temp_summary did st = (''normal'', None, None, 0, 0)"
    using assms by (simp add: temp_summary_def temp_row_def new_state_def)
  let ?h = "check_temperature default_alert_settings 0 did (Some 90) name (Some gid) gname ''adopted'' (Some 0) st"
  have hot: "device_exists did ?h \<and> temp_summary did ?h = (''critical'', Some 0, Some 0, 1, 0)"
    using temp_summary_step [OF assms(1,2) s0, where ts = 0 and now = 0 and t = 90 and cfg = default_alert_settings
      and fire = "Some TEMP_HIGH" and lv = "''error''" and name = name and gname = gname]
    by (simp add: temp_decision_def)
  show ?case
    using temp_summary_step [OF conjunct1 [OF hot] assms(2) conjunct2 [OF hot], where ts = 30000000 and now = 30000000 and t = 40
        and cfg = default_alert_settings and fire = "Some TEMP_CLEARED" and lv = "''success''" and name = name and gname = gname]
    by (simp add: temp_decision_def feed_def flaps_def)
next
  case (Suc n)
  let ?s = "feed default_alert_settings did name gid gname (flaps (Suc n)) st"
  let ?t = "60000000 * int (Suc n)"
  have ih: "device_exists did ?s" "temp_summary did ?s = (''normal'', Some (60000000 * int n + 30000000), Some (60000000 * int n + 30000000), 1, Suc n)"
    using Suc by (simp_all add: Let_def)
  let ?h = "check_temperature default_alert_settings ?t did (Some 90) name (Some gid) gname ''adopted'' (Some ?t) ?s"
  have hot: "device_exists did ?h \<and> temp_summary did ?h = (''critical'', Some (60000000 * int n + 30000000), Some ?t, 1, Suc n)"
    using temp_summary_step [OF ih(1) assms(2) ih(2), where ts = ?t and now = ?t and t = 90 and cfg = default_alert_settings
      and fire = None and lv = "''error''" and name = name and gname = gname]
    by (simp add: temp_decision_def)
  let ?c = "check_temperature default_alert_settings (?t + 30000000) did (Some 40) name (Some gid) gname ''adopted'' (Some (?t + 30000000)) ?h"
  have cold: "device_exists did ?c \<and> temp_summary did ?c = (''normal'', Some (?t + 30000000), Some (?t + 30000000), 1, Suc (Suc n))"
    using temp_summary_step [OF conjunct1 [OF hot] assms(2) conjunct2 [OF hot], where ts = "?t + 30000000" and now = "?t + 30000000" and t = 40
        and cfg = default_alert_settings and fire = "Some TEMP_CLEARED" and lv = "''success''" and name = name and gname = gname]
    by (simp add: temp_decision_def)
  have "flaps (Suc (Suc n)) = flaps (Suc n) @ [(?t, ?t, 90), (?t + 30000000, ?t + 30000000, 40)]" by (simp add: flaps_def)
  then have "feed default_alert_settings did name gid gname (flaps (Suc (Suc n))) st = ?c" by (simp add: feed_append) (simp add: feed_def)
  then show ?case using cold by (simp add: Let_def)
qed

text \<open>A device that flaps is reported as fine. With the default settings, a device that is critical
  at every full minute and back to normal half a minute later raises one high-temperature event at
  the first minute and never another, however long it goes on, because each all-clear restarts the
  cooldown; every minute it is announced again as back to normal.\<close>

theorem flapping_heat_is_silenced:
  assumes "device_exists did st" "gid \<noteq> ''''" "get_state did st = None"
    "temp_events did TEMP_HIGH st = []" "temp_events did TEMP_CLEARED st = []"
  shows "length (temp_events did TEMP_HIGH (feed default_alert_settings did name gid gname (flaps (Suc n)) st)) = 1
    \<and> length (temp_events did TEMP_CLEARED (feed default_alert_settings did name gid gname (flaps (Suc n)) st)) = Suc n"
  using flaps_state [OF assms, of name gname n] by (simp add: Let_def temp_summary_def)

section \<open>Concrete runs\<close>

definition sample_alerts :: alert_db where
  "sample_alerts = \<lparr>prs = prs sample_presence, alerts = [], member = [(''d1'', ''g1'')], group_rows = [(''g1'', ''Lobby'')],
     alert_states = [], events = [], lifecycle = [], notifications = [], uuids = (\<lambda>n. int_text (int n)), uuids_used = 0\<rparr>"

definition call_off :: presence_alert where
  "call_off = device_disconnected ''d1'' ''Lobby'' (Some ''g1'', ''Lobby'') ''adopted''"

definition call_on :: presence_alert where
  "call_on = device_reconnected ''d1'' ''Lobby'' (Some ''g1'', ''Lobby'') ''adopted''"

lemma sample_watched: "watched ''d1'' sample_alerts"
  by (simp add: watched_def sample_alerts_def sample_presence_def owning_groups_def)

definition outage_sample :: alert_db where
  "outage_sample = handle_call 500000000 call_on (snd (offline_sweep_once default_alert_settings 400000000 (handle_call 0 call_off sample_alerts)))"

lemma sample_alerts_clean: "states_ok sample_alerts" "outage_log ''d1'' sample_alerts = []" "get_state ''d1'' sample_alerts = None"
  "device_exists ''d1'' sample_alerts" "temp_events ''d1'' ty sample_alerts = []"
  by (simp_all add: sample_alerts_def states_ok_def keys_ok_def outage_log_def get_state_def device_exists_def sample_presence_def temp_events_def)

lemma watched_call: "watched ''d1'' (handle_call 0 call_off sample_alerts)"
  using sample_watched watched_cong [of "handle_call 0 call_off sample_alerts" sample_alerts "''d1''"]
  by (simp add: handle_call_def call_off_def record_disconnect_def add_state_def update_state_def split: option.splits)

theorem outage_notifications_pair_witness:
  "outage_run (outage_log ''d1'' outage_sample) = outage_abs ''d1'' outage_sample \<and> outage_abs ''d1'' outage_sample \<noteq> Broken
    \<and> map fst (outage_log ''d1'' outage_sample) = [''offline'', ''online'']"
proof -
  have "alert_step ''d1'' sample_alerts (handle_call 0 call_off sample_alerts)"
    by (rule alert_step.call) (simp add: call_off_def)
  moreover have "alert_step ''d1'' (handle_call 0 call_off sample_alerts)
      (snd (offline_sweep_once default_alert_settings 400000000 (handle_call 0 call_off sample_alerts)))"
    by (rule alert_step.sweep [OF watched_call])
  moreover have "alert_step ''d1'' (snd (offline_sweep_once default_alert_settings 400000000 (handle_call 0 call_off sample_alerts))) outage_sample"
    unfolding outage_sample_def by (rule alert_step.call) (simp add: call_on_def)
  ultimately have "(alert_step ''d1'')\<^sup>*\<^sup>* sample_alerts outage_sample" by (meson converse_rtranclp_into_rtranclp r_into_rtranclp)
  moreover have "map fst (outage_log ''d1'' outage_sample) = [''offline'', ''online'']" by code_simp
  ultimately show ?thesis using outage_notifications_pair sample_alerts_clean by blast
qed

theorem blips_are_silent_witness:
  "outage_log ''d1'' (fold (act default_alert_settings)
     [Call 5 call_off, Sweep 100000000, Call 200000000 call_on, Call 250000000 call_off, Sweep 290000000] sample_alerts) = []"
  using blips_are_silent [of sample_alerts 5 "''d1''" "[Call 5 call_off, Sweep 100000000, Call 200000000 call_on, Call 250000000 call_off, Sweep 290000000]"
      default_alert_settings]
  by (simp add: sample_alerts_clean calm_def default_alert_settings_def del: act.simps)

theorem outage_is_reported_witness:
  "\<exists>i. outage_log ''d1'' (snd (offline_sweep_once default_alert_settings 400000000 (handle_call 0 call_off sample_alerts))) = [(''offline'', JStr i)]"
proof -
  let ?st = "handle_call 0 call_off sample_alerts"
  have ok: "states_ok ?st" by code_simp
  have st: "get_state ''d1'' ?st = Some (new_state ''d1'' (Some 0))" by code_simp
  have "outage_log ''d1'' ?st = []" by code_simp
  then show ?thesis
    using outage_is_reported [OF ok watched_call st, of 0 default_alert_settings 400000000 0]
    by (auto simp: new_state_def default_alert_settings_def)
qed

theorem hot_device_is_reminded_witness:
  "\<exists>e \<in> set (events (feed default_alert_settings ''d1'' ''Lobby'' ''g1'' ''Lobby''
            [(0, 0, 75), (200000000, 200000000, 75), (310000000, 310000000, 75)] sample_alerts)).
         ev_device e = Some ''d1'' \<and> ev_type e = TEMP_HIGH \<and> 310000000 < ev_created_at e + 300 * 1000000"
  using hot_device_is_reminded [OF sample_alerts_clean(4) _ _ sample_alerts_clean(3), of "''g1''" default_alert_settings
      "[(0, 0, 75), (200000000, 200000000, 75), (310000000, 310000000, 75)]" "''Lobby''" "''Lobby''"]
  by (auto simp: classify_temp_def default_alert_settings_def)

theorem flapping_heat_is_silenced_witness:
  "length (temp_events ''d1'' TEMP_HIGH (feed default_alert_settings ''d1'' ''Lobby'' ''g1'' ''Lobby'' (flaps 100) sample_alerts)) = 1"
  using flapping_heat_is_silenced [OF sample_alerts_clean(4) _ sample_alerts_clean(3,5,5), of "''g1''" "''Lobby''" "''Lobby''" 99]
  by simp

section \<open>Unpaired messages\<close>

text \<open>A recovery without an outage. A device without a group that goes offline past the grace
  period is claimed by the sweep without a notification; once it is in a group and reconnects, its
  group is told that it is back online although it was never told that it was offline.\<close>

theorem online_without_offline:
  "map fst (outage_log ''d1'' (handle_call 500000000 call_on
     ((snd (offline_sweep_once default_alert_settings 400000000 (handle_call 0 call_off (sample_alerts\<lparr>member := []\<rparr>))))
        \<lparr>member := [(''d1'', ''g1'')]\<rparr>))) = [''online'']"
  by code_simp

text \<open>An outage without a recovery in the event log. When the stale-heartbeat sweep logs OFFLINE and
  the device comes back within the grace period, no ONLINE event follows: the log of a healthy device
  ends with OFFLINE.\<close>

definition stale_alerts :: alert_db where
  "stale_alerts = sample_alerts\<lparr>prs := map (\<lambda>r. r\<lparr>online := True, last_seen := Some 0\<rparr>) (prs sample_alerts)\<rparr>"

theorem stale_offline_never_closed:
  "map ev_type (events (handle_call 80000000 call_on (snd (stale_presence_sweep_once 70000000 stale_alerts)))) = [OFFLINE]
   \<and> map_option offline_since (get_state ''d1'' (handle_call 80000000 call_on (snd (stale_presence_sweep_once 70000000 stale_alerts)))) = Some None"
  by code_simp

end
