(* ===== verification/Severity.thy ===== *)
theory Severity
  imports Json
begin

text \<open>
  The severity taxonomy of the triage bar, the first half of \<^verbatim>\<open>cms/services/device_alerts.py\<close>: the
  tags of one decorated device and the counts over a fleet. Storage sizes are integers as the device
  reports them; the free percentage is an exact rational.
\<close>

section \<open>Tags of a device\<close>

record decorated =
  dc_status :: "string option"
  dc_online :: bool
  dc_ports :: "(string \<times> json) list list"
  dc_display_connected :: json
  dc_capacity_mb :: "int option"
  dc_used_mb :: "int option"
  dc_error :: json
  dc_pipeline_state :: json
  dc_upgrading :: bool
  dc_update_available :: bool

definition SEVERITY_TAGS :: "string list" where
  "SEVERITY_TAGS = [''error'', ''offline'', ''display-off'', ''storage-critical'', ''orphaned'', ''maintenance'']"

definition NEEDS_ATTENTION_TAGS :: "string list" where
  "NEEDS_ATTENTION_TAGS = [''error'', ''offline'', ''display-off'', ''storage-critical'', ''orphaned'']"

definition CRITICAL_TAGS :: "string list" where
  "CRITICAL_TAGS = [''error'', ''offline'', ''storage-critical'']"

definition WARNING_TAGS :: "string list" where
  "WARNING_TAGS = [''display-off'', ''orphaned'']"

definition is_display_off :: "decorated \<Rightarrow> bool" where
  "is_display_off d \<longleftrightarrow> dc_online d \<and>
     (if dc_ports d \<noteq> [] then list_all (\<lambda>p. \<not> json_truthy (json_get ''connected'' p)) (dc_ports d)
      else dc_display_connected d = JBool False)"

definition free_storage_pct :: "decorated \<Rightarrow> rat option" where
  "free_storage_pct d =
     (let cap = (case dc_capacity_mb d of None \<Rightarrow> 0 | Some c \<Rightarrow> c);
          used = (case dc_used_mb d of None \<Rightarrow> 0 | Some u \<Rightarrow> u)
      in if cap \<le> 0 then None else Some (of_int (cap - used) / of_int cap * 100))"

definition device_severity_tags :: "string list option \<Rightarrow> decorated \<Rightarrow> string list" where
  "device_severity_tags user_perms d =
     (if dc_status d = Some ''pending'' then []
      else if dc_status d = Some ''orphaned'' then [''orphaned'']
      else (if dc_online d
            then (if json_truthy (dc_error d) \<or> dc_pipeline_state d = JStr ''ERROR'' then [''error''] else [])
                 @ (if is_display_off d then [''display-off''] else [])
            else [''offline''])
         @ (case free_storage_pct d of None \<Rightarrow> [] | Some p \<Rightarrow> if p < 5 then [''storage-critical''] else [])
         @ (if (dc_upgrading d \<or> dc_update_available d)
               \<and> (case user_perms of None \<Rightarrow> True | Some ps \<Rightarrow> ''devices:manage'' \<in> set ps)
            then [''maintenance''] else []))"

definition is_needs_attention :: "string list \<Rightarrow> bool" where
  "is_needs_attention tags \<longleftrightarrow> list_ex (\<lambda>t. t \<in> set NEEDS_ATTENTION_TAGS) tags"

definition is_critical :: "string list \<Rightarrow> bool" where
  "is_critical tags \<longleftrightarrow> list_ex (\<lambda>t. t \<in> set CRITICAL_TAGS) tags"

definition is_warning :: "string list \<Rightarrow> bool" where
  "is_warning tags \<longleftrightarrow> \<not> list_ex (\<lambda>t. t \<in> set CRITICAL_TAGS) tags \<and> list_ex (\<lambda>t. t \<in> set WARNING_TAGS) tags"

section \<open>Counts over a fleet\<close>

type_synonym counts = "(string, nat) dict"

definition count_of :: "counts \<Rightarrow> string \<Rightarrow> nat" where
  "count_of c k = (case map_of c k of None \<Rightarrow> 0 | Some n \<Rightarrow> n)"

definition bump :: "string \<Rightarrow> counts \<Rightarrow> counts" where
  "bump k c = dict_set k (count_of c k + 1) c"

definition zero_counts :: counts where
  "zero_counts = map (\<lambda>k. (k, 0)) ([''all'', ''needs_attention'', ''critical'', ''warning'', ''healthy''] @ SEVERITY_TAGS)"

definition count_device :: "string list option \<Rightarrow> decorated \<Rightarrow> counts \<Rightarrow> counts" where
  "count_device user_perms d c =
     (if dc_status d = Some ''pending'' then c
      else let c1 = bump ''all'' c; tags = device_severity_tags user_perms d
           in if tags = [] then bump ''healthy'' c1
              else let c2 = (if is_needs_attention tags then bump ''needs_attention'' c1 else c1);
                       c3 = (if is_critical tags then bump ''critical'' c2
                             else if is_warning tags then bump ''warning'' c2 else c2)
                   in fold bump tags c3)"

definition fleet_counts :: "string list option \<Rightarrow> decorated list \<Rightarrow> counts" where
  "fleet_counts user_perms devices = fold (count_device user_perms) devices zero_counts"

section \<open>Lemmas\<close>

lemma count_bump [simp]: "count_of (bump k c) j = count_of c j + (if j = k then 1 else 0)"
  by (simp add: count_of_def bump_def)

lemma count_fold_bump: "count_of (fold bump ks c) j = count_of c j + count_list ks j"
  by (induction ks arbitrary: c) (auto simp: ac_simps)

lemma tags_subset: "set (device_severity_tags perms d) \<subseteq> set SEVERITY_TAGS"
  by (auto simp: device_severity_tags_def SEVERITY_TAGS_def split: option.splits if_splits)

lemma tags_distinct: "distinct (device_severity_tags perms d)"
  by (auto simp: device_severity_tags_def split: option.splits)

lemma tag_buckets: "is_needs_attention tags \<longleftrightarrow> is_critical tags \<or> is_warning tags"
  by (auto simp: is_needs_attention_def is_critical_def is_warning_def list_ex_iff
      NEEDS_ATTENTION_TAGS_def CRITICAL_TAGS_def WARNING_TAGS_def)

definition operational :: "decorated \<Rightarrow> bool" where "operational d \<longleftrightarrow> dc_status d \<noteq> Some ''pending''"

text \<open>The contribution of one device to each counter.\<close>

definition contributes :: "string list option \<Rightarrow> string \<Rightarrow> decorated \<Rightarrow> bool" where
  "contributes perms k d \<longleftrightarrow> operational d \<and>
     (let tags = device_severity_tags perms d
      in if k = ''all'' then True else if k = ''healthy'' then tags = []
         else if k = ''needs_attention'' then is_needs_attention tags
         else if k = ''critical'' then is_critical tags
         else if k = ''warning'' then is_warning tags
         else k \<in> set tags)"

lemma no_tags: "\<not> is_needs_attention []" "\<not> is_critical []" "\<not> is_warning []"
  by (simp_all add: is_needs_attention_def is_critical_def is_warning_def)

lemma count_tag: "count_list (device_severity_tags perms d) k = (if k \<in> set (device_severity_tags perms d) then 1 else 0)"
proof -
  have "distinct xs \<Longrightarrow> count_list xs k = (if k \<in> set xs then 1 else 0)" for xs :: "string list"
    by (induction xs) auto
  then show ?thesis using tags_distinct by blast
qed

lemma count_device_of: "count_of (count_device perms d c) k = count_of c k + (if contributes perms k d then 1 else 0)"
proof -
  let ?T = "device_severity_tags perms d"
  have fresh: "''all'' \<notin> set ?T" "''healthy'' \<notin> set ?T" "''needs_attention'' \<notin> set ?T" "''critical'' \<notin> set ?T" "''warning'' \<notin> set ?T"
    using tags_subset [of perms d] by (auto simp: SEVERITY_TAGS_def)
  have excl: "\<not> (is_critical ?T \<and> is_warning ?T)" by (auto simp: is_critical_def is_warning_def)
  show ?thesis
    unfolding count_device_def Let_def contributes_def operational_def
    using fresh excl by (auto simp: count_fold_bump count_tag no_tags)
qed

lemma fold_count: "count_of (fold (count_device perms) ds c) k = count_of c k + length (filter (contributes perms k) ds)"
  by (induction ds arbitrary: c) (auto simp: count_device_of)

lemma fleet_count: "count_of (fleet_counts perms ds) k = length (filter (contributes perms k) ds)"
proof -
  have "count_of (map (\<lambda>k. (k, 0)) ks) k = 0" for ks by (induction ks) (auto simp: count_of_def)
  then have "count_of zero_counts k = 0" unfolding zero_counts_def .
  then show ?thesis by (simp add: fleet_counts_def fold_count)
qed

lemma filter_split: "(\<And>x. P x \<longleftrightarrow> Q x \<or> R x) \<Longrightarrow> (\<And>x. \<not> (Q x \<and> R x)) \<Longrightarrow>
  length (filter P xs) = length (filter Q xs) + length (filter R xs)"
  by (induction xs) auto

section \<open>Properties\<close>

text \<open>The triage counters are exact and consistent. Each counter is the number of operational
  devices it describes; critical and warning are disjoint and make up needs-attention; and every
  operational device is healthy, needs attention, or carries the maintenance tag alone.\<close>

theorem fleet_counts_partition:
  "count_of (fleet_counts perms ds) k = length (filter (contributes perms k) ds)
   \<and> count_of (fleet_counts perms ds) ''needs_attention'' =
       count_of (fleet_counts perms ds) ''critical'' + count_of (fleet_counts perms ds) ''warning''
   \<and> count_of (fleet_counts perms ds) ''all'' = count_of (fleet_counts perms ds) ''healthy''
       + count_of (fleet_counts perms ds) ''needs_attention''
       + length (filter (\<lambda>d. operational d \<and> device_severity_tags perms d = [''maintenance'']) ds)"
proof (intro conjI)
  let ?T = "device_severity_tags perms"
  show "count_of (fleet_counts perms ds) k = length (filter (contributes perms k) ds)" by (rule fleet_count)
  show "count_of (fleet_counts perms ds) ''needs_attention'' =
       count_of (fleet_counts perms ds) ''critical'' + count_of (fleet_counts perms ds) ''warning''"
    unfolding fleet_count
    by (rule filter_split) (auto simp: contributes_def Let_def tag_buckets is_critical_def is_warning_def)
  have only: "\<not> is_needs_attention (?T d) \<longleftrightarrow> ?T d = [] \<or> ?T d = [''maintenance'']" for d
  proof
    assume n: "\<not> is_needs_attention (?T d)"
    then have "set (?T d) \<subseteq> {''maintenance''}"
      using tags_subset [of perms d] by (auto simp: is_needs_attention_def list_ex_iff NEEDS_ATTENTION_TAGS_def SEVERITY_TAGS_def)
    moreover have "distinct xs \<Longrightarrow> set xs \<subseteq> {x} \<Longrightarrow> xs = [] \<or> xs = [x]" for xs and x :: string
      by (cases xs; cases "tl xs") auto
    ultimately show "?T d = [] \<or> ?T d = [''maintenance'']" using tags_distinct by blast
  qed (auto simp: is_needs_attention_def NEEDS_ATTENTION_TAGS_def)
  have "length (filter (contributes perms ''all'') ds) =
      length (filter (\<lambda>d. operational d \<and> (?T d = [] \<or> is_needs_attention (?T d))) ds)
      + length (filter (\<lambda>d. operational d \<and> ?T d = [''maintenance'']) ds)"
    by (rule filter_split) (auto simp: contributes_def Let_def only no_tags dest: only [THEN iffD1])
  also have "length (filter (\<lambda>d. operational d \<and> (?T d = [] \<or> is_needs_attention (?T d))) ds) =
      length (filter (contributes perms ''healthy'') ds) + length (filter (contributes perms ''needs_attention'') ds)"
    by (rule filter_split) (auto simp: contributes_def Let_def no_tags)
  finally show "count_of (fleet_counts perms ds) ''all'' = count_of (fleet_counts perms ds) ''healthy''
       + count_of (fleet_counts perms ds) ''needs_attention''
       + length (filter (\<lambda>d. operational d \<and> ?T d = [''maintenance'']) ds)"
    unfolding fleet_count by simp
qed

end
