(* ===== verification/Iso_Text.thy ===== *)
theory Iso_Text
  imports Prelude
begin

text \<open>
  ISO texts of dates, times and instants as \<^verbatim>\<open>datetime.isoformat\<close> writes them, and the texts of
  JSON strings: the standard-library formats shared by several components.
\<close>

section \<open>Dates and times\<close>

text \<open>\<^verbatim>\<open>date.isoformat\<close>, with CPython's conversion of an ordinal to year, month and day.\<close>

definition days_before_month :: "int list" where
  "days_before_month = [0, 0, 31, 59, 90, 120, 151, 181, 212, 243, 273, 304, 334]"

definition days_in_month :: "int list" where
  "days_in_month = [0, 31, 28, 31, 30, 31, 30, 31, 31, 30, 31, 30, 31]"

definition ord2ymd :: "date \<Rightarrow> int \<times> int \<times> int" where
  "ord2ymd ordinal =
     (let n0 = ordinal - 1; n400 = n0 div 146097; r400 = n0 mod 146097;
          n100 = r400 div 36524; r100 = r400 mod 36524;
          n4 = r100 div 1461; r4 = r100 mod 1461;
          n1 = r4 div 365; n = r4 mod 365;
          year = n400 * 400 + 1 + n100 * 100 + n4 * 4 + n1;
          leap = (n1 = 3 \<and> (n4 \<noteq> 24 \<or> n100 = 3));
          month = (n + 50) div 32;
          preceding = days_before_month ! nat month + (if month > 2 \<and> leap then 1 else 0)
      in if n1 = 4 \<or> n100 = 4 then (year - 1, 12, 31)
         else if preceding > n
         then let m = month - 1;
                  p = preceding - (days_in_month ! nat m + (if m = 2 \<and> leap then 1 else 0))
              in (year, m, n - p + 1)
         else (year, month, n - preceding + 1))"

definition padded :: "nat \<Rightarrow> int \<Rightarrow> string" where
  "padded w n = (let s = int_text n in replicate (w - length s) (CHR ''0'') @ s)"

definition date_iso :: "date \<Rightarrow> string" where
  "date_iso d = (case ord2ymd d of (y, m, dd) \<Rightarrow> padded 4 y @ ''-'' @ padded 2 m @ ''-'' @ padded 2 dd)"

definition time_iso :: "py_time \<Rightarrow> string" where
  "time_iso t = strftime_hms t @ (if microsecond t = 0 then '''' else ''.'' @ padded 6 (microsecond t))"

text \<open>An instant in milliseconds since the Unix epoch, as \<^verbatim>\<open>isoformat(timespec="milliseconds")\<close> with \<^verbatim>\<open>Z\<close>.\<close>

definition iso_ms :: "int \<Rightarrow> string" where
  "iso_ms ms = (let day = ms div 86400000; r = ms mod 86400000
     in date_iso (719163 + day) @ ''T'' @ padded 2 (r div 3600000) @ '':'' @ padded 2 (r mod 3600000 div 60000) @ '':''
        @ padded 2 (r mod 60000 div 1000) @ ''.'' @ padded 3 (r mod 1000) @ ''Z'')"

text \<open>An instant in microseconds since the epoch, as \<^verbatim>\<open>isoformat().replace("+00:00", "Z")\<close>.\<close>

definition iso_us :: "int \<Rightarrow> string" where
  "iso_us us = (let day = us div 86400000000; r = us mod 86400000000
     in date_iso (719163 + day) @ ''T''
        @ time_iso (Time (r div 3600000000) (r mod 3600000000 div 60000000) (r mod 60000000 div 1000000) (r mod 1000000))
        @ ''Z'')"

section \<open>JSON strings\<close>

definition hex_digit :: "int \<Rightarrow> char" where
  "hex_digit n = ''0123456789abcdef'' ! nat n"

text \<open>A text between quotes as \<^verbatim>\<open>json.dumps\<close> escapes it, for ASCII text.\<close>

definition json_escape :: "char \<Rightarrow> string" where
  "json_escape c = (let n = of_char c :: int in
     if n = 34 then [CHR 0x5C, CHR 0x22] else if n = 92 then [CHR 0x5C, CHR 0x5C]
     else if n = 10 then [CHR 0x5C, CHR ''n''] else if n = 13 then [CHR 0x5C, CHR ''r'']
     else if n = 9 then [CHR 0x5C, CHR ''t''] else if n = 12 then [CHR 0x5C, CHR ''f'']
     else if n = 8 then [CHR 0x5C, CHR ''b'']
     else if n < 32 then CHR 0x5C # ''u00'' @ [hex_digit (n div 16), hex_digit (n mod 16)]
     else [c])"

definition json_string :: "string \<Rightarrow> string" where
  "json_string s = [CHR 0x22] @ concat (map json_escape s) @ [CHR 0x22]"

end
