(* ===== verification/Slideshow_Resolver.thy ===== *)
theory Slideshow_Resolver
  imports Readiness Iso_Text "HOL-Library.Word" "HOL-Library.Multiset"
begin

unbundle bit_operations_syntax

text \<open>
  Slideshow resolution, \<^verbatim>\<open>cms/services/slideshow_resolver.py\<close>, over the rows of
  \<^verbatim>\<open>shared/models/slideshow_slide.py\<close>: expansion of a deck to slide specifications, the per-slide
  visibility window, playback slots, the choice of the file each device downloads, the resolved
  checksum and the message sent to the device. SHA-256 and the storage backend's download link are
  parameters; the duration of a source is a whole number of microseconds.
\<close>

section \<open>Rows\<close>

record slide_window =
  valid_from :: "date option"
  valid_to :: "date option"
  active_days :: "int list option"
  active_start :: "py_time option"
  active_end :: "py_time option"

definition EMPTY_WINDOW :: slide_window where
  "EMPTY_WINDOW = \<lparr>valid_from = None, valid_to = None, active_days = None, active_start = None, active_end = None\<rparr>"

record slide_row =
  sr_slideshow :: string
  sr_kind :: string
  sr_source :: "string option"
  sr_tag :: "string option"
  sr_position :: int
  sr_duration_ms :: int
  sr_play_to_end :: bool
  sr_transition :: string
  sr_transition_ms :: int
  sr_member_transition :: "string option"
  sr_member_transition_ms :: "int option"
  sr_fit :: string
  sr_effect :: string
  sr_effect_direction :: string
  sr_window :: slide_window
  sr_clip_start_ms :: "int option"
  sr_clip_duration_ms :: "int option"

record file_asset = asset +
  fa_size_bytes :: "int option"
  fa_shuffle :: bool
  fa_anchor_us :: "int option"

record file_variant = asset_variant +
  fv_filename :: string
  fv_size_bytes :: "int option"

record asset_tag =
  at_id :: string
  at_tag :: string
  at_asset :: string
  at_created_at :: int

record slideshow_db =
  ss_slides :: "slide_row list"
  ss_assets :: "file_asset list"
  ss_variants :: "file_variant list"
  ss_tags :: "asset_tag list"
  ss_composed :: "(string \<times> string list) list"

record sibling_plan =
  sb_source :: string
  sb_filename :: string
  sb_type :: string
  sb_checksum :: string
  sb_size :: int
  sb_path :: string
  sb_api :: string

record slide_spec =
  sp_position :: nat
  sp_source :: string
  sp_duration_ms :: int
  sp_play_to_end :: bool
  sp_transition :: string
  sp_transition_ms :: int
  sp_fit :: string
  sp_effect :: string
  sp_effect_direction :: string
  sp_tag_member :: bool
  sp_window :: slide_window
  sp_clip_start_ms :: int
  sp_clip_duration_ms :: "int option"

record slide_plan =
  pl_position :: nat
  pl_source :: string
  pl_filename :: string
  pl_type :: asset_type
  pl_duration_ms :: int
  pl_play_to_end :: bool
  pl_transition :: string
  pl_transition_ms :: int
  pl_fit :: string
  pl_effect :: string
  pl_effect_direction :: string
  pl_window :: slide_window
  pl_clip_start_ms :: int
  pl_clip_duration_ms :: "int option"
  pl_path :: string
  pl_api :: string
  pl_checksum :: string
  pl_size :: "int option"
  pl_siblings :: "sibling_plan list"

record blocker =
  bl_position :: nat
  bl_source :: string
  bl_filename :: string
  bl_status :: string

record slideshow_plan =
  plan_slides :: "slide_plan list"
  plan_blockers :: "blocker list"

definition plan_ready :: "slideshow_plan \<Rightarrow> bool" where
  "plan_ready p \<longleftrightarrow> plan_slides p \<noteq> [] \<and> plan_blockers p = []"

section \<open>Visibility windows\<close>

definition weekday :: "date \<Rightarrow> int" where "weekday d = isoweekday d - 1"

definition slide_window_open :: "slide_window \<Rightarrow> datetime \<Rightarrow> bool" where
  "slide_window_open w now =
     (let d = dt_date now; t = dt_time now; s = active_start w; e = active_end w;
          effective_wd = (case (s, e) of
              (Some s', Some e') \<Rightarrow> if s' > e' \<and> t < e' then weekday (d - 1) else weekday d
            | _ \<Rightarrow> weekday d)
      in if (case valid_from w of None \<Rightarrow> False | Some f \<Rightarrow> d < f) then False
         else if (case valid_to w of None \<Rightarrow> False | Some l \<Rightarrow> d > l) then False
         else if (case active_days w of None \<Rightarrow> False | Some ds \<Rightarrow> ds \<noteq> [] \<and> effective_wd \<notin> set ds) then False
         else (case (s, e) of
             (Some s', Some e') \<Rightarrow> if s' < e' then s' \<le> t \<and> t < e' else t \<ge> s' \<or> t < e'
           | (Some s', None) \<Rightarrow> \<not> t < s'
           | (None, Some e') \<Rightarrow> \<not> t \<ge> e'
           | (None, None) \<Rightarrow> True))"

definition row_window :: "slide_row \<Rightarrow> slide_window" where
  "row_window r = (sr_window r)\<lparr>active_days :=
     (case active_days (sr_window r) of None \<Rightarrow> None | Some ds \<Rightarrow> if ds = [] then None else Some ds)\<rparr>"

record wire_window =
  ww_from :: "string option"
  ww_to :: "string option"
  ww_days :: "int list option"
  ww_start :: "string option"
  ww_end :: "string option"

definition window_wire_fields :: "slide_window \<Rightarrow> wire_window" where
  "window_wire_fields w = \<lparr>ww_from = map_option date_iso (valid_from w), ww_to = map_option date_iso (valid_to w),
     ww_days = (case active_days w of None \<Rightarrow> None | Some ds \<Rightarrow> if ds = [] then None else Some ds),
     ww_start = map_option time_iso (active_start w), ww_end = map_option time_iso (active_end w)\<rparr>"

section \<open>Expansion of the deck\<close>

definition TAG_MEMBER_ASSET_TYPES :: "asset_type list" where
  "TAG_MEMBER_ASSET_TYPES = [IMAGE, VIDEO, SAVED_STREAM, COMPOSED]"

definition tag_member :: "slideshow_db \<Rightarrow> string \<Rightarrow> bool" where
  "tag_member db aid \<longleftrightarrow> list_ex (\<lambda>a. asset_id a = aid \<and> asset_deleted_at a = None
     \<and> asset_type_of a \<in> set TAG_MEMBER_ASSET_TYPES) (ss_assets db)"

definition expand_tag_members :: "slideshow_db \<Rightarrow> string \<Rightarrow> string list" where
  "expand_tag_members db tag = map at_asset
     (sort_key at_created_at (sort_key at_id (filter (\<lambda>x. at_tag x = tag \<and> tag_member db (at_asset x)) (ss_tags db))))"

definition or_value :: "'a option \<Rightarrow> 'a \<Rightarrow> 'a" where
  "or_value v x = (case v of None \<Rightarrow> x | Some y \<Rightarrow> y)"

definition member_spec :: "slide_row \<Rightarrow> slide_window \<Rightarrow> nat \<Rightarrow> nat \<Rightarrow> string \<Rightarrow> slide_spec" where
  "member_spec r win idx pos aid =
     \<lparr>sp_position = pos, sp_source = aid, sp_duration_ms = sr_duration_ms r, sp_play_to_end = False,
      sp_transition = (if idx = 0 then sr_transition r else or_value (sr_member_transition r) (sr_transition r)),
      sp_transition_ms = (if idx = 0 then sr_transition_ms r else or_value (sr_member_transition_ms r) (sr_transition_ms r)),
      sp_fit = sr_fit r, sp_effect = sr_effect r, sp_effect_direction = sr_effect_direction r,
      sp_tag_member = True, sp_window = win, sp_clip_start_ms = 0, sp_clip_duration_ms = None\<rparr>"

definition asset_spec :: "slide_row \<Rightarrow> slide_window \<Rightarrow> nat \<Rightarrow> string \<Rightarrow> slide_spec" where
  "asset_spec r win pos aid =
     \<lparr>sp_position = pos, sp_source = aid, sp_duration_ms = sr_duration_ms r, sp_play_to_end = sr_play_to_end r,
      sp_transition = sr_transition r, sp_transition_ms = sr_transition_ms r,
      sp_fit = sr_fit r, sp_effect = sr_effect r, sp_effect_direction = sr_effect_direction r,
      sp_tag_member = False, sp_window = win, sp_clip_start_ms = or_value (sr_clip_start_ms r) 0,
      sp_clip_duration_ms = sr_clip_duration_ms r\<rparr>"

text \<open>The body of the loop over the rows; the accumulator is the list of specifications, whose
  length is the next position.\<close>

definition expand_row :: "slideshow_db \<Rightarrow> datetime option \<Rightarrow> bool \<Rightarrow> slide_row \<Rightarrow> slide_spec list \<Rightarrow> slide_spec list" where
  "expand_row db local_now emit_windows r specs =
     (if \<not> emit_windows \<and> (case local_now of None \<Rightarrow> False | Some now \<Rightarrow> \<not> slide_window_open (sr_window r) now) then specs
      else let win = (if emit_windows then row_window r else EMPTY_WINDOW)
           in if sr_kind r = ''tag''
              then (case sr_tag r of None \<Rightarrow> specs
                | Some tag \<Rightarrow> specs @ map (\<lambda>(i, aid). member_spec r win i (length specs + i) aid)
                    (enumerate 0 (expand_tag_members db tag)))
              else (case sr_source r of None \<Rightarrow> specs | Some aid \<Rightarrow> specs @ [asset_spec r win (length specs) aid]))"

definition slideshow_rows :: "slideshow_db \<Rightarrow> string \<Rightarrow> slide_row list" where
  "slideshow_rows db show_id = sort_key sr_position (filter (\<lambda>r. sr_slideshow r = show_id) (ss_slides db))"

definition load_slide_specs :: "slideshow_db \<Rightarrow> string \<Rightarrow> datetime option \<Rightarrow> bool \<Rightarrow> slide_spec list" where
  "load_slide_specs db show_id local_now emit_windows =
     fold (expand_row db local_now emit_windows) (slideshow_rows db show_id) []"

text \<open>\<^verbatim>\<open>counts[sid] = counts.get(sid, 0) + n\<close>\<close>

definition count_in :: "(string, nat) dict \<Rightarrow> string \<Rightarrow> nat" where
  "count_in c sid = (case map_of c sid of None \<Rightarrow> 0 | Some k \<Rightarrow> k)"

definition add_count :: "string \<Rightarrow> nat \<Rightarrow> (string, nat) dict \<Rightarrow> (string, nat) dict" where
  "add_count sid n c = dict_set sid (count_in c sid + n) c"

definition member_count :: "slideshow_db \<Rightarrow> string \<Rightarrow> nat" where
  "member_count db tag = length (filter (\<lambda>x. at_tag x = tag \<and> tag_member db (at_asset x)) (ss_tags db))"

definition effective_slide_counts :: "slideshow_db \<Rightarrow> string list \<Rightarrow> (string, nat) dict" where
  "effective_slide_counts db ids =
     (let rows = filter (\<lambda>r. sr_slideshow r \<in> set ids) (ss_slides db);
          assets = filter (\<lambda>r. sr_kind r \<noteq> ''tag'') rows;
          blocks = filter (\<lambda>r. sr_kind r = ''tag'' \<and> sr_tag r \<noteq> None) rows
      in fold (\<lambda>r. add_count (sr_slideshow r) (member_count db (the (sr_tag r)))) blocks
           (fold (\<lambda>r. add_count (sr_slideshow r) 1) assets (fold (\<lambda>sid. dict_set sid 0) ids [])))"

definition slide_expired :: "date \<Rightarrow> slide_row \<Rightarrow> bool" where
  "slide_expired today r \<longleftrightarrow> (case valid_to (sr_window r) of None \<Rightarrow> False | Some l \<Rightarrow> l < today)"

definition expired_slide_counts :: "slideshow_db \<Rightarrow> string list \<Rightarrow> date \<Rightarrow> (string, nat) dict" where
  "expired_slide_counts db ids today =
     (let expired = filter (\<lambda>r. sr_slideshow r \<in> set ids \<and> slide_expired today r) (ss_slides db)
      in fold (\<lambda>(sid, rs). dict_set sid (length rs)) (group_by sr_slideshow expired) (fold (\<lambda>sid. dict_set sid 0) ids []))"

section \<open>Playback slots\<close>

text \<open>\<^verbatim>\<open>int(round(seconds * 1000))\<close>, ties to even.\<close>

definition round_ms :: "int \<Rightarrow> int" where
  "round_ms us = (let q = us div 1000; r = us mod 1000
     in if r < 500 then q else if r > 500 then q + 1 else if even q then q else q + 1)"

definition is_video :: "'a asset_scheme \<Rightarrow> bool" where
  "is_video a \<longleftrightarrow> asset_type_of a \<in> {VIDEO, SAVED_STREAM}"

definition real_ms :: "'a asset_scheme \<Rightarrow> int option" where
  "real_ms a = (if is_video a then map_option round_ms (duration_us a) else None)"

definition effective_slide_playback :: "slide_spec \<Rightarrow> 'a asset_scheme \<Rightarrow> bool \<Rightarrow> bool \<Rightarrow> int \<times> bool \<times> int" where
  "effective_slide_playback spec src tag_member_play_to_end emit_clip =
     (let start = sp_clip_start_ms spec;
          bounded = (case sp_clip_duration_ms spec of None \<Rightarrow> None | Some c \<Rightarrow> if is_video src \<and> c > 0 then Some c else None);
          wants_play_to_end = (sp_play_to_end spec \<or> (tag_member_play_to_end \<and> is_video src))
      in case bounded of
           Some clip_dur \<Rightarrow> (clip_dur, False, if emit_clip then start else 0)
         | None \<Rightarrow>
             if wants_play_to_end then
               (case real_ms src of
                  None \<Rightarrow> (sp_duration_ms spec, True, if emit_clip then start else 0)
                | Some real \<Rightarrow> if real - start \<le> 0 then (sp_duration_ms spec, True, 0)
                    else (real - start, True, if emit_clip then start else 0))
             else (sp_duration_ms spec, False, 0))"

section \<open>The planner\<close>

definition BLOCKER_SOURCE_DELETED :: string where "BLOCKER_SOURCE_DELETED = ''source_deleted''"
definition BLOCKER_VARIANT_PROCESSING :: string where "BLOCKER_VARIANT_PROCESSING = ''variant_processing''"
definition BLOCKER_VARIANT_FAILED :: string where "BLOCKER_VARIANT_FAILED = ''variant_failed''"
definition BLOCKER_VARIANT_CANCELLED :: string where "BLOCKER_VARIANT_CANCELLED = ''variant_cancelled''"
definition BLOCKER_SOURCE_UNPUBLISHED :: string where "BLOCKER_SOURCE_UNPUBLISHED = ''source_unpublished''"

text \<open>The live variants of a source for a profile, newest first, ties to the greater identifier.\<close>

definition live_variants :: "slideshow_db \<Rightarrow> string \<Rightarrow> string \<Rightarrow> file_variant list" where
  "live_variants db sid profile =
     rev (sort_key av_created_at (sort_key av_id
       (filter (\<lambda>v. source_asset_id (asset_variant.truncate v) = sid \<and> profile_id v = Some profile \<and> av_deleted_at v = None) (ss_variants db))))"

definition find_asset :: "slideshow_db \<Rightarrow> string \<Rightarrow> file_asset option" where
  "find_asset db aid = List.find (\<lambda>a. asset_id a = aid) (ss_assets db)"

definition api_path :: "string \<Rightarrow> string" where "api_path aid = ''/api/assets/'' @ aid @ ''/download''"

definition variant_api_path :: "string \<Rightarrow> string" where "variant_api_path vid = ''/api/assets/variants/'' @ vid @ ''/download''"

definition is_file_asset :: "'a asset_scheme \<Rightarrow> bool" where
  "is_file_asset a \<longleftrightarrow> asset_type_of a \<in> {VIDEO, IMAGE, SAVED_STREAM}"

definition resolve_composed_sibling :: "slideshow_db \<Rightarrow> string option \<Rightarrow> file_asset \<Rightarrow> sibling_plan option" where
  "resolve_composed_sibling db profile ref =
     (let source = \<lparr>sb_source = asset_id ref, sb_filename = filename ref, sb_type = asset_type_value (asset_type_of ref),
            sb_checksum = asset_checksum ref, sb_size = or_value (fa_size_bytes ref) 0, sb_path = filename ref,
            sb_api = api_path (asset_id ref)\<rparr>
      in if is_file_asset ref \<and> profile \<noteq> None
         then (let vs = live_variants db (asset_id ref) (the profile)
               in case List.find (\<lambda>v. av_status v = VREADY) vs of
                    Some v \<Rightarrow> Some \<lparr>sb_source = asset_id ref, sb_filename = filename ref, sb_type = asset_type_value (asset_type_of ref),
                        sb_checksum = av_checksum v, sb_size = or_value (fv_size_bytes v) 0, sb_path = ''variants/'' @ fv_filename v,
                        sb_api = variant_api_path (av_id v)\<rparr>
                  | None \<Rightarrow> if vs \<noteq> [] then None else Some source)
         else Some source)"

text \<open>The siblings of a composed member: nothing where one is in flight.\<close>

fun collect_siblings :: "slideshow_db \<Rightarrow> string option \<Rightarrow> string list \<Rightarrow> sibling_plan list option" where
  "collect_siblings db profile [] = Some []"
| "collect_siblings db profile (aid # rest) =
     (case List.find (\<lambda>a. asset_id a = aid \<and> asset_deleted_at a = None) (ss_assets db) of
        None \<Rightarrow> collect_siblings db profile rest
      | Some ref \<Rightarrow>
          (case resolve_composed_sibling db profile ref of
             None \<Rightarrow> None
           | Some s \<Rightarrow> map_option (Cons s) (collect_siblings db profile rest)))"

definition plan_composed_siblings :: "slideshow_db \<Rightarrow> string option \<Rightarrow> file_asset \<Rightarrow> sibling_plan list option" where
  "plan_composed_siblings db profile a = collect_siblings db profile (or_value (map_of (ss_composed db) (asset_id a)) [])"

text \<open>What one specification resolves to: a blocker status, or the file and its siblings.\<close>

definition source_file :: "file_asset \<Rightarrow> string \<times> string \<times> string \<times> int option" where
  "source_file a = (filename a, api_path (asset_id a), asset_checksum a, fa_size_bytes a)"

definition variant_file :: "file_variant \<Rightarrow> string \<times> string \<times> string \<times> int option" where
  "variant_file v = (''variants/'' @ fv_filename v, variant_api_path (av_id v), av_checksum v, fv_size_bytes v)"

definition blocked_status :: "variant_status \<Rightarrow> string" where
  "blocked_status s = (if s \<in> {VPENDING, VPROCESSING} then BLOCKER_VARIANT_PROCESSING
     else if s = VFAILED then BLOCKER_VARIANT_FAILED else BLOCKER_VARIANT_CANCELLED)"

definition resolve_source ::
  "slideshow_db \<Rightarrow> string option \<Rightarrow> file_asset \<Rightarrow> string + ((string \<times> string \<times> string \<times> int option) \<times> sibling_plan list)" where
  "resolve_source db profile src =
     (if asset_type_of src = COMPOSED
      then if composed_unpublished_reason (Some (asset.truncate src)) \<noteq> None then Inl BLOCKER_SOURCE_UNPUBLISHED
           else (case plan_composed_siblings db profile src of
                   None \<Rightarrow> Inl BLOCKER_VARIANT_PROCESSING
                 | Some sib \<Rightarrow> Inr (source_file src, sib))
      else if profile \<noteq> None \<and> is_file_asset src
      then (let vs = live_variants db (asset_id src) (the profile)
            in case List.find (\<lambda>v. av_status v = VREADY) vs of
                 Some v \<Rightarrow> Inr (variant_file v, [])
               | None \<Rightarrow> (case vs of [] \<Rightarrow> Inr (source_file src, []) | latest # rest \<Rightarrow> Inl (blocked_status (av_status latest))))
      else Inr (source_file src, []))"

definition plan_spec :: "slideshow_db \<Rightarrow> string option \<Rightarrow> bool \<Rightarrow> slide_spec \<Rightarrow> blocker + slide_plan" where
  "plan_spec db profile emit_clip spec =
     (let blocked = (\<lambda>name status. Inl \<lparr>bl_position = sp_position spec, bl_source = sp_source spec, bl_filename = name, bl_status = status\<rparr>)
      in case find_asset db (sp_source spec) of
           None \<Rightarrow> blocked '''' BLOCKER_SOURCE_DELETED
         | Some src \<Rightarrow>
             if asset_deleted_at src \<noteq> None then blocked (filename src) BLOCKER_SOURCE_DELETED
             else case effective_slide_playback spec src (sp_tag_member spec) emit_clip of (dur, to_end, clip_start) \<Rightarrow>
               (case resolve_source db profile src of
                  Inl status \<Rightarrow> blocked (filename src) status
                | Inr ((path, api, digest, sz), siblings) \<Rightarrow>
                    Inr \<lparr>pl_position = sp_position spec, pl_source = sp_source spec, pl_filename = filename src,
                      pl_type = asset_type_of src, pl_duration_ms = dur, pl_play_to_end = to_end,
                      pl_transition = sp_transition spec, pl_transition_ms = sp_transition_ms spec, pl_fit = sp_fit spec,
                      pl_effect = sp_effect spec, pl_effect_direction = sp_effect_direction spec, pl_window = sp_window spec,
                      pl_clip_start_ms = clip_start, pl_clip_duration_ms = sp_clip_duration_ms spec, pl_path = path, pl_api = api,
                      pl_checksum = digest, pl_size = sz, pl_siblings = siblings\<rparr>))"

definition plan_step :: "slideshow_db \<Rightarrow> string option \<Rightarrow> bool \<Rightarrow> slide_spec \<Rightarrow> slideshow_plan \<Rightarrow> slideshow_plan" where
  "plan_step db profile emit_clip spec plan =
     (case plan_spec db profile emit_clip spec of
        Inl b \<Rightarrow> plan\<lparr>plan_blockers := plan_blockers plan @ [b]\<rparr>
      | Inr s \<Rightarrow> plan\<lparr>plan_slides := plan_slides plan @ [s]\<rparr>)"

definition plan_slideshow ::
  "slideshow_db \<Rightarrow> string \<Rightarrow> string option \<Rightarrow> datetime option \<Rightarrow> bool \<Rightarrow> bool \<Rightarrow> slideshow_plan" where
  "plan_slideshow db show_id profile local_now emit_windows emit_clip =
     fold (plan_step db profile emit_clip) (load_slide_specs db show_id local_now emit_windows)
       \<lparr>plan_slides = [], plan_blockers = []\<rparr>"

section \<open>Checksum and message\<close>

definition flag :: "bool \<Rightarrow> string" where "flag b = (if b then ''1'' else ''0'')"

definition bar :: "string list \<Rightarrow> string" where "bar fs = concat (map (\<lambda>f. ''|'' @ f) fs)"

definition or_text :: "string option \<Rightarrow> string" where "or_text v = (case v of None \<Rightarrow> '''' | Some s \<Rightarrow> s)"

text \<open>The text folded into the hash for one slide.\<close>

definition slide_fields :: "bool \<Rightarrow> slide_plan \<Rightarrow> string list" where
  "slide_fields emit_windows s =
     [int_text (int (pl_position s)), pl_source s, pl_checksum s, int_text (pl_duration_ms s), flag (pl_play_to_end s),
      pl_transition s, int_text (pl_transition_ms s), pl_fit s, pl_effect s, pl_effect_direction s]
     @ (if pl_clip_start_ms s \<noteq> 0 then [''clip='' @ int_text (pl_clip_start_ms s)] else [])
     @ concat (map (\<lambda>x. [''sib'', sb_source x, sb_checksum x]) (pl_siblings s))
     @ (if emit_windows
        then let w = window_wire_fields (pl_window s)
             in [''w'', or_text (ww_from w), or_text (ww_to w),
                 join_text '','' (map int_text (case ww_days w of None \<Rightarrow> [] | Some ds \<Rightarrow> ds)), or_text (ww_start w), or_text (ww_end w)]
        else [])"

definition manifest_text :: "string \<Rightarrow> slide_plan list \<Rightarrow> bool \<Rightarrow> bool \<Rightarrow> string" where
  "manifest_text asset_sum slides shuffle emit_windows =
     asset_sum @ bar [''shuffle='' @ flag shuffle] @ concat (map (\<lambda>s. bar (slide_fields emit_windows s)) slides)"

definition compute_resolved_manifest_checksum ::
  "(string \<Rightarrow> string) \<Rightarrow> string \<Rightarrow> slide_plan list \<Rightarrow> bool \<Rightarrow> bool \<Rightarrow> string" where
  "compute_resolved_manifest_checksum sha256 asset_sum slides shuffle emit_windows =
     sha256 (manifest_text asset_sum slides shuffle emit_windows)"

definition resolved_slideshow_checksum ::
  "(string \<Rightarrow> string) \<Rightarrow> slideshow_db \<Rightarrow> file_asset \<Rightarrow> string option \<Rightarrow> datetime option \<Rightarrow> bool \<Rightarrow> bool \<Rightarrow> string option" where
  "resolved_slideshow_checksum sha256 db a profile local_now emit_windows emit_clip =
     (let plan = plan_slideshow db (asset_id a) profile local_now emit_windows emit_clip
      in if \<not> plan_ready plan then None
         else Some (compute_resolved_manifest_checksum sha256 (asset_checksum a) (plan_slides plan) (fa_shuffle a) emit_windows))"

text \<open>\<^verbatim>\<open>device_local_now\<close>: \<open>zone\<close> is the time-zone database, nothing for an unknown name.\<close>

definition device_local_now :: "(string \<Rightarrow> (int \<Rightarrow> datetime) option) \<Rightarrow> string option \<Rightarrow> string option \<Rightarrow> int \<Rightarrow> datetime" where
  "device_local_now zone device_tz setting_tz utc_now =
     (let name = (if truthy device_tz then the device_tz else if truthy setting_tz then the setting_tz else ''UTC'')
      in (case zone name of None \<Rightarrow> the (zone ''UTC'') | Some f \<Rightarrow> f) utc_now)"

record wire_sibling =
  ws_name :: string
  ws_type :: string
  ws_url :: string
  ws_checksum :: string
  ws_size :: int

record slide_descriptor =
  sd_name :: string
  sd_type :: string
  sd_url :: string
  sd_checksum :: string
  sd_size :: int
  sd_duration_ms :: int
  sd_play_to_end :: bool
  sd_clip_start_ms :: int
  sd_transition :: string
  sd_transition_ms :: int
  sd_fit :: string
  sd_effect :: string
  sd_effect_direction :: string
  sd_siblings :: "wire_sibling list option"
  sd_window :: wire_window

record fetch_message =
  fm_name :: string
  fm_checksum :: string
  fm_slides :: "slide_descriptor list"
  fm_cycle_ms :: int
  fm_started_at :: "string option"
  fm_shuffle :: bool
  fm_shuffle_seed :: "int option"

definition wire_type :: "asset_type \<Rightarrow> string" where
  "wire_type t = (if t = COMPOSED then ''composed'' else if t \<in> {VIDEO, SAVED_STREAM} then ''video'' else ''image'')"

definition to_descriptor :: "(string \<Rightarrow> string \<Rightarrow> string) \<Rightarrow> string \<Rightarrow> bool \<Rightarrow> slide_plan \<Rightarrow> slide_descriptor" where
  "to_descriptor link base_url emit_windows s =
     \<lparr>sd_name = pl_filename s, sd_type = wire_type (pl_type s), sd_url = link (pl_path s) (base_url @ pl_api s),
      sd_checksum = pl_checksum s, sd_size = or_value (pl_size s) 0, sd_duration_ms = pl_duration_ms s,
      sd_play_to_end = pl_play_to_end s, sd_clip_start_ms = pl_clip_start_ms s, sd_transition = pl_transition s,
      sd_transition_ms = pl_transition_ms s, sd_fit = pl_fit s, sd_effect = pl_effect s,
      sd_effect_direction = pl_effect_direction s,
      sd_siblings = (if pl_siblings s = [] then None else Some (map (\<lambda>x. \<lparr>ws_name = sb_filename x, ws_type = sb_type x,
         ws_url = link (sb_path x) (base_url @ sb_api x), ws_checksum = sb_checksum x, ws_size = sb_size x\<rparr>) (pl_siblings s))),
      sd_window = window_wire_fields (if emit_windows then pl_window s else EMPTY_WINDOW)\<rparr>"

text \<open>\<^verbatim>\<open>_shuffle_seed_for_asset\<close>: the first four bytes of the digest, big-endian, without the sign bit.\<close>

definition shuffle_seed_for_asset :: "8 word list \<Rightarrow> int" where
  "shuffle_seed_for_asset digest = fold (\<lambda>b acc. acc * 256 + uint b) (take 4 digest) 0 AND 0x7FFFFFFF"

definition cycle_anchor_ms :: "int \<Rightarrow> int \<Rightarrow> int option" where
  "cycle_anchor_ms now_ms cycle = (if cycle \<le> 0 then None else Some (now_ms div cycle * cycle))"

definition compute_cycle_anchor :: "int \<Rightarrow> int \<Rightarrow> string option" where
  "compute_cycle_anchor now_ms cycle = map_option iso_ms (cycle_anchor_ms now_ms cycle)"

definition format_anchor :: "int \<Rightarrow> string" where "format_anchor us = iso_ms (us div 1000)"

definition build_fetch_for_slideshow ::
  "(string \<Rightarrow> string) \<Rightarrow> (string \<Rightarrow> 8 word list) \<Rightarrow> (string \<Rightarrow> string \<Rightarrow> string) \<Rightarrow> string \<Rightarrow> int \<Rightarrow> slideshow_db \<Rightarrow> file_asset
     \<Rightarrow> string option \<Rightarrow> datetime option \<Rightarrow> bool \<Rightarrow> bool \<Rightarrow> fetch_message option" where
  "build_fetch_for_slideshow sha256 id_digest link base_url now_ms db a profile local_now emit_windows emit_clip =
     (let plan = plan_slideshow db (asset_id a) profile local_now emit_windows emit_clip;
          cycle = sum_list (map pl_duration_ms (plan_slides plan))
      in if \<not> plan_ready plan then None
         else Some \<lparr>fm_name = filename a,
           fm_checksum = compute_resolved_manifest_checksum sha256 (asset_checksum a) (plan_slides plan) (fa_shuffle a) emit_windows,
           fm_slides = map (to_descriptor link base_url emit_windows) (plan_slides plan), fm_cycle_ms = cycle,
           fm_started_at = (case fa_anchor_us a of Some us \<Rightarrow> Some (format_anchor us) | None \<Rightarrow> compute_cycle_anchor now_ms cycle),
           fm_shuffle = fa_shuffle a,
           fm_shuffle_seed = (if fa_shuffle a then Some (shuffle_seed_for_asset (id_digest (asset_id a))) else None)\<rparr>)"

definition slideshow_readiness :: "slideshow_db \<Rightarrow> string \<Rightarrow> string option \<Rightarrow> bool \<times> blocker list" where
  "slideshow_readiness db show_id profile =
     (let plan = plan_slideshow db show_id profile None False False in (plan_ready plan, plan_blockers plan))"

section \<open>The visibility window as a set of instants\<close>

text \<open>The specification: on each day \<open>a\<close> whose weekday is allowed the window opens once; a window that
  ends before it starts runs into the next morning and belongs to the day it opened.\<close>

definition window_span :: "slide_window \<Rightarrow> date \<Rightarrow> int \<times> int" where
  "window_span w a =
     (let midnight = a * DAY_US
      in case (active_start w, active_end w) of
           (Some s, Some e) \<Rightarrow>
             if time_us s < time_us e then (midnight + time_us s, midnight + time_us e)
             else if time_us s = time_us e then (midnight, midnight + DAY_US)
             else (midnight + time_us s, midnight + DAY_US + time_us e)
         | (Some s, None) \<Rightarrow> (midnight + time_us s, midnight + DAY_US)
         | (None, Some e) \<Rightarrow> (midnight, midnight + time_us e)
         | (None, None) \<Rightarrow> (midnight, midnight + DAY_US))"

definition window_day :: "slide_window \<Rightarrow> date \<Rightarrow> bool" where
  "window_day w a \<longleftrightarrow> (case active_days w of None \<Rightarrow> True | Some ds \<Rightarrow> ds = [] \<or> weekday a \<in> set ds)"

definition window_dates :: "slide_window \<Rightarrow> date \<Rightarrow> bool" where
  "window_dates w d \<longleftrightarrow> pred_option (\<lambda>f. f \<le> d) (valid_from w) \<and> pred_option (\<lambda>l. d \<le> l) (valid_to w)"

definition window_ok :: "slide_window \<Rightarrow> bool" where
  "window_ok w \<longleftrightarrow> pred_option valid_time (active_start w) \<and> pred_option valid_time (active_end w)"

lemma same_day_span:
  assumes "0 \<le> x" "x < DAY_US" "0 \<le> lo" "hi \<le> DAY_US"
  shows "a * DAY_US + lo \<le> d * DAY_US + x \<and> d * DAY_US + x < a * DAY_US + hi \<longleftrightarrow> a = d \<and> lo \<le> x \<and> x < hi"
proof
  assume h: "a * DAY_US + lo \<le> d * DAY_US + x \<and> d * DAY_US + x < a * DAY_US + hi"
  then have "a * DAY_US < (d + 1) * DAY_US" "d * DAY_US < (a + 1) * DAY_US" using assms by (auto simp: algebra_simps)
  then have "a = d" by (simp add: DAY_US_def)
  then show "a = d \<and> lo \<le> x \<and> x < hi" using h by simp
qed simp

lemma wrapped_span:
  assumes "0 \<le> x" "x < DAY_US" "0 \<le> hi" "hi < lo" "lo < DAY_US"
  shows "a * DAY_US + lo \<le> d * DAY_US + x \<and> d * DAY_US + x < a * DAY_US + DAY_US + hi
    \<longleftrightarrow> a = d \<and> lo \<le> x \<or> a = d - 1 \<and> x < hi"
proof
  assume h: "a * DAY_US + lo \<le> d * DAY_US + x \<and> d * DAY_US + x < a * DAY_US + DAY_US + hi"
  then have "a * DAY_US < (d + 1) * DAY_US" "d * DAY_US < (a + 2) * DAY_US" using assms by (auto simp: algebra_simps)
  then have "a = d \<or> a = d - 1" by (simp add: DAY_US_def) arith
  then show "a = d \<and> lo \<le> x \<or> a = d - 1 \<and> x < hi" using h by (auto simp: algebra_simps)
qed (use assms in \<open>auto simp: algebra_simps\<close>)

lemma window_unfold:
  assumes "window_ok w" "valid_time (dt_time now)"
  shows "slide_window_open w now \<longleftrightarrow> window_dates w (dt_date now) \<and>
    (\<exists>a. window_day w a \<and> fst (window_span w a) \<le> dt_us now \<and> dt_us now < snd (window_span w a))"
proof -
  let ?x = "time_us (dt_time now)" and ?d = "dt_date now"
  have x: "0 \<le> ?x" "?x < DAY_US" using time_us_range [OF assms(2)] by simp_all
  have dates: "slide_window_open w now \<longleftrightarrow> window_dates w ?d \<and> slide_window_open (w\<lparr>valid_from := None, valid_to := None\<rparr>) now"
    by (auto simp: slide_window_open_def window_dates_def Let_def split: option.splits)
  have "slide_window_open (w\<lparr>valid_from := None, valid_to := None\<rparr>) now \<longleftrightarrow>
    (\<exists>a. window_day w a \<and> fst (window_span w a) \<le> dt_us now \<and> dt_us now < snd (window_span w a))"
  proof (cases "active_start w")
    case None
    show ?thesis
    proof (cases "active_end w")
      case None': None
      show ?thesis using None None' same_day_span [OF x, of 0 DAY_US _ ?d] x
        by (auto simp: slide_window_open_def window_span_def window_day_def Let_def dt_us_def split: option.splits)
    next
      case (Some e)
      have e: "valid_time e" using assms(1) Some by (simp add: window_ok_def)
      show ?thesis using None Some same_day_span [OF x, of 0 "time_us e" _ ?d] x time_us_range [OF e]
          time_less_iff [OF assms(2) e]
        by (auto simp: slide_window_open_def window_span_def window_day_def Let_def dt_us_def not_le split: option.splits)
    qed
  next
    case (Some s)
    have s: "valid_time s" using assms(1) Some by (simp add: window_ok_def)
    note sr = time_us_range [OF s]
    show ?thesis
    proof (cases "active_end w")
      case None
      show ?thesis using None Some same_day_span [OF x, of "time_us s" DAY_US _ ?d] x sr time_less_iff [OF assms(2) s]
        by (auto simp: slide_window_open_def window_span_def window_day_def Let_def dt_us_def not_less split: option.splits)
    next
      case e': (Some e)
      have e: "valid_time e" using assms(1) e' by (simp add: window_ok_def)
      note er = time_us_range [OF e]
      note cmp = time_less_iff [OF s e] time_less_iff [OF e s] time_less_iff [OF assms(2) e] time_less_iff [OF assms(2) s]
        time_le_iff [OF s assms(2)]
      consider "time_us s < time_us e" | "time_us s = time_us e" | "time_us e < time_us s" by linarith
      then show ?thesis
      proof cases
        case 1
        have lhs: "slide_window_open (w\<lparr>valid_from := None, valid_to := None\<rparr>) now \<longleftrightarrow>
            window_day w ?d \<and> time_us s \<le> ?x \<and> ?x < time_us e"
          using 1 by (auto simp: slide_window_open_def Some e' window_day_def Let_def cmp split: option.split)
        have span: "fst (window_span w a) \<le> dt_us now \<and> dt_us now < snd (window_span w a) \<longleftrightarrow>
            a = ?d \<and> time_us s \<le> ?x \<and> ?x < time_us e" for a
          using 1 same_day_span [OF x, of "time_us s" "time_us e" a ?d] sr er
          by (simp add: window_span_def Let_def Some e' dt_us_def)
        show ?thesis unfolding lhs span by auto
      next
        case 2
        have lhs: "slide_window_open (w\<lparr>valid_from := None, valid_to := None\<rparr>) now \<longleftrightarrow> window_day w ?d"
          using 2 by (auto simp: slide_window_open_def Some e' window_day_def Let_def cmp split: option.split)
        have span: "fst (window_span w a) \<le> dt_us now \<and> dt_us now < snd (window_span w a) \<longleftrightarrow> a = ?d" for a
          using 2 same_day_span [OF x, of 0 DAY_US a ?d] x by (simp add: window_span_def Let_def Some e' dt_us_def)
        show ?thesis unfolding lhs span by simp
      next
        case 3
        have lhs: "slide_window_open (w\<lparr>valid_from := None, valid_to := None\<rparr>) now \<longleftrightarrow>
            window_day w (if ?x < time_us e then ?d - 1 else ?d) \<and> (time_us s \<le> ?x \<or> ?x < time_us e)"
          using 3 by (simp add: slide_window_open_def Some e' window_day_def Let_def cmp split: option.split)
        have span: "fst (window_span w a) \<le> dt_us now \<and> dt_us now < snd (window_span w a) \<longleftrightarrow>
            a = ?d \<and> time_us s \<le> ?x \<or> a = ?d - 1 \<and> ?x < time_us e" for a
          using 3 wrapped_span [OF x, of "time_us e" "time_us s" a ?d] sr er
          by (simp add: window_span_def Let_def Some e' dt_us_def)
        show ?thesis unfolding lhs span using 3 by auto
      qed
    qed
  qed
  then show ?thesis using dates by simp
qed

section \<open>The deck row by row\<close>

text \<open>What is left of a specification without its position and window.\<close>

definition core :: "slide_spec \<Rightarrow> slide_spec" where
  "core s = s\<lparr>sp_position := 0, sp_window := EMPTY_WINDOW\<rparr>"

definition row_specs :: "slideshow_db \<Rightarrow> slide_window \<Rightarrow> nat \<Rightarrow> slide_row \<Rightarrow> slide_spec list" where
  "row_specs db win pos r =
     (if sr_kind r = ''tag''
      then (case sr_tag r of None \<Rightarrow> []
        | Some tag \<Rightarrow> map (\<lambda>(i, aid). member_spec r win i (pos + i) aid) (enumerate 0 (expand_tag_members db tag)))
      else (case sr_source r of None \<Rightarrow> [] | Some aid \<Rightarrow> [asset_spec r win pos aid]))"

lemma expand_row_eq:
  "expand_row db local_now emit r specs =
     (if \<not> emit \<and> (case local_now of None \<Rightarrow> False | Some now \<Rightarrow> \<not> slide_window_open (sr_window r) now) then specs
      else specs @ row_specs db (if emit then row_window r else EMPTY_WINDOW) (length specs) r)"
  by (simp add: expand_row_def row_specs_def Let_def split: option.split)

lemma row_specs_core: "map core (row_specs db win pos r) = map core (row_specs db EMPTY_WINDOW 0 r)"
  by (auto simp: row_specs_def core_def member_spec_def asset_spec_def split: option.split)

lemma spec_windows [simp]: "sp_window (member_spec r win i pos aid) = win" "sp_window (asset_spec r win pos aid) = win"
  by (simp_all add: member_spec_def asset_spec_def)

lemma row_specs_window: "s \<in> set (row_specs db win pos r) \<Longrightarrow> sp_window s = win"
proof -
  have "sp_window ` set (row_specs db win pos r) \<subseteq> {win}"
    by (cases "sr_tag r"; cases "sr_source r"; cases "sr_kind r = ''tag''"; simp add: row_specs_def image_image case_prod_beta image_subset_iff)
  then show "s \<in> set (row_specs db win pos r) \<Longrightarrow> sp_window s = win" by blast
qed

lemma row_specs_length: "length (row_specs db win pos r) = length (row_specs db EMPTY_WINDOW 0 r)"
  using arg_cong [OF row_specs_core, of length db win pos r] by simp

lemma positions_consecutive: "map sp_position (load_slide_specs db i local_now emit) = [0..<length (load_slide_specs db i local_now emit)]"
proof -
  have row: "map sp_position (row_specs db win pos r) = [pos..<pos + length (row_specs db win pos r)]" for win pos r
  proof -
    have "map sp_position (map (\<lambda>(i, aid). member_spec r win i (pos + i) aid) (enumerate 0 xs)) = [pos..<pos + length xs]" for xs
    proof -
      have "map sp_position (map (\<lambda>(i, aid). member_spec r win i (pos + i) aid) (enumerate 0 xs)) = map (\<lambda>i. i + pos) (map fst (enumerate 0 xs))"
        unfolding map_map by (rule map_cong) (auto simp: member_spec_def)
      then show ?thesis by (simp add: map_add_upt add.commute)
    qed
    then show ?thesis by (auto simp: row_specs_def asset_spec_def split: option.split)
  qed
  have "map sp_position acc = [0..<length acc] \<Longrightarrow>
      map sp_position (fold (expand_row db local_now emit) rows acc) = [0..<length (fold (expand_row db local_now emit) rows acc)]" for rows acc
  proof (induction rows arbitrary: acc)
    case (Cons r rows)
    have "map sp_position (expand_row db local_now emit r acc) = [0..<length (expand_row db local_now emit r acc)]"
      using Cons.prems upt_add_eq_append [of 0 "length acc" "length (row_specs db (if emit then row_window r else EMPTY_WINDOW) (length acc) r)"]
      by (simp add: expand_row_eq row)
    then show ?case using Cons.IH by simp
  qed simp
  from this [of "[]"] show ?thesis by (simp add: load_slide_specs_def)
qed

lemma specs_length:
  "length (fold (expand_row db None False) rows acc) = length acc + sum_list (map (\<lambda>r. length (row_specs db EMPTY_WINDOW 0 r)) rows)"
proof (induction rows arbitrary: acc)
  case (Cons r rows)
  then show ?case using row_specs_length [of db EMPTY_WINDOW "length acc" r] by (simp add: expand_row_eq)
qed simp

lemma count_in_add [simp]: "count_in (add_count sid n c) k = count_in c k + (if k = sid then n else 0)"
  by (simp add: add_count_def count_in_def)

lemma count_in_fold:
  "count_in (fold (\<lambda>r. add_count (key r) (n r)) rows c) k = count_in c k + sum_list (map n (filter (\<lambda>r. key r = k) rows))"
  by (induction rows arbitrary: c) auto

lemma keys_fold_add: "fst ` set (fold (\<lambda>r. add_count (key r) (n r)) rows c) = fst ` set c \<union> key ` set rows"
  by (induction rows arbitrary: c) (auto simp: add_count_def)

lemma zero_fold: "map_of (fold (\<lambda>sid. dict_set sid (0::nat)) ids c) k = (if k \<in> set ids then Some 0 else map_of c k)"
  by (induction ids arbitrary: c) auto

definition rows_ok :: "slideshow_db \<Rightarrow> bool" where
  "rows_ok db \<longleftrightarrow> list_all (\<lambda>r. sr_kind r \<noteq> ''tag'' \<longrightarrow> sr_source r \<noteq> None) (ss_slides db)"

lemma sum_list_sort_key: "sum_list (map f (sort_key k xs)) = sum_list (map f xs)" for f :: "'a \<Rightarrow> nat"
  by (metis mset_map mset_sort sum_mset_sum_list)

lemma row_count:
  assumes "rows_ok db" "r \<in> set (ss_slides db)"
  shows "length (row_specs db EMPTY_WINDOW 0 r) =
    (if sr_kind r \<noteq> ''tag'' then 1 else 0) + (if sr_kind r = ''tag'' \<and> sr_tag r \<noteq> None then member_count db (the (sr_tag r)) else 0)"
  using assms by (auto simp: rows_ok_def list_all_iff row_specs_def member_count_def expand_tag_members_def split: option.splits)

lemma sum_list_split_filter:
  "sum_list (map (\<lambda>r. (if P r then f r else 0) + (if Q r then g r else 0)) rows)
     = sum_list (map f (filter P rows)) + sum_list (map g (filter Q rows))" for f g :: "'a \<Rightarrow> nat"
  by (induction rows) auto

subsection \<open>Pruning\<close>

definition visible :: "slide_window \<Rightarrow> datetime \<Rightarrow> bool" where
  "visible w now \<longleftrightarrow> window_dates w (dt_date now) \<and>
     (\<exists>a. window_day w a \<and> fst (window_span w a) \<le> dt_us now \<and> dt_us now < snd (window_span w a))"

lemma visible_open: "window_ok w \<Longrightarrow> valid_time (dt_time now) \<Longrightarrow> visible w now = slide_window_open w now"
  by (simp add: visible_def window_unfold)

text \<open>What is planned for a specification does not look at the rows of the deck.\<close>

lemma row_specs_slides: "row_specs (db\<lparr>ss_slides := rs\<rparr>) = row_specs db"
proof -
  have "tag_member (db\<lparr>ss_slides := rs\<rparr>) = tag_member db" by (simp add: tag_member_def fun_eq_iff)
  then have "expand_tag_members (db\<lparr>ss_slides := rs\<rparr>) = expand_tag_members db" by (simp add: expand_tag_members_def fun_eq_iff)
  then show ?thesis unfolding row_specs_def [abs_def] by (simp only:)
qed

lemma lookups_slides [simp]:
  "live_variants (db\<lparr>ss_slides := rs\<rparr>) = live_variants db" "find_asset (db\<lparr>ss_slides := rs\<rparr>) = find_asset db"
  by (simp_all add: live_variants_def find_asset_def fun_eq_iff)

lemma siblings_slides: "collect_siblings (db\<lparr>ss_slides := rs\<rparr>) = collect_siblings db"
proof -
  have "resolve_composed_sibling (db\<lparr>ss_slides := rs\<rparr>) = resolve_composed_sibling db"
    unfolding resolve_composed_sibling_def [abs_def] lookups_slides by (rule refl)
  then have "collect_siblings (db\<lparr>ss_slides := rs\<rparr>) profile ids = collect_siblings db profile ids" for profile ids
    by (induction ids) (auto split: option.splits)
  then show ?thesis by (simp add: fun_eq_iff)
qed

lemma plan_spec_slides: "plan_spec (db\<lparr>ss_slides := rs\<rparr>) profile ec = plan_spec db profile ec"
proof -
  have "plan_composed_siblings (db\<lparr>ss_slides := rs\<rparr>) = plan_composed_siblings db"
    by (simp add: plan_composed_siblings_def siblings_slides fun_eq_iff)
  then have "resolve_source (db\<lparr>ss_slides := rs\<rparr>) = resolve_source db"
    unfolding resolve_source_def [abs_def] lookups_slides by (simp only:)
  then show ?thesis unfolding plan_spec_def [abs_def] lookups_slides by (simp only:)
qed

lemma row_window_wire: "window_wire_fields (row_window r) = window_wire_fields (sr_window r)"
  by (simp add: window_wire_fields_def row_window_def split: option.splits)

lemma row_specs_wire:
  "map (\<lambda>s. (core s, window_wire_fields (sp_window s))) (row_specs db (row_window r) pos r)
     = map (\<lambda>s. (core s, window_wire_fields (sr_window r))) (row_specs db EMPTY_WINDOW 0 r)"
proof -
  have "map (\<lambda>s. (core s, window_wire_fields (sp_window s))) (row_specs db (row_window r) pos r)
      = map (\<lambda>c. (c, window_wire_fields (sr_window r))) (map core (row_specs db (row_window r) pos r))"
    using row_specs_window [of _ db "row_window r" pos r] row_window_wire [of r] by auto
  also have "\<dots> = map (\<lambda>s. (core s, window_wire_fields (sr_window r))) (row_specs db EMPTY_WINDOW 0 r)"
    unfolding row_specs_core [of db "row_window r"] by simp
  finally show ?thesis .
qed

lemma specs_wire:
  "map (\<lambda>s. (core s, window_wire_fields (sp_window s))) (fold (expand_row db t True) rows acc)
     = map (\<lambda>s. (core s, window_wire_fields (sp_window s))) acc
       @ concat (map (\<lambda>r. map (\<lambda>s. (core s, window_wire_fields (sr_window r))) (row_specs db EMPTY_WINDOW 0 r)) rows)"
proof (induction rows arbitrary: acc)
  case (Cons r rows)
  then show ?case using row_specs_wire [of db r "length acc"] by (simp add: expand_row_eq)
qed simp

section \<open>Playback slots\<close>

text \<open>How long a device shows a slide: to the end of the source from the seek offset, or for the slot.\<close>

definition on_screen_ms :: "'a asset_scheme \<Rightarrow> int \<times> bool \<times> int \<Rightarrow> int" where
  "on_screen_ms src = (\<lambda>(dur, to_end, clip_start).
     if to_end then (case real_ms src of None \<Rightarrow> dur | Some real \<Rightarrow> real - clip_start) else dur)"

lemma slot_on_screen:
  assumes "emit_clip \<or> sp_clip_start_ms spec = 0" "\<And>real. real_ms src = Some real \<Longrightarrow> sp_clip_start_ms spec < real"
  shows "fst (effective_slide_playback spec src tm emit_clip) = on_screen_ms src (effective_slide_playback spec src tm emit_clip)"
  using assms by (auto simp: effective_slide_playback_def on_screen_ms_def Let_def split: option.splits if_splits)

section \<open>Plans\<close>

definition oks :: "('a + 'b) list \<Rightarrow> 'b list" where "oks xs = [s. Inr s \<leftarrow> xs]"

definition errs :: "('a + 'b) list \<Rightarrow> 'a list" where "errs xs = [b. Inl b \<leftarrow> xs]"

lemma oks_simps [simp]: "oks [] = []" "oks (Inl b # xs) = oks xs" "oks (Inr s # xs) = s # oks xs"
  "errs [] = []" "errs (Inl b # xs) = b # errs xs" "errs (Inr s # xs) = errs xs"
  by (simp_all add: oks_def errs_def)

lemma all_ok: "errs xs = [] \<Longrightarrow> xs = map Inr (oks xs)"
proof (induction xs)
  case (Cons x xs)
  then show ?case by (cases x) simp_all
qed simp

lemma plan_fold:
  "plan_slides (fold (plan_step db profile emit_clip) specs p) = plan_slides p @ oks (map (plan_spec db profile emit_clip) specs)
   \<and> plan_blockers (fold (plan_step db profile emit_clip) specs p) = plan_blockers p @ errs (map (plan_spec db profile emit_clip) specs)"
proof (induction specs arbitrary: p)
  case (Cons x specs)
  then show ?case by (cases "plan_spec db profile emit_clip x") (simp_all add: plan_step_def)
qed simp

lemma plan_slideshow_eq:
  "plan_slides (plan_slideshow db i profile now ew ec) = oks (map (plan_spec db profile ec) (load_slide_specs db i now ew))"
  "plan_blockers (plan_slideshow db i profile now ew ec) = errs (map (plan_spec db profile ec) (load_slide_specs db i now ew))"
  by (simp_all add: plan_slideshow_def plan_fold)

lemma ready_plan_slides:
  assumes "plan_ready (plan_slideshow db i profile now ew ec)"
  shows "map (plan_spec db profile ec) (load_slide_specs db i now ew) = map Inr (plan_slides (plan_slideshow db i profile now ew ec))"
  using assms all_ok unfolding plan_ready_def plan_slideshow_eq by blast

text \<open>Two stable sorts order by the outer key and, within it, by the inner one.\<close>

lemma sorted_lex:
  assumes "sorted (map f ys)" "\<And>k. sorted (map g (filter (\<lambda>y. f y = k) ys))"
  shows "sorted_wrt (\<lambda>a b. f a < f b \<or> f a = f b \<and> g a \<le> g b) ys"
  using assms
proof (induction ys)
  case (Cons y ys)
  have "f y < f z \<or> f y = f z \<and> g y \<le> g z" if "z \<in> set ys" for z
  proof (cases "f y = f z")
    case True
    then show ?thesis using Cons.prems(2) [of "f y"] that by auto
  next
    case False
    then show ?thesis using Cons.prems(1) that by force
  qed
  moreover have "sorted (map g (filter (\<lambda>y. f y = k) ys))" for k using Cons.prems(2) [of k] by (auto split: if_splits)
  ultimately show ?case using Cons by simp
qed simp

lemma sort_twice: "sorted_wrt (\<lambda>a b. f a < f b \<or> f a = f b \<and> g a \<le> g b) (sort_key f (sort_key g xs))"
proof (rule sorted_lex)
  show "sorted (map f (sort_key f (sort_key g xs)))" by simp
  fix k
  have "filter (\<lambda>y. f y = k) (sort_key f (sort_key g xs)) = filter (\<lambda>y. f y = k) (sort_key g xs)"
    using sort_key_stable [of f k "sort_key g xs"] by simp
  then show "sorted (map g (filter (\<lambda>y. f y = k) (sort_key f (sort_key g xs))))"
    by (simp add: sorted_filter)
qed

definition newer_or_same :: "file_variant \<Rightarrow> file_variant \<Rightarrow> bool" where
  "newer_or_same v w \<longleftrightarrow> av_created_at w < av_created_at v \<or> av_created_at w = av_created_at v \<and> av_id w \<le> av_id v"

lemma live_variants_sorted: "sorted_wrt newer_or_same (live_variants db sid profile)"
  unfolding live_variants_def sorted_wrt_rev
  by (rule sorted_wrt_mono_rel [OF _ sort_twice]) (auto simp: newer_or_same_def)

lemma find_first:
  assumes "sorted_wrt R xs" "List.find P xs = Some v" "w \<in> set xs" "P w"
  shows "w = v \<or> R v w"
  using assms by (induction xs) (auto split: if_splits)

definition pl_file :: "slide_plan \<Rightarrow> string \<times> string \<times> string \<times> int option" where
  "pl_file s = (pl_path s, pl_api s, pl_checksum s, pl_size s)"

text \<open>Which file a slide may serve: the newest READY variant of the device's profile, the source
  itself where there is no variant, and the bundle of a published composed slide.\<close>

definition live_for :: "file_asset \<Rightarrow> string \<Rightarrow> file_variant \<Rightarrow> bool" where
  "live_for src p v \<longleftrightarrow> source_asset_id (asset_variant.truncate v) = asset_id src \<and> profile_id v = Some p \<and> av_deleted_at v = None"

definition serves :: "slideshow_db \<Rightarrow> string option \<Rightarrow> file_asset \<Rightarrow> string \<times> string \<times> string \<times> int option \<Rightarrow> bool" where
  "serves db profile src file \<longleftrightarrow>
     (if asset_type_of src = COMPOSED then asset_checksum src \<noteq> '''' \<and> file = source_file src
      else if is_file_asset src \<and> profile \<noteq> None
      then (\<exists>v \<in> set (ss_variants db). live_for src (the profile) v \<and> av_status v = VREADY \<and> file = variant_file v
              \<and> (\<forall>w \<in> set (ss_variants db). live_for src (the profile) w \<and> av_status w = VREADY \<longrightarrow> newer_or_same v w))
           \<or> (\<forall>w \<in> set (ss_variants db). \<not> live_for src (the profile) w) \<and> file = source_file src
      else file = source_file src)"

lemma set_live_variants: "set (live_variants db (asset_id src) p) = {v \<in> set (ss_variants db). live_for src p v}"
  by (auto simp: live_variants_def live_for_def)

lemma newer_refl: "newer_or_same v v" by (simp add: newer_or_same_def)

lemma resolve_source_serves:
  assumes "resolve_source db profile src = Inr (file, siblings)"
  shows "serves db profile src file"
proof (cases "asset_type_of src = COMPOSED")
  case True
  then show ?thesis using assms
    by (auto simp: resolve_source_def serves_def composed_unpublished_reason_def asset.defs split: option.splits if_splits)
next
  case False
  show ?thesis
  proof (cases "profile \<noteq> None \<and> is_file_asset src")
    case True
    let ?vs = "live_variants db (asset_id src) (the profile)"
    show ?thesis
    proof (cases "List.find (\<lambda>v. av_status v = VREADY) ?vs")
      case None
      then have "?vs = []" "file = source_file src" using assms False True by (auto simp: resolve_source_def split: list.splits)
      then have "\<forall>w \<in> set (ss_variants db). \<not> live_for src (the profile) w" using set_live_variants [of db src "the profile"] by auto
      then show ?thesis using False True \<open>file = _\<close> by (simp add: serves_def)
    next
      case (Some v)
      then have v: "file = variant_file v" "v \<in> set ?vs" "av_status v = VREADY"
        using assms False True by (simp add: resolve_source_def Let_def) (use Some in \<open>auto simp: find_Some_iff\<close>)
      have "newer_or_same v w" if "w \<in> set ?vs" "av_status w = VREADY" for w
        using find_first [OF live_variants_sorted Some that(1)] that(2) newer_refl by auto
      then show ?thesis using False True v unfolding serves_def set_live_variants by auto
    qed
  next
    case outer: False
    then show ?thesis using assms False by (auto simp: resolve_source_def serves_def)
  qed
qed

lemma plan_spec_Inr:
  assumes "plan_spec db profile ec spec = Inr s"
  obtains src where "find_asset db (sp_source spec) = Some src" "asset_deleted_at src = None" "serves db profile src (pl_file s)"
    "pl_position s = sp_position spec" "pl_source s = sp_source spec"
    "(pl_duration_ms s, pl_play_to_end s, pl_clip_start_ms s) = effective_slide_playback spec src (sp_tag_member spec) ec"
    "pl_window s = sp_window spec"
proof -
  from assms obtain src where src: "find_asset db (sp_source spec) = Some src" "asset_deleted_at src = None"
    by (auto simp: plan_spec_def Let_def split: option.splits if_splits)
  obtain dur te cs where eff: "effective_slide_playback spec src (sp_tag_member spec) ec = (dur, te, cs)" by (cases rule: prod_cases3)
  obtain path api digest sz sib where r: "resolve_source db profile src = Inr ((path, api, digest, sz), sib)"
    using assms src eff by (auto simp: plan_spec_def Let_def split: sum.splits)
  have "s = \<lparr>pl_position = sp_position spec, pl_source = sp_source spec, pl_filename = filename src,
      pl_type = asset_type_of src, pl_duration_ms = dur, pl_play_to_end = te,
      pl_transition = sp_transition spec, pl_transition_ms = sp_transition_ms spec, pl_fit = sp_fit spec,
      pl_effect = sp_effect spec, pl_effect_direction = sp_effect_direction spec, pl_window = sp_window spec,
      pl_clip_start_ms = cs, pl_clip_duration_ms = sp_clip_duration_ms spec, pl_path = path, pl_api = api,
      pl_checksum = digest, pl_size = sz, pl_siblings = sib\<rparr>"
    using assms src eff r by (simp add: plan_spec_def Let_def)
  then show thesis using that [OF src] resolve_source_serves [OF r] eff by (simp add: pl_file_def)
qed

lemma ready_slide_spec:
  assumes "plan_ready (plan_slideshow db i profile now ew ec)" "k < length (plan_slides (plan_slideshow db i profile now ew ec))"
  shows "plan_spec db profile ec (load_slide_specs db i now ew ! k) = Inr (plan_slides (plan_slideshow db i profile now ew ec) ! k)
    \<and> k < length (load_slide_specs db i now ew)"
  using ready_plan_slides [OF assms(1)] assms(2) by (metis length_map nth_map)

section \<open>Properties\<close>

text \<open>The visibility predicate is the set of instants it describes: open exactly when the local date
  is in the date range and the instant lies in the daily span of some allowed day, where a span that
  wraps past midnight belongs to the day on which it opened.\<close>

theorem slide_window_correct:
  assumes "window_ok w" "valid_time (dt_time now)"
  shows "slide_window_open w now \<longleftrightarrow> window_dates w (dt_date now) \<and>
    (\<exists>a. window_day w a \<and> fst (window_span w a) \<le> dt_us now \<and> dt_us now < snd (window_span w a))"
  using assms by (rule window_unfold)

text \<open>C25. The deck is pruned exactly. For a device that cannot evaluate windows, at a local time, the plan is the plan of the
  deck from which the rows that are not visible at that time have been taken out: slides, order, positions, files, durations and blockers. A row is
  visible when the local date is in its date range and the instant lies in the daily span of some allowed day, where a
  span that wraps past midnight belongs to the day on which it opened. For a device that can evaluate windows nothing is
  pruned, at any time: the slides of each row of the deck follow one another, each with the window of its own row on the wire.\<close>

theorem pruned_deck_exact:
  assumes "\<forall>r \<in> set (ss_slides db). window_ok (sr_window r)" and "valid_time (dt_time now)"
  shows "plan_slideshow db i profile (Some now) False ec
      = plan_slideshow (db\<lparr>ss_slides := filter (\<lambda>r. visible (sr_window r) now) (ss_slides db)\<rparr>) i profile None False ec
    \<and> map (\<lambda>s. (core s, window_wire_fields (sp_window s))) (load_slide_specs db i t True)
      = concat (map (\<lambda>r. map (\<lambda>s. (core s, window_wire_fields (sr_window r))) (load_slide_specs (db\<lparr>ss_slides := [r]\<rparr>) i None False))
          (slideshow_rows db i))"
proof (intro conjI)
  let ?db = "db\<lparr>ss_slides := filter (\<lambda>r. visible (sr_window r) now) (ss_slides db)\<rparr>"
  have "fold (expand_row db (Some now) False) rows acc
      = fold (expand_row ?db None False) (filter (\<lambda>r. visible (sr_window r) now) rows) acc"
    if "set rows \<subseteq> set (ss_slides db)" for rows acc
    using that assms visible_open by (induction rows arbitrary: acc) (auto simp: expand_row_eq row_specs_slides)
  moreover have "set (slideshow_rows db i) \<subseteq> set (ss_slides db)" by (auto simp: slideshow_rows_def)
  ultimately have "load_slide_specs db i (Some now) False = load_slide_specs ?db i None False"
    by (simp add: load_slide_specs_def slideshow_rows_def filter_sort filter_filter conj_commute)
  moreover have "plan_step ?db profile ec = plan_step db profile ec"
    by (rule ext)+ (simp add: plan_step_def plan_spec_slides)
  ultimately show "plan_slideshow db i profile (Some now) False ec = plan_slideshow ?db i profile None False ec"
    by (simp add: plan_slideshow_def)
  have "load_slide_specs (db\<lparr>ss_slides := [r]\<rparr>) i None False = row_specs db EMPTY_WINDOW 0 r" if "r \<in> set (slideshow_rows db i)" for r
    using that by (simp add: load_slide_specs_def slideshow_rows_def expand_row_eq row_specs_slides)
  then show "map (\<lambda>s. (core s, window_wire_fields (sp_window s))) (load_slide_specs db i t True)
      = concat (map (\<lambda>r. map (\<lambda>s. (core s, window_wire_fields (sr_window r))) (load_slide_specs (db\<lparr>ss_slides := [r]\<rparr>) i None False))
          (slideshow_rows db i))"
    by (simp add: load_slide_specs_def [of db i t True] specs_wire cong: map_cong)
qed

text \<open>A ready plan is complete and fresh. It has one slide for each specification, numbered
  consecutively in deck order, and each slide serves the newest READY variant of its live source for
  the device's profile, or the source itself where the profile has no variant of it.\<close>

theorem ready_plan_correct:
  assumes "plan_ready (plan_slideshow db i profile now ew ec)"
  shows "map pl_position (plan_slides (plan_slideshow db i profile now ew ec)) = [0..<length (load_slide_specs db i now ew)]
    \<and> map pl_source (plan_slides (plan_slideshow db i profile now ew ec)) = map sp_source (load_slide_specs db i now ew)
    \<and> (\<forall>s \<in> set (plan_slides (plan_slideshow db i profile now ew ec)).
         \<exists>src. find_asset db (pl_source s) = Some src \<and> asset_deleted_at src = None \<and> serves db profile src (pl_file s))"
proof -
  let ?S = "load_slide_specs db i now ew" and ?P = "plan_slides (plan_slideshow db i profile now ew ec)"
  have len: "length ?P = length ?S" using arg_cong [OF ready_plan_slides [OF assms], of length] by simp
  have each: "pl_position (?P ! k) = sp_position (?S ! k) \<and> pl_source (?P ! k) = sp_source (?S ! k)
      \<and> (\<exists>src. find_asset db (pl_source (?P ! k)) = Some src \<and> asset_deleted_at src = None \<and> serves db profile src (pl_file (?P ! k)))"
    if "k < length ?P" for k
    using ready_slide_spec [OF assms that] by (metis plan_spec_Inr)
  have "map pl_position ?P = map sp_position ?S" "map pl_source ?P = map sp_source ?S"
    using len each by (auto intro: nth_equalityI)
  then show ?thesis using positions_consecutive each by (metis in_set_conv_nth)
qed

text \<open>The cycle is as long as it plays. For a device that can seek, in a deck whose video sources are
  longer than their clip offsets, every slot of a ready plan equals the time its slide is on screen,
  so the announced cycle is the real one and the wall-clock anchor stays in step.\<close>

theorem cycle_matches_playback:
  assumes "build_fetch_for_slideshow sha256 id_digest link base_url now_ms db a profile now ew True = Some m"
    and "\<forall>spec \<in> set (load_slide_specs db (asset_id a) now ew). \<forall>src real.
      find_asset db (sp_source spec) = Some src \<and> real_ms src = Some real \<longrightarrow> sp_clip_start_ms spec < real"
  shows "fm_cycle_ms m = sum_list (map (\<lambda>s. on_screen_ms (the (find_asset db (pl_source s)))
      (pl_duration_ms s, pl_play_to_end s, pl_clip_start_ms s)) (plan_slides (plan_slideshow db (asset_id a) profile now ew True)))"
proof -
  let ?plan = "plan_slideshow db (asset_id a) profile now ew True"
  have ready: "plan_ready ?plan" and m: "fm_cycle_ms m = sum_list (map pl_duration_ms (plan_slides ?plan))"
    using assms(1) by (auto simp: build_fetch_for_slideshow_def Let_def split: if_splits)
  have "pl_duration_ms s = on_screen_ms (the (find_asset db (pl_source s))) (pl_duration_ms s, pl_play_to_end s, pl_clip_start_ms s)"
    if "s \<in> set (plan_slides ?plan)" for s
  proof -
    from that obtain k where k: "k < length (plan_slides ?plan)" "plan_slides ?plan ! k = s" unfolding in_set_conv_nth by blast
    let ?spec = "load_slide_specs db (asset_id a) now ew ! k"
    have sp: "plan_spec db profile True ?spec = Inr s" "?spec \<in> set (load_slide_specs db (asset_id a) now ew)"
      using ready_slide_spec [OF ready k(1)] k(2) by simp_all
    from sp(1) obtain src where src: "find_asset db (sp_source ?spec) = Some src" "pl_source s = sp_source ?spec"
      and eff: "(pl_duration_ms s, pl_play_to_end s, pl_clip_start_ms s) = effective_slide_playback ?spec src (sp_tag_member ?spec) True"
      by (rule plan_spec_Inr)
    have "fst (effective_slide_playback ?spec src (sp_tag_member ?spec) True)
        = on_screen_ms src (effective_slide_playback ?spec src (sp_tag_member ?spec) True)"
      using assms(2) sp(2) src(1) by (intro slot_on_screen) blast+
    then show ?thesis using src unfolding eff [symmetric] by simp
  qed
  then have "map pl_duration_ms (plan_slides ?plan) = map (\<lambda>s. on_screen_ms (the (find_asset db (pl_source s)))
      (pl_duration_ms s, pl_play_to_end s, pl_clip_start_ms s)) (plan_slides ?plan)" by (rule map_cong [OF refl])
  then show ?thesis unfolding m by (rule arg_cong)
qed

text \<open>A trimmed video overruns its slot on older devices. For a device without the clip capability,
  a video that is to play from an offset to its end is announced with the shortened slot but with
  play-to-end set and no offset: the device plays the whole source, longer than the slot by the
  offset, although the documentation promises a slide that ends with its slot.\<close>

theorem clip_to_end_overruns:
  assumes "sp_play_to_end spec" "sp_clip_duration_ms spec = None" "real_ms src = Some real"
    "0 < sp_clip_start_ms spec" "sp_clip_start_ms spec < real"
  shows "effective_slide_playback spec src tm False = (real - sp_clip_start_ms spec, True, 0)
    \<and> on_screen_ms src (effective_slide_playback spec src tm False) = fst (effective_slide_playback spec src tm False) + sp_clip_start_ms spec"
  using assms by (simp add: effective_slide_playback_def on_screen_ms_def Let_def)

text \<open>The library's slide count is the deck's. Under the row constraints, the effective slide count
  of a slideshow, computed by two grouped queries, is the number of slides the resolver expands it to.\<close>

theorem slide_counts_agree:
  assumes "rows_ok db" "i \<in> set ids"
  shows "map_of (effective_slide_counts db ids) i = Some (length (load_slide_specs db i None False))"
proof -
  let ?rows = "filter (\<lambda>r. sr_slideshow r = i) (ss_slides db)"
  let ?A = "filter (\<lambda>r. sr_kind r \<noteq> ''tag'') (filter (\<lambda>r. sr_slideshow r \<in> set ids) (ss_slides db))"
  let ?B = "filter (\<lambda>r. sr_kind r = ''tag'' \<and> sr_tag r \<noteq> None) (filter (\<lambda>r. sr_slideshow r \<in> set ids) (ss_slides db))"
  let ?m = "\<lambda>r. member_count db (the (sr_tag r))"
  let ?z = "fold (\<lambda>sid. dict_set sid 0) ids []"
  have "length (load_slide_specs db i None False) = sum_list (map (\<lambda>r. length (row_specs db EMPTY_WINDOW 0 r)) ?rows)"
    unfolding load_slide_specs_def specs_length slideshow_rows_def sum_list_sort_key by simp
  also have "\<dots> = sum_list (map (\<lambda>r. (if sr_kind r \<noteq> ''tag'' then 1 else 0) + (if sr_kind r = ''tag'' \<and> sr_tag r \<noteq> None then ?m r else 0)) ?rows)"
    using row_count [OF assms(1)] by (intro arg_cong [where f = sum_list] map_cong) auto
  also have "\<dots> = sum_list (map (\<lambda>r. 1) (filter (\<lambda>r. sr_kind r \<noteq> ''tag'') ?rows)) + sum_list (map ?m (filter (\<lambda>r. sr_kind r = ''tag'' \<and> sr_tag r \<noteq> None) ?rows))"
    by (rule sum_list_split_filter)
  also have "filter (\<lambda>r. sr_kind r \<noteq> ''tag'') ?rows = filter (\<lambda>r. sr_slideshow r = i) ?A"
    using assms(2) by (auto intro: filter_cong)
  also have "filter (\<lambda>r. sr_kind r = ''tag'' \<and> sr_tag r \<noteq> None) ?rows = filter (\<lambda>r. sr_slideshow r = i) ?B"
    using assms(2) by (auto intro: filter_cong)
  finally have len: "length (load_slide_specs db i None False) = count_in (effective_slide_counts db ids) i"
    using zero_fold [of ids "[]" i] assms(2)
    by (simp add: effective_slide_counts_def Let_def count_in_fold count_in_def [of ?z])
  have "i \<in> fst ` set (effective_slide_counts db ids)"
    using zero_fold [of ids "[]" i] assms(2)
    by (simp add: effective_slide_counts_def Let_def keys_fold_add) (metis map_of_eq_None_iff option.distinct(1))
  then have "map_of (effective_slide_counts db ids) i \<noteq> None" by (simp add: map_of_eq_None_iff)
  then show ?thesis using len by (auto simp: count_in_def split: option.splits)
qed

text \<open>Expired slides stay dark. The expiry warning of a slideshow counts exactly its slides whose end
  date lies before today, and none of those is visible at any time from today on.\<close>

theorem expired_slides_stay_dark:
  assumes "i \<in> set ids"
  shows "map_of (expired_slide_counts db ids today) i
      = Some (length (filter (\<lambda>r. sr_slideshow r = i \<and> slide_expired today r) (ss_slides db)))
    \<and> (slide_expired today r \<and> today \<le> dt_date now \<longrightarrow> \<not> slide_window_open (sr_window r) now)"
proof
  let ?e = "filter (\<lambda>r. sr_slideshow r \<in> set ids \<and> slide_expired today r) (ss_slides db)"
  have put: "map_of (fold (\<lambda>(sid, rs). dict_set sid (length rs)) gs c) i =
      (case map_of gs i of Some rs \<Rightarrow> Some (length rs) | None \<Rightarrow> map_of c i)" if "dict_ok gs" for gs :: "(string \<times> slide_row list) list" and c
    using that
  proof (induction gs arbitrary: c)
    case (Cons g gs)
    then show ?case
      by (cases g) (auto simp: dict_ok_def split: option.split dest: map_of_SomeD intro: rev_image_eqI)
  qed simp
  have f: "filter (\<lambda>r. sr_slideshow r = i) ?e = filter (\<lambda>r. sr_slideshow r = i \<and> slide_expired today r) (ss_slides db)"
    using assms by (auto intro: filter_cong)
  have "map_of (expired_slide_counts db ids today) i = Some (length (filter (\<lambda>r. sr_slideshow r = i) ?e))"
    unfolding expired_slide_counts_def Let_def put [OF dict_ok_group_by] map_of_group_by zero_fold using assms by auto
  then show "map_of (expired_slide_counts db ids today) i
      = Some (length (filter (\<lambda>r. sr_slideshow r = i \<and> slide_expired today r) (ss_slides db)))"
    unfolding f .
  show "slide_expired today r \<and> today \<le> dt_date now \<longrightarrow> \<not> slide_window_open (sr_window r) now"
    by (auto simp: slide_expired_def slide_window_open_def Let_def split: option.splits)
qed

section \<open>The text under the checksum\<close>

text \<open>Fields without the separator can be read back from the text.\<close>

definition plain :: "string \<Rightarrow> bool" where "plain f \<longleftrightarrow> CHR ''|'' \<notin> set f"

lemma bar_head:
  assumes "plain a" "plain b" "a @ bar xs = b @ bar ys"
  shows "a = b \<and> bar xs = bar ys"
proof -
  have tw: "plain c \<Longrightarrow> takeWhile (\<lambda>x. x \<noteq> CHR ''|'') (c @ bar zs) = c" for c zs
    by (cases zs) (auto simp: plain_def bar_def takeWhile_append2 intro: takeWhile_append2 [THEN trans])
  have "a = b" using tw [OF assms(1), of xs] tw [OF assms(2), of ys] assms(3) by simp
  then show ?thesis using assms(3) by simp
qed

lemma bar_inject:
  assumes "list_all plain xs" "list_all plain ys" "bar xs = bar ys"
  shows "xs = ys"
  using assms
proof (induction xs arbitrary: ys)
  case Nil
  then show ?case by (cases ys) (simp_all add: bar_def)
next
  case (Cons x xs)
  then obtain y ys' where ys: "ys = y # ys'" by (cases ys) (auto simp: bar_def)
  then have "x @ bar xs = y @ bar ys'" using Cons.prems(3) by (simp add: bar_def)
  then have "x = y" "bar xs = bar ys'" using bar_head Cons.prems(1,2) ys by auto
  then show ?case using Cons ys by simp
qed

lemma bar_append: "bar (xs @ ys) = bar xs @ bar ys" by (simp add: bar_def)

lemma manifest_tokens:
  "manifest_text a slides shuffle ew = a @ bar ((''shuffle='' @ flag shuffle) # concat (map (slide_fields ew) slides))"
proof -
  have "concat (map (\<lambda>s. bar (slide_fields ew s)) slides) = bar (concat (map (slide_fields ew) slides))"
    by (induction slides) (auto simp: bar_append bar_def)
  then show ?thesis by (simp add: manifest_text_def bar_def)
qed

text \<open>What the fields of a slide say, and the shape of what may follow them.\<close>

definition slide_view where
  "slide_view ew s = (pl_position s, pl_source s, pl_checksum s, pl_duration_ms s, pl_play_to_end s, pl_transition s,
     pl_transition_ms s, pl_fit s, pl_effect s, pl_effect_direction s, pl_clip_start_ms s,
     map (\<lambda>x. (sb_source x, sb_checksum x)) (pl_siblings s),
     if ew then (let w = window_wire_fields (pl_window s) in [or_text (ww_from w), or_text (ww_to w),
       join_text '','' (map int_text (case ww_days w of None \<Rightarrow> [] | Some ds \<Rightarrow> ds)), or_text (ww_start w), or_text (ww_end w)]) else [])"

definition next_slide :: "string list \<Rightarrow> bool" where
  "next_slide ts \<longleftrightarrow> ts = [] \<or> (\<exists>n rest. ts = int_text (int n) # rest)"

lemma nat_text_digit: "0 \<le> n \<Longrightarrow> hd (nat_text n) \<in> set ''0123456789'' \<and> nat_text n \<noteq> []"
proof (induction n rule: nat_text.induct)
  case (1 n)
  show ?case
  proof (cases "n < 10")
    case True
    have "digit_char n \<in> set ''0123456789''"
      unfolding digit_char_def using True "1.prems" by (intro nth_mem) (simp add: nat_less_iff)
    moreover have "nat_text n = [digit_char n]" using True by (subst nat_text.simps) simp
    ultimately show ?thesis by simp
  next
    case False
    then have "nat_text n = nat_text (n div 10) @ [digit_char (n mod 10)]" by (subst nat_text.simps) simp
    then show ?thesis using "1.IH" False by (simp add: hd_append)
  qed
qed

lemma int_text_eq: "int_text m = int_text n \<longleftrightarrow> m = n"
proof
  assume eq: "int_text m = int_text n"
  have neg: "nat_text k \<noteq> CHR ''-'' # x" if "0 \<le> k" for k x using nat_text_digit [OF that] by auto
  have pos: "nat_text j = nat_text k \<Longrightarrow> 0 \<le> j \<Longrightarrow> 0 \<le> k \<Longrightarrow> j = k" for j k
    using int_text_inject [of j k] by (simp add: int_text_def)
  show "m = n"
    using eq neg [of n "nat_text (- m)"] neg [of m "nat_text (- n)"] pos [of m n] pos [of "- m" "- n"]
    by (auto simp: int_text_def split: if_splits)
qed simp

lemma position_token:
  "int_text (int n) \<noteq> ''clip='' @ x" "int_text (int n) \<noteq> ''sib'' " "int_text (int n) \<noteq> ''w''"
  using nat_text_digit [of "int n"] by (auto simp: int_text_def)

lemma siblings_inject:
  assumes "concat (map (\<lambda>x. [''sib'', sb_source x, sb_checksum x]) xs) @ r = concat (map (\<lambda>x. [''sib'', sb_source x, sb_checksum x]) ys) @ r'"
    and "r = [] \<or> hd r \<noteq> ''sib''" "r' = [] \<or> hd r' \<noteq> ''sib''"
  shows "map (\<lambda>x. (sb_source x, sb_checksum x)) xs = map (\<lambda>x. (sb_source x, sb_checksum x)) ys \<and> r = r'"
  using assms
proof (induction xs arbitrary: ys)
  case Nil
  then show ?case by (cases ys) auto
next
  case (Cons x xs)
  then obtain y ys' where ys: "ys = y # ys'" by (cases ys; cases r') auto
  then show ?case using Cons.IH [of ys'] Cons.prems by auto
qed

lemma flag_eq: "flag a = flag b \<longleftrightarrow> a = b" by (simp add: flag_def)

lemma clip_inject:
  assumes "(if c \<noteq> 0 then [''clip='' @ int_text c] else []) @ p = (if d \<noteq> 0 then [''clip='' @ int_text d] else []) @ q"
    and "\<And>z ts. p \<noteq> (''clip='' @ z) # ts" "\<And>z ts. q \<noteq> (''clip='' @ z) # ts"
  shows "c = d \<and> p = q"
proof -
  consider "c = 0" "d = 0" | "c \<noteq> 0" "d \<noteq> 0" | "c = 0" "d \<noteq> 0" | "c \<noteq> 0" "d = 0" by blast
  then show ?thesis
  proof cases
    case 3
    then show ?thesis using assms(1) assms(2) [of "int_text d" q] by simp
  next
    case 4
    then have "q = (''clip='' @ int_text c) # p" using assms(1) by simp
    then show ?thesis using assms(3) by blast
  qed (use assms(1) in \<open>simp_all add: int_text_eq\<close>)
qed

lemma slide_fields_inject:
  assumes eq: "slide_fields ew x @ r = slide_fields ew y @ r'" and r: "next_slide r" "next_slide r'"
  shows "slide_view ew x = slide_view ew y \<and> r = r'"
proof -
  let ?S = "\<lambda>s. concat (map (\<lambda>x. [''sib'', sb_source x, sb_checksum x]) (pl_siblings s))"
  let ?C = "\<lambda>s. if pl_clip_start_ms s \<noteq> 0 then [''clip='' @ int_text (pl_clip_start_ms s)] else []"
  let ?W = "\<lambda>s. let w = window_wire_fields (pl_window s) in [or_text (ww_from w), or_text (ww_to w),
       join_text '','' (map int_text (case ww_days w of None \<Rightarrow> [] | Some ds \<Rightarrow> ds)), or_text (ww_start w), or_text (ww_end w)]"
  let ?T = "\<lambda>s. if ew then ''w'' # ?W s else []"
  have f: "slide_fields ew s = [int_text (int (pl_position s)), pl_source s, pl_checksum s, int_text (pl_duration_ms s), flag (pl_play_to_end s),
      pl_transition s, int_text (pl_transition_ms s), pl_fit s, pl_effect s, pl_effect_direction s] @ ?C s @ ?S s @ ?T s" for s
    by (simp add: slide_fields_def Let_def)
  have heads: "pl_position x = pl_position y" "pl_source x = pl_source y" "pl_checksum x = pl_checksum y"
    "pl_duration_ms x = pl_duration_ms y" "pl_play_to_end x = pl_play_to_end y" "pl_transition x = pl_transition y"
    "pl_transition_ms x = pl_transition_ms y" "pl_fit x = pl_fit y" "pl_effect x = pl_effect y" "pl_effect_direction x = pl_effect_direction y"
    and rest: "?C x @ ?S x @ ?T x @ r = ?C y @ ?S y @ ?T y @ r'"
    using eq unfolding f by (simp_all only: append.simps list.inject int_text_eq of_nat_eq_iff flag_eq append_assoc)
  have tail: "?S s @ ?T s @ q \<noteq> (''clip='' @ z) # ts" if "next_slide q" for s q ts z
    using that position_token(1) position_token(1) [THEN not_sym]
    by (cases "pl_siblings s") (auto simp: next_slide_def split: if_splits)
  have clip: "pl_clip_start_ms x = pl_clip_start_ms y \<and> ?S x @ ?T x @ r = ?S y @ ?T y @ r'"
    by (rule clip_inject [OF rest tail [OF r(1)] tail [OF r(2)]])
  have nosib: "?T s @ q = [] \<or> hd (?T s @ q) \<noteq> ''sib''" if "next_slide q" for s q
    using that position_token(2) by (auto simp: next_slide_def)
  have sib: "map (\<lambda>x. (sb_source x, sb_checksum x)) (pl_siblings x) = map (\<lambda>x. (sb_source x, sb_checksum x)) (pl_siblings y)"
    "?T x @ r = ?T y @ r'"
    using siblings_inject [OF conjunct2 [OF clip] nosib nosib] r by simp_all
  have "(if ew then ?W x else []) = (if ew then ?W y else []) \<and> r = r'"
    using sib(2) by (simp add: Let_def split: if_splits)
  then show ?thesis using heads clip sib(1) by (simp add: slide_view_def)
qed

lemma fields_next: "next_slide (concat (map (slide_fields ew) slides))"
  by (cases slides) (auto simp: next_slide_def slide_fields_def)

lemma slides_inject:
  "concat (map (slide_fields ew) xs) = concat (map (slide_fields ew) ys) \<Longrightarrow> map (slide_view ew) xs = map (slide_view ew) ys"
proof (induction xs arbitrary: ys)
  case Nil
  then show ?case by (cases ys) (simp_all add: slide_fields_def)
next
  case (Cons x xs)
  then obtain y ys' where ys: "ys = y # ys'" by (cases ys) (simp_all add: slide_fields_def)
  then have "slide_fields ew x @ concat (map (slide_fields ew) xs) = slide_fields ew y @ concat (map (slide_fields ew) ys')"
    using Cons.prems by simp
  then have "slide_view ew x = slide_view ew y" "concat (map (slide_fields ew) xs) = concat (map (slide_fields ew) ys')"
    using slide_fields_inject fields_next by blast+
  then show ?case using Cons.IH ys by simp
qed

text \<open>The checksum sees every change. The text under the resolved checksum determines the structural
  checksum, the shuffle flag and, for every slide, its position, source, file checksum, slot, playback
  flags, effects, clip offset, sibling checksums and, for capable devices, its window: two manifests
  with the same text agree on all of them, provided no field contains the separator.\<close>

theorem manifest_text_determines:
  assumes "manifest_text a xs sh ew = manifest_text b ys sh' ew" "plain a" "plain b"
    and "list_all (\<lambda>s. list_all plain (slide_fields ew s)) xs" "list_all (\<lambda>s. list_all plain (slide_fields ew s)) ys"
  shows "a = b \<and> sh = sh' \<and> map (slide_view ew) xs = map (slide_view ew) ys"
proof -
  let ?t = "\<lambda>sh xs. (''shuffle='' @ flag sh) # concat (map (slide_fields ew) xs)"
  have pl: "list_all (\<lambda>s. list_all plain (slide_fields ew s)) zs \<Longrightarrow> list_all plain (?t s zs)" for s zs
    by (induction zs) (auto simp: plain_def flag_def)
  have "a = b" and b: "bar (?t sh xs) = bar (?t sh' ys)"
    using bar_head [OF assms(2,3)] assms(1) unfolding manifest_tokens by blast+
  have "?t sh xs = ?t sh' ys" by (rule bar_inject [OF pl [OF assms(4)] pl [OF assms(5)] b])
  then have "sh = sh'" "concat (map (slide_fields ew) xs) = concat (map (slide_fields ew) ys)" by (simp_all add: flag_eq)
  then show ?thesis using \<open>a = b\<close> slides_inject by blast
qed

text \<open>The wall-clock anchor. For a positive cycle the anchor is the last multiple of the cycle since
  the epoch that is not in the future, so devices that fetch within one cycle share it; and the shuffle
  seed is a non-negative 31-bit number for every digest.\<close>

theorem anchor_and_seed:
  assumes "0 < cycle"
  shows "\<exists>a. cycle_anchor_ms now cycle = Some a \<and> a \<le> now \<and> now < a + cycle \<and> cycle dvd a
    \<and> (a \<le> now' \<and> now' < a + cycle \<longrightarrow> cycle_anchor_ms now' cycle = Some a)
    \<and> 0 \<le> shuffle_seed_for_asset digest \<and> shuffle_seed_for_asset digest < 2 ^ 31"
proof -
  let ?a = "now div cycle * cycle"
  have a: "?a \<le> now" "now < ?a + cycle" using assms pos_mod_bound [of cycle now] pos_mod_sign [of cycle now] div_mult_mod_eq [of now cycle] by linarith+
  have same: "now' div cycle = now div cycle" if "?a \<le> now'" "now' < ?a + cycle"
    using that by (intro int_div_pos_eq [of now' cycle _ "now' - ?a"]) (simp_all add: algebra_simps)
  have seed: "shuffle_seed_for_asset digest = take_bit 31 (fold (\<lambda>b acc. acc * 256 + uint b) (take 4 digest) 0)"
    by (simp add: shuffle_seed_for_asset_def take_bit_eq_mask mask_eq_exp_minus_1)
  have "0 \<le> shuffle_seed_for_asset digest" "shuffle_seed_for_asset digest < 2 ^ 31"
    unfolding seed by (simp, rule take_bit_int_less_exp)
  then show ?thesis using assms a same by (auto simp: cycle_anchor_ms_def)
qed

section \<open>Witnesses\<close>

definition friday_night :: slide_window where
  "friday_night = \<lparr>valid_from = None, valid_to = None, active_days = Some [4], active_start = Some (Time 22 0 0 0), active_end = Some (Time 2 0 0 0)\<rparr>"

definition saturday_0030 :: datetime where "saturday_0030 = Datetime 738002 (Time 0 30 0 0)"

theorem slide_window_correct_witness:
  "window_dates friday_night 738002 \<and> (\<exists>a. window_day friday_night a
     \<and> fst (window_span friday_night a) \<le> dt_us saturday_0030 \<and> dt_us saturday_0030 < snd (window_span friday_night a))"
proof -
  have "window_ok friday_night" by (simp add: window_ok_def friday_night_def valid_time_def)
  moreover have "valid_time (dt_time saturday_0030)" "slide_window_open friday_night saturday_0030"
    "dt_date saturday_0030 = 738002" by code_simp+
  ultimately show ?thesis using slide_window_correct [of friday_night saturday_0030] by simp
qed

definition deck_asset :: "string \<Rightarrow> asset_type \<Rightarrow> int option \<Rightarrow> file_asset" where
  "deck_asset i ty us = \<lparr>asset_id = i, filename = i, original_filename = None, display_name = None, asset_type_of = ty,
     asset_checksum = ''c-'' @ i, asset_url = None, asset_deleted_at = None, duration_us = us, fa_size_bytes = None, fa_shuffle = False,
     fa_anchor_us = None\<rparr>"

definition deck_row :: "int \<Rightarrow> string \<Rightarrow> string option \<Rightarrow> string option \<Rightarrow> int option \<Rightarrow> bool \<Rightarrow> slide_window \<Rightarrow> slide_row" where
  "deck_row pos kind src tag clip pte w = \<lparr>sr_slideshow = ''show'', sr_kind = kind, sr_source = src, sr_tag = tag, sr_position = pos,
     sr_duration_ms = 5000, sr_play_to_end = pte, sr_transition = ''cut'', sr_transition_ms = 600, sr_member_transition = None,
     sr_member_transition_ms = None, sr_fit = ''cover'', sr_effect = ''none'', sr_effect_direction = ''in'', sr_window = w,
     sr_clip_start_ms = clip, sr_clip_duration_ms = None\<rparr>"

definition deck_variant :: "string \<Rightarrow> file_asset \<Rightarrow> int \<Rightarrow> variant_status \<Rightarrow> file_variant" where
  "deck_variant i a t s = \<lparr>av_id = i, source_asset = asset.truncate a, profile_id = Some ''p'', av_status = s, av_checksum = ''v-'' @ i,
     av_created_at = t, av_deleted_at = None, fv_filename = i, fv_size_bytes = Some 10\<rparr>"

definition deck :: slideshow_db where
  "deck = \<lparr>ss_slides = [deck_row 1 ''tag'' None (Some ''t'') None False EMPTY_WINDOW,
       deck_row 0 ''asset'' (Some ''movie'') None (Some 3000) True EMPTY_WINDOW],
     ss_assets = [deck_asset ''show'' SLIDESHOW None, deck_asset ''movie'' VIDEO (Some 20000000), deck_asset ''pic'' IMAGE None],
     ss_variants = [deck_variant ''m1'' (deck_asset ''movie'' VIDEO (Some 20000000)) 1 VREADY,
       deck_variant ''m2'' (deck_asset ''movie'' VIDEO (Some 20000000)) 2 VREADY,
       deck_variant ''m3'' (deck_asset ''movie'' VIDEO (Some 20000000)) 3 VFAILED],
     ss_tags = [\<lparr>at_id = ''x'', at_tag = ''t'', at_asset = ''pic'', at_created_at = 4\<rparr>], ss_composed = []\<rparr>"

lemma deck_ready: "plan_ready (plan_slideshow deck ''show'' (Some ''p'') None False True)" by code_simp

theorem pruned_deck_exact_witness:
  "map pl_source (plan_slides (plan_slideshow (deck\<lparr>ss_slides := [deck_row 0 ''asset'' (Some ''pic'') None None False friday_night,
      deck_row 1 ''asset'' (Some ''pic'') None None False (friday_night\<lparr>active_days := Some [5]\<rparr>)]\<rparr>) ''show'' None (Some saturday_0030) False False)) = [''pic'']
   \<and> visible friday_night saturday_0030 \<and> \<not> visible (friday_night\<lparr>active_days := Some [5]\<rparr>) saturday_0030"
proof -
  let ?sat = "friday_night\<lparr>active_days := Some [5]\<rparr>"
  let ?rows = "[deck_row 0 ''asset'' (Some ''pic'') None None False friday_night, deck_row 1 ''asset'' (Some ''pic'') None None False ?sat]"
  have ok: "window_ok friday_night" "window_ok ?sat" by (simp_all add: window_ok_def friday_night_def valid_time_def)
  have t: "valid_time (dt_time saturday_0030)" by code_simp
  have "slide_window_open friday_night saturday_0030" "\<not> slide_window_open ?sat saturday_0030" by code_simp+
  then have vis: "visible friday_night saturday_0030" "\<not> visible ?sat saturday_0030" using visible_open ok t by simp_all
  have w: "sr_window (deck_row p k src tg c e w) = w" for p k src tg c e w by (simp add: deck_row_def)
  have "\<forall>r \<in> set (ss_slides (deck\<lparr>ss_slides := ?rows\<rparr>)). window_ok (sr_window r)" using ok by (simp add: w)
  from conjunct1 [OF pruned_deck_exact [OF this t, of "''show''" None False None]] vis
  have "plan_slideshow (deck\<lparr>ss_slides := ?rows\<rparr>) ''show'' None (Some saturday_0030) False False
    = plan_slideshow (deck\<lparr>ss_slides := [hd ?rows]\<rparr>) ''show'' None None False False" by (simp add: w)
  moreover have "map pl_source (plan_slides (plan_slideshow (deck\<lparr>ss_slides := [hd ?rows]\<rparr>) ''show'' None None False False)) = [''pic'']" by code_simp
  ultimately show ?thesis using vis by simp
qed

theorem ready_plan_correct_witness:
  "map pl_checksum (plan_slides (plan_slideshow deck ''show'' (Some ''p'') None False True)) = [''v-m2'', ''c-pic'']
   \<and> map pl_position (plan_slides (plan_slideshow deck ''show'' (Some ''p'') None False True)) = [0..<2]"
proof -
  have "map pl_checksum (plan_slides (plan_slideshow deck ''show'' (Some ''p'') None False True)) = [''v-m2'', ''c-pic'']"
    "length (load_slide_specs deck ''show'' None False) = 2" by code_simp+
  then show ?thesis using ready_plan_correct [OF deck_ready] by simp
qed

definition deck_message :: fetch_message where
  "deck_message = the (build_fetch_for_slideshow id (\<lambda>i. []) (\<lambda>p u. u) ''http'' 0 deck (deck_asset ''show'' SLIDESHOW None) (Some ''p'') None False True)"

theorem cycle_matches_playback_witness:
  "fm_cycle_ms deck_message = sum_list (map (\<lambda>s. on_screen_ms (the (find_asset deck (pl_source s)))
      (pl_duration_ms s, pl_play_to_end s, pl_clip_start_ms s)) (plan_slides (plan_slideshow deck ''show'' (Some ''p'') None False True)))
   \<and> fm_cycle_ms deck_message = 22000"
proof -
  let ?b = "build_fetch_for_slideshow id (\<lambda>i. []) (\<lambda>p u. u) ''http'' 0 deck (deck_asset ''show'' SLIDESHOW None) (Some ''p'') None False True"
  have i: "asset_id (deck_asset ''show'' SLIDESHOW None) = ''show''" by (simp add: deck_asset_def)
  have m: "?b = Some deck_message"
    using deck_ready by (simp add: deck_message_def build_fetch_for_slideshow_def i Let_def)
  have specs: "map sp_source (load_slide_specs deck ''show'' None False) = [''movie'', ''pic'']"
    "map sp_clip_start_ms (load_slide_specs deck ''show'' None False) = [3000, 0]" by code_simp+
  have src: "map_option real_ms (find_asset deck ''movie'') = Some (Some 20000)" "map_option real_ms (find_asset deck ''pic'') = Some None"
    by code_simp+
  have fine: "sp_clip_start_ms spec < real"
    if spec: "spec \<in> set (load_slide_specs deck ''show'' None False)" and f: "find_asset deck (sp_source spec) = Some s" "real_ms s = Some real" for spec s real
  proof -
    have "(sp_source spec, sp_clip_start_ms spec) \<in> set (zip [''movie'', ''pic''] [3000, 0])"
      using spec unfolding specs [symmetric] by (auto simp: zip_map_map zip_same)
    then show ?thesis using f src by auto
  qed
  have "fm_cycle_ms deck_message = 22000" by code_simp
  then show ?thesis
    using cycle_matches_playback [OF m] fine unfolding i by blast
qed

definition trimmed :: slide_spec where
  "trimmed = asset_spec (deck_row 0 ''asset'' (Some ''movie'') None (Some 3000) True EMPTY_WINDOW) EMPTY_WINDOW 0 ''movie''"

theorem clip_to_end_overruns_witness:
  "effective_slide_playback trimmed (deck_asset ''movie'' VIDEO (Some 20000000)) False False = (17000, True, 0)"
proof -
  have "sp_play_to_end trimmed" "sp_clip_duration_ms trimmed = None" "sp_clip_start_ms trimmed = 3000"
    "real_ms (deck_asset ''movie'' VIDEO (Some 20000000)) = Some 20000" by code_simp+
  then show ?thesis using clip_to_end_overruns [of trimmed "deck_asset ''movie'' VIDEO (Some 20000000)" 20000 False] by simp
qed

theorem slide_counts_agree_witness:
  "map_of (effective_slide_counts deck [''show'']) ''show'' = Some (length (load_slide_specs deck ''show'' None False))"
proof -
  have "rows_ok deck" by code_simp
  then show ?thesis using slide_counts_agree [of deck "''show''" "[''show'']"] by simp
qed

theorem expired_slides_stay_dark_witness: "map_of (expired_slide_counts deck [''show''] 9) ''show'' = Some 0"
proof -
  have "length (filter (\<lambda>r. sr_slideshow r = ''show'' \<and> slide_expired 9 r) (ss_slides deck)) = 0" by code_simp
  then show ?thesis
    using expired_slides_stay_dark [of "''show''" "[''show'']" deck 9 undefined undefined] by simp
qed

theorem manifest_text_determines_witness:
  "map (slide_view False) (plan_slides (plan_slideshow deck ''show'' (Some ''p'') None False True))
     = map (slide_view False) (plan_slides (plan_slideshow deck ''show'' (Some ''p'') (Some saturday_0030) False True))"
proof -
  let ?p = "plan_slides (plan_slideshow deck ''show'' (Some ''p'') None False True)"
    and ?q = "plan_slides (plan_slideshow deck ''show'' (Some ''p'') (Some saturday_0030) False True)"
  have "manifest_text ''a'' ?p False False = manifest_text ''a'' ?q False False" by code_simp
  moreover have "list_all (\<lambda>s. list_all plain (slide_fields False s)) ?p" by code_simp
  moreover have "list_all (\<lambda>s. list_all plain (slide_fields False s)) ?q" by code_simp
  ultimately show ?thesis using manifest_text_determines [of "''a''" ?p False False "''a''" ?q False] by (simp add: plain_def)
qed

theorem anchor_and_seed_witness: "\<exists>a. cycle_anchor_ms 1234567 5000 = Some a \<and> a \<le> 1234567 \<and> 1234567 < a + 5000"
  using anchor_and_seed [of 5000 1234567 0 "[]"] by auto

section \<open>Blocked siblings\<close>

text \<open>A composed slide whose referenced video failed to transcode is reported as still processing, for
  ever, while the same video as a slide of its own is reported as failed.\<close>

theorem failed_sibling_looks_busy:
  assumes "asset_type_of src = COMPOSED" "asset_checksum src \<noteq> ''''" "map_of (ss_composed db) (asset_id src) = Some [aid]"
    "List.find (\<lambda>a. asset_id a = aid \<and> asset_deleted_at a = None) (ss_assets db) = Some ref" "is_file_asset ref"
    "live_variants db (asset_id ref) p = v # vs" "list_all (\<lambda>w. av_status w = VFAILED) (v # vs)"
  shows "resolve_source db (Some p) src = Inl BLOCKER_VARIANT_PROCESSING
    \<and> resolve_source db (Some p) ref = Inl BLOCKER_VARIANT_FAILED"
proof -
  have none: "List.find (\<lambda>w. av_status w = VREADY) (v # vs) = None" using assms(7) by (auto simp: find_None_iff list_all_iff)
  have ref: "asset_type_of ref \<noteq> COMPOSED" using assms(5) by (auto simp: is_file_asset_def)
  have sib: "resolve_composed_sibling db (Some p) ref = None"
    using assms(5,6) none by (simp add: resolve_composed_sibling_def Let_def)
  have pub: "composed_unpublished_reason (Some (asset.truncate src)) = None"
    using assms(1,2) by (simp add: composed_unpublished_reason_def asset.defs)
  have "resolve_source db (Some p) src = Inl BLOCKER_VARIANT_PROCESSING"
    using assms(1,3,4) pub sib by (simp add: resolve_source_def plan_composed_siblings_def or_value_def)
  moreover have "resolve_source db (Some p) ref = Inl (blocked_status (av_status v))"
    unfolding resolve_source_def using assms(5,6) none ref by (simp add: Let_def)
  ultimately show ?thesis using assms(7) by (simp add: blocked_status_def)
qed

end
