(* ===== verification/Identity.thy ===== *)
theory Identity
  imports Json
begin

text \<open>
  Identity primitives of the device bootstrap, \<^verbatim>\<open>cms/services/device_identity.py\<close> and
  \<^verbatim>\<open>shared/wps_signature.py\<close>, with the code normalisation of \<^verbatim>\<open>device_bootstrap.py\<close> and the request
  limiter of \<^verbatim>\<open>routers/bootstrap.py\<close>: base64 keys, canonical messages, message authentication codes,
  the nonce cache, sliding-window rate limits and the hybrid encryption of the bootstrap payload.
  Bytes are character lists. The hash functions, X25519, HKDF and AES-GCM are parameters.
\<close>

section \<open>Base64\<close>

definition b64_char :: "nat \<Rightarrow> char" where
  "b64_char n = char_of (if n < 26 then n + 65 else if n < 52 then n + 71 else if n < 62 then n - 4
     else if n = 62 then 43 else 47 :: nat)"

definition b64_value :: "char \<Rightarrow> nat option" where
  "b64_value c = (let n = of_char c :: nat in
     if 65 \<le> n \<and> n \<le> 90 then Some (n - 65)
     else if 97 \<le> n \<and> n \<le> 122 then Some (n - 71)
     else if 48 \<le> n \<and> n \<le> 57 then Some (n + 4)
     else if n = 43 then Some 62
     else if n = 47 then Some 63
     else None)"

text \<open>\<^verbatim>\<open>base64.b64encode\<close>.\<close>

fun b64encode :: "string \<Rightarrow> string" where
  "b64encode [] = []"
| "b64encode [a] = (let x = of_char a :: nat in
     [b64_char (x div 4), b64_char (x mod 4 * 16), CHR ''='', CHR ''=''])"
| "b64encode [a, b] = (let x = of_char a :: nat; y = of_char b in
     [b64_char (x div 4), b64_char (x mod 4 * 16 + y div 16), b64_char (y mod 16 * 4), CHR ''=''])"
| "b64encode (a # b # c # s) = (let x = of_char a :: nat; y = of_char b; z = of_char c in
     [b64_char (x div 4), b64_char (x mod 4 * 16 + y div 16), b64_char (y mod 16 * 4 + z div 64), b64_char (z mod 64)]
     @ b64encode s)"

text \<open>
  The loop of \<^verbatim>\<open>binascii.a2b_base64\<close>: position in the quad, bits left over, padding characters seen, and
  whether padding has started. Strict mode is what \<^verbatim>\<open>validate=True\<close> selects; otherwise foreign
  characters are skipped.
\<close>

fun a2b_base64 :: "bool \<Rightarrow> nat \<Rightarrow> nat \<Rightarrow> nat \<Rightarrow> bool \<Rightarrow> string \<Rightarrow> string option" where
  "a2b_base64 strict quad left pads started [] = (if quad = 0 then Some [] else None)"
| "a2b_base64 strict quad left pads started (c # cs) =
     (if c = CHR ''='' then
        if 2 \<le> quad then
          if 4 \<le> quad + pads + 1 then if strict \<and> cs \<noteq> [] then None else Some []
          else a2b_base64 strict quad left (pads + 1) True cs
        else a2b_base64 strict quad left pads True cs
      else case b64_value c of
        None \<Rightarrow> if strict then None else a2b_base64 strict quad left pads started cs
      | Some v \<Rightarrow>
          if strict \<and> started then None
          else if quad = 0 then a2b_base64 strict 1 v 0 started cs
          else if quad = 1 then map_option ((#) (char_of (left * 4 + v div 16))) (a2b_base64 strict 2 (v mod 16) 0 started cs)
          else if quad = 2 then map_option ((#) (char_of (left * 16 + v div 4))) (a2b_base64 strict 3 (v mod 4) 0 started cs)
          else map_option ((#) (char_of (left * 64 + v))) (a2b_base64 strict 0 0 0 started cs))"

definition b64decode :: "bool \<Rightarrow> string \<Rightarrow> string option" where
  "b64decode validate s = (if validate \<and> take 1 s = ''='' then None else a2b_base64 validate 0 0 0 False s)"

section \<open>Public keys and canonical messages\<close>

definition replace_char :: "char \<Rightarrow> char \<Rightarrow> string \<Rightarrow> string" where
  "replace_char a b s = map (\<lambda>c. if c = a then b else c) s"

definition canonicalize_pubkey_b64 :: "string \<Rightarrow> string result" where
  "canonicalize_pubkey_b64 s =
     (let t = replace_char (CHR ''_'') (CHR ''/'') (replace_char (CHR ''-'') (CHR ''+'') s);
          pad = nat ((- int (length t)) mod 4)
      in case b64decode True (t @ replicate pad (CHR ''='')) of
        None \<Rightarrow> Inl (ValueError ''pubkey is not valid base64'')
      | Some raw \<Rightarrow>
          if length raw \<noteq> 32 then Inl (ValueError ''ed25519 public key must decode to 32 bytes'')
          else Inr (b64encode raw))"

definition connect_token_canonical_bytes :: "string \<Rightarrow> string \<Rightarrow> string \<Rightarrow> string" where
  "connect_token_canonical_bytes device_id timestamp nonce = device_id @ ''|'' @ timestamp @ ''|'' @ nonce"

definition fleet_hmac_input :: "string \<Rightarrow> string \<Rightarrow> string \<Rightarrow> string \<Rightarrow> string \<Rightarrow> string \<Rightarrow> string" where
  "fleet_hmac_input device_id pubkey pairing_secret_hash fleet_id timestamp nonce =
     join_text ''|'' [''register'', device_id, pubkey, pairing_secret_hash, fleet_id, timestamp, nonce]"

text \<open>
  \<open>ed25519_verify pub sig message\<close> is the library's check: \<open>False\<close> where it raises InvalidSignature or
  ValueError (a key that is not 32 bytes).
\<close>

definition verify_ed25519_signature :: "(string \<Rightarrow> string \<Rightarrow> string \<Rightarrow> bool) \<Rightarrow> string \<Rightarrow> string \<Rightarrow> string \<Rightarrow> bool" where
  "verify_ed25519_signature ed25519_verify pubkey_b64 message signature_b64 =
     (case (b64decode False pubkey_b64, b64decode False signature_b64) of
        (Some pub, Some sig) \<Rightarrow> ed25519_verify pub sig message
      | _ \<Rightarrow> False)"

text \<open>\<open>hmac key message\<close> is the lower-case hexadecimal HMAC-SHA256.\<close>

definition verify_fleet_hmac :: "(string \<Rightarrow> string \<Rightarrow> string) \<Rightarrow> string \<Rightarrow> string \<Rightarrow> string \<Rightarrow> bool" where
  "verify_fleet_hmac hmac secret message mac_hex \<longleftrightarrow> hmac secret message = lower_text mac_hex"

text \<open>\<^verbatim>\<open>int(time.time())\<close> of an instant in microseconds.\<close>

definition unix_seconds :: "int \<Rightarrow> int" where
  "unix_seconds now = now div 1000000"

definition timestamp_within_skew :: "int \<Rightarrow> int \<Rightarrow> int \<Rightarrow> bool" where
  "timestamp_within_skew now ts skew \<longleftrightarrow> \<bar>unix_seconds now - ts\<bar> \<le> skew"

section \<open>Base64 is a round trip\<close>

lemma b64_char_value: "n < 64 \<Longrightarrow> b64_value (b64_char n) = Some n"
proof -
  assume "n < 64"
  then consider "n < 26" | "26 \<le> n" "n < 52" | "52 \<le> n" "n < 62" | "n = 62" | "n = 63" by linarith
  then show ?thesis
    by cases (auto simp: b64_char_def b64_value_def Let_def)
qed

lemma of_char_b64_char: "n < 64 \<Longrightarrow> of_char (b64_char n) \<in> ({43, 47} \<union> {48..57} \<union> {65..90} \<union> {97..122} :: nat set)"
proof -
  assume "n < 64"
  then consider "n < 26" | "26 \<le> n" "n < 52" | "52 \<le> n" "n < 62" | "n = 62" | "n = 63" by linarith
  then show ?thesis by cases (auto simp: b64_char_def)
qed

lemma b64_char_plain:
  assumes "n < 64"
  shows "b64_char n \<noteq> CHR ''=''" "b64_char n \<noteq> CHR ''-''" "b64_char n \<noteq> CHR ''_''"
  using of_char_b64_char [OF assms] by auto

lemma of_char_bound [simp]: "(of_char c :: nat) < 256" by simp

lemma b64_parts [simp]:
  "(of_char a :: nat) div 4 < 64"
  "(of_char a :: nat) mod 4 * 16 < 64"
  "(of_char a :: nat) mod 4 * 16 + of_char b div 16 < 64"
  "(of_char a :: nat) mod 16 * 4 < 64"
  "(of_char a :: nat) mod 16 * 4 + of_char b div 64 < 64"
  "(of_char a :: nat) mod 64 < 64"
proof -
  have a: "(of_char a :: nat) < 256" and b: "(of_char b :: nat) < 256" by (rule of_char_bound)+
  have m: "(of_char a :: nat) mod 4 < 4" "(of_char a :: nat) mod 16 < 16" by simp_all
  have d: "(of_char b :: nat) div 16 < 16" "(of_char b :: nat) div 64 < 4" "(of_char a :: nat) div 4 < 64"
    using a b by (simp_all add: less_mult_imp_div_less)
  show "(of_char a :: nat) div 4 < 64" by (rule d(3))
  show "(of_char a :: nat) mod 4 * 16 < 64" "(of_char a :: nat) mod 4 * 16 + of_char b div 16 < 64"
    "(of_char a :: nat) mod 16 * 4 < 64" "(of_char a :: nat) mod 16 * 4 + of_char b div 64 < 64"
    using m d by linarith+
qed simp

lemma byte_split:
  fixes x y :: nat
  assumes "y < 256"
  shows "x div 4 * 4 + (x mod 4 * 16) div 16 = x"
    "x div 4 * 4 + (x mod 4 * 16 + y div 16) div 16 = x"
    "((x mod 4 * 16 + y div 16) mod 16) * 16 + (y mod 16 * 4) div 4 = y"
    "z < 256 \<Longrightarrow> ((x mod 4 * 16 + y div 16) mod 16) * 16 + (y mod 16 * 4 + z div 64) div 4 = y"
proof -
  have y: "y div 16 < 16" using assms by (simp add: less_mult_imp_div_less)
  then have yd: "y div 16 div 16 = 0" "y div 16 mod 16 = y div 16" by simp_all
  show "x div 4 * 4 + (x mod 4 * 16) div 16 = x" by simp
  show "x div 4 * 4 + (x mod 4 * 16 + y div 16) div 16 = x" using y by simp
  have *: "(x mod 4 * 16 + y div 16) mod 16 = y div 16" using y by simp
  show "((x mod 4 * 16 + y div 16) mod 16) * 16 + (y mod 16 * 4) div 4 = y" unfolding * by simp
  assume "z < 256"
  then have "z div 64 < 4" by (simp add: less_mult_imp_div_less)
  then have "(y mod 16 * 4 + z div 64) div 4 = y mod 16" by simp
  then show "((x mod 4 * 16 + y div 16) mod 16) * 16 + (y mod 16 * 4 + z div 64) div 4 = y" unfolding * by simp
qed

lemma last_sextet:
  fixes y z :: nat
  assumes "z < 256"
  shows "(y mod 16 * 4 + z div 64) mod 4 * 64 + z mod 64 = z"
proof -
  have "z div 64 < 4" using assms by (simp add: less_mult_imp_div_less)
  then have "(y mod 16 * 4 + z div 64) mod 4 = z div 64" by simp
  then show ?thesis by simp
qed

lemma a2b_sextet:
  "n < 64 \<Longrightarrow> a2b_base64 strict 0 left pads False (b64_char n # cs) = a2b_base64 strict 1 n 0 False cs"
  "n < 64 \<Longrightarrow> a2b_base64 strict (Suc 0) left pads False (b64_char n # cs)
     = map_option ((#) (char_of (left * 4 + n div 16))) (a2b_base64 strict 2 (n mod 16) 0 False cs)"
  "n < 64 \<Longrightarrow> a2b_base64 strict 2 left pads False (b64_char n # cs)
     = map_option ((#) (char_of (left * 16 + n div 4))) (a2b_base64 strict 3 (n mod 4) 0 False cs)"
  "n < 64 \<Longrightarrow> a2b_base64 strict 3 left pads False (b64_char n # cs)
     = map_option ((#) (char_of (left * 64 + n))) (a2b_base64 strict 0 0 0 False cs)"
  by (simp_all add: b64_char_value b64_char_plain)

lemma a2b_b64encode: "a2b_base64 strict 0 left pads False (b64encode s) = Some s"
proof (induction s arbitrary: left pads rule: b64encode.induct)
  case (2 a)
  then show ?case
    by (simp add: Let_def a2b_sextet byte_split(1) [of "of_char a", simplified] del: a2b_base64.simps(2))
      (simp add: a2b_base64.simps)
next
  case (3 a b)
  then show ?case
    using byte_split(2) [of "of_char b" "of_char a"] byte_split(3) [of "of_char b" "of_char a"]
    by (simp add: Let_def a2b_sextet del: a2b_base64.simps(2)) (simp add: a2b_base64.simps)
next
  case (4 a b c s)
  then show ?case
    using byte_split(2) [of "of_char b" "of_char a"] byte_split(4) [of "of_char b" "of_char a" "of_char c"]
      last_sextet [of "of_char c" "of_char b"]
    by (simp add: Let_def a2b_sextet del: a2b_base64.simps(2))
qed simp

lemma b64encode_Cons: "s \<noteq> [] \<Longrightarrow> \<exists>n cs. n < 64 \<and> b64encode s = b64_char n # cs"
  by (cases s rule: b64encode.cases) (auto simp: Let_def intro: b64_parts)

lemma b64decode_encode: "b64decode validate (b64encode s) = Some s"
proof (cases "s = []")
  case False
  then obtain n cs where "n < 64" "b64encode s = b64_char n # cs" using b64encode_Cons by blast
  then have "take 1 (b64encode s) \<noteq> ''=''" using b64_char_plain(1) by simp
  then show ?thesis by (simp add: b64decode_def a2b_b64encode)
qed (simp add: b64decode_def)

lemma b64encode_inject: "b64encode s = b64encode t \<longleftrightarrow> s = t"
  by (metis b64decode_encode option.inject)

lemma length_b64encode: "length (b64encode s) = 4 * ((length s + 2) div 3)"
proof (induction s rule: b64encode.induct)
  case (4 a b c s)
  have "(length s + 5) div 3 = Suc ((length s + 2) div 3)" by linarith
  then show ?case using "4.IH" by (simp add: Let_def add.commute)
qed (simp_all add: Let_def)

lemma b64encode_plain: "c \<in> set (b64encode s) \<Longrightarrow> c \<noteq> CHR ''-'' \<and> c \<noteq> CHR ''_''"
  by (induction s rule: b64encode.induct) (auto simp: Let_def b64_char_plain)

text \<open>The translation of the URL-safe alphabet to the standard one.\<close>

definition to_standard :: "string \<Rightarrow> string" where
  "to_standard s = replace_char (CHR ''_'') (CHR ''/'') (replace_char (CHR ''-'') (CHR ''+'') s)"

lemma to_standard_id: "(\<And>c. c \<in> set s \<Longrightarrow> c \<noteq> CHR ''-'' \<and> c \<noteq> CHR ''_'') \<Longrightarrow> to_standard s = s"
  unfolding to_standard_def replace_char_def by (induction s) auto

lemma canonicalize_of_decoded:
  assumes "to_standard s @ replicate k (CHR ''='') = b64encode raw" and "k < 4" and "length raw = 32"
  shows "canonicalize_pubkey_b64 s = Inr (b64encode raw)"
proof -
  have "length (to_standard s) + k = 44"
    using arg_cong [OF assms(1), of length] assms(3) by (simp add: length_b64encode)
  then have len: "int (length (to_standard s)) = 44 - int k" and "int k < 4" using assms(2) by linarith+
  then have "nat ((- int (length (to_standard s))) mod 4) = k"
  proof -
    have "(- int (length (to_standard s))) mod 4 = (int k + 4 * (- 11)) mod 4" unfolding len by (rule arg_cong [where f = "\<lambda>x. x mod 4"]) simp
    also have "\<dots> = int k mod 4" by (rule mod_mult_self2)
    also have "\<dots> = int k" using \<open>int k < 4\<close> by simp
    finally show ?thesis by simp
  qed
  then show ?thesis
    unfolding canonicalize_pubkey_b64_def Let_def to_standard_def [symmetric] assms(1)
    by (simp add: assms(1) b64decode_encode assms(3))
qed

lemma canonicalize_shape:
  assumes "canonicalize_pubkey_b64 s = Inr e"
  obtains raw where "length raw = 32" "e = b64encode raw"
  using assms by (auto simp: canonicalize_pubkey_b64_def Let_def split: option.splits if_splits)

text \<open>
  Public keys have one canonical text. Every text that spells a 32-byte key in the standard or the
  URL-safe alphabet, or a mixture, with or without its padding, is canonicalised to the base64 encoding of
  that key; two keys never share it; and a canonical text is left as it is. So the key stored by
  \<^verbatim>\<open>POST /register\<close> and the key looked up by \<^verbatim>\<open>GET /bootstrap-status\<close> are equal texts exactly when they
  are equal keys.
\<close>

theorem pubkey_text_is_canonical:
  assumes "length raw = 32" and "length raw' = 32"
    and "to_standard s = b64encode raw \<or> to_standard s @ ''='' = b64encode raw"
    and "to_standard s' = b64encode raw' \<or> to_standard s' @ ''='' = b64encode raw'"
  shows "canonicalize_pubkey_b64 s = Inr (b64encode raw)"
    and "canonicalize_pubkey_b64 s = canonicalize_pubkey_b64 s' \<longleftrightarrow> raw = raw'"
    and "canonicalize_pubkey_b64 (b64encode raw) = Inr (b64encode raw)"
proof -
  have form: "canonicalize_pubkey_b64 t = Inr (b64encode k)"
    if "length k = 32" "to_standard t = b64encode k \<or> to_standard t @ ''='' = b64encode k" for t k
    using that(2)
  proof
    assume "to_standard t = b64encode k"
    then show ?thesis using canonicalize_of_decoded [of t 0 k] that(1) by simp
  next
    assume "to_standard t @ ''='' = b64encode k"
    then show ?thesis using canonicalize_of_decoded [of t 1 k] that(1) by simp
  qed
  show s: "canonicalize_pubkey_b64 s = Inr (b64encode raw)" using form [OF assms(1,3)] .
  show "canonicalize_pubkey_b64 s = canonicalize_pubkey_b64 s' \<longleftrightarrow> raw = raw'"
    using s form [OF assms(2,4)] by (simp add: b64encode_inject)
  show "canonicalize_pubkey_b64 (b64encode raw) = Inr (b64encode raw)"
    by (rule form [OF assms(1)]) (simp add: to_standard_id b64encode_plain)
qed

lemma sample_keys:
  "to_standard (''__8'' @ replicate 40 (CHR ''A'')) @ ''='' = b64encode (CHR 0xFF # CHR 0xFF # replicate 30 (CHR 0x00))"
  "to_standard (b64encode (replicate 32 (CHR 0x00))) = b64encode (replicate 32 (CHR 0x00))"
  by code_simp+

theorem pubkey_text_is_canonical_witness:
  "canonicalize_pubkey_b64 (''__8'' @ replicate 40 (CHR ''A'')) = Inr (''//8'' @ replicate 40 (CHR ''A'') @ ''='')
   \<and> canonicalize_pubkey_b64 (''__8'' @ replicate 40 (CHR ''A''))
     \<noteq> canonicalize_pubkey_b64 (b64encode (replicate 32 (CHR 0x00)))"
proof -
  let ?k = "CHR 0xFF # CHR 0xFF # replicate 30 (CHR 0x00)" and ?z = "replicate 32 (CHR 0x00)"
  note c = pubkey_text_is_canonical [of ?k ?z "''__8'' @ replicate 40 (CHR ''A'')" "b64encode ?z",
    OF _ _ disjI2 [OF sample_keys(1)] disjI1 [OF sample_keys(2)]]
  have "?k \<noteq> ?z" by (simp add: numeral_eq_Suc)
  moreover have "b64encode ?k = ''//8'' @ replicate 40 (CHR ''A'') @ ''=''" by code_simp
  ultimately show ?thesis using c(1,2) by simp
qed

section \<open>Pairing codes\<close>

definition CROCKFORD_ALPHA :: string where
  "CROCKFORD_ALPHA = ''0123456789ABCDEFGHJKMNPQRSTVWXYZ''"

definition SHORT_CODE_LEN :: nat where "SHORT_CODE_LEN = 8"

text \<open>\<^verbatim>\<open>c.upper()\<close> on ASCII.\<close>

definition upper_char :: "char \<Rightarrow> char" where
  "upper_char c = (if (97 :: nat) \<le> of_char c \<and> of_char c \<le> (122 :: nat) then char_of (of_char c - 32 :: nat) else c)"

definition normalize_pairing_secret :: "string \<Rightarrow> string" where
  "normalize_pairing_secret raw =
     (let stripped = strip raw;
          candidate = filter (\<lambda>c. c \<notin> {CHR '' '', CHR ''-'', CHR 0x09}) stripped
      in if length candidate \<noteq> SHORT_CODE_LEN then stripped
         else let upper = map upper_char candidate;
                  fixed = replace_char (CHR ''O'') (CHR ''0'')
                    (replace_char (CHR ''L'') (CHR ''1'') (replace_char (CHR ''I'') (CHR ''1'') upper))
              in if list_all (\<lambda>c. c \<in> set CROCKFORD_ALPHA) fixed then fixed else stripped)"

text \<open>How a typed character is read, and the ways of writing a code: surrounded by white space, with
  blanks, tabs and hyphens anywhere, in either case and with the confusable letters.\<close>

definition separator :: "char \<Rightarrow> bool" where
  "separator c \<longleftrightarrow> c \<in> {CHR '' '', CHR ''-'', CHR 0x09}"

definition read_code_char :: "char \<Rightarrow> char" where
  "read_code_char c = (let u = upper_char c in
     if u = CHR ''I'' \<or> u = CHR ''L'' then CHR ''1'' else if u = CHR ''O'' then CHR ''0'' else u)"

definition short_code :: "string \<Rightarrow> bool" where
  "short_code code \<longleftrightarrow> length code = SHORT_CODE_LEN \<and> set code \<subseteq> set CROCKFORD_ALPHA"

definition writes_code :: "string \<Rightarrow> string \<Rightarrow> bool" where
  "writes_code code s \<longleftrightarrow> (\<exists>p body q. s = p @ body @ q \<and> list_all whitespace p \<and> list_all whitespace q
     \<and> map read_code_char (filter (\<lambda>c. \<not> separator c) body) = code)"

lemma fixups_read:
  "replace_char (CHR ''O'') (CHR ''0'') (replace_char (CHR ''L'') (CHR ''1'') (replace_char (CHR ''I'') (CHR ''1'') (map upper_char s)))
   = map read_code_char s"
  by (auto simp: replace_char_def read_code_char_def Let_def)

lemma normalize_alt:
  "normalize_pairing_secret raw =
     (let code = map read_code_char (filter (\<lambda>c. \<not> separator c) (strip raw))
      in if short_code code then code else strip raw)"
  unfolding normalize_pairing_secret_def Let_def fixups_read separator_def short_code_def
  by (auto simp: list_all_iff subset_iff)

lemma strip_split: "\<exists>p q. s = p @ strip s @ q \<and> list_all whitespace p \<and> list_all whitespace q"
proof -
  let ?t = "dropWhile whitespace s"
  have "?t = strip s @ rev (takeWhile whitespace (rev ?t))"
    unfolding strip_def by (metis rev_append rev_rev_ident takeWhile_dropWhile_id)
  moreover have "s = takeWhile whitespace s @ ?t" by simp
  ultimately have "s = takeWhile whitespace s @ strip s @ rev (takeWhile whitespace (rev ?t))" by metis
  then show ?thesis by (metis list_all_iff set_rev set_takeWhileD)
qed

lemma read_space: "whitespace c \<Longrightarrow> read_code_char c \<notin> set CROCKFORD_ALPHA"
proof -
  assume "whitespace c"
  then have r: "read_code_char c = c"
    by (auto simp: whitespace_def read_code_char_def upper_char_def Let_def)
  moreover have "\<not> whitespace d" if "d \<in> set CROCKFORD_ALPHA" for d
  proof -
    have "list_all (\<lambda>d. \<not> whitespace d) CROCKFORD_ALPHA" by code_simp
    then show ?thesis using that by (simp add: list_all_iff)
  qed
  ultimately show ?thesis using \<open>whitespace c\<close> by auto
qed

lemma filter_dropWhile:
  "(\<And>x. x \<in> set xs \<Longrightarrow> P x \<Longrightarrow> \<not> Q x) \<Longrightarrow> filter P (dropWhile Q xs) = filter P xs"
  by (induction xs) auto

lemma filter_strip:
  assumes "\<And>c. c \<in> set s \<Longrightarrow> P c \<Longrightarrow> \<not> whitespace c"
  shows "filter P (strip s) = filter P s"
proof -
  let ?t = "dropWhile whitespace s"
  have "filter P (strip s) = rev (filter P (dropWhile whitespace (rev ?t)))" by (simp add: strip_def rev_filter)
  also have "\<dots> = filter P ?t"
    using assms set_dropWhileD [of _ whitespace s] by (subst filter_dropWhile) (auto simp: rev_filter)
  also have "\<dots> = filter P s" using assms by (rule filter_dropWhile)
  finally show ?thesis .
qed

lemma dropWhile_pad: "list_all Q p \<Longrightarrow> dropWhile Q (p @ s) = dropWhile Q s"
  by (induction p) auto

lemma strip_pad: "list_all whitespace p \<Longrightarrow> list_all whitespace q \<Longrightarrow> strip (p @ s @ q) = strip s"
proof -
  assume p: "list_all whitespace p" and q: "list_all whitespace q"
  have "dropWhile whitespace (rev (dropWhile whitespace (s @ q))) = dropWhile whitespace (rev (dropWhile whitespace s))"
  proof (cases "list_all whitespace s")
    case True
    then have e: "dropWhile whitespace (s @ q) = []" "dropWhile whitespace s = []"
      using q by (simp_all only: dropWhile_eq_Nil_conv list_all_iff set_append ball_Un)
    then show ?thesis by (simp only: e)
  next
    case False
    then have "dropWhile whitespace (s @ q) = dropWhile whitespace s @ q"
      by (auto simp: list_all_iff intro: dropWhile_append1)
    then show ?thesis using q by (simp add: dropWhile_pad list_all_iff)
  qed
  then show ?thesis by (simp add: strip_def dropWhile_pad [OF p])
qed

lemma normalize_writes:
  assumes "short_code code"
  shows "normalize_pairing_secret s = code \<longleftrightarrow> writes_code code s"
proof
  assume n: "normalize_pairing_secret s = code"
  let ?read = "map read_code_char (filter (\<lambda>c. \<not> separator c) (strip s))"
  obtain p q where s: "s = p @ strip s @ q" "list_all whitespace p" "list_all whitespace q"
    using strip_split by metis
  have "?read = code"
  proof (cases "short_code ?read")
    case True
    then show ?thesis using n by (simp add: normalize_alt)
  next
    case False
    then have c: "strip s = code" using n by (simp add: normalize_alt Let_def)
    have "list_all (\<lambda>c. \<not> separator c \<and> read_code_char c = c) CROCKFORD_ALPHA" by code_simp
    then have "\<not> separator c \<and> read_code_char c = c" if "c \<in> set code" for c
      using that assms by (auto simp: list_all_iff short_code_def)
    then have "filter (\<lambda>c. \<not> separator c) code = code" "map read_code_char code = code"
      by (auto simp: filter_id_conv map_idI)
    then show ?thesis unfolding c by simp
  qed
  then show "writes_code code s" using s unfolding writes_code_def by blast
next
  assume "writes_code code s"
  then obtain p body q where s: "s = p @ body @ q" "list_all whitespace p" "list_all whitespace q"
    and read: "map read_code_char (filter (\<lambda>c. \<not> separator c) body) = code"
    unfolding writes_code_def by blast
  have "\<not> whitespace c" if "c \<in> set body" "\<not> separator c" for c
  proof -
    have "read_code_char c \<in> set (map read_code_char (filter (\<lambda>c. \<not> separator c) body))" using that by auto
    then have "read_code_char c \<in> set CROCKFORD_ALPHA" using assms unfolding read short_code_def by blast
    then show ?thesis using read_space by blast
  qed
  then have "filter (\<lambda>c. \<not> separator c) (strip body) = filter (\<lambda>c. \<not> separator c) body" by (rule filter_strip)
  then show "normalize_pairing_secret s = code"
    using assms read by (simp add: normalize_alt s(1) strip_pad [OF s(2,3)])
qed

text \<open>
  C30. Adoption by typed code. A code typed by an operator is normalised to the code shown by the device
  exactly when it writes that code: in upper or lower case, with blanks, tabs or hyphens anywhere, with
  \<open>I\<close> and \<open>L\<close> for one and \<open>O\<close> for zero, and nothing else. So each device code is reached by all its
  spellings and by no spelling of another code.
\<close>

theorem typed_code_exact:
  assumes "short_code code"
  shows "normalize_pairing_secret s = code \<longleftrightarrow> writes_code code s"
  by (rule normalize_writes [OF assms])

theorem typed_code_exact_witness:
  "normalize_pairing_secret ('' ab1o-xyIl'' @ [CHR 0x0A]) = ''AB10XY11'' \<and> short_code ''AB10XY11''"
proof -
  have "writes_code ''AB10XY11'' ('' ab1o-xyIl'' @ [CHR 0x0A])"
    unfolding writes_code_def
    by (rule exI [of _ "'' ''"], rule exI [of _ "''ab1o-xyIl''"], rule exI [of _ "[CHR 0x0A]"]) code_simp
  moreover have c: "short_code ''AB10XY11''" by code_simp
  ultimately show ?thesis using typed_code_exact [OF c] by blast
qed

section \<open>Canonical messages are unambiguous\<close>

lemma first_separator:
  assumes "a @ c # x = b @ c # y" and "c \<notin> set a"
  shows "(b = a \<and> x = y) \<or> (\<exists>w. b = a @ c # w \<and> x = w @ c # y)"
  using assms
proof (induction a arbitrary: b)
  case Nil
  then show ?case by (cases b) auto
next
  case (Cons z a)
  then obtain b' where b: "b = z # b'" by (cases b) auto
  have "a @ c # x = b' @ c # y" "c \<notin> set a" using Cons.prems b by simp_all
  from Cons.IH [OF this] b show ?case by simp
qed

lemma split_cases:
  "a @ c # x = b @ c # y \<Longrightarrow>
     a = b \<or> (\<exists>w. b = a @ c # w \<and> x = w @ c # y) \<or> (\<exists>w. a = b @ c # w \<and> y = w @ c # x)"
proof (induction a arbitrary: b)
  case Nil
  then show ?case by (cases b) auto
next
  case (Cons z a)
  then show ?case by (cases b) auto
qed

lemma same_separator:
  "a @ c # x = b @ c # y \<Longrightarrow> c \<notin> set a \<Longrightarrow> c \<notin> set b \<Longrightarrow> a = b \<and> x = y"
  using first_separator by fastforce

definition hex_char :: "char \<Rightarrow> bool" where
  "hex_char c \<longleftrightarrow> (let n = of_char c :: nat in (48 \<le> n \<and> n \<le> 57) \<or> (65 \<le> n \<and> n \<le> 70) \<or> (97 \<le> n \<and> n \<le> 102))"

lemma hex_char_plain: "hex_char c \<Longrightarrow> c \<notin> {CHR ''|'', CHR ''-'', CHR ''_'', CHR ''=''} \<and> b64_value c \<noteq> None"
  by (auto simp: hex_char_def b64_value_def Let_def)

lemma a2b_length:
  assumes "a2b_base64 True quad left pads started cs = Some out" "quad < 4"
  shows "4 * (length out + (quad - 1)) \<le> 3 * (quad + length cs)"
  using assms
proof (induction cs arbitrary: quad left pads started out)
  case (Cons c cs)
  consider "c = CHR ''=''" | v where "c \<noteq> CHR ''=''" "b64_value c = Some v" "\<not> started"
    using Cons.prems(1) by (cases "b64_value c") (auto split: if_splits)
  then show ?case
  proof cases
    case 1
    show ?thesis
    proof (cases "2 \<le> quad \<and> 4 \<le> quad + pads + 1")
      case True
      then show ?thesis using Cons.prems 1 by (auto split: if_splits)
    next
      case False
      then obtain p where "a2b_base64 True quad left p True cs = Some out"
        using Cons.prems(1) 1 by (auto split: if_splits)
      from Cons.IH [OF this Cons.prems(2)] show ?thesis by simp
    qed
  next
    case 2
    have "quad = 0 \<or> quad = 1 \<or> quad = 2 \<or> quad = 3" using Cons.prems(2) by arith
    then show ?thesis
    proof (elim disjE)
      assume "quad = 0"
      then have "a2b_base64 True 1 v 0 started cs = Some out" using Cons.prems(1) 2 by simp
      from Cons.IH [OF this] show ?thesis using \<open>quad = 0\<close> by simp
    next
      assume "quad = 1"
      then obtain o' where "a2b_base64 True 2 (v mod 16) 0 started cs = Some o'" "length out = Suc (length o')"
        using Cons.prems(1) 2 by auto
      with Cons.IH [OF this(1)] show ?thesis using \<open>quad = 1\<close> by simp
    next
      assume "quad = 2"
      then obtain o' where "a2b_base64 True 3 (v mod 4) 0 started cs = Some o'" "length out = Suc (length o')"
        using Cons.prems(1) 2 by auto
      with Cons.IH [OF this(1)] show ?thesis using \<open>quad = 2\<close> by simp
    next
      assume "quad = 3"
      then obtain o' where "a2b_base64 True 0 0 0 started cs = Some o'" "length out = Suc (length o')"
        using Cons.prems(1) 2 by auto
      with Cons.IH [OF this(1)] show ?thesis using \<open>quad = 3\<close> by simp
    qed
  qed
qed (auto split: if_splits)

lemma a2b_length_data:
  assumes "a2b_base64 True quad left pads False cs = Some out" "quad < 4" "\<And>c. c \<in> set cs \<Longrightarrow> hex_char c"
  shows "4 * (length out + (quad - 1)) = 3 * (quad + length cs)"
  using assms
proof (induction cs arbitrary: quad left pads out)
  case (Cons c cs)
  obtain v where v: "c \<noteq> CHR ''=''" "b64_value c = Some v" using hex_char_plain [of c] Cons.prems(3) by auto
  have hex: "\<And>d. d \<in> set cs \<Longrightarrow> hex_char d" using Cons.prems(3) by simp
  note IH = Cons.IH [OF _ _ hex]
  have "quad = 0 \<or> quad = 1 \<or> quad = 2 \<or> quad = 3" using Cons.prems(2) by arith
  then show ?case
  proof (elim disjE)
    assume "quad = 0"
    then have "a2b_base64 True 1 v 0 False cs = Some out" using Cons.prems(1) v by simp
    from IH [OF this] show ?thesis using \<open>quad = 0\<close> by simp
  next
    assume "quad = 1"
    then obtain o' where "a2b_base64 True 2 (v mod 16) 0 False cs = Some o'" "length out = Suc (length o')"
      using Cons.prems(1) v by auto
    with IH [OF this(1)] show ?thesis using \<open>quad = 1\<close> by simp
  next
    assume "quad = 2"
    then obtain o' where "a2b_base64 True 3 (v mod 4) 0 False cs = Some o'" "length out = Suc (length o')"
      using Cons.prems(1) v by auto
    with IH [OF this(1)] show ?thesis using \<open>quad = 2\<close> by simp
  next
    assume "quad = 3"
    then obtain o' where "a2b_base64 True 0 0 0 False cs = Some o'" "length out = Suc (length o')"
      using Cons.prems(1) v by auto
    with IH [OF this(1)] show ?thesis using \<open>quad = 3\<close> by simp
  qed
qed (auto split: if_splits)

lemma length_to_standard [simp]: "length (to_standard s) = length s"
  by (simp add: to_standard_def replace_char_def)

lemma canonicalize_decodes:
  assumes "canonicalize_pubkey_b64 s = Inr e"
  obtains raw where "b64decode True (to_standard s @ replicate (nat ((- int (length s)) mod 4)) (CHR ''='')) = Some raw"
    "length raw = 32"
  using assms by (auto simp: canonicalize_pubkey_b64_def Let_def to_standard_def [symmetric] split: option.splits if_splits)

lemma pubkey_length: "canonicalize_pubkey_b64 s = Inr e \<Longrightarrow> 40 \<le> length s"
proof -
  assume "canonicalize_pubkey_b64 s = Inr e"
  then obtain raw where d: "b64decode True (to_standard s @ replicate (nat ((- int (length s)) mod 4)) (CHR ''='')) = Some raw"
    and l: "length raw = 32" by (rule canonicalize_decodes)
  have "4 * 32 \<le> 3 * (length s + nat ((- int (length s)) mod 4))"
    using a2b_length [of 0 0 0 False "to_standard s @ replicate (nat ((- int (length s)) mod 4)) (CHR ''='')" raw] d l
    by (simp add: b64decode_def split: if_splits)
  moreover have "n < 4 \<Longrightarrow> 4 * 32 \<le> 3 * (length s + n) \<Longrightarrow> 40 \<le> length s" for n by presburger
  moreover have "nat ((- int (length s)) mod 4) < 4" by simp
  ultimately show ?thesis by blast
qed

lemma hash_is_no_pubkey:
  assumes "length s = 64" "list_all hex_char s"
  shows "canonicalize_pubkey_b64 s \<noteq> Inr e"
proof
  assume "canonicalize_pubkey_b64 s = Inr e"
  then obtain raw where d: "b64decode True (to_standard s @ replicate (nat ((- int (length s)) mod 4)) (CHR ''='')) = Some raw"
    and l: "length raw = 32" by (rule canonicalize_decodes)
  have "to_standard s = s" using assms(2) hex_char_plain by (intro to_standard_id) (auto simp: list_all_iff)
  then have "a2b_base64 True 0 0 0 False s = Some raw" using d assms(1) by (simp add: b64decode_def split: if_splits)
  from a2b_length_data [OF this] show False using assms l by (simp add: list_all_iff)
qed

lemma a2b_strict_chars:
  "a2b_base64 True quad left pads started cs = Some out \<Longrightarrow> c \<in> set cs \<Longrightarrow> c = CHR ''='' \<or> b64_value c \<noteq> None"
proof (induction cs arbitrary: quad left pads started out)
  case (Cons d cs)
  show ?case
  proof (cases "c \<in> set cs")
    case True
    have "\<exists>q l p st o'. a2b_base64 True q l p st cs = Some o'"
      using Cons.prems(1) True by (simp split: if_splits option.splits) blast+
    then show ?thesis using Cons.IH True by blast
  next
    case False
    then show ?thesis using Cons.prems by (auto split: if_splits option.splits)
  qed
qed simp

lemma pubkey_no_pipe: "canonicalize_pubkey_b64 s = Inr e \<Longrightarrow> CHR ''|'' \<notin> set s"
proof
  assume "canonicalize_pubkey_b64 s = Inr e" and pipe: "CHR ''|'' \<in> set s"
  then obtain raw where "b64decode True (to_standard s @ replicate (nat ((- int (length s)) mod 4)) (CHR ''='')) = Some raw"
    using canonicalize_decodes by metis
  moreover have "CHR ''|'' \<in> set (to_standard s)"
    using pipe by (force simp: to_standard_def replace_char_def image_iff)
  ultimately have "b64_value (CHR ''|'') \<noteq> None"
    using a2b_strict_chars [of 0 0 0 False _ raw "CHR ''|''"] by (fastforce simp: b64decode_def split: if_splits)
  then show False by code_simp
qed

lemma int_text_no_pipe: "0 \<le> t \<Longrightarrow> CHR ''|'' \<notin> set (int_text t)"
proof -
  have "CHR ''|'' \<notin> set (nat_text n)" if "0 \<le> n" for n
    using that
  proof (induction n rule: nat_text.induct)
    case (1 n)
    have digit: "digit_char d \<noteq> CHR ''|''" if "0 \<le> d" "d < 10" for d
      using digit_char_value [OF that] that by auto
    show ?case
    proof (cases "n < 10")
      case True
      then show ?thesis using digit [of n] 1 by (auto simp: nat_text.simps [of n])
    next
      case False
      then show ?thesis using digit [of "n mod 10"] 1
        by (auto simp: nat_text.simps [of n] pos_imp_zdiv_nonneg_iff)
    qed
  qed
  then show "0 \<le> t \<Longrightarrow> CHR ''|'' \<notin> set (int_text t)" by (simp add: int_text_def)
qed

text \<open>What the request schema and the checks after the MAC ensure of an accepted registration.\<close>

definition register_fields_ok :: "string \<Rightarrow> string \<Rightarrow> string \<Rightarrow> string \<Rightarrow> int \<Rightarrow> bool" where
  "register_fields_ok device_id pubkey pairing_secret_hash fleet_id ts \<longleftrightarrow>
     length device_id \<le> 64 \<and> (\<exists>e. canonicalize_pubkey_b64 pubkey = Inr e)
     \<and> length pairing_secret_hash = 64 \<and> list_all hex_char pairing_secret_hash
     \<and> CHR ''|'' \<notin> set fleet_id \<and> 0 \<le> ts"

lemma register_fields_plain:
  assumes "register_fields_ok d p h f t"
  shows "CHR ''|'' \<notin> set p" "CHR ''|'' \<notin> set h" "CHR ''|'' \<notin> set f" "CHR ''|'' \<notin> set (int_text t)"
    "40 \<le> length p" "length h = 64" "length d \<le> 64" "list_all hex_char h" "0 \<le> t"
proof -
  obtain e where e: "canonicalize_pubkey_b64 p = Inr e" using assms by (auto simp: register_fields_ok_def)
  show "CHR ''|'' \<notin> set p" "40 \<le> length p" using pubkey_no_pipe [OF e] pubkey_length [OF e] .
  have h: "length h = 64" "list_all hex_char h" using assms by (simp_all add: register_fields_ok_def)
  show "length h = 64" by (rule h(1))
  show "list_all hex_char h" by (rule h(2))
  show "CHR ''|'' \<notin> set h" using h(2) hex_char_plain [of "CHR ''|''"] by (auto simp: list_all_iff)
  show "CHR ''|'' \<notin> set f" "length d \<le> 64" "0 \<le> t" "CHR ''|'' \<notin> set (int_text t)"
    using assms int_text_no_pipe by (simp_all add: register_fields_ok_def)
qed

lemma device_id_prefix:
  assumes ok: "register_fields_ok d p h f t" "register_fields_ok d' p' h' f' t'"
    and d': "d' = d @ CHR ''|'' # w" and eq: "p @ CHR ''|'' # h @ CHR ''|'' # r = w @ CHR ''|'' # p' @ CHR ''|'' # r'"
  shows False
proof -
  note p = register_fields_plain [OF ok(1)] and p' = register_fields_plain [OF ok(2)]
  from first_separator [OF eq p(1)] show False
  proof (elim disjE exE conjE)
    assume "h @ CHR ''|'' # r = p' @ CHR ''|'' # r'"
    then have "h = p'" using same_separator [OF _ p(2) p'(1)] by blast
    then show False using ok(2) hash_is_no_pubkey [OF p(6,8)] by (auto simp: register_fields_ok_def)
  next
    fix v assume v: "w = p @ CHR ''|'' # v" "h @ CHR ''|'' # r = v @ CHR ''|'' # p' @ CHR ''|'' # r'"
    have "length h \<le> length v" using first_separator [OF v(2) p(2)] by auto
    then have "64 < length d'" using v(1) d' p(5,6) by simp
    then show False using p'(7) by simp
  qed
qed

text \<open>
  The registration MAC covers its fields. The fields are joined by an unescaped bar and the device id and the
  nonce are free text, yet two registrations that pass the request schema have the same MAC input only
  when all their fields agree: a device id is too short to swallow a key and a pairing hash, and a pairing
  hash is not the text of a key. So a MAC never vouches for a request its sender did not build.
\<close>

theorem fleet_mac_unambiguous:
  assumes "register_fields_ok d p h f t" and "register_fields_ok d' p' h' f' t'"
    and "fleet_hmac_input d p h f (int_text t) n = fleet_hmac_input d' p' h' f' (int_text t') n'"
  shows "d = d' \<and> p = p' \<and> h = h' \<and> f = f' \<and> t = t' \<and> n = n'"
proof -
  let ?b = "CHR ''|''"
  have eq: "d @ ?b # p @ ?b # h @ ?b # f @ ?b # int_text t @ ?b # n
      = d' @ ?b # p' @ ?b # h' @ ?b # f' @ ?b # int_text t' @ ?b # n'"
    using assms(3) by (simp add: fleet_hmac_input_def)
  from split_cases [OF eq] consider (same) "d = d'" | (left) w where "d' = d @ ?b # w"
      "p @ ?b # h @ ?b # f @ ?b # int_text t @ ?b # n = w @ ?b # p' @ ?b # h' @ ?b # f' @ ?b # int_text t' @ ?b # n'"
    | (right) w where "d = d' @ ?b # w"
      "p' @ ?b # h' @ ?b # f' @ ?b # int_text t' @ ?b # n' = w @ ?b # p @ ?b # h @ ?b # f @ ?b # int_text t @ ?b # n"
    by blast
  then show ?thesis
  proof cases
    case same
    note ok = register_fields_plain [OF assms(1)] and ok' = register_fields_plain [OF assms(2)]
    have "p @ ?b # h @ ?b # f @ ?b # int_text t @ ?b # n = p' @ ?b # h' @ ?b # f' @ ?b # int_text t' @ ?b # n'"
      using eq same by simp
    from same_separator [OF this ok(1) ok'(1)] have p: "p = p'"
      and "h @ ?b # f @ ?b # int_text t @ ?b # n = h' @ ?b # f' @ ?b # int_text t' @ ?b # n'" by blast+
    from same_separator [OF this(2) ok(2) ok'(2)] have h: "h = h'"
      and "f @ ?b # int_text t @ ?b # n = f' @ ?b # int_text t' @ ?b # n'" by blast+
    from same_separator [OF this(2) ok(3) ok'(3)] have f: "f = f'" and "int_text t @ ?b # n = int_text t' @ ?b # n'" by blast+
    from same_separator [OF this(2) ok(4) ok'(4)] have "int_text t = int_text t'" "n = n'" by blast+
    moreover have "t = t'" using int_text_inject [OF ok(9) ok'(9)] \<open>int_text t = int_text t'\<close> .
    ultimately show ?thesis using same p h f by blast
  next
    case left
    then show ?thesis using device_id_prefix [OF assms(1,2) left] by blast
  next
    case right
    then show ?thesis using device_id_prefix [OF assms(2,1) right] by blast
  qed
qed

theorem fleet_mac_unambiguous_witness:
  "fleet_hmac_input ''a|b'' (replicate 43 (CHR ''A'')) (replicate 64 (CHR ''0'')) ''f'' (int_text 7) ''n''
   \<noteq> fleet_hmac_input ''a'' (replicate 43 (CHR ''A'')) (replicate 64 (CHR ''0'')) ''f'' (int_text 7) ''b|n''"
proof
  let ?k = "replicate 43 (CHR ''A'')" and ?h = "replicate 64 (CHR ''0'')"
  assume eq: "fleet_hmac_input ''a|b'' ?k ?h ''f'' (int_text 7) ''n'' = fleet_hmac_input ''a'' ?k ?h ''f'' (int_text 7) ''b|n''"
  have "canonicalize_pubkey_b64 ?k = Inr (replicate 43 (CHR ''A'') @ ''='')" by code_simp
  then have "register_fields_ok ''a|b'' ?k ?h ''f'' 7" "register_fields_ok ''a'' ?k ?h ''f'' 7"
    by (simp_all add: register_fields_ok_def hex_char_def list_all_iff)
  from fleet_mac_unambiguous [OF this eq] show False by simp
qed

text \<open>
  The connect-token message has the device id as its only free part, so it is read from the right.
\<close>

lemma connect_token_unambiguous:
  assumes "connect_token_canonical_bytes d (int_text t) n = connect_token_canonical_bytes d' (int_text t') n'"
    and "0 \<le> t" "0 \<le> t'" "CHR ''|'' \<notin> set n" "CHR ''|'' \<notin> set n'"
  shows "d = d' \<and> t = t' \<and> n = n'"
proof -
  let ?b = "CHR ''|''"
  have "rev n @ ?b # rev (int_text t) @ ?b # rev d = rev n' @ ?b # rev (int_text t') @ ?b # rev d'"
    using arg_cong [OF assms(1), of rev] by (simp add: connect_token_canonical_bytes_def)
  from same_separator [OF this] have n: "n = n'" and "rev (int_text t) @ ?b # rev d = rev (int_text t') @ ?b # rev d'"
    using assms(4,5) by auto
  from same_separator [OF this(2)] have "int_text t = int_text t'" "d = d'"
    using int_text_no_pipe assms(2,3) by auto
  then show ?thesis using n int_text_inject [OF assms(2,3)] by blast
qed

section \<open>Nonce cache\<close>

record nonce_cache =
  nc_ttl :: int
  nc_entries :: "(string \<times> string, int) dict"

definition nonce_cache_init :: "int \<Rightarrow> nonce_cache" where
  "nonce_cache_init ttl_seconds = \<lparr>nc_ttl = ttl_seconds, nc_entries = []\<rparr>"

definition gc_locked :: "int \<Rightarrow> nonce_cache \<Rightarrow> nonce_cache" where
  "gc_locked now c = c\<lparr>nc_entries := filter (\<lambda>(k, expires_at). \<not> expires_at \<le> now) (nc_entries c)\<rparr>"

definition seen :: "int \<Rightarrow> string \<Rightarrow> string \<Rightarrow> nonce_cache \<Rightarrow> bool \<times> nonce_cache" where
  "seen now scope nonce c = (let c' = gc_locked now c in (map_of (nc_entries c') (scope, nonce) \<noteq> None, c'))"

definition record_nonce :: "int \<Rightarrow> string \<Rightarrow> string \<Rightarrow> nonce_cache \<Rightarrow> nonce_cache" where
  "record_nonce now scope nonce c =
     c\<lparr>nc_entries := dict_set (scope, nonce) (now + nc_ttl c * 1000000) (nc_entries c)\<rparr>"

definition check_and_record :: "int \<Rightarrow> string \<Rightarrow> string \<Rightarrow> nonce_cache \<Rightarrow> bool \<times> nonce_cache" where
  "check_and_record now scope nonce c =
     (let c' = gc_locked now c in
      if map_of (nc_entries c') (scope, nonce) \<noteq> None then (False, c')
      else (True, c'\<lparr>nc_entries := dict_set (scope, nonce) (now + nc_ttl c' * 1000000) (nc_entries c')\<rparr>))"

text \<open>What the cache remembers: the accepted nonces whose lifetime has not passed, and when.\<close>

definition remembers :: "nonce_cache \<Rightarrow> int \<Rightarrow> ((string \<times> string) \<times> int) list \<Rightarrow> bool" where
  "remembers c now accepted \<longleftrightarrow> dict_ok (nc_entries c)
     \<and> (\<forall>k t. (k, t) \<in> set accepted \<and> now < t + nc_ttl c * 1000000 \<longrightarrow>
          map_of (nc_entries c) k = Some (t + nc_ttl c * 1000000))"

lemma remembersD:
  "remembers c now accepted \<Longrightarrow> (k, t) \<in> set accepted \<Longrightarrow> now < t + nc_ttl c * 1000000
     \<Longrightarrow> map_of (nc_entries c) k = Some (t + nc_ttl c * 1000000)"
  unfolding remembers_def by blast

lemma map_of_gc:
  "dict_ok (nc_entries c) \<Longrightarrow> map_of (nc_entries (gc_locked now c)) k =
     (case map_of (nc_entries c) k of Some e \<Rightarrow> if e \<le> now then None else Some e | None \<Rightarrow> None)"
  by (auto simp: gc_locked_def map_of_filter_dict split: option.splits)

lemma gc_ttl [simp]: "nc_ttl (gc_locked now c) = nc_ttl c" by (simp add: gc_locked_def)

lemma remembers_gc:
  assumes "remembers c now accepted" "now \<le> now'"
  shows "remembers (gc_locked now' c) now' accepted"
proof -
  have "dict_ok (nc_entries (gc_locked now' c))"
    using assms(1) by (simp add: remembers_def gc_locked_def)
  moreover have "map_of (nc_entries (gc_locked now' c)) k = Some (t + nc_ttl c * 1000000)"
    if "(k, t) \<in> set accepted" "now' < t + nc_ttl c * 1000000" for k t
  proof -
    have "now < t + nc_ttl c * 1000000" using that(2) assms(2) by simp
    then have "map_of (nc_entries c) k = Some (t + nc_ttl c * 1000000)"
      using remembersD [OF assms(1) that(1)] by simp
    then show ?thesis using assms(1) that(2) by (simp add: map_of_gc remembers_def)
  qed
  ultimately show ?thesis by (simp add: remembers_def)
qed

lemma check_and_record_step:
  assumes "remembers c now accepted" "now \<le> now'" "check_and_record now' scope nonce c = (ok, c')"
  shows "remembers c' now' (if ok then accepted @ [((scope, nonce), now')] else accepted)"
    and "ok \<Longrightarrow> ((scope, nonce), t) \<in> set accepted \<Longrightarrow> t + nc_ttl c * 1000000 \<le> now'"
    and "nc_ttl c' = nc_ttl c"
proof -
  note g = remembers_gc [OF assms(1,2)]
  show ttl: "nc_ttl c' = nc_ttl c"
    using assms(3) by (auto simp: check_and_record_def Let_def split: if_splits)
  have fresh: "t + nc_ttl c * 1000000 \<le> now'" if "ok" "((scope, nonce), t) \<in> set accepted" for t
  proof (rule ccontr)
    assume "\<not> ?thesis"
    then have "map_of (nc_entries (gc_locked now' c)) (scope, nonce) \<noteq> None"
      using g that(2) unfolding remembers_def by force
    then show False using assms(3) that(1) by (simp add: check_and_record_def Let_def)
  qed
  then show "ok \<Longrightarrow> ((scope, nonce), t) \<in> set accepted \<Longrightarrow> t + nc_ttl c * 1000000 \<le> now'" .
  show "remembers c' now' (if ok then accepted @ [((scope, nonce), now')] else accepted)"
  proof (cases ok)
    case True
    then have c': "c' = (gc_locked now' c)\<lparr>nc_entries := dict_set (scope, nonce) (now' + nc_ttl c * 1000000)
        (nc_entries (gc_locked now' c))\<rparr>"
      using assms(3) by (auto simp: check_and_record_def Let_def split: if_splits)
    have "map_of (nc_entries c') k = Some (t + nc_ttl c * 1000000)"
      if "(k, t) \<in> set (accepted @ [((scope, nonce), now')])" "now' < t + nc_ttl c * 1000000" for k t
    proof (cases "k = (scope, nonce)")
      case True
      then have "t = now'" using that fresh [OF \<open>ok\<close>, of t] by force
      then show ?thesis using True by (simp add: c')
    next
      case False
      then have "(k, t) \<in> set accepted" using that(1) by simp
      then show ?thesis using False remembersD [OF g, of k t] that(2) by (simp add: c')
    qed
    then show ?thesis using True g by (simp add: remembers_def ttl) (simp add: c')
  next
    case False
    then have "c' = gc_locked now' c" using assms(3) by (auto simp: check_and_record_def Let_def split: if_splits)
    then show ?thesis using False g by simp
  qed
qed

section \<open>Rate limits\<close>

text \<open>\<^verbatim>\<open>_client_ip\<close>: the first entry of X-Forwarded-For, else the peer address.\<close>

definition client_ip :: "string option \<Rightarrow> string option \<Rightarrow> string option" where
  "client_ip xff client_host =
     (let first = (case xff of None \<Rightarrow> '''' | Some h \<Rightarrow> strip (takeWhile (\<lambda>c. c \<noteq> CHR '','') h))
      in if first \<noteq> '''' then Some first else client_host)"

type_synonym bucket_key = "string \<times> string"
type_synonym buckets = "(bucket_key, int list) dict"

text \<open>
  The sliding window shared by \<^verbatim>\<open>_ip_ratelimited\<close> and the per-user limit of the adoption handlers.
  Instants are those of the monotonic clock, in microseconds; the popped timestamps are dropped also
  when the request is refused.
\<close>

definition rate_check :: "int \<Rightarrow> bucket_key \<Rightarrow> nat \<Rightarrow> int \<Rightarrow> buckets \<Rightarrow> bool \<times> buckets" where
  "rate_check now key limit window_sec buckets =
     (let bucket = (case map_of buckets key of None \<Rightarrow> [] | Some b \<Rightarrow> b);
          cutoff = now - window_sec * 1000000;
          kept = dropWhile (\<lambda>t. t < cutoff) bucket
      in if limit \<le> length kept then (False, dict_set key kept buckets)
         else (True, dict_set key (kept @ [now]) buckets))"

definition ip_ratelimited :: "int \<Rightarrow> string option \<Rightarrow> string \<Rightarrow> nat \<Rightarrow> int \<Rightarrow> buckets \<Rightarrow> bool \<times> buckets" where
  "ip_ratelimited now ip key limit window_sec buckets =
     rate_check now (key, case ip of None \<Rightarrow> ''unknown'' | Some a \<Rightarrow> if a = '''' then ''unknown'' else a) limit window_sec buckets"

text \<open>The limits of the endpoints, by the first part of the bucket key.\<close>

definition endpoint_limit :: "string \<Rightarrow> nat" where
  "endpoint_limit key =
     (if key = ''register'' then 10 else if key = ''bootstrap-status'' \<or> key = ''connect-token'' then 120 else 60)"

definition rate_step :: "int \<times> bucket_key \<Rightarrow> (int \<times> bucket_key) list \<times> buckets \<Rightarrow> (int \<times> bucket_key) list \<times> buckets" where
  "rate_step req st =
     (case rate_check (fst req) (snd req) (endpoint_limit (fst (snd req))) 60 (snd st) of
        (ok, b) \<Rightarrow> (if ok then fst st @ [req] else fst st, b))"

definition rate_run :: "(int \<times> bucket_key) list \<Rightarrow> (int \<times> bucket_key) list \<times> buckets" where
  "rate_run reqs = fold rate_step reqs ([], [])"

definition accepted_in :: "bucket_key \<Rightarrow> int \<Rightarrow> int \<Rightarrow> (int \<times> bucket_key) list \<Rightarrow> nat" where
  "accepted_in key lo hi acc = length (filter (\<lambda>(t, k). k = key \<and> lo \<le> t \<and> t \<le> hi) acc)"

definition key_times :: "bucket_key \<Rightarrow> (int \<times> bucket_key) list \<Rightarrow> int list" where
  "key_times key acc = map fst (filter (\<lambda>(t, k). k = key) acc)"

definition bucket_of :: "bucket_key \<Rightarrow> buckets \<Rightarrow> int list" where
  "bucket_of key b = (case map_of b key of None \<Rightarrow> [] | Some ts \<Rightarrow> ts)"

lemma dropWhile_sorted: "sorted xs \<Longrightarrow> dropWhile (\<lambda>t. t < (c :: int)) xs = filter (\<lambda>t. c \<le> t) xs"
proof (induction xs)
  case (Cons x xs)
  have "filter (\<lambda>t. c \<le> t) (x # xs) = x # xs" if "c \<le> x"
    using that Cons.prems by (force simp: filter_id_conv)
  then show ?case using Cons by auto
qed simp

definition rate_inv :: "int \<Rightarrow> (int \<times> bucket_key) list \<times> buckets \<Rightarrow> bool" where
  "rate_inv now st \<longleftrightarrow>
     (\<forall>key. sorted (key_times key (fst st)) \<and> (\<forall>t \<in> set (key_times key (fst st)). t \<le> now)
        \<and> (\<exists>c \<le> now - 60 * 1000000. bucket_of key (snd st) = filter (\<lambda>t. c \<le> t) (key_times key (fst st))))"

lemma accepted_in_times: "accepted_in key lo hi acc = length (filter (\<lambda>t. lo \<le> t \<and> t \<le> hi) (key_times key acc))"
  by (induction acc) (auto simp: accepted_in_def key_times_def)

text \<open>A request is accepted exactly when fewer than the limit were accepted in the window up to now.\<close>

lemma rate_check_exact:
  assumes "rate_inv now0 st" "now0 \<le> now"
  shows "fst (rate_check now key (endpoint_limit (fst key)) 60 (snd st))
           \<longleftrightarrow> accepted_in key (now - 60 * 1000000) now (fst st) < endpoint_limit (fst key)"
    and "rate_inv now (rate_step (now, key) st)"
proof -
  let ?ts = "\<lambda>k. key_times k (fst st)" and ?cut = "now - 60 * 1000000"
  have inv: "sorted (?ts k)" "\<forall>t \<in> set (?ts k). t \<le> now0"
    "\<exists>c \<le> now0 - 60 * 1000000. bucket_of k (snd st) = filter (\<lambda>t. c \<le> t) (?ts k)" for k
    using assms(1) unfolding rate_inv_def by blast+
  obtain c where c: "c \<le> now0 - 60 * 1000000" "bucket_of key (snd st) = filter (\<lambda>t. c \<le> t) (?ts key)"
    using inv(3) by blast
  have "dropWhile (\<lambda>t. t < ?cut) (bucket_of key (snd st)) = filter (\<lambda>t. ?cut \<le> t) (filter (\<lambda>t. c \<le> t) (?ts key))"
    unfolding c(2) by (intro dropWhile_sorted sorted_wrt_filter inv(1))
  also have "\<dots> = filter (\<lambda>t. ?cut \<le> t) (?ts key)"
    using c(1) assms(2) by (auto intro: filter_cong)
  finally have kept: "dropWhile (\<lambda>t. t < ?cut) (bucket_of key (snd st)) = filter (\<lambda>t. ?cut \<le> t) (?ts key)" .
  have count: "accepted_in key ?cut now (fst st) = length (filter (\<lambda>t. ?cut \<le> t) (?ts key))"
    unfolding accepted_in_times using inv(2) [of key] assms(2)
    by (intro arg_cong [where f = length] filter_cong) force+
  let ?n = "length (filter (\<lambda>t. ?cut \<le> t) (?ts key))" and ?l = "endpoint_limit (fst key)"
  have step: "rate_check now key ?l 60 (snd st) =
      (?n < ?l, dict_set key (filter (\<lambda>t. ?cut \<le> t) (?ts key) @ (if ?n < ?l then [now] else [])) (snd st))"
    unfolding rate_check_def Let_def using kept by (simp add: bucket_of_def)
  show "fst (rate_check now key ?l 60 (snd st)) \<longleftrightarrow> accepted_in key ?cut now (fst st) < ?l"
    unfolding step count by simp
  have times: "key_times k (fst (rate_step (now, key) st)) = ?ts k @ (if k = key \<and> ?n < ?l then [now] else [])" for k
    by (simp add: rate_step_def step key_times_def)
  have bucket: "bucket_of k (snd (rate_step (now, key) st)) =
      (if k = key then filter (\<lambda>t. ?cut \<le> t) (?ts key) @ (if ?n < ?l then [now] else []) else bucket_of k (snd st))" for k
    by (simp add: rate_step_def step bucket_of_def)
  show "rate_inv now (rate_step (now, key) st)"
    unfolding rate_inv_def
  proof (intro allI conjI)
    fix k
    show "sorted (key_times k (fst (rate_step (now, key) st)))"
      unfolding times using inv(1,2) [of k] assms(2) by (fastforce simp: sorted_append)
    show "\<forall>t \<in> set (key_times k (fst (rate_step (now, key) st))). t \<le> now"
      unfolding times using inv(2) [of k] assms(2) by force
    show "\<exists>c \<le> now - 60 * 1000000. bucket_of k (snd (rate_step (now, key) st))
        = filter (\<lambda>t. c \<le> t) (key_times k (fst (rate_step (now, key) st)))"
    proof (cases "k = key")
      case True
      then show ?thesis unfolding times bucket by (intro exI [of _ ?cut]) simp
    next
      case False
      moreover obtain d where "d \<le> now0 - 60 * 1000000" "bucket_of k (snd st) = filter (\<lambda>t. d \<le> t) (?ts k)"
        using inv(3) [of k] by blast
      ultimately show ?thesis unfolding times bucket using assms(2) by (intro exI [of _ d]) simp
    qed
  qed
qed

lemma rate_run_inv:
  assumes "sorted (map fst reqs)" "\<And>r. r \<in> set reqs \<Longrightarrow> fst r \<le> now"
  shows "rate_inv now (rate_run reqs)"
  using assms
proof (induction reqs arbitrary: now rule: rev_induct)
  case Nil
  show ?case by (auto simp: rate_inv_def rate_run_def key_times_def bucket_of_def)
next
  case (snoc r reqs)
  obtain t key where r: "r = (t, key)" by (cases r)
  have "rate_inv t (rate_run reqs)" using snoc r by (intro snoc.IH) (auto simp: sorted_append)
  then have inv: "rate_inv t (rate_run (reqs @ [r]))"
    using rate_check_exact(2) [of t _ t key] by (simp add: rate_run_def r)
  moreover have "t \<le> now" using snoc.prems(2) [of r] r by simp
  ultimately show ?case unfolding rate_inv_def by (smt (verit, best))
qed

lemma accepted_in_snoc:
  "accepted_in key lo hi (acc @ [(t, k)]) = accepted_in key lo hi acc + (if k = key \<and> lo \<le> t \<and> t \<le> hi then 1 else 0)"
  by (simp add: accepted_in_def)

lemma length_filter_mono:
  "(\<And>x. x \<in> set xs \<Longrightarrow> P x \<Longrightarrow> Q x) \<Longrightarrow> length (filter P xs) \<le> length (filter Q xs)"
  by (induction xs) auto

lemma accepted_bounded:
  assumes "sorted (map fst reqs)"
  shows "accepted_in key (t - 60 * 1000000) t (fst (rate_run reqs)) \<le> endpoint_limit (fst key)"
  using assms
proof (induction reqs rule: rev_induct)
  case Nil
  show ?case by (simp add: rate_run_def accepted_in_def)
next
  case (snoc r reqs)
  obtain now k where r: "r = (now, k)" by (cases r)
  let ?st = "rate_run reqs" and ?lo = "t - 60 * 1000000"
  have run: "rate_run (reqs @ [r]) = rate_step r ?st" by (simp add: rate_run_def)
  have sorted: "sorted (map fst reqs)" and before: "\<And>q. q \<in> set reqs \<Longrightarrow> fst q \<le> now"
    using snoc.prems r by (auto simp: sorted_append)
  have inv: "rate_inv now ?st" using sorted before by (rule rate_run_inv)
  let ?ok = "fst (rate_check now k (endpoint_limit (fst k)) 60 (snd ?st))"
  have acc: "fst (rate_run (reqs @ [r])) = (if ?ok then fst ?st @ [(now, k)] else fst ?st)"
    unfolding run by (simp add: rate_step_def r split: prod.splits)
  show ?case
  proof (cases "?ok \<and> k = key \<and> ?lo \<le> now \<and> now \<le> t")
    case True
    have "accepted_in key ?lo t (fst ?st) \<le> accepted_in key (now - 60 * 1000000) now (fst ?st)"
    proof -
      have "x \<le> now" if "x \<in> set (key_times key (fst ?st))" for x using inv that unfolding rate_inv_def by blast
      then show ?thesis unfolding accepted_in_times using True by (intro length_filter_mono) auto
    qed
    also have "\<dots> < endpoint_limit (fst key)" using rate_check_exact(1) [OF inv order_refl, of key] True by auto
    finally show ?thesis using True by (simp add: acc accepted_in_snoc)
  next
    case False
    then show ?thesis using snoc.IH [OF sorted] by (auto simp: acc accepted_in_snoc)
  qed
qed

text \<open>
  Rate limits. Over any sequence of requests to the bootstrap endpoints, in the order of the monotonic clock,
  a request is accepted exactly when fewer than its endpoint's limit of requests of the same client were accepted
  during the minute up to it; hence in no window of a minute are more than the limit accepted from one client,
  and what other clients do is irrelevant.
\<close>

theorem rate_limit_exact:
  assumes "sorted (map fst reqs)" and "\<And>r. r \<in> set reqs \<Longrightarrow> fst r \<le> now"
  shows "(fst (rate_check now key (endpoint_limit (fst key)) 60 (snd (rate_run reqs)))
      \<longleftrightarrow> accepted_in key (now - 60 * 1000000) now (fst (rate_run reqs)) < endpoint_limit (fst key))
    \<and> accepted_in key (t - 60 * 1000000) t (fst (rate_run reqs)) \<le> endpoint_limit (fst key)"
  using rate_check_exact(1) [OF rate_run_inv [OF assms] order_refl] accepted_bounded [OF assms(1)] by blast

theorem rate_limit_exact_witness:
  "\<not> fst (rate_check 60000000 (''register'', ''a'') 10 60 (snd (rate_run (replicate 10 (0, ''register'', ''a'')))))
   \<and> fst (rate_check 60000000 (''register'', ''b'') 10 60 (snd (rate_run (replicate 10 (0, ''register'', ''a'')))))"
proof -
  let ?reqs = "replicate 10 (0, ''register'', ''a'') :: (int \<times> bucket_key) list"
  have h: "sorted (map fst ?reqs)" "\<And>r. r \<in> set ?reqs \<Longrightarrow> fst r \<le> 60000000" by simp_all
  have l: "endpoint_limit ''register'' = 10" by (simp add: endpoint_limit_def)
  have "accepted_in (''register'', ''a'') (60000000 - 60 * 1000000) 60000000 (fst (rate_run ?reqs)) = 10"
    "accepted_in (''register'', ''b'') (60000000 - 60 * 1000000) 60000000 (fst (rate_run ?reqs)) = 0" by code_simp+
  then show ?thesis
    using rate_limit_exact [OF h, of "(''register'', ''a'')" 0] rate_limit_exact [OF h, of "(''register'', ''b'')" 0]
    by (simp add: l)
qed

section \<open>Webhook signatures\<close>

definition split_commas :: "string \<Rightarrow> string list" where
  "split_commas s = foldr (\<lambda>c acc. if c = CHR '','' then [] # acc else (c # hd acc) # tl acc) s [[]]"

definition sign_connection_id :: "(string \<Rightarrow> string \<Rightarrow> string) \<Rightarrow> string \<Rightarrow> string list \<Rightarrow> string result" where
  "sign_connection_id hmac connection_id keys =
     (if keys = [] then Inl (ValueError ''at least one key is required'')
      else Inr (join_text '','' (map (\<lambda>k. ''sha256='' @ hmac k connection_id) keys)))"

definition presented_digests :: "string \<Rightarrow> string list" where
  "presented_digests header_value =
     map (drop 7) (filter (\<lambda>entry. take 7 (lower_text entry) = ''sha256='') (map strip (split_commas header_value)))"

definition verify_signature :: "(string \<Rightarrow> string \<Rightarrow> string) \<Rightarrow> string \<Rightarrow> string \<Rightarrow> string list \<Rightarrow> bool" where
  "verify_signature hmac connection_id header_value keys \<longleftrightarrow>
     header_value \<noteq> '''' \<and> list_ex (\<lambda>k. list_ex (\<lambda>got. hmac k connection_id = got) (presented_digests header_value)) keys"

lemma split_commas_nonempty [simp]: "split_commas s \<noteq> []"
  by (induction s) (auto simp: split_commas_def)

lemma split_commas_plain: "CHR '','' \<notin> set s \<Longrightarrow> split_commas s = [s]"
  by (induction s) (auto simp: split_commas_def)

lemma split_commas_sep: "CHR '','' \<notin> set s \<Longrightarrow> split_commas (s @ CHR '','' # t) = s # split_commas t"
  by (induction s) (auto simp: split_commas_def)

lemma split_commas_join:
  assumes "xs \<noteq> []" "\<And>x. x \<in> set xs \<Longrightarrow> CHR '','' \<notin> set x"
  shows "split_commas (join_text '','' xs) = xs"
  using assms
proof (induction xs)
  case (Cons x xs)
  show ?case
  proof (cases xs)
    case Nil
    then show ?thesis using Cons.prems(2) by (simp add: split_commas_plain)
  next
    case (Cons y ys)
    then have "split_commas (join_text '','' xs) = xs" using Cons.IH Cons.prems(2) by simp
    then show ?thesis using Cons Cons.prems(2) [of x] by (simp add: split_commas_sep)
  qed
qed simp

lemma strip_digest:
  assumes "list_all hex_char d"
  shows "strip (''sha256='' @ d) = ''sha256='' @ d"
proof -
  have ws: "\<not> whitespace c" if "hex_char c" for c
    using that by (auto simp: hex_char_def whitespace_def Let_def)
  have "dropWhile whitespace (rev (''sha256='' @ d)) = rev (''sha256='' @ d)"
  proof (cases d rule: rev_cases)
    case Nil
    then show ?thesis by (simp add: whitespace_def)
  next
    case (snoc ds c)
    then show ?thesis using assms ws by (simp add: list_all_iff)
  qed
  moreover have "dropWhile whitespace (''sha256='' @ d) = ''sha256='' @ d" by (simp add: whitespace_def)
  ultimately show ?thesis by (simp only: strip_def rev_rev_ident)
qed

lemma presented_signed:
  assumes "\<forall>k m. list_all hex_char (hmac k m)" "keys \<noteq> []"
  shows "presented_digests (join_text '','' (map (\<lambda>k. ''sha256='' @ hmac k cid) keys)) = map (\<lambda>k. hmac k cid) keys"
proof -
  have "split_commas (join_text '','' (map (\<lambda>k. ''sha256='' @ hmac k cid) keys)) = map (\<lambda>k. ''sha256='' @ hmac k cid) keys"
  proof (rule split_commas_join)
    have "CHR '','' \<notin> set (hmac k cid)" for k
    proof -
      have "\<not> hex_char (CHR '','')" by code_simp
      moreover have "list_all hex_char (hmac k cid)" using assms(1) by blast
      ultimately show ?thesis by (auto simp: list_all_iff)
    qed
    then show "CHR '','' \<notin> set x" if "x \<in> set (map (\<lambda>k. ''sha256='' @ hmac k cid) keys)" for x
      using that by auto
  qed (simp add: assms(2))
  moreover have "strip (''sha256='' @ hmac k cid) = ''sha256='' @ hmac k cid" for k using strip_digest assms(1) by blast
  moreover have "take 7 (lower_text (''sha256='' @ hmac k cid)) = ''sha256=''" for k
    by (simp add: lower_text_def lower_char_def)
  ultimately show ?thesis unfolding presented_digests_def
    by (simp only: map_map comp_def filter_map) simp
qed

text \<open>
  Signatures of webhook calls. What \<^verbatim>\<open>sign_connection_id\<close> produces for a list of keys,
  \<^verbatim>\<open>verify_signature\<close> accepts exactly when one of the verifier's keys gives the same digest as one of the
  signer's: during a key rotation one common key is enough, and without keys nothing is accepted. The
  hypothesis is that digests are hexadecimal.
\<close>

theorem signature_roundtrip:
  assumes "\<forall>k m. list_all hex_char (hmac k m)" and "sign_connection_id hmac cid keys = Inr header"
  shows "verify_signature hmac cid header keys' \<longleftrightarrow> (\<exists>k \<in> set keys. \<exists>k' \<in> set keys'. hmac k' cid = hmac k cid)"
proof -
  have k: "keys \<noteq> []" and h: "header = join_text '','' (map (\<lambda>k. ''sha256='' @ hmac k cid) keys)"
    using assms(2) by (auto simp: sign_connection_id_def split: if_splits)
  have "header \<noteq> ''''" using k h by (cases keys rule: remdups_adj.cases) simp_all
  moreover have "presented_digests header = map (\<lambda>k. hmac k cid) keys"
    unfolding h by (rule presented_signed [OF assms(1) k])
  ultimately show ?thesis by (auto simp: verify_signature_def list_ex_iff)
qed

definition toy_hmac :: "string \<Rightarrow> string \<Rightarrow> string" where
  "toy_hmac k m = concat (map (\<lambda>c. if c = CHR ''a'' then ''0'' else ''f'') (k @ m))"

theorem signature_roundtrip_witness:
  "verify_signature toy_hmac ''c'' ''sha256=0f,sha256=ff'' [''x'', ''zz'']
   \<and> \<not> verify_signature toy_hmac ''c'' ''sha256=0f,sha256=ff'' [''zz'']"
proof -
  have hex: "\<forall>k m. list_all hex_char (toy_hmac k m)"
    by (auto simp: toy_hmac_def list_all_iff hex_char_def Let_def split: if_splits)
  have "sign_connection_id toy_hmac ''c'' [''a'', ''b''] = Inr ''sha256=0f,sha256=ff''" by code_simp
  note r = signature_roundtrip [OF hex this]
  have "toy_hmac ''x'' ''c'' = toy_hmac ''b'' ''c''" "toy_hmac ''zz'' ''c'' \<noteq> toy_hmac ''a'' ''c''"
    "toy_hmac ''zz'' ''c'' \<noteq> toy_hmac ''b'' ''c''" by code_simp+
  then show ?thesis by (auto simp: r)
qed

end
