(* ===== verification/Ecies.thy ===== *)
theory Ecies
  imports Identity
begin

text \<open>
  Encryption of the bootstrap payload to a device's identity key, the ECIES part of
  \<^verbatim>\<open>cms/services/device_identity.py\<close>: the conversion of ed25519 keys to X25519, \<^verbatim>\<open>encrypt_for_device\<close> and the
  device's \<^verbatim>\<open>decrypt_with_device_key\<close>. X25519, HKDF, AES-GCM and SHA-512 are the fields of a record of
  library functions.
\<close>

unbundle bit_operations_syntax

record crypto_lib =
  x25519_public :: "string \<Rightarrow> string"
  x25519_exchange :: "string \<Rightarrow> string \<Rightarrow> string option"
  hkdf_derive :: "string \<Rightarrow> string \<Rightarrow> string"
  aesgcm_encrypt :: "string \<Rightarrow> string \<Rightarrow> string \<Rightarrow> string"
  aesgcm_decrypt :: "string \<Rightarrow> string \<Rightarrow> string \<Rightarrow> string option"
  sha512_digest :: "string \<Rightarrow> string"

datatype crypto_error = CryptoValueError string | InvalidTag

section \<open>Key conversion\<close>

text \<open>\<^verbatim>\<open>int.from_bytes(b, "little")\<close> and \<^verbatim>\<open>n.to_bytes(k, "little")\<close>.\<close>

fun from_bytes_le :: "string \<Rightarrow> int" where
  "from_bytes_le [] = 0"
| "from_bytes_le (c # cs) = of_char c + 256 * from_bytes_le cs"

fun to_bytes_le :: "nat \<Rightarrow> int \<Rightarrow> string" where
  "to_bytes_le 0 n = []"
| "to_bytes_le (Suc k) n = char_of (n mod 256) # to_bytes_le k (n div 256)"

definition curve_p :: int where "curve_p = 2 ^ 255 - 19"

text \<open>\<^verbatim>\<open>pow(b, n, m)\<close>.\<close>

function pow_mod :: "int \<Rightarrow> int \<Rightarrow> int \<Rightarrow> int" where
  "pow_mod b n m =
     (if n \<le> 0 then 1 mod m
      else let h = pow_mod (b * b mod m) (n div 2) m in if n mod 2 = 1 then b * h mod m else h)"
  by pat_completeness auto
termination by (relation "measure (\<lambda>(b, n, m). nat n)") auto

declare pow_mod.simps [simp del]

definition ed25519_pub_to_x25519 :: "string \<Rightarrow> string result" where
  "ed25519_pub_to_x25519 pub_bytes =
     (if length pub_bytes \<noteq> 32 then Inl (ValueError ''ed25519 public key must be 32 bytes'')
      else let y = from_bytes_le pub_bytes AND (push_bit 255 1 - 1); p = curve_p in
        if p \<le> y then Inl (ValueError ''ed25519 public key y-coordinate is not canonical'')
        else let denom = (1 - y) mod p in
          if denom = 0 then Inl (ValueError ''ed25519 public key maps to point at infinity'')
          else let inv = pow_mod denom (p - 2) p; u = ((1 + y) * inv) mod p in
            if u = 0 \<or> u = 1 then Inl (ValueError ''ed25519 public key maps to a low-order x25519 point'')
            else Inr (to_bytes_le 32 u))"

definition ed25519_priv_to_x25519 :: "crypto_lib \<Rightarrow> string \<Rightarrow> crypto_error + string" where
  "ed25519_priv_to_x25519 lib priv_bytes =
     (if length priv_bytes \<noteq> 32 then Inl (CryptoValueError ''ed25519 private key must be 32 bytes'')
      else let h = take 32 (sha512_digest lib priv_bytes);
               s0 = h[0 := char_of ((of_char (h ! 0) :: nat) AND 248)];
               s1 = s0[31 := char_of ((of_char (s0 ! 31) :: nat) AND 127)];
               s2 = s1[31 := char_of ((of_char (s1 ! 31) :: nat) OR 64)]
           in Inr s2)"

section \<open>Encryption and decryption\<close>

definition ECIES_HKDF_INFO :: string where "ECIES_HKDF_INFO = ''agora-bootstrap-ecies-v1''"

text \<open>The ephemeral private key is drawn by the caller.\<close>

definition encrypt_for_device :: "crypto_lib \<Rightarrow> string \<Rightarrow> string \<Rightarrow> string \<Rightarrow> string result" where
  "encrypt_for_device lib eph_priv pubkey_b64 plaintext =
     (case b64decode True pubkey_b64 of
        None \<Rightarrow> Inl (ValueError ''invalid base64 recipient public key'')
      | Some recip_ed \<Rightarrow>
          result_bind (ed25519_pub_to_x25519 recip_ed) (\<lambda>recip_x.
            let eph_pub_bytes = x25519_public lib eph_priv in
            case x25519_exchange lib eph_priv recip_x of
              None \<Rightarrow> Inl (ValueError ''Error computing shared key.'')
            | Some shared \<Rightarrow>
                let key_material = hkdf_derive lib ECIES_HKDF_INFO shared;
                    key = take 32 key_material; nonce = drop 32 key_material;
                    ct = aesgcm_encrypt lib key nonce plaintext
                in Inr (b64encode (eph_pub_bytes @ nonce @ ct))))"

definition decrypt_with_device_key :: "crypto_lib \<Rightarrow> string \<Rightarrow> string \<Rightarrow> crypto_error + string" where
  "decrypt_with_device_key lib priv_bytes ciphertext_b64 =
     (case b64decode True ciphertext_b64 of
        None \<Rightarrow> Inl (CryptoValueError ''invalid base64 ciphertext'')
      | Some blob \<Rightarrow>
          if length blob < 32 + 12 + 16 then Inl (CryptoValueError ''ciphertext too short'')
          else let eph_pub = take 32 blob; nonce = take 12 (drop 32 blob); ct = drop 44 blob in
            result_bind (ed25519_priv_to_x25519 lib priv_bytes) (\<lambda>x_priv.
              case x25519_exchange lib x_priv eph_pub of
                None \<Rightarrow> Inl (CryptoValueError ''Error computing shared key.'')
              | Some shared \<Rightarrow>
                  let key_material = hkdf_derive lib ECIES_HKDF_INFO shared;
                      key = take 32 key_material; derived_nonce = drop 32 key_material
                  in if derived_nonce \<noteq> nonce then Inl (CryptoValueError ''nonce mismatch'')
                     else case aesgcm_decrypt lib key nonce ct of None \<Rightarrow> Inl InvalidTag | Some pt \<Rightarrow> Inr pt))"

section \<open>The device reads what was encrypted to it\<close>

text \<open>The documented behaviour of the libraries.\<close>

definition crypto_laws :: "crypto_lib \<Rightarrow> bool" where
  "crypto_laws lib \<longleftrightarrow>
     (\<forall>a b. x25519_exchange lib a (x25519_public lib b) = x25519_exchange lib b (x25519_public lib a))
     \<and> (\<forall>a. length (x25519_public lib a) = 32)
     \<and> (\<forall>i s. length (hkdf_derive lib i s) = 44)
     \<and> (\<forall>k n pt. length (aesgcm_encrypt lib k n pt) = length pt + 16
          \<and> aesgcm_decrypt lib k n (aesgcm_encrypt lib k n pt) = Some pt)"

lemma ecies_core:
  assumes "crypto_laws lib"
    and "ed25519_priv_to_x25519 lib priv = Inr x_priv"
    and "ed25519_pub_to_x25519 ed_pub = Inr (x25519_public lib x_priv)"
    and "x25519_exchange lib eph (x25519_public lib x_priv) \<noteq> None"
  shows "\<exists>ct. encrypt_for_device lib eph (b64encode ed_pub) payload = Inr ct
     \<and> decrypt_with_device_key lib priv ct = Inr payload"
proof -
  obtain shared where s: "x25519_exchange lib eph (x25519_public lib x_priv) = Some shared" using assms(4) by blast
  then have s': "x25519_exchange lib x_priv (x25519_public lib eph) = Some shared"
    using assms(1) unfolding crypto_laws_def by metis
  let ?km = "hkdf_derive lib ECIES_HKDF_INFO shared"
  let ?ct = "aesgcm_encrypt lib (take 32 ?km) (drop 32 ?km) payload"
  let ?blob = "x25519_public lib eph @ drop 32 ?km @ ?ct"
  have len: "length (x25519_public lib eph) = 32" "length (drop 32 ?km) = 12" "length ?ct = length payload + 16"
    and dec: "aesgcm_decrypt lib (take 32 ?km) (drop 32 ?km) ?ct = Some payload"
    using assms(1) by (simp_all add: crypto_laws_def)
  have "encrypt_for_device lib eph (b64encode ed_pub) payload = Inr (b64encode ?blob)"
    by (simp add: encrypt_for_device_def b64decode_encode assms(3) s Let_def)
  moreover have "decrypt_with_device_key lib priv (b64encode ?blob) = Inr payload"
    using len s' dec by (simp add: decrypt_with_device_key_def b64decode_encode assms(2) Let_def)
  ultimately show ?thesis by blast
qed

lemma pow_mod_power: "0 \<le> n \<Longrightarrow> pow_mod b n m = b ^ nat n mod m"
proof (induction b n m rule: pow_mod.induct)
  case (1 b n m)
  show ?case
  proof (cases "n = 0")
    case True
    then show ?thesis by (subst pow_mod.simps) simp
  next
    case False
    then have n: "\<not> n \<le> 0" using 1 by simp
    let ?h = "pow_mod (b * b mod m) (n div 2) m"
    have h: "?h = (b * b) ^ nat (n div 2) mod m" using 1 n by (simp add: power_mod)
    have half: "nat n = 2 * nat (n div 2) + nat (n mod 2)"
    proof -
      have "int (2 * nat (n div 2) + nat (n mod 2)) = n" using n by simp
      then show ?thesis by linarith
    qed
    have "b ^ nat n = (b * b) ^ nat (n div 2) * b ^ nat (n mod 2)"
      by (subst half) (simp add: power_add power_mult power2_eq_square)
    moreover consider "n mod 2 = 0" | "n mod 2 = 1" by linarith
    ultimately show ?thesis
      by (cases) (simp_all add: pow_mod.simps [of b n m] n Let_def h mod_mult_right_eq mult.commute)
  qed
qed

text \<open>
  What a device's key is, apart from the code. RFC 8032 makes the scalar of a seed from the first half of its
  SHA-512 digest, read as a little-endian number: the three low bits are cleared, bit 254 is set and bit 255
  is cleared. The public key is the point's y coordinate below a sign bit, and RFC 7748 gives the
  Montgomery coordinate \<open>u = (1 + y) / (1 - y)\<close>. So the pair of a seed and a public key is one where the X25519
  public key of the seed's scalar is the Montgomery coordinate of the ed25519 public key. The coordinates 0 and 1, of the
  low-order points, are excluded.
\<close>

definition seed_scalar :: "crypto_lib \<Rightarrow> string \<Rightarrow> string" where
  "seed_scalar lib seed = (let n = from_bytes_le (take 32 (sha512_digest lib seed))
     in to_bytes_le 32 (n mod 2 ^ 254 - n mod 8 + 2 ^ 254))"

definition point_y :: "string \<Rightarrow> int" where "point_y pub = from_bytes_le pub mod 2 ^ 255"

definition device_key_pair :: "crypto_lib \<Rightarrow> string \<Rightarrow> string \<Rightarrow> bool" where
  "device_key_pair lib seed pub \<longleftrightarrow> length seed = 32 \<and> length pub = 32 \<and> point_y pub < curve_p
     \<and> (let u = from_bytes_le (x25519_public lib (seed_scalar lib seed))
         in 1 < u \<and> u < curve_p \<and> u * (1 - point_y pub) mod curve_p = (1 + point_y pub) mod curve_p)"

lemma length_to_bytes_le [simp]: "length (to_bytes_le k n) = k"
  by (induction k arbitrary: n) simp_all

lemma of_char_int_bounds: "0 \<le> (of_char c :: int)" "(of_char c :: int) < 256"
  using of_char_mod_256 [of c, where 'a = int] by (metis pos_mod_sign zero_less_numeral, metis pos_mod_bound zero_less_numeral)

lemma to_from_bytes_le: "to_bytes_le (length cs) (from_bytes_le cs) = cs"
proof (induction cs)
  case (Cons c cs)
  have "(of_char c + 256 * from_bytes_le cs) div 256 = from_bytes_le cs"
    using of_char_int_bounds [of c] by linarith
  moreover have "(of_char c + 256 * from_bytes_le cs) mod 256 = (of_char c :: int)" by (simp only: mod_mult_self2 of_char_mod_256)
  ultimately show ?case using Cons by (simp only: length_Cons from_bytes_le.simps to_bytes_le.simps char_of_char)
qed simp

lemma from_bytes_le_append: "from_bytes_le (xs @ ys) = from_bytes_le xs + 256 ^ length xs * from_bytes_le ys"
  by (induction xs) (simp_all add: algebra_simps)

lemma from_bytes_le_bounds: "0 \<le> from_bytes_le xs" "from_bytes_le xs < 256 ^ length xs"
proof (induction xs)
  case (Cons c cs)
  show "0 \<le> from_bytes_le (c # cs)" using Cons of_char_int_bounds [of c] by simp
  show "from_bytes_le (c # cs) < 256 ^ length (c # cs)" using Cons of_char_int_bounds [of c] by simp
qed simp_all

lemma clamp_bytes:
  assumes "n < (256::nat)"
  shows "n AND 248 = n - n mod 8" "(n AND 127) OR 64 = n mod 64 + 64"
proof -
  have t: "take_bit 8 n = n" using assms by (simp add: take_bit_nat_eq_self)
  have "n AND 248 = take_bit 8 n AND push_bit 3 (mask 5)" unfolding t by (simp add: mask_eq_exp_minus_1 push_bit_eq_mult)
  also have "\<dots> = push_bit 3 (drop_bit 3 (take_bit 8 n))" by (rule bit_eqI) (auto simp: bit_simps)
  finally show "n AND 248 = n - n mod 8"
    unfolding t by (simp add: push_bit_eq_mult drop_bit_eq_div minus_mod_eq_div_mult)
  have "(n AND 127) OR 64 = (n AND mask 7) OR push_bit 6 1" by (simp add: mask_eq_exp_minus_1 push_bit_eq_mult)
  also have "\<dots> = take_bit 6 n OR push_bit 6 1"
    by (rule bit_eqI) (simp only: bit_or_iff bit_mask_iff bit_and_iff bit_take_bit_iff bit_push_bit_iff bit_1_iff, auto)
  also have "\<dots> = take_bit 6 n + push_bit 6 1" by (rule disjunctive_add_eq_or [symmetric]) (rule bit_eqI, simp only: bit_and_iff bit_take_bit_iff bit_push_bit_iff bit_1_iff, auto)
  finally show "(n AND 127) OR 64 = n mod 64 + 64" by (simp add: take_bit_eq_mod push_bit_eq_mult)
qed

lemma byte_int: "m < 256 \<Longrightarrow> (of_char (char_of (m::nat)) :: int) = int m"
  using of_nat_of_char [of "char_of m", where 'a = int] by (simp add: of_char_of)

lemma byte_nat: "m < 256 \<Longrightarrow> (of_char (char_of (m::nat)) :: nat) = m"
  by (simp add: of_char_of)

lemma clamp_number:
  fixes z :: nat
  assumes "a < (256::nat)" "0 \<le> M" "M < 256 ^ 30"
  defines "n \<equiv> int a + 256 * (M + 256 ^ 30 * int z)"
  shows "n mod 2 ^ 254 - n mod 8 + 2 ^ 254 = int (a - a mod 8) + 256 * (M + 256 ^ 30 * int (z mod 64 + 64))"
proof -
  have "n mod 8 = int (a mod 8)" unfolding n_def
    using mod_mult_self2 [of "int a" 8 "32 * (M + 256 ^ 30 * int z)"] by (simp add: zmod_int)
  moreover have "n mod 2 ^ 254 = int a + 256 * (M + 256 ^ 30 * int (z mod 64))" (is "_ = ?low")
  proof -
    have "int z = int (z mod 64 + 64 * (z div 64))" by simp
    then have "n = ?low + int (z div 64) * 2 ^ 254" unfolding n_def by (simp only: of_nat_add of_nat_mult) simp
    moreover have "0 \<le> ?low" using assms by simp
    moreover have "?low < 2 ^ 254"
    proof -
      have "int (z mod 64) \<le> 63" "int a \<le> 255" using assms(1) by linarith+
      then show ?thesis using assms by simp
    qed
    ultimately show ?thesis by simp
  qed
  ultimately show ?thesis by (simp add: of_nat_diff)
qed

lemma priv_converts:
  assumes "length seed = 32" "length (sha512_digest lib seed) = 64"
  shows "ed25519_priv_to_x25519 lib seed = Inr (seed_scalar lib seed)"
proof -
  let ?h = "take 32 (sha512_digest lib seed)"
  define a where "a = (of_char (?h ! 0) :: nat)"
  define z where "z = (of_char (?h ! 31) :: nat)"
  define m where "m = take 30 (tl ?h)"
  have bytes: "a < 256" "z < 256"
    using of_char_mod_256 [of "?h ! 0", where 'a = nat] of_char_mod_256 [of "?h ! 31", where 'a = nat]
    unfolding a_def z_def by (metis mod_less_divisor zero_less_numeral)+
  have len: "length ?h = 32" "length m = 30" using assms(2) by (simp_all add: m_def)
  then have h: "?h = char_of a # m @ [char_of z]"
    unfolding a_def z_def m_def char_of_char
  proof (intro nth_equalityI)
    fix i assume "i < length ?h"
    then consider "i = 0" | "0 < i" "i < 31" | "i = 31" using len(1) by linarith
    then show "?h ! i = (?h ! 0 # take 30 (tl ?h) @ [?h ! 31]) ! i"
      using len by cases (auto simp: nth_Cons nth_append nth_tl split: nat.splits)
  qed (simp add: len)
  define M where "M = from_bytes_le m"
  have M: "0 \<le> M" "M < 256 ^ 30" using from_bytes_le_bounds [of m] len(2) by (simp_all add: M_def)
  have num: "from_bytes_le (char_of i # m @ [char_of j]) = int i + 256 * (M + 256 ^ 30 * int j)" if "i < 256" "j < 256" for i j
    using that len(2) by (simp add: from_bytes_le_append M_def byte_int)
  have small: "a - a mod 8 < 256" "z mod 64 + 64 < 256" using bytes by linarith+
  have low: "z AND 127 < 256"
  proof -
    have "z AND 127 = take_bit 7 z" by (simp add: take_bit_eq_mask mask_eq_exp_minus_1)
    then show ?thesis using take_bit_nat_less_exp [of 7 z] by simp
  qed
  have "ed25519_priv_to_x25519 lib seed = Inr (char_of (a - a mod 8) # m @ [char_of (z mod 64 + 64)])"
    using assms(1) len(2) bytes low small
    by (simp add: ed25519_priv_to_x25519_def Let_def h nth_append list_update_append byte_nat [OF low] clamp_bytes byte_nat)
  also have "char_of (a - a mod 8) # m @ [char_of (z mod 64 + 64)] = seed_scalar lib seed"
  proof -
    let ?n = "from_bytes_le ?h"
    let ?s = "char_of (a - a mod 8) # m @ [char_of (z mod 64 + 64)]"
    have n: "?n = int a + 256 * (M + 256 ^ 30 * int z)" unfolding h using num bytes by simp
    have "from_bytes_le ?s = int (a - a mod 8) + 256 * (M + 256 ^ 30 * int (z mod 64 + 64))"
      using num small by simp
    then have "from_bytes_le ?s = ?n mod 2 ^ 254 - ?n mod 8 + 2 ^ 254"
      using clamp_number [OF bytes(1) M, of z] unfolding n by simp
    then show ?thesis using to_from_bytes_le [of ?s] len(2) by (simp add: seed_scalar_def Let_def)
  qed
  finally show ?thesis .
qed

lemma pub_converts:
  assumes "length pub = 32" "length enc = 32" "point_y pub < curve_p"
    and "1 < from_bytes_le enc" "from_bytes_le enc < curve_p"
    and u: "from_bytes_le enc * (1 - point_y pub) mod curve_p = (1 + point_y pub) mod curve_p"
    and fermat: "(1 - point_y pub) ^ nat (curve_p - 1) mod curve_p = 1"
  shows "ed25519_pub_to_x25519 pub = Inr enc"
proof -
  let ?y = "point_y pub" and ?u = "from_bytes_le enc"
  have p: "1 < curve_p" by (simp add: curve_p_def)
  have y: "from_bytes_le pub AND (push_bit 255 1 - 1) = ?y"
  proof -
    have "(push_bit 255 1 - 1 :: int) = mask 255" by (simp add: mask_eq_exp_minus_1 push_bit_eq_mult)
    then show ?thesis unfolding point_y_def by (simp only: take_bit_eq_mask [symmetric] take_bit_eq_mod)
  qed
  define q where "q = nat (curve_p - 2)"
  have q: "nat (curve_p - 1) = Suc q" using p by (simp add: q_def)
  have pow: "pow_mod ((1 - ?y) mod curve_p) (curve_p - 2) curve_p = (1 - ?y) ^ q mod curve_p"
    using p by (simp add: pow_mod_power q_def power_mod)
  have "(1 - ?y) mod curve_p \<noteq> 0"
  proof
    assume "(1 - ?y) mod curve_p = 0"
    then have "(1 - ?y) ^ Suc q mod curve_p = 0" by (metis power_mod power_0_Suc mod_0)
    then show False using fermat q by simp
  qed
  moreover have "((1 + ?y) * ((1 - ?y) ^ q mod curve_p)) mod curve_p = ?u"
  proof -
    have "((1 + ?y) * ((1 - ?y) ^ q mod curve_p)) mod curve_p = ((1 + ?y) mod curve_p * (1 - ?y) ^ q) mod curve_p"
      by (simp add: mod_simps)
    also have "\<dots> = (?u * (1 - ?y) ^ Suc q) mod curve_p"
      unfolding u [symmetric] by (simp add: mod_simps mult.assoc)
    also have "\<dots> = (?u * ((1 - ?y) ^ Suc q mod curve_p)) mod curve_p" by (simp add: mod_simps)
    also have "\<dots> = ?u" using fermat q assms(4,5) by simp
    finally show ?thesis .
  qed
  moreover have "to_bytes_le 32 ?u = enc" using to_from_bytes_le [of enc] assms(2) by simp
  ultimately show ?thesis
    using assms(1,3,4) unfolding ed25519_pub_to_x25519_def Let_def y pow by simp
qed

text \<open>
  C31. Round trip of the bootstrap payload. Let a device hold an ed25519 seed, and let the X25519 public key of the
  scalar that RFC 8032 derives from the seed be the Montgomery form of its ed25519 public key, as it is for every
  real pair; the key is stored as its base64 text. Fermat's little theorem is assumed at the one number the conversion
  inverts, the library's agreement of two X25519 keys to be symmetric, and AES-GCM to decrypt what it encrypted. Then
  the conversions of both keys meet on one X25519 pair, and unless the library refuses the key agreement,
  \<^verbatim>\<open>encrypt_for_device\<close> returns a text, and the device, holding the seed only, decrypts that text to the payload.
\<close>

theorem ecies_roundtrip:
  assumes "crypto_laws lib" and "\<forall>s. length (sha512_digest lib s) = 64"
    and "device_key_pair lib seed ed_pub"
    and "(1 - point_y ed_pub) ^ nat (curve_p - 1) mod curve_p = 1"
    and "x25519_exchange lib eph (x25519_public lib (seed_scalar lib seed)) \<noteq> None"
  shows "\<exists>ct. encrypt_for_device lib eph (b64encode ed_pub) payload = Inr ct
     \<and> decrypt_with_device_key lib seed ct = Inr payload"
proof (rule ecies_core [OF assms(1) _ _ assms(5)])
  show "ed25519_priv_to_x25519 lib seed = Inr (seed_scalar lib seed)"
    using assms(2,3) by (intro priv_converts) (simp_all add: device_key_pair_def)
  show "ed25519_pub_to_x25519 ed_pub = Inr (x25519_public lib (seed_scalar lib seed))"
    using assms(1,3,4) by (intro pub_converts) (simp_all add: device_key_pair_def crypto_laws_def Let_def)
qed

definition toy_x_key :: string where "toy_x_key = to_bytes_le 32 (curve_p - 3)"

definition toy_crypto :: crypto_lib where
  "toy_crypto = \<lparr>x25519_public = (\<lambda>a. toy_x_key), x25519_exchange = (\<lambda>a b. Some (replicate 32 (CHR ''s''))),
     hkdf_derive = (\<lambda>i s. replicate 44 (CHR ''k'')), aesgcm_encrypt = (\<lambda>k n pt. replicate 16 (CHR ''t'') @ pt),
     aesgcm_decrypt = (\<lambda>k n ct. Some (drop 16 ct)), sha512_digest = (\<lambda>s. replicate 64 (CHR 0x00))\<rparr>"

lemma toy_key_converts: "ed25519_pub_to_x25519 (CHR 0x02 # replicate 31 (CHR 0x00)) = Inr toy_x_key"
proof -
  let ?K = "CHR 0x02 # replicate 31 (CHR 0x00)"
  have p: "curve_p = 57896044618658097711785492504343953926634992332820282019728792003956564819949"
    by (simp add: curve_p_def)
  have mask: "from_bytes_le ?K AND (push_bit 255 1 - 1) = 2" by code_simp
  have "pow_mod (curve_p - 1) (curve_p - 2) curve_p = (curve_p - 1) ^ nat (curve_p - 2) mod curve_p"
    by (rule pow_mod_power) (simp add: p)
  also have "\<dots> = (((curve_p - 1) mod curve_p) ^ nat (curve_p - 2)) mod curve_p" by (rule power_mod [symmetric])
  also have "(curve_p - 1) mod curve_p = (- 1) mod curve_p" by (simp add: p)
  also have "((- 1) mod curve_p) ^ nat (curve_p - 2) mod curve_p = (- 1) ^ nat (curve_p - 2) mod curve_p"
    by (rule power_mod)
  also have "(- 1 :: int) ^ nat (curve_p - 2) = - 1"
    by (rule neg_one_odd_power) (simp add: p nat_diff_distrib)
  finally have inv: "pow_mod (curve_p - 1) (curve_p - 2) curve_p = curve_p - 1" by (simp add: p)
  have "(1 - 2) mod curve_p = curve_p - 1" by (simp add: p)
  moreover have "((1 + 2) * (curve_p - 1)) mod curve_p = curve_p - 3" by (simp add: p)
  moreover have "\<not> curve_p \<le> 2" "curve_p - 1 \<noteq> 0" "curve_p - 3 \<noteq> 0" "curve_p - 3 \<noteq> 1" by (simp_all add: p)
  ultimately show ?thesis
    unfolding ed25519_pub_to_x25519_def Let_def mask by (simp only: inv toy_x_key_def) simp
qed

lemma toy_crypto_laws: "crypto_laws toy_crypto"
proof -
  have "length (to_bytes_le k n) = k" for k n by (induction k arbitrary: n) simp_all
  then have l: "length toy_x_key = 32" by (simp only: toy_x_key_def)
  show ?thesis by (simp add: crypto_laws_def toy_crypto_def l)
qed

lemma toy_private: "\<exists>x. ed25519_priv_to_x25519 toy_crypto (replicate 32 (CHR 0x00)) = Inr x"
  by (simp add: ed25519_priv_to_x25519_def Let_def)

theorem ecies_roundtrip_witness:
  "\<exists>ct. encrypt_for_device toy_crypto ''e'' (b64encode (CHR 0x02 # replicate 31 (CHR 0x00))) ''hello'' = Inr ct
     \<and> decrypt_with_device_key toy_crypto (replicate 32 (CHR 0x00)) ct = Inr ''hello''"
proof (rule ecies_roundtrip)
  let ?K = "CHR 0x02 # replicate 31 (CHR 0x00)"
  have p: "curve_p = 57896044618658097711785492504343953926634992332820282019728792003956564819949"
    by (simp add: curve_p_def)
  have y: "point_y ?K = 2" by code_simp
  show "crypto_laws toy_crypto" by (rule toy_crypto_laws)
  show "\<forall>s. length (sha512_digest toy_crypto s) = 64" by (simp add: toy_crypto_def)
  show "x25519_exchange toy_crypto ''e'' (x25519_public toy_crypto (seed_scalar toy_crypto (replicate 32 (CHR 0x00)))) \<noteq> None"
    by (simp add: toy_crypto_def)
  have "(- 1 :: int) ^ nat (curve_p - 1) = 1" by (rule neg_one_even_power) (simp add: p nat_diff_distrib)
  then show "(1 - point_y ?K) ^ nat (curve_p - 1) mod curve_p = 1" by (simp add: y p)
  have "from_bytes_le toy_x_key = curve_p - 3" unfolding p by code_simp
  then show "device_key_pair toy_crypto (replicate 32 (CHR 0x00)) ?K"
    unfolding device_key_pair_def y by (simp add: toy_crypto_def p)
qed

end
