(* ===== verification/Uuid.thy ===== *)
theory Uuid
  imports Iso_Text Json
begin

text \<open>
  \<^verbatim>\<open>uuid.UUID\<close> on text: every accepted spelling is read as the canonical text of its 128-bit number, and
  canonical texts are read as themselves.
\<close>

text \<open>\<^verbatim>\<open>s.replace(pat, "")\<close>.\<close>

function remove_text :: "string \<Rightarrow> string \<Rightarrow> string" where
  "remove_text pat s =
     (if s = [] then []
      else if pat \<noteq> [] \<and> take (length pat) s = pat then remove_text pat (drop (length pat) s)
      else hd s # remove_text pat (tl s))"
  by pat_completeness auto
termination
proof (relation "measure (\<lambda>(pat, s). length s)", goal_cases)
  case (2 pat s)
  then show ?case by (cases pat) auto
qed auto

declare remove_text.simps [simp del]

definition hex_value :: "char \<Rightarrow> int option" where
  "hex_value c = (let n = of_char c :: nat in
     if 48 \<le> n \<and> n \<le> 57 then Some (int n - 48) else if 97 \<le> n \<and> n \<le> 102 then Some (int n - 87)
     else if 65 \<le> n \<and> n \<le> 70 then Some (int n - 55) else None)"

fun hex_digits :: "int \<Rightarrow> bool \<Rightarrow> string \<Rightarrow> int option" where
  "hex_digits acc after_digit [] = (if after_digit then Some acc else None)"
| "hex_digits acc after_digit (c # cs) =
     (case hex_value c of
        Some d \<Rightarrow> hex_digits (16 * acc + d) True cs
      | None \<Rightarrow> if c = CHR ''_'' \<and> after_digit then hex_digits acc False cs else None)"

text \<open>\<^verbatim>\<open>int(s, 16)\<close>: white space around, a sign, an optional prefix and underscores are allowed.\<close>

definition int16 :: "string \<Rightarrow> int option" where
  "int16 s =
     (let t = strip s;
          neg = (take 1 t = ''-'');
          u = (if neg \<or> take 1 t = ''+'' then drop 1 t else t);
          v = (if take 2 u = ''0x'' \<or> take 2 u = ''0X''
               then (if take 1 (drop 2 u) = ''_'' then drop 3 u else drop 2 u) else u)
      in map_option (\<lambda>n. if neg then - n else n) (hex_digits 0 False v))"

definition braces :: "char \<Rightarrow> bool" where "braces c \<longleftrightarrow> c = CHR ''{'' \<or> c = CHR ''}''"

fun hex_text :: "nat \<Rightarrow> int \<Rightarrow> string" where
  "hex_text 0 n = []"
| "hex_text (Suc k) n = hex_text k (n div 16) @ [hex_digit (n mod 16)]"

text \<open>\<^verbatim>\<open>str(uuid)\<close> of a 128-bit number.\<close>

definition uuid_text :: "int \<Rightarrow> string" where
  "uuid_text n = (let h = hex_text 32 n in take 8 h @ ''-'' @ take 4 (drop 8 h) @ ''-'' @ take 4 (drop 12 h)
     @ ''-'' @ take 4 (drop 16 h) @ ''-'' @ drop 20 h)"

text \<open>\<^verbatim>\<open>uuid.UUID(s)\<close> as its canonical text, nothing where it raises ValueError.\<close>

definition uuid_of_text :: "string \<Rightarrow> string option" where
  "uuid_of_text s =
     (let a = remove_text ''uuid:'' (remove_text ''urn:'' s);
          b = rev (dropWhile braces (rev (dropWhile braces a)));
          h = filter (\<lambda>c. c \<noteq> CHR ''-'') b
      in if length h \<noteq> 32 then None
         else case int16 h of None \<Rightarrow> None | Some n \<Rightarrow> if 0 \<le> n \<and> n < 2 ^ 128 then Some (uuid_text n) else None)"

lemma hex_digit_value: "0 \<le> d \<Longrightarrow> d < 16 \<Longrightarrow> hex_value (hex_digit d) = Some d"
proof -
  assume "0 \<le> d" "d < 16"
  then have "d = 0 \<or> d = 1 \<or> d = 2 \<or> d = 3 \<or> d = 4 \<or> d = 5 \<or> d = 6 \<or> d = 7 \<or> d = 8 \<or> d = 9 \<or> d = 10
    \<or> d = 11 \<or> d = 12 \<or> d = 13 \<or> d = 14 \<or> d = 15" by presburger
  then show ?thesis by (elim disjE) (simp_all add: hex_digit_def hex_value_def numeral_eq_Suc)
qed

lemma hex_digits_append:
  "(\<And>c. c \<in> set xs \<Longrightarrow> hex_value c \<noteq> None) \<Longrightarrow> xs \<noteq> [] \<Longrightarrow>
   hex_digits acc b (xs @ [c]) = (case hex_digits acc b xs of None \<Rightarrow> None
     | Some n \<Rightarrow> (case hex_value c of Some d \<Rightarrow> Some (16 * n + d) | None \<Rightarrow> None))"
proof (induction xs arbitrary: acc b)
  case (Cons x xs)
  obtain d where d: "hex_value x = Some d" using Cons.prems(1) by fastforce
  show ?case
  proof (cases xs)
    case Nil
    then show ?thesis using d by (auto split: option.splits)
  next
    case (Cons y ys)
    then show ?thesis using Cons.IH [of "16 * acc + d" True] Cons.prems d by simp
  qed
qed simp

lemma hex_text_value: "hex_value c \<noteq> None" if "c \<in> set (hex_text k n)"
  using that by (induction k arbitrary: n) (auto simp: hex_digit_value)

lemma hex_text_parse: "0 < k \<Longrightarrow> 0 \<le> n \<Longrightarrow> n < 16 ^ k \<Longrightarrow> hex_digits 0 b (hex_text k n) = Some n"
proof (induction k arbitrary: n)
  case (Suc k)
  show ?case
  proof (cases "k = 0")
    case True
    then show ?thesis using Suc.prems by (simp add: hex_digit_value)
  next
    case False
    have "n div 16 < 16 ^ k" using Suc.prems(3) by (simp add: div_less_iff_less_mult mult.commute)
    then have "hex_digits 0 b (hex_text k (n div 16)) = Some (n div 16)"
      using Suc.IH [of "n div 16"] Suc.prems(2) False by (simp add: pos_imp_zdiv_nonneg_iff)
    moreover have "hex_text k (n div 16) \<noteq> []" using False by (cases k) simp_all
    ultimately show ?thesis using hex_text_value by (subst hex_text.simps) (simp add: hex_digits_append hex_digit_value)
  qed
qed simp

lemma hex_value_plain: "hex_value c \<noteq> None \<Longrightarrow> \<not> whitespace c \<and> c \<notin> {CHR ''-'', CHR ''+'', CHR ''x'', CHR ''X'', CHR ''u'', CHR ''r'', CHR ''_''} \<and> \<not> braces c"
  by (auto simp: hex_value_def whitespace_def braces_def Let_def split: if_splits)

lemma length_hex_text [simp]: "length (hex_text k n) = k"
  by (induction k arbitrary: n) simp_all

lemma remove_text_absent: "(pat ! 0) \<notin> set s \<Longrightarrow> pat \<noteq> [] \<Longrightarrow> remove_text pat s = s"
proof (induction s)
  case Nil
  then show ?case by (simp add: remove_text.simps)
next
  case (Cons c s)
  have "take (length pat) (c # s) \<noteq> pat" using Cons.prems by (cases pat) auto
  then show ?case using Cons by (subst remove_text.simps) auto
qed

lemma strip_plain: "(\<And>c. c \<in> set s \<Longrightarrow> \<not> Q c) \<Longrightarrow> rev (dropWhile Q (rev (dropWhile Q s))) = s"
proof -
  assume Q: "\<And>c. c \<in> set s \<Longrightarrow> \<not> Q c"
  have "dropWhile Q t = t" if "set t \<subseteq> set s" for t using Q that by (cases t) auto
  then show ?thesis by simp
qed

text \<open>A canonical text is read as itself.\<close>

lemma uuid_of_uuid_text:
  assumes "0 \<le> n" "n < 2 ^ 128"
  shows "uuid_of_text (uuid_text n) = Some (uuid_text n)"
proof -
  let ?h = "hex_text 32 n"
  have val: "hex_value c \<noteq> None" if "c \<in> set ?h" for c using hex_text_value that by blast
  have parts: "set (take k (drop j ?h)) \<subseteq> set ?h" for k j
    by (meson set_drop_subset set_take_subset subset_trans)
  have chars: "c = CHR ''-'' \<or> c \<in> set ?h" if "c \<in> set (uuid_text n)" for c
    using that parts [of 4] parts [of 8 0] set_drop_subset [of 20 ?h] by (auto simp: uuid_text_def Let_def)
  have urn: "CHR ''u'' \<notin> set (uuid_text n)" using chars val hex_value_plain by fastforce
  have "filter (\<lambda>c. c \<noteq> CHR ''-'') (take k (drop j ?h)) = take k (drop j ?h)" for k j
    using val parts [of k j] hex_value_plain by (fastforce simp: filter_id_conv)
  note f = this this [of 8 0, simplified] this [of 12 20, simplified]
  have "take 8 ?h @ take 4 (drop 8 ?h) @ take 4 (drop 12 ?h) @ take 4 (drop 16 ?h) @ drop 20 ?h
      = take 8 ?h @ take 4 (drop 8 ?h) @ take 4 (drop 12 ?h) @ drop 16 ?h"
    using append_take_drop_id [of 4 "drop 16 ?h"] by simp
  also have "\<dots> = ?h"
    using append_take_drop_id [of 4 "drop 12 ?h"] append_take_drop_id [of 4 "drop 8 ?h"] append_take_drop_id [of 8 ?h] by simp
  finally have join: "take 8 ?h @ take 4 (drop 8 ?h) @ take 4 (drop 12 ?h) @ take 4 (drop 16 ?h) @ drop 20 ?h = ?h" .
  have flt: "filter (\<lambda>c. c \<noteq> CHR ''-'') (uuid_text n) = ?h"
    unfolding uuid_text_def Let_def using join by (simp add: f)
  have br: "rev (dropWhile braces (rev (dropWhile braces (uuid_text n)))) = uuid_text n"
    by (rule strip_plain) (use chars val hex_value_plain in \<open>fastforce simp: braces_def\<close>)
  have st: "strip ?h = ?h" unfolding strip_def by (rule strip_plain) (use val hex_value_plain in blast)
  obtain a b r where h: "?h = a # b # r" by (metis length_hex_text Suc_length_conv numeral_eq_Suc pred_numeral_simps(2))
  have ab: "a \<notin> {CHR ''-'', CHR ''+''}" "b \<notin> {CHR ''x'', CHR ''X''}" using hex_value_plain val h by auto
  have "int16 ?h = Some n"
    unfolding int16_def Let_def st using ab assms hex_text_parse [of 32 n False] by (simp add: h)
  then show ?thesis
    unfolding uuid_of_text_def Let_def using assms urn br flt by (simp add: remove_text_absent)
qed

end
