(* ===== verification/Bootstrap.thy ===== *)
theory Bootstrap
  imports Ecies Uuid Table
begin

text \<open>
  The HTTPS bootstrap of devices: \<^verbatim>\<open>cms/services/device_bootstrap.py\<close>, \<^verbatim>\<open>cms/services/fleet_registry.py\<close> and the
  handlers of \<^verbatim>\<open>cms/routers/bootstrap.py\<close>, over the tables \<^verbatim>\<open>pending_registrations\<close>, \<^verbatim>\<open>devices\<close> and \<^verbatim>\<open>fleets\<close>, the
  process-wide nonce cache and the rate-limit buckets. One request is one transaction: an error leaves the
  tables as they were. The permission check of the operator's endpoints is the caller's; the Web PubSub
  client that mints access tokens, the hash functions and the signature check are parameters.
\<close>

section \<open>State\<close>

record pending_registration =
  pg_id :: string
  pg_device_id :: string
  pg_pubkey :: string
  pg_hash :: string
  pg_metadata :: "(string \<times> json) list option"
  pg_ip :: "string option"
  pg_created_at :: int
  pg_updated_at :: int
  pg_polled_at :: "int option"
  pg_adopted_at :: "int option"
  pg_outbox :: "string option"
  pg_adopted_device :: "string option"

datatype boot_device_status = BootPending | BootAdopted | BootOrphaned

record boot_device =
  bd_id :: string
  bd_name :: string
  bd_location :: string
  bd_status :: boot_device_status
  bd_profile :: "string option"
  bd_pubkey :: "string option"
  bd_group :: "string option"

record boot_profile =
  bp_id :: string
  bp_enabled :: bool

record fleet =
  fl_id :: string
  fl_fleet_id :: string
  fl_secret_b64 :: string
  fl_description :: "string option"
  fl_deleted_at :: "int option"

record boot_audit =
  ba_user :: "string option"
  ba_action :: string
  ba_resource :: string

record boot_db =
  pendings :: "pending_registration list"
  boot_devices :: "boot_device list"
  boot_groups :: "string list"
  boot_profiles :: "boot_profile list"
  fleets :: "fleet list"
  boot_audits :: "boot_audit list"

record boot_state =
  bdb :: boot_db
  nonces :: nonce_cache
  rate_buckets :: buckets

text \<open>Settings and libraries.\<close>

datatype boot_error = BootstrapCapReached | BootstrapAlreadyAdopted | BootstrapPendingNotFound
  | BootstrapPubkeyMismatch | BootValueError string | BootHTTP int string | BootOther

record boot_cfg =
  pending_registrations_max :: int
  bootstrap_wps_jwt_minutes :: int
  cfg_hmac :: "string \<Rightarrow> string \<Rightarrow> string"
  cfg_sha256_hex :: "string \<Rightarrow> string"
  cfg_ed25519_verify :: "string \<Rightarrow> string \<Rightarrow> string \<Rightarrow> bool"
  cfg_crypto :: crypto_lib
  cfg_mint :: "string \<Rightarrow> boot_error + (string, string) dict"

text \<open>What one request brings besides its body: the two clocks, fresh identifiers, the peer and the user.\<close>

record boot_env =
  be_now :: int
  be_monotonic :: int
  be_uuid :: string
  be_ephemeral :: string
  be_forwarded_for :: "string option"
  be_client_host :: "string option"
  be_user :: "string option"

type_synonym 'a http = "(int \<times> string) + 'a"

section \<open>Fleet registry\<close>

definition active_fleet :: "string \<Rightarrow> fleet list \<Rightarrow> fleet option" where
  "active_fleet fid rows = List.find (\<lambda>f. fl_fleet_id f = fid \<and> fl_deleted_at f = None) rows"

text \<open>The left is \<^verbatim>\<open>FleetSecretMisconfigured\<close>.\<close>

definition get_fleet_secret :: "string \<Rightarrow> fleet list \<Rightarrow> unit + string option" where
  "get_fleet_secret fid rows =
     (case active_fleet fid rows of
        None \<Rightarrow> Inr None
      | Some f \<Rightarrow> (case b64decode True (fl_secret_b64 f) of None \<Rightarrow> Inl () | Some s \<Rightarrow> Inr (Some s)))"

definition list_active_fleets :: "fleet list \<Rightarrow> fleet list" where
  "list_active_fleets rows = sort_key fl_fleet_id (filter (\<lambda>f. fl_deleted_at f = None) rows)"

definition get_fleet_for_build :: "string \<Rightarrow> fleet list \<Rightarrow> fleet option" where
  "get_fleet_for_build fid rows = List.find (\<lambda>f. fl_fleet_id f = fid \<and> fl_deleted_at f = None) rows"

datatype fleet_error = FleetAlreadyExists | FleetValueError string

definition create_fleet ::
  "string \<Rightarrow> string \<Rightarrow> string \<Rightarrow> string option \<Rightarrow> string option \<Rightarrow> fleet list \<Rightarrow> fleet_error + fleet list" where
  "create_fleet new_id token_bytes fid description secret_b64 rows =
     (case (case secret_b64 of
              None \<Rightarrow> Inr (b64encode token_bytes)
            | Some s \<Rightarrow> if b64decode True s = None then Inl (FleetValueError ''secret_b64 is not valid base64'') else Inr s) of
        Inl e \<Rightarrow> Inl e
      | Inr secret \<Rightarrow>
          if active_fleet fid rows \<noteq> None \<or> new_id \<in> fl_id ` set rows then Inl FleetAlreadyExists
          else Inr (insert_row \<lparr>fl_id = new_id, fl_fleet_id = fid, fl_secret_b64 = secret, fl_description = description,
                 fl_deleted_at = None\<rparr> rows))"

definition delete_fleet :: "int \<Rightarrow> string \<Rightarrow> fleet list \<Rightarrow> bool \<times> fleet list" where
  "delete_fleet now fid rows =
     (case active_fleet fid rows of
        None \<Rightarrow> (False, rows)
      | Some f \<Rightarrow> (True, update_where (\<lambda>r. fl_id r = fl_id f) (\<lambda>r. r\<lparr>fl_deleted_at := Some now\<rparr>) rows))"

section \<open>Registration\<close>

definition unadopted :: "pending_registration \<Rightarrow> bool" where
  "unadopted r \<longleftrightarrow> pg_adopted_at r = None"

text \<open>The constraints of \<^verbatim>\<open>PendingRegistration\<close>: primary key, unique hash, one open row per key.\<close>

definition pending_conflict :: "pending_registration \<Rightarrow> pending_registration list \<Rightarrow> bool" where
  "pending_conflict row rows \<longleftrightarrow>
     list_ex (\<lambda>r. pg_id r = pg_id row \<or> pg_hash r = pg_hash row \<or> (unadopted r \<and> pg_pubkey r = pg_pubkey row)) rows"

definition refresh_row :: "int \<Rightarrow> (string \<times> json) list \<Rightarrow> string option \<Rightarrow> pending_registration \<Rightarrow> pending_registration" where
  "refresh_row now metadata ip r = r\<lparr>pg_metadata := (if metadata = [] then None else Some metadata), pg_ip := ip, pg_updated_at := now\<rparr>"

definition new_pending :: "int \<Rightarrow> string \<Rightarrow> string \<Rightarrow> string \<Rightarrow> string \<Rightarrow> (string \<times> json) list \<Rightarrow> string option \<Rightarrow> pending_registration" where
  "new_pending now new_id device_id pubkey h metadata ip =
     \<lparr>pg_id = new_id, pg_device_id = device_id, pg_pubkey = pubkey, pg_hash = h,
      pg_metadata = (if metadata = [] then None else Some metadata), pg_ip = ip, pg_created_at = now, pg_updated_at = now,
      pg_polled_at = None, pg_adopted_at = None, pg_outbox = None, pg_adopted_device = None\<rparr>"

text \<open>
  \<^verbatim>\<open>register_device\<close>. The advisory lock makes the body one step; on a constraint violation the open row
  of the same key is returned and the insert is rolled back.
\<close>

definition register_device ::
  "boot_cfg \<Rightarrow> int \<Rightarrow> string \<Rightarrow> string \<Rightarrow> string \<Rightarrow> string \<Rightarrow> (string \<times> json) list \<Rightarrow> string option \<Rightarrow> pending_registration list
   \<Rightarrow> boot_error + pending_registration \<times> pending_registration list" where
  "register_device cfg now new_id device_id pubkey_b64 h metadata ip rows =
     (case canonicalize_pubkey_b64 pubkey_b64 of
        Inl e \<Rightarrow> Inl (case e of ValueError m \<Rightarrow> BootValueError m | _ \<Rightarrow> BootOther)
      | Inr pubkey \<Rightarrow>
          (case find_by pg_hash h rows of
             Some existing \<Rightarrow>
               if pg_adopted_at existing \<noteq> None then Inr (existing, rows)
               else if pg_pubkey existing \<noteq> pubkey then Inl BootstrapPubkeyMismatch
               else Inr (refresh_row now metadata ip existing,
                         update_where (\<lambda>r. pg_id r = pg_id existing) (refresh_row now metadata ip) rows)
           | None \<Rightarrow>
               if 0 < pending_registrations_max cfg \<and> pending_registrations_max cfg \<le> int (rowcount unadopted rows)
               then Inl BootstrapCapReached
               else let row = new_pending now new_id device_id pubkey h metadata ip in
                 if pending_conflict row rows
                 then (case List.find (\<lambda>r. pg_pubkey r = pubkey \<and> unadopted r) rows of
                         Some winner \<Rightarrow> Inr (winner, rows)
                       | None \<Rightarrow> Inl BootOther)
                 else Inr (row, insert_row row rows)))"

text \<open>
  \<^verbatim>\<open>get_bootstrap_status\<close>: the newest row of a key. The first poll sets \<^verbatim>\<open>polled_at\<close>; the column default of
  \<^verbatim>\<open>updated_at\<close> is applied to that write.
\<close>

definition poll_row :: "int \<Rightarrow> pending_registration \<Rightarrow> pending_registration" where
  "poll_row now r = (if pg_polled_at r = None then r\<lparr>pg_polled_at := Some now, pg_updated_at := now\<rparr> else r)"

definition get_bootstrap_status ::
  "int \<Rightarrow> string \<Rightarrow> pending_registration list \<Rightarrow> py_error + pending_registration option \<times> pending_registration list" where
  "get_bootstrap_status now pubkey_b64 rows =
     result_bind (canonicalize_pubkey_b64 pubkey_b64) (\<lambda>pubkey.
       case sort_key (\<lambda>r. - pg_updated_at r) (filter (\<lambda>r. pg_pubkey r = pubkey) rows) of
         [] \<Rightarrow> Inr (None, rows)
       | row # rest \<Rightarrow> Inr (Some (poll_row now row), update_where (\<lambda>r. pg_id r = pg_id row) (poll_row now) rows))"

definition expired_unpolled :: "int \<Rightarrow> int \<Rightarrow> pending_registration \<Rightarrow> bool" where
  "expired_unpolled now ttl r \<longleftrightarrow> 0 < ttl \<and> pg_adopted_at r = None \<and> pg_polled_at r = None
     \<and> pg_created_at r < now - ttl * 1000000"

definition expired_polled :: "int \<Rightarrow> int \<Rightarrow> pending_registration \<Rightarrow> bool" where
  "expired_polled now ttl r \<longleftrightarrow> 0 < ttl \<and> pg_adopted_at r = None
     \<and> (case pg_polled_at r of None \<Rightarrow> False | Some t \<Rightarrow> t < now - ttl * 1000000)"

definition expired_adopted :: "int \<Rightarrow> int \<Rightarrow> pending_registration \<Rightarrow> bool" where
  "expired_adopted now ttl r \<longleftrightarrow> 0 < ttl \<and> (case pg_adopted_at r of None \<Rightarrow> False | Some t \<Rightarrow> t < now - ttl * 1000000)"

definition reap_pending_registrations ::
  "int \<Rightarrow> int \<Rightarrow> int \<Rightarrow> int \<Rightarrow> pending_registration list \<Rightarrow> nat \<times> pending_registration list" where
  "reap_pending_registrations now unpolled_ttl polled_ttl adopted_ttl rows =
     (let n1 = rowcount (expired_unpolled now unpolled_ttl) rows;
          rows1 = delete_where (expired_unpolled now unpolled_ttl) rows;
          n2 = rowcount (expired_polled now polled_ttl) rows1;
          rows2 = delete_where (expired_polled now polled_ttl) rows1;
          n3 = rowcount (expired_adopted now adopted_ttl) rows2;
          rows3 = delete_where (expired_adopted now adopted_ttl) rows2
      in (n1 + n2 + n3, if 0 < n1 + n2 + n3 then rows3 else rows))"

definition list_pending_registrations :: "pending_registration list \<Rightarrow> pending_registration list" where
  "list_pending_registrations rows = sort_key (\<lambda>r. - pg_created_at r) (filter unadopted rows)"

definition delete_pending :: "string \<Rightarrow> pending_registration list \<Rightarrow> string option \<times> pending_registration list" where
  "delete_pending pending_id rows =
     (case find_by pg_id pending_id rows of
        None \<Rightarrow> (None, rows)
      | Some p \<Rightarrow> if pg_adopted_at p \<noteq> None then (None, rows)
          else (Some (pg_device_id p), delete_where (\<lambda>r. pg_id r = pending_id) rows))"

section \<open>Adoption\<close>

definition build_bootstrap_payload :: "int \<Rightarrow> string \<Rightarrow> string \<Rightarrow> string \<Rightarrow> int \<Rightarrow> string" where
  "build_bootstrap_payload now device_row_id wps_url wps_jwt jwt_lifetime_minutes =
     ''{'' @ join_text '','' (map (\<lambda>(k, v). json_string k @ '':'' @ json_string v)
       [(''device_id'', device_row_id), (''wps_jwt'', wps_jwt), (''wps_url'', wps_url),
        (''jwt_expires_at'', iso_us (now + jwt_lifetime_minutes * 60000000))]) @ ''}''"

text \<open>\<^verbatim>\<open>access.get(a) or access.get(b) or ""\<close>.\<close>

definition get_either :: "string \<Rightarrow> string \<Rightarrow> (string, string) dict \<Rightarrow> string" where
  "get_either a b access =
     (case map_of access a of
        Some v \<Rightarrow> if v \<noteq> '''' then v else (case map_of access b of Some w \<Rightarrow> w | None \<Rightarrow> '''')
      | None \<Rightarrow> (case map_of access b of Some w \<Rightarrow> w | None \<Rightarrow> ''''))"

text \<open>The constraints of \<^verbatim>\<open>Device\<close>: primary key and one device per public key.\<close>

definition device_conflict :: "boot_device \<Rightarrow> boot_device list \<Rightarrow> bool" where
  "device_conflict d rows \<longleftrightarrow> list_ex (\<lambda>r. bd_id r = bd_id d \<or> (bd_pubkey r \<noteq> None \<and> bd_pubkey r = bd_pubkey d)) rows"

definition adopted_row :: "int \<Rightarrow> string \<Rightarrow> string \<Rightarrow> pending_registration \<Rightarrow> pending_registration" where
  "adopted_row now ct did r = r\<lparr>pg_adopted_at := Some now, pg_outbox := Some ct, pg_adopted_device := Some did, pg_updated_at := now\<rparr>"

record adopt_args =
  aa_profile_id :: string
  aa_name :: "string option"
  aa_location :: "string option"
  aa_group_id :: "string option"

text \<open>The checks on the optional group and the required profile.\<close>

definition adoption_group :: "string option \<Rightarrow> boot_db \<Rightarrow> boot_error + string option" where
  "adoption_group group_id db =
     (case group_id of
        None \<Rightarrow> Inr None
      | Some g \<Rightarrow> (case uuid_of_text g of
            None \<Rightarrow> Inl (BootValueError ''group_not_found'')
          | Some u \<Rightarrow> if u \<in> set (boot_groups db) then Inr (Some u) else Inl (BootValueError ''group_not_found'')))"

definition adoption_profile :: "string \<Rightarrow> boot_db \<Rightarrow> boot_error + string" where
  "adoption_profile profile_id db =
     (case uuid_of_text profile_id of
        None \<Rightarrow> Inl (BootValueError ''profile_not_found'')
      | Some u \<Rightarrow> (case find_by bp_id u (boot_profiles db) of
            None \<Rightarrow> Inl (BootValueError ''profile_not_found'')
          | Some p \<Rightarrow> if bp_enabled p then Inr u else Inl (BootValueError ''profile_disabled'')))"

definition perform_adoption ::
  "boot_cfg \<Rightarrow> boot_env \<Rightarrow> pending_registration \<Rightarrow> adopt_args \<Rightarrow> boot_db \<Rightarrow> boot_error + boot_device \<times> boot_db" where
  "perform_adoption cfg env pending a db =
     result_bind (adoption_group (aa_group_id a) db) (\<lambda>group.
     result_bind (adoption_profile (aa_profile_id a) db) (\<lambda>profile.
       let did = be_uuid env;
           device = \<lparr>bd_id = did, bd_name = (case aa_name a of None \<Rightarrow> '''' | Some n \<Rightarrow> n),
             bd_location = (case aa_location a of None \<Rightarrow> '''' | Some l \<Rightarrow> l), bd_status = BootAdopted,
             bd_profile = Some profile, bd_pubkey = Some (pg_pubkey pending), bd_group = group\<rparr>
       in if device_conflict device (boot_devices db) then Inl BootstrapAlreadyAdopted
          else result_bind (cfg_mint cfg did) (\<lambda>access.
            let wps_url = get_either ''url'' ''baseUrl'' access; wps_token = get_either ''token'' ''accessToken'' access in
            if wps_url = '''' \<or> wps_token = '''' then Inl BootOther
            else case encrypt_for_device (cfg_crypto cfg) (be_ephemeral env) (pg_pubkey pending)
                   (build_bootstrap_payload (be_now env) did wps_url wps_token (bootstrap_wps_jwt_minutes cfg)) of
                Inl e \<Rightarrow> Inl (case e of ValueError m \<Rightarrow> BootValueError m | _ \<Rightarrow> BootOther)
              | Inr ct \<Rightarrow>
                  let rows = update_where (\<lambda>r. pg_id r = pg_id pending) (adopted_row (be_now env) ct did) (pendings db);
                      rows' = (if pg_device_id pending = '''' then rows
                               else delete_where (\<lambda>r. pg_device_id r = pg_device_id pending \<and> pg_id r \<noteq> pg_id pending \<and> unadopted r) rows)
                  in Inr (device, db\<lparr>pendings := rows', boot_devices := insert_row device (boot_devices db)\<rparr>))))"

text \<open>\<^verbatim>\<open>_lock_pending_by_hash\<close> and \<^verbatim>\<open>_lock_pending_by_id\<close> are the lookups; the row lock is the transaction.\<close>

definition adopt_locked ::
  "boot_cfg \<Rightarrow> boot_env \<Rightarrow> pending_registration option \<Rightarrow> adopt_args \<Rightarrow> boot_db \<Rightarrow> boot_error + boot_device \<times> boot_db" where
  "adopt_locked cfg env found a db =
     (case found of
        None \<Rightarrow> Inl BootstrapPendingNotFound
      | Some pending \<Rightarrow> if pg_adopted_at pending \<noteq> None then Inl BootstrapAlreadyAdopted
          else perform_adoption cfg env pending a db)"

definition adopt_device ::
  "boot_cfg \<Rightarrow> boot_env \<Rightarrow> string \<Rightarrow> adopt_args \<Rightarrow> boot_db \<Rightarrow> boot_error + boot_device \<times> boot_db" where
  "adopt_device cfg env pairing_secret a db =
     adopt_locked cfg env (find_by pg_hash (cfg_sha256_hex cfg (normalize_pairing_secret pairing_secret)) (pendings db)) a db"

definition adopt_pending_by_id ::
  "boot_cfg \<Rightarrow> boot_env \<Rightarrow> string \<Rightarrow> adopt_args \<Rightarrow> boot_db \<Rightarrow> boot_error + boot_device \<times> boot_db" where
  "adopt_pending_by_id cfg env pending_id a db = adopt_locked cfg env (find_by pg_id pending_id (pendings db)) a db"

section \<open>Handlers\<close>

definition env_ip :: "boot_env \<Rightarrow> string option" where
  "env_ip env = client_ip (be_forwarded_for env) (be_client_host env)"

definition limited :: "boot_env \<Rightarrow> string \<Rightarrow> nat \<Rightarrow> boot_state \<Rightarrow> bool \<times> boot_state" where
  "limited env key limit st =
     (case ip_ratelimited (be_monotonic env) (env_ip env) key limit 60 (rate_buckets st) of
        (ok, b) \<Rightarrow> (ok, st\<lparr>rate_buckets := b\<rparr>))"

record fleet_headers =
  fh_fleet_id :: string
  fh_timestamp :: string
  fh_nonce :: string
  fh_mac :: string

record register_body =
  rb_device_id :: string
  rb_pubkey :: string
  rb_hash :: string
  rb_metadata :: "(string \<times> json) list"

definition verify_fleet_request ::
  "boot_cfg \<Rightarrow> boot_env \<Rightarrow> fleet_headers \<Rightarrow> register_body \<Rightarrow> boot_state \<Rightarrow> unit http \<times> boot_state" where
  "verify_fleet_request cfg env hs body st =
     (if fh_fleet_id hs = '''' \<or> fh_timestamp hs = '''' \<or> fh_nonce hs = '''' \<or> fh_mac hs = ''''
      then (Inl (401, ''fleet_hmac_missing''), st)
      else case int_of_text (fh_timestamp hs) of
        None \<Rightarrow> (Inl (401, ''fleet_hmac_bad_timestamp''), st)
      | Some ts \<Rightarrow>
          if \<not> timestamp_within_skew (be_now env) ts 300 then (Inl (401, ''fleet_hmac_stale''), st)
          else case get_fleet_secret (fh_fleet_id hs) (fleets (bdb st)) of
            Inl e \<Rightarrow> (Inl (500, ''fleet_secret_misconfigured''), st)
          | Inr None \<Rightarrow> (Inl (401, ''fleet_hmac_bad''), st)
          | Inr (Some secret) \<Rightarrow>
              let canonical = fleet_hmac_input (rb_device_id body) (rb_pubkey body) (rb_hash body) (fh_fleet_id hs)
                    (int_text ts) (fh_nonce hs)
              in if \<not> verify_fleet_hmac (cfg_hmac cfg) secret canonical (fh_mac hs) then (Inl (401, ''fleet_hmac_bad''), st)
                 else (case check_and_record (be_now env) ''fleet'' (fh_nonce hs) (nonces st) of
                    (fresh, c) \<Rightarrow> (if fresh then Inr () else Inl (401, ''fleet_hmac_replay''), st\<lparr>nonces := c\<rparr>)))"

text \<open>The exception clauses shared by the handlers.\<close>

fun register_failure :: "boot_error \<Rightarrow> int \<times> string" where
  "register_failure BootstrapCapReached = (503, ''registration_capacity_exceeded'')"
| "register_failure BootstrapPubkeyMismatch = (409, ''pubkey_mismatch'')"
| "register_failure (BootHTTP code msg) = (code, msg)"
| "register_failure e = (500, ''internal_error'')"

fun adopt_failure :: "boot_error \<Rightarrow> int \<times> string" where
  "adopt_failure BootstrapPendingNotFound = (404, ''pending_not_found'')"
| "adopt_failure BootstrapAlreadyAdopted = (409, ''already_adopted'')"
| "adopt_failure (BootValueError msg) =
     (if msg = ''group_not_found'' \<or> msg = ''profile_not_found'' then (404, msg)
      else if msg = ''profile_disabled'' then (422, msg) else (400, msg))"
| "adopt_failure (BootHTTP code msg) = (code, msg)"
| "adopt_failure e = (500, ''internal_error'')"

definition register :: "boot_cfg \<Rightarrow> boot_env \<Rightarrow> fleet_headers \<Rightarrow> register_body \<Rightarrow> boot_state \<Rightarrow> string http \<times> boot_state" where
  "register cfg env hs body st =
     (case limited env ''register'' 10 st of
        (False, st1) \<Rightarrow> (Inl (429, ''rate_limited''), st1)
      | (True, st1) \<Rightarrow>
          (case verify_fleet_request cfg env hs body st1 of
             (Inl e, st2) \<Rightarrow> (Inl e, st2)
           | (Inr u, st2) \<Rightarrow>
               (case canonicalize_pubkey_b64 (rb_pubkey body) of
                  Inl e \<Rightarrow> (Inl (400, case e of ValueError m \<Rightarrow> m | _ \<Rightarrow> ''''), st2)
                | Inr k \<Rightarrow>
                    (case register_device cfg (be_now env) (be_uuid env) (rb_device_id body) (rb_pubkey body)
                            (lower_text (rb_hash body)) (rb_metadata body) (env_ip env) (pendings (bdb st2)) of
                       Inl e \<Rightarrow> (Inl (register_failure e), st2)
                     | Inr (row, rows) \<Rightarrow> (Inr ''pending'', st2\<lparr>bdb := (bdb st2)\<lparr>pendings := rows\<rparr>\<rparr>)))))"

definition bootstrap_status :: "boot_env \<Rightarrow> string \<Rightarrow> boot_state \<Rightarrow> (string \<times> string option) http \<times> boot_state" where
  "bootstrap_status env pubkey st =
     (case limited env ''bootstrap-status'' 120 st of
        (False, st1) \<Rightarrow> (Inl (429, ''rate_limited''), st1)
      | (True, st1) \<Rightarrow>
          (case canonicalize_pubkey_b64 pubkey of
             Inl e \<Rightarrow> (Inl (400, case e of ValueError m \<Rightarrow> m | _ \<Rightarrow> ''''), st1)
           | Inr normalised \<Rightarrow>
               (case get_bootstrap_status (be_now env) normalised (pendings (bdb st1)) of
                  Inl e \<Rightarrow> (Inl (500, ''''), st1)
                | Inr (None, rows) \<Rightarrow> (Inl (404, ''not_found''), st1)
                | Inr (Some row, rows) \<Rightarrow>
                    (Inr (if pg_adopted_at row = None \<or> pg_outbox row = None then (''pending'', None) else (''adopted'', pg_outbox row)),
                     st1\<lparr>bdb := (bdb st1)\<lparr>pendings := rows\<rparr>\<rparr>))))"

definition user_limited :: "boot_env \<Rightarrow> boot_state \<Rightarrow> bool \<times> boot_state" where
  "user_limited env st =
     (case be_user env of
        None \<Rightarrow> (True, st)
      | Some u \<Rightarrow> (case rate_check (be_monotonic env) (''adopt-user'', u) 60 60 (rate_buckets st) of
          (ok, b) \<Rightarrow> (ok, st\<lparr>rate_buckets := b\<rparr>)))"

definition validate_bootstrap_group_id :: "string option \<Rightarrow> boot_db \<Rightarrow> string option http" where
  "validate_bootstrap_group_id group_id db =
     (case group_id of
        None \<Rightarrow> Inr None
      | Some g \<Rightarrow> (case uuid_of_text g of
            None \<Rightarrow> Inl (404, ''group_not_found'')
          | Some u \<Rightarrow> if u \<in> set (boot_groups db) then Inr (Some u) else Inl (404, ''group_not_found'')))"

text \<open>The body shared by \<^verbatim>\<open>POST /adopt\<close> and \<^verbatim>\<open>POST /adopt-pending\<close>, given the service call.\<close>

definition adopt_request ::
  "boot_env \<Rightarrow> adopt_args \<Rightarrow> (adopt_args \<Rightarrow> boot_db \<Rightarrow> (int \<times> string) + boot_device \<times> boot_db) \<Rightarrow> boot_state
   \<Rightarrow> string http \<times> boot_state" where
  "adopt_request env a service st =
     (case limited env ''adopt'' 60 st of
        (False, st1) \<Rightarrow> (Inl (429, ''rate_limited''), st1)
      | (True, st1) \<Rightarrow>
          (case user_limited env st1 of
             (False, st2) \<Rightarrow> (Inl (429, ''rate_limited''), st2)
           | (True, st2) \<Rightarrow>
               (case validate_bootstrap_group_id (aa_group_id a) (bdb st2) of
                  Inl e \<Rightarrow> (Inl e, st2)
                | Inr g \<Rightarrow>
                    (case service (a\<lparr>aa_group_id := g\<rparr>) (bdb st2) of
                       Inl e \<Rightarrow> (Inl e, st2)
                     | Inr (device, db) \<Rightarrow>
                         (Inr (bd_id device),
                          st2\<lparr>bdb := db\<lparr>boot_audits := boot_audits db @ [\<lparr>ba_user = be_user env, ba_action = ''device.adopt'', ba_resource = bd_id device\<rparr>]\<rparr>\<rparr>)))))"

definition adopt_service :: "boot_error + 'a \<Rightarrow> (int \<times> string) + 'a" where
  "adopt_service r = (case r of Inl e \<Rightarrow> Inl (adopt_failure e) | Inr x \<Rightarrow> Inr x)"

definition adopt :: "boot_cfg \<Rightarrow> boot_env \<Rightarrow> string \<Rightarrow> adopt_args \<Rightarrow> boot_state \<Rightarrow> string http \<times> boot_state" where
  "adopt cfg env pairing_secret a st =
     adopt_request env a (\<lambda>a' db. adopt_service (adopt_device cfg env pairing_secret a' db)) st"

definition adopt_pending :: "boot_cfg \<Rightarrow> boot_env \<Rightarrow> string \<Rightarrow> adopt_args \<Rightarrow> boot_state \<Rightarrow> string http \<times> boot_state" where
  "adopt_pending cfg env pending_id a st =
     adopt_request env a (\<lambda>a' db.
       case uuid_of_text pending_id of
         None \<Rightarrow> Inl (404, ''pending_not_found'')
       | Some u \<Rightarrow> adopt_service (adopt_pending_by_id cfg env u a' db)) st"

record pending_summary =
  ps_id :: string
  ps_device_id :: string
  ps_pubkey :: string
  ps_metadata :: "(string \<times> json) list"
  ps_ip :: "string option"
  ps_created_at :: string
  ps_polled_at :: "string option"
  ps_has_polled :: bool

definition pending_to_summary :: "pending_registration \<Rightarrow> pending_summary" where
  "pending_to_summary r =
     \<lparr>ps_id = pg_id r, ps_device_id = pg_device_id r, ps_pubkey = pg_pubkey r,
      ps_metadata = (case pg_metadata r of None \<Rightarrow> [] | Some m \<Rightarrow> m), ps_ip = pg_ip r,
      ps_created_at = iso_us (pg_created_at r), ps_polled_at = map_option iso_us (pg_polled_at r),
      ps_has_polled = (pg_polled_at r \<noteq> None)\<rparr>"

definition list_pending_devices :: "boot_state \<Rightarrow> pending_summary list" where
  "list_pending_devices st = map pending_to_summary (list_pending_registrations (pendings (bdb st)))"

definition reject_pending :: "boot_env \<Rightarrow> string \<Rightarrow> boot_state \<Rightarrow> unit http \<times> boot_state" where
  "reject_pending env pending_id st =
     (case uuid_of_text pending_id of
        None \<Rightarrow> (Inl (404, ''pending_not_found''), st)
      | Some u \<Rightarrow> (case delete_pending u (pendings (bdb st)) of
            (None, rows) \<Rightarrow> (Inl (404, ''pending_not_found''), st)
          | (Some did, rows) \<Rightarrow> (Inr (), st\<lparr>bdb := (bdb st)\<lparr>pendings := rows,
              boot_audits := boot_audits (bdb st) @ [\<lparr>ba_user = be_user env, ba_action = ''device.pending.reject'', ba_resource = did\<rparr>]\<rparr>\<rparr>)))"

record connect_body =
  cb_device_id :: string
  cb_timestamp :: int
  cb_nonce :: string
  cb_signature :: string

text \<open>The checks of \<^verbatim>\<open>POST /connect-token\<close> before the nonce.\<close>

definition connect_authentic :: "boot_cfg \<Rightarrow> int \<Rightarrow> connect_body \<Rightarrow> boot_db \<Rightarrow> bool" where
  "connect_authentic cfg now body db \<longleftrightarrow>
     (case find_by bd_id (cb_device_id body) (boot_devices db) of
        None \<Rightarrow> False
      | Some d \<Rightarrow>
          (case bd_pubkey d of
             None \<Rightarrow> False
           | Some k \<Rightarrow> k \<noteq> '''' \<and> bd_status d = BootAdopted
               \<and> timestamp_within_skew now (cb_timestamp body) 60
               \<and> verify_ed25519_signature (cfg_ed25519_verify cfg) k
                   (connect_token_canonical_bytes (cb_device_id body) (int_text (cb_timestamp body)) (cb_nonce body)) (cb_signature body)))"

definition connect_token :: "boot_cfg \<Rightarrow> boot_env \<Rightarrow> connect_body \<Rightarrow> boot_state \<Rightarrow> (string \<times> string \<times> string) http \<times> boot_state" where
  "connect_token cfg env body st =
     (case limited env ''connect-token'' 120 st of
        (False, st1) \<Rightarrow> (Inl (429, ''rate_limited''), st1)
      | (True, st1) \<Rightarrow>
          if \<not> connect_authentic cfg (be_now env) body (bdb st1) then (Inl (401, ''unauthorized''), st1)
          else case check_and_record (be_now env) ''connect-token'' (cb_nonce body) (nonces st1) of
            (False, c) \<Rightarrow> (Inl (401, ''unauthorized''), st1\<lparr>nonces := c\<rparr>)
          | (True, c) \<Rightarrow>
              (case cfg_mint cfg (cb_device_id body) of
                 Inl e \<Rightarrow> (Inl (case e of BootHTTP code msg \<Rightarrow> (code, msg) | _ \<Rightarrow> (500, '''')), st1\<lparr>nonces := c\<rparr>)
               | Inr access \<Rightarrow>
                   let url = get_either ''url'' ''baseUrl'' access; jwt = get_either ''token'' ''accessToken'' access in
                   (if url = '''' \<or> jwt = '''' then Inl (500, ''token_mint_failed'')
                    else Inr (jwt, url, iso_us (be_now env + bootstrap_wps_jwt_minutes cfg * 60000000)),
                    st1\<lparr>nonces := c\<rparr>)))"

text \<open>One pass of \<^verbatim>\<open>pending_registration_reaper_loop\<close> on the replica holding the advisory lock.\<close>

definition reaper_pass :: "int \<Rightarrow> int \<Rightarrow> int \<Rightarrow> int \<Rightarrow> boot_state \<Rightarrow> boot_state" where
  "reaper_pass now unpolled_ttl polled_ttl adopted_ttl st =
     st\<lparr>bdb := (bdb st)\<lparr>pendings := snd (reap_pending_registrations now unpolled_ttl polled_ttl adopted_ttl (pendings (bdb st)))\<rparr>\<rparr>"

section \<open>What every operation does to the registrations\<close>

interpretation pend: keyed_table pg_id "{f. \<forall>r. pg_id (f r) = pg_id r}"
  by unfold_locales simp

text \<open>A write that leaves the identity of a row and its adoption alone.\<close>

definition frames :: "(pending_registration \<Rightarrow> pending_registration) \<Rightarrow> bool" where
  "frames f \<longleftrightarrow> (\<forall>r. pg_id (f r) = pg_id r \<and> pg_device_id (f r) = pg_device_id r \<and> pg_pubkey (f r) = pg_pubkey r
     \<and> pg_hash (f r) = pg_hash r \<and> pg_created_at (f r) = pg_created_at r \<and> pg_adopted_at (f r) = pg_adopted_at r
     \<and> pg_outbox (f r) = pg_outbox r \<and> pg_adopted_device (f r) = pg_adopted_device r)"

lemma frames_writes: "frames (refresh_row now m ip)" "frames (poll_row now)"
  by (simp_all add: frames_def refresh_row_def poll_row_def)

definition key_text :: "string \<Rightarrow> bool" where
  "key_text k \<longleftrightarrow> (\<exists>raw. length raw = 32 \<and> k = b64encode raw)"

definition capped :: "boot_cfg \<Rightarrow> pending_registration list \<Rightarrow> bool" where
  "capped cfg rows \<longleftrightarrow> 0 < pending_registrations_max cfg \<and> pending_registrations_max cfg \<le> int (rowcount unadopted rows)"

text \<open>The payload written at adoption, to the key of the row.\<close>

definition sealed_to :: "boot_cfg \<Rightarrow> string \<Rightarrow> int \<Rightarrow> string \<Rightarrow> string \<Rightarrow> bool" where
  "sealed_to cfg pubkey t did ct \<longleftrightarrow>
     (\<exists>eph url jwt. encrypt_for_device (cfg_crypto cfg) eph pubkey
        (build_bootstrap_payload t did url jwt (bootstrap_wps_jwt_minutes cfg)) = Inr ct)"

text \<open>The abstract transitions of the table.\<close>

inductive pending_step :: "boot_cfg \<Rightarrow> pending_registration list \<Rightarrow> pending_registration list \<Rightarrow> bool" for cfg where
  stay: "pending_step cfg rows rows"
| add: "\<not> capped cfg rows \<Longrightarrow> \<not> pending_conflict (new_pending now i d k h m ip) rows \<Longrightarrow> key_text k
    \<Longrightarrow> pending_step cfg rows (insert_row (new_pending now i d k h m ip) rows)"
| touch: "frames f \<Longrightarrow> pending_step cfg rows (update_where (\<lambda>r. pg_id r = i) f rows)"
| take_up: "p \<in> set rows \<Longrightarrow> unadopted p \<Longrightarrow> sealed_to cfg (pg_pubkey p) now did ct
    \<Longrightarrow> pending_step cfg rows (delete_where (\<lambda>r. Q r \<and> unadopted r)
          (update_where (\<lambda>r. pg_id r = pg_id p) (adopted_row now ct did) rows))"
| remove: "pending_step cfg rows (delete_where P rows)"

lemma delete_where_False [simp]: "delete_where (\<lambda>r. False) rows = rows"
  by (simp add: delete_where_def)

lemma delete_where_twice: "delete_where Q (delete_where P rows) = delete_where (\<lambda>r. P r \<or> Q r) rows"
  by (simp add: delete_where_def conj_commute)

lemma register_device_step:
  assumes "register_device cfg now i d k h m ip rows = Inr (row, rows')"
  shows "pending_step cfg rows rows'"
proof -
  obtain key where key: "canonicalize_pubkey_b64 k = Inr key"
    using assms by (auto simp: register_device_def split: sum.splits)
  then have kt: "key_text key" unfolding key_text_def using canonicalize_shape by metis
  show ?thesis
  proof (cases "find_by pg_hash h rows")
    case (Some e)
    then have "rows' = rows \<or> rows' = update_where (\<lambda>r. pg_id r = pg_id e) (refresh_row now m ip) rows"
      using assms key by (auto simp: register_device_def split: if_splits)
    then show ?thesis using stay touch [OF frames_writes(1)] by metis
  next
    case None
    then have nc: "\<not> capped cfg rows" using assms key by (auto simp: register_device_def capped_def split: if_splits)
    show ?thesis
    proof (cases "pending_conflict (new_pending now i d key h m ip) rows")
      case True
      then have "rows' = rows" using assms key None nc
        by (auto simp: register_device_def capped_def Let_def split: option.splits if_splits)
      then show ?thesis using stay by simp
    next
      case False
      then have "rows' = insert_row (new_pending now i d key h m ip) rows" using assms key None nc
        by (auto simp: register_device_def capped_def Let_def split: if_splits)
      then show ?thesis using add [OF nc False kt] by simp
    qed
  qed
qed

lemma get_bootstrap_status_step:
  "get_bootstrap_status now k rows = Inr (found, rows') \<Longrightarrow> pending_step cfg rows rows'"
  using stay touch [OF frames_writes(2)]
  by (auto simp: get_bootstrap_status_def result_bind_def split: sum.splits list.splits)

lemma reap_alt:
  "snd (reap_pending_registrations now a b c rows)
     = delete_where (\<lambda>r. expired_unpolled now a r \<or> expired_polled now b r \<or> expired_adopted now c r) rows"
proof -
  let ?P = "\<lambda>r. expired_unpolled now a r \<or> expired_polled now b r \<or> expired_adopted now c r"
  let ?r1 = "delete_where (expired_unpolled now a) rows" and ?r2 = "delete_where (\<lambda>r. expired_unpolled now a r \<or> expired_polled now b r) rows"
  let ?n = "rowcount (expired_unpolled now a) rows + rowcount (expired_polled now b) ?r1 + rowcount (expired_adopted now c) ?r2"
  have d: "snd (reap_pending_registrations now a b c rows) = (if 0 < ?n then delete_where ?P rows else rows)"
    by (simp add: reap_pending_registrations_def Let_def delete_where_twice disj_assoc)
  show ?thesis
  proof (cases "0 < ?n")
    case False
    then have z: "rowcount (expired_unpolled now a) rows = 0" "rowcount (expired_polled now b) ?r1 = 0"
      "rowcount (expired_adopted now c) ?r2 = 0" by simp_all
    have n: "\<not> expired_unpolled now a r" if "r \<in> set rows" for r
      using z(1) that by (auto simp: rowcount_def filter_empty_conv)
    have n2: "\<not> expired_polled now b r" if "r \<in> set rows" for r
      using z(2) n that by (auto simp: rowcount_def filter_empty_conv set_delete_where)
    have n3: "\<not> expired_adopted now c r" if "r \<in> set rows" for r
      using z(3) n n2 that by (auto simp: rowcount_def filter_empty_conv set_delete_where)
    have "delete_where ?P rows = rows" using n n2 n3 by (auto simp: delete_where_def filter_id_conv)
    then show ?thesis using d by simp
  qed (use d in simp)
qed

lemma delete_pending_step: "delete_pending i rows = (found, rows') \<Longrightarrow> pending_step cfg rows rows'"
  using stay remove by (auto simp: delete_pending_def split: option.splits if_splits)

lemma perform_adoption_result:
  assumes "perform_adoption cfg env p a db = Inr (d, db')"
  obtains ct where "sealed_to cfg (pg_pubkey p) (be_now env) (be_uuid env) ct"
    and "pendings db' = delete_where (\<lambda>r. (pg_device_id p \<noteq> '''' \<and> pg_device_id r = pg_device_id p \<and> pg_id r \<noteq> pg_id p) \<and> unadopted r)
          (update_where (\<lambda>r. pg_id r = pg_id p) (adopted_row (be_now env) ct (be_uuid env)) (pendings db))"
    and "boot_devices db' = insert_row d (boot_devices db)" "\<not> device_conflict d (boot_devices db)"
    and "bd_id d = be_uuid env" "bd_status d = BootAdopted" "bd_pubkey d = Some (pg_pubkey p)"
    and "adoption_group (aa_group_id a) db = Inr (bd_group d)"
    and "\<exists>profile. adoption_profile (aa_profile_id a) db = Inr profile \<and> bd_profile d = Some profile"
    and "boot_groups db' = boot_groups db" "boot_profiles db' = boot_profiles db" "fleets db' = fleets db"
    and "boot_audits db' = boot_audits db"
proof -
  from assms obtain group where g: "adoption_group (aa_group_id a) db = Inr group"
    by (auto simp: perform_adoption_def result_bind_def split: sum.splits)
  from assms g obtain profile where pr: "adoption_profile (aa_profile_id a) db = Inr profile"
    by (auto simp: perform_adoption_def result_bind_def split: sum.splits)
  define dev where "dev = \<lparr>bd_id = be_uuid env, bd_name = (case aa_name a of None \<Rightarrow> '''' | Some n \<Rightarrow> n),
             bd_location = (case aa_location a of None \<Rightarrow> '''' | Some l \<Rightarrow> l), bd_status = BootAdopted,
             bd_profile = Some profile, bd_pubkey = Some (pg_pubkey p), bd_group = group\<rparr>"
  have nc: "\<not> device_conflict dev (boot_devices db)"
    using assms g pr unfolding dev_def by (auto simp: perform_adoption_def Let_def split: if_splits)
  from assms g pr nc obtain access where acc: "cfg_mint cfg (be_uuid env) = Inr access"
    unfolding dev_def by (auto simp: perform_adoption_def Let_def result_bind_def split: sum.splits if_splits)
  let ?url = "get_either ''url'' ''baseUrl'' access" and ?jwt = "get_either ''token'' ''accessToken'' access"
  have ne: "\<not> (?url = '''' \<or> ?jwt = '''')"
    using assms g pr nc acc unfolding dev_def by (auto simp: perform_adoption_def Let_def split: if_splits)
  let ?pl = "build_bootstrap_payload (be_now env) (be_uuid env) ?url ?jwt (bootstrap_wps_jwt_minutes cfg)"
  from assms g pr nc acc ne obtain ct where ct: "encrypt_for_device (cfg_crypto cfg) (be_ephemeral env) (pg_pubkey p) ?pl = Inr ct"
    unfolding dev_def by (auto simp: perform_adoption_def Let_def split: sum.splits if_splits)
  let ?rows = "update_where (\<lambda>r. pg_id r = pg_id p) (adopted_row (be_now env) ct (be_uuid env)) (pendings db)"
  have res: "perform_adoption cfg env p a db = Inr (dev, db\<lparr>pendings := (if pg_device_id p = '''' then ?rows
      else delete_where (\<lambda>r. pg_device_id r = pg_device_id p \<and> pg_id r \<noteq> pg_id p \<and> unadopted r) ?rows),
      boot_devices := insert_row dev (boot_devices db)\<rparr>)"
    unfolding perform_adoption_def g pr result_bind_simps Let_def
    using nc acc ne ct unfolding dev_def by simp
  have rows: "(if pg_device_id p = '''' then ?rows
      else delete_where (\<lambda>r. pg_device_id r = pg_device_id p \<and> pg_id r \<noteq> pg_id p \<and> unadopted r) ?rows)
      = delete_where (\<lambda>r. (pg_device_id p \<noteq> '''' \<and> pg_device_id r = pg_device_id p \<and> pg_id r \<noteq> pg_id p) \<and> unadopted r) ?rows"
    by simp
  show ?thesis
    by (rule that [of ct])
      (use res assms rows nc g pr ct in \<open>auto simp: sealed_to_def dev_def\<close>)
qed

section \<open>Runs of the bootstrap endpoints\<close>

lemma bdb_limited [simp]: "bdb (snd (limited env key l st)) = bdb st" "nonces (snd (limited env key l st)) = nonces st"
  by (simp_all add: limited_def split: prod.splits)

lemma bdb_user_limited [simp]: "bdb (snd (user_limited env st)) = bdb st" "nonces (snd (user_limited env st)) = nonces st"
  by (simp_all add: user_limited_def split: prod.splits option.splits)

lemma bdb_verify [simp]: "bdb (snd (verify_fleet_request cfg env hs body st)) = bdb st"
  by (simp add: verify_fleet_request_def Let_def split: option.splits sum.splits prod.splits)

lemma limited_cases: obtains (refused) st1 where "limited env key l st = (False, st1)" "bdb st1 = bdb st" "nonces st1 = nonces st"
  | (passed) st1 where "limited env key l st = (True, st1)" "bdb st1 = bdb st" "nonces st1 = nonces st"
  using bdb_limited [of env key l st] by (cases "limited env key l st"; cases "fst (limited env key l st)") auto

lemma adopt_locked_step:
  assumes "adopt_locked cfg env found a db = Inr (d, db')" and "\<And>p. found = Some p \<Longrightarrow> p \<in> set (pendings db)"
  shows "pending_step cfg (pendings db) (pendings db')"
proof -
  obtain p where p: "found = Some p" "unadopted p" and r: "perform_adoption cfg env p a db = Inr (d, db')"
    using assms(1) by (auto simp: adopt_locked_def unadopted_def split: option.splits if_splits)
  have mem: "p \<in> set (pendings db)" using assms(2) p(1) by simp
  show ?thesis
  proof (rule perform_adoption_result [OF r])
    fix ct
    assume sealed: "sealed_to cfg (pg_pubkey p) (be_now env) (be_uuid env) ct"
      and rows: "pendings db' = delete_where (\<lambda>r. (pg_device_id p \<noteq> '''' \<and> pg_device_id r = pg_device_id p \<and> pg_id r \<noteq> pg_id p) \<and> unadopted r)
          (update_where (\<lambda>r. pg_id r = pg_id p) (adopted_row (be_now env) ct (be_uuid env)) (pendings db))"
    show ?thesis unfolding rows by (rule take_up [OF mem p(2) sealed])
  qed
qed

lemma adopt_request_step:
  assumes "\<And>a' db d db'. service a' db = Inr (d, db') \<Longrightarrow> pending_step cfg (pendings db) (pendings db')"
  shows "pending_step cfg (pendings (bdb st)) (pendings (bdb (snd (adopt_request env a service st))))"
proof (cases env "''adopt''" "60 :: nat" st rule: limited_cases)
  case (refused st1)
  then show ?thesis using stay by (simp add: adopt_request_def)
next
  case (passed st1)
  obtain ok st2 where u: "user_limited env st1 = (ok, st2)" by fastforce
  have b: "bdb st2 = bdb st" using bdb_user_limited(1) [of env st1] u passed by simp
  show ?thesis
  proof (cases "\<exists>g d db. ok \<and> validate_bootstrap_group_id (aa_group_id a) (bdb st2) = Inr g
      \<and> service (a\<lparr>aa_group_id := g\<rparr>) (bdb st2) = Inr (d, db)")
    case True
    then obtain g d db where "ok" "validate_bootstrap_group_id (aa_group_id a) (bdb st2) = Inr g"
      and s: "service (a\<lparr>aa_group_id := g\<rparr>) (bdb st2) = Inr (d, db)" by blast
    then have "pendings (bdb (snd (adopt_request env a service st))) = pendings db"
      using passed u by (simp add: adopt_request_def)
    then show ?thesis using assms [OF s] b by simp
  next
    case False
    then have "bdb (snd (adopt_request env a service st)) = bdb st"
      using passed u b by (auto simp: adopt_request_def split: bool.splits sum.splits)
    then show ?thesis using stay by simp
  qed
qed

lemma adopt_step: "pending_step cfg (pendings (bdb st)) (pendings (bdb (snd (adopt cfg env s a st))))"
  unfolding adopt_def
proof (rule adopt_request_step)
  fix a' db d db' assume "adopt_service (adopt_device cfg env s a' db) = Inr (d, db')"
  then have "adopt_device cfg env s a' db = Inr (d, db')" by (auto simp: adopt_service_def split: sum.splits)
  then show "pending_step cfg (pendings db) (pendings db')"
    unfolding adopt_device_def by (rule adopt_locked_step) (drule find_by_Some, simp)
qed

lemma adopt_pending_step: "pending_step cfg (pendings (bdb st)) (pendings (bdb (snd (adopt_pending cfg env i a st))))"
  unfolding adopt_pending_def
proof (rule adopt_request_step)
  fix a' db d db'
  assume "(case uuid_of_text i of None \<Rightarrow> Inl (404, ''pending_not_found'')
    | Some u \<Rightarrow> adopt_service (adopt_pending_by_id cfg env u a' db)) = Inr (d, db')"
  then obtain u where "adopt_pending_by_id cfg env u a' db = Inr (d, db')"
    by (auto simp: adopt_service_def split: sum.splits option.splits)
  then show "pending_step cfg (pendings db) (pendings db')"
    unfolding adopt_pending_by_id_def by (rule adopt_locked_step) (drule find_by_Some, simp)
qed

lemma register_step: "pending_step cfg (pendings (bdb st)) (pendings (bdb (snd (register cfg env hs body st))))"
proof (cases env "''register''" "10 :: nat" st rule: limited_cases)
  case (refused st1)
  then show ?thesis using stay by (simp add: register_def)
next
  case (passed st1)
  obtain v st2 where v: "verify_fleet_request cfg env hs body st1 = (v, st2)" by fastforce
  have b: "bdb st2 = bdb st" using bdb_verify [of cfg env hs body st1] v passed by simp
  let ?reg = "register_device cfg (be_now env) (be_uuid env) (rb_device_id body) (rb_pubkey body)
    (lower_text (rb_hash body)) (rb_metadata body) (env_ip env) (pendings (bdb st2))"
  show ?thesis
  proof (cases "\<exists>row rows. v = Inr () \<and> isl (canonicalize_pubkey_b64 (rb_pubkey body)) = False \<and> ?reg = Inr (row, rows)")
    case True
    then obtain row rows k where "v = Inr ()" "canonicalize_pubkey_b64 (rb_pubkey body) = Inr k" and r: "?reg = Inr (row, rows)"
      by (metis (no_types) isl_def sum.exhaust)
    then have "pendings (bdb (snd (register cfg env hs body st))) = rows" using passed v by (simp add: register_def)
    then show ?thesis using register_device_step [OF r] b by simp
  next
    case False
    then have "bdb (snd (register cfg env hs body st)) = bdb st"
      using passed v b by (auto simp: register_def split: sum.splits prod.splits)
    then show ?thesis using stay by simp
  qed
qed

lemma bootstrap_status_step: "pending_step cfg (pendings (bdb st)) (pendings (bdb (snd (bootstrap_status env k st))))"
proof (cases env "''bootstrap-status''" "120 :: nat" st rule: limited_cases)
  case (refused st1)
  then show ?thesis using stay by (simp add: bootstrap_status_def)
next
  case (passed st1)
  show ?thesis
  proof (cases "\<exists>n row rows. canonicalize_pubkey_b64 k = Inr n \<and> get_bootstrap_status (be_now env) n (pendings (bdb st1)) = Inr (Some row, rows)")
    case True
    then obtain n row rows where "canonicalize_pubkey_b64 k = Inr n"
      and g: "get_bootstrap_status (be_now env) n (pendings (bdb st1)) = Inr (Some row, rows)" by blast
    then have "pendings (bdb (snd (bootstrap_status env k st))) = rows" using passed by (simp add: bootstrap_status_def)
    then show ?thesis using get_bootstrap_status_step [OF g] passed by simp
  next
    case False
    then have "bdb (snd (bootstrap_status env k st)) = bdb st"
      using passed by (auto simp: bootstrap_status_def split: sum.splits option.splits)
    then show ?thesis using stay by simp
  qed
qed

lemma bdb_connect_token [simp]: "bdb (snd (connect_token cfg env body st)) = bdb st"
  by (cases env "''connect-token''" "120 :: nat" st rule: limited_cases)
    (auto simp: connect_token_def Let_def split: prod.splits bool.splits sum.splits)

lemma reject_step: "pending_step cfg (pendings (bdb st)) (pendings (bdb (snd (reject_pending env i st))))"
proof (cases "uuid_of_text i")
  case None
  then show ?thesis using stay by (simp add: reject_pending_def)
next
  case (Some u)
  obtain found rows where d: "delete_pending u (pendings (bdb st)) = (found, rows)" by fastforce
  show ?thesis
    using delete_pending_step [OF d] stay by (cases found) (simp_all add: reject_pending_def Some d)
qed

text \<open>
  The runs: the endpoints in any order at any times, the reaper with any lifetimes, restarts of the process, and
  whatever other parts of the program do to devices, groups, profiles and fleets.
\<close>

inductive boot_step :: "boot_cfg \<Rightarrow> boot_state \<Rightarrow> boot_state \<Rightarrow> bool" for cfg where
  b_register: "boot_step cfg st (snd (register cfg env hs body st))"
| b_status: "boot_step cfg st (snd (bootstrap_status env k st))"
| b_adopt: "boot_step cfg st (snd (adopt cfg env s a st))"
| b_adopt_pending: "boot_step cfg st (snd (adopt_pending cfg env i a st))"
| b_reject: "boot_step cfg st (snd (reject_pending env i st))"
| b_connect: "boot_step cfg st (snd (connect_token cfg env cb st))"
| b_reap: "boot_step cfg st (reaper_pass now ttl1 ttl2 ttl3 st)"
| b_other: "pendings db = pendings (bdb st) \<Longrightarrow> boot_step cfg st (st\<lparr>bdb := db\<rparr>)"
| b_restart: "boot_step cfg st (st\<lparr>nonces := nonce_cache_init ttl, rate_buckets := []\<rparr>)"

definition boot_initial :: "boot_state \<Rightarrow> bool" where
  "boot_initial st \<longleftrightarrow> pendings (bdb st) = []"

definition boot_run :: "boot_cfg \<Rightarrow> boot_state \<Rightarrow> bool" where
  "boot_run cfg st \<longleftrightarrow> (\<exists>st0. boot_initial st0 \<and> (boot_step cfg)\<^sup>*\<^sup>* st0 st)"

lemma boot_step_pending: "boot_step cfg st st' \<Longrightarrow> pending_step cfg (pendings (bdb st)) (pendings (bdb st'))"
proof (induction rule: boot_step.induct)
  case (b_register st env hs body) show ?case by (rule register_step)
next
  case (b_status st env k) show ?case by (rule bootstrap_status_step)
next
  case (b_adopt st env s a) show ?case by (rule adopt_step)
next
  case (b_adopt_pending st env i a) show ?case by (rule adopt_pending_step)
next
  case (b_reject st env i) show ?case by (rule reject_step)
qed (simp_all add: stay reaper_pass_def reap_alt remove)

section \<open>The invariant\<close>

definition row_ok :: "boot_cfg \<Rightarrow> pending_registration \<Rightarrow> bool" where
  "row_ok cfg r \<longleftrightarrow> key_text (pg_pubkey r)
     \<and> (case pg_adopted_at r of
          None \<Rightarrow> pg_outbox r = None \<and> pg_adopted_device r = None
        | Some t \<Rightarrow> (\<exists>did ct. pg_adopted_device r = Some did \<and> pg_outbox r = Some ct \<and> sealed_to cfg (pg_pubkey r) t did ct))"

definition pending_ok :: "boot_cfg \<Rightarrow> pending_registration list \<Rightarrow> bool" where
  "pending_ok cfg rows \<longleftrightarrow> keys_ok pg_id rows \<and> distinct (map pg_hash rows)
     \<and> distinct (map pg_pubkey (filter unadopted rows))
     \<and> (0 < pending_registrations_max cfg \<longrightarrow> int (rowcount unadopted rows) \<le> pending_registrations_max cfg)
     \<and> (\<forall>r \<in> set rows. row_ok cfg r)"

lemma pending_ok_delete: "pending_ok cfg rows \<Longrightarrow> pending_ok cfg (delete_where P rows)"
proof -
  assume ok: "pending_ok cfg rows"
  have "filter unadopted (delete_where P rows) = filter (\<lambda>r. \<not> P r) (filter unadopted rows)"
    by (simp add: delete_where_def conj_commute)
  moreover have "rowcount unadopted (delete_where P rows) \<le> rowcount unadopted rows"
    unfolding rowcount_def calculation by (rule length_filter_le)
  moreover have "distinct (map pg_pubkey (filter unadopted (delete_where P rows)))"
    unfolding calculation(1) using ok unfolding pending_ok_def by (blast intro: distinct_map_filter)
  moreover have "distinct (map pg_hash (delete_where P rows))"
    using ok unfolding pending_ok_def delete_where_def by (blast intro: distinct_map_filter)
  ultimately show ?thesis
    using ok unfolding pending_ok_def by (auto simp: pend.keys_ok_delete set_delete_where)
qed

lemma pending_ok_map:
  assumes ok: "pending_ok cfg rows"
    and g: "\<And>r. pg_id (g r) = pg_id r" "\<And>r. pg_hash (g r) = pg_hash r" "\<And>r. pg_pubkey (g r) = pg_pubkey r"
    and un: "\<And>r. unadopted (g r) \<Longrightarrow> unadopted r" and row: "\<And>r. r \<in> set rows \<Longrightarrow> row_ok cfg (g r)"
  shows "pending_ok cfg (map g rows)"
proof -
  have f: "filter unadopted (map g rows) = map g (filter (\<lambda>r. unadopted (g r)) (filter unadopted rows))"
    using un by (induction rows) auto
  have "distinct (map pg_pubkey (filter unadopted rows))" using ok by (simp add: pending_ok_def)
  then have "distinct (map pg_pubkey (filter (\<lambda>r. unadopted (g r)) (filter unadopted rows)))" by (rule distinct_map_filter)
  then have "distinct (map pg_pubkey (filter unadopted (map g rows)))" unfolding f map_map comp_def g .
  moreover have "0 < pending_registrations_max cfg \<longrightarrow> int (length (filter unadopted (map g rows))) \<le> pending_registrations_max cfg"
  proof -
    have "length (filter unadopted (map g rows)) \<le> length (filter unadopted rows)"
      unfolding f length_map by (rule length_filter_le)
    moreover have "0 < pending_registrations_max cfg \<longrightarrow> int (length (filter unadopted rows)) \<le> pending_registrations_max cfg"
      using ok unfolding pending_ok_def rowcount_def by blast
    ultimately show ?thesis by linarith
  qed
  moreover have "map pg_id (map g rows) = map pg_id rows" "map pg_hash (map g rows) = map pg_hash rows"
    by (simp_all add: g)
  moreover have "\<forall>r \<in> set (map g rows). row_ok cfg r" using row by simp
  ultimately show ?thesis using ok unfolding pending_ok_def keys_ok_def rowcount_def by presburger
qed

lemma pending_ok_frame:
  assumes "pending_ok cfg rows" "frames f"
  shows "pending_ok cfg (update_where P f rows)"
  unfolding update_where_def
proof (rule pending_ok_map [OF assms(1)])
  fix r
  note f = assms(2) [unfolded frames_def, rule_format, of r]
  show "pg_id (if P r then f r else r) = pg_id r" "pg_hash (if P r then f r else r) = pg_hash r"
    "pg_pubkey (if P r then f r else r) = pg_pubkey r" using f by simp_all
  show "unadopted r" if "unadopted (if P r then f r else r)" using f that by (simp add: unadopted_def split: if_splits)
  have "row_ok cfg (f r) = row_ok cfg r" using f by (simp add: row_ok_def split: option.splits)
  then show "row_ok cfg (if P r then f r else r)" if "r \<in> set rows" using assms(1) that by (simp add: pending_ok_def)
qed

lemma pending_ok_add:
  assumes "pending_ok cfg rows" "\<not> capped cfg rows" "\<not> pending_conflict (new_pending now i d k h m ip) rows" "key_text k"
  shows "pending_ok cfg (insert_row (new_pending now i d k h m ip) rows)"
proof -
  let ?n = "new_pending now i d k h m ip"
  have n: "pg_id ?n = i" "pg_hash ?n = h" "pg_pubkey ?n = k" "unadopted ?n" "row_ok cfg ?n"
    using assms(4) by (simp_all add: new_pending_def unadopted_def row_ok_def)
  have c: "i \<notin> pg_id ` set rows" "h \<notin> pg_hash ` set rows" "k \<notin> pg_pubkey ` set (filter unadopted rows)"
    using assms(3) by (auto simp: pending_conflict_def n list_ex_iff)
  have "int (rowcount unadopted (insert_row ?n rows)) \<le> pending_registrations_max cfg" if "0 < pending_registrations_max cfg"
    using assms(2) that n(4) by (simp add: capped_def rowcount_def insert_row_def)
  then show ?thesis
    using assms(1) c n by (simp add: pending_ok_def insert_row_def keys_ok_def)
qed

lemma pending_ok_adopt:
  assumes ok: "pending_ok cfg rows" and p: "p \<in> set rows" "unadopted p" and s: "sealed_to cfg (pg_pubkey p) now did ct"
  shows "pending_ok cfg (update_where (\<lambda>r. pg_id r = pg_id p) (adopted_row now ct did) rows)"
  unfolding update_where_def
proof (rule pending_ok_map [OF ok])
  fix r assume "r \<in> set rows"
  show "row_ok cfg (if pg_id r = pg_id p then adopted_row now ct did r else r)"
  proof (cases "pg_id r = pg_id p")
    case True
    then have "r = p" using ok p(1) \<open>r \<in> set rows\<close> by (auto simp: pending_ok_def keys_ok_def distinct_map dest: inj_onD)
    then show ?thesis using ok p s by (simp add: row_ok_def adopted_row_def pending_ok_def)
  next
    case False
    then show ?thesis using ok \<open>r \<in> set rows\<close> by (simp add: pending_ok_def)
  qed
qed (simp_all add: adopted_row_def unadopted_def split: if_splits)

lemma pending_step_ok: "pending_step cfg rows rows' \<Longrightarrow> pending_ok cfg rows \<Longrightarrow> pending_ok cfg rows'"
  by (induction rule: pending_step.induct)
    (simp_all add: pending_ok_delete pending_ok_frame pending_ok_add pending_ok_adopt)

interpretation boot_runs: step_invariant "boot_step cfg" "\<lambda>st. pending_ok cfg (pendings (bdb st))" for cfg
  by unfold_locales (blast dest: boot_step_pending pending_step_ok)

lemma boot_run_ok: "boot_run cfg st \<Longrightarrow> pending_ok cfg (pendings (bdb st))"
  by (rule boot_runs.reachable_inv [of boot_initial])
    (auto simp: boot_run_def boot_initial_def pending_ok_def keys_ok_def rowcount_def)

lemma set_update_where_map: "set (update_where P f rows) = (\<lambda>r. if P r then f r else r) ` set rows"
  by (simp add: update_where_def)

text \<open>What one transition may do to a registration that survives it.\<close>

definition same_registration :: "boot_cfg \<Rightarrow> pending_registration \<Rightarrow> pending_registration \<Rightarrow> bool" where
  "same_registration cfg r r' \<longleftrightarrow>
     pg_device_id r' = pg_device_id r \<and> pg_pubkey r' = pg_pubkey r \<and> pg_hash r' = pg_hash r
     \<and> pg_created_at r' = pg_created_at r
     \<and> (if unadopted r
        then unadopted r' \<or> (\<exists>t did ct. pg_adopted_at r' = Some t \<and> pg_adopted_device r' = Some did
               \<and> pg_outbox r' = Some ct \<and> sealed_to cfg (pg_pubkey r) t did ct)
        else pg_adopted_at r' = pg_adopted_at r \<and> pg_outbox r' = pg_outbox r \<and> pg_adopted_device r' = pg_adopted_device r)"

lemma same_registration_refl: "same_registration cfg r r"
  by (simp add: same_registration_def)

lemma unique_row:
  "pending_ok cfg rows \<Longrightarrow> r \<in> set rows \<Longrightarrow> p \<in> set rows \<Longrightarrow> pg_id r = pg_id p \<Longrightarrow> r = p"
  by (auto simp: pending_ok_def keys_ok_def distinct_map dest: inj_onD)

lemma pending_step_same:
  assumes "pending_step cfg rows rows'" "pending_ok cfg rows" "r \<in> set rows" "r' \<in> set rows'" "pg_id r' = pg_id r"
  shows "same_registration cfg r r'"
  using assms(1)
proof (cases rule: pending_step.cases)
  case stay
  then have "r' = r" using unique_row [OF assms(2)] assms(3-5) by blast
  then show ?thesis by (simp add: same_registration_refl)
next
  case (add now i d k h m ip)
  have "i \<noteq> pg_id r" using add(3) assms(3) by (auto simp: pending_conflict_def list_ex_iff new_pending_def)
  then have "r' \<in> set rows" using assms(4,5) add(1) by (auto simp: set_insert_row new_pending_def)
  then have "r' = r" using unique_row [OF assms(2)] assms(3,5) by blast
  then show ?thesis by (simp add: same_registration_refl)
next
  case (touch f i)
  then obtain q where q: "q \<in> set rows" "r' = (if pg_id q = i then f q else q)"
    using assms(4) by (auto simp: set_update_where_map)
  note f = touch(2) [unfolded frames_def, rule_format, of q]
  then have "q = r" using unique_row [OF assms(2)] assms(3,5) q by (metis (full_types))
  then show ?thesis using q f by (auto simp: same_registration_def unadopted_def)
next
  case (take_up p now did ct Q)
  then obtain q where q: "q \<in> set rows" "r' = (if pg_id q = pg_id p then adopted_row now ct did q else q)"
    using assms(4) by (auto simp: set_update_where_map set_delete_where)
  then have "q = r" using unique_row [OF assms(2)] assms(3,5) by (auto simp: adopted_row_def split: if_splits)
  show ?thesis
  proof (cases "pg_id q = pg_id p")
    case True
    then have "p = r" using unique_row [OF assms(2)] take_up(2) q(1) \<open>q = r\<close> by blast
    then show ?thesis using q True take_up \<open>q = r\<close> by (auto simp: same_registration_def adopted_row_def unadopted_def)
  next
    case False
    then show ?thesis using q \<open>q = r\<close> by (simp add: same_registration_refl)
  qed
next
  case (remove P)
  then have "r' = r" using unique_row [OF assms(2)] assms(3-5) by (auto simp: set_delete_where)
  then show ?thesis by (simp add: same_registration_refl)
qed

text \<open>
  C27. Pending registrations. In every state the endpoints and the reaper can reach, at any times and in any order,
  ids and pairing hashes are unique, a key has at most one open registration, the number of open registrations is
  within the configured cap, every key is the canonical text of a 32-byte key, an open registration
  carries no payload, and an adopted one carries a payload encrypted to its own key.
\<close>

theorem registrations_invariant:
  assumes "boot_run cfg st"
  shows "pending_ok cfg (pendings (bdb st))"
  using assms by (rule boot_run_ok)

text \<open>
  C26. A registration cannot be hijacked. Whatever is requested of the endpoints, a row that survives a transition
  keeps its key, its pairing hash and its device id; an adopted row keeps its payload and its device for good;
  and the transition that adopts a row encrypts the payload to the key the row was registered with. So a
  second party who knows the pairing secret cannot redirect the payload to a key of its own, and no row is adopted twice.
\<close>

theorem registration_not_hijacked:
  assumes "boot_run cfg st" and "boot_step cfg st st'"
    and "r \<in> set (pendings (bdb st))" and "r' \<in> set (pendings (bdb st'))" and "pg_id r' = pg_id r"
  shows "same_registration cfg r r'"
  using pending_step_same [OF boot_step_pending [OF assms(2)] boot_run_ok [OF assms(1)] assms(3-5)] .

section \<open>A concrete system\<close>

definition toy_profile :: string where "toy_profile = ''00000000-0000-0000-0000-000000000001''"

definition toy_key :: string where "toy_key = b64encode (CHR 0x02 # replicate 31 (CHR 0x00))"

definition toy_cfg :: boot_cfg where
  "toy_cfg = \<lparr>pending_registrations_max = 2, bootstrap_wps_jwt_minutes = 60, cfg_hmac = toy_hmac, cfg_sha256_hex = lower_text,
     cfg_ed25519_verify = (\<lambda>pub sig msg. sig = ''sig''), cfg_crypto = toy_crypto,
     cfg_mint = (\<lambda>did. Inr [(''url'', ''wss://hub''), (''token'', ''jwt'')])\<rparr>"

definition toy_start :: boot_state where
  "toy_start = \<lparr>bdb = \<lparr>pendings = [], boot_devices = [], boot_groups = [], boot_profiles = [\<lparr>bp_id = toy_profile, bp_enabled = True\<rparr>],
       fleets = [\<lparr>fl_id = ''1'', fl_fleet_id = ''f'', fl_secret_b64 = ''AAAA'', fl_description = None, fl_deleted_at = None\<rparr>],
       boot_audits = []\<rparr>, nonces = nonce_cache_init 600, rate_buckets = []\<rparr>"

definition toy_env :: "int \<Rightarrow> string \<Rightarrow> boot_env" where
  "toy_env now uid = \<lparr>be_now = now, be_monotonic = now, be_uuid = uid, be_ephemeral = ''e'', be_forwarded_for = None,
     be_client_host = Some ''10.0.0.1'', be_user = Some ''admin''\<rparr>"

definition toy_body :: "string \<Rightarrow> register_body" where
  "toy_body h = \<lparr>rb_device_id = ''pi'', rb_pubkey = toy_key, rb_hash = h, rb_metadata = []\<rparr>"

definition toy_headers :: "string \<Rightarrow> string \<Rightarrow> register_body \<Rightarrow> fleet_headers" where
  "toy_headers ts nonce b = \<lparr>fh_fleet_id = ''f'', fh_timestamp = ts, fh_nonce = nonce,
     fh_mac = toy_hmac (the (b64decode True ''AAAA''))
       (fleet_hmac_input (rb_device_id b) (rb_pubkey b) (rb_hash b) ''f'' ts nonce)\<rparr>"

definition toy_registered :: boot_state where
  "toy_registered = snd (register toy_cfg (toy_env 0 ''r1'') (toy_headers ''0'' ''n1'' (toy_body ''ab10xy11'')) (toy_body ''ab10xy11'') toy_start)"

definition toy_args :: adopt_args where
  "toy_args = \<lparr>aa_profile_id = toy_profile, aa_name = Some ''Lobby'', aa_location = None, aa_group_id = None\<rparr>"


lemma toy_rows: "pendings (bdb toy_registered) = [new_pending 0 ''r1'' ''pi'' toy_key ''ab10xy11'' [] (Some ''10.0.0.1'')]"
  by code_simp

lemma toy_run: "boot_run toy_cfg toy_registered"
  unfolding boot_run_def toy_registered_def
  by (rule exI [of _ toy_start]) (auto intro: b_register simp: boot_initial_def toy_start_def)

theorem registrations_invariant_witness:
  "pending_ok toy_cfg (pendings (bdb toy_registered)) \<and> length (pendings (bdb toy_registered)) = 1"
  using registrations_invariant [OF toy_run] by (simp add: toy_rows)

theorem registration_not_hijacked_witness:
  "same_registration toy_cfg (hd (pendings (bdb toy_registered)))
     (hd (pendings (bdb (snd (bootstrap_status (toy_env 9 ''x'') toy_key toy_registered)))))"
proof (rule registration_not_hijacked [OF toy_run])
  show "boot_step toy_cfg toy_registered (snd (bootstrap_status (toy_env 9 ''x'') toy_key toy_registered))" by (rule b_status)
  have rows: "pendings (bdb (snd (bootstrap_status (toy_env 9 ''x'') toy_key toy_registered)))
      = [poll_row 9 (new_pending 0 ''r1'' ''pi'' toy_key ''ab10xy11'' [] (Some ''10.0.0.1''))]" by code_simp
  show "hd (pendings (bdb toy_registered)) \<in> set (pendings (bdb toy_registered))" by (simp add: toy_rows)
  show "hd (pendings (bdb (snd (bootstrap_status (toy_env 9 ''x'') toy_key toy_registered))))
      \<in> set (pendings (bdb (snd (bootstrap_status (toy_env 9 ''x'') toy_key toy_registered))))" by (simp add: rows)
  show "pg_id (hd (pendings (bdb (snd (bootstrap_status (toy_env 9 ''x'') toy_key toy_registered))))) = pg_id (hd (pendings (bdb toy_registered)))"
    by (simp add: rows toy_rows poll_row_def new_pending_def)
qed

section \<open>Adoption reaches the device\<close>

lemma newest_first:
  assumes "p \<in> set rows" "P p" "\<And>r. r \<in> set rows \<Longrightarrow> P r \<Longrightarrow> r \<noteq> p \<Longrightarrow> (key p :: int) < key r"
    and "distinct rows"
  shows "\<exists>rest. sort_key key (filter P rows) = p # rest"
proof -
  let ?s = "sort_key key (filter P rows)"
  have set: "set ?s = {r \<in> set rows. P r}" by auto
  have "p \<in> set ?s" using set assms(1,2) by simp
  then obtain x rest where s: "?s = x # rest" by (cases ?s) auto
  have "x = p"
  proof (rule ccontr)
    assume "x \<noteq> p"
    then have "p \<in> set rest" using s \<open>p \<in> set ?s\<close> by simp
    moreover have "sorted (map key ?s)" by (rule sorted_sort_key)
    ultimately have "key x \<le> key p" using s by simp
    moreover have "x \<in> set rows" "P x" using set s by auto
    ultimately show False using assms(3) [of x] \<open>x \<noteq> p\<close> by fastforce
  qed
  then show ?thesis using s by blast
qed

text \<open>The optional group of a request is a canonical UUID of an existing group.\<close>

definition group_ok :: "string option \<Rightarrow> boot_db \<Rightarrow> bool" where
  "group_ok g db \<longleftrightarrow> (case g of None \<Rightarrow> True
     | Some t \<Rightarrow> t \<in> set (boot_groups db) \<and> (\<exists>n. 0 \<le> n \<and> n < 2 ^ 128 \<and> t = uuid_text n))"

lemma group_ok_checks:
  "group_ok g db \<Longrightarrow> validate_bootstrap_group_id g db = Inr g \<and> adoption_group g db = Inr g"
  by (auto simp: group_ok_def validate_bootstrap_group_id_def adoption_group_def uuid_of_uuid_text split: option.splits)

lemma pending_ok_distinct: "pending_ok cfg rows \<Longrightarrow> distinct rows"
  by (auto simp: pending_ok_def keys_ok_def distinct_map)

text \<open>The status a key sees once its row has been adopted at a later instant than all other writes.\<close>

lemma status_of_adopted:
  assumes ok: "pending_ok cfg rows" and p: "p \<in> set rows" and adopted: "pg_adopted_at p \<noteq> None" "pg_outbox p = Some ct"
    and newest: "\<And>r. r \<in> set rows \<Longrightarrow> pg_pubkey r = pg_pubkey p \<Longrightarrow> r \<noteq> p \<Longrightarrow> pg_updated_at r < pg_updated_at p"
    and key: "canonicalize_pubkey_b64 s = Inr (pg_pubkey p)" and st: "pendings (bdb st) = rows"
    and lim: "fst (limited env ''bootstrap-status'' 120 st)"
  shows "fst (bootstrap_status env s st) = Inr (''adopted'', Some ct)"
proof -
  obtain raw where raw: "length raw = 32" "pg_pubkey p = b64encode raw" using canonicalize_shape [OF key] by metis
  then have again: "canonicalize_pubkey_b64 (pg_pubkey p) = Inr (pg_pubkey p)"
    using canonicalize_of_decoded [of "pg_pubkey p" 0 raw] by (simp add: to_standard_id b64encode_plain)
  obtain rest where sorted: "sort_key (\<lambda>r. - pg_updated_at r) (filter (\<lambda>r. pg_pubkey r = pg_pubkey p) rows) = p # rest"
    using newest_first [of p rows "\<lambda>r. pg_pubkey r = pg_pubkey p" "\<lambda>r. - pg_updated_at r"] p newest pending_ok_distinct [OF ok] by force
  then have g: "get_bootstrap_status (be_now env) (pg_pubkey p) rows
      = Inr (Some (poll_row (be_now env) p), update_where (\<lambda>r. pg_id r = pg_id p) (poll_row (be_now env)) rows)"
    by (simp add: get_bootstrap_status_def again)
  obtain st1 where l: "limited env ''bootstrap-status'' 120 st = (True, st1)" and b: "bdb st1 = bdb st"
    using lim bdb_limited(1) [of env "''bootstrap-status''" 120 st] by (cases "limited env ''bootstrap-status'' 120 st") auto
  have "pg_adopted_at (poll_row (be_now env) p) = pg_adopted_at p" "pg_outbox (poll_row (be_now env) p) = Some ct"
    using adopted by (simp_all add: poll_row_def)
  then show ?thesis using adopted by (simp add: bootstrap_status_def l key b st g)
qed

text \<open>The conditions under which an adoption goes through: row, group, profile, device table and access token.\<close>

definition adoptable :: "boot_cfg \<Rightarrow> boot_env \<Rightarrow> pending_registration \<Rightarrow> adopt_args \<Rightarrow> (string, string) dict \<Rightarrow> boot_db \<Rightarrow> bool" where
  "adoptable cfg env p a access db \<longleftrightarrow>
     p \<in> set (pendings db) \<and> unadopted p \<and> group_ok (aa_group_id a) db
     \<and> (\<exists>profile. adoption_profile (aa_profile_id a) db = Inr profile)
     \<and> be_uuid env \<notin> bd_id ` set (boot_devices db) \<and> Some (pg_pubkey p) \<notin> bd_pubkey ` set (boot_devices db)
     \<and> cfg_mint cfg (be_uuid env) = Inr access
     \<and> get_either ''url'' ''baseUrl'' access \<noteq> '''' \<and> get_either ''token'' ''accessToken'' access \<noteq> ''''"

definition payload_of :: "boot_cfg \<Rightarrow> boot_env \<Rightarrow> (string, string) dict \<Rightarrow> string" where
  "payload_of cfg env access = build_bootstrap_payload (be_now env) (be_uuid env) (get_either ''url'' ''baseUrl'' access)
     (get_either ''token'' ''accessToken'' access) (bootstrap_wps_jwt_minutes cfg)"

lemma perform_adoption_succeeds:
  assumes "adoptable cfg env p a access db"
    and "encrypt_for_device (cfg_crypto cfg) (be_ephemeral env) (pg_pubkey p) (payload_of cfg env access) = Inr ct"
  shows "\<exists>d db'. perform_adoption cfg env p a db = Inr (d, db') \<and> bd_id d = be_uuid env
     \<and> pendings db' = delete_where (\<lambda>r. (pg_device_id p \<noteq> '''' \<and> pg_device_id r = pg_device_id p \<and> pg_id r \<noteq> pg_id p) \<and> unadopted r)
          (update_where (\<lambda>r. pg_id r = pg_id p) (adopted_row (be_now env) ct (be_uuid env)) (pendings db))"
proof -
  obtain profile where pr: "adoption_profile (aa_profile_id a) db = Inr profile" using assms(1) by (auto simp: adoptable_def)
  have g: "adoption_group (aa_group_id a) db = Inr (aa_group_id a)" using assms(1) group_ok_checks by (auto simp: adoptable_def)
  let ?d = "\<lparr>bd_id = be_uuid env, bd_name = (case aa_name a of None \<Rightarrow> '''' | Some n \<Rightarrow> n),
             bd_location = (case aa_location a of None \<Rightarrow> '''' | Some l \<Rightarrow> l), bd_status = BootAdopted,
             bd_profile = Some profile, bd_pubkey = Some (pg_pubkey p), bd_group = aa_group_id a\<rparr>"
  have "\<not> device_conflict ?d (boot_devices db)"
  proof -
    have "be_uuid env \<notin> bd_id ` set (boot_devices db)" "Some (pg_pubkey p) \<notin> bd_pubkey ` set (boot_devices db)"
      using assms(1) by (simp_all add: adoptable_def)
    then show ?thesis by (force simp: device_conflict_def list_ex_iff)
  qed
  then show ?thesis
    using assms unfolding perform_adoption_def g pr result_bind_simps Let_def adoptable_def payload_of_def by simp
qed

lemma adopt_request_succeeds:
  assumes "fst (limited env ''adopt'' 60 st)" "fst (user_limited env (snd (limited env ''adopt'' 60 st)))"
    and "group_ok (aa_group_id a) (bdb st)" "service a (bdb st) = Inr (d, db)"
  shows "fst (adopt_request env a service st) = Inr (bd_id d) \<and> pendings (bdb (snd (adopt_request env a service st))) = pendings db"
proof -
  obtain st1 where l: "limited env ''adopt'' 60 st = (True, st1)" and b: "bdb st1 = bdb st"
    using assms(1) bdb_limited(1) [of env "''adopt''" 60 st] by (cases "limited env ''adopt'' 60 st") auto
  obtain st2 where u: "user_limited env st1 = (True, st2)" and b2: "bdb st2 = bdb st"
    using assms(2) l b bdb_user_limited(1) [of env st1] by (cases "user_limited env st1") auto
  show ?thesis
    using group_ok_checks [OF assms(3)] assms(4) by (simp add: adopt_request_def l u b2)
qed

lemma adopt_buckets:
  "rate_buckets (snd (adopt cfg env s a st)) =
     (let l = limited env ''adopt'' 60 st in
      if fst l then rate_buckets (snd (user_limited env (snd l))) else rate_buckets (snd l))"
  by (auto simp: adopt_def adopt_request_def Let_def split: prod.splits bool.splits sum.splits)

text \<open>
  C28. From the typed code to the device. In a reachable state, let an operator type any spelling of the code of an
  open registration, with an existing enabled profile and an existing group, while the Web PubSub service
  issues tokens and no device has the key yet. Then the adoption succeeds with the new device's id,
  and from then on a poll with any spelling of the device's key is answered with a payload that the holder of the
  private key decrypts to exactly the device id, address, token and expiry that were issued.
\<close>

theorem adoption_delivers:
  assumes run: "boot_run cfg st"
    and code: "short_code code" "writes_code code typed"
      "find_by pg_hash (cfg_sha256_hex cfg code) (pendings (bdb st)) = Some p"
    and ok: "adoptable cfg env p a access (bdb st)"
    and limits: "fst (limited env ''adopt'' 60 st)" "fst (user_limited env (snd (limited env ''adopt'' 60 st)))"
    and clock: "\<And>r. r \<in> set (pendings (bdb st)) \<Longrightarrow> pg_updated_at r < be_now env"
    and keys: "crypto_laws (cfg_crypto cfg)" "pg_pubkey p = b64encode ed_pub"
      "ed25519_priv_to_x25519 (cfg_crypto cfg) priv = Inr x_priv"
      "ed25519_pub_to_x25519 ed_pub = Inr (x25519_public (cfg_crypto cfg) x_priv)"
      "x25519_exchange (cfg_crypto cfg) (be_ephemeral env) (x25519_public (cfg_crypto cfg) x_priv) \<noteq> None"
    and poll: "canonicalize_pubkey_b64 key = Inr (pg_pubkey p)"
      "fst (limited env' ''bootstrap-status'' 120 (snd (adopt cfg env typed a st)))"
  shows "fst (adopt cfg env typed a st) = Inr (be_uuid env)
    \<and> (\<exists>ct. fst (bootstrap_status env' key (snd (adopt cfg env typed a st))) = Inr (''adopted'', Some ct)
      \<and> decrypt_with_device_key (cfg_crypto cfg) priv ct = Inr (payload_of cfg env access))"
proof -
  let ?st' = "snd (adopt cfg env typed a st)"
  obtain ct where ct: "encrypt_for_device (cfg_crypto cfg) (be_ephemeral env) (pg_pubkey p) (payload_of cfg env access) = Inr ct"
    and dec: "decrypt_with_device_key (cfg_crypto cfg) priv ct = Inr (payload_of cfg env access)"
    unfolding keys(2) using ecies_core [OF keys(1,3,4,5)] by blast
  obtain d db where perf: "perform_adoption cfg env p a (bdb st) = Inr (d, db)" "bd_id d = be_uuid env"
    and rows: "pendings db = delete_where (\<lambda>r. (pg_device_id p \<noteq> '''' \<and> pg_device_id r = pg_device_id p \<and> pg_id r \<noteq> pg_id p) \<and> unadopted r)
          (update_where (\<lambda>r. pg_id r = pg_id p) (adopted_row (be_now env) ct (be_uuid env)) (pendings (bdb st)))"
    using perform_adoption_succeeds [OF ok ct] by blast
  have "normalize_pairing_secret typed = code" using normalize_writes [OF code(1)] code(2) by blast
  then have dev: "adopt_device cfg env typed a (bdb st) = Inr (d, db)"
    using code(3) ok perf(1) by (simp add: adopt_device_def adopt_locked_def adoptable_def unadopted_def)
  note res = adopt_request_succeeds [OF limits, of a "\<lambda>a' db. adopt_service (adopt_device cfg env typed a' db)" d db]
  have g: "group_ok (aa_group_id a) (bdb st)" using ok by (simp add: adoptable_def)
  then have both: "fst (adopt cfg env typed a st) = Inr (be_uuid env)" "pendings (bdb ?st') = pendings db"
    using res dev perf(2) by (simp_all add: adopt_def adopt_service_def)
  have ok': "pending_ok cfg (pendings db)"
    using pending_step_ok [OF adopt_step boot_run_ok [OF run], of env typed a] both(2) by simp
  let ?p = "adopted_row (be_now env) ct (be_uuid env) p"
  have mem: "p \<in> set (pendings (bdb st))" using ok by (simp add: adoptable_def)
  then have "?p \<in> set (pendings db)"
    unfolding rows set_delete_where set_update_where_map by (force simp: adopted_row_def unadopted_def)
  moreover have "pg_updated_at r < pg_updated_at ?p" if r: "r \<in> set (pendings db)" "r \<noteq> ?p" for r
  proof -
    from r(1) obtain q where q: "q \<in> set (pendings (bdb st))" "r = (if pg_id q = pg_id p then adopted_row (be_now env) ct (be_uuid env) q else q)"
      unfolding rows set_delete_where set_update_where_map by blast
    have "pg_id q \<noteq> pg_id p" using q r(2) unique_row [OF boot_run_ok [OF run] q(1) mem] by auto
    then show ?thesis using clock [OF q(1)] q(2) by (simp add: adopted_row_def)
  qed
  ultimately have "fst (bootstrap_status env' key ?st') = Inr (''adopted'', Some ct)"
    using status_of_adopted [OF ok', of ?p ct key ?st' env'] poll both(2) by (simp add: adopted_row_def)
  then show ?thesis using both(1) dec by blast
qed

theorem adoption_delivers_witness:
  "fst (adopt toy_cfg (toy_env 5000000 ''d1'') ''ab1o-xyIl'' toy_args toy_registered) = Inr ''d1''
   \<and> (\<exists>ct. fst (bootstrap_status (toy_env 6000000 ''x'') toy_key (snd (adopt toy_cfg (toy_env 5000000 ''d1'') ''ab1o-xyIl'' toy_args toy_registered)))
          = Inr (''adopted'', Some ct)
        \<and> decrypt_with_device_key toy_crypto (replicate 32 (CHR 0x00)) ct
          = Inr (payload_of toy_cfg (toy_env 5000000 ''d1'') [(''url'', ''wss://hub''), (''token'', ''jwt'')]))"
proof -
  let ?env = "toy_env 5000000 ''d1''" and ?access = "[(''url'', ''wss://hub''), (''token'', ''jwt'')]"
  let ?p = "new_pending 0 ''r1'' ''pi'' toy_key ''ab10xy11'' [] (Some ''10.0.0.1'')"
  obtain x where x: "ed25519_priv_to_x25519 toy_crypto (replicate 32 (CHR 0x00)) = Inr x" using toy_private by blast
  have w: "writes_code ''AB10XY11'' ''ab1o-xyIl''"
    unfolding writes_code_def by (rule exI [of _ "[]"], rule exI [of _ "''ab1o-xyIl''"], rule exI [of _ "[]"]) code_simp
  have "find_by pg_hash (cfg_sha256_hex toy_cfg ''AB10XY11'') (pendings (bdb toy_registered)) = Some ?p"
    unfolding toy_rows by code_simp
  moreover have "adoptable toy_cfg ?env ?p toy_args ?access (bdb toy_registered)"
  proof -
    have "adoption_profile (aa_profile_id toy_args) (bdb toy_registered) = Inr toy_profile" by code_simp
    moreover have "boot_devices (bdb toy_registered) = []" by code_simp
    ultimately show ?thesis
      by (simp add: adoptable_def toy_rows group_ok_def toy_args_def toy_cfg_def get_either_def new_pending_def unadopted_def)
  qed
  moreover have "fst (limited ?env ''adopt'' 60 toy_registered)"
    "fst (user_limited ?env (snd (limited ?env ''adopt'' 60 toy_registered)))" by code_simp+
  moreover have "pg_updated_at r < be_now ?env" if "r \<in> set (pendings (bdb toy_registered))" for r
    using that by (simp add: toy_rows new_pending_def toy_env_def)
  moreover have "canonicalize_pubkey_b64 toy_key = Inr (pg_pubkey ?p)" by code_simp
  moreover have "fst (limited (toy_env 6000000 ''x'') ''bootstrap-status'' 120 st)" if "map_of (rate_buckets st) (''bootstrap-status'', ''10.0.0.1'') = None" for st
    using that by (simp add: limited_def ip_ratelimited_def rate_check_def env_ip_def client_ip_def toy_env_def)
  moreover have "map_of (rate_buckets (snd (adopt toy_cfg ?env ''ab1o-xyIl'' toy_args toy_registered))) (''bootstrap-status'', ''10.0.0.1'') = None"
    by (simp add: adopt_buckets) code_simp
  moreover have "short_code ''AB10XY11''" by code_simp
  ultimately show ?thesis
    using adoption_delivers [OF toy_run _ w, of ?p ?env toy_args ?access "CHR 0x02 # replicate 31 (CHR 0x00)"
        "replicate 32 (CHR 0x00)" x toy_key "toy_env 6000000 ''x''"] toy_crypto_laws x toy_key_converts
    by (simp add: toy_key_def new_pending_def toy_crypto_def toy_cfg_def toy_env_def)
qed

section \<open>Replay protection\<close>

text \<open>The windows within which a request's timestamp must lie, by the scope of its nonce.\<close>

definition skew_of :: "string \<Rightarrow> int" where
  "skew_of scope = (if scope = ''fleet'' then 300 else 60)"

record accepted_request =
  ar_scope :: string
  ar_nonce :: string
  ar_timestamp :: int
  ar_at :: int

text \<open>
  The life of one process: registrations and token requests in the order of the clock, and any change of the
  database and the buckets in between. The trace lists the requests that were granted.
\<close>

inductive auth_run :: "boot_cfg \<Rightarrow> int \<Rightarrow> accepted_request list \<Rightarrow> int \<Rightarrow> boot_state \<Rightarrow> bool" for cfg ttl where
  a_start: "nonces st = nonce_cache_init ttl \<Longrightarrow> auth_run cfg ttl [] now st"
| a_register: "auth_run cfg ttl acc now st \<Longrightarrow> now \<le> be_now env \<Longrightarrow> register cfg env hs body st = (res, st')
    \<Longrightarrow> int_of_text (fh_timestamp hs) = Some ts
    \<Longrightarrow> auth_run cfg ttl (if isl res then acc else acc @ [\<lparr>ar_scope = ''fleet'', ar_nonce = fh_nonce hs, ar_timestamp = ts, ar_at = be_now env\<rparr>])
          (be_now env) st'"
| a_connect: "auth_run cfg ttl acc now st \<Longrightarrow> now \<le> be_now env \<Longrightarrow> connect_token cfg env body st = (res, st')
    \<Longrightarrow> auth_run cfg ttl (if isl res then acc else acc @ [\<lparr>ar_scope = ''connect-token'', ar_nonce = cb_nonce body, ar_timestamp = cb_timestamp body, ar_at = be_now env\<rparr>])
          (be_now env) st'"
| a_other: "auth_run cfg ttl acc now st \<Longrightarrow> nonces st' = nonces st \<Longrightarrow> auth_run cfg ttl acc now st'"

text \<open>Either the nonce cache is untouched and the request refused, or the request was checked against it.\<close>

lemma register_nonces:
  assumes "register cfg env hs body st = (res, st')" and "int_of_text (fh_timestamp hs) = Some ts"
  shows "(isl res \<and> nonces st' = nonces st)
    \<or> (timestamp_within_skew (be_now env) ts 300
       \<and> nonces st' = snd (check_and_record (be_now env) ''fleet'' (fh_nonce hs) (nonces st))
       \<and> (\<not> isl res \<longrightarrow> fst (check_and_record (be_now env) ''fleet'' (fh_nonce hs) (nonces st))))"
proof (cases env "''register''" "10 :: nat" st rule: limited_cases)
  case (refused st1)
  then show ?thesis using assms by (auto simp: register_def)
next
  case (passed st1)
  obtain v st2 where v: "verify_fleet_request cfg env hs body st1 = (v, st2)" by fastforce
  have n: "nonces st' = nonces st2" and r: "isl v \<Longrightarrow> isl res"
    using assms(1) passed v by (auto simp: register_def split: sum.splits prod.splits)
  have "(isl v \<and> nonces st2 = nonces st) \<or> (timestamp_within_skew (be_now env) ts 300
       \<and> nonces st2 = snd (check_and_record (be_now env) ''fleet'' (fh_nonce hs) (nonces st))
       \<and> (\<not> isl v \<longrightarrow> fst (check_and_record (be_now env) ''fleet'' (fh_nonce hs) (nonces st))))"
    using v assms(2) passed by (auto simp: verify_fleet_request_def Let_def split: if_splits option.splits sum.splits prod.splits)
  then show ?thesis using n r by auto
qed

lemma connect_nonces:
  assumes "connect_token cfg env body st = (res, st')"
  shows "(isl res \<and> nonces st' = nonces st)
    \<or> (timestamp_within_skew (be_now env) (cb_timestamp body) 60
       \<and> nonces st' = snd (check_and_record (be_now env) ''connect-token'' (cb_nonce body) (nonces st))
       \<and> (\<not> isl res \<longrightarrow> fst (check_and_record (be_now env) ''connect-token'' (cb_nonce body) (nonces st))))"
proof (cases env "''connect-token''" "120 :: nat" st rule: limited_cases)
  case (refused st1)
  then show ?thesis using assms by (auto simp: connect_token_def)
next
  case (passed st1)
  show ?thesis
  proof (cases "connect_authentic cfg (be_now env) body (bdb st1)")
    case False
    then show ?thesis using assms passed by (auto simp: connect_token_def)
  next
    case True
    then have skew: "timestamp_within_skew (be_now env) (cb_timestamp body) 60"
      by (auto simp: connect_authentic_def split: option.splits)
    obtain ok c where c: "check_and_record (be_now env) ''connect-token'' (cb_nonce body) (nonces st) = (ok, c)" by fastforce
    then have "nonces st' = c \<and> (\<not> isl res \<longrightarrow> ok)"
      using assms passed True by (auto simp: connect_token_def Let_def split: bool.splits sum.splits)
    then show ?thesis using skew c by auto
  qed
qed

definition auth_inv :: "int \<Rightarrow> accepted_request list \<Rightarrow> int \<Rightarrow> nonce_cache \<Rightarrow> bool" where
  "auth_inv ttl acc now c \<longleftrightarrow> nc_ttl c = ttl
     \<and> (\<exists>recorded. remembers c now recorded \<and> (\<forall>a \<in> set acc. ((ar_scope a, ar_nonce a), ar_at a) \<in> set recorded))
     \<and> (\<forall>a \<in> set acc. timestamp_within_skew (ar_at a) (ar_timestamp a) (skew_of (ar_scope a)))
     \<and> (\<forall>scope. 2 * skew_of scope < ttl \<longrightarrow>
          distinct (map (\<lambda>a. (ar_nonce a, ar_timestamp a)) (filter (\<lambda>a. ar_scope a = scope) acc)))"

lemma skew_gap:
  assumes "timestamp_within_skew t ts k" "timestamp_within_skew t' ts k"
  shows "t' < t + (2 * k + 1) * 1000000"
proof -
  have "unix_seconds t' \<le> unix_seconds t + 2 * k" using assms by (auto simp: timestamp_within_skew_def)
  moreover have "t' < (unix_seconds t' + 1) * 1000000" "unix_seconds t * 1000000 \<le> t"
    unfolding unix_seconds_def by presburger+
  ultimately show ?thesis by (simp add: algebra_simps)
qed

lemma auth_inv_step:
  assumes inv: "auth_inv ttl acc now c" and t: "now \<le> now'" "check_and_record now' scope nonce c = (ok, c')"
    and skew: "timestamp_within_skew now' ts (skew_of scope)" and granted: "granted \<longrightarrow> ok"
  shows "auth_inv ttl (if granted then acc @ [\<lparr>ar_scope = scope, ar_nonce = nonce, ar_timestamp = ts, ar_at = now'\<rparr>] else acc) now' c'"
proof -
  obtain recorded where rec: "remembers c now recorded" "\<forall>a \<in> set acc. ((ar_scope a, ar_nonce a), ar_at a) \<in> set recorded"
    and old: "nc_ttl c = ttl" "\<forall>a \<in> set acc. timestamp_within_skew (ar_at a) (ar_timestamp a) (skew_of (ar_scope a))"
      "\<forall>scope. 2 * skew_of scope < ttl \<longrightarrow> distinct (map (\<lambda>a. (ar_nonce a, ar_timestamp a)) (filter (\<lambda>a. ar_scope a = scope) acc))"
    using inv unfolding auth_inv_def by blast
  note step = check_and_record_step [OF rec(1) t]
  let ?recorded = "if ok then recorded @ [((scope, nonce), now')] else recorded"
  have fresh: "ar_nonce a \<noteq> nonce \<or> ar_timestamp a \<noteq> ts"
    if "granted" "a \<in> set acc" "ar_scope a = scope" "2 * skew_of scope < ttl" for a
  proof (rule ccontr)
    assume "\<not> ?thesis"
    then have same: "ar_nonce a = nonce" "ar_timestamp a = ts" by simp_all
    have "ar_at a + ttl * 1000000 \<le> now'"
      using step(2) [of "ar_at a"] rec(2) that same old(1) granted by (metis (no_types))
    moreover have "now' < ar_at a + (2 * skew_of scope + 1) * 1000000"
      using skew_gap [of "ar_at a" ts "skew_of scope" now'] old(2) that same skew by metis
    ultimately show False using that(4) by (simp add: algebra_simps)
  qed
  have "remembers c' now' ?recorded" "nc_ttl c' = ttl" using step(1,3) old(1) by simp_all
  moreover have "\<forall>a \<in> set (if granted then acc @ [\<lparr>ar_scope = scope, ar_nonce = nonce, ar_timestamp = ts, ar_at = now'\<rparr>] else acc).
      ((ar_scope a, ar_nonce a), ar_at a) \<in> set ?recorded" using rec(2) granted by auto
  ultimately show ?thesis unfolding auth_inv_def using old fresh skew by (auto simp: image_iff)
qed

lemma auth_inv_later: "auth_inv ttl acc now c \<Longrightarrow> now \<le> now' \<Longrightarrow> auth_inv ttl acc now' c"
proof -
  have "remembers c now' rec" if "remembers c now rec" "now \<le> now'" for rec
    unfolding remembers_def
  proof (intro conjI allI impI)
    show "dict_ok (nc_entries c)" using that(1) by (simp add: remembers_def)
    fix k t assume "(k, t) \<in> set rec \<and> now' < t + nc_ttl c * 1000000"
    then show "map_of (nc_entries c) k = Some (t + nc_ttl c * 1000000)" using remembersD [OF that(1)] that(2) by simp
  qed
  then show "auth_inv ttl acc now c \<Longrightarrow> now \<le> now' \<Longrightarrow> auth_inv ttl acc now' c"
    unfolding auth_inv_def by blast
qed

lemma auth_run_inv: "auth_run cfg ttl acc now st \<Longrightarrow> auth_inv ttl acc now (nonces st)"
proof (induction rule: auth_run.induct)
  case (a_start st now)
  then show ?case by (auto simp: auth_inv_def nonce_cache_init_def remembers_def dict_ok_def intro: exI [of _ "[]"])
next
  case (a_register acc now st env hs body res st' ts)
  from register_nonces [OF a_register.hyps(3,4)] show ?case
  proof
    assume "isl res \<and> nonces st' = nonces st"
    then show ?thesis using auth_inv_later [OF a_register.IH a_register.hyps(2)] by simp
  next
    assume r: "timestamp_within_skew (be_now env) ts 300
       \<and> nonces st' = snd (check_and_record (be_now env) ''fleet'' (fh_nonce hs) (nonces st))
       \<and> (\<not> isl res \<longrightarrow> fst (check_and_record (be_now env) ''fleet'' (fh_nonce hs) (nonces st)))"
    show ?thesis
      using auth_inv_step [OF a_register.IH a_register.hyps(2), of "''fleet''" "fh_nonce hs" _ "nonces st'" ts "\<not> isl res"] r
      by (cases "isl res") (simp_all add: skew_of_def prod_eq_iff)
  qed
next
  case (a_connect acc now st env body res st')
  from connect_nonces [OF a_connect.hyps(3)] show ?case
  proof
    assume "isl res \<and> nonces st' = nonces st"
    then show ?thesis using auth_inv_later [OF a_connect.IH a_connect.hyps(2)] by simp
  next
    assume r: "timestamp_within_skew (be_now env) (cb_timestamp body) 60
       \<and> nonces st' = snd (check_and_record (be_now env) ''connect-token'' (cb_nonce body) (nonces st))
       \<and> (\<not> isl res \<longrightarrow> fst (check_and_record (be_now env) ''connect-token'' (cb_nonce body) (nonces st)))"
    show ?thesis
      using auth_inv_step [OF a_connect.IH a_connect.hyps(2), of "''connect-token''" "cb_nonce body" _ "nonces st'" "cb_timestamp body" "\<not> isl res"] r
      by (cases "isl res") (simp_all add: skew_of_def prod_eq_iff)
  qed
next
  case (a_other acc now st st')
  then show ?case by simp
qed

text \<open>
  C29. No replay. Over the life of a process, however registrations and token requests interleave with other work, no
  two granted requests of one scope carry the same nonce and timestamp, provided nonces are kept for more than
  twice the scope's skew window. With the default lifetime of ten minutes this covers the requests for access tokens.
\<close>

theorem granted_requests_are_fresh:
  assumes "auth_run cfg ttl acc now st" and "2 * skew_of scope < ttl"
  shows "distinct (map (\<lambda>a. (ar_nonce a, ar_timestamp a)) (filter (\<lambda>a. ar_scope a = scope) acc))"
  using auth_run_inv [OF assms(1)] assms(2) by (simp add: auth_inv_def)

definition toy_device_state :: boot_state where
  "toy_device_state = toy_start\<lparr>bdb := (bdb toy_start)\<lparr>boot_devices := [\<lparr>bd_id = ''d1'', bd_name = '''', bd_location = '''',
     bd_status = BootAdopted, bd_profile = None, bd_pubkey = Some toy_key, bd_group = None\<rparr>]\<rparr>\<rparr>"

definition toy_connect :: connect_body where
  "toy_connect = \<lparr>cb_device_id = ''d1'', cb_timestamp = 5, cb_nonce = ''00'', cb_signature = b64encode ''sig''\<rparr>"

theorem granted_requests_are_fresh_witness:
  "\<exists>acc. auth_run toy_cfg 600 acc 9000000 (snd (connect_token toy_cfg (toy_env 9000000 '''') toy_connect
       (snd (connect_token toy_cfg (toy_env 0 '''') toy_connect toy_device_state))))
     \<and> length (filter (\<lambda>a. ar_scope a = ''connect-token'') acc) = 1
     \<and> distinct (map (\<lambda>a. (ar_nonce a, ar_timestamp a)) (filter (\<lambda>a. ar_scope a = ''connect-token'') acc))"
proof -
  let ?r1 = "connect_token toy_cfg (toy_env 0 '''') toy_connect toy_device_state"
  let ?r2 = "connect_token toy_cfg (toy_env 9000000 '''') toy_connect (snd ?r1)"
  have e: "\<not> isl (fst ?r1)" "isl (fst ?r2)" by code_simp+
  have n: "be_now (toy_env t u) = t" for t u by (simp add: toy_env_def)
  have "auth_run toy_cfg 600 [] 0 toy_device_state" by (rule a_start) code_simp
  from a_connect [OF this, of "toy_env 0 ''''" toy_connect "fst ?r1" "snd ?r1"] e(1)
  have "auth_run toy_cfg 600 [\<lparr>ar_scope = ''connect-token'', ar_nonce = ''00'', ar_timestamp = 5, ar_at = 0\<rparr>] 0 (snd ?r1)"
    by (simp add: n toy_connect_def)
  from a_connect [OF this, of "toy_env 9000000 ''''" toy_connect "fst ?r2" "snd ?r2"] e(2)
  have run: "auth_run toy_cfg 600 [\<lparr>ar_scope = ''connect-token'', ar_nonce = ''00'', ar_timestamp = 5, ar_at = 0\<rparr>] 9000000 (snd ?r2)"
    by (simp add: n)
  show ?thesis
    using granted_requests_are_fresh [OF run, of "''connect-token''"] run by (auto simp: skew_of_def)
qed

text \<open>
  With the default lifetime of 600 seconds the registration window is not covered: a registration stamped
  300 seconds ahead is granted, and granted again after the nonce has expired, within the last second of its window.
\<close>

theorem registration_replay_window:
  "let hs = toy_headers ''300'' ''n'' (toy_body ''ab''); first = register toy_cfg (toy_env 200000 ''r1'') hs (toy_body ''ab'') toy_start;
       again = register toy_cfg (toy_env 600200000 ''r2'') hs (toy_body ''ab'') (snd first)
   in fst first = Inr ''pending'' \<and> fst again = Inr ''pending''"
  by code_simp

text \<open>
  A device that registers a new pairing code under a key whose old code is still open is told that it is pending, but
  nothing is stored: adoption by the code it now displays fails, as if the device had never registered.
\<close>

theorem new_code_is_not_adoptable:
  assumes "pending_ok cfg rows" and "q \<in> set rows" "unadopted q"
    and "canonicalize_pubkey_b64 k = Inr (pg_pubkey q)" and "find_by pg_hash h rows = None" and "\<not> capped cfg rows"
  shows "register_device cfg now i d k h m ip rows = Inr (q, rows)"
    and "pendings db = rows \<Longrightarrow> cfg_sha256_hex cfg (normalize_pairing_secret s) = h
      \<Longrightarrow> adopt_device cfg env s a db = Inl BootstrapPendingNotFound"
proof -
  let ?n = "new_pending now i d (pg_pubkey q) h m ip"
  have "pending_conflict ?n rows" using assms(2,3) by (auto simp: pending_conflict_def list_ex_iff new_pending_def)
  moreover have "List.find (\<lambda>r. pg_pubkey r = pg_pubkey q \<and> unadopted r) rows = Some q"
  proof -
    obtain w where w: "List.find (\<lambda>r. pg_pubkey r = pg_pubkey q \<and> unadopted r) rows = Some w"
      using assms(2,3) by (cases "List.find (\<lambda>r. pg_pubkey r = pg_pubkey q \<and> unadopted r) rows") (auto simp: find_None_iff)
    then have "w \<in> set (filter unadopted rows)" "pg_pubkey w = pg_pubkey q"
      by (auto simp: find_Some_iff in_set_conv_nth)
    moreover have "q \<in> set (filter unadopted rows)" using assms(2,3) by simp
    moreover have "inj_on pg_pubkey (set (filter unadopted rows))" using assms(1) by (simp add: pending_ok_def distinct_map)
    ultimately have "w = q" by (auto dest: inj_onD)
    then show ?thesis using w by simp
  qed
  ultimately show "register_device cfg now i d k h m ip rows = Inr (q, rows)"
    using assms(4-6) unfolding capped_def by (simp add: register_device_def Let_def)
  show "pendings db = rows \<Longrightarrow> cfg_sha256_hex cfg (normalize_pairing_secret s) = h
      \<Longrightarrow> adopt_device cfg env s a db = Inl BootstrapPendingNotFound"
    using assms(5) by (simp add: adopt_device_def adopt_locked_def)
qed

theorem new_code_is_not_adoptable_witness:
  "fst (register toy_cfg (toy_env 1 ''r2'') (toy_headers ''0'' ''n2'' (toy_body ''zzzzzzzz'')) (toy_body ''zzzzzzzz'') toy_registered) = Inr ''pending''
   \<and> register_device toy_cfg 1 ''r2'' ''pi'' toy_key ''zzzzzzzz'' [] None (pendings (bdb toy_registered))
     = Inr (hd (pendings (bdb toy_registered)), pendings (bdb toy_registered))
   \<and> adopt_device toy_cfg (toy_env 2 ''d'') ''ZZZZ-ZZZZ'' toy_args (bdb toy_registered) = Inl BootstrapPendingNotFound"
proof -
  let ?q = "hd (pendings (bdb toy_registered))"
  have "?q \<in> set (pendings (bdb toy_registered))" "unadopted ?q" by (simp_all add: toy_rows new_pending_def unadopted_def)
  moreover have "canonicalize_pubkey_b64 toy_key = Inr (pg_pubkey ?q)" unfolding toy_rows by code_simp
  moreover have "find_by pg_hash ''zzzzzzzz'' (pendings (bdb toy_registered)) = None" unfolding toy_rows by code_simp
  moreover have "\<not> capped toy_cfg (pendings (bdb toy_registered))"
    by (simp add: capped_def toy_rows toy_cfg_def rowcount_def new_pending_def unadopted_def)
  ultimately have c: "register_device toy_cfg 1 ''r2'' ''pi'' toy_key ''zzzzzzzz'' [] None (pendings (bdb toy_registered))
      = Inr (?q, pendings (bdb toy_registered))"
    "cfg_sha256_hex toy_cfg (normalize_pairing_secret ''ZZZZ-ZZZZ'') = ''zzzzzzzz'' \<Longrightarrow>
      adopt_device toy_cfg (toy_env 2 ''d'') ''ZZZZ-ZZZZ'' toy_args (bdb toy_registered) = Inl BootstrapPendingNotFound"
    using new_code_is_not_adoptable [OF boot_run_ok [OF toy_run], of ?q toy_key "''zzzzzzzz''"] by blast+
  have "cfg_sha256_hex toy_cfg (normalize_pairing_secret ''ZZZZ-ZZZZ'') = ''zzzzzzzz''" by code_simp
  moreover have "fst (register toy_cfg (toy_env 1 ''r2'') (toy_headers ''0'' ''n2'' (toy_body ''zzzzzzzz'')) (toy_body ''zzzzzzzz'') toy_registered) = Inr ''pending''"
    by code_simp
  ultimately show ?thesis using c by blast
qed

section \<open>Fleets\<close>

definition fleets_ok :: "fleet list \<Rightarrow> bool" where
  "fleets_ok rows \<longleftrightarrow> keys_ok fl_id rows \<and> distinct (map fl_fleet_id (filter (\<lambda>f. fl_deleted_at f = None) rows))"

lemma active_fleet_None: "active_fleet fid rows = None \<longleftrightarrow> (\<forall>f \<in> set rows. fl_deleted_at f = None \<longrightarrow> fl_fleet_id f \<noteq> fid)"
  by (auto simp: active_fleet_def find_None_iff)

lemma active_fleet_Some: "active_fleet fid rows = Some f \<Longrightarrow> f \<in> set rows \<and> fl_fleet_id f = fid \<and> fl_deleted_at f = None"
  by (auto simp: active_fleet_def find_Some_iff in_set_conv_nth)

lemma active_fleet_append: "active_fleet fid (rows @ rows') =
    (case active_fleet fid rows of None \<Rightarrow> active_fleet fid rows' | Some f \<Rightarrow> Some f)"
  by (induction rows) (auto simp: active_fleet_def)

text \<open>
  Fleet secrets. Creating a fleet whose id is not active succeeds with a fresh row id, keeps the table well formed and
  makes exactly the given secret answer for that id; deleting it makes the id unknown again, so that
  registrations of that fleet are refused; other fleets are not affected.
\<close>

theorem fleet_secret_lifecycle:
  assumes "fleets_ok rows" and "active_fleet fid rows = None" and "new_id \<notin> fl_id ` set rows"
    and "case secret of None \<Rightarrow> s = token | Some b \<Rightarrow> b64decode True b = Some s"
  shows "\<exists>rows'. create_fleet new_id token fid desc secret rows = Inr rows' \<and> fleets_ok rows'
     \<and> get_fleet_secret fid rows' = Inr (Some s)
     \<and> (\<forall>other. other \<noteq> fid \<longrightarrow> get_fleet_secret other rows' = get_fleet_secret other rows)
     \<and> (case delete_fleet now fid rows' of (gone, rows'') \<Rightarrow> gone \<and> fleets_ok rows'' \<and> get_fleet_secret fid rows'' = Inr None)"
proof -
  define b where "b = (case secret of None \<Rightarrow> b64encode token | Some b \<Rightarrow> b)"
  have dec: "b64decode True b = Some s" using assms(4) by (auto simp: b_def b64decode_encode split: option.splits)
  let ?f = "\<lparr>fl_id = new_id, fl_fleet_id = fid, fl_secret_b64 = b, fl_description = desc, fl_deleted_at = None\<rparr>"
  have c: "create_fleet new_id token fid desc secret rows = Inr (rows @ [?f])"
    using assms(2-4) by (auto simp: create_fleet_def b_def insert_row_def split: option.splits)
  have active: "active_fleet fid (rows @ [?f]) = Some ?f"
    using assms(2) by (simp add: active_fleet_append) (simp add: active_fleet_def)
  have ok: "fleets_ok (rows @ [?f])"
    using assms(1-3) by (auto simp: fleets_ok_def keys_ok_def active_fleet_None)
  have other: "get_fleet_secret g (rows @ [?f]) = get_fleet_secret g rows" if "g \<noteq> fid" for g
    using that by (auto simp: get_fleet_secret_def active_fleet_append active_fleet_def [of g "[?f]"] split: option.splits)
  let ?rows = "update_where (\<lambda>r. fl_id r = new_id) (\<lambda>r. r\<lparr>fl_deleted_at := Some now\<rparr>) (rows @ [?f])"
  have upd: "?rows = rows @ [?f\<lparr>fl_deleted_at := Some now\<rparr>]"
    using assms(3) by (auto simp: update_where_def intro!: map_idI)
  have del: "delete_fleet now fid (rows @ [?f]) = (True, ?rows)" using active by (simp add: delete_fleet_def)
  have "fleets_ok ?rows" unfolding upd using assms(1,3) by (simp add: fleets_ok_def keys_ok_def)
  moreover have "get_fleet_secret fid ?rows = Inr None"
    unfolding upd using assms(2) by (simp add: get_fleet_secret_def active_fleet_append) (simp add: active_fleet_def)
  ultimately show ?thesis using c ok active dec other del by (auto simp: get_fleet_secret_def)
qed

theorem fleet_secret_lifecycle_witness:
  "\<exists>rows'. create_fleet ''2'' ''xyz'' ''g'' None None (fleets (bdb toy_start)) = Inr rows' \<and> get_fleet_secret ''g'' rows' = Inr (Some ''xyz'')
     \<and> get_fleet_secret ''g'' (snd (delete_fleet 7 ''g'' rows')) = Inr None"
proof -
  have "fleets_ok (fleets (bdb toy_start))" "active_fleet ''g'' (fleets (bdb toy_start)) = None"
    "''2'' \<notin> fl_id ` set (fleets (bdb toy_start))" by code_simp+
  from fleet_secret_lifecycle [OF this, where secret = None and s = "''xyz''" and token = "''xyz''" and desc = None and now = 7]
  obtain rows' where "create_fleet ''2'' ''xyz'' ''g'' None None (fleets (bdb toy_start)) = Inr rows'"
    "get_fleet_secret ''g'' rows' = Inr (Some ''xyz'')"
    and d: "case delete_fleet 7 ''g'' rows' of (gone, rows'') \<Rightarrow> gone \<and> fleets_ok rows'' \<and> get_fleet_secret ''g'' rows'' = Inr None"
    by auto
  then show ?thesis using d [unfolded case_prod_beta] by blast
qed

end
