(* ===== verification/Device_Register.thy ===== *)
theory Device_Register
  imports Presence Ota_Progress
begin

text \<open>
  Registration of a device that already has a row, \<^verbatim>\<open>cms/services/device_register.py\<close>, and the keys
  the CMS pushes to it (\<^verbatim>\<open>rotate_api_key\<close> of \<^verbatim>\<open>cms/services/device_inbound.py\<close> with the three
  look-ups that accept them). The columns of \<^verbatim>\<open>devices\<close> are split: name, status and telemetry are the
  \<open>presence_row\<close>, the others the \<open>dev_row\<close> below, with the same identifier. SHA-256, the random tokens
  and what the database driver binds to an integer column are parameters. A raised exception leaves the
  columns as last committed.
\<close>

section \<open>State\<close>

record dev_row =
  dv_id :: string
  dv_firmware :: string
  dv_os :: string
  dv_type :: string
  dv_codecs :: string
  dv_capabilities :: "json list"
  dv_capacity_mb :: int
  dv_used_mb :: int
  dv_profile :: "string option"
  dv_timezone :: "string option"
  dv_auth_hash :: "string option"
  dv_key_hash :: "string option"
  dv_previous_key_hash :: "string option"
  dv_key_rotated_at :: "int option"
  dv_ota :: ota_row

record register_env =
  re_now :: int
  re_sha256 :: "string \<Rightarrow> string"
  re_token :: string
  re_int_column :: "json \<Rightarrow> int option"
  re_profiles :: "(string \<times> string) list"

datatype register_outcome = Registered (auth_assigned: "string option") | Orphan | Raised py_error

definition DEVICE_TYPE_PROFILE_MAP :: "(string \<times> string) list" where
  "DEVICE_TYPE_PROFILE_MAP = [(''pi zero 2 w'', ''pi-zero-2w''), (''raspberry pi zero 2 w'', ''pi-zero-2w''),
     (''pi 5'', ''pi-5''), (''pi 4'', ''pi-4'')]"

definition hash_token :: "(string \<Rightarrow> string) \<Rightarrow> string \<Rightarrow> string" where
  "hash_token sha256 token = sha256 token"

definition profile_name_for :: "string \<Rightarrow> string option" where
  "profile_name_for ty = map_option snd (List.find (\<lambda>(pattern, name). contains_text pattern (lower_text ty)) DEVICE_TYPE_PROFILE_MAP)"

definition auto_assign_profile :: "(string \<times> string) list \<Rightarrow> dev_row \<Rightarrow> dev_row" where
  "auto_assign_profile profiles d =
     (if dv_profile d \<noteq> None \<or> dv_type d = '''' then d
      else case profile_name_for (dv_type d) of
        None \<Rightarrow> d
      | Some name \<Rightarrow> (case map_of profiles name of None \<Rightarrow> d | Some pid \<Rightarrow> d\<lparr>dv_profile := Some pid\<rparr>))"

text \<open>A value for a text column of limited length: the driver refuses anything but text, the database
  text that is too long.\<close>

definition text_column :: "nat \<Rightarrow> json \<Rightarrow> string result" where
  "text_column width v =
     (case v of JStr s \<Rightarrow> if length s \<le> width then Inr s else Inl (ValueError ''value too long'')
      | _ \<Rightarrow> Inl (TypeError ''expected str''))"

definition keep_if_empty :: "nat \<Rightarrow> json \<Rightarrow> string \<Rightarrow> string result" where
  "keep_if_empty width v old = (if json_truthy v then text_column width v else Inr old)"

text \<open>The strings of \<^verbatim>\<open>",".join(v)\<close> and the items of \<^verbatim>\<open>list(v)\<close>: a list, the characters of a string, the
  keys of an object.\<close>

definition iterate :: "json \<Rightarrow> json list result" where
  "iterate v = (case v of JList xs \<Rightarrow> Inr xs | JStr s \<Rightarrow> Inr (map (\<lambda>c. JStr [c]) s)
     | JObj m \<Rightarrow> Inr (map (JStr \<circ> fst) m) | _ \<Rightarrow> Inl (TypeError ''not iterable''))"

fun json_texts :: "json list \<Rightarrow> string list option" where
  "json_texts [] = Some []"
| "json_texts (JStr s # xs) = map_option (Cons s) (json_texts xs)"
| "json_texts (v # xs) = None"

definition joined :: "json \<Rightarrow> string result" where
  "joined v = result_bind (iterate v) (\<lambda>xs. case json_texts xs of
     None \<Rightarrow> Inl (TypeError ''expected str instance'') | Some ss \<Rightarrow> Inr (join_text '','' ss))"

definition new_codecs :: "json \<Rightarrow> string \<Rightarrow> string result" where
  "new_codecs v old = (if v = JNull then Inr old else result_bind (joined v) (\<lambda>s. text_column 100 (JStr s)))"

definition new_capabilities :: "json \<Rightarrow> json list \<Rightarrow> json list result" where
  "new_capabilities v old = (if v = JNull then Inr old else iterate v)"

definition int_column :: "(json \<Rightarrow> int option) \<Rightarrow> string \<Rightarrow> (string \<times> json) list \<Rightarrow> int \<Rightarrow> int result" where
  "int_column bind_int k raw old = (case map_of raw k of None \<Rightarrow> Inr old
     | Some v \<Rightarrow> (case bind_int v of None \<Rightarrow> Inl (TypeError ''expected int'') | Some n \<Rightarrow> Inr n))"

definition new_name :: "(string \<times> json) list \<Rightarrow> string \<Rightarrow> string result" where
  "new_name raw old =
     (let reg_name = get_default ''device_name'' (JStr '''') raw
      in if json_truthy reg_name \<and> json_truthy (get_default ''device_name_custom'' (JBool False) raw)
         then text_column 100 reg_name else Inr old)"

text \<open>The refresh of the columns from the payload, one transaction.\<close>

definition refresh_metadata ::
  "register_env \<Rightarrow> (string \<times> json) list \<Rightarrow> presence_row \<Rightarrow> dev_row \<Rightarrow> (presence_row \<times> dev_row) result" where
  "refresh_metadata env raw p d =
     result_bind (keep_if_empty 32 (json_get ''firmware_version'' raw) (dv_firmware d)) (\<lambda>fw.
     result_bind (keep_if_empty 32 (json_get ''os_version'' raw) (dv_os d)) (\<lambda>os.
     result_bind (keep_if_empty 100 (json_get ''device_type'' raw) (dv_type d)) (\<lambda>ty.
     result_bind (new_codecs (json_get ''supported_codecs'' raw) (dv_codecs d)) (\<lambda>codecs.
     result_bind (new_capabilities (json_get ''capabilities'' raw) (dv_capabilities d)) (\<lambda>caps.
     result_bind (int_column (re_int_column env) ''storage_capacity_mb'' raw (dv_capacity_mb d)) (\<lambda>capacity.
     result_bind (int_column (re_int_column env) ''storage_used_mb'' raw (dv_used_mb d)) (\<lambda>used.
     result_bind (new_name raw (pr_name p)) (\<lambda>name.
       Inr (p\<lparr>pr_name := name, last_seen := Some (re_now env)\<rparr>,
         d\<lparr>dv_firmware := fw, dv_os := os, dv_type := ty, dv_codecs := codecs, dv_capabilities := caps,
           dv_capacity_mb := capacity, dv_used_mb := used\<rparr>)))))))))"

text \<open>The token half: what the row becomes and the token to push, or the way out.\<close>

definition check_auth_token ::
  "register_env \<Rightarrow> json \<Rightarrow> presence_row \<Rightarrow> dev_row \<Rightarrow> register_outcome \<times> presence_row \<times> dev_row" where
  "check_auth_token env auth_token p d =
     (let assigned = d\<lparr>dv_auth_hash := Some (hash_token (re_sha256 env) (re_token env))\<rparr>
      in case dv_auth_hash d of
        None \<Rightarrow> (Registered (Some (re_token env)), p, assigned)
      | Some h \<Rightarrow>
          if h = '''' then (Registered (Some (re_token env)), p, assigned)
          else if \<not> json_truthy auth_token
          then (Registered (Some (re_token env)), p\<lparr>pr_status := ''pending'', last_seen := Some (re_now env)\<rparr>, assigned)
          else (case auth_token of
              JStr t \<Rightarrow> if hash_token (re_sha256 env) t \<noteq> h
                then (Orphan, p\<lparr>pr_status := ''orphaned'', last_seen := Some (re_now env)\<rparr>, d)
                else (Registered None, p, d)
            | _ \<Rightarrow> (Raised (TypeError ''no attribute encode''), p, d)))"

definition register_known_device ::
  "register_env \<Rightarrow> (string \<times> json) list \<Rightarrow> presence_row \<Rightarrow> dev_row \<Rightarrow> register_outcome \<times> presence_row \<times> dev_row" where
  "register_known_device env raw p d =
     (case check_auth_token env (get_default ''auth_token'' (JStr '''') raw) p d of
        (Registered t, p1, d1) \<Rightarrow>
          (case refresh_metadata env raw p1 d1 of
             Inl e \<Rightarrow> (Raised e, p1, d1)
           | Inr (p2, d2) \<Rightarrow> (Registered t, p2, auto_assign_profile (re_profiles env) d2))
      | out \<Rightarrow> out)"

section \<open>API keys\<close>

definition KEY_GRACE_SECONDS :: int where "KEY_GRACE_SECONDS = 300"

text \<open>The row part of \<^verbatim>\<open>rotate_api_key\<close>.\<close>

definition rotate_key_row :: "(string \<Rightarrow> string) \<Rightarrow> int \<Rightarrow> string \<Rightarrow> dev_row \<Rightarrow> dev_row" where
  "rotate_key_row sha256 now new_key d = d\<lparr>dv_previous_key_hash := dv_key_hash d,
     dv_key_hash := Some (hash_token sha256 new_key), dv_key_rotated_at := Some now\<rparr>"

definition in_grace :: "int \<Rightarrow> dev_row \<Rightarrow> bool" where
  "in_grace now d = (case dv_key_rotated_at d of None \<Rightarrow> False
     | Some t \<Rightarrow> now - t < KEY_GRACE_SECONDS * 1000000)"

definition scalar_one_or_none :: "'r list \<Rightarrow> 'r option result" where
  "scalar_one_or_none rows = (case rows of [] \<Rightarrow> Inr None | [r] \<Rightarrow> Inr (Some r) | _ \<Rightarrow> Inl (ValueError ''MultipleResultsFound''))"

datatype auth_error = Auth_HTTP int string | Auth_Raised py_error

definition authenticate_device ::
  "(string \<Rightarrow> string) \<Rightarrow> int \<Rightarrow> string \<Rightarrow> string option \<Rightarrow> dev_row list \<Rightarrow> auth_error + dev_row" where
  "authenticate_device sha256 now device_id api_key devs =
     (if api_key = None \<or> api_key = Some '''' then Inl (Auth_HTTP 401 ''X-Device-API-Key required'')
      else case find_by dv_id device_id devs of
        None \<Rightarrow> Inl (Auth_HTTP 404 ''Device not found'')
      | Some d \<Rightarrow> let key_hash = Some (hash_token sha256 (the api_key))
          in if dv_key_hash d = key_hash then Inr d
             else if dv_previous_key_hash d = key_hash \<and> in_grace now d then Inr d
             else Inl (Auth_HTTP 401 ''Invalid device API key''))"

text \<open>The two look-ups by key alone: by the current hash, then by the previous one.\<close>

definition device_by_key :: "int \<Rightarrow> string \<Rightarrow> dev_row list \<Rightarrow> dev_row option result" where
  "device_by_key now key_hash devs =
     result_bind (scalar_one_or_none (filter (\<lambda>d. dv_key_hash d = Some key_hash) devs)) (\<lambda>current.
       case current of
         Some d \<Rightarrow> Inr (Some d)
       | None \<Rightarrow> result_bind (scalar_one_or_none (filter (\<lambda>d. dv_previous_key_hash d = Some key_hash) devs)) (\<lambda>previous.
           Inr (case previous of Some d \<Rightarrow> if in_grace now d then Some d else None | None \<Rightarrow> None)))"

definition require_device_auth ::
  "(string \<Rightarrow> string) \<Rightarrow> int \<Rightarrow> string option \<Rightarrow> dev_row list \<Rightarrow> auth_error + dev_row" where
  "require_device_auth sha256 now api_key devs =
     (if api_key = None \<or> api_key = Some '''' then Inl (Auth_HTTP 401 ''Missing X-Device-API-Key header'')
      else case device_by_key now (hash_token sha256 (the api_key)) devs of
        Inl e \<Rightarrow> Inl (Auth_Raised e)
      | Inr None \<Rightarrow> Inl (Auth_HTTP 401 ''Invalid device API key'')
      | Inr (Some d) \<Rightarrow> Inr d)"

text \<open>The download endpoints also accept a key in the query string, and a browser session; nothing
  is returned where access is granted. \<open>session\<close> is the session cookie's user, if any.\<close>

definition require_device_or_session_auth ::
  "(string \<Rightarrow> string) \<Rightarrow> int \<Rightarrow> string option \<Rightarrow> string option \<Rightarrow> string option \<Rightarrow> dev_row list \<Rightarrow> auth_error option" where
  "require_device_or_session_auth sha256 now header query session devs =
     (let api_key = (if header \<noteq> None \<and> header \<noteq> Some '''' then header else query)
      in if api_key \<noteq> None \<and> api_key \<noteq> Some ''''
         then (case device_by_key now (hash_token sha256 (the api_key)) devs of
             Inl e \<Rightarrow> Some (Auth_Raised e)
           | Inr None \<Rightarrow> Some (Auth_HTTP 401 ''Invalid device API key'')
           | Inr (Some d) \<Rightarrow> None)
         else if session \<noteq> None then None
         else Some (Auth_HTTP 401 ''Authentication required. Provide X-Device-API-Key header or valid session.''))"

section \<open>Lemmas\<close>

definition dev_writes :: "(dev_row \<Rightarrow> dev_row) set" where
  "dev_writes = {f. \<forall>d. dv_id (f d) = dv_id d}"

interpretation dev_rows: keyed_table dv_id dev_writes
  by unfold_locales (simp add: dev_writes_def)

lemma keep_if_empty_Inr: "keep_if_empty width v old = Inr s \<Longrightarrow> old \<noteq> '''' \<Longrightarrow> s \<noteq> ''''"
  by (cases v) (auto simp: keep_if_empty_def text_column_def split: if_splits)

lemma refresh_metadata_Inr:
  assumes "refresh_metadata env raw p d = Inr (p', d')"
  shows "pr_status p' = pr_status p" "pr_id p' = pr_id p" "last_seen p' = Some (re_now env)" "online p' = online p"
    "dv_id d' = dv_id d" "dv_auth_hash d' = dv_auth_hash d" "dv_key_hash d' = dv_key_hash d"
    "dv_previous_key_hash d' = dv_previous_key_hash d" "dv_key_rotated_at d' = dv_key_rotated_at d" "dv_ota d' = dv_ota d"
    "dv_firmware d \<noteq> '''' \<Longrightarrow> dv_firmware d' \<noteq> ''''" "dv_os d \<noteq> '''' \<Longrightarrow> dv_os d' \<noteq> ''''"
  using assms by (auto simp: refresh_metadata_def result_bind_eq_Inr dest: keep_if_empty_Inr)

lemma auto_assign_frame [simp]:
  "dv_id (auto_assign_profile ps d) = dv_id d" "dv_auth_hash (auto_assign_profile ps d) = dv_auth_hash d"
  "dv_key_hash (auto_assign_profile ps d) = dv_key_hash d" "dv_previous_key_hash (auto_assign_profile ps d) = dv_previous_key_hash d"
  "dv_key_rotated_at (auto_assign_profile ps d) = dv_key_rotated_at d" "dv_ota (auto_assign_profile ps d) = dv_ota d"
  "dv_firmware (auto_assign_profile ps d) = dv_firmware d" "dv_os (auto_assign_profile ps d) = dv_os d"
  by (auto simp: auto_assign_profile_def split: option.splits)

lemma check_auth_frame:
  assumes "check_auth_token env tok p d = (out, p', d')"
  shows "pr_id p' = pr_id p \<and> online p' = online p
    \<and> (d' = d \<or> d' = d\<lparr>dv_auth_hash := Some (hash_token (re_sha256 env) (re_token env))\<rparr>)"
  using assms by (auto simp: check_auth_token_def Let_def split: option.splits json.splits if_splits)

lemma register_cases:
  assumes "register_known_device env raw p d = (out, p', d')"
  obtains (early) "check_auth_token env (get_default ''auth_token'' (JStr '''') raw) p d = (out, p', d')"
  | (raised) t e where "check_auth_token env (get_default ''auth_token'' (JStr '''') raw) p d = (Registered t, p', d')"
      "refresh_metadata env raw p' d' = Inl e" "out = Raised e"
  | (accepted) t p1 d1 d2 where "check_auth_token env (get_default ''auth_token'' (JStr '''') raw) p d = (Registered t, p1, d1)"
      "refresh_metadata env raw p1 d1 = Inr (p', d2)" "d' = auto_assign_profile (re_profiles env) d2" "out = Registered t"
proof (cases "check_auth_token env (get_default ''auth_token'' (JStr '''') raw) p d")
  case (fields o1 p1 d1)
  then show thesis using assms that
    by (cases o1; cases "refresh_metadata env raw p1 d1") (auto simp: register_known_device_def)
qed

lemma register_frame:
  assumes "register_known_device env raw p d = (out, p', d')"
  shows "pr_id p' = pr_id p" "dv_id d' = dv_id d" "dv_ota d' = dv_ota d" "dv_key_hash d' = dv_key_hash d"
    "dv_previous_key_hash d' = dv_previous_key_hash d" "dv_key_rotated_at d' = dv_key_rotated_at d" "online p' = online p"
proof -
  have "pr_id p' = pr_id p \<and> dv_id d' = dv_id d \<and> dv_ota d' = dv_ota d \<and> dv_key_hash d' = dv_key_hash d
    \<and> dv_previous_key_hash d' = dv_previous_key_hash d \<and> dv_key_rotated_at d' = dv_key_rotated_at d \<and> online p' = online p"
    using assms
  proof (cases rule: register_cases)
    case (accepted t p1 d1 d2)
    show ?thesis using check_auth_frame [OF accepted(1)] refresh_metadata_Inr(2,4-10) [OF accepted(2)] accepted(3) by auto
  qed (auto dest!: check_auth_frame)
  then show "pr_id p' = pr_id p" "dv_id d' = dv_id d" "dv_ota d' = dv_ota d" "dv_key_hash d' = dv_key_hash d"
    "dv_previous_key_hash d' = dv_previous_key_hash d" "dv_key_rotated_at d' = dv_key_rotated_at d" "online p' = online p"
    by simp_all
qed

text \<open>The rotations a row has seen, oldest first.\<close>

definition rotations :: "(string \<Rightarrow> string) \<Rightarrow> (int \<times> string) list \<Rightarrow> dev_row \<Rightarrow> dev_row" where
  "rotations sha256 rs = fold (\<lambda>(t, k). rotate_key_row sha256 t k) rs"

lemma rotations_snoc: "rotations sha (rs @ [(t, k)]) d = rotate_key_row sha t k (rotations sha rs d)"
  by (simp add: rotations_def)

lemma rotations_id: "dv_id (rotations sha rs d) = dv_id d"
  by (induction rs rule: rev_induct) (auto simp: rotations_snoc rotate_key_row_def rotations_def)

lemma rotations_writes: "rotations sha rs \<in> dev_writes"
  by (simp add: dev_writes_def rotations_id)

lemma rotations_current:
  "rs \<noteq> [] \<Longrightarrow> dv_key_hash (rotations sha rs d) = Some (sha (snd (last rs)))
     \<and> dv_key_rotated_at (rotations sha rs d) = Some (fst (last rs))"
  by (induction rs rule: rev_induct) (auto simp: rotations_snoc rotate_key_row_def hash_token_def)

lemma rotations_previous:
  "dv_previous_key_hash (rotations sha (rs @ [r]) d) = (if rs = [] then dv_key_hash d else Some (sha (snd (last rs))))"
  using rotations_current [of rs sha d]
  by (cases r) (auto simp: rotations_snoc rotate_key_row_def, auto simp: rotations_def)

section \<open>Properties\<close>

text \<open>Which keys open the door. After any sequence of rotations of a device that had no key, the CMS
  accepts exactly the newest key, at any time, and the one before it within five minutes of the
  last rotation: older keys are dead at once, whatever their age.\<close>

theorem device_key_window:
  assumes "find_by dv_id did devs = Some d" "dv_key_hash d = None" "dv_previous_key_hash d = None"
    and "inj_on sha256 (insert k (snd ` set rs))" "k \<noteq> ''''"
  shows "(\<exists>x. authenticate_device sha256 now did (Some k) (update_where (\<lambda>x. dv_id x = did) (rotations sha256 rs) devs) = Inr x)
    \<longleftrightarrow> rs \<noteq> [] \<and> (k = snd (last rs) \<or> butlast rs \<noteq> [] \<and> k = snd (last (butlast rs)) \<and> now - fst (last rs) < 300000000)"
proof -
  have found: "find_by dv_id did (update_where (\<lambda>x. dv_id x = did) (rotations sha256 rs) devs) = Some (rotations sha256 rs d)"
    using assms(1) by (auto simp: dev_rows.find_update [OF rotations_writes] dest: find_by_Some)
  have same: "sha256 k = sha256 (snd r) \<longleftrightarrow> k = snd r" if "r \<in> set rs" for r
    using assms(4) that by (auto simp: inj_on_def)
  show ?thesis
  proof (cases rs rule: rev_cases)
    case Nil
    then show ?thesis using found assms by (simp add: authenticate_device_def rotations_def)
  next
    case (snoc ys r)
    have "sha256 k = sha256 (snd r) \<longleftrightarrow> k = snd r" using same snoc by simp
    moreover have "ys \<noteq> [] \<Longrightarrow> sha256 k = sha256 (snd (last ys)) \<longleftrightarrow> k = snd (last ys)" using same [of "last ys"] snoc by simp
    ultimately show ?thesis
      using found assms rotations_current [of rs sha256 d] rotations_previous [of sha256 ys r d] snoc
      by (auto simp: authenticate_device_def in_grace_def KEY_GRACE_SECONDS_def hash_token_def Let_def)
  qed
qed

text \<open>Registration of a device that holds a token decides by the token alone. The right token leaves
  the status as it is and pushes nothing; a wrong one orphans the device and changes no other column; no
  token at all sends it back to pending and replaces the token, and the device that held the old one
  is orphaned when it registers again. Accepted payloads never blank a version.\<close>

theorem register_decides_by_token:
  assumes stored: "dv_auth_hash d = Some (re_sha256 env token)" "re_sha256 env token \<noteq> ''''"
    and run: "register_known_device env raw p d = (out, p', d')"
    and inj: "inj_on (re_sha256 env) {token, t, re_token env}" "token \<noteq> re_token env" "token \<noteq> ''''"
    and versions: "dv_firmware d \<noteq> ''''" "re_sha256 env (re_token env) \<noteq> ''''"
  shows "(get_default ''auth_token'' (JStr '''') raw = JStr t \<and> t \<noteq> '''' \<longrightarrow>
       (if t = token then out \<noteq> Orphan \<and> pr_status p' = pr_status p \<and> dv_auth_hash d' = dv_auth_hash d \<and> dv_firmware d' \<noteq> ''''
        else out = Orphan \<and> pr_status p' = ''orphaned'' \<and> d' = d))
    \<and> (\<not> json_truthy (get_default ''auth_token'' (JStr '''') raw) \<longrightarrow>
        pr_status p' = ''pending'' \<and> dv_auth_hash d' = Some (re_sha256 env (re_token env))
        \<and> (\<forall>raw'. get_default ''auth_token'' (JStr '''') raw' = JStr token \<longrightarrow> fst (register_known_device env raw' p' d') = Orphan))"
proof (intro conjI impI)
  assume t: "get_default ''auth_token'' (JStr '''') raw = JStr t \<and> t \<noteq> ''''"
  show "if t = token then out \<noteq> Orphan \<and> pr_status p' = pr_status p \<and> dv_auth_hash d' = dv_auth_hash d \<and> dv_firmware d' \<noteq> ''''
      else out = Orphan \<and> pr_status p' = ''orphaned'' \<and> d' = d"
  proof (cases "t = token")
    case True
    then have "check_auth_token env (JStr t) p d = (Registered None, p, d)"
      using stored t by (simp add: check_auth_token_def hash_token_def Let_def)
    then have half: "check_auth_token env (get_default ''auth_token'' (JStr '''') raw) p d = (Registered None, p, d)" using t by simp
    show ?thesis using run
    proof (cases rule: register_cases)
      case (accepted t1 p1 d1 d2)
      then have "p1 = p" "d1 = d" using half by simp_all
      then show ?thesis using accepted True versions refresh_metadata_Inr(1,6,11) [OF accepted(2)] by simp
    qed (use half True versions in auto)
  next
    case False
    then have "re_sha256 env t \<noteq> re_sha256 env token" using inj(1) by (auto simp: inj_on_def)
    then show ?thesis using run t False stored
      by (auto simp: register_known_device_def check_auth_token_def hash_token_def Let_def)
  qed
next
  let ?new = "re_sha256 env (re_token env)"
  assume none: "\<not> json_truthy (get_default ''auth_token'' (JStr '''') raw)"
  then have half: "check_auth_token env (get_default ''auth_token'' (JStr '''') raw) p d
      = (Registered (Some (re_token env)), p\<lparr>pr_status := ''pending'', last_seen := Some (re_now env)\<rparr>, d\<lparr>dv_auth_hash := Some ?new\<rparr>)"
    using stored by (simp add: check_auth_token_def hash_token_def Let_def)
  have both: "pr_status p' = ''pending'' \<and> dv_auth_hash d' = Some ?new" using run
  proof (cases rule: register_cases)
    case (accepted t1 p1 d1 d2)
    then show ?thesis using half refresh_metadata_Inr(1,6) [OF accepted(2)] by auto
  qed (use half in auto)
  then show "pr_status p' = ''pending''" "dv_auth_hash d' = Some ?new" by simp_all
  from both show "\<forall>raw'. get_default ''auth_token'' (JStr '''') raw' = JStr token \<longrightarrow> fst (register_known_device env raw' p' d') = Orphan"
    using inj versions(2) by (auto simp: register_known_device_def check_auth_token_def hash_token_def Let_def inj_on_def)
qed

definition sample_row :: dev_row where
  "sample_row = \<lparr>dv_id = ''d1'', dv_firmware = ''1.0'', dv_os = '''', dv_type = ''Raspberry Pi 5'', dv_codecs = '''',
     dv_capabilities = [], dv_capacity_mb = 0, dv_used_mb = 0, dv_profile = None, dv_timezone = None, dv_auth_hash = Some ''#tok'', dv_key_hash = None,
     dv_previous_key_hash = None, dv_key_rotated_at = None, dv_ota = no_ota\<rparr>"

definition sample_env :: register_env where
  "sample_env = \<lparr>re_now = 9, re_sha256 = (\<lambda>s. CHR ''#'' # s), re_token = ''new'', re_int_column = py_int,
     re_profiles = [(''pi-5'', ''p5''), (''pi-4'', ''p4'')]\<rparr>"

theorem device_key_window_witness:
  "(\<exists>x. authenticate_device (\<lambda>s. CHR ''#'' # s) 299000000 ''d1'' (Some ''k1'')
      (update_where (\<lambda>x. dv_id x = ''d1'') (rotations (\<lambda>s. CHR ''#'' # s) [(0, ''k1''), (0, ''k2'')]) [sample_row]) = Inr x)"
proof -
  have "find_by dv_id ''d1'' [sample_row] = Some sample_row" "dv_key_hash sample_row = None" "dv_previous_key_hash sample_row = None"
    by (simp_all add: sample_row_def)
  from device_key_window [OF this, of "\<lambda>s. CHR ''#'' # s" "''k1''" "[(0, ''k1''), (0, ''k2'')]" 299000000]
  show ?thesis by (simp add: inj_on_def)
qed

theorem register_decides_by_token_witness:
  "pr_status (fst (snd (register_known_device sample_env [(''auth_token'', JStr ''bad'')] lobby sample_row))) = ''orphaned''"
proof -
  have "dv_auth_hash sample_row = Some (re_sha256 sample_env ''tok'')" "re_sha256 sample_env ''tok'' \<noteq> ''''"
    "inj_on (re_sha256 sample_env) {''tok'', ''bad'', re_token sample_env}" "''tok'' \<noteq> re_token sample_env" "''tok'' \<noteq> ''''"
    "dv_firmware sample_row \<noteq> ''''" "re_sha256 sample_env (re_token sample_env) \<noteq> ''''"
    by (simp_all add: sample_row_def sample_env_def)
  from register_decides_by_token [OF this(1,2) _ this(3-7), of "[(''auth_token'', JStr ''bad'')]" lobby]
  show ?thesis by (cases "register_known_device sample_env [(''auth_token'', JStr ''bad'')] lobby sample_row")
      (simp add: get_default_def)
qed

end
