(* ===== verification/Transport.thy ===== *)
theory Transport
  imports Presence
begin

text \<open>
  Sending to a device: the per-replica socket registry \<^verbatim>\<open>cms/services/device_manager.py\<close>, the
  direct-WebSocket transport \<^verbatim>\<open>cms/services/transport.py\<close> and the Web PubSub transport
  \<^verbatim>\<open>cms/services/wps_transport.py\<close>. Whether a socket write succeeds and what the Web PubSub service
  answers are inputs. Over Web PubSub other replicas may write between the reading of the connection
  token and the answer of the service, so that the two halves take the database each sees.
\<close>

section \<open>The socket registry\<close>

record connected_device =
  cd_device :: string
  cd_socket :: "nat option"
  cd_ip :: "string option"
  cd_connection :: "string option"
  cd_connected_at :: int

type_synonym registry = "(string, connected_device) dict"

definition manager_register :: "int \<Rightarrow> string \<Rightarrow> nat \<Rightarrow> string option \<Rightarrow> registry \<Rightarrow> registry" where
  "manager_register now did sock ip reg = dict_set did
     \<lparr>cd_device = did, cd_socket = Some sock, cd_ip = ip, cd_connection = None, cd_connected_at = now\<rparr> reg"

definition manager_disconnect :: "string \<Rightarrow> registry \<Rightarrow> registry" where
  "manager_disconnect did reg = dict_pop did reg"

definition manager_is_connected :: "string \<Rightarrow> registry \<Rightarrow> bool" where
  "manager_is_connected did reg \<longleftrightarrow> map_of reg did \<noteq> None"

text \<open>\<^verbatim>\<open>ConnectedDevice.send_json\<close> raises for an entry without a socket and when the write fails.\<close>

definition send_json :: "(nat \<Rightarrow> bool) \<Rightarrow> connected_device \<Rightarrow> bool" where
  "send_json writable c = (case cd_socket c of None \<Rightarrow> False | Some s \<Rightarrow> writable s)"

definition manager_send :: "(nat \<Rightarrow> bool) \<Rightarrow> string \<Rightarrow> registry \<Rightarrow> bool \<times> registry" where
  "manager_send writable did reg =
     (case map_of reg did of
        None \<Rightarrow> (False, reg)
      | Some c \<Rightarrow> if send_json writable c then (True, reg) else (False, manager_disconnect did reg))"

section \<open>The two transports\<close>

definition local_send ::
  "(string \<Rightarrow> string option \<times> string) \<Rightarrow> (nat \<Rightarrow> bool) \<Rightarrow> string \<Rightarrow> registry \<times> presence_db \<Rightarrow> bool \<times> registry \<times> presence_db" where
  "local_send group_of writable did st =
     (let snapshot_cid = (case map_of (fst st) did of None \<Rightarrow> None | Some c \<Rightarrow> cd_connection c);
          (ok, reg) = manager_send writable did (fst st)
      in (ok, reg, if \<not> ok \<and> \<not> manager_is_connected did reg
            then snd (mark_offline_and_alert group_of did snapshot_cid (snd st)) else snd st))"

definition local_dispatch_request_logs :: "(nat \<Rightarrow> bool) \<Rightarrow> string \<Rightarrow> registry \<Rightarrow> py_error option" where
  "local_dispatch_request_logs writable did reg =
     (case map_of reg did of
        None \<Rightarrow> Some (ValueError (''Device '' @ did @ '' is not connected''))
      | Some c \<Rightarrow> if send_json writable c then None
          else Some (ValueError (''Failed to send request to device '' @ did)))"

text \<open>What the service answers: success, an HTTP error with its status, or any other exception.\<close>

datatype wps_answer = WPS_OK | WPS_HTTP_Error int | WPS_Exception

definition wps_snapshot :: "string \<Rightarrow> presence_db \<Rightarrow> string option" where
  "wps_snapshot did db = (case find_by pr_id did (prs db) of None \<Rightarrow> None | Some r \<Rightarrow> connection_id r)"

definition wps_send ::
  "(string \<Rightarrow> string option \<times> string) \<Rightarrow> wps_answer \<Rightarrow> string \<Rightarrow> string option \<Rightarrow> presence_db \<Rightarrow> bool \<times> presence_db" where
  "wps_send group_of answer did snapshot_cid db =
     (case answer of
        WPS_OK \<Rightarrow> (True, db)
      | WPS_HTTP_Error status \<Rightarrow> (False, if status = 404 then snd (mark_offline_and_alert group_of did snapshot_cid db) else db)
      | WPS_Exception \<Rightarrow> (False, db))"

definition wps_dispatch_request_logs ::
  "(string \<Rightarrow> string option \<times> string) \<Rightarrow> wps_answer \<Rightarrow> string \<Rightarrow> string option \<Rightarrow> presence_db \<Rightarrow> py_error option \<times> presence_db" where
  "wps_dispatch_request_logs group_of answer did snapshot_cid db =
     (let (ok, db') = wps_send group_of answer did snapshot_cid db
      in (if ok then None else Some (ValueError (''Failed to send request to device '' @ did)), db'))"

section \<open>Properties\<close>


text \<open>The Web PubSub transport with a token. A failed send takes the connection it was sent on
  offline and reports that once; a connection made since the token was read is left alone.\<close>

theorem wps_send_spares_newer_connection:
  assumes "find_by pr_id did (prs db) = Some r" and "keys_ok pr_id (prs db)"
  shows "wps_send group_of (WPS_HTTP_Error 404) did (Some c) db =
    (if connection_id r = Some c
     then (False, db\<lparr>prs := update_where (\<lambda>x. pr_id x = did) offline_row (prs db),
        alerts := alerts db @ [device_disconnected did (or_id (pr_name r) did) (group_of did) (pr_status r)]\<rparr>)
     else (False, db))"
proof -
  have unique: "x = r" if "x \<in> set (prs db)" "pr_id x = did" for x
    using that assms find_by_mem [of pr_id "prs db" x] by simp
  have mem: "r \<in> set (prs db)" "pr_id r = did" using assms(1) by (auto dest: find_by_Some)
  show ?thesis
  proof (cases "connection_id r = Some c")
    case True
    obtain x xs where hits: "filter (token_guard did (Some c)) (prs db) = x # xs"
      using mem True by (cases "filter (token_guard did (Some c)) (prs db)") (auto simp: filter_empty_conv token_guard_def)
    have "x \<in> set (filter (token_guard did (Some c)) (prs db))" by (simp add: hits)
    then have "x = r" using unique by (auto simp: token_guard_def)
    moreover have "update_where (token_guard did (Some c)) offline_row (prs db)
        = update_where (\<lambda>x. pr_id x = did) offline_row (prs db)"
      using unique True by (auto simp: update_where_def token_guard_def intro!: map_cong)
    ultimately show ?thesis using True hits by (simp add: wps_send_def mark_offline_and_alert_def)
  next
    case False
    then have "filter (token_guard did (Some c)) (prs db) = []"
      using unique by (auto simp: filter_empty_conv token_guard_def)
    then show ?thesis using False by (simp add: wps_send_def mark_offline_and_alert_def)
  qed
qed

text \<open>Without a token there is no guard. A device that has no connection when the token is read and
  connects before the service answers 404 is taken offline while connected, and nobody is told; the
  comment on the snapshot promises that a fresh connection is left alone.\<close>

theorem wps_send_knocks_out_first_connection:
  assumes "find_by pr_id did (prs db) = Some r" "connection_id r = None"
  shows "let connected = mark_online now did (Some c) ip db;
             db' = snd (wps_send group_of (WPS_HTTP_Error 404) did (wps_snapshot did db) connected)
    in is_online did connected \<and> \<not> is_online did db' \<and> alerts db' = alerts db"
proof -
  have found: "find_by pr_id did (prs (mark_online now did (Some c) ip db)) = Some (online_row now (Some c) ip r)"
    using assms(1) by (auto simp: mark_online_def presence_rows.find_update dest: find_by_Some)
  then have "find_by pr_id did (prs (snd (mark_offline did None (mark_online now did (Some c) ip db))))
      = Some (offline_row (online_row now (Some c) ip r))"
    by (auto simp: mark_offline_def presence_rows.find_update token_guard_def dest: find_by_Some)
  then show ?thesis using assms found
    by (simp add: wps_send_def wps_snapshot_def mark_offline_and_alert_def is_online_def online_row_def offline_row_def
        mark_offline_def mark_online_def)
qed

text \<open>Direct WebSockets have no token at all: an entry of the registry never carries one. A send that
  fails therefore takes the device offline whatever its current connection, and reports nothing; the
  code takes a snapshot for the opposite purpose.\<close>

definition tokenless :: "registry \<Rightarrow> bool" where
  "tokenless reg \<longleftrightarrow> (\<forall>e \<in> set reg. cd_connection (snd e) = None)"

lemma set_dict_set: "set (dict_set k v d) \<subseteq> insert (k, v) (set d)"
  by (induction d) (auto split: if_splits)

lemma tokenless_register: "tokenless reg \<Longrightarrow> tokenless (manager_register now did sock ip reg)"
  using set_dict_set [of did _ reg] by (fastforce simp: tokenless_def manager_register_def)

lemma tokenless_disconnect: "tokenless reg \<Longrightarrow> tokenless (manager_disconnect did reg)"
  by (auto simp: tokenless_def manager_disconnect_def dict_pop_def)

lemma tokenless_send: "tokenless reg \<Longrightarrow> tokenless (snd (manager_send writable did reg))"
  by (auto simp: manager_send_def tokenless_disconnect split: option.splits)

theorem local_send_failure_is_silent:
  assumes "tokenless reg" "dict_ok reg" "find_by pr_id did (prs db) = Some r"
    and "local_send group_of writable did (reg, db) = (False, reg', db')"
  shows "\<not> is_online did db' \<and> alerts db' = alerts db"
proof -
  have cid: "(case map_of reg did of None \<Rightarrow> None | Some c \<Rightarrow> cd_connection c) = None"
    using assms(1) by (fastforce simp: tokenless_def split: option.splits dest: map_of_SomeD)
  have gone: "\<not> manager_is_connected did reg'"
    using assms(2,4) by (auto simp: local_send_def manager_send_def manager_is_connected_def manager_disconnect_def
        map_of_dict_pop Let_def split: option.splits if_splits)
  have "db' = snd (mark_offline did None db)"
    using assms(4) cid gone by (auto simp: local_send_def mark_offline_and_alert_def Let_def split: prod.splits)
  moreover have "find_by pr_id did (prs (snd (mark_offline did None db))) = Some (offline_row r)"
    using assms(3) by (auto simp: mark_offline_def presence_rows.find_update token_guard_def dest: find_by_Some)
  ultimately show ?thesis by (simp add: is_online_def offline_row_def mark_offline_def)
qed

theorem wps_send_spares_newer_connection_witness:
  "wps_send (\<lambda>_. (None, '''')) (WPS_HTTP_Error 404) ''d1'' (Some ''c1'') (mark_online 5 ''d1'' (Some ''c2'') None sample_presence)
     = (False, mark_online 5 ''d1'' (Some ''c2'') None sample_presence)"
proof -
  have "find_by pr_id ''d1'' (prs (mark_online 5 ''d1'' (Some ''c2'') None sample_presence)) = Some (online_row 5 (Some ''c2'') None lobby)"
    "keys_ok pr_id (prs (mark_online 5 ''d1'' (Some ''c2'') None sample_presence))"
    by code_simp+
  from wps_send_spares_newer_connection [OF this, of _ "''c1''"] show ?thesis by (simp add: online_row_def)
qed

theorem wps_send_knocks_out_first_connection_witness:
  "\<not> is_online ''d1'' (snd (wps_send (\<lambda>_. (None, '''')) (WPS_HTTP_Error 404) ''d1''
     (wps_snapshot ''d1'' sample_presence) (mark_online 5 ''d1'' (Some ''c2'') None sample_presence)))"
  using wps_send_knocks_out_first_connection [OF lobby_found(2,5)] by (simp add: Let_def)

theorem local_send_failure_is_silent_witness:
  "\<not> is_online ''d1'' (snd (snd (local_send (\<lambda>_. (None, '''')) (\<lambda>_. False) ''d1''
     (manager_register 0 ''d1'' 7 None [], sample_presence))))"
proof -
  have "tokenless (manager_register 0 ''d1'' 7 None [])" "dict_ok (manager_register 0 ''d1'' 7 None [])"
    by code_simp+
  moreover have "fst (local_send (\<lambda>_. (None, '''')) (\<lambda>_. False) ''d1'' (manager_register 0 ''d1'' 7 None [], sample_presence)) = False"
    by code_simp
  ultimately show ?thesis
    using local_send_failure_is_silent [OF _ _ lobby_found(2), of "manager_register 0 ''d1'' 7 None []" "\<lambda>_. (None, '''')" "\<lambda>_. False"]
    by (metis prod.collapse)
qed

end
