(* ===== verification/Inbound.thy ===== *)
theory Inbound
  imports Device_Register Transport Alerts Slideshow_Resolver Log_Outbox Evaluate Identity Uuid
begin

text \<open>
  Messages from devices: \<^verbatim>\<open>cms/services/device_inbound.py\<close>, the Web PubSub webhook
  \<^verbatim>\<open>cms/routers/wps_webhook.py\<close> and the WebSocket endpoint \<^verbatim>\<open>cms/routers/ws.py\<close>. A handler runs on
  the state of all components it touches and returns it with the exception that escapes it, if any; the
  clock is read once per message. Fields that the protocol declares as text or as an object count as
  absent when a message carries another type there. Parameters are the database driver's conversions,
  the storage backend's links, the archive of \<^verbatim>\<open>tarfile\<close>, SHA-256 and HMAC, the time-zone database and
  the answers of the transport.
\<close>

section \<open>State\<close>

record asset_fetch =
  af_name :: string
  af_url :: string
  af_checksum :: string
  af_size :: int
  af_type :: string
  af_siblings :: "wire_sibling list option"

datatype wire_message = Auth_Assigned string | Config_Api_Key string | Fetch_Asset asset_fetch
  | Fetch_Slideshow fetch_message | Sync_Schedules sync_message | Error_Message string

record cms_state =
  cs_alert :: alert_db
  cs_devs :: "dev_row list"
  cs_media :: slideshow_db
  cs_schedules :: "schedule list"
  cs_history :: "schedule_log list"
  cs_playing :: confirmed_playing
  cs_logs :: log_db
  cs_sent :: "(string \<times> wire_message) list"

record inbound_env =
  ie_register :: register_env
  ie_key :: string
  ie_parse_iso :: "string \<Rightarrow> int option"
  ie_bind_uuid :: "string \<Rightarrow> string result"
  ie_fk_ok :: "string option \<Rightarrow> string option \<Rightarrow> bool"
  ie_alerts :: alert_settings
  ie_rotation_hours :: int
  ie_now_iso :: string
  ie_base_url :: string
  ie_link :: "string \<Rightarrow> string \<Rightarrow> string"
  ie_digest :: "string \<Rightarrow> 8 word list"
  ie_zone :: "string \<Rightarrow> (int \<Rightarrow> datetime) option"
  ie_setting_tz :: "string option"
  ie_tar_gz :: "(string \<times> json) list \<Rightarrow> bytes"
  ie_log_raises :: "string option"

record inbound_ctx =
  cx_group :: "string option"
  cx_group_name :: string
  cx_name :: string
  cx_status :: string
  cx_received_at :: "int option"

abbreviation env_now :: "inbound_env \<Rightarrow> int" where "env_now env \<equiv> re_now (ie_register env)"

text \<open>An operation of the presence component on the composed state, and what it takes for the group of
  a device.\<close>

definition on_presence :: "(presence_db \<Rightarrow> presence_db) \<Rightarrow> cms_state \<Rightarrow> cms_state" where
  "on_presence f st =
     (let p = f \<lparr>prs = prs (cs_alert st), alerts = alerts (cs_alert st)\<rparr>
      in st\<lparr>cs_alert := (cs_alert st)\<lparr>prs := prs p, alerts := alerts p\<rparr>\<rparr>)"

definition presence_of :: "cms_state \<Rightarrow> presence_db" where
  "presence_of st = \<lparr>prs = prs (cs_alert st), alerts = alerts (cs_alert st)\<rparr>"

definition on_alert :: "(alert_db \<Rightarrow> alert_db) \<Rightarrow> cms_state \<Rightarrow> cms_state" where
  "on_alert f st = st\<lparr>cs_alert := f (cs_alert st)\<rparr>"

definition group_context :: "cms_state \<Rightarrow> string \<Rightarrow> string option \<times> string" where
  "group_context st did = get_primary_device_group_context did None '''' (cs_alert st)"

definition set_dev :: "string \<Rightarrow> (dev_row \<Rightarrow> dev_row) \<Rightarrow> cms_state \<Rightarrow> cms_state" where
  "set_dev did f st = st\<lparr>cs_devs := update_where (\<lambda>d. dv_id d = did) f (cs_devs st)\<rparr>"

definition set_pres :: "string \<Rightarrow> (presence_row \<Rightarrow> presence_row) \<Rightarrow> cms_state \<Rightarrow> cms_state" where
  "set_pres did f st = on_presence (\<lambda>p. p\<lparr>prs := update_where (\<lambda>r. pr_id r = did) f (prs p)\<rparr>) st"

definition text_field :: "string \<Rightarrow> (string \<times> json) list \<Rightarrow> string" where
  "text_field k m = (case json_get k m of JStr s \<Rightarrow> s | _ \<Rightarrow> '''')"

definition object_field :: "string \<Rightarrow> (string \<times> json) list \<Rightarrow> (string \<times> json) list" where
  "object_field k m = (case json_get k m of JObj x \<Rightarrow> x | _ \<Rightarrow> [])"

section \<open>Sending\<close>

type_synonym send_fn = "wire_message \<Rightarrow> cms_state \<Rightarrow> py_error option \<times> cms_state"

definition wps_deliver :: "wps_answer \<Rightarrow> string \<Rightarrow> send_fn" where
  "wps_deliver answer did m st =
     (let st' = on_presence (\<lambda>p. snd (wps_send (group_context st) answer did (wps_snapshot did p) p)) st
      in (None, if answer = WPS_OK then st'\<lparr>cs_sent := cs_sent st' @ [(did, m)]\<rparr> else st'))"

definition ws_deliver :: "bool \<Rightarrow> string \<Rightarrow> send_fn" where
  "ws_deliver writable did m st =
     (if writable then (None, st\<lparr>cs_sent := cs_sent st @ [(did, m)]\<rparr>) else (Some (ValueError ''WebSocket is not connected''), st))"

definition rotate_api_key :: "inbound_env \<Rightarrow> send_fn \<Rightarrow> string \<Rightarrow> cms_state \<Rightarrow> py_error option \<times> cms_state" where
  "rotate_api_key env send did st =
     send (Config_Api_Key (ie_key env)) (set_dev did (rotate_key_row (re_sha256 (ie_register env)) (env_now env) (ie_key env)) st)"

section \<open>Fetches\<close>

text \<open>\<^verbatim>\<open>_resolve_variant_or_source\<close>: the newest ready variant for the profile (of equally new ones the
  database may return any; here the one with the greater identifier), nothing while variants exist and
  none is ready, else the source.\<close>

definition resolve_variant_or_source ::
  "inbound_env \<Rightarrow> slideshow_db \<Rightarrow> dev_row \<Rightarrow> file_asset \<Rightarrow> (string \<times> string \<times> int \<times> string) option" where
  "resolve_variant_or_source env db d a =
     (let source = (ie_link env (filename a) (ie_base_url env @ api_path (asset_id a)), asset_checksum a,
            or_value (fa_size_bytes a) 0, asset_type_value (asset_type_of a))
      in case (is_file_asset a, dv_profile d) of
           (True, Some p) \<Rightarrow>
             (let vs = live_variants db (asset_id a) p
              in case List.find (\<lambda>v. av_status v = VREADY) vs of
                   Some v \<Rightarrow> Some (ie_link env (''variants/'' @ fv_filename v) (ie_base_url env @ variant_api_path (av_id v)),
                       av_checksum v, or_value (fv_size_bytes v) 0, asset_type_value (asset_type_of a))
                 | None \<Rightarrow> if vs \<noteq> [] then None else Some source)
         | _ \<Rightarrow> Some source)"

datatype siblings_result = No_Siblings | In_Flight | Siblings "wire_sibling list"

fun add_siblings :: "inbound_env \<Rightarrow> slideshow_db \<Rightarrow> dev_row \<Rightarrow> string list \<Rightarrow> wire_sibling list \<Rightarrow> siblings_result" where
  "add_siblings env db d [] acc = Siblings acc"
| "add_siblings env db d (aid # rest) acc =
     (case List.find (\<lambda>a. asset_id a = aid \<and> asset_deleted_at a = None) (ss_assets db) of
        None \<Rightarrow> add_siblings env db d rest acc
      | Some ref \<Rightarrow>
          (case resolve_variant_or_source env db d ref of
             None \<Rightarrow> In_Flight
           | Some (url, checksum, len, ty) \<Rightarrow> add_siblings env db d rest
               (acc @ [\<lparr>ws_name = filename ref, ws_type = ty, ws_url = url, ws_checksum = checksum, ws_size = len\<rparr>])))"

definition build_composed_siblings :: "inbound_env \<Rightarrow> slideshow_db \<Rightarrow> dev_row \<Rightarrow> file_asset \<Rightarrow> siblings_result" where
  "build_composed_siblings env db d a =
     (let declared = or_value (map_of (ss_composed db) (asset_id a)) []
      in if declared = [] then No_Siblings else add_siblings env db d declared [])"

definition has_capability :: "string \<Rightarrow> dev_row \<Rightarrow> bool" where
  "has_capability c d \<longleftrightarrow> JStr c \<in> set (dv_capabilities d)"

definition resolve_asset_for_device :: "inbound_env \<Rightarrow> slideshow_db \<Rightarrow> dev_row \<Rightarrow> file_asset \<Rightarrow> wire_message option" where
  "resolve_asset_for_device env db d a =
     (if asset_type_of a = SLIDESHOW
      then map_option Fetch_Slideshow
        (build_fetch_for_slideshow (re_sha256 (ie_register env)) (ie_digest env) (ie_link env) (ie_base_url env) (env_now env div 1000) db a
          (dv_profile d) (Some (device_local_now (ie_zone env) (dv_timezone d) (ie_setting_tz env) (env_now env)))
          (has_capability ''slideshow_visibility_v1'' d) (has_capability ''slideshow_clip_v1'' d))
      else case resolve_variant_or_source env db d a of
          None \<Rightarrow> None
        | Some (url, checksum, len, ty) \<Rightarrow>
            (let msg = (\<lambda>sib. Fetch_Asset \<lparr>af_name = filename a, af_url = url, af_checksum = checksum, af_size = len,
                   af_type = ty, af_siblings = sib\<rparr>)
             in if asset_type_of a = COMPOSED \<and> has_capability ''composed_siblings_v1'' d
                then (case build_composed_siblings env db d a of
                        In_Flight \<Rightarrow> None | No_Siblings \<Rightarrow> Some (msg None) | Siblings s \<Rightarrow> Some (msg (Some s)))
                else Some (msg None)))"

section \<open>Dispatch\<close>

definition WIRE_TO_CMS_EVENT :: "(string \<times> event_type \<times> string) list" where
  "WIRE_TO_CMS_EVENT = [(''download_started'', OTA_DOWNLOAD_STARTED, ''ota_download_started''),
     (''download_progress'', OTA_DOWNLOAD_PROGRESS, ''ota_download_progress''),
     (''signature_verified'', OTA_SIGNATURE_VERIFIED, ''ota_signature_verified''), (''staged'', OTA_STAGED, ''ota_staged''),
     (''stage_progress'', OTA_STAGE_PROGRESS, ''ota_stage_progress''), (''extract_progress'', OTA_EXTRACT_PROGRESS, ''ota_extract_progress''),
     (''tryboot_initiated'', OTA_TRYBOOT_INITIATED, ''ota_tryboot_initiated''), (''slot_confirmed'', OTA_SLOT_CONFIRMED, ''ota_slot_confirmed''),
     (''promoted'', OTA_PROMOTED, ''ota_promoted''), (''migration_complete'', OTA_MIGRATION_COMPLETE, ''ota_migration_complete''),
     (''failed'', OTA_FAILED, ''ota_failed''), (''declined'', OTA_DECLINED, ''ota_declined'')]"

definition SUPPRESSED_OTA_EVENT_TYPES :: "event_type list" where
  "SUPPRESSED_OTA_EVENT_TYPES = [OTA_DOWNLOAD_PROGRESS, OTA_STAGE_PROGRESS, OTA_EXTRACT_PROGRESS, OTA_SIGNATURE_VERIFIED,
     OTA_STAGED, OTA_TRYBOOT_INITIATED, OTA_SLOT_CONFIRMED, OTA_PROMOTED]"

definition group_uuid :: "inbound_ctx \<Rightarrow> string option" where
  "group_uuid ctx = (case cx_group ctx of None \<Rightarrow> None | Some g \<Rightarrow> uuid_of_text g)"

definition emit_event :: "inbound_env \<Rightarrow> string \<Rightarrow> inbound_ctx \<Rightarrow> event_type \<Rightarrow> json \<Rightarrow> cms_state \<Rightarrow> cms_state" where
  "emit_event env did ctx ty details st =
     on_alert (\<lambda>a. snd (emit_device_event (env_now env) ty (Some did) (cx_name ctx) details (group_uuid ctx) (cx_group_name ctx) [] a)) st"

definition display_transition :: "json \<Rightarrow> json \<Rightarrow> event_type option" where
  "display_transition prev new =
     (if new \<noteq> JNull \<and> prev \<noteq> JNull \<and> json_truthy new \<noteq> json_truthy prev
      then Some (if json_truthy new then DISPLAY_CONNECTED else DISPLAY_DISCONNECTED) else None)"

definition error_transition :: "json \<Rightarrow> json \<Rightarrow> (event_type \<times> json) option" where
  "error_transition prev new =
     (if json_truthy new \<and> \<not> json_truthy prev then Some (ERROR, JObj [(''error'', new)])
      else if json_truthy new \<and> json_truthy prev \<and> new \<noteq> prev then Some (ERROR, JObj [(''error'', new)])
      else if json_truthy prev \<and> \<not> json_truthy new then Some (ERROR_CLEARED, JObj [(''previous_error'', prev)])
      else None)"

definition emit_transitions :: "inbound_env \<Rightarrow> string \<Rightarrow> inbound_ctx \<Rightarrow> json \<Rightarrow> json \<Rightarrow> json \<Rightarrow> json \<Rightarrow> cms_state \<Rightarrow> cms_state" where
  "emit_transitions env did ctx prev_display new_display prev_error new_error st =
     (let st1 = (case display_transition prev_display new_display of None \<Rightarrow> st | Some ty \<Rightarrow> emit_event env did ctx ty JNull st)
      in case error_transition prev_error new_error of None \<Rightarrow> st1 | Some (ty, details) \<Rightarrow> emit_event env did ctx ty details st1)"

text \<open>The number of a temperature reading; the comparison of anything else with a threshold raises.\<close>

definition reading :: "json \<Rightarrow> rat option result" where
  "reading v = (case v of JNull \<Rightarrow> Inr None | JInt i \<Rightarrow> Inr (Some (of_int i)) | JFloat r \<Rightarrow> Inr (Some r)
     | JBool b \<Rightarrow> Inr (Some (if b then 1 else 0)) | _ \<Rightarrow> Inl (TypeError ''not supported between instances''))"

definition key_due :: "inbound_env \<Rightarrow> presence_row \<Rightarrow> dev_row \<Rightarrow> bool" where
  "key_due env p d \<longleftrightarrow> pr_status p = ''adopted'' \<and> ie_rotation_hours env > 0 \<and>
     (case dv_key_rotated_at d of None \<Rightarrow> False | Some t \<Rightarrow> env_now env - t > ie_rotation_hours env * 3600000000)"

definition refreshed_ctx :: "string \<Rightarrow> presence_row \<Rightarrow> cms_state \<Rightarrow> inbound_ctx \<Rightarrow> inbound_ctx" where
  "refreshed_ctx did p st ctx = ctx\<lparr>cx_group := fst (group_context st did), cx_group_name := snd (group_context st did),
     cx_name := or_id (pr_name p) did, cx_status := pr_status p\<rparr>"

text \<open>The heartbeat, from the telemetry update to the transitions.\<close>

definition apply_status ::
  "inbound_env \<Rightarrow> string \<Rightarrow> (string \<times> json) list \<Rightarrow> inbound_ctx \<Rightarrow> presence_row \<Rightarrow> cms_state \<Rightarrow> cms_state" where
  "apply_status env did msg ctx p st =
     (let (applied, pdb) = update_status (ie_parse_iso env) (group_context st) (env_now env) did msg None (presence_of st);
          new_display = (if applied then json_get ''display_connected'' msg else display_connected p);
          new_error = (if applied then json_get ''error'' msg else device_error p)
      in emit_transitions env did ctx (display_connected p) new_display (device_error p) new_error (on_presence (\<lambda>_. pdb) st))"

definition finish_status ::
  "inbound_env \<Rightarrow> send_fn \<Rightarrow> string \<Rightarrow> (string \<times> json) list \<Rightarrow> inbound_ctx \<Rightarrow> cms_state \<Rightarrow> py_error option \<times> cms_state" where
  "finish_status env send did msg ctx st =
     (case reading (json_get ''cpu_temp_c'' msg) of
        Inl e \<Rightarrow> if cx_status ctx \<noteq> ''adopted'' \<or> cx_group ctx = None \<or> cx_group ctx = Some ''''
            then (None, on_alert (reset_temp_state did) st) else (Some e, st)
      | Inr temp \<Rightarrow>
          let st1 = on_alert (check_temperature (ie_alerts env) (env_now env) did temp (cx_name ctx) (cx_group ctx) (cx_group_name ctx)
                (cx_status ctx) (cx_received_at ctx)) st
          in (case (find_by pr_id did (prs (cs_alert st1)), find_by dv_id did (cs_devs st1)) of
                (Some p, Some d) \<Rightarrow> if key_due env p d then rotate_api_key env send did st1 else (None, st1)
              | _ \<Rightarrow> (None, st1)))"

definition handle_status ::
  "inbound_env \<Rightarrow> send_fn \<Rightarrow> string \<Rightarrow> (string \<times> json) list \<Rightarrow> inbound_ctx \<Rightarrow> presence_row \<Rightarrow> dev_row \<Rightarrow> cms_state
     \<Rightarrow> py_error option \<times> inbound_ctx \<times> cms_state" where
  "handle_status env send did msg ctx p d st =
     (case int_column (re_int_column (ie_register env)) ''storage_used_mb'' msg (dv_used_mb d) of
        Inl e \<Rightarrow> (Some e, ctx, st)
      | Inr used \<Rightarrow>
          let st1 = set_dev did (\<lambda>x. x\<lparr>dv_used_mb := used\<rparr>) (set_pres did (\<lambda>x. x\<lparr>last_seen := Some (env_now env)\<rparr>) st);
              ctx1 = refreshed_ctx did p st1 ctx;
              (out, st2) = finish_status env send did msg ctx1 (apply_status env did msg ctx1 p st1)
          in (out, ctx1, st2))"

definition handle_fetch_request ::
  "inbound_env \<Rightarrow> send_fn \<Rightarrow> (string \<times> json) list \<Rightarrow> dev_row \<Rightarrow> cms_state \<Rightarrow> py_error option \<times> cms_state" where
  "handle_fetch_request env send msg d st =
     (if text_field ''asset'' msg = '''' then (None, st)
      else case scalar_one_or_none (filter (\<lambda>a. filename a = text_field ''asset'' msg \<and> asset_deleted_at a = None) (ss_assets (cs_media st))) of
        Inl e \<Rightarrow> (Some e, st)
      | Inr None \<Rightarrow> (None, st)
      | Inr (Some a) \<Rightarrow> (case resolve_asset_for_device env (cs_media st) d a of None \<Rightarrow> (None, st) | Some m \<Rightarrow> send m st))"

text \<open>The asset named in the history: the schedule's, by its display name, else what the device said.\<close>

definition played_name :: "schedule option \<Rightarrow> string \<Rightarrow> string" where
  "played_name s asset_name =
     (case s of None \<Rightarrow> asset_name
      | Some x \<Rightarrow> (case sched_asset x of None \<Rightarrow> asset_name
          | Some a \<Rightarrow> the (or_str (or_str (or_str (display_name a) (original_filename a)) (Some (filename a))) (Some asset_name))))"

definition handle_playback ::
  "inbound_env \<Rightarrow> schedule_log_event \<Rightarrow> string \<Rightarrow> (string \<times> json) list \<Rightarrow> presence_row \<Rightarrow> cms_state \<Rightarrow> py_error option \<times> cms_state" where
  "handle_playback env event did msg p st =
     (let schedule_id = text_field ''schedule_id'' msg; since = text_field ''timestamp'' msg
      in case ie_bind_uuid env schedule_id of
        Inl e \<Rightarrow> (Some e, st)
      | Inr key \<Rightarrow>
          let sched = find_by sched_id key (cs_schedules st);
              entry = \<lparr>log_schedule_id = uuid_of_text schedule_id, log_schedule_name = text_field ''schedule_name'' msg, log_device_id = Some did,
                log_device_name = or_id (pr_name p) did, log_asset_filename = played_name sched (text_field ''asset'' msg),
                log_event = event, log_details = None\<rparr>
          in (None, st\<lparr>cs_playing := (if event = STARTED
                then set_now_playing did \<lparr>cp_schedule_id = schedule_id, cp_since = (if since = '''' then ie_now_iso env else since)\<rparr> (cs_playing st)
                else snd (clear_now_playing did (cs_playing st))),
              cs_history := log_event_stmt (ie_fk_ok env) entry (cs_history st)\<rparr>))"

definition handle_logs_response :: "inbound_env \<Rightarrow> string \<Rightarrow> (string \<times> json) list \<Rightarrow> cms_state \<Rightarrow> cms_state" where
  "handle_logs_response env did msg st =
     st\<lparr>cs_logs := logs_response (env_now env) did (text_field ''request_id'' msg)
       (case json_get ''error'' msg of JStr e \<Rightarrow> Some e | _ \<Rightarrow> None) (ie_tar_gz env (object_field ''logs'' msg)) (ie_log_raises env) (cs_logs st)\<rparr>"

definition handle_lifecycle ::
  "inbound_env \<Rightarrow> string \<Rightarrow> (string \<times> json) list \<Rightarrow> inbound_ctx \<Rightarrow> dev_row \<Rightarrow> cms_state \<Rightarrow> cms_state" where
  "handle_lifecycle env did msg ctx d st =
     (case map_of WIRE_TO_CMS_EVENT (text_field ''event_type'' msg) of
        None \<Rightarrow> st
      | Some (ty, value) \<Rightarrow>
          let payload = object_field ''payload'' msg;
              (mutated, row) = handle_event (env_now env) value payload (dv_ota d);
              st1 = set_dev did (\<lambda>x. x\<lparr>dv_ota := row\<rparr>) st
          in if ty \<in> set SUPPRESSED_OTA_EVENT_TYPES then st1
             else emit_event env did (ctx\<lparr>cx_name := or_id (cx_name ctx) did\<rparr>) ty
               (JObj [(''event_id'', json_get ''event_id'' msg), (''payload'', JObj payload), (''release_id'', json_get ''release_id'' msg),
                  (''target_version'', json_get ''target_version'' msg), (''occurred_at'', json_get ''occurred_at'' msg),
                  (''reason'', json_get ''reason'' msg), (''projection_applied'', JBool mutated)]) st1)"

text \<open>\<^verbatim>\<open>dispatch_device_message\<close> for a device with a row. Acknowledgements and failures are only logged.\<close>

definition dispatch_device_message ::
  "inbound_env \<Rightarrow> send_fn \<Rightarrow> string \<Rightarrow> (string \<times> json) list \<Rightarrow> inbound_ctx \<Rightarrow> presence_row \<Rightarrow> dev_row \<Rightarrow> cms_state
     \<Rightarrow> py_error option \<times> inbound_ctx \<times> cms_state" where
  "dispatch_device_message env send did msg ctx p d st =
     (let ty = text_field ''type'' msg
      in if ty = ''status'' then handle_status env send did msg ctx p d st
         else if ty = ''fetch_request'' then (let (out, st') = handle_fetch_request env send msg d st in (out, ctx, st'))
         else if ty = ''playback_started'' then (let (out, st') = handle_playback env STARTED did msg p st in (out, ctx, st'))
         else if ty = ''playback_ended'' then (let (out, st') = handle_playback env ENDED did msg p st in (out, ctx, st'))
         else if ty = ''logs_response'' then (None, ctx, handle_logs_response env did msg st)
         else if ty = ''lifecycle_event'' then (None, ctx, handle_lifecycle env did msg ctx d st)
         else (None, ctx, st))"

section \<open>The Web PubSub webhook\<close>

text \<open>\<^verbatim>\<open>s.split(";")\<close> and the parts of \<^verbatim>\<open>part.partition("=")\<close>.\<close>

definition split_semicolons :: "string \<Rightarrow> string list" where
  "split_semicolons s = foldr (\<lambda>c acc. if c = CHR '';'' then [] # acc else (c # hd acc) # tl acc) s [[]]"

definition partition_equals :: "string \<Rightarrow> string \<times> string" where
  "partition_equals s = (takeWhile (\<lambda>c. c \<noteq> CHR ''='') s, drop 1 (dropWhile (\<lambda>c. c \<noteq> CHR ''='') s))"

definition access_key :: "string \<Rightarrow> string list" where
  "access_key part =
     (let (name, val) = partition_equals (strip part)
      in if strip part \<noteq> '''' \<and> lower_text (strip name) = ''accesskey'' \<and> val \<noteq> '''' then [strip val] else [])"

definition extract_access_keys :: "string option \<Rightarrow> string list" where
  "extract_access_keys conn = (case conn of None \<Rightarrow> [] | Some s \<Rightarrow> if s = '''' then [] else concat (map access_key (split_semicolons s)))"

definition rstrip_slash :: "string \<Rightarrow> string" where
  "rstrip_slash s = rev (dropWhile (\<lambda>c. c = CHR ''/'') (rev s))"

text \<open>\<^verbatim>\<open>get_asset_base_url\<close>; the request gives its scheme, its \<^verbatim>\<open>Host\<close> header and its own base URL.\<close>

definition get_asset_base_url :: "string option \<Rightarrow> string option \<Rightarrow> (string \<times> string option \<times> string) option \<Rightarrow> string" where
  "get_asset_base_url asset_base_url base_url request =
     (if truthy asset_base_url then rstrip_slash (the asset_base_url)
      else if truthy base_url then rstrip_slash (the base_url)
      else case request of
        Some (scheme, host, own) \<Rightarrow> if truthy host
          then (if scheme = ''https'' \<or> scheme = ''wss'' then ''https'' else ''http'') @ ''://'' @ the host else rstrip_slash own
      | None \<Rightarrow> ''http://localhost:8080'')"

definition events_abuse_protection_handshake :: "string option \<Rightarrow> string option \<Rightarrow> string" where
  "events_abuse_protection_handshake configured origin = the (or_str (or_str configured origin) (Some ''*''))"

record webhook_request =
  wr_type :: "string option"
  wr_connection :: "string option"
  wr_user :: "string option"
  wr_signature :: "string option"
  wr_time :: "string option"
  wr_body :: "json option"

text \<open>The claim of an upgrade is released when the device reports another version, and only the claim
  that was there when the message arrived.\<close>

definition stripped_text :: "string \<Rightarrow> (string \<times> json) list \<Rightarrow> string result" where
  "stripped_text k m = (let v = json_get k m in if \<not> json_truthy v then Inr ''''
     else case v of JStr s \<Rightarrow> Inr (strip s) | _ \<Rightarrow> Inl (TypeError ''no attribute strip''))"

definition release_claim :: "string \<Rightarrow> int \<Rightarrow> cms_state \<Rightarrow> cms_state" where
  "release_claim did claim st = st\<lparr>cs_devs := update_where
     (\<lambda>d. dv_id d = did \<and> upgrade_started_at (dv_ota d) = Some claim)
     (\<lambda>d. d\<lparr>dv_ota := (dv_ota d)\<lparr>upgrade_started_at := None\<rparr>\<rparr>) (cs_devs st)\<rparr>"

definition clear_upgrade_claim :: "string \<Rightarrow> dev_row \<Rightarrow> string \<Rightarrow> string \<Rightarrow> cms_state \<Rightarrow> cms_state" where
  "clear_upgrade_claim did before reported_os reported_fw st =
     (case upgrade_started_at (dv_ota before) of
        None \<Rightarrow> st
      | Some claim \<Rightarrow>
          if (reported_os \<noteq> '''' \<or> reported_fw \<noteq> '''') \<and> (strip (dv_os before), strip (dv_firmware before)) \<noteq> (reported_os, reported_fw)
          then release_claim did claim st else st)"

definition stuck_guard :: "string \<Rightarrow> int option \<Rightarrow> dev_row \<Rightarrow> bool" where
  "stuck_guard did updated d \<longleftrightarrow> dv_id d = did \<and> updated \<noteq> None \<and> ota_updated_at (dv_ota d) = updated \<and> ota_phase (dv_ota d) = Some OTA_STUCK_PHASE"

definition clear_stuck_ota :: "inbound_env \<Rightarrow> string \<Rightarrow> presence_row \<Rightarrow> dev_row \<Rightarrow> string \<Rightarrow> string \<Rightarrow> cms_state \<Rightarrow> cms_state" where
  "clear_stuck_ota env did p before reported_os reported_fw st =
     (if ota_phase (dv_ota before) = Some OTA_STUCK_PHASE \<and> ota_updated_at (dv_ota before) \<noteq> None
         \<and> version_bumped (Some (dv_os before)) (Some (dv_firmware before)) (Some reported_os) (Some reported_fw)
      then let st1 = st\<lparr>cs_devs := update_where (stuck_guard did (ota_updated_at (dv_ota before)))
                 (\<lambda>d. d\<lparr>dv_ota := clear_projection (dv_ota d)\<rparr>) (cs_devs st)\<rparr>
           in if 0 < rowcount (stuck_guard did (ota_updated_at (dv_ota before))) (cs_devs st)
              then on_alert (\<lambda>a. snd (emit_device_event (env_now env) OTA_AUTO_CLEARED (Some did) (or_id (pr_name p) did)
                (JObj [(''reason'', JStr ''register_version_bump''), (''prior_phase'', JStr OTA_STUCK_PHASE),
                   (''prior_firmware'', JStr (strip (dv_firmware before))), (''prior_os'', JStr (strip (dv_os before))),
                   (''reported_firmware'', JStr reported_fw), (''reported_os'', JStr reported_os)]) None '''' [] a)) st1
              else st1
      else st)"

definition notify_reconnected :: "string \<Rightarrow> presence_row \<Rightarrow> cms_state \<Rightarrow> cms_state" where
  "notify_reconnected did p st = on_presence (\<lambda>x. x\<lparr>alerts := alerts x @
     [device_reconnected did (or_id (pr_name p) did) (group_context st did) (pr_status p)]\<rparr>) st"

text \<open>What follows an accepted registration on both transports: the claim, the stuck projection and the
  alert service. The columns before it are \<open>before\<close>, the row after it \<open>p\<close>.\<close>

definition after_register ::
  "inbound_env \<Rightarrow> string \<Rightarrow> (string \<times> json) list \<Rightarrow> presence_row \<Rightarrow> dev_row \<Rightarrow> cms_state \<Rightarrow> py_error option \<times> cms_state" where
  "after_register env did msg p before st =
     (case (stripped_text ''os_version'' msg, stripped_text ''firmware_version'' msg) of
        (Inr os, Inr fw) \<Rightarrow> (None, notify_reconnected did p
          (clear_stuck_ota env did p before os fw (clear_upgrade_claim did before os fw st)))
      | (Inl e, _) \<Rightarrow> (Some e, st)
      | (_, Inl e) \<Rightarrow> (Some e, st))"

definition register_rows :: "presence_row \<Rightarrow> dev_row \<Rightarrow> cms_state \<Rightarrow> cms_state" where
  "register_rows p d st = set_dev (dv_id d) (\<lambda>_. d) (set_pres (pr_id p) (\<lambda>_. p) st)"

text \<open>A non-empty \<^verbatim>\<open>ip_address\<close> of the payload.\<close>

definition payload_ip :: "(string \<times> json) list \<Rightarrow> string option" where
  "payload_ip msg = (if text_field ''ip_address'' msg = '''' then None else Some (text_field ''ip_address'' msg))"

definition wps_register ::
  "inbound_env \<Rightarrow> send_fn \<Rightarrow> string \<Rightarrow> string \<Rightarrow> (string \<times> json) list \<Rightarrow> presence_row \<Rightarrow> dev_row \<Rightarrow> cms_state \<Rightarrow> int \<times> cms_state" where
  "wps_register env send did conn msg p d st =
     (let (out, p1, d1) = register_known_device (ie_register env) msg p d;
          st1 = register_rows p1 d1 st;
          st2 = (if payload_ip msg \<noteq> None then on_presence (mark_online (env_now env) did (Some conn) (payload_ip msg)) st1 else st1)
      in case out of
           Raised e \<Rightarrow> (500, st1)
         | Orphan \<Rightarrow> (204, st2)
         | Registered token \<Rightarrow>
             let st3 = (case token of None \<Rightarrow> st2 | Some t \<Rightarrow> snd (send (Auth_Assigned t) st2))
             in (case after_register env did msg p1 d st3 of
                   (Some e, st4) \<Rightarrow> (500, st4)
                 | (None, st4) \<Rightarrow> (204, if pr_status p1 = ''adopted'' then snd (rotate_api_key env send did st4) else st4)))"

definition status_of :: "py_error option \<Rightarrow> int" where
  "status_of e = (case e of None \<Rightarrow> 204 | Some _ \<Rightarrow> 500)"

definition wps_user_event ::
  "inbound_env \<Rightarrow> send_fn \<Rightarrow> string \<Rightarrow> string \<Rightarrow> int option \<Rightarrow> (string \<times> json) list \<Rightarrow> cms_state \<Rightarrow> int \<times> cms_state" where
  "wps_user_event env send did conn received_at msg st =
     (case (find_by pr_id did (prs (cs_alert st)), find_by dv_id did (cs_devs st)) of
        (Some p, Some d) \<Rightarrow>
          if text_field ''type'' msg = ''register'' then wps_register env send did conn msg p d st
          else let ctx = \<lparr>cx_group = fst (group_context st did), cx_group_name = snd (group_context st did),
                     cx_name = or_id (pr_name p) did, cx_status = pr_status p, cx_received_at = received_at\<rparr>;
                   (out, ctx', st') = dispatch_device_message env send did msg ctx p d st
               in (status_of out, st')
      | _ \<Rightarrow> (204, st))"

definition USER_PREFIX :: string where "USER_PREFIX = ''azure.webpubsub.user.''"

text \<open>\<^verbatim>\<open>events_receiver\<close>: \<open>hmac\<close> is the keyed hash, \<open>connection_string\<close> the configured one. The body is
  nothing where it is not JSON; a JSON body that is no object raises on \<^verbatim>\<open>msg.get\<close>.\<close>

definition events_receiver ::
  "(string \<Rightarrow> string \<Rightarrow> string) \<Rightarrow> string option \<Rightarrow> inbound_env \<Rightarrow> (string \<Rightarrow> send_fn) \<Rightarrow> webhook_request \<Rightarrow> cms_state \<Rightarrow> int \<times> cms_state" where
  "events_receiver hmac connection_string env send req st =
     (if \<not> truthy (wr_type req) \<or> \<not> truthy (wr_connection req) then (400, st)
      else let keys = extract_access_keys connection_string; ty = the (wr_type req); conn = the (wr_connection req)
           in if keys = [] then (500, st)
              else if \<not> verify_signature hmac conn (or_text (wr_signature req)) keys then (401, st)
              else if ty = ''azure.webpubsub.sys.connected''
              then if \<not> truthy (wr_user req) then (400, st)
                   else (204, on_presence (mark_online (env_now env) (the (wr_user req)) (Some conn) None) st)
              else if ty = ''azure.webpubsub.sys.disconnected''
              then (204, if truthy (wr_user req)
                then on_presence (\<lambda>p. snd (mark_offline_and_alert (group_context st) (the (wr_user req)) (Some conn) p)) st else st)
              else if take (length USER_PREFIX) ty = USER_PREFIX
              then if \<not> truthy (wr_user req) then (400, st)
                   else (case wr_body req of
                       None \<Rightarrow> (400, st)
                     | Some (JObj msg) \<Rightarrow> wps_user_event env (send (the (wr_user req))) (the (wr_user req)) conn
                         (case wr_time req of None \<Rightarrow> None | Some t \<Rightarrow> ie_parse_iso env t) msg st
                     | Some _ \<Rightarrow> (if find_by dv_id (the (wr_user req)) (cs_devs st) = None then 204 else 500, st))
              else (400, st))"

section \<open>The WebSocket endpoint\<close>

definition SUPPORTED_PROTOCOL_VERSIONS :: "int list" where "SUPPORTED_PROTOCOL_VERSIONS = [1, 2]"

text \<open>Membership in the frozen set: numbers compare by value, lists and objects have no hash.\<close>

definition supported_protocol :: "json \<Rightarrow> bool result" where
  "supported_protocol v =
     (case v of JInt n \<Rightarrow> Inr (n \<in> set SUPPORTED_PROTOCOL_VERSIONS) | JFloat r \<Rightarrow> Inr (r \<in> of_int ` set SUPPORTED_PROTOCOL_VERSIONS)
      | JBool b \<Rightarrow> Inr b | JList xs \<Rightarrow> Inl (TypeError ''unhashable type'') | JObj m \<Rightarrow> Inl (TypeError ''unhashable type'') | _ \<Rightarrow> Inr False)"

text \<open>What the endpoint's \<^verbatim>\<open>finally\<close> block sees: the identifier once it is read, the connection token
  once it is made, whether a row was loaded or created, and the context once it is built.\<close>

record ws_session =
  wsn_device :: "string option"
  wsn_conn :: "string option"
  wsn_row :: bool
  wsn_ctx :: "inbound_ctx option"

datatype ws_end = Closed int | Serving | Crashed

definition new_presence_row :: "int \<Rightarrow> string \<Rightarrow> string \<Rightarrow> presence_row" where
  "new_presence_row now did name = \<lparr>pr_id = did, pr_name = name, pr_status = ''pending'', online = False, connection_id = None,
     last_seen = Some now, ip_address = None, last_status_ts = None, mode = JStr ''unknown'', playing_asset = JNull,
     pipeline_state = JStr ''NULL'', playback_started_at = None, playback_position_ms = JNull, uptime_seconds = JInt 0,
     cpu_temp_c = JNull, load_avg = JNull, device_error = JNull, error_since = None, ssh_enabled = JNull, local_api_enabled = JNull,
     display_connected = JNull, display_ports = JNull\<rparr>"

text \<open>The row of a brand-new device with its token, committed before the profile is assigned.\<close>

definition new_dev_row :: "register_env \<Rightarrow> string \<Rightarrow> (string \<times> json) list \<Rightarrow> dev_row result" where
  "new_dev_row env did raw =
     result_bind (keep_if_empty 32 (json_get ''firmware_version'' raw) '''') (\<lambda>fw.
     result_bind (keep_if_empty 32 (json_get ''os_version'' raw) '''') (\<lambda>os.
     result_bind (keep_if_empty 100 (json_get ''device_type'' raw) '''') (\<lambda>ty.
     result_bind (result_bind (joined (get_default ''supported_codecs'' (JList []) raw)) (\<lambda>s. text_column 100 (JStr s))) (\<lambda>codecs.
     result_bind (if json_truthy (json_get ''capabilities'' raw) then iterate (json_get ''capabilities'' raw) else Inr []) (\<lambda>caps.
     result_bind (int_column (re_int_column env) ''storage_capacity_mb'' raw 0) (\<lambda>capacity.
     result_bind (int_column (re_int_column env) ''storage_used_mb'' raw 0) (\<lambda>used.
       Inr \<lparr>dv_id = did, dv_firmware = fw, dv_os = os, dv_type = ty, dv_codecs = codecs, dv_capabilities = caps,
         dv_capacity_mb = capacity, dv_used_mb = used, dv_profile = None, dv_timezone = None,
         dv_auth_hash = Some (hash_token (re_sha256 env) (re_token env)), dv_key_hash = None, dv_previous_key_hash = None,
         dv_key_rotated_at = None, dv_ota = \<lparr>ota_phase = None, ota_label = None, ota_pct = None, ota_bytes_done = None,
           ota_bytes_total = None, ota_updated_at = None, upgrade_started_at = None\<rparr>\<rparr>)))))))"

definition create_device :: "inbound_env \<Rightarrow> string \<Rightarrow> (string \<times> json) list \<Rightarrow> cms_state \<Rightarrow> cms_state result" where
  "create_device env did raw st =
     result_bind (if json_truthy (get_default ''device_name'' (JStr '''') raw) then text_column 100 (json_get ''device_name'' raw) else Inr did) (\<lambda>name.
     result_bind (text_column 64 (JStr did)) (\<lambda>_.
     result_bind (new_dev_row (ie_register env) did raw) (\<lambda>d.
       Inr (on_presence (\<lambda>p. p\<lparr>prs := insert_row (new_presence_row (env_now env) did name) (prs p)\<rparr>)
         (st\<lparr>cs_devs := insert_row d (cs_devs st)\<rparr>)))))"

text \<open>Authentication: a new device gets a row, a token and a profile, a known one registers. The result is
  the outcome so far (nothing to go on), the columns before registration and the state.\<close>

definition ws_authenticate ::
  "inbound_env \<Rightarrow> bool \<Rightarrow> string \<Rightarrow> (string \<times> json) list \<Rightarrow> cms_state \<Rightarrow> ws_end option \<times> dev_row option \<times> cms_state" where
  "ws_authenticate env writable did raw st =
     (case (find_by pr_id did (prs (cs_alert st)), find_by dv_id did (cs_devs st)) of
        (Some p, Some d) \<Rightarrow>
          (let (out, p1, d1) = register_known_device (ie_register env) raw p d; st1 = register_rows p1 d1 st
           in case out of
                Raised e \<Rightarrow> (Some Crashed, Some d, st1)
              | Orphan \<Rightarrow> (case ws_deliver writable did (Error_Message ''Invalid credentials'') st1 of
                    (None, st2) \<Rightarrow> (Some (Closed 4004), Some d, st2) | (Some e, st2) \<Rightarrow> (Some Crashed, Some d, st2))
              | Registered None \<Rightarrow> (None, Some d, st1)
              | Registered (Some t) \<Rightarrow> (case ws_deliver writable did (Auth_Assigned t) st1 of
                    (None, st2) \<Rightarrow> (None, Some d, st2) | (Some e, st2) \<Rightarrow> (Some Crashed, Some d, st2)))
      | _ \<Rightarrow>
          (case create_device env did raw st of
             Inl e \<Rightarrow> (Some Crashed, None, st)
           | Inr st1 \<Rightarrow> (case ws_deliver writable did (Auth_Assigned (re_token (ie_register env))) st1 of
               (Some e, st2) \<Rightarrow> (Some Crashed, None, st2)
             | (None, st2) \<Rightarrow> (None, None, set_dev did (auto_assign_profile (re_profiles (ie_register env))) st2))))"

text \<open>The pushes at the end of the handshake, in order; the first that fails ends the connection.
  \<open>sync\<close> is the message of \<^verbatim>\<open>build_device_sync\<close>, \<open>default_asset\<close> the device's or its group's.\<close>

fun ws_push :: "bool \<Rightarrow> string \<Rightarrow> wire_message list \<Rightarrow> cms_state \<Rightarrow> py_error option \<times> cms_state" where
  "ws_push writable did [] st = (None, st)"
| "ws_push writable did (m # ms) st =
     (case ws_deliver writable did m st of (None, st1) \<Rightarrow> ws_push writable did ms st1 | (Some e, st1) \<Rightarrow> (Some e, st1))"

definition ws_greet ::
  "inbound_env \<Rightarrow> bool \<Rightarrow> sync_message option \<Rightarrow> file_asset option \<Rightarrow> string \<Rightarrow> cms_state \<Rightarrow> py_error option \<times> cms_state" where
  "ws_greet env writable sync default_asset did st =
     (case (find_by pr_id did (prs (cs_alert st)), find_by dv_id did (cs_devs st)) of
        (Some p, Some d) \<Rightarrow>
          if pr_status p \<noteq> ''adopted'' then (None, st)
          else (case ws_push writable did ((case sync of None \<Rightarrow> [] | Some s \<Rightarrow> [Sync_Schedules s])
                @ (case default_asset of None \<Rightarrow> [] | Some a \<Rightarrow>
                     (case resolve_asset_for_device env (cs_media st) d a of None \<Rightarrow> [] | Some m \<Rightarrow> [m]))) st of
                (Some e, st1) \<Rightarrow> (Some e, st1)
              | (None, st1) \<Rightarrow> rotate_api_key env (ws_deliver writable did) did st1)
      | _ \<Rightarrow> (None, st))"

text \<open>From the first message to the message loop. \<open>peer\<close> is the address of the socket, \<open>conn\<close> the new
  connection token.\<close>

definition ws_handshake ::
  "inbound_env \<Rightarrow> bool \<Rightarrow> nat \<Rightarrow> string \<Rightarrow> string option \<Rightarrow> sync_message option \<Rightarrow> file_asset option \<Rightarrow> (string \<times> json) list
     \<Rightarrow> registry \<times> cms_state \<Rightarrow> ws_end \<times> ws_session \<times> registry \<times> cms_state" where
  "ws_handshake env writable sock conn peer sync default_asset raw rs =
     (let (reg, st) = rs; did = text_field ''device_id'' raw;
          anonymous = \<lparr>wsn_device = None, wsn_conn = None, wsn_row = False, wsn_ctx = None\<rparr>; named = anonymous\<lparr>wsn_device := Some did\<rparr>
      in if text_field ''type'' raw \<noteq> ''register'' then (Closed 4001, anonymous, reg, st)
         else if did = '''' then (Closed 4002, anonymous, reg, st)
         else case supported_protocol (get_default ''protocol_version'' (JInt 0) raw) of
           Inl e \<Rightarrow> (Crashed, named, reg, st)
         | Inr False \<Rightarrow> (Closed 4003, named, reg, st)
         | Inr True \<Rightarrow> (case ws_authenticate env writable did raw st of
             (Some r, before, st1) \<Rightarrow> (r, named\<lparr>wsn_row := True\<rparr>, reg, st1)
           | (None, before, st1) \<Rightarrow>
               let ip = (case payload_ip raw of None \<Rightarrow> peer | Some i \<Rightarrow> Some i);
                   reg1 = manager_register (env_now env) did sock ip reg;
                   st2 = on_presence (mark_online (env_now env) did (Some conn) ip) st1;
                   open_session = named\<lparr>wsn_row := True, wsn_conn := Some conn\<rparr>
               in case find_by pr_id did (prs (cs_alert st2)) of
                  None \<Rightarrow> (Crashed, open_session, reg1, st2)
                | Some p \<Rightarrow>
                    let (err, st3) = (case before of None \<Rightarrow> (None, notify_reconnected did p st2) | Some b \<Rightarrow> after_register env did raw p b st2)
                    in if err \<noteq> None then (Crashed, open_session, reg1, st3)
                       else let ctx = \<lparr>cx_group = fst (group_context st3 did), cx_group_name = snd (group_context st3 did),
                                  cx_name = or_id (pr_name p) did, cx_status = pr_status p, cx_received_at = None\<rparr>;
                                (err2, st4) = ws_greet env writable sync default_asset did st3
                            in (if err2 = None then Serving else Crashed, open_session\<lparr>wsn_ctx := Some ctx\<rparr>, reg1, st4)))"

text \<open>The loop over the text messages of a connection: malformed JSON is skipped, an exception ends it.\<close>

fun ws_loop :: "bool \<Rightarrow> string \<Rightarrow> (inbound_env \<times> (string \<times> json) list option) list \<Rightarrow> inbound_ctx \<Rightarrow> cms_state \<Rightarrow> inbound_ctx \<times> cms_state" where
  "ws_loop writable did [] ctx st = (ctx, st)"
| "ws_loop writable did ((env, None) # ms) ctx st = ws_loop writable did ms ctx st"
| "ws_loop writable did ((env, Some msg) # ms) ctx st =
     (case (find_by pr_id did (prs (cs_alert st)), find_by dv_id did (cs_devs st)) of
        (Some p, Some d) \<Rightarrow>
          (case dispatch_device_message env (ws_deliver writable did) did msg ctx p d st of
             (None, ctx', st') \<Rightarrow> ws_loop writable did ms ctx' st'
           | (Some e, ctx', st') \<Rightarrow> (ctx', st'))
      | _ \<Rightarrow> (ctx, st))"

text \<open>The \<^verbatim>\<open>finally\<close> block.\<close>

definition ws_finally :: "ws_session \<Rightarrow> registry \<times> cms_state \<Rightarrow> registry \<times> cms_state" where
  "ws_finally s rs =
     (case wsn_device s of
        None \<Rightarrow> rs
      | Some did \<Rightarrow>
          let (was_current, pdb) = mark_offline did (wsn_conn s) (presence_of (snd rs));
              reg1 = manager_disconnect did (fst rs); st1 = on_presence (\<lambda>_. pdb) (snd rs);
              announce = (\<lambda>name grp status. (reg1, on_presence (\<lambda>p. p\<lparr>alerts := alerts p @
                [device_disconnected did (or_id name did) grp status]\<rparr>) st1))
          in if \<not> was_current \<and> wsn_conn s \<noteq> None then (reg1, st1)
             else case (wsn_row s, find_by pr_id did (prs pdb)) of
                (True, Some p) \<Rightarrow> announce (or_id (pr_name p) did) (group_context st1 did) (pr_status p)
              | _ \<Rightarrow> (case wsn_ctx s of
                  Some c \<Rightarrow> announce (cx_name c) (cx_group c, cx_group_name c) (cx_status c)
                | None \<Rightarrow> announce '''' (None, '''') ''pending''))"

section \<open>Lemmas\<close>

lemma on_presence_frame [simp]:
  "cs_devs (on_presence f st) = cs_devs st" "cs_sent (on_presence f st) = cs_sent st" "cs_media (on_presence f st) = cs_media st"
  "events (cs_alert (on_presence f st)) = events (cs_alert st)" "member (cs_alert (on_presence f st)) = member (cs_alert st)"
  "group_rows (cs_alert (on_presence f st)) = group_rows (cs_alert st)"
  "prs (cs_alert (on_presence f st)) = prs (f (presence_of st))"
  "alerts (cs_alert (on_presence f st)) = alerts (f (presence_of st))"
  by (simp_all add: on_presence_def presence_of_def Let_def)

lemma presence_of_simps [simp]: "prs (presence_of st) = prs (cs_alert st)" "alerts (presence_of st) = alerts (cs_alert st)"
  by (simp_all add: presence_of_def)

lemma on_alert_frame [simp]:
  "cs_devs (on_alert f st) = cs_devs st" "cs_sent (on_alert f st) = cs_sent st" "cs_alert (on_alert f st) = f (cs_alert st)"
  by (simp_all add: on_alert_def)

lemma set_dev_frame [simp]:
  "cs_alert (set_dev did f st) = cs_alert st" "cs_sent (set_dev did f st) = cs_sent st"
  by (simp_all add: set_dev_def)

lemma set_pres_frame [simp]:
  "cs_devs (set_pres did f st) = cs_devs st" "cs_sent (set_pres did f st) = cs_sent st"
  "events (cs_alert (set_pres did f st)) = events (cs_alert st)"
  by (simp_all add: set_pres_def)

lemma find_set_dev:
  "f \<in> dev_writes \<Longrightarrow> find_by dv_id k (cs_devs (set_dev did f st)) =
     (case find_by dv_id k (cs_devs st) of None \<Rightarrow> None | Some d \<Rightarrow> Some (if k = did then f d else d))"
  by (auto simp: set_dev_def dev_rows.find_update split: option.splits dest: find_by_Some)

definition pres_writes :: "(presence_row \<Rightarrow> presence_row) set" where
  "pres_writes = {f. \<forall>r. pr_id (f r) = pr_id r}"

interpretation pres_rows: keyed_table pr_id pres_writes
  by unfold_locales (simp add: pres_writes_def)

lemma find_set_pres:
  "f \<in> pres_writes \<Longrightarrow> find_by pr_id k (prs (cs_alert (set_pres did f st))) =
     (case find_by pr_id k (prs (cs_alert st)) of None \<Rightarrow> None | Some r \<Rightarrow> Some (if k = did then f r else r))"
  by (auto simp: set_pres_def pres_rows.find_update split: option.splits dest: find_by_Some)

lemma keys_set_pres:
  "f \<in> pres_writes \<Longrightarrow> keys_ok pr_id (prs (cs_alert st)) \<Longrightarrow> keys_ok pr_id (prs (cs_alert (set_pres did f st)))"
  by (simp add: set_pres_def pres_rows.keys_ok_update)

section \<open>Properties\<close>

text \<open>C36. Only signed calls count. A call of the webhook changes nothing, in any table, queue or cache,
  unless its signature header carries the digest of its connection under a configured access key.\<close>

theorem webhook_needs_signature:
  assumes "\<not> (\<exists>k \<in> set (extract_access_keys connection_string). \<exists>c. wr_connection req = Some c
      \<and> hmac k c \<in> set (presented_digests (or_text (wr_signature req))))"
  shows "snd (events_receiver hmac connection_string env send req st) = st
    \<and> fst (events_receiver hmac connection_string env send req st) \<in> {400, 401, 500}"
proof (cases "truthy (wr_connection req)")
  case True
  then obtain c where c: "wr_connection req = Some c" by (cases "wr_connection req") auto
  have "\<not> verify_signature hmac c (or_text (wr_signature req)) (extract_access_keys connection_string)"
    using assms c by (auto simp: verify_signature_def list_ex_iff)
  then show ?thesis using c by (simp add: events_receiver_def Let_def)
qed (simp add: events_receiver_def)

text \<open>The stranger at the door. An unauthenticated WebSocket client that names a device and an unsupported
  protocol version is turned away with code 4003, and so is one with a wrong token with 4004; but as
  no connection token was made yet, the clean-up takes the device's live connection offline without a
  comparison and drops its socket from the registry.\<close>

lemma finally_without_token:
  assumes "find_by pr_id did (prs (cs_alert st)) = Some p" "dict_ok reg"
    and "wsn_device s = Some did" "wsn_conn s = None"
  shows "\<not> is_online did (presence_of (snd (ws_finally s (reg, st)))) \<and> map_of (fst (ws_finally s (reg, st))) did = None"
proof -
  have f: "find_by pr_id did (prs (snd (mark_offline did None (presence_of st)))) = Some (offline_row p)"
    using assms(1) by (auto simp: mark_offline_def presence_rows.find_update token_guard_def dest: find_by_Some)
  show ?thesis using assms f
    by (auto simp: ws_finally_def is_online_def offline_row_def manager_disconnect_def map_of_dict_pop Let_def
        split: prod.splits option.splits bool.splits)
qed

theorem stranger_takes_device_offline:
  assumes "find_by pr_id did (prs (cs_alert st)) = Some p" "online p" "dict_ok reg"
    and "text_field ''type'' raw = ''register''" "text_field ''device_id'' raw = did" "did \<noteq> ''''"
    and "supported_protocol (get_default ''protocol_version'' (JInt 0) raw) = Inr False"
  shows "\<exists>s. ws_handshake env writable sock conn peer sync default_asset raw (reg, st) = (Closed 4003, s, reg, st)
    \<and> \<not> is_online did (presence_of (snd (ws_finally s (reg, st)))) \<and> map_of (fst (ws_finally s (reg, st))) did = None"
proof -
  let ?s = "\<lparr>wsn_device = Some did, wsn_conn = None, wsn_row = False, wsn_ctx = None\<rparr>"
  have "ws_handshake env writable sock conn peer sync default_asset raw (reg, st) = (Closed 4003, ?s, reg, st)"
    using assms(4-7) by (simp add: ws_handshake_def Let_def)
  moreover have "\<not> is_online did (presence_of (snd (ws_finally ?s (reg, st)))) \<and> map_of (fst (ws_finally ?s (reg, st))) did = None"
    by (rule finally_without_token [OF assms(1,3)]) simp_all
  ultimately show ?thesis by blast
qed

definition transition_types :: "event_type list" where
  "transition_types = [DISPLAY_CONNECTED, DISPLAY_DISCONNECTED, ERROR, ERROR_CLEARED]"

definition transition_log :: "string \<Rightarrow> cms_state \<Rightarrow> (event_type \<times> json) list" where
  "transition_log did st = map (\<lambda>e. (ev_type e, ev_details e))
     (filter (\<lambda>e. ev_device e = Some did \<and> ev_type e \<in> set transition_types) (events (cs_alert st)))"

lemma transition_log_cong: "events (cs_alert st') = events (cs_alert st) \<Longrightarrow> transition_log did st' = transition_log did st"
  by (simp add: transition_log_def)

lemma transition_log_emit:
  "transition_log did (emit_event env did ctx ty details st) =
     transition_log did st @ (if ty \<in> set transition_types then [(ty, details)] else [])"
proof -
  obtain e a where e: "emit_device_event (env_now env) ty (Some did) (cx_name ctx) details (group_uuid ctx) (cx_group_name ctx) [] (cs_alert st) = (e, a)"
    by (metis surj_pair)
  show ?thesis using emit_frame [OF e] e by (simp add: emit_event_def transition_log_def)
qed

lemma emit_temp_events:
  "\<exists>e. events (emit_temp_alert cfg now did name gid gname snap ty level t new old st) = events st @ [e] \<and> ev_type e = ty"
  by (auto simp: emit_temp_alert_def Let_def uuid4_def emit_device_event_def split: option.splits prod.splits)

lemma temp_decision_types: "temp_decision old new past = Some (ty, level) \<Longrightarrow> ty = TEMP_HIGH \<or> ty = TEMP_CLEARED"
  by (auto simp: temp_decision_def split: if_splits)

lemma state_ops_events [simp]: "events (update_state d f st) = events st" "events (add_state s st) = events st"
  "events (reset_temp_state d st) = events st"
  by (simp_all add: update_state_def add_state_def reset_temp_state_def)

lemma check_temperature_events:
  "\<exists>es. events (check_temperature cfg now did temp name gid gname status ts st) = events st @ es
     \<and> (\<forall>e \<in> set es. ev_type e = TEMP_HIGH \<or> ev_type e = TEMP_CLEARED)"
proof -
  have emitted: "\<exists>es. events (emit_temp_alert cfg now did name g gname snap ty level t new old (update_state d f (add_state s st))) = events st @ es
      \<and> (\<forall>e \<in> set es. ev_type e = TEMP_HIGH \<or> ev_type e = TEMP_CLEARED)" if "temp_decision o1 n1 p1 = Some (ty, level)"
    for g snap ty level t new old d f s o1 n1 p1
    using emit_temp_events [of cfg now did name g gname snap ty level t new old "update_state d f (add_state s st)"]
      temp_decision_types [OF that] by auto
  show ?thesis
    by (auto simp: check_temperature_def Let_def split: option.split prod.split intro: emitted)
qed

lemma transition_log_temperature:
  "transition_log did (on_alert (check_temperature cfg now d temp name gid gname status ts) st) = transition_log did st"
proof -
  obtain es where es: "events (check_temperature cfg now d temp name gid gname status ts (cs_alert st)) = events (cs_alert st) @ es"
    "\<forall>e \<in> set es. ev_type e = TEMP_HIGH \<or> ev_type e = TEMP_CLEARED"
    using check_temperature_events by metis
  have "filter (\<lambda>e. ev_device e = Some did \<and> ev_type e \<in> set transition_types) es = []"
    using es(2) by (auto simp: filter_empty_conv transition_types_def)
  then show ?thesis using es(1) by (simp add: transition_log_def)
qed

text \<open>A way of sending that leaves the event log alone: both transports do.\<close>

definition quiet :: "send_fn \<Rightarrow> bool" where
  "quiet send \<longleftrightarrow> (\<forall>m st. events (cs_alert (snd (send m st))) = events (cs_alert st))"

lemma quiet_wps: "quiet (wps_deliver answer did)"
  by (simp add: quiet_def wps_deliver_def Let_def)

lemma quiet_ws: "quiet (ws_deliver writable did)"
  by (simp add: quiet_def ws_deliver_def)

lemma transition_log_rotate: "quiet send \<Longrightarrow> transition_log did (snd (rotate_api_key env send d st)) = transition_log did st"
  by (simp add: rotate_api_key_def quiet_def transition_log_def)

lemma transition_log_finish:
  assumes "quiet send"
  shows "transition_log did (snd (finish_status env send did msg ctx st)) = transition_log did st"
proof (cases "reading (json_get ''cpu_temp_c'' msg)")
  case (Inl e)
  then show ?thesis by (auto simp: finish_status_def intro: transition_log_cong)
next
  case (Inr t)
  then show ?thesis
    by (auto simp: finish_status_def Let_def transition_log_rotate [OF assms] transition_log_temperature split: option.splits)
qed

definition fresh_status :: "inbound_env \<Rightarrow> presence_row \<Rightarrow> bool" where
  "fresh_status env p \<longleftrightarrow> (case last_status_ts p of None \<Rightarrow> True | Some t \<Rightarrow> t < env_now env)"

lemma update_status_applied:
  assumes "find_by pr_id did (prs db) = Some p" "keys_ok pr_id (prs db)"
  shows "fst (update_status parse grp now did msg None db) \<longleftrightarrow> (case last_status_ts p of None \<Rightarrow> True | Some t \<Rightarrow> t < now)"
proof -
  have unique: "p = x" if "x \<in> set (prs db)" "status_guard did now x" for x
    using that assms find_by_mem [of pr_id "prs db" x] by (simp add: status_guard_def)
  have p: "p \<in> set (prs db)" "pr_id p = did" using assms(1) by (auto dest: find_by_Some)
  then have "0 < rowcount (status_guard did now) (prs db) \<longleftrightarrow> status_guard did now p"
    using unique unfolding rowcount_pos by blast
  moreover have "fst (update_status parse grp now did msg None db) = (0 < rowcount (status_guard did now) (prs db))"
    unfolding update_status_def by (simp only: Let_def fst_conv option.case)
  ultimately show ?thesis using p(2) by (simp only: status_guard_def simp_thms)
qed

text \<open>What a heartbeat reports. A STATUS message that is newer than the last one applied appends to the
  event log of its device exactly the transition of the display, if both readings are known and
  differ, then the transition of the error: raised or changed, or cleared. A message that is not newer
  appends neither.\<close>

theorem status_events_exact:
  assumes "find_by pr_id did (prs (cs_alert st)) = Some p" "keys_ok pr_id (prs (cs_alert st))"
    and "text_field ''type'' msg = ''status''" "quiet send"
    and "int_column (re_int_column (ie_register env)) ''storage_used_mb'' msg (dv_used_mb d) = Inr used"
    and "dispatch_device_message env send did msg ctx p d st = (out, ctx', st')"
  shows "transition_log did st' = transition_log did st @
    (if fresh_status env p
     then (case display_transition (display_connected p) (json_get ''display_connected'' msg) of None \<Rightarrow> [] | Some ty \<Rightarrow> [(ty, JNull)])
        @ (case error_transition (device_error p) (json_get ''error'' msg) of None \<Rightarrow> [] | Some e \<Rightarrow> [e])
     else [])"
proof -
  let ?st1 = "set_dev did (\<lambda>x. x\<lparr>dv_used_mb := used\<rparr>) (set_pres did (\<lambda>x. x\<lparr>last_seen := Some (env_now env)\<rparr>) st)"
  let ?ctx = "refreshed_ctx did p ?st1 ctx" and ?p = "p\<lparr>last_seen := Some (env_now env)\<rparr>"
  let ?shown = "json_get ''display_connected'' msg" and ?err = "json_get ''error'' msg"
  have run: "st' = snd (finish_status env send did msg ?ctx (apply_status env did msg ?ctx p ?st1))"
    using assms(3,5,6) by (auto simp: dispatch_device_message_def handle_status_def Let_def split: prod.splits)
  have row: "find_by pr_id did (prs (presence_of ?st1)) = Some ?p" "keys_ok pr_id (prs (presence_of ?st1))"
    using assms(1,2) by (simp_all add: find_set_pres keys_set_pres pres_writes_def)
  obtain app pdb where upd: "update_status (ie_parse_iso env) (group_context ?st1) (env_now env) did msg None (presence_of ?st1) = (app, pdb)"
    by (metis surj_pair)
  have app: "app = fresh_status env p"
    using update_status_applied [OF row, of "ie_parse_iso env" "group_context ?st1" "env_now env" msg] upd by (simp add: fresh_status_def)
  let ?mid = "on_presence (\<lambda>_. pdb) ?st1"
  have base: "transition_log did ?mid = transition_log did st" by (rule transition_log_cong) simp
  have ts: "display_transition x y = Some ty \<Longrightarrow> ty \<in> set transition_types" "error_transition x y = Some (ty, v) \<Longrightarrow> ty \<in> set transition_types"
    for x y ty v by (auto simp: display_transition_def error_transition_def transition_types_def split: if_splits)
  have same: "display_transition x x = None" "error_transition x x = None" for x
    by (auto simp: display_transition_def error_transition_def)
  have "transition_log did (apply_status env did msg ?ctx p ?st1) = transition_log did st @
    (if app then (case display_transition (display_connected p) ?shown of None \<Rightarrow> [] | Some ty \<Rightarrow> [(ty, JNull)])
        @ (case error_transition (device_error p) ?err of None \<Rightarrow> [] | Some e \<Rightarrow> [e]) else [])"
    using ts base by (auto simp: apply_status_def upd emit_transitions_def Let_def transition_log_emit same split: option.splits prod.splits)
  then show ?thesis using run app transition_log_finish [OF assms(4)] by simp
qed

text \<open>One choice of file. The file a device is told to fetch for a single video, image or saved stream is
  the file it gets for the same asset inside a slideshow: the newest ready variant for its profile, or
  the source when there is no variant; while variants exist and none is ready, neither sends it.\<close>

theorem fetch_agrees_with_slideshow:
  assumes "asset_type_of a \<noteq> COMPOSED"
  shows "resolve_variant_or_source env db d a =
    (case resolve_source db (dv_profile d) a of
       Inl blocked \<Rightarrow> None
     | Inr ((path, api, checksum, len), sib) \<Rightarrow>
         Some (ie_link env path (ie_base_url env @ api), checksum, or_value len 0, asset_type_value (asset_type_of a)))"
  using assms
  by (auto simp: resolve_variant_or_source_def resolve_source_def source_file_def variant_file_def Let_def
      split: option.splits list.splits bool.splits)

subsection \<open>Upgrades\<close>

text \<open>The claim of an upgrade is a compare-and-swap. When a registration is processed, the claim seen before
  it is released if and only if the device reports some version and the pair of versions differs from the
  stored one; a claim that another request has made since stays, and so do the other devices' claims.\<close>

theorem upgrade_claim_release_exact:
  assumes "find_by dv_id k (cs_devs st) = Some d"
  shows "map_option (upgrade_started_at \<circ> dv_ota) (find_by dv_id k (cs_devs (clear_upgrade_claim did before os fw st))) =
    Some (if k = did \<and> upgrade_started_at (dv_ota d) = upgrade_started_at (dv_ota before) \<and> (os \<noteq> '''' \<or> fw \<noteq> '''')
        \<and> (strip (dv_os before), strip (dv_firmware before)) \<noteq> (os, fw)
      then None else upgrade_started_at (dv_ota d))"
proof -
  have w: "(\<lambda>d. d\<lparr>dv_ota := (dv_ota d)\<lparr>upgrade_started_at := None\<rparr>\<rparr>) \<in> dev_writes" by (simp add: dev_writes_def)
  have "dv_id d = k" using assms by (auto dest: find_by_Some)
  then show ?thesis
    using assms by (auto simp: clear_upgrade_claim_def release_claim_def dev_rows.find_update [OF w] split: option.splits)
qed

text \<open>The two gates of one registration disagree. A device that omits its operating system version while
  the CMS has one stored, and reports the firmware it already had, has not changed its version: the
  stuck-upgrade gate says so, and the stored version stays. The claim gate compares the missing field as
  if the device reported an empty version, and releases the claim of the running upgrade.\<close>

theorem claim_released_without_bump:
  assumes "find_by dv_id did (cs_devs st) = Some d" "upgrade_started_at (dv_ota d) = Some claim"
    and "strip (dv_os d) \<noteq> ''''" "strip (dv_firmware d) \<noteq> ''''"
  shows "\<not> version_bumped (Some (dv_os d)) (Some (dv_firmware d)) None (Some (dv_firmware d))
    \<and> map_option (upgrade_started_at \<circ> dv_ota)
        (find_by dv_id did (cs_devs (clear_upgrade_claim did d '''' (strip (dv_firmware d)) st))) = Some None"
  using assms upgrade_claim_release_exact [OF assms(1), of did d "''''" "strip (dv_firmware d)"]
  by (simp add: version_bumped_def strip_def Let_def)

subsection \<open>Keys\<close>

definition same_keys :: "dev_row \<Rightarrow> dev_row \<Rightarrow> bool" where
  "same_keys d d' \<longleftrightarrow> dv_id d' = dv_id d \<and> dv_key_hash d' = dv_key_hash d"

lemma update_same_keys:
  assumes "find_by dv_id did devs = Some d" "\<And>x. same_keys x (f x)"
  shows "\<exists>d'. find_by dv_id did (update_where P f devs) = Some d' \<and> same_keys d d'"
proof -
  have "f \<in> dev_writes" using assms(2) by (simp add: dev_writes_def same_keys_def)
  then show ?thesis using assms by (auto simp: dev_rows.find_update same_keys_def)
qed

lemma claim_same_keys:
  assumes "find_by dv_id did (cs_devs st) = Some d"
  shows "\<exists>d'. find_by dv_id did (cs_devs (clear_upgrade_claim k before os fw st)) = Some d' \<and> same_keys d d'"
proof -
  have "\<exists>d'. find_by dv_id did (cs_devs (release_claim k c st)) = Some d' \<and> same_keys d d'" for c
  proof -
    have "\<exists>d'. find_by dv_id did (update_where P (\<lambda>d. d\<lparr>dv_ota := (dv_ota d)\<lparr>upgrade_started_at := None\<rparr>\<rparr>) (cs_devs st)) = Some d' \<and> same_keys d d'" for P
      by (rule update_same_keys [OF assms]) (simp add: same_keys_def)
    then show ?thesis by (simp add: release_claim_def)
  qed
  then show ?thesis using assms by (auto simp: clear_upgrade_claim_def same_keys_def split: option.splits)
qed

lemma stuck_same_keys:
  assumes "find_by dv_id did (cs_devs st) = Some d"
  shows "\<exists>d'. find_by dv_id did (cs_devs (clear_stuck_ota env k p before os fw st)) = Some d' \<and> same_keys d d'"
proof -
  have "\<exists>d'. find_by dv_id did (update_where (stuck_guard k t) (\<lambda>d. d\<lparr>dv_ota := clear_projection (dv_ota d)\<rparr>) (cs_devs st)) = Some d' \<and> same_keys d d'" for t
    by (rule update_same_keys [OF assms]) (simp add: same_keys_def)
  then show ?thesis using assms by (simp add: clear_stuck_ota_def Let_def same_keys_def)
qed

lemma after_register_same_keys:
  assumes "find_by dv_id did (cs_devs st) = Some d" "after_register env k msg p before st = (None, st')"
  shows "\<exists>d'. find_by dv_id did (cs_devs st') = Some d' \<and> same_keys d d'"
proof -
  obtain os fw where st': "st' = notify_reconnected k p (clear_stuck_ota env k p before os fw (clear_upgrade_claim k before os fw st))"
    using assms(2) by (auto simp: after_register_def split: sum.splits)
  obtain d1 where d1: "find_by dv_id did (cs_devs (clear_upgrade_claim k before os fw st)) = Some d1" "same_keys d d1"
    using claim_same_keys [OF assms(1)] by blast
  obtain d2 where "find_by dv_id did (cs_devs (clear_stuck_ota env k p before os fw (clear_upgrade_claim k before os fw st))) = Some d2" "same_keys d1 d2"
    using stuck_same_keys [OF d1(1)] by blast
  then show ?thesis using d1(2) by (auto simp: st' notify_reconnected_def same_keys_def)
qed

text \<open>C37. Registration ends with a working key. When an adopted device registers over Web PubSub with its token
  and the service accepts the messages, the last message it gets carries a new API key; the CMS
  accepts this key from then on, and the key before it for five minutes.\<close>

theorem register_delivers_working_key:
  assumes rows: "find_by pr_id did (prs (cs_alert st)) = Some p" "find_by dv_id did (cs_devs st) = Some d" "pr_status p = ''adopted''"
    and token: "get_default ''auth_token'' (JStr '''') msg = JStr t" "t \<noteq> ''''" "dv_auth_hash d = Some (re_sha256 (ie_register env) t)"
      "re_sha256 (ie_register env) t \<noteq> ''''"
    and run: "wps_register env (wps_deliver WPS_OK did) did conn msg p d st = (204, st')" and key: "ie_key env \<noteq> ''''"
  shows "last (cs_sent st') = (did, Config_Api_Key (ie_key env))
    \<and> (\<forall>now. \<exists>x. authenticate_device (re_sha256 (ie_register env)) now did (Some (ie_key env)) (cs_devs st') = Inr x)
    \<and> (\<forall>now old. dv_key_hash d = Some (re_sha256 (ie_register env) old) \<and> old \<noteq> '''' \<and> now - env_now env < 300000000
        \<longrightarrow> (\<exists>x. authenticate_device (re_sha256 (ie_register env)) now did (Some old) (cs_devs st') = Inr x))"
proof -
  let ?sha = "re_sha256 (ie_register env)" and ?rot = "rotate_key_row (re_sha256 (ie_register env)) (env_now env) (ie_key env)"
  have ids: "pr_id p = did" "dv_id d = did" using rows by (auto dest: find_by_Some)
  have half: "check_auth_token (ie_register env) (get_default ''auth_token'' (JStr '''') msg) p d = (Registered None, p, d)"
    using token by (simp add: check_auth_token_def hash_token_def Let_def)
  obtain p1 d1 where reg: "register_known_device (ie_register env) msg p d = (Registered None, p1, d1)"
    and adopted: "pr_status p1 = ''adopted''"
    using half run rows(3) refresh_metadata_Inr(1) [of "ie_register env" msg p d]
    by (auto simp: register_known_device_def wps_register_def Let_def split: sum.splits)
  note frame = register_frame [OF reg]
  define st2 where "st2 = (if payload_ip msg \<noteq> None then on_presence (mark_online (env_now env) did (Some conn) (payload_ip msg)) (register_rows p1 d1 st)
    else register_rows p1 d1 st)"
  have "(case after_register env did msg p1 d st2 of (Some e, st4) \<Rightarrow> (500 :: int, st4)
      | (None, st4) \<Rightarrow> (204, if pr_status p1 = ''adopted'' then snd (rotate_api_key env (wps_deliver WPS_OK did) did st4) else st4)) = (204, st')"
    using run reg unfolding wps_register_def st2_def by (simp add: Let_def cong: if_cong split del: if_split)
  then obtain st4 where after: "after_register env did msg p1 d st2 = (None, st4)"
    and st': "st' = snd (rotate_api_key env (wps_deliver WPS_OK did) did st4)"
    using adopted by (auto split: option.splits prod.splits)
  have upd: "find_by dv_id did (update_where (\<lambda>x. dv_id x = did) (\<lambda>_. d1) devs) = Some d1"
    if "find_by dv_id did devs = Some d" for devs
    using that frame(2) ids by (induction devs) (auto simp: update_where_def split: if_splits)
  have "find_by dv_id did (cs_devs st2) = Some d1"
    using upd [OF rows(2)] ids frame(2) by (simp add: st2_def register_rows_def set_dev_def)
  then obtain d4 where d4: "find_by dv_id did (cs_devs st4) = Some d4" "same_keys d1 d4" using after_register_same_keys [OF _ after] by blast
  have sent: "st' = (let s = set_dev did ?rot st4 in s\<lparr>cs_sent := cs_sent s @ [(did, Config_Api_Key (ie_key env))]\<rparr>)"
    by (simp add: st' rotate_api_key_def wps_deliver_def wps_send_def on_presence_def Let_def)
  have w: "?rot \<in> dev_writes" by (simp add: dev_writes_def rotate_key_row_def)
  have row: "find_by dv_id did (cs_devs st') = Some (?rot d4)" using d4(1) find_set_dev [OF w, of did did st4] by (simp add: sent Let_def)
  have hash: "dv_key_hash d4 = dv_key_hash d" using d4(2) frame(4) by (simp add: same_keys_def)
  show ?thesis using row key hash
    by (simp add: sent Let_def authenticate_device_def rotate_key_row_def hash_token_def in_grace_def KEY_GRACE_SECONDS_def)
qed

section \<open>Concrete runs\<close>

definition desk_env :: inbound_env where
  "desk_env = \<lparr>ie_register = sample_env, ie_key = ''k1'', ie_parse_iso = (\<lambda>_. None), ie_bind_uuid = Inr, ie_fk_ok = (\<lambda>_ _. True),
     ie_alerts = default_alert_settings, ie_rotation_hours = 24, ie_now_iso = ''now'', ie_base_url = ''http://cms'',
     ie_link = (\<lambda>path url. url), ie_digest = (\<lambda>_. []), ie_zone = (\<lambda>_. None), ie_setting_tz = None, ie_tar_gz = (\<lambda>_. []),
     ie_log_raises = None\<rparr>"

definition desk :: cms_state where
  "desk = \<lparr>cs_alert = sample_alerts, cs_devs = [sample_row\<lparr>dv_os := ''2'', dv_ota := no_ota\<lparr>upgrade_started_at := Some 1\<rparr>\<rparr>],
     cs_media = deck, cs_schedules = [], cs_history = [], cs_playing = [], cs_logs = \<lparr>requests = [], blobs = []\<rparr>, cs_sent = []\<rparr>"

definition live_desk :: cms_state where
  "live_desk = on_presence (\<lambda>p. mark_online 5 ''d1'' (Some ''c1'') None p) desk"

abbreviation desk_row :: dev_row where "desk_row \<equiv> hd (cs_devs desk)"

lemma desk_found: "find_by pr_id ''d1'' (prs (cs_alert desk)) = Some lobby" "keys_ok pr_id (prs (cs_alert desk))"
  "find_by dv_id ''d1'' (cs_devs desk) = Some desk_row" "find_by pr_id ''d1'' (prs (cs_alert live_desk)) = Some (online_row 5 (Some ''c1'') None lobby)"
  by (simp_all add: live_desk_def desk_def sample_alerts_def sample_presence_def keys_ok_def sample_row_def mark_online_def update_where_def online_row_def)

definition unsigned_call :: webhook_request where
  "unsigned_call = \<lparr>wr_type = Some ''azure.webpubsub.sys.connected'', wr_connection = Some ''c9'', wr_user = Some ''d1'',
     wr_signature = Some ''sha256=bad'', wr_time = None, wr_body = None\<rparr>"

theorem webhook_needs_signature_witness:
  "events_receiver (\<lambda>k c. ''good'') (Some ''Endpoint=x;AccessKey=s3cret;'') desk_env (wps_deliver WPS_OK) unsigned_call desk = (401, desk)"
proof -
  have keys: "extract_access_keys (Some ''Endpoint=x;AccessKey=s3cret;'') = [''s3cret'']" by code_simp
  have "presented_digests (or_text (wr_signature unsigned_call)) = [''bad'']" by code_simp
  then have "snd (events_receiver (\<lambda>k c. ''good'') (Some ''Endpoint=x;AccessKey=s3cret;'') desk_env (wps_deliver WPS_OK) unsigned_call desk) = desk"
    using webhook_needs_signature [of "Some ''Endpoint=x;AccessKey=s3cret;''" unsigned_call "\<lambda>k c. ''good''"] keys by simp
  moreover have "fst (events_receiver (\<lambda>k c. ''good'') (Some ''Endpoint=x;AccessKey=s3cret;'') desk_env (wps_deliver WPS_OK) unsigned_call desk) = 401"
    using \<open>presented_digests _ = _\<close> keys by (simp add: events_receiver_def verify_signature_def unsigned_call_def or_text_def Let_def)
  ultimately show ?thesis by (metis prod.collapse)
qed

theorem stranger_takes_device_offline_witness:
  "is_online ''d1'' (presence_of live_desk)
   \<and> \<not> is_online ''d1'' (presence_of (snd (ws_finally (fst (snd (ws_handshake desk_env True 9 ''c2'' None None None
        [(''type'', JStr ''register''), (''device_id'', JStr ''d1''), (''protocol_version'', JInt 99)] ([], live_desk)))) ([], live_desk))))"
proof -
  let ?raw = "[(''type'', JStr ''register''), (''device_id'', JStr ''d1''), (''protocol_version'', JInt 99)]"
  have "text_field ''type'' ?raw = ''register''" "text_field ''device_id'' ?raw = ''d1''" "''d1'' \<noteq> ''''"
    "supported_protocol (get_default ''protocol_version'' (JInt 0) ?raw) = Inr False" "online (online_row 5 (Some ''c1'') None lobby)" "dict_ok []"
    by (simp_all add: text_field_def json_get_def get_default_def supported_protocol_def SUPPORTED_PROTOCOL_VERSIONS_def online_row_def dict_ok_def)
  from stranger_takes_device_offline [OF desk_found(4) this(5,6,1-4), of desk_env True 9 "''c2''" None None None]
  show ?thesis using desk_found(4) by (auto simp: is_online_def online_row_def)
qed

theorem status_events_exact_witness:
  "transition_log ''d1'' (snd (snd (dispatch_device_message desk_env (wps_deliver WPS_OK ''d1'') ''d1''
      [(''type'', JStr ''status''), (''error'', JStr ''no signal'')] \<lparr>cx_group = None, cx_group_name = '''', cx_name = '''', cx_status = '''', cx_received_at = None\<rparr>
      lobby desk_row desk))) = [(ERROR, JObj [(''error'', JStr ''no signal'')])]"
proof -
  let ?msg = "[(''type'', JStr ''status''), (''error'', JStr ''no signal'')]"
  let ?ctx = "\<lparr>cx_group = None, cx_group_name = '''', cx_name = '''', cx_status = '''', cx_received_at = None\<rparr>"
  have m: "text_field ''type'' ?msg = ''status''" "int_column (re_int_column (ie_register desk_env)) ''storage_used_mb'' ?msg (dv_used_mb desk_row) = Inr (dv_used_mb desk_row)"
    by (simp_all add: text_field_def json_get_def int_column_def)
  have e: "fresh_status desk_env lobby" "transition_log ''d1'' desk = []"
    by (simp_all add: fresh_status_def sample_presence_def transition_log_def desk_def sample_alerts_def)
  have d: "display_transition (display_connected lobby) (json_get ''display_connected'' ?msg) = None"
    "error_transition (device_error lobby) (json_get ''error'' ?msg) = Some (ERROR, JObj [(''error'', JStr ''no signal'')])"
    by (simp_all add: display_transition_def error_transition_def sample_presence_def json_get_def)
  show ?thesis
    using status_events_exact [OF desk_found(1,2) m(1) quiet_wps m(2), where ctx = ?ctx and out = "fst (dispatch_device_message desk_env (wps_deliver WPS_OK ''d1'') ''d1'' ?msg ?ctx lobby desk_row desk)"
      and ctx' = "fst (snd (dispatch_device_message desk_env (wps_deliver WPS_OK ''d1'') ''d1'' ?msg ?ctx lobby desk_row desk))"
      and st' = "snd (snd (dispatch_device_message desk_env (wps_deliver WPS_OK ''d1'') ''d1'' ?msg ?ctx lobby desk_row desk))"] e d
    by simp
qed

theorem fetch_agrees_with_slideshow_witness:
  "resolve_variant_or_source desk_env deck desk_row (deck_asset ''v1'' VIDEO None)
     = Some (''http://cms/api/assets/v1/download'', ''c-v1'', 0, ''video'')"
proof -
  have "resolve_source deck (dv_profile desk_row) (deck_asset ''v1'' VIDEO None)
      = Inr ((''v1'', ''/api/assets/v1/download'', ''c-v1'', None), [])" by code_simp
  moreover have "asset_type_of (deck_asset ''v1'' VIDEO None) \<noteq> COMPOSED" by (simp add: deck_asset_def)
  ultimately show ?thesis
    using fetch_agrees_with_slideshow [of "deck_asset ''v1'' VIDEO None" desk_env deck desk_row]
    by (simp add: desk_env_def or_value_def deck_asset_def)
qed

theorem upgrade_claim_release_exact_witness:
  "map_option (upgrade_started_at \<circ> dv_ota) (find_by dv_id ''d1'' (cs_devs (clear_upgrade_claim ''d1'' desk_row ''3'' ''1.0'' desk))) = Some None"
  using upgrade_claim_release_exact [OF desk_found(3), of "''d1''" desk_row "''3''" "''1.0''"]
  by (simp add: desk_def sample_row_def strip_def whitespace_def)

theorem claim_released_without_bump_witness:
  "map_option (upgrade_started_at \<circ> dv_ota) (find_by dv_id ''d1'' (cs_devs (clear_upgrade_claim ''d1'' desk_row '''' (strip (dv_firmware desk_row)) desk))) = Some None"
proof -
  have "upgrade_started_at (dv_ota desk_row) = Some 1" "strip (dv_os desk_row) \<noteq> ''''" "strip (dv_firmware desk_row) \<noteq> ''''"
    by (simp_all add: desk_def sample_row_def strip_def whitespace_def)
  from claim_released_without_bump [OF desk_found(3) this] show ?thesis by blast
qed

theorem register_delivers_working_key_witness:
  "\<exists>x. authenticate_device (re_sha256 sample_env) 77 ''d1'' (Some ''k1'') (cs_devs (snd (wps_register desk_env (wps_deliver WPS_OK ''d1'') ''d1'' ''c1''
     [(''auth_token'', JStr ''tok'')] lobby desk_row desk))) = Inr x"
proof -
  have run: "wps_register desk_env (wps_deliver WPS_OK ''d1'') ''d1'' ''c1'' [(''auth_token'', JStr ''tok'')] lobby desk_row desk
      = (204, snd (wps_register desk_env (wps_deliver WPS_OK ''d1'') ''d1'' ''c1'' [(''auth_token'', JStr ''tok'')] lobby desk_row desk))"
    by (simp add: prod_eq_iff) code_simp
  have hyps: "pr_status lobby = ''adopted''" "get_default ''auth_token'' (JStr '''') [(''auth_token'', JStr ''tok'')] = JStr ''tok''" "''tok'' \<noteq> ''''"
    "dv_auth_hash desk_row = Some (re_sha256 (ie_register desk_env) ''tok'')" "re_sha256 (ie_register desk_env) ''tok'' \<noteq> ''''" "ie_key desk_env \<noteq> ''''"
    by (simp_all add: desk_def desk_env_def sample_env_def sample_row_def sample_presence_def get_default_def)
  have "ie_register desk_env = sample_env" "ie_key desk_env = ''k1''" by (simp_all add: desk_env_def)
  then show ?thesis using register_delivers_working_key [OF desk_found(1,3) hyps(1-5) run hyps(6)] by metis
qed

end
