(* ===== verification/Accounts.thy ===== *)
theory Accounts
  imports Readiness Table Uuid
begin

text \<open>
  Users, roles, keys and what a request may do: \<^verbatim>\<open>cms/permissions.py\<close>, \<^verbatim>\<open>cms/auth.py\<close>, the tables of
  \<^verbatim>\<open>cms/models/user.py\<close> and \<^verbatim>\<open>cms/models/api_key.py\<close> and the routers \<^verbatim>\<open>users.py\<close>, \<^verbatim>\<open>roles.py\<close>,
  \<^verbatim>\<open>api_keys.py\<close> and \<^verbatim>\<open>mcp.py\<close>, with the sign-in pages of \<^verbatim>\<open>cms/ui.py\<close>. Parameters are the password
  hash of bcrypt, SHA-256, the signed cookies of itsdangerous and the random values of one request.
  Requests are those that pass the length checks of their schema; instants are microseconds.
\<close>

section \<open>Permissions\<close>

definition ALL_PERMISSIONS :: "string list" where
  "ALL_PERMISSIONS = [''devices:read'', ''devices:write'', ''devices:manage'', ''groups:read'', ''groups:write'', ''assets:read'',
     ''assets:write'', ''schedules:read'', ''schedules:write'', ''profiles:read'', ''profiles:write'', ''users:read'', ''users:write'',
     ''roles:read'', ''roles:write'', ''settings:read'', ''settings:write'', ''api_keys:read'', ''api_keys:write'', ''mcp_keys:self'',
     ''api_keys:self'', ''api_keys:manage'', ''logs:read'', ''logs:write'', ''audit:read'', ''notifications:system'', ''groups:view_all'',
     ''system:health'', ''imager:read'', ''imager:build'', ''imager:manage'', ''features:read'', ''features:write'']"

definition OPERATOR_PERMISSIONS :: "string list" where
  "OPERATOR_PERMISSIONS = [''devices:read'', ''devices:write'', ''groups:read'', ''groups:write'', ''assets:read'', ''assets:write'',
     ''schedules:read'', ''schedules:write'', ''profiles:read'', ''logs:read'', ''mcp_keys:self'']"

definition VIEWER_PERMISSIONS :: "string list" where
  "VIEWER_PERMISSIONS = [''devices:read'', ''groups:read'', ''assets:read'', ''schedules:read'', ''profiles:read'', ''logs:read'']"

definition has_permission :: "string list \<Rightarrow> string \<Rightarrow> bool" where
  "has_permission user_permissions required \<longleftrightarrow> required \<in> set user_permissions
     \<or> (required = ''devices:manage'' \<and> (''devices:reboot'' \<in> set user_permissions \<or> ''devices:delete'' \<in> set user_permissions))"

section \<open>Tables\<close>

record role =
  ro_id :: string
  ro_name :: string
  ro_description :: string
  ro_permissions :: "string list"
  ro_builtin :: bool

record user =
  us_id :: string
  us_username :: string
  us_email :: string
  us_display :: string
  us_password :: string
  us_role :: string
  us_active :: bool
  us_must_change :: bool
  us_last_login :: "int option"
  us_setup_token :: "string option"
  us_setup_at :: "int option"
  us_reset_token :: "string option"
  us_reset_at :: "int option"

record api_key_row =
  ak_id :: string
  ak_name :: string
  ak_prefix :: string
  ak_hash :: string
  ak_type :: string
  ak_user :: "string option"
  ak_used_at :: "int option"

record account_db =
  ac_roles :: "role list"
  ac_users :: "user list"
  ac_keys :: "api_key_row list"
  ac_user_groups :: "(string \<times> string) list"
  ac_groups :: "string list"
  ac_settings :: "(string, string) dict"
  ac_audit :: "(string option \<times> string \<times> string option) list"
  ac_notices :: "(string \<times> string) list"

text \<open>What a decoded cookie may hold: a dictionary with \<^verbatim>\<open>user_id\<close>, a plain string, anything else.\<close>

datatype cookie_data = Cookie_User string | Cookie_Name string | Cookie_Other

text \<open>\<^verbatim>\<open>serializer.loads(cookie, max_age)\<close>: the data, an expired signature (with whether its age was
  negative), or a bad one.\<close>

datatype cookie_outcome = Loaded cookie_data | Signature_Expired bool | Bad_Signature

record account_env =
  ae_now :: int
  ae_sha256 :: "string \<Rightarrow> string"
  ae_hash_password :: "string \<Rightarrow> string"
  ae_check_password :: "string \<Rightarrow> string \<Rightarrow> bool"
  ae_loads :: "string \<Rightarrow> cookie_outcome"
  ae_loads_any_age :: "string \<Rightarrow> cookie_data option"
  ae_fresh_id :: string
  ae_secret :: string
  ae_smtp_ready :: bool

record auth_request =
  rq_api_key :: "string option"
  rq_on_behalf_of :: "string option"
  rq_cookie :: "string option"
  rq_path :: string

definition SETUP_TOKEN_TTL :: int where "SETUP_TOKEN_TTL = 7 * 86400000000"

definition RESET_TOKEN_TTL :: int where "RESET_TOKEN_TTL = 3600000000"

definition normalize_email :: "string \<Rightarrow> string" where
  "normalize_email v = lower_text (strip v)"

definition token_is_expired :: "int \<Rightarrow> int \<Rightarrow> string option \<Rightarrow> int option \<Rightarrow> bool" where
  "token_is_expired ttl now token issued =
     (if \<not> truthy token then False else case issued of None \<Rightarrow> True | Some t \<Rightarrow> now > t + ttl)"

definition setup_token_is_expired :: "int \<Rightarrow> user \<Rightarrow> bool" where
  "setup_token_is_expired now u = token_is_expired SETUP_TOKEN_TTL now (us_setup_token u) (us_setup_at u)"

definition reset_token_is_expired :: "int \<Rightarrow> user \<Rightarrow> bool" where
  "reset_token_is_expired now u = token_is_expired RESET_TOKEN_TTL now (us_reset_token u) (us_reset_at u)"

section \<open>Who is calling\<close>

definition SERVICE_KEY_PREFIX :: string where "SERVICE_KEY_PREFIX = ''agora_svc_''"

definition hash_api_key :: "(string \<Rightarrow> string) \<Rightarrow> string \<Rightarrow> string" where
  "hash_api_key sha256 key = sha256 key"

definition role_of :: "account_db \<Rightarrow> user \<Rightarrow> role option" where
  "role_of db u = find_by ro_id (us_role u) (ac_roles db)"

definition permissions_of :: "account_db \<Rightarrow> user \<Rightarrow> string list" where
  "permissions_of db u = (case role_of db u of None \<Rightarrow> [] | Some r \<Rightarrow> ro_permissions r)"

text \<open>The active administrator with the smallest identifier.\<close>

definition first_admin :: "account_db \<Rightarrow> user option" where
  "first_admin db =
     (case sort_key us_id (filter (\<lambda>u. us_active u \<and> (case role_of db u of None \<Rightarrow> False | Some r \<Rightarrow> ro_name r = ''Admin'')) (ac_users db)) of
        [] \<Rightarrow> None | u # us \<Rightarrow> Some u)"

definition find_active :: "account_db \<Rightarrow> string \<Rightarrow> user option" where
  "find_active db uid = (case find_by us_id uid (ac_users db) of None \<Rightarrow> None | Some u \<Rightarrow> if us_active u then Some u else None)"

definition get_setting :: "account_db \<Rightarrow> string \<Rightarrow> string option" where
  "get_setting db k = map_of (ac_settings db) k"

definition set_setting :: "string \<Rightarrow> string \<Rightarrow> account_db \<Rightarrow> account_db" where
  "set_setting k v db = db\<lparr>ac_settings := dict_set k v (ac_settings db)\<rparr>"

definition delete_setting :: "string \<Rightarrow> account_db \<Rightarrow> account_db" where
  "delete_setting k db = db\<lparr>ac_settings := dict_pop k (ac_settings db)\<rparr>"

definition resolve_user_from_api_key ::
  "account_env \<Rightarrow> string \<Rightarrow> account_db \<Rightarrow> (user \<times> api_key_row) option \<times> account_db" where
  "resolve_user_from_api_key env key db =
     (let key_hash = hash_api_key (ae_sha256 env) key
      in case find_by ak_hash key_hash (ac_keys db) of
        None \<Rightarrow> (None, db)
      | Some k \<Rightarrow>
          let db' = db\<lparr>ac_keys := update_where (\<lambda>x. ak_hash x = key_hash) (\<lambda>x. x\<lparr>ak_used_at := Some (ae_now env)\<rparr>) (ac_keys db)\<rparr>;
              owner = (case ak_user k of None \<Rightarrow> None | Some uid \<Rightarrow> find_by us_id uid (ac_users db))
          in (case owner of
                Some u \<Rightarrow> (Some (u, k), db')
              | None \<Rightarrow> (case first_admin db' of None \<Rightarrow> (None, db') | Some a \<Rightarrow> (Some (a, k), db'))))"

definition resolve_user_from_session :: "account_env \<Rightarrow> string \<Rightarrow> account_db \<Rightarrow> user option" where
  "resolve_user_from_session env cookie db =
     (let data = (case ae_loads env cookie of Loaded d \<Rightarrow> Some d
            | Signature_Expired negative \<Rightarrow> if negative then ae_loads_any_age env cookie else None
            | Bad_Signature \<Rightarrow> None)
      in case data of
           None \<Rightarrow> None
         | Some (Cookie_User uid) \<Rightarrow> (case uuid_of_text uid of None \<Rightarrow> None | Some i \<Rightarrow> find_active db i)
         | Some (Cookie_Name n) \<Rightarrow> List.find (\<lambda>u. us_username u = n \<and> us_active u) (ac_users db)
         | Some Cookie_Other \<Rightarrow> None)"

definition unauthorized :: "string \<Rightarrow> api_error" where "unauthorized detail = HTTPException 401 detail"

definition forbidden :: "string \<Rightarrow> api_error" where "forbidden detail = HTTPException 403 detail"

text \<open>The service key: on behalf of a user, or as an administrator.\<close>

definition service_user :: "account_env \<Rightarrow> string \<Rightarrow> string option \<Rightarrow> account_db \<Rightarrow> api_error + user" where
  "service_user env key on_behalf_of db =
     (let stored = get_setting db ''mcp_service_key_hash''
      in if truthy stored \<and> Some (hash_api_key (ae_sha256 env) key) = stored
         then (case uuid_of_text (case on_behalf_of of None \<Rightarrow> ''MCP Service'' | Some s \<Rightarrow> s) of
             Some uid \<Rightarrow> (case find_active db uid of None \<Rightarrow> Inl (forbidden ''On-behalf-of user not found or inactive'') | Some u \<Rightarrow> Inr u)
           | None \<Rightarrow> (case first_admin db of None \<Rightarrow> Inl (HTTPException 503 ''No admin user available for service key'') | Some u \<Rightarrow> Inr u))
         else Inl (unauthorized ''Invalid service key''))"

definition get_current_user :: "account_env \<Rightarrow> auth_request \<Rightarrow> account_db \<Rightarrow> (api_error + user) \<times> account_db" where
  "get_current_user env req db =
     (if truthy (rq_api_key req)
      then let key = the (rq_api_key req)
           in if take (length SERVICE_KEY_PREFIX) key = SERVICE_KEY_PREFIX then (service_user env key (rq_on_behalf_of req) db, db)
              else (case resolve_user_from_api_key env key db of
                  (None, db') \<Rightarrow> (Inl (unauthorized ''Unauthorized''), db')
                | (Some (u, k), db') \<Rightarrow>
                    (if ak_type k = ''mcp'' then Inl (forbidden ''MCP keys cannot access the REST API directly. Use an API key or the MCP server.'')
                     else Inr u, db'))
      else if truthy (rq_cookie req)
      then (case resolve_user_from_session env (the (rq_cookie req)) db of
          Some u \<Rightarrow> (Inr u, db) | None \<Rightarrow> (Inl (unauthorized ''Unauthorized''), db))
      else (Inl (unauthorized ''Unauthorized''), db))"

definition PASSWORD_CHANGE_EXEMPT_PATHS :: "string list" where
  "PASSWORD_CHANGE_EXEMPT_PATHS = [''/force-password-change'', ''/api/users/me/password'', ''/logout'']"

definition require_auth :: "account_env \<Rightarrow> auth_request \<Rightarrow> account_db \<Rightarrow> (api_error + user) \<times> account_db" where
  "require_auth env req db =
     (case get_current_user env req db of
        (Inl e, db') \<Rightarrow> (Inl e, db')
      | (Inr u, db') \<Rightarrow> (if us_must_change u \<and> rq_path req \<notin> set PASSWORD_CHANGE_EXEMPT_PATHS
          then Inl (HTTPException 307 ''/force-password-change'') else Inr u, db'))"

fun missing_permission :: "string list \<Rightarrow> string list \<Rightarrow> string option" where
  "missing_permission held [] = None"
| "missing_permission held (p # ps) = (if has_permission held p then missing_permission held ps else Some p)"

definition require_permission ::
  "account_env \<Rightarrow> string list \<Rightarrow> auth_request \<Rightarrow> account_db \<Rightarrow> (api_error + user) \<times> account_db" where
  "require_permission env perms req db =
     (case get_current_user env req db of
        (Inl e, db') \<Rightarrow> (Inl e, db')
      | (Inr u, db') \<Rightarrow>
          (case role_of db' u of
             None \<Rightarrow> (Inl (forbidden ''No role assigned''), db')
           | Some r \<Rightarrow> (case missing_permission (ro_permissions r) perms of
               Some p \<Rightarrow> (Inl (forbidden (''Missing permission: '' @ p)), db') | None \<Rightarrow> (Inr u, db'))))"

section \<open>Group scope\<close>

definition get_user_group_ids :: "user \<Rightarrow> account_db \<Rightarrow> api_error + string list option" where
  "get_user_group_ids u db =
     (case role_of db u of
        None \<Rightarrow> Inl (Uncaught (TypeError ''NoneType''))
      | Some r \<Rightarrow> Inr (if ''groups:view_all'' \<in> set (ro_permissions r) then None
          else Some (map snd (filter (\<lambda>(uid, g). uid = us_id u) (ac_user_groups db)))))"

definition build_group_read_scope_clause :: "string list option \<Rightarrow> string option \<Rightarrow> bool" where
  "build_group_read_scope_clause group_ids column =
     (case group_ids of None \<Rightarrow> True
      | Some gs \<Rightarrow> if gs \<noteq> [] then (case column of None \<Rightarrow> True | Some g \<Rightarrow> g \<in> set gs) else column = None)"

definition build_group_snapshot_read_scope_clause :: "string list option \<Rightarrow> string option \<Rightarrow> string list option \<Rightarrow> bool" where
  "build_group_snapshot_read_scope_clause group_ids legacy snapshot =
     (case group_ids of None \<Rightarrow> True
      | Some gs \<Rightarrow> if gs \<noteq> [] then (case legacy of None \<Rightarrow> False | Some g \<Rightarrow> g \<in> set gs)
            \<or> (case snapshot of None \<Rightarrow> False | Some ss \<Rightarrow> set ss \<inter> set gs \<noteq> {})
          else legacy = None \<and> (snapshot = None \<or> snapshot = Some []))"

definition verify_resource_group_access :: "user \<Rightarrow> account_db \<Rightarrow> string list \<Rightarrow> api_error option" where
  "verify_resource_group_access u db scope =
     (if scope = [] then None
      else case get_user_group_ids u db of
        Inl e \<Rightarrow> Some e
      | Inr None \<Rightarrow> None
      | Inr (Some gs) \<Rightarrow> if set scope \<inter> set gs = {} then Some (forbidden ''Access denied: resource is outside your assigned groups'') else None)"

definition assert_authority_over_group_set :: "user \<Rightarrow> account_db \<Rightarrow> string list \<Rightarrow> api_error option" where
  "assert_authority_over_group_set u db scope =
     (if scope = [] then None
      else case get_user_group_ids u db of
        Inl e \<Rightarrow> Some e
      | Inr None \<Rightarrow> None
      | Inr (Some gs) \<Rightarrow> if set scope \<subseteq> set gs then None
          else Some (forbidden ''Access denied: one or more target groups are outside your assigned groups''))"

definition can_manage_group_membership :: "user \<Rightarrow> account_db \<Rightarrow> string \<Rightarrow> bool" where
  "can_manage_group_membership u db g \<longleftrightarrow>
     (case role_of db u of None \<Rightarrow> False
      | Some r \<Rightarrow> list_all (has_permission (ro_permissions r)) [''devices:write'', ''schedules:read'', ''schedules:write'']
          \<and> assert_authority_over_group_set u db [g] = None)"

definition compute_effective_permissions :: "user \<Rightarrow> string \<Rightarrow> account_db \<Rightarrow> string set" where
  "compute_effective_permissions u key_type db =
     (let user_perms = set (permissions_of db u);
          role_id = get_setting db (if key_type = ''mcp'' then ''mcp_role_id'' else ''api_role_id'')
      in if \<not> truthy role_id then user_perms
         else case uuid_of_text (the role_id) of
           None \<Rightarrow> user_perms
         | Some rid \<Rightarrow> (case find_by ro_id rid (ac_roles db) of
             None \<Rightarrow> user_perms | Some limit \<Rightarrow> user_perms \<inter> set (ro_permissions limit)))"

text \<open>\<^verbatim>\<open>GET /api/mcp/auth\<close>: the user and the permissions reported to the MCP server.\<close>

definition bearer_token :: "string \<Rightarrow> string" where
  "bearer_token header = strip (if take 7 header = ''Bearer '' then drop 7 header else header)"

definition verify_mcp_token ::
  "account_env \<Rightarrow> string \<Rightarrow> string option \<Rightarrow> account_db \<Rightarrow> (api_error + (user \<times> string set)) \<times> account_db" where
  "verify_mcp_token env authorization on_behalf_of db =
     (let token = bearer_token authorization
      in if token = '''' then (Inl (unauthorized ''Missing bearer token''), db)
         else if get_setting db ''mcp_enabled'' \<noteq> Some ''true'' then (Inl (forbidden ''MCP server is disabled''), db)
         else if take (length SERVICE_KEY_PREFIX) token = SERVICE_KEY_PREFIX
         then (if \<not> truthy (get_setting db ''mcp_service_key_hash'')
                 \<or> Some (hash_api_key (ae_sha256 env) token) \<noteq> get_setting db ''mcp_service_key_hash''
               then Inl (unauthorized ''Invalid service key'')
               else if \<not> truthy on_behalf_of then Inl (HTTPException 400 ''Service-key auth requires the X-On-Behalf-Of header.'')
               else case uuid_of_text (the on_behalf_of) of
                   None \<Rightarrow> Inl (HTTPException 400 ''X-On-Behalf-Of must be a valid user UUID'')
                 | Some uid \<Rightarrow> (case find_by us_id uid (ac_users db) of
                     None \<Rightarrow> Inl (HTTPException 404 ''On-behalf-of user not found'')
                   | Some u \<Rightarrow> if us_active u then Inr (u, compute_effective_permissions u ''mcp'' db)
                       else Inl (forbidden ''On-behalf-of user is disabled'')), db)
         else (case resolve_user_from_api_key env token db of
             (None, db') \<Rightarrow> (Inl (unauthorized ''Invalid API key''), db')
           | (Some (u, k), db') \<Rightarrow>
               (if ak_type k \<noteq> ''mcp'' then Inl (forbidden ''Only MCP keys can be used with the MCP server. Create an MCP key in your profile.'')
                else if \<not> us_active u then Inl (forbidden ''User account is disabled'')
                else Inr (u, compute_effective_permissions u ''mcp'' db'), db')))"

section \<open>Administration\<close>

definition audit_account :: "user option \<Rightarrow> string \<Rightarrow> string option \<Rightarrow> account_db \<Rightarrow> account_db" where
  "audit_account actor action resource db = db\<lparr>ac_audit := ac_audit db @ [(map_option us_id actor, action, resource)]\<rparr>"

definition set_user :: "string \<Rightarrow> (user \<Rightarrow> user) \<Rightarrow> account_db \<Rightarrow> account_db" where
  "set_user uid f db = db\<lparr>ac_users := update_where (\<lambda>u. us_id u = uid) f (ac_users db)\<rparr>"

subsection \<open>Users\<close>

record user_create =
  uc_email :: string
  uc_display :: string
  uc_password :: "string option"
  uc_role :: string
  uc_groups :: "string list"

definition email_taken :: "string \<Rightarrow> string option \<Rightarrow> account_db \<Rightarrow> bool" where
  "email_taken email but db \<longleftrightarrow> (\<exists>u \<in> set (ac_users db). lower_text (us_email u) = email \<and> Some (us_id u) \<noteq> but)"

text \<open>The loop for a free username: the local part of the address, then numbered from 1.\<close>

definition username_for :: "string \<Rightarrow> account_db \<Rightarrow> string option" where
  "username_for email db =
     (let base = takeWhile (\<lambda>c. c \<noteq> CHR ''@'') email; used = map (lower_text \<circ> us_username) (ac_users db)
      in if base \<notin> set used then Some base else first_free (Suc (length used)) (\<lambda>n. base @ int_text n) used 1)"

text \<open>The membership rows violate their keys when a group is unknown or repeated.\<close>

definition groups_ok :: "string list \<Rightarrow> account_db \<Rightarrow> bool" where
  "groups_ok gs db \<longleftrightarrow> distinct gs \<and> set gs \<subseteq> set (ac_groups db)"

definition integrity_error :: api_error where "integrity_error = Uncaught (ValueError ''IntegrityError'')"

definition create_user :: "account_env \<Rightarrow> user \<Rightarrow> user_create \<Rightarrow> account_db \<Rightarrow> api_error + account_db" where
  "create_user env actor data db =
     (let email = normalize_email (uc_email data)
      in if \<not> ae_smtp_ready env then Inl (HTTPException 422 ''SMTP is not configured'')
         else if email_taken email None db then Inl (HTTPException 409 ''Email already exists'')
         else if find_by ro_id (uc_role data) (ac_roles db) = None then Inl (HTTPException 422 ''Role not found'')
         else case username_for email db of
           None \<Rightarrow> Inl integrity_error
         | Some name \<Rightarrow>
             if \<not> groups_ok (uc_groups data) db then Inl integrity_error
             else Inr (audit_account (Some actor) ''user.create'' (Some (ae_fresh_id env))
               (db\<lparr>ac_users := insert_row \<lparr>us_id = ae_fresh_id env, us_username = name, us_email = email, us_display = uc_display data,
                  us_password = ae_hash_password env (if truthy (uc_password data) then the (uc_password data) else ae_secret env),
                  us_role = uc_role data, us_active = True, us_must_change = True, us_last_login = None,
                  us_setup_token = Some (ae_secret env), us_setup_at = Some (ae_now env), us_reset_token = None, us_reset_at = None\<rparr> (ac_users db),
                 ac_user_groups := ac_user_groups db @ map (Pair (ae_fresh_id env)) (uc_groups data)\<rparr>)))"

record user_update =
  uu_email :: "string option"
  uu_display :: "string option"
  uu_password :: "string option"
  uu_role :: "string option"
  uu_active :: "bool option"
  uu_must_change :: "bool option"
  uu_groups :: "string list option"

definition opt :: "'a option \<Rightarrow> 'a \<Rightarrow> 'a" where "opt v old = (case v of None \<Rightarrow> old | Some x \<Rightarrow> x)"

definition changed_user :: "account_env \<Rightarrow> user_update \<Rightarrow> user \<Rightarrow> user" where
  "changed_user env data u = u\<lparr>us_email := opt (map_option normalize_email (uu_email data)) (us_email u),
     us_display := opt (uu_display data) (us_display u),
     us_password := opt (map_option (ae_hash_password env) (uu_password data)) (us_password u),
     us_role := opt (uu_role data) (us_role u), us_active := opt (uu_active data) (us_active u),
     us_must_change := opt (uu_must_change data) (us_must_change u)\<rparr>"

definition update_user :: "account_env \<Rightarrow> user \<Rightarrow> string \<Rightarrow> user_update \<Rightarrow> account_db \<Rightarrow> api_error + account_db" where
  "update_user env actor uid data db =
     (case find_by us_id uid (ac_users db) of
        None \<Rightarrow> Inl (HTTPException 404 ''User not found'')
      | Some u \<Rightarrow>
          if uu_email data \<noteq> None \<and> email_taken (normalize_email (the (uu_email data))) (Some uid) db
          then Inl (HTTPException 409 ''Email already exists'')
          else if uu_role data \<noteq> None \<and> find_by ro_id (the (uu_role data)) (ac_roles db) = None then Inl (HTTPException 422 ''Role not found'')
          else if uu_groups data \<noteq> None \<and> \<not> groups_ok (the (uu_groups data)) db then Inl integrity_error
          else Inr (audit_account (Some actor) ''user.update'' (Some uid)
            ((set_user uid (changed_user env data) db)\<lparr>ac_user_groups :=
               (case uu_groups data of None \<Rightarrow> ac_user_groups db
                | Some gs \<Rightarrow> filter (\<lambda>(x, g). x \<noteq> uid) (ac_user_groups db) @ map (Pair uid) gs)\<rparr>)))"

text \<open>Deleting a user: the foreign key of its API keys is \<^verbatim>\<open>ON DELETE SET NULL\<close>.\<close>

definition delete_user :: "user \<Rightarrow> string \<Rightarrow> account_db \<Rightarrow> api_error + account_db" where
  "delete_user actor uid db =
     (case find_by us_id uid (ac_users db) of
        None \<Rightarrow> Inl (HTTPException 404 ''User not found'')
      | Some u \<Rightarrow>
          if us_id u = us_id actor then Inl (HTTPException 400 ''Cannot delete your own account'')
          else Inr (audit_account (Some actor) ''user.delete'' (Some uid)
            (db\<lparr>ac_user_groups := filter (\<lambda>(x, g). x \<noteq> uid) (ac_user_groups db),
               ac_users := delete_where (\<lambda>x. us_id x = uid) (ac_users db),
               ac_keys := update_where (\<lambda>k. ak_user k = Some uid) (\<lambda>k. k\<lparr>ak_user := None\<rparr>) (ac_keys db)\<rparr>)))"

definition resend_invite :: "account_env \<Rightarrow> string \<Rightarrow> account_db \<Rightarrow> api_error + account_db" where
  "resend_invite env uid db =
     (case find_by us_id uid (ac_users db) of
        None \<Rightarrow> Inl (HTTPException 404 ''User not found'')
      | Some u \<Rightarrow>
          if \<not> us_must_change u then Inl (HTTPException 400 ''User has already completed account setup'')
          else if \<not> ae_smtp_ready env then Inl (HTTPException 422 ''SMTP is not configured'')
          else Inr (set_user uid (\<lambda>x. x\<lparr>us_setup_token := Some (ae_secret env), us_setup_at := Some (ae_now env)\<rparr>) db))"

subsection \<open>Roles\<close>

definition create_role :: "account_env \<Rightarrow> user \<Rightarrow> string \<Rightarrow> string \<Rightarrow> string list \<Rightarrow> account_db \<Rightarrow> api_error + account_db" where
  "create_role env actor name description perms db =
     (if \<not> set perms \<subseteq> set ALL_PERMISSIONS then Inl (HTTPException 422 ''Invalid permissions'')
      else if find_by ro_name name (ac_roles db) \<noteq> None then Inl (HTTPException 409 ''Role name already exists'')
      else Inr (audit_account (Some actor) ''role.create'' (Some (ae_fresh_id env))
        (db\<lparr>ac_roles := insert_row \<lparr>ro_id = ae_fresh_id env, ro_name = name, ro_description = description, ro_permissions = perms,
           ro_builtin = False\<rparr> (ac_roles db)\<rparr>)))"

definition update_role ::
  "user \<Rightarrow> string \<Rightarrow> string option \<Rightarrow> string option \<Rightarrow> string list option \<Rightarrow> account_db \<Rightarrow> api_error + account_db" where
  "update_role actor rid name description perms db =
     (case find_by ro_id rid (ac_roles db) of
        None \<Rightarrow> Inl (HTTPException 404 ''Role not found'')
      | Some r \<Rightarrow>
          if perms \<noteq> None \<and> \<not> set (the perms) \<subseteq> set ALL_PERMISSIONS then Inl (HTTPException 422 ''Invalid permissions'')
          else if name \<noteq> None \<and> (\<exists>x \<in> set (ac_roles db). ro_name x = the name \<and> ro_id x \<noteq> rid) then Inl (HTTPException 409 ''Role name already exists'')
          else Inr (audit_account (Some actor) ''role.update'' (Some rid)
            (db\<lparr>ac_roles := update_where (\<lambda>x. ro_id x = rid) (\<lambda>x. x\<lparr>ro_name := opt name (ro_name x),
               ro_description := opt description (ro_description x), ro_permissions := opt perms (ro_permissions x)\<rparr>) (ac_roles db)\<rparr>)))"

definition delete_role :: "user \<Rightarrow> string \<Rightarrow> account_db \<Rightarrow> api_error + account_db" where
  "delete_role actor rid db =
     (case find_by ro_id rid (ac_roles db) of
        None \<Rightarrow> Inl (HTTPException 404 ''Role not found'')
      | Some r \<Rightarrow>
          if ro_builtin r then Inl (HTTPException 400 ''Cannot delete built-in roles'')
          else if filter (\<lambda>u. us_role u = rid) (ac_users db) \<noteq> [] then Inl (HTTPException 409 ''Cannot delete role with assigned users'')
          else Inr (audit_account (Some actor) ''role.delete'' (Some rid)
            (db\<lparr>ac_roles := delete_where (\<lambda>x. ro_id x = rid) (ac_roles db)\<rparr>)))"

subsection \<open>API keys\<close>

definition require_self_permission :: "user \<Rightarrow> string \<Rightarrow> account_db \<Rightarrow> api_error option" where
  "require_self_permission u key_type db =
     (if key_type = ''mcp'' \<and> ''mcp_keys:self'' \<notin> set (permissions_of db u) then Some (forbidden ''You do not have permission to manage MCP keys'')
      else if key_type = ''api'' \<and> ''api_keys:self'' \<notin> set (permissions_of db u) then Some (forbidden ''You do not have permission to manage API keys'')
      else None)"

text \<open>The secret is the prefix \<^verbatim>\<open>agora_\<close> and the random part.\<close>

definition raw_key :: "account_env \<Rightarrow> string" where "raw_key env = ''agora_'' @ ae_secret env"

definition add_key :: "account_env \<Rightarrow> user \<Rightarrow> string \<Rightarrow> string \<Rightarrow> account_db \<Rightarrow> account_db" where
  "add_key env owner name key_type db = db\<lparr>ac_keys := insert_row \<lparr>ak_id = ae_fresh_id env, ak_name = strip name,
     ak_prefix = take 12 (raw_key env) @ ''...'', ak_hash = hash_api_key (ae_sha256 env) (raw_key env), ak_type = key_type,
     ak_user = Some (us_id owner), ak_used_at = None\<rparr> (ac_keys db)\<rparr>"

definition check_new_key :: "string \<Rightarrow> string \<Rightarrow> api_error option" where
  "check_new_key name key_type =
     (if key_type \<noteq> ''mcp'' \<and> key_type \<noteq> ''api'' then Some (HTTPException 422 (''Invalid key type: '' @ key_type))
      else if strip name = '''' then Some (HTTPException 422 ''Name is required'') else None)"

definition create_my_key :: "account_env \<Rightarrow> user \<Rightarrow> string \<Rightarrow> string \<Rightarrow> account_db \<Rightarrow> api_error + (string \<times> account_db)" where
  "create_my_key env u name key_type db =
     (case check_new_key name key_type of
        Some e \<Rightarrow> Inl e
      | None \<Rightarrow> (case require_self_permission u key_type db of Some e \<Rightarrow> Inl e
          | None \<Rightarrow> Inr (raw_key env, add_key env u name key_type db)))"

definition create_api_key :: "account_env \<Rightarrow> user \<Rightarrow> string \<Rightarrow> string \<Rightarrow> account_db \<Rightarrow> api_error + (string \<times> account_db)" where
  "create_api_key env u name key_type db =
     (case check_new_key name key_type of Some e \<Rightarrow> Inl e | None \<Rightarrow> Inr (raw_key env, add_key env u name key_type db))"

definition new_secret :: "account_env \<Rightarrow> string \<Rightarrow> account_db \<Rightarrow> account_db" where
  "new_secret env kid db = db\<lparr>ac_keys := update_where (\<lambda>k. ak_id k = kid)
     (\<lambda>k. k\<lparr>ak_hash := hash_api_key (ae_sha256 env) (raw_key env), ak_prefix := take 12 (raw_key env) @ ''...''\<rparr>) (ac_keys db)\<rparr>"

definition own_key :: "user \<Rightarrow> string \<Rightarrow> account_db \<Rightarrow> api_error + api_key_row" where
  "own_key u kid db =
     (case find_by ak_id kid (ac_keys db) of
        None \<Rightarrow> Inl (HTTPException 404 ''Key not found'')
      | Some k \<Rightarrow> if ak_user k \<noteq> Some (us_id u) then Inl (HTTPException 404 ''Key not found'')
          else (case require_self_permission u (ak_type k) db of Some e \<Rightarrow> Inl e | None \<Rightarrow> Inr k))"

definition regenerate_my_key :: "account_env \<Rightarrow> user \<Rightarrow> string \<Rightarrow> account_db \<Rightarrow> api_error + (string \<times> account_db)" where
  "regenerate_my_key env u kid db = result_bind (own_key u kid db) (\<lambda>k. Inr (raw_key env, new_secret env kid db))"

definition remove_key :: "string \<Rightarrow> account_db \<Rightarrow> account_db" where
  "remove_key kid db = db\<lparr>ac_keys := delete_where (\<lambda>k. ak_id k = kid) (ac_keys db)\<rparr>"

definition delete_my_key :: "user \<Rightarrow> string \<Rightarrow> account_db \<Rightarrow> api_error + account_db" where
  "delete_my_key u kid db = result_bind (own_key u kid db) (\<lambda>k. Inr (remove_key kid db))"

definition notify_owner :: "user \<Rightarrow> api_key_row \<Rightarrow> string \<Rightarrow> account_db \<Rightarrow> account_db" where
  "notify_owner actor k title db =
     (case ak_user k of None \<Rightarrow> db | Some owner \<Rightarrow> if owner = us_id actor then db else db\<lparr>ac_notices := ac_notices db @ [(owner, title)]\<rparr>)"

definition regenerate_api_key :: "account_env \<Rightarrow> user \<Rightarrow> string \<Rightarrow> account_db \<Rightarrow> api_error + (string \<times> account_db)" where
  "regenerate_api_key env actor kid db =
     (case find_by ak_id kid (ac_keys db) of
        None \<Rightarrow> Inl (HTTPException 404 ''API key not found'')
      | Some k \<Rightarrow> Inr (raw_key env, notify_owner actor k ''API key regenerated''
          (audit_account (Some actor) ''api_key.regenerate'' (Some kid) (new_secret env kid db))))"

definition delete_api_key :: "user \<Rightarrow> string \<Rightarrow> account_db \<Rightarrow> api_error + account_db" where
  "delete_api_key actor kid db =
     (case find_by ak_id kid (ac_keys db) of
        None \<Rightarrow> Inl (HTTPException 404 ''API key not found'')
      | Some k \<Rightarrow> Inr (notify_owner actor k ''API key revoked'' (audit_account (Some actor) ''api_key.revoke'' (Some kid) (remove_key kid db))))"

definition provision_service_key :: "account_env \<Rightarrow> account_db \<Rightarrow> string \<times> account_db" where
  "provision_service_key env db =
     (let key = SERVICE_KEY_PREFIX @ ae_secret env in (key, set_setting ''mcp_service_key_hash'' (hash_api_key (ae_sha256 env) key) db))"

definition revoke_service_key :: "account_db \<Rightarrow> account_db" where
  "revoke_service_key db = delete_setting ''mcp_service_key_hash'' db"

section \<open>Signing in\<close>

definition change_my_password :: "account_env \<Rightarrow> user \<Rightarrow> string \<Rightarrow> string \<Rightarrow> account_db \<Rightarrow> api_error + account_db" where
  "change_my_password env u current_pw new_pw db =
     (if \<not> ae_check_password env current_pw (us_password u) then Inl (HTTPException 400 ''Current password is incorrect'')
      else Inr (set_user (us_id u) (\<lambda>x. x\<lparr>us_password := ae_hash_password env new_pw, us_must_change := False, us_setup_token := None,
        us_setup_at := None, us_last_login := (if us_must_change u then Some (ae_now env) else us_last_login x)\<rparr>) db))"

datatype page = Redirect string | Login_Error int string | Login_Notice | Form_Error string | Sent_Page | Too_Many

text \<open>A page and the session cookie it sets, if any: the identifier of the user in it.\<close>

definition login_submit :: "account_env \<Rightarrow> string \<Rightarrow> string \<Rightarrow> account_db \<Rightarrow> (page \<times> string option) \<times> account_db" where
  "login_submit env login_id password db =
     (let key = lower_text (strip login_id);
          found = List.find (\<lambda>u. lower_text (us_email u) = key \<or> lower_text (us_username u) = key) (ac_users db);
          failed = (\<lambda>u. ((Login_Error 401 ''Invalid credentials'', None), audit_account u ''auth.login_failed'' (map_option us_id u) db))
      in case found of
           None \<Rightarrow> failed None
         | Some u \<Rightarrow>
             if \<not> us_active u \<or> \<not> ae_check_password env password (us_password u) then failed (Some u)
             else ((Redirect (if us_must_change u then ''/force-password-change'' else ''/''), Some (us_id u)),
               set_user (us_id u) (\<lambda>x. x\<lparr>us_last_login := Some (ae_now env)\<rparr>) db))"

definition setup_account :: "account_env \<Rightarrow> string \<Rightarrow> account_db \<Rightarrow> page \<times> string option" where
  "setup_account env token db =
     (case List.find (\<lambda>u. us_setup_token u = Some token \<and> us_active u) (ac_users db) of
        None \<Rightarrow> (Login_Error 400 ''This setup link is invalid or has already been used. Please sign in with your credentials.'', None)
      | Some u \<Rightarrow> if setup_token_is_expired (ae_now env) u
          then (Login_Error 400 ''This setup link has expired. Please ask an administrator to resend your invitation.'', None)
          else (Redirect ''/force-password-change'', Some (us_id u)))"

text \<open>\<open>allowed\<close> is the answer of the rate limiter, a bucket like the one of the bootstrap endpoints.\<close>

definition forgot_password_submit :: "account_env \<Rightarrow> bool \<Rightarrow> string \<Rightarrow> account_db \<Rightarrow> page \<times> account_db" where
  "forgot_password_submit env allowed email db =
     (if \<not> allowed then (Too_Many, db)
      else case List.find (\<lambda>u. lower_text (us_email u) = lower_text (strip email)) (ac_users db) of
        None \<Rightarrow> (Sent_Page, db)
      | Some u \<Rightarrow> (Sent_Page, if us_active u \<and> ae_smtp_ready env
          then audit_account (Some u) ''auth.password_reset_requested'' (Some (us_id u))
            (set_user (us_id u) (\<lambda>x. x\<lparr>us_reset_token := Some (ae_secret env), us_reset_at := Some (ae_now env)\<rparr>) db)
          else db))"

definition reset_link_user :: "int \<Rightarrow> string \<Rightarrow> account_db \<Rightarrow> user option" where
  "reset_link_user now token db =
     (case List.find (\<lambda>u. us_reset_token u = Some token) (ac_users db) of
        None \<Rightarrow> None | Some u \<Rightarrow> if us_active u \<and> \<not> reset_token_is_expired now u then Some u else None)"

definition invalid_link :: page where
  "invalid_link = Login_Error 400 ''This password-reset link is invalid or has expired. Please request a new one.''"

definition reset_password_submit :: "account_env \<Rightarrow> string \<Rightarrow> string \<Rightarrow> string \<Rightarrow> account_db \<Rightarrow> page \<times> account_db" where
  "reset_password_submit env token new_pw confirm db =
     (case reset_link_user (ae_now env) token db of
        None \<Rightarrow> (invalid_link, db)
      | Some u \<Rightarrow>
          if length new_pw < 6 then (Form_Error ''Password must be at least 6 characters'', db)
          else if new_pw \<noteq> confirm then (Form_Error ''Passwords do not match'', db)
          else (Login_Notice, audit_account (Some u) ''auth.password_reset_completed'' (Some (us_id u))
            (set_user (us_id u) (\<lambda>x. x\<lparr>us_password := ae_hash_password env new_pw, us_reset_token := None, us_reset_at := None,
               us_must_change := False, us_setup_token := None, us_setup_at := None\<rparr>) db)))"

definition force_password_change_submit :: "account_env \<Rightarrow> string option \<Rightarrow> string \<Rightarrow> string \<Rightarrow> account_db \<Rightarrow> page \<times> account_db" where
  "force_password_change_submit env cookie new_pw confirm db =
     (case (if truthy cookie then resolve_user_from_session env (the cookie) db else None) of
        None \<Rightarrow> (Redirect ''/login'', db)
      | Some u \<Rightarrow>
          if length new_pw < 6 then (Form_Error ''Password must be at least 6 characters'', db)
          else if new_pw \<noteq> confirm then (Form_Error ''Passwords do not match'', db)
          else (Redirect ''/'', set_user (us_id u) (\<lambda>x. x\<lparr>us_password := ae_hash_password env new_pw, us_must_change := False,
            us_setup_token := None, us_setup_at := None, us_last_login := Some (ae_now env)\<rparr>) db))"

text \<open>The administrator seeded at start: created from the environment, or re-credentialed when asked.\<close>

definition ensure_admin_credentials ::
  "account_env \<Rightarrow> string \<Rightarrow> string \<Rightarrow> string \<Rightarrow> bool \<Rightarrow> account_db \<Rightarrow> account_db" where
  "ensure_admin_credentials env admin_username admin_email admin_password reset_password db =
     (case find_by ro_name ''Admin'' (ac_roles db) of
        None \<Rightarrow> db
      | Some r \<Rightarrow>
          let mirror = (\<lambda>u. set_setting ''admin_username'' (us_username u) \<circ> set_setting ''admin_password_hash'' (us_password u))
          in case find_by us_username admin_username (ac_users db) of
            None \<Rightarrow>
              (let u = \<lparr>us_id = ae_fresh_id env, us_username = admin_username, us_email = normalize_email admin_email,
                     us_display = ''Administrator'', us_password = ae_hash_password env admin_password, us_role = ro_id r, us_active = True,
                     us_must_change = False, us_last_login = None, us_setup_token = None, us_setup_at = None, us_reset_token = None, us_reset_at = None\<rparr>;
                   db1 = db\<lparr>ac_users := insert_row u (ac_users db)\<rparr>
               in mirror u (if get_setting db ''setup_completed'' = None then set_setting ''setup_completed'' ''false'' db1 else db1))
          | Some u \<Rightarrow>
              (let f = (\<lambda>x. x\<lparr>us_email := (if us_email x = '''' then normalize_email admin_email else us_email x),
                     us_password := (if reset_password then ae_hash_password env admin_password else us_password x)\<rparr>)
               in mirror (f u) (set_user (us_id u) f db)))"

section \<open>Lemmas\<close>

definition user_writes :: "(user \<Rightarrow> user) set" where
  "user_writes = {f. \<forall>u. us_id (f u) = us_id u}"

interpretation user_rows: keyed_table us_id user_writes
  by unfold_locales (simp add: user_writes_def)

definition role_writes :: "(role \<Rightarrow> role) set" where
  "role_writes = {f. \<forall>r. ro_id (f r) = ro_id r}"

interpretation role_rows: keyed_table ro_id role_writes
  by unfold_locales (simp add: role_writes_def)

lemma normalize_email_lower [simp]: "lower_text (normalize_email e) = normalize_email e"
  by (simp add: normalize_email_def)

text \<open>The loop for a username ends with a name that is free up to case.\<close>

lemma username_free:
  assumes "lower_text email = email"
  shows "\<exists>x. username_for email db = Some x \<and> lower_text x = x \<and> x \<notin> (lower_text \<circ> us_username) ` set (ac_users db)"
proof -
  let ?base = "takeWhile (\<lambda>c. c \<noteq> CHR ''@'') email" and ?used = "map (lower_text \<circ> us_username) (ac_users db)"
  have base: "lower_text ?base = ?base" by (rule lower_text_takeWhile [OF assms])
  have inj: "(i :: int) = j" if "1 \<le> i" "1 \<le> j" "?base @ int_text i = ?base @ int_text j" for i j
    using that int_text_inject [of i j] by simp
  have numbered: "first_free fuel (\<lambda>n. ?base @ int_text n) ?used n = Some x \<Longrightarrow> 0 \<le> n \<Longrightarrow> lower_text x = x" for fuel n x
    by (induction fuel "\<lambda>n. ?base @ int_text n" ?used n rule: first_free.induct) (auto simp: base lower_int_text split: if_splits)
  obtain y where y: "first_free (Suc (length ?used)) (\<lambda>n. ?base @ int_text n) ?used 1 = Some y" "y \<notin> set ?used"
    using first_free_total [of 1 "\<lambda>n. ?base @ int_text n" ?used] inj by blast
  have "lower_text y = y" using numbered [OF y(1)] by simp
  show ?thesis
  proof (cases "?base \<in> set ?used")
    case True
    then have "username_for email db = Some y" using y(1) by (simp add: username_for_def Let_def del: first_free.simps)
    then show ?thesis using y(2) \<open>lower_text y = y\<close> by auto
  next
    case False
    then show ?thesis using base by (auto simp: username_for_def Let_def)
  qed
qed

section \<open>The invariant\<close>

definition accounts_ok :: "account_db \<Rightarrow> bool" where
  "accounts_ok db \<longleftrightarrow> distinct (map us_id (ac_users db)) \<and> distinct (map ro_id (ac_roles db)) \<and> distinct (map ro_name (ac_roles db))
     \<and> distinct (map (lower_text \<circ> us_email) (ac_users db)) \<and> distinct (map (lower_text \<circ> us_username) (ac_users db))
     \<and> (\<forall>u \<in> set (ac_users db). us_role u \<in> ro_id ` set (ac_roles db))
     \<and> (\<forall>r \<in> set (ac_roles db). set (ro_permissions r) \<subseteq> set ALL_PERMISSIONS)
     \<and> (\<forall>e \<in> set (ac_user_groups db). fst e \<in> us_id ` set (ac_users db) \<and> snd e \<in> set (ac_groups db))"

text \<open>Every request that changes accounts, by any actor. Identifiers are fresh, as random UUIDs are.\<close>

inductive account_step :: "account_db \<Rightarrow> account_db \<Rightarrow> bool" where
  "ae_fresh_id env \<notin> us_id ` set (ac_users db) \<Longrightarrow> create_user env actor data db = Inr db' \<Longrightarrow> account_step db db'"
| "update_user env actor uid upd db = Inr db' \<Longrightarrow> account_step db db'"
| "delete_user actor uid db = Inr db' \<Longrightarrow> account_step db db'"
| "resend_invite env uid db = Inr db' \<Longrightarrow> account_step db db'"
| "ae_fresh_id env \<notin> ro_id ` set (ac_roles db) \<Longrightarrow> create_role env actor name descr perms db = Inr db' \<Longrightarrow> account_step db db'"
| "update_role actor rid name' descr' perms' db = Inr db' \<Longrightarrow> account_step db db'"
| "delete_role actor rid db = Inr db' \<Longrightarrow> account_step db db'"
| "create_my_key env actor name key_type db = Inr (secret, db') \<Longrightarrow> account_step db db'"
| "create_api_key env actor name key_type db = Inr (secret, db') \<Longrightarrow> account_step db db'"
| "regenerate_my_key env actor kid db = Inr (secret, db') \<Longrightarrow> account_step db db'"
| "regenerate_api_key env actor kid db = Inr (secret, db') \<Longrightarrow> account_step db db'"
| "delete_my_key actor kid db = Inr db' \<Longrightarrow> account_step db db'"
| "delete_api_key actor kid db = Inr db' \<Longrightarrow> account_step db db'"
| "change_my_password env actor current_pw new_pw db = Inr db' \<Longrightarrow> account_step db db'"
| "account_step db (snd (login_submit env login_id pw db))"
| "account_step db (snd (forgot_password_submit env allowed email db))"
| "account_step db (snd (reset_password_submit env token new_pw confirm db))"
| "account_step db (snd (force_password_change_submit env cookie new_pw confirm db))"
| "account_step db (snd (get_current_user env req db))"
| "account_step db (snd (verify_mcp_token env auth obo db))"
| "account_step db (set_setting k v db)"
| "account_step db (delete_setting k db)"

text \<open>What most steps leave alone: the columns of the invariant.\<close>

definition account_view :: "account_db \<Rightarrow> (string \<times> string \<times> string \<times> string) list \<times> role list \<times> (string \<times> string) list \<times> string list" where
  "account_view db = (map (\<lambda>u. (us_id u, us_email u, us_username u, us_role u)) (ac_users db), ac_roles db, ac_user_groups db, ac_groups db)"

lemma accounts_ok_view: "account_view db' = account_view db \<Longrightarrow> accounts_ok db \<Longrightarrow> accounts_ok db'"
proof -
  assume v: "account_view db' = account_view db" and ok: "accounts_ok db"
  let ?cols = "\<lambda>db. map (\<lambda>u. (us_id u, us_email u, us_username u, us_role u)) (ac_users db)"
  have eq: "?cols db' = ?cols db" using v by (simp add: account_view_def)
  have same: "map (g \<circ> (\<lambda>u. (us_id u, us_email u, us_username u, us_role u))) (ac_users db')
      = map (g \<circ> (\<lambda>u. (us_id u, us_email u, us_username u, us_role u))) (ac_users db)" for g :: "_ \<Rightarrow> string"
    using arg_cong [OF eq, of "map g"] by simp
  have cols: "map us_id (ac_users db') = map us_id (ac_users db)" "map (lower_text \<circ> us_email) (ac_users db') = map (lower_text \<circ> us_email) (ac_users db)"
    "map (lower_text \<circ> us_username) (ac_users db') = map (lower_text \<circ> us_username) (ac_users db)" "map us_role (ac_users db') = map us_role (ac_users db)"
    using same [of fst] same [of "lower_text \<circ> fst \<circ> snd"] same [of "lower_text \<circ> fst \<circ> snd \<circ> snd"] same [of "snd \<circ> snd \<circ> snd"]
    by (simp_all add: comp_def)
  moreover have "us_id ` set (ac_users db') = us_id ` set (ac_users db)" "us_role ` set (ac_users db') = us_role ` set (ac_users db)"
    using cols(1,4) by (metis list.set_map)+
  moreover from this have "(\<forall>u \<in> set (ac_users db'). us_role u \<in> ro_id ` set (ac_roles db))"
    using ok by (metis (no_types, lifting) accounts_ok_def image_iff)
  ultimately show ?thesis using ok v by (simp add: accounts_ok_def account_view_def)
qed

lemma view_set_user:
  assumes "\<And>u. us_id (f u) = us_id u \<and> us_email (f u) = us_email u \<and> us_username (f u) = us_username u \<and> us_role (f u) = us_role u"
  shows "account_view (set_user uid f db) = account_view db"
  using assms by (simp add: account_view_def set_user_def update_where_def)

lemma view_frames [simp]:
  "account_view (audit_account a b c db) = account_view db" "account_view (set_setting k v db) = account_view db"
  "account_view (delete_setting k db) = account_view db" "account_view (new_secret env kid db) = account_view db"
  "account_view (remove_key kid db) = account_view db" "account_view (add_key env u name ty db) = account_view db"
  "account_view (notify_owner actor key title db) = account_view db"
  "account_view (snd (resolve_user_from_api_key env token db)) = account_view db"
  by (auto simp: account_view_def audit_account_def set_setting_def delete_setting_def new_secret_def remove_key_def add_key_def
      notify_owner_def resolve_user_from_api_key_def Let_def split: option.splits)

lemma view_current_user [simp]: "account_view (snd (get_current_user env req db)) = account_view db"
proof -
  have "account_view (snd (case resolve_user_from_api_key env key db of
        (None, db') \<Rightarrow> (Inl (unauthorized ''Unauthorized'') :: api_error + user, db')
      | (Some (u, k), db') \<Rightarrow> (if ak_type k = ''mcp'' then Inl e else Inr u, db'))) = account_view db" for key e
    using view_frames(8) [of env key db] by (cases "resolve_user_from_api_key env key db") (auto split: option.splits)
  then show ?thesis by (auto simp: get_current_user_def Let_def split: option.splits)
qed

lemma view_mcp_token [simp]: "account_view (snd (verify_mcp_token env auth obo db)) = account_view db"
  using view_frames(8) [of env "bearer_token auth" db]
  by (cases "resolve_user_from_api_key env (bearer_token auth) db") (auto simp: verify_mcp_token_def Let_def split: option.splits)

lemma ok_create_user:
  assumes ok: "accounts_ok db" and fresh: "ae_fresh_id env \<notin> us_id ` set (ac_users db)"
    and run: "create_user env actor data db = Inr db'"
  shows "accounts_ok db'"
proof -
  obtain name where name: "username_for (normalize_email (uc_email data)) db = Some name"
    and free: "lower_text name = name" "name \<notin> (lower_text \<circ> us_username) ` set (ac_users db)"
    using username_free [of "normalize_email (uc_email data)" db] by auto
  have guards: "\<not> email_taken (normalize_email (uc_email data)) None db" "find_by ro_id (uc_role data) (ac_roles db) \<noteq> None" "groups_ok (uc_groups data) db"
    using run name by (auto simp: create_user_def Let_def split: if_splits)
  obtain r where "r \<in> set (ac_roles db)" "ro_id r = uc_role data" using guards(2) by (auto dest: find_by_Some)
  then have role: "uc_role data \<in> ro_id ` set (ac_roles db)" by force
  have email: "normalize_email (uc_email data) \<notin> (lower_text \<circ> us_email) ` set (ac_users db)"
    using guards(1) by (auto simp: email_taken_def)
  have db': "\<exists>u. us_id u = ae_fresh_id env \<and> us_username u = name \<and> us_email u = normalize_email (uc_email data) \<and> us_role u = uc_role data
      \<and> ac_users db' = ac_users db @ [u]"
    "ac_roles db' = ac_roles db" "ac_groups db' = ac_groups db" "ac_user_groups db' = ac_user_groups db @ map (Pair (ae_fresh_id env)) (uc_groups data)"
    using run name guards by (auto simp: create_user_def Let_def audit_account_def insert_row_def split: if_splits)
  from db'(1) obtain u where u: "us_id u = ae_fresh_id env" "us_username u = name" "us_email u = normalize_email (uc_email data)"
      "us_role u = uc_role data" "ac_users db' = ac_users db @ [u]" by blast
  have "\<forall>e \<in> set (ac_user_groups db'). fst e \<in> us_id ` set (ac_users db') \<and> snd e \<in> set (ac_groups db)"
    using guards(3) u(1,5) ok unfolding db'(4) by (fastforce simp: groups_ok_def accounts_ok_def)
  then show ?thesis using ok fresh free role email u db'(2-3) by (simp add: accounts_ok_def)
qed

lemma ok_update_user:
  assumes ok: "accounts_ok db" and run: "update_user env actor uid data db = Inr db'"
  shows "accounts_ok db'"
proof -
  let ?f = "changed_user env data"
  have id: "us_id (?f u) = us_id u" "us_username (?f u) = us_username u" for u by (simp_all add: changed_user_def)
  have guards: "uu_email data \<noteq> None \<Longrightarrow> \<not> email_taken (normalize_email (the (uu_email data))) (Some uid) db"
    "uu_role data \<noteq> None \<Longrightarrow> find_by ro_id (the (uu_role data)) (ac_roles db) \<noteq> None"
    "uu_groups data \<noteq> None \<Longrightarrow> groups_ok (the (uu_groups data)) db" and found: "find_by us_id uid (ac_users db) \<noteq> None"
    using run by (auto simp: update_user_def split: option.splits if_splits)
  have db': "ac_users db' = update_where (\<lambda>u. us_id u = uid) ?f (ac_users db)" "ac_roles db' = ac_roles db" "ac_groups db' = ac_groups db"
    "set (ac_user_groups db') \<subseteq> set (ac_user_groups db) \<union> {uid} \<times> set (ac_groups db)"
    using run guards(3) by (auto simp: update_user_def set_user_def audit_account_def groups_ok_def split: option.splits if_splits)
  have ids: "map us_id (ac_users db') = map us_id (ac_users db)" by (simp add: db'(1) update_where_def id(1) comp_def if_distrib)
  have uid: "uid \<in> us_id ` set (ac_users db)" using found by (auto dest: find_by_Some)
  have emails: "distinct (map (lower_text \<circ> us_email) (ac_users db'))"
    unfolding db'(1)
  proof (rule distinct_update_column)
    fix u v assume uv: "u \<in> set (ac_users db)" "us_id u = uid" "v \<in> set (ac_users db)" "us_id v \<noteq> uid"
    have inj: "inj_on (lower_text \<circ> us_email) (set (ac_users db))" using ok by (simp add: accounts_ok_def distinct_map)
    have "lower_text (us_email u) \<noteq> lower_text (us_email v)"
    proof
      assume "lower_text (us_email u) = lower_text (us_email v)"
      then have "u = v" using inj_onD [OF inj _ uv(1,3)] by simp
      then show False using uv(2,4) by simp
    qed
    moreover have "uu_email data = Some e \<Longrightarrow> lower_text (us_email v) \<noteq> normalize_email e" for e
      using guards(1) uv by (auto simp: email_taken_def)
    ultimately show "(lower_text \<circ> us_email) (?f u) \<noteq> (lower_text \<circ> us_email) v"
      by (cases "uu_email data") (auto simp: changed_user_def opt_def)
  qed (use ok id in \<open>simp_all add: accounts_ok_def\<close>)
  have names: "map (lower_text \<circ> us_username) (ac_users db') = map (lower_text \<circ> us_username) (ac_users db)"
    by (simp add: db'(1) update_where_def id(2) comp_def if_distrib)
  have "the (uu_role data) \<in> ro_id ` set (ac_roles db)" if "uu_role data \<noteq> None"
    using guards(2) [OF that] by (force dest: find_by_Some)
  then have roles: "\<forall>u \<in> set (ac_users db'). us_role u \<in> ro_id ` set (ac_roles db)"
    using ok by (auto simp: db'(1) update_where_def accounts_ok_def changed_user_def opt_def split: option.splits)
  have "us_id ` set (ac_users db') = us_id ` set (ac_users db)" using ids by (metis list.set_map)
  moreover from this have "\<forall>e \<in> set (ac_user_groups db'). fst e \<in> us_id ` set (ac_users db') \<and> snd e \<in> set (ac_groups db)"
    using db'(4) ok uid by (fastforce simp: accounts_ok_def)
  ultimately show ?thesis using ok ids emails names roles db'(2,3) by (simp add: accounts_ok_def)
qed

lemma ok_delete_user:
  assumes "accounts_ok db" "delete_user actor uid db = Inr db'"
  shows "accounts_ok db'"
proof -
  have db': "ac_users db' = filter (\<lambda>x. us_id x \<noteq> uid) (ac_users db)" "ac_roles db' = ac_roles db" "ac_groups db' = ac_groups db"
    "ac_user_groups db' = filter (\<lambda>(x, g). x \<noteq> uid) (ac_user_groups db)"
    using assms(2) by (auto simp: delete_user_def audit_account_def delete_where_def split: option.splits if_splits)
  have "\<forall>e \<in> set (ac_user_groups db'). fst e \<in> us_id ` set (ac_users db') \<and> snd e \<in> set (ac_groups db')"
    using assms(1) by (fastforce simp: db' accounts_ok_def)
  moreover have "distinct (map c (filter P (ac_users db)))" if "distinct (map c (ac_users db))" for c :: "user \<Rightarrow> string" and P
    using that by (simp add: distinct_map_filter)
  ultimately show ?thesis using assms(1) unfolding accounts_ok_def by (simp add: db'(1-3) del: set_filter) auto
qed

lemma ok_create_role:
  assumes "accounts_ok db" "ae_fresh_id env \<notin> ro_id ` set (ac_roles db)" "create_role env actor name descr perms db = Inr db'"
  shows "accounts_ok db'"
proof -
  obtain r where db': "ac_roles db' = ac_roles db @ [r]" "ro_id r = ae_fresh_id env" "ro_name r = name" "set (ro_permissions r) \<subseteq> set ALL_PERMISSIONS"
    "ac_users db' = ac_users db" "ac_groups db' = ac_groups db" "ac_user_groups db' = ac_user_groups db"
    and free: "name \<notin> ro_name ` set (ac_roles db)"
    using assms(3) find_by_None [of ro_name name "ac_roles db"]
    by (auto simp: create_role_def audit_account_def insert_row_def split: if_splits)
  show ?thesis using assms(1,2) free by (simp add: accounts_ok_def db')
qed

lemma ok_delete_role:
  assumes "accounts_ok db" "delete_role actor rid db = Inr db'"
  shows "accounts_ok db'"
proof -
  have db': "ac_roles db' = filter (\<lambda>x. ro_id x \<noteq> rid) (ac_roles db)" "ac_users db' = ac_users db" "ac_groups db' = ac_groups db"
      "ac_user_groups db' = ac_user_groups db" and unused: "\<forall>u \<in> set (ac_users db). us_role u \<noteq> rid"
    using assms(2) by (auto simp: delete_role_def audit_account_def delete_where_def filter_empty_conv split: option.splits if_splits)
  have "\<forall>u \<in> set (ac_users db). us_role u \<in> ro_id ` set (ac_roles db')" using assms(1) unused by (fastforce simp: accounts_ok_def db')
  then show ?thesis using assms(1) by (simp add: accounts_ok_def db' distinct_map_filter)
qed

lemma ok_update_role:
  assumes ok: "accounts_ok db" and run: "update_role actor rid name descr perms db = Inr db'"
  shows "accounts_ok db'"
proof -
  let ?f = "\<lambda>x. x\<lparr>ro_name := opt name (ro_name x), ro_description := opt descr (ro_description x), ro_permissions := opt perms (ro_permissions x)\<rparr>"
  have db': "ac_roles db' = update_where (\<lambda>x. ro_id x = rid) ?f (ac_roles db)" "ac_users db' = ac_users db" "ac_groups db' = ac_groups db"
      "ac_user_groups db' = ac_user_groups db"
    and guards: "perms \<noteq> None \<Longrightarrow> set (the perms) \<subseteq> set ALL_PERMISSIONS"
      "name \<noteq> None \<Longrightarrow> \<forall>x \<in> set (ac_roles db). ro_id x \<noteq> rid \<longrightarrow> ro_name x \<noteq> the name"
    using run by (auto simp: update_role_def audit_account_def split: option.splits if_splits)
  have ids: "map ro_id (ac_roles db') = map ro_id (ac_roles db)" by (simp add: db'(1) update_where_def comp_def if_distrib)
  have names: "distinct (map ro_name (ac_roles db'))"
    unfolding db'(1)
  proof (rule distinct_update_column)
    fix r s assume rs: "r \<in> set (ac_roles db)" "ro_id r = rid" "s \<in> set (ac_roles db)" "ro_id s \<noteq> rid"
    have inj: "inj_on ro_name (set (ac_roles db))" using ok by (simp add: accounts_ok_def distinct_map)
    have "ro_name r \<noteq> ro_name s" using inj_onD [OF inj _ rs(1,3)] rs(2,4) by blast
    then show "ro_name (?f r) \<noteq> ro_name s" using guards(2) rs by (cases name) (auto simp: opt_def)
  qed (use ok in \<open>simp_all add: accounts_ok_def\<close>)
  have "ro_id ` set (ac_roles db') = ro_id ` set (ac_roles db)" using ids by (metis list.set_map)
  moreover have "\<forall>r \<in> set (ac_roles db'). set (ro_permissions r) \<subseteq> set ALL_PERMISSIONS"
  proof
    fix r assume "r \<in> set (ac_roles db')"
    then obtain x where "x \<in> set (ac_roles db)" "ro_permissions r = ro_permissions x \<or> ro_permissions r = opt perms (ro_permissions x)"
      by (auto simp: db'(1) update_where_def)
    moreover have "set (opt perms ps) \<subseteq> set ALL_PERMISSIONS" if "set ps \<subseteq> set ALL_PERMISSIONS" for ps
      using that guards(1) by (cases perms) (simp_all add: opt_def)
    ultimately show "set (ro_permissions r) \<subseteq> set ALL_PERMISSIONS" using ok unfolding accounts_ok_def by metis
  qed
  ultimately show ?thesis using ok names ids db'(2-4) by (simp add: accounts_ok_def)
qed

lemma view_steps:
  "resend_invite env uid db = Inr db' \<Longrightarrow> account_view db' = account_view db"
  "create_my_key env actor name key_type db = Inr (secret, db') \<Longrightarrow> account_view db' = account_view db"
  "create_api_key env actor name key_type db = Inr (secret, db') \<Longrightarrow> account_view db' = account_view db"
  "regenerate_my_key env actor kid db = Inr (secret, db') \<Longrightarrow> account_view db' = account_view db"
  "regenerate_api_key env actor kid db = Inr (secret, db') \<Longrightarrow> account_view db' = account_view db"
  "delete_my_key actor kid db = Inr db' \<Longrightarrow> account_view db' = account_view db"
  "delete_api_key actor kid db = Inr db' \<Longrightarrow> account_view db' = account_view db"
  "change_my_password env actor current_pw new_pw db = Inr db' \<Longrightarrow> account_view db' = account_view db"
  subgoal by (auto simp: resend_invite_def view_set_user split: option.splits if_splits)
  subgoal by (auto simp: create_my_key_def split: option.splits)
  subgoal by (auto simp: create_api_key_def split: option.splits)
  subgoal by (auto simp: regenerate_my_key_def result_bind_eq_Inr)
  subgoal by (auto simp: regenerate_api_key_def split: option.splits)
  subgoal by (auto simp: delete_my_key_def result_bind_eq_Inr)
  subgoal by (auto simp: delete_api_key_def split: option.splits)
  subgoal by (auto simp: change_my_password_def view_set_user split: if_splits)
  done

lemma view_pages:
  "account_view (snd (login_submit env login_id pw db)) = account_view db"
  "account_view (snd (forgot_password_submit env allowed email db)) = account_view db"
  "account_view (snd (reset_password_submit env token new_pw confirm db)) = account_view db"
  "account_view (snd (force_password_change_submit env cookie new_pw confirm db)) = account_view db"
  subgoal by (auto simp: login_submit_def Let_def view_set_user split: option.splits)
  subgoal by (auto simp: forgot_password_submit_def view_set_user split: option.splits)
  subgoal by (auto simp: reset_password_submit_def view_set_user split: option.splits)
  subgoal by (simp add: force_password_change_submit_def view_set_user split: option.splits)
  done

section \<open>Properties\<close>

lemma account_step_ok: "account_step db db' \<Longrightarrow> accounts_ok db \<Longrightarrow> accounts_ok db'"
  by (induction rule: account_step.induct)
    (auto intro: ok_create_user ok_update_user ok_delete_user ok_create_role ok_update_role ok_delete_role
      accounts_ok_view [OF view_steps(1)] accounts_ok_view [OF view_steps(2)] accounts_ok_view [OF view_steps(3)] accounts_ok_view [OF view_steps(4)]
      accounts_ok_view [OF view_steps(5)] accounts_ok_view [OF view_steps(6)] accounts_ok_view [OF view_steps(7)] accounts_ok_view [OF view_steps(8)]
      accounts_ok_view [OF view_pages(1)] accounts_ok_view [OF view_pages(2)] accounts_ok_view [OF view_pages(3)] accounts_ok_view [OF view_pages(4)]
      accounts_ok_view [OF view_frames(2)] accounts_ok_view [OF view_frames(3)] accounts_ok_view [OF view_current_user] accounts_ok_view [OF view_mcp_token])

definition sample_admin :: user where
  "sample_admin = \<lparr>us_id = ''a0'', us_username = ''admin'', us_email = ''admin@x.io'', us_display = '''', us_password = ''h'', us_role = ''r0'',
     us_active = True, us_must_change = False, us_last_login = None, us_setup_token = None, us_setup_at = None,
     us_reset_token = Some ''t'', us_reset_at = Some 0\<rparr>"

definition sample_viewer :: user where
  "sample_viewer = sample_admin\<lparr>us_id := ''b1'', us_username := ''bob'', us_email := ''bob@x.io'', us_role := ''r1'', us_reset_token := None\<rparr>"

interpretation account_runs: step_invariant account_step accounts_ok
  by unfold_locales (rule account_step_ok)

definition sample_accounts :: account_db where
  "sample_accounts = \<lparr>ac_roles = [\<lparr>ro_id = ''r0'', ro_name = ''Admin'', ro_description = '''', ro_permissions = ALL_PERMISSIONS, ro_builtin = True\<rparr>,
       \<lparr>ro_id = ''r1'', ro_name = ''Viewer'', ro_description = '''', ro_permissions = VIEWER_PERMISSIONS, ro_builtin = True\<rparr>],
     ac_users = [sample_admin, sample_viewer], ac_keys = [\<lparr>ak_id = ''k'', ak_name = ''n'', ak_prefix = ''p'', ak_hash = ''bobkey'', ak_type = ''api'',
       ak_user = Some ''b1'', ak_used_at = None\<rparr>], ac_user_groups = [(''b1'', ''g'')], ac_groups = [''g''], ac_settings = [], ac_audit = [], ac_notices = []\<rparr>"

definition sample_account_env :: account_env where
  "sample_account_env = \<lparr>ae_now = 5, ae_sha256 = id, ae_hash_password = id, ae_check_password = (=), ae_loads = (\<lambda>c. Loaded (Cookie_Name c)),
     ae_loads_any_age = (\<lambda>c. None), ae_fresh_id = ''c2'', ae_secret = ''s'', ae_smtp_ready = True\<rparr>"

definition key_request :: "string \<Rightarrow> auth_request" where
  "key_request key = \<lparr>rq_api_key = Some key, rq_on_behalf_of = None, rq_cookie = None, rq_path = ''/api/devices''\<rparr>"

text \<open>C32. Whatever administrators, users and visitors do, in any order: identifiers, role names, addresses and usernames stay unique (the last two
  up to case), every user has an existing role, every role holds known permissions only, and every membership names an existing user and group.\<close>

theorem accounts_invariant:
  assumes "account_step\<^sup>*\<^sup>* db db'" and "accounts_ok db"
  shows "accounts_ok db'"
  using assms by (rule account_runs.run_keeps)

theorem accounts_invariant_witness:
  "accounts_ok (snd (login_submit sample_account_env ''bob'' ''h'' sample_accounts))"
proof (rule accounts_invariant)
  show "account_step\<^sup>*\<^sup>* sample_accounts (snd (login_submit sample_account_env ''bob'' ''h'' sample_accounts))"
    by (rule r_into_rtranclp) (rule account_step.intros)
  show "accounts_ok sample_accounts"
    by (simp add: accounts_ok_def sample_accounts_def sample_admin_def sample_viewer_def VIEWER_PERMISSIONS_def ALL_PERMISSIONS_def lower_text_def lower_char_def)
qed

text \<open>C35. The loop that numbers the local part of an address until the username is free ends within one try more than there are users,
  with a name nobody has up to case.\<close>

theorem username_search_ends:
  "\<exists>name. username_for (normalize_email address) db = Some name \<and> lower_text name = name
     \<and> name \<notin> (lower_text \<circ> us_username) ` set (ac_users db)"
  by (rule username_free) simp

lemma first_admin_mem: "first_admin db = Some u \<Longrightarrow> u \<in> set (ac_users db) \<and> us_active u"
proof -
  let ?admins = "filter (\<lambda>u. us_active u \<and> (case role_of db u of None \<Rightarrow> False | Some r \<Rightarrow> ro_name r = ''Admin'')) (ac_users db)"
  assume "first_admin db = Some u"
  then obtain us where "sort_key us_id ?admins = u # us" by (auto simp: first_admin_def split: list.splits)
  then have "u \<in> set (sort_key us_id ?admins)" by (simp del: set_sort)
  then show ?thesis by simp
qed

lemma find_active_mem: "find_active db uid = Some u \<Longrightarrow> u \<in> set (ac_users db) \<and> us_active u"
  by (auto simp: find_active_def split: option.splits if_splits dest: find_by_Some)

lemma session_mem: "resolve_user_from_session env cookie db = Some u \<Longrightarrow> u \<in> set (ac_users db) \<and> us_active u \<and> ae_loads env cookie \<noteq> Bad_Signature"
  by (auto simp: resolve_user_from_session_def Let_def find_Some_iff in_set_conv_nth dest: find_active_mem
      split: option.splits cookie_data.splits cookie_outcome.splits if_splits)

lemma first_admin_keys: "first_admin (db\<lparr>ac_keys := ks\<rparr>) = first_admin db"
  by (simp add: first_admin_def role_of_def)

lemma resolve_key_cases:
  assumes "resolve_user_from_api_key env key db = (Some (u, k), db')"
  shows "k \<in> set (ac_keys db) \<and> ak_hash k = hash_api_key (ae_sha256 env) key \<and> u \<in> set (ac_users db)
    \<and> (ak_user k = Some (us_id u) \<or> first_admin db = Some u)"
  using assms by (auto simp: resolve_user_from_api_key_def Let_def first_admin_keys first_admin_mem dest!: find_by_Some split: option.splits)

text \<open>Whom a credential speaks for, by its own content. An administrator that stands in is the active one with the
  smallest identifier.\<close>

definition stand_in :: "account_db \<Rightarrow> user \<Rightarrow> bool" where
  "stand_in db u \<longleftrightarrow> u \<in> set (ac_users db) \<and> us_active u \<and> (\<exists>r. role_of db u = Some r \<and> ro_name r = ''Admin'')
     \<and> (\<forall>w \<in> set (ac_users db). us_active w \<and> (\<exists>r. role_of db w = Some r \<and> ro_name r = ''Admin'') \<longrightarrow> us_id u \<le> us_id w)"

definition service_key_speaks_for :: "account_env \<Rightarrow> account_db \<Rightarrow> string \<Rightarrow> string option \<Rightarrow> user \<Rightarrow> bool" where
  "service_key_speaks_for env db key on_behalf_of u \<longleftrightarrow>
     get_setting db ''mcp_service_key_hash'' = Some (ae_sha256 env key)
     \<and> (case on_behalf_of of None \<Rightarrow> stand_in db u
        | Some s \<Rightarrow> (case uuid_of_text s of Some uid \<Rightarrow> us_id u = uid \<and> us_active u | None \<Rightarrow> stand_in db u))"

definition api_key_speaks_for :: "account_env \<Rightarrow> account_db \<Rightarrow> string \<Rightarrow> user \<Rightarrow> bool" where
  "api_key_speaks_for env db key u \<longleftrightarrow> (\<exists>k \<in> set (ac_keys db). ak_hash k = ae_sha256 env key \<and> ak_type k \<noteq> ''mcp''
     \<and> (if ak_user k \<in> Some ` us_id ` set (ac_users db) then ak_user k = Some (us_id u) else stand_in db u))"

definition cookie_speaks_for :: "account_env \<Rightarrow> account_db \<Rightarrow> string \<Rightarrow> user \<Rightarrow> bool" where
  "cookie_speaks_for env db cookie u \<longleftrightarrow> us_active u
     \<and> (\<exists>data. (ae_loads env cookie = Loaded data
           \<or> ae_loads env cookie = Signature_Expired True \<and> ae_loads_any_age env cookie = Some data)
         \<and> (case data of Cookie_User uid \<Rightarrow> uuid_of_text uid = Some (us_id u)
            | Cookie_Name nm \<Rightarrow> us_username u = nm | Cookie_Other \<Rightarrow> False))"

lemma first_admin_stands_in: "first_admin db = Some u \<Longrightarrow> stand_in db u"
proof -
  let ?admins = "filter (\<lambda>u. us_active u \<and> (case role_of db u of None \<Rightarrow> False | Some r \<Rightarrow> ro_name r = ''Admin'')) (ac_users db)"
  assume "first_admin db = Some u"
  then obtain us where us: "sort_key us_id ?admins = u # us" by (auto simp: first_admin_def split: list.splits)
  have "sorted (map us_id (u # us))" unfolding us [symmetric] by (rule sorted_sort_key)
  moreover have mem: "set (u # us) = set ?admins" unfolding us [symmetric] by simp
  ultimately have least: "us_id u \<le> us_id w" if "w \<in> set ?admins" for w using that by auto
  have "u \<in> set ?admins" using mem by auto
  then show ?thesis using least by (auto simp: stand_in_def split: option.splits)
qed

lemma find_active_id: "find_active db uid = Some u \<Longrightarrow> us_id u = uid \<and> us_active u"
  by (auto simp: find_active_def split: option.splits if_splits dest: find_by_Some)

lemma session_speaks:
  assumes "resolve_user_from_session env cookie db = Some u"
  shows "cookie_speaks_for env db cookie u"
  using assms
  by (auto simp: resolve_user_from_session_def cookie_speaks_for_def Let_def find_Some_iff dest!: find_active_id
      split: option.splits cookie_data.splits cookie_outcome.splits if_splits)

lemma api_key_speaks:
  assumes "resolve_user_from_api_key env key db = (Some (u, k), db')" "ak_type k \<noteq> ''mcp''"
  shows "api_key_speaks_for env db key u"
proof -
  obtain found: "find_by ak_hash (hash_api_key (ae_sha256 env) key) (ac_keys db) = Some k"
    using assms(1) by (auto simp: resolve_user_from_api_key_def Let_def split: option.splits)
  have k: "k \<in> set (ac_keys db)" "ak_hash k = ae_sha256 env key"
    using find_by_Some [OF found] by (simp_all add: hash_api_key_def)
  have "if ak_user k \<in> Some ` us_id ` set (ac_users db) then ak_user k = Some (us_id u) else stand_in db u"
    using assms(1) found
    by (auto simp: resolve_user_from_api_key_def Let_def first_admin_keys find_by_None
        dest!: find_by_Some first_admin_stands_in split: option.splits)
  with k assms(2) show ?thesis unfolding api_key_speaks_for_def by blast
qed

lemma service_name_is_no_id: "uuid_of_text ''MCP Service'' = None"
  by code_simp

lemma service_key_speaks:
  assumes "service_user env key on_behalf_of db = Inr u"
  shows "service_key_speaks_for env db key on_behalf_of u"
  using assms
  by (auto simp: service_user_def service_key_speaks_for_def hash_api_key_def Let_def service_name_is_no_id
      dest!: find_active_id first_admin_stands_in split: option.splits if_splits)

text \<open>C33. A request that is let in runs as the user its credential speaks for. With an API key header, a service key must be the
  stored one, and runs as the active user whose identifier the on-behalf-of header names, or as the standing-in administrator when that header names
  none; any other key must be a stored key that is not an MCP key, and runs as its owner, or, when it has none, as the standing-in administrator.
  Otherwise a session cookie must have a valid signature, and runs as the active user whose identifier (or, in an old cookie, username) it carries.\<close>

theorem authenticated_by_credential:
  assumes "get_current_user env req db = (Inr u, db')"
  shows "u \<in> set (ac_users db)
    \<and> (case rq_api_key req of
         Some (c # cs) \<Rightarrow> if take (length SERVICE_KEY_PREFIX) (c # cs) = SERVICE_KEY_PREFIX
           then service_key_speaks_for env db (c # cs) (rq_on_behalf_of req) u
           else api_key_speaks_for env db (c # cs) u
       | _ \<Rightarrow> (\<exists>cookie. rq_cookie req = Some cookie \<and> cookie_speaks_for env db cookie u))"
proof (cases "truthy (rq_api_key req)")
  case True
  then obtain c cs where key: "rq_api_key req = Some (c # cs)"
    by (cases "rq_api_key req"; cases "the (rq_api_key req)") (auto simp: truthy_def)
  show ?thesis
  proof (cases "take (length SERVICE_KEY_PREFIX) (c # cs) = SERVICE_KEY_PREFIX")
    case svc: True
    then have su: "service_user env (c # cs) (rq_on_behalf_of req) db = Inr u"
      using assms True key by (auto simp: get_current_user_def)
    then have "u \<in> set (ac_users db)"
      by (auto simp: service_user_def Let_def split: option.splits if_splits dest: first_admin_mem find_active_mem)
    then show ?thesis using key svc service_key_speaks [OF su] by simp
  next
    case False
    then obtain k where k: "resolve_user_from_api_key env (c # cs) db = (Some (u, k), db')" "ak_type k \<noteq> ''mcp''"
      using assms True key
      by (cases "resolve_user_from_api_key env (c # cs) db") (auto simp: get_current_user_def Let_def split: option.splits if_splits)
    then show ?thesis using resolve_key_cases [OF k(1)] api_key_speaks [OF k] key False by simp
  qed
next
  case False
  then obtain cookie where "rq_cookie req = Some cookie" "resolve_user_from_session env cookie db = Some u"
    using assms by (auto simp: get_current_user_def truthy_def split: option.splits if_splits)
  then show ?thesis using session_speaks session_mem False
    by (auto simp: truthy_def split: option.splits list.splits)
qed

theorem authenticated_by_credential_witness:
  "sample_viewer \<in> set (ac_users sample_accounts) \<and> api_key_speaks_for sample_account_env sample_accounts ''bobkey'' sample_viewer"
proof -
  have "get_current_user sample_account_env (key_request ''bobkey'') sample_accounts
      = (Inr sample_viewer, snd (get_current_user sample_account_env (key_request ''bobkey'') sample_accounts))"
    by (simp add: get_current_user_def key_request_def truthy_def SERVICE_KEY_PREFIX_def resolve_user_from_api_key_def hash_api_key_def
        sample_account_env_def sample_accounts_def sample_viewer_def sample_admin_def Let_def)
  from authenticated_by_credential [OF this] show ?thesis by (simp add: key_request_def SERVICE_KEY_PREFIX_def)
qed

text \<open>Deleting a user does not revoke its keys: their owner becomes empty, and a request with such a key then runs as an administrator.\<close>

theorem deleted_user_key_is_admin:
  assumes del: "delete_user actor uid db = Inr db'"
    and k: "find_by ak_hash (ae_sha256 env key) (ac_keys db) = Some k" "ak_user k = Some uid" "ak_type k \<noteq> ''mcp''"
    and key: "key \<noteq> ''''" "take (length SERVICE_KEY_PREFIX) key \<noteq> SERVICE_KEY_PREFIX"
    and admin: "first_admin db' = Some a"
  shows "fst (get_current_user env (key_request key) db') = Inr a"
proof -
  have keys: "ac_keys db' = update_where (\<lambda>k. ak_user k = Some uid) (\<lambda>k. k\<lparr>ak_user := None\<rparr>) (ac_keys db)"
    using del by (auto simp: delete_user_def audit_account_def split: option.splits if_splits)
  have "find_by ak_hash h (update_where (\<lambda>k. ak_user k = Some uid) (\<lambda>k. k\<lparr>ak_user := None\<rparr>) ks)
      = map_option (\<lambda>k. if ak_user k = Some uid then k\<lparr>ak_user := None\<rparr> else k) (find_by ak_hash h ks)" for h and ks :: "api_key_row list"
    by (induction ks) (auto simp: update_where_def)
  then have "find_by ak_hash (ae_sha256 env key) (ac_keys db') = Some (k\<lparr>ak_user := None\<rparr>)" using k by (simp add: keys)
  then show ?thesis using key admin k(3)
    by (simp add: get_current_user_def key_request_def truthy_def resolve_user_from_api_key_def hash_api_key_def Let_def first_admin_keys)
qed

theorem deleted_user_key_is_admin_witness:
  "\<exists>db'. delete_user sample_admin ''b1'' sample_accounts = Inr db'
     \<and> fst (get_current_user sample_account_env (key_request ''bobkey'') db') = Inr sample_admin"
proof -
  obtain db' where del: "delete_user sample_admin ''b1'' sample_accounts = Inr db'"
    by (simp add: delete_user_def sample_accounts_def sample_admin_def sample_viewer_def)
  then have "ac_users db' = [sample_admin]" "ac_roles db' = ac_roles sample_accounts"
    by (auto simp: delete_user_def sample_accounts_def sample_admin_def sample_viewer_def audit_account_def delete_where_def)
  then have "first_admin db' = Some sample_admin"
    by (simp add: first_admin_def role_of_def sample_accounts_def) (simp add: sample_admin_def)
  then have "fst (get_current_user sample_account_env (key_request ''bobkey'') db') = Inr sample_admin"
    by (intro deleted_user_key_is_admin [OF del, where k = "hd (ac_keys sample_accounts)"])
      (simp_all add: sample_accounts_def sample_account_env_def SERVICE_KEY_PREFIX_def)
  with del show ?thesis by blast
qed

text \<open>The two checks of group scope agree: a row passes the filter of the listing queries exactly when the access check by identifier lets
  its reader through, ungrouped rows included.\<close>

theorem scope_clause_matches_access:
  assumes "get_user_group_ids u db = Inr gs"
  shows "build_group_read_scope_clause gs column
    \<longleftrightarrow> verify_resource_group_access u db (case column of None \<Rightarrow> [] | Some g \<Rightarrow> [g]) = None"
  using assms by (auto simp: build_group_read_scope_clause_def verify_resource_group_access_def split: option.splits)

theorem scope_clause_matches_access_witness:
  "verify_resource_group_access sample_viewer sample_accounts [''g''] = None \<and> \<not> build_group_read_scope_clause (Some [''g'']) (Some ''h'')"
proof -
  have gs: "get_user_group_ids sample_viewer sample_accounts = Inr (Some [''g''])"
    by (simp add: get_user_group_ids_def role_of_def sample_accounts_def sample_viewer_def sample_admin_def VIEWER_PERMISSIONS_def)
  show ?thesis using scope_clause_matches_access [OF gs, of "Some ''g''"] by (simp add: build_group_read_scope_clause_def)
qed

text \<open>C34. A password reset succeeds exactly for a link that is stored with an active account, at most an hour old, and a new password of six
  characters or more that was typed twice; in every other case nothing changes.\<close>

theorem reset_password_exact:
  assumes "token \<noteq> ''''"
  shows "(case reset_password_submit env token new_pw confirm db of (answer, db') \<Rightarrow>
      (answer = Login_Notice \<longleftrightarrow> 6 \<le> length new_pw \<and> new_pw = confirm
         \<and> (\<exists>u issued. List.find (\<lambda>u. us_reset_token u = Some token) (ac_users db) = Some u \<and> us_active u
              \<and> us_reset_at u = Some issued \<and> ae_now env \<le> issued + 3600000000))
      \<and> (answer = Login_Notice \<or> db' = db))"
proof -
  have fresh: "us_reset_token u = Some token \<Longrightarrow>
      \<not> reset_token_is_expired (ae_now env) u \<longleftrightarrow> (\<exists>issued. us_reset_at u = Some issued \<and> ae_now env \<le> issued + 3600000000)" for u
    using assms by (auto simp: reset_token_is_expired_def token_is_expired_def truthy_def RESET_TOKEN_TTL_def split: option.splits)
  have found: "List.find (\<lambda>u. us_reset_token u = Some token) (ac_users db) = Some u \<Longrightarrow> us_reset_token u = Some token" for u
    by (auto simp: find_Some_iff)
  show ?thesis
  proof (cases "List.find (\<lambda>u. us_reset_token u = Some token) (ac_users db)")
    case None
    then show ?thesis by (simp add: reset_password_submit_def reset_link_user_def invalid_link_def)
  next
    case (Some u)
    show ?thesis using fresh [OF found [OF Some]] by (auto simp: reset_password_submit_def reset_link_user_def Some invalid_link_def)
  qed
qed

theorem reset_password_exact_witness:
  "fst (reset_password_submit sample_account_env ''t'' ''secret'' ''secret'' sample_accounts) = Login_Notice"
  using reset_password_exact [where token = "''t''" and env = sample_account_env and new_pw = "''secret''" and confirm = "''secret''" and db = sample_accounts]
  by (auto simp: sample_accounts_def sample_admin_def sample_account_env_def split: prod.splits)

text \<open>A reset link works once: after it set a password, the link finds nobody at any later time, the account accepts the new password, is not asked
  for another change, and no other account changed.\<close>

theorem reset_link_single_use:
  assumes ids: "distinct (map us_id (ac_users db))"
    and tokens: "\<And>u v. u \<in> set (ac_users db) \<Longrightarrow> v \<in> set (ac_users db) \<Longrightarrow> us_reset_token u = Some token \<Longrightarrow> us_reset_token v = Some token \<Longrightarrow> us_id u = us_id v"
    and bcrypt: "\<And>p. ae_check_password env p (ae_hash_password env p)"
    and ok: "reset_password_submit env token new_pw confirm db = (Login_Notice, db')"
  shows "reset_link_user later token db' = None
    \<and> (\<exists>u \<in> set (ac_users db). us_reset_token u = Some token
        \<and> (\<exists>u' \<in> set (ac_users db'). us_id u' = us_id u \<and> ae_check_password env new_pw (us_password u') \<and> \<not> us_must_change u')
        \<and> filter (\<lambda>v. us_id v \<noteq> us_id u) (ac_users db') = filter (\<lambda>v. us_id v \<noteq> us_id u) (ac_users db))"
proof -
  let ?f = "\<lambda>x. x\<lparr>us_password := ae_hash_password env new_pw, us_reset_token := None, us_reset_at := None,
               us_must_change := False, us_setup_token := None, us_setup_at := None\<rparr>"
  obtain u where u: "reset_link_user (ae_now env) token db = Some u" "ac_users db' = update_where (\<lambda>x. us_id x = us_id u) ?f (ac_users db)"
    using ok by (auto simp: reset_password_submit_def invalid_link_def set_user_def audit_account_def split: option.splits if_splits)
  then have mem: "u \<in> set (ac_users db)" "us_reset_token u = Some token"
    by (auto simp: reset_link_user_def find_Some_iff in_set_conv_nth split: option.splits if_splits)
  have "us_reset_token x \<noteq> Some token" if "x \<in> set (ac_users db')" for x
    using that tokens [OF mem(1) _ mem(2)] by (auto simp: u(2) update_where_def)
  then have "List.find (\<lambda>u. us_reset_token u = Some token) (ac_users db') = None" by (simp add: find_None_iff)
  then have "reset_link_user later token db' = None" by (simp add: reset_link_user_def)
  moreover have "?f u \<in> set (ac_users db')" using mem(1) by (auto simp: u(2) update_where_def image_iff intro!: bexI [of _ u])
  then have "\<exists>u' \<in> set (ac_users db'). us_id u' = us_id u \<and> ae_check_password env new_pw (us_password u') \<and> \<not> us_must_change u'"
    by (rule bexI [rotated]) (simp add: bcrypt)
  moreover have "filter (\<lambda>v. us_id v \<noteq> i) (update_where (\<lambda>x. us_id x = i) ?f us) = filter (\<lambda>v. us_id v \<noteq> i) us" for i and us :: "user list"
    by (induction us) (simp_all add: update_where_def)
  ultimately show ?thesis using mem u(2) by metis
qed

theorem reset_link_single_use_witness:
  "reset_link_user 9 ''t'' (snd (reset_password_submit sample_account_env ''t'' ''secret'' ''secret'' sample_accounts)) = None"
proof -
  have "reset_password_submit sample_account_env ''t'' ''secret'' ''secret'' sample_accounts
      = (Login_Notice, snd (reset_password_submit sample_account_env ''t'' ''secret'' ''secret'' sample_accounts))"
    by (simp add: reset_password_submit_def reset_link_user_def sample_accounts_def sample_admin_def sample_account_env_def
        reset_token_is_expired_def token_is_expired_def truthy_def RESET_TOKEN_TTL_def)
  moreover have "distinct (map us_id (ac_users sample_accounts))" by (simp add: sample_accounts_def sample_admin_def sample_viewer_def)
  moreover have "us_id u = us_id v" if "u \<in> set (ac_users sample_accounts)" "v \<in> set (ac_users sample_accounts)"
    "us_reset_token u = Some ''t''" "us_reset_token v = Some ''t''" for u v
    using that by (auto simp: sample_accounts_def sample_viewer_def)
  moreover have "ae_check_password sample_account_env p (ae_hash_password sample_account_env p)" for p by (simp add: sample_account_env_def)
  ultimately show ?thesis using reset_link_single_use by blast
qed

text \<open>What the MCP server is told a caller may do never exceeds the caller's own role, nor the role configured as ceiling; and the caller is
  active.\<close>

theorem mcp_permissions_capped:
  assumes "verify_mcp_token env header obo db = (Inr (u, perms), db')"
    and "get_setting db' ''mcp_role_id'' = Some rid" "uuid_of_text rid = Some i" "find_by ro_id i (ac_roles db') = Some limit"
  shows "us_active u \<and> perms \<subseteq> set (permissions_of db' u) \<inter> set (ro_permissions limit)"
proof -
  have "us_active u \<and> perms = compute_effective_permissions u ''mcp'' db'"
    using assms(1) by (auto simp: verify_mcp_token_def Let_def split: if_splits option.splits prod.splits)
  moreover have "uuid_of_text '''' = None" by code_simp
  then have "rid \<noteq> ''''" using assms(3) by auto
  ultimately show ?thesis using assms(2-4) by (auto simp: compute_effective_permissions_def truthy_def)
qed

definition sample_mcp :: account_db where
  "sample_mcp = sample_accounts\<lparr>ac_settings := [(''mcp_enabled'', ''true''), (''mcp_role_id'', ''00000000-0000-0000-0000-000000000001'')],
     ac_keys := [\<lparr>ak_id = ''k'', ak_name = ''n'', ak_prefix = ''p'', ak_hash = ''bobmcp'', ak_type = ''mcp'', ak_user = Some ''b1'', ak_used_at = None\<rparr>],
     ac_roles := ac_roles sample_accounts @ [\<lparr>ro_id = ''00000000-0000-0000-0000-000000000001'', ro_name = ''Cap'', ro_description = '''',
       ro_permissions = [''devices:read'', ''devices:write''], ro_builtin = False\<rparr>]\<rparr>"

theorem mcp_permissions_capped_witness:
  "\<exists>perms. fst (verify_mcp_token sample_account_env ''Bearer bobmcp'' None sample_mcp) = Inr (sample_viewer, perms)
     \<and> perms \<subseteq> {''devices:read'', ''devices:write''}"
proof -
  have bearer: "bearer_token ''Bearer bobmcp'' = ''bobmcp''" by code_simp
  obtain perms where run: "verify_mcp_token sample_account_env ''Bearer bobmcp'' None sample_mcp
      = (Inr (sample_viewer, perms), snd (verify_mcp_token sample_account_env ''Bearer bobmcp'' None sample_mcp))"
    by (simp add: verify_mcp_token_def bearer sample_mcp_def sample_accounts_def sample_account_env_def SERVICE_KEY_PREFIX_def get_setting_def
        resolve_user_from_api_key_def hash_api_key_def Let_def sample_viewer_def sample_admin_def)
  have view: "account_view (snd (verify_mcp_token sample_account_env ''Bearer bobmcp'' None sample_mcp)) = account_view sample_mcp" by simp
  have uuid: "uuid_of_text ''00000000-0000-0000-0000-000000000001'' = Some ''00000000-0000-0000-0000-000000000001''" by code_simp
  have setting: "get_setting (snd (verify_mcp_token sample_account_env ''Bearer bobmcp'' None sample_mcp)) ''mcp_role_id''
      = Some ''00000000-0000-0000-0000-000000000001''"
    by (simp add: verify_mcp_token_def bearer sample_mcp_def sample_accounts_def sample_account_env_def SERVICE_KEY_PREFIX_def get_setting_def
        resolve_user_from_api_key_def hash_api_key_def Let_def sample_viewer_def sample_admin_def)
  have "us_active sample_viewer \<and> perms \<subseteq> set (permissions_of (snd (verify_mcp_token sample_account_env ''Bearer bobmcp'' None sample_mcp)) sample_viewer)
      \<inter> set [''devices:read'', ''devices:write'']"
    using mcp_permissions_capped [OF run setting uuid, where limit = "last (ac_roles sample_mcp)"] view
    by (simp add: account_view_def sample_mcp_def sample_accounts_def)
  then have "perms \<subseteq> {''devices:read'', ''devices:write''}" by auto
  moreover have "fst (verify_mcp_token sample_account_env ''Bearer bobmcp'' None sample_mcp) = Inr (sample_viewer, perms)"
    by (subst run) (rule fst_conv)
  ultimately show ?thesis by blast
qed

text \<open>Deactivating a user does not stop its API keys: a REST request with such a key still runs as the deactivated user, although its session and its MCP
  keys are refused.\<close>

theorem deactivated_user_keeps_rest_access:
  assumes "find_by ak_hash (ae_sha256 env key) (ac_keys db) = Some k" "ak_user k = Some (us_id u)" "ak_type k \<noteq> ''mcp''"
    and "find_by us_id (us_id u) (ac_users db) = Some u" "\<not> us_active u" "key \<noteq> ''''" "take (length SERVICE_KEY_PREFIX) key \<noteq> SERVICE_KEY_PREFIX"
  shows "fst (get_current_user env (key_request key) db) = Inr u \<and> (\<forall>cookie. resolve_user_from_session env cookie db \<noteq> Some u)"
  using assms session_mem [of env _ db u]
  by (auto simp: get_current_user_def key_request_def truthy_def resolve_user_from_api_key_def hash_api_key_def Let_def)

theorem deactivated_user_keeps_rest_access_witness:
  "fst (get_current_user sample_account_env (key_request ''bobkey'')
     (sample_accounts\<lparr>ac_users := [sample_viewer\<lparr>us_active := False\<rparr>]\<rparr>)) = Inr (sample_viewer\<lparr>us_active := False\<rparr>)"
  using deactivated_user_keeps_rest_access [of sample_account_env "''bobkey''" "sample_accounts\<lparr>ac_users := [sample_viewer\<lparr>us_active := False\<rparr>]\<rparr>"
      "hd (ac_keys sample_accounts)" "sample_viewer\<lparr>us_active := False\<rparr>"]
  by (simp add: sample_account_env_def sample_accounts_def sample_viewer_def SERVICE_KEY_PREFIX_def)

text \<open>The page for a forced password change sets a new password for whoever holds a session, asked for or not and without the current
  password, which the API for the same change requires.\<close>

theorem session_resets_password:
  assumes "cookie \<noteq> ''''" "resolve_user_from_session env cookie db = Some u" "\<not> us_must_change u" "6 \<le> length new_pw"
    and "find_by us_id (us_id u) (ac_users db) = Some u"
  shows "\<exists>u'. find_by us_id (us_id u) (ac_users (snd (force_password_change_submit env (Some cookie) new_pw new_pw db))) = Some u'
    \<and> us_password u' = ae_hash_password env new_pw"
  using assms by (simp add: force_password_change_submit_def truthy_def set_user_def user_rows.find_update user_writes_def)

theorem session_resets_password_witness:
  "\<exists>u'. find_by us_id ''b1'' (ac_users (snd (force_password_change_submit sample_account_env (Some ''bob'') ''secret'' ''secret'' sample_accounts))) = Some u'
     \<and> us_password u' = ''secret''"
  using session_resets_password [of "''bob''" sample_account_env sample_accounts sample_viewer "''secret''"]
  by (simp add: resolve_user_from_session_def sample_account_env_def sample_accounts_def sample_viewer_def sample_admin_def)

text \<open>A permission check fails with 403 and names the first permission missing from the role; it passes exactly when the role grants every one
  asked for, the old names of device management included.\<close>

theorem permission_check_exact:
  "fst (require_permission env perms req db) =
     (case get_current_user env req db of
        (Inl e, db') \<Rightarrow> Inl e
      | (Inr u, db') \<Rightarrow>
          (case role_of db' u of
             None \<Rightarrow> Inl (forbidden ''No role assigned'')
           | Some r \<Rightarrow>
               (case filter (\<lambda>p. p \<notin> set (ro_permissions r) \<and> \<not> (p = ''devices:manage''
                        \<and> set (ro_permissions r) \<inter> {''devices:reboot'', ''devices:delete''} \<noteq> {})) perms of
                  [] \<Rightarrow> Inr u | p # ps \<Rightarrow> Inl (forbidden (''Missing permission: '' @ p)))))"
proof -
  have missing: "missing_permission held ps = (case filter (\<lambda>p. p \<notin> set held \<and> \<not> (p = ''devices:manage''
      \<and> set held \<inter> {''devices:reboot'', ''devices:delete''} \<noteq> {})) ps of [] \<Rightarrow> None | p # qs \<Rightarrow> Some p)" for held ps
    by (induction ps) (auto simp: has_permission_def)
  show ?thesis by (auto simp: require_permission_def missing split: prod.splits sum.splits option.splits list.splits)
qed

end
