(* ===== verification/Fleet.thy ===== *)
theory Fleet
  imports Schedule_Api Accounts
begin

text \<open>
  The fleet an operator manages: device tags (\<^verbatim>\<open>cms/services/device_tags.py\<close>, \<^verbatim>\<open>cms/routers/device_tags.py\<close>), the owning
  group of a device (\<^verbatim>\<open>cms/services/device_membership.py\<close>) and the device and group handlers of \<^verbatim>\<open>cms/routers/devices.py\<close>.
  They write the tables the scheduler reads, so the state is that of the schedule API with the accounts beside it. The
  columns no rule looks at (location, descriptions) are left out. Messages other than the sync are recorded as sent;
  whether an asset resolves to a fetch message is a parameter, as is the outcome of a send.
\<close>

section \<open>State\<close>

datatype fleet_message = Wipe_Assets string | Fetch_Default string | Web_Password string | Reboot
  | Ssh_Enabled bool | Local_Api_Enabled bool | Factory_Reset

record fleet_state =
  fl_api :: api_state
  fl_acc :: account_db
  fl_profiles :: "(string \<times> bool) list"
  fl_channels :: "(string, string) dict"
  fl_credentials :: "(string, string option \<times> string option \<times> string option \<times> int option) dict"
  fl_flags :: "(string \<times> string, bool) dict"
  fl_sent :: "(string \<times> fleet_message) list"

record fleet_env =
  fe_tick :: tick_env
  fe_fresh_id :: string
  fe_fetchable :: "asset \<Rightarrow> device \<Rightarrow> bool"
  fe_delivers :: "string \<Rightarrow> bool"
  fe_composed :: "string list"

abbreviation fl_db :: "fleet_state \<Rightarrow> cms_db" where "fl_db st \<equiv> api_db (fl_api st)"

abbreviation fl_tags :: "fleet_state \<Rightarrow> tag_row list" where "fl_tags st \<equiv> as_tags (fl_api st)"

abbreviation fl_groups :: "fleet_state \<Rightarrow> device_group list" where "fl_groups st \<equiv> as_groups (fl_api st)"

definition on_api :: "(api_state \<Rightarrow> api_state) \<Rightarrow> fleet_state \<Rightarrow> fleet_state" where
  "on_api f st = st\<lparr>fl_api := f (fl_api st)\<rparr>"

definition on_db :: "(cms_db \<Rightarrow> cms_db) \<Rightarrow> fleet_state \<Rightarrow> fleet_state" where
  "on_db f st = on_api (\<lambda>a. set_db (f (api_db a)) a) st"

definition set_tags :: "tag_row list \<Rightarrow> fleet_state \<Rightarrow> fleet_state" where
  "set_tags rows st = on_api (\<lambda>a. a\<lparr>as_tags := rows\<rparr>) st"

definition fleet_audit :: "string \<Rightarrow> string \<Rightarrow> fleet_state \<Rightarrow> fleet_state" where
  "fleet_audit action rid st = on_api (audit action rid) st"

definition push_sync :: "fleet_env \<Rightarrow> string \<Rightarrow> fleet_state \<Rightarrow> fleet_state" where
  "push_sync env did st = on_api (push_to (fe_tick env) did) st"

definition post :: "fleet_env \<Rightarrow> string \<Rightarrow> fleet_message \<Rightarrow> fleet_state \<Rightarrow> fleet_state" where
  "post env did m st = (if fe_delivers env did then st\<lparr>fl_sent := fl_sent st @ [(did, m)]\<rparr> else st)"

definition device_row :: "fleet_state \<Rightarrow> string \<Rightarrow> device option" where
  "device_row st did = find_by dev_id did (devices (fl_db st))"

definition set_device :: "string \<Rightarrow> (device \<Rightarrow> device) \<Rightarrow> fleet_state \<Rightarrow> fleet_state" where
  "set_device did f st = on_db (\<lambda>d. d\<lparr>devices := update_where (\<lambda>x. dev_id x = did) f (devices d)\<rparr>) st"

section \<open>Tags\<close>

definition MAX_TAG_NAME_LENGTH :: nat where "MAX_TAG_NAME_LENGTH = 64"

definition DEFAULT_DEVICE_TAG_COLOR :: string where "DEFAULT_DEVICE_TAG_COLOR = ''#737373''"

text \<open>\<^verbatim>\<open>re.sub(r"\s+", " ", s)\<close>\<close>

function collapse_spaces :: "string \<Rightarrow> string" where
  "collapse_spaces [] = []"
| "collapse_spaces (c # cs) =
     (if whitespace c then CHR '' '' # collapse_spaces (dropWhile whitespace cs) else c # collapse_spaces cs)"
  by pat_completeness auto
termination by (relation "measure length") (auto simp: le_imp_less_Suc length_dropWhile_le)

text \<open>\<^verbatim>\<open>DeviceTagError\<close> is its message.\<close>

definition normalize_tag_name :: "string \<Rightarrow> string + string" where
  "normalize_tag_name name =
     (let cleaned = collapse_spaces (strip name)
      in if cleaned = '''' then Inl ''Tag name cannot be empty''
         else if length cleaned > MAX_TAG_NAME_LENGTH then Inl ''Tag name cannot exceed 64 characters''
         else Inr cleaned)"

definition hex_color :: "string \<Rightarrow> bool" where
  "hex_color s = (case s of [] \<Rightarrow> False
     | c # cs \<Rightarrow> c = CHR ''#'' \<and> length cs \<in> {3, 6} \<and> list_all (\<lambda>x. x \<in> set ''0123456789abcdefABCDEF'') cs)"

definition normalize_tag_color :: "string option \<Rightarrow> string + string" where
  "normalize_tag_color color =
     (case color of None \<Rightarrow> Inr DEFAULT_DEVICE_TAG_COLOR
      | Some c \<Rightarrow> if strip c = '''' then Inr DEFAULT_DEVICE_TAG_COLOR
          else if \<not> hex_color (strip c) then Inl ''Tag color must be a hex value like #737373''
          else Inr (lower_text (strip c)))"

definition find_by_name :: "string \<Rightarrow> string \<Rightarrow> tag_row list \<Rightarrow> tag_row option" where
  "find_by_name g name rows = List.find (\<lambda>t. tag_group_id t = g \<and> lower_text (tag_name t) = lower_text name) rows"

definition name_taken :: "string \<Rightarrow> string" where
  "name_taken name = ''A tag named '' @ quoted name @ '' already exists in this group''"

definition create_tag :: "string \<Rightarrow> string \<Rightarrow> string \<Rightarrow> string option \<Rightarrow> tag_row list \<Rightarrow> string + (tag_row \<times> tag_row list)" where
  "create_tag new_id g name color rows =
     result_bind (normalize_tag_name name) (\<lambda>clean_name.
     result_bind (normalize_tag_color color) (\<lambda>clean_color.
       if find_by_name g clean_name rows \<noteq> None then Inl (name_taken clean_name)
       else let t = \<lparr>tag_row_id = new_id, tag_group_id = g, tag_name = clean_name, tag_color = clean_color\<rparr>
            in Inr (t, insert_row t rows)))"

definition rename_tag :: "tag_row \<Rightarrow> string \<Rightarrow> tag_row list \<Rightarrow> string + tag_row list" where
  "rename_tag t name rows =
     result_bind (normalize_tag_name name) (\<lambda>clean_name.
       if lower_text clean_name \<noteq> lower_text (tag_name t) \<and> find_by_name (tag_group_id t) clean_name rows \<noteq> None
       then Inl (name_taken clean_name)
       else Inr (update_where (\<lambda>r. tag_row_id r = tag_row_id t) (\<lambda>r. r\<lparr>tag_name := clean_name\<rparr>) rows))"

text \<open>Deleting a tag: its assignments and the schedules narrowed by it go with it, and the skips and the log references of
  those.\<close>

definition drop_schedules :: "(schedule \<Rightarrow> bool) \<Rightarrow> fleet_state \<Rightarrow> fleet_state" where
  "drop_schedules P st =
     (let gone = map sched_id (filter P (schedules (fl_db st)))
      in on_api (\<lambda>a. let ev = as_eval a; d = es_db ev
           in a\<lparr>as_eval := ev\<lparr>es_db := d\<lparr>schedules := delete_where P (schedules d),
                  device_skips := delete_where (\<lambda>(i, dv, t). i \<in> set gone) (device_skips d)\<rparr>,
                es_logs := map (\<lambda>l. if log_schedule_id l \<in> Some ` set gone then l\<lparr>log_schedule_id := None\<rparr> else l) (es_logs ev)\<rparr>\<rparr>) st)"

definition delete_tag :: "string \<Rightarrow> fleet_state \<Rightarrow> fleet_state" where
  "delete_tag tid st = on_db (\<lambda>d. d\<lparr>tag_assignments := delete_where (\<lambda>(t, did). t = tid) (tag_assignments d)\<rparr>)
     (set_tags (delete_where (\<lambda>t. tag_row_id t = tid) (fl_tags st)) (drop_schedules (\<lambda>s. tag_id s = Some tid) st))"

text \<open>\<^verbatim>\<open>list(dict.fromkeys(xs))\<close>: the first of equal elements stays.\<close>

definition fromkeys :: "'a list \<Rightarrow> 'a list" where
  "fromkeys xs = rev (remdups (rev xs))"

definition names_of :: "tag_row list \<Rightarrow> string list" where
  "names_of rows = map tag_name (sort_key (\<lambda>t. lower_text (tag_name t)) rows)"

definition assigned_tags :: "string \<Rightarrow> fleet_state \<Rightarrow> tag_row list" where
  "assigned_tags did st = filter (\<lambda>t. (tag_row_id t, did) \<in> set (tag_assignments (fl_db st))) (fl_tags st)"

definition get_device_tags :: "string \<Rightarrow> fleet_state \<Rightarrow> tag_row list" where
  "get_device_tags did st = sort_key (\<lambda>t. lower_text (tag_name t)) (assigned_tags did st)"

definition set_assignments :: "string \<Rightarrow> string list \<Rightarrow> fleet_state \<Rightarrow> fleet_state" where
  "set_assignments did tids st = on_db (\<lambda>d. d\<lparr>tag_assignments :=
     delete_where (\<lambda>(t, x). x = did) (tag_assignments d) @ map (\<lambda>t. (t, did)) tids\<rparr>) st"

definition set_device_tags :: "device \<Rightarrow> string list \<Rightarrow> fleet_state \<Rightarrow> string + (tag_row list \<times> fleet_state)" where
  "set_device_tags dv tag_ids st =
     (let wanted = fromkeys tag_ids;
          tags = filter (\<lambda>t. tag_row_id t \<in> set wanted) (fl_tags st);
          missing = filter (\<lambda>i. i \<notin> tag_row_id ` set tags) wanted;
          foreign = filter (\<lambda>t. Some (tag_group_id t) \<noteq> dev_group_id dv) tags
      in if wanted \<noteq> [] \<and> dev_group_id dv = None then Inl ''Assign the device to a group before tagging it''
         else if missing \<noteq> [] then Inl (''Unknown tag(s): '' @ join_text '', '' missing)
         else if foreign \<noteq> [] then Inl (''Tag(s) belong to a different group: '' @ join_text '', '' (sort (map tag_name foreign)))
         else Inr (sort_key (\<lambda>t. lower_text (tag_name t)) tags, set_assignments (dev_id dv) (map tag_row_id tags) st))"

definition clear_device_tags :: "string \<Rightarrow> fleet_state \<Rightarrow> string list \<times> fleet_state" where
  "clear_device_tags did st =
     (let dropped = names_of (assigned_tags did st)
      in (dropped, if dropped \<noteq> [] then set_assignments did [] st else st))"

definition tagged_device_ids :: "string \<Rightarrow> fleet_state \<Rightarrow> string set" where
  "tagged_device_ids tid st = {did. (tid, did) \<in> set (tag_assignments (fl_db st))}"

definition qualified_tag_name :: "string option \<Rightarrow> string \<Rightarrow> string" where
  "qualified_tag_name group_name name = (if truthy group_name then the group_name else ''?'') @ '':'' @ name"

section \<open>The owning group\<close>

record device_group_change =
  gc_previous :: "string option"
  gc_new :: "string option"
  gc_changed :: bool
  gc_dropped :: "string list"

definition find_device_group :: "fleet_state \<Rightarrow> string \<Rightarrow> device_group option" where
  "find_device_group st g = find_by dg_id g (fl_groups st)"

definition set_device_group :: "device \<Rightarrow> string option \<Rightarrow> bool \<Rightarrow> fleet_state \<Rightarrow> device_group_change \<times> fleet_state" where
  "set_device_group dv g dry_run st =
     (let change = \<lparr>gc_previous = dev_group_id dv, gc_new = g, gc_changed = (dev_group_id dv \<noteq> g), gc_dropped = []\<rparr>
      in if dev_group_id dv = g then (change, st)
         else if dry_run then (change\<lparr>gc_dropped := names_of (assigned_tags (dev_id dv) st)\<rparr>, st)
         else (case clear_device_tags (dev_id dv) st of (dropped, st') \<Rightarrow>
           (change\<lparr>gc_dropped := dropped\<rparr>, set_device (dev_id dv)
             (\<lambda>x. x\<lparr>dev_group_id := g, dev_group := (case g of None \<Rightarrow> None | Some i \<Rightarrow> find_device_group st i)\<rparr>) st')))"

section \<open>The tag API\<close>

definition http :: "int \<Rightarrow> string + 'a \<Rightarrow> api_error + 'a" where
  "http code r = (case r of Inl detail \<Rightarrow> Inl (HTTPException code detail) | Inr x \<Rightarrow> Inr x)"

definition load_group :: "fleet_state \<Rightarrow> string \<Rightarrow> api_error + device_group" where
  "load_group st g = (case find_device_group st g of None \<Rightarrow> Inl (HTTPException 404 ''Group not found'') | Some x \<Rightarrow> Inr x)"

definition load_tag :: "fleet_state \<Rightarrow> string \<Rightarrow> api_error + tag_row" where
  "load_tag st tid = (case find_by tag_row_id tid (fl_tags st) of None \<Rightarrow> Inl (HTTPException 404 ''Tag not found'') | Some t \<Rightarrow> Inr t)"

definition load_device :: "fleet_state \<Rightarrow> string \<Rightarrow> api_error + device" where
  "load_device st did = (case device_row st did of None \<Rightarrow> Inl (HTTPException 404 ''Device not found'') | Some dv \<Rightarrow> Inr dv)"

definition group_access :: "user \<Rightarrow> fleet_state \<Rightarrow> string list \<Rightarrow> api_error + unit" where
  "group_access u st scope = guard (verify_resource_group_access u (fl_acc st) scope)"

definition get_device_group_ids :: "device \<Rightarrow> string list" where
  "get_device_group_ids dv = (case dev_group_id dv of None \<Rightarrow> [] | Some g \<Rightarrow> [g])"

definition get_device_with_access :: "user \<Rightarrow> string \<Rightarrow> fleet_state \<Rightarrow> api_error + device" where
  "get_device_with_access u did st =
     result_bind (load_device st did) (\<lambda>dv. result_bind (group_access u st (get_device_group_ids dv)) (\<lambda>_. Inr dv))"

definition create_group_tag :: "fleet_env \<Rightarrow> user \<Rightarrow> string \<Rightarrow> string \<Rightarrow> string option \<Rightarrow> fleet_state \<Rightarrow> api_error + fleet_state" where
  "create_group_tag env u g name color st =
     result_bind (load_group st g) (\<lambda>_.
     result_bind (group_access u st [g]) (\<lambda>_.
     result_bind (http 422 (create_tag (fe_fresh_id env) g name color (fl_tags st))) (\<lambda>(t, rows).
       Inr (fleet_audit ''device_tag.create'' (tag_row_id t) (set_tags rows st)))))"

definition update_group_tag :: "user \<Rightarrow> string \<Rightarrow> string option \<Rightarrow> string option \<Rightarrow> fleet_state \<Rightarrow> api_error + fleet_state" where
  "update_group_tag u tid name color st =
     result_bind (load_tag st tid) (\<lambda>t.
     result_bind (group_access u st [tag_group_id t]) (\<lambda>_.
     result_bind (load_group st (tag_group_id t)) (\<lambda>_.
     result_bind (http 422 (case name of None \<Rightarrow> Inr (fl_tags st) | Some n \<Rightarrow> rename_tag t n (fl_tags st))) (\<lambda>rows.
     result_bind (http 422 (case color of None \<Rightarrow> Inr rows
         | Some c \<Rightarrow> result_bind (normalize_tag_color (Some c)) (\<lambda>clean.
             Inr (update_where (\<lambda>r. tag_row_id r = tid) (\<lambda>r. r\<lparr>tag_color := clean\<rparr>) rows)))) (\<lambda>rows'.
       Inr (fleet_audit ''device_tag.update'' tid (set_tags rows' st)))))))"

definition delete_group_tag :: "user \<Rightarrow> string \<Rightarrow> fleet_state \<Rightarrow> api_error + fleet_state" where
  "delete_group_tag u tid st =
     result_bind (load_tag st tid) (\<lambda>t.
     result_bind (group_access u st [tag_group_id t]) (\<lambda>_.
     result_bind (load_group st (tag_group_id t)) (\<lambda>_.
       Inr (fleet_audit ''device_tag.delete'' tid (delete_tag tid st)))))"

definition put_device_tags :: "fleet_env \<Rightarrow> user \<Rightarrow> string \<Rightarrow> string list \<Rightarrow> fleet_state \<Rightarrow> api_error + fleet_state" where
  "put_device_tags env u did tag_ids st =
     result_bind (get_device_with_access u did st) (\<lambda>dv.
       let before = current_device_targeting (fl_db st) did;
           after = \<lparr>dt_group_id = dev_group_id dv, dt_tag_ids = tag_ids\<rparr>
       in case validate_device_transition (fl_db st) [(did, after)] [(did, before)] (fe_composed env) of
            Inl e \<Rightarrow> Inl (Uncaught e)
          | Inr validation \<Rightarrow>
              result_bind (case map_of validation did of
                 Some r \<Rightarrow> if introduced_conflicts r \<noteq> []
                   then Inl (HTTPException 409 (''These tags would make two equal-priority schedules overlap on this device: ''
                     @ describe_conflicts (introduced_conflicts r) @ ''. Change one schedule'' @ [CHR 0x27] @ ''s priority or its tag first.''))
                   else Inr ()
               | None \<Rightarrow> Inr ()) (\<lambda>_.
              result_bind (http 422 (set_device_tags dv tag_ids st)) (\<lambda>(tags, st').
                  Inr (push_sync env did (fleet_audit ''device.tags_set'' did st')))))"

section \<open>The device API\<close>

definition CHANNELS :: "string list" where "CHANNELS = [''stable'', ''prerelease'']"

text \<open>The fields of a request that were set; an inner absence is an explicit null.\<close>

record device_update =
  du_name :: "string option"
  du_status :: "device_status option"
  du_group :: "string option option"
  du_default :: "string option option"
  du_profile :: "string option option"
  du_timezone :: "string option option"
  du_channel :: "string option option"

definition membership_denied :: api_error where
  "membership_denied = HTTPException 403
     ''Managing device group membership requires devices:write plus schedule read/write access to every affected group''"

definition verify_group_change_access :: "user \<Rightarrow> device \<Rightarrow> string option \<Rightarrow> fleet_state \<Rightarrow> api_error + unit" where
  "verify_group_change_access u dv target st =
     result_bind (case target of None \<Rightarrow> Inr (get_device_group_ids dv)
         | Some g \<Rightarrow> result_bind (load_group st g) (\<lambda>_. Inr (get_device_group_ids dv @ [g]))) (\<lambda>touched.
       if list_all (can_manage_group_membership u (fl_acc st)) touched then Inr () else Inl membership_denied)"

definition require_existing_groups :: "string list \<Rightarrow> fleet_state \<Rightarrow> api_error + unit" where
  "require_existing_groups gs st =
     (if set gs \<subseteq> dg_id ` set (fl_groups st) then Inr () else Inl (HTTPException 404 ''Group not found''))"

definition require_profile :: "string \<Rightarrow> fleet_state \<Rightarrow> api_error + unit" where
  "require_profile pid st =
     (case map_of (fl_profiles st) pid of
        None \<Rightarrow> Inl (HTTPException 404 ''Profile not found'')
      | Some on \<Rightarrow> if on then Inr () else Inl (HTTPException 422 ''Profile is disabled''))"

definition require_default_asset :: "string \<Rightarrow> device list \<Rightarrow> string \<Rightarrow> fleet_state \<Rightarrow> api_error + asset" where
  "require_default_asset detail members aid st =
     result_bind (require_asset_ready (as_assets (fl_api st)) (es_variants (as_eval (fl_api st))) aid) (\<lambda>a.
       if asset_type_of a = SLIDESHOW \<and> list_ex (\<lambda>dv. CAPABILITY_SLIDESHOW_V1 \<notin> set (capabilities dv)) members
       then Inl (HTTPException 422 detail) else Inr a)"

definition push_default_asset :: "fleet_env \<Rightarrow> asset \<Rightarrow> string \<Rightarrow> fleet_state \<Rightarrow> fleet_state" where
  "push_default_asset env a did st =
     (case device_row st did of
        None \<Rightarrow> st
      | Some dv \<Rightarrow> push_sync env did (if fe_fetchable env a dv then post env did (Fetch_Default (asset_id a)) st else st))"

definition managed :: "device_update \<Rightarrow> bool" where
  "managed u \<longleftrightarrow> du_profile u \<noteq> None \<or> du_timezone u \<noteq> None \<or> du_status u \<noteq> None"

definition changed_device :: "device_update \<Rightarrow> asset option \<Rightarrow> device \<Rightarrow> device" where
  "changed_device u a dv = dv\<lparr>dev_name := opt (du_name u) (dev_name dv), dev_status := opt (du_status u) (dev_status dv),
     dev_default_asset := (case du_default u of None \<Rightarrow> dev_default_asset dv | Some v \<Rightarrow> a),
     dev_profile_id := opt (du_profile u) (dev_profile_id dv), dev_timezone := opt (du_timezone u) (dev_timezone dv)\<rparr>"

definition push_after_update :: "fleet_env \<Rightarrow> device_update \<Rightarrow> string \<Rightarrow> fleet_state \<Rightarrow> fleet_state" where
  "push_after_update env u did st =
     (if du_group u \<noteq> None then push_sync env did st
      else if du_default u \<noteq> None
      then (case device_row st did of
          None \<Rightarrow> push_sync env did st
        | Some dv \<Rightarrow> (case (case dev_default_asset dv of Some a \<Rightarrow> Some a | None \<Rightarrow> resolve_group_default_asset dv) of
              Some a \<Rightarrow> push_default_asset env a did st | None \<Rightarrow> push_sync env did st))
      else if du_timezone u \<noteq> None then push_sync env did st
      else st)"

definition update_device :: "fleet_env \<Rightarrow> user \<Rightarrow> string \<Rightarrow> device_update \<Rightarrow> fleet_state \<Rightarrow> api_error + fleet_state" where
  "update_device env actor did u st =
     result_bind (get_device_with_access actor did st) (\<lambda>dv.
     result_bind (case du_group u of None \<Rightarrow> Inr ()
         | Some g \<Rightarrow> result_bind (verify_group_change_access actor dv g st) (\<lambda>_.
             require_existing_groups (case g of None \<Rightarrow> [] | Some x \<Rightarrow> [x]) st)) (\<lambda>_.
     result_bind (guard (case du_channel u of None \<Rightarrow> None
         | Some c \<Rightarrow> if c \<in> Some ` set CHANNELS then None
             else Some (HTTPException 422 ''update_channel must be one of [prerelease, stable]''))) (\<lambda>_.
     result_bind (guard (if managed u \<and> \<not> has_permission (permissions_of (fl_acc st) actor) ''devices:manage''
         then Some (forbidden ''Missing permission: devices:manage'') else None)) (\<lambda>_.
     result_bind (case du_default u of Some (Some aid) \<Rightarrow>
           result_bind (require_default_asset (''Slideshow assets require firmware advertising the '' @ quoted CAPABILITY_SLIDESHOW_V1
             @ '' capability. This device is not compatible.'') [dv] aid st) (\<lambda>a. Inr (Some a))
         | _ \<Rightarrow> Inr None) (\<lambda>a.
     result_bind (case du_profile u of Some (Some pid) \<Rightarrow> require_profile pid st | _ \<Rightarrow> Inr ()) (\<lambda>_.
       let st1 = set_device did (changed_device u a) st;
           st2 = (case du_channel u of Some (Some c) \<Rightarrow> st1\<lparr>fl_channels := dict_set did c (fl_channels st1)\<rparr> | _ \<Rightarrow> st1);
           st3 = (case du_group u of None \<Rightarrow> st2 | Some g \<Rightarrow> snd (set_device_group dv g False st2))
       in Inr (push_after_update env u did (fleet_audit ''device.update'' did st3))))))))"

text \<open>The commands: refused when the device is not connected, and when the send fails.\<close>

definition send_command ::
  "fleet_env \<Rightarrow> user \<Rightarrow> string \<Rightarrow> fleet_message \<Rightarrow> string \<Rightarrow> (fleet_state \<Rightarrow> fleet_state) \<Rightarrow> fleet_state \<Rightarrow> api_error + fleet_state" where
  "send_command env actor did m action after st =
     result_bind (get_device_with_access actor did st) (\<lambda>dv.
       if did \<notin> set (te_connected (fe_tick env)) then Inl (HTTPException 409 ''Device is not connected'')
       else if \<not> fe_delivers env did then Inl (HTTPException 502 ''Failed to send to device'')
       else Inr (fleet_audit action did (after (post env did m st))))"

definition set_device_password :: "fleet_env \<Rightarrow> user \<Rightarrow> string \<Rightarrow> string \<Rightarrow> fleet_state \<Rightarrow> api_error + fleet_state" where
  "set_device_password env actor did pw st =
     (if strip pw = '''' then Inl (HTTPException 400 ''Password cannot be empty'')
      else if length (strip pw) < 4 then Inl (HTTPException 400 ''Password must be at least 4 characters'')
      else send_command env actor did (Web_Password (strip pw)) ''device.set_password'' id st)"

definition reboot_device :: "fleet_env \<Rightarrow> user \<Rightarrow> string \<Rightarrow> fleet_state \<Rightarrow> api_error + fleet_state" where
  "reboot_device env actor did st = send_command env actor did Reboot ''device.reboot'' id st"

definition set_flag :: "string \<Rightarrow> string \<Rightarrow> bool \<Rightarrow> fleet_state \<Rightarrow> fleet_state" where
  "set_flag did flag v st = st\<lparr>fl_flags := dict_set (did, flag) v (fl_flags st)\<rparr>"

definition toggle_device_ssh :: "fleet_env \<Rightarrow> user \<Rightarrow> string \<Rightarrow> bool \<Rightarrow> fleet_state \<Rightarrow> api_error + fleet_state" where
  "toggle_device_ssh env actor did v st =
     send_command env actor did (Ssh_Enabled v) ''device.ssh_toggle'' (set_flag did ''ssh_enabled'' v) st"

definition toggle_device_local_api :: "fleet_env \<Rightarrow> user \<Rightarrow> string \<Rightarrow> bool \<Rightarrow> fleet_state \<Rightarrow> api_error + fleet_state" where
  "toggle_device_local_api env actor did v st =
     send_command env actor did (Local_Api_Enabled v) ''device.local_api_toggle'' (set_flag did ''local_api_enabled'' v) st"

definition factory_reset_device :: "fleet_env \<Rightarrow> user \<Rightarrow> string \<Rightarrow> fleet_state \<Rightarrow> api_error + fleet_state" where
  "factory_reset_device env actor did st = send_command env actor did Factory_Reset ''device.factory_reset'' id st"

record adopt_body =
  ab_name :: "string option"
  ab_group :: "string option"
  ab_profile :: string

text \<open>Adoption by an administrator of a device that registered itself.\<close>

definition adopt_row :: "fleet_env \<Rightarrow> user \<Rightarrow> string \<Rightarrow> adopt_body \<Rightarrow> fleet_state \<Rightarrow> api_error + fleet_state" where
  "adopt_row env actor did body st =
     result_bind (get_device_with_access actor did st) (\<lambda>dv.
     result_bind (if dev_status dv = ADOPTED then Inl (HTTPException 400 ''Device is already adopted'')
         else Inr (if dev_status dv = ORPHANED then st\<lparr>fl_credentials := dict_set did (None, None, None, None) (fl_credentials st)\<rparr> else st)) (\<lambda>st1.
     result_bind (case ab_group body of None \<Rightarrow> Inr ()
         | Some g \<Rightarrow> result_bind (require_existing_groups [g] st) (\<lambda>_. verify_group_change_access actor dv (Some g) st)) (\<lambda>_.
     result_bind (require_profile (ab_profile body) st) (\<lambda>_.
       let st2 = (case ab_group body of None \<Rightarrow> st1 | Some g \<Rightarrow> snd (set_device_group dv (Some g) False st1));
           st3 = set_device did (\<lambda>x. x\<lparr>dev_status := ADOPTED, dev_name := opt (ab_name body) (dev_name x),
                   dev_profile_id := Some (ab_profile body)\<rparr>) st2
       in Inr (fleet_audit ''device.adopt'' did (push_sync env did (post env did (Wipe_Assets ''adopted'') st3)))))))"

text \<open>Deleting a device: assignments and skips go with it, log rows lose the reference.\<close>

definition drop_device :: "string \<Rightarrow> fleet_state \<Rightarrow> fleet_state" where
  "drop_device did st = on_api (\<lambda>a. let ev = as_eval a; d = es_db ev
     in a\<lparr>as_eval := ev\<lparr>es_db := d\<lparr>devices := delete_where (\<lambda>x. dev_id x = did) (devices d),
            tag_assignments := delete_where (\<lambda>(t, x). x = did) (tag_assignments d),
            device_skips := delete_where (\<lambda>(i, x, t). x = did) (device_skips d)\<rparr>,
          es_logs := map (\<lambda>l. if log_device_id l = Some did then l\<lparr>log_device_id := None\<rparr> else l) (es_logs ev)\<rparr>\<rparr>) st"

definition delete_device :: "fleet_env \<Rightarrow> user \<Rightarrow> string \<Rightarrow> fleet_state \<Rightarrow> api_error + fleet_state" where
  "delete_device env actor did st =
     result_bind (get_device_with_access actor did st) (\<lambda>dv.
       Inr (drop_device did (fleet_audit ''device.delete'' did (post env did (Wipe_Assets ''deleted'') st))))"

section \<open>The group API\<close>

definition group_name_error :: "string \<Rightarrow> api_error" where
  "group_name_error name = HTTPException 409 (''Device group named '' @ quoted name @ '' already exists'')"

definition create_group :: "fleet_env \<Rightarrow> user \<Rightarrow> string \<Rightarrow> string option \<Rightarrow> fleet_state \<Rightarrow> api_error + fleet_state" where
  "create_group env actor name default_asset st =
     result_bind (case default_asset of None \<Rightarrow> Inr None
         | Some aid \<Rightarrow> result_bind (require_asset_ready (as_assets (fl_api st)) (es_variants (as_eval (fl_api st))) aid) (\<lambda>a. Inr (Some a))) (\<lambda>a.
     result_bind (guard (if name \<in> dg_name ` set (fl_groups st) then Some (group_name_error name) else None)) (\<lambda>_.
       let g = fe_fresh_id env;
           st1 = on_api (\<lambda>x. x\<lparr>as_groups := insert_row \<lparr>dg_id = g, dg_name = name, dg_default_asset = a\<rparr> (as_groups x)\<rparr>) st;
           acc = (fl_acc st)\<lparr>ac_groups := ac_groups (fl_acc st) @ [g]\<rparr>
       in result_bind (get_user_group_ids actor (fl_acc st)) (\<lambda>scope.
         Inr (fleet_audit ''group.create'' g (st1\<lparr>fl_acc := (if scope = None then acc
           else acc\<lparr>ac_user_groups := ac_user_groups acc @ [(us_id actor, g)]\<rparr>)\<rparr>)))))"

record group_update =
  gu_name :: "string option"
  gu_default :: "string option option"

text \<open>The rows that point to a changed group are read with its new columns.\<close>

definition refresh_group :: "device_group \<Rightarrow> fleet_state \<Rightarrow> fleet_state" where
  "refresh_group g st = on_db (\<lambda>d. d\<lparr>devices := update_where (\<lambda>x. dev_group_id x = Some (dg_id g)) (\<lambda>x. x\<lparr>dev_group := Some g\<rparr>) (devices d),
       schedules := update_where (\<lambda>s. group_id s = Some (dg_id g)) (\<lambda>s. s\<lparr>sched_group := Some g\<rparr>) (schedules d)\<rparr>)
     (on_api (\<lambda>a. a\<lparr>as_groups := update_where (\<lambda>x. dg_id x = dg_id g) (\<lambda>_. g) (as_groups a)\<rparr>) st)"

definition group_members :: "string \<Rightarrow> fleet_state \<Rightarrow> string list" where
  "group_members g st = map fst (effective_device_group_rows (devices (fl_db st)) None (Some [g]) None)"

definition push_group_default :: "fleet_env \<Rightarrow> device_group \<Rightarrow> string \<Rightarrow> fleet_state \<Rightarrow> fleet_state" where
  "push_group_default env g did st =
     (case device_row st did of
        None \<Rightarrow> st
      | Some dv \<Rightarrow> (case (case dev_default_asset dv of Some a \<Rightarrow> Some a | None \<Rightarrow> dg_default_asset g) of
          Some a \<Rightarrow> push_default_asset env a did st | None \<Rightarrow> push_sync env did st))"

definition update_group :: "fleet_env \<Rightarrow> user \<Rightarrow> string \<Rightarrow> group_update \<Rightarrow> fleet_state \<Rightarrow> api_error + fleet_state" where
  "update_group env actor gid u st =
     result_bind (load_group st gid) (\<lambda>g.
     result_bind (group_access actor st [gid]) (\<lambda>_.
     result_bind (case gu_default u of Some (Some aid) \<Rightarrow>
           result_bind (require_default_asset (''Slideshow assets require firmware advertising the '' @ quoted CAPABILITY_SLIDESHOW_V1
             @ '' capability. These devices in the group are not compatible: ''
             @ name_list (filter (\<lambda>dv. CAPABILITY_SLIDESHOW_V1 \<notin> set (capabilities dv)) (group_adopted gid (devices (fl_db st)))))
             (group_adopted gid (devices (fl_db st))) aid st) (\<lambda>a. Inr (Some (Some a)))
         | Some None \<Rightarrow> Inr (Some None)
         | None \<Rightarrow> Inr None) (\<lambda>a.
     result_bind (guard (case gu_name u of None \<Rightarrow> None
         | Some n \<Rightarrow> if \<exists>x \<in> set (fl_groups st). dg_name x = n \<and> dg_id x \<noteq> gid then Some integrity_error else None)) (\<lambda>_.
       let g' = g\<lparr>dg_name := opt (gu_name u) (dg_name g), dg_default_asset := opt a (dg_default_asset g)\<rparr>;
           st1 = fleet_audit ''group.update'' gid (refresh_group g' st)
       in Inr (if gu_default u = None then st1 else fold (push_group_default env g') (group_members gid st1) st1)))))"

definition drop_group :: "string \<Rightarrow> fleet_state \<Rightarrow> fleet_state" where
  "drop_group gid st =
     (let gone = map tag_row_id (filter (\<lambda>t. tag_group_id t = gid) (fl_tags st))
      in (on_db (\<lambda>d. d\<lparr>devices := update_where (\<lambda>x. dev_group_id x = Some gid) (\<lambda>x. x\<lparr>dev_group_id := None, dev_group := None\<rparr>) (devices d),
             tag_assignments := delete_where (\<lambda>(t, x). t \<in> set gone) (tag_assignments d)\<rparr>)
           (on_api (\<lambda>a. a\<lparr>as_groups := delete_where (\<lambda>x. dg_id x = gid) (as_groups a),
              as_tags := delete_where (\<lambda>t. tag_group_id t = gid) (as_tags a)\<rparr>) st))
         \<lparr>fl_acc := (fl_acc st)\<lparr>ac_groups := filter (\<lambda>x. x \<noteq> gid) (ac_groups (fl_acc st)),
            ac_user_groups := filter (\<lambda>(u, x). x \<noteq> gid) (ac_user_groups (fl_acc st))\<rparr>\<rparr>)"

definition delete_group :: "fleet_env \<Rightarrow> user \<Rightarrow> string \<Rightarrow> fleet_state \<Rightarrow> api_error + fleet_state" where
  "delete_group env actor gid st =
     result_bind (load_group st gid) (\<lambda>g.
     result_bind (group_access actor st [gid]) (\<lambda>_.
       let used = rowcount (\<lambda>s. group_id s = Some gid) (schedules (fl_db st))
       in if used \<noteq> 0
          then Inl (HTTPException 409 (''Cannot delete '' @ em_dash @ '' group is used by '' @ nat_text used
            @ '' schedule(s). Remove it from all schedules first.''))
          else Inr (fold (push_sync env) (sort (remdups (group_members gid st)))
            (drop_group gid (fleet_audit ''group.delete'' gid st)))))"

text \<open>What the lists show: devices in scope, pending and orphaned ones to managers only; groups in scope.\<close>

definition list_devices :: "user \<Rightarrow> fleet_state \<Rightarrow> api_error + device list" where
  "list_devices u st =
     result_bind (get_user_group_ids u (fl_acc st)) (\<lambda>scope.
       Inr (filter (\<lambda>dv. (has_permission (permissions_of (fl_acc st) u) ''devices:manage'' \<or> dev_status dv = ADOPTED)
         \<and> build_group_read_scope_clause scope (dev_group_id dv)) (devices (fl_db st))))"

definition list_groups :: "user \<Rightarrow> fleet_state \<Rightarrow> api_error + (device_group \<times> nat) list" where
  "list_groups u st =
     result_bind (get_user_group_ids u (fl_acc st)) (\<lambda>scope.
       Inr (map (\<lambda>g. (g, card (set (group_members (dg_id g) st))))
         (sort_key dg_name (filter (\<lambda>g. case scope of None \<Rightarrow> True | Some gs \<Rightarrow> dg_id g \<in> set gs) (fl_groups st)))))"

section \<open>The invariant\<close>

text \<open>What the rows refer to: tags with their group, devices with theirs.\<close>

definition tag_pairs :: "tag_row list \<Rightarrow> (string \<times> string) set" where
  "tag_pairs tags = (\<lambda>r. (tag_row_id r, tag_group_id r)) ` set tags"

definition dev_pairs :: "device list \<Rightarrow> (string \<times> string option) set" where
  "dev_pairs devs = (\<lambda>dv. (dev_id dv, dev_group_id dv)) ` set devs"

text \<open>A schedule has an existing group, and a tag of that group.\<close>

definition sched_refs :: "tag_row list \<Rightarrow> string set \<Rightarrow> schedule \<Rightarrow> bool" where
  "sched_refs tags gids s \<longleftrightarrow> (\<forall>g. group_id s = Some g \<longrightarrow> g \<in> gids)
     \<and> (\<forall>t. tag_id s = Some t \<longrightarrow> (\<exists>g. group_id s = Some g \<and> (t, g) \<in> tag_pairs tags))"

definition tags_ok :: "tag_row list \<Rightarrow> string set \<Rightarrow> bool" where
  "tags_ok tags gids \<longleftrightarrow> distinct (map tag_row_id tags) \<and> distinct (map (\<lambda>t. (tag_group_id t, lower_text (tag_name t))) tags)
     \<and> snd ` tag_pairs tags \<subseteq> gids"

definition devices_ok :: "device list \<Rightarrow> string set \<Rightarrow> bool" where
  "devices_ok devs gids \<longleftrightarrow> distinct (map dev_id devs) \<and> snd ` dev_pairs devs \<subseteq> insert None (Some ` gids)"

text \<open>A device carries tags of its own group only.\<close>

definition assignments_ok :: "cms_db \<Rightarrow> tag_row list \<Rightarrow> bool" where
  "assignments_ok d tags \<longleftrightarrow> (\<forall>e \<in> set (tag_assignments d). \<exists>g. (fst e, g) \<in> tag_pairs tags \<and> (snd e, Some g) \<in> dev_pairs (devices d))"

definition fleet_tables :: "cms_db \<Rightarrow> tag_row list \<Rightarrow> string set \<Rightarrow> bool" where
  "fleet_tables d tags gids \<longleftrightarrow> table_ok d \<and> devices_ok (devices d) gids \<and> tags_ok tags gids \<and> assignments_ok d tags
     \<and> (\<forall>s \<in> set (schedules d). sched_refs tags gids s)"

definition fleet_ok :: "fleet_state \<Rightarrow> bool" where
  "fleet_ok st \<longleftrightarrow> fleet_tables (fl_db st) (fl_tags st) (dg_id ` set (fl_groups st))"

subsection \<open>Frames\<close>

lemma api_frames [simp]:
  "as_tags (push_to env did a) = as_tags a" "as_groups (push_to env did a) = as_groups a"
  "as_tags (audit x y a) = as_tags a" "as_groups (audit x y a) = as_groups a"
  "as_tags (set_db d a) = as_tags a" "as_groups (set_db d a) = as_groups a"
  "as_tags (trigger_eval env a) = as_tags a" "as_groups (trigger_eval env a) = as_groups a"
  "as_tags (fold (push_to env) dids a) = as_tags a" "as_groups (fold (push_to env) dids a) = as_groups a"
proof -
  show "as_tags (fold (push_to env) dids a) = as_tags a" "as_groups (fold (push_to env) dids a) = as_groups a"
    by (induction dids arbitrary: a) (simp_all add: push_to_def Let_def)
qed (simp_all add: push_to_def audit_def set_db_def trigger_eval_def Let_def)

text \<open>What the invariant looks at.\<close>

definition tables :: "fleet_state \<Rightarrow> cms_db \<times> tag_row list \<times> string set" where
  "tables st = (fl_db st, fl_tags st, dg_id ` set (fl_groups st))"

lemma fleet_ok_tables: "fleet_ok st = (case tables st of (d, tags, gids) \<Rightarrow> fleet_tables d tags gids)"
  by (simp add: fleet_ok_def tables_def)

lemma tables_frames [simp]:
  "tables (fleet_audit a r st) = tables st" "tables (push_sync env did st) = tables st" "tables (post env did m st) = tables st"
  "tables (set_flag did f v st) = tables st" "tables (st\<lparr>fl_channels := cs\<rparr>) = tables st" "tables (st\<lparr>fl_credentials := cr\<rparr>) = tables st"
  "tables (st\<lparr>fl_acc := acc\<rparr>) = tables st"
  by (simp_all add: tables_def fleet_audit_def push_sync_def post_def set_flag_def on_api_def)

lemma tables_push_default [simp]: "tables (push_default_asset env a did st) = tables st"
  by (simp add: push_default_asset_def split: option.splits)

lemma tables_push_update [simp]: "tables (push_after_update env u did st) = tables st"
  by (simp add: push_after_update_def split: option.splits)

lemma tables_push_group [simp]: "tables (push_group_default env g did st) = tables st"
  by (simp add: push_group_default_def split: option.splits)

lemma tables_folds [simp]:
  "tables (fold (push_sync env) dids st) = tables st" "tables (fold (push_group_default env g) dids st) = tables st"
  by (induction dids arbitrary: st) simp_all

lemma tables_writes:
  "tables (on_db f st) = (f (fl_db st), fl_tags st, dg_id ` set (fl_groups st))"
  "tables (set_tags rows st) = (fl_db st, rows, dg_id ` set (fl_groups st))"
  by (simp_all add: tables_def on_db_def on_api_def set_tags_def)

subsection \<open>The schedule table under changes of tags and devices\<close>

lemma clash_antimono: "clash A' a b \<Longrightarrow> set A' \<subseteq> set A \<Longrightarrow> clash A a b"
  by (auto simp: clash_def targets_overlap_def list_ex_iff split: option.splits)

lemma table_ok_sub:
  assumes "table_ok d" "set (tag_assignments d') \<subseteq> set (tag_assignments d)" "schedules d' = filter P (schedules d)"
  shows "table_ok d'"
  using assms by (auto simp: table_ok_def clash_free_def dest: clash_antimono)

lemma sched_refs_api:
  assumes "validate_schedule_tag (tag_id s) (group_id s) tags = None" "\<And>g. group_id s = Some g \<Longrightarrow> g \<in> gids"
  shows "sched_refs tags gids s"
proof -
  have "\<exists>g. group_id s = Some g \<and> (t, g) \<in> tag_pairs tags" if "tag_id s = Some t" for t
    using assms(1) that by (auto simp: validate_schedule_tag_def tag_pairs_def image_iff dest!: find_SomeD split: option.splits if_splits)
  then show ?thesis using assms(2) by (auto simp: sched_refs_def)
qed

lemma sched_refs_columns [simp]:
  "sched_refs tags gids (s\<lparr>skipped_until := v\<rparr>) = sched_refs tags gids s" "sched_refs tags gids (s\<lparr>sched_group := g\<rparr>) = sched_refs tags gids s"
  by (simp_all add: sched_refs_def)

lemma find_group_Inr: "find_group g a = Inr x \<Longrightarrow> g \<in> dg_id ` set (as_groups a)"
  by (auto simp: find_group_def dest!: find_SomeD split: option.splits)

text \<open>The schedule API keeps devices, tags and groups, and its rows keep their references.\<close>

definition api_refs :: "api_state \<Rightarrow> bool" where
  "api_refs a \<longleftrightarrow> (\<forall>s \<in> set (schedules (api_db a)). sched_refs (as_tags a) (dg_id ` set (as_groups a)) s)"

lemma purge_refs:
  "(\<forall>s \<in> set (schedules d). sched_refs tags gids s) \<Longrightarrow> s \<in> set (schedules (purge_skips raw t d)) \<Longrightarrow> sched_refs tags gids s"
  by (erule purge_rows) (auto simp: sched_refs_def)

lemma api_refs_trigger: "api_refs a \<Longrightarrow> api_refs (trigger_eval env a)"
  unfolding api_refs_def trigger_db api_frames by (blast intro: purge_refs)

lemma create_refs:
  assumes "create_schedule env utc_now user new_id raw a = Inr a'" "api_refs a"
  shows "api_refs a'"
proof -
  have name: "(case unique_name n rows of Some x \<Rightarrow> Inr x | None \<Rightarrow> Inl (Uncaught OverflowError)) = Inr y
      \<longleftrightarrow> unique_name n rows = Some y" for n rows y by (simp split: option.splits)
  obtain data nm x en s grp where
    tag: "validate_schedule_tag (sc_tag_id data) (Some (sc_group_id data)) (as_tags a) = None"
    and grp: "find_group (sc_group_id data) a = Inr grp"
    and s: "s = new_schedule new_id nm data x (List.find (\<lambda>g. dg_id g = sc_group_id data) (as_groups a)) en"
    and a': "a' = trigger_eval env (push_to_targets env s (audit ''schedule.create'' new_id
       (set_db ((api_db a)\<lparr>schedules := schedules (api_db a) @ [s]\<rparr>) a)))"
    using assms(1) unfolding create_schedule_def Let_def result_bind_eq_Inr name guard_Inr sum.inject by metis
  have "sched_refs (as_tags a) (dg_id ` set (as_groups a)) s"
    by (rule sched_refs_api) (use tag find_group_Inr [OF grp] in \<open>simp_all add: s new_schedule_def\<close>)
  then have "api_refs (push_to_targets env s (audit ''schedule.create'' new_id
       (set_db ((api_db a)\<lparr>schedules := schedules (api_db a) @ [s]\<rparr>) a)))"
    using assms(2) by (auto simp: api_refs_def push_to_targets_def)
  then show ?thesis unfolding a' by (rule api_refs_trigger)
qed

lemma update_refs:
  assumes "update_schedule env utc_now user sid raw a = Inr a'" "api_refs a"
  shows "api_refs a'"
proof -
  obtain u s en x g where u: "check_update raw = Inr u"
    and s: "List.find (\<lambda>s. sched_id s = sid) (schedules (api_db a)) = Some s"
    and tag: "su_tag_id u \<noteq> None \<or> su_group_id u \<noteq> None \<Longrightarrow>
      validate_schedule_tag (upd (su_tag_id u) (tag_id s)) (case su_group_id u of None \<Rightarrow> group_id s | Some y \<Rightarrow> Some y) (as_tags a) = None"
    and grp: "(case su_group_id u of None \<Rightarrow> Inr (sched_group s) | Some y \<Rightarrow> result_bind (find_group y a) (\<lambda>row. Inr (Some row))) = Inr g"
    and a': "a' = trigger_eval env (push_to_targets env (apply_update u en x g s) (audit ''schedule.update'' sid
        (set_db ((api_db a)\<lparr>schedules := update_where (\<lambda>x. sched_id x = sid) (\<lambda>_. apply_update u en x g s) (schedules (api_db a)),
           device_skips := delete_where (\<lambda>(i, dv, t). i = sid) (device_skips (api_db a))\<rparr>) a)))"
  proof -
    obtain u where u: "check_update raw = Inr u"
      using assms by (cases "check_update raw") (simp_all add: update_schedule_def Let_def)
    obtain s where s: "List.find (\<lambda>s. sched_id s = sid) (schedules (api_db a)) = Some s"
      using assms u by (auto simp: update_schedule_def Let_def split: option.splits)
    have acc: "verify_schedule_access s user" using assms u s by (auto simp: update_schedule_def Let_def split: if_splits)
    show thesis
      using assms(1) u s acc unfolding update_schedule_def Let_def
      by (simp add: result_bind_eq_Inr del: ex_simps all_simps split del: if_split)
         (elim exE conjE, rule that [OF u s], simp, assumption, erule sym)
  qed
  have old: "sched_refs (as_tags a) (dg_id ` set (as_groups a)) s" using find_SomeD [OF s] assms(2) by (auto simp: api_refs_def)
  let ?s = "apply_update u en x g s"
  have cols: "tag_id ?s = upd (su_tag_id u) (tag_id s)" "group_id ?s = (case su_group_id u of None \<Rightarrow> group_id s | Some y \<Rightarrow> Some y)"
    by (simp_all add: apply_update_def)
  have gid: "h \<in> dg_id ` set (as_groups a)" if "group_id ?s = Some h" for h
    using that grp old by (auto simp: cols sched_refs_def result_bind_eq_Inr split: option.splits dest: find_group_Inr)
  have "sched_refs (as_tags a) (dg_id ` set (as_groups a)) ?s"
  proof (cases "su_tag_id u \<noteq> None \<or> su_group_id u \<noteq> None")
    case True
    then show ?thesis using tag gid by (intro sched_refs_api) (simp_all add: cols)
  next
    case False
    then show ?thesis using old by (simp add: sched_refs_def cols upd_def)
  qed
  then have "api_refs (push_to_targets env ?s (audit ''schedule.update'' sid
        (set_db ((api_db a)\<lparr>schedules := update_where (\<lambda>x. sched_id x = sid) (\<lambda>_. ?s) (schedules (api_db a)),
           device_skips := delete_where (\<lambda>(i, dv, t). i = sid) (device_skips (api_db a))\<rparr>) a)))"
    using assms(2) by (auto simp: api_refs_def push_to_targets_def set_update_where)
  then show ?thesis unfolding a' by (rule api_refs_trigger)
qed

lemma delete_refs:
  assumes "delete_schedule env user sid a = Inr a'" "api_refs a"
  shows "api_refs a'"
proof -
  obtain b dids where b: "a' = trigger_eval env (fold (push_to env) dids b)" "as_tags b = as_tags a" "as_groups b = as_groups a"
    "schedules (api_db b) = delete_where (\<lambda>x. sched_id x = sid) (schedules (api_db a))"
    using assms(1) by (auto simp: delete_schedule_def Let_def split: option.splits if_splits)
  then have "api_refs (fold (push_to env) dids b)" using assms(2) by (auto simp: api_refs_def set_delete_where)
  then show ?thesis unfolding b(1) by (rule api_refs_trigger)
qed

lemma end_now_refs:
  assumes "end_schedule_now env user sid dev a = Inr a'" "api_refs a"
  shows "api_refs a'"
proof -
  have same: "as_tags a' = as_tags a" "as_groups a' = as_groups a"
    using assms(1) by (auto simp: end_schedule_now_def Let_def split: option.splits if_splits)
  obtain s until where "api_db a' = (case dev of
        None \<Rightarrow> (api_db a)\<lparr>schedules := update_where (\<lambda>x. sched_id x = sid) (\<lambda>x. x\<lparr>skipped_until := until\<rparr>) (schedules (api_db a))\<rparr>
      | Some did \<Rightarrow> (api_db a)\<lparr>device_skips := s did\<rparr>)"
    by (rule end_now_db [OF assms(1)]) (rule that, assumption)
  then have "schedules (api_db a') = update_where (\<lambda>x. dev = None \<and> sched_id x = sid) (\<lambda>x. x\<lparr>skipped_until := until\<rparr>) (schedules (api_db a))"
    by (cases dev) (simp_all add: update_where_idle)
  then show ?thesis using assms(2) by (auto simp: api_refs_def same set_update_where)
qed

lemma api_step_refs: "api_step a a' \<Longrightarrow> api_refs a \<Longrightarrow> api_refs a'"
  by (induction rule: api_step.induct) (blast intro: create_refs update_refs delete_refs end_now_refs api_refs_trigger)+

lemma purge_other [simp]: "devices (purge_skips raw t d) = devices d" "tag_assignments (purge_skips raw t d) = tag_assignments d"
  by (simp_all add: purge_fields)

lemma api_step_other:
  "api_step a a' \<Longrightarrow> devices (api_db a') = devices (api_db a) \<and> tag_assignments (api_db a') = tag_assignments (api_db a)
     \<and> as_tags a' = as_tags a \<and> as_groups a' = as_groups a"
proof (induction rule: api_step.induct)
  case (step_create env utc_now user new_id raw st st')
  from step_create(1) show ?case by (rule create_success) (simp add: trigger_db push_to_targets_def)
next
  case (step_update env utc_now user sid raw st st')
  from step_update(1) show ?case by (rule update_success) (simp add: trigger_db push_to_targets_def)
next
  case (step_delete env user sid st st')
  then show ?case by (auto simp: delete_schedule_def Let_def trigger_db split: option.splits if_splits)
next
  case (step_end_now env user sid dev st st')
  then show ?case by (auto simp: end_schedule_now_def Let_def split: option.splits if_splits)
qed (simp add: trigger_db)

subsection \<open>Each operation keeps the tables consistent\<close>

lemma sched_refs_mono: "sched_refs tags gids s \<Longrightarrow> tag_pairs tags \<subseteq> tag_pairs tags' \<Longrightarrow> gids \<subseteq> gids' \<Longrightarrow> sched_refs tags' gids' s"
  by (fastforce simp: sched_refs_def)

lemma assignments_mono:
  assumes "assignments_ok d tags" "set (tag_assignments d') \<subseteq> set (tag_assignments d)"
    "tag_pairs tags \<subseteq> tag_pairs tags'" "dev_pairs (devices d) \<subseteq> dev_pairs (devices d')"
  shows "assignments_ok d' tags'"
  using assms unfolding assignments_ok_def by blast

lemma tag_pair_unique: "tags_ok tags gids \<Longrightarrow> (t, g) \<in> tag_pairs tags \<Longrightarrow> (t, h) \<in> tag_pairs tags \<Longrightarrow> g = h"
  by (auto simp: tags_ok_def tag_pairs_def distinct_map dest: inj_onD)

lemma dev_pair_unique: "distinct (map dev_id devs) \<Longrightarrow> (t, g) \<in> dev_pairs devs \<Longrightarrow> (t, h) \<in> dev_pairs devs \<Longrightarrow> g = h"
  by (auto simp: dev_pairs_def distinct_map dest: inj_onD)

lemma device_row_Some:
  assumes "load_device st did = Inr dv"
  shows "dv \<in> set (devices (fl_db st)) \<and> dev_id dv = did"
  using assms by (auto simp: load_device_def device_row_def split: option.splits dest: find_by_Some)

lemma with_access_Inr: "get_device_with_access u did st = Inr dv \<Longrightarrow> load_device st did = Inr dv"
  by (auto simp: get_device_with_access_def result_bind_eq_Inr)

lemma load_group_Inr: "load_group st g = Inr x \<Longrightarrow> x \<in> set (fl_groups st) \<and> dg_id x = g"
  by (auto simp: load_group_def find_device_group_def split: option.splits dest: find_by_Some)

lemma http_Inr [simp]: "http code r = Inr x \<longleftrightarrow> r = Inr x"
  by (cases r) (simp_all add: http_def)

text \<open>Tags.\<close>

lemma tables_create_tag:
  assumes ok: "fleet_tables d tags gids" and run: "create_tag i g name color tags = Inr (t, tags')"
    and fresh: "i \<notin> tag_row_id ` set tags" "g \<in> gids"
  shows "fleet_tables d tags' gids"
proof -
  obtain n c where t: "tags' = tags @ [t]" "t = \<lparr>tag_row_id = i, tag_group_id = g, tag_name = n, tag_color = c\<rparr>"
    and free: "find_by_name g n tags = None"
    using run by (auto simp: create_tag_def result_bind_eq_Inr Let_def insert_row_def split: if_splits)
  have "(g, lower_text n) \<notin> (\<lambda>t. (tag_group_id t, lower_text (tag_name t))) ` set tags"
    using free by (auto simp: find_by_name_def find_None_iff)
  then have "tags_ok tags' gids" using ok fresh by (simp add: fleet_tables_def tags_ok_def t tag_pairs_def)
  moreover have sub: "tag_pairs tags \<subseteq> tag_pairs tags'" by (auto simp: tag_pairs_def t(1))
  ultimately show ?thesis
    using ok assignments_mono [of d tags d tags'] sched_refs_mono [OF _ sub subset_refl, of gids] by (auto simp: fleet_tables_def)
qed

lemma tables_tag_columns:
  assumes ok: "fleet_tables d tags gids" and "tags_ok tags' gids" and pairs: "tag_pairs tags' = tag_pairs tags"
  shows "fleet_tables d tags' gids"
  using assms by (simp add: fleet_tables_def assignments_ok_def sched_refs_def)

lemma column_update: "(\<And>r. c (f r) = c r) \<Longrightarrow> map c (update_where P f rows) = map c rows"
  by (simp add: update_where_def comp_def if_distrib)

lemma column_image_update: "(\<And>r. c (f r) = c r) \<Longrightarrow> c ` set (update_where P f rows) = c ` set rows"
  using arg_cong [OF column_update [of c f P rows], of set] by simp

lemma tag_pairs_update: "(\<And>r. tag_row_id (f r) = tag_row_id r \<and> tag_group_id (f r) = tag_group_id r) \<Longrightarrow> tag_pairs (update_where P f tags) = tag_pairs tags"
  unfolding tag_pairs_def by (rule column_image_update) simp

lemma tables_rename_tag:
  assumes ok: "fleet_tables d tags gids" and t: "find_by tag_row_id tid tags = Some t" and run: "rename_tag t name tags = Inr tags'"
  shows "fleet_tables d tags' gids"
proof -
  obtain n where free: "lower_text n = lower_text (tag_name t) \<or> find_by_name (tag_group_id t) n tags = None"
    and tags': "tags' = update_where (\<lambda>r. tag_row_id r = tag_row_id t) (\<lambda>r. r\<lparr>tag_name := n\<rparr>) tags"
    using run by (auto simp: rename_tag_def result_bind_eq_Inr split: if_splits)
  have tm: "t \<in> set tags" using t by (auto dest: find_by_Some)
  have dist: "distinct (map tag_row_id tags)" "distinct (map (\<lambda>t. (tag_group_id t, lower_text (tag_name t))) tags)"
    using ok by (auto simp: fleet_tables_def tags_ok_def)
  have inj: "inj_on (\<lambda>t. (tag_group_id t, lower_text (tag_name t))) (set tags)" "inj_on tag_row_id (set tags)"
    using dist by (simp_all add: distinct_map)
  have "distinct (map (\<lambda>t. (tag_group_id t, lower_text (tag_name t))) tags')"
    unfolding tags'
  proof (rule distinct_update_column [OF dist])
    fix r s assume rs: "r \<in> set tags" "tag_row_id r = tag_row_id t" "s \<in> set tags" "tag_row_id s \<noteq> tag_row_id t"
    have "r = t" using inj_onD [OF inj(2) rs(2) rs(1) tm] .
    moreover have "(tag_group_id t, lower_text n) \<noteq> (tag_group_id s, lower_text (tag_name s))"
      using free
    proof
      assume "lower_text n = lower_text (tag_name t)"
      then have "(tag_group_id t, lower_text n) = (tag_group_id s, lower_text (tag_name s)) \<Longrightarrow> t = s" using inj_onD [OF inj(1) _ tm rs(3)] by simp
      then show ?thesis using rs(4) by blast
    qed (use rs(3) in \<open>auto simp: find_by_name_def find_None_iff\<close>)
    ultimately show "(tag_group_id (r\<lparr>tag_name := n\<rparr>), lower_text (tag_name (r\<lparr>tag_name := n\<rparr>))) \<noteq> (tag_group_id s, lower_text (tag_name s))"
      by simp
  qed simp
  moreover have pairs: "tag_pairs tags' = tag_pairs tags" unfolding tags' by (rule tag_pairs_update) simp
  moreover have "map tag_row_id tags' = map tag_row_id tags" unfolding tags' by (rule column_update) simp
  ultimately have "tags_ok tags' gids" using ok by (simp add: fleet_tables_def tags_ok_def)
  then show ?thesis by (rule tables_tag_columns [OF ok _ pairs])
qed

lemma tables_tag_color:
  assumes ok: "fleet_tables d tags gids"
  shows "fleet_tables d (update_where P (\<lambda>r. r\<lparr>tag_color := c\<rparr>) tags) gids"
proof (rule tables_tag_columns [OF ok])
  let ?tags = "update_where P (\<lambda>r. r\<lparr>tag_color := c\<rparr>) tags"
  show pairs: "tag_pairs ?tags = tag_pairs tags" by (rule tag_pairs_update) simp
  have "map tag_row_id ?tags = map tag_row_id tags"
    "map (\<lambda>t. (tag_group_id t, lower_text (tag_name t))) ?tags = map (\<lambda>t. (tag_group_id t, lower_text (tag_name t))) tags"
    by (simp_all add: column_update)
  then show "tags_ok ?tags gids" using ok pairs by (simp add: fleet_tables_def tags_ok_def)
qed

lemma tables_delete_tags:
  assumes ok: "fleet_tables d tags gids"
    and d': "schedules d' = delete_where (\<lambda>s. tag_id s \<in> Some ` T) (schedules d)" "devices d' = devices d"
      "tag_assignments d' = delete_where (\<lambda>e. fst e \<in> T) (tag_assignments d)"
  shows "fleet_tables d' (delete_where (\<lambda>t. tag_row_id t \<in> T) tags) gids"
proof -
  let ?tags = "delete_where (\<lambda>t. tag_row_id t \<in> T) tags"
  have keep: "(t, g) \<in> tag_pairs ?tags" if "(t, g) \<in> tag_pairs tags" "t \<notin> T" for t g
    using that by (auto simp: tag_pairs_def delete_where_def)
  have "table_ok d'" by (rule table_ok_sub [where P = "\<lambda>s. tag_id s \<notin> Some ` T"])
    (use ok d' in \<open>auto simp: fleet_tables_def set_delete_where delete_where_def\<close>)
  moreover have "tags_ok ?tags gids" using ok by (auto simp: fleet_tables_def tags_ok_def delete_where_def distinct_map_filter tag_pairs_def)
  moreover have "assignments_ok d' ?tags" unfolding assignments_ok_def d'
    using ok keep by (fastforce simp: fleet_tables_def assignments_ok_def set_delete_where)
  moreover have "sched_refs ?tags gids s" if "s \<in> set (schedules d')" for s
    using that ok keep unfolding d' by (fastforce simp: fleet_tables_def sched_refs_def set_delete_where)
  ultimately show ?thesis using ok d'(2) by (simp add: fleet_tables_def)
qed

text \<open>Devices.\<close>

lemma tables_devices:
  assumes ok: "fleet_tables d tags gids" and "devices_ok (devices d') gids" "schedules d' = schedules d"
    and sub: "set (tag_assignments d') \<subseteq> set (tag_assignments d)"
    and keep: "\<And>t did g. (t, did) \<in> set (tag_assignments d') \<Longrightarrow> (did, Some g) \<in> dev_pairs (devices d) \<Longrightarrow> (did, Some g) \<in> dev_pairs (devices d')"
  shows "fleet_tables d' tags gids"
proof -
  have "table_ok d'" by (rule table_ok_sub [where P = "\<lambda>_. True"]) (use assms in \<open>auto simp: fleet_tables_def\<close>)
  moreover have "assignments_ok d' tags" unfolding assignments_ok_def
  proof
    fix e assume e: "e \<in> set (tag_assignments d')"
    obtain t did where td: "e = (t, did)" by (cases e)
    obtain g where "(t, g) \<in> tag_pairs tags" "(did, Some g) \<in> dev_pairs (devices d)"
      using ok e sub td by (fastforce simp: fleet_tables_def assignments_ok_def)
    then show "\<exists>g. (fst e, g) \<in> tag_pairs tags \<and> (snd e, Some g) \<in> dev_pairs (devices d')" using keep e td by auto
  qed
  ultimately show ?thesis using assms by (simp add: fleet_tables_def)
qed

lemma tables_device_columns:
  assumes ok: "fleet_tables d tags gids" and f: "\<And>x. dev_id (f x) = dev_id x \<and> dev_group_id (f x) = dev_group_id x"
  shows "fleet_tables (d\<lparr>devices := update_where P f (devices d)\<rparr>) tags gids"
proof (rule tables_devices [OF ok])
  let ?devs = "update_where P f (devices d)"
  have pairs: "dev_pairs ?devs = dev_pairs (devices d)" unfolding dev_pairs_def by (rule column_image_update) (simp add: f)
  moreover have "map dev_id ?devs = map dev_id (devices d)" by (rule column_update) (simp add: f)
  ultimately show "devices_ok (devices (d\<lparr>devices := ?devs\<rparr>)) gids" using ok by (simp add: fleet_tables_def devices_ok_def)
  show "\<And>t did g. (did, Some g) \<in> dev_pairs (devices d) \<Longrightarrow> (did, Some g) \<in> dev_pairs (devices (d\<lparr>devices := ?devs\<rparr>))" by (simp add: pairs)
qed simp_all

lemma tables_drop_device:
  assumes ok: "fleet_tables d tags gids"
    and d': "devices d' = delete_where (\<lambda>x. dev_id x = did) (devices d)" "schedules d' = schedules d"
      "tag_assignments d' = delete_where (\<lambda>(t, x). x = did) (tag_assignments d)"
  shows "fleet_tables d' tags gids"
proof (rule tables_devices [OF ok _ d'(2)])
  show "devices_ok (devices d') gids"
    using ok by (auto simp: fleet_tables_def devices_ok_def d' delete_where_def distinct_map_filter dev_pairs_def)
  show "set (tag_assignments d') \<subseteq> set (tag_assignments d)" by (auto simp: d' set_delete_where)
  fix t i g assume "(t, i) \<in> set (tag_assignments d')" "(i, Some g) \<in> dev_pairs (devices d)"
  then show "(i, Some g) \<in> dev_pairs (devices d')" by (auto simp: d' set_delete_where dev_pairs_def image_iff)
qed

lemma tables_new_device:
  assumes ok: "fleet_tables d tags gids" and "dev_id dv \<notin> dev_id ` set (devices d)" "\<And>g. dev_group_id dv = Some g \<Longrightarrow> g \<in> gids"
  shows "fleet_tables (d\<lparr>devices := devices d @ [dv]\<rparr>) tags gids"
proof (rule tables_devices [OF ok])
  show "devices_ok (devices (d\<lparr>devices := devices d @ [dv]\<rparr>)) gids"
    using assms by (cases "dev_group_id dv") (auto simp: fleet_tables_def devices_ok_def dev_pairs_def)
qed (auto simp: dev_pairs_def)

text \<open>A move: the tags stay behind.\<close>

lemma no_assigned_tags:
  assumes "assignments_ok (fl_db st) (fl_tags st)" "assigned_tags did st = []"
  shows "delete_where (\<lambda>(t, x). x = did) (tag_assignments (fl_db st)) = tag_assignments (fl_db st)"
proof -
  have "snd e \<noteq> did" if e: "e \<in> set (tag_assignments (fl_db st))" for e
  proof
    assume did: "snd e = did"
    then obtain r where "r \<in> set (fl_tags st)" "tag_row_id r = fst e"
      using assms(1) e by (fastforce simp: assignments_ok_def tag_pairs_def)
    then have "r \<in> set (assigned_tags did st)" using e did by (auto simp: assigned_tags_def)
    then show False using assms(2) by simp
  qed
  then show ?thesis by (auto simp: delete_where_def filter_id_conv split_beta)
qed

lemma clear_tags_db:
  assumes "assignments_ok (fl_db st) (fl_tags st)"
  shows "tables (snd (clear_device_tags did st))
    = ((fl_db st)\<lparr>tag_assignments := delete_where (\<lambda>(t, x). x = did) (tag_assignments (fl_db st))\<rparr>, fl_tags st, dg_id ` set (fl_groups st))"
proof (cases "assigned_tags did st = []")
  case True
  then show ?thesis using no_assigned_tags [OF assms True] by (simp add: clear_device_tags_def names_of_def tables_def)
next
  case False
  then have "names_of (assigned_tags did st) \<noteq> []" by (metis length_0_conv length_map length_sort names_of_def)
  then show ?thesis by (simp add: clear_device_tags_def set_assignments_def tables_writes)
qed

lemma tables_set_group:
  assumes ok: "fleet_ok st" and g: "\<And>i. g = Some i \<Longrightarrow> i \<in> dg_id ` set (fl_groups st)"
  shows "fleet_ok (snd (set_device_group dv g False st))"
proof (cases "dev_group_id dv = g")
  case False
  let ?f = "\<lambda>x. x\<lparr>dev_group_id := g, dev_group := (case g of None \<Rightarrow> None | Some i \<Rightarrow> find_device_group st i)\<rparr>"
  let ?d = "fl_db st"
  let ?d' = "?d\<lparr>tag_assignments := delete_where (\<lambda>(t, x). x = dev_id dv) (tag_assignments ?d), devices := update_where (\<lambda>x. dev_id x = dev_id dv) ?f (devices ?d)\<rparr>"
  have ft: "fleet_tables ?d (fl_tags st) (dg_id ` set (fl_groups st))" using ok by (simp add: fleet_ok_def)
  then have ao: "assignments_ok ?d (fl_tags st)" by (simp add: fleet_tables_def)
  obtain dropped st' where c: "clear_device_tags (dev_id dv) st = (dropped, st')" by (cases "clear_device_tags (dev_id dv) st")
  have st': "fl_db st' = ?d\<lparr>tag_assignments := delete_where (\<lambda>(t, x). x = dev_id dv) (tag_assignments ?d)\<rparr>"
    "fl_tags st' = fl_tags st" "dg_id ` set (fl_groups st') = dg_id ` set (fl_groups st)"
    using clear_tags_db [OF ao, of "dev_id dv"] c by (simp_all add: tables_def)
  have "tables (snd (set_device_group dv g False st)) = (?d', fl_tags st, dg_id ` set (fl_groups st))"
    using False c by (simp add: set_device_group_def set_device_def tables_writes st')
  moreover have "fleet_tables ?d' (fl_tags st) (dg_id ` set (fl_groups st))"
  proof (rule tables_devices [OF ft])
    have "map dev_id (update_where (\<lambda>x. dev_id x = dev_id dv) ?f (devices ?d)) = map dev_id (devices ?d)" by (rule column_update) simp
    moreover have "snd ` dev_pairs (update_where (\<lambda>x. dev_id x = dev_id dv) ?f (devices ?d)) \<subseteq> insert g (snd ` dev_pairs (devices ?d))"
      by (auto simp: dev_pairs_def update_where_def image_iff)
    moreover have "g \<in> insert None (Some ` dg_id ` set (fl_groups st))" using g by (cases g) auto
    moreover have "distinct (map dev_id (devices ?d))" "snd ` dev_pairs (devices ?d) \<subseteq> insert None (Some ` dg_id ` set (fl_groups st))"
      using ft by (simp_all add: fleet_tables_def devices_ok_def)
    ultimately have "snd ` dev_pairs (update_where (\<lambda>x. dev_id x = dev_id dv) ?f (devices ?d)) \<subseteq> insert None (Some ` dg_id ` set (fl_groups st))"
      by (meson insert_subset order_trans)
    then show "devices_ok (devices ?d') (dg_id ` set (fl_groups st))"
      using \<open>distinct (map dev_id (devices ?d))\<close> \<open>map dev_id _ = _\<close> by (simp add: devices_ok_def)
    show "set (tag_assignments ?d') \<subseteq> set (tag_assignments ?d)" by (auto simp: set_delete_where)
    fix t i h assume "(t, i) \<in> set (tag_assignments ?d')" "(i, Some h) \<in> dev_pairs (devices ?d)"
    then show "(i, Some h) \<in> dev_pairs (devices ?d')" by (auto simp: set_delete_where dev_pairs_def update_where_def image_iff)
  qed simp
  ultimately show ?thesis by (simp add: fleet_ok_tables)
qed (simp add: set_device_group_def ok)

text \<open>The tags of an adopted device: the check before the write keeps the table free of clashes.\<close>

lemma set_fromkeys [simp]: "set (fromkeys xs) = set xs"
  by (simp add: fromkeys_def)

text \<open>The schedules that reach a device of a group when it carries given tags, and when the change to such tags makes two
  schedules of equal priority that share an instant reach the device which did not both reach it before.\<close>

definition reach_tags :: "fleet_state \<Rightarrow> device \<Rightarrow> string set \<Rightarrow> schedule set" where
  "reach_tags st dv tags = {s \<in> set (schedules (fl_db st)). enabled s \<and> group_id s \<noteq> None \<and> group_id s = dev_group_id dv
     \<and> (\<forall>t. tag_id s = Some t \<longrightarrow> t \<in> tags)}"

definition tags_now :: "fleet_state \<Rightarrow> device \<Rightarrow> string set" where
  "tags_now st dv = {t. (t, dev_id dv) \<in> set (tag_assignments (fl_db st))}"

definition new_overlap :: "fleet_state \<Rightarrow> device \<Rightarrow> string set \<Rightarrow> bool" where
  "new_overlap st dv tags \<longleftrightarrow> (\<exists>a \<in> reach_tags st dv tags. \<exists>b \<in> reach_tags st dv tags. a \<noteq> b \<and> priority a = priority b
     \<and> covers a \<inter> covers b \<noteq> {} \<and> \<not> {a, b} \<subseteq> reach_tags st dv (tags_now st dv))"

lemma reach_tags_eq: "reach_tags st dv (set tids) = reach (schedules (fl_db st)) \<lparr>dt_group_id = dev_group_id dv, dt_tag_ids = tids\<rparr>"
  by (auto simp: reach_tags_def reach_def split: option.splits)

lemma reach_tags_now:
  assumes "distinct (map dev_id (devices (fl_db st)))" "dv \<in> set (devices (fl_db st))"
  shows "reach_tags st dv (tags_now st dv) = reach (schedules (fl_db st)) (current_device_targeting (fl_db st) (dev_id dv))"
proof -
  have "t \<in> tags_now st dv \<longleftrightarrow> t \<in> set (dt_tag_ids (current_device_targeting (fl_db st) (dev_id dv)))" for t
    by (force simp: current_device_targeting_def tags_now_def)
  moreover have "dt_group_id (current_device_targeting (fl_db st) (dev_id dv)) = dev_group_id dv"
    using find_device [OF assms] by (simp add: current_device_targeting_def)
  ultimately show ?thesis unfolding reach_tags_def reach_def by (auto split: option.splits)
qed

lemma new_overlap_iff:
  assumes "distinct (map dev_id (devices (fl_db st)))" "dv \<in> set (devices (fl_db st))"
  shows "\<not> new_overlap st dv (set tids) \<longleftrightarrow>
    (\<forall>a \<in> reach (schedules (fl_db st)) \<lparr>dt_group_id = dev_group_id dv, dt_tag_ids = tids\<rparr>.
     \<forall>b \<in> reach (schedules (fl_db st)) \<lparr>dt_group_id = dev_group_id dv, dt_tag_ids = tids\<rparr>. conflict a b \<longrightarrow>
       {a, b} \<subseteq> reach (schedules (fl_db st)) (current_device_targeting (fl_db st) (dev_id dv)))"
proof -
  have "conflict a b \<longleftrightarrow> a \<noteq> b \<and> priority a = priority b \<and> covers a \<inter> covers b \<noteq> {}"
    if "a \<in> reach (schedules (fl_db st)) t" "b \<in> reach (schedules (fl_db st)) t" for a b t
    using that by (auto simp: conflict_def reach_def)
  then show ?thesis unfolding new_overlap_def reach_tags_eq reach_tags_now [OF assms] by meson
qed

text \<open>The result of the check: for an adopted device whether an overlap would be new, for any other nothing.\<close>

lemma tags_check:
  assumes "fleet_ok st" "dv \<in> set (devices (fl_db st))"
    and r: "validate_device_transition (fl_db st) [(dev_id dv, \<lparr>dt_group_id = dev_group_id dv, dt_tag_ids = tids\<rparr>)]
      [(dev_id dv, current_device_targeting (fl_db st) (dev_id dv))] cids = Inr r"
  shows "if dev_status dv = ADOPTED then \<exists>x. map_of r (dev_id dv) = Some x \<and> (introduced_conflicts x = [] \<longleftrightarrow> \<not> new_overlap st dv (set tids))
    else map_of r (dev_id dv) = None"
proof -
  have ok: "schedules_ok (schedules (fl_db st))" "distinct (map dev_id (devices (fl_db st)))"
    using assms(1) by (simp_all add: fleet_ok_def fleet_tables_def table_ok_def devices_ok_def)
  show ?thesis
    using transition_device [OF ok _ r assms(2)] transition_unadopted [OF ok(2) assms(2) _ r]
    by (auto simp: dict_ok_def new_overlap_iff [OF ok(2) assms(2)])
qed

lemma tables_put_tags:
  assumes ok: "fleet_ok st" and dv: "dv \<in> set (devices (fl_db st))"
    and clear: "\<not> new_overlap st dv (set tids)"
    and set: "set_device_tags dv tids st = Inr (shown, st')"
  shows "fleet_ok st'"
proof -
  let ?d = "fl_db st" and ?did = "dev_id dv" and ?gids = "dg_id ` set (fl_groups st)"
  let ?t = "\<lparr>dt_group_id = dev_group_id dv, dt_tag_ids = tids\<rparr>" and ?now = "current_device_targeting (fl_db st) (dev_id dv)"
  have ft: "fleet_tables ?d (fl_tags st) ?gids" using ok by (simp add: fleet_ok_def)
  have tok: "tags_ok (fl_tags st) ?gids" and sok: "schedules_ok (schedules ?d)" and cf: "clash_free ?d"
    using ft by (simp_all add: fleet_tables_def table_ok_def)
  define tags where "tags = filter (\<lambda>t. tag_row_id t \<in> set tids) (fl_tags st)"
  have st': "st' = set_assignments ?did (map tag_row_id tags) st" and foreign: "\<And>t. t \<in> set tags \<Longrightarrow> dev_group_id dv = Some (tag_group_id t)"
    using set by (auto simp: set_device_tags_def Let_def tags_def filter_empty_conv split: if_splits)
  let ?new = "delete_where (\<lambda>(t, x). x = ?did) (tag_assignments ?d) @ map (\<lambda>t. (t, ?did)) (map tag_row_id tags)"
  have tabs: "tables st' = (?d\<lparr>tag_assignments := ?new\<rparr>, fl_tags st, ?gids)" by (simp add: st' set_assignments_def tables_writes)
  have ids: "distinct (map dev_id (devices ?d))" using ft by (simp add: fleet_tables_def devices_ok_def)
  have old: "\<And>a b. a \<in> reach (schedules ?d) ?t \<Longrightarrow> b \<in> reach (schedules ?d) ?t \<Longrightarrow> conflict a b \<Longrightarrow> {a, b} \<subseteq> reach (schedules ?d) ?now"
    using clear unfolding new_overlap_iff [OF ids dv] by blast
  have reached: "s \<in> reach (schedules ?d) ?t" if s: "s \<in> set (schedules ?d)" "enabled s" "tag_id s = Some t" "(t, ?did) \<in> set ?new" "t \<in> tag_row_id ` set tags" for s t
  proof -
    obtain x where x: "x \<in> set tags" "tag_row_id x = t" using s(5) by blast
    obtain g where g: "group_id s = Some g" "(t, g) \<in> tag_pairs (fl_tags st)" using ft s(1,3) unfolding fleet_tables_def sched_refs_def by blast
    have "(t, tag_group_id x) \<in> tag_pairs (fl_tags st)" using x by (auto simp: tags_def tag_pairs_def)
    then have "dev_group_id dv = Some g" using tag_pair_unique [OF tok g(2)] foreign [OF x(1)] by simp
    moreover have "t \<in> set tids" using x by (auto simp: tags_def)
    ultimately show ?thesis using s(1-3) g(1) by (simp add: reach_def)
  qed
  have "\<not> clash ?new a b" if ab: "a \<in> set (schedules ?d)" "b \<in> set (schedules ?d)" for a b
  proof
    assume c: "clash ?new a b"
    have no: "\<not> targets_overlap a b (tag_assignments ?d)"
    proof
      assume "targets_overlap a b (tag_assignments ?d)"
      then have "clash (tag_assignments ?d) a b" using c unfolding clash_def by blast
      then show False using cf ab unfolding clash_free_def by blast
    qed
    then obtain ta tb where tt: "tag_id a = Some ta" "tag_id b = Some tb" by (auto simp: targets_overlap_def split: option.splits)
    then obtain x where x: "(ta, x) \<in> set ?new" "(tb, x) \<in> set ?new" using c no by (auto simp: clash_def targets_overlap_def list_ex_iff)
    have "x = ?did" using x no tt by (auto simp: targets_overlap_def list_ex_iff set_delete_where)
    then have "ta \<in> tag_row_id ` set tags" "tb \<in> tag_row_id ` set tags" using x by (auto simp: set_delete_where)
    then have r: "a \<in> reach (schedules ?d) ?t" "b \<in> reach (schedules ?d) ?t"
      using reached [OF ab(1) _ tt(1)] reached [OF ab(2) _ tt(2)] x c \<open>x = ?did\<close> by (auto simp: clash_def)
    have "conflict a b" using c by (auto simp: clash_def conflict_def)
    then have "{a, b} \<subseteq> reach (schedules ?d) ?now" by (rule old [OF r])
    then have "(ta, ?did) \<in> set (tag_assignments ?d)" "(tb, ?did) \<in> set (tag_assignments ?d)"
      using tt by (auto simp: reach_def current_device_targeting_def)
    then show False using no tt by (auto simp: targets_overlap_def list_ex_iff)
  qed
  then have "table_ok (?d\<lparr>tag_assignments := ?new\<rparr>)" using sok by (simp add: table_ok_def clash_free_def)
  moreover have "assignments_ok (?d\<lparr>tag_assignments := ?new\<rparr>) (fl_tags st)"
    unfolding assignments_ok_def
  proof
    fix e assume "e \<in> set (tag_assignments (?d\<lparr>tag_assignments := ?new\<rparr>))"
    then consider "e \<in> set (tag_assignments ?d)" | x where "x \<in> set tags" "e = (tag_row_id x, ?did)" by (auto simp: set_delete_where)
    then show "\<exists>g. (fst e, g) \<in> tag_pairs (fl_tags st) \<and> (snd e, Some g) \<in> dev_pairs (devices (?d\<lparr>tag_assignments := ?new\<rparr>))"
    proof cases
      case 1
      then show ?thesis using ft by (simp add: fleet_tables_def assignments_ok_def)
    next
      case 2
      then show ?thesis using foreign [OF 2(1)] dv(1)
        by (intro exI [of _ "tag_group_id x"]) (auto simp: tags_def tag_pairs_def dev_pairs_def image_iff)
    qed
  qed
  ultimately show ?thesis using ft tabs by (simp add: fleet_ok_tables fleet_tables_def)
qed

text \<open>Groups.\<close>

lemma tables_more_groups: "fleet_tables d tags gids \<Longrightarrow> gids \<subseteq> gids' \<Longrightarrow> fleet_tables d tags gids'"
proof -
  assume ok: "fleet_tables d tags gids" and sub: "gids \<subseteq> gids'"
  have "snd ` dev_pairs (devices d) \<subseteq> insert None (Some ` gids)" using ok by (simp add: fleet_tables_def devices_ok_def)
  also have "\<dots> \<subseteq> insert None (Some ` gids')" using sub by auto
  finally have "devices_ok (devices d) gids'" using ok by (simp add: devices_ok_def fleet_tables_def)
  moreover have "tags_ok tags gids'" using ok sub by (auto simp: fleet_tables_def tags_ok_def)
  moreover have "\<forall>s \<in> set (schedules d). sched_refs tags gids' s"
    using ok sched_refs_mono [OF _ subset_refl sub, of tags] unfolding fleet_tables_def by blast
  ultimately show ?thesis using ok unfolding fleet_tables_def by blast
qed

lemma group_column [simp]:
  "covers (s\<lparr>sched_group := g\<rparr>) = covers s" "valid_schedule (s\<lparr>sched_group := g\<rparr>) = valid_schedule s"
  "inner_dates (s\<lparr>sched_group := g\<rparr>) = inner_dates s" "clash A (s\<lparr>sched_group := g\<rparr>) b = clash A s b" "clash A a (s\<lparr>sched_group := g\<rparr>) = clash A a s"
  by (simp_all add: covers_def anchors_def occurrence_def valid_schedule_def inner_dates_def clash_def targets_overlap_def)

lemma table_ok_group:
  assumes "table_ok d"
  shows "table_ok (d\<lparr>devices := ds, schedules := update_where P (\<lambda>s. s\<lparr>sched_group := g\<rparr>) (schedules d)\<rparr>)"
proof -
  have "map sched_id (update_where P (\<lambda>s. s\<lparr>sched_group := g\<rparr>) (schedules d)) = map sched_id (schedules d)" by (rule column_update) simp
  then show ?thesis using assms by (auto simp: table_ok_def schedules_ok_def clash_free_def set_update_where)
qed

lemma tables_refresh_group:
  assumes ok: "fleet_ok st" shows "fleet_ok (refresh_group g st)"
proof -
  let ?d = "fl_db st" and ?gids = "dg_id ` set (fl_groups st)"
  let ?devs = "update_where (\<lambda>x. dev_group_id x = Some (dg_id g)) (\<lambda>x. x\<lparr>dev_group := Some g\<rparr>) (devices ?d)"
  let ?ss = "update_where (\<lambda>s. group_id s = Some (dg_id g)) (\<lambda>s. s\<lparr>sched_group := Some g\<rparr>) (schedules ?d)"
  have ft: "fleet_tables ?d (fl_tags st) ?gids" using ok by (simp add: fleet_ok_def)
  have groups: "dg_id ` set (update_where (\<lambda>x. dg_id x = dg_id g) (\<lambda>_. g) (fl_groups st)) = ?gids"
    by (auto simp: set_update_where image_iff) metis
  have pairs: "dev_pairs ?devs = dev_pairs (devices ?d)" unfolding dev_pairs_def by (rule column_image_update) simp
  have ids: "map dev_id ?devs = map dev_id (devices ?d)" by (rule column_update) simp
  have "table_ok (?d\<lparr>devices := ?devs, schedules := ?ss\<rparr>)" by (rule table_ok_group) (use ft in \<open>simp add: fleet_tables_def\<close>)
  moreover have "\<forall>s \<in> set ?ss. sched_refs (fl_tags st) ?gids s" using ft by (auto simp: fleet_tables_def set_update_where)
  ultimately have "fleet_tables (?d\<lparr>devices := ?devs, schedules := ?ss\<rparr>) (fl_tags st) ?gids"
    using ft by (simp add: fleet_tables_def devices_ok_def pairs ids assignments_ok_def)
  moreover have "tables (refresh_group g st) = (?d\<lparr>devices := ?devs, schedules := ?ss\<rparr>, fl_tags st, ?gids)"
    by (simp add: refresh_group_def tables_def on_db_def on_api_def groups)
  ultimately show ?thesis by (simp add: fleet_ok_tables)
qed

lemma tables_drop_group:
  assumes ok: "fleet_ok st" and unused: "\<And>s. s \<in> set (schedules (fl_db st)) \<Longrightarrow> group_id s \<noteq> Some gid"
  shows "fleet_ok (drop_group gid st)"
proof -
  let ?d = "fl_db st" and ?gids = "dg_id ` set (fl_groups st)" and ?tags = "fl_tags st"
  let ?gone = "map tag_row_id (filter (\<lambda>t. tag_group_id t = gid) (fl_tags st))"
  let ?devs = "update_where (\<lambda>x. dev_group_id x = Some gid) (\<lambda>x. x\<lparr>dev_group_id := None, dev_group := None\<rparr>) (devices ?d)"
  let ?new = "delete_where (\<lambda>(t, x). t \<in> set ?gone) (tag_assignments ?d)"
  let ?left = "delete_where (\<lambda>t. tag_group_id t = gid) ?tags"
  have ft: "fleet_tables ?d ?tags ?gids" using ok by (simp add: fleet_ok_def)
  have tok: "tags_ok ?tags ?gids" using ft by (simp add: fleet_tables_def)
  have tabs: "tables (drop_group gid st) = (?d\<lparr>devices := ?devs, tag_assignments := ?new\<rparr>, ?left, ?gids - {gid})"
    by (auto simp: drop_group_def tables_def on_db_def on_api_def Let_def set_delete_where)
  have keep: "(t, g) \<in> tag_pairs ?left" if "(t, g) \<in> tag_pairs ?tags" "g \<noteq> gid" for t g
    using that by (auto simp: tag_pairs_def delete_where_def)
  have "table_ok (?d\<lparr>devices := ?devs, tag_assignments := ?new\<rparr>)"
    by (rule table_ok_sub [where P = "\<lambda>_. True" and d = ?d]) (use ft in \<open>auto simp: fleet_tables_def set_delete_where\<close>)
  moreover have "devices_ok ?devs (?gids - {gid})"
  proof -
    have "map dev_id ?devs = map dev_id (devices ?d)" by (rule column_update) simp
    moreover have "snd ` dev_pairs ?devs \<subseteq> insert None (snd ` dev_pairs (devices ?d) - {Some gid})"
      by (auto simp: dev_pairs_def set_update_where image_iff)
    moreover have "snd ` dev_pairs (devices ?d) \<subseteq> insert None (Some ` ?gids)" "distinct (map dev_id (devices ?d))"
      using ft by (simp_all add: fleet_tables_def devices_ok_def)
    ultimately show ?thesis unfolding devices_ok_def by (auto dest!: subsetD)
  qed
  moreover have "tags_ok ?left (?gids - {gid})" using tok by (auto simp: tags_ok_def delete_where_def distinct_map_filter tag_pairs_def)
  moreover have "assignments_ok (?d\<lparr>devices := ?devs, tag_assignments := ?new\<rparr>) ?left"
    unfolding assignments_ok_def
  proof
    fix e assume "e \<in> set (tag_assignments (?d\<lparr>devices := ?devs, tag_assignments := ?new\<rparr>))"
    then have e: "e \<in> set (tag_assignments ?d)" "fst e \<notin> set ?gone" by (auto simp: set_delete_where)
    obtain g where g: "(fst e, g) \<in> tag_pairs ?tags" "(snd e, Some g) \<in> dev_pairs (devices ?d)"
      using ft e(1) unfolding fleet_tables_def assignments_ok_def by blast
    have "g \<noteq> gid" using e(2) g(1) by (auto simp: tag_pairs_def)
    moreover have "(snd e, Some g) \<in> dev_pairs ?devs" using g(2) \<open>g \<noteq> gid\<close> by (auto simp: dev_pairs_def set_update_where image_iff)
    ultimately show "\<exists>g. (fst e, g) \<in> tag_pairs ?left \<and> (snd e, Some g) \<in> dev_pairs (devices (?d\<lparr>devices := ?devs, tag_assignments := ?new\<rparr>))"
      using keep [OF g(1)] by auto
  qed
  moreover have "sched_refs ?left (?gids - {gid}) s" if "s \<in> set (schedules ?d)" for s
    using ft unused [OF that] that keep unfolding fleet_tables_def sched_refs_def by blast
  ultimately show ?thesis using tabs by (simp add: fleet_ok_tables fleet_tables_def)
qed

subsection \<open>The fleet as a transition system\<close>

text \<open>Requests by any user, in any order, with the schedule API and the evaluation passes in between; devices appear by
  registration or adoption, and stale ones are purged. The program does not check the tags given to a device that is not
  adopted (\<open>pending_tags_bypass_conflict_check\<close>); such a request is a step when the tags happen to bring no new overlap.\<close>

inductive fleet_step :: "fleet_state \<Rightarrow> fleet_state \<Rightarrow> bool" where
  fs_schedules: "api_step (fl_api st) a \<Longrightarrow> fleet_step st (st\<lparr>fl_api := a\<rparr>)"
| fs_create_tag: "create_group_tag env u g name color st = Inr st' \<Longrightarrow> fe_fresh_id env \<notin> tag_row_id ` set (fl_tags st) \<Longrightarrow> fleet_step st st'"
| fs_update_tag: "update_group_tag u tid name' color st = Inr st' \<Longrightarrow> fleet_step st st'"
| fs_delete_tag: "delete_group_tag u tid st = Inr st' \<Longrightarrow> fleet_step st st'"
| fs_put_tags: "put_device_tags env u did tids st = Inr st' \<Longrightarrow> load_device st did = Inr dv
    \<Longrightarrow> dev_status dv = ADOPTED \<or> \<not> new_overlap st dv (set tids) \<Longrightarrow> fleet_step st st'"
| fs_update: "update_device env u did data st = Inr st' \<Longrightarrow> fleet_step st st'"
| fs_password: "set_device_password env u did pw st = Inr st' \<Longrightarrow> fleet_step st st'"
| fs_reboot: "reboot_device env u did st = Inr st' \<Longrightarrow> fleet_step st st'"
| fs_ssh: "toggle_device_ssh env u did v st = Inr st' \<Longrightarrow> fleet_step st st'"
| fs_local_api: "toggle_device_local_api env u did v st = Inr st' \<Longrightarrow> fleet_step st st'"
| fs_factory_reset: "factory_reset_device env u did st = Inr st' \<Longrightarrow> fleet_step st st'"
| fs_adopt: "adopt_row env u did body st = Inr st' \<Longrightarrow> fleet_step st st'"
| fs_delete: "delete_device env u did st = Inr st' \<Longrightarrow> fleet_step st st'"
| fs_create_group: "create_group env u name a st = Inr st' \<Longrightarrow> fleet_step st st'"
| fs_update_group: "update_group env u gid gu st = Inr st' \<Longrightarrow> fleet_step st st'"
| fs_delete_group: "delete_group env u gid st = Inr st' \<Longrightarrow> fleet_step st st'"
| fs_appear: "dev_id dv \<notin> dev_id ` set (devices (fl_db st)) \<Longrightarrow> dev_group_id dv \<in> insert None (Some ` dg_id ` set (fl_groups st))
    \<Longrightarrow> fleet_step st (on_db (\<lambda>d. d\<lparr>devices := devices d @ [dv]\<rparr>) st)"
| fs_purge: "fleet_step st (drop_device did st)"

lemma ok_by_tables: "tables st' = (d, tags, gids) \<Longrightarrow> fleet_tables d tags gids \<Longrightarrow> fleet_ok st'"
  by (simp add: fleet_ok_tables)

lemma ok_same_tables: "tables st' = tables st \<Longrightarrow> fleet_ok st \<Longrightarrow> fleet_ok st'"
  by (simp add: fleet_ok_tables)

lemma ok_set_device:
  assumes "fleet_ok st" "\<And>x. dev_id (f x) = dev_id x \<and> dev_group_id (f x) = dev_group_id x"
  shows "fleet_ok (set_device did f st)"
  by (rule ok_by_tables, unfold set_device_def tables_writes, rule refl)
     (rule tables_device_columns, use assms in \<open>simp_all add: fleet_ok_def\<close>)

lemma ok_schedules:
  assumes "fleet_ok st" "api_step (fl_api st) a"
  shows "fleet_ok (st\<lparr>fl_api := a\<rparr>)"
proof -
  have "table_ok (api_db a)" using api_step_table_ok [OF assms(2)] assms(1) by (simp add: fleet_ok_def fleet_tables_def)
  moreover have "api_refs a" using api_step_refs [OF assms(2)] assms(1) by (simp add: fleet_ok_def fleet_tables_def api_refs_def)
  ultimately show ?thesis
    using api_step_other [OF assms(2)] assms(1) by (simp add: fleet_ok_def fleet_tables_def api_refs_def assignments_ok_def)
qed

lemma ok_tags:
  "create_group_tag env u g name color st = Inr st' \<Longrightarrow> fe_fresh_id env \<notin> tag_row_id ` set (fl_tags st) \<Longrightarrow> fleet_ok st \<Longrightarrow> fleet_ok st'"
  "update_group_tag u tid name' color st = Inr st' \<Longrightarrow> fleet_ok st \<Longrightarrow> fleet_ok st'"
  "delete_group_tag u tid st = Inr st' \<Longrightarrow> fleet_ok st \<Longrightarrow> fleet_ok st'"
proof -
  show "fleet_ok st'" if run: "create_group_tag env u g name color st = Inr st'" "fe_fresh_id env \<notin> tag_row_id ` set (fl_tags st)" "fleet_ok st"
  proof -
    obtain x t rows where c: "load_group st g = Inr x" "create_tag (fe_fresh_id env) g name color (fl_tags st) = Inr (t, rows)"
      and st': "st' = fleet_audit ''device_tag.create'' (tag_row_id t) (set_tags rows st)"
      using run(1) by (auto simp: create_group_tag_def result_bind_eq_Inr)
    have "g \<in> dg_id ` set (fl_groups st)" using load_group_Inr [OF c(1)] by blast
    then have "fleet_tables (fl_db st) rows (dg_id ` set (fl_groups st))"
      using tables_create_tag [OF _ c(2) run(2)] run(3) by (simp add: fleet_ok_def)
    then show ?thesis unfolding st' by (intro ok_by_tables) (simp_all add: tables_writes)
  qed
  show "fleet_ok st'" if run: "update_group_tag u tid name' color st = Inr st'" "fleet_ok st"
  proof -
    let ?gids = "dg_id ` set (fl_groups st)"
    obtain t rows rows' where t: "load_tag st tid = Inr t" and rows: "(case name' of None \<Rightarrow> Inr (fl_tags st) | Some n \<Rightarrow> rename_tag t n (fl_tags st)) = Inr rows"
      and new: "(case color of None \<Rightarrow> Inr rows | Some c \<Rightarrow> result_bind (normalize_tag_color (Some c)) (\<lambda>clean.
             Inr (update_where (\<lambda>r. tag_row_id r = tid) (\<lambda>r. r\<lparr>tag_color := clean\<rparr>) rows))) = Inr rows'"
      and st': "st' = fleet_audit ''device_tag.update'' tid (set_tags rows' st)"
      using run(1) unfolding update_group_tag_def result_bind_eq_Inr http_Inr sum.inject by metis
    have rows': "rows' = rows \<or> (\<exists>c. rows' = update_where (\<lambda>r. tag_row_id r = tid) (\<lambda>r. r\<lparr>tag_color := c\<rparr>) rows)"
      using new by (auto simp: result_bind_eq_Inr split: option.splits)
    have "find_by tag_row_id tid (fl_tags st) = Some t" using t by (auto simp: load_tag_def split: option.splits)
    then have "fleet_tables (fl_db st) rows ?gids"
      using rows run(2) tables_rename_tag by (cases name') (auto simp: fleet_ok_def)
    then have "fleet_tables (fl_db st) rows' ?gids" using rows' tables_tag_color by blast
    then show ?thesis unfolding st' by (intro ok_by_tables) (simp_all add: tables_writes)
  qed
  show "fleet_ok st'" if run: "delete_group_tag u tid st = Inr st'" "fleet_ok st"
  proof -
    have st': "st' = fleet_audit ''device_tag.delete'' tid (delete_tag tid st)" using run(1) by (auto simp: delete_group_tag_def result_bind_eq_Inr)
    obtain d where "tables st' = (d, delete_where (\<lambda>t. tag_row_id t \<in> {tid}) (fl_tags st), dg_id ` set (fl_groups st))"
      "schedules d = delete_where (\<lambda>s. tag_id s \<in> Some ` {tid}) (schedules (fl_db st))" "devices d = devices (fl_db st)"
      "tag_assignments d = delete_where (\<lambda>e. fst e \<in> {tid}) (tag_assignments (fl_db st))"
      by (simp add: st' delete_tag_def tables_writes drop_schedules_def on_api_def set_tags_def Let_def set_db_def case_prod_beta')
    then show ?thesis using run(2) tables_delete_tags by (blast intro: ok_by_tables dest: iffD1 [OF fleet_ok_def])
  qed
qed

lemma ok_put_tags:
  assumes run: "put_device_tags env u did tids st = Inr st'" and dv: "load_device st did = Inr dv"
    and "dev_status dv = ADOPTED \<or> \<not> new_overlap st dv (set tids)" and ok: "fleet_ok st"
  shows "fleet_ok st'"
proof -
  let ?after = "\<lparr>dt_group_id = dev_group_id dv, dt_tag_ids = tids\<rparr>"
  have get: "get_device_with_access u did st = Inr dv"
    using run dv by (auto simp: put_device_tags_def get_device_with_access_def result_bind_eq_Inr)
  have row: "dv \<in> set (devices (fl_db st))" "dev_id dv = did" using device_row_Some [OF dv] by simp_all
  obtain v where v: "validate_device_transition (fl_db st) [(did, ?after)] [(did, current_device_targeting (fl_db st) did)] (fe_composed env) = Inr v"
    using run by (auto simp: put_device_tags_def get Let_def split: sum.splits)
  obtain shown st1 where "\<And>x. map_of v did = Some x \<Longrightarrow> introduced_conflicts x = []" "set_device_tags dv tids st = Inr (shown, st1)"
    "st' = push_sync env did (fleet_audit ''device.tags_set'' did st1)"
    using run by (auto simp: put_device_tags_def get Let_def v result_bind_eq_Inr split: option.splits if_splits)
  moreover from this(1) have "\<not> new_overlap st dv (set tids)"
    using tags_check [OF ok row(1), of tids "fe_composed env" v] v row(2) assms(3) by (auto split: if_splits)
  ultimately show ?thesis using tables_put_tags [OF ok row(1)] by (auto intro: ok_same_tables)
qed

lemma ok_update_device:
  assumes run: "update_device env actor did u st = Inr st'" and ok: "fleet_ok st"
  shows "fleet_ok st'"
proof -
  obtain dv a where grp: "(case du_group u of None \<Rightarrow> Inr () | Some g \<Rightarrow> result_bind (verify_group_change_access actor dv g st) (\<lambda>_.
             require_existing_groups (case g of None \<Rightarrow> [] | Some x \<Rightarrow> [x]) st)) = Inr ()"
    and st': "st' = (let st1 = set_device did (changed_device u a) st;
           st2 = (case du_channel u of Some (Some c) \<Rightarrow> st1\<lparr>fl_channels := dict_set did c (fl_channels st1)\<rparr> | _ \<Rightarrow> st1);
           st3 = (case du_group u of None \<Rightarrow> st2 | Some g \<Rightarrow> snd (set_device_group dv g False st2))
       in push_after_update env u did (fleet_audit ''device.update'' did st3))"
    using run unfolding update_device_def result_bind_eq_Inr Let_def sum.inject by auto
  let ?st1 = "set_device did (changed_device u a) st"
  define st2 where "st2 = (case du_channel u of Some (Some c) \<Rightarrow> ?st1\<lparr>fl_channels := dict_set did c (fl_channels ?st1)\<rparr> | _ \<Rightarrow> ?st1)"
  have "tables st2 = tables ?st1" by (simp add: st2_def split: option.splits)
  moreover have "fleet_ok ?st1" by (rule ok_set_device [OF ok]) (simp add: changed_device_def)
  ultimately have ok2: "fleet_ok st2" by (rule ok_same_tables)
  have groups: "dg_id ` set (fl_groups st2) = dg_id ` set (fl_groups st)"
    by (simp add: st2_def set_device_def on_db_def on_api_def split: option.splits)
  have "fleet_ok (case du_group u of None \<Rightarrow> st2 | Some g \<Rightarrow> snd (set_device_group dv g False st2))"
    using ok2 grp groups by (auto simp: result_bind_eq_Inr require_existing_groups_def intro!: tables_set_group split: option.splits if_splits)
  then show ?thesis unfolding st' Let_def st2_def by (auto intro: ok_same_tables)
qed

lemma ok_adopt:
  assumes run: "adopt_row env actor did body st = Inr st'" and ok: "fleet_ok st"
  shows "fleet_ok st'"
proof -
  obtain dv st1 y where pre: "(if dev_status dv = ADOPTED then Inl (HTTPException 400 ''Device is already adopted'')
         else Inr (if dev_status dv = ORPHANED then st\<lparr>fl_credentials := dict_set did (None, None, None, None) (fl_credentials st)\<rparr> else st)) = Inr st1"
    and grp: "(case ab_group body of None \<Rightarrow> Inr ()
         | Some g \<Rightarrow> result_bind (require_existing_groups [g] st) (\<lambda>_. verify_group_change_access actor dv (Some g) st)) = Inr y"
    and st': "st' = (let st2 = (case ab_group body of None \<Rightarrow> st1 | Some g \<Rightarrow> snd (set_device_group dv (Some g) False st1));
           st3 = set_device did (\<lambda>x. x\<lparr>dev_status := ADOPTED, dev_name := opt (ab_name body) (dev_name x),
                   dev_profile_id := Some (ab_profile body)\<rparr>) st2
       in fleet_audit ''device.adopt'' did (push_sync env did (post env did (Wipe_Assets ''adopted'') st3)))"
    using run unfolding adopt_row_def result_bind_eq_Inr Let_def sum.inject by (elim exE conjE) (rule that, assumption, assumption, unfold Let_def, erule sym)
  have st1: "tables st1 = tables st" using pre by (auto split: if_splits)
  have ok1: "fleet_ok st1" by (rule ok_same_tables [OF st1 ok])
  have groups: "dg_id ` set (fl_groups st1) = dg_id ` set (fl_groups st)" using st1 by (simp add: tables_def)
  have "fleet_ok (case ab_group body of None \<Rightarrow> st1 | Some g \<Rightarrow> snd (set_device_group dv (Some g) False st1))"
    using ok1 grp groups by (auto simp: result_bind_eq_Inr require_existing_groups_def intro!: tables_set_group split: option.splits if_splits)
  then show ?thesis unfolding st' Let_def
    by (auto intro!: ok_set_device intro: ok_same_tables [OF _ ok_set_device])
qed

lemma ok_drop_device: "fleet_ok st \<Longrightarrow> fleet_ok (drop_device did st)"
proof -
  assume ok: "fleet_ok st"
  obtain d where "tables (drop_device did st) = (d, fl_tags st, dg_id ` set (fl_groups st))"
    "devices d = delete_where (\<lambda>x. dev_id x = did) (devices (fl_db st))" "schedules d = schedules (fl_db st)"
    "tag_assignments d = delete_where (\<lambda>(t, x). x = did) (tag_assignments (fl_db st))"
    by (simp add: drop_device_def tables_def on_api_def Let_def)
  then show ?thesis using ok tables_drop_device unfolding fleet_ok_def by (blast intro: ok_by_tables [unfolded fleet_ok_def])
qed

lemma ok_groups:
  "create_group env u name a st = Inr st' \<Longrightarrow> fleet_ok st \<Longrightarrow> fleet_ok st'"
  "update_group env u gid gu st = Inr st' \<Longrightarrow> fleet_ok st \<Longrightarrow> fleet_ok st'"
  "delete_group env u gid st = Inr st' \<Longrightarrow> fleet_ok st \<Longrightarrow> fleet_ok st'"
proof -
  show "fleet_ok st'" if run: "create_group env u name a st = Inr st'" and ok: "fleet_ok st"
  proof -
    obtain gids where "tables st' = (fl_db st, fl_tags st, gids)" "dg_id ` set (fl_groups st) \<subseteq> gids"
      using run by (auto simp: create_group_def Let_def result_bind_eq_Inr tables_def fleet_audit_def on_api_def insert_row_def subset_insertI)
    then show ?thesis using ok tables_more_groups unfolding fleet_ok_def [of st] by (blast intro: ok_by_tables)
  qed
  show "fleet_ok st'" if run: "update_group env u gid gu st = Inr st'" and ok: "fleet_ok st"
  proof -
    obtain g where "tables st' = tables (refresh_group g st)"
      using run by (auto simp: update_group_def Let_def result_bind_eq_Inr split: if_splits)
    then show ?thesis by (rule ok_same_tables) (rule tables_refresh_group [OF ok])
  qed
  show "fleet_ok st'" if run: "delete_group env u gid st = Inr st'" and ok: "fleet_ok st"
  proof -
    have used: "rowcount (\<lambda>s. group_id s = Some gid) (schedules (fl_db st)) = 0"
      and st': "tables st' = tables (drop_group gid (fleet_audit ''group.delete'' gid st))"
      using run by (auto simp: delete_group_def Let_def result_bind_eq_Inr split: if_splits)
    have "fleet_ok (fleet_audit ''group.delete'' gid st)" by (rule ok_same_tables [OF _ ok]) simp
    then have "fleet_ok (drop_group gid (fleet_audit ''group.delete'' gid st))"
      by (rule tables_drop_group) (use used in \<open>auto simp: rowcount_def filter_empty_conv fleet_audit_def on_api_def\<close>)
    then show ?thesis by (rule ok_same_tables [OF st'])
  qed
qed

text \<open>The commands touch no table.\<close>

lemma ok_send: "send_command env u did m action f st = Inr st' \<Longrightarrow> (\<And>s. tables (f s) = tables s) \<Longrightarrow> fleet_ok st \<Longrightarrow> fleet_ok st'"
  by (auto simp: send_command_def result_bind_eq_Inr intro: ok_same_tables split: if_splits)

lemma ok_commands:
  "set_device_password env u did pw st = Inr st' \<Longrightarrow> fleet_ok st \<Longrightarrow> fleet_ok st'"
  "reboot_device env u did st = Inr st' \<Longrightarrow> fleet_ok st \<Longrightarrow> fleet_ok st'"
  "toggle_device_ssh env u did v st = Inr st' \<Longrightarrow> fleet_ok st \<Longrightarrow> fleet_ok st'"
  "toggle_device_local_api env u did v st = Inr st' \<Longrightarrow> fleet_ok st \<Longrightarrow> fleet_ok st'"
  "factory_reset_device env u did st = Inr st' \<Longrightarrow> fleet_ok st \<Longrightarrow> fleet_ok st'"
  by (auto simp: set_device_password_def reboot_device_def toggle_device_ssh_def toggle_device_local_api_def factory_reset_device_def
      elim!: ok_send split: if_splits)

lemma fleet_step_ok: "fleet_step st st' \<Longrightarrow> fleet_ok st \<Longrightarrow> fleet_ok st'"
proof (induction rule: fleet_step.induct)
  case (fs_delete env u did st st')
  then have "st' = drop_device did (fleet_audit ''device.delete'' did (post env did (Wipe_Assets ''deleted'') st))"
    by (auto simp: delete_device_def result_bind_eq_Inr)
  moreover have "fleet_ok (fleet_audit ''device.delete'' did (post env did (Wipe_Assets ''deleted'') st))"
    by (rule ok_same_tables [OF _ fs_delete.prems]) simp
  ultimately show ?case by (simp add: ok_drop_device)
next
  case (fs_appear dv st)
  then show ?case
    by (intro ok_by_tables, unfold tables_writes, rule_tac refl) (auto simp: fleet_ok_def intro!: tables_new_device)
qed (blast intro: ok_schedules ok_tags ok_put_tags ok_update_device ok_adopt ok_commands ok_groups ok_drop_device)+

interpretation fleet_runs: step_invariant fleet_step fleet_ok
  by unfold_locales (rule fleet_step_ok)

section \<open>Properties\<close>

text \<open>The schedule that plays on an adopted device of a consistent fleet has the strictly highest priority there.\<close>

lemma ok_strict_winner:
  assumes "fleet_ok st" and "d \<in> set (devices (fl_db st))" and "dev_status d = ADOPTED"
    and "plays (fl_db st) t (dev_id d) s" and "eligible (fl_db st) t (dev_id d) s'" and "s' \<noteq> s"
  shows "priority s' < priority s"
proof -
  have ok: "table_ok (fl_db st)" "distinct (map dev_id (devices (fl_db st)))"
    using assms(1) by (simp_all add: fleet_ok_def fleet_tables_def devices_ok_def)
  have "\<forall>a \<in> reach (schedules (fl_db st)) (current_device_targeting (fl_db st) (dev_id d)).
      \<forall>b \<in> reach (schedules (fl_db st)) (current_device_targeting (fl_db st) (dev_id d)). \<not> conflict a b"
    using clash_free_no_conflict [OF ok(1) assms(2)] by blast
  from strict_winner [OF assms(2,3) ok(2) this assms(4-6)] show ?thesis .
qed

definition sample_fleet :: fleet_state where
  "sample_fleet = \<lparr>fl_api = sample_api sample_db, fl_acc = sample_accounts, fl_profiles = [(''p'', True)], fl_channels = [], fl_credentials = [],
     fl_flags = [], fl_sent = []\<rparr>"

definition sample_fleet_env :: fleet_env where
  "sample_fleet_env = \<lparr>fe_tick = offline_env sample_now 0, fe_fresh_id = ''t1'', fe_fetchable = (\<lambda>a d. True), fe_delivers = (\<lambda>d. True), fe_composed = []\<rparr>"

definition sample_lobby :: tag_row where
  "sample_lobby = \<lparr>tag_row_id = ''t1'', tag_group_id = ''g'', tag_name = ''Lobby'', tag_color = ''#737373''\<rparr>"


lemma sample_fleet_ok: "fleet_ok sample_fleet"
proof -
  have "table_ok sample_db" using sample_table_ok by (simp add: sample_api_def empty_state_def)
  moreover have "sched_refs [] {''g''} s" if "s \<in> set (schedules sample_db)" for s
    using that by (auto simp: sample_db_def sched_refs_def sample_schedule_def sample_tuesday_def)
  ultimately show ?thesis
    by (simp add: fleet_ok_def fleet_tables_def sample_fleet_def sample_api_def empty_state_def sample_rows devices_ok_def tags_ok_def tag_pairs_def
        dev_pairs_def assignments_ok_def sample_device_def) (simp add: sample_db_def)
qed

lemma sample_tag_created:
  "create_group_tag sample_fleet_env sample_admin ''g'' '' Lobby '' None sample_fleet
     = Inr (fleet_audit ''device_tag.create'' ''t1'' (set_tags [sample_lobby] sample_fleet))"
  by code_simp

text \<open>C2. The runtime never has to choose between schedules of equal priority. Start from consistent tables and let any users, in any order, use
  the schedule, tag, device and group interfaces, with evaluation passes in between, devices appearing and devices purged: the tables stay consistent
  (every device in an existing group, carrying tags of that group only, every schedule with an existing group and a tag of it, tag names unique in
  their group up to case), and on every adopted device the schedule that plays has a strictly higher priority than every other eligible one.
  One kind of request is restricted: tags given to a device before its adoption, which the program accepts without a check, must not make two
  schedules of equal priority with a common instant reach it that did not both reach it before; without that the statement fails, as
  \<open>pending_tags_bypass_conflict_check\<close> shows.\<close>

theorem fleet_never_needs_tie_break:
  assumes "fleet_ok st0" and "fleet_step\<^sup>*\<^sup>* st0 st"
    and "d \<in> set (devices (fl_db st))" and "dev_status d = ADOPTED"
    and "plays (fl_db st) t (dev_id d) s" and "eligible (fl_db st) t (dev_id d) s'" and "s' \<noteq> s"
  shows "fleet_ok st \<and> priority s' < priority s"
  using fleet_runs.run_keeps [OF assms(2,1)] ok_strict_winner assms(3-7) by blast

theorem fleet_never_needs_tie_break_witness:
  "fleet_ok (fleet_audit ''device_tag.create'' ''t1'' (set_tags [sample_lobby] sample_fleet)) \<and> priority sample_late < priority sample_early"
proof (rule fleet_never_needs_tie_break [OF sample_fleet_ok, of _ sample_device sample_now])
  have "''t1'' \<notin> tag_row_id ` set (fl_tags sample_fleet)" "fe_fresh_id sample_fleet_env = ''t1''"
    by (simp_all add: sample_fleet_def sample_api_def sample_fleet_env_def)
  then show "fleet_step\<^sup>*\<^sup>* sample_fleet (fleet_audit ''device_tag.create'' ''t1'' (set_tags [sample_lobby] sample_fleet))"
    using fs_create_tag [OF sample_tag_created] by auto
  have db: "fl_db (fleet_audit ''device_tag.create'' ''t1'' (set_tags [sample_lobby] sample_fleet)) = sample_db"
    by (simp add: fleet_audit_def set_tags_def on_api_def sample_fleet_def sample_api_def empty_state_def)
  have id: "dev_id sample_device = ''d1''" by (simp add: sample_device_def)
  show "sample_device \<in> set (devices (fl_db (fleet_audit ''device_tag.create'' ''t1'' (set_tags [sample_lobby] sample_fleet))))" "dev_status sample_device = ADOPTED"
    unfolding db by (simp_all add: sample_rows sample_device_def)
  show "eligible (fl_db (fleet_audit ''device_tag.create'' ''t1'' (set_tags [sample_lobby] sample_fleet))) sample_now (dev_id sample_device) sample_late"
    unfolding db id by (rule sample_eligible(1))
  have "schedule_wins sample_early (Some sample_late)" by code_simp
  moreover have "s' = sample_late \<or> s' = sample_early" if "eligible sample_db sample_now ''d1'' s'" for s'
    using that by (auto simp: eligible_def sample_rows)
  ultimately show "plays (fl_db (fleet_audit ''device_tag.create'' ''t1'' (set_tags [sample_lobby] sample_fleet))) sample_now (dev_id sample_device) sample_early"
    unfolding db id using sample_eligible(2) by (auto simp: plays_def)
  show "sample_late \<noteq> sample_early"
    by (simp add: sample_late_def sample_early_def sample_schedule_def sample_tuesday_def)
qed

text \<open>When the tags of a device may be changed to the given ones.\<close>

definition may_tag :: "fleet_state \<Rightarrow> device \<Rightarrow> string list \<Rightarrow> bool" where
  "may_tag st dv tids \<longleftrightarrow> (\<forall>i \<in> set tids. \<exists>t \<in> set (fl_tags st). tag_row_id t = i \<and> dev_group_id dv = Some (tag_group_id t))"

lemma may_tag_Nil [simp]: "may_tag st dv []"
  by (simp add: may_tag_def)

lemma set_device_tags_cases:
  assumes "distinct (map tag_row_id (fl_tags st))"
  shows "case set_device_tags dv tids st of
      Inl e \<Rightarrow> \<not> may_tag st dv tids
    | Inr (shown, st') \<Rightarrow> may_tag st dv tids
        \<and> st' = set_assignments (dev_id dv) (map tag_row_id (filter (\<lambda>t. tag_row_id t \<in> set tids) (fl_tags st))) st"
proof -
  have inj: "t = t'" if "t \<in> set (fl_tags st)" "t' \<in> set (fl_tags st)" "tag_row_id t = tag_row_id t'" for t t'
    using assms that by (auto simp: distinct_map dest: inj_onD)
  let ?tags = "filter (\<lambda>t. tag_row_id t \<in> set tids) (fl_tags st)"
  have "may_tag st dv tids \<longleftrightarrow> \<not> (tids \<noteq> [] \<and> dev_group_id dv = None) \<and> (\<forall>i \<in> set tids. i \<in> tag_row_id ` set ?tags)
      \<and> (\<forall>t \<in> set ?tags. Some (tag_group_id t) = dev_group_id dv)"
  proof
    assume may: "may_tag st dv tids"
    have "Some (tag_group_id t) = dev_group_id dv" if t: "t \<in> set ?tags" for t
    proof -
      obtain t' where t': "t' \<in> set (fl_tags st)" "tag_row_id t' = tag_row_id t" "dev_group_id dv = Some (tag_group_id t')"
        using may t by (auto simp: may_tag_def)
      then have "t' = t" using inj [of t' t] t by auto
      then show ?thesis using t'(3) by simp
    qed
    moreover have "dev_group_id dv \<noteq> None" if "tids \<noteq> []" using may that by (cases tids) (auto simp: may_tag_def)
    moreover have "i \<in> tag_row_id ` set ?tags" if "i \<in> set tids" for i using may that unfolding may_tag_def by fastforce
    ultimately show "\<not> (tids \<noteq> [] \<and> dev_group_id dv = None) \<and> (\<forall>i \<in> set tids. i \<in> tag_row_id ` set ?tags)
      \<and> (\<forall>t \<in> set ?tags. Some (tag_group_id t) = dev_group_id dv)" by blast
  next
    assume *: "\<not> (tids \<noteq> [] \<and> dev_group_id dv = None) \<and> (\<forall>i \<in> set tids. i \<in> tag_row_id ` set ?tags)
      \<and> (\<forall>t \<in> set ?tags. Some (tag_group_id t) = dev_group_id dv)"
    show "may_tag st dv tids" unfolding may_tag_def
    proof
      fix i assume "i \<in> set tids"
      then obtain t where "t \<in> set ?tags" "i = tag_row_id t" using * by blast
      then show "\<exists>t \<in> set (fl_tags st). tag_row_id t = i \<and> dev_group_id dv = Some (tag_group_id t)" using * by force
    qed
  qed
  moreover have "fromkeys tids = [] \<longleftrightarrow> tids = []" by (metis set_empty set_fromkeys)
  ultimately show ?thesis
    by (simp add: set_device_tags_def Let_def filter_empty_conv) blast
qed

lemma assigned_after_set:
  assumes "may_tag st dv tids"
  shows "tag_row_id ` set (get_device_tags (dev_id dv) (set_assignments (dev_id dv) (map tag_row_id (filter (\<lambda>t. tag_row_id t \<in> set tids) (fl_tags st))) st)) = set tids"
    and "other \<noteq> dev_id dv \<Longrightarrow> get_device_tags other (set_assignments (dev_id dv) ids st) = get_device_tags other st"
proof -
  have carried: "(i, x) \<in> set (tag_assignments (fl_db (set_assignments did ids st))) \<longleftrightarrow> (if x = did then i \<in> set ids else (i, x) \<in> set (tag_assignments (fl_db st)))"
    and rows: "fl_tags (set_assignments did ids st) = fl_tags st" for i x did ids
    by (auto simp: set_assignments_def on_db_def on_api_def set_delete_where)
  show "tag_row_id ` set (get_device_tags (dev_id dv) (set_assignments (dev_id dv) (map tag_row_id (filter (\<lambda>t. tag_row_id t \<in> set tids) (fl_tags st))) st)) = set tids"
    unfolding get_device_tags_def assigned_tags_def set_sort set_filter carried rows using assms by (auto simp: may_tag_def)
  show "get_device_tags other (set_assignments (dev_id dv) ids st) = get_device_tags other st" if "other \<noteq> dev_id dv"
    unfolding get_device_tags_def assigned_tags_def carried rows using that by simp
qed

lemma assigned_frames [simp]:
  "get_device_tags x (push_sync env did st) = get_device_tags x st" "get_device_tags x (fleet_audit a r st) = get_device_tags x st"
  by (simp_all add: get_device_tags_def assigned_tags_def push_sync_def fleet_audit_def on_api_def)

text \<open>C3. The tags of an adopted device can be changed exactly when every wanted tag exists and belongs to the group of the device and the change does
  not make two schedules of equal priority with a common instant reach the device that did not both reach it before; those of a device that is not
  adopted exactly when every wanted tag exists and belongs to its group. Then the device carries exactly the wanted tags, whatever their order and
  repetitions, and every other device keeps its own.\<close>

theorem put_device_tags_exact:
  assumes "fleet_ok st" and "get_device_with_access u did st = Inr dv"
  shows "case put_device_tags env u did tids st of
      Inl e \<Rightarrow> \<not> may_tag st dv tids \<or> dev_status dv = ADOPTED \<and> new_overlap st dv (set tids)
    | Inr st' \<Rightarrow> may_tag st dv tids \<and> \<not> (dev_status dv = ADOPTED \<and> new_overlap st dv (set tids))
        \<and> tag_row_id ` set (get_device_tags did st') = set tids
        \<and> (\<forall>other. other \<noteq> did \<longrightarrow> get_device_tags other st' = get_device_tags other st)"
proof -
  have row: "dv \<in> set (devices (fl_db st))" "dev_id dv = did" using device_row_Some [OF with_access_Inr [OF assms(2)]] by simp_all
  have ok: "distinct (map tag_row_id (fl_tags st))" "schedules_ok (schedules (fl_db st))"
    using assms(1) by (simp_all add: fleet_ok_def fleet_tables_def tags_ok_def table_ok_def)
  note cases = set_device_tags_cases [OF ok(1), of dv tids]
  obtain r where r: "validate_device_transition (fl_db st) [(did, \<lparr>dt_group_id = dev_group_id dv, dt_tag_ids = tids\<rparr>)]
      [(did, current_device_targeting (fl_db st) did)] (fe_composed env) = Inr r" using transition_total [OF ok(2)] by blast
  have check: "(\<exists>x. map_of r did = Some x \<and> introduced_conflicts x \<noteq> []) \<longleftrightarrow> dev_status dv = ADOPTED \<and> new_overlap st dv (set tids)"
    using tags_check [OF assms(1) row(1), of tids "fe_composed env" r] r row(2) by (auto split: if_splits)
  show ?thesis
  proof (cases "dev_status dv = ADOPTED \<and> new_overlap st dv (set tids)")
    case True
    then obtain x where "map_of r did = Some x" "introduced_conflicts x \<noteq> []" using check by blast
    then show ?thesis using True by (auto simp: put_device_tags_def assms(2) r Let_def)
  next
    case False
    then have "\<not> (\<exists>x. map_of r did = Some x \<and> introduced_conflicts x \<noteq> [])" using check by blast
    then have "put_device_tags env u did tids st = result_bind (http 422 (set_device_tags dv tids st)) (\<lambda>(tags, st').
        Inr (push_sync env did (fleet_audit ''device.tags_set'' did st')))"
      by (auto simp: put_device_tags_def assms(2) r Let_def split: option.splits)
    then show ?thesis using cases False assigned_after_set [of st dv tids]
      by (cases "set_device_tags dv tids st") (auto simp: http_def row(2))
  qed
qed

definition tagged_fleet :: fleet_state where
  "tagged_fleet = set_tags [sample_lobby] sample_fleet"

lemma tagged_fleet_ok: "fleet_ok tagged_fleet"
proof -
  have "fleet_tables (fl_db sample_fleet) [sample_lobby] (dg_id ` set (fl_groups sample_fleet))"
  proof (rule tables_create_tag)
    show "fleet_tables (fl_db sample_fleet) [] (dg_id ` set (fl_groups sample_fleet))"
      using sample_fleet_ok by (simp add: fleet_ok_def sample_fleet_def sample_api_def)
    show "create_tag ''t1'' ''g'' '' Lobby '' None [] = Inr (sample_lobby, [sample_lobby])" by code_simp
  qed (simp_all add: sample_fleet_def sample_api_def)
  then show ?thesis by (rule ok_by_tables [rotated]) (simp add: tagged_fleet_def tables_writes)
qed

theorem put_device_tags_exact_witness:
  "\<exists>st'. put_device_tags sample_fleet_env sample_admin ''d1'' [''t1'', ''t1''] tagged_fleet = Inr st' \<and> tag_row_id ` set (get_device_tags ''d1'' st') = {''t1''}"
proof -
  have get: "get_device_with_access sample_admin ''d1'' tagged_fleet = Inr sample_device" by code_simp
  have "\<not> isl (put_device_tags sample_fleet_env sample_admin ''d1'' [''t1'', ''t1''] tagged_fleet)" by code_simp
  then show ?thesis
    using put_device_tags_exact [OF tagged_fleet_ok get, where env = sample_fleet_env and tids = "[''t1'', ''t1'']"] by (cases "put_device_tags sample_fleet_env sample_admin ''d1'' [''t1'', ''t1''] tagged_fleet") auto
qed

definition lobby_schedule :: schedule where
  "lobby_schedule = sample_late\<lparr>tag_id := Some ''t1''\<rparr>"

definition hall_schedule :: schedule where
  "hall_schedule = sample_early\<lparr>tag_id := Some ''t2'', priority := 0\<rparr>"

definition pending_fleet :: fleet_state where
  "pending_fleet = set_tags [sample_lobby, sample_lobby\<lparr>tag_row_id := ''t2'', tag_name := ''Hall''\<rparr>]
     (on_db (\<lambda>d. d\<lparr>schedules := [lobby_schedule, hall_schedule], devices := [sample_device\<lparr>dev_status := PENDING\<rparr>]\<rparr>) sample_fleet)"

lemma targeting_column [simp]: "covers (s\<lparr>tag_id := t\<rparr>) = covers s" "covers (s\<lparr>priority := p\<rparr>) = covers s"
  by (simp_all add: covers_def anchors_def occurrence_def)

lemma pending_fleet_tables:
  "fl_db pending_fleet = sample_db\<lparr>schedules := [lobby_schedule, hall_schedule], devices := [sample_device\<lparr>dev_status := PENDING\<rparr>]\<rparr>"
  "fl_tags pending_fleet = [sample_lobby, sample_lobby\<lparr>tag_row_id := ''t2'', tag_name := ''Hall''\<rparr>]" "dg_id ` set (fl_groups pending_fleet) = {''g''}"
  by (simp_all add: pending_fleet_def set_tags_def on_db_def on_api_def sample_fleet_def sample_api_def empty_state_def)

lemma lobby_hall_rows:
  "tag_id lobby_schedule = Some ''t1''" "tag_id hall_schedule = Some ''t2''" "group_id lobby_schedule = Some ''g''" "group_id hall_schedule = Some ''g''"
  "enabled lobby_schedule" "enabled hall_schedule" "priority lobby_schedule = 0" "priority hall_schedule = 0"
  "sched_id lobby_schedule = ''s1''" "sched_id hall_schedule = ''s2''"
  by (simp_all add: lobby_schedule_def hall_schedule_def sample_late_def sample_early_def sample_schedule_def sample_tuesday_def)

lemma pending_fleet_ok: "fleet_ok pending_fleet"
proof -
  have "schedules_ok [lobby_schedule, hall_schedule]"
    by (simp add: schedules_ok_def lobby_schedule_def hall_schedule_def sample_late_def sample_early_def sample_schedule_def sample_tuesday_def
        valid_schedule_def valid_time_def inner_dates_def)
  moreover have "\<not> targets_overlap a b []" if "a \<in> {lobby_schedule, hall_schedule}" "b \<in> {lobby_schedule, hall_schedule}" "sched_id a \<noteq> sched_id b" for a b
    using that by (auto simp: targets_overlap_def lobby_hall_rows)
  ultimately have "table_ok (fl_db pending_fleet)"
    by (auto simp: table_ok_def clash_free_def clash_def pending_fleet_tables sample_db_def)
  then show ?thesis
    by (simp add: fleet_ok_def fleet_tables_def pending_fleet_tables devices_ok_def tags_ok_def tag_pairs_def dev_pairs_def assignments_ok_def
        sched_refs_def lobby_hall_rows) (simp add: sample_db_def sample_lobby_def sample_device_def lower_text_def lower_char_def)
qed

lemma lobby_hall_clash: "clash [(''t1'', ''d1''), (''t2'', ''d1'')] lobby_schedule hall_schedule"
proof -
  have "dt_us sample_now \<in> covers lobby_schedule" "dt_us sample_now \<in> covers hall_schedule"
    using sample_eligible by (simp_all add: eligible_def lobby_schedule_def hall_schedule_def)
  then show ?thesis by (auto simp: clash_def lobby_hall_rows targets_overlap_def)
qed

text \<open>The check of a change of tags looks at adopted devices only, and adoption checks nothing: in a consistent fleet, tagging a pending device and
  then adopting it succeeds and leaves two schedules of equal priority that overlap on an adopted device.\<close>

theorem pending_tags_bypass_conflict_check:
  "fleet_ok pending_fleet \<and>
   (\<exists>st1 st2. put_device_tags sample_fleet_env sample_admin ''d1'' [''t1'', ''t2''] pending_fleet = Inr st1
      \<and> adopt_row sample_fleet_env sample_admin ''d1'' \<lparr>ab_name = None, ab_group = None, ab_profile = ''p''\<rparr> st1 = Inr st2
      \<and> map dev_status (devices (fl_db st2)) = [ADOPTED] \<and> \<not> clash_free (fl_db st2))"
proof -
  define st1 where "st1 = projr (put_device_tags sample_fleet_env sample_admin ''d1'' [''t1'', ''t2''] pending_fleet)"
  define st2 where "st2 = projr (adopt_row sample_fleet_env sample_admin ''d1'' \<lparr>ab_name = None, ab_group = None, ab_profile = ''p''\<rparr> st1)"
  have "\<not> isl (put_device_tags sample_fleet_env sample_admin ''d1'' [''t1'', ''t2''] pending_fleet)" by code_simp
  then have 1: "put_device_tags sample_fleet_env sample_admin ''d1'' [''t1'', ''t2''] pending_fleet = Inr st1"
    by (cases "put_device_tags sample_fleet_env sample_admin ''d1'' [''t1'', ''t2''] pending_fleet") (simp_all add: st1_def)
  have "\<not> isl (adopt_row sample_fleet_env sample_admin ''d1'' \<lparr>ab_name = None, ab_group = None, ab_profile = ''p''\<rparr> st1)"
    unfolding st1_def by code_simp
  then have 2: "adopt_row sample_fleet_env sample_admin ''d1'' \<lparr>ab_name = None, ab_group = None, ab_profile = ''p''\<rparr> st1 = Inr st2"
    by (cases "adopt_row sample_fleet_env sample_admin ''d1'' \<lparr>ab_name = None, ab_group = None, ab_profile = ''p''\<rparr> st1") (simp_all add: st2_def)
  have 3: "map dev_status (devices (fl_db st2)) = [ADOPTED]" unfolding st2_def st1_def by code_simp
  have "schedules (fl_db st2) = [lobby_schedule, hall_schedule]" "tag_assignments (fl_db st2) = [(''t1'', ''d1''), (''t2'', ''d1'')]"
    unfolding st2_def st1_def by code_simp+
  then have "\<not> clash_free (fl_db st2)" using lobby_hall_clash by (simp add: clash_free_def)
  then show ?thesis by (intro conjI exI) (rule pending_fleet_ok 1 2 3 | assumption)+
qed

end
