(* ===== verification/Os_Bundles.thy ===== *)
theory Os_Bundles
  imports Table Json
begin

text \<open>
  The releases of the device operating system, \<^verbatim>\<open>cms/services/bundle_checker.py\<close>: the version order behind the
  ``update available'' mark, the choice of the latest release of each channel from a release list, and the shared row per
  channel that polls write and every replica reads. The answers of the release server are parameters; a request ends in
  an exception, in a status other than 200, or in a body. The fields of \<^verbatim>\<open>meta.json\<close> are texts or absent.
\<close>

section \<open>Versions\<close>

text \<open>\<^verbatim>\<open>re.split\<close> at single characters.\<close>

fun split_at :: "(char \<Rightarrow> bool) \<Rightarrow> string \<Rightarrow> string list" where
  "split_at P [] = [[]]"
| "split_at P (c # cs) = (if P c then [] # split_at P cs
     else case split_at P cs of [] \<Rightarrow> [[c]] | x # xs \<Rightarrow> (c # x) # xs)"

definition version_separator :: "char \<Rightarrow> bool" where
  "version_separator c \<longleftrightarrow> c \<in> set ''.-+''"

text \<open>A \<^verbatim>\<open>$\<close> also matches before one newline at the end.\<close>

definition to_dollar :: "string \<Rightarrow> string" where
  "to_dollar s = (if s \<noteq> [] \<and> last s = CHR 0x0A then butlast s else s)"

definition rc_number :: "string \<Rightarrow> int option" where
  "rc_number chunk =
     (let s = to_dollar chunk
      in if lower_text (take 2 s) = ''rc'' \<and> drop 2 s \<noteq> [] \<and> list_all (\<lambda>c. digit_value c \<noteq> None) (drop 2 s)
         then int_of_text (drop 2 s) else None)"

fun leading_numbers :: "string list \<Rightarrow> int list \<times> int option" where
  "leading_numbers [] = ([], None)"
| "leading_numbers (chunk # rest) =
     (if chunk = [] then ([], None)
      else case int_of_text chunk of
        Some n \<Rightarrow> (case leading_numbers rest of (nums, pre) \<Rightarrow> (n # nums, pre))
      | None \<Rightarrow> ([], rc_number chunk))"

definition strip_v :: "string \<Rightarrow> string" where
  "strip_v s = dropWhile (\<lambda>c. c = CHR ''v'') s"

definition parse_version :: "string \<Rightarrow> int list" where
  "parse_version v =
     (case leading_numbers (split_at version_separator (strip_v v)) of (nums, pre) \<Rightarrow>
        if v = [] \<or> nums = [] then []
        else case pre of Some n \<Rightarrow> nums @ [0, n] | None \<Rightarrow> nums @ [1, 0])"

text \<open>The lists are compared as Python compares tuples, a proper prefix being smaller.\<close>

definition is_os_update_available :: "string option \<Rightarrow> string option \<Rightarrow> bool" where
  "is_os_update_available current latest =
     (case (current, latest) of
        (Some c, Some l) \<Rightarrow> c \<noteq> [] \<and> l \<noteq> [] \<and> parse_version c < parse_version l
      | _ \<Rightarrow> False)"

section \<open>Releases\<close>

datatype 'a answer = Raised string | Status int | Body 'a

record gh_asset =
  ga_name :: string
  ga_url :: string
  ga_size :: int

record gh_release =
  gr_id :: string
  gr_tag :: "string option"
  gr_draft :: bool
  gr_prerelease :: bool
  gr_published :: "string option"
  gr_assets :: "gh_asset list"

record bundle_meta =
  bm_version :: "string option"
  bm_min_from :: "string option"

record bundle_info =
  target_version :: string
  release_id :: string
  min_from_version :: string
  bundle_url :: string
  signature_url :: string
  sha256_url :: "string option"
  size_bytes :: int
  created_at :: string

text \<open>\<^verbatim>\<open>^agora-bundle-.*<suffix>$\<close>; a dot matches no newline.\<close>

definition bundle_file :: "string \<Rightarrow> string \<Rightarrow> bool" where
  "bundle_file suffix nm =
     (let s = to_dollar nm
      in CHR 0x0A \<notin> set s \<and> length ''agora-bundle-'' + length suffix \<le> length s
         \<and> take (length ''agora-bundle-'') s = ''agora-bundle-'' \<and> drop (length s - length suffix) s = suffix)"

definition find_file :: "string \<Rightarrow> gh_release \<Rightarrow> gh_asset option" where
  "find_file suffix r = List.find (\<lambda>a. bundle_file suffix (ga_name a)) (gr_assets r)"

definition repr_text :: "string option \<Rightarrow> string" where
  "repr_text v = (case v of None \<Rightarrow> ''None'' | Some s \<Rightarrow> quoted s)"

definition repr_bool :: "bool \<Rightarrow> string" where
  "repr_bool b = (if b then ''True'' else ''False'')"

text \<open>The state: the row of each channel, and the last error of this replica.\<close>

record channel_bundle =
  cb_channel :: string
  cb_info :: bundle_info
  cb_last_success_at :: int

record bundle_state =
  bs_rows :: "channel_bundle list"
  bs_last_error :: "string option"

record gh_env =
  gh_now :: int
  gh_releases :: "gh_release list answer"
  gh_meta :: "string \<Rightarrow> bundle_meta answer"

definition CHANNEL_STABLE :: string where "CHANNEL_STABLE = ''stable''"

definition CHANNEL_PRERELEASE :: string where "CHANNEL_PRERELEASE = ''prerelease''"

text \<open>A built bundle, a message for the last error with no bundle, or an exception of the request.\<close>

datatype built = Failed string | Propagates string | Built bundle_info

definition build_bundle_from_release :: "gh_env \<Rightarrow> gh_release \<Rightarrow> built" where
  "build_bundle_from_release env r =
     (case (find_file ''.tar.zst'' r, find_file ''.tar.zst.minisig'' r, find_file ''.meta.json'' r) of
        (Some bundle_asset, Some sig_asset, Some meta_asset) \<Rightarrow>
          (case gh_meta env (ga_url meta_asset) of
             Raised e \<Rightarrow> Propagates e
           | Status n \<Rightarrow> Failed (''Failed to fetch meta.json for '' @ repr_text (gr_tag r) @ '': HTTP '' @ int_text n)
           | Body meta \<Rightarrow>
               let version = (case bm_version meta of Some v \<Rightarrow> if v \<noteq> '''' then v else strip_v (case_option '''' id (gr_tag r))
                   | None \<Rightarrow> strip_v (case_option '''' id (gr_tag r)))
               in if version = '''' \<or> bm_min_from meta \<in> {None, Some ''''}
                  then Failed (''Release '' @ repr_text (gr_tag r) @ '' meta.json missing version/min_from_version: {'' @ quoted ''version'' @ '': ''
                    @ repr_text (bm_version meta) @ '', '' @ quoted ''min_from_version'' @ '': '' @ repr_text (bm_min_from meta) @ ''}'')
                  else Built \<lparr>target_version = strip_v version, release_id = gr_id r, min_from_version = the (bm_min_from meta),
                    bundle_url = ga_url bundle_asset, signature_url = ga_url sig_asset,
                    sha256_url = map_option ga_url (find_file ''.tar.zst.sha256'' r), size_bytes = ga_size bundle_asset,
                    created_at = case_option '''' id (gr_published r)\<rparr>)
      | (b, s, m) \<Rightarrow> Failed (''Release '' @ repr_text (gr_tag r) @ '' missing required assets (bundle='' @ repr_bool (b \<noteq> None)
          @ '' sig='' @ repr_bool (s \<noteq> None) @ '' meta='' @ repr_bool (m \<noteq> None) @ '')''))"

text \<open>\<^verbatim>\<open>sort(key, reverse=True)\<close> keeps the order of equal keys.\<close>

definition newest_first :: "gh_release list \<Rightarrow> gh_release list" where
  "newest_first rs = rev (sort_key (\<lambda>r. case_option '''' id (gr_published r)) (rev rs))"

text \<open>The bundles by channel, and the last error after the call.\<close>

definition fetch_channel_bundles :: "gh_env \<Rightarrow> string option \<Rightarrow> (string \<times> bundle_info) list \<times> string option" where
  "fetch_channel_bundles env err =
     (case gh_releases env of
        Raised e \<Rightarrow> ([], Some e)
      | Status n \<Rightarrow> ([], Some (''GitHub API /releases returned '' @ int_text n))
      | Body releases \<Rightarrow>
          (case newest_first (filter (\<lambda>r. \<not> gr_draft r) releases) of
             [] \<Rightarrow> ([], Some ''No non-draft agora-os releases found'')
           | newest # others \<Rightarrow>
               (case build_bundle_from_release env newest of
                  Propagates e \<Rightarrow> ([], Some e)
                | pre \<Rightarrow>
                   let err1 = (case pre of Failed m \<Rightarrow> Some m | _ \<Rightarrow> err);
                       out1 = (case pre of Built b \<Rightarrow> [(CHANNEL_PRERELEASE, b)] | _ \<Rightarrow> [])
                   in case List.find (\<lambda>r. \<not> gr_prerelease r) (newest # others) of
                        None \<Rightarrow> (out1, err1)
                      | Some st_release \<Rightarrow>
                          (case (if gr_id st_release = gr_id newest then pre else build_bundle_from_release env st_release) of
                             Propagates e \<Rightarrow> ([], Some e)
                           | Failed m \<Rightarrow> (out1, if gr_id st_release = gr_id newest then err1 else Some m)
                           | Built b \<Rightarrow> (out1 @ [(CHANNEL_STABLE, b)], err1)))))"

section \<open>The rows\<close>

definition get_latest_bundle :: "bundle_state \<Rightarrow> string \<Rightarrow> bundle_info option" where
  "get_latest_bundle st channel = map_option cb_info (find_by cb_channel channel (bs_rows st))"

definition get_latest_os_version :: "bundle_state \<Rightarrow> string \<Rightarrow> string option" where
  "get_latest_os_version st channel = map_option target_version (get_latest_bundle st channel)"

definition set_latest_bundle :: "int \<Rightarrow> bundle_info \<Rightarrow> string \<Rightarrow> channel_bundle list \<Rightarrow> channel_bundle list" where
  "set_latest_bundle now b channel rows =
     (if find_by cb_channel channel rows = None
      then insert_row \<lparr>cb_channel = channel, cb_info = b, cb_last_success_at = now\<rparr> rows
      else update_where (\<lambda>r. cb_channel r = channel) (\<lambda>r. r\<lparr>cb_info := b, cb_last_success_at := now\<rparr>) rows)"

definition store_bundles :: "int \<Rightarrow> (string \<times> bundle_info) list \<Rightarrow> channel_bundle list \<Rightarrow> channel_bundle list" where
  "store_bundles now bundles rows = fold (\<lambda>(channel, b). set_latest_bundle now b channel) bundles rows"

definition check_now :: "gh_env \<Rightarrow> bundle_state \<Rightarrow> bundle_info option \<times> bundle_state" where
  "check_now env st =
     (case fetch_channel_bundles env (bs_last_error st) of (bundles, err) \<Rightarrow>
        let st' = (if bundles \<noteq> [] then \<lparr>bs_rows = store_bundles (gh_now env) bundles (bs_rows st), bs_last_error = None\<rparr>
                   else st\<lparr>bs_last_error := err\<rparr>)
        in (case get_latest_bundle st' CHANNEL_STABLE of Some b \<Rightarrow> Some b | None \<Rightarrow> get_latest_bundle st' CHANNEL_PRERELEASE, st'))"

text \<open>One pass of the loop; the write may fail, and before startup there is no session.\<close>

definition bundle_check_pass :: "gh_env \<Rightarrow> bool \<Rightarrow> bool \<Rightarrow> bundle_state \<Rightarrow> bundle_state" where
  "bundle_check_pass env session_ready write_ok st =
     (case fetch_channel_bundles env (bs_last_error st) of (bundles, err) \<Rightarrow>
        if bundles \<noteq> [] \<and> session_ready \<and> write_ok
        then \<lparr>bs_rows = store_bundles (gh_now env) bundles (bs_rows st), bs_last_error = None\<rparr>
        else st\<lparr>bs_last_error := err\<rparr>)"

record bundle_status =
  bt_latest_stable :: "string option"
  bt_latest_prerelease :: "string option"
  bt_last_success_at :: "int option"
  bt_last_error :: "string option"

definition get_status :: "bundle_state \<Rightarrow> bundle_status" where
  "get_status st =
     (let st_row = find_by cb_channel CHANNEL_STABLE (bs_rows st); pre_row = find_by cb_channel CHANNEL_PRERELEASE (bs_rows st)
      in \<lparr>bt_latest_stable = map_option (target_version \<circ> cb_info) st_row,
          bt_latest_prerelease = map_option (target_version \<circ> cb_info) pre_row,
          bt_last_success_at = (case (map_option cb_last_success_at st_row, map_option cb_last_success_at pre_row) of
             (Some a, Some b) \<Rightarrow> Some (max a b) | (Some a, None) \<Rightarrow> Some a | (None, b) \<Rightarrow> b),
          bt_last_error = bs_last_error st\<rparr>)"

section \<open>Lemmas\<close>

lemma split_at_whole: "list_all (\<lambda>c. \<not> P c) s \<Longrightarrow> split_at P s = [s]"
  by (induction s) auto

lemma split_at_first: "list_all (\<lambda>c. \<not> P c) s \<Longrightarrow> P c \<Longrightarrow> split_at P (s @ c # t) = s # split_at P t"
  by (induction s) auto

text \<open>\<^verbatim>\<open>int(str(n)) == n\<close>\<close>

lemma digit_value_digit: "c \<in> set ''0123456789'' \<Longrightarrow> digit_value c = Some (of_char c - 48) \<and> \<not> whitespace c \<and> c \<noteq> CHR ''-'' \<and> c \<noteq> CHR ''+''"
  by (auto simp: digit_value_def whitespace_def)

lemma int_digits_text:
  "set s \<subseteq> set ''0123456789'' \<Longrightarrow> s \<noteq> [] \<or> b \<Longrightarrow> int_digits acc b s = Some (fold (\<lambda>c n. n * 10 + (of_char c - 48)) s acc)"
  by (induction s arbitrary: acc b) (simp_all add: digit_value_digit mult.commute)

lemma strip_digits:
  assumes "set s \<subseteq> set ''0123456789''"
  shows "strip s = s"
proof -
  have "dropWhile whitespace t = t" if "set t \<subseteq> set ''0123456789''" for t
    using that digit_value_digit by (cases t) auto
  then show ?thesis using assms by (simp add: strip_def)
qed

lemma nat_text_nonempty: "nat_text n \<noteq> []"
  by (subst nat_text.simps) simp

lemma int_of_nat_text: "0 \<le> n \<Longrightarrow> int_of_text (nat_text n) = Some n"
proof -
  assume n: "0 \<le> n"
  note digits = set_nat_text [OF n]
  obtain c cs where cs: "nat_text n = c # cs" using nat_text_nonempty [of n] by (cases "nat_text n") auto
  have "c \<noteq> CHR ''-''" "c \<noteq> CHR ''+''" using digits digit_value_digit [of c] cs by auto
  then have "int_of_text (nat_text n) = int_digits 0 False (nat_text n)" using strip_digits [OF digits] cs by (simp add: int_of_text_def)
  also have "\<dots> = Some (text_value (nat_text n))" using int_digits_text [OF digits] nat_text_nonempty [of n] by (simp add: text_value_def)
  finally show ?thesis using text_value_nat_text [OF n] by simp
qed

text \<open>Versions as they are written: numbers separated by dots, then nothing, a release candidate number or another label.\<close>

datatype version_suffix = Final | Rc int | Label string

fun suffix_text :: "version_suffix \<Rightarrow> string" where
  "suffix_text Final = []"
| "suffix_text (Rc n) = ''-rc'' @ nat_text n"
| "suffix_text (Label l) = CHR ''-'' # l"

fun suffix_ok :: "version_suffix \<Rightarrow> bool" where
  "suffix_ok Final = True"
| "suffix_ok (Rc n) \<longleftrightarrow> 0 \<le> n"
| "suffix_ok (Label l) \<longleftrightarrow> l \<noteq> [] \<and> list_all (\<lambda>c. \<not> version_separator c) l \<and> int_of_text l = None \<and> rc_number l = None"

fun suffix_rank :: "version_suffix \<Rightarrow> int list" where
  "suffix_rank (Rc n) = [0, n]"
| "suffix_rank s = [1, 0]"

definition version_text :: "int list \<Rightarrow> version_suffix \<Rightarrow> string" where
  "version_text nums s = join_text ''.'' (map nat_text nums) @ suffix_text s"

definition version_ok :: "int list \<Rightarrow> version_suffix \<Rightarrow> bool" where
  "version_ok nums s \<longleftrightarrow> nums \<noteq> [] \<and> list_all (\<lambda>n. 0 \<le> n) nums \<and> suffix_ok s"

lemma nat_text_plain: "0 \<le> n \<Longrightarrow> list_all (\<lambda>c. \<not> version_separator c) (nat_text n)"
  using set_nat_text [of n] by (auto simp: list_all_iff version_separator_def)

lemma separators [simp]: "version_separator CHR ''.''" "version_separator CHR ''-''" "\<not> version_separator CHR ''r''" "\<not> version_separator CHR ''c''"
  by (simp_all add: version_separator_def)

lemma rc_number_text: "0 \<le> n \<Longrightarrow> rc_number (''rc'' @ nat_text n) = Some n \<and> int_of_text (''rc'' @ nat_text n) = None"
proof -
  assume n: "0 \<le> n"
  note digits = set_nat_text [OF n]
  have "last (''rc'' @ nat_text n) \<in> set ''0123456789''"
    using digits nat_text_nonempty [of n] last_in_set [of "nat_text n"] by (simp add: subset_iff)
  then have line: "to_dollar (''rc'' @ nat_text n) = ''rc'' @ nat_text n" by (auto simp: to_dollar_def)
  have "digit_value c \<noteq> None" if "c \<in> set (nat_text n)" for c using digits digit_value_digit [of c] that by blast
  then have "list_all (\<lambda>c. digit_value c \<noteq> None) (nat_text n)" unfolding list_all_iff by blast
  then have "rc_number (''rc'' @ nat_text n) = Some n"
    unfolding rc_number_def line using nat_text_nonempty [of n] int_of_nat_text [OF n] by (simp add: lower_text_def lower_char_def)
  moreover have "dropWhile whitespace (rev (nat_text n) @ ''cr'') = rev (nat_text n) @ ''cr''"
  proof (cases "rev (nat_text n)")
    case (Cons c cs)
    then have "c \<in> set (nat_text n)" by (metis list.set_intros(1) set_rev)
    then show ?thesis using Cons digits digit_value_digit [of c] by auto
  qed (simp add: nat_text_nonempty)
  then have "int_of_text (''rc'' @ nat_text n) = None"
    by (simp add: int_of_text_def strip_def whitespace_def digit_value_def)
  ultimately show ?thesis by simp
qed

lemma leading_suffix: "suffix_ok s \<Longrightarrow> 0 \<le> n \<Longrightarrow>
  leading_numbers (split_at version_separator (nat_text n @ suffix_text s)) = ([n], case s of Rc k \<Rightarrow> Some k | _ \<Rightarrow> None)"
proof (cases s)
  case Final
  assume n: "0 \<le> n"
  then show ?thesis using Final split_at_whole [OF nat_text_plain [OF n]] int_of_nat_text [OF n] by (simp add: nat_text_nonempty)
next
  case (Rc k)
  assume n: "0 \<le> n" and "suffix_ok s"
  then have k: "0 \<le> k" using Rc by simp
  have "list_all (\<lambda>c. \<not> version_separator c) (''rc'' @ nat_text k)" using nat_text_plain [OF k] by simp
  then show ?thesis
    using Rc split_at_first [OF nat_text_plain [OF n], of "CHR ''-''" "''rc'' @ nat_text k"] int_of_nat_text [OF n] rc_number_text [OF k]
    by (simp add: nat_text_nonempty split_at_whole)
next
  case (Label l)
  assume n: "0 \<le> n" and "suffix_ok s"
  then show ?thesis
    using Label split_at_first [OF nat_text_plain [OF n], of "CHR ''-''" l] int_of_nat_text [OF n]
    by (simp add: nat_text_nonempty split_at_whole)
qed

lemma leading_version: "version_ok nums s \<Longrightarrow>
  leading_numbers (split_at version_separator (version_text nums s)) = (nums, case s of Rc k \<Rightarrow> Some k | _ \<Rightarrow> None)"
proof (induction nums)
  case (Cons n nums)
  show ?case
  proof (cases nums)
    case Nil
    then show ?thesis using Cons.prems leading_suffix by (simp add: version_text_def version_ok_def)
  next
    case nums: (Cons m ms)
    have "version_text (n # nums) s = nat_text n @ CHR ''.'' # version_text nums s" by (simp add: version_text_def nums)
    moreover have n: "0 \<le> n" "version_ok nums s" using Cons.prems nums by (simp_all add: version_ok_def)
    ultimately show ?thesis
      using split_at_first [OF nat_text_plain [OF n(1)], of "CHR ''.''" "version_text nums s"] int_of_nat_text [OF n(1)] Cons.IH [OF n(2)]
      by (simp add: nat_text_nonempty)
  qed
qed (simp add: version_ok_def)

lemma version_text_digit: "version_ok nums s \<Longrightarrow> \<exists>c cs. version_text nums s = c # cs \<and> c \<in> set ''0123456789''"
proof -
  assume ok: "version_ok nums s"
  then obtain n ns where nums: "nums = n # ns" and n: "0 \<le> n" by (cases nums) (auto simp: version_ok_def)
  obtain c cs where c: "nat_text n = c # cs" using nat_text_nonempty [of n] by (cases "nat_text n") auto
  then have "c \<in> set ''0123456789''" using set_nat_text [OF n] by auto
  moreover obtain cs' where "version_text nums s = c # cs'" by (cases ns) (simp_all add: version_text_def nums c)
  ultimately show ?thesis by blast
qed

lemma parse_version_text: "version_ok nums s \<Longrightarrow> parse_version (version_text nums s) = nums @ suffix_rank s"
proof -
  assume ok: "version_ok nums s"
  obtain c cs where c: "version_text nums s = c # cs" "c \<in> set ''0123456789''" using version_text_digit [OF ok] by blast
  then have v: "strip_v (version_text nums s) = version_text nums s" by (auto simp: strip_v_def)
  show ?thesis
    using leading_version [OF ok] ok c(1) unfolding parse_version_def v by (cases s) (simp_all add: version_ok_def)
qed

lemma less_append_same: "length xs = length ys \<Longrightarrow> xs @ a < ys @ b \<longleftrightarrow> xs < ys \<or> xs = ys \<and> a < (b :: 'a :: order list)"
  by (induction xs ys rule: list_induct2) auto

text \<open>The polls.\<close>

lemma no_exception:
  assumes "\<And>u x. gh_meta env u \<noteq> Raised x"
  shows "build_bundle_from_release env r \<noteq> Propagates e"
  using assms unfolding build_bundle_from_release_def Let_def by (simp split: option.split answer.split)

definition published :: "gh_release \<Rightarrow> string" where
  "published r = case_option '''' id (gr_published r)"

definition on_channel :: "string \<Rightarrow> gh_release \<Rightarrow> bool" where
  "on_channel channel r \<longleftrightarrow> \<not> gr_draft r \<and> (channel = CHANNEL_STABLE \<longrightarrow> \<not> gr_prerelease r)"

text \<open>The release a channel stands for: the first on the channel from the newest on.\<close>

definition channel_release :: "string \<Rightarrow> gh_release list \<Rightarrow> gh_release option" where
  "channel_release channel releases = List.find (on_channel channel) (newest_first releases)"

lemma newest_first_filter: "newest_first (filter P rs) = filter P (newest_first rs)"
  by (simp add: newest_first_def rev_filter flip: filter_sort)

lemma find_filter: "List.find P (filter Q xs) = List.find (\<lambda>x. Q x \<and> P x) xs"
  by (induction xs) auto

lemma newest_first_sorted: "sorted_wrt (\<lambda>a b. published b \<le> published a) (newest_first rs)"
proof -
  have "sorted (map published (sort_key published (rev rs)))" by simp
  then have "sorted_wrt (\<lambda>a b. published a \<le> published b) (sort_key published (rev rs))" by (simp add: sorted_wrt_map)
  then have "sorted_wrt (\<lambda>a b. published b \<le> published a) (rev (sort_key published (rev rs)))" by (simp add: sorted_wrt_rev)
  then show ?thesis by (simp add: newest_first_def published_def [abs_def])
qed

lemma find_sorted:
  "sorted_wrt R xs \<Longrightarrow> List.find P xs = Some x \<Longrightarrow> (\<And>y. R y y) \<Longrightarrow> y \<in> set xs \<Longrightarrow> P y \<Longrightarrow> R x y"
  by (induction xs) (auto split: if_splits)

lemma channel_release_newest:
  assumes "channel_release channel releases = Some r"
  shows "r \<in> set releases \<and> on_channel channel r \<and> (\<forall>r' \<in> set releases. on_channel channel r' \<longrightarrow> published r' \<le> published r)"
proof -
  have "set (newest_first releases) = set releases" by (simp add: newest_first_def)
  then show ?thesis
    using find_SomeD [OF assms [unfolded channel_release_def]] find_sorted [OF newest_first_sorted assms [unfolded channel_release_def]] by auto
qed

lemma get_stored:
  "find_by cb_channel c (set_latest_bundle now b channel rows)
     = (if c = channel then Some (\<lparr>cb_channel = c, cb_info = b, cb_last_success_at = now\<rparr>) else find_by cb_channel c rows)"
proof (cases "find_by cb_channel channel rows")
  case None
  then show ?thesis by (auto simp: set_latest_bundle_def insert_row_def split: option.splits)
next
  case (Some x)
  have upd: "find_by cb_channel c (update_where (\<lambda>r. cb_channel r = channel) f rows)
      = map_option (\<lambda>r. if c = channel then f r else r) (find_by cb_channel c rows)" if "\<And>r. cb_channel (f r) = cb_channel r" for f
    using that by (induction rows) (auto simp: update_where_def)
  have "cb_channel x = channel" using find_by_Some [OF Some] by simp
  then show ?thesis using Some by (auto simp: set_latest_bundle_def upd option.map_ident)
qed

definition channel_found :: "gh_env \<Rightarrow> gh_release list \<Rightarrow> string \<Rightarrow> bundle_info option" where
  "channel_found env releases channel = (case channel_release channel releases of None \<Rightarrow> None
     | Some r \<Rightarrow> (case build_bundle_from_release env r of Built b \<Rightarrow> Some b | _ \<Rightarrow> None))"

lemma fetch_exact:
  assumes body: "gh_releases env = Body releases" and ids: "distinct (map gr_id releases)"
    and calm: "\<And>r e. r \<in> set releases \<Longrightarrow> build_bundle_from_release env r \<noteq> Propagates e"
  shows "fst (fetch_channel_bundles env err) = concat (map (\<lambda>c. case channel_found env releases c of None \<Rightarrow> [] | Some b \<Rightarrow> [(c, b)])
    [CHANNEL_PRERELEASE, CHANNEL_STABLE])"
proof -
  let ?live = "newest_first (filter (\<lambda>r. \<not> gr_draft r) releases)"
  have names: "CHANNEL_PRERELEASE \<noteq> CHANNEL_STABLE" by (simp add: CHANNEL_PRERELEASE_def CHANNEL_STABLE_def)
  have find: "channel_release c releases = List.find (\<lambda>r. c = CHANNEL_STABLE \<longrightarrow> \<not> gr_prerelease r) ?live" for c
    by (simp add: channel_release_def newest_first_filter find_filter on_channel_def [abs_def])
  have sub: "set ?live \<subseteq> set releases" by (auto simp: newest_first_def)
  show ?thesis
  proof (cases ?live)
    case Nil
    then show ?thesis by (simp add: fetch_channel_bundles_def body find channel_found_def)
  next
    case (Cons newest others)
    then have new: "newest \<in> set releases" "channel_release CHANNEL_PRERELEASE releases = Some newest" using sub by (auto simp: find names)
    show ?thesis
    proof (cases "channel_release CHANNEL_STABLE releases")
      case None
      then have "List.find (\<lambda>r. \<not> gr_prerelease r) (newest # others) = None" using Cons by (simp add: find)
      then show ?thesis using calm [OF new(1)] None new(2)
        by (cases "build_bundle_from_release env newest") (simp_all add: fetch_channel_bundles_def body Cons channel_found_def)
    next
      case (Some s)
      then have s: "List.find (\<lambda>r. \<not> gr_prerelease r) (newest # others) = Some s" using Cons by (simp add: find)
      have smem: "s \<in> set releases" using channel_release_newest [OF Some] by simp
      have same: "gr_id s = gr_id newest \<longleftrightarrow> s = newest"
        using ids smem new(1) by (auto simp: distinct_map dest: inj_onD)
      show ?thesis using calm [OF new(1)] calm [OF smem] Some new(2) s
        by (cases "build_bundle_from_release env newest"; cases "build_bundle_from_release env s")
          (auto simp: fetch_channel_bundles_def body Cons channel_found_def same simp del: find.simps)
    qed
  qed
qed

lemma check_now_rows:
  "get_latest_bundle (snd (check_now env st)) c
     = (case map_of (rev (fst (fetch_channel_bundles env (bs_last_error st)))) c of Some b \<Rightarrow> Some b | None \<Rightarrow> get_latest_bundle st c)"
proof -
  have "map_option cb_info (find_by cb_channel c (store_bundles now bs rows))
      = (case map_of (rev bs) c of Some b \<Rightarrow> Some b | None \<Rightarrow> map_option cb_info (find_by cb_channel c rows))" for now bs rows
    by (induction bs arbitrary: rows) (auto simp: store_bundles_def get_stored map_of_append map_add_def split: option.splits)
  then show ?thesis unfolding get_latest_bundle_def check_now_def by (auto simp: Let_def split: prod.splits option.splits)
qed

section \<open>Properties\<close>

text \<open>C40. The update mark compares versions as they are meant. For versions written with the same number of components, final, as a release candidate or
  with another label, an update is offered exactly when the components are smaller, or they are equal and the device runs a release candidate while
  the release is a later candidate or is not one.\<close>

theorem update_offered_exactly:
  assumes "version_ok nums s" and "version_ok nums' s'" and "length nums = length nums'"
  shows "is_os_update_available (Some (version_text nums s)) (Some (version_text nums' s')) \<longleftrightarrow>
    nums < nums' \<or> nums = nums' \<and> (case (s, s') of (Rc m, Rc n) \<Rightarrow> m < n | (Rc m, _) \<Rightarrow> True | _ \<Rightarrow> False)"
proof -
  have "version_text nums s \<noteq> []" "version_text nums' s' \<noteq> []" using version_text_digit assms by fastforce+
  then have "is_os_update_available (Some (version_text nums s)) (Some (version_text nums' s')) \<longleftrightarrow> nums @ suffix_rank s < nums' @ suffix_rank s'"
    using parse_version_text [OF assms(1)] parse_version_text [OF assms(2)] by (simp add: is_os_update_available_def)
  then show ?thesis unfolding less_append_same [OF assms(3)] by (cases s; cases s') simp_all
qed

theorem update_offered_exactly_witness:
  "is_os_update_available (Some (version_text [1, 10, 0] (Rc 2))) (Some (version_text [1, 10, 0] (Label ''test'')))
     \<and> \<not> is_os_update_available (Some (version_text [1, 10, 0] Final)) (Some (version_text [1, 9, 12] Final))"
proof -
  have "version_ok [1, 10, 0] (Rc 2)" "version_ok [1, 10, 0] (Label ''test'')" "version_ok [1, 10, 0] Final" "version_ok [1, 9, 12] Final"
    by (simp_all add: version_ok_def version_separator_def int_of_text_def strip_def whitespace_def digit_value_def rc_number_def to_dollar_def
        lower_text_def lower_char_def)
  then show ?thesis using update_offered_exactly [of "[1, 10, 0]" "Rc 2" "[1, 10, 0]" "Label ''test''"]
      update_offered_exactly [of "[1, 10, 0]" Final "[1, 9, 12]" Final] by simp
qed

text \<open>Versions with different numbers of components are not compared as meant, since the rank of the suffix is compared with a component: the fifth
  candidate of 1.0 counts as newer than 1.0.0, and 1.0 as newer than 1.0.0 but not than 1.0.1.\<close>

theorem short_versions_misordered:
  "is_os_update_available (Some ''1.0.0'') (Some ''1.0-rc5'')" "is_os_update_available (Some ''1.0.0'') (Some ''1.0'')"
  by code_simp+

text \<open>What a poll that reaches the release server does, when release identifiers are unique and no request fails midway. Each channel then holds the
  bundle of the newest release on it, which is never a draft and on the stable channel never a prerelease; where there is none or its files are
  incomplete, the channel keeps what it had.\<close>

theorem poll_exact:
  assumes "gh_releases env = Body releases" and "distinct (map gr_id releases)"
    and "\<forall>r \<in> set releases. \<forall>e. build_bundle_from_release env r \<noteq> Propagates e"
    and "channel = CHANNEL_STABLE \<or> channel = CHANNEL_PRERELEASE"
  shows "case channel_release channel releases of
      None \<Rightarrow> (\<forall>r \<in> set releases. \<not> on_channel channel r) \<and> get_latest_bundle (snd (check_now env st)) channel = get_latest_bundle st channel
    | Some r \<Rightarrow> r \<in> set releases \<and> on_channel channel r \<and> (\<forall>r' \<in> set releases. on_channel channel r' \<longrightarrow> published r' \<le> published r)
        \<and> get_latest_bundle (snd (check_now env st)) channel
            = (case build_bundle_from_release env r of Built b \<Rightarrow> Some b | _ \<Rightarrow> get_latest_bundle st channel)"
proof -
  have names: "CHANNEL_PRERELEASE \<noteq> CHANNEL_STABLE" by (simp add: CHANNEL_PRERELEASE_def CHANNEL_STABLE_def)
  have "get_latest_bundle (snd (check_now env st)) channel
      = (case channel_found env releases channel of Some b \<Rightarrow> Some b | None \<Rightarrow> get_latest_bundle st channel)"
    using assms(3,4) names unfolding check_now_rows
    by (subst fetch_exact [OF assms(1,2)]) (auto simp: map_of_append map_add_def split: option.splits)
  moreover have "channel_release channel releases = None \<Longrightarrow> \<forall>r \<in> set releases. \<not> on_channel channel r"
    by (auto simp: channel_release_def find_None_iff newest_first_def)
  ultimately show ?thesis using channel_release_newest
    by (auto simp: channel_found_def split: option.splits built.splits)
qed

definition sample_release :: "string \<Rightarrow> string \<Rightarrow> bool \<Rightarrow> gh_release" where
  "sample_release i day pre = \<lparr>gr_id = i, gr_tag = Some (''v1.'' @ i), gr_draft = False, gr_prerelease = pre, gr_published = Some day,
     gr_assets = [\<lparr>ga_name = ''agora-bundle-'' @ i @ ''.tar.zst'', ga_url = ''b'', ga_size = 9\<rparr>,
       \<lparr>ga_name = ''agora-bundle-'' @ i @ ''.tar.zst.minisig'', ga_url = ''s'', ga_size = 1\<rparr>,
       \<lparr>ga_name = ''agora-bundle-'' @ i @ ''.meta.json'', ga_url = ''m'', ga_size = 1\<rparr>]\<rparr>"

definition sample_gh :: gh_env where
  "sample_gh = \<lparr>gh_now = 3, gh_releases = Body [sample_release ''1'' ''2025-01-01'' False, sample_release ''2'' ''2025-03-01'' True,
       sample_release ''0'' ''2024-01-01'' False],
     gh_meta = (\<lambda>u. Body \<lparr>bm_version = None, bm_min_from = Some ''0.9''\<rparr>)\<rparr>"

theorem poll_exact_witness:
  "map_option target_version (get_latest_bundle (snd (check_now sample_gh \<lparr>bs_rows = [], bs_last_error = None\<rparr>)) CHANNEL_STABLE) = Some ''1.1''"
proof -
  let ?rs = "[sample_release ''1'' ''2025-01-01'' False, sample_release ''2'' ''2025-03-01'' True, sample_release ''0'' ''2024-01-01'' False]"
  have "gh_releases sample_gh = Body ?rs" "distinct (map gr_id ?rs)" by (simp_all add: sample_gh_def sample_release_def)
  moreover have "\<forall>r \<in> set ?rs. \<forall>e. build_bundle_from_release sample_gh r \<noteq> Propagates e"
    by (intro ballI allI no_exception) (simp add: sample_gh_def)
  moreover have "channel_release CHANNEL_STABLE ?rs = Some (sample_release ''1'' ''2025-01-01'' False)" by code_simp
  moreover have "map_option target_version (case build_bundle_from_release sample_gh (sample_release ''1'' ''2025-01-01'' False) of
      Built b \<Rightarrow> Some b | _ \<Rightarrow> None) = Some ''1.1''" by code_simp
  ultimately show ?thesis
    using poll_exact [of sample_gh ?rs CHANNEL_STABLE "\<lparr>bs_rows = [], bs_last_error = None\<rparr>"] by (auto split: built.splits)
qed

end
