(* ===== verification/Upgrade.thy ===== *)
theory Upgrade
  imports Fleet Os_Bundles Ota_Progress
begin

text \<open>
  Upgrades and upkeep of devices: the upgrade request of \<^verbatim>\<open>cms/routers/devices.py\<close> with its claim on the device row, the
  staleness gates of the device view, and the purge of stale pending devices (\<^verbatim>\<open>cms/services/device_purge.py\<close>). A request
  commits its claim before it looks at the bundle and sends, so the two parts are separate steps that requests of other
  replicas, lifecycle events and registrations may interleave with.
\<close>

section \<open>State\<close>

record upkeep_row =
  uk_id :: string
  uk_status :: device_status
  uk_online :: bool
  uk_last_seen :: "int option"
  uk_registered_at :: int
  uk_ota :: ota_row
  uk_cooldown_until :: "int option"
  uk_os_version :: "string option"
  uk_channel :: string

record upgrade_state =
  ug_fleet :: fleet_state
  ug_rows :: "upkeep_row list"
  ug_bundles :: bundle_state
  ug_sent :: "(string \<times> int) list"

definition UPGRADE_TTL :: int where "UPGRADE_TTL = 15 * 60 * 1000000"

definition SEND_FAILURE_COOLDOWN :: int where "SEND_FAILURE_COOLDOWN = 10 * 1000000"

definition OTA_FRESH_TTL :: int where "OTA_FRESH_TTL = 2 * 60 * 1000000"

definition STUCK_TRYBOOT_TTL :: int where "STUCK_TRYBOOT_TTL = 15 * 60 * 1000000"

section \<open>The device view\<close>

definition is_upgrading :: "int \<Rightarrow> ota_row \<Rightarrow> bool" where
  "is_upgrading now d = (case upgrade_started_at d of None \<Rightarrow> False | Some t \<Rightarrow> now - t < UPGRADE_TTL)"

definition is_upgrade_stuck :: "int \<Rightarrow> ota_row \<Rightarrow> bool" where
  "is_upgrade_stuck now d =
     (if ota_phase d \<noteq> Some ''ota_tryboot_initiated'' then False
      else case ota_updated_at d of None \<Rightarrow> False | Some t \<Rightarrow> now - t \<ge> STUCK_TRYBOOT_TTL)"

definition ota_fields_for_out ::
  "int \<Rightarrow> ota_row \<Rightarrow> string option \<times> string option \<times> rat option \<times> int option \<times> int option" where
  "ota_fields_for_out now d =
     (case ota_updated_at d of
        None \<Rightarrow> (None, None, None, None, None)
      | Some t \<Rightarrow> if now - t \<ge> OTA_FRESH_TTL then (None, None, None, None, None)
          else (ota_phase d, ota_label d, ota_pct d, ota_bytes_done d, ota_bytes_total d))"

definition latest_for_device :: "string \<Rightarrow> string option \<Rightarrow> string option \<Rightarrow> string option" where
  "latest_for_device channel latest_stable latest_prerelease = (if channel = CHANNEL_PRERELEASE then latest_prerelease else latest_stable)"

section \<open>The upgrade request\<close>

text \<open>What the request keeps between its two parts.\<close>

record upgrade_request =
  rq_device :: string
  rq_claimed :: int
  rq_os_version :: "string option"
  rq_channel :: string

definition claim_free :: "int \<Rightarrow> upkeep_row \<Rightarrow> bool" where
  "claim_free now r \<longleftrightarrow>
     (case upgrade_started_at (uk_ota r) of None \<Rightarrow> True | Some t \<Rightarrow> t < now - UPGRADE_TTL)
     \<and> (case uk_cooldown_until r of None \<Rightarrow> True | Some t \<Rightarrow> t < now)"

definition set_started :: "int option \<Rightarrow> upkeep_row \<Rightarrow> upkeep_row" where
  "set_started v r = r\<lparr>uk_ota := (uk_ota r)\<lparr>upgrade_started_at := v\<rparr>\<rparr>"

definition begin_upgrade ::
  "fleet_env \<Rightarrow> user \<Rightarrow> string \<Rightarrow> int \<Rightarrow> upgrade_state \<Rightarrow> api_error + (upgrade_request \<times> upgrade_state)" where
  "begin_upgrade env actor did now st =
     result_bind (get_device_with_access actor did (ug_fleet st)) (\<lambda>dv.
       if did \<notin> set (te_connected (fe_tick env)) then Inl (HTTPException 409 ''Device is not connected'')
       else case find_by uk_id did (ug_rows st) of
         None \<Rightarrow> Inl (HTTPException 404 ''Device not found'')
       | Some r \<Rightarrow>
           if is_upgrade_stuck now (uk_ota r)
           then Inl (HTTPException 409 (''Device is stuck mid-upgrade (tryboot did not complete). Wait for the device to recover, ''
             @ ''or reboot it manually, before retrying.''))
           else if rowcount (\<lambda>x. uk_id x = did \<and> claim_free now x) (ug_rows st) = 0
           then Inl (HTTPException 409 ''Upgrade already in progress for this device'')
           else Inr (\<lparr>rq_device = did, rq_claimed = now, rq_os_version = uk_os_version r, rq_channel = uk_channel r\<rparr>,
             st\<lparr>ug_rows := update_where (\<lambda>x. uk_id x = did \<and> claim_free now x) (set_started (Some now)) (ug_rows st)\<rparr>))"

definition own_claim :: "upgrade_request \<Rightarrow> upkeep_row \<Rightarrow> bool" where
  "own_claim rq r \<longleftrightarrow> uk_id r = rq_device rq \<and> upgrade_started_at (uk_ota r) = Some (rq_claimed rq)"

definition release_claim :: "upgrade_request \<Rightarrow> upgrade_state \<Rightarrow> upgrade_state" where
  "release_claim rq st = st\<lparr>ug_rows := update_where (own_claim rq) (set_started None) (ug_rows st)\<rparr>"

definition release_with_cooldown :: "int \<Rightarrow> upgrade_request \<Rightarrow> upgrade_state \<Rightarrow> upgrade_state" where
  "release_with_cooldown now rq st = st\<lparr>ug_rows := update_where (own_claim rq)
     (\<lambda>r. (set_started None r)\<lparr>uk_cooldown_until := Some (now + SEND_FAILURE_COOLDOWN)\<rparr>) (ug_rows st)\<rparr>"

text \<open>The second part, at the time the send returns.\<close>

definition finish_upgrade :: "fleet_env \<Rightarrow> int \<Rightarrow> upgrade_request \<Rightarrow> upgrade_state \<Rightarrow> (api_error + unit) \<times> upgrade_state" where
  "finish_upgrade env now rq st =
     (case get_latest_bundle (ug_bundles st) (rq_channel rq) of
        None \<Rightarrow> (Inl (HTTPException 503 ''bundle_not_yet_cached''), release_claim rq st)
      | Some b \<Rightarrow>
          if truthy (rq_os_version rq) \<and> rq_os_version rq = Some (target_version b)
          then (Inl (HTTPException 409 ''already_on_target_version''), release_claim rq st)
          else if \<not> fe_delivers env (rq_device rq)
          then (Inl (HTTPException 502 ''Failed to send to device''), release_with_cooldown now rq st)
          else (Inr (), st\<lparr>ug_fleet := fleet_audit ''device.upgrade'' (rq_device rq) (ug_fleet st),
                   ug_sent := ug_sent st @ [(rq_device rq, rq_claimed rq)]\<rparr>))"

definition upgrade_device ::
  "fleet_env \<Rightarrow> user \<Rightarrow> string \<Rightarrow> int \<Rightarrow> int \<Rightarrow> upgrade_state \<Rightarrow> (api_error + unit) \<times> upgrade_state" where
  "upgrade_device env actor did now done_at st =
     (case begin_upgrade env actor did now st of
        Inl e \<Rightarrow> (Inl e, st)
      | Inr (rq, st') \<Rightarrow> finish_upgrade env done_at rq st')"

section \<open>The purge of stale pending devices\<close>

definition stale_pending :: "int \<Rightarrow> upkeep_row \<Rightarrow> bool" where
  "stale_pending cutoff r \<longleftrightarrow> uk_status r = PENDING \<and> \<not> uk_online r
     \<and> (case uk_last_seen r of Some t \<Rightarrow> t | None \<Rightarrow> uk_registered_at r) \<le> cutoff"

text \<open>The candidates come from the rows at one time, the guarded delete runs on the rows at a later one.\<close>

definition purge_candidates :: "int \<Rightarrow> int \<Rightarrow> upkeep_row list \<Rightarrow> string list" where
  "purge_candidates now ttl_hours rows = map uk_id (filter (stale_pending (now - ttl_hours * 3600000000)) rows)"

definition purge_delete :: "string list \<Rightarrow> upkeep_row list \<Rightarrow> string list \<times> upkeep_row list" where
  "purge_delete candidate_ids rows =
     (if candidate_ids = [] then ([], rows)
      else let P = (\<lambda>r. uk_id r \<in> set candidate_ids \<and> uk_status r = PENDING \<and> \<not> uk_online r)
           in (map uk_id (filter P rows), delete_where P rows))"

definition purge_pass :: "int \<Rightarrow> bool \<Rightarrow> int \<Rightarrow> upkeep_row list \<Rightarrow> upkeep_row list \<Rightarrow> string list \<times> upkeep_row list" where
  "purge_pass ttl_hours got_lock now rows_read rows =
     (if ttl_hours > 0 \<and> got_lock then purge_delete (purge_candidates now ttl_hours rows_read) rows else ([], rows))"

section \<open>The upgrade protocol\<close>

text \<open>Replicas serve requests; a request may die between its parts. The devices in \<open>noisy\<close> report lifecycle events and register anew, both of which
  can clear the claim; a registration clears the claim it saw, if it is still there. Everything else about rows, bundles and the rest of the fleet
  changes freely. Claims are taken at different times.\<close>

record upgrade_sys =
  sy_now :: int
  sy_state :: upgrade_state
  sy_open :: "upgrade_request list"

inductive upgrade_step :: "string set \<Rightarrow> upgrade_sys \<Rightarrow> upgrade_sys \<Rightarrow> bool" for noisy where
  up_begin: "begin_upgrade env actor did t (sy_state s) = Inr (rq, st) \<Longrightarrow> sy_now s < t
    \<Longrightarrow> upgrade_step noisy s \<lparr>sy_now = t, sy_state = st, sy_open = rq # sy_open s\<rparr>"
| up_finish: "rq \<in> set (sy_open s) \<Longrightarrow> sy_now s \<le> t
    \<Longrightarrow> upgrade_step noisy s \<lparr>sy_now = t, sy_state = snd (finish_upgrade env t rq (sy_state s)), sy_open = remove1 rq (sy_open s)\<rparr>"
| up_crash: "upgrade_step noisy s (s\<lparr>sy_open := remove1 rq (sy_open s)\<rparr>)"
| up_event: "did \<in> noisy \<Longrightarrow> upgrade_step noisy s (s\<lparr>sy_state := (sy_state s)\<lparr>ug_rows :=
      update_where (\<lambda>r. uk_id r = did) (\<lambda>r. r\<lparr>uk_ota := snd (handle_event t event_type payload (uk_ota r))\<rparr>) (ug_rows (sy_state s))\<rparr>\<rparr>)"
| up_register: "did \<in> noisy \<Longrightarrow> upgrade_step noisy s (s\<lparr>sy_state := (sy_state s)\<lparr>ug_rows :=
      update_where (\<lambda>r. uk_id r = did \<and> upgrade_started_at (uk_ota r) = seen) (set_started None) (ug_rows (sy_state s))\<rparr>\<rparr>)"
| up_other: "map (\<lambda>r. (uk_id r, upgrade_started_at (uk_ota r))) rows = map (\<lambda>r. (uk_id r, upgrade_started_at (uk_ota r))) (ug_rows (sy_state s))
    \<Longrightarrow> sy_now s \<le> t \<Longrightarrow> upgrade_step noisy s (s\<lparr>sy_now := t, sy_state := (sy_state s)\<lparr>ug_rows := rows, ug_fleet := fl, ug_bundles := bs\<rparr>\<rparr>)"

text \<open>The claims of a device that were granted and not given back: of open requests and of dispatched ones.\<close>

definition live_claims :: "string \<Rightarrow> upgrade_sys \<Rightarrow> int list" where
  "live_claims did s = map rq_claimed (filter (\<lambda>q. rq_device q = did) (sy_open s)) @ map snd (filter (\<lambda>e. fst e = did) (ug_sent (sy_state s)))"

definition started :: "string \<Rightarrow> upgrade_sys \<Rightarrow> int option" where
  "started did s = (case find_by uk_id did (ug_rows (sy_state s)) of None \<Rightarrow> None | Some r \<Rightarrow> upgrade_started_at (uk_ota r))"

definition claims_inv :: "string \<Rightarrow> upgrade_sys \<Rightarrow> bool" where
  "claims_inv did s \<longleftrightarrow> keys_ok uk_id (ug_rows (sy_state s)) \<and> distinct (live_claims did s)
     \<and> (\<forall>c \<in> set (live_claims did s). c \<le> sy_now s \<and> (started did s = Some c \<or> c + UPGRADE_TTL < sy_now s))
     \<and> (\<forall>c \<in> set (live_claims did s). \<forall>c' \<in> set (live_claims did s). c < c' \<longrightarrow> c + UPGRADE_TTL < c')"

definition upkeep_writes :: "(upkeep_row \<Rightarrow> upkeep_row) set" where
  "upkeep_writes = {f. \<forall>r. uk_id (f r) = uk_id r}"

interpretation upkeep_rows: keyed_table uk_id upkeep_writes
  by unfold_locales (simp add: upkeep_writes_def)


lemma uk_started [simp]: "uk_id (set_started v r) = uk_id r" "upgrade_started_at (uk_ota (set_started v r)) = v"
  by (simp_all add: set_started_def)

lemma set_started_twice [simp]: "set_started v (set_started w r) = set_started v r"
  by (simp add: set_started_def)

lemma started_writes [simp]: "set_started v \<in> upkeep_writes" "(\<lambda>r. (set_started v r)\<lparr>uk_cooldown_until := w\<rparr>) \<in> upkeep_writes"
  "(\<lambda>r. r\<lparr>uk_ota := f (uk_ota r)\<rparr>) \<in> upkeep_writes"
  by (simp_all add: upkeep_writes_def)

lemma map_remove1_distinct: "distinct (map f xs) \<Longrightarrow> x \<in> set xs \<Longrightarrow> map f (remove1 x xs) = remove1 (f x) (map f xs)"
  by (induction xs) (auto simp: rev_image_eqI)

text \<open>A step that grants nothing keeps the invariant if a claim on the row stays there as long as it is live.\<close>

lemma inv_frame:
  assumes inv: "claims_inv did s" and "keys_ok uk_id (ug_rows (sy_state s'))" "distinct (live_claims did s')"
    "set (live_claims did s') \<subseteq> set (live_claims did s)" "sy_now s \<le> sy_now s'"
    and kept: "\<And>c. c \<in> set (live_claims did s') \<Longrightarrow> started did s = Some c \<Longrightarrow> started did s' = Some c"
  shows "claims_inv did s'"
proof -
  have "c \<le> sy_now s' \<and> (started did s' = Some c \<or> c + UPGRADE_TTL < sy_now s')" if c: "c \<in> set (live_claims did s')" for c
    using inv subsetD [OF assms(4) c] kept [OF c] assms(5) unfolding claims_inv_def by fastforce
  moreover have "c + UPGRADE_TTL < c'" if "c \<in> set (live_claims did s')" "c' \<in> set (live_claims did s')" "c < c'" for c c'
    using inv that assms(4) unfolding claims_inv_def by blast
  ultimately show ?thesis using assms(2,3) unfolding claims_inv_def by blast
qed

text \<open>A new claim comes more than the time to live after every live one.\<close>

lemma inv_grant:
  assumes inv: "claims_inv did s" and "keys_ok uk_id (ug_rows (sy_state s'))" and live: "live_claims did s' = t # live_claims did s"
    and "started did s' = Some t" "sy_now s' = t" "sy_now s < t" and free: "\<And>c. started did s = Some c \<Longrightarrow> c + UPGRADE_TTL < t"
  shows "claims_inv did s'"
proof -
  have old: "c + UPGRADE_TTL < t" if "c \<in> set (live_claims did s)" for c
    using inv that free assms(6) unfolding claims_inv_def by fastforce
  moreover have "0 < UPGRADE_TTL" by (simp add: UPGRADE_TTL_def)
  ultimately show ?thesis using assms unfolding claims_inv_def live by force
qed

lemma begin_Inr:
  assumes "begin_upgrade env actor d t st = Inr (rq, st')"
  obtains r where "find_by uk_id d (ug_rows st) = Some r" "\<not> is_upgrade_stuck t (uk_ota r)"
    "\<exists>x \<in> set (ug_rows st). uk_id x = d \<and> claim_free t x" "d \<in> set (te_connected (fe_tick env))"
    "rq = \<lparr>rq_device = d, rq_claimed = t, rq_os_version = uk_os_version r, rq_channel = uk_channel r\<rparr>"
    "st' = st\<lparr>ug_rows := update_where (\<lambda>x. uk_id x = d \<and> claim_free t x) (set_started (Some t)) (ug_rows st)\<rparr>"
  using assms by (auto simp: begin_upgrade_def result_bind_eq_Inr rowcount_def filter_empty_conv split: if_splits option.splits)

lemma begin_inv:
  assumes "begin_upgrade env actor d t (sy_state s) = Inr (rq, st)" "sy_now s < t" "claims_inv did s"
  shows "claims_inv did \<lparr>sy_now = t, sy_state = st, sy_open = rq # sy_open s\<rparr>"
proof -
  let ?rows = "ug_rows (sy_state s)"
  obtain r where r: "find_by uk_id d ?rows = Some r" and free: "\<exists>x \<in> set ?rows. uk_id x = d \<and> claim_free t x"
    and rq: "rq = \<lparr>rq_device = d, rq_claimed = t, rq_os_version = uk_os_version r, rq_channel = uk_channel r\<rparr>"
    and st: "st = (sy_state s)\<lparr>ug_rows := update_where (\<lambda>x. uk_id x = d \<and> claim_free t x) (set_started (Some t)) ?rows\<rparr>"
    by (rule begin_Inr [OF assms(1)])
  have keys: "keys_ok uk_id ?rows" using assms(3) by (simp add: claims_inv_def)
  have keys': "keys_ok uk_id (ug_rows st)" using keys by (simp add: st upkeep_rows.keys_ok_update)
  show ?thesis
  proof (cases "d = did")
    case True
    obtain x where "x \<in> set ?rows" "uk_id x = d" "claim_free t x" using free by blast
    then have rf: "claim_free t r" "uk_id r = d" using find_by_mem [OF keys, of x] r find_by_Some [OF r] by simp_all
    show ?thesis
    proof (rule inv_grant [OF assms(3)])
      show "started did \<lparr>sy_now = t, sy_state = st, sy_open = rq # sy_open s\<rparr> = Some t"
        using r rf True by (simp add: started_def st upkeep_rows.find_update)
      show "c + UPGRADE_TTL < t" if "started did s = Some c" for c
        using that r rf True by (simp add: started_def claim_free_def)
    qed (use True assms(2) keys' in \<open>simp_all add: live_claims_def rq st\<close>)
  next
    case False
    show ?thesis
    proof (rule inv_frame [OF assms(3)])
      show "started did \<lparr>sy_now = t, sy_state = st, sy_open = rq # sy_open s\<rparr> = Some c" if "started did s = Some c" for c
        using that False upkeep_rows.find_update_other [of "set_started (Some t)" "\<lambda>x. uk_id x = d \<and> claim_free t x" did ?rows]
        by (simp add: started_def st)
    qed (use False assms(2,3) keys' in \<open>simp_all add: live_claims_def rq st claims_inv_def\<close>)
  qed
qed

text \<open>The second part gives the claim back, or turns it into a dispatched one.\<close>

lemma finish_cases:
  obtains (released) f where "f \<in> upkeep_writes"
      "snd (finish_upgrade env t rq st) = st\<lparr>ug_rows := update_where (own_claim rq) f (ug_rows st)\<rparr>"
  | (dispatched) fl where "snd (finish_upgrade env t rq st) = st\<lparr>ug_fleet := fl, ug_sent := ug_sent st @ [(rq_device rq, rq_claimed rq)]\<rparr>"
proof (cases "snd (finish_upgrade env t rq st) = release_claim rq st \<or> snd (finish_upgrade env t rq st) = release_with_cooldown t rq st")
  case True
  then show ?thesis
  proof
    assume "snd (finish_upgrade env t rq st) = release_claim rq st"
    then show ?thesis unfolding release_claim_def by (rule released [OF started_writes(1)])
  next
    assume "snd (finish_upgrade env t rq st) = release_with_cooldown t rq st"
    then show ?thesis unfolding release_with_cooldown_def by (rule released [OF started_writes(2)])
  qed
next
  case False
  then show ?thesis using dispatched by (auto simp: finish_upgrade_def split: option.splits if_splits)
qed

lemma finish_inv:
  assumes rq: "rq \<in> set (sy_open s)" and t: "sy_now s \<le> t" and inv: "claims_inv did s"
  shows "claims_inv did \<lparr>sy_now = t, sy_state = snd (finish_upgrade env t rq (sy_state s)), sy_open = remove1 rq (sy_open s)\<rparr>" (is "claims_inv did ?s")
proof -
  let ?rows = "ug_rows (sy_state s)" and ?A = "map rq_claimed (filter (\<lambda>q. rq_device q = did) (sy_open s))"
  let ?B = "map snd (filter (\<lambda>e. fst e = did) (ug_sent (sy_state s)))"
  have keys: "keys_ok uk_id ?rows" and dist: "distinct (?A @ ?B)" using inv by (simp_all add: claims_inv_def live_claims_def)
  have A: "map rq_claimed (filter (\<lambda>q. rq_device q = did) (remove1 rq (sy_open s))) = (if rq_device rq = did then remove1 (rq_claimed rq) ?A else ?A)"
    using dist rq by (simp add: filter_remove1 map_remove1_distinct remove1_idem)
  have mem: "rq_device rq = did \<Longrightarrow> rq_claimed rq \<in> set ?A" using rq by auto
  show ?thesis
  proof (cases rule: finish_cases [of env t rq "sy_state s"])
    case (released f)
    have live: "live_claims did ?s = (if rq_device rq = did then remove1 (rq_claimed rq) ?A else ?A) @ ?B"
      using A by (simp add: live_claims_def released(2))
    have gone: "rq_device rq = did \<Longrightarrow> rq_claimed rq \<notin> set (live_claims did ?s)" using dist mem by (auto simp: live)
    show ?thesis
    proof (rule inv_frame [OF inv])
      show "started did ?s = Some c" if "c \<in> set (live_claims did ?s)" "started did s = Some c" for c
        using that gone find_by_Some [of uk_id did ?rows]
        by (auto simp: started_def released upkeep_rows.find_update own_claim_def split: option.splits)
      show "set (live_claims did ?s) \<subseteq> set (live_claims did s)" unfolding live by (auto simp: live_claims_def dest: notin_set_remove1)
      show "distinct (live_claims did ?s)" unfolding live using dist by (auto dest: notin_set_remove1)
    qed (use dist t keys released(1) in \<open>simp_all add: live released(2) upkeep_rows.keys_ok_update\<close>)
  next
    case (dispatched fl)
    have live: "live_claims did ?s = (if rq_device rq = did then remove1 (rq_claimed rq) ?A @ ?B @ [rq_claimed rq] else ?A @ ?B)"
      using A by (simp add: live_claims_def dispatched)
    have set: "set (live_claims did ?s) = set (?A @ ?B)" using mem dist by (auto simp: live)
    show ?thesis
    proof (rule inv_frame [OF inv])
      show "set (live_claims did ?s) \<subseteq> set (live_claims did s)" unfolding set by (simp add: live_claims_def)
      show "distinct (live_claims did ?s)" using dist mem by (auto simp: live)
    qed (use t keys in \<open>simp_all add: dispatched started_def\<close>)
  qed
qed

text \<open>A write to the rows of other devices.\<close>

lemma inv_write_other:
  assumes "claims_inv did s" "f \<in> upkeep_writes" "\<And>r. P r \<Longrightarrow> uk_id r \<noteq> did"
  shows "claims_inv did (s\<lparr>sy_state := (sy_state s)\<lparr>ug_rows := update_where P f (ug_rows (sy_state s))\<rparr>\<rparr>)"
proof -
  have same: "find_by uk_id did (update_where P f (ug_rows (sy_state s))) = find_by uk_id did (ug_rows (sy_state s))"
    by (rule upkeep_rows.find_update_other [OF assms(2,3)])
  show ?thesis
    by (rule inv_frame [OF assms(1)]) (use assms(1) same in \<open>simp_all add: claims_inv_def live_claims_def started_def upkeep_rows.keys_ok_update [OF assms(2)]\<close>)
qed

lemma upgrade_step_inv: "upgrade_step noisy s s' \<Longrightarrow> did \<notin> noisy \<Longrightarrow> claims_inv did s \<Longrightarrow> claims_inv did s'"
proof (induction rule: upgrade_step.induct)
  case (up_crash s rq)
  have A: "map rq_claimed (filter (\<lambda>q. rq_device q = did) (remove1 rq (sy_open s)))
      = map rq_claimed (remove1 rq (filter (\<lambda>q. rq_device q = did) (sy_open s)))" by (simp add: filter_remove1)
  have dist: "distinct (live_claims did s)" using up_crash by (simp add: claims_inv_def)
  have sub: "set (remove1 rq (filter (\<lambda>q. rq_device q = did) (sy_open s))) \<subseteq> set (filter (\<lambda>q. rq_device q = did) (sy_open s))"
    by (rule set_remove1_subset)
  show ?case
  proof (rule inv_frame [OF up_crash(2)])
    show "set (live_claims did (s\<lparr>sy_open := remove1 rq (sy_open s)\<rparr>)) \<subseteq> set (live_claims did s)"
      using sub by (auto simp: live_claims_def A)
    show "distinct (live_claims did (s\<lparr>sy_open := remove1 rq (sy_open s)\<rparr>))"
    proof (cases "rq \<in> set (filter (\<lambda>q. rq_device q = did) (sy_open s))")
      case True
      then show ?thesis using dist sub by (auto simp: live_claims_def A map_remove1_distinct)
    next
      case False
      then have "remove1 rq (filter (\<lambda>q. rq_device q = did) (sy_open s)) = filter (\<lambda>q. rq_device q = did) (sy_open s)" by (rule remove1_idem)
      then show ?thesis using dist by (simp add: live_claims_def A)
    qed
  qed (use up_crash(2) in \<open>simp_all add: claims_inv_def started_def\<close>)
next
  case (up_event d s t event_type payload)
  then show ?case by (intro inv_write_other) (auto simp: upkeep_writes_def)
next
  case (up_register d s seen)
  then show ?case by (intro inv_write_other) auto
next
  case (up_other rows s t fl bs)
  have started_of: "started did x = (case map_of (map (\<lambda>r. (uk_id r, upgrade_started_at (uk_ota r))) (ug_rows (sy_state x))) did of
      None \<Rightarrow> None | Some v \<Rightarrow> v)" for x
  proof -
    have "(case find_by uk_id did rs of None \<Rightarrow> None | Some r \<Rightarrow> upgrade_started_at (uk_ota r))
        = (case map_of (map (\<lambda>r. (uk_id r, upgrade_started_at (uk_ota r))) rs) did of None \<Rightarrow> None | Some v \<Rightarrow> v)" for rs
      by (induction rs) auto
    then show ?thesis by (simp add: started_def)
  qed
  have "map fst (map (\<lambda>r. (uk_id r, upgrade_started_at (uk_ota r))) rows) = map uk_id rows" for rows :: "upkeep_row list" by (simp add: comp_def)
  then have "map uk_id rows = map uk_id (ug_rows (sy_state s))" using up_other(1) by metis
  then show ?case using up_other
    by (intro inv_frame [OF up_other(4)]) (auto simp: claims_inv_def live_claims_def started_of keys_ok_def)
qed (auto intro: begin_inv finish_inv)

interpretation upgrade_runs: step_invariant "upgrade_step noisy" "\<lambda>s. \<forall>did. did \<notin> noisy \<longrightarrow> claims_inv did s" for noisy
  by unfold_locales (blast intro: upgrade_step_inv)

section \<open>Properties\<close>

text \<open>C38. Whatever requests for upgrades arrive at the replicas, however their two parts interleave and whichever of them die in between: the dispatches
  sent to a device that reports nothing meanwhile belong to claims more than the time to live apart, so a double click, a retry or a second
  administrator never restarts an upgrade that is under way.\<close>

theorem dispatches_are_spaced:
  assumes "(upgrade_step noisy)\<^sup>*\<^sup>* s0 s" and "keys_ok uk_id (ug_rows (sy_state s0))" and "sy_open s0 = []" and "ug_sent (sy_state s0) = []"
    and "did \<notin> noisy"
  shows "distinct (filter (\<lambda>e. fst e = did) (ug_sent (sy_state s)))
    \<and> (\<forall>c c'. (did, c) \<in> set (ug_sent (sy_state s)) \<and> (did, c') \<in> set (ug_sent (sy_state s)) \<and> c < c' \<longrightarrow> c + UPGRADE_TTL < c')"
proof -
  have "\<forall>d. d \<notin> noisy \<longrightarrow> claims_inv d s0" using assms(2-4) by (simp add: claims_inv_def live_claims_def)
  then have inv: "claims_inv did s" using upgrade_runs.run_keeps [OF assms(1)] assms(5) by blast
  have sent: "c \<in> set (live_claims did s)" if "(did, c) \<in> set (ug_sent (sy_state s))" for c
    using that by (force simp: live_claims_def)
  have "distinct (map snd (filter (\<lambda>e. fst e = did) (ug_sent (sy_state s))))" using inv by (simp add: claims_inv_def live_claims_def)
  then have "distinct (filter (\<lambda>e. fst e = did) (ug_sent (sy_state s)))" by (simp add: distinct_map)
  then show ?thesis using inv sent unfolding claims_inv_def by blast
qed

definition sample_ota :: ota_row where
  "sample_ota = \<lparr>ota_phase = None, ota_label = None, ota_pct = None, ota_bytes_done = None, ota_bytes_total = None, ota_updated_at = None,
     upgrade_started_at = None\<rparr>"

definition sample_upkeep :: upkeep_row where
  "sample_upkeep = \<lparr>uk_id = ''d1'', uk_status = ADOPTED, uk_online = True, uk_last_seen = None, uk_registered_at = 0, uk_ota = sample_ota,
     uk_cooldown_until = None, uk_os_version = Some ''1.0'', uk_channel = ''stable''\<rparr>"

definition sample_upgrades :: upgrade_state where
  "sample_upgrades = \<lparr>ug_fleet = sample_fleet, ug_rows = [sample_upkeep],
     ug_bundles = snd (check_now sample_gh \<lparr>bs_rows = [], bs_last_error = None\<rparr>), ug_sent = []\<rparr>"

definition connected_env :: fleet_env where
  "connected_env = sample_fleet_env\<lparr>fe_tick := (fe_tick sample_fleet_env)\<lparr>te_connected := [''d1'']\<rparr>\<rparr>"

theorem dispatches_are_spaced_witness:
  "\<exists>s. (upgrade_step {})\<^sup>*\<^sup>* \<lparr>sy_now = 0, sy_state = sample_upgrades, sy_open = []\<rparr> s \<and> ug_sent (sy_state s) = [(''d1'', 5)]
     \<and> distinct (filter (\<lambda>e. fst e = ''d1'') (ug_sent (sy_state s)))"
proof -
  let ?s0 = "\<lparr>sy_now = 0, sy_state = sample_upgrades, sy_open = []\<rparr>"
  let ?rq = "\<lparr>rq_device = ''d1'', rq_claimed = 5, rq_os_version = Some ''1.0'', rq_channel = ''stable''\<rparr>"
  let ?st = "snd (projr (begin_upgrade connected_env sample_admin ''d1'' 5 sample_upgrades))"
  let ?s1 = "\<lparr>sy_now = 5, sy_state = ?st, sy_open = [?rq]\<rparr>"
  let ?s2 = "\<lparr>sy_now = 6, sy_state = snd (finish_upgrade connected_env 6 ?rq ?st), sy_open = remove1 ?rq [?rq]\<rparr>"
  have "\<not> isl (begin_upgrade connected_env sample_admin ''d1'' 5 sample_upgrades)" by code_simp
  moreover have "fst (projr (begin_upgrade connected_env sample_admin ''d1'' 5 sample_upgrades)) = ?rq" by code_simp
  ultimately have "begin_upgrade connected_env sample_admin ''d1'' 5 sample_upgrades = Inr (?rq, ?st)"
    by (cases "begin_upgrade connected_env sample_admin ''d1'' 5 sample_upgrades") (auto simp: prod_eq_iff)
  then have "upgrade_step {} ?s0 ?s1" using up_begin [where s = ?s0] by simp
  moreover have "upgrade_step {} ?s1 ?s2" using up_finish [where s = ?s1] by simp
  ultimately have run: "(upgrade_step {})\<^sup>*\<^sup>* ?s0 ?s2" by (meson converse_rtranclp_into_rtranclp rtranclp.rtrancl_refl)
  moreover have "ug_sent (sy_state ?s2) = [(''d1'', 5)]" by code_simp
  ultimately show ?thesis
    using dispatches_are_spaced [OF run, of "''d1''"] by (auto simp: keys_ok_def sample_upgrades_def intro!: exI [of _ ?s2])
qed

text \<open>C39. An upgrade request that fails leaves no claim behind: either it was refused before it took one and nothing changed, or the claim is given back,
  and the device can be claimed again at once, after a failed send once ten seconds have passed. A request that succeeds has dispatched one message,
  and until the time to live has passed the device is shown as upgrading and cannot be claimed.\<close>

theorem upgrade_request_exact:
  assumes "keys_ok uk_id (ug_rows st)" and "upgrade_device env actor did now done_at st = (res, st')"
  shows "case res of
      Inl e \<Rightarrow> st' = st \<or> (\<exists>r r'. find_by uk_id did (ug_rows st) = Some r \<and> claim_free now r \<and> find_by uk_id did (ug_rows st') = Some r'
          \<and> upgrade_started_at (uk_ota r') = None \<and> ug_sent st' = ug_sent st
          \<and> (\<forall>t > now. claim_free t r' \<longleftrightarrow> (e = HTTPException 502 ''Failed to send to device'' \<longrightarrow> done_at + SEND_FAILURE_COOLDOWN < t)))
    | Inr _ \<Rightarrow> \<exists>r'. find_by uk_id did (ug_rows st') = Some r' \<and> ug_sent st' = ug_sent st @ [(did, now)]
          \<and> (\<forall>t. now \<le> t \<and> t < now + UPGRADE_TTL \<longrightarrow> is_upgrading t (uk_ota r')) \<and> (\<forall>t \<le> now + UPGRADE_TTL. \<not> claim_free t r')"
proof (cases "begin_upgrade env actor did now st")
  case (Inl e)
  then show ?thesis using assms(2) by (auto simp: upgrade_device_def)
next
  case (Inr p)
  obtain rq st1 where p: "p = (rq, st1)" by (cases p)
  obtain r where r: "find_by uk_id did (ug_rows st) = Some r" and free: "\<exists>x \<in> set (ug_rows st). uk_id x = did \<and> claim_free now x"
    and rq: "rq = \<lparr>rq_device = did, rq_claimed = now, rq_os_version = uk_os_version r, rq_channel = uk_channel r\<rparr>"
    and st1: "st1 = st\<lparr>ug_rows := update_where (\<lambda>x. uk_id x = did \<and> claim_free now x) (set_started (Some now)) (ug_rows st)\<rparr>"
    by (rule begin_Inr [OF Inr [unfolded p]])
  obtain x where "x \<in> set (ug_rows st)" "uk_id x = did" "claim_free now x" using free by blast
  then have rf: "claim_free now r" "uk_id r = did" using find_by_mem [OF assms(1), of x] r find_by_Some [OF r] by simp_all
  have row: "find_by uk_id did (ug_rows st1) = Some (set_started (Some now) r)" using r rf by (simp add: st1 upkeep_rows.find_update)
  have own: "own_claim rq (set_started (Some now) r)" using rf by (simp add: own_claim_def rq)
  have after: "now < t \<Longrightarrow> case_option True (\<lambda>u. u < t) (uk_cooldown_until r)" for t
    using rf(1) by (auto simp: claim_free_def split: option.splits)
  have freed: "find_by uk_id did (ug_rows (release_claim rq st1)) = Some (set_started None r)"
    "find_by uk_id did (ug_rows (release_with_cooldown done_at rq st1)) = Some ((set_started None r)\<lparr>uk_cooldown_until := Some (done_at + SEND_FAILURE_COOLDOWN)\<rparr>)"
    using row own by (simp_all add: release_claim_def release_with_cooldown_def upkeep_rows.find_update)
  have fin: "(res, st') = finish_upgrade env done_at rq st1" using assms(2) Inr p by (simp add: upgrade_device_def)
  show ?thesis
  proof (cases res)
    case (Inl e)
    then have "(st' = release_claim rq st1 \<and> e \<noteq> HTTPException 502 ''Failed to send to device'')
        \<or> (st' = release_with_cooldown done_at rq st1 \<and> e = HTTPException 502 ''Failed to send to device'')"
      using fin by (auto simp: finish_upgrade_def split: option.splits if_splits)
    moreover have "ug_sent (release_claim rq st1) = ug_sent st" "ug_sent (release_with_cooldown done_at rq st1) = ug_sent st"
      by (simp_all add: release_claim_def release_with_cooldown_def st1)
    ultimately show ?thesis using Inl r rf freed after by (auto simp: claim_free_def set_started_def)
  next
    case (Inr v)
    then have "ug_rows st' = ug_rows st1" "ug_sent st' = ug_sent st @ [(did, now)]"
      using fin by (auto simp: finish_upgrade_def rq st1 split: option.splits if_splits)
    then show ?thesis using Inr row by (auto simp: is_upgrading_def claim_free_def)
  qed
qed

theorem upgrade_request_exact_witness:
  "ug_sent (snd (upgrade_device connected_env sample_admin ''d1'' 5 6 sample_upgrades)) = [(''d1'', 5)]
   \<and> (\<exists>r'. find_by uk_id ''d1'' (ug_rows (snd (upgrade_device connected_env sample_admin ''d1'' 5 6 sample_upgrades))) = Some r'
        \<and> \<not> claim_free (5 + UPGRADE_TTL) r')"
proof -
  obtain res st' where run: "upgrade_device connected_env sample_admin ''d1'' 5 6 sample_upgrades = (res, st')" by fastforce
  have "\<not> isl (fst (upgrade_device connected_env sample_admin ''d1'' 5 6 sample_upgrades))" by code_simp
  then obtain u where "res = Inr u" using run by (cases res) simp_all
  moreover have "keys_ok uk_id (ug_rows sample_upgrades)" "ug_sent sample_upgrades = []" by (simp_all add: keys_ok_def sample_upgrades_def)
  ultimately show ?thesis using upgrade_request_exact [OF _ run] run by auto
qed

text \<open>The purge deletes a device only if it was stale and pending when the candidates were read and is still pending and offline when the delete runs:
  a device that was adopted or came back in between survives. What is reported is what was deleted, and with nothing in between these are exactly the
  stale pending devices.\<close>

theorem purge_exact:
  assumes "purge_pass ttl_hours True now rows_read rows = (purged, rows')" and "0 < ttl_hours"
  shows "set rows' = {r \<in> set rows. uk_id r \<notin> set purged \<or> uk_status r \<noteq> PENDING \<or> uk_online r}
    \<and> (\<forall>i \<in> set purged. \<exists>r \<in> set rows_read. uk_id r = i \<and> stale_pending (now - ttl_hours * 3600000000) r)
    \<and> (rows_read = rows \<and> keys_ok uk_id rows \<longrightarrow> set rows' = {r \<in> set rows. \<not> stale_pending (now - ttl_hours * 3600000000) r})"
proof -
  let ?cut = "now - ttl_hours * 3600000000"
  let ?P = "\<lambda>r. uk_id r \<in> set (purge_candidates now ttl_hours rows_read) \<and> uk_status r = PENDING \<and> \<not> uk_online r"
  have run: "purged = map uk_id (filter ?P rows)" "rows' = delete_where ?P rows"
    using assms by (auto simp: purge_pass_def purge_delete_def Let_def delete_where_def split: if_splits)
  have "set rows' = {r \<in> set rows. uk_id r \<notin> set purged \<or> uk_status r \<noteq> PENDING \<or> uk_online r}"
    unfolding run set_delete_where by auto
  moreover have "\<forall>i \<in> set purged. \<exists>r \<in> set rows_read. uk_id r = i \<and> stale_pending ?cut r"
    unfolding run by (auto simp: purge_candidates_def)
  moreover have "?P r \<longleftrightarrow> stale_pending ?cut r" if "rows_read = rows" "keys_ok uk_id rows" "r \<in> set rows" for r
    using that by (auto simp: purge_candidates_def stale_pending_def keys_ok_def distinct_map dest: inj_onD)
  ultimately show ?thesis unfolding run set_delete_where by blast
qed

theorem purge_exact_witness:
  "snd (purge_pass 1 True 3600000000 [sample_upkeep\<lparr>uk_status := PENDING, uk_online := False\<rparr>] [sample_upkeep]) = [sample_upkeep]"
proof -
  have run: "purge_pass 1 True 3600000000 [sample_upkeep\<lparr>uk_status := PENDING, uk_online := False\<rparr>] [sample_upkeep] = ([], [sample_upkeep])" by code_simp
  have "(0 :: int) < 1" by simp
  from purge_exact [OF run this] show ?thesis by (simp add: run)
qed

end
