(* ===== verification/Features.thy ===== *)
theory Features
  imports Accounts
begin

text \<open>
  Feature flags: the registry in code and the stored state (\<^verbatim>\<open>cms/services/feature_flags.py\<close>), their administration
  (\<^verbatim>\<open>cms/routers/features.py\<close>) and the Assistant's access check (\<^verbatim>\<open>cms/services/assistant_flag.py\<close>). Descriptions and owners
  are shown only and left out. The answers are memoised for one request, so the request carries a cache.
\<close>

section \<open>Flags\<close>

datatype flag_state = FLAG_OFF | TARGETED | FLAG_ON

datatype flag_kind = RELEASE | PERMANENT

fun state_value :: "flag_state \<Rightarrow> string" where
  "state_value FLAG_OFF = ''off''" | "state_value TARGETED = ''targeted''" | "state_value FLAG_ON = ''on''"

text \<open>\<^verbatim>\<open>FlagState(text)\<close>, which raises on anything else.\<close>

definition parse_state :: "string \<Rightarrow> flag_state option" where
  "parse_state s = (if s = ''off'' then Some FLAG_OFF else if s = ''targeted'' then Some TARGETED else if s = ''on'' then Some FLAG_ON else None)"

record flag =
  fg_default :: flag_state
  fg_kind :: flag_kind
  fg_include_admins :: bool
  fg_expires :: "date option"

text \<open>The constructor refuses a release flag without an expiry.\<close>

definition make_flag :: "flag_state \<Rightarrow> flag_kind \<Rightarrow> bool \<Rightarrow> date option \<Rightarrow> flag result" where
  "make_flag d k adm ex =
     (if k = RELEASE \<and> ex = None
      then Inl (ValueError (''release flags must declare an expiry date so they can'' @ [CHR 0x27] @ ''t silently become permanent; use FlagKind.PERMANENT ''
        @ ''for kill-switches and ongoing limited-access features''))
      else Inr \<lparr>fg_default = d, fg_kind = k, fg_include_admins = adm, fg_expires = ex\<rparr>)"

type_synonym registry = "(string \<times> flag) list"

definition REGISTRY :: registry where
  "REGISTRY = [(''assistant'', \<lparr>fg_default = TARGETED, fg_kind = PERMANENT, fg_include_admins = True, fg_expires = None\<rparr>)]"

record flag_row =
  fr_name :: string
  fr_state :: string
  fr_user_ids :: "string list"
  fr_role_ids :: "string list"
  fr_updated_at :: int
  fr_updated_by :: "string option"

record feature_db =
  ff_accounts :: account_db
  ff_rows :: "flag_row list"

section \<open>Evaluation\<close>

definition current_state :: "flag \<Rightarrow> flag_row option \<Rightarrow> flag_state" where
  "current_state f row = (case row of None \<Rightarrow> fg_default f
     | Some r \<Rightarrow> (case parse_state (fr_state r) of Some s \<Rightarrow> s | None \<Rightarrow> fg_default f))"

definition evaluate_flag :: "registry \<Rightarrow> feature_db \<Rightarrow> string \<Rightarrow> user option \<Rightarrow> bool" where
  "evaluate_flag reg db name u =
     (case map_of reg name of
        None \<Rightarrow> False
      | Some f \<Rightarrow>
          let row = find_by fr_name name (ff_rows db)
          in case current_state f row of
               FLAG_ON \<Rightarrow> True
             | FLAG_OFF \<Rightarrow> False
             | TARGETED \<Rightarrow>
                 (case u of
                    None \<Rightarrow> False
                  | Some x \<Rightarrow>
                      (case row of None \<Rightarrow> False | Some r \<Rightarrow> us_id x \<in> set (fr_user_ids r) \<or> us_role x \<in> set (fr_role_ids r))
                      \<or> (fg_include_admins f \<and> has_permission (permissions_of (ff_accounts db) x) ''settings:write'')))"

type_synonym flag_cache = "(string \<times> string option, bool) dict"

definition flag_enabled :: "registry \<Rightarrow> feature_db \<Rightarrow> string \<Rightarrow> user option \<Rightarrow> flag_cache option \<Rightarrow> bool \<times> flag_cache option" where
  "flag_enabled reg db name u cache =
     (let key = (name, map_option us_id u)
      in case cache of
           None \<Rightarrow> (evaluate_flag reg db name u, None)
         | Some c \<Rightarrow> (case map_of c key of
              Some b \<Rightarrow> (b, cache)
            | None \<Rightarrow> let b = evaluate_flag reg db name u in (b, Some (dict_set key b c))))"

definition assistant_enabled_for :: "feature_db \<Rightarrow> user \<Rightarrow> flag_cache option \<Rightarrow> bool \<times> flag_cache option" where
  "assistant_enabled_for db u cache = flag_enabled REGISTRY db ''assistant'' (Some u) cache"

section \<open>Administration\<close>

record flag_view =
  fv_name :: string
  fv_kind :: flag_kind
  fv_state :: flag_state
  fv_user_ids :: "string list"
  fv_role_ids :: "string list"
  fv_expires :: "date option"
  fv_updated_at :: "int option"
  fv_updated_by :: "string option"
  fv_is_default :: bool

definition is_overdue :: "date \<Rightarrow> flag_view \<Rightarrow> bool" where
  "is_overdue today v = (if fv_kind v \<noteq> RELEASE then False else case fv_expires v of None \<Rightarrow> False | Some e \<Rightarrow> today > e)"

definition view_flag :: "string \<Rightarrow> flag \<Rightarrow> flag_row option \<Rightarrow> flag_view result" where
  "view_flag name f row =
     (case row of
        None \<Rightarrow> Inr \<lparr>fv_name = name, fv_kind = fg_kind f, fv_state = fg_default f, fv_user_ids = [], fv_role_ids = [], fv_expires = fg_expires f,
          fv_updated_at = None, fv_updated_by = None, fv_is_default = True\<rparr>
      | Some r \<Rightarrow> (case parse_state (fr_state r) of
          None \<Rightarrow> Inl (ValueError (quoted (fr_state r) @ '' is not a valid FlagState''))
        | Some s \<Rightarrow> Inr \<lparr>fv_name = name, fv_kind = fg_kind f, fv_state = s, fv_user_ids = fr_user_ids r, fv_role_ids = fr_role_ids r,
            fv_expires = fg_expires f, fv_updated_at = Some (fr_updated_at r), fv_updated_by = fr_updated_by r, fv_is_default = False\<rparr>))"

fun views :: "registry \<Rightarrow> feature_db \<Rightarrow> string list \<Rightarrow> flag_view list result" where
  "views reg db [] = Inr []"
| "views reg db (n # ns) = result_bind (view_flag n (the (map_of reg n)) (find_by fr_name n (ff_rows db))) (\<lambda>v.
     result_bind (views reg db ns) (\<lambda>vs. Inr (v # vs)))"

definition get_all :: "registry \<Rightarrow> feature_db \<Rightarrow> flag_view list result" where
  "get_all reg db = views reg db (sort (map fst reg))"

definition get_flag :: "registry \<Rightarrow> feature_db \<Rightarrow> string \<Rightarrow> flag_view option result" where
  "get_flag reg db name = (case map_of reg name of None \<Rightarrow> Inr None
     | Some f \<Rightarrow> result_bind (view_flag name f (find_by fr_name name (ff_rows db))) (\<lambda>v. Inr (Some v)))"

text \<open>The row as it is left: lists of users and roles only in the targeted state.\<close>

definition state_row :: "int \<Rightarrow> user option \<Rightarrow> string \<Rightarrow> flag_state \<Rightarrow> string list \<Rightarrow> string list \<Rightarrow> flag_row" where
  "state_row now actor name s user_ids role_ids =
     \<lparr>fr_name = name, fr_state = state_value s, fr_user_ids = (if s = TARGETED then user_ids else []),
      fr_role_ids = (if s = TARGETED then role_ids else []), fr_updated_at = now, fr_updated_by = map_option us_id actor\<rparr>"

definition set_state ::
  "registry \<Rightarrow> int \<Rightarrow> user option \<Rightarrow> string \<Rightarrow> flag_state \<Rightarrow> string list \<Rightarrow> string list \<Rightarrow> feature_db \<Rightarrow> feature_db result" where
  "set_state reg now actor name s user_ids role_ids db =
     (case map_of reg name of
        None \<Rightarrow> Inl (KeyError name)
      | Some f \<Rightarrow>
          Inr (db\<lparr>ff_rows := (if find_by fr_name name (ff_rows db) = None
               then insert_row (state_row now actor name s user_ids role_ids) (ff_rows db)
               else update_where (\<lambda>r. fr_name r = name) (\<lambda>_. state_row now actor name s user_ids role_ids) (ff_rows db))\<rparr>))"

definition reject_unknown :: "string list \<Rightarrow> string list \<Rightarrow> string \<Rightarrow> api_error + unit" where
  "reject_unknown ids known col =
     (if list_all (\<lambda>i. i \<in> set known) ids then Inr ()
      else Inl (HTTPException 400 (''Unknown '' @ col @ ''. '' @ join_text '', '' (filter (\<lambda>i. i \<notin> set known) ids))))"

text \<open>The handler; the page it answers with is built after the commit, so an error there does not undo the change.\<close>

definition set_feature_state ::
  "int \<Rightarrow> user \<Rightarrow> string \<Rightarrow> string \<Rightarrow> string list \<Rightarrow> string list \<Rightarrow> feature_db \<Rightarrow> (api_error + flag_view list) \<times> feature_db" where
  "set_feature_state now actor name state_text user_ids role_ids db =
     (case parse_state state_text of
        None \<Rightarrow> (Inl (HTTPException 400 ''Unknown state.''), db)
      | Some s \<Rightarrow>
          if map_of REGISTRY name = None then (Inl (HTTPException 404 (''Unknown feature flag '' @ quoted name @ ''.'')), db)
          else case (if s = TARGETED
              then result_bind (reject_unknown user_ids (map us_id (ac_users (ff_accounts db))) ''user_ids'') (\<lambda>_.
                reject_unknown role_ids (map ro_id (ac_roles (ff_accounts db))) ''role_ids'')
              else Inr ()) of
            Inl e \<Rightarrow> (Inl e, db)
          | Inr u \<Rightarrow> (case set_state REGISTRY now (Some actor) name s user_ids role_ids db of
              Inl e \<Rightarrow> (Inl (Uncaught e), db)
            | Inr db' \<Rightarrow>
                let db'' = db'\<lparr>ff_accounts := audit_account (Some actor) ''features.state.update'' (Some name) (ff_accounts db')\<rparr>
                in (case get_all REGISTRY db'' of Inl e \<Rightarrow> Inl (Uncaught e) | Inr vs \<Rightarrow> Inr vs, db'')))"

definition list_features :: "feature_db \<Rightarrow> api_error + flag_view list" where
  "list_features db = (case get_all REGISTRY db of Inl e \<Rightarrow> Inl (Uncaught e) | Inr vs \<Rightarrow> Inr vs)"

section \<open>Lemmas\<close>

lemma find_overwrite: "fr_name row = name \<Longrightarrow> find_by fr_name n (update_where (\<lambda>r. fr_name r = name) (\<lambda>_. row) rows)
    = (if n = name \<and> find_by fr_name n rows \<noteq> None then Some row else find_by fr_name n rows)"
  by (induction rows) (auto simp: update_where_def)

lemma parse_state_value [simp]: "parse_state (state_value s) = Some s"
  by (cases s) (simp_all add: parse_state_def)

lemma find_set_state:
  assumes "set_state reg now actor name s user_ids role_ids db = Inr db'"
  shows "find_by fr_name n (ff_rows db') = (if n = name then Some (state_row now actor name s user_ids role_ids) else find_by fr_name n (ff_rows db))"
proof -
  have name: "fr_name (state_row now actor name s user_ids role_ids) = name" by (simp add: state_row_def)
  obtain f where "map_of reg name = Some f" using assms by (cases "map_of reg name") (simp_all add: set_state_def)
  then show ?thesis using assms
    by (auto simp: set_state_def insert_row_def name find_overwrite [OF name] split: option.splits)
qed

lemma set_feature_success:
  assumes "set_feature_state now actor name state_text user_ids role_ids db = (Inr vs, db')"
  obtains s f db1 where "parse_state state_text = Some s" "map_of REGISTRY name = Some f"
    "set_state REGISTRY now (Some actor) name s user_ids role_ids db = Inr db1" "ff_rows db' = ff_rows db1"
    "ac_roles (ff_accounts db') = ac_roles (ff_accounts db1)" "ff_accounts db1 = ff_accounts db"
    "s = TARGETED \<Longrightarrow> set user_ids \<subseteq> us_id ` set (ac_users (ff_accounts db)) \<and> set role_ids \<subseteq> ro_id ` set (ac_roles (ff_accounts db))"
proof -
  obtain s where s: "parse_state state_text = Some s" using assms by (auto simp: set_feature_state_def split: option.splits)
  obtain f where f: "map_of REGISTRY name = Some f" using assms s by (auto simp: set_feature_state_def split: if_splits)
  obtain db1 where db1: "set_state REGISTRY now (Some actor) name s user_ids role_ids db = Inr db1"
    using f by (auto simp: set_state_def)
  have acc: "ff_accounts db1 = ff_accounts db" using db1 f by (auto simp: set_state_def)
  have known: "s = TARGETED \<Longrightarrow> set user_ids \<subseteq> us_id ` set (ac_users (ff_accounts db)) \<and> set role_ids \<subseteq> ro_id ` set (ac_roles (ff_accounts db))"
    using assms s f by (auto simp: set_feature_state_def reject_unknown_def list_all_iff split: if_splits)
  have "db' = db1\<lparr>ff_accounts := audit_account (Some actor) ''features.state.update'' (Some name) (ff_accounts db1)\<rparr>"
    using assms s f db1 by (auto simp: set_feature_state_def Let_def split: sum.splits)
  then show thesis using that [OF s f db1 _ _ acc known] by (simp add: audit_account_def)
qed

section \<open>Properties\<close>

text \<open>A change of a flag takes effect at once and exactly as asked. After a successful request the flag is on for everyone, for nobody, or for the
  listed users, the users with a listed role and, where the flag says so, those who may write settings; every listed user and role exists; and every
  other flag answers as before.\<close>

theorem flag_takes_effect:
  assumes "set_feature_state now actor name state_text user_ids role_ids db = (Inr vs, db')"
  shows "(evaluate_flag REGISTRY db' name (Some u) \<longleftrightarrow> state_text = ''on''
      \<or> state_text = ''targeted'' \<and> (us_id u \<in> set user_ids \<or> us_role u \<in> set role_ids
          \<or> fg_include_admins (the (map_of REGISTRY name)) \<and> has_permission (permissions_of (ff_accounts db) u) ''settings:write''))
    \<and> (state_text = ''targeted'' \<longrightarrow> set user_ids \<subseteq> us_id ` set (ac_users (ff_accounts db)) \<and> set role_ids \<subseteq> ro_id ` set (ac_roles (ff_accounts db)))
    \<and> (other \<noteq> name \<longrightarrow> evaluate_flag reg db' other v = evaluate_flag reg db other v)"
proof -
  obtain s f db1 where s: "parse_state state_text = Some s" and f: "map_of REGISTRY name = Some f"
    and db1: "set_state REGISTRY now (Some actor) name s user_ids role_ids db = Inr db1" and rows: "ff_rows db' = ff_rows db1"
    and roles: "ac_roles (ff_accounts db') = ac_roles (ff_accounts db1)" and acc: "ff_accounts db1 = ff_accounts db"
    and known: "s = TARGETED \<Longrightarrow> set user_ids \<subseteq> us_id ` set (ac_users (ff_accounts db)) \<and> set role_ids \<subseteq> ro_id ` set (ac_roles (ff_accounts db))"
    by (rule set_feature_success [OF assms]) (rule that, assumption+)
  have perms: "permissions_of (ff_accounts db') x = permissions_of (ff_accounts db) x" for x
    using roles acc by (simp add: permissions_of_def role_of_def)
  have texts: "state_text = state_value s" using s by (auto simp: parse_state_def split: if_splits)
  have "evaluate_flag reg db' other v = evaluate_flag reg db other v" if "other \<noteq> name"
  proof -
    have same: "find_by fr_name other (ff_rows db') = find_by fr_name other (ff_rows db)" using that by (simp add: rows find_set_state [OF db1])
    show ?thesis unfolding evaluate_flag_def perms same ..
  qed
  moreover have "evaluate_flag REGISTRY db' name (Some u) \<longleftrightarrow> s = FLAG_ON \<or> s = TARGETED \<and> (us_id u \<in> set user_ids \<or> us_role u \<in> set role_ids
          \<or> fg_include_admins f \<and> has_permission (permissions_of (ff_accounts db) u) ''settings:write'')"
    by (cases s) (simp_all add: evaluate_flag_def f rows find_set_state [OF db1] perms current_state_def Let_def state_row_def parse_state_def)
  ultimately show ?thesis using known f by (cases s) (simp_all add: texts)
qed

definition sample_features :: feature_db where
  "sample_features = \<lparr>ff_accounts = sample_accounts, ff_rows = []\<rparr>"

theorem flag_takes_effect_witness:
  "\<not> evaluate_flag REGISTRY sample_features ''assistant'' (Some sample_viewer)
   \<and> evaluate_flag REGISTRY (snd (set_feature_state 7 sample_admin ''assistant'' ''targeted'' [''b1''] [] sample_features)) ''assistant'' (Some sample_viewer)"
proof -
  obtain r db' where run: "set_feature_state 7 sample_admin ''assistant'' ''targeted'' [''b1''] [] sample_features = (r, db')" by fastforce
  have "\<not> isl (fst (set_feature_state 7 sample_admin ''assistant'' ''targeted'' [''b1''] [] sample_features))" by code_simp
  then obtain vs where "r = Inr vs" using run by (cases r) simp_all
  then have "evaluate_flag REGISTRY db' ''assistant'' (Some sample_viewer)"
    using flag_takes_effect [of 7 sample_admin "''assistant''" "''targeted''" "[''b1'']" "[]" sample_features vs db' sample_viewer] run
    by (simp add: sample_viewer_def)
  moreover have "\<not> evaluate_flag REGISTRY sample_features ''assistant'' (Some sample_viewer)" by code_simp
  ultimately show ?thesis by (simp add: run)
qed

text \<open>A stored state the code does not know falls back to the default where the flag is asked for, but not where it is administered: the page that
  lists the flags then fails.\<close>

theorem unknown_state_breaks_listing:
  "current_state \<lparr>fg_default = TARGETED, fg_kind = PERMANENT, fg_include_admins = True, fg_expires = None\<rparr>
      (Some \<lparr>fr_name = ''assistant'', fr_state = ''beta'', fr_user_ids = [], fr_role_ids = [], fr_updated_at = 0, fr_updated_by = None\<rparr>) = TARGETED
   \<and> isl (list_features \<lparr>ff_accounts = sample_accounts,
        ff_rows = [\<lparr>fr_name = ''assistant'', fr_state = ''beta'', fr_user_ids = [], fr_role_ids = [], fr_updated_at = 0, fr_updated_by = None\<rparr>]\<rparr>)"
  by code_simp

end
