(* ===== verification/Device_Status.thy ===== *)
theory Device_Status
  imports Upcoming Fleet
begin

text \<open>
  The schedule page of one device, \<^verbatim>\<open>get_device_schedule_status\<close> of \<^verbatim>\<open>cms/services/scheduler.py\<close>: what plays, what is held back
  by it and what comes next, built from the lists of the dashboard. In a consistent fleet the page leaves nothing out.
\<close>

record status_entry =
  se_schedule_id :: string
  se_schedule_name :: string
  se_group_id :: "string option"
  se_group_name :: "string option"
  se_asset_filename :: string
  se_priority :: int
  se_start_time :: string
  se_end_time :: string
  se_countdown :: "string option"
  se_day_label :: "string option"
  se_preempted :: bool
  se_starting :: bool
  se_no_targets :: bool
  se_resumes_at :: "string option"
  se_source :: "string option"
  se_preempting :: "(string \<times> string \<times> string option \<times> string option \<times> int) option"

text \<open>The columns of the schedule; the optional arguments are set by the callers.\<close>

definition device_schedule_status_summary :: "schedule \<Rightarrow> status_entry" where
  "device_schedule_status_summary s =
     \<lparr>se_schedule_id = sched_id s, se_schedule_name = sched_name s, se_group_id = group_id s, se_group_name = map_option dg_name (sched_group s),
      se_asset_filename = asset_display_name (sched_asset s), se_priority = priority s, se_start_time = strftime_ampm (start_time s),
      se_end_time = strftime_ampm (end_time s), se_countdown = None, se_day_label = None, se_preempted = False, se_starting = False,
      se_no_targets = False, se_resumes_at = None, se_source = None, se_preempting = None\<rparr>"

record device_status_page =
  sp_now_playing :: "status_entry option"
  sp_coming_up :: "status_entry list"
  sp_preempted :: "status_entry list"

definition page_skips :: "cms_db \<Rightarrow> datetime \<Rightarrow> skip_snapshot" where
  "page_skips db local_now = active_as_of (load_skip_snapshot (schedules db) (device_skips db)) local_now"

definition device_schedules :: "cms_db \<Rightarrow> string \<Rightarrow> datetime \<Rightarrow> schedule list" where
  "device_schedules db did local_now =
     (let ss = filter enabled (schedules db);
          tbs = load_target_devices_by_schedule ss (devices db) (tag_assignments db)
      in filter (\<lambda>s. did \<in> set (dict_get_set (sched_id s) tbs) \<and> \<not> is_schedule_skipped (page_skips db local_now) (sched_id s)
           \<and> \<not> is_skipped_for_device (page_skips db local_now) (sched_id s) did) ss)"

definition preempted_status :: "string \<Rightarrow> datetime \<Rightarrow> schedule list \<Rightarrow> np_entry \<Rightarrow> schedule \<Rightarrow> schedule \<Rightarrow> status_entry" where
  "preempted_status did local_now ss winning_entry winning s =
     (let resume_at = find_resume_time s ss local_now (Some ([did], [(did, winning_entry)], schedules_by_id ss))
      in (device_schedule_status_summary s)\<lparr>
           se_countdown := map_option (\<lambda>r. up_countdown (preempted_entry s local_now r)) resume_at, se_day_label := Some ''today'',
           se_preempted := True, se_resumes_at := map_option strftime_ampm resume_at,
           se_preempting := Some (sched_id winning, sched_name winning, group_id winning, map_option dg_name (sched_group winning), priority winning)\<rparr>)"

definition coming_up_status :: "schedule \<Rightarrow> upcoming_entry \<Rightarrow> status_entry" where
  "coming_up_status s e = (device_schedule_status_summary s)\<lparr>se_countdown := Some (up_countdown e), se_day_label := Some (up_day_label e),
     se_preempted := up_preempted e, se_starting := up_starting e, se_no_targets := up_no_targets e, se_resumes_at := up_resumes_at e\<rparr>"

definition get_device_schedule_status ::
  "cms_db \<Rightarrow> live_state list \<Rightarrow> confirmed_playing \<Rightarrow> string \<Rightarrow> datetime \<Rightarrow> string \<Rightarrow> device_status_page result" where
  "get_device_schedule_status db states cp did local_now now_iso =
     (let ss = device_schedules db did local_now;
          by_id = schedules_by_id ss;
          np = compute_now_playing db states cp local_now now_iso;
          winning_entry = List.find (\<lambda>e. np_device_id e = did) np;
          winner = (case winning_entry of None \<Rightarrow> None | Some e \<Rightarrow> map_option (\<lambda>s. (e, s)) (map_of by_id (np_schedule_id e)));
          args = \<lparr>ua_now_playing = Some np, ua_skipped_ids = map fst (schedule_wide (page_skips db local_now)),
            ua_per_device_skipped = map fst (per_device (page_skips db local_now)), ua_targets = Some (map (\<lambda>s. (sched_id s, [did])) ss)\<rparr>
      in result_bind (get_upcoming_schedules ss local_now args) (\<lambda>upcoming.
         Inr \<lparr>sp_now_playing = map_option (\<lambda>(e, s). (device_schedule_status_summary s)\<lparr>se_source := Some (np_source e)\<rparr>) winner,
          sp_coming_up = [coming_up_status s e. e \<leftarrow> upcoming, \<not> up_preempted e,
             s \<leftarrow> (case map_of by_id (up_schedule_id e) of None \<Rightarrow> [] | Some s \<Rightarrow> [s])],
          sp_preempted = (case winner of None \<Rightarrow> []
             | Some (e, w) \<Rightarrow> map (preempted_status did local_now ss e w)
                 (filter (\<lambda>s. sched_id s \<noteq> sched_id w \<and> matches_now s local_now \<and> \<not> priority w \<le> priority s) ss))\<rparr>))"

section \<open>Lemmas\<close>

lemma map_of_schedules_by_id:
  assumes "distinct (map sched_id ss)"
  shows "map_of (schedules_by_id ss) k = find_by sched_id k ss"
proof -
  have "map_of (fold (\<lambda>s m. dict_set (sched_id s) s m) ss m) k = (case find_by sched_id k ss of Some s \<Rightarrow> Some s | None \<Rightarrow> map_of m k)" for m
    using assms by (induction ss arbitrary: m) (auto simp: find_by_None split: option.splits dest!: find_by_Some)
  then show ?thesis by (simp add: schedules_by_id_def split: option.splits)
qed

text \<open>The schedules the page works on are the enabled ones that reach the device and are not ended early for it.\<close>

lemma mem_device_schedules:
  assumes "db_ok db"
  shows "s \<in> set (device_schedules db did t) \<longleftrightarrow> s \<in> set (schedules db) \<and> enabled s
    \<and> did \<in> targets s (devices db) (tag_assignments db) \<and> \<not> skipped_at db t s did"
proof -
  have "distinct (map sched_id (filter enabled (schedules db)))" using assms by (simp add: db_ok_def distinct_map_filter)
  then show ?thesis
    using load_targets_eq [of "filter enabled (schedules db)" s "devices db" "tag_assignments db"]
      skipped_wide_iff [OF assms, of s t] skipped_device_iff [OF assms, of s t did]
    by (auto simp: device_schedules_def page_skips_def Let_def skipped_at_def)
qed

lemma distinct_device_schedules: "db_ok db \<Longrightarrow> distinct (map sched_id (device_schedules db did t))"
  by (simp add: db_ok_def device_schedules_def Let_def distinct_map_filter)

text \<open>The winner of the page is the schedule that plays.\<close>

text \<open>The winner of the page is the schedule that plays.\<close>

lemma page_winner:
  assumes ok: "db_ok db" "clock_ok db t" and np: "np = compute_now_playing db states cp t now_iso"
  shows "case (case List.find (\<lambda>e. np_device_id e = did) np of None \<Rightarrow> None
      | Some e \<Rightarrow> map_option (\<lambda>s. (e, s)) (map_of (schedules_by_id (device_schedules db did t)) (np_schedule_id e))) of
      None \<Rightarrow> \<not> (\<exists>s. plays db t did s)
    | Some (e, s) \<Rightarrow> plays db t did s"
proof (cases "List.find (\<lambda>e. np_device_id e = did) np")
  case None
  then have "\<not> (\<exists>e \<in> set np. np_device_id e = did)" by (auto simp: find_None_iff)
  then show ?thesis using None compute_now_playing_ids(2) [OF ok np, of did] by auto
next
  case (Some e)
  then have "e \<in> set np" "np_device_id e = did" using find_SomeD by fastforce+
  then obtain s where s: "plays db t did s" "sched_id s = np_schedule_id e" using compute_now_playing_ids(2) [OF ok np, of did] by blast
  then have "s \<in> set (device_schedules db did t)" using mem_device_schedules [OF ok(1)] by (auto simp: plays_def eligible_def)
  then have "find_by sched_id (np_schedule_id e) (device_schedules db did t) = Some s"
    using find_by_mem [of sched_id "device_schedules db did t" s] distinct_device_schedules [OF ok(1)] s(2) by (simp add: keys_ok_def)
  then show ?thesis using Some s(1) by (simp add: map_of_schedules_by_id [OF distinct_device_schedules [OF ok(1)]])
qed

lemma someone_plays: "db_ok db \<Longrightarrow> eligible db t did s \<Longrightarrow> \<exists>s. plays db t did s"
proof -
  assume ok: "db_ok db" and e: "eligible db t did s"
  let ?xs = "filter (eligible db t did) (schedules db)"
  have mem: "s \<in> set ?xs \<longleftrightarrow> eligible db t did s" for s by (auto simp: eligible_def)
  then have "?xs \<noteq> []" using e by fastforce
  then obtain c where "champion schedule_wins ?xs None = Some c" using wins.champion_None [of ?xs] by blast
  then show ?thesis using champion_plays [OF ok mem] by blast
qed

section \<open>Properties\<close>

text \<open>The page of an adopted device of a consistent fleet shows exactly what is going on there: as now playing the schedule that plays, if any does; and
  every other schedule that is eligible at this moment is listed as preempted by it, so no running schedule is missing from the page.\<close>

theorem status_page_complete:
  assumes "fleet_ok st" and "db_ok (fl_db st)" and "clock_ok (fl_db st) t"
    and "d \<in> set (devices (fl_db st))" and "dev_status d = ADOPTED"
    and "get_device_schedule_status (fl_db st) states cp (dev_id d) t now_iso = Inr page"
  shows "case sp_now_playing page of
      None \<Rightarrow> \<not> (\<exists>s. eligible (fl_db st) t (dev_id d) s)
    | Some x \<Rightarrow> (\<exists>s. plays (fl_db st) t (dev_id d) s \<and> se_schedule_id x = sched_id s \<and> se_priority x = priority s
        \<and> (\<forall>s'. eligible (fl_db st) t (dev_id d) s' \<and> s' \<noteq> s \<longrightarrow> sched_id s' \<in> se_schedule_id ` set (sp_preempted page)))"
proof -
  let ?db = "fl_db st" and ?did = "dev_id d"
  let ?w = "case List.find (\<lambda>e. np_device_id e = ?did) (compute_now_playing ?db states cp t now_iso) of None \<Rightarrow> None
      | Some e \<Rightarrow> map_option (\<lambda>s. (e, s)) (map_of (schedules_by_id (device_schedules ?db ?did t)) (np_schedule_id e))"
  note win = page_winner [OF assms(2,3) refl, of ?did states cp now_iso]
  show ?thesis
  proof (cases ?w)
    case None
    then have "\<not> (\<exists>s. plays ?db t ?did s)" using win by simp
    then have "\<not> (\<exists>s. eligible ?db t ?did s)" using someone_plays [OF assms(2)] by blast
    then show ?thesis using None assms(6) by (auto simp: get_device_schedule_status_def Let_def result_bind_eq_Inr)
  next
    case (Some p)
    obtain e s where p: "p = (e, s)" by (cases p)
    have s: "plays ?db t ?did s" using win Some p by simp
    have pre: "sp_preempted page = map (preempted_status ?did t (device_schedules ?db ?did t) e s)
        (filter (\<lambda>x. sched_id x \<noteq> sched_id s \<and> matches_now x t \<and> \<not> priority s \<le> priority x) (device_schedules ?db ?did t))"
      and now: "sp_now_playing page = Some ((device_schedule_status_summary s)\<lparr>se_source := Some (np_source e)\<rparr>)"
      using Some p assms(6) by (auto simp: get_device_schedule_status_def Let_def result_bind_eq_Inr)
    have "sched_id x \<in> se_schedule_id ` set (sp_preempted page)" if x: "eligible ?db t ?did x" "x \<noteq> s" for x
    proof -
      have "priority x < priority s" by (rule ok_strict_winner [OF assms(1,4,5) s x])
      moreover have "x \<in> set (device_schedules ?db ?did t)" using x(1) mem_device_schedules [OF assms(2)] by (auto simp: eligible_def)
      moreover have "matches_now x t" using x(1) matches_now_iff [OF assms(3)] by (auto simp: eligible_def)
      moreover have "se_schedule_id (preempted_status ?did t (device_schedules ?db ?did t) e s x) = sched_id x"
        by (simp add: preempted_status_def device_schedule_status_summary_def Let_def)
      moreover have "sched_id x \<noteq> sched_id s" using x s assms(2) by (auto simp: plays_def eligible_def db_ok_def distinct_map inj_on_def)
      ultimately show ?thesis unfolding pre by force
    qed
    then show ?thesis using s by (auto simp: now device_schedule_status_summary_def)
  qed
qed

theorem status_page_complete_witness:
  "\<exists>page x. get_device_schedule_status sample_db [] [] ''d1'' sample_now ''now'' = Inr page
    \<and> sp_now_playing page = Some x \<and> se_schedule_id x = ''s2'' \<and> ''s1'' \<in> se_schedule_id ` set (sp_preempted page)"
proof -
  have db: "fl_db sample_fleet = sample_db" "dev_id sample_device = ''d1''"
    by (simp_all add: sample_fleet_def sample_api_def empty_state_def sample_device_def)
  have dev: "sample_device \<in> set (devices (fl_db sample_fleet))" "dev_status sample_device = ADOPTED"
    by (simp_all add: db sample_rows) (simp add: sample_device_def)
  have "(case get_device_schedule_status sample_db [] [] ''d1'' sample_now ''now'' of Inl _ \<Rightarrow> None
      | Inr page \<Rightarrow> map_option se_schedule_id (sp_now_playing page)) = Some ''s2''" by code_simp
  then obtain page x where page: "get_device_schedule_status sample_db [] [] ''d1'' sample_now ''now'' = Inr page"
    and x: "sp_now_playing page = Some x" "se_schedule_id x = ''s2''" by (auto split: sum.splits)
  have late: "sched_id sample_late = ''s1''" by code_simp
  obtain s where s: "se_schedule_id x = sched_id s"
    "\<And>s'. eligible sample_db sample_now ''d1'' s' \<Longrightarrow> s' \<noteq> s \<Longrightarrow> sched_id s' \<in> se_schedule_id ` set (sp_preempted page)"
    using status_page_complete [OF sample_fleet_ok sample_db_ok [folded db(1)] dev, of "[]" "[]" "''now''" page] x page
    by (auto simp: db)
  have "sample_late \<noteq> s" using late s(1) x(2) by auto
  then show ?thesis using s(2) [OF sample_eligible(1)] late x page by auto
qed

end
