(* ===== verification/Variants.thy ===== *)
theory Variants
  imports Jobs Readiness
begin

text \<open>
  The transcoded variants of an asset, \<^verbatim>\<open>cms/services/transcoder.py\<close> and the rows the worker
  writes, \<^verbatim>\<open>worker/transcoder.py\<close>: creation of variant rows and their jobs, the supersession
  of the variants of an edited profile (latest READY wins), recovery of jobs whose worker has
  died, the reaper's sweeps and the worker's own status writes. The state holds the tables of
  the library, the job queue of \<open>Jobs\<close> and the file names in storage; identifiers of new rows
  are supplied. Progress is in tenths of a per cent, instants are microseconds.
\<close>

section \<open>Tables\<close>

record lib_asset = asset +
  asset_size :: int

datatype setting = SText string | SNum int

text \<open>The columns the code reads and writes by name (\<^verbatim>\<open>getattr\<close>, \<^verbatim>\<open>setattr\<close>) are a dictionary.\<close>

record device_profile =
  prof_id :: string
  prof_name :: string
  purpose :: string
  prof_enabled :: bool
  builtin :: bool
  settings :: "(string, setting) dict"

record variant_row =
  vr_id :: string
  vr_asset :: string
  vr_profile :: string
  vr_filename :: string
  vr_size :: int
  vr_checksum :: string
  vr_status :: variant_status
  vr_progress :: int
  vr_error :: string
  vr_created :: int
  vr_completed :: "int option"
  vr_deleted :: "int option"

record bell_note =
  bn_id :: string
  bn_scope :: string
  bn_level :: string
  bn_title :: string
  bn_message :: string
  bn_details :: "(string \<times> string) list"

text \<open>\<open>dev_defaults\<close> and \<open>grp_defaults\<close> are the columns \<^verbatim>\<open>default_asset_id\<close> of the devices and
  groups, \<open>dev_assets\<close> and \<open>grp_assets\<close> the association tables (owner, asset), \<open>pinned\<close> the
  assets a row of a table with a restricting foreign key refers to (schedules and slideshow
  slides).\<close>

record media_db =
  lib_assets :: "lib_asset list"
  profiles :: "device_profile list"
  variants :: "variant_row list"
  job_tables :: job_db
  bell :: "bell_note list"
  local_files :: "string list"
  remote_blobs :: "string list"
  dev_assets :: "(string \<times> string) list"
  grp_assets :: "(string \<times> string) list"
  dev_defaults :: "(string \<times> string option) list"
  grp_defaults :: "(string \<times> string option) list"
  pinned :: "string list"

definition NON_TERMINAL :: "variant_status list" where
  "NON_TERMINAL = [VPENDING, VPROCESSING]"

definition live :: "variant_row \<Rightarrow> bool" where
  "live v \<longleftrightarrow> vr_deleted v = None"

definition set_jobs :: "(job list \<Rightarrow> job list) \<Rightarrow> media_db \<Rightarrow> media_db" where
  "set_jobs f st = st\<lparr>job_tables := (job_tables st)\<lparr>jobs := f (jobs (job_tables st))\<rparr>\<rparr>"

text \<open>A deleted job takes its outbox row with it (the foreign key cascades).\<close>

definition drop_jobs :: "(job \<Rightarrow> bool) \<Rightarrow> job_db \<Rightarrow> job_db" where
  "drop_jobs P jt = jt\<lparr>jobs := delete_where P (jobs jt),
     outbox := delete_where (\<lambda>r. ob_job_id r \<in> job_id ` set (filter P (jobs jt))) (outbox jt)\<rparr>"

section \<open>Variants of an asset\<close>

definition ends_with :: "string \<Rightarrow> string \<Rightarrow> bool" where
  "ends_with sfx s \<longleftrightarrow> length sfx \<le> length s \<and> drop (length s - length sfx) s = sfx"

definition image_variant_ext :: "string \<Rightarrow> string" where
  "image_variant_ext source_filename =
     (if ends_with ''.png'' (lower_text source_filename) then ''.png'' else ''.jpg'')"

definition THUMBNAIL_ONLY_ASSET_TYPES :: "asset_type list" where
  "THUMBNAIL_ONLY_ASSET_TYPES = [COMPOSED, WEBPAGE]"

definition IMAGE_RELEVANT_FIELDS :: "string list" where
  "IMAGE_RELEVANT_FIELDS = [''max_width'', ''max_height'']"

definition variant_ext_for :: "lib_asset \<Rightarrow> device_profile \<Rightarrow> string" where
  "variant_ext_for a p =
     (if purpose p = ''thumbnail'' then ''.jpg''
      else if asset_type_of a = IMAGE then image_variant_ext (filename a)
      else if map_of (settings p) ''audio_codec'' = Some (SText ''libopus'') then ''.mkv''
      else ''.mp4'')"

definition profile_emits_for_asset :: "device_profile \<Rightarrow> lib_asset \<Rightarrow> bool" where
  "profile_emits_for_asset p a =
     (if asset_type_of a \<in> set THUMBNAIL_ONLY_ASSET_TYPES then purpose p = ''thumbnail'' else True)"

definition new_variant :: "int \<Rightarrow> string \<Rightarrow> lib_asset \<times> device_profile \<Rightarrow> variant_row" where
  "new_variant now vid = (\<lambda>(a, p).
     \<lparr>vr_id = vid, vr_asset = asset_id a, vr_profile = prof_id p, vr_filename = vid @ variant_ext_for a p,
      vr_size = 0, vr_checksum = '''', vr_status = VPENDING, vr_progress = 0, vr_error = '''',
      vr_created = now, vr_completed = None, vr_deleted = None\<rparr>)"

text \<open>The loops that create rows visit each asset (or profile) once, so the rows they add do not
  influence the checks of later rounds: the pairs that pass are found first.\<close>

definition add_variants ::
  "string list \<Rightarrow> int \<Rightarrow> (lib_asset \<times> device_profile) list \<Rightarrow> media_db \<Rightarrow> string list \<times> media_db" where
  "add_variants ids now pairs st =
     (let rows = map (\<lambda>(vid, ap). new_variant now vid ap) (zip ids pairs)
      in (map vr_id rows, st\<lparr>variants := variants st @ rows\<rparr>))"

definition has_variant :: "media_db \<Rightarrow> string \<Rightarrow> string \<Rightarrow> bool" where
  "has_variant st aid pid =
     list_ex (\<lambda>v. vr_asset v = aid \<and> vr_profile v = pid \<and> live v) (variants st)"

definition enqueue_variants ::
  "(string \<times> string) list \<Rightarrow> int \<Rightarrow> string list \<Rightarrow> media_db \<Rightarrow> media_db result" where
  "enqueue_variants ids now vids st =
     (if vids = [] then Inr st
      else result_bind (enqueue_jobs ids now (map (\<lambda>vid. (VARIANT_TRANSCODE, vid)) vids) (job_tables st))
        (\<lambda>jt. Inr (st\<lparr>job_tables := jt\<rparr>)))"

definition enqueue_for_new_profile ::
  "string list \<Rightarrow> int \<Rightarrow> string \<Rightarrow> media_db \<Rightarrow> string list \<times> media_db" where
  "enqueue_for_new_profile ids now pid st =
     (case find_by prof_id pid (profiles st) of
        None \<Rightarrow> ([], st)
      | Some p \<Rightarrow>
          if \<not> prof_enabled p then ([], st)
          else let wanted = [VIDEO, IMAGE] @ (if purpose p = ''thumbnail'' then THUMBNAIL_ONLY_ASSET_TYPES else [])
               in add_variants ids now
                    (map (\<lambda>a. (a, p)) (filter (\<lambda>a. asset_type_of a \<in> set wanted \<and> asset_deleted_at a = None
                       \<and> \<not> has_variant st (asset_id a) pid) (lib_assets st))) st)"

definition enqueue_transcoding_for_asset ::
  "string list \<Rightarrow> int \<Rightarrow> lib_asset \<Rightarrow> media_db \<Rightarrow> string list \<times> media_db" where
  "enqueue_transcoding_for_asset ids now a st =
     add_variants ids now
       (map (\<lambda>p. (a, p)) (filter (\<lambda>p. prof_enabled p \<and> profile_emits_for_asset p a
          \<and> \<not> has_variant st (asset_id a) (prof_id p)) (profiles st))) st"

definition thumbnail_profiles :: "media_db \<Rightarrow> device_profile list" where
  "thumbnail_profiles st = filter prof_enabled (filter (\<lambda>p. purpose p = ''thumbnail'') (profiles st))"

definition enqueue_composed_thumbnail ::
  "string list \<Rightarrow> (string \<times> string) list \<Rightarrow> int \<Rightarrow> lib_asset \<Rightarrow> media_db \<Rightarrow> (string list \<times> media_db) result" where
  "enqueue_composed_thumbnail ids jids now a st =
     (if asset_type_of a \<notin> set THUMBNAIL_ONLY_ASSET_TYPES then Inr ([], st)
      else let pending_profile_ids = map vr_profile (filter (\<lambda>v. vr_asset v = asset_id a
                 \<and> vr_status v = VPENDING \<and> live v) (variants st));
               (vids, st') = add_variants ids now
                 (map (\<lambda>p. (a, p)) (filter (\<lambda>p. prof_id p \<notin> set pending_profile_ids) (thumbnail_profiles st))) st
           in result_bind (enqueue_variants jids now vids st') (\<lambda>st''. Inr (vids, st'')))"

definition lacks_thumbnail :: "media_db \<Rightarrow> lib_asset \<Rightarrow> bool" where
  "lacks_thumbnail st a \<longleftrightarrow> \<not> list_ex (\<lambda>v. vr_asset v = asset_id a
     \<and> vr_profile v \<in> set (map prof_id (thumbnail_profiles st))
     \<and> vr_status v \<in> {VPENDING, VPROCESSING, VREADY} \<and> live v) (variants st)"

definition enqueue_missing_composed_thumbnails ::
  "string list \<Rightarrow> (string \<times> string) list \<Rightarrow> int \<Rightarrow> media_db \<Rightarrow> (nat \<times> media_db) result" where
  "enqueue_missing_composed_thumbnails ids jids now st =
     (if thumbnail_profiles st = [] then Inr (0, st)
      else let missing = filter (lacks_thumbnail st) (filter (\<lambda>a. asset_type_of a \<in> set THUMBNAIL_ONLY_ASSET_TYPES
                 \<and> asset_deleted_at a = None) (lib_assets st));
               (vids, st') = add_variants ids now (List.product missing (thumbnail_profiles st)) st
           in result_bind (enqueue_variants jids now vids st') (\<lambda>st''. Inr (length missing, st'')))"

section \<open>Editing a profile\<close>

definition profile_job :: "media_db \<Rightarrow> string \<Rightarrow> job \<Rightarrow> bool" where
  "profile_job st pid j \<longleftrightarrow> job_status_of j \<in> set ACTIVE_JOB_STATUSES \<and> job_type_of j = VARIANT_TRANSCODE
     \<and> target_id j \<in> set (map vr_id (filter (\<lambda>v. vr_profile v = pid) (variants st)))"

definition flag_profile_jobs_cancelled :: "string \<Rightarrow> media_db \<Rightarrow> nat \<times> media_db" where
  "flag_profile_jobs_cancelled pid st =
     (rowcount (profile_job st pid) (jobs (job_tables st)),
      set_jobs (update_where (profile_job st pid) (\<lambda>j. j\<lparr>cancel_requested := True\<rparr>)) st)"

definition superseded_assets :: "string \<Rightarrow> string list option \<Rightarrow> media_db \<Rightarrow> lib_asset list" where
  "superseded_assets pid changed st =
     (let source_asset_ids = remdups (map vr_asset (filter (\<lambda>v. vr_profile v = pid \<and> live v) (variants st)));
          skip_images = (case changed of None \<Rightarrow> False
            | Some fs \<Rightarrow> \<not> list_ex (\<lambda>f. f \<in> set IMAGE_RELEVANT_FIELDS) fs)
      in filter (\<lambda>a. asset_deleted_at a = None \<and> \<not> (skip_images \<and> asset_type_of a = IMAGE))
           (List.map_filter (\<lambda>aid. find_by asset_id aid (lib_assets st)) source_asset_ids))"

definition supersede_profile_variants ::
  "string list \<Rightarrow> int \<Rightarrow> string \<Rightarrow> string list option \<Rightarrow> media_db \<Rightarrow> string list \<times> media_db" where
  "supersede_profile_variants ids now pid changed st =
     (case find_by prof_id pid (profiles st) of
        None \<Rightarrow> ([], st)
      | Some p \<Rightarrow> add_variants ids now (map (\<lambda>a. (a, p)) (superseded_assets pid changed st)) st)"

section \<open>Repairs\<close>

text \<open>\<^verbatim>\<open>rsplit('.', 1)[0]\<close>.\<close>

definition stem :: "string \<Rightarrow> string" where
  "stem f = (if CHR ''.'' \<in> set f then rev (tl (dropWhile (\<lambda>c. c \<noteq> CHR ''.'') (rev f))) else f)"

definition wrong_extension :: "media_db \<Rightarrow> variant_row \<Rightarrow> bool" where
  "wrong_extension st v \<longleftrightarrow> ends_with ''.mp4'' (vr_filename v)
     \<and> (case find_by asset_id (vr_asset v) (lib_assets st) of None \<Rightarrow> False | Some a \<Rightarrow> asset_type_of a = IMAGE)"

definition fix_extension_row :: "media_db \<Rightarrow> variant_row \<Rightarrow> variant_row" where
  "fix_extension_row st v =
     v\<lparr>vr_filename := stem (vr_filename v)
         @ image_variant_ext (filename (the (find_by asset_id (vr_asset v) (lib_assets st)))),
       vr_status := VPENDING, vr_size := 0, vr_checksum := '''', vr_progress := 0, vr_error := ''''\<rparr>"

definition fix_image_variant_extensions ::
  "(string \<times> string) list \<Rightarrow> int \<Rightarrow> media_db \<Rightarrow> (nat \<times> media_db) result" where
  "fix_image_variant_extensions jids now st =
     (let broken = filter (wrong_extension st) (variants st)
      in if broken = [] then Inr (0, st)
         else result_bind (enqueue_variants jids now (map vr_id broken)
                (st\<lparr>variants := update_where (wrong_extension st) (fix_extension_row st) (variants st)\<rparr>))
                (\<lambda>st'. Inr (length broken, st')))"

definition STALE_HEARTBEAT_TIMEOUT :: int where "STALE_HEARTBEAT_TIMEOUT = 120"

definition STALE_RESET_BATCH :: nat where "STALE_RESET_BATCH = 50"

text \<open>The candidates: jobs in PROCESSING joined with their variant. \<open>locked\<close> are the job rows
  another session holds, which the statement skips.\<close>

definition stalled :: "int \<Rightarrow> (string \<Rightarrow> bool) \<Rightarrow> job \<times> variant_row \<Rightarrow> bool" where
  "stalled now locked = (\<lambda>(j, v). vr_id v = target_id j \<and> job_type_of j = VARIANT_TRANSCODE
     \<and> job_status_of j = JPROCESSING \<and> vr_status v = VPROCESSING \<and> live v
     \<and> (case heartbeat_at j of Some t \<Rightarrow> t | None \<Rightarrow> job_created_at j)
         < now - STALE_HEARTBEAT_TIMEOUT * 1000000
     \<and> \<not> locked (job_id j))"

definition stalled_rows :: "int \<Rightarrow> (string \<Rightarrow> bool) \<Rightarrow> media_db \<Rightarrow> (job \<times> variant_row) list" where
  "stalled_rows now locked st = take STALE_RESET_BATCH (sort_key (\<lambda>(j, v). job_created_at j)
     (filter (stalled now locked) (List.product (jobs (job_tables st)) (variants st))))"

definition STALL_CANCELLED :: string where
  "STALL_CANCELLED = ''cancel_requested on job; worker stopped heartbeating before it observed the flag''"

definition STALL_FAILED :: string where
  "STALL_FAILED = ''no heartbeat for >'' @ int_text STALE_HEARTBEAT_TIMEOUT @ ''s '' @ em_dash
     @ '' worker presumed dead''"

definition close_stalled_job :: "int \<Rightarrow> job \<Rightarrow> job" where
  "close_stalled_job now j = (if cancel_requested j
     then j\<lparr>job_status_of := JCANCELLED, error_message := STALL_CANCELLED, completed_at := Some now\<rparr>
     else j\<lparr>job_status_of := JFAILED, error_message := STALL_FAILED, completed_at := Some now\<rparr>)"

definition reset_row :: "variant_status \<Rightarrow> variant_row \<Rightarrow> variant_row" where
  "reset_row s v = v\<lparr>vr_status := s, vr_progress := 0\<rparr>"

definition recover_stalled_variants_once ::
  "(string \<times> string) list \<Rightarrow> int \<Rightarrow> (string \<Rightarrow> bool) \<Rightarrow> media_db \<Rightarrow> (string list \<times> media_db) result" where
  "recover_stalled_variants_once ids now locked st =
     (let rows = stalled_rows now locked st;
          cancelled_rows = filter (\<lambda>(j, v). cancel_requested j) rows;
          live_rows = filter (\<lambda>(j, v). \<not> cancel_requested j) rows;
          variant_ids = map (\<lambda>(j, v). vr_id v) live_rows;
          closed = set_jobs (update_where (\<lambda>j. job_id j \<in> set (map (\<lambda>(j, v). job_id j) rows)) (close_stalled_job now)) st;
          st1 = closed\<lparr>variants :=
            update_where (\<lambda>v. vr_id v \<in> set variant_ids) (reset_row VPENDING)
              (update_where (\<lambda>v. vr_id v \<in> set (map (\<lambda>(j, v). vr_id v) cancelled_rows)) (reset_row VCANCELLED)
                (variants st))\<rparr>
      in if rows = [] then Inr ([], st)
         else result_bind (stage_jobs ids now (map (\<lambda>vid. (VARIANT_TRANSCODE, vid)) variant_ids) (job_tables st1))
           (\<lambda>jt. Inr (variant_ids, st1\<lparr>job_tables := jt\<rparr>)))"

section \<open>The monitor loop\<close>

definition captured :: "media_db \<Rightarrow> lib_asset \<Rightarrow> bool" where
  "captured st a \<longleftrightarrow> asset_type_of a = SAVED_STREAM \<and> asset_size a > 0 \<and> asset_deleted_at a = None
     \<and> asset_id a \<notin> set (map vr_asset (variants st))"

text \<open>One asset of the first phase; \<open>supply\<close> gives the identifiers of the rows created for it.\<close>

definition finish_capture ::
  "(string \<Rightarrow> string list \<times> (string \<times> string) list) \<Rightarrow> int \<Rightarrow> lib_asset \<Rightarrow> media_db \<Rightarrow> media_db result" where
  "finish_capture supply now a st =
     (case enqueue_transcoding_for_asset (fst (supply (asset_id a))) now a st of (vids, st') \<Rightarrow>
        enqueue_variants (snd (supply (asset_id a))) now vids st')"

fun finish_captures ::
  "(string \<Rightarrow> string list \<times> (string \<times> string) list) \<Rightarrow> int \<Rightarrow> lib_asset list \<Rightarrow> media_db \<Rightarrow> media_db result" where
  "finish_captures supply now [] st = Inr st"
| "finish_captures supply now (a # as) st =
     result_bind (finish_capture supply now a st) (finish_captures supply now as)"

definition monitor_tick ::
  "(string \<Rightarrow> string list \<times> (string \<times> string) list) \<Rightarrow> (string \<times> string) list \<Rightarrow> int \<Rightarrow> (string \<Rightarrow> bool) \<Rightarrow>
     media_db \<Rightarrow> media_db result" where
  "monitor_tick supply ids now locked st =
     result_bind (finish_captures supply now (filter (captured st) (lib_assets st)) st) (\<lambda>st1.
     result_bind (recover_stalled_variants_once ids now locked st1) (\<lambda>(vids, st2). Inr st2))"

section \<open>The reaper\<close>

text \<open>What the file system and the blob store do: whether a file can be unlinked and a blob
  deleted, failures being logged and ignored; and whether the rows loaded before a rollback can
  still be read after it, so that the pass goes on.\<close>

record storage_env =
  unlink_ok :: "string \<Rightarrow> bool"
  blob_ok :: "string \<Rightarrow> bool"
  rows_survive_rollback :: bool

definition variant_path :: "string \<Rightarrow> string" where
  "variant_path f = ''variants/'' @ f"

definition original_path :: "string \<Rightarrow> string" where
  "original_path f = ''originals/'' @ f"

definition remove_paths :: "storage_env \<Rightarrow> string list \<Rightarrow> media_db \<Rightarrow> media_db" where
  "remove_paths env paths st =
     st\<lparr>local_files := filter (\<lambda>f. \<not> (f \<in> set paths \<and> unlink_ok env f)) (local_files st),
        remote_blobs := filter (\<lambda>f. \<not> (f \<in> set paths \<and> blob_ok env f)) (remote_blobs st)\<rparr>"

definition variant_ids_of :: "string \<Rightarrow> media_db \<Rightarrow> string list" where
  "variant_ids_of aid st = map vr_id (filter (\<lambda>v. vr_asset v = aid) (variants st))"

definition asset_job :: "string \<Rightarrow> media_db \<Rightarrow> job \<Rightarrow> bool" where
  "asset_job aid st j \<longleftrightarrow> (job_type_of j = STREAM_CAPTURE \<and> target_id j = aid)
     \<or> (job_type_of j = VARIANT_TRANSCODE \<and> target_id j \<in> set (variant_ids_of aid st))"

definition asset_paths :: "lib_asset \<Rightarrow> media_db \<Rightarrow> string list" where
  "asset_paths a st = [filename a]
     @ (case original_filename a of None \<Rightarrow> [] | Some f \<Rightarrow> if f = '''' then [] else [original_path f])
     @ map (\<lambda>v. variant_path (vr_filename v)) (filter (\<lambda>v. vr_asset v = asset_id a) (variants st))"

definition clear_default :: "string \<Rightarrow> (string \<times> string option) list \<Rightarrow> (string \<times> string option) list" where
  "clear_default aid = update_where (\<lambda>(owner, d). d = Some aid) (\<lambda>(owner, d). (owner, None))"

definition delete_asset_rows :: "string \<Rightarrow> media_db \<Rightarrow> media_db" where
  "delete_asset_rows aid st =
     st\<lparr>job_tables := drop_jobs (asset_job aid st) (job_tables st),
        dev_assets := delete_where (\<lambda>(owner, a). a = aid) (dev_assets st),
        dev_defaults := clear_default aid (dev_defaults st),
        grp_defaults := clear_default aid (grp_defaults st),
        variants := delete_where (\<lambda>v. vr_asset v = aid) (variants st),
        grp_assets := delete_where (\<lambda>(owner, a). a = aid) (grp_assets st),
        lib_assets := delete_where (\<lambda>a. asset_id a = aid) (lib_assets st)\<rparr>"

text \<open>The loop over the soft-deleted assets. The files go first; when the deletion of the row is
  refused by a foreign key the transaction is rolled back and the files are already gone.\<close>

fun reap_assets :: "storage_env \<Rightarrow> lib_asset list \<Rightarrow> nat \<times> media_db \<Rightarrow> nat \<times> media_db" where
  "reap_assets env [] (reaped, st) = (reaped, st)"
| "reap_assets env (a # as) (reaped, st) =
     (if list_ex (\<lambda>j. active j \<and> asset_job (asset_id a) st j) (jobs (job_tables st))
      then reap_assets env as (reaped, st)
      else let st1 = remove_paths env (asset_paths a st) st
           in if asset_id a \<in> set (pinned st)
              then if rows_survive_rollback env then reap_assets env as (reaped, st1) else (reaped, st1)
              else reap_assets env as (reaped + 1, delete_asset_rows (asset_id a) st1))"

definition reap_deleted_assets_once :: "storage_env \<Rightarrow> media_db \<Rightarrow> nat \<times> media_db" where
  "reap_deleted_assets_once env st =
     reap_assets env (filter (\<lambda>a. asset_deleted_at a \<noteq> None) (lib_assets st)) (0, st)"

definition superseded :: "variant_row list \<Rightarrow> variant_row \<Rightarrow> bool" where
  "superseded vs v \<longleftrightarrow> live v \<and> vr_status v \<in> {VREADY, VFAILED, VCANCELLED}
     \<and> list_ex (\<lambda>w. vr_asset w = vr_asset v \<and> vr_profile w = vr_profile v \<and> vr_status w = VREADY
          \<and> live w \<and> vr_created w > vr_created v) vs"

definition supersede_ready_variants_once :: "int \<Rightarrow> media_db \<Rightarrow> nat \<times> media_db" where
  "supersede_ready_variants_once now st =
     (rowcount (superseded (variants st)) (variants st),
      st\<lparr>variants := update_where (superseded (variants st)) (\<lambda>v. v\<lparr>vr_deleted := Some now\<rparr>) (variants st)\<rparr>)"

definition variant_job :: "string \<Rightarrow> job \<Rightarrow> bool" where
  "variant_job vid j \<longleftrightarrow> job_type_of j = VARIANT_TRANSCODE \<and> target_id j = vid"

definition busy :: "media_db \<Rightarrow> string \<Rightarrow> bool" where
  "busy st vid \<longleftrightarrow> list_ex (\<lambda>j. active j \<and> variant_job vid j) (jobs (job_tables st))"

fun reap_variants :: "storage_env \<Rightarrow> variant_row list \<Rightarrow> nat \<times> media_db \<Rightarrow> nat \<times> media_db" where
  "reap_variants env [] (reaped, st) = (reaped, st)"
| "reap_variants env (v # vs) (reaped, st) =
     (if busy st (vr_id v) then reap_variants env vs (reaped, st)
      else let st1 = remove_paths env [variant_path (vr_filename v)] st
           in reap_variants env vs (reaped + 1,
                st1\<lparr>job_tables := drop_jobs (variant_job (vr_id v)) (job_tables st1),
                    variants := delete_where (\<lambda>w. vr_id w = vr_id v) (variants st1)\<rparr>))"

definition reap_superseded_variants_once :: "storage_env \<Rightarrow> media_db \<Rightarrow> nat \<times> media_db" where
  "reap_superseded_variants_once env st =
     reap_variants env (filter (\<lambda>v. vr_deleted v \<noteq> None) (variants st)) (0, st)"

subsection \<open>Notifications\<close>

definition TRANSCODE_FAIL_NOTIFICATION_TITLE :: string where
  "TRANSCODE_FAIL_NOTIFICATION_TITLE = ''Transcode failed''"

definition failed_rows :: "media_db \<Rightarrow> variant_row list" where
  "failed_rows st = filter (\<lambda>v. vr_status v = VFAILED \<and> live v) (variants st)"

definition bell_variant :: "bell_note \<Rightarrow> string option" where
  "bell_variant n = (if bn_title n = TRANSCODE_FAIL_NOTIFICATION_TITLE
     then map_of (bn_details n) ''variant_id'' else None)"

definition failure_note :: "media_db \<Rightarrow> string \<Rightarrow> variant_row \<Rightarrow> bell_note" where
  "failure_note st nid v =
     (let name = (case find_by asset_id (vr_asset v) (lib_assets st) of
            None \<Rightarrow> ''asset'' | Some a \<Rightarrow> if filename a = '''' then ''asset'' else filename a)
      in \<lparr>bn_id = nid, bn_scope = ''system'', bn_level = ''error'',
          bn_title = TRANSCODE_FAIL_NOTIFICATION_TITLE,
          bn_message = ''Transcoding failed for '' @ name @ ''.'',
          bn_details = [(''variant_id'', vr_id v), (''asset_id'', vr_asset v), (''filename'', name),
            (''error'', take 500 (vr_error v))]\<rparr>)"

definition reconcile_transcode_failure_notifications_once ::
  "string list \<Rightarrow> media_db \<Rightarrow> nat \<times> media_db" where
  "reconcile_transcode_failure_notifications_once ids st =
     (let failed_ids = map vr_id (failed_rows st);
          notified_ids = filter (\<lambda>vid. vid \<in> set failed_ids) (List.map_filter bell_variant (bell st));
          stale = (\<lambda>n. case bell_variant n of None \<Rightarrow> False | Some vid \<Rightarrow> vid \<notin> set failed_ids);
          to_create = filter (\<lambda>v. vr_id v \<notin> set notified_ids) (failed_rows st)
      in (length to_create, st\<lparr>bell := delete_where stale (bell st)
            @ map (\<lambda>(nid, v). failure_note st nid v) (zip ids to_create)\<rparr>))"

subsection \<open>Stranded variants\<close>

definition newest_job :: "string \<Rightarrow> job list \<Rightarrow> job option" where
  "newest_job vid js = (case sort_key (\<lambda>j. - job_created_at j) (rev (sort_key job_id (filter (variant_job vid) js))) of
     [] \<Rightarrow> None | j # _ \<Rightarrow> Some j)"

definition either_text :: "string \<Rightarrow> string \<Rightarrow> string" where
  "either_text s d = (if s = '''' then d else s)"

definition verdict :: "job option \<Rightarrow> (variant_status \<times> string) option" where
  "verdict newest = (case newest of None \<Rightarrow> None
     | Some j \<Rightarrow> if job_status_of j = JCANCELLED then Some (VCANCELLED, either_text (error_message j) ''cancelled'')
         else if job_status_of j = JFAILED \<and> retry_count j > MAX_JOB_RETRIES
           then Some (VFAILED, either_text (error_message j) ''job exceeded retry limit'')
         else None)"

definition stranded :: "media_db \<Rightarrow> variant_row \<Rightarrow> bool" where
  "stranded st v \<longleftrightarrow> live v \<and> vr_status v \<in> set NON_TERMINAL
     \<and> (case find_by asset_id (vr_asset v) (lib_assets st) of None \<Rightarrow> False | Some a \<Rightarrow> asset_deleted_at a = None)
     \<and> \<not> busy st (vr_id v)"

definition stranded_candidates :: "nat \<Rightarrow> media_db \<Rightarrow> variant_row list" where
  "stranded_candidates lim st = take lim (sort_key vr_created (filter (stranded st) (variants st)))"

definition repair_row :: "variant_status \<times> string \<Rightarrow> variant_row \<Rightarrow> variant_row" where
  "repair_row sm v = v\<lparr>vr_status := fst sm, vr_progress := 0, vr_error := take 2000 (snd sm)\<rparr>"

definition still_open :: "string \<Rightarrow> variant_row \<Rightarrow> bool" where
  "still_open vid v \<longleftrightarrow> vr_id v = vid \<and> vr_status v \<in> set NON_TERMINAL"

text \<open>The loop over the candidates writes to the table as it is then; workers may have written
  to it since the candidates were read.\<close>

fun reconcile_writes :: "job list \<Rightarrow> variant_row list \<Rightarrow> nat \<times> variant_row list \<Rightarrow> nat \<times> variant_row list" where
  "reconcile_writes js [] (n, rows) = (n, rows)"
| "reconcile_writes js (v # vs) (n, rows) =
     (case verdict (newest_job (vr_id v) js) of
        None \<Rightarrow> reconcile_writes js vs (n, rows)
      | Some sm \<Rightarrow> reconcile_writes js vs
          (if list_ex (still_open (vr_id v)) rows then n + 1 else n,
           update_where (still_open (vr_id v)) (repair_row sm) rows))"

definition reconcile_stranded_variants_once :: "nat \<Rightarrow> media_db \<Rightarrow> nat \<times> media_db" where
  "reconcile_stranded_variants_once lim st =
     (case reconcile_writes (jobs (job_tables st)) (stranded_candidates lim st) (0, variants st) of
        (n, rows) \<Rightarrow> (n, st\<lparr>variants := rows\<rparr>))"

text \<open>One tick of \<^verbatim>\<open>deleted_asset_reaper_loop\<close>.\<close>

definition asset_reaper_tick :: "storage_env \<Rightarrow> string list \<Rightarrow> int \<Rightarrow> media_db \<Rightarrow> media_db" where
  "asset_reaper_tick env ids now st =
     (let st1 = snd (reap_deleted_assets_once env st);
          st2 = snd (reconcile_stranded_variants_once 100 st1);
          st3 = snd (supersede_ready_variants_once now st2);
          st4 = snd (reap_superseded_variants_once env st3)
      in snd (reconcile_transcode_failure_notifications_once ids st4))"

section \<open>What devices are handed\<close>

definition as_variant :: "lib_asset \<Rightarrow> variant_row \<Rightarrow> asset_variant" where
  "as_variant a v = \<lparr>av_id = vr_id v, source_asset = asset.truncate a, profile_id = Some (vr_profile v),
     av_status = vr_status v, av_checksum = vr_checksum v, av_created_at = vr_created v,
     av_deleted_at = vr_deleted v\<rparr>"

text \<open>The READY variant per profile that the resolver and the readiness view choose.\<close>

definition playable :: "media_db \<Rightarrow> lib_asset \<Rightarrow> asset_variant list" where
  "playable st a = collapse_to_ready (map (as_variant a) (filter (\<lambda>v. vr_asset v = asset_id a) (variants st)))"

definition ready_rows :: "string \<Rightarrow> variant_row list \<Rightarrow> variant_row list" where
  "ready_rows aid vs = filter (\<lambda>v. vr_asset v = aid \<and> live v \<and> vr_status v = VREADY) vs"

lemma playable_ready_rows:
  "playable st a = map snd (fold keep_newer (map (as_variant a) (ready_rows (asset_id a) (variants st))) [])"
proof -
  have "filter (\<lambda>v. av_status v = VREADY) (filter (\<lambda>v. av_deleted_at v = None)
      (map (as_variant a) (filter (\<lambda>v. vr_asset v = asset_id a) (variants st))))
    = map (as_variant a) (ready_rows (asset_id a) (variants st))"
    by (auto simp: ready_rows_def filter_map comp_def as_variant_def live_def intro!: arg_cong [where f = "map _"] filter_cong)
  then show ?thesis by (simp only: playable_def collapse_to_ready_def)
qed

lemma playable_cong: "ready_rows (asset_id a) (variants st') = ready_rows (asset_id a) (variants st)
    \<Longrightarrow> playable st' a = playable st a"
  by (simp only: playable_ready_rows)

definition foremost :: "variant_row list \<Rightarrow> variant_row \<Rightarrow> bool" where
  "foremost rs v \<longleftrightarrow> v \<in> set rs \<and> (\<forall>w \<in> set rs. vr_profile w = vr_profile v \<longrightarrow>
     vr_created w < vr_created v \<or> vr_created w = vr_created v \<and> vr_id w \<le> vr_id v)"

lemma playable_set:
  assumes "keys_ok vr_id (variants st)"
  shows "set (playable st a) = as_variant a ` {v. foremost (ready_rows (asset_id a) (variants st)) v}"
proof -
  let ?rs = "ready_rows (asset_id a) (variants st)"
  have "distinct (map vr_id ?rs)" using assms by (simp add: keys_ok_def ready_rows_def distinct_map_filter)
  then have "distinct (map av_id (map (as_variant a) ?rs))" by (simp add: comp_def as_variant_def)
  then have "set (playable st a) = {v. newest_of (map (as_variant a) ?rs) v}"
    by (simp only: playable_ready_rows collapse_newest)
  also have "\<dots> = as_variant a ` {v. foremost ?rs v}"
    by (auto simp: newest_of_def foremost_def as_variant_def image_iff)
  finally show ?thesis .
qed

text \<open>Among finitely many rows of a profile there is a foremost one at least as new as any given.\<close>

lemma foremost_above:
  assumes "w \<in> set rs"
  obtains v where "foremost rs v" "vr_profile v = vr_profile w"
    "vr_created w < vr_created v \<or> vr_created w = vr_created v \<and> vr_id w \<le> vr_id v"
proof -
  let ?L = "map (as_variant undefined) (filter (\<lambda>v. vr_profile v = vr_profile w) rs)"
  have "as_variant undefined w \<in> set ?L" using assms by simp
  then have "?L \<noteq> []" by (metis list.set(1) empty_iff)
  then obtain c where c: "champion newer ?L None = Some c"
    using newest.champion_None [of ?L] by (cases "champion newer ?L None") auto
  from newest.champion_best [OF c] obtain v where v: "v \<in> set rs" "vr_profile v = vr_profile w"
    and top: "\<And>u. u \<in> set rs \<Longrightarrow> vr_profile u = vr_profile w \<Longrightarrow>
      vr_created u < vr_created v \<or> vr_created u = vr_created v \<and> vr_id u \<le> vr_id v"
    by (auto simp: not_newer_iff as_variant_def)
  have "foremost rs v" using v top by (simp add: foremost_def)
  then show ?thesis using v(2) top [OF assms refl] by (rule that)
qed

subsection \<open>Steps that leave the READY rows alone\<close>

definition variant_writes :: "(variant_row \<Rightarrow> variant_row) set" where
  "variant_writes = range reset_row \<union> range repair_row \<union> {\<lambda>v. v\<lparr>vr_deleted := Some now\<rparr> |now. True}"

lemma variant_writes_mem [simp]:
  "reset_row s \<in> variant_writes" "repair_row sm \<in> variant_writes" "(\<lambda>v. v\<lparr>vr_deleted := Some now\<rparr>) \<in> variant_writes"
  by (auto simp: variant_writes_def)

interpretation variant_table: keyed_table vr_id variant_writes
  by unfold_locales (auto simp: variant_writes_def reset_row_def repair_row_def)

lemma ready_rows_append [simp]: "ready_rows aid (vs @ ws) = ready_rows aid vs @ ready_rows aid ws"
  by (simp add: ready_rows_def)

lemma ready_rows_update:
  assumes "\<And>v. v \<in> set vs \<Longrightarrow> P v \<Longrightarrow> vr_status v \<noteq> VREADY \<and> vr_status (f v) \<noteq> VREADY"
  shows "ready_rows aid (update_where P f vs) = ready_rows aid vs"
  using assms by (induction vs) (auto simp: ready_rows_def update_where_def)

lemma ready_rows_delete:
  assumes "\<And>v. v \<in> set vs \<Longrightarrow> P v \<Longrightarrow> vr_asset v \<noteq> aid \<or> \<not> live v"
  shows "ready_rows aid (delete_where P vs) = ready_rows aid vs"
  using assms by (induction vs) (auto simp: ready_rows_def delete_where_def)

text \<open>The rows a creation adds.\<close>

definition new_rows :: "string list \<Rightarrow> int \<Rightarrow> (lib_asset \<times> device_profile) list \<Rightarrow> variant_row list" where
  "new_rows ids now pairs = map (\<lambda>(vid, ap). new_variant now vid ap) (zip ids pairs)"

lemma add_variants_eq:
  "add_variants ids now pairs st
     = (map fst (zip ids pairs), st\<lparr>variants := variants st @ new_rows ids now pairs\<rparr>)"
  by (auto simp: add_variants_def new_rows_def new_variant_def Let_def case_prod_beta comp_def)

lemma new_rows_pending: "v \<in> set (new_rows ids now pairs) \<Longrightarrow> vr_status v = VPENDING \<and> live v \<and> vr_id v \<in> set ids"
  by (auto simp: new_rows_def new_variant_def live_def dest: set_zip_leftD)

lemma ready_new_rows [simp]: "ready_rows aid (new_rows ids now pairs) = []"
  unfolding ready_rows_def filter_empty_conv
  by (auto dest: new_rows_pending)

lemma keys_new_rows:
  assumes "keys_ok vr_id vs" "distinct ids" "set ids \<inter> vr_id ` set vs = {}"
  shows "keys_ok vr_id (vs @ new_rows ids now pairs)"
proof -
  have "map vr_id (new_rows ids now pairs) = map fst (zip ids pairs)"
    by (simp add: new_rows_def new_variant_def case_prod_beta comp_def)
  moreover have "distinct (map fst (zip ids pairs))" using assms(2) by (simp add: map_fst_zip_take)
  moreover have "set (map fst (zip ids pairs)) \<subseteq> set ids" by (auto dest: set_zip_leftD)
  ultimately show ?thesis
    using assms(1,3) unfolding keys_ok_def map_append distinct_append by (metis Int_commute inf.absorb_iff1 inf_assoc inf_bot_right list.set_map)
qed

text \<open>The row a batch of point updates by identifier touches.\<close>

lemma same_row: "keys_ok vr_id vs \<Longrightarrow> v \<in> set vs \<Longrightarrow> w \<in> set vs \<Longrightarrow> vr_id v = vr_id w \<Longrightarrow> v = w"
  by (auto simp: keys_ok_def distinct_map dest: inj_onD)

lemma stalled_rows_stalled: "p \<in> set (stalled_rows now locked st) \<Longrightarrow> stalled now locked p
    \<and> fst p \<in> set (jobs (job_tables st)) \<and> snd p \<in> set (variants st)"
  unfolding stalled_rows_def by (auto dest!: in_set_takeD)

lemma remove_paths_tables [simp]:
  "variants (remove_paths env ps st) = variants st" "job_tables (remove_paths env ps st) = job_tables st"
  "lib_assets (remove_paths env ps st) = lib_assets st" "pinned (remove_paths env ps st) = pinned st"
  by (simp_all add: remove_paths_def)

text \<open>What a run of the asset sweep leaves alone: rows of assets that are not in its list.\<close>

definition spares :: "string set \<Rightarrow> media_db \<Rightarrow> media_db \<Rightarrow> bool" where
  "spares aids st st' \<longleftrightarrow> (keys_ok vr_id (variants st) \<longrightarrow> keys_ok vr_id (variants st'))
     \<and> (keys_ok asset_id (lib_assets st) \<longrightarrow> keys_ok asset_id (lib_assets st'))
     \<and> (\<forall>aid. aid \<notin> aids \<longrightarrow> ready_rows aid (variants st') = ready_rows aid (variants st))
     \<and> (\<forall>a \<in> set (lib_assets st). asset_id a \<notin> aids \<longrightarrow> a \<in> set (lib_assets st'))"

lemma spares_trans: "spares A st st1 \<Longrightarrow> spares B st1 st2 \<Longrightarrow> spares (A \<union> B) st st2"
  unfolding spares_def by auto

lemma spares_mono: "spares A st st' \<Longrightarrow> A \<subseteq> B \<Longrightarrow> spares B st st'"
  unfolding spares_def by auto

lemma spares_refl: "variants st' = variants st \<Longrightarrow> lib_assets st' = lib_assets st \<Longrightarrow> spares A st st'"
  unfolding spares_def by auto

lemma spares_delete: "spares {aid} st (delete_asset_rows aid st)"
  unfolding spares_def delete_asset_rows_def
  using variant_table.keys_ok_delete ready_rows_delete [of "variants st" "\<lambda>v. vr_asset v = aid"]
  by (auto simp: set_delete_where keys_ok_def delete_where_def distinct_map_filter)

lemma reap_assets_spares: "spares (asset_id ` set as) st (snd (reap_assets env as (n, st)))"
proof (induction as arbitrary: n st)
  case (Cons b bs)
  let ?st1 = "remove_paths env (asset_paths b st) st"
  have one: "spares {} st ?st1" by (rule spares_refl) simp_all
  have "spares (asset_id ` set (b # bs)) st (snd (reap_assets env bs (m, st2)))"
    if "spares {asset_id b} st st2" for m st2
    using spares_trans [OF that Cons.IH [of st2 m]] by simp
  moreover have "spares {asset_id b} st st" "spares {asset_id b} st ?st1"
    by (simp_all add: spares_refl)
  moreover have "spares {asset_id b} st (delete_asset_rows (asset_id b) ?st1)"
    using spares_trans [OF one spares_delete] by simp
  moreover have "spares (asset_id ` set (b # bs)) st ?st1" by (simp add: spares_refl)
  ultimately show ?case by (simp add: Let_def)
qed (simp add: spares_refl)

lemma live_asset_spared:
  assumes "keys_ok asset_id (lib_assets st)" "a \<in> set (lib_assets st)" "asset_deleted_at a = None"
  shows "asset_id a \<notin> asset_id ` set (filter (\<lambda>a. asset_deleted_at a \<noteq> None) (lib_assets st))"
proof
  assume "asset_id a \<in> asset_id ` set (filter (\<lambda>a. asset_deleted_at a \<noteq> None) (lib_assets st))"
  then obtain b where b: "b \<in> set (lib_assets st)" "asset_deleted_at b \<noteq> None" "asset_id a = asset_id b" by auto
  have "inj_on asset_id (set (lib_assets st))" using assms(1) by (simp add: keys_ok_def distinct_map)
  from inj_onD [OF this b(3) assms(2) b(1)] show False using assms(3) b(2) by simp
qed

lemma reap_variants_spares:
  assumes "\<forall>v \<in> set vs. \<forall>w \<in> set (variants st). vr_id w = vr_id v \<longrightarrow> \<not> live w"
  shows "spares {} st (snd (reap_variants env vs (n, st)))"
  using assms
proof (induction vs arbitrary: n st)
  case (Cons v vs)
  let ?st1 = "remove_paths env [variant_path (vr_filename v)] st"
  let ?st2 = "?st1\<lparr>job_tables := drop_jobs (variant_job (vr_id v)) (job_tables ?st1),
      variants := delete_where (\<lambda>w. vr_id w = vr_id v) (variants ?st1)\<rparr>"
  have "ready_rows aid (delete_where (\<lambda>w. vr_id w = vr_id v) (variants st)) = ready_rows aid (variants st)" for aid
    by (rule ready_rows_delete) (use Cons.prems in simp)
  then have one: "spares {} st ?st2"
    using variant_table.keys_ok_delete by (simp add: spares_def)
  have "spares {} ?st2 (snd (reap_variants env vs (n + 1, ?st2)))"
    using Cons.prems by (intro Cons.IH) (auto simp: set_delete_where)
  from spares_trans [OF one this] Cons show ?case by (simp add: Let_def)
qed (simp add: spares_refl)

lemma reconcile_writes_rows:
  "spares {} st (st\<lparr>variants := snd (reconcile_writes js vs (n, variants st))\<rparr>)"
proof (induction vs arbitrary: n st)
  case (Cons v vs)
  show ?case
  proof (cases "verdict (newest_job (vr_id v) js)")
    case None
    then show ?thesis using Cons by simp
  next
    case (Some sm)
    let ?st1 = "st\<lparr>variants := update_where (still_open (vr_id v)) (repair_row sm) (variants st)\<rparr>"
    have "fst sm \<noteq> VREADY" using Some by (auto simp: verdict_def split: option.splits if_splits)
    then have "ready_rows aid (variants ?st1) = ready_rows aid (variants st)" for aid
      by (simp, intro ready_rows_update) (auto simp: still_open_def repair_row_def NON_TERMINAL_def)
    then have "spares {} st ?st1"
      using variant_table.keys_ok_update by (simp add: spares_def)
    from spares_trans [OF this Cons.IH [of ?st1]] Some show ?thesis by simp
  qed
qed (simp add: spares_refl)

subsection \<open>Supersession\<close>

lemma ready_rows_supersede:
  "ready_rows aid (variants (snd (supersede_ready_variants_once now st)))
     = filter (\<lambda>v. \<not> superseded (variants st) v) (ready_rows aid (variants st))"
proof -
  have "ready_rows aid (update_where P (\<lambda>v. v\<lparr>vr_deleted := Some now\<rparr>) vs)
      = filter (\<lambda>v. \<not> P v) (ready_rows aid vs)" for P vs
    by (induction vs) (auto simp: ready_rows_def update_where_def live_def)
  then show ?thesis by (simp add: supersede_ready_variants_once_def)
qed

lemma superseded_ready:
  assumes "v \<in> set (ready_rows aid vs)"
  shows "superseded vs v \<longleftrightarrow> (\<exists>w \<in> set (ready_rows aid vs). vr_profile w = vr_profile v \<and> vr_created w > vr_created v)"
  using assms by (auto simp: superseded_def ready_rows_def list_ex_iff)

lemma foremost_supersede:
  "foremost (filter (\<lambda>v. \<not> superseded vs v) (ready_rows aid vs)) v \<longleftrightarrow> foremost (ready_rows aid vs) v"
  (is "foremost ?R' v \<longleftrightarrow> foremost ?R v")
proof
  have kept: "\<not> superseded vs u" if "foremost ?R u" for u
  proof -
    have u: "u \<in> set ?R" using that by (simp add: foremost_def)
    show ?thesis unfolding superseded_ready [OF u] using that by (force simp: foremost_def)
  qed
  show "foremost ?R' v" if "foremost ?R v"
    using that kept [OF that] by (auto simp: foremost_def)
  assume v: "foremost ?R' v"
  have "vr_created w < vr_created v \<or> vr_created w = vr_created v \<and> vr_id w \<le> vr_id v"
    if w: "w \<in> set ?R" "vr_profile w = vr_profile v" for w
  proof -
    obtain u where u: "foremost ?R u" "vr_profile u = vr_profile w"
      "vr_created w < vr_created u \<or> vr_created w = vr_created u \<and> vr_id w \<le> vr_id u"
      using foremost_above [OF w(1)] by blast
    have "u \<in> set ?R'" using u(1) kept [OF u(1)] by (simp add: foremost_def)
    then have "vr_created u < vr_created v \<or> vr_created u = vr_created v \<and> vr_id u \<le> vr_id v"
      using v u(2) w(2) by (auto simp: foremost_def)
    then show ?thesis using u(3) by auto
  qed
  then show "foremost ?R v" using v by (auto simp: foremost_def)
qed

lemma keys_supersede:
  "keys_ok vr_id (variants st) \<Longrightarrow> keys_ok vr_id (variants (snd (supersede_ready_variants_once now st)))"
  unfolding supersede_ready_variants_once_def
  using variant_table.keys_ok_update [OF variant_writes_mem(3)] by simp

lemma playable_supersede:
  assumes "keys_ok vr_id (variants st)"
  shows "set (playable (snd (supersede_ready_variants_once now st)) a) = set (playable st a)"
  by (simp only: playable_set [OF assms] playable_set [OF keys_supersede [OF assms]]
      ready_rows_supersede foremost_supersede)

text \<open>The sweeps of a tick, in order.\<close>

definition tick1 where "tick1 env st = snd (reap_deleted_assets_once env st)"
definition tick2 where "tick2 env st = snd (reconcile_stranded_variants_once 100 (tick1 env st))"
definition tick3 where "tick3 env now st = snd (supersede_ready_variants_once now (tick2 env st))"
definition tick4 where "tick4 env now st = snd (reap_superseded_variants_once env (tick3 env now st))"

lemma reaper_tick_sweeps:
  "asset_reaper_tick env ids now st = snd (reconcile_transcode_failure_notifications_once ids (tick4 env now st))"
  by (simp add: asset_reaper_tick_def tick1_def tick2_def tick3_def tick4_def Let_def)

definition dead_assets :: "media_db \<Rightarrow> string set" where
  "dead_assets st = asset_id ` set (filter (\<lambda>a. asset_deleted_at a \<noteq> None) (lib_assets st))"

lemma tick2_spares: "spares (dead_assets st) st (tick2 env st)"
proof -
  have "spares (dead_assets st) st (tick1 env st)"
    unfolding tick1_def reap_deleted_assets_once_def dead_assets_def by (rule reap_assets_spares)
  moreover have "spares {} (tick1 env st) (tick2 env st)"
    using reconcile_writes_rows [of "tick1 env st" "jobs (job_tables (tick1 env st))"
        "stranded_candidates 100 (tick1 env st)" 0]
    by (simp add: tick2_def reconcile_stranded_variants_once_def case_prod_beta)
  ultimately show ?thesis using spares_trans by fastforce
qed

lemma tick4_spares:
  assumes "keys_ok vr_id (variants (tick3 env now st))"
  shows "spares {} (tick3 env now st) (tick4 env now st)"
  unfolding tick4_def reap_superseded_variants_once_def
  by (rule reap_variants_spares) (use same_row [OF assms] in \<open>auto simp: live_def\<close>)

lemma tick_tables: "variants (asset_reaper_tick env ids now st) = variants (tick4 env now st)"
  "lib_assets (asset_reaper_tick env ids now st) = lib_assets (tick4 env now st)"
  by (simp_all add: reaper_tick_sweeps reconcile_transcode_failure_notifications_once_def Let_def)

lemma keys_tick:
  assumes "keys_ok vr_id (variants st)"
  shows "keys_ok vr_id (variants (tick2 env st))" "keys_ok vr_id (variants (tick3 env now st))"
    "keys_ok vr_id (variants (asset_reaper_tick env ids now st))"
proof -
  show two: "keys_ok vr_id (variants (tick2 env st))"
    using tick2_spares assms by (simp add: spares_def)
  show three: "keys_ok vr_id (variants (tick3 env now st))"
    unfolding tick3_def using keys_supersede [OF two] .
  show "keys_ok vr_id (variants (asset_reaper_tick env ids now st))"
    using tick4_spares [OF three] three by (simp add: spares_def tick_tables)
qed

lemma ready_rows_tick:
  assumes "keys_ok vr_id (variants st)" "aid \<notin> dead_assets st"
  shows "ready_rows aid (variants (asset_reaper_tick env ids now st))
    = filter (\<lambda>v. \<not> superseded (variants (tick2 env st)) v) (ready_rows aid (variants st))"
proof -
  have "ready_rows aid (variants (asset_reaper_tick env ids now st)) = ready_rows aid (variants (tick3 env now st))"
    using tick4_spares [OF keys_tick(2) [OF assms(1)]] by (simp add: spares_def tick_tables)
  also have "\<dots> = filter (\<lambda>v. \<not> superseded (variants (tick2 env st)) v) (ready_rows aid (variants (tick2 env st)))"
    unfolding tick3_def by (rule ready_rows_supersede)
  finally show ?thesis using tick2_spares [of st env] assms(2) by (simp add: spares_def)
qed

lemma foremost_tick:
  assumes "keys_ok vr_id (variants st)" "keys_ok asset_id (lib_assets st)"
    and "a \<in> set (lib_assets st)" "asset_deleted_at a = None"
  shows "set (playable (asset_reaper_tick env ids now st) a) = set (playable st a)"
proof -
  let ?vs = "variants (tick2 env st)"
  have spared: "asset_id a \<notin> dead_assets st"
    unfolding dead_assets_def using live_asset_spared [OF assms(2-4)] .
  then have R: "ready_rows (asset_id a) ?vs = ready_rows (asset_id a) (variants st)"
    using tick2_spares [of st env] by (simp add: spares_def)
  have "foremost (filter (\<lambda>v. \<not> superseded ?vs v) (ready_rows (asset_id a) (variants st)))
      = foremost (ready_rows (asset_id a) (variants st))"
    using foremost_supersede [of ?vs "asset_id a"] unfolding R by (intro ext)
  then show ?thesis
    unfolding playable_set [OF assms(1)] playable_set [OF keys_tick(3) [OF assms(1)]]
      ready_rows_tick [OF assms(1) spared] by simp
qed

section \<open>Properties of the swap\<close>

text \<open>
  A tick of the reaper never changes what devices are handed: for every live asset the READY
  variant chosen per profile is the same before and after the five sweeps, whatever files could
  not be removed and whichever deletions were refused. After it, no two READY variants of one
  asset and profile remain whose age differs: the swap to the newest one has been completed.
\<close>

theorem reaper_keeps_playing:
  assumes "keys_ok vr_id (variants st)" "keys_ok asset_id (lib_assets st)"
    and "a \<in> set (lib_assets st)" "asset_deleted_at a = None"
  shows "set (playable (asset_reaper_tick env ids now st) a) = set (playable st a)
    \<and> (\<forall>v \<in> set (variants (asset_reaper_tick env ids now st)). \<forall>w \<in> set (variants (asset_reaper_tick env ids now st)).
         vr_asset v = asset_id a \<and> live v \<and> vr_status v = VREADY
         \<and> vr_asset w = asset_id a \<and> live w \<and> vr_status w = VREADY \<and> vr_profile v = vr_profile w
         \<longrightarrow> vr_created v = vr_created w)"
proof -
  let ?vs = "variants (tick2 env st)"
  let ?R = "ready_rows (asset_id a) (variants st)"
  have spared: "asset_id a \<notin> dead_assets st"
    unfolding dead_assets_def using live_asset_spared [OF assms(2-4)] .
  then have R: "ready_rows (asset_id a) ?vs = ?R" using tick2_spares [of st env] by (simp add: spares_def)
  have R': "ready_rows (asset_id a) (variants (asset_reaper_tick env ids now st)) = filter (\<lambda>v. \<not> superseded ?vs v) ?R"
    by (rule ready_rows_tick [OF assms(1) spared])
  have "set (playable (asset_reaper_tick env ids now st) a) = set (playable st a)" by (rule foremost_tick [OF assms])
  moreover have "vr_created v = vr_created w"
    if "v \<in> set (filter (\<lambda>v. \<not> superseded ?vs v) ?R)" "w \<in> set (filter (\<lambda>v. \<not> superseded ?vs v) ?R)"
      "vr_profile v = vr_profile w" for v w
  proof -
    have "v \<in> set (ready_rows (asset_id a) ?vs)" "w \<in> set (ready_rows (asset_id a) ?vs)"
      using that by (simp_all add: R)
    from superseded_ready [OF this(1)] superseded_ready [OF this(2)] that R show ?thesis by force
  qed
  ultimately show ?thesis
    unfolding R' [symmetric] by (simp add: ready_rows_def)
qed

definition media_row :: "string \<Rightarrow> variant_status \<Rightarrow> int \<Rightarrow> variant_row" where
  "media_row vid s t = \<lparr>vr_id = vid, vr_asset = ''a'', vr_profile = ''p'', vr_filename = vid @ ''.mp4'', vr_size = 1,
     vr_checksum = vid, vr_status = s, vr_progress = 0, vr_error = '''', vr_created = t, vr_completed = None,
     vr_deleted = None\<rparr>"

definition sample_lib_asset :: lib_asset where
  "sample_lib_asset = \<lparr>asset_id = ''a'', filename = ''clip.mp4'', original_filename = None, display_name = None,
     asset_type_of = VIDEO, asset_checksum = '''', asset_url = None, asset_deleted_at = None, duration_us = None,
     asset_size = 9\<rparr>"

definition sample_media :: "variant_row list \<Rightarrow> job list \<Rightarrow> media_db" where
  "sample_media vs js = \<lparr>lib_assets = [sample_lib_asset], profiles = [\<lparr>prof_id = ''p'', prof_name = ''pi'',
       purpose = ''device'', prof_enabled = True, builtin = False, settings = []\<rparr>],
     variants = vs, job_tables = empty_jobs\<lparr>jobs := js\<rparr>, bell = [], local_files = [], remote_blobs = [],
     dev_assets = [], grp_assets = [], dev_defaults = [], grp_defaults = [], pinned = []\<rparr>"

definition media_env :: storage_env where
  "media_env = \<lparr>unlink_ok = (\<lambda>_. True), blob_ok = (\<lambda>_. True), rows_survive_rollback = False\<rparr>"

theorem reaper_keeps_playing_witness:
  "set (playable (asset_reaper_tick media_env [] 9 (sample_media [media_row ''v1'' VREADY 1, media_row ''v2'' VREADY 2] []))
     sample_lib_asset)
   = set (playable (sample_media [media_row ''v1'' VREADY 1, media_row ''v2'' VREADY 2] []) sample_lib_asset)
   \<and> map vr_id (variants (asset_reaper_tick media_env [] 9
        (sample_media [media_row ''v1'' VREADY 1, media_row ''v2'' VREADY 2] []))) = [''v2'']"
proof -
  let ?st = "sample_media [media_row ''v1'' VREADY 1, media_row ''v2'' VREADY 2] []"
  have "keys_ok vr_id (variants ?st)" "keys_ok asset_id (lib_assets ?st)" by code_simp+
  moreover have "sample_lib_asset \<in> set (lib_assets ?st)" "asset_deleted_at sample_lib_asset = None"
    by (simp_all add: sample_media_def sample_lib_asset_def)
  moreover have "map vr_id (variants (asset_reaper_tick media_env [] 9 ?st)) = [''v2'']" by code_simp
  ultimately show ?thesis using reaper_keeps_playing [of ?st sample_lib_asset media_env "[]" 9] by blast
qed

section \<open>Properties of the repairs\<close>

lemma reconcile_writes_fold:
  "snd (reconcile_writes js vs (n, rows)) =
     fold (\<lambda>r. update_where (\<lambda>x. vr_id x = vr_id r \<and> verdict (newest_job (vr_id r) js) \<noteq> None
         \<and> vr_status x \<in> set NON_TERMINAL)
       (repair_row (the (verdict (newest_job (vr_id r) js))))) vs rows"
proof (induction vs arbitrary: n rows)
  case (Cons v vs)
  show ?case
  proof (cases "verdict (newest_job (vr_id v) js)")
    case None
    then show ?thesis using Cons by (simp add: update_where_idle)
  next
    case (Some sm)
    have "still_open (vr_id v) = (\<lambda>x. vr_id x = vr_id v \<and> vr_status x \<in> set NON_TERMINAL)"
      by (intro ext) (simp add: still_open_def)
    then show ?thesis using Cons Some by simp
  qed
qed simp

lemma newest_job_max:
  assumes "newest_job vid js = Some j"
  shows "j \<in> set js \<and> variant_job vid j \<and> (\<forall>k \<in> set js. variant_job vid k \<longrightarrow>
     job_created_at k < job_created_at j \<or> job_created_at k = job_created_at j \<and> job_id k \<le> job_id j)"
proof -
  let ?L = "filter (variant_job vid) js"
  let ?S = "sort_key (\<lambda>j. - job_created_at j) (rev (sort_key job_id ?L))"
  obtain rest where S: "?S = j # rest" using assms by (cases ?S) (auto simp: newest_job_def)
  have mem: "set ?S = set ?L" by simp
  have srt: "sorted (map (\<lambda>j. - job_created_at j) ?S)" by (rule sorted_sort_key)
  have "job_created_at k \<le> job_created_at j" if "k \<in> set ?L" for k
  proof -
    have "k = j \<or> k \<in> set rest" using that mem S by (metis set_ConsD)
    then show ?thesis using srt S by auto
  qed
  moreover have "job_id k \<le> job_id j" if k: "k \<in> set ?L" "job_created_at k = job_created_at j" for k
  proof -
    let ?same = "\<lambda>x. - job_created_at x = - job_created_at j"
    have stable: "filter ?same ?S = filter ?same (rev (sort_key job_id ?L))"
      by (rule sort_key_stable)
    then have head: "filter ?same (rev (sort_key job_id ?L)) = j # filter ?same rest" unfolding S by simp
    then have rv: "filter ?same (sort_key job_id ?L) = rev (filter ?same rest) @ [j]"
      by (metis rev_filter rev_rev_ident rev.simps(2))
    have "sorted (map job_id (filter ?same (sort_key job_id ?L)))"
      by (rule sorted_filter [OF sorted_sort_key])
    then have "\<forall>x \<in> set (rev (filter ?same rest)). job_id x \<le> job_id j"
      unfolding rv by (simp add: sorted_append)
    moreover have "k \<in> set (filter ?same (sort_key job_id ?L))" using k by simp
    then have "k = j \<or> k \<in> set (rev (filter ?same rest))" unfolding rv by auto
    ultimately show ?thesis by auto
  qed
  moreover have "j \<in> set ?L" using S mem by (metis list.set_intros(1))
  ultimately show ?thesis by (auto simp: order_le_less)
qed

lemma newest_job_None: "newest_job vid js = None \<longleftrightarrow> (\<forall>j \<in> set js. \<not> variant_job vid j)"
proof -
  let ?S = "sort_key (\<lambda>j. - job_created_at j) (rev (sort_key job_id (filter (variant_job vid) js)))"
  have "newest_job vid js = None \<longleftrightarrow> ?S = []" by (auto simp: newest_job_def split: list.splits)
  also have "\<dots> \<longleftrightarrow> set ?S = {}" by (simp only: set_empty)
  also have "\<dots> \<longleftrightarrow> (\<forall>j \<in> set js. \<not> variant_job vid j)" by auto
  finally show ?thesis .
qed

text \<open>
  The repair of stranded variants is exact: a row changes only when it is among the oldest
  candidates (live, of a live asset, PENDING or PROCESSING, with no active job) and its newest
  transcode job was cancelled or has used up its attempts, and it then takes CANCELLED or FAILED
  with that job's error. No row becomes READY, and none that has an active job changes.
\<close>

theorem stranded_repair_exact:
  assumes "keys_ok vr_id (variants st)"
  shows "variants (snd (reconcile_stranded_variants_once lim st)) =
      map (\<lambda>v. if v \<in> set (stranded_candidates lim st)
               then case verdict (newest_job (vr_id v) (jobs (job_tables st))) of None \<Rightarrow> v | Some sm \<Rightarrow> repair_row sm v
               else v) (variants st)
    \<and> (\<forall>v \<in> set (variants (snd (reconcile_stranded_variants_once lim st))). v \<notin> set (variants st) \<longrightarrow>
         vr_status v \<in> {VCANCELLED, VFAILED} \<and> \<not> busy st (vr_id v))"
proof -
  let ?js = "jobs (job_tables st)"
  let ?C = "stranded_candidates lim st"
  have sub: "set ?C \<subseteq> set (filter (stranded st) (variants st))"
    unfolding stranded_candidates_def using set_take_subset by fastforce
  have "distinct (map vr_id (sort_key vr_created (filter (stranded st) (variants st))))"
    using assms by (simp add: keys_ok_def distinct_map inj_on_def)
  then have dist: "distinct (map vr_id ?C)"
    unfolding stranded_candidates_def take_map [symmetric] by (rule distinct_take)
  have open_row: "vr_status v \<in> set NON_TERMINAL" "\<not> busy st (vr_id v)" if "v \<in> set ?C" for v
    using sub that by (auto simp: stranded_def)
  have "variants (snd (reconcile_stranded_variants_once lim st)) = snd (reconcile_writes ?js ?C (0, variants st))"
    by (simp add: reconcile_stranded_variants_once_def case_prod_beta)
  also have "\<dots> = map (\<lambda>x. if x \<in> set ?C \<and> verdict (newest_job (vr_id x) ?js) \<noteq> None \<and> vr_status x \<in> set NON_TERMINAL
      then repair_row (the (verdict (newest_job (vr_id x) ?js))) x else x) (variants st)"
    unfolding reconcile_writes_fold
    using variant_table.fold_point_updates [OF assms dist, of "\<lambda>r. repair_row (the (verdict (newest_job (vr_id r) ?js)))"
        "\<lambda>r x. verdict (newest_job (vr_id r) ?js) \<noteq> None \<and> vr_status x \<in> set NON_TERMINAL"] sub by auto
  also have "\<dots> = map (\<lambda>v. if v \<in> set ?C then case verdict (newest_job (vr_id v) ?js) of
      None \<Rightarrow> v | Some sm \<Rightarrow> repair_row sm v else v) (variants st)"
    by (rule map_cong [OF refl]) (auto simp: open_row split: option.splits)
  finally have rows: "variants (snd (reconcile_stranded_variants_once lim st)) = \<dots>" .
  have "vr_status v \<in> {VCANCELLED, VFAILED} \<and> \<not> busy st (vr_id v)"
    if v: "v \<in> set (variants (snd (reconcile_stranded_variants_once lim st)))" "v \<notin> set (variants st)" for v
  proof -
    obtain u sm where u: "u \<in> set ?C" "verdict (newest_job (vr_id u) ?js) = Some sm" "v = repair_row sm u"
      using v unfolding rows by (auto split: if_splits option.splits)
    have "fst sm \<in> {VCANCELLED, VFAILED}" using u(2) by (auto simp: verdict_def split: option.splits if_splits)
    then show ?thesis using open_row(2) [OF u(1)] u(3) by (simp add: repair_row_def)
  qed
  then show ?thesis using rows by blast
qed

theorem stranded_repair_exact_witness:
  "map vr_status (variants (snd (reconcile_stranded_variants_once 100
      (sample_media [media_row ''v1'' VPENDING 1, media_row ''v2'' VPROCESSING 2, media_row ''v3'' VPENDING 3]
        [(new_job ''j1'' VARIANT_TRANSCODE ''v1'' 5)\<lparr>job_status_of := JCANCELLED\<rparr>,
         (new_job ''j2'' VARIANT_TRANSCODE ''v2'' 5)\<lparr>job_status_of := JDONE\<rparr>,
         (new_job ''j3'' VARIANT_TRANSCODE ''v3'' 5)\<lparr>job_status_of := JFAILED, retry_count := 4\<rparr>,
         new_job ''j4'' VARIANT_TRANSCODE ''v3'' 4]))))
   = [VCANCELLED, VPROCESSING, VPENDING]"
proof -
  let ?st = "sample_media [media_row ''v1'' VPENDING 1, media_row ''v2'' VPROCESSING 2, media_row ''v3'' VPENDING 3]
        [(new_job ''j1'' VARIANT_TRANSCODE ''v1'' 5)\<lparr>job_status_of := JCANCELLED\<rparr>,
         (new_job ''j2'' VARIANT_TRANSCODE ''v2'' 5)\<lparr>job_status_of := JDONE\<rparr>,
         (new_job ''j3'' VARIANT_TRANSCODE ''v3'' 5)\<lparr>job_status_of := JFAILED, retry_count := 4\<rparr>,
         new_job ''j4'' VARIANT_TRANSCODE ''v3'' 4]"
  have "keys_ok vr_id (variants ?st)" by code_simp
  from conjunct1 [OF stranded_repair_exact [OF this, of 100]] show ?thesis by (simp only:) code_simp
qed

text \<open>The variants the bell has a failure notice for.\<close>

definition bell_ids :: "media_db \<Rightarrow> string list" where
  "bell_ids st = List.map_filter bell_variant (bell st)"

lemma bell_variant_failure_note [simp]: "bell_variant (failure_note st nid v) = Some (vr_id v)"
  by (simp add: bell_variant_def failure_note_def Let_def)

lemma map_filter_delete:
  "List.map_filter f (delete_where (\<lambda>n. case f n of None \<Rightarrow> False | Some x \<Rightarrow> \<not> Q x) ns)
     = filter Q (List.map_filter f ns)"
  by (induction ns) (auto simp: List.map_filter_simps delete_where_def split: option.splits)

text \<open>
  The bell mirrors the failures: starting from at most one notice per variant, after the sweep
  there is exactly one for every live FAILED variant and none for any other, the notices that were
  right are kept, and notices of other kinds are untouched.
\<close>

theorem bell_mirrors_failures:
  assumes "keys_ok vr_id (variants st)" "distinct (bell_ids st)" "length (variants st) \<le> length ids"
  defines "st' \<equiv> snd (reconcile_transcode_failure_notifications_once ids st)"
  shows "distinct (bell_ids st')
    \<and> set (bell_ids st') = {vr_id v |v. v \<in> set (variants st) \<and> vr_status v = VFAILED \<and> live v}
    \<and> (\<forall>n \<in> set (bell st). (case bell_variant n of None \<Rightarrow> True | Some vid \<Rightarrow> vid \<in> vr_id ` set (failed_rows st))
          \<longrightarrow> n \<in> set (bell st'))"
proof -
  let ?F = "map vr_id (failed_rows st)"
  let ?notified = "filter (\<lambda>vid. vid \<in> set ?F) (bell_ids st)"
  let ?new = "filter (\<lambda>v. vr_id v \<notin> set ?notified) (failed_rows st)"
  let ?stale = "\<lambda>n. case bell_variant n of None \<Rightarrow> False | Some vid \<Rightarrow> vid \<notin> set ?F"
  have bell': "bell st' = delete_where ?stale (bell st) @ map (\<lambda>(nid, v). failure_note st nid v) (zip ids ?new)"
    by (simp add: st'_def reconcile_transcode_failure_notifications_once_def Let_def bell_ids_def)
  have len: "length ?new \<le> length ids"
    using assms(3) length_filter_le [of _ "failed_rows st"] length_filter_le [of _ "variants st"]
    unfolding failed_rows_def by (meson order_trans)
  have "List.map_filter bell_variant (map (\<lambda>(nid, v). failure_note st nid v) (zip ids ?new)) = map vr_id ?new"
    using map_snd_zip_take [of ids ?new] len
    by (simp add: List.map_filter_def filter_map comp_def case_prod_beta)
      (metis (no_types, lifting) map_map comp_apply map_eq_conv)
  then have ids': "bell_ids st' = ?notified @ map vr_id ?new"
    using map_filter_delete [of bell_variant "\<lambda>vid. vid \<in> set ?F" "bell st"]
    by (simp add: bell_ids_def bell' List.map_filter_def)
  have dF: "distinct ?F" using assms(1) by (simp add: keys_ok_def failed_rows_def distinct_map_filter)
  then have "distinct (map vr_id ?new)" by (rule distinct_map_filter)
  then have "distinct (bell_ids st')" using assms(2) unfolding ids' by auto
  moreover have "set (bell_ids st') = set ?F" unfolding ids' by auto
  moreover have "set ?F = {vr_id v |v. v \<in> set (variants st) \<and> vr_status v = VFAILED \<and> live v}"
    by (auto simp: failed_rows_def)
  moreover have "n \<in> set (bell st')" if "n \<in> set (bell st)" "\<not> ?stale n" for n
    using that unfolding bell' by (simp add: set_delete_where)
  ultimately show ?thesis by (auto split: option.splits)
qed

theorem bell_mirrors_failures_witness:
  "bell_ids (snd (reconcile_transcode_failure_notifications_once [''n1'', ''n2'']
     (sample_media [media_row ''v1'' VFAILED 1, media_row ''v2'' VREADY 2] []))) = [''v1'']
   \<and> set (bell_ids (snd (reconcile_transcode_failure_notifications_once [''n1'', ''n2'']
     (sample_media [media_row ''v1'' VFAILED 1, media_row ''v2'' VREADY 2] []))))
     = {vr_id v |v. v \<in> set [media_row ''v1'' VFAILED 1, media_row ''v2'' VREADY 2] \<and> vr_status v = VFAILED \<and> live v}"
proof -
  let ?st = "sample_media [media_row ''v1'' VFAILED 1, media_row ''v2'' VREADY 2] []"
  have "keys_ok vr_id (variants ?st)" "distinct (bell_ids ?st)" "length (variants ?st) \<le> length [''n1'', ''n2'']"
    by code_simp+
  from bell_mirrors_failures [OF this] have
    "set (bell_ids (snd (reconcile_transcode_failure_notifications_once [''n1'', ''n2''] ?st)))
     = {vr_id v |v. v \<in> set (variants ?st) \<and> vr_status v = VFAILED \<and> live v}" by blast
  moreover have "variants ?st = [media_row ''v1'' VFAILED 1, media_row ''v2'' VREADY 2]" by (simp add: sample_media_def)
  moreover have "bell_ids (snd (reconcile_transcode_failure_notifications_once [''n1'', ''n2''] ?st)) = [''v1'']"
    by code_simp
  ultimately show ?thesis by simp
qed

subsection \<open>Recovery of stalled work\<close>

text \<open>The job table after the dead jobs have been closed.\<close>

definition closed_jobs :: "int \<Rightarrow> (job \<times> variant_row) list \<Rightarrow> job list \<Rightarrow> job list" where
  "closed_jobs now rows js = update_where (\<lambda>j. job_id j \<in> set (map (\<lambda>(j, v). job_id j) rows)) (close_stalled_job now) js"

lemma close_stalled_simps [simp]:
  "job_id (close_stalled_job now j) = job_id j" "target_id (close_stalled_job now j) = target_id j"
  "job_type_of (close_stalled_job now j) = job_type_of j" "\<not> active (close_stalled_job now j)"
  "\<not> indexed (close_stalled_job now j)" "job_status_of (close_stalled_job now j) \<noteq> JPROCESSING"
  by (simp_all add: close_stalled_job_def active_def indexed_def ACTIVE_JOB_STATUSES_def)

lemma closed_jobs_ids: "job_id ` set (closed_jobs now rows js) = job_id ` set js"
proof -
  have "map job_id (closed_jobs now rows js) = map job_id js" by (simp add: closed_jobs_def update_where_def)
  then show ?thesis by (metis set_map)
qed

lemma closed_jobs_inv:
  assumes "jobs_inv jt"
  shows "jobs_inv (jt\<lparr>jobs := closed_jobs now rows (jobs jt)\<rparr>)"
proof -
  let ?js = "closed_jobs now rows (jobs jt)"
  have ids: "map job_id ?js = map job_id (jobs jt)" by (simp add: closed_jobs_def update_where_def)
  have sids: "job_id ` set ?js = job_id ` set (jobs jt)" by (rule closed_jobs_ids)
  have "filter indexed (update_where (\<lambda>j. job_id j \<in> S) (close_stalled_job now) js)
      = filter (\<lambda>j. job_id j \<notin> S) (filter indexed js)" for S js
    by (induction js) (auto simp: update_where_def)
  then have "index_ok ?js"
    using assms unfolding index_ok_def jobs_inv_def closed_jobs_def by (metis distinct_map_filter)
  moreover have "\<forall>j \<in> set ?js. job_id j \<in> set (queue jt) \<or> job_id j \<in> ob_job_id ` set (outbox jt)"
  proof
    fix j assume "j \<in> set ?js"
    then have "job_id j \<in> job_id ` set (jobs jt)" using sids by blast
    then show "job_id j \<in> set (queue jt) \<or> job_id j \<in> ob_job_id ` set (outbox jt)"
      using assms by (auto simp: jobs_inv_def covered_def)
  qed
  moreover have "\<forall>j \<in> set ?js. job_status_of j = JPROCESSING \<longrightarrow> retry_count j \<le> MAX_JOB_RETRIES"
    using assms by (auto simp: closed_jobs_def jobs_inv_def set_update_where)
  ultimately show ?thesis using assms ids sids by (simp add: jobs_inv_def keys_ok_def covered_def)
qed

lemma recover_eq:
  "recover_stalled_variants_once ids now locked st =
    (let rows = stalled_rows now locked st;
         vids = map (\<lambda>(j, v). vr_id v) (filter (\<lambda>(j, v). \<not> cancel_requested j) rows);
         cids = map (\<lambda>(j, v). vr_id v) (filter (\<lambda>(j, v). cancel_requested j) rows)
     in if rows = [] then Inr ([], st)
        else result_bind (enqueue_jobs ids now (map (Pair VARIANT_TRANSCODE) vids)
               ((job_tables st)\<lparr>jobs := closed_jobs now rows (jobs (job_tables st))\<rparr>))
          (\<lambda>jt. Inr (vids, st\<lparr>job_tables := jt, variants := update_where (\<lambda>v. vr_id v \<in> set vids) (reset_row VPENDING)
             (update_where (\<lambda>v. vr_id v \<in> set cids) (reset_row VCANCELLED) (variants st))\<rparr>)))"
  by (simp add: recover_stalled_variants_once_def Let_def enqueue_jobs_def set_jobs_def closed_jobs_def result_bind_def
      split: sum.splits)

lemma stalled_jobs_by_variant:
  assumes "index_ok (jobs (job_tables st))" "keys_ok job_id (jobs (job_tables st))"
    and "(j, v) \<in> set (stalled_rows now locked st)" "k \<in> set (jobs (job_tables st))"
    and "indexed k" "target_id k = vr_id v"
  shows "k = j"
proof -
  have j: "j \<in> set (jobs (job_tables st))" "indexed j" "target_id j = vr_id v"
    using stalled_rows_stalled [OF assms(3)] by (auto simp: stalled_def indexed_def active_def ACTIVE_JOB_STATUSES_def)
  then have "j \<in> set (filter indexed (jobs (job_tables st)))" "k \<in> set (filter indexed (jobs (job_tables st)))"
    using assms(4,5) by auto
  then show ?thesis using assms(1,6) j(3) unfolding index_ok_def distinct_map by (metis inj_onD)
qed

lemma closed_not_active:
  assumes "jobs_inv (job_tables st)" "(j, v) \<in> set (stalled_rows now locked st)"
    and "k \<in> set (closed_jobs now (stalled_rows now locked st) (jobs (job_tables st)))"
  shows "\<not> (active k \<and> variant_job (vr_id v) k)"
proof
  let ?rows = "stalled_rows now locked st"
  assume k: "active k \<and> variant_job (vr_id v) k"
  then have "k \<in> set (jobs (job_tables st))" "job_id k \<notin> set (map (\<lambda>(j, v). job_id j) ?rows)"
    using assms(3) by (auto simp: closed_jobs_def set_update_where)
  moreover from this have "k = j"
    using stalled_jobs_by_variant [OF _ _ assms(2)] assms(1) k by (auto simp: jobs_inv_def indexed_def variant_job_def)
  ultimately show False using assms(2) by force
qed

lemma stalled_one_flag:
  assumes "jobs_inv (job_tables st)" "(j, v) \<in> set (stalled_rows now locked st)"
    and "(k, w) \<in> set (stalled_rows now locked st)" "vr_id v = vr_id w"
  shows "k = j"
proof -
  have "k \<in> set (jobs (job_tables st))" "indexed k" "target_id k = vr_id v"
    using stalled_rows_stalled [OF assms(3)] assms(4)
    by (auto simp: stalled_def indexed_def active_def ACTIVE_JOB_STATUSES_def)
  then show ?thesis using stalled_jobs_by_variant [OF _ _ assms(2)] assms(1) by (simp add: jobs_inv_def)
qed

text \<open>The identifiers and counts a recovery needs of its supply of new rows.\<close>

definition job_supply :: "(string \<times> string) list \<Rightarrow> media_db \<Rightarrow> bool" where
  "job_supply ids st \<longleftrightarrow> distinct (map fst ids) \<and> distinct (map snd ids)
     \<and> fst ` set ids \<inter> job_id ` set (jobs (job_tables st)) = {}
     \<and> snd ` set ids \<inter> ob_id ` set (outbox (job_tables st)) = {}"

definition recovered :: "media_db \<Rightarrow> media_db \<Rightarrow> variant_row \<Rightarrow> bool" where
  "recovered st st' v \<longleftrightarrow> reset_row VPENDING v \<in> set (variants st')
     \<and> (\<exists>k \<in> set (jobs (job_tables st')) - set (jobs (job_tables st)).
          variant_job (vr_id v) k \<and> job_status_of k = JPENDING \<and> \<not> cancel_requested k
          \<and> job_id k \<in> ob_job_id ` set (outbox (job_tables st'))
          \<and> (\<forall>k' \<in> set (jobs (job_tables st')). active k' \<and> variant_job (vr_id v) k' \<longrightarrow> k' = k))"

definition put_down :: "media_db \<Rightarrow> variant_row \<Rightarrow> bool" where
  "put_down st' v \<longleftrightarrow> reset_row VCANCELLED v \<in> set (variants st') \<and> \<not> busy st' (vr_id v)"

abbreviation revived :: "(job \<times> variant_row) list \<Rightarrow> string list" where
  "revived rows \<equiv> map (\<lambda>(j, v). vr_id v) (filter (\<lambda>(j, v). \<not> cancel_requested j) rows)"

abbreviation dropped :: "(job \<times> variant_row) list \<Rightarrow> string list" where
  "dropped rows \<equiv> map (\<lambda>(j, v). vr_id v) (filter (\<lambda>(j, v). cancel_requested j) rows)"

lemma recover_result:
  assumes "jobs_inv (job_tables st)" "job_supply ids st" "STALE_RESET_BATCH \<le> length ids"
    and "stalled_rows now locked st = rows" "rows \<noteq> []"
  obtains js obs st' where "recover_stalled_variants_once ids now locked st = Inr (revived rows, st')"
    "jobs_inv (job_tables st')" "jobs (job_tables st') = closed_jobs now rows (jobs (job_tables st)) @ js"
    "outbox (job_tables st') = outbox (job_tables st) @ obs" "ob_job_id ` set obs = job_id ` set js"
    "variants st' = update_where (\<lambda>v. vr_id v \<in> set (revived rows)) (reset_row VPENDING)
      (update_where (\<lambda>v. vr_id v \<in> set (dropped rows)) (reset_row VCANCELLED) (variants st))"
    "(\<lambda>j. (job_type_of j, target_id j)) ` set js = {s \<in> Pair VARIANT_TRANSCODE ` set (revived rows).
        \<not> (\<exists>j \<in> set (closed_jobs now rows (jobs (job_tables st))). active j \<and> (job_type_of j, target_id j) = s)}"
    "\<forall>j \<in> set js. job_status_of j = JPENDING \<and> \<not> cancel_requested j"
proof -
  let ?specs = "map (Pair VARIANT_TRANSCODE) (revived rows)"
  let ?jt = "(job_tables st)\<lparr>jobs := closed_jobs now rows (jobs (job_tables st))\<rparr>"
  have inv1: "jobs_inv ?jt" by (rule closed_jobs_inv [OF assms(1)])
  have "length rows \<le> STALE_RESET_BATCH" unfolding assms(4) [symmetric] stalled_rows_def by simp
  then have len: "length ?specs \<le> length ids"
    unfolding length_map by (rule order_trans [OF length_filter_le order_trans [OF _ assms(3)]])
  have ix: "index_ok (jobs ?jt)" using inv1 by (simp add: jobs_inv_def)
  obtain js obs where
    eq: "enqueue_jobs ids now ?specs ?jt = Inr (?jt\<lparr>jobs := jobs ?jt @ js, outbox := outbox ?jt @ obs\<rparr>)"
    and ob: "map ob_job_id obs = map job_id js"
    and img: "(\<lambda>j. (job_type_of j, target_id j)) ` set js
        = {s \<in> set ?specs. \<not> (\<exists>j \<in> set (jobs ?jt). active j \<and> (job_type_of j, target_id j) = s)}"
    and pend: "\<forall>j \<in> set js. job_status_of j = JPENDING \<and> retry_count j = 0 \<and> \<not> cancel_requested j"
    using enqueue_jobs_total [OF ix len, of now] by blast
  let ?st' = "st\<lparr>job_tables := ?jt\<lparr>jobs := jobs ?jt @ js, outbox := outbox ?jt @ obs\<rparr>,
    variants := update_where (\<lambda>v. vr_id v \<in> set (revived rows)) (reset_row VPENDING)
      (update_where (\<lambda>v. vr_id v \<in> set (dropped rows)) (reset_row VCANCELLED) (variants st))\<rparr>"
  have rec: "recover_stalled_variants_once ids now locked st = Inr (revived rows, ?st')"
    unfolding recover_eq Let_def assms(4) using assms(5) eq by (simp add: result_bind_def)
  have inv': "jobs_inv (job_tables ?st')"
    using enqueue_many_inv [OF inv1 eq _ _ len] assms(2) unfolding job_supply_def by (simp add: closed_jobs_ids)
  have jt: "jobs ?jt = closed_jobs now rows (jobs (job_tables st))" by simp
  show ?thesis
  proof (rule that [OF rec inv'])
    show "(\<lambda>j. (job_type_of j, target_id j)) ` set js = {s \<in> Pair VARIANT_TRANSCODE ` set (revived rows).
        \<not> (\<exists>j \<in> set (closed_jobs now rows (jobs (job_tables st))). active j \<and> (job_type_of j, target_id j) = s)}"
      using img by (simp only: set_map jt)
    show "\<forall>j \<in> set js. job_status_of j = JPENDING \<and> \<not> cancel_requested j" using pend by blast
    show "ob_job_id ` set obs = job_id ` set js" using ob by (metis set_map)
  qed simp_all
qed

lemma recover_cancelled:
  assumes "jobs_inv (job_tables st)" "(j, v) \<in> set (stalled_rows now locked st)" "cancel_requested j"
    and "jobs (job_tables st') = closed_jobs now (stalled_rows now locked st) (jobs (job_tables st)) @ js"
    and "(\<lambda>j. (job_type_of j, target_id j)) ` set js
      = {s \<in> Pair VARIANT_TRANSCODE ` set (revived (stalled_rows now locked st)). Q s}"
    and "variants st' = update_where (\<lambda>v. vr_id v \<in> set (revived (stalled_rows now locked st))) (reset_row VPENDING)
      (update_where (\<lambda>v. vr_id v \<in> set (dropped (stalled_rows now locked st))) (reset_row VCANCELLED) (variants st))"
  shows "put_down st' v"
proof -
  have v: "v \<in> set (variants st)" using stalled_rows_stalled [OF assms(2)] by simp
  have not: "vr_id v \<notin> set (revived (stalled_rows now locked st))"
    using stalled_one_flag [OF assms(1,2)] assms(3) by auto
  have "vr_id v \<in> set (dropped (stalled_rows now locked st))" using assms(2,3) by force
  then have "reset_row VCANCELLED v \<in> set (variants st')"
    using v not unfolding assms(6) by (auto simp: set_update_where reset_row_def)
  moreover have "(VARIANT_TRANSCODE, vr_id v) \<notin> (\<lambda>j. (job_type_of j, target_id j)) ` set js"
    unfolding assms(5) using not by auto
  then have "\<not> busy st' (vr_id v)"
    using closed_not_active [OF assms(1,2)] unfolding busy_def assms(4) list_ex_iff
    by (auto simp: variant_job_def image_iff)
  ultimately show ?thesis by (simp add: put_down_def)
qed

lemma recover_revived:
  assumes "jobs_inv (job_tables st)" "(j, v) \<in> set (stalled_rows now locked st)" "\<not> cancel_requested j"
    and inv': "jobs_inv (job_tables st')"
    and jobs': "jobs (job_tables st') = closed_jobs now (stalled_rows now locked st) (jobs (job_tables st)) @ js"
    and outb: "outbox (job_tables st') = outbox (job_tables st) @ obs" "ob_job_id ` set obs = job_id ` set js"
    and vs': "variants st' = update_where (\<lambda>v. vr_id v \<in> set (revived (stalled_rows now locked st))) (reset_row VPENDING)
      (update_where (\<lambda>v. vr_id v \<in> set (dropped (stalled_rows now locked st))) (reset_row VCANCELLED) (variants st))"
    and img: "(\<lambda>j. (job_type_of j, target_id j)) ` set js
      = {s \<in> Pair VARIANT_TRANSCODE ` set (revived (stalled_rows now locked st)).
        \<not> (\<exists>j \<in> set (closed_jobs now (stalled_rows now locked st) (jobs (job_tables st))).
            active j \<and> (job_type_of j, target_id j) = s)}"
    and pend: "\<forall>j \<in> set js. job_status_of j = JPENDING \<and> \<not> cancel_requested j"
  shows "recovered st st' v"
proof -
  have v: "v \<in> set (variants st)" using stalled_rows_stalled [OF assms(2)] by simp
  have not: "vr_id v \<notin> set (dropped (stalled_rows now locked st))"
    using stalled_one_flag [OF assms(1,2)] assms(3) by auto
  have mem: "vr_id v \<in> set (revived (stalled_rows now locked st))" using assms(2,3) by force
  then have row: "reset_row VPENDING v \<in> set (variants st')"
    using v not unfolding vs' by (auto simp: set_update_where reset_row_def)
  have "(VARIANT_TRANSCODE, vr_id v) \<in> (\<lambda>j. (job_type_of j, target_id j)) ` set js"
    unfolding img using mem closed_not_active [OF assms(1,2)] by (auto simp: variant_job_def)
  then obtain k where k: "k \<in> set js" "variant_job (vr_id v) k" by (auto simp: variant_job_def)
  have k': "k \<in> set (jobs (job_tables st'))" "job_id k \<in> ob_job_id ` set (outbox (job_tables st'))"
    using k(1) outb by (auto simp: jobs' image_Un)
  have "k \<notin> set (jobs (job_tables st))"
  proof
    assume "k \<in> set (jobs (job_tables st))"
    then have "job_id k \<in> job_id ` set (closed_jobs now (stalled_rows now locked st) (jobs (job_tables st)))"
      unfolding closed_jobs_ids by (rule imageI)
    then show False using inv' k(1) by (auto simp: jobs_inv_def keys_ok_def jobs')
  qed
  moreover have "k0 = k" if "k0 \<in> set (jobs (job_tables st'))" "active k0" "variant_job (vr_id v) k0" for k0
  proof -
    have "index_ok (jobs (job_tables st'))" using inv' by (simp add: jobs_inv_def)
    moreover have "indexed k0" "indexed k" "target_id k0 = target_id k"
      using that k pend by (auto simp: indexed_def variant_job_def active_def ACTIVE_JOB_STATUSES_def)
    ultimately show ?thesis using that(1) k'(1) unfolding index_ok_def distinct_map by (auto dest: inj_onD)
  qed
  ultimately show ?thesis using row k k' pend unfolding recovered_def by blast
qed

lemma recovery_result:
  assumes "jobs_inv (job_tables st)" "keys_ok vr_id (variants st)"
    and "job_supply ids st" "STALE_RESET_BATCH \<le> length ids"
  shows "\<exists>vids st'. recover_stalled_variants_once ids now locked st = Inr (vids, st')
    \<and> jobs_inv (job_tables st')
    \<and> (\<forall>(j, v) \<in> set (stalled_rows now locked st). if cancel_requested j then put_down st' v else recovered st st' v)
    \<and> (\<forall>v \<in> set (variants st). v \<notin> snd ` set (stalled_rows now locked st) \<longrightarrow> v \<in> set (variants st'))"
proof (cases "stalled_rows now locked st = []")
  case True
  then show ?thesis using assms(1) by (auto simp: recover_eq)
next
  case False
  let ?rows = "stalled_rows now locked st"
  obtain js obs st' where rec: "recover_stalled_variants_once ids now locked st = Inr (revived ?rows, st')"
    and inv': "jobs_inv (job_tables st')" and jobs': "jobs (job_tables st') = closed_jobs now ?rows (jobs (job_tables st)) @ js"
    and outb: "outbox (job_tables st') = outbox (job_tables st) @ obs" "ob_job_id ` set obs = job_id ` set js"
    and vs': "variants st' = update_where (\<lambda>v. vr_id v \<in> set (revived ?rows)) (reset_row VPENDING)
      (update_where (\<lambda>v. vr_id v \<in> set (dropped ?rows)) (reset_row VCANCELLED) (variants st))"
    and img: "(\<lambda>j. (job_type_of j, target_id j)) ` set js = {s \<in> Pair VARIANT_TRANSCODE ` set (revived ?rows).
        \<not> (\<exists>j \<in> set (closed_jobs now ?rows (jobs (job_tables st))). active j \<and> (job_type_of j, target_id j) = s)}"
    and pend: "\<forall>j \<in> set js. job_status_of j = JPENDING \<and> \<not> cancel_requested j"
    by (rule recover_result [OF assms(1,3,4) refl False])
  have "if cancel_requested j then put_down st' v else recovered st st' v" if jv: "(j, v) \<in> set ?rows" for j v
  proof (cases "cancel_requested j")
    case True
    show ?thesis using True recover_cancelled [OF assms(1) jv True jobs' img vs'] by simp
  next
    case False
    show ?thesis using False recover_revived [OF assms(1) jv False inv' jobs' outb vs' img pend] by simp
  qed
  moreover have "v \<in> set (variants st')" if "v \<in> set (variants st)" "v \<notin> snd ` set ?rows" for v
  proof -
    have other: "vr_id w \<noteq> vr_id v" if "(j, w) \<in> set ?rows" for j w
    proof
      assume "vr_id w = vr_id v"
      moreover have "w \<in> set (variants st)" using stalled_rows_stalled [OF that] by simp
      ultimately have "w = v" using same_row [OF assms(2)] \<open>v \<in> set (variants st)\<close> by blast
      then show False using that \<open>v \<notin> snd ` set ?rows\<close> by force
    qed
    have "vr_id v \<notin> set (revived ?rows)" "vr_id v \<notin> set (dropped ?rows)" using other by fastforce+
    then show ?thesis using that(1) unfolding vs' by (simp add: set_update_where)
  qed
  ultimately show ?thesis using rec inv' by blast
qed

text \<open>
  C13. Recovery of work whose worker stopped heartbeating. The pass succeeds, keeps the invariant of
  the job queue (in particular at most one active job per variant), and for every stalled job it
  picks up: if nobody asked for its cancellation, the variant is PENDING again with exactly one
  active job, a new one with its outbox row, so that the work will run again; if it was flagged,
  the variant is CANCELLED and has no active job, so the cancellation is not undone. Every other
  variant row is untouched.
\<close>

theorem recovery_exact:
  assumes "jobs_inv (job_tables st)" "keys_ok vr_id (variants st)"
    and "job_supply ids st" "STALE_RESET_BATCH \<le> length ids"
  shows "\<exists>vids st'. recover_stalled_variants_once ids now locked st = Inr (vids, st')
    \<and> jobs_inv (job_tables st')
    \<and> (\<forall>(j, v) \<in> set (stalled_rows now locked st). if cancel_requested j then put_down st' v else recovered st st' v)
    \<and> (\<forall>v \<in> set (variants st). v \<notin> snd ` set (stalled_rows now locked st) \<longrightarrow> v \<in> set (variants st'))"
  by (rule recovery_result [OF assms])

definition sample_ids :: "(string \<times> string) list" where
  "sample_ids = map (\<lambda>n. (replicate n CHR ''j'', replicate n CHR ''o'')) [1..<51]"

definition sample_stalled :: media_db where
  "sample_stalled =
     (let st = sample_media [media_row ''v1'' VPROCESSING 1, media_row ''v2'' VPROCESSING 2]
        [(new_job ''x'' VARIANT_TRANSCODE ''v1'' 0)\<lparr>job_status_of := JPROCESSING\<rparr>,
         (new_job ''y'' VARIANT_TRANSCODE ''v2'' 1)\<lparr>job_status_of := JPROCESSING, cancel_requested := True\<rparr>]
      in st\<lparr>job_tables := (job_tables st)\<lparr>queue := [''x'', ''y'']\<rparr>\<rparr>)"

lemma sample_ids_ok: "distinct (map fst sample_ids)" "distinct (map snd sample_ids)" "length sample_ids = 50"
  "''x'' \<notin> fst ` set sample_ids" "''y'' \<notin> fst ` set sample_ids"
  by (auto simp: sample_ids_def distinct_map comp_def inj_on_def replicate_eq_replicate
      Cons_replicate_eq replicate_append_same dest: sym)

theorem recovery_exact_witness:
  "\<exists>vids st'. recover_stalled_variants_once sample_ids 999000000 (\<lambda>_. False) sample_stalled = Inr (vids, st')
    \<and> (\<forall>(j, v) \<in> set (stalled_rows 999000000 (\<lambda>_. False) sample_stalled).
         if cancel_requested j then put_down st' v else recovered sample_stalled st' v)
    \<and> map (\<lambda>(j, v). (job_id j, vr_id v)) (stalled_rows 999000000 (\<lambda>_. False) sample_stalled)
        = [(''x'', ''v1''), (''y'', ''v2'')]"
proof -
  have inv: "jobs_inv (job_tables sample_stalled)" "keys_ok vr_id (variants sample_stalled)" by code_simp+
  have sup: "job_supply sample_ids sample_stalled"
    using sample_ids_ok by (auto simp: job_supply_def sample_stalled_def sample_media_def empty_jobs_def new_job_def)
  have len: "STALE_RESET_BATCH \<le> length sample_ids" by (simp add: STALE_RESET_BATCH_def sample_ids_ok)
  have rows: "map (\<lambda>(j, v). (job_id j, vr_id v)) (stalled_rows 999000000 (\<lambda>_. False) sample_stalled)
        = [(''x'', ''v1''), (''y'', ''v2'')]" by code_simp
  from recovery_exact [OF inv sup len, of 999000000 "\<lambda>_. False"] obtain vids st' where
    "recover_stalled_variants_once sample_ids 999000000 (\<lambda>_. False) sample_stalled = Inr (vids, st')"
    "\<forall>(j, v) \<in> set (stalled_rows 999000000 (\<lambda>_. False) sample_stalled).
         if cancel_requested j then put_down st' v else recovered sample_stalled st' v" by (elim exE conjE)
  then show ?thesis using rows by (intro exI conjI)
qed

section \<open>What each operation spares\<close>

definition fresh_ids :: "string list \<Rightarrow> media_db \<Rightarrow> bool" where
  "fresh_ids ids st \<longleftrightarrow> distinct ids \<and> set ids \<inter> vr_id ` set (variants st) = {}"

lemma add_variants_spares: "fresh_ids ids st \<Longrightarrow> spares {} st (snd (add_variants ids now pairs st))"
  by (auto simp: spares_def add_variants_eq fresh_ids_def intro: keys_new_rows)

lemma enqueue_variants_spares: "enqueue_variants ids now vids st = Inr st' \<Longrightarrow> spares {} st st'"
  by (auto simp: enqueue_variants_def result_bind_eq_Inr intro: spares_refl split: if_splits)

lemma enqueue_for_new_profile_spares:
  "fresh_ids ids st \<Longrightarrow> spares {} st (snd (enqueue_for_new_profile ids now pid st))"
  by (auto simp: enqueue_for_new_profile_def Let_def intro: spares_refl add_variants_spares split: option.splits)

lemma enqueue_transcoding_for_asset_spares:
  "fresh_ids ids st \<Longrightarrow> spares {} st (snd (enqueue_transcoding_for_asset ids now a st))"
  unfolding enqueue_transcoding_for_asset_def by (rule add_variants_spares)

lemma supersede_profile_variants_spares:
  "fresh_ids ids st \<Longrightarrow> spares {} st (snd (supersede_profile_variants ids now pid changed st))"
  by (auto simp: supersede_profile_variants_def intro: spares_refl add_variants_spares split: option.splits)

lemma add_enqueue_spares:
  assumes "fresh_ids ids st" "add_variants ids now pairs st = (vids, st1)" "enqueue_variants jids now vids st1 = Inr st2"
  shows "spares {} st st2"
proof -
  have "spares {} st st1" using add_variants_spares [OF assms(1), of now pairs] assms(2) by simp
  from spares_trans [OF this enqueue_variants_spares [OF assms(3)]] show ?thesis by simp
qed

lemma enqueue_composed_thumbnail_spares:
  "fresh_ids ids st \<Longrightarrow> enqueue_composed_thumbnail ids jids now a st = Inr (vids, st') \<Longrightarrow> spares {} st st'"
  by (auto simp: enqueue_composed_thumbnail_def Let_def result_bind_eq_Inr
      intro: spares_refl add_enqueue_spares split: if_splits prod.splits)

lemma enqueue_missing_composed_thumbnails_spares:
  "fresh_ids ids st \<Longrightarrow> enqueue_missing_composed_thumbnails ids jids now st = Inr (n, st') \<Longrightarrow> spares {} st st'"
  by (auto simp: enqueue_missing_composed_thumbnails_def Let_def result_bind_eq_Inr
      intro: spares_refl add_enqueue_spares split: if_splits prod.splits)

lemma flag_profile_jobs_spares: "spares {} st (snd (flag_profile_jobs_cancelled pid st))"
  by (simp add: flag_profile_jobs_cancelled_def set_jobs_def spares_refl)

lemma update_rows_spares:
  assumes "\<And>v. vr_id (f v) = vr_id v"
    and "\<And>v. v \<in> set (variants st) \<Longrightarrow> P v \<Longrightarrow> vr_status v \<noteq> VREADY \<and> vr_status (f v) \<noteq> VREADY"
    and "variants st' = update_where P f (variants st)" "lib_assets st' = lib_assets st"
  shows "spares A st st'"
proof -
  have "map vr_id (update_where P f vs) = map vr_id vs" for vs using assms(1) by (simp add: update_where_def)
  then show ?thesis
    using ready_rows_update [of "variants st" P f] assms(2-4) by (auto simp: spares_def keys_ok_def)
qed

lemma recover_spares:
  assumes "keys_ok vr_id (variants st)" "recover_stalled_variants_once ids now locked st = Inr (vids, st')"
  shows "spares {} st st'"
proof (cases "stalled_rows now locked st = []")
  case True
  then show ?thesis using assms(2) by (simp add: recover_eq spares_refl)
next
  case False
  let ?rows = "stalled_rows now locked st"
  have busy_row: "vr_status v = VPROCESSING" if v: "v \<in> set (variants st)" "vr_id v \<in> (\<lambda>(j, v). vr_id v) ` set ?rows" for v
  proof -
    obtain j w where w: "(j, w) \<in> set ?rows" "vr_id v = vr_id w" using v(2) by auto
    from stalled_rows_stalled [OF w(1)] have "w \<in> set (variants st)" "vr_status w = VPROCESSING"
      by (simp_all add: stalled_def)
    then show ?thesis using same_row [OF assms(1) v(1)] w(2) by blast
  qed
  let ?st1 = "st\<lparr>variants := update_where (\<lambda>v. vr_id v \<in> set (dropped ?rows)) (reset_row VCANCELLED) (variants st)\<rparr>"
  have sub: "set (dropped ?rows) \<subseteq> (\<lambda>(j, v). vr_id v) ` set ?rows" "set (revived ?rows) \<subseteq> (\<lambda>(j, v). vr_id v) ` set ?rows"
    by auto
  have one: "spares {} st ?st1"
  proof (rule update_rows_spares [where P = "\<lambda>v. vr_id v \<in> set (dropped ?rows)" and f = "reset_row VCANCELLED"])
    fix v assume "v \<in> set (variants st)" "vr_id v \<in> set (dropped ?rows)"
    then have "vr_status v = VPROCESSING" using busy_row sub(1) by blast
    then show "vr_status v \<noteq> VREADY \<and> vr_status (reset_row VCANCELLED v) \<noteq> VREADY" by (simp add: reset_row_def)
  qed (simp_all add: reset_row_def)
  have "spares {} ?st1 st'"
  proof (rule update_rows_spares [where P = "\<lambda>v. vr_id v \<in> set (revived ?rows)" and f = "reset_row VPENDING"])
    fix v assume v: "v \<in> set (variants ?st1)" "vr_id v \<in> set (revived ?rows)"
    from v(1) obtain u where u: "u \<in> set (variants st)" "v = reset_row VCANCELLED u \<or> v = u"
      by (auto simp: set_update_where)
    then have "vr_id u \<in> set (revived ?rows)" using v(2) by (auto simp: reset_row_def)
    then have "vr_status u = VPROCESSING" using busy_row [OF u(1)] sub(2) by blast
    then show "vr_status v \<noteq> VREADY \<and> vr_status (reset_row VPENDING v) \<noteq> VREADY"
      using u(2) by (auto simp: reset_row_def)
  next
    show "variants st' = update_where (\<lambda>v. vr_id v \<in> set (revived ?rows)) (reset_row VPENDING) (variants ?st1)"
      "lib_assets st' = lib_assets ?st1"
      using assms(2) False by (auto simp: recover_eq Let_def result_bind_eq_Inr)
  qed (simp add: reset_row_def)
  from spares_trans [OF one this] show ?thesis by simp
qed

lemma tick_lib:
  assumes "keys_ok vr_id (variants st)"
  shows "keys_ok asset_id (lib_assets st) \<Longrightarrow> keys_ok asset_id (lib_assets (asset_reaper_tick env ids now st))"
    and "a \<in> set (lib_assets st) \<Longrightarrow> asset_id a \<notin> dead_assets st \<Longrightarrow> a \<in> set (lib_assets (asset_reaper_tick env ids now st))"
  using tick2_spares [of st env] tick4_spares [OF keys_tick(2) [OF assms], of env now]
  by (auto simp: spares_def tick_tables tick3_def supersede_ready_variants_once_def)

section \<open>A gap in the fan-out\<close>

text \<open>Disabling a profile cancels its transcodes in flight; a cancelled variant is not deleted and
  counts as existing, so enabling the profile again creates nothing for its asset, which stays
  unready.\<close>

theorem cancelled_variant_blocks_fanout:
  "enqueue_for_new_profile [''v2''] 9 ''p'' (sample_media [media_row ''v1'' VCANCELLED 1] [])
     = ([], sample_media [media_row ''v1'' VCANCELLED 1] [])
   \<and> is_asset_ready (map (as_variant sample_lib_asset) [media_row ''v1'' VCANCELLED 1])
     = (False, Some ''transcode failed'')"
  by (rule conjI) code_simp+

end
