(* ===== verification/Worker.thy ===== *)
theory Worker
  imports Variants
begin

text \<open>
  The transcode worker: the rows \<^verbatim>\<open>worker/transcoder.py\<close> writes around an encoding and the
  handling of one queue message by \<^verbatim>\<open>worker/__main__.py\<close> (queue mode). An encoding is split at
  the point where other processes can act: \<open>start_transcode\<close> up to the commit of PROCESSING and
  \<open>finish_transcode\<close> with the outcome of the encoder, which is a parameter. Exceptions of the
  database connection and of the deletion of a queue message are not modelled.
\<close>

section \<open>Rows written around an encoding\<close>

definition NO_RETRY_ERRORS :: "string list" where
  "NO_RETRY_ERRORS = [''Image conversion failed'', ''Invalid data found'']"

definition should_retry :: "variant_row \<Rightarrow> lib_asset \<Rightarrow> bool" where
  "should_retry v a = (if asset_type_of a \<noteq> SAVED_STREAM then False
     else \<not> list_ex (\<lambda>pat. contains_text pat (vr_error v)) NO_RETRY_ERRORS)"

text \<open>\<^verbatim>\<open>_mark_failed\<close>.\<close>

definition mark_failed_row :: "lib_asset \<Rightarrow> string \<Rightarrow> variant_row \<Rightarrow> variant_row" where
  "mark_failed_row a msg v =
     (let v1 = v\<lparr>vr_error := take 500 msg\<rparr>
      in if should_retry v1 a then v1\<lparr>vr_status := VPENDING, vr_progress := 0\<rparr>
         else v1\<lparr>vr_status := VFAILED, vr_progress := 0\<rparr>)"

definition write_row :: "string \<Rightarrow> (variant_row \<Rightarrow> variant_row) \<Rightarrow> media_db \<Rightarrow> media_db" where
  "write_row vid f st = st\<lparr>variants := update_where (\<lambda>v. vr_id v = vid) f (variants st)\<rparr>"

definition source_asset_is_deleted :: "media_db \<Rightarrow> string \<Rightarrow> bool" where
  "source_asset_is_deleted st aid = (case find_by asset_id aid (lib_assets st) of
     None \<Rightarrow> False | Some a \<Rightarrow> asset_deleted_at a \<noteq> None)"

definition owner_job_lost :: "media_db \<Rightarrow> string option \<Rightarrow> bool" where
  "owner_job_lost st owner = (case owner of None \<Rightarrow> False
     | Some jid \<Rightarrow> (case find_by job_id jid (jobs (job_tables st)) of
         None \<Rightarrow> True | Some j \<Rightarrow> job_status_of j \<in> set TERMINAL_JOB_STATUSES))"

definition source_path :: "lib_asset \<Rightarrow> media_db \<Rightarrow> string" where
  "source_path a st = (case original_filename a of
     Some f \<Rightarrow> if f \<noteq> '''' \<and> original_path f \<in> set (local_files st) then original_path f else filename a
   | None \<Rightarrow> filename a)"

definition output_path :: "lib_asset \<Rightarrow> device_profile \<Rightarrow> variant_row \<Rightarrow> string" where
  "output_path a p v = variant_path
     (if asset_type_of a = IMAGE \<and> purpose p \<noteq> ''thumbnail''
      then stem (vr_filename v) @ image_variant_ext (filename a) else vr_filename v)"

definition blank :: "string \<Rightarrow> bool" where
  "blank s = list_all (\<lambda>c. c \<in> {CHR '' '', CHR 0x09, CHR 0x0A, CHR 0x0B, CHR 0x0C, CHR 0x0D}) s"

text \<open>How \<^verbatim>\<open>transcode_variant_by_id\<close> begins: the row is gone, is READY, is refused with an error,
  or is being encoded.\<close>

datatype dispatch = Gone | Already_Ready | Refused string | Encoding

definition dispatch_of :: "lib_asset \<Rightarrow> device_profile \<Rightarrow> media_db \<Rightarrow> dispatch" where
  "dispatch_of a p st =
     (if asset_type_of a = COMPOSED then
        (if purpose p \<noteq> ''thumbnail'' then Refused ''Composed slides only support thumbnail variants'' else Encoding)
      else if asset_type_of a = WEBPAGE then
        (if purpose p \<noteq> ''thumbnail'' then Refused ''Webpage assets only support thumbnail variants''
         else if blank (case asset_url a of None \<Rightarrow> '''' | Some u \<Rightarrow> u) then Refused ''Webpage asset has no URL''
         else Encoding)
      else if source_path a st \<notin> set (local_files st) then Refused ''Source file not found''
      else Encoding)"

definition start_transcode :: "string \<Rightarrow> media_db \<Rightarrow> dispatch \<times> media_db" where
  "start_transcode vid st =
     (case find_by vr_id vid (variants st) of
        None \<Rightarrow> (Gone, st)
      | Some v \<Rightarrow>
          if vr_status v = VREADY then (Already_Ready, st)
          else case (find_by asset_id (vr_asset v) (lib_assets st), find_by prof_id (vr_profile v) (profiles st)) of
            (Some a, Some p) \<Rightarrow>
              (case dispatch_of a p st of
                 Refused msg \<Rightarrow> (Refused msg, write_row vid (mark_failed_row a msg) st)
               | d \<Rightarrow> (d, write_row vid (reset_row VPROCESSING) st))
          | _ \<Rightarrow> (Gone, st))"

text \<open>What the encoder reports: the checksum and size of the file it wrote, an error, or that it
  was terminated for a cancellation (the row is then left as it is).\<close>

datatype encoded = Encoded string int | Encode_Error string | Terminated

definition published_row :: "int \<Rightarrow> string \<Rightarrow> int \<Rightarrow> variant_row \<Rightarrow> variant_row" where
  "published_row now sha n v = v\<lparr>vr_checksum := sha, vr_size := n, vr_status := VREADY, vr_progress := 1000,
     vr_completed := Some now\<rparr>"

text \<open>The snapshot branch (\<^verbatim>\<open>_render_thumbnail_from_png\<close>) checks the asset only; the other branches
  also check that the job is still theirs.\<close>

definition finish_transcode ::
  "storage_env \<Rightarrow> int \<Rightarrow> string option \<Rightarrow> encoded \<Rightarrow> variant_row \<Rightarrow> lib_asset \<Rightarrow> device_profile \<Rightarrow> media_db \<Rightarrow> media_db" where
  "finish_transcode env now owner enc v a p st =
     (case enc of
        Terminated \<Rightarrow> st
      | Encode_Error msg \<Rightarrow> write_row (vr_id v) (mark_failed_row a msg) st
      | Encoded sha n \<Rightarrow>
          let out = output_path a p v;
              st1 = st\<lparr>local_files := local_files st @ [out]\<rparr>;
              aborted = st1\<lparr>local_files := filter (\<lambda>f. \<not> (f = out \<and> unlink_ok env f)) (local_files st1)\<rparr>
          in if source_asset_is_deleted st1 (vr_asset v) then aborted
             else if asset_type_of a \<notin> set THUMBNAIL_ONLY_ASSET_TYPES \<and> owner_job_lost st1 owner then aborted
             else if vr_id v \<notin> vr_id ` set (variants st1) then st1
             else (write_row (vr_id v) (published_row now sha n) st1)
                    \<lparr>remote_blobs := remote_blobs st @ [variant_path (vr_filename v)]\<rparr>)"

definition recover_interrupted :: "media_db \<Rightarrow> nat \<times> media_db" where
  "recover_interrupted st =
     (rowcount (\<lambda>v. vr_status v = VPROCESSING) (variants st),
      st\<lparr>variants := update_where (\<lambda>v. vr_status v = VPROCESSING) (reset_row VPENDING) (variants st)\<rparr>)"

text \<open>The claim of \<^verbatim>\<open>process_pending\<close>, the mode without a queue.\<close>

definition claim_pending :: "(string \<Rightarrow> bool) \<Rightarrow> media_db \<Rightarrow> (string \<times> media_db) option" where
  "claim_pending locked st =
     (case sort_key vr_created (filter (\<lambda>v. vr_status v = VPENDING \<and> \<not> locked (vr_id v)
         \<and> (case find_by asset_id (vr_asset v) (lib_assets st) of None \<Rightarrow> False | Some a \<Rightarrow> asset_deleted_at a = None))
         (variants st)) of
        [] \<Rightarrow> None
      | v # _ \<Rightarrow> Some (vr_id v, write_row (vr_id v) (reset_row VPROCESSING) st))"

definition mark_variant_failed_on_exhaustion :: "job \<Rightarrow> media_db \<Rightarrow> string \<times> media_db" where
  "mark_variant_failed_on_exhaustion j st =
     (if job_type_of j \<noteq> VARIANT_TRANSCODE then (''not_variant'', st)
      else let msg = ''job exceeded retry limit ('' @ int_text (int (retry_count j)) @ '' attempts): ''
                 @ take 200 (either_text (error_message j) ''unknown failure'');
               latest = sort_key (\<lambda>k. - job_created_at k) (filter (variant_job (target_id j)) (jobs (job_tables st)))
           in if latest \<noteq> [] \<and> job_id (hd latest) \<noteq> job_id j then (''skipped_newer_job'', st)
              else case find_by vr_id (target_id j) (variants st) of
                None \<Rightarrow> (''missing'', st)
              | Some v \<Rightarrow>
                  if vr_status v \<notin> set NON_TERMINAL then (''skipped_status'', st)
                  else (''updated'', write_row (vr_id v) (repair_row (VFAILED, msg)) st))"

section \<open>One queue message\<close>

definition heartbeat_stamp :: "int \<Rightarrow> string \<Rightarrow> media_db \<Rightarrow> bool option \<times> media_db" where
  "heartbeat_stamp now jid st =
     (map_option cancel_requested (List.find (\<lambda>j. job_id j = jid \<and> job_status_of j \<notin> set TERMINAL_JOB_STATUSES)
        (jobs (job_tables st))),
      set_jobs (update_where (\<lambda>j. job_id j = jid \<and> job_status_of j \<notin> set TERMINAL_JOB_STATUSES)
        (\<lambda>j. j\<lparr>heartbeat_at := Some now\<rparr>)) st)"

text \<open>The source asset of a job's target, and why a claimed job is not run; \<open>shown\<close> prints an
  instant.\<close>

definition target_asset :: "job \<Rightarrow> media_db \<Rightarrow> lib_asset option" where
  "target_asset j st =
     (case job_type_of j of
        VARIANT_TRANSCODE \<Rightarrow> (case find_by vr_id (target_id j) (variants st) of
          None \<Rightarrow> None | Some v \<Rightarrow> find_by asset_id (vr_asset v) (lib_assets st))
      | STREAM_CAPTURE \<Rightarrow> find_by asset_id (target_id j) (lib_assets st)
      | VOICE_SYNTHESIS \<Rightarrow> find_by asset_id (target_id j) (lib_assets st)
      | _ \<Rightarrow> None)"

definition cancel_reason :: "(int \<Rightarrow> string) \<Rightarrow> job \<Rightarrow> media_db \<Rightarrow> string option" where
  "cancel_reason shown j st =
     (if cancel_requested j then Some ''cancel_requested on job''
      else case target_asset j st of None \<Rightarrow> None
        | Some a \<Rightarrow> (case asset_deleted_at a of None \<Rightarrow> None
            | Some t \<Rightarrow> Some ((if job_type_of j = VARIANT_TRANSCODE then ''source '' else '''')
                @ ''asset soft-deleted at '' @ shown t)))"

definition put_job :: "string \<Rightarrow> job_status \<Rightarrow> string \<Rightarrow> media_db \<Rightarrow> media_db" where
  "put_job jid s msg = set_jobs (update_where (\<lambda>j. job_id j = jid)
     (\<lambda>j. j\<lparr>job_status_of := s, error_message := take 2000 msg\<rparr>))"

definition cancel_writes :: "job \<Rightarrow> string \<Rightarrow> media_db \<Rightarrow> media_db" where
  "cancel_writes j msg st =
     (let st1 = put_job (job_id j) JCANCELLED msg st
      in if job_type_of j = VARIANT_TRANSCODE
         then st1\<lparr>variants := update_where (still_open (target_id j)) (repair_row (VCANCELLED, msg)) (variants st1)\<rparr>
         else st1)"

datatype preflight = Drop_Message | Proceed job

definition preflight :: "(int \<Rightarrow> string) \<Rightarrow> int \<Rightarrow> string \<Rightarrow> media_db \<Rightarrow> (preflight \<times> media_db) result" where
  "preflight shown now jid st =
     result_bind (claim_job now jid (job_tables st)) (\<lambda>(r, jt).
       let st1 = st\<lparr>job_tables := jt\<rparr>
       in case r of
            None \<Rightarrow> Inr (Drop_Message, st1)
          | Some j \<Rightarrow>
              if job_status_of j = JDONE then Inr (Drop_Message, st1)
              else if job_status_of j = JFAILED then Inr (Drop_Message, snd (mark_variant_failed_on_exhaustion j st1))
              else case cancel_reason shown j st1 of
                  Some msg \<Rightarrow> Inr (Drop_Message, cancel_writes j msg st1)
                | None \<Rightarrow> Inr (Proceed j, st1))"

text \<open>What the run of a job left behind when its message is finalized.\<close>

record run_flags =
  sigterm :: bool
  replica_timeout :: bool
  job_evicted :: bool
  lease_actually_lost :: bool
  cancel_observed :: bool
  terminal_failure :: bool
  success :: bool
  run_error :: "string option"

definition REPLICA_TIMEOUT_S :: int where "REPLICA_TIMEOUT_S = 7200"

definition REPLICA_TIMEOUT_MARGIN_S :: int where "REPLICA_TIMEOUT_MARGIN_S = 300"

text \<open>Uptime in seconds.\<close>

definition sigterm_is_replica_timeout :: "int \<Rightarrow> bool" where
  "sigterm_is_replica_timeout uptime \<longleftrightarrow> uptime \<ge> REPLICA_TIMEOUT_S - REPLICA_TIMEOUT_MARGIN_S"

definition TIMEOUT_MSG :: string where
  "TIMEOUT_MSG = ''Transcode exceeded the 2 hour time limit.''"

definition timeout_row :: "variant_row \<Rightarrow> variant_row" where
  "timeout_row v = v\<lparr>vr_status := VFAILED, vr_error := TIMEOUT_MSG\<rparr>"

text \<open>The answer is whether the queue message is deleted. The last branch is the only write that
  can violate the index on active transcode jobs.\<close>

definition finalize :: "int \<Rightarrow> run_flags \<Rightarrow> job \<Rightarrow> media_db \<Rightarrow> (bool \<times> media_db) result" where
  "finalize now fl j st =
     (if sigterm fl \<and> \<not> replica_timeout fl then Inr (True, st)
      else if sigterm fl then
        Inr (True, let st1 = put_job (job_id j) JFAILED TIMEOUT_MSG st
                   in if job_type_of j = VARIANT_TRANSCODE then write_row (target_id j) timeout_row st1 else st1)
      else if job_evicted fl then Inr (True, st)
      else if lease_actually_lost fl then Inr (False, st)
      else if cancel_observed fl then Inr (True, cancel_writes j ''cancelled mid-transcode'' st)
      else if terminal_failure fl then
        result_bind (mark_failed now (job_id j)
            (take 2000 (case run_error fl of None \<Rightarrow> ''terminal'' | Some e \<Rightarrow> either_text e ''terminal'')) (job_tables st))
          (\<lambda>jt. Inr (True, st\<lparr>job_tables := jt\<rparr>))
      else if success fl then
        result_bind (mark_done now (job_id j) (job_tables st)) (\<lambda>jt. Inr (True, st\<lparr>job_tables := jt\<rparr>))
      else result_bind (set_job (job_id j)
            (\<lambda>j. j\<lparr>job_status_of := JPENDING, error_message := take 2000
               (case run_error fl of None \<Rightarrow> ''unknown failure'' | Some e \<Rightarrow> either_text e ''unknown failure'')\<rparr>) (job_tables st))
          (\<lambda>jt. Inr (False, st\<lparr>job_tables := jt\<rparr>)))"

section \<open>The media database as a transition system\<close>

text \<open>Every operation of the server and of the worker on the media tables. A step carries what it means for the
  variants in service: nothing, or that an encoding of an asset was published, or that a READY
  variant of an asset was marked failed. The last two are the end of an encoding and the record of a
  replica timeout, which write the row whatever its status is.\<close>

datatype media_event = Quiet | Published string | Taken_Out string

definition unready :: "string \<Rightarrow> media_db \<Rightarrow> bool" where
  "unready vid st \<longleftrightarrow> (\<forall>v \<in> set (variants st). vr_id v = vid \<longrightarrow> vr_status v \<noteq> VREADY)"

definition publishes :: "encoded \<Rightarrow> bool" where
  "publishes enc = (case enc of Encoded sha n \<Rightarrow> True | _ \<Rightarrow> False)"

text \<open>What a write to the row \<open>vid\<close> means; a write that leaves the rows as they are means nothing.\<close>

definition row_event :: "bool \<Rightarrow> string \<Rightarrow> media_db \<Rightarrow> media_db \<Rightarrow> media_event" where
  "row_event published vid st st' =
     (if variants st' = variants st then Quiet
      else case find_by vr_id vid (variants st) of
          None \<Rightarrow> Quiet
        | Some w \<Rightarrow> if published then Published (vr_asset w)
                    else if vr_status w = VREADY then Taken_Out (vr_asset w) else Quiet)"

inductive media_step :: "media_event \<Rightarrow> media_db \<Rightarrow> media_db \<Rightarrow> bool" where
  ms_edit: "fresh_ids ids st \<Longrightarrow> supersede_profile_variants ids now pid changed st = (vids, st') \<Longrightarrow> media_step Quiet st st'"
| ms_flag: "flag_profile_jobs_cancelled pid st = (n, st') \<Longrightarrow> media_step Quiet st st'"
| ms_profile: "fresh_ids ids st \<Longrightarrow> enqueue_for_new_profile ids now pid st = (vids, st') \<Longrightarrow> media_step Quiet st st'"
| ms_asset: "fresh_ids ids st \<Longrightarrow> enqueue_transcoding_for_asset ids now a st = (vids, st') \<Longrightarrow> media_step Quiet st st'"
| ms_thumbnail: "fresh_ids ids st \<Longrightarrow> enqueue_composed_thumbnail ids jids now a st = Inr (vids, st') \<Longrightarrow> media_step Quiet st st'"
| ms_backfill: "fresh_ids ids st \<Longrightarrow> enqueue_missing_composed_thumbnails ids jids now st = Inr (n, st') \<Longrightarrow> media_step Quiet st st'"
| ms_enqueue: "enqueue_variants jids now vids st = Inr st' \<Longrightarrow> media_step Quiet st st'"
| ms_recover: "recover_stalled_variants_once jids now locked st = Inr (vids, st') \<Longrightarrow> media_step Quiet st st'"
| ms_tick: "asset_reaper_tick env nids now st = st' \<Longrightarrow> media_step Quiet st st'"
| ms_stamp: "heartbeat_stamp now jid st = (flag, st') \<Longrightarrow> media_step Quiet st st'"
| ms_preflight: "preflight shown now jid st = Inr (r, st') \<Longrightarrow> media_step Quiet st st'"
| ms_start: "start_transcode vid st = (d, st') \<Longrightarrow> media_step Quiet st st'"
| ms_finish: "finish_transcode env now owner enc v a p st = st' \<Longrightarrow>
    media_step (row_event (publishes enc) (vr_id v) st st') st st'"
| ms_finalize: "finalize now fl j st = Inr (deleted, st') \<Longrightarrow>
    media_step (if sigterm fl \<and> replica_timeout fl then row_event False (target_id j) st st' else Quiet) st st'"
| ms_interrupted: "recover_interrupted st = (n, st') \<Longrightarrow> media_step Quiet st st'"
| ms_claim: "claim_pending locked st = Some (vid, st') \<Longrightarrow> media_step Quiet st st'"

inductive media_run :: "media_db \<Rightarrow> media_event list \<Rightarrow> media_db \<Rightarrow> bool" where
  mr_none: "media_run st [] st"
| mr_step: "media_run st es st1 \<Longrightarrow> media_step e st1 st' \<Longrightarrow> media_run st (es @ [e]) st'"

lemma write_row_spares:
  assumes "unready vid st" "\<And>v. vr_id (f v) = vr_id v" "\<And>v. vr_status (f v) \<noteq> VREADY"
  shows "spares A st (write_row vid f st)"
  by (rule update_rows_spares [where P = "\<lambda>v. vr_id v = vid" and f = f])
    (use assms in \<open>auto simp: write_row_def unready_def\<close>)

lemma mark_failed_row_simps [simp]:
  "vr_id (mark_failed_row a msg v) = vr_id v" "vr_status (mark_failed_row a msg v) \<noteq> VREADY"
  by (simp_all add: mark_failed_row_def Let_def)

lemma reset_repair_simps [simp]:
  "vr_id (reset_row s v) = vr_id v" "vr_status (reset_row s v) = s"
  "vr_id (repair_row sm v) = vr_id v" "vr_status (repair_row sm v) = fst sm"
  by (simp_all add: reset_row_def repair_row_def)

lemma find_unready:
  assumes "keys_ok vr_id (variants st)" "find_by vr_id vid (variants st) = Some v" "vr_status v \<noteq> VREADY"
  shows "unready vid st"
  using find_by_Some [OF assms(2)] same_row [OF assms(1)] assms(3) by (auto simp: unready_def)

lemma exhaustion_spares:
  assumes "keys_ok vr_id (variants st)"
  shows "spares {} st (snd (mark_variant_failed_on_exhaustion j st))"
proof -
  have "spares {} st (write_row (vr_id v) (repair_row (VFAILED, msg)) st)"
    if "find_by vr_id (target_id j) (variants st) = Some v" "vr_status v \<in> set NON_TERMINAL" for v msg
  proof (rule write_row_spares)
    have "vr_status v \<noteq> VREADY" using that(2) by (auto simp: NON_TERMINAL_def)
    then show "unready (vr_id v) st" using find_unready [OF assms that(1)] find_by_Some [OF that(1)] by simp
  qed simp_all
  then show ?thesis
    by (auto simp: mark_variant_failed_on_exhaustion_def Let_def intro: spares_refl split: option.splits)
qed

lemma cancel_writes_spares: "spares {} st (cancel_writes j msg st)"
proof (cases "job_type_of j = VARIANT_TRANSCODE")
  case True
  show ?thesis
    by (rule update_rows_spares [where P = "still_open (target_id j)" and f = "repair_row (VCANCELLED, msg)"])
      (auto simp: True cancel_writes_def Let_def put_job_def set_jobs_def still_open_def NON_TERMINAL_def)
qed (simp add: cancel_writes_def Let_def put_job_def set_jobs_def spares_refl)

lemma preflight_spares:
  assumes "keys_ok vr_id (variants st)" "preflight shown now jid st = Inr (r, st')"
  shows "spares {} st st'"
proof -
  obtain q jt where "claim_job now jid (job_tables st) = Inr (q, jt)"
    and rest: "(case q of
            None \<Rightarrow> Inr (Drop_Message, st\<lparr>job_tables := jt\<rparr>)
          | Some j \<Rightarrow>
              if job_status_of j = JDONE then Inr (Drop_Message, st\<lparr>job_tables := jt\<rparr>)
              else if job_status_of j = JFAILED
                then Inr (Drop_Message, snd (mark_variant_failed_on_exhaustion j (st\<lparr>job_tables := jt\<rparr>)))
              else case cancel_reason shown j (st\<lparr>job_tables := jt\<rparr>) of
                  Some msg \<Rightarrow> Inr (Drop_Message, cancel_writes j msg (st\<lparr>job_tables := jt\<rparr>))
                | None \<Rightarrow> Inr (Proceed j, st\<lparr>job_tables := jt\<rparr>)) = (Inr (r, st') :: (preflight \<times> media_db) result)"
    using assms(2) by (auto simp: preflight_def Let_def result_bind_eq_Inr)
  have one: "spares {} st (st\<lparr>job_tables := jt\<rparr>)" by (simp add: spares_refl)
  have "spares {} (st\<lparr>job_tables := jt\<rparr>) st'"
    using rest exhaustion_spares [of "st\<lparr>job_tables := jt\<rparr>"] cancel_writes_spares [of "st\<lparr>job_tables := jt\<rparr>"] assms(1)
    by (auto intro: spares_refl split: option.splits if_splits)
  from spares_trans [OF one this] show ?thesis by simp
qed

lemma start_spares:
  assumes "keys_ok vr_id (variants st)"
  shows "spares {} st (snd (start_transcode vid st))"
proof (cases "find_by vr_id vid (variants st)")
  case (Some v)
  have "spares {} st (write_row vid (mark_failed_row a msg) st)" "spares {} st (write_row vid (reset_row VPROCESSING) st)"
    if "vr_status v \<noteq> VREADY" for a msg
    using find_unready [OF assms Some that] by (auto intro: write_row_spares)
  then show ?thesis
    using Some by (auto simp: start_transcode_def spares_refl split: option.splits dispatch.splits)
qed (simp add: start_transcode_def spares_refl)

text \<open>A write to one row that keeps its identity leaves the rows of other assets alone.\<close>

lemma write_row_asset_spares:
  assumes "keys_ok vr_id (variants st)" "find_by vr_id vid (variants st) = Some w"
    and f: "\<And>v. vr_id (f v) = vr_id v" "\<And>v. vr_asset (f v) = vr_asset v"
  shows "spares {vr_asset w} st (write_row vid f st)"
proof -
  have w: "v = w" if "v \<in> set (variants st)" "vr_id v = vid" for v
    using same_row [OF assms(1)] find_by_Some [OF assms(2)] that by blast
  have "map vr_id (variants (write_row vid f st)) = map vr_id (variants st)"
    using f(1) by (simp add: write_row_def update_where_def)
  moreover have "ready_rows aid (update_where (\<lambda>v. vr_id v = vid) f vs) = ready_rows aid vs"
    if "aid \<noteq> vr_asset w" "set vs \<subseteq> set (variants st)" for aid vs
    using that(2) w that(1) f by (induction vs) (auto simp: ready_rows_def update_where_def)
  ultimately show ?thesis by (auto simp: spares_def keys_ok_def write_row_def)
qed

lemma write_missing_row: "find_by vr_id vid (variants st) = None \<Longrightarrow> variants (write_row vid f st) = variants st"
  by (auto simp: write_row_def update_where_def find_by_None intro!: map_idI)

definition event_assets :: "media_event \<Rightarrow> string set" where
  "event_assets e = (case e of Quiet \<Rightarrow> {} | Published aid \<Rightarrow> {aid} | Taken_Out aid \<Rightarrow> {aid})"

text \<open>A step that writes one row, or none: its event names the asset of the row, unless the row was not and is not READY.\<close>

lemma row_write_spares:
  assumes "keys_ok vr_id (variants st)" "\<And>v. vr_id (f v) = vr_id v" "\<And>v. vr_asset (f v) = vr_asset v"
    and "published \<or> (\<forall>v. vr_status (f v) \<noteq> VREADY)"
    and "variants st' = variants (write_row vid f st) \<or> variants st' = variants st" "lib_assets st' = lib_assets st"
  shows "spares (event_assets (row_event published vid st st')) st st'"
proof (cases "variants st' = variants st")
  case True
  then show ?thesis using assms(6) by (simp add: spares_refl)
next
  case False
  then have st': "variants st' = variants (write_row vid f st)" using assms(5) by blast
  obtain w where w: "find_by vr_id vid (variants st) = Some w"
    using False st' write_missing_row [of vid st f] by (cases "find_by vr_id vid (variants st)") auto
  have "spares {} st (write_row vid f st)" if "vr_status w \<noteq> VREADY" "\<not> published"
    using that find_unready [OF assms(1) w] assms(2,4) by (intro write_row_spares) auto
  moreover note write_row_asset_spares [OF assms(1) w, where f = f, OF assms(2,3)]
  ultimately have "spares (event_assets (row_event published vid st st')) st (write_row vid f st)"
    using False w by (auto simp: row_event_def event_assets_def)
  then show ?thesis using st' assms(6) by (simp add: spares_def write_row_def)
qed

lemma finish_spares:
  assumes "keys_ok vr_id (variants st)"
  shows "spares (event_assets (row_event (publishes enc) (vr_id v) st (finish_transcode env now owner enc v a p st))) st
    (finish_transcode env now owner enc v a p st)"
proof (cases enc)
  case (Encoded sha n)
  show ?thesis
    by (rule row_write_spares [OF assms, where f = "published_row now sha n"])
      (simp_all add: Encoded finish_transcode_def published_row_def publishes_def write_row_def Let_def)
next
  case (Encode_Error msg)
  show ?thesis
    by (rule row_write_spares [OF assms, where f = "mark_failed_row a msg"])
      (simp_all add: Encode_Error finish_transcode_def mark_failed_row_def write_row_def Let_def)
qed (simp add: finish_transcode_def spares_refl)

lemma finalize_spares:
  assumes "keys_ok vr_id (variants st)" "finalize now fl j st = Inr (deleted, st')"
  shows "spares (event_assets (if sigterm fl \<and> replica_timeout fl then row_event False (target_id j) st st' else Quiet)) st st'"
proof (cases "sigterm fl \<and> replica_timeout fl")
  case True
  have "spares (event_assets (row_event False (target_id j) st st')) st st'"
    by (rule row_write_spares [OF assms(1), where f = timeout_row])
      (use assms(2) True in \<open>auto simp: finalize_def timeout_row_def put_job_def set_jobs_def write_row_def Let_def\<close>)
  then show ?thesis using True by simp
next
  case False
  have "spares {} st (st\<lparr>job_tables := jt\<rparr>)" "spares {} st st" for jt by (simp_all add: spares_refl)
  then have "spares {} st st'"
    using assms(2) False cancel_writes_spares
    by (auto simp: finalize_def Let_def result_bind_eq_Inr split: if_splits)
  then show ?thesis unfolding if_not_P [OF False] by (simp add: event_assets_def)
qed

lemma claim_pending_spares:
  assumes "keys_ok vr_id (variants st)" "claim_pending locked st = Some (vid, st')"
  shows "spares {} st st'"
proof -
  let ?L = "filter (\<lambda>v. vr_status v = VPENDING \<and> \<not> locked (vr_id v)
         \<and> (case find_by asset_id (vr_asset v) (lib_assets st) of None \<Rightarrow> False | Some a \<Rightarrow> asset_deleted_at a = None)) (variants st)"
  obtain v vs where v: "sort_key vr_created ?L = v # vs" "st' = write_row (vr_id v) (reset_row VPROCESSING) st"
    using assms(2) by (auto simp: claim_pending_def split: list.splits)
  have "v \<in> set (sort_key vr_created ?L)" unfolding v(1) by simp
  then have "v \<in> set (variants st)" "vr_status v = VPENDING" by auto
  then have "unready (vr_id v) st" using find_unready [OF assms(1) find_by_mem [OF assms(1)]] by simp
  then show ?thesis unfolding v(2) by (rule write_row_spares) simp_all
qed

lemma interrupted_spares: "spares {} st (snd (recover_interrupted st))"
  by (rule update_rows_spares [where P = "\<lambda>v. vr_status v = VPROCESSING" and f = "reset_row VPENDING"])
    (auto simp: recover_interrupted_def)

definition hands :: "lib_asset \<Rightarrow> asset_variant set \<Rightarrow> media_db \<Rightarrow> bool" where
  "hands a P st \<longleftrightarrow> keys_ok vr_id (variants st) \<and> keys_ok asset_id (lib_assets st) \<and> a \<in> set (lib_assets st)
     \<and> asset_deleted_at a = None \<and> set (playable st a) = P"

lemma spares_apart: "spares A st st' \<Longrightarrow> asset_id a \<notin> A \<Longrightarrow> hands a P st \<Longrightarrow> hands a P st'"
  using playable_cong [of a st' st] by (simp add: spares_def hands_def)

lemma spares_hands: "spares {} st st' \<Longrightarrow> hands a P st \<Longrightarrow> hands a P st'"
  using playable_cong [of a st' st] by (simp add: spares_def hands_def)

lemma tick_hands:
  assumes "hands a P st"
  shows "hands a P (asset_reaper_tick env ids now st)"
proof -
  have "asset_id a \<notin> dead_assets st"
    unfolding dead_assets_def by (rule live_asset_spared) (use assms in \<open>simp_all add: hands_def\<close>)
  moreover have "set (playable (asset_reaper_tick env ids now st) a) = set (playable st a)"
    using foremost_tick [of st a env ids now] assms by (simp add: hands_def)
  ultimately show ?thesis using assms tick_lib [of st] keys_tick(3) [of st] by (simp add: hands_def)
qed

lemma media_step_hands: "media_step e st st' \<Longrightarrow> asset_id a \<notin> event_assets e \<Longrightarrow> hands a P st \<Longrightarrow> hands a P st'"
proof (induction rule: media_step.induct)
  case (ms_tick env nids now st st')
  then show ?case using tick_hands by blast
next
  case (ms_recover jids now locked st vids st')
  then show ?case using recover_spares spares_hands by (metis hands_def)
next
  case (ms_preflight shown now jid st r st')
  then show ?case using preflight_spares spares_hands by (metis hands_def)
next
  case (ms_start vid st d st')
  then show ?case using start_spares [of st vid] spares_hands by (metis hands_def snd_conv)
next
  case (ms_claim locked st vid st')
  then show ?case using claim_pending_spares spares_hands by (metis hands_def)
next
  case (ms_stamp now jid st flag st')
  then have "spares {} st st'" by (auto simp: heartbeat_stamp_def set_jobs_def intro: spares_refl)
  then show ?case using ms_stamp spares_hands by blast
next
  case (ms_finish env now owner enc v a' p st st')
  then show ?case using finish_spares [of st enc v] spares_apart by (metis hands_def)
next
  case (ms_finalize now fl j st deleted st')
  then show ?case using finalize_spares spares_apart by (metis hands_def)
next
  case (ms_edit ids st now pid changed vids st')
  then show ?case using supersede_profile_variants_spares spares_hands by (metis snd_conv)
next
  case (ms_flag pid st n st')
  then show ?case using flag_profile_jobs_spares spares_hands by (metis snd_conv)
next
  case (ms_profile ids st now pid vids st')
  then show ?case using enqueue_for_new_profile_spares spares_hands by (metis snd_conv)
next
  case (ms_asset ids st now a vids st')
  then show ?case using enqueue_transcoding_for_asset_spares spares_hands by (metis snd_conv)
next
  case (ms_thumbnail ids st jids now a vids st')
  then show ?case using enqueue_composed_thumbnail_spares spares_hands by blast
next
  case (ms_backfill ids st jids now n st')
  then show ?case using enqueue_missing_composed_thumbnails_spares spares_hands by blast
next
  case (ms_enqueue jids now vids st st')
  then show ?case using enqueue_variants_spares spares_hands by blast
next
  case (ms_interrupted st n st')
  then show ?case using interrupted_spares spares_hands by (metis snd_conv)
qed

lemma media_run_hands:
  "media_run st es st' \<Longrightarrow> asset_id a \<notin> \<Union> (event_assets ` set es) \<Longrightarrow> hands a P st \<Longrightarrow> hands a P st'"
  by (induction rule: media_run.induct) (auto dest: media_step_hands)

section \<open>Properties\<close>

text \<open>
  C12. Devices keep playing the last good encoding. However profile edits, fan-outs, thumbnail
  requests, recovery passes, reaper ticks, claims, cancellations, retries, ends of encodings and ends of runs
  interleave, the READY variants handed out per profile for an asset that is not deleted stay the
  same as long as no encoding of that asset is published and no READY variant of it is marked failed. Only two
  writes do the latter, the failure an encoder reports after its row became READY and the record of a replica
  timeout (\<open>late_failure_clobbers_ready\<close>, \<open>timeout_clobbers_ready\<close>). The deletion of the asset and the one-off repair of file extensions are not among
  the steps.
\<close>

theorem handed_until_publication:
  assumes "media_run st es st'" "keys_ok vr_id (variants st)" "keys_ok asset_id (lib_assets st)"
    and "a \<in> set (lib_assets st)" "asset_deleted_at a = None"
    and "Published (asset_id a) \<notin> set es" "Taken_Out (asset_id a) \<notin> set es"
  shows "set (playable st' a) = set (playable st a)"
proof -
  have "hands a (set (playable st a)) st" using assms(2-5) by (simp add: hands_def)
  moreover have "asset_id a \<notin> \<Union> (event_assets ` set es)"
    using assms(6,7) by (auto simp: event_assets_def split: media_event.splits)
  ultimately show ?thesis using media_run_hands [OF assms(1)] by (simp add: hands_def)
qed

definition edited :: media_db where
  "edited = snd (supersede_profile_variants [''v2''] 5 ''p'' None (sample_media [media_row ''v1'' VREADY 1] []))"

theorem handed_until_publication_witness:
  "map av_id (playable (asset_reaper_tick media_env [] 9 edited) sample_lib_asset) = [''v1'']
   \<and> map vr_id (variants edited) = [''v1'', ''v2'']
   \<and> set (playable (asset_reaper_tick media_env [] 9 edited) sample_lib_asset)
      = set (playable (sample_media [media_row ''v1'' VREADY 1] []) sample_lib_asset)"
proof -
  let ?st = "sample_media [media_row ''v1'' VREADY 1] []"
  have "fresh_ids [''v2''] ?st" by code_simp
  then have "media_step Quiet ?st edited" by (rule ms_edit) (simp add: edited_def prod_eq_iff)
  moreover have "media_step Quiet edited (asset_reaper_tick media_env [] 9 edited)" by (rule ms_tick) (rule refl)
  ultimately have run: "media_run ?st [Quiet, Quiet] (asset_reaper_tick media_env [] 9 edited)"
    using mr_step [OF mr_step [OF mr_none]] by fastforce
  have "keys_ok vr_id (variants ?st)" "keys_ok asset_id (lib_assets ?st)" by code_simp+
  moreover have "sample_lib_asset \<in> set (lib_assets ?st)" "asset_deleted_at sample_lib_asset = None"
    by (simp_all add: sample_media_def sample_lib_asset_def)
  moreover have "map av_id (playable (asset_reaper_tick media_env [] 9 edited) sample_lib_asset) = [''v1'']" by code_simp
  moreover have "map vr_id (variants edited) = [''v1'', ''v2'']" by code_simp
  ultimately show ?thesis using handed_until_publication [OF run, of sample_lib_asset] by simp
qed

text \<open>
  C15. The guards of the READY write. When the end of an encoding of an asset with a source file turns
  a row READY, the row carries the checksum and size the encoder reported, the encoded file is
  there, the source asset is not deleted, and the job that started the encoding, if there is one,
  still exists and has not been closed by anyone else.
\<close>

theorem publication_guarded:
  assumes "asset_type_of a \<notin> {COMPOSED, WEBPAGE}" "unready (vr_id v) st"
    and "w \<in> set (variants (finish_transcode env now owner enc v a p st))" "vr_id w = vr_id v" "vr_status w = VREADY"
  shows "(\<exists>sha n. enc = Encoded sha n \<and> vr_checksum w = sha \<and> vr_size w = n)
    \<and> output_path a p v \<in> set (local_files (finish_transcode env now owner enc v a p st))
    \<and> \<not> source_asset_is_deleted st (vr_asset v)
    \<and> (\<forall>jid. owner = Some jid \<longrightarrow> (\<exists>j \<in> set (jobs (job_tables st)). job_id j = jid \<and> active j))"
proof (cases enc)
  case (Encoded sha n)
  let ?st1 = "st\<lparr>local_files := local_files st @ [output_path a p v]\<rparr>"
  have same: "source_asset_is_deleted ?st1 = source_asset_is_deleted st" "owner_job_lost ?st1 = owner_job_lost st"
    by (auto simp: source_asset_is_deleted_def owner_job_lost_def fun_eq_iff split: option.splits)
  have alive: "\<not> source_asset_is_deleted st (vr_asset v)" and own: "\<not> owner_job_lost st owner"
    and here: "vr_id v \<in> vr_id ` set (variants st)"
    using assms Encoded same
    by (auto simp: finish_transcode_def Let_def unready_def THUMBNAIL_ONLY_ASSET_TYPES_def split: if_splits)
  then have fin: "finish_transcode env now owner enc v a p st
      = (write_row (vr_id v) (published_row now sha n) ?st1)\<lparr>remote_blobs := remote_blobs st @ [variant_path (vr_filename v)]\<rparr>"
    using Encoded same by (simp add: finish_transcode_def Let_def)
  have "vr_checksum w = sha \<and> vr_size w = n"
    using assms(3,4) by (auto simp: fin write_row_def set_update_where published_row_def)
  moreover have "\<exists>j \<in> set (jobs (job_tables st)). job_id j = jid \<and> active j" if who: "owner = Some jid" for jid
  proof -
    obtain j where j: "find_by job_id jid (jobs (job_tables st)) = Some j" "job_status_of j \<notin> set TERMINAL_JOB_STATUSES"
      using own who by (auto simp: owner_job_lost_def split: option.splits)
    have "active j" using j(2)
      by (cases "job_status_of j") (simp_all add: active_def ACTIVE_JOB_STATUSES_def TERMINAL_JOB_STATUSES_def)
    then show ?thesis using find_by_Some [OF j(1)] by blast
  qed
  moreover have "output_path a p v \<in> set (local_files (finish_transcode env now owner enc v a p st))"
    unfolding fin by (simp add: write_row_def)
  ultimately show ?thesis using alive Encoded by blast
next
  case (Encode_Error msg)
  then show ?thesis using assms by (auto simp: finish_transcode_def write_row_def set_update_where unready_def)
next
  case Terminated
  then show ?thesis using assms by (auto simp: finish_transcode_def unready_def)
qed

definition sample_profile :: device_profile where
  "sample_profile = \<lparr>prof_id = ''p'', prof_name = ''pi'', purpose = ''device'', prof_enabled = True, builtin = False,
     settings = []\<rparr>"

definition running :: "job_status \<Rightarrow> media_db" where
  "running s = sample_media [media_row ''v1'' VPROCESSING 1]
     [(new_job ''x'' VARIANT_TRANSCODE ''v1'' 0)\<lparr>job_status_of := s\<rparr>]"

theorem publication_guarded_witness:
  "map vr_status (variants (finish_transcode media_env 9 (Some ''x'') (Encoded ''sha'' 7) (media_row ''v1'' VPROCESSING 1)
     sample_lib_asset sample_profile (running JPROCESSING))) = [VREADY]
   \<and> map vr_status (variants (finish_transcode media_env 9 (Some ''x'') (Encoded ''sha'' 7) (media_row ''v1'' VPROCESSING 1)
     sample_lib_asset sample_profile (running JFAILED))) = [VPROCESSING]
   \<and> (\<exists>j \<in> set (jobs (job_tables (running JPROCESSING))). job_id j = ''x'' \<and> active j)"
proof -
  let ?v = "media_row ''v1'' VPROCESSING 1"
  let ?fin = "finish_transcode media_env 9 (Some ''x'') (Encoded ''sha'' 7) ?v sample_lib_asset sample_profile"
  let ?w = "published_row 9 ''sha'' 7 ?v"
  have st: "asset_type_of sample_lib_asset \<notin> {COMPOSED, WEBPAGE}" by (simp add: sample_lib_asset_def)
  have un: "unready (vr_id ?v) (running JPROCESSING)" by code_simp
  have rows: "variants (?fin (running JPROCESSING)) = [?w]" by code_simp
  have w: "?w \<in> set (variants (?fin (running JPROCESSING)))" unfolding rows by simp
  have "vr_id ?w = vr_id ?v" "vr_status ?w = VREADY" by code_simp+
  from publication_guarded [OF st un w this]
  have "\<exists>j \<in> set (jobs (job_tables (running JPROCESSING))). job_id j = ''x'' \<and> active j" by blast
  moreover have "map vr_status (variants (?fin (running JPROCESSING))) = [VREADY]" unfolding rows by code_simp
  moreover have "map vr_status (variants (?fin (running JFAILED))) = [VPROCESSING]" by code_simp
  ultimately show ?thesis by blast
qed

text \<open>The snapshot of a composed slide or web page has no such guard: a worker whose job was
  closed by the monitor, its replacement already staged, still publishes.\<close>

theorem snapshot_ignores_eviction:
  "map vr_status (variants (finish_transcode media_env 9 (Some ''x'') (Encoded ''sha'' 7) (media_row ''v1'' VPROCESSING 1)
     (sample_lib_asset\<lparr>asset_type_of := COMPOSED\<rparr>) (sample_profile\<lparr>purpose := ''thumbnail''\<rparr>) (running JFAILED))) = [VREADY]"
  by code_simp

text \<open>Two writes take a READY variant out of service although nothing is wrong with it: the
  late failure of a worker that has lost its job, and the record of a replica timeout.\<close>

theorem late_failure_clobbers_ready:
  "map vr_status (variants (finish_transcode media_env 9 (Some ''x'') (Encode_Error ''ffmpeg exit code 1'')
     (media_row ''v1'' VPROCESSING 1) sample_lib_asset sample_profile
     (sample_media [media_row ''v1'' VREADY 1] [(new_job ''x'' VARIANT_TRANSCODE ''v1'' 0)\<lparr>job_status_of := JFAILED\<rparr>])))
   = [VFAILED]"
  by code_simp

theorem timeout_clobbers_ready:
  "map_option (\<lambda>(d, st). map vr_status (variants st))
     (case finalize 9 \<lparr>sigterm = True, replica_timeout = True, job_evicted = False, lease_actually_lost = False,
        cancel_observed = False, terminal_failure = False, success = True, run_error = None\<rparr>
        (new_job ''x'' VARIANT_TRANSCODE ''v1'' 0) (sample_media [media_row ''v1'' VREADY 1] []) of
      Inl e \<Rightarrow> None | Inr r \<Rightarrow> Some r) = Some [VFAILED]"
  by code_simp

text \<open>A permanent failure is run again: the message of a job whose variant failed is kept, the next
  delivery starts the encoding of the FAILED variant once more.\<close>

theorem failed_variant_is_restarted:
  "fst (start_transcode ''v1'' ((sample_media [media_row ''v1'' VFAILED 1] [])\<lparr>local_files := [''clip.mp4'']\<rparr>)) = Encoding"
  by code_simp

lemma all_stalled_picked:
  assumes "length (filter (stalled now locked) (List.product (jobs (job_tables st)) (variants st))) \<le> STALE_RESET_BATCH"
    and "j \<in> set (jobs (job_tables st))" "v \<in> set (variants st)" "stalled now locked (j, v)"
  shows "(j, v) \<in> set (stalled_rows now locked st)"
proof -
  let ?L = "filter (stalled now locked) (List.product (jobs (job_tables st)) (variants st))"
  have "stalled_rows now locked st = sort_key (\<lambda>(j, v). job_created_at j) ?L"
    unfolding stalled_rows_def using assms(1) by (intro take_all) simp
  then show ?thesis using assms(2-4) by simp
qed

text \<open>
  C14. Work interrupted by a shutdown is not lost. When a worker is stopped for a reason that is not the
  time limit, it deletes its queue message and leaves the job and the variant in PROCESSING; the
  first recovery pass more than the heartbeat timeout after its last stamp, if no more than one
  batch is stalled, sets the variant to PENDING and stages exactly one new active job for it.
\<close>

theorem interrupted_work_is_restaged:
  assumes "jobs_inv (job_tables st)" "keys_ok vr_id (variants st)"
    and "job_supply ids st" "STALE_RESET_BATCH \<le> length ids"
    and "j \<in> set (jobs (job_tables st))" "job_type_of j = VARIANT_TRANSCODE" "job_status_of j = JPROCESSING"
    and "heartbeat_at j = Some t" "\<not> cancel_requested j"
    and "v \<in> set (variants st)" "vr_id v = target_id j" "vr_status v = VPROCESSING" "live v"
    and "sigterm fl" "\<not> replica_timeout fl" "t + STALE_HEARTBEAT_TIMEOUT * 1000000 < now"
    and "length (filter (stalled now (\<lambda>_. False)) (List.product (jobs (job_tables st)) (variants st))) \<le> STALE_RESET_BATCH"
  shows "\<exists>st' vids st''. finalize t' fl j st = Inr (True, st')
    \<and> recover_stalled_variants_once ids now (\<lambda>_. False) st' = Inr (vids, st'') \<and> recovered st st'' v"
proof -
  have fin: "finalize t' fl j st = Inr (True, st)" using assms(14,15) by (simp add: finalize_def)
  have "stalled now (\<lambda>_. False) (j, v)" using assms(6-8,11-13,16) by (simp add: stalled_def)
  then have row: "(j, v) \<in> set (stalled_rows now (\<lambda>_. False) st)"
    using all_stalled_picked [OF assms(17,5,10)] by blast
  obtain vids st'' where rec: "recover_stalled_variants_once ids now (\<lambda>_. False) st = Inr (vids, st'')"
    and each: "\<forall>(j, v) \<in> set (stalled_rows now (\<lambda>_. False) st). if cancel_requested j then put_down st'' v else recovered st st'' v"
    using recovery_result [OF assms(1-4), of now "\<lambda>_. False"] by (elim exE conjE)
  have "recovered st st'' v" using bspec [OF each row] assms(9) by simp
  with fin rec show ?thesis by blast
qed

definition sample_interrupted :: media_db where
  "sample_interrupted =
     (let st = sample_media [media_row ''v1'' VPROCESSING 1]
        [(new_job ''x'' VARIANT_TRANSCODE ''v1'' 0)\<lparr>job_status_of := JPROCESSING, heartbeat_at := Some 5\<rparr>]
      in st\<lparr>job_tables := (job_tables st)\<lparr>queue := [''x'']\<rparr>\<rparr>)"

theorem interrupted_work_is_restaged_witness:
  "\<exists>st' vids st''. finalize 0 \<lparr>sigterm = True, replica_timeout = False, job_evicted = False, lease_actually_lost = False,
        cancel_observed = False, terminal_failure = False, success = False, run_error = None\<rparr>
        ((new_job ''x'' VARIANT_TRANSCODE ''v1'' 0)\<lparr>job_status_of := JPROCESSING, heartbeat_at := Some 5\<rparr>)
        sample_interrupted = Inr (True, st')
    \<and> recover_stalled_variants_once sample_ids 999000000 (\<lambda>_. False) st' = Inr (vids, st'')
    \<and> recovered sample_interrupted st'' (media_row ''v1'' VPROCESSING 1)"
proof -
  let ?st = sample_interrupted
  let ?j = "(new_job ''x'' VARIANT_TRANSCODE ''v1'' 0)\<lparr>job_status_of := JPROCESSING, heartbeat_at := Some 5\<rparr>"
  have "jobs_inv (job_tables ?st)" "keys_ok vr_id (variants ?st)" by code_simp+
  moreover have "job_supply sample_ids ?st"
    using sample_ids_ok by (auto simp: job_supply_def sample_interrupted_def sample_media_def empty_jobs_def new_job_def)
  moreover have "STALE_RESET_BATCH \<le> length sample_ids" by (simp add: STALE_RESET_BATCH_def sample_ids_ok)
  moreover have "?j \<in> set (jobs (job_tables ?st))" "media_row ''v1'' VPROCESSING 1 \<in> set (variants ?st)"
    by (simp_all add: sample_interrupted_def sample_media_def)
  moreover have "job_type_of ?j = VARIANT_TRANSCODE" "job_status_of ?j = JPROCESSING" "heartbeat_at ?j = Some 5"
    "\<not> cancel_requested ?j" "vr_id (media_row ''v1'' VPROCESSING 1) = target_id ?j"
    "vr_status (media_row ''v1'' VPROCESSING 1) = VPROCESSING" "live (media_row ''v1'' VPROCESSING 1)"
    "5 + STALE_HEARTBEAT_TIMEOUT * 1000000 < 999000000" by code_simp+
  moreover have "length (filter (stalled 999000000 (\<lambda>_. False)) (List.product (jobs (job_tables ?st)) (variants ?st)))
      \<le> STALE_RESET_BATCH" by code_simp
  ultimately show ?thesis
    by (intro interrupted_work_is_restaged [where t = 5]) simp_all
qed

end
