(* ===== verification/Spec2Isabelle.thy ===== *)
theory Spec2Isabelle
  imports Schedule_Api Leader Jobs Log_Chunks Ota_Progress Alerts Severity Slideshow_Resolver Bootstrap Inbound Accounts Fleet Upgrade Features Device_Status Worker
begin

text \<open>
  Agora CMS: a verification development.

  Agora CMS schedules content on a fleet of signage devices. Several replicas of the server share
  one database; devices connect through a gateway, report their state and receive sync and fetch
  messages; a leader replica runs the periodic passes; a worker transcodes through a job queue. The
  theories follow that division. Each opens with what it holds; this header says how they fit.

  \<^bold>\<open>Foundations.\<close> \<open>Prelude\<close> has the named collections, Python errors as a sum type, dates as
  ordinals, times of day, naive datetimes with their order, dictionaries in insertion order and text
  helpers. \<open>Table\<close> has the SQL statements the services issue and the locale \<open>keyed_table\<close> of tables
  with a primary key, interpreted for every table below; \<open>Prelude\<close> has the locale \<open>step_invariant\<close>, which carries what each step of a
  transition system keeps along its runs and is interpreted for each such system. \<open>Json\<close> has the JSON values devices send.
  \<open>Schedule_Model\<close> has the rows of \<^verbatim>\<open>shared/models/asset.py\<close>, \<^verbatim>\<open>cms/models/device.py\<close> and
  \<^verbatim>\<open>cms/models/schedule.py\<close>.

  \<^bold>\<open>Scheduling.\<close> \<open>Occurrence\<close> is \<^verbatim>\<open>cms/services/occurrence.py\<close>: when a schedule plays and when two
  overlap, proved equal to a set of instants. \<open>Targeting\<close> is which devices a schedule reaches and the
  End Now skips. \<open>Now_Playing\<close>, \<open>Upcoming\<close>, \<open>Device_Sync\<close> and \<open>Evaluate\<close> are the parts of
  \<^verbatim>\<open>cms/services/scheduler.py\<close>: the dashboard lists, the message a device is sent and the leader's
  pass with its MISSED bookkeeping. The choice of one schedule per device, and of the newest variant
  per profile, are instances of the locale \<open>tournament\<close>. \<open>Config_Validation\<close> is
  \<^verbatim>\<open>device_config_validation.py\<close>; \<open>Readiness\<close> is \<^verbatim>\<open>variant_view.py\<close> and \<^verbatim>\<open>asset_readiness.py\<close>;
  \<open>Schedule_Api\<close> is \<^verbatim>\<open>cms/routers/schedules.py\<close> with the invariant that the table never needs a tie
  break. \<open>Slideshow_Resolver\<close> is \<^verbatim>\<open>slideshow_resolver.py\<close>: decks, windows, playback slots, the file
  each device downloads, the resolved checksum and the fetch message.

  \<^bold>\<open>Replicas and jobs.\<close> \<open>Leader\<close> is \<^verbatim>\<open>leader.py\<close> as a transition system of replicas with mutual exclusion
  and failover; \<open>Jobs\<close> is \<^verbatim>\<open>shared/services/jobs.py\<close>, the transactional outbox and the worker's claims. \<open>Variants\<close> is
  \<^verbatim>\<open>cms/services/transcoder.py\<close>: the variants of an asset per device profile, their supersession when a profile is edited,
  the recovery of jobs whose worker died and the sweeps of the reaper. \<open>Worker\<close> is the transcode worker
  (\<^verbatim>\<open>worker/transcoder.py\<close>, \<^verbatim>\<open>worker/__main__.py\<close>) around the encoder: the handling of a queue message and the rows it writes. Both act
  on one media database, whose steps keep what \<open>Readiness\<close> hands to devices until an encoding
  is published or a READY variant is marked failed.

  \<^bold>\<open>Devices.\<close> \<open>Presence\<close> is \<^verbatim>\<open>device_presence.py\<close>; \<open>Device_Events\<close> is \<^verbatim>\<open>device_events.py\<close> with the incident
  lifecycle of \<^verbatim>\<open>device_alerts.py\<close>; \<open>Alerts\<close> is \<^verbatim>\<open>alert_service.py\<close> over both, with the stream of outage
  notifications refined to an automaton; \<open>Severity\<close> is the triage half of \<^verbatim>\<open>device_alerts.py\<close>;
  \<open>Ota_Progress\<close> is \<^verbatim>\<open>ota_progress.py\<close>. \<open>Log_Outbox\<close> is the collection of device logs
  (\<^verbatim>\<open>log_outbox.py\<close>, \<^verbatim>\<open>log_drainer.py\<close>, \<^verbatim>\<open>log_reaper.py\<close>, \<^verbatim>\<open>routers/log_requests.py\<close>) and \<open>Log_Chunks\<close> the
  binary chunk path of \<^verbatim>\<open>log_chunk_assembler.py\<close>, which delivers a bundle sent in pieces to the row of its request.

  \<^bold>\<open>Bootstrap.\<close> \<open>Identity\<close> is \<^verbatim>\<open>device_identity.py\<close> with \<^verbatim>\<open>shared/wps_signature.py\<close>: base64 keys, pairing codes, canonical
  messages, nonces, rate limits and webhook signatures; \<open>Ecies\<close> is its hybrid encryption. \<open>Bootstrap\<close> is
  \<^verbatim>\<open>device_bootstrap.py\<close>, \<^verbatim>\<open>fleet_registry.py\<close> and \<^verbatim>\<open>routers/bootstrap.py\<close>: the table of registrations with its invariant over
  every run of the endpoints, and the path from a typed code to the payload the device decrypts. \<open>Iso_Text\<close> and
  \<open>Uuid\<close> hold the texts of the standard library they share.

  \<^bold>\<open>Messages.\<close> \<open>Transport\<close> is the registry of sockets and the two ways to send (\<^verbatim>\<open>transport.py\<close>, \<^verbatim>\<open>wps_transport.py\<close>,
  \<^verbatim>\<open>device_manager.py\<close>); \<open>Device_Register\<close> is \<^verbatim>\<open>device_register.py\<close> with the rotation of device keys; \<open>Inbound\<close> is
  \<^verbatim>\<open>device_inbound.py\<close> on every message type, with the webhook of \<^verbatim>\<open>routers/wps_webhook.py\<close> and the socket of \<^verbatim>\<open>routers/ws.py\<close>
  around it.

  \<^bold>\<open>Operators.\<close> \<open>Accounts\<close> is \<^verbatim>\<open>cms/auth.py\<close>, \<^verbatim>\<open>cms/permissions.py\<close>, users, roles, API keys and the sign-in pages: who is let in, what a
  role grants, which groups a user sees, and the invariant of the account tables. \<open>Fleet\<close> is tags, owning groups and the device and group
  interfaces (\<^verbatim>\<open>device_tags.py\<close>, \<^verbatim>\<open>device_membership.py\<close>, \<^verbatim>\<open>routers/device_tags.py\<close>, \<^verbatim>\<open>routers/devices.py\<close>): together with the schedule
  interface they keep the tables consistent, so that no adopted device has two eligible schedules of the same highest priority, unless tags given
  before its adoption, which the program does not check, brought the overlap. \<open>Os_Bundles\<close>
  is \<^verbatim>\<open>bundle_checker.py\<close> and \<open>Upgrade\<close> the upgrade request with its claim, as a protocol of concurrent requests, and \<^verbatim>\<open>device_purge.py\<close>.
  \<open>Features\<close> is \<^verbatim>\<open>feature_flags.py\<close> with its administration. \<open>Device_Status\<close> is the schedule page of one device, which in a consistent
  fleet leaves no running schedule out.

  \<^bold>\<open>Conventions.\<close> State is passed explicitly; a handler returns its result with the new state, and an
  exception is the left of a sum. Concurrent replicas, lost messages and crashes are the steps of
  inductive relations, and invariants are proved by rule induction over them; one transaction is one
  step, and reads the clock once. A read without a lock and the write it guards are one step too (the claim of a job, the end of
  an encoding with its probe and its upload), and claims of an upgrade have increasing times. Instants are microseconds as integers, naive local datetimes are a
  day with a time of day. UUIDs are their canonical text. Text is a list of bytes, ASCII where a
  Python operation depends on it.

  \<^bold>\<open>Parameters and assumptions.\<close> The time-zone database, the transport, the queue and storage clients, the outcome of an encoding,
  SHA-256, \<^verbatim>\<open>float()\<close> on text and the parser of ISO timestamps are arguments of the definitions that use
  them. The clock is inside the calendar of \<^verbatim>\<open>datetime\<close>; durations of media are whole microseconds;
  floating-point percentages and temperatures are exact rationals.

  \<^bold>\<open>Loops and bounds.\<close> Recursion is structural or has a measure: the text of an integer, the UTF-8 scan
  and the collapsing of spaces in a tag name; the searches for a free schedule name and a free username
  have as fuel one more than the number of rows, which is shown to be enough.

  \<^bold>\<open>Not modelled.\<close> Page rendering and application start (\<^verbatim>\<open>cms/ui.py\<close>, \<^verbatim>\<open>cms/main.py\<close>), the asset library,
  the encoder and its command lines, composed-slide rendering, the imager, the assistant, speech synthesis, the
  MCP wrappers, storage clients, migrations and deployment scripts: they are mostly I/O around
  libraries the repository only calls.
\<close>

end
